(* ===== verification/ER_Prelude.thy ===== *)
theory ER_Prelude
  imports Main "HOL-Library.Word"
begin

unbundle bit_operations_syntax

text \<open>
  Shared vocabulary of the development: the machine types of the code, the outcome
  type of its decoders, and the generic facts on lists, maps and words that the component
  theories use.  Nothing here models a particular source file.

  Bytes and fixed-width integers are words, so every addition, subtraction and shift wraps as
  the C++ operation does.  Buffers (\<open>std::vector<uint8_t>\<close>, \<open>std::span<const uint8_t>\<close>)
  are lists of bytes; sizes and cursors (\<open>size_t\<close>) are \<open>nat\<close>, since no
  buffer of the program comes near \<open>2 ^ 64\<close> bytes.
\<close>

section \<open>Machine types\<close>

type_synonym u8 = "8 word"
type_synonym u16 = "16 word"
type_synonym u32 = "32 word"
type_synonym u64 = "64 word"
type_synonym bytes = "u8 list"

section \<open>Outcome of a decoder\<close>

text \<open>
  The C++ decoders return \<open>false\<close> on malformed input (\<open>Rejected\<close>) and
  fill an out parameter otherwise (\<open>Decoded\<close>).  Reading a span past its end is
  undefined behaviour; the models make it the separate outcome \<open>Faulted\<close>, so that
  "no decoder ever reads out of range" is a theorem and not an assumption.
\<close>

datatype 'a decoded = Faulted | Rejected | Decoded 'a

fun bind_decoded :: "'a decoded \<Rightarrow> ('a \<Rightarrow> 'b decoded) \<Rightarrow> 'b decoded" where
  "bind_decoded Faulted f = Faulted"
| "bind_decoded Rejected f = Rejected"
| "bind_decoded (Decoded x) f = f x"

definition fault_free :: "'a decoded \<Rightarrow> bool" where
  "fault_free d \<longleftrightarrow> d \<noteq> Faulted"

lemma fault_free_simps [simp]:
  "fault_free (Decoded x)" "fault_free Rejected" "\<not> fault_free Faulted"
  by (simp_all add: fault_free_def)

lemma bind_decoded_eq_Decoded [simp]:
  "bind_decoded d f = Decoded y \<longleftrightarrow> (\<exists>x. d = Decoded x \<and> f x = Decoded y)"
  by (cases d) auto

text \<open>An out-of-range read (a \<open>None\<close>) inside a decoder is a fault.\<close>

definition or_fault :: "'a option \<Rightarrow> 'a decoded" where
  "or_fault r = (case r of None \<Rightarrow> Faulted | Some x \<Rightarrow> Decoded x)"

lemma or_fault_simps [simp]:
  "or_fault None = Faulted" "or_fault (Some x) = Decoded x"
  by (simp_all add: or_fault_def)

section \<open>Lists\<close>

text \<open>A bounds-checked read and the sub-span \<open>span.subspan(off, n)\<close>.\<close>

definition read_at :: "'a list \<Rightarrow> nat \<Rightarrow> 'a option" where
  "read_at xs i = (if i < length xs then Some (xs ! i) else None)"

definition subspan :: "'a list \<Rightarrow> nat \<Rightarrow> nat \<Rightarrow> 'a list option" where
  "subspan xs off n = (if off + n \<le> length xs then Some (take n (drop off xs)) else None)"

lemma read_at_append [simp]:
  "read_at (xs @ ys) i = (if i < length xs then Some (xs ! i) else read_at ys (i - length xs))"
  by (auto simp: read_at_def nth_append)

lemma subspan_append_mid:
  "length xs = off \<Longrightarrow> length ys = n \<Longrightarrow> subspan (xs @ ys @ zs) off n = Some ys"
  by (simp add: subspan_def)

lemma nth_list_update_if:
  "xs[i := x] ! j = (if i = j \<and> i < length xs then x else xs ! j)"
  by (cases "i < length xs") (simp_all add: nth_list_update list_update_beyond)

lemma fold_upt_Suc: "fold f [0..<Suc n] s = f n (fold f [0..<n] s)"
  by simp

lemma take_append_exact: "length xs = n \<Longrightarrow> take n (xs @ ys) = xs"
  by simp

lemma drop_append_exact: "length xs = n \<Longrightarrow> drop n (xs @ ys) = ys"
  by simp

lemma div_mod_add:
  fixes m :: nat
  assumes "r < m"
  shows "(m * q + r) div m = q" "(m * q + r) mod m = r"
  using assms by simp_all

section \<open>Words and bits\<close>

lemma word_bounds:
  "unat (a :: u8) < 256" "unat (b :: u16) < 65536" "unat (c :: u32) < 4294967296"
  "unat (d :: u64) < 18446744073709551616"
  using unsigned_less [of a, where ?'a = nat] unsigned_less [of b, where ?'a = nat]
    unsigned_less [of c, where ?'a = nat] unsigned_less [of d, where ?'a = nat]
  by simp_all

text \<open>\<open>unat\<close> is the normal form here, so the library's rewriting of
  \<open>of_nat (unat w)\<close> back into a cast is switched off.\<close>

declare of_nat_unat [simp del]

lemma unat_of_nat_small [simp]:
  "n < 2 ^ LENGTH('a) \<Longrightarrow> unat (of_nat n :: 'a::len word) = n"
  by (simp add: unsigned_of_nat take_bit_nat_eq_self)

lemma of_nat_unat_word [simp]: "(of_nat (unat w) :: 'a::len word) = w"
  by (simp add: of_nat_unat)

lemma uint_pos [simp]: "0 \<le> uint w" "- int n \<le> uint w" "- numeral k \<le> uint w"
  using unsigned_greater_eq [of w] by (auto intro: order_trans [of _ 0])

lemma bit_mask_and_iff:
  "bit (w AND (mask n :: 'a::len word)) k \<longleftrightarrow> bit w k \<and> k < n"
  using bit_imp_le_length [of w k] by (auto simp: bit_and_iff bit_mask_iff)

lemma ucast_ucast_up:
  fixes w :: "'a::len word"
  assumes "LENGTH('a) \<le> LENGTH('b::len)"
  shows "(ucast (ucast w :: 'b word) :: 'a word) = w"
  using assms by (intro bit_word_eqI) (auto simp: bit_ucast_iff)

lemma ucast_drop_bit_eqI:
  fixes v w :: "'a::len word"
  assumes "\<And>k. k < LENGTH('a) \<Longrightarrow> bit v k = bit w k"
  shows "v = w"
  using assms by (rule bit_word_eqI)

section \<open>Little-endian byte strings\<close>

text \<open>
  The loops of \<open>PacketCodec.h\<close> write byte \<open>i\<close> of a value as
  \<open>(v >> (8 * i)) & 0xFF\<close> and read it back by or-ing \<open>b[i] << (8 * i)\<close>.
  The two generic functions below are those loops for any number of bytes.
\<close>

definition le_put :: "nat \<Rightarrow> 'a::len word \<Rightarrow> bytes" where
  "le_put n v = map (\<lambda>i. ucast (drop_bit (8 * i) v AND 0xFF)) [0..<n]"

definition le_get :: "nat \<Rightarrow> bytes \<Rightarrow> 'a::len word" where
  "le_get n b = fold (\<lambda>i v. v OR push_bit (8 * i) (ucast (b ! i))) [0..<n] 0"

lemma length_le_put [simp]: "length (le_put n v) = n"
  by (simp add: le_put_def)

lemma bit_le_get:
  "bit (le_get n b :: 'a::len word) k \<longleftrightarrow>
     k < LENGTH('a) \<and> k div 8 < n \<and> bit (b ! (k div 8)) (k mod 8)"
proof (induction n)
  case 0
  show ?case by (simp add: le_get_def)
next
  case (Suc n)
  have step: "(le_get (Suc n) b :: 'a word) = le_get n b OR push_bit (8 * n) (ucast (b ! n))"
    by (simp add: le_get_def)
  have new: "bit (push_bit (8 * n) (ucast (b ! n)) :: 'a word) k \<longleftrightarrow>
      k < LENGTH('a) \<and> k div 8 = n \<and> bit (b ! n) (k mod 8)"
  proof (cases "8 * n \<le> k")
    case True
    then have "k div 8 = n \<longleftrightarrow> k - 8 * n < 8" by auto
    moreover have "k mod 8 = k - 8 * n" if "k - 8 * n < 8"
      using that True by (metis add_diff_inverse_nat leD mod_less mod_mult_self2 add.commute mult.commute)
    moreover have "\<not> bit (b ! n) (k - 8 * n)" if "\<not> k - 8 * n < 8"
      using that bit_imp_le_length [of "b ! n" "k - 8 * n"] by auto
    ultimately show ?thesis
      using True by (auto simp: bit_push_bit_iff bit_ucast_iff)
  next
    case False
    then show ?thesis by (auto simp: bit_push_bit_iff)
  qed
  show ?case unfolding step bit_or_iff Suc.IH new by (auto simp: less_Suc_eq)
qed

lemma bit_le_put_nth:
  fixes v :: "'a::len word"
  assumes "i < n"
  shows "bit (le_put n v ! i) k \<longleftrightarrow> k < 8 \<and> bit v (8 * i + k)"
proof -
  have "(0xFF :: 'a word) = mask 8" by (simp add: mask_eq_exp_minus_1)
  moreover have "bit (mask 8 :: 'a word) k \<longleftrightarrow> k < LENGTH('a) \<and> k < 8"
    by (auto simp: bit_mask_iff)
  moreover have "bit v (8 * i + k) \<Longrightarrow> k < LENGTH('a)"
    using bit_imp_le_length [of v "8 * i + k"] by simp
  ultimately show ?thesis
    using assms by (auto simp: le_put_def bit_ucast_iff bit_and_iff bit_drop_bit_eq)
qed

lemma le_get_le_put:
  fixes v :: "'a::len word"
  assumes "LENGTH('a) \<le> 8 * n"
  shows "le_get n (le_put n v @ rest) = v"
proof (rule bit_word_eqI)
  fix k assume k: "k < LENGTH('a)"
  with assms have "k div 8 < n" by auto
  then show "bit (le_get n (le_put n v @ rest) :: 'a word) k = bit v k"
    using k by (auto simp: bit_le_get nth_append bit_le_put_nth)
qed

lemma le_get_append [simp]: "n \<le> length b \<Longrightarrow> le_get n (b @ c) = le_get n b"
  unfolding le_get_def by (intro fold_cong) (auto simp: nth_append)

lemma le_get_take: "n \<le> length b \<Longrightarrow> le_get n (take n b) = le_get n b"
  by (metis append_take_drop_id le_get_append length_take min.absorb2 order_refl)

lemma le_get_le_put' [simp]:
  fixes v :: "'a::len word"
  shows "LENGTH('a) \<le> 8 * n \<Longrightarrow> le_get n (le_put n v) = v"
  using le_get_le_put [of n v "[]"] by simp

lemma le_put_le_get:
  fixes b :: bytes
  assumes "length b = n" and "8 * n = LENGTH('a::len)"
  shows "le_put n (le_get n b :: 'a word) = b"
proof (rule nth_equalityI)
  show "length (le_put n (le_get n b :: 'a word)) = length b" using assms by simp
next
  fix i assume "i < length (le_put n (le_get n b :: 'a word))"
  then have i: "i < n" by simp
  show "le_put n (le_get n b :: 'a word) ! i = b ! i"
  proof (rule bit_word_eqI)
    fix k assume k: "k < LENGTH(8)"
    then have "(8 * i + k) div 8 = i" "(8 * i + k) mod 8 = k" by auto
    moreover have "8 * i + k < LENGTH('a)" using i k assms(2) by simp
    ultimately show "bit (le_put n (le_get n b :: 'a word) ! i) k = bit (b ! i) k"
      using i k by (simp add: bit_le_put_nth bit_le_get)
  qed
qed

end
