(* ===== verification/Sequence_Math.thy ===== *)
theory Sequence_Math
  imports ER_Prelude
begin

text \<open>
  \<open>NeuronCore/SequenceMath.h\<close>: comparison of 16-bit sequence numbers that wrap at
  65536.  The C++ operands are promoted to \<open>int\<close> before the subtraction, so the
  differences are taken over \<open>int\<close> and never wrap; only \<open>SeqDiff\<close> goes
  back to 16 bits and reads the difference as two's complement.
\<close>

definition SeqGreater :: "u16 \<Rightarrow> u16 \<Rightarrow> bool" where
  "SeqGreater s1 s2 \<longleftrightarrow>
     (s1 > s2 \<and> uint s1 - uint s2 \<le> 32768) \<or> (s1 < s2 \<and> uint s2 - uint s1 > 32768)"

definition SeqLess :: "u16 \<Rightarrow> u16 \<Rightarrow> bool" where
  "SeqLess s1 s2 \<longleftrightarrow> SeqGreater s2 s1"

definition SeqDiff :: "u16 \<Rightarrow> u16 \<Rightarrow> int" where
  "SeqDiff s1 s2 = sint (s1 - s2)"

section \<open>Both functions over the unsigned wrapped distance\<close>

lemma unat16_diff:
  fixes s1 s2 :: u16
  shows "unat (s1 - s2) = (if s2 \<le> s1 then unat s1 - unat s2 else 65536 + unat s1 - unat s2)"
proof (cases "s2 \<le> s1")
  case True
  then show ?thesis by (simp add: unat_sub)
next
  case False
  then show ?thesis by (simp add: unat_sub_if' word_le_nat_alt)
qed

lemma unat16_neg: "0 < k \<Longrightarrow> k < 65536 \<Longrightarrow> unat (0 - of_nat k :: u16) = 65536 - k"
  using unat16_diff [of 0 "of_nat k"] by (simp add: word_le_nat_alt)

lemma SeqGreater_iff_distance:
  "SeqGreater s1 s2 \<longleftrightarrow>
     0 < unat (s1 - s2) \<and> (unat (s1 - s2) < 32768 \<or> unat (s1 - s2) = 32768 \<and> s2 < s1)"
  using word_bounds(2) [of s1] word_bounds(2) [of s2]
  unfolding SeqGreater_def unat16_diff word_less_nat_alt word_le_nat_alt uint_nat
  by arith

lemma sint16_unat:
  fixes w :: u16
  shows "sint w = (if unat w < 32768 then int (unat w) else int (unat w) - 65536)"
proof -
  have "sint w = signed_take_bit 15 (uint w)" by (simp add: sint_uint)
  also have "\<dots> = (if uint w < 32768 then uint w else uint w - 65536)"
  proof -
    have r: "0 \<le> uint w" "uint w < 65536"
      using uint_lt2p [of w] by simp_all
    show ?thesis
    proof (cases "uint w < 32768")
      case True
      with r have "signed_take_bit 15 (uint w) = uint w"
        by (intro signed_take_bit_int_eq_self) simp_all
      with True show ?thesis by simp
    next
      case False
      have "signed_take_bit 15 (uint w) = signed_take_bit 15 (uint w - 65536)"
        by (rule signed_take_bit_eq_iff_take_bit_eq [THEN iffD2])
          (simp add: take_bit_eq_mod)
      also have "\<dots> = uint w - 65536"
        using r False by (intro signed_take_bit_int_eq_self) simp_all
      finally show ?thesis using False by simp
    qed
  qed
  finally have "sint w = (if uint w < 32768 then uint w else uint w - 65536)" .
  moreover have "uint w < 32768 \<longleftrightarrow> unat w < 32768" unfolding uint_nat by arith
  ultimately show ?thesis by (simp add: uint_nat)
qed

lemma SeqDiff_distance:
  "SeqDiff s1 s2 =
     (if unat (s1 - s2) < 32768 then int (unat (s1 - s2)) else int (unat (s1 - s2)) - 65536)"
  by (simp add: SeqDiff_def sint16_unat)

lemma SeqDiff_self [simp]: "SeqDiff s s = 0"
  by (simp add: SeqDiff_def)

lemma SeqDiff_add: "0 \<le> d \<Longrightarrow> d < 32768 \<Longrightarrow> SeqDiff (s + word_of_int d) s = d"
  by (simp add: SeqDiff_def sint16_unat unsigned_of_int take_bit_int_eq_self nat_less_iff)


section \<open>Properties\<close>

lemma SeqGreater_irrefl [simp]: "\<not> SeqGreater s s"
  by (simp add: SeqGreater_iff_distance)

lemma SeqGreater_trichotomy: "SeqGreater s1 s2 \<noteq> SeqGreater s2 s1 \<longleftrightarrow> s1 \<noteq> s2"
proof (cases "s1 = s2")
  case True
  then show ?thesis by simp
next
  case False
  then have "unat s1 \<noteq> unat s2" by (simp add: word_unat_eq_iff)
  then show ?thesis
    using False word_bounds(2) [of s1] word_bounds(2) [of s2]
    unfolding SeqGreater_iff_distance unat16_diff word_less_nat_alt word_le_nat_alt
    by simp arith
qed

lemma SeqGreater_step:
  assumes "0 < n" "n < 32768"
  shows "SeqGreater (s + of_nat n) s" "\<not> SeqGreater s (s + of_nat n)"
proof -
  have d: "unat (s + of_nat n - s) = n"
    using assms by simp
  show g: "SeqGreater (s + of_nat n) s"
    using assms unfolding SeqGreater_iff_distance d by simp
  have "s + of_nat n \<noteq> s" using g by (metis SeqGreater_irrefl)
  then show "\<not> SeqGreater s (s + of_nat n)"
    using SeqGreater_trichotomy [of s "s + of_nat n"] g by auto
qed

lemma SeqGreater_SeqDiff:
  assumes "unat (s1 - s2) \<noteq> 32768"
  shows "SeqGreater s1 s2 \<longleftrightarrow> 0 < SeqDiff s1 s2"
  using assms word_bounds(2) [of "s1 - s2"]
  by (auto simp: SeqGreater_iff_distance SeqDiff_distance)

lemma window_order:
  assumes "\<bar>int m - int n\<bar> < 32768"
  shows "SeqDiff (s + of_nat m) (s + of_nat n) = int m - int n \<and>
    (SeqGreater (s + of_nat m) (s + of_nat n) \<longleftrightarrow> n < m)"
proof (cases "n \<le> m")
  case True
  have "unat (s + of_nat m - (s + of_nat n)) = m - n"
    using assms True by (simp flip: of_nat_diff)
  with True assms show ?thesis
    by (simp add: SeqDiff_distance SeqGreater_iff_distance)
next
  case False
  have "s + of_nat m - (s + of_nat n) = 0 - of_nat (n - m)"
    using False by (simp add: of_nat_diff)
  then have "unat (s + of_nat m - (s + of_nat n)) = 65536 - (n - m)"
    using unat16_neg [of "n - m"] assms False by (simp del: of_nat_diff)
  with False assms show ?thesis
    by (auto simp: SeqDiff_distance SeqGreater_iff_distance)
qed

text \<open>Inside half the sequence space the order of \<open>SeqGreater\<close> is the order in
  which the sequence numbers were assigned, across any wrap of the 16-bit counter: numbering a
  stream from \<open>s\<close>, the \<open>m\<close>-th and \<open>n\<close>-th numbers compare as \<open>m\<close> and
  \<open>n\<close>, and \<open>SeqDiff\<close> is their distance.\<close>

theorem Seq_window_order:
  assumes "\<bar>int m - int n\<bar> < 32768"
  shows "SeqDiff (s + of_nat m) (s + of_nat n) = int m - int n \<and>
    (SeqGreater (s + of_nat m) (s + of_nat n) \<longleftrightarrow> n < m)"
  by (rule window_order [OF assms])

lemma Seq_window_order_witness:
  "SeqDiff (65530 + of_nat 10) (65530 + of_nat 3) = int 10 - int 3 \<and>
   (SeqGreater (65530 + of_nat 10) (65530 + of_nat 3) \<longleftrightarrow> 3 < (10 :: nat))"
  by (rule Seq_window_order) simp

end
