(* ===== verification/Replay_Window.thy ===== *)
theory Replay_Window
  imports ER_Prelude
begin

text \<open>
  \<open>NeuronCore/ReplayWindow.h\<close>: the anti-replay window over the 64-bit AEAD packet
  number.  The bitmap is the array of sixteen 64-bit words of the code, slid in place by
  \<open>SlideForward\<close>.  The contract of such a filter is the locale
  \<open>replay_filter\<close>; the window is shown to implement it exactly: a packet number is
  accepted if and only if it was not accepted before and is less than 1024 behind the highest
  accepted one.
\<close>

section \<open>The model\<close>

definition WINDOW_BITS :: nat where "WINDOW_BITS = 1024"
definition WORDS :: nat where "WORDS = WINDOW_BITS div 64"

record ReplayWindow =
  m_bits :: "u64 list"
  m_highest :: u64
  m_seenAny :: bool

definition ReplayWindow_init :: ReplayWindow where
  "ReplayWindow_init = \<lparr>m_bits = replicate WORDS 0, m_highest = 0, m_seenAny = False\<rparr>"

definition TestBit :: "u64 list \<Rightarrow> nat \<Rightarrow> bool" where
  "TestBit bits offset \<longleftrightarrow> drop_bit (offset mod 64) (bits ! (offset div 64)) AND 1 \<noteq> 0"

definition SetBit :: "u64 list \<Rightarrow> nat \<Rightarrow> u64 list" where
  "SetBit bits offset =
     bits[offset div 64 := (bits ! (offset div 64)) OR push_bit (offset mod 64) 1]"

text \<open>One word of the slid bitmap, from the words at the same or a lower index.\<close>

definition SlideWord :: "nat \<Rightarrow> nat \<Rightarrow> u64 list \<Rightarrow> nat \<Rightarrow> u64" where
  "SlideWord wordShift bitShift bits i =
     (if bitShift = 0 then (if wordShift \<le> i then bits ! (i - wordShift) else 0)
      else
        (let v = (if wordShift \<le> i then push_bit bitShift (bits ! (i - wordShift)) else 0)
         in if wordShift + 1 \<le> i
            then v OR drop_bit (64 - bitShift) (bits ! (i - wordShift - 1)) else v))"

text \<open>The loops run from the last word down to the first and update the array in place.\<close>

definition SlideForward :: "u64 list \<Rightarrow> u64 \<Rightarrow> u64 list" where
  "SlideForward bits shift =
     (if unat shift \<ge> WINDOW_BITS then map (\<lambda>_. 0) bits
      else
        (let wordShift = unat shift div 64; bitShift = unat shift mod 64
         in fold (\<lambda>i bs. bs[i := SlideWord wordShift bitShift bs i]) (rev [0..<WORDS]) bits))"

definition CheckAndUpdate :: "ReplayWindow \<Rightarrow> u64 \<Rightarrow> bool \<times> ReplayWindow" where
  "CheckAndUpdate w packetNumber =
     (if \<not> m_seenAny w then
        (True, w\<lparr>m_seenAny := True, m_highest := packetNumber, m_bits := SetBit (m_bits w) 0\<rparr>)
      else if packetNumber > m_highest w then
        (let shift = packetNumber - m_highest w;
             bits = SlideForward (m_bits w) shift
         in (True, w\<lparr>m_highest := packetNumber, m_bits := SetBit bits 0\<rparr>))
      else
        (let offset = m_highest w - packetNumber
         in if unat offset \<ge> WINDOW_BITS then (False, w)
            else if TestBit (m_bits w) (unat offset) then (False, w)
            else (True, w\<lparr>m_bits := SetBit (m_bits w) (unat offset)\<rparr>)))"

definition Reset :: "ReplayWindow \<Rightarrow> ReplayWindow" where
  "Reset w = w\<lparr>m_bits := map (\<lambda>_. 0) (m_bits w), m_highest := 0, m_seenAny := False\<rparr>"

section \<open>The interface of a replay filter\<close>

text \<open>The verdicts of a filter on a sequence of packet numbers, and the numbers it let through.\<close>

fun filter_run :: "('w \<Rightarrow> u64 \<Rightarrow> bool \<times> 'w) \<Rightarrow> 'w \<Rightarrow> u64 list \<Rightarrow> bool list \<times> 'w" where
  "filter_run check w [] = ([], w)"
| "filter_run check w (p # ps) =
     (let (ok, w') = check w p; (oks, w'') = filter_run check w' ps in (ok # oks, w''))"

fun accepted_by :: "('w \<Rightarrow> u64 \<Rightarrow> bool \<times> 'w) \<Rightarrow> 'w \<Rightarrow> u64 list \<Rightarrow> u64 list" where
  "accepted_by check w [] = []"
| "accepted_by check w (p # ps) =
     (let (ok, w') = check w p in (if ok then [p] else []) @ accepted_by check w' ps)"

text \<open>
  The reference a filter is measured by: the set of numbers accepted so far.  A number is fresh
  if it is not in the set and less than \<open>span\<close> behind its maximum.
\<close>

definition fresh_in :: "nat \<Rightarrow> nat set \<Rightarrow> nat \<Rightarrow> bool" where
  "fresh_in span S p \<longleftrightarrow> p \<notin> S \<and> (\<forall>q\<in>S. q < p + span)"

locale replay_filter =
  fixes check :: "'w \<Rightarrow> u64 \<Rightarrow> bool \<times> 'w"
    and inv :: "'w \<Rightarrow> nat set \<Rightarrow> bool"
    and span :: nat
  assumes verdict: "inv w S \<Longrightarrow> fst (check w p) \<longleftrightarrow> fresh_in span S (unat p)"
    and accept_inv: "inv w S \<Longrightarrow> fst (check w p) \<Longrightarrow> inv (snd (check w p)) (insert (unat p) S)"
    and reject_same: "inv w S \<Longrightarrow> \<not> fst (check w p) \<Longrightarrow> snd (check w p) = w"
begin

lemma accepted_fresh:
  assumes "inv w S"
  shows "distinct (accepted_by check w ps) \<and> unat ` set (accepted_by check w ps) \<inter> S = {}"
  using assms
proof (induction ps arbitrary: w S)
  case Nil
  show ?case by simp
next
  case (Cons p ps)
  obtain ok w' where c: "check w p = (ok, w')" by (cases "check w p")
  show ?case
  proof (cases ok)
    case True
    with c Cons.prems have "inv w' (insert (unat p) S)" "unat p \<notin> S"
      using accept_inv [of w S p] verdict [of w S p] by (simp_all add: fresh_in_def)
    with Cons.IH [of w' "insert (unat p) S"] True c show ?thesis by auto
  next
    case False
    with c Cons.prems have "w' = w" using reject_same [of w S p] by simp
    with Cons.IH [of w S] Cons.prems False c show ?thesis by simp
  qed
qed

lemma accepts_in_order:
  assumes "inv w S" and "sorted_wrt (\<lambda>p q. p < q) ps" and "\<forall>p\<in>set ps. \<forall>q\<in>S. q < unat p"
  shows "accepted_by check w ps = ps"
  using assms
proof (induction ps arbitrary: w S)
  case Nil
  show ?case by simp
next
  case (Cons p ps)
  obtain ok w' where c: "check w p = (ok, w')" by (cases "check w p")
  have "fresh_in span S (unat p)" using Cons.prems(3) by (force simp: fresh_in_def)
  with c Cons.prems(1) have ok: ok using verdict [of w S p] by simp
  with c Cons.prems(1) have "inv w' (insert (unat p) S)" using accept_inv [of w S p] by simp
  moreover have "\<forall>r\<in>set ps. \<forall>q\<in>insert (unat p) S. q < unat r"
    using Cons.prems(2,3) by (auto simp: word_less_nat_alt)
  ultimately have "accepted_by check w' ps = ps"
    using Cons.IH [of w' "insert (unat p) S"] Cons.prems(2) by simp
  with c ok show ?case by simp
qed

end

section \<open>The bitmap\<close>

lemma TestBit_iff: "TestBit bits q \<longleftrightarrow> bit (bits ! (q div 64)) (q mod 64)"
  by (simp add: TestBit_def and_one_eq bit_iff_odd_drop_bit even_iff_mod_2_eq_zero)

lemma length_SetBit [simp]: "length (SetBit bits q) = length bits"
  by (simp add: SetBit_def)

lemma TestBit_SetBit:
  assumes "length bits = WORDS" "q < WINDOW_BITS"
  shows "TestBit (SetBit bits q) p \<longleftrightarrow> p = q \<or> TestBit bits p"
proof -
  have eq: "p = q \<longleftrightarrow> p div 64 = q div 64 \<and> p mod 64 = q mod 64"
    by (metis div_mult_mod_eq)
  have "q div 64 < length bits" using assms by (simp add: WORDS_def WINDOW_BITS_def)
  then show ?thesis
    unfolding TestBit_iff SetBit_def
    by (auto simp: nth_list_update bit_or_iff bit_exp_iff eq)
qed

text \<open>Updating an array downwards in place, where each new entry reads only entries at or below
  its own index, computes the same as reading everything from the old array.\<close>

lemma fold_update_down:
  assumes local: "\<And>xs ys i. length xs = length ys \<Longrightarrow> (\<forall>j\<le>i. xs ! j = ys ! j) \<Longrightarrow> g xs i = g ys i"
    and "n \<le> length xs"
  shows "fold (\<lambda>i xs. xs[i := g xs i]) (rev [0..<n]) xs = map (g xs) [0..<n] @ drop n xs"
  using assms(2)
proof (induction n arbitrary: xs)
  case 0
  show ?case by simp
next
  case (Suc n)
  let ?xs = "xs[n := g xs n]"
  have "fold (\<lambda>i xs. xs[i := g xs i]) (rev [0..<Suc n]) xs = map (g ?xs) [0..<n] @ drop n ?xs"
    using Suc by simp
  moreover have "map (g ?xs) [0..<n] = map (g xs) [0..<n]"
    by (rule map_cong [OF refl]) (rule local, auto)
  moreover have "drop n ?xs = g xs n # drop (Suc n) xs"
    using Suc.prems by (simp flip: Cons_nth_drop_Suc)
  ultimately show ?case by simp
qed

lemma SlideWord_local:
  "length xs = length ys \<Longrightarrow> (\<forall>j\<le>i. xs ! j = ys ! j) \<Longrightarrow>
     SlideWord ws bs xs i = SlideWord ws bs ys i"
  by (auto simp: SlideWord_def Let_def)

lemma SlideForward_eq:
  assumes "length bits = WORDS"
  shows "SlideForward bits s =
    (if unat s \<ge> WINDOW_BITS then replicate WORDS 0
     else map (SlideWord (unat s div 64) (unat s mod 64) bits) [0..<WORDS])"
proof -
  have "map (\<lambda>_. 0) bits = replicate WORDS (0 :: u64)"
    using assms by (simp add: map_replicate_const)
  then show ?thesis
    using assms fold_update_down [OF SlideWord_local, where n = WORDS and xs = bits]
    by (simp add: SlideForward_def)
qed

lemma bit_SlideWord:
  assumes "length bits = WORDS" "i < WORDS" "k < 64" "bs < 64"
  shows "bit (SlideWord ws bs bits i) k \<longleftrightarrow>
    64 * ws + bs \<le> 64 * i + k \<and> TestBit bits (64 * i + k - (64 * ws + bs))"
proof (cases "bs \<le> k")
  case True
  show ?thesis
  proof (cases "ws \<le> i")
    case le: True
    have "64 * i + k - (64 * ws + bs) = 64 * (i - ws) + (k - bs)" using True le by auto
    moreover have "k - bs < 64" using assms(3) by simp
    note div_mod_add [OF this, of "i - ws"]
    moreover have "\<not> bit (drop_bit (64 - bs) w) k" if "0 < bs" for w :: u64
      using True that assms bit_imp_le_length [of w "64 - bs + k"] by (auto simp: bit_drop_bit_eq)
    ultimately show ?thesis
      using True le assms(3,4)
      by (auto simp: SlideWord_def Let_def TestBit_iff bit_or_iff bit_push_bit_iff)
  next
    case False
    then have "i + 1 \<le> ws" by simp
    then have "64 * (i + 1) \<le> 64 * ws" by (rule mult_le_mono2)
    then show ?thesis using False assms by (simp add: SlideWord_def Let_def)
  qed
next
  case False
  show ?thesis
  proof (cases "ws + 1 \<le> i")
    case le: True
    have "64 * i + k - (64 * ws + bs) = 64 * (i - ws - 1) + (64 - bs + k)"
      using False le assms(4) by auto
    moreover have "64 - bs + k < 64" using False assms(4) by simp
    note div_mod_add [OF this, of "i - ws - 1"]
    moreover have "64 * ws + bs \<le> 64 * i + k" using le assms(4) by auto
    ultimately show ?thesis
      using False le assms(3,4)
      by (auto simp: SlideWord_def Let_def TestBit_iff bit_or_iff bit_push_bit_iff bit_drop_bit_eq)
  next
    case less: False
    then have "i \<le> ws" by simp
    then have "64 * i \<le> 64 * ws" by (rule mult_le_mono2)
    then show ?thesis
      using False less assms by (auto simp: SlideWord_def Let_def bit_push_bit_iff)
  qed
qed

lemma length_SlideForward [simp]: "length bits = WORDS \<Longrightarrow> length (SlideForward bits s) = WORDS"
  by (simp add: SlideForward_eq)

lemma TestBit_SlideForward:
  assumes "length bits = WORDS" "p < WINDOW_BITS"
  shows "TestBit (SlideForward bits s) p \<longleftrightarrow> unat s \<le> p \<and> TestBit bits (p - unat s)"
proof -
  have p: "p div 64 < WORDS" using assms(2) by (simp add: WORDS_def WINDOW_BITS_def)
  show ?thesis
  proof (cases "unat s \<ge> WINDOW_BITS")
    case True
    then show ?thesis
      using assms p by (simp add: SlideForward_eq TestBit_iff)
  next
    case False
    have "bit (SlideWord (unat s div 64) (unat s mod 64) bits (p div 64)) (p mod 64) \<longleftrightarrow>
      64 * (unat s div 64) + unat s mod 64 \<le> 64 * (p div 64) + p mod 64 \<and>
      TestBit bits (64 * (p div 64) + p mod 64 - (64 * (unat s div 64) + unat s mod 64))"
      using assms p by (intro bit_SlideWord) simp_all
    then show ?thesis
      using False assms p by (simp add: SlideForward_eq TestBit_iff [of _ p])
  qed
qed

section \<open>The window implements the filter\<close>

text \<open>The abstraction: the set of accepted numbers, as far as the bitmap still shows it.\<close>

definition replay_inv :: "ReplayWindow \<Rightarrow> nat set \<Rightarrow> bool" where
  "replay_inv w S \<longleftrightarrow>
     length (m_bits w) = WORDS \<and> finite S \<and> (m_seenAny w \<longleftrightarrow> S \<noteq> {}) \<and>
     (S \<noteq> {} \<longrightarrow> unat (m_highest w) = Max S) \<and>
     (\<forall>p < WINDOW_BITS. TestBit (m_bits w) p \<longleftrightarrow>
        S \<noteq> {} \<and> p \<le> unat (m_highest w) \<and> unat (m_highest w) - p \<in> S)"

lemma replay_inv_init: "replay_inv ReplayWindow_init {}"
  by (auto simp: replay_inv_def ReplayWindow_init_def TestBit_iff WORDS_def WINDOW_BITS_def)

lemma replay_inv_Reset: "replay_inv w S \<Longrightarrow> replay_inv (Reset w) {}"
  by (auto simp: replay_inv_def Reset_def TestBit_iff WORDS_def WINDOW_BITS_def)

lemma fresh_in_Max:
  assumes "finite S" "S \<noteq> {}"
  shows "fresh_in span S p \<longleftrightarrow> p \<notin> S \<and> Max S < p + span"
  using assms by (auto simp: fresh_in_def)

lemma replay_verdict:
  assumes inv: "replay_inv w S"
  shows "fst (CheckAndUpdate w p) \<longleftrightarrow> fresh_in WINDOW_BITS S (unat p)"
proof (cases "m_seenAny w")
  case False
  with inv show ?thesis by (simp add: replay_inv_def CheckAndUpdate_def fresh_in_def)
next
  case True
  with inv have S: "finite S" "S \<noteq> {}" and h: "unat (m_highest w) = Max S"
    by (auto simp: replay_inv_def)
  show ?thesis
  proof (cases "p > m_highest w")
    case gt: True
    with S h have "unat p \<notin> S" "Max S < unat p"
      by (auto simp: word_less_nat_alt)
    with True gt show ?thesis by (simp add: CheckAndUpdate_def Let_def fresh_in_Max [OF S])
  next
    case False
    then have le: "p \<le> m_highest w" by simp
    then have d: "unat (m_highest w - p) = unat (m_highest w) - unat p" and le': "unat p \<le> Max S"
      using h by (simp_all add: unat_sub word_le_nat_alt)
    have "TestBit (m_bits w) (unat (m_highest w - p)) \<longleftrightarrow> unat p \<in> S"
      if "unat (m_highest w - p) < WINDOW_BITS"
      using inv that S le' unfolding replay_inv_def d h by simp
    with True False S le' show ?thesis
      unfolding CheckAndUpdate_def Let_def fresh_in_Max [OF S] d h
      by (auto simp del: Max_less_iff)
  qed
qed

lemma replay_accept:
  assumes inv: "replay_inv w S" and ok: "fst (CheckAndUpdate w p)"
  shows "replay_inv (snd (CheckAndUpdate w p)) (insert (unat p) S)"
proof -
  have len: "length (m_bits w) = WORDS" and fin: "finite S"
    and seen: "m_seenAny w \<longleftrightarrow> S \<noteq> {}" using inv by (simp_all add: replay_inv_def)
  have W: "0 < WINDOW_BITS" by (simp add: WINDOW_BITS_def)
  show ?thesis
  proof (cases "m_seenAny w")
    case False
    with inv W show ?thesis
      by (auto simp: replay_inv_def CheckAndUpdate_def TestBit_SetBit)
  next
    case True
    with inv seen have S: "S \<noteq> {}" and h: "unat (m_highest w) = Max S"
      and tb: "\<And>q. q < WINDOW_BITS \<Longrightarrow> TestBit (m_bits w) q \<longleftrightarrow> q \<le> Max S \<and> Max S - q \<in> S"
      by (auto simp: replay_inv_def)
    show ?thesis
    proof (cases "p > m_highest w")
      case gt: True
      then have lt: "Max S < unat p" and d: "unat (p - m_highest w) = unat p - Max S"
        using h by (simp_all add: unat_sub word_less_nat_alt word_le_nat_alt)
      have above: "q \<notin> S" if "Max S < q" for q using that fin by (meson Max_ge leD)
      have shifted: "unat p - Max S \<le> q \<and> q - (unat p - Max S) \<le> Max S \<and>
          Max S - (q - (unat p - Max S)) \<in> S \<longleftrightarrow> q \<le> unat p \<and> unat p - q \<in> S" for q
      proof (cases "unat p - Max S \<le> q")
        case True
        then have "Max S - (q - (unat p - Max S)) = unat p - q" using lt by arith
        with True lt show ?thesis by auto
      next
        case False
        then have "Max S < unat p - q" by arith
        with False above show ?thesis by auto
      qed
      have "TestBit (SetBit (SlideForward (m_bits w) (p - m_highest w)) 0) q \<longleftrightarrow>
          q \<le> unat p \<and> unat p - q \<in> insert (unat p) S" if "q < WINDOW_BITS" for q
        using that len W shifted [of q]
        by (auto simp: TestBit_SetBit TestBit_SlideForward d tb)
      then show ?thesis
        using True gt len fin S lt
        by (simp add: replay_inv_def CheckAndUpdate_def Let_def max_def del: Max_less_iff)
    next
      case False
      then have le': "p \<le> m_highest w" by simp
      have d: "unat (m_highest w - p) = Max S - unat p" using unat_sub [OF le'] h by simp
      have le: "unat p \<le> Max S" using le' h by (simp only: word_le_nat_alt)
      have off: "Max S - unat p < WINDOW_BITS"
        using ok True False by (auto simp: CheckAndUpdate_def Let_def d split: if_splits)
      have "TestBit (SetBit (m_bits w) (Max S - unat p)) q \<longleftrightarrow>
          q \<le> Max S \<and> Max S - q \<in> insert (unat p) S" if "q < WINDOW_BITS" for q
        using that len le off by (auto simp: TestBit_SetBit tb)
      then show ?thesis
        using True False len fin S h ok le
        by (auto simp: replay_inv_def CheckAndUpdate_def Let_def d max_def split: if_splits)
    qed
  qed
qed

lemma replay_reject: "\<not> fst (CheckAndUpdate w p) \<Longrightarrow> snd (CheckAndUpdate w p) = w"
  by (auto simp: CheckAndUpdate_def Let_def split: if_splits)

interpretation rw: replay_filter CheckAndUpdate replay_inv WINDOW_BITS
  by unfold_locales (simp_all add: replay_verdict replay_accept replay_reject)

section \<open>Properties of the window\<close>

text \<open>The window reached from the empty one by a sequence of datagrams satisfies its invariant
  for the set of numbers it accepted.\<close>

lemma replay_inv_run:
  "replay_inv w S \<Longrightarrow>
     replay_inv (snd (filter_run CheckAndUpdate w ps))
       (S \<union> unat ` set (accepted_by CheckAndUpdate w ps))"
proof (induction ps arbitrary: w S)
  case Nil
  then show ?case by simp
next
  case (Cons p ps)
  obtain ok w' where c: "CheckAndUpdate w p = (ok, w')" by (cases "CheckAndUpdate w p")
  have "replay_inv w' (if ok then insert (unat p) S else S)"
    using Cons.prems replay_accept [of w S p] replay_reject [of w p] c by (cases ok) auto
  from Cons.IH [OF this] c show ?case
    by (auto simp: case_prod_beta split: if_splits)
qed

text \<open>C3: Replay protection, exactly.  After any sequence of datagrams the window accepts a packet
  number if and only if it has not accepted it before and the number is less than 1024 behind the
  highest number accepted so far.\<close>

theorem CheckAndUpdate_exact:
  "fst (CheckAndUpdate (snd (filter_run CheckAndUpdate ReplayWindow_init ps)) p) \<longleftrightarrow>
     fresh_in WINDOW_BITS (unat ` set (accepted_by CheckAndUpdate ReplayWindow_init ps)) (unat p)"
  using replay_inv_run [OF replay_inv_init, of ps] replay_verdict by simp

text \<open>No packet number is ever accepted twice, whatever datagrams arrive and in whatever
  order.\<close>

theorem CheckAndUpdate_never_replays: "distinct (accepted_by CheckAndUpdate ReplayWindow_init ps)"
  using rw.accepted_fresh [OF replay_inv_init] by simp

text \<open>A stream that arrives in order is accepted whole, however large its gaps.\<close>

theorem CheckAndUpdate_in_order:
  assumes "sorted_wrt (\<lambda>p q. p < q) ps"
  shows "accepted_by CheckAndUpdate ReplayWindow_init ps = ps"
  using rw.accepts_in_order [OF replay_inv_init assms] by simp

lemma CheckAndUpdate_in_order_witness:
  "accepted_by CheckAndUpdate ReplayWindow_init [3, 4, 5000, 18446744073709551615] =
     [3, 4, 5000, 18446744073709551615]"
  by (rule CheckAndUpdate_in_order) simp

end
