(* ===== verification/Bit_Stream.thy ===== *)
theory Bit_Stream
  imports ER_Prelude
begin

text \<open>
  \<open>NeuronCore/BitStream.h\<close>: the bit-packing writer and reader under every snapshot and
  every persisted blob.  Both loops move up to eight bits at a time; the models keep them as they
  are.  The specification is over bit lists: a writer \<open>holds\<close> the bits written so far
  (most significant first), a reader has the bits still \<open>remaining\<close>.  The laws a user of
  a stream relies on are the locales \<open>bit_sink\<close> and \<open>bit_source\<close>.
\<close>

section \<open>Bit lists\<close>

definition bits_msb :: "nat \<Rightarrow> 'a::len word \<Rightarrow> bool list" where
  "bits_msb n v = map (bit v) (rev [0..<n])"

definition msb_acc :: "u64 \<Rightarrow> bool list \<Rightarrow> u64" where
  "msb_acc r bs = foldl (\<lambda>r b. push_bit 1 r OR of_bool b) r bs"

lemma length_bits_msb [simp]: "length (bits_msb n v) = n"
  by (simp add: bits_msb_def)

lemma bits_msb_0 [simp]: "bits_msb 0 v = []"
  by (simp add: bits_msb_def)

lemma bits_msb_Suc: "bits_msb (Suc n) v = bit v n # bits_msb n v"
  by (simp add: bits_msb_def)

lemma bits_msb_add: "bits_msb (m + n) v = bits_msb m (drop_bit n v) @ bits_msb n v"
  by (induction m) (simp_all add: bits_msb_Suc bit_drop_bit_eq add.commute)

lemma bits_msb_cong:
  "(\<And>k. k < n \<Longrightarrow> bit v k \<longleftrightarrow> bit w k) \<Longrightarrow> bits_msb n v = bits_msb n w"
  by (simp add: bits_msb_def)

lemma bits_msb_mask [simp]: "bits_msb n (v AND mask n) = bits_msb n v"
  by (rule bits_msb_cong) (simp add: bit_mask_and_iff)

lemma bits_msb_take_bit [simp]: "bits_msb n (take_bit n v) = bits_msb n v"
  by (rule bits_msb_cong) (simp add: bit_take_bit_iff)

lemma bits_msb_ucast:
  "n \<le> LENGTH('b) \<Longrightarrow> bits_msb n (ucast (v :: 'a::len word) :: 'b::len word) = bits_msb n v"
  by (rule bits_msb_cong) (simp add: bit_ucast_iff)

lemma msb_acc_simps [simp]:
  "msb_acc r [] = r" "msb_acc r (b # bs) = msb_acc (push_bit 1 r OR of_bool b) bs"
  "msb_acc r (bs @ cs) = msb_acc (msb_acc r bs) cs"
  by (simp_all add: msb_acc_def)

lemma msb_acc_bits_msb:
  "msb_acc r (bits_msb n (v :: 'a::len word)) = push_bit n r OR (ucast v AND mask n)"
proof (induction n arbitrary: r)
  case 0
  show ?case by simp
next
  case (Suc n)
  show ?case
    unfolding bits_msb_Suc msb_acc_simps Suc.IH
    by (rule bit_word_eqI)
      (auto simp: bit_or_iff bit_push_bit_iff bit_mask_and_iff bit_ucast_iff less_Suc_eq bit_1_iff
        bit_of_bool_iff)
qed

section \<open>BitWriter\<close>

record BitWriter =
  m_buf :: bytes
  m_bitsFree :: nat

definition BitWriter_new :: BitWriter where
  "BitWriter_new = \<lparr>m_buf = [], m_bitsFree = 0\<rparr>"

text \<open>\<open>m_buf.back() |= x\<close>\<close>

definition or_back :: "bytes \<Rightarrow> u8 \<Rightarrow> bytes" where
  "or_back buf x = buf[length buf - 1 := (buf ! (length buf - 1)) OR x]"

function Write_loop :: "u64 \<Rightarrow> nat \<Rightarrow> BitWriter \<Rightarrow> BitWriter" where
  "Write_loop value bitsLeft w =
     (if bitsLeft > 0 then
        let w1 = (if m_bitsFree w = 0 then \<lparr>m_buf = m_buf w @ [0], m_bitsFree = 8\<rparr> else w);
            chunk = min bitsLeft (m_bitsFree w1);
            shift = m_bitsFree w1 - chunk
        in Write_loop value (bitsLeft - chunk)
             \<lparr>m_buf = or_back (m_buf w1)
                (ucast (push_bit shift (drop_bit (bitsLeft - chunk) value))),
              m_bitsFree = m_bitsFree w1 - chunk\<rparr>
      else w)"
  by pat_completeness auto
termination
  by (relation "measure (\<lambda>(_, n, _). n)") (auto simp: min_def)

declare Write_loop.simps [simp del]

definition BitWriter_Write :: "u64 \<Rightarrow> nat \<Rightarrow> BitWriter \<Rightarrow> BitWriter" where
  "BitWriter_Write value bits w =
     Write_loop (if bits < 64 then value AND mask bits else value) bits w"

definition BitWriter_Flush :: "BitWriter \<Rightarrow> BitWriter" where
  "BitWriter_Flush w = w\<lparr>m_bitsFree := 0\<rparr>"

definition BitWriter_BitLength :: "BitWriter \<Rightarrow> nat" where
  "BitWriter_BitLength w = length (m_buf w) * 8 - m_bitsFree w"

section \<open>BitReader\<close>

record BitReader =
  m_data :: bytes
  m_bytePos :: nat
  m_current :: u8
  m_bitAvail :: nat
  m_error :: bool

definition BitReader_new :: "bytes \<Rightarrow> BitReader" where
  "BitReader_new data =
     \<lparr>m_data = data, m_bytePos = 0, m_current = 0, m_bitAvail = 0, m_error = False\<rparr>"

function Read_loop :: "u64 \<Rightarrow> nat \<Rightarrow> BitReader \<Rightarrow> u64 \<times> BitReader" where
  "Read_loop result bitsLeft r =
     (if bitsLeft > 0 then
        if m_bitAvail r = 0 \<and> m_bytePos r \<ge> length (m_data r)
        then (0, r\<lparr>m_error := True\<rparr>)
        else
          let r1 = (if m_bitAvail r = 0
                    then r\<lparr>m_current := m_data r ! m_bytePos r, m_bytePos := m_bytePos r + 1,
                           m_bitAvail := 8\<rparr>
                    else r);
              chunk = min bitsLeft (m_bitAvail r1);
              shift = m_bitAvail r1 - chunk
          in Read_loop
               (push_bit chunk result OR (ucast (drop_bit shift (m_current r1)) AND mask chunk))
               (bitsLeft - chunk) (r1\<lparr>m_bitAvail := m_bitAvail r1 - chunk\<rparr>)
      else (result, r))"
  by pat_completeness auto
termination
  by (relation "measure (\<lambda>(_, n, _). n)") (auto simp: min_def)

declare Read_loop.simps [simp del]

definition BitReader_Read :: "nat \<Rightarrow> BitReader \<Rightarrow> u64 \<times> BitReader" where
  "BitReader_Read bits r = (if m_error r then (0, r) else Read_loop 0 bits r)"

definition AlignToByte :: "BitReader \<Rightarrow> BitReader" where
  "AlignToByte r = (if m_bitAvail r > 0 then r\<lparr>m_bitAvail := 0\<rparr> else r)"

definition BitReader_IsEof :: "BitReader \<Rightarrow> bool" where
  "BitReader_IsEof r \<longleftrightarrow> m_bytePos r \<ge> length (m_data r) \<and> m_bitAvail r = 0"

section \<open>The interface of a bit stream\<close>

locale bit_sink =
  fixes put :: "u64 \<Rightarrow> nat \<Rightarrow> 'w \<Rightarrow> 'w"
    and held :: "'w \<Rightarrow> bool list"
    and winv :: "'w \<Rightarrow> bool"
  assumes put_inv: "winv w \<Longrightarrow> 1 \<le> n \<Longrightarrow> n \<le> 64 \<Longrightarrow> winv (put v n w)"
    and put_held: "winv w \<Longrightarrow> 1 \<le> n \<Longrightarrow> n \<le> 64 \<Longrightarrow> held (put v n w) = held w @ bits_msb n v"
begin

lemma put_two:
  assumes "winv w" "1 \<le> m" "m \<le> 64" "1 \<le> n" "n \<le> 64"
  shows "held (put b n (put a m w)) = held w @ bits_msb m a @ bits_msb n b"
  using assms by (simp add: put_inv put_held)

lemma put_length:
  assumes "winv w" "1 \<le> n" "n \<le> 64"
  shows "length (held (put v n w)) = length (held w) + n"
  using assms by (simp add: put_held)

end

locale bit_source =
  fixes get :: "nat \<Rightarrow> 'r \<Rightarrow> u64 \<times> 'r"
    and remaining :: "'r \<Rightarrow> bool list"
    and good :: "'r \<Rightarrow> bool"
    and rinv :: "'r \<Rightarrow> bool"
  assumes get_inv: "rinv r \<Longrightarrow> rinv (snd (get n r))"
    and get_some: "rinv r \<Longrightarrow> good r \<Longrightarrow> n \<le> length (remaining r) \<Longrightarrow>
      fst (get n r) = msb_acc 0 (take n (remaining r)) \<and>
      good (snd (get n r)) \<and> remaining (snd (get n r)) = drop n (remaining r)"
    and get_short: "rinv r \<Longrightarrow> good r \<Longrightarrow> length (remaining r) < n \<Longrightarrow>
      fst (get n r) = 0 \<and> \<not> good (snd (get n r))"
    and get_bad: "\<not> good r \<Longrightarrow> fst (get n r) = 0 \<and> \<not> good (snd (get n r))"
begin

text \<open>Reading back a field whose bits stand next in the stream.\<close>

lemma get_field:
  assumes "rinv r" "good r" "remaining r = bits_msb n v @ rest"
  shows "fst (get n r) = ucast v AND mask n" "good (snd (get n r))"
    "remaining (snd (get n r)) = rest" "rinv (snd (get n r))"
  using assms get_some [of r n] get_inv [of r n] by (simp_all add: msb_acc_bits_msb)

lemma good_iff_enough:
  assumes "rinv r" "good r"
  shows "good (snd (get n r)) \<longleftrightarrow> n \<le> length (remaining r)"
  using assms get_some [of r n] get_short [of r n] by (meson linorder_not_le)

end

section \<open>The writer is a bit sink\<close>

abbreviation bits_of_bytes :: "bytes \<Rightarrow> bool list" where
  "bits_of_bytes bs \<equiv> concat (map (bits_msb 8) bs)"

lemma length_bits_of_bytes [simp]: "length (bits_of_bytes bs) = 8 * length bs"
  by (induction bs) auto

lemma bits_msb_inj: "bits_msb LENGTH('a) (v :: 'a::len word) = bits_msb LENGTH('a) w \<Longrightarrow> v = w"
  by (rule bit_word_eqI) (simp add: bits_msb_def)

lemma bits_of_bytes_inj: "bits_of_bytes xs = bits_of_bytes ys \<Longrightarrow> xs = ys"
proof (induction xs arbitrary: ys)
  case Nil
  then show ?case by (cases ys) (auto simp: bits_msb_def)
next
  case (Cons x xs)
  then obtain y ys' where ys: "ys = y # ys'" by (cases ys) (auto simp: bits_msb_def)
  with Cons.prems have "bits_msb 8 x = bits_msb 8 y" "bits_of_bytes xs = bits_of_bytes ys'" by simp_all
  with Cons.IH bits_msb_inj [of x y] ys show ?case by simp
qed

lemma take_bits_of_bytes: "take (8 * n) (bits_of_bytes bs) = bits_of_bytes (take n bs)"
proof (induction n arbitrary: bs)
  case 0
  show ?case by simp
next
  case (Suc n)
  then show ?case by (cases bs) simp_all
qed

lemma bits_msb_msb_acc: "length bs \<le> 64 \<Longrightarrow> bits_msb (length bs) (msb_acc 0 bs) = bs"
proof (induction bs rule: rev_induct)
  case Nil
  show ?case by simp
next
  case (snoc b bs)
  let ?v = "msb_acc 0 bs"
  have "bits_msb (length bs + 1) (push_bit 1 ?v OR of_bool b) =
      bits_msb (length bs) (drop_bit 1 (push_bit 1 ?v OR of_bool b)) @ [b]"
    unfolding bits_msb_add by (simp add: bits_msb_def bit_or_iff bit_of_bool_iff bit_0 even_or_iff)
  moreover have "bits_msb (length bs) (drop_bit 1 (push_bit 1 ?v OR of_bool b)) = bits_msb (length bs) ?v"
  proof (rule bits_msb_cong)
    fix k assume "k < length bs"
    then show "bit (drop_bit 1 (push_bit 1 ?v OR of_bool b)) k = bit ?v k"
      unfolding bit_drop_bit_eq comp_def bit_or_iff bit_push_bit_iff
      using snoc.prems by (simp add: bit_of_bool_iff)
  qed
  ultimately show ?case using snoc by simp
qed

definition writer_inv :: "BitWriter \<Rightarrow> bool" where
  "writer_inv w \<longleftrightarrow> m_bitsFree w \<le> 8 \<and>
     (m_bitsFree w > 0 \<longrightarrow> m_buf w \<noteq> [] \<and> (\<forall>k < m_bitsFree w. \<not> bit (last (m_buf w)) k))"

definition held_bits :: "BitWriter \<Rightarrow> bool list" where
  "held_bits w = take (8 * length (m_buf w) - m_bitsFree w) (bits_of_bytes (m_buf w))"

lemma writer_inv_new [simp]: "writer_inv BitWriter_new"
  by (simp add: writer_inv_def BitWriter_new_def)

lemma held_bits_new [simp]: "held_bits BitWriter_new = []"
  by (simp add: held_bits_def BitWriter_new_def)

lemma held_bits_snoc:
  assumes "f \<le> 8"
  shows "held_bits \<lparr>m_buf = bs @ [b], m_bitsFree = f\<rparr> =
    bits_of_bytes bs @ bits_msb (8 - f) (drop_bit f b)"
proof -
  have "bits_msb 8 b = bits_msb (8 - f) (drop_bit f b) @ bits_msb f b"
    using bits_msb_add [of "8 - f" f b] assms by simp
  then show ?thesis using assms by (simp add: held_bits_def)
qed

lemma or_back_snoc [simp]: "or_back (bs @ [b]) x = bs @ [b OR x]"
  by (simp add: or_back_def)

text \<open>One round of the loop: \<open>c\<close> more bits of the value land in the last byte.\<close>

lemma chunk_bit:
  fixes v :: u64
  assumes "c \<le> n" "c \<le> f" "f \<le> 8" "f = 8 \<or> (\<forall>k\<ge>n. \<not> bit v k)"
  shows "bit (ucast (push_bit (f - c) (drop_bit (n - c) v)) :: u8) k \<longleftrightarrow>
    f - c \<le> k \<and> k < f \<and> bit v (n - c + (k - (f - c)))"
proof -
  have "bit v (n - c + (k - (f - c))) \<Longrightarrow> f - c \<le> k \<Longrightarrow> k < 8 \<Longrightarrow> k < f"
    using assms by (cases "k < f") auto
  moreover have "k < f \<Longrightarrow> k < 64" using assms by simp
  ultimately show ?thesis
    using assms(2,3) by (auto simp: bit_ucast_iff bit_push_bit_iff bit_drop_bit_eq)
qed

lemma write_step:
  fixes v :: u64
  assumes f: "0 < f" "f \<le> 8" and zero: "\<forall>k<f. \<not> bit b k" and c: "c = min n f"
    and fits: "f = 8 \<or> (\<forall>k\<ge>n. \<not> bit v k)"
    and b': "b' = b OR ucast (push_bit (f - c) (drop_bit (n - c) v))"
  shows "held_bits \<lparr>m_buf = bs @ [b'], m_bitsFree = f - c\<rparr> =
      bits_of_bytes bs @ bits_msb (8 - f) (drop_bit f b) @ bits_msb c (drop_bit (n - c) v)"
    and "\<forall>k<f - c. \<not> bit b' k"
proof -
  have cle: "c \<le> n" "c \<le> f" using c by simp_all
  note new = chunk_bit [OF cle f(2) fits]
  have "8 - (f - c) = (8 - f) + c" using cle f by simp
  then have "bits_msb (8 - (f - c)) (drop_bit (f - c) b') =
      bits_msb (8 - f) (drop_bit c (drop_bit (f - c) b')) @ bits_msb c (drop_bit (f - c) b')"
    by (simp only: bits_msb_add)
  moreover have "bits_msb (8 - f) (drop_bit c (drop_bit (f - c) b')) = bits_msb (8 - f) (drop_bit f b)"
    using cle by (intro bits_msb_cong) (auto simp: b' bit_drop_bit_eq bit_or_iff new)
  moreover have "bits_msb c (drop_bit (f - c) b') = bits_msb c (drop_bit (n - c) v)"
    unfolding bits_msb_def
    using cle zero by (intro map_cong) (auto simp: b' bit_drop_bit_eq bit_or_iff new)
  ultimately show "held_bits \<lparr>m_buf = bs @ [b'], m_bitsFree = f - c\<rparr> =
      bits_of_bytes bs @ bits_msb (8 - f) (drop_bit f b) @ bits_msb c (drop_bit (n - c) v)"
    using held_bits_snoc [of "f - c" bs b'] f(2) by simp
  show "\<forall>k<f - c. \<not> bit b' k"
    using zero by (auto simp: b' bit_or_iff new)
qed

lemma writer_cases:
  assumes "writer_inv w" "0 < m_bitsFree w"
  obtains bs b f where "w = \<lparr>m_buf = bs @ [b], m_bitsFree = f\<rparr>" "0 < f" "f \<le> 8"
    "\<forall>k<f. \<not> bit b k"
proof -
  from assms have ne: "m_buf w \<noteq> []" by (simp add: writer_inv_def)
  then have "w = \<lparr>m_buf = butlast (m_buf w) @ [last (m_buf w)], m_bitsFree = m_bitsFree w\<rparr>"
    by simp
  then show thesis by (rule that) (use assms in \<open>simp_all add: writer_inv_def\<close>)
qed

lemma Write_loop_held:
  assumes "writer_inv w" "n = 0 \<or> m_bitsFree w \<in> {0, 8} \<or> (\<forall>k\<ge>n. \<not> bit v k)"
  shows "writer_inv (Write_loop v n w) \<and> held_bits (Write_loop v n w) = held_bits w @ bits_msb n v \<and>
    (0 < n \<or> m_bitsFree w < 8 \<longrightarrow> m_bitsFree (Write_loop v n w) < 8)"
  using assms
proof (induction n arbitrary: w rule: less_induct)
  case (less n)
  show ?case
  proof (cases "n = 0")
    case True
    with less.prems show ?thesis by (simp add: Write_loop.simps)
  next
    case False
    define w1 where "w1 = (if m_bitsFree w = 0 then \<lparr>m_buf = m_buf w @ [0], m_bitsFree = 8\<rparr> else w)"
    have w1: "writer_inv w1" "0 < m_bitsFree w1" "held_bits w1 = held_bits w"
      "m_bitsFree w1 = 8 \<or> (\<forall>k\<ge>n. \<not> bit v k)"
      using less.prems False by (auto simp: w1_def writer_inv_def held_bits_def)
    from w1(1,2) obtain bs b f where wf: "w1 = \<lparr>m_buf = bs @ [b], m_bitsFree = f\<rparr>" and
      f: "0 < f" "f \<le> 8" "\<forall>k<f. \<not> bit b k" by (rule writer_cases)
    define c where "c = min n f"
    define b' where "b' = b OR ucast (push_bit (f - c) (drop_bit (n - c) v))"
    define w2 where "w2 = \<lparr>m_buf = bs @ [b'], m_bitsFree = f - c\<rparr>"
    have fits: "f = 8 \<or> (\<forall>k\<ge>n. \<not> bit v k)" using w1(4) wf by simp
    note step = write_step [OF f c_def fits b'_def]
    have unroll: "Write_loop v n w = Write_loop v (n - c) w2"
      using False wf by (subst Write_loop.simps)
        (simp add: w1_def [symmetric] w2_def b'_def c_def Let_def)
    have inv2: "writer_inv w2"
      using step(2) f by (simp add: w2_def writer_inv_def)
    have held2: "held_bits w2 = held_bits w @ bits_msb c (drop_bit (n - c) v)"
      using step(1) w1(3) wf held_bits_snoc [OF f(2), of bs b] by (simp add: w2_def)
    have "n - c = 0 \<or> m_bitsFree w2 \<in> {0, 8} \<or> (\<forall>k\<ge>n - c. \<not> bit v k)"
      by (auto simp: w2_def c_def min_def)
    then have "writer_inv (Write_loop v (n - c) w2) \<and>
        held_bits (Write_loop v (n - c) w2) = held_bits w2 @ bits_msb (n - c) v \<and>
        (0 < n - c \<or> m_bitsFree w2 < 8 \<longrightarrow> m_bitsFree (Write_loop v (n - c) w2) < 8)"
      using False f inv2 by (intro less.IH) (simp_all add: c_def)
    moreover have "bits_msb n v = bits_msb c (drop_bit (n - c) v) @ bits_msb (n - c) v"
      using bits_msb_add [of c "n - c" v] by (simp add: c_def)
    moreover have "m_bitsFree w2 < 8" using False f by (simp add: w2_def c_def)
    ultimately show ?thesis by (simp add: unroll held2)
  qed
qed

lemma BitWriter_Write_held:
  assumes "writer_inv w" "n \<le> 64"
  shows "writer_inv (BitWriter_Write v n w) \<and>
    held_bits (BitWriter_Write v n w) = held_bits w @ bits_msb n v \<and>
    (0 < n \<or> m_bitsFree w < 8 \<longrightarrow> m_bitsFree (BitWriter_Write v n w) < 8)"
proof (cases "n < 64")
  case True
  have "\<forall>k\<ge>n. \<not> bit (v AND mask n) k" by (simp add: bit_mask_and_iff)
  with Write_loop_held [OF assms(1), of n "v AND mask n"] True show ?thesis
    by (simp add: BitWriter_Write_def)
next
  case False
  with assms have "n = 64" by simp
  moreover have "\<forall>k\<ge>64. \<not> bit v k" using bit_imp_le_length [of v] by force
  ultimately show ?thesis
    using Write_loop_held [OF assms(1), of n v] by (simp add: BitWriter_Write_def)
qed

interpretation bw: bit_sink BitWriter_Write held_bits writer_inv
  by unfold_locales (simp_all add: BitWriter_Write_held)

text \<open>The bytes behind a writer are the held bits, padded with zeros to a whole byte.\<close>

lemma padding_zero:
  assumes "writer_inv w"
  shows "bits_of_bytes (m_buf w) = held_bits w @ replicate (m_bitsFree w) False"
proof (cases "m_bitsFree w = 0")
  case True
  then show ?thesis by (simp add: held_bits_def)
next
  case False
  with assms obtain bs b f where w: "w = \<lparr>m_buf = bs @ [b], m_bitsFree = f\<rparr>" "f \<le> 8"
    and z: "\<forall>k<f. \<not> bit b k" using writer_cases by (metis gr0I)
  have "bits_msb f b = replicate f False"
    using z by (intro nth_equalityI) (auto simp: bits_msb_def rev_nth)
  moreover have "bits_msb 8 b = bits_msb (8 - f) (drop_bit f b) @ bits_msb f b"
    using bits_msb_add [of "8 - f" f b] w by simp
  ultimately show ?thesis using held_bits_snoc [of f bs b] w by simp
qed

lemma held_length: "writer_inv w \<Longrightarrow> length (held_bits w) = BitWriter_BitLength w"
  by (simp add: held_bits_def BitWriter_BitLength_def)

lemma byte_size_from_bits:
  assumes "writer_inv w" "m_bitsFree w < 8"
  shows "length (m_buf w) = (length (held_bits w) + 7) div 8"
proof -
  have "m_buf w = [] \<longrightarrow> m_bitsFree w = 0" using assms by (auto simp: writer_inv_def)
  moreover have "length (held_bits w) = 8 * length (m_buf w) - m_bitsFree w"
    by (simp add: held_bits_def)
  ultimately show ?thesis
    using assms(2) by (cases "m_buf w") auto
qed

section \<open>The reader is a bit source\<close>

definition reader_inv :: "BitReader \<Rightarrow> bool" where
  "reader_inv r \<longleftrightarrow> m_bitAvail r \<le> 8"

definition remaining_bits :: "BitReader \<Rightarrow> bool list" where
  "remaining_bits r =
     bits_msb (m_bitAvail r) (m_current r) @ bits_of_bytes (drop (m_bytePos r) (m_data r))"

definition reader_good :: "BitReader \<Rightarrow> bool" where
  "reader_good r \<longleftrightarrow> \<not> m_error r"

lemma reader_new [simp]:
  "reader_inv (BitReader_new d)" "reader_good (BitReader_new d)"
  "remaining_bits (BitReader_new d) = bits_of_bytes d"
  by (simp_all add: reader_inv_def reader_good_def remaining_bits_def BitReader_new_def)

definition read_result :: "u64 \<Rightarrow> nat \<Rightarrow> BitReader \<Rightarrow> u64 \<times> BitReader \<Rightarrow> bool" where
  "read_result res n r out \<longleftrightarrow>
     reader_inv (snd out) \<and>
     (if n \<le> length (remaining_bits r)
      then fst out = msb_acc res (take n (remaining_bits r)) \<and>
        m_error (snd out) = m_error r \<and> remaining_bits (snd out) = drop n (remaining_bits r)
      else fst out = 0 \<and> m_error (snd out))"

text \<open>Fetching the next byte changes neither the remaining bits nor the error flag.\<close>

lemma refill:
  assumes "m_bytePos r < length (m_data r)" "m_bitAvail r = 0"
  shows "remaining_bits (r\<lparr>m_current := m_data r ! m_bytePos r, m_bytePos := m_bytePos r + 1,
           m_bitAvail := 8\<rparr>) = remaining_bits r"
  using assms by (simp add: remaining_bits_def flip: Cons_nth_drop_Suc)

lemma Read_loop_result:
  assumes "reader_inv r"
  shows "read_result res n r (Read_loop res n r)"
  using assms
proof (induction n arbitrary: r res rule: less_induct)
  case (less n)
  show ?case
  proof (cases "n = 0 \<or> m_bitAvail r = 0 \<and> m_bytePos r \<ge> length (m_data r)")
    case True
    then have "Read_loop res n r = (if n = 0 then (res, r) else (0, r\<lparr>m_error := True\<rparr>))"
      by (cases "n = 0"; subst Read_loop.simps) simp_all
    with less.prems True show ?thesis
      by (cases "n = 0") (simp_all add: read_result_def remaining_bits_def reader_inv_def)
  next
    case False
    define r1 where "r1 = (if m_bitAvail r = 0
      then r\<lparr>m_current := m_data r ! m_bytePos r, m_bytePos := m_bytePos r + 1, m_bitAvail := 8\<rparr>
      else r)"
    define a c where "a = m_bitAvail r1" and "c = min n a"
    define r2 where "r2 = r1\<lparr>m_bitAvail := a - c\<rparr>"
    define res2 where
      "res2 = push_bit c res OR (ucast (drop_bit (a - c) (m_current r1)) AND mask c)"
    let ?R = "remaining_bits r"
    have same: "remaining_bits r1 = ?R" "m_error r1 = m_error r"
      using False refill [of r] by (auto simp: r1_def)
    have a: "0 < a" "a \<le> 8" using False less.prems by (auto simp: a_def r1_def reader_inv_def)
    have c: "0 < c" "c \<le> n" "c \<le> a" using False a by (auto simp: c_def)
    have unroll: "Read_loop res n r = Read_loop res2 (n - c) r2"
    proof -
      have "0 < n" "(m_bitAvail r = 0 \<and> length (m_data r) \<le> m_bytePos r) = False"
        using False by auto
      then show ?thesis
        by (subst Read_loop.simps)
          (simp only: if_True if_False r1_def [symmetric] a_def [symmetric] c_def [symmetric]
            r2_def res2_def Let_def)
    qed
    have split: "bits_msb a (m_current r1) =
        bits_msb c (drop_bit (a - c) (m_current r1)) @ bits_msb (a - c) (m_current r1)"
      using bits_msb_add [of c "a - c" "m_current r1"] c by simp
    have R: "?R = bits_msb c (drop_bit (a - c) (m_current r1)) @ remaining_bits r2"
    proof -
      have "remaining_bits r1 = bits_msb a (m_current r1) @ bits_of_bytes (drop (m_bytePos r1) (m_data r1))"
        by (simp add: remaining_bits_def a_def)
      then show ?thesis
        unfolding same(1) split by (simp add: remaining_bits_def r2_def)
    qed
    have acc: "res2 = msb_acc res (bits_msb c (drop_bit (a - c) (m_current r1)))"
      by (simp add: res2_def msb_acc_bits_msb)
    have IH: "read_result res2 (n - c) r2 (Read_loop res2 (n - c) r2)"
      using c a by (intro less.IH) (simp_all add: r2_def reader_inv_def)
    have "take n ?R = bits_msb c (drop_bit (a - c) (m_current r1)) @ take (n - c) (remaining_bits r2)"
      "drop n ?R = drop (n - c) (remaining_bits r2)"
      "n \<le> length ?R \<longleftrightarrow> n - c \<le> length (remaining_bits r2)"
      using c by (simp_all add: R) arith
    moreover have "m_error r2 = m_error r" using same by (simp add: r2_def)
    ultimately show ?thesis
      using IH unfolding unroll read_result_def acc by simp
  qed
qed

lemma BitReader_Read_result:
  assumes "reader_inv r" "reader_good r"
  shows "read_result 0 n r (BitReader_Read n r)"
  using Read_loop_result [OF assms(1), of 0 n] assms(2)
  by (simp add: BitReader_Read_def reader_good_def)

lemma reader_inv_Read: "reader_inv r \<Longrightarrow> reader_inv (snd (BitReader_Read n r))"
  using Read_loop_result [of r 0 n] by (auto simp: BitReader_Read_def read_result_def)

interpretation br: bit_source BitReader_Read remaining_bits reader_good reader_inv
proof unfold_locales
  fix r n
  assume inv: "reader_inv r"
  then show "reader_inv (snd (BitReader_Read n r))" by (rule reader_inv_Read)
  assume good: "reader_good r"
  note res = BitReader_Read_result [OF inv good, of n]
  { assume "n \<le> length (remaining_bits r)"
    with res good show "fst (BitReader_Read n r) = msb_acc 0 (take n (remaining_bits r)) \<and>
        reader_good (snd (BitReader_Read n r)) \<and>
        remaining_bits (snd (BitReader_Read n r)) = drop n (remaining_bits r)"
      by (simp add: read_result_def reader_good_def) }
  { assume "length (remaining_bits r) < n"
    with res show "fst (BitReader_Read n r) = 0 \<and> \<not> reader_good (snd (BitReader_Read n r))"
      by (simp add: read_result_def reader_good_def) }
next
  fix r n
  assume "\<not> reader_good r"
  then show "fst (BitReader_Read n r) = 0 \<and> \<not> reader_good (snd (BitReader_Read n r))"
    by (simp add: reader_good_def BitReader_Read_def)
qed

section \<open>Properties\<close>

text \<open>A sequence of fields, each a value and a width, written and read back in order.\<close>

fun write_fields :: "(u64 \<times> nat) list \<Rightarrow> BitWriter \<Rightarrow> BitWriter" where
  "write_fields [] w = w"
| "write_fields ((v, n) # fs) w = write_fields fs (BitWriter_Write v n w)"

fun read_fields :: "nat list \<Rightarrow> BitReader \<Rightarrow> u64 list \<times> BitReader" where
  "read_fields [] r = ([], r)"
| "read_fields (n # ns) r =
     (let (v, r') = BitReader_Read n r; (vs, r'') = read_fields ns r' in (v # vs, r''))"

definition field_width_ok :: "u64 \<times> nat \<Rightarrow> bool" where
  "field_width_ok f \<longleftrightarrow> 1 \<le> snd f \<and> snd f \<le> 64"

lemma write_fields_held:
  assumes "writer_inv w" "list_all field_width_ok fs"
  shows "writer_inv (write_fields fs w) \<and>
    held_bits (write_fields fs w) = held_bits w @ concat (map (\<lambda>(v, n). bits_msb n v) fs)"
  using assms
  by (induction fs w rule: write_fields.induct)
    (simp_all add: BitWriter_Write_held field_width_ok_def)

lemma read_fields_back:
  assumes "reader_inv r" "reader_good r"
    and "remaining_bits r = concat (map (\<lambda>(v, n). bits_msb n v) fs) @ rest"
  shows "fst (read_fields (map snd fs) r) = map (\<lambda>(v, n). v AND mask n) fs \<and>
    reader_good (snd (read_fields (map snd fs) r)) \<and>
    remaining_bits (snd (read_fields (map snd fs) r)) = rest"
  using assms
proof (induction fs arbitrary: r)
  case Nil
  then show ?case by simp
next
  case (Cons f fs)
  obtain v n where f: "f = (v, n)" by (cases f)
  have R: "remaining_bits r = bits_msb n v @ concat (map (\<lambda>(v, n). bits_msb n v) fs) @ rest"
    using Cons.prems(3) f by simp
  note field = br.get_field [OF Cons.prems(1,2) R]
  from Cons.IH [OF field(4,2,3)] field(1) f show ?case
    by (simp add: case_prod_beta Let_def)
qed

text \<open>What is written comes back.  Any sequence of bit fields of 1 to 64 bits written to a
  fresh writer and read with the same widths gives the values truncated to their widths, without
  a read error, whatever the alignment of the fields.\<close>

theorem bitstream_roundtrip:
  assumes "list_all field_width_ok fs"
  shows "fst (read_fields (map snd fs) (BitReader_new (m_buf (write_fields fs BitWriter_new)))) =
      map (\<lambda>(v, n). v AND mask n) fs \<and>
    \<not> m_error (snd (read_fields (map snd fs)
        (BitReader_new (m_buf (write_fields fs BitWriter_new)))))"
proof -
  let ?w = "write_fields fs BitWriter_new"
  have "writer_inv ?w" "held_bits ?w = concat (map (\<lambda>(v, n). bits_msb n v) fs)"
    using write_fields_held [OF writer_inv_new assms] by simp_all
  then have "remaining_bits (BitReader_new (m_buf ?w)) =
      concat (map (\<lambda>(v, n). bits_msb n v) fs) @ replicate (m_bitsFree ?w) False"
    by (simp add: padding_zero)
  from read_fields_back [OF reader_new(1,2) this] show ?thesis
    by (simp add: reader_good_def)
qed

lemma bitstream_roundtrip_witness:
  "fst (read_fields [3, 20, 64, 1]
     (BitReader_new (m_buf (write_fields [(13, 3), (1048575, 20), (18446744073709551615, 64), (0, 1)]
        BitWriter_new)))) = [5, 1048575, 18446744073709551615, 0]"
  using bitstream_roundtrip
    [of "[(13, 3), (1048575, 20), (18446744073709551615, 64), (0, 1)]"]
  by (simp add: field_width_ok_def mask_eq_exp_minus_1 del: write_fields.simps read_fields.simps)

text \<open>Reading is memory safe and fails closed.  A read of \<open>n\<close> bits succeeds exactly
  if that many bits are left; otherwise it returns 0 and raises the error flag, and once raised
  the flag stays and every later read returns 0.\<close>

theorem BitReader_Read_fails_closed:
  assumes "reader_inv r"
  shows "(m_error (snd (BitReader_Read n r)) \<longleftrightarrow> m_error r \<or> length (remaining_bits r) < n) \<and>
    (m_error (snd (BitReader_Read n r)) \<longrightarrow>
       fst (BitReader_Read n r) = 0 \<and> BitReader_Read k (snd (BitReader_Read n r)) =
         (0, snd (BitReader_Read n r)))"
proof (cases "m_error r")
  case True
  then show ?thesis by (simp add: BitReader_Read_def)
next
  case False
  then have good: "reader_good r" by (simp add: reader_good_def)
  show ?thesis
  proof (cases "n \<le> length (remaining_bits r)")
    case True
    with br.get_some [OF assms good] False show ?thesis by (simp add: reader_good_def)
  next
    case short: False
    with br.get_short [OF assms good, of n] False show ?thesis
      by (simp add: reader_good_def BitReader_Read_def [of k])
  qed
qed

lemma BitReader_Read_fails_closed_witness:
  "m_error (snd (BitReader_Read 9 (BitReader_new [255])))"
  using BitReader_Read_fails_closed [OF reader_new(1), of 9 "[255]" 1] by simp

end
