(* ===== verification/Serde_Buffer.thy ===== *)
theory Serde_Buffer
  imports Bit_Stream "HOL-Library.State_Monad"
begin

text \<open>
  \<open>NeuronCore/Serde.h\<close>: the versioned write and read buffers over the bit stream.  A
  writer call is a function on the buffer; a reader call is a computation of the state monad, so
  that decoders keep the shape of the code.  A \<open>float\<close> travels as its 32-bit pattern
  (\<open>memcpy\<close> both ways), so the model carries that pattern.

  The predicate \<open>reads m bits v\<close> says what a decoder does on a good buffer that starts
  with \<open>bits\<close>; the locale \<open>codec\<close> is the contract of a record codec and gives
  the round trip of counted lists once, for every record type of the program.
\<close>

section \<open>Operations\<close>

definition SERDE_VERSION :: u32 where "SERDE_VERSION = 1"

type_synonym float32 = u32

record WriteBuffer =
  m_writer :: BitWriter

record ReadBuffer =
  m_reader :: BitReader
  m_versionMismatch :: bool

type_synonym 'a rd = "(ReadBuffer, 'a) state"

definition WriteBits :: "u64 \<Rightarrow> nat \<Rightarrow> WriteBuffer \<Rightarrow> WriteBuffer" where
  "WriteBits v bits wb = wb\<lparr>m_writer := BitWriter_Write v bits (m_writer wb)\<rparr>"

definition WriteUint8 :: "u8 \<Rightarrow> WriteBuffer \<Rightarrow> WriteBuffer" where
  "WriteUint8 v = WriteBits (ucast v) 8"

definition WriteUint16 :: "u16 \<Rightarrow> WriteBuffer \<Rightarrow> WriteBuffer" where
  "WriteUint16 v = WriteBits (ucast v) 16"

definition WriteUint32 :: "u32 \<Rightarrow> WriteBuffer \<Rightarrow> WriteBuffer" where
  "WriteUint32 v = WriteBits (ucast v) 32"

definition WriteUint64 :: "u64 \<Rightarrow> WriteBuffer \<Rightarrow> WriteBuffer" where
  "WriteUint64 v = WriteBits v 64"

definition WriteInt64 :: "u64 \<Rightarrow> WriteBuffer \<Rightarrow> WriteBuffer" where
  "WriteInt64 v = WriteUint64 v"

definition WriteFloat :: "float32 \<Rightarrow> WriteBuffer \<Rightarrow> WriteBuffer" where
  "WriteFloat raw = WriteUint32 raw"

definition WriteBool :: "bool \<Rightarrow> WriteBuffer \<Rightarrow> WriteBuffer" where
  "WriteBool v = WriteBits (if v then 1 else 0) 1"

definition WriteBuffer_new :: WriteBuffer where
  "WriteBuffer_new = WriteUint32 SERDE_VERSION \<lparr>m_writer = BitWriter_new\<rparr>"

definition WriteBytes :: "bytes \<Rightarrow> WriteBuffer \<Rightarrow> WriteBuffer" where
  "WriteBytes p wb = fold WriteUint8 p (wb\<lparr>m_writer := BitWriter_Flush (m_writer wb)\<rparr>)"

definition Finalise :: "WriteBuffer \<Rightarrow> WriteBuffer" where
  "Finalise wb = wb\<lparr>m_writer := BitWriter_Flush (m_writer wb)\<rparr>"

definition WriteBuffer_Data :: "WriteBuffer \<Rightarrow> bytes" where
  "WriteBuffer_Data wb = m_buf (m_writer wb)"

definition ReadBits_raw :: "nat \<Rightarrow> ReadBuffer \<Rightarrow> u64 \<times> ReadBuffer" where
  "ReadBits_raw bits rb =
     (let (v, r) = BitReader_Read bits (m_reader rb) in (v, rb\<lparr>m_reader := r\<rparr>))"

definition ReadBits :: "nat \<Rightarrow> u64 rd" where
  "ReadBits bits = State (ReadBits_raw bits)"

definition ReadUint8 :: "u8 rd" where
  "ReadUint8 = do { v \<leftarrow> ReadBits 8; State_Monad.return (ucast v) }"

definition ReadUint16 :: "u16 rd" where
  "ReadUint16 = do { v \<leftarrow> ReadBits 16; State_Monad.return (ucast v) }"

definition ReadUint32 :: "u32 rd" where
  "ReadUint32 = do { v \<leftarrow> ReadBits 32; State_Monad.return (ucast v) }"

definition ReadUint64 :: "u64 rd" where
  "ReadUint64 = ReadBits 64"

definition ReadInt64 :: "u64 rd" where
  "ReadInt64 = ReadUint64"

definition ReadFloat :: "float32 rd" where
  "ReadFloat = ReadUint32"

definition ReadBool :: "bool rd" where
  "ReadBool = do { v \<leftarrow> ReadBits 1; State_Monad.return (v \<noteq> 0) }"

definition ReadBytes :: "nat \<Rightarrow> bytes rd" where
  "ReadBytes len = do {
     _ \<leftarrow> State (\<lambda>rb. ((), rb\<lparr>m_reader := AlignToByte (m_reader rb)\<rparr>));
     State_Monad.traverse_list (\<lambda>_. ReadUint8) [0..<len] }"

definition IsGood :: "ReadBuffer \<Rightarrow> bool" where
  "IsGood rb \<longleftrightarrow> \<not> m_error (m_reader rb) \<and> \<not> m_versionMismatch rb"

definition read_IsGood :: "bool rd" where
  "read_IsGood = State (\<lambda>rb. (IsGood rb, rb))"

definition ReadBuffer_new :: "bytes \<Rightarrow> ReadBuffer" where
  "ReadBuffer_new data =
     (let (ver, rb) = run_state ReadUint32 \<lparr>m_reader = BitReader_new data, m_versionMismatch = False\<rparr>
      in if ver \<noteq> SERDE_VERSION then rb\<lparr>m_versionMismatch := True\<rparr> else rb)"

section \<open>The buffers are a bit sink and a bit source\<close>

definition wb_inv :: "WriteBuffer \<Rightarrow> bool" where
  "wb_inv wb \<longleftrightarrow> writer_inv (m_writer wb) \<and> m_bitsFree (m_writer wb) < 8"

definition wb_bits :: "WriteBuffer \<Rightarrow> bool list" where
  "wb_bits wb = held_bits (m_writer wb)"

definition rb_inv :: "ReadBuffer \<Rightarrow> bool" where
  "rb_inv rb \<longleftrightarrow> reader_inv (m_reader rb)"

definition rb_rest :: "ReadBuffer \<Rightarrow> bool list" where
  "rb_rest rb = remaining_bits (m_reader rb)"

lemma WriteBits_sink:
  assumes "wb_inv wb" "1 \<le> n" "n \<le> 64"
  shows "wb_inv (WriteBits v n wb) \<and> wb_bits (WriteBits v n wb) = wb_bits wb @ bits_msb n v"
  using BitWriter_Write_held [of "m_writer wb" n v] assms
  by (simp add: wb_inv_def wb_bits_def WriteBits_def)

interpretation wb: bit_sink WriteBits wb_bits wb_inv
  by unfold_locales (simp_all add: WriteBits_sink)

text \<open>A version mismatch makes the buffer bad from the start, but the underlying reads still
  advance; so the source law is stated for the bit reader inside.\<close>

lemma ReadBits_raw_cases:
  assumes "rb_inv rb" "IsGood rb"
  shows "n \<le> length (rb_rest rb) \<Longrightarrow>
      fst (ReadBits_raw n rb) = msb_acc 0 (take n (rb_rest rb)) \<and>
      IsGood (snd (ReadBits_raw n rb)) \<and> rb_rest (snd (ReadBits_raw n rb)) = drop n (rb_rest rb)"
    and "length (rb_rest rb) < n \<Longrightarrow>
      fst (ReadBits_raw n rb) = 0 \<and> \<not> IsGood (snd (ReadBits_raw n rb))"
  using br.get_some [of "m_reader rb" n] br.get_short [of "m_reader rb" n] assms
  by (auto simp: ReadBits_raw_def rb_inv_def rb_rest_def IsGood_def reader_good_def case_prod_beta)

lemma rb_inv_ReadBits: "rb_inv rb \<Longrightarrow> rb_inv (snd (ReadBits_raw n rb))"
  by (simp add: rb_inv_def ReadBits_raw_def case_prod_beta reader_inv_Read)

lemma ReadBits_bad_stays: "\<not> IsGood rb \<Longrightarrow> \<not> IsGood (snd (ReadBits_raw n rb))"
  using br.get_bad [of "m_reader rb" n]
  by (auto simp: ReadBits_raw_def IsGood_def case_prod_beta reader_good_def)

text \<open>The bits behind the typed writers.\<close>

named_theorems wb_simps \<open>bits and invariant after a write\<close>

lemma WriteUint_bits [wb_simps]:
  assumes "wb_inv wb"
  shows
    "wb_inv (WriteUint8 a wb)" "wb_bits (WriteUint8 a wb) = wb_bits wb @ bits_msb 8 a"
    "wb_inv (WriteUint16 b wb)" "wb_bits (WriteUint16 b wb) = wb_bits wb @ bits_msb 16 b"
    "wb_inv (WriteUint32 c wb)" "wb_bits (WriteUint32 c wb) = wb_bits wb @ bits_msb 32 c"
    "wb_inv (WriteUint64 d wb)" "wb_bits (WriteUint64 d wb) = wb_bits wb @ bits_msb 64 d"
    "wb_inv (WriteInt64 d wb)" "wb_bits (WriteInt64 d wb) = wb_bits wb @ bits_msb 64 d"
    "wb_inv (WriteFloat c wb)" "wb_bits (WriteFloat c wb) = wb_bits wb @ bits_msb 32 c"
  using assms
  by (auto simp: WriteUint8_def WriteUint16_def WriteUint32_def WriteUint64_def WriteInt64_def
      WriteFloat_def wb.put_inv wb.put_held bits_msb_ucast)

lemma WriteBits_simps [wb_simps]:
  assumes "wb_inv wb" "1 \<le> n" "n \<le> 64"
  shows "wb_inv (WriteBits v n wb)" "wb_bits (WriteBits v n wb) = wb_bits wb @ bits_msb n v"
  using assms by (simp_all add: wb.put_inv wb.put_held)

section \<open>What a decoder reads\<close>

definition reads :: "'a rd \<Rightarrow> bool list \<Rightarrow> 'a \<Rightarrow> bool" where
  "reads m bs v \<longleftrightarrow> (\<forall>rb rest. rb_inv rb \<and> IsGood rb \<and> rb_rest rb = bs @ rest \<longrightarrow>
     (case run_state m rb of (x, rb') \<Rightarrow> x = v \<and> rb_inv rb' \<and> IsGood rb' \<and> rb_rest rb' = rest))"

text \<open>\<open>needs m n\<close>: a run that ends good began good and consumed at least \<open>n\<close> bits.\<close>

definition needs :: "'a rd \<Rightarrow> nat \<Rightarrow> bool" where
  "needs m n \<longleftrightarrow> (\<forall>rb. rb_inv rb \<longrightarrow>
     (case run_state m rb of (x, rb') \<Rightarrow> rb_inv rb' \<and>
        (IsGood rb' \<longrightarrow> IsGood rb \<and> n + length (rb_rest rb') \<le> length (rb_rest rb))))"

lemma readsD:
  assumes "reads m bs v" "rb_inv rb" "IsGood rb" "rb_rest rb = bs @ rest" "run_state m rb = (x, rb')"
  shows "x = v" "rb_inv rb'" "IsGood rb'" "rb_rest rb' = rest"
  using assms unfolding reads_def by (metis (mono_tags, lifting) case_prod_conv)+

lemma needsD:
  assumes "needs m n" "rb_inv rb" "run_state m rb = (x, rb')"
  shows "rb_inv rb'" "IsGood rb' \<Longrightarrow> IsGood rb"
    "IsGood rb' \<Longrightarrow> n + length (rb_rest rb') \<le> length (rb_rest rb)"
  using assms unfolding needs_def by (metis (mono_tags, lifting) case_prod_conv)+

named_theorems reads_intros \<open>what the primitive readers read\<close>
named_theorems needs_intros \<open>what the primitive readers need\<close>

lemma reads_return [reads_intros]: "reads (State_Monad.return v) [] v"
  by (simp add: reads_def)

lemma reads_bind [reads_intros]:
  assumes m: "reads m bs v" and k: "reads (k v) cs w"
  shows "reads (State_Monad.bind m k) (bs @ cs) w"
  unfolding reads_def
proof (intro allI impI)
  fix rb rest
  assume rb: "rb_inv rb \<and> IsGood rb \<and> rb_rest rb = (bs @ cs) @ rest"
  obtain x rb1 where r1: "run_state m rb = (x, rb1)" by (cases "run_state m rb")
  with rb readsD [OF m _ _ _ r1, of "cs @ rest"]
  have 1: "x = v" "rb_inv rb1 \<and> IsGood rb1 \<and> rb_rest rb1 = cs @ rest" by simp_all
  then show "case run_state (State_Monad.bind m k) rb of
      (x, rb') \<Rightarrow> x = w \<and> rb_inv rb' \<and> IsGood rb' \<and> rb_rest rb' = rest"
    using k r1 unfolding reads_def by simp
qed

lemma reads_eq: "reads m bs v \<Longrightarrow> v = v' \<Longrightarrow> reads m bs v'"
  by simp

lemma reads_ReadBits:
  "reads (ReadBits n) (bits_msb n v) (ucast v AND mask n)"
  using ReadBits_raw_cases(1) [of _ n] rb_inv_ReadBits [of _ n]
  by (auto simp: reads_def ReadBits_def msb_acc_bits_msb case_prod_beta)

lemma ucast_mask_ucast:
  assumes "LENGTH('a) = n" "n \<le> 64"
  shows "ucast ((ucast (v :: 'a::len word) :: u64) AND mask n) = v"
  using assms by (intro bit_word_eqI) (auto simp: bit_ucast_iff bit_mask_and_iff)

lemma reads_map:
  "reads m bs v \<Longrightarrow> reads (do { x \<leftarrow> m; State_Monad.return (f x) }) bs (f v)"
  using reads_bind [of m bs v "\<lambda>x. State_Monad.return (f x)" "[]" "f v"] by (simp add: reads_return)

lemma reads_ReadUint8 [reads_intros]: "reads ReadUint8 (bits_msb 8 v) v"
  unfolding ReadUint8_def
  by (rule reads_eq [OF reads_map [OF reads_ReadBits]], rule ucast_mask_ucast) simp_all

lemma reads_ReadUint16 [reads_intros]: "reads ReadUint16 (bits_msb 16 v) v"
  unfolding ReadUint16_def
  by (rule reads_eq [OF reads_map [OF reads_ReadBits]], rule ucast_mask_ucast) simp_all

lemma reads_ReadUint32 [reads_intros]: "reads ReadUint32 (bits_msb 32 v) v"
  unfolding ReadUint32_def
  by (rule reads_eq [OF reads_map [OF reads_ReadBits]], rule ucast_mask_ucast) simp_all

lemma reads_ReadUint64 [reads_intros]: "reads ReadUint64 (bits_msb 64 v) v"
  unfolding ReadUint64_def
  by (rule reads_eq [OF reads_ReadBits]) (rule bit_word_eqI, simp add: bit_mask_and_iff bit_ucast_iff)

lemma reads_ReadInt64 [reads_intros]: "reads ReadInt64 (bits_msb 64 v) v"
  unfolding ReadInt64_def by (rule reads_ReadUint64)

lemma reads_ReadFloat [reads_intros]: "reads ReadFloat (bits_msb 32 v) v"
  unfolding ReadFloat_def by (rule reads_ReadUint32)

lemma reads_IsGood [reads_intros]: "reads read_IsGood [] True"
  by (simp add: reads_def read_IsGood_def)

lemma reads_IsGood_then:
  "reads (k True) cs w \<Longrightarrow> reads (State_Monad.bind read_IsGood k) cs w"
  using reads_bind [OF reads_IsGood, of k cs w] by simp

lemma needs_return [needs_intros]: "needs (State_Monad.return v) 0"
  by (simp add: needs_def)

lemma needs_weaken: "needs m n \<Longrightarrow> n' \<le> n \<Longrightarrow> needs m n'"
  by (force simp: needs_def)

lemma needs_bind [needs_intros]:
  assumes "needs m a" "\<And>x. needs (k x) b"
  shows "needs (State_Monad.bind m k) (a + b)"
  unfolding needs_def
proof (intro allI impI)
  fix rb assume rb: "rb_inv rb"
  obtain x rb1 where r1: "run_state m rb = (x, rb1)" by (cases "run_state m rb")
  obtain y rb2 where r2: "run_state (k x) rb1 = (y, rb2)" by (cases "run_state (k x) rb1")
  note 1 = needsD [OF assms(1) rb r1] and 2 = needsD [OF assms(2) needsD(1) [OF assms(1) rb r1] r2]
  show "case run_state (State_Monad.bind m k) rb of (x, rb') \<Rightarrow> rb_inv rb' \<and>
      (IsGood rb' \<longrightarrow> IsGood rb \<and> a + b + length (rb_rest rb') \<le> length (rb_rest rb))"
    using r1 r2 1 2 by (auto dest: 1(2,3) 2(2,3)) 
qed

lemma needs_ReadBits [needs_intros]: "needs (ReadBits n) n"
proof -
  have "rb_inv rb \<Longrightarrow> IsGood (snd (ReadBits_raw n rb)) \<Longrightarrow>
      IsGood rb \<and> n + length (rb_rest (snd (ReadBits_raw n rb))) \<le> length (rb_rest rb)" for rb
    using ReadBits_raw_cases [of rb n] ReadBits_bad_stays [of rb n]
    by (cases "IsGood rb"; cases "n \<le> length (rb_rest rb)") auto
  then show ?thesis
    by (auto simp: needs_def ReadBits_def case_prod_beta rb_inv_ReadBits)
qed

lemma needs_Uint [needs_intros]:
  "needs ReadUint8 8" "needs ReadUint16 16" "needs ReadUint32 32" "needs ReadUint64 64"
  "needs ReadInt64 64" "needs ReadFloat 32"
  using needs_bind [OF needs_ReadBits needs_return, of 8] needs_bind [OF needs_ReadBits needs_return, of 16]
    needs_bind [OF needs_ReadBits needs_return, of 32] needs_ReadBits [of 64]
  by (simp_all add: ReadUint8_def ReadUint16_def ReadUint32_def ReadUint64_def ReadInt64_def
      ReadFloat_def)

lemma needs_IsGood [needs_intros]: "needs read_IsGood 0"
  by (simp add: needs_def read_IsGood_def)

text \<open>\<open>stable m\<close>: a run that ends good does not depend on what follows the bits
  it consumed.\<close>

definition stable :: "'a rd \<Rightarrow> bool" where
  "stable m \<longleftrightarrow> (\<forall>rb rb2 extra. rb_inv rb \<and> rb_inv rb2 \<and> IsGood rb \<and> IsGood rb2 \<and>
     rb_rest rb2 = rb_rest rb @ extra \<and> IsGood (snd (run_state m rb)) \<longrightarrow>
     fst (run_state m rb2) = fst (run_state m rb) \<and> IsGood (snd (run_state m rb2)) \<and>
     rb_rest (snd (run_state m rb2)) = rb_rest (snd (run_state m rb)) @ extra)"

definition wellread :: "'a rd \<Rightarrow> nat \<Rightarrow> bool" where
  "wellread m n \<longleftrightarrow> needs m n \<and> stable m"

named_theorems wellread_intros \<open>composition of well-behaved readers\<close>

lemma wellread_needs: "wellread m n \<Longrightarrow> needs m n"
  by (simp add: wellread_def)

lemma wellread_weaken: "wellread m n \<Longrightarrow> n' \<le> n \<Longrightarrow> wellread m n'"
  by (auto simp: wellread_def intro: needs_weaken)

lemma stable_bind:
  assumes m: "needs m a" "stable m" and k: "\<And>x. needs (k x) b" "\<And>x. stable (k x)"
  shows "stable (State_Monad.bind m k)"
  unfolding stable_def
proof (intro allI impI)
  fix rb rb2 extra
  assume asm: "rb_inv rb \<and> rb_inv rb2 \<and> IsGood rb \<and> IsGood rb2 \<and> rb_rest rb2 = rb_rest rb @ extra \<and>
    IsGood (snd (run_state (State_Monad.bind m k) rb))"
  obtain x rb1 where r1: "run_state m rb = (x, rb1)" by (cases "run_state m rb")
  obtain x2 rb21 where r21: "run_state m rb2 = (x2, rb21)" by (cases "run_state m rb2")
  note n1 = needsD [OF m(1) _ r1] and n21 = needsD [OF m(1) _ r21]
  obtain y rb3 where r3: "run_state (k x) rb1 = (y, rb3)" by (cases "run_state (k x) rb1")
  have "IsGood rb3" using asm r1 r3 by simp
  with needsD(2) [OF k(1) _ r3] n1(1) asm have g1: "IsGood rb1" by simp
  with m(2) asm r1 r21 have eq: "x2 = x" "IsGood rb21" "rb_rest rb21 = rb_rest rb1 @ extra"
    unfolding stable_def by (metis fst_conv snd_conv)+
  have "fst (run_state (k x) rb21) = y \<and> IsGood (snd (run_state (k x) rb21)) \<and>
      rb_rest (snd (run_state (k x) rb21)) = rb_rest rb3 @ extra"
    using k(2) [of x] n1(1) n21(1) asm g1 eq r3 \<open>IsGood rb3\<close> unfolding stable_def by (metis fst_conv snd_conv)
  then show "fst (run_state (State_Monad.bind m k) rb2) = fst (run_state (State_Monad.bind m k) rb) \<and>
      IsGood (snd (run_state (State_Monad.bind m k) rb2)) \<and>
      rb_rest (snd (run_state (State_Monad.bind m k) rb2)) =
        rb_rest (snd (run_state (State_Monad.bind m k) rb)) @ extra"
    using r1 r21 r3 eq by (simp add: case_prod_beta)
qed

lemma wellread_bind [wellread_intros]:
  "wellread m a \<Longrightarrow> (\<And>x. wellread (k x) b) \<Longrightarrow> wellread (State_Monad.bind m k) (a + b)"
  by (auto simp: wellread_def intro: needs_bind stable_bind)

lemma wellread_return [wellread_intros]: "wellread (State_Monad.return v) 0"
  by (simp add: wellread_def needs_return stable_def)

lemma wellread_IsGood [wellread_intros]: "wellread read_IsGood 0"
  by (simp add: wellread_def needs_IsGood) (simp add: stable_def read_IsGood_def)

lemma wellread_if [wellread_intros]:
  "wellread m a \<Longrightarrow> wellread m' b \<Longrightarrow> wellread (if c then m else m') (if c then a else b)"
  by simp

lemma wellread_ReadBits [wellread_intros]: "wellread (ReadBits n) n"
proof -
  have "stable (ReadBits n)"
    unfolding stable_def
  proof (intro allI impI)
    fix rb rb2 extra
    assume asm: "rb_inv rb \<and> rb_inv rb2 \<and> IsGood rb \<and> IsGood rb2 \<and> rb_rest rb2 = rb_rest rb @ extra \<and>
      IsGood (snd (run_state (ReadBits n) rb))"
    then have "n \<le> length (rb_rest rb)"
      using ReadBits_raw_cases(2) [of rb n] by (auto simp: ReadBits_def not_less [symmetric])
    with asm show "fst (run_state (ReadBits n) rb2) = fst (run_state (ReadBits n) rb) \<and>
        IsGood (snd (run_state (ReadBits n) rb2)) \<and>
        rb_rest (snd (run_state (ReadBits n) rb2)) = rb_rest (snd (run_state (ReadBits n) rb)) @ extra"
      using ReadBits_raw_cases(1) [of rb n] ReadBits_raw_cases(1) [of rb2 n]
      by (simp add: ReadBits_def)
  qed
  then show ?thesis by (simp add: wellread_def needs_ReadBits)
qed

lemma wellread_map: "wellread m n \<Longrightarrow> wellread (do { x \<leftarrow> m; State_Monad.return (f x) }) n"
  using wellread_bind [OF _ wellread_return, of m n f] by simp

lemma wellread_Uint [wellread_intros]:
  "wellread ReadUint8 8" "wellread ReadUint16 16" "wellread ReadUint32 32" "wellread ReadUint64 64"
  "wellread ReadInt64 64" "wellread ReadFloat 32"
  by (simp_all add: ReadUint8_def ReadUint16_def ReadUint32_def ReadUint64_def ReadInt64_def
      ReadFloat_def wellread_map wellread_ReadBits)

section \<open>Record codecs and counted lists\<close>

text \<open>\<open>for (i = 0; i < n; ++i) { read; push_back }\<close>, without and with a check after
  each element (the loops of \<open>WarmRestart.h\<close> and of \<open>Snapshot.h\<close>).\<close>

fun read_many :: "nat \<Rightarrow> 'a rd \<Rightarrow> 'a list rd" where
  "read_many 0 rd = State_Monad.return []"
| "read_many (Suc n) rd = do { x \<leftarrow> rd; xs \<leftarrow> read_many n rd; State_Monad.return (x # xs) }"

fun read_checked :: "nat \<Rightarrow> 'a option rd \<Rightarrow> 'a list option rd" where
  "read_checked 0 rd = do { g \<leftarrow> read_IsGood; State_Monad.return (if g then Some [] else None) }"
| "read_checked (Suc n) rd = do {
     x \<leftarrow> rd;
     (case x of None \<Rightarrow> State_Monad.return None
      | Some a \<Rightarrow> do {
          xs \<leftarrow> read_checked n rd;
          State_Monad.return (map_option (\<lambda>xs. a # xs) xs) }) }"

text \<open>A decoder that reports success only on a good buffer.\<close>

definition honest :: "'a option rd \<Rightarrow> bool" where
  "honest m \<longleftrightarrow> (\<forall>rb. fst (run_state m rb) \<noteq> None \<longrightarrow> IsGood (snd (run_state m rb)))"

locale writer_codec =
  fixes wr :: "'a \<Rightarrow> WriteBuffer \<Rightarrow> WriteBuffer"
    and bits :: "'a \<Rightarrow> bool list"
    and valid :: "'a \<Rightarrow> bool"
  assumes wr_bits: "wb_inv w \<Longrightarrow> valid a \<Longrightarrow> wb_inv (wr a w) \<and> wb_bits (wr a w) = wb_bits w @ bits a"
begin

lemma fold_wr:
  assumes "wb_inv w" "list_all valid as"
  shows "wb_inv (fold wr as w) \<and> wb_bits (fold wr as w) = wb_bits w @ concat (map bits as)"
  using assms by (induction as arbitrary: w) (simp_all add: wr_bits)

end

locale codec = writer_codec wr bits valid
  for wr :: "'a \<Rightarrow> WriteBuffer \<Rightarrow> WriteBuffer" and bits and valid +
  fixes rd :: "'a rd"
    and least :: nat
  assumes rd_bits: "valid a \<Longrightarrow> reads rd (bits a) a"
    and rd_well: "wellread rd least"
begin

lemma reads_many: "list_all valid as \<Longrightarrow> reads (read_many (length as) rd) (concat (map bits as)) as"
proof (induction as)
  case Nil
  show ?case by (simp add: reads_return)
next
  case (Cons a as)
  then have "reads rd (bits a) a" "reads (read_many (length as) rd) (concat (map bits as)) as"
    by (simp_all add: rd_bits)
  then show ?case by (simp add: reads_bind reads_map)
qed

lemma wellread_many: "wellread (read_many n rd) (n * least)"
proof (induction n)
  case 0
  show ?case by (simp add: wellread_return)
next
  case (Suc n)
  then show ?case
    using wellread_bind [OF rd_well wellread_map [OF Suc.IH]] by simp
qed

end

locale checked_codec = writer_codec wr bits valid
  for wr :: "'a \<Rightarrow> WriteBuffer \<Rightarrow> WriteBuffer" and bits and valid +
  fixes rd :: "'a option rd"
    and least :: nat
  assumes rd_some: "valid a \<Longrightarrow> reads rd (bits a) (Some a)"
    and rd_well: "wellread rd least"
    and rd_honest: "honest rd"
begin

lemma reads_checked:
  "list_all valid as \<Longrightarrow> reads (read_checked (length as) rd) (concat (map bits as)) (Some as)"
proof (induction as)
  case Nil
  show ?case
    by (auto intro!: reads_IsGood_then reads_return)
next
  case (Cons a as)
  have "reads (do { xs \<leftarrow> read_checked (length as) rd;
      State_Monad.return (map_option (\<lambda>xs. a # xs) xs) }) (concat (map bits as)) (Some (a # as))"
    using reads_map [OF Cons.IH, of "map_option (\<lambda>xs. a # xs)"] Cons.prems by simp
  then show ?case
    using Cons.prems by (auto intro!: reads_bind [OF rd_some])
qed

lemma wellread_checked: "wellread (read_checked n rd) 0"
proof (induction n)
  case 0
  show ?case using wellread_map [OF wellread_IsGood] by simp
next
  case (Suc n)
  have "wellread (case x of None \<Rightarrow> State_Monad.return None
      | Some a \<Rightarrow> do { xs \<leftarrow> read_checked n rd; State_Monad.return (map_option (\<lambda>xs. a # xs) xs) }) 0"
    for x by (cases x) (simp_all add: wellread_return wellread_map Suc.IH)
  from wellread_bind [OF wellread_weaken [OF rd_well, of 0] this] show ?case by simp
qed

text \<open>A counted list that decodes has the stated count, and every element paid its bits.\<close>

lemma checked_size:
  assumes "rb_inv rb" "run_state (read_checked n rd) rb = (Some as, rb')"
  shows "length as = n \<and> rb_inv rb' \<and> IsGood rb' \<and> n * least + length (rb_rest rb') \<le> length (rb_rest rb)"
  using assms
proof (induction n arbitrary: rb as)
  case 0
  then show ?case by (auto simp: read_IsGood_def split: if_splits)
next
  case (Suc n)
  obtain x rb1 where r1: "run_state rd rb = (x, rb1)" by (cases "run_state rd rb")
  with Suc.prems obtain a as' where x: "x = Some a" and as: "as = a # as'"
    and r2: "run_state (read_checked n rd) rb1 = (Some as', rb')"
    by (auto split: option.splits prod.splits)
  note needs1 = needsD [OF wellread_needs [OF rd_well] Suc.prems(1) r1]
  have "IsGood rb1" using rd_honest r1 x unfolding honest_def by (metis fst_conv option.distinct(1) snd_conv)
  with needs1 Suc.IH [OF needs1(1) r2] as show ?case by simp
qed

end

section \<open>From the writer's buffer to the reader's\<close>

definition decoded_from :: "'a rd \<Rightarrow> bytes \<Rightarrow> 'a \<times> bool" where
  "decoded_from m data = (let (v, rb) = run_state m (ReadBuffer_new data) in (v, IsGood rb))"

lemma WriteBuffer_new_bits [simp]:
  "wb_inv WriteBuffer_new" "wb_bits WriteBuffer_new = bits_msb 32 SERDE_VERSION"
proof -
  have "wb_inv \<lparr>m_writer = BitWriter_new\<rparr>" "wb_bits \<lparr>m_writer = BitWriter_new\<rparr> = []"
    by (simp_all add: wb_inv_def wb_bits_def) (simp add: BitWriter_new_def)
  then show "wb_inv WriteBuffer_new" "wb_bits WriteBuffer_new = bits_msb 32 SERDE_VERSION"
    by (simp_all add: WriteBuffer_new_def wb_simps)
qed

lemma ReadBuffer_new_good:
  assumes "bits_of_bytes data = bits_msb 32 SERDE_VERSION @ rest"
  shows "rb_inv (ReadBuffer_new data) \<and> IsGood (ReadBuffer_new data) \<and>
    rb_rest (ReadBuffer_new data) = rest"
proof -
  let ?rb = "\<lparr>m_reader = BitReader_new data, m_versionMismatch = False\<rparr>"
  have start: "rb_inv ?rb" "IsGood ?rb" "rb_rest ?rb = bits_msb 32 SERDE_VERSION @ rest"
    using assms reader_new [of data] by (simp_all add: rb_inv_def IsGood_def rb_rest_def reader_good_def)
  obtain v rb' where r: "run_state ReadUint32 ?rb = (v, rb')" by (cases "run_state ReadUint32 ?rb")
  from readsD [OF reads_ReadUint32 start r] r show ?thesis
    by (simp add: ReadBuffer_new_def)
qed

lemma ReadBuffer_new_length:
  assumes "IsGood (ReadBuffer_new data)"
  shows "rb_inv (ReadBuffer_new data)" "32 + length (rb_rest (ReadBuffer_new data)) \<le> 8 * length data"
proof -
  let ?rb = "\<lparr>m_reader = BitReader_new data, m_versionMismatch = False\<rparr>"
  obtain v rb' where r: "run_state ReadUint32 ?rb = (v, rb')" by (cases "run_state ReadUint32 ?rb")
  have "rb_inv ?rb" using reader_new(1) by (simp add: rb_inv_def)
  note n = needsD [OF needs_Uint(3) this r]
  have eq: "ReadBuffer_new data = rb'"
    using assms r by (auto simp: ReadBuffer_new_def IsGood_def split: if_splits)
  show "rb_inv (ReadBuffer_new data)" using n(1) eq by simp
  show "32 + length (rb_rest (ReadBuffer_new data)) \<le> 8 * length data"
    using n(3) assms eq reader_new(3) [of data] by (simp add: rb_rest_def)
qed

lemma decoded_from_written:
  assumes "reads m bs v" "wb_inv wb" "wb_bits wb = bits_msb 32 SERDE_VERSION @ bs"
  shows "decoded_from m (WriteBuffer_Data (Finalise wb)) = (v, True)"
    and "IsGood (ReadBuffer_new (WriteBuffer_Data (Finalise wb)))"
    and "length (rb_rest (snd (run_state m (ReadBuffer_new (WriteBuffer_Data (Finalise wb)))))) < 8"
proof -
  let ?d = "WriteBuffer_Data (Finalise wb)"
  have "bits_of_bytes ?d = bits_msb 32 SERDE_VERSION @ bs @ replicate (m_bitsFree (m_writer wb)) False"
    using padding_zero [of "m_writer wb"] assms(2,3)
    by (simp add: WriteBuffer_Data_def Finalise_def BitWriter_Flush_def wb_inv_def wb_bits_def)
  note new = ReadBuffer_new_good [OF this]
  then show "IsGood (ReadBuffer_new ?d)" by simp
  obtain x rb' where r: "run_state m (ReadBuffer_new ?d) = (x, rb')"
    by (cases "run_state m (ReadBuffer_new ?d)")
  note result = readsD [OF assms(1) _ _ _ r, of "replicate (m_bitsFree (m_writer wb)) False"]
  from result new r show "decoded_from m ?d = (v, True)"
    by (simp add: decoded_from_def)
  from result new r assms(2) show "length (rb_rest (snd (run_state m (ReadBuffer_new ?d)))) < 8"
    by (simp add: wb_inv_def)
qed

text \<open>A buffer is accepted only if it starts with the four bytes of the
  current version; an older or newer blob, and one shorter than four bytes, is never good.\<close>

lemma ReadBuffer_good_iff:
  "IsGood (ReadBuffer_new data) \<longleftrightarrow> (\<exists>rest. data = [0, 0, 0, 1] @ rest)"
proof
  assume good: "IsGood (ReadBuffer_new data)"
  let ?rb = "\<lparr>m_reader = BitReader_new data, m_versionMismatch = False\<rparr>"
  obtain v rb' where r: "run_state ReadUint32 ?rb = (v, rb')" by (cases "run_state ReadUint32 ?rb")
  with good have v: "v = 1" "ReadBuffer_new data = rb'"
    by (auto simp: ReadBuffer_new_def IsGood_def SERDE_VERSION_def split: if_splits)
  have len: "32 \<le> length (bits_of_bytes data)"
    using ReadBuffer_new_length(2) [OF good] by simp
  have "rb_inv ?rb" "IsGood ?rb" "rb_rest ?rb = bits_of_bytes data"
    using reader_new [of data] by (simp_all add: rb_inv_def IsGood_def rb_rest_def reader_good_def)
  with ReadBits_raw_cases(1) [of ?rb 32] len r
  have "v = ucast (msb_acc 0 (take 32 (bits_of_bytes data)))"
    by (auto simp: ReadUint32_def ReadBits_def case_prod_beta)
  moreover have "bits_msb 32 (ucast (msb_acc 0 (take 32 (bits_of_bytes data))) :: u32) =
      take 32 (bits_of_bytes data)"
    using bits_msb_msb_acc [of "take 32 (bits_of_bytes data)"] len by (simp add: bits_msb_ucast)
  ultimately have "take (8 * 4) (bits_of_bytes data) = bits_msb 32 (1 :: u32)" using v by simp
  also have "\<dots> = bits_of_bytes [0, 0, 0, 1]" by (simp add: bits_msb_def upt_rec)
  finally have "take 4 data = [0, 0, 0, 1]"
    unfolding take_bits_of_bytes by (rule bits_of_bytes_inj)
  then show "\<exists>rest. data = [0, 0, 0, 1] @ rest" by (metis append_take_drop_id)
next
  assume "\<exists>rest. data = [0, 0, 0, 1] @ rest"
  then obtain rest where d: "data = [0, 0, 0, 1] @ rest" ..
  have "bits_of_bytes data = bits_msb 32 SERDE_VERSION @ bits_of_bytes rest"
    by (simp add: d bits_msb_def SERDE_VERSION_def upt_rec)
  then show "IsGood (ReadBuffer_new data)" using ReadBuffer_new_good by blast
qed

text \<open>A good decode of a proper prefix of a buffer leaves the cut-off bits unread.\<close>

lemma decoded_from_prefix:
  assumes m: "wellread m n" and ext: "IsGood (ReadBuffer_new data)"
    and good: "IsGood (ReadBuffer_new (take k data))"
    and r: "run_state m (ReadBuffer_new (take k data)) = (v, rb)" "IsGood rb"
  shows "fst (run_state m (ReadBuffer_new data)) = v \<and>
    length (rb_rest (snd (run_state m (ReadBuffer_new data)))) \<ge> 8 * (length data - k)"
proof -
  obtain rest where d: "take k data = [0, 0, 0, 1] @ rest"
    using good ReadBuffer_good_iff by blast
  then have full: "data = [0, 0, 0, 1] @ rest @ drop k data"
    by (metis append.assoc append_take_drop_id)
  have v1: "bits_of_bytes ([0, 0, 0, 1] @ xs) = bits_msb 32 SERDE_VERSION @ bits_of_bytes xs" for xs
    by (simp add: bits_msb_def SERDE_VERSION_def upt_rec)
  have "rb_inv (ReadBuffer_new (take k data))" "rb_rest (ReadBuffer_new (take k data)) = bits_of_bytes rest"
    using ReadBuffer_new_good [OF v1 [of rest]] d by simp_all
  moreover have "rb_inv (ReadBuffer_new data)"
    "rb_rest (ReadBuffer_new data) = bits_of_bytes rest @ bits_of_bytes (drop k data)"
    using ReadBuffer_new_good [OF v1 [of "rest @ drop k data"]] full by simp_all
  ultimately have "fst (run_state m (ReadBuffer_new data)) = v \<and>
      rb_rest (snd (run_state m (ReadBuffer_new data))) = rb_rest rb @ bits_of_bytes (drop k data)"
    using m r ext good unfolding wellread_def stable_def by (metis fst_conv snd_conv)
  then show ?thesis by simp
qed

lemma Finalise_size:
  assumes "wb_inv wb"
  shows "length (WriteBuffer_Data (Finalise wb)) = (length (wb_bits wb) + 7) div 8"
  using byte_size_from_bits [of "m_writer wb"] assms
  by (simp add: WriteBuffer_Data_def Finalise_def BitWriter_Flush_def wb_inv_def wb_bits_def)

text \<open>The version gate.  A buffer is accepted only if it starts with the four bytes of the
  current version; an older or newer blob, and one shorter than four bytes, is never good, and no
  later read makes it good again.\<close>

theorem ReadBuffer_version_gate:
  "(IsGood (ReadBuffer_new data) \<longleftrightarrow> (\<exists>rest. data = [0, 0, 0, 1] @ rest)) \<and>
   (IsGood (snd (run_state (read_many n ReadUint32) (ReadBuffer_new data))) \<longleftrightarrow>
     IsGood (ReadBuffer_new data) \<and>
     IsGood (snd (run_state (read_many n ReadUint32) (ReadBuffer_new data))))"
proof -
  have "\<not> IsGood rb \<Longrightarrow> \<not> IsGood (snd (run_state (read_many n ReadUint32) rb))" for rb
  proof (induction n arbitrary: rb)
    case 0
    then show ?case by simp
  next
    case (Suc n)
    then show ?case
      using ReadBits_bad_stays [of rb 32] by (simp add: case_prod_beta ReadUint32_def ReadBits_def)
  qed
  then show ?thesis using ReadBuffer_good_iff by blast
qed

end
