(* ===== verification/Warm_Restart.thy ===== *)
theory Warm_Restart
  imports Serde_Buffer
begin

text \<open>
  \<open>NeuronCore/WarmRestart.h\<close>: the state blob a restarted server recovers from.  The
  records mirror the \<open>Persist*\<close> structs field by field (signed fields as their two's
  complement words, floats as their bit patterns, the fixed arrays of three floats as triples);
  \<open>EncodeState\<close> and \<open>DecodeState\<close> are the blob codec over \<open>Serde.h\<close>
  and \<open>StateHash\<close> is the structural hash that compares the states before a crash and
  after a restart.
\<close>

section \<open>Data\<close>

type_synonym float3 = "float32 \<times> float32 \<times> float32"

record PersistBase =
  b_netId :: u32
  b_ownerAccount :: u64
  b_x :: u64
  b_y :: u64
  b_z :: u64
  b_shieldHp :: u32
  b_armorHp :: u32
  b_hullHp :: u32
  b_storage :: float3
  b_fuel :: float32
  b_navPhase :: u8
  b_baseState :: u8

record PersistShip =
  s_netId :: u32
  s_ownerAccount :: u64
  s_x :: u64
  s_y :: u64
  s_z :: u64
  s_hp :: u32
  s_cargo :: float3
  s_shipType :: u8

record PersistBuild =
  bd_ownerAccount :: u64
  bd_itemDefId :: u32
  bd_progress :: float32

record PersistNpc =
  n_netId :: u32
  n_x :: u64
  n_y :: u64
  n_z :: u64
  n_hp :: u32
  n_siteId :: u16
  n_aiState :: u8

record PersistState =
  tick :: u64
  outboxSeq :: u64
  bases :: "PersistBase list"
  ships :: "PersistShip list"
  builds :: "PersistBuild list"
  npcs :: "PersistNpc list"

section \<open>Structural hash\<close>

definition HashU64 :: "u64 \<Rightarrow> u64 \<Rightarrow> u64" where
  "HashU64 v h =
     fold (\<lambda>i h. (h XOR ucast (ucast (drop_bit (i * 8) v) :: u8)) * 0x100000001B3) [0..<8] h"

definition HashF32 :: "float32 \<Rightarrow> u64 \<Rightarrow> u64" where
  "HashF32 f h = HashU64 (ucast f) h"

definition HashFloat3 :: "float3 \<Rightarrow> u64 \<Rightarrow> u64" where
  "HashFloat3 v h = (case v of (a, b, c) \<Rightarrow> HashF32 c (HashF32 b (HashF32 a h)))"

definition HashBase :: "PersistBase \<Rightarrow> u64 \<Rightarrow> u64" where
  "HashBase b h =
     (let h = HashU64 (ucast (b_netId b)) h;
          h = HashU64 (b_ownerAccount b) h;
          h = HashU64 (b_x b) h; h = HashU64 (b_y b) h; h = HashU64 (b_z b) h;
          h = HashU64 (ucast (b_shieldHp b)) h;
          h = HashU64 (ucast (b_armorHp b)) h;
          h = HashU64 (ucast (b_hullHp b)) h;
          h = HashFloat3 (b_storage b) h;
          h = HashF32 (b_fuel b) h;
          h = HashU64 (ucast (b_navPhase b)) h
      in HashU64 (ucast (b_baseState b)) h)"

definition HashShip :: "PersistShip \<Rightarrow> u64 \<Rightarrow> u64" where
  "HashShip sh h =
     (let h = HashU64 (ucast (s_netId sh)) h;
          h = HashU64 (s_ownerAccount sh) h;
          h = HashU64 (s_x sh) h; h = HashU64 (s_y sh) h; h = HashU64 (s_z sh) h;
          h = HashU64 (ucast (s_hp sh)) h;
          h = HashFloat3 (s_cargo sh) h
      in HashU64 (ucast (s_shipType sh)) h)"

definition HashBuild :: "PersistBuild \<Rightarrow> u64 \<Rightarrow> u64" where
  "HashBuild bd h =
     (let h = HashU64 (bd_ownerAccount bd) h; h = HashU64 (ucast (bd_itemDefId bd)) h
      in HashF32 (bd_progress bd) h)"

definition HashNpc :: "PersistNpc \<Rightarrow> u64 \<Rightarrow> u64" where
  "HashNpc n h =
     (let h = HashU64 (ucast (n_netId n)) h;
          h = HashU64 (n_x n) h; h = HashU64 (n_y n) h; h = HashU64 (n_z n) h;
          h = HashU64 (ucast (n_hp n)) h;
          h = HashU64 (ucast (n_siteId n)) h
      in HashU64 (ucast (n_aiState n)) h)"

definition StateHash :: "PersistState \<Rightarrow> u64" where
  "StateHash s =
     (let h = 0xCBF29CE484222325;
          h = HashU64 (tick s) h;
          h = HashU64 (outboxSeq s) h;
          h = fold HashBase (bases s) (HashU64 (of_nat (length (bases s))) h);
          h = fold HashShip (ships s) (HashU64 (of_nat (length (ships s))) h);
          h = fold HashBuild (builds s) (HashU64 (of_nat (length (builds s))) h)
      in fold HashNpc (npcs s) (HashU64 (of_nat (length (npcs s))) h))"

section \<open>Encoding\<close>

definition WriteFloat3 :: "float3 \<Rightarrow> WriteBuffer \<Rightarrow> WriteBuffer" where
  "WriteFloat3 v w = (case v of (a, b, c) \<Rightarrow> WriteFloat c (WriteFloat b (WriteFloat a w)))"

definition WriteBase :: "PersistBase \<Rightarrow> WriteBuffer \<Rightarrow> WriteBuffer" where
  "WriteBase b w =
     (let w = WriteUint32 (b_netId b) w;
          w = WriteUint64 (b_ownerAccount b) w;
          w = WriteInt64 (b_x b) w; w = WriteInt64 (b_y b) w; w = WriteInt64 (b_z b) w;
          w = WriteUint32 (b_shieldHp b) w;
          w = WriteUint32 (b_armorHp b) w;
          w = WriteUint32 (b_hullHp b) w;
          w = WriteFloat3 (b_storage b) w;
          w = WriteFloat (b_fuel b) w;
          w = WriteUint8 (b_navPhase b) w
      in WriteUint8 (b_baseState b) w)"

definition WriteShip :: "PersistShip \<Rightarrow> WriteBuffer \<Rightarrow> WriteBuffer" where
  "WriteShip sh w =
     (let w = WriteUint32 (s_netId sh) w;
          w = WriteUint64 (s_ownerAccount sh) w;
          w = WriteInt64 (s_x sh) w; w = WriteInt64 (s_y sh) w; w = WriteInt64 (s_z sh) w;
          w = WriteUint32 (s_hp sh) w;
          w = WriteFloat3 (s_cargo sh) w
      in WriteUint8 (s_shipType sh) w)"

definition WriteBuild :: "PersistBuild \<Rightarrow> WriteBuffer \<Rightarrow> WriteBuffer" where
  "WriteBuild bd w =
     WriteFloat (bd_progress bd) (WriteUint32 (bd_itemDefId bd) (WriteUint64 (bd_ownerAccount bd) w))"

definition WriteNpc :: "PersistNpc \<Rightarrow> WriteBuffer \<Rightarrow> WriteBuffer" where
  "WriteNpc n w =
     (let w = WriteUint32 (n_netId n) w;
          w = WriteInt64 (n_x n) w; w = WriteInt64 (n_y n) w; w = WriteInt64 (n_z n) w;
          w = WriteUint32 (n_hp n) w;
          w = WriteUint16 (n_siteId n) w
      in WriteUint8 (n_aiState n) w)"

text \<open>A list goes out as its size cut to 32 bits, then its elements.\<close>

definition write_counted :: "('a \<Rightarrow> WriteBuffer \<Rightarrow> WriteBuffer) \<Rightarrow> 'a list \<Rightarrow> WriteBuffer \<Rightarrow> WriteBuffer" where
  "write_counted wr xs w = fold wr xs (WriteUint32 (of_nat (length xs)) w)"

definition EncodeState :: "PersistState \<Rightarrow> bytes" where
  "EncodeState s =
     (let w = WriteBuffer_new;
          w = WriteUint64 (tick s) w;
          w = WriteUint64 (outboxSeq s) w;
          w = write_counted WriteBase (bases s) w;
          w = write_counted WriteShip (ships s) w;
          w = write_counted WriteBuild (builds s) w;
          w = write_counted WriteNpc (npcs s) w
      in WriteBuffer_Data (Finalise w))"

section \<open>Decoding\<close>

definition ReadFloat3 :: "float3 rd" where
  "ReadFloat3 = do { a \<leftarrow> ReadFloat; b \<leftarrow> ReadFloat; c \<leftarrow> ReadFloat; State_Monad.return (a, b, c) }"

definition ReadBase :: "PersistBase rd" where
  "ReadBase = do {
     netId \<leftarrow> ReadUint32;
     ownerAccount \<leftarrow> ReadUint64;
     x \<leftarrow> ReadInt64; y \<leftarrow> ReadInt64; z \<leftarrow> ReadInt64;
     shieldHp \<leftarrow> ReadUint32;
     armorHp \<leftarrow> ReadUint32;
     hullHp \<leftarrow> ReadUint32;
     storage \<leftarrow> ReadFloat3;
     fuel \<leftarrow> ReadFloat;
     navPhase \<leftarrow> ReadUint8;
     baseState \<leftarrow> ReadUint8;
     State_Monad.return \<lparr>b_netId = netId, b_ownerAccount = ownerAccount, b_x = x, b_y = y, b_z = z,
       b_shieldHp = shieldHp, b_armorHp = armorHp, b_hullHp = hullHp, b_storage = storage,
       b_fuel = fuel, b_navPhase = navPhase, b_baseState = baseState\<rparr> }"

definition ReadShip :: "PersistShip rd" where
  "ReadShip = do {
     netId \<leftarrow> ReadUint32;
     ownerAccount \<leftarrow> ReadUint64;
     x \<leftarrow> ReadInt64; y \<leftarrow> ReadInt64; z \<leftarrow> ReadInt64;
     hp \<leftarrow> ReadUint32;
     cargo \<leftarrow> ReadFloat3;
     shipType \<leftarrow> ReadUint8;
     State_Monad.return \<lparr>s_netId = netId, s_ownerAccount = ownerAccount, s_x = x, s_y = y, s_z = z,
       s_hp = hp, s_cargo = cargo, s_shipType = shipType\<rparr> }"

definition ReadBuild :: "PersistBuild rd" where
  "ReadBuild = do {
     ownerAccount \<leftarrow> ReadUint64;
     itemDefId \<leftarrow> ReadUint32;
     progress \<leftarrow> ReadFloat;
     State_Monad.return \<lparr>bd_ownerAccount = ownerAccount, bd_itemDefId = itemDefId,
       bd_progress = progress\<rparr> }"

definition ReadNpc :: "PersistNpc rd" where
  "ReadNpc = do {
     netId \<leftarrow> ReadUint32;
     x \<leftarrow> ReadInt64; y \<leftarrow> ReadInt64; z \<leftarrow> ReadInt64;
     hp \<leftarrow> ReadUint32;
     siteId \<leftarrow> ReadUint16;
     aiState \<leftarrow> ReadUint8;
     State_Monad.return \<lparr>n_netId = netId, n_x = x, n_y = y, n_z = z, n_hp = hp, n_siteId = siteId,
       n_aiState = aiState\<rparr> }"

definition read_counted :: "'a rd \<Rightarrow> 'a list rd" where
  "read_counted rd = do { n \<leftarrow> ReadUint32; read_many (unat n) rd }"

definition ReadState :: "PersistState rd" where
  "ReadState = do {
     t \<leftarrow> ReadUint64;
     sq \<leftarrow> ReadUint64;
     bs \<leftarrow> read_counted ReadBase;
     shs \<leftarrow> read_counted ReadShip;
     bds \<leftarrow> read_counted ReadBuild;
     ns \<leftarrow> read_counted ReadNpc;
     State_Monad.return \<lparr>tick = t, outboxSeq = sq, bases = bs, ships = shs, builds = bds, npcs = ns\<rparr> }"

definition DecodeState :: "bytes \<Rightarrow> PersistState option" where
  "DecodeState blob =
     (if \<not> IsGood (ReadBuffer_new blob) then None
      else (let (s, good) = decoded_from ReadState blob in if good then Some s else None))"

section \<open>The record codecs meet their contract\<close>

definition float3_bits :: "float3 \<Rightarrow> bool list" where
  "float3_bits v = (case v of (a, b, c) \<Rightarrow> bits_msb 32 a @ bits_msb 32 b @ bits_msb 32 c)"

definition base_bits :: "PersistBase \<Rightarrow> bool list" where
  "base_bits b = bits_msb 32 (b_netId b) @ bits_msb 64 (b_ownerAccount b) @ bits_msb 64 (b_x b) @
     bits_msb 64 (b_y b) @ bits_msb 64 (b_z b) @ bits_msb 32 (b_shieldHp b) @
     bits_msb 32 (b_armorHp b) @ bits_msb 32 (b_hullHp b) @ float3_bits (b_storage b) @
     bits_msb 32 (b_fuel b) @ bits_msb 8 (b_navPhase b) @ bits_msb 8 (b_baseState b) @ []"

definition ship_bits :: "PersistShip \<Rightarrow> bool list" where
  "ship_bits sh = bits_msb 32 (s_netId sh) @ bits_msb 64 (s_ownerAccount sh) @ bits_msb 64 (s_x sh) @
     bits_msb 64 (s_y sh) @ bits_msb 64 (s_z sh) @ bits_msb 32 (s_hp sh) @ float3_bits (s_cargo sh) @
     bits_msb 8 (s_shipType sh) @ []"

definition build_bits :: "PersistBuild \<Rightarrow> bool list" where
  "build_bits bd = bits_msb 64 (bd_ownerAccount bd) @ bits_msb 32 (bd_itemDefId bd) @
     bits_msb 32 (bd_progress bd) @ []"

definition npc_bits :: "PersistNpc \<Rightarrow> bool list" where
  "npc_bits n = bits_msb 32 (n_netId n) @ bits_msb 64 (n_x n) @ bits_msb 64 (n_y n) @
     bits_msb 64 (n_z n) @ bits_msb 32 (n_hp n) @ bits_msb 16 (n_siteId n) @ bits_msb 8 (n_aiState n) @ []"

lemma WriteFloat3_bits [wb_simps]:
  assumes "wb_inv w"
  shows "wb_inv (WriteFloat3 v w)" "wb_bits (WriteFloat3 v w) = wb_bits w @ float3_bits v"
  using assms by (simp_all add: WriteFloat3_def float3_bits_def wb_simps split: prod.splits)

lemma reads_ReadFloat3 [reads_intros]: "reads ReadFloat3 (float3_bits v) v"
proof -
  obtain a b c where v: "v = (a, b, c)" by (cases v)
  have "reads ReadFloat3 (bits_msb 32 a @ bits_msb 32 b @ bits_msb 32 c @ []) (a, b, c)"
    unfolding ReadFloat3_def by (rule reads_eq, (rule reads_intros)+) simp
  then show ?thesis by (simp add: v float3_bits_def)
qed

lemma wellread_ReadFloat3 [wellread_intros]: "wellread ReadFloat3 96"
proof -
  have "wellread ReadFloat3 (32 + (32 + (32 + 0)))"
    unfolding ReadFloat3_def by (intro wellread_intros)
  then show ?thesis by simp
qed

interpretation base: codec WriteBase base_bits "\<lambda>_. True" ReadBase 528
proof
  fix w :: WriteBuffer and b :: PersistBase
  assume "wb_inv w"
  then show "wb_inv (WriteBase b w) \<and> wb_bits (WriteBase b w) = wb_bits w @ base_bits b"
    by (simp add: WriteBase_def base_bits_def wb_simps Let_def)
next
  fix b :: PersistBase
  show "reads ReadBase (base_bits b) b"
    unfolding ReadBase_def base_bits_def
    by (rule reads_eq, (rule reads_intros)+) simp
next
  have "wellread ReadBase (32+(64+(64+(64+(64+(32+(32+(32+(96+(32+(8+(8+0))))))))))))"
    unfolding ReadBase_def by (intro wellread_intros)
  then show "wellread ReadBase 528" by (rule wellread_weaken) simp
qed

interpretation ship: codec WriteShip ship_bits "\<lambda>_. True" ReadShip 424
proof
  fix w :: WriteBuffer and a :: PersistShip
  assume "wb_inv w"
  then show "wb_inv (WriteShip a w) \<and> wb_bits (WriteShip a w) = wb_bits w @ ship_bits a"
    by (simp add: WriteShip_def ship_bits_def wb_simps Let_def)
next
  fix a :: PersistShip
  show "reads ReadShip (ship_bits a) a"
    unfolding ReadShip_def ship_bits_def
    by (rule reads_eq, (rule reads_intros)+) simp
next
  have "wellread ReadShip (32+(64+(64+(64+(64+(32+(96+(8+0))))))))"
    unfolding ReadShip_def by (intro wellread_intros)
  then show "wellread ReadShip 424" by (rule wellread_weaken) simp
qed

interpretation build: codec WriteBuild build_bits "\<lambda>_. True" ReadBuild 128
proof
  fix w :: WriteBuffer and a :: PersistBuild
  assume "wb_inv w"
  then show "wb_inv (WriteBuild a w) \<and> wb_bits (WriteBuild a w) = wb_bits w @ build_bits a"
    by (simp add: WriteBuild_def build_bits_def wb_simps Let_def)
next
  fix a :: PersistBuild
  show "reads ReadBuild (build_bits a) a"
    unfolding ReadBuild_def build_bits_def
    by (rule reads_eq, (rule reads_intros)+) simp
next
  have "wellread ReadBuild (64+(32+(32+0)))"
    unfolding ReadBuild_def by (intro wellread_intros)
  then show "wellread ReadBuild 128" by (rule wellread_weaken) simp
qed

interpretation npc: codec WriteNpc npc_bits "\<lambda>_. True" ReadNpc 280
proof
  fix w :: WriteBuffer and a :: PersistNpc
  assume "wb_inv w"
  then show "wb_inv (WriteNpc a w) \<and> wb_bits (WriteNpc a w) = wb_bits w @ npc_bits a"
    by (simp add: WriteNpc_def npc_bits_def wb_simps Let_def)
next
  fix a :: PersistNpc
  show "reads ReadNpc (npc_bits a) a"
    unfolding ReadNpc_def npc_bits_def
    by (rule reads_eq, (rule reads_intros)+) simp
next
  have "wellread ReadNpc (32+(64+(64+(64+(32+(16+(8+0)))))))"
    unfolding ReadNpc_def by (intro wellread_intros)
  then show "wellread ReadNpc 280" by (rule wellread_weaken) simp
qed

section \<open>The blob\<close>

text \<open>The sizes of the four lists fit the 32-bit counts of the format.\<close>

definition encodable :: "PersistState \<Rightarrow> bool" where
  "encodable s \<longleftrightarrow> length (bases s) < 2 ^ 32 \<and> length (ships s) < 2 ^ 32 \<and>
     length (builds s) < 2 ^ 32 \<and> length (npcs s) < 2 ^ 32"

definition counted_bits :: "('a \<Rightarrow> bool list) \<Rightarrow> 'a list \<Rightarrow> bool list" where
  "counted_bits bits xs = bits_msb 32 (of_nat (length xs) :: u32) @ concat (map bits xs)"

definition state_bits :: "PersistState \<Rightarrow> bool list" where
  "state_bits s = bits_msb 64 (tick s) @ bits_msb 64 (outboxSeq s) @
     counted_bits base_bits (bases s) @ counted_bits ship_bits (ships s) @
     counted_bits build_bits (builds s) @ counted_bits npc_bits (npcs s) @ []"

lemma write_counted_bits [wb_simps]:
  assumes "wb_inv w"
  shows "wb_inv (write_counted WriteBase bs w)"
    "wb_bits (write_counted WriteBase bs w) = wb_bits w @ counted_bits base_bits bs"
    "wb_inv (write_counted WriteShip shs w)"
    "wb_bits (write_counted WriteShip shs w) = wb_bits w @ counted_bits ship_bits shs"
    "wb_inv (write_counted WriteBuild bds w)"
    "wb_bits (write_counted WriteBuild bds w) = wb_bits w @ counted_bits build_bits bds"
    "wb_inv (write_counted WriteNpc ns w)"
    "wb_bits (write_counted WriteNpc ns w) = wb_bits w @ counted_bits npc_bits ns"
  using assms
  by (simp_all add: write_counted_def counted_bits_def base.fold_wr ship.fold_wr build.fold_wr
      npc.fold_wr wb_simps list_all_iff)

lemma reads_counted:
  assumes "length xs < 2 ^ 32" "reads (read_many (length xs) rd) (concat (map bits xs)) xs"
  shows "reads (read_counted rd) (counted_bits bits xs) xs"
  unfolding read_counted_def counted_bits_def
  by (rule reads_bind [OF reads_ReadUint32]) (use assms in simp)

lemma reads_ReadState:
  assumes "encodable s"
  shows "reads ReadState (state_bits s) s"
proof -
  note many = base.reads_many ship.reads_many build.reads_many npc.reads_many
  have "reads (read_counted ReadBase) (counted_bits base_bits (bases s)) (bases s)"
    "reads (read_counted ReadShip) (counted_bits ship_bits (ships s)) (ships s)"
    "reads (read_counted ReadBuild) (counted_bits build_bits (builds s)) (builds s)"
    "reads (read_counted ReadNpc) (counted_bits npc_bits (npcs s)) (npcs s)"
    using assms by (auto simp: encodable_def list_all_iff intro!: reads_counted many)
  then show ?thesis
    unfolding ReadState_def state_bits_def
    by - (rule reads_eq, (rule reads_intros | assumption)+, simp)
qed

lemma wellread_counted:
  "(\<And>n. wellread (read_many n rd) (n * k)) \<Longrightarrow> wellread (read_counted rd) 32"
  unfolding read_counted_def
  using wellread_bind [OF wellread_Uint(3), of "\<lambda>n. read_many (unat n) rd" 0]
    wellread_weaken [of _ _ 0] by auto

lemma wellread_ReadState: "wellread ReadState 256"
proof -
  have "wellread (read_counted ReadBase) 32" "wellread (read_counted ReadShip) 32"
    "wellread (read_counted ReadBuild) 32" "wellread (read_counted ReadNpc) 32"
    by (rule wellread_counted, rule base.wellread_many ship.wellread_many build.wellread_many
        npc.wellread_many)+
  then have "wellread ReadState (64 + (64 + (32 + (32 + (32 + (32 + 0))))))"
    unfolding ReadState_def
    by (intro wellread_intros)
  then show ?thesis by simp
qed

definition state_buffer :: "PersistState \<Rightarrow> WriteBuffer" where
  "state_buffer s =
     write_counted WriteNpc (npcs s) (write_counted WriteBuild (builds s)
       (write_counted WriteShip (ships s) (write_counted WriteBase (bases s)
         (WriteUint64 (outboxSeq s) (WriteUint64 (tick s) WriteBuffer_new)))))"

lemma EncodeState_buffer: "EncodeState s = WriteBuffer_Data (Finalise (state_buffer s))"
  by (simp add: EncodeState_def state_buffer_def Let_def)

lemma state_buffer_bits:
  "wb_inv (state_buffer s)" "wb_bits (state_buffer s) = bits_msb 32 SERDE_VERSION @ state_bits s"
  by (simp_all add: state_buffer_def state_bits_def wb_simps)

lemma DecodeState_SomeD:
  assumes "DecodeState blob = Some s"
  obtains rb where "IsGood (ReadBuffer_new blob)" "run_state ReadState (ReadBuffer_new blob) = (s, rb)"
    "IsGood rb"
  using assms that by (auto simp: DecodeState_def decoded_from_def split: if_splits prod.splits)

text \<open>C23: The round trip of the warm-restart blob.  Every state whose lists fit their 32-bit
  counts is restored exactly from its own encoding.\<close>

theorem DecodeState_EncodeState:
  assumes "encodable s"
  shows "DecodeState (EncodeState s) = Some s"
  using decoded_from_written [OF reads_ReadState [OF assms] state_buffer_bits]
  by (simp add: EncodeState_buffer DecodeState_def)

definition sample_state :: PersistState where
  "sample_state = \<lparr>tick = 77, outboxSeq = 9,
     bases = [\<lparr>b_netId = 5, b_ownerAccount = 3, b_x = 10, b_y = -20, b_z = 0, b_shieldHp = 100,
       b_armorHp = 50, b_hullHp = 25, b_storage = (0x3F800000, 0, 0), b_fuel = 0x40000000,
       b_navPhase = 1, b_baseState = 2\<rparr>],
     ships = [], builds = [\<lparr>bd_ownerAccount = 3, bd_itemDefId = 7, bd_progress = 0x3F000000\<rparr>],
     npcs = []\<rparr>"

lemma DecodeState_EncodeState_witness: "DecodeState (EncodeState sample_state) = Some sample_state"
  by (rule DecodeState_EncodeState) (simp add: encodable_def sample_state_def)

text \<open>A truncated blob is never restored.  Whatever proper prefix of the encoding of a state
  reaches the decoder, it reports failure instead of a partly filled state.\<close>

theorem DecodeState_truncated:
  assumes "encodable s" "k < length (EncodeState s)"
  shows "DecodeState (take k (EncodeState s)) = None"
proof (rule ccontr)
  assume "DecodeState (take k (EncodeState s)) \<noteq> None"
  then obtain s' where "DecodeState (take k (EncodeState s)) = Some s'" by auto
  then obtain rb where good: "IsGood (ReadBuffer_new (take k (EncodeState s)))"
    and r: "run_state ReadState (ReadBuffer_new (take k (EncodeState s))) = (s', rb)" "IsGood rb"
    by (rule DecodeState_SomeD)
  note written = decoded_from_written [OF reads_ReadState [OF assms(1)] state_buffer_bits,
      folded EncodeState_buffer]
  have "8 * (length (EncodeState s) - k)
      \<le> length (rb_rest (snd (run_state ReadState (ReadBuffer_new (EncodeState s)))))"
    using decoded_from_prefix [OF wellread_ReadState written(2) good r] by simp
  with written(3) assms(2) show False by simp
qed

lemma DecodeState_truncated_witness: "DecodeState (take 60 (EncodeState sample_state)) = None"
proof (rule DecodeState_truncated)
  show "encodable sample_state" by (simp add: encodable_def sample_state_def)
  have "length (EncodeState sample_state) = (length (wb_bits (state_buffer sample_state)) + 7) div 8"
    unfolding EncodeState_buffer by (rule Finalise_size) (rule state_buffer_bits)
  also have "\<dots> = 118"
    by (simp add: state_buffer_bits state_bits_def counted_bits_def base_bits_def build_bits_def
        float3_bits_def sample_state_def)
  finally show "60 < length (EncodeState sample_state)" by simp
qed

end
