(* ===== verification/Packet_Codec.thy ===== *)
theory Packet_Codec
  imports ER_Prelude
begin

text \<open>
  \<open>NeuronCore/Protocol.h\<close> and \<open>NeuronCore/PacketCodec.h\<close>: the protocol's
  constants and enums, the little-endian primitives, the clear packet header and the framing of
  messages inside a payload.  An enum that the code obtains by \<open>static_cast\<close> from a byte
  it does not check is kept as that byte, with the enumerators as constants: the decoders let
  unknown values through, and the handlers above them ignore those.
\<close>

section \<open>Protocol constants\<close>

definition PROTOCOL_MAGIC :: u16 where "PROTOCOL_MAGIC = 0x4552"
definition PROTOCOL_VERSION :: u16 where "PROTOCOL_VERSION = 1"

definition PROTOCOL_ID :: u32 where
  "PROTOCOL_ID = push_bit 16 (ucast PROTOCOL_MAGIC) OR ucast PROTOCOL_VERSION"

definition IsProtocolCompatible :: "u32 \<Rightarrow> bool" where
  "IsProtocolCompatible ph_protocolId \<longleftrightarrow> ph_protocolId = PROTOCOL_ID"

lemma PROTOCOL_ID_value [simp]: "PROTOCOL_ID = 0x45520001"
  by (simp add: PROTOCOL_ID_def PROTOCOL_MAGIC_def PROTOCOL_VERSION_def)

text \<open>Channels, message types and disconnect reasons by their wire values.\<close>

type_synonym Channel = u8

definition Ch_Unreliable :: Channel where "Ch_Unreliable = 0"
definition Ch_ReliableOrdered :: Channel where "Ch_ReliableOrdered = 1"
definition Ch_ReliableUnordered :: Channel where "Ch_ReliableUnordered = 2"

type_synonym MsgType = u8

definition Msg_ClientHello :: MsgType where "Msg_ClientHello = 1"
definition Msg_Cookie :: MsgType where "Msg_Cookie = 2"
definition Msg_CookieResponse :: MsgType where "Msg_CookieResponse = 3"
definition Msg_VersionReject :: MsgType where "Msg_VersionReject = 4"
definition Msg_HandshakeRequest :: MsgType where "Msg_HandshakeRequest = 5"
definition Msg_HandshakeResponse :: MsgType where "Msg_HandshakeResponse = 6"
definition Msg_ClockSyncRequest :: MsgType where "Msg_ClockSyncRequest = 7"
definition Msg_ClockSyncResponse :: MsgType where "Msg_ClockSyncResponse = 8"
definition Msg_LoginRequest :: MsgType where "Msg_LoginRequest = 20"
definition Msg_LoginResponse :: MsgType where "Msg_LoginResponse = 21"
definition Msg_Snapshot :: MsgType where "Msg_Snapshot = 40"
definition Msg_Command :: MsgType where "Msg_Command = 41"
definition Msg_Ack :: MsgType where "Msg_Ack = 42"
definition Msg_Keepalive :: MsgType where "Msg_Keepalive = 43"
definition Msg_Disconnect :: MsgType where "Msg_Disconnect = 44"
definition Msg_FleetCommand :: MsgType where "Msg_FleetCommand = 45"

lemmas MsgType_defs = Msg_ClientHello_def Msg_Cookie_def Msg_CookieResponse_def
  Msg_VersionReject_def Msg_HandshakeRequest_def Msg_HandshakeResponse_def
  Msg_ClockSyncRequest_def Msg_ClockSyncResponse_def Msg_LoginRequest_def Msg_LoginResponse_def
  Msg_Snapshot_def Msg_Command_def Msg_Ack_def Msg_Keepalive_def Msg_Disconnect_def
  Msg_FleetCommand_def

definition AUTH_OPCODE_REGISTER :: u8 where "AUTH_OPCODE_REGISTER = 0xA0"
definition AUTH_OPCODE_LOGIN :: u8 where "AUTH_OPCODE_LOGIN = 0xA1"
definition AUTH_OPCODE_RESULT :: u8 where "AUTH_OPCODE_RESULT = 0xA2"
definition AUTH_RESULT_OK :: u8 where "AUTH_RESULT_OK = 0"
definition AUTH_RESULT_INVALID_CREDENTIALS :: u8 where "AUTH_RESULT_INVALID_CREDENTIALS = 2"

datatype ConnState = Idle | SentHello | SentCookieResp | Handshaking | ClockSyncing
  | Authenticating | Connected | Disconnected

datatype DisconnectReason = Normal | Timeout | ProtocolMismatch | BadCookie | HandshakeFailure
  | AuthFailure | ReplayDetected | ServerFull | DuplicateSession

fun reason_byte :: "DisconnectReason \<Rightarrow> u8" where
  "reason_byte Normal = 0"
| "reason_byte Timeout = 1"
| "reason_byte ProtocolMismatch = 2"
| "reason_byte BadCookie = 3"
| "reason_byte HandshakeFailure = 4"
| "reason_byte AuthFailure = 5"
| "reason_byte ReplayDetected = 6"
| "reason_byte ServerFull = 7"
| "reason_byte DuplicateSession = 8"

record PacketHeader =
  ph_protocolId :: u32
  ph_connectionToken :: u64
  ph_packetNumber :: u64

definition HEADER_SIZE :: nat where "HEADER_SIZE = 4 + 8 + 8"

section \<open>Little-endian primitives\<close>

definition PutU16 :: "bytes \<Rightarrow> u16 \<Rightarrow> bytes" where
  "PutU16 b v = b @ [ucast (v AND 0xFF)] @ [ucast (drop_bit 8 v AND 0xFF)]"

definition PutU32 :: "bytes \<Rightarrow> u32 \<Rightarrow> bytes" where
  "PutU32 b v = fold (\<lambda>i b. b @ [ucast (drop_bit (8 * i) v AND 0xFF)]) [0..<4] b"

definition PutU64 :: "bytes \<Rightarrow> u64 \<Rightarrow> bytes" where
  "PutU64 b v = fold (\<lambda>i b. b @ [ucast (drop_bit (8 * i) v AND 0xFF)]) [0..<8] b"

text \<open>The readers index the span without a bounds check; a read past the end is \<open>None\<close>.\<close>

definition GetU16 :: "bytes \<Rightarrow> nat \<Rightarrow> (u16 \<times> nat) option" where
  "GetU16 b off = (case (read_at b off, read_at b (off + 1)) of
     (Some lo, Some hi) \<Rightarrow> Some (ucast lo OR push_bit 8 (ucast hi), off + 2)
   | _ \<Rightarrow> None)"

definition GetU32 :: "bytes \<Rightarrow> nat \<Rightarrow> (u32 \<times> nat) option" where
  "GetU32 b off =
     (if off + 4 \<le> length b
      then Some (fold (\<lambda>i v. v OR push_bit (8 * i) (ucast (b ! (off + i)))) [0..<4] 0, off + 4)
      else None)"

definition GetU64 :: "bytes \<Rightarrow> nat \<Rightarrow> (u64 \<times> nat) option" where
  "GetU64 b off =
     (if off + 8 \<le> length b
      then Some (fold (\<lambda>i v. v OR push_bit (8 * i) (ucast (b ! (off + i)))) [0..<8] 0, off + 8)
      else None)"

section \<open>Packet header\<close>

definition WritePacketHeader :: "bytes \<Rightarrow> PacketHeader \<Rightarrow> bytes" where
  "WritePacketHeader out h =
     PutU64 (PutU64 (PutU32 out (ph_protocolId h)) (ph_connectionToken h)) (ph_packetNumber h)"

definition ReadPacketHeader :: "bytes \<Rightarrow> (PacketHeader \<times> nat) decoded" where
  "ReadPacketHeader inp =
     (if length inp < HEADER_SIZE then Rejected
      else bind_decoded (or_fault (GetU32 inp 0)) (\<lambda>(pid, off).
           bind_decoded (or_fault (GetU64 inp off)) (\<lambda>(tok, off).
           bind_decoded (or_fault (GetU64 inp off)) (\<lambda>(pn, off).
             Decoded (\<lparr>ph_protocolId = pid, ph_connectionToken = tok, ph_packetNumber = pn\<rparr>, off)))))"

section \<open>Message framing\<close>

record DecodedMessage =
  msg_channel :: Channel
  msg_type :: MsgType
  msg_body :: bytes

definition WriteMessage :: "bytes \<Rightarrow> Channel \<Rightarrow> MsgType \<Rightarrow> bytes \<Rightarrow> bytes" where
  "WriteMessage out ch ty bd = PutU16 (out @ [ch] @ [ty]) (of_nat (length bd)) @ bd"

text \<open>One round of the framing loop: the message that starts at \<open>off\<close> and the offset
  after it.\<close>

definition ReadMessage_at :: "bytes \<Rightarrow> nat \<Rightarrow> (DecodedMessage \<times> nat) decoded" where
  "ReadMessage_at payload off =
     (if off + 4 > length payload then Rejected
      else bind_decoded (or_fault (read_at payload off)) (\<lambda>ch.
           bind_decoded (or_fault (read_at payload (off + 1))) (\<lambda>ty.
           bind_decoded (or_fault (GetU16 payload (off + 2))) (\<lambda>(len, off).
             if off + unat len > length payload then Rejected
             else bind_decoded (or_fault (subspan payload off (unat len))) (\<lambda>bd.
               Decoded (\<lparr>msg_channel = ch, msg_type = ty, msg_body = bd\<rparr>, off + unat len))))))"

lemma ReadMessage_at_progress:
  "ReadMessage_at payload off = Decoded (m, off') \<Longrightarrow> off + 4 \<le> off' \<and> off' \<le> length payload"
  by (auto simp: ReadMessage_at_def or_fault_def GetU16_def split: if_splits option.splits)

function ReadMessages_from :: "bytes \<Rightarrow> nat \<Rightarrow> DecodedMessage list \<Rightarrow> DecodedMessage list decoded" where
  "ReadMessages_from payload off out =
     (if off < length payload then
        (case ReadMessage_at payload off of
           Faulted \<Rightarrow> Faulted
         | Rejected \<Rightarrow> Rejected
         | Decoded r \<Rightarrow> ReadMessages_from payload (snd r) (out @ [fst r]))
      else Decoded out)"
  by pat_completeness auto
termination
proof (relation "measure (\<lambda>(payload, off, _). length payload - off)", goal_cases)
  case 1
  show ?case by simp
next
  case (2 payload off out r)
  then show ?case using ReadMessage_at_progress [of payload off "fst r" "snd r"] by auto
qed

declare ReadMessages_from.simps [simp del]

definition ReadMessages :: "bytes \<Rightarrow> DecodedMessage list decoded" where
  "ReadMessages payload = ReadMessages_from payload 0 []"

section \<open>The primitives as the generic little-endian functions\<close>

lemma fold_snoc_map: "fold (\<lambda>i b. b @ [f i]) xs b = b @ map f xs"
  by (induction xs arbitrary: b) simp_all

lemma PutU16_le: "PutU16 b v = b @ le_put 2 v"
  by (simp add: PutU16_def le_put_def upt_rec)

lemma PutU32_le: "PutU32 b v = b @ le_put 4 v"
  unfolding PutU32_def le_put_def fold_snoc_map ..

lemma PutU64_le: "PutU64 b v = b @ le_put 8 v"
  unfolding PutU64_def le_put_def fold_snoc_map ..

lemmas Put_le = PutU16_le PutU32_le PutU64_le

lemma le_get_drop:
  "off + n \<le> length b \<Longrightarrow>
     fold (\<lambda>i v. v OR push_bit (8 * i) (ucast (b ! (off + i)))) [0..<n] 0 = le_get n (drop off b)"
  unfolding le_get_def by (intro fold_cong) auto

lemma GetU16_le:
  "GetU16 b off = (if off + 2 \<le> length b then Some (le_get 2 (drop off b), off + 2) else None)"
  by (auto simp: GetU16_def read_at_def le_get_def upt_rec)

lemma GetU32_le:
  "GetU32 b off = (if off + 4 \<le> length b then Some (le_get 4 (drop off b), off + 4) else None)"
  by (simp add: GetU32_def le_get_drop)

lemma GetU64_le:
  "GetU64 b off = (if off + 8 \<le> length b then Some (le_get 8 (drop off b), off + 8) else None)"
  by (simp add: GetU64_def le_get_drop)

lemmas Get_le = GetU16_le GetU32_le GetU64_le

section \<open>Properties\<close>

lemma WritePacketHeader_length [simp]:
  "length (WritePacketHeader out h) = length out + HEADER_SIZE"
  by (simp add: WritePacketHeader_def Put_le HEADER_SIZE_def)

lemma ReadPacketHeader_written:
  "ReadPacketHeader (WritePacketHeader [] h @ rest) = Decoded (h, HEADER_SIZE)"
  by (simp add: ReadPacketHeader_def WritePacketHeader_def Put_le Get_le HEADER_SIZE_def
      le_get_le_put)

lemma ReadPacketHeader_cases:
  "ReadPacketHeader inp = (if length inp < HEADER_SIZE then Rejected
     else Decoded (\<lparr>ph_protocolId = le_get 4 inp, ph_connectionToken = le_get 8 (drop 4 inp),
       ph_packetNumber = le_get 8 (drop 12 inp)\<rparr>, HEADER_SIZE))"
  by (simp add: ReadPacketHeader_def Get_le HEADER_SIZE_def)

lemma header_bytes:
  assumes "ReadPacketHeader inp = Decoded (h', off)"
  shows "take HEADER_SIZE inp = WritePacketHeader [] h'"
proof -
  have len: "HEADER_SIZE \<le> length inp"
    and h': "h' = \<lparr>ph_protocolId = le_get 4 inp, ph_connectionToken = le_get 8 (drop 4 inp),
      ph_packetNumber = le_get 8 (drop 12 inp)\<rparr>"
    using assms by (auto simp: ReadPacketHeader_cases split: if_splits)
  have split: "take 20 inp = take 4 inp @ take 8 (drop 4 inp) @ take 8 (drop 12 inp)"
    using take_add [of 4 16 inp] take_add [of 8 8 "drop 4 inp"] by simp
  show ?thesis
    using len le_put_le_get [of "take 4 inp" 4, where ?'a = 32]
      le_put_le_get [of "take 8 (drop 4 inp)" 8, where ?'a = 64]
      le_put_le_get [of "take 8 (drop 12 inp)" 8, where ?'a = 64]
    by (simp add: h' WritePacketHeader_def Put_le HEADER_SIZE_def split
        le_get_take [of 4 inp, symmetric] le_get_take [of 8 "drop 4 inp", symmetric]
        le_get_take [of 8 "drop 12 inp", symmetric])
qed

lemma header_offset: "ReadPacketHeader inp = Decoded (h', off) \<Longrightarrow> off = HEADER_SIZE"
  by (auto simp: ReadPacketHeader_cases split: if_splits)

text \<open>The clear header round trips, and a header that parses is exactly the first twenty bytes
  of the datagram, so the header the receiver acts on is the one it authenticates.\<close>

theorem PacketHeader_roundtrip:
  "ReadPacketHeader (WritePacketHeader [] h @ rest) = Decoded (h, HEADER_SIZE) \<and>
   (ReadPacketHeader inp = Decoded (h', off) \<longrightarrow>
      off = HEADER_SIZE \<and> take HEADER_SIZE inp = WritePacketHeader [] h')"
  by (auto simp: ReadPacketHeader_written dest: header_bytes header_offset)

lemma PacketHeader_roundtrip_witness:
  "ReadPacketHeader (WritePacketHeader [] \<lparr>ph_protocolId = PROTOCOL_ID, ph_connectionToken = 77, ph_packetNumber = 5\<rparr> @ [1, 2]) =
     Decoded (\<lparr>ph_protocolId = PROTOCOL_ID, ph_connectionToken = 77, ph_packetNumber = 5\<rparr>, HEADER_SIZE) \<and>
   take HEADER_SIZE (WritePacketHeader [] \<lparr>ph_protocolId = PROTOCOL_ID, ph_connectionToken = 77, ph_packetNumber = 5\<rparr> @ [1, 2]) =
     WritePacketHeader [] \<lparr>ph_protocolId = PROTOCOL_ID, ph_connectionToken = 77, ph_packetNumber = 5\<rparr>"
  using PacketHeader_roundtrip [of "\<lparr>ph_protocolId = PROTOCOL_ID, ph_connectionToken = 77, ph_packetNumber = 5\<rparr>" "[1, 2]"
      "WritePacketHeader [] \<lparr>ph_protocolId = PROTOCOL_ID, ph_connectionToken = 77, ph_packetNumber = 5\<rparr> @ [1, 2]"
      "\<lparr>ph_protocolId = PROTOCOL_ID, ph_connectionToken = 77, ph_packetNumber = 5\<rparr>" HEADER_SIZE]
  by blast

text \<open>The bytes of one framed message, and of a payload of several.\<close>

definition frame :: "DecodedMessage \<Rightarrow> bytes" where
  "frame m = WriteMessage [] (msg_channel m) (msg_type m) (msg_body m)"

definition frame_ok :: "DecodedMessage \<Rightarrow> bool" where
  "frame_ok m \<longleftrightarrow> length (msg_body m) < 65536"

lemma WriteMessage_frame: "WriteMessage out ch ty bd = out @ frame \<lparr>msg_channel = ch, msg_type = ty, msg_body = bd\<rparr>"
  by (simp add: WriteMessage_def frame_def Put_le)

lemma frame_bytes: "frame m = msg_channel m # msg_type m # le_put 2 (of_nat (length (msg_body m)) :: u16) @ msg_body m"
  by (simp add: frame_def WriteMessage_def Put_le)

lemma ReadMessage_at_frame:
  assumes "frame_ok m"
  shows "ReadMessage_at (pre @ frame m @ rest) (length pre) = Decoded (m, length pre + length (frame m))"
proof -
  have len: "unat (of_nat (length (msg_body m)) :: u16) = length (msg_body m)"
    using assms by (simp add: frame_ok_def)
  show ?thesis
    by (simp add: ReadMessage_at_def frame_bytes Get_le subspan_def le_get_le_put len)
      (simp add: read_at_def)
qed

lemma ReadMessages_from_frames:
  assumes "list_all frame_ok ms"
  shows "ReadMessages_from (pre @ concat (map frame ms)) (length pre) out = Decoded (out @ ms)"
  using assms
proof (induction ms arbitrary: pre out)
  case Nil
  show ?case by (simp add: ReadMessages_from.simps)
next
  case (Cons m ms)
  have ne: "frame m \<noteq> []" by (simp add: frame_bytes)
  have "ReadMessages_from (pre @ concat (map frame (m # ms))) (length pre) out =
      ReadMessages_from (pre @ concat (map frame (m # ms))) (length (pre @ frame m)) (out @ [m])"
    using Cons.prems ne
    by (subst ReadMessages_from.simps) (simp add: ReadMessage_at_frame)
  also have "\<dots> = Decoded ((out @ [m]) @ ms)"
    using Cons.IH [of "pre @ frame m" "out @ [m]"] Cons.prems by simp
  finally show ?case by simp
qed

lemma ReadMessage_at_Decoded:
  assumes "ReadMessage_at payload off = Decoded (m, off')"
  shows "frame_ok m" "drop off payload = frame m @ drop off' payload"
proof -
  let ?len = "le_get 2 (drop (off + 2) payload) :: u16"
  have fits: "off + 4 \<le> length payload" "off + 4 + unat ?len \<le> length payload"
    and off': "off' = off + 4 + unat ?len"
    and m: "m = \<lparr>msg_channel = payload ! off, msg_type = payload ! (off + 1),
      msg_body = take (unat ?len) (drop (off + 4) payload)\<rparr>"
    using assms
    by (auto simp: ReadMessage_at_def Get_le read_at_def subspan_def eval_nat_numeral split: if_splits)
  have lb: "length (msg_body m) = unat ?len" using fits m by simp
  show "frame_ok m" unfolding frame_ok_def lb by (rule word_bounds)
  have "le_get 2 (take 2 (drop (off + 2) payload)) = ?len"
    by (rule le_get_take) (use fits in simp)
  then have "le_put 2 ?len = take 2 (drop (off + 2) payload)"
    using le_put_le_get [of "take 2 (drop (off + 2) payload)" 2, where ?'a = 16] fits by simp
  then have "frame m = payload ! off # payload ! (off + 1) # take 2 (drop (off + 2) payload) @
      take (unat ?len) (drop (off + 4) payload)"
    unfolding frame_bytes lb by (simp add: m)
  moreover have "drop off payload = payload ! off # payload ! (off + 1) # drop (off + 2) payload"
    using fits by (simp add: Cons_nth_drop_Suc [symmetric] numeral_2_eq_2)
  moreover have "drop (off + 2) payload = take 2 (drop (off + 2) payload) @
      take (unat ?len) (drop (off + 4) payload) @ drop off' payload"
    using append_take_drop_id [of 2 "drop (off + 2) payload"]
      append_take_drop_id [of "unat ?len" "drop (off + 4) payload"]
    by (simp add: off' eval_nat_numeral add.commute [of off])
  ultimately show "drop off payload = frame m @ drop off' payload" by simp
qed

lemma ReadMessages_from_Decoded:
  "off \<le> length payload \<Longrightarrow> ReadMessages_from payload off out = Decoded ms \<Longrightarrow>
     \<exists>ms'. ms = out @ ms' \<and> list_all frame_ok ms' \<and> drop off payload = concat (map frame ms')"
proof (induction payload off out rule: ReadMessages_from.induct)
  case (1 payload off out)
  show ?case
  proof (cases "off < length payload")
    case False
    then have "ReadMessages_from payload off out = Decoded out"
      by (subst ReadMessages_from.simps) simp
    with "1.prems" False show ?thesis by (intro exI [of _ "[]"]) simp
  next
    case True
    with "1.prems"(2) obtain m off' where r: "ReadMessage_at payload off = Decoded (m, off')"
      and rest: "ReadMessages_from payload off' (out @ [m]) = Decoded ms"
      by (auto simp: ReadMessages_from.simps [of payload off] split: decoded.splits)
    from r have "off' \<le> length payload" using ReadMessage_at_progress by blast
    with "1.IH" [OF True r] rest obtain ms' where ms': "ms = (out @ [m]) @ ms'"
      "list_all frame_ok ms'" "drop off' payload = concat (map frame ms')" by auto
    then show ?thesis
      using ReadMessage_at_Decoded [OF r] by (intro exI [of _ "m # ms'"]) simp
  qed
qed

lemma ReadMessage_at_no_fault: "fault_free (ReadMessage_at payload off)"
proof (cases "off + 4 \<le> length payload")
  case True
  then show ?thesis by (simp add: ReadMessage_at_def Get_le read_at_def subspan_def)
next
  case False
  then show ?thesis by (simp add: ReadMessage_at_def)
qed

lemma ReadMessages_no_fault: "fault_free (ReadMessages_from payload off out)"
proof (induction payload off out rule: ReadMessages_from.induct)
  case (1 payload off out)
  then show ?case
    using ReadMessage_at_no_fault [of payload off]
    by (subst ReadMessages_from.simps) (auto split: decoded.split)
qed

text \<open>Framing round trips and is canonical.  The messages written into a payload (bodies below
  64 KiB) are read back in order, and any payload that parses is exactly the concatenation of the
  frames of the messages it was parsed into: nothing is skipped and nothing is left over.\<close>

theorem ReadMessages_roundtrip:
  "(list_all frame_ok ms \<longrightarrow> ReadMessages (concat (map frame ms)) = Decoded ms) \<and>
   (ReadMessages payload = Decoded ms' \<longrightarrow>
      list_all frame_ok ms' \<and> payload = concat (map frame ms'))"
  using ReadMessages_from_frames [of ms "[]" "[]"] ReadMessages_from_Decoded [of 0 payload "[]"]
  by (auto simp: ReadMessages_def)

lemma ReadMessages_roundtrip_witness:
  "ReadMessages (concat (map frame [\<lparr>msg_channel = 1, msg_type = 41, msg_body = [9, 8]\<rparr>])) =
     Decoded [\<lparr>msg_channel = 1, msg_type = 41, msg_body = [9, 8]\<rparr>]"
  using ReadMessages_roundtrip [of "[\<lparr>msg_channel = 1, msg_type = 41, msg_body = [9, 8]\<rparr>]"]
  by (simp add: frame_ok_def)

text \<open>No datagram makes the header or message parsers read out of range: every malformed or
  truncated payload ends in a rejection.\<close>

theorem packet_parsers_memory_safe:
  "fault_free (ReadPacketHeader inp) \<and> fault_free (ReadMessages payload)"
  using ReadMessages_no_fault [of payload 0 "[]"]
  by (auto simp: ReadPacketHeader_cases ReadMessages_def)

text \<open>The length field is cut to 16 bits: a body of 64 KiB or more is framed with the wrong length.\<close>

lemma WriteMessage_truncates:
  "length (msg_body m) = 65536 \<Longrightarrow> take 4 (frame m) = [msg_channel m, msg_type m, 0, 0]"
  by (simp add: frame_bytes le_put_def upt_rec)

end
