(* ===== verification/Double_Arith.thy ===== *)
theory Double_Arith
  imports ER_Prelude Complex_Main "HOL-Library.Log_Nat"
begin

text \<open>
  C++ \<open>double\<close> arithmetic.  A finite double is the rational number it denotes, and the
  result of an operation is the exact rational result rounded to 53 significant bits, to nearest
  with ties to even (\<open>rnd\<close>), as IEEE 754 requires of \<open>+\<close>, \<open>-\<close>,
  \<open>*\<close>, \<open>/\<close> and of the conversions from integers.  The exponent range is not
  bounded: the values the program computes with (times in seconds, metres, factors in [0, 1])
  are far from the overflow and underflow thresholds, and NaN and the infinities are not modelled.
\<close>

type_synonym double = rat

definition round_even :: "rat \<Rightarrow> int" where
  "round_even x =
     (let f = \<lfloor>x\<rfloor>; d = x - of_int f
      in if d < 1 / 2 then f else if d > 1 / 2 then f + 1 else if even f then f else f + 1)"

text \<open>The binary exponent of a non-zero rational: \<open>2 powi e \<le> \<bar>x\<bar> < 2 powi (e + 1)\<close>.\<close>

definition binexp :: "rat \<Rightarrow> int" where
  "binexp x = (case quotient_of x of (p, q) \<Rightarrow>
     let d = bitlen \<bar>p\<bar> - bitlen q in if 2 powi d \<le> \<bar>x\<bar> then d else d - 1)"

definition rnd :: "rat \<Rightarrow> double" where
  "rnd x = (if x = 0 then 0
     else let u = 2 powi (binexp x - 52) in of_int (round_even (x / u)) * u)"

definition dadd :: "double \<Rightarrow> double \<Rightarrow> double" where "dadd a b = rnd (a + b)"
definition dsub :: "double \<Rightarrow> double \<Rightarrow> double" where "dsub a b = rnd (a - b)"
definition dmul :: "double \<Rightarrow> double \<Rightarrow> double" where "dmul a b = rnd (a * b)"
definition ddiv :: "double \<Rightarrow> double \<Rightarrow> double" where "ddiv a b = rnd (a / b)"
definition double_of_int :: "int \<Rightarrow> double" where "double_of_int i = rnd (of_int i)"

text \<open>Conversion to an integer type truncates towards zero.\<close>

definition dtrunc :: "double \<Rightarrow> int" where
  "dtrunc x = (if x < 0 then - \<lfloor>- x\<rfloor> else \<lfloor>x\<rfloor>)"

section \<open>Rounding\<close>

lemma round_even_error: "\<bar>of_int (round_even x) - x\<bar> \<le> 1 / 2"
proof -
  have "of_int \<lfloor>x\<rfloor> \<le> x" "x < of_int \<lfloor>x\<rfloor> + 1" by linarith+
  then show ?thesis by (auto simp: round_even_def Let_def abs_le_iff)
qed

lemma round_even_of_int [simp]: "round_even (of_int i) = i"
  by (simp add: round_even_def)

lemma bitlen_real_bounds:
  assumes "0 < (p :: int)"
  shows "2 powi (bitlen p - 1) \<le> (of_int p :: rat)" "(of_int p :: rat) < 2 powi bitlen p"
proof -
  have b: "2 ^ nat (bitlen p - 1) \<le> p" "p < 2 ^ nat (bitlen p)" "0 < bitlen p"
    using bitlen_bounds [OF assms] assms bitlen_eq_zero_iff [of p] bitlen_nonneg [of p] by auto
  have "(2 :: rat) powi (bitlen p - 1) = of_int (2 ^ nat (bitlen p - 1))"
    using b(3) by (simp add: power_int_def)
  also have "\<dots> \<le> of_int p" using b(1) by (simp only: of_int_le_iff)
  finally show "2 powi (bitlen p - 1) \<le> (of_int p :: rat)" .
  have "(of_int p :: rat) < of_int (2 ^ nat (bitlen p))" using b(2) by (simp only: of_int_less_iff)
  also have "\<dots> = 2 powi bitlen p" using b(3) by (simp add: power_int_def)
  finally show "(of_int p :: rat) < 2 powi bitlen p" .
qed

lemma binexp_bounds:
  assumes "x \<noteq> 0"
  shows "2 powi binexp x \<le> \<bar>x\<bar>" "\<bar>x\<bar> < 2 powi (binexp x + 1)"
proof -
  obtain p q where pq: "quotient_of x = (p, q)" by (cases "quotient_of x")
  have q: "0 < q" using quotient_of_denom_pos [OF pq] .
  have x: "x = of_int p / of_int q" using quotient_of_div [OF pq] .
  then have p: "0 < \<bar>p\<bar>" using assms by auto
  have ax: "\<bar>x\<bar> = of_int \<bar>p\<bar> / of_int q" using q by (simp add: x)
  define d where "d = bitlen \<bar>p\<bar> - bitlen q"
  note bp = bitlen_real_bounds [OF p] and bq = bitlen_real_bounds [OF q]
  have qpos: "(0 :: rat) < of_int q" using q by simp
  have "\<bar>x\<bar> < 2 powi bitlen \<bar>p\<bar> / of_int q"
    using bp(2) qpos by (simp add: ax divide_strict_right_mono del: of_int_abs)
  also have "\<dots> \<le> 2 powi bitlen \<bar>p\<bar> / 2 powi (bitlen q - 1)"
    using bq(1) qpos by (intro divide_left_mono) auto
  also have "\<dots> = 2 powi (d + 1)" by (simp add: d_def power_int_diff power_int_add)
  finally have up: "\<bar>x\<bar> < 2 powi (d + 1)" .
  have "2 powi (d - 1) = 2 powi (bitlen \<bar>p\<bar> - 1) / (2 :: rat) powi bitlen q"
    by (simp add: d_def power_int_diff)
  also have "\<dots> \<le> of_int \<bar>p\<bar> / 2 powi bitlen q"
    using bp(1) by (intro divide_right_mono) (auto simp del: of_int_abs)
  also have "\<dots> \<le> of_int \<bar>p\<bar> / of_int q"
    using bq(2) qpos by (intro divide_left_mono) auto
  finally have lo: "2 powi (d - 1) \<le> \<bar>x\<bar>" by (simp only: ax)
  have "binexp x = (if 2 powi d \<le> \<bar>x\<bar> then d else d - 1)"
    by (simp add: binexp_def pq d_def Let_def)
  with up lo show "2 powi binexp x \<le> \<bar>x\<bar>" "\<bar>x\<bar> < 2 powi (binexp x + 1)"
    by (auto simp: not_le)
qed

lemma rnd_0 [simp]: "rnd 0 = 0"
  by (simp add: rnd_def)

text \<open>The relative error of a rounded operation is at most \<open>2 ^ -53\<close>.\<close>

lemma rnd_error: "\<bar>rnd x - x\<bar> \<le> \<bar>x\<bar> / 2 ^ 53"
proof (cases "x = 0")
  case True
  then show ?thesis by simp
next
  case False
  define u where "u = (2 :: rat) powi (binexp x - 52)"
  have u: "0 < u" by (simp add: u_def)
  have ux: "2 ^ 52 * u \<le> \<bar>x\<bar>"
    using binexp_bounds(1) [OF False] by (simp add: u_def power_int_diff)
  have "rnd x - x = (of_int (round_even (x / u)) - x / u) * u"
    using False u by (simp add: rnd_def Let_def flip: u_def) (simp add: field_simps)
  then have "\<bar>rnd x - x\<bar> = \<bar>of_int (round_even (x / u)) - x / u\<bar> * u"
    using u by (simp add: abs_mult)
  also have "\<dots> \<le> 1 / 2 * u" using round_even_error [of "x / u"] u by (intro mult_right_mono) auto
  also have "\<dots> \<le> \<bar>x\<bar> / 2 ^ 53" using ux by simp
  finally show ?thesis .
qed

lemma rnd_bounds:
  assumes "0 \<le> x"
  shows "x - x / 2 ^ 53 \<le> rnd x" "rnd x \<le> x + x / 2 ^ 53" "0 \<le> rnd x"
proof -
  have "\<bar>rnd x - x\<bar> \<le> x / 2 ^ 53" using rnd_error [of x] assms by simp
  then show 1: "x - x / 2 ^ 53 \<le> rnd x" and "rnd x \<le> x + x / 2 ^ 53"
    by (simp_all only: abs_le_iff) linarith+
  have "0 \<le> x - x / 2 ^ 53" using assms by simp
  with 1 show "0 \<le> rnd x" by linarith
qed

text \<open>Integers of up to 53 bits are doubles.\<close>

lemma rnd_of_int:
  assumes "\<bar>i\<bar> < 2 ^ 53"
  shows "rnd (of_int i) = of_int i"
proof (cases "i = 0")
  case True
  then show ?thesis by simp
next
  case False
  then have nz: "(of_int i :: rat) \<noteq> 0" by simp
  define e where "e = binexp (of_int i)"
  have lo: "2 powi e \<le> \<bar>of_int i :: rat\<bar>" using binexp_bounds(1) [OF nz] by (simp only: e_def)
  have "\<bar>of_int i :: rat\<bar> < of_int (2 ^ 53)" using assms by (simp only: of_int_abs [symmetric] of_int_less_iff)
  with lo have less: "(2 :: rat) powi e < 2 powi 53" by simp
  have e: "e < 53"
  proof (rule ccontr)
    assume "\<not> e < 53"
    then have "(2 :: rat) powi 53 \<le> 2 powi e" by (intro power_int_increasing) simp_all
    with less show False by simp
  qed
  have "(of_int i :: rat) / 2 powi (e - 52) = of_int (i * 2 ^ nat (52 - e))"
  proof -
    have "e - 52 = - int (nat (52 - e))" using e by simp
    then have "(2 :: rat) powi (e - 52) = inverse (2 ^ nat (52 - e))"
      by (simp only: power_int_minus power_int_of_nat)
    then show ?thesis by (simp add: field_simps)
  qed
  then have "round_even ((of_int i :: rat) / 2 powi (e - 52)) = i * 2 ^ nat (52 - e)"
    "of_int (i * 2 ^ nat (52 - e)) * 2 powi (e - 52) = (of_int i :: rat)"
    by (simp_all only: round_even_of_int) (simp add: field_simps)
  then show ?thesis
    using nz unfolding rnd_def Let_def e_def [symmetric] by simp
qed

end
