(* ===== verification/Handshake_Messages.thy ===== *)
theory Handshake_Messages
  imports Packet_Codec Double_Arith
begin

text \<open>
  \<open>NeuronCore/HandshakeMessages.h\<close>: the bodies of the handshake and login messages.
  The fixed arrays of the code (\<open>Cookie\<close>, \<open>EcPubKey\<close>, \<open>EcSignature\<close>)
  are byte lists; \<open>Encode\<close> writes them whole and \<open>Decode\<close> copies exactly their
  size, so the well-formedness of a body is that its arrays have their sizes.
\<close>

section \<open>Sizes\<close>

definition EC_PUB_KEY_BYTES :: nat where "EC_PUB_KEY_BYTES = 64"
definition EC_SIG_BYTES :: nat where "EC_SIG_BYTES = 64"
definition COOKIE_BYTES :: nat where "COOKIE_BYTES = 32"

lemmas size_defs = EC_PUB_KEY_BYTES_def EC_SIG_BYTES_def COOKIE_BYTES_def

type_synonym EcPubKey = bytes
type_synonym EcSignature = bytes
type_synonym Cookie = bytes

text \<open>\<open>std::copy_n(in.begin() + off, n, \<dots>)\<close>\<close>

definition copy_n :: "bytes \<Rightarrow> nat \<Rightarrow> nat \<Rightarrow> bytes decoded" where
  "copy_n inp off n = or_fault (subspan inp off n)"

lemma copy_n_eq: "copy_n inp off n = (if off + n \<le> length inp then Decoded (take n (drop off inp)) else Faulted)"
  by (simp add: copy_n_def subspan_def)

section \<open>Bodies\<close>

record ClientHelloBody =
  hello_protocolId :: u32

definition ClientHello_Encode :: "ClientHelloBody \<Rightarrow> bytes \<Rightarrow> bytes" where
  "ClientHello_Encode b out = PutU32 out (hello_protocolId b)"

definition ClientHello_Decode :: "bytes \<Rightarrow> ClientHelloBody decoded" where
  "ClientHello_Decode inp =
     (if length inp < 4 then Rejected
      else bind_decoded (or_fault (GetU32 inp 0)) (\<lambda>(v, off). Decoded \<lparr>hello_protocolId = v\<rparr>))"

record CookieBody =
  cookie :: Cookie

definition Cookie_Encode :: "CookieBody \<Rightarrow> bytes \<Rightarrow> bytes" where
  "Cookie_Encode b out = out @ cookie b"

definition Cookie_Decode :: "bytes \<Rightarrow> CookieBody decoded" where
  "Cookie_Decode inp =
     (if length inp < COOKIE_BYTES then Rejected
      else bind_decoded (copy_n inp 0 COOKIE_BYTES) (\<lambda>c. Decoded \<lparr>cookie = c\<rparr>))"

record CookieResponseBody =
  cr_cookie :: Cookie
  clientEphemeralPub :: EcPubKey

definition CookieResponse_Encode :: "CookieResponseBody \<Rightarrow> bytes \<Rightarrow> bytes" where
  "CookieResponse_Encode b out = out @ cr_cookie b @ clientEphemeralPub b"

definition CookieResponse_Decode :: "bytes \<Rightarrow> CookieResponseBody decoded" where
  "CookieResponse_Decode inp =
     (if length inp < COOKIE_BYTES + EC_PUB_KEY_BYTES then Rejected
      else bind_decoded (copy_n inp 0 COOKIE_BYTES) (\<lambda>c.
           bind_decoded (copy_n inp COOKIE_BYTES EC_PUB_KEY_BYTES) (\<lambda>k.
             Decoded \<lparr>cr_cookie = c, clientEphemeralPub = k\<rparr>)))"

record HandshakeResponseBody =
  serverEphemeralPub :: EcPubKey
  signature :: EcSignature
  hr_connectionToken :: u64
  hr_epoch :: u32

definition HandshakeResponse_Encode :: "HandshakeResponseBody \<Rightarrow> bytes \<Rightarrow> bytes" where
  "HandshakeResponse_Encode b out =
     PutU32 (PutU64 (out @ serverEphemeralPub b @ signature b) (hr_connectionToken b)) (hr_epoch b)"

definition HandshakeResponse_Decode :: "bytes \<Rightarrow> HandshakeResponseBody decoded" where
  "HandshakeResponse_Decode inp =
     (if length inp < EC_PUB_KEY_BYTES + EC_SIG_BYTES + 8 + 4 then Rejected
      else bind_decoded (copy_n inp 0 EC_PUB_KEY_BYTES) (\<lambda>k.
           bind_decoded (copy_n inp EC_PUB_KEY_BYTES EC_SIG_BYTES) (\<lambda>s.
           bind_decoded (or_fault (GetU64 inp (EC_PUB_KEY_BYTES + EC_SIG_BYTES))) (\<lambda>(t, off).
           bind_decoded (or_fault (GetU32 inp off)) (\<lambda>(e, off).
             Decoded \<lparr>serverEphemeralPub = k, signature = s, hr_connectionToken = t,
               hr_epoch = e\<rparr>)))))"

definition DILATION_FIXED_ONE :: u32 where "DILATION_FIXED_ONE = 1000000"

record ClockSyncBody =
  clientTimeMicros :: u64
  serverTimeMicros :: u64
  dilationFactor :: double

definition dilation_to_ppm :: "double \<Rightarrow> u32" where
  "dilation_to_ppm d =
     (let f = (if d < 0 then 0 else if d > 1 then 1 else d)
      in word_of_int (dtrunc (dadd (dmul f (double_of_int (uint DILATION_FIXED_ONE))) (1 / 2))))"

definition dilation_from_ppm :: "u32 \<Rightarrow> double" where
  "dilation_from_ppm v =
     ddiv (double_of_int (uint v)) (double_of_int (uint DILATION_FIXED_ONE))"

definition ClockSync_Encode :: "ClockSyncBody \<Rightarrow> bytes \<Rightarrow> bytes" where
  "ClockSync_Encode b out =
     PutU32 (PutU64 (PutU64 out (clientTimeMicros b)) (serverTimeMicros b))
       (dilation_to_ppm (dilationFactor b))"

definition ClockSync_Decode :: "bytes \<Rightarrow> ClockSyncBody decoded" where
  "ClockSync_Decode inp =
     (if length inp < 16 then Rejected
      else bind_decoded (or_fault (GetU64 inp 0)) (\<lambda>(c, off).
           bind_decoded (or_fault (GetU64 inp off)) (\<lambda>(s, off).
             (if length inp \<ge> off + 4
              then bind_decoded (or_fault (GetU32 inp off)) (\<lambda>(d, off).
                     Decoded \<lparr>clientTimeMicros = c, serverTimeMicros = s,
                       dilationFactor = dilation_from_ppm d\<rparr>)
              else Decoded \<lparr>clientTimeMicros = c, serverTimeMicros = s, dilationFactor = 1\<rparr>))))"

record LoginRequestBody =
  username :: bytes

definition LoginRequest_Encode :: "LoginRequestBody \<Rightarrow> bytes \<Rightarrow> bytes" where
  "LoginRequest_Encode b out = PutU16 out (of_nat (length (username b))) @ username b"

definition LoginRequest_Decode :: "bytes \<Rightarrow> LoginRequestBody decoded" where
  "LoginRequest_Decode inp =
     (if length inp < 2 then Rejected
      else bind_decoded (or_fault (GetU16 inp 0)) (\<lambda>(len, off).
             if off + unat len > length inp then Rejected
             else bind_decoded (or_fault (subspan inp off (unat len))) (\<lambda>n.
               Decoded \<lparr>username = n\<rparr>)))"

record LoginResponseBody =
  lr_success :: u8
  lr_reason :: u8
  sessionToken :: u64
  playerNetworkId :: u32

definition LoginResponse_Encode :: "LoginResponseBody \<Rightarrow> bytes \<Rightarrow> bytes" where
  "LoginResponse_Encode b out =
     PutU32 (PutU64 (out @ [lr_success b] @ [lr_reason b]) (sessionToken b)) (playerNetworkId b)"

definition LoginResponse_Decode :: "bytes \<Rightarrow> LoginResponseBody decoded" where
  "LoginResponse_Decode inp =
     (if length inp < 1 + 1 + 8 + 4 then Rejected
      else bind_decoded (or_fault (read_at inp 0)) (\<lambda>s.
           bind_decoded (or_fault (read_at inp 1)) (\<lambda>r.
           bind_decoded (or_fault (GetU64 inp 2)) (\<lambda>(t, off).
           bind_decoded (or_fault (GetU32 inp off)) (\<lambda>(n, off).
             Decoded \<lparr>lr_success = s, lr_reason = r, sessionToken = t, playerNetworkId = n\<rparr>)))))"

section \<open>The interface of a message body\<close>

text \<open>
  What the handshake relies on, for any body type: \<open>enc\<close> appends to the output buffer, and
  decoding an encoded well-formed body gives \<open>image\<close> of it (the identity, except for the
  dilation factor, which travels in parts per million); decoding never reads out of range.
\<close>

locale message_body =
  fixes enc :: "'b \<Rightarrow> bytes \<Rightarrow> bytes"
    and dec :: "bytes \<Rightarrow> 'b decoded"
    and wf :: "'b \<Rightarrow> bool"
    and image :: "'b \<Rightarrow> 'b"
  assumes enc_appends: "enc b out = out @ enc b []"
    and dec_enc: "wf b \<Longrightarrow> dec (enc b []) = Decoded (image b)"
    and dec_safe: "fault_free (dec inp)"
begin

text \<open>Well-formed bodies with different images have different encodings.\<close>

lemma enc_separates: "wf a \<Longrightarrow> wf b \<Longrightarrow> enc a out = enc b out \<Longrightarrow> image a = image b"
  using dec_enc [of a] dec_enc [of b] enc_appends [of a out] enc_appends [of b out] by simp

lemma dec_cases:
  obtains "dec inp = Rejected" | b where "dec inp = Decoded b"
  using dec_safe [of inp] by (cases "dec inp") auto

end

interpretation hello: message_body ClientHello_Encode ClientHello_Decode "\<lambda>_. True" id
  by unfold_locales
    (simp_all add: ClientHello_Encode_def ClientHello_Decode_def Put_le Get_le)

definition CookieBody_wf :: "CookieBody \<Rightarrow> bool" where
  "CookieBody_wf b \<longleftrightarrow> length (cookie b) = COOKIE_BYTES"

interpretation cookie_body: message_body Cookie_Encode Cookie_Decode CookieBody_wf id
  by unfold_locales (simp_all add: Cookie_Encode_def Cookie_Decode_def CookieBody_wf_def copy_n_eq)

definition CookieResponse_wf :: "CookieResponseBody \<Rightarrow> bool" where
  "CookieResponse_wf b \<longleftrightarrow>
     length (cr_cookie b) = COOKIE_BYTES \<and> length (clientEphemeralPub b) = EC_PUB_KEY_BYTES"

interpretation cookie_response: message_body CookieResponse_Encode CookieResponse_Decode CookieResponse_wf id
  by unfold_locales
    (simp_all add: CookieResponse_Encode_def CookieResponse_Decode_def CookieResponse_wf_def copy_n_eq)

definition HandshakeResponse_wf :: "HandshakeResponseBody \<Rightarrow> bool" where
  "HandshakeResponse_wf b \<longleftrightarrow>
     length (serverEphemeralPub b) = EC_PUB_KEY_BYTES \<and> length (signature b) = EC_SIG_BYTES"

interpretation handshake_response:
  message_body HandshakeResponse_Encode HandshakeResponse_Decode HandshakeResponse_wf id
  by unfold_locales
    (simp_all add: HandshakeResponse_Encode_def HandshakeResponse_Decode_def HandshakeResponse_wf_def
      copy_n_eq Put_le Get_le le_get_le_put)

definition ClockSync_image :: "ClockSyncBody \<Rightarrow> ClockSyncBody" where
  "ClockSync_image b = b\<lparr>dilationFactor := dilation_from_ppm (dilation_to_ppm (dilationFactor b))\<rparr>"

interpretation clock_sync: message_body ClockSync_Encode ClockSync_Decode "\<lambda>_. True" ClockSync_image
  by unfold_locales
    (simp_all add: ClockSync_Encode_def ClockSync_Decode_def ClockSync_image_def Put_le Get_le
      le_get_le_put)

definition LoginRequest_wf :: "LoginRequestBody \<Rightarrow> bool" where
  "LoginRequest_wf b \<longleftrightarrow> length (username b) < 65536"

interpretation login_request: message_body LoginRequest_Encode LoginRequest_Decode LoginRequest_wf id
  by unfold_locales
    (simp_all add: LoginRequest_Encode_def LoginRequest_Decode_def LoginRequest_wf_def Put_le Get_le
      le_get_le_put subspan_def)

interpretation login_response: message_body LoginResponse_Encode LoginResponse_Decode "\<lambda>_. True" id
  by unfold_locales
    (simp_all add: LoginResponse_Encode_def LoginResponse_Decode_def Put_le Get_le le_get_le_put
      read_at_def)

section \<open>The dilation factor on the wire\<close>

lemma DILATION_value [simp]: "double_of_int (uint DILATION_FIXED_ONE) = 1000000"
  using rnd_of_int [of 1000000] by (simp add: double_of_int_def DILATION_FIXED_ONE_def)

lemma double_of_u32 [simp]: "double_of_int (uint (v :: u32)) = of_int (uint v)"
proof -
  have "uint v < 2 ^ 53" using word_bounds(3) [of v] unfolding uint_nat by simp
  then show ?thesis unfolding double_of_int_def by (intro rnd_of_int) simp
qed

text \<open>One step of the encoder near an exact value: a factor within \<open>2 ^ -53\<close> of
  \<open>n\<close> millionths goes out as \<open>n\<close>.\<close>

lemma ppm_near:
  fixes n :: int
  assumes n: "0 \<le> n" "n \<le> 1000000"
    and g: "0 \<le> g" "\<bar>g - of_int n / 1000000\<bar> \<le> 1 / 2 ^ 53"
  shows "dtrunc (dadd (dmul g 1000000) (1 / 2)) = n"
proof -
  have n1: "0 \<le> (of_int n :: rat)" "(of_int n :: rat) \<le> 1000000" using n by simp_all
  have g1: "of_int n - 1000000 / 2 ^ 53 \<le> g * 1000000" "g * 1000000 \<le> of_int n + 1000000 / 2 ^ 53"
    using g(2) unfolding abs_le_iff by linarith+
  then have g2: "g * 1000000 \<le> 1000001" using n1 by simp
  have g0: "0 \<le> g * 1000000" using g by simp
  define h where "h = dmul g 1000000"
  have h: "g * 1000000 - g * 1000000 / 2 ^ 53 \<le> h" "h \<le> g * 1000000 + g * 1000000 / 2 ^ 53" "0 \<le> h"
    using rnd_bounds [OF g0] by (simp_all only: h_def dmul_def)
  have hn: "of_int n - 1 / 8 \<le> h" "h \<le> of_int n + 1 / 8"
    using h(1,2) g1 g2 n1 by simp_all
  define s where "s = dadd h (1 / 2)"
  have h12: "0 \<le> h + 1 / 2" using h by simp
  have s: "h + 1 / 2 - (h + 1 / 2) / 2 ^ 53 \<le> s" "s \<le> h + 1 / 2 + (h + 1 / 2) / 2 ^ 53"
    using rnd_bounds [OF h12] by (simp_all only: s_def dadd_def)
  have "(h + 1 / 2) / 2 ^ 53 \<le> 1 / 8" using hn(2) n1(2) by simp
  then have "of_int n \<le> s" "s < of_int n + 1" using s hn by linarith+
  then have "\<lfloor>s\<rfloor> = n" by (simp add: floor_eq_iff)
  moreover have "0 \<le> s" using \<open>of_int n \<le> s\<close> n1 by linarith
  ultimately show ?thesis by (simp add: dtrunc_def flip: h_def s_def)
qed

text \<open>The dilation factor survives the wire.  Every value of the fixed-point field up to
  1000000 (full speed) is re-encoded to itself after the division and the rounding multiplication
  in double precision, so a factor does not drift when it is relayed.\<close>

theorem dilation_ppm_stable:
  assumes "v \<le> DILATION_FIXED_ONE"
  shows "dilation_to_ppm (dilation_from_ppm v) = v"
proof -
  define n where "n = uint v"
  have n: "0 \<le> n" "n \<le> 1000000"
    using assms by (simp_all add: n_def DILATION_FIXED_ONE_def word_le_def)
  define x where "x = (of_int n :: rat) / 1000000"
  have x: "0 \<le> x" "x \<le> 1" using n by (simp_all add: x_def)
  define f where "f = dilation_from_ppm v"
  have f: "f = rnd x"
    unfolding f_def dilation_from_ppm_def ddiv_def DILATION_value
    unfolding double_of_u32 x_def n_def ..
  define g where "g = (if f < 0 then 0 else if f > 1 then 1 else f)"
  have fb: "x - x / 2 ^ 53 \<le> f" "f \<le> x + x / 2 ^ 53" "0 \<le> f" using rnd_bounds [OF x(1)] by (simp_all only: f)
  then have fx: "\<bar>f - x\<bar> \<le> 1 / 2 ^ 53" using x(2) by (intro abs_leI) simp_all
  have "g = min f 1" using fb(3) by (simp add: g_def min_def)
  then have "0 \<le> g" "\<bar>g - x\<bar> \<le> \<bar>f - x\<bar>" using fb(3) x by (auto simp: min_def)
  with fx have "0 \<le> g" "\<bar>g - x\<bar> \<le> 1 / 2 ^ 53" by simp_all
  then have "dtrunc (dadd (dmul g 1000000) (1 / 2)) = n"
    using n by (intro ppm_near) (simp_all add: x_def)
  moreover have "dilation_to_ppm f = word_of_int (dtrunc (dadd (dmul g 1000000) (1 / 2)))"
    unfolding dilation_to_ppm_def Let_def DILATION_value g_def ..
  ultimately show ?thesis by (simp add: n_def flip: f_def)
qed

lemma dilation_ppm_stable_witness: "dilation_to_ppm (dilation_from_ppm 333333) = 333333"
  by (rule dilation_ppm_stable) (simp add: DILATION_FIXED_ONE_def)

section \<open>Properties of the bodies\<close>

text \<open>No handshake or login body makes its decoder read out of range, whatever the peer sends.\<close>

theorem handshake_decoders_memory_safe:
  "fault_free (ClientHello_Decode inp) \<and> fault_free (Cookie_Decode inp) \<and>
   fault_free (CookieResponse_Decode inp) \<and> fault_free (HandshakeResponse_Decode inp) \<and>
   fault_free (ClockSync_Decode inp) \<and> fault_free (LoginRequest_Decode inp) \<and>
   fault_free (LoginResponse_Decode inp)"
  by (simp add: hello.dec_safe cookie_body.dec_safe cookie_response.dec_safe
      handshake_response.dec_safe clock_sync.dec_safe login_request.dec_safe login_response.dec_safe)

text \<open>Every body round trips: what a peer encodes, the other decodes, field by field.  The
  dilation factor comes back as its value in millionths.\<close>

theorem handshake_bodies_roundtrip:
  assumes "CookieBody_wf c" "CookieResponse_wf r" "HandshakeResponse_wf h" "LoginRequest_wf l"
  shows "ClientHello_Decode (ClientHello_Encode b []) = Decoded b \<and>
    Cookie_Decode (Cookie_Encode c []) = Decoded c \<and>
    CookieResponse_Decode (CookieResponse_Encode r []) = Decoded r \<and>
    HandshakeResponse_Decode (HandshakeResponse_Encode h []) = Decoded h \<and>
    ClockSync_Decode (ClockSync_Encode t []) = Decoded (ClockSync_image t) \<and>
    LoginRequest_Decode (LoginRequest_Encode l []) = Decoded l \<and>
    LoginResponse_Decode (LoginResponse_Encode p []) = Decoded p"
  using assms
  by (simp add: hello.dec_enc cookie_body.dec_enc cookie_response.dec_enc
      handshake_response.dec_enc clock_sync.dec_enc login_request.dec_enc login_response.dec_enc)

lemma handshake_bodies_roundtrip_witness:
  "HandshakeResponse_Decode (HandshakeResponse_Encode
     \<lparr>serverEphemeralPub = replicate 64 7, signature = replicate 64 9, hr_connectionToken = 42,
       hr_epoch = 1\<rparr> []) =
   Decoded \<lparr>serverEphemeralPub = replicate 64 7, signature = replicate 64 9,
     hr_connectionToken = 42, hr_epoch = 1\<rparr>"
  using handshake_bodies_roundtrip [of "\<lparr>cookie = replicate 32 1\<rparr>"
      "\<lparr>cr_cookie = replicate 32 1, clientEphemeralPub = replicate 64 2\<rparr>"
      "\<lparr>serverEphemeralPub = replicate 64 7, signature = replicate 64 9, hr_connectionToken = 42,
         hr_epoch = 1\<rparr>" "\<lparr>username = [98, 111, 116]\<rparr>" "\<lparr>hello_protocolId = 1\<rparr>"
      "\<lparr>clientTimeMicros = 1, serverTimeMicros = 2, dilationFactor = 1\<rparr>"
      "\<lparr>lr_success = 1, lr_reason = 0, sessionToken = 3, playerNetworkId = 4\<rparr>"]
  by (simp add: CookieBody_wf_def CookieResponse_wf_def HandshakeResponse_wf_def LoginRequest_wf_def
      size_defs)

end
