(* ===== verification/Crypto_Interface.thy ===== *)
theory Crypto_Interface
  imports Handshake_Messages
begin

text \<open>
  \<open>NeuronCore/ICrypto.h\<close>: the crypto interface the connection layer is written
  against.  An implementation is a value of the record \<open>ICrypto\<close>, one field per virtual
  function, over a state type of its own (key generation and random bytes change it); a
  \<open>false\<close> return is \<open>None\<close>.

  The locale \<open>crypto_suite\<close> states what the interface documents and the connection
  layer relies on: both ends of a key agreement compute one secret, a signature of the pinned key
  verifies, an accepted ciphertext is exactly the encryption of what it decrypts to, an issued
  cookie verifies.  \<open>Fake_Crypto\<close> interprets it on the implementation the repository
  ships in portable form.
\<close>

section \<open>Sizes and types\<close>

definition AEAD_KEY_BYTES :: nat where "AEAD_KEY_BYTES = 32"
definition SHARED_SECRET_BYTES :: nat where "SHARED_SECRET_BYTES = 32"
definition AEAD_TAG_BYTES :: nat where "AEAD_TAG_BYTES = 16"

definition REKEY_PACKET_THRESHOLD :: u64 where "REKEY_PACKET_THRESHOLD = push_bit 48 1"

type_synonym AeadKey = bytes
type_synonym SharedSecret = bytes

record EcdhKeyPair =
  publicKey :: EcPubKey
  privateBlob :: bytes

definition EcdhKeyPair_empty :: EcdhKeyPair where
  "EcdhKeyPair_empty = \<lparr>publicKey = replicate EC_PUB_KEY_BYTES 0, privateBlob = []\<rparr>"

definition AeadKey_zero :: AeadKey where
  "AeadKey_zero = replicate AEAD_KEY_BYTES 0"

datatype Direction = ClientToServer | ServerToClient

fun direction_byte :: "Direction \<Rightarrow> u8" where
  "direction_byte ClientToServer = 0"
| "direction_byte ServerToClient = 1"

record 's ICrypto =
  GenerateEcdhKeyPair :: "'s \<Rightarrow> EcdhKeyPair \<times> 's"
  DeriveSharedSecret :: "EcdhKeyPair \<Rightarrow> EcPubKey \<Rightarrow> SharedSecret option"
  Sign :: "bytes \<Rightarrow> bytes \<Rightarrow> 's \<Rightarrow> EcSignature option \<times> 's"
  Verify :: "EcPubKey \<Rightarrow> bytes \<Rightarrow> EcSignature \<Rightarrow> bool"
  DeriveAeadKeys :: "SharedSecret \<Rightarrow> u32 \<Rightarrow> (AeadKey \<times> AeadKey) option"
  Encrypt :: "AeadKey \<Rightarrow> Direction \<Rightarrow> u64 \<Rightarrow> bytes \<Rightarrow> bytes \<Rightarrow> bytes option"
  Decrypt :: "AeadKey \<Rightarrow> Direction \<Rightarrow> u64 \<Rightarrow> bytes \<Rightarrow> bytes \<Rightarrow> bytes option"
  MakeCookie :: "bytes \<Rightarrow> bytes \<Rightarrow> Cookie"
  VerifyCookie :: "bytes \<Rightarrow> bytes \<Rightarrow> Cookie \<Rightarrow> bool"
  Pbkdf2 :: "bytes \<Rightarrow> bytes \<Rightarrow> bytes \<Rightarrow> u32 \<Rightarrow> nat \<Rightarrow> bytes option"
  RandomBytes :: "nat \<Rightarrow> 's \<Rightarrow> bytes \<times> 's"

section \<open>The contract\<close>

text \<open>\<open>static_pair\<close> relates the private blob of a server to the public key pinned in
  its clients.\<close>

locale crypto_suite =
  fixes C :: "'s ICrypto"
    and static_pair :: "bytes \<Rightarrow> EcPubKey \<Rightarrow> bool"
  assumes keypair_size: "length (publicKey (fst (GenerateEcdhKeyPair C s))) = EC_PUB_KEY_BYTES"
    and agreement: "\<lbrakk>k1 = fst (GenerateEcdhKeyPair C s1); k2 = fst (GenerateEcdhKeyPair C s2)\<rbrakk> \<Longrightarrow>
      \<exists>secret. DeriveSharedSecret C k1 (publicKey k2) = Some secret \<and>
        DeriveSharedSecret C k2 (publicKey k1) = Some secret"
    and no_keypair: "DeriveSharedSecret C EcdhKeyPair_empty pub = None"
    and sign_verify: "static_pair priv pub \<Longrightarrow>
      \<exists>sig s'. Sign C priv data s = (Some sig, s') \<and> length sig = EC_SIG_BYTES \<and> Verify C pub data sig"
    and keys_derive: "\<exists>c2s s2c. DeriveAeadKeys C secret epoch = Some (c2s, s2c)"
    and aead: "Decrypt C key dir n aad ct = Some p \<longleftrightarrow> Encrypt C key dir n aad p = Some ct"
    and encrypt_size: "Encrypt C key dir n aad p = Some ct \<Longrightarrow> length ct = length p + AEAD_TAG_BYTES"
    and cookie_size: "length (MakeCookie C secret addr) = COOKIE_BYTES"
    and cookie_exact: "VerifyCookie C secret addr c \<longleftrightarrow> c = MakeCookie C secret addr"
begin

lemma decrypt_encrypt: "Encrypt C key dir n aad p = Some ct \<Longrightarrow> Decrypt C key dir n aad ct = Some p"
  by (simp add: aead)

text \<open>Under one key, direction, packet number and associated data, encryption is injective.\<close>

lemma encrypt_inj:
  "Encrypt C key dir n aad p = Some ct \<Longrightarrow> Encrypt C key dir n aad q = Some ct \<Longrightarrow> p = q"
  by (metis aead option.inject)

end

end
