(* ===== verification/Fake_Crypto.thy ===== *)
theory Fake_Crypto
  imports Crypto_Interface
begin

text \<open>
  \<open>NeuronCore/FakeCrypto.h\<close>: the portable, deterministic implementation of the crypto
  interface.  Every primitive is modelled down to the word arithmetic of \<open>Splitmix64\<close> and
  of the four FNV lanes of \<open>Hash32\<close>.  The state is the seeded generator and the
  process-wide key-pair counter.  The last section shows that it keeps the contract of
  \<open>ICrypto.h\<close>.
\<close>

section \<open>Mixing and hashing\<close>

definition Splitmix64 :: "u64 \<Rightarrow> u64" where
  "Splitmix64 x =
     (let z = x + 0x9E3779B97F4A7C15;
          z = (z XOR drop_bit 30 z) * 0xBF58476D1CE4E5B9;
          z = (z XOR drop_bit 27 z) * 0x94D049BB133111EB
      in z XOR drop_bit 31 z)"

definition NextByte :: "u64 \<Rightarrow> u8 \<times> u64" where
  "NextByte state = (let state = Splitmix64 state in (ucast (drop_bit 56 state), state))"

fun NextBytes :: "nat \<Rightarrow> u64 \<Rightarrow> bytes \<times> u64" where
  "NextBytes 0 state = ([], state)"
| "NextBytes (Suc n) state =
     (let (b, state) = NextByte state; (bs, state) = NextBytes n state in (b # bs, state))"

definition HASH_BASES :: "u64 list" where
  "HASH_BASES = [1469598103934665603, 1099511628211, 0xCBF29CE484222325, 0x100000001B3]"

definition HashLane :: "bytes \<Rightarrow> nat \<Rightarrow> u64" where
  "HashLane data l =
     (let h = fold (\<lambda>byte h. (h XOR ucast byte) * 1099511628211) data
                (HASH_BASES ! l XOR push_bit 32 (of_nat l))
      in Splitmix64 (h XOR push_bit (l * 8) (of_nat (length data))))"

definition Hash32 :: "bytes \<Rightarrow> bytes" where
  "Hash32 data = concat (map (\<lambda>l. le_put 8 (HashLane data l)) [0..<4])"

definition Hash16 :: "bytes \<Rightarrow> bytes" where
  "Hash16 data = take 16 (Hash32 data)"

lemma length_Hash32 [simp]: "length (Hash32 data) = 32"
  by (simp add: Hash32_def length_concat comp_def sum_list_triv)

lemma length_Hash16 [simp]: "length (Hash16 data) = 16"
  by (simp add: Hash16_def)

lemma length_NextBytes [simp]: "length (fst (NextBytes n s)) = n"
  by (induction n arbitrary: s) (simp_all add: case_prod_beta Let_def)

section \<open>Key agreement\<close>

record FakeState =
  m_rngState :: u64
  s_keypairCounter :: u64

definition FakeState_init :: FakeState where
  "FakeState_init = \<lparr>m_rngState = 0xC0FFEE123456789, s_keypairCounter = 0\<rparr>"

definition Fake_GenerateEcdhKeyPair :: "FakeState \<Rightarrow> EcdhKeyPair \<times> FakeState" where
  "Fake_GenerateEcdhKeyPair st =
     (let counter = s_keypairCounter st + 1;
          state = Splitmix64 (0xA11CE5EED XOR counter * 0x9E3779B97F4A7C15);
          priv = fst (NextBytes 32 state)
      in (\<lparr>publicKey = priv @ Hash32 priv, privateBlob = priv\<rparr>, st\<lparr>s_keypairCounter := counter\<rparr>))"

text \<open>\<open>memcmp\<close>: the sign of the first differing byte.\<close>

fun memcmp :: "bytes \<Rightarrow> bytes \<Rightarrow> nat \<Rightarrow> int" where
  "memcmp (a # as) (b # bs) (Suc n) = (if a = b then memcmp as bs n else if a < b then -1 else 1)"
| "memcmp _ _ _ = 0"

definition Fake_DeriveSharedSecret :: "EcdhKeyPair \<Rightarrow> EcPubKey \<Rightarrow> SharedSecret option" where
  "Fake_DeriveSharedSecret ours peerPub =
     (if length (privateBlob ours) < 32 then None
      else
        (let a = privateBlob ours; b = peerPub; aFirst = memcmp a b 32 \<le> 0
         in Some (Hash32 (take 32 (if aFirst then a else b) @ take 32 (if aFirst then b else a)))))"

lemma memcmp_0: "memcmp a b n = 0 \<Longrightarrow> length a = n \<Longrightarrow> length b = n \<Longrightarrow> a = b"
  by (induction a b n rule: memcmp.induct) (auto split: if_splits)

lemma memcmp_swap: "length a = n \<Longrightarrow> length b = n \<Longrightarrow> memcmp b a n = - memcmp a b n"
  by (induction a b n rule: memcmp.induct) auto

lemma memcmp_append: "length a = n \<Longrightarrow> length b = n \<Longrightarrow> memcmp (a @ c) (b @ d) n = memcmp a b n"
  by (induction a b n rule: memcmp.induct) auto

section \<open>Signatures\<close>

definition xor_bytes :: "bytes \<Rightarrow> bytes \<Rightarrow> bytes" where
  "xor_bytes = map2 (XOR)"

definition Fake_Sign :: "bytes \<Rightarrow> bytes \<Rightarrow> FakeState \<Rightarrow> EcSignature option \<times> FakeState" where
  "Fake_Sign staticPrivBlob data st =
     (let foldKey = Hash32 staticPrivBlob; dataHash = Hash32 data
      in (Some (xor_bytes dataHash foldKey @ foldKey), st))"

definition Fake_Verify :: "EcPubKey \<Rightarrow> bytes \<Rightarrow> EcSignature \<Rightarrow> bool" where
  "Fake_Verify staticPub data sig \<longleftrightarrow>
     (let foldKey = take 32 staticPub; dataHash = Hash32 data
      in (\<forall>i \<in> set [0..<32]. sig ! (32 + i) = foldKey ! i) \<and>
         (\<forall>i \<in> set [0..<32]. sig ! i = dataHash ! i XOR foldKey ! i))"

definition MakeFakeStaticKey :: "bytes \<times> EcPubKey" where
  "MakeFakeStaticKey =
     (let priv = [0x73, 0x74, 0x61, 0x74, 0x69, 0x63, 0x2d, 0x6b, 0x65, 0x79]
      in (priv, Hash32 priv @ replicate 32 0))"

definition fake_static_pair :: "bytes \<Rightarrow> EcPubKey \<Rightarrow> bool" where
  "fake_static_pair priv pub \<longleftrightarrow> take 32 pub = Hash32 priv"

section \<open>Key derivation\<close>

definition be32 :: "u32 \<Rightarrow> bytes" where
  "be32 v = [ucast (drop_bit 24 v AND 0xFF), ucast (drop_bit 16 v AND 0xFF),
     ucast (drop_bit 8 v AND 0xFF), ucast (v AND 0xFF)]"

definition LABEL_C2S :: bytes where "LABEL_C2S = [0x65, 0x72, 0x2d, 0x63, 0x32, 0x73]"
definition LABEL_S2C :: bytes where "LABEL_S2C = [0x65, 0x72, 0x2d, 0x73, 0x32, 0x63]"

definition DeriveLabeled :: "SharedSecret \<Rightarrow> u32 \<Rightarrow> bytes \<Rightarrow> AeadKey" where
  "DeriveLabeled secret epoch label = Hash32 (secret @ be32 epoch @ label)"

definition Fake_DeriveAeadKeys :: "SharedSecret \<Rightarrow> u32 \<Rightarrow> (AeadKey \<times> AeadKey) option" where
  "Fake_DeriveAeadKeys secret epoch =
     Some (DeriveLabeled secret epoch LABEL_C2S, DeriveLabeled secret epoch LABEL_S2C)"

section \<open>Authenticated encryption\<close>

definition KeystreamState :: "AeadKey \<Rightarrow> Direction \<Rightarrow> u64 \<Rightarrow> u64" where
  "KeystreamState key dir pn =
     (let s = le_get 8 key XOR Splitmix64 (ucast (direction_byte dir) * 0x1000193 + pn);
          s = fold (\<lambda>i s. Splitmix64 (s XOR le_get 8 (drop (8 * i) key))) [1..<length key div 8] s
      in Splitmix64 (s XOR pn))"

fun xor_stream :: "bytes \<Rightarrow> u64 \<Rightarrow> bytes" where
  "xor_stream [] ks = []"
| "xor_stream (b # bs) ks = (let (k, ks) = NextByte ks in (b XOR k) # xor_stream bs ks)"

definition be64 :: "u64 \<Rightarrow> bytes" where
  "be64 pn = map (\<lambda>i. ucast (drop_bit (8 * (7 - i)) pn AND 0xFF)) [0..<8]"

definition tag_input :: "AeadKey \<Rightarrow> Direction \<Rightarrow> u64 \<Rightarrow> bytes \<Rightarrow> bytes \<Rightarrow> bytes" where
  "tag_input key dir pn aad plaintext =
     key @ [direction_byte dir] @ be64 pn @ be32 (of_nat (length aad)) @ aad @ plaintext"

definition ComputeTag :: "AeadKey \<Rightarrow> Direction \<Rightarrow> u64 \<Rightarrow> bytes \<Rightarrow> bytes \<Rightarrow> bytes" where
  "ComputeTag key dir pn aad plaintext = Hash16 (tag_input key dir pn aad plaintext)"

definition Fake_Encrypt :: "AeadKey \<Rightarrow> Direction \<Rightarrow> u64 \<Rightarrow> bytes \<Rightarrow> bytes \<Rightarrow> bytes option" where
  "Fake_Encrypt key dir pn aad plaintext =
     Some (xor_stream plaintext (KeystreamState key dir pn) @
           ComputeTag key dir pn aad plaintext)"

definition Fake_Decrypt :: "AeadKey \<Rightarrow> Direction \<Rightarrow> u64 \<Rightarrow> bytes \<Rightarrow> bytes \<Rightarrow> bytes option" where
  "Fake_Decrypt key dir pn aad ciphertextWithTag =
     (if length ciphertextWithTag < 16 then None
      else
        (let ctLen = length ciphertextWithTag - 16;
             plaintext = xor_stream (take ctLen ciphertextWithTag) (KeystreamState key dir pn);
             expect = ComputeTag key dir pn aad plaintext;
             gotTag = drop ctLen ciphertextWithTag;
             diff = fold (\<lambda>i d. d OR ucast (expect ! i XOR gotTag ! i)) [0..<16] (0 :: u32)
         in if diff \<noteq> 0 then None else Some plaintext))"

section \<open>Cookies, password stretching and random bytes\<close>

definition Fake_MakeCookie :: "bytes \<Rightarrow> bytes \<Rightarrow> Cookie" where
  "Fake_MakeCookie serverSecret clientAddr = Hash32 (serverSecret @ clientAddr)"

definition Fake_VerifyCookie :: "bytes \<Rightarrow> bytes \<Rightarrow> Cookie \<Rightarrow> bool" where
  "Fake_VerifyCookie serverSecret clientAddr c \<longleftrightarrow> Fake_MakeCookie serverSecret clientAddr = c"

definition stretch_round :: "nat \<Rightarrow> bytes \<times> u64 \<Rightarrow> bytes \<times> u64" where
  "stretch_round i = (\<lambda>(acc, st).
     (let st = Splitmix64 (st XOR of_nat i * 0x9E3779B97F4A7C15);
          acc = Hash32 (acc @ le_put 8 st)
      in (acc, le_get 8 acc)))"

definition expand_round :: "nat \<Rightarrow> bytes \<times> bytes \<Rightarrow> bytes \<times> bytes" where
  "expand_round i = (\<lambda>(acc, out).
     (let acc = (if i mod 32 = 0 \<and> i \<noteq> 0 then Hash32 acc else acc)
      in (acc, out @ [acc ! (i mod 32)])))"

definition Fake_Pbkdf2 :: "bytes \<Rightarrow> bytes \<Rightarrow> bytes \<Rightarrow> u32 \<Rightarrow> nat \<Rightarrow> bytes option" where
  "Fake_Pbkdf2 password salt pepper iterations outSize =
     (let iterations = (if iterations = 0 then 1 else iterations);
          acc = Hash32 (pepper @ password @ salt);
          st = le_get 8 acc XOR ucast iterations;
          (acc, st) = fold stretch_round [0..<unat iterations] (acc, st)
      in Some (snd (fold expand_round [0..<outSize] (acc, []))))"

definition Fake_RandomBytes :: "nat \<Rightarrow> FakeState \<Rightarrow> bytes \<times> FakeState" where
  "Fake_RandomBytes n st =
     (let (bs, s) = NextBytes n (m_rngState st) in (bs, st\<lparr>m_rngState := s\<rparr>))"

definition FakeCrypto :: "FakeState ICrypto" where
  "FakeCrypto = \<lparr>GenerateEcdhKeyPair = Fake_GenerateEcdhKeyPair,
     DeriveSharedSecret = Fake_DeriveSharedSecret, Sign = Fake_Sign, Verify = Fake_Verify,
     DeriveAeadKeys = Fake_DeriveAeadKeys, Encrypt = Fake_Encrypt, Decrypt = Fake_Decrypt,
     MakeCookie = Fake_MakeCookie, VerifyCookie = Fake_VerifyCookie, Pbkdf2 = Fake_Pbkdf2,
     RandomBytes = Fake_RandomBytes\<rparr>"

section \<open>The contract holds\<close>

lemma keypair_shape:
  "\<exists>a. length a = 32 \<and>
     fst (Fake_GenerateEcdhKeyPair s) = \<lparr>publicKey = a @ Hash32 a, privateBlob = a\<rparr>"
  unfolding Fake_GenerateEcdhKeyPair_def Let_def fst_conv
  by (intro exI conjI) (rule length_NextBytes, rule refl)

lemma DeriveSharedSecret_agree:
  assumes "k1 = fst (Fake_GenerateEcdhKeyPair s1)" "k2 = fst (Fake_GenerateEcdhKeyPair s2)"
  shows "\<exists>secret. Fake_DeriveSharedSecret k1 (publicKey k2) = Some secret \<and>
    Fake_DeriveSharedSecret k2 (publicKey k1) = Some secret"
proof -
  obtain a where a: "length a = 32" "k1 = \<lparr>publicKey = a @ Hash32 a, privateBlob = a\<rparr>"
    using keypair_shape [of s1] unfolding assms(1) by blast
  obtain b where b: "length b = 32" "k2 = \<lparr>publicKey = b @ Hash32 b, privateBlob = b\<rparr>"
    using keypair_shape [of s2] unfolding assms(2) by blast
  have ab: "memcmp a (b @ Hash32 b) 32 = memcmp a b 32" "memcmp b (a @ Hash32 a) 32 = - memcmp a b 32"
    using memcmp_append [OF a(1) b(1), of "[]"] memcmp_append [OF b(1) a(1), of "[]"]
      memcmp_swap [OF a(1) b(1)] by simp_all
  have "a = b" if "memcmp a b 32 = 0" using memcmp_0 [OF that a(1) b(1)] .
  then show ?thesis
    using a(1) b(1) unfolding a(2) b(2) by (auto simp: Fake_DeriveSharedSecret_def Let_def ab)
qed

lemma length_xor_bytes [simp]: "length (xor_bytes a b) = min (length a) (length b)"
  by (simp add: xor_bytes_def)

lemma Verify_Sign:
  assumes "take 32 pub = Hash32 priv"
  shows "Fake_Verify pub data (xor_bytes (Hash32 data) (Hash32 priv) @ Hash32 priv)"
  using assms by (simp add: Fake_Verify_def Let_def nth_append xor_bytes_def)

lemma xor_stream_length [simp]: "length (xor_stream bs ks) = length bs"
  by (induction bs arbitrary: ks) (simp_all add: case_prod_beta)

lemma xor_stream_involution [simp]: "xor_stream (xor_stream bs ks) ks = bs"
  by (induction bs arbitrary: ks) (simp_all add: case_prod_beta xor.assoc)

lemma or_fold_0:
  "fold (\<lambda>i d. d OR f i) xs (0 :: 'a::len word) = 0 \<longleftrightarrow> (\<forall>i \<in> set xs. f i = 0)"
proof -
  have "fold (\<lambda>i d. d OR f i) xs d = 0 \<longleftrightarrow> d = 0 \<and> (\<forall>i \<in> set xs. f i = 0)" for d
    by (induction xs arbitrary: d) (auto simp: or_eq_0_iff)
  then show ?thesis by simp
qed

lemma tag_compare:
  fixes e g :: bytes
  assumes "length e = 16" "length g = 16"
  shows "fold (\<lambda>i d. d OR ucast (e ! i XOR g ! i)) [0..<16] (0 :: u32) = 0 \<longleftrightarrow> e = g"
proof -
  have u: "(ucast (w :: u8) :: u32) = 0 \<longleftrightarrow> w = 0" for w
    using ucast_ucast_up [of w, where 'b = 32] by auto
  have "e ! i XOR g ! i = 0 \<longleftrightarrow> e ! i = g ! i" for i
    by (auto simp: bit_eq_iff bit_xor_iff)
  then show ?thesis
    unfolding or_fold_0 u using assms by (simp add: list_eq_iff_nth_eq Ball_def del: upt_Suc upt_rec_numeral)
qed

lemma length_ComputeTag [simp]: "length (ComputeTag key dir n aad p) = 16"
  by (simp add: ComputeTag_def)

lemma Fake_Decrypt_eq:
  "Fake_Decrypt key dir n aad ct =
     (if length ct < 16 then None
      else
        (let m = length ct - 16; p = xor_stream (take m ct) (KeystreamState key dir n)
         in if ComputeTag key dir n aad p = drop m ct then Some p else None))"
proof (cases "length ct < 16")
  case True
  then show ?thesis by (simp add: Fake_Decrypt_def)
next
  case False
  define m where "m = length ct - 16"
  define p where "p = xor_stream (take m ct) (KeystreamState key dir n)"
  have "length (drop m ct) = 16" using False by (simp add: m_def)
  with False tag_compare [of "ComputeTag key dir n aad p" "drop m ct"] show ?thesis
    unfolding Fake_Decrypt_def Let_def m_def [symmetric] p_def [symmetric] by (simp del: nth_drop)
qed

lemma Decrypt_iff_Encrypt:
  "Fake_Decrypt key dir n aad ct = Some p \<longleftrightarrow> Fake_Encrypt key dir n aad p = Some ct"
proof
  assume "Fake_Decrypt key dir n aad ct = Some p"
  then have "p = xor_stream (take (length ct - 16) ct) (KeystreamState key dir n)"
    "ComputeTag key dir n aad p = drop (length ct - 16) ct"
    by (auto simp: Fake_Decrypt_eq Let_def split: if_splits)
  then show "Fake_Encrypt key dir n aad p = Some ct" by (simp add: Fake_Encrypt_def)
next
  assume "Fake_Encrypt key dir n aad p = Some ct"
  then show "Fake_Decrypt key dir n aad ct = Some p"
    by (auto simp: Fake_Decrypt_eq Fake_Encrypt_def Let_def)
qed

interpretation fake: crypto_suite FakeCrypto fake_static_pair
proof
  show "\<exists>secret. DeriveSharedSecret FakeCrypto k1 (publicKey k2) = Some secret \<and>
      DeriveSharedSecret FakeCrypto k2 (publicKey k1) = Some secret"
    if "k1 = fst (GenerateEcdhKeyPair FakeCrypto s1)" "k2 = fst (GenerateEcdhKeyPair FakeCrypto s2)"
    for k1 k2 s1 s2
    using that DeriveSharedSecret_agree by (simp add: FakeCrypto_def)
  show "\<exists>sig s'. Sign FakeCrypto priv data s = (Some sig, s') \<and> length sig = EC_SIG_BYTES \<and>
      Verify FakeCrypto pub data sig" if "fake_static_pair priv pub" for priv pub data s
    using that by (simp add: FakeCrypto_def Fake_Sign_def fake_static_pair_def Verify_Sign EC_SIG_BYTES_def Let_def)
  show "Decrypt FakeCrypto key dir n aad ct = Some p \<longleftrightarrow> Encrypt FakeCrypto key dir n aad p = Some ct"
    for key dir n aad ct p
    by (simp add: FakeCrypto_def Decrypt_iff_Encrypt)
qed (auto simp: FakeCrypto_def Fake_DeriveSharedSecret_def EcdhKeyPair_empty_def Fake_GenerateEcdhKeyPair_def Let_def EC_PUB_KEY_BYTES_def COOKIE_BYTES_def
    AEAD_TAG_BYTES_def Fake_DeriveAeadKeys_def Fake_Encrypt_def Fake_MakeCookie_def Fake_VerifyCookie_def)

end
