(* ===== verification/Handshake_FSM.thy ===== *)
theory Handshake_FSM
  imports Fake_Crypto
begin

text \<open>
  \<open>NeuronCore/Handshake.h\<close>: the stateless cookie phase of the server, the per-connection
  server side and the client side of the handshake.  Every handler is a function of the crypto
  suite, the object's record, the message body and the suite's state.  A decoder outcome other
  than \<open>Decoded\<close> takes the code's failure branch (\<open>Handshake_Messages\<close> shows
  that it is never a fault).
\<close>

section \<open>Outputs\<close>

record HsOutput =
  ho_send :: bool
  ho_type :: MsgType
  ho_body :: bytes
  ho_failed :: bool
  ho_reason :: DisconnectReason

definition HsOutput_Message :: "MsgType \<Rightarrow> bytes \<Rightarrow> HsOutput" where
  "HsOutput_Message t b =
     \<lparr>ho_send = True, ho_type = t, ho_body = b, ho_failed = False, ho_reason = Normal\<rparr>"

definition HsOutput_Fail :: "DisconnectReason \<Rightarrow> HsOutput" where
  "HsOutput_Fail r =
     \<lparr>ho_send = False, ho_type = 0, ho_body = [], ho_failed = True, ho_reason = r\<rparr>"

definition HsOutput_None :: HsOutput where
  "HsOutput_None =
     \<lparr>ho_send = False, ho_type = 0, ho_body = [], ho_failed = False, ho_reason = Normal\<rparr>"

lemma HsOutput_simps [simp]:
  "ho_failed (HsOutput_Message t b) = False" "ho_send (HsOutput_Message t b) = True"
  "ho_type (HsOutput_Message t b) = t" "ho_body (HsOutput_Message t b) = b"
  "ho_failed (HsOutput_Fail r) = True" "ho_send (HsOutput_Fail r) = False"
  "ho_reason (HsOutput_Fail r) = r"
  "ho_failed HsOutput_None = False" "ho_send HsOutput_None = False"
  by (simp_all add: HsOutput_Message_def HsOutput_Fail_def HsOutput_None_def)

section \<open>Stateless server phase\<close>

definition OnClientHello :: "'s ICrypto \<Rightarrow> bytes \<Rightarrow> bytes \<Rightarrow> bytes \<Rightarrow> HsOutput" where
  "OnClientHello C serverSecret body clientAddr =
     (case ClientHello_Decode body of
        Decoded hello \<Rightarrow>
          (if \<not> IsProtocolCompatible (hello_protocolId hello)
           then HsOutput_Message Msg_VersionReject [reason_byte ProtocolMismatch]
           else HsOutput_Message Msg_Cookie
             (Cookie_Encode \<lparr>cookie = MakeCookie C serverSecret clientAddr\<rparr> []))
      | _ \<Rightarrow> HsOutput_Fail ProtocolMismatch)"

definition Stateless_VerifyCookie :: "'s ICrypto \<Rightarrow> bytes \<Rightarrow> Cookie \<Rightarrow> bytes \<Rightarrow> bool" where
  "Stateless_VerifyCookie C serverSecret c clientAddr = VerifyCookie C serverSecret clientAddr c"

section \<open>Server side of one connection\<close>

record HandshakeServerConnection =
  sv_staticPriv :: bytes
  sv_token :: u64
  sv_serverTime :: u64
  sv_dilationFactor :: double
  sv_epoch :: u32
  sv_ephemeral :: EcdhKeyPair
  sv_keyC2S :: AeadKey
  sv_keyS2C :: AeadKey
  sv_haveKeys :: bool
  sv_complete :: bool

definition HandshakeServerConnection_new :: "bytes \<Rightarrow> u64 \<Rightarrow> u64 \<Rightarrow> HandshakeServerConnection" where
  "HandshakeServerConnection_new staticPriv token serverTime =
     \<lparr>sv_staticPriv = staticPriv, sv_token = token, sv_serverTime = serverTime,
      sv_dilationFactor = 1, sv_epoch = 0, sv_ephemeral = EcdhKeyPair_empty,
      sv_keyC2S = AeadKey_zero, sv_keyS2C = AeadKey_zero, sv_haveKeys = False,
      sv_complete = False\<rparr>"

definition OnCookieResponse ::
    "'s ICrypto \<Rightarrow> HandshakeServerConnection \<Rightarrow> bytes \<Rightarrow> 's \<Rightarrow>
      HsOutput \<times> HandshakeServerConnection \<times> 's" where
  "OnCookieResponse C sv body st =
     (case CookieResponse_Decode body of
        Decoded cr \<Rightarrow>
          (let (kp, st) = GenerateEcdhKeyPair C st;
               sv = sv\<lparr>sv_ephemeral := kp\<rparr>
           in case DeriveSharedSecret C kp (clientEphemeralPub cr) of
                None \<Rightarrow> (HsOutput_Fail HandshakeFailure, sv, st)
              | Some secret \<Rightarrow>
                  (case Sign C (sv_staticPriv sv) (publicKey kp) st of
                     (None, st) \<Rightarrow> (HsOutput_Fail HandshakeFailure, sv, st)
                   | (Some sig, st) \<Rightarrow>
                       (case DeriveAeadKeys C secret (sv_epoch sv) of
                          None \<Rightarrow> (HsOutput_Fail HandshakeFailure, sv, st)
                        | Some (c2s, s2c) \<Rightarrow>
                            (HsOutput_Message Msg_HandshakeResponse
                               (HandshakeResponse_Encode
                                  \<lparr>serverEphemeralPub = publicKey kp, signature = sig,
                                   hr_connectionToken = sv_token sv, hr_epoch = sv_epoch sv\<rparr> []),
                             sv\<lparr>sv_keyC2S := c2s, sv_keyS2C := s2c, sv_haveKeys := True\<rparr>, st))))
      | _ \<Rightarrow> (HsOutput_Fail HandshakeFailure, sv, st))"

definition OnClockSyncRequest ::
    "HandshakeServerConnection \<Rightarrow> bytes \<Rightarrow> HsOutput \<times> HandshakeServerConnection" where
  "OnClockSyncRequest sv body =
     (case ClockSync_Decode body of
        Decoded cs \<Rightarrow>
          (HsOutput_Message Msg_ClockSyncResponse
             (ClockSync_Encode (cs\<lparr>serverTimeMicros := sv_serverTime sv,
                dilationFactor := sv_dilationFactor sv\<rparr>) []),
           sv\<lparr>sv_complete := True\<rparr>)
      | _ \<Rightarrow> (HsOutput_Fail HandshakeFailure, sv))"

definition SetDilationFactor :: "HandshakeServerConnection \<Rightarrow> double \<Rightarrow> HandshakeServerConnection" where
  "SetDilationFactor sv f = sv\<lparr>sv_dilationFactor := f\<rparr>"

section \<open>Client side\<close>

record HandshakeClient =
  cl_pinnedStaticPub :: EcPubKey
  cl_clientTime :: u64
  cl_ephemeral :: EcdhKeyPair
  cl_keyC2S :: AeadKey
  cl_keyS2C :: AeadKey
  cl_token :: u64
  cl_epoch :: u32
  cl_haveKeys :: bool
  cl_complete :: bool
  cl_cookieHandled :: bool
  cl_rttMicros :: u64
  cl_clockOffsetMicros :: u64
  cl_dilationFactor :: double

definition HandshakeClient_new :: "EcPubKey \<Rightarrow> u64 \<Rightarrow> HandshakeClient" where
  "HandshakeClient_new pinned time =
     \<lparr>cl_pinnedStaticPub = pinned, cl_clientTime = time, cl_ephemeral = EcdhKeyPair_empty,
      cl_keyC2S = AeadKey_zero, cl_keyS2C = AeadKey_zero, cl_token = 0, cl_epoch = 0,
      cl_haveKeys = False, cl_complete = False, cl_cookieHandled = False, cl_rttMicros = 0,
      cl_clockOffsetMicros = 0, cl_dilationFactor = 1\<rparr>"

definition Client_Begin :: HsOutput where
  "Client_Begin =
     HsOutput_Message Msg_ClientHello (ClientHello_Encode \<lparr>hello_protocolId = PROTOCOL_ID\<rparr> [])"

definition CookieResponse_message :: "HandshakeClient \<Rightarrow> Cookie \<Rightarrow> HsOutput" where
  "CookieResponse_message cl c =
     HsOutput_Message Msg_CookieResponse
       (CookieResponse_Encode \<lparr>cr_cookie = c, clientEphemeralPub = publicKey (cl_ephemeral cl)\<rparr> [])"

definition OnCookie ::
    "'s ICrypto \<Rightarrow> HandshakeClient \<Rightarrow> bytes \<Rightarrow> 's \<Rightarrow> HsOutput \<times> HandshakeClient \<times> 's" where
  "OnCookie C cl body st =
     (case Cookie_Decode body of
        Decoded cb \<Rightarrow>
          (if cl_cookieHandled cl then (CookieResponse_message cl (cookie cb), cl, st)
           else
             (let cl = cl\<lparr>cl_cookieHandled := True\<rparr>;
                  (kp, st) = GenerateEcdhKeyPair C st;
                  cl = cl\<lparr>cl_ephemeral := kp\<rparr>
              in (CookieResponse_message cl (cookie cb), cl, st)))
      | _ \<Rightarrow> (HsOutput_Fail BadCookie, cl, st))"

definition ClockSyncRequest_message :: "HandshakeClient \<Rightarrow> HsOutput" where
  "ClockSyncRequest_message cl =
     HsOutput_Message Msg_ClockSyncRequest
       (ClockSync_Encode \<lparr>clientTimeMicros = cl_clientTime cl, serverTimeMicros = 0,
          dilationFactor = 1\<rparr> [])"

definition OnHandshakeResponse ::
    "'s ICrypto \<Rightarrow> HandshakeClient \<Rightarrow> bytes \<Rightarrow> HsOutput \<times> HandshakeClient" where
  "OnHandshakeResponse C cl body =
     (if cl_haveKeys cl then (ClockSyncRequest_message cl, cl)
      else
        (case HandshakeResponse_Decode body of
           Decoded resp \<Rightarrow>
             (if \<not> Verify C (cl_pinnedStaticPub cl) (serverEphemeralPub resp) (signature resp)
              then (HsOutput_Fail HandshakeFailure, cl)
              else
                (case DeriveSharedSecret C (cl_ephemeral cl) (serverEphemeralPub resp) of
                   None \<Rightarrow> (HsOutput_Fail HandshakeFailure, cl)
                 | Some secret \<Rightarrow>
                     (let cl = cl\<lparr>cl_token := hr_connectionToken resp, cl_epoch := hr_epoch resp\<rparr>
                      in case DeriveAeadKeys C secret (cl_epoch cl) of
                           None \<Rightarrow> (HsOutput_Fail HandshakeFailure, cl)
                         | Some (c2s, s2c) \<Rightarrow>
                             (ClockSyncRequest_message cl,
                              cl\<lparr>cl_keyC2S := c2s, cl_keyS2C := s2c, cl_haveKeys := True\<rparr>))))
         | _ \<Rightarrow> (HsOutput_Fail HandshakeFailure, cl)))"

definition OnClockSyncResponse :: "HandshakeClient \<Rightarrow> bytes \<Rightarrow> HsOutput \<times> HandshakeClient" where
  "OnClockSyncResponse cl body =
     (case ClockSync_Decode body of
        Decoded cs \<Rightarrow>
          (let nowApprox = clientTimeMicros cs + 1;
               rtt = nowApprox - clientTimeMicros cs
           in (HsOutput_None,
               cl\<lparr>cl_rttMicros := rtt,
                  cl_clockOffsetMicros := serverTimeMicros cs - (clientTimeMicros cs + rtt div 2),
                  cl_dilationFactor := dilationFactor cs, cl_complete := True\<rparr>))
      | _ \<Rightarrow> (HsOutput_Fail HandshakeFailure, cl))"

definition Client_OnMessage ::
    "'s ICrypto \<Rightarrow> HandshakeClient \<Rightarrow> MsgType \<Rightarrow> bytes \<Rightarrow> 's \<Rightarrow>
      HsOutput \<times> HandshakeClient \<times> 's" where
  "Client_OnMessage C cl ty body st =
     (if ty = Msg_VersionReject then (HsOutput_Fail ProtocolMismatch, cl, st)
      else if ty = Msg_Cookie then OnCookie C cl body st
      else if ty = Msg_HandshakeResponse then (case OnHandshakeResponse C cl body of (o', cl) \<Rightarrow> (o', cl, st))
      else if ty = Msg_ClockSyncResponse then (case OnClockSyncResponse cl body of (o', cl) \<Rightarrow> (o', cl, st))
      else (HsOutput_None, cl, st))"

section \<open>Runs of the client\<close>

fun client_run :: "'s ICrypto \<Rightarrow> (MsgType \<times> bytes) list \<Rightarrow> HandshakeClient \<Rightarrow> 's \<Rightarrow>
    HandshakeClient \<times> 's" where
  "client_run C [] cl st = (cl, st)"
| "client_run C ((ty, bd) # ms) cl st =
     (case Client_OnMessage C cl ty bd st of (o', cl, st) \<Rightarrow> client_run C ms cl st)"

text \<open>What one message can do to a client, by the message's type.\<close>

lemmas client_handlers = Client_OnMessage_def OnCookie_def OnHandshakeResponse_def
  OnClockSyncResponse_def Let_def

lemma OnMessage_keeps_pin:
  "cl_pinnedStaticPub (fst (snd (Client_OnMessage C cl ty bd st))) = cl_pinnedStaticPub cl"
  by (simp add: client_handlers case_prod_beta split: decoded.splits option.splits)

lemma OnMessage_keeps_keys:
  assumes "cl_haveKeys cl" "cl' = fst (snd (Client_OnMessage C cl ty bd st))"
  shows "cl_haveKeys cl' \<and> cl_keyC2S cl' = cl_keyC2S cl \<and> cl_keyS2C cl' = cl_keyS2C cl \<and>
    cl_token cl' = cl_token cl \<and> cl_epoch cl' = cl_epoch cl"
  using assms by (simp add: client_handlers case_prod_beta split: decoded.splits)

lemma OnHandshakeResponse_keeps:
  "cl_cookieHandled (snd (OnHandshakeResponse C cl bd)) = cl_cookieHandled cl \<and>
   cl_ephemeral (snd (OnHandshakeResponse C cl bd)) = cl_ephemeral cl"
  by (simp add: OnHandshakeResponse_def Let_def case_prod_beta split: decoded.splits option.splits)

lemma OnClockSyncResponse_keeps:
  "cl_cookieHandled (snd (OnClockSyncResponse cl bd)) = cl_cookieHandled cl \<and>
   cl_ephemeral (snd (OnClockSyncResponse cl bd)) = cl_ephemeral cl"
  by (simp add: OnClockSyncResponse_def Let_def split: decoded.splits)

lemma OnCookie_again:
  "cl_cookieHandled cl \<Longrightarrow> fst (snd (OnCookie C cl bd st)) = cl"
  by (simp add: OnCookie_def split: decoded.splits)

lemma OnMessage_keeps_ephemeral:
  assumes "cl_cookieHandled cl" "cl' = fst (snd (Client_OnMessage C cl ty bd st))"
  shows "cl_cookieHandled cl' \<and> cl_ephemeral cl' = cl_ephemeral cl"
  unfolding assms(2) using assms(1)
  by (simp add: Client_OnMessage_def case_prod_beta OnHandshakeResponse_keeps
      OnClockSyncResponse_keeps OnCookie_again)

text \<open>The message that gives a client its keys was signed by the pinned key.\<close>

definition keys_from :: "'s ICrypto \<Rightarrow> HandshakeClient \<Rightarrow> bytes \<Rightarrow> bool" where
  "keys_from C cl bd \<longleftrightarrow>
     (\<exists>resp secret. HandshakeResponse_Decode bd = Decoded resp \<and>
        Verify C (cl_pinnedStaticPub cl) (serverEphemeralPub resp) (signature resp) \<and>
        DeriveSharedSecret C (cl_ephemeral cl) (serverEphemeralPub resp) = Some secret \<and>
        DeriveAeadKeys C secret (hr_epoch resp) = Some (cl_keyC2S cl, cl_keyS2C cl) \<and>
        cl_token cl = hr_connectionToken resp \<and> cl_epoch cl = hr_epoch resp)"

lemma OnMessage_ephemeral_cases:
  "cl_cookieHandled (fst (snd (Client_OnMessage C cl ty bd st))) \<or>
   cl_cookieHandled cl = cl_cookieHandled (fst (snd (Client_OnMessage C cl ty bd st))) \<and>
   cl_ephemeral (fst (snd (Client_OnMessage C cl ty bd st))) = cl_ephemeral cl"
  by (simp add: Client_OnMessage_def OnCookie_def Let_def case_prod_beta OnHandshakeResponse_keeps
      OnClockSyncResponse_keeps split: decoded.splits)

lemma OnHandshakeResponse_new_keys:
  assumes "\<not> cl_haveKeys cl" "OnHandshakeResponse C cl bd = (out, cl')" "cl_haveKeys cl'"
  shows "keys_from C cl' bd \<and> cl_ephemeral cl' = cl_ephemeral cl \<and> cl_cookieHandled cl' = cl_cookieHandled cl"
proof (cases "HandshakeResponse_Decode bd")
  case (Decoded resp)
  have v: "Verify C (cl_pinnedStaticPub cl) (serverEphemeralPub resp) (signature resp)"
    using assms Decoded by (auto simp: OnHandshakeResponse_def split: if_splits)
  obtain secret where s: "DeriveSharedSecret C (cl_ephemeral cl) (serverEphemeralPub resp) = Some secret"
    using assms Decoded v by (cases "DeriveSharedSecret C (cl_ephemeral cl) (serverEphemeralPub resp)")
      (auto simp: OnHandshakeResponse_def)
  obtain c2s s2c where k: "DeriveAeadKeys C secret (hr_epoch resp) = Some (c2s, s2c)"
    using assms Decoded v s by (cases "DeriveAeadKeys C secret (hr_epoch resp)")
      (auto simp: OnHandshakeResponse_def Let_def)
  have "cl' = cl\<lparr>cl_token := hr_connectionToken resp, cl_epoch := hr_epoch resp, cl_keyC2S := c2s,
      cl_keyS2C := s2c, cl_haveKeys := True\<rparr>"
    using assms(1,2) Decoded v s k by (simp add: OnHandshakeResponse_def Let_def)
  with Decoded v s k show ?thesis by (simp add: keys_from_def)
qed (use assms in \<open>simp_all add: OnHandshakeResponse_def\<close>)

lemma OnMessage_other_keys:
  "ty \<noteq> Msg_HandshakeResponse \<Longrightarrow>
   cl_haveKeys (fst (snd (Client_OnMessage C cl ty bd st))) = cl_haveKeys cl"
  by (simp add: client_handlers case_prod_beta split: decoded.splits)

lemma OnMessage_new_keys:
  assumes "\<not> cl_haveKeys cl" "cl' = fst (snd (Client_OnMessage C cl ty bd st))" "cl_haveKeys cl'"
  shows "ty = Msg_HandshakeResponse \<and> keys_from C cl' bd \<and> cl_ephemeral cl' = cl_ephemeral cl \<and>
    cl_cookieHandled cl' = cl_cookieHandled cl"
proof -
  have ty: "ty = Msg_HandshakeResponse"
    using OnMessage_other_keys [of ty C cl bd st] assms by auto
  then have "OnHandshakeResponse C cl bd = (fst (OnHandshakeResponse C cl bd), cl')"
    using assms(2) by (simp add: Client_OnMessage_def MsgType_defs case_prod_beta)
  from OnHandshakeResponse_new_keys [OF assms(1) this assms(3)] ty show ?thesis by simp
qed

lemma keys_from_cong:
  assumes "keys_from C cl bd" "cl_pinnedStaticPub cl' = cl_pinnedStaticPub cl"
    "cl_ephemeral cl' = cl_ephemeral cl" "cl_keyC2S cl' = cl_keyC2S cl" "cl_keyS2C cl' = cl_keyS2C cl"
    "cl_token cl' = cl_token cl" "cl_epoch cl' = cl_epoch cl"
  shows "keys_from C cl' bd"
  using assms by (simp add: keys_from_def)

context crypto_suite
begin

definition client_inv :: "HandshakeClient \<Rightarrow> (MsgType \<times> bytes) set \<Rightarrow> bool" where
  "client_inv cl seen \<longleftrightarrow>
     (\<not> cl_cookieHandled cl \<longrightarrow> cl_ephemeral cl = EcdhKeyPair_empty) \<and>
     (cl_haveKeys cl \<longrightarrow> cl_cookieHandled cl \<and>
        (\<exists>bd. (Msg_HandshakeResponse, bd) \<in> seen \<and> keys_from C cl bd))"

lemma client_inv_step:
  assumes inv: "client_inv cl seen" and cl': "cl' = fst (snd (Client_OnMessage C cl ty bd st))"
  shows "client_inv cl' (insert (ty, bd) seen)"
proof -
  note pin = OnMessage_keeps_pin [of C cl ty bd st, folded cl']
  have eph: "cl_ephemeral cl' = EcdhKeyPair_empty" if "\<not> cl_cookieHandled cl'"
    using that inv OnMessage_ephemeral_cases [of C cl ty bd st, folded cl'] by (auto simp: client_inv_def)
  have keys: "cl_cookieHandled cl' \<and> (\<exists>bd'. (Msg_HandshakeResponse, bd') \<in> insert (ty, bd) seen \<and>
      keys_from C cl' bd')" if h: "cl_haveKeys cl'"
  proof (cases "cl_haveKeys cl")
    case True
    then obtain bd' where bd': "(Msg_HandshakeResponse, bd') \<in> seen" "keys_from C cl bd'"
      and ch: "cl_cookieHandled cl" using inv by (auto simp: client_inv_def)
    note kk = OnMessage_keeps_keys [OF True cl'] and ke = OnMessage_keeps_ephemeral [OF ch cl']
    have "keys_from C cl' bd'" by (rule keys_from_cong [OF bd'(2)]) (simp_all add: pin kk ke)
    with bd'(1) ke show ?thesis by blast
  next
    case False
    note new = OnMessage_new_keys [OF False cl' h]
    moreover have "cl_ephemeral cl' \<noteq> EcdhKeyPair_empty"
      using new no_keypair by (auto simp: keys_from_def)
    ultimately show ?thesis using eph by auto
  qed
  from eph keys show ?thesis by (simp add: client_inv_def)
qed

lemma client_inv_run:
  "client_inv cl seen \<Longrightarrow> client_inv (fst (client_run C ms cl st)) (set ms \<union> seen)"
proof (induction ms arbitrary: cl st seen)
  case Nil
  then show ?case by simp
next
  case (Cons m ms)
  obtain ty bd where m: "m = (ty, bd)" by (cases m)
  show ?case
    using Cons.IH [OF client_inv_step [OF Cons.prems refl, of ty bd st]]
    by (simp add: m case_prod_beta)
qed

lemma client_pin_run:
  "cl_pinnedStaticPub (fst (client_run C ms cl st)) = cl_pinnedStaticPub cl"
  by (induction ms arbitrary: cl st) (auto simp: case_prod_beta OnMessage_keeps_pin)

lemma run_new_keys:
  assumes "cl = fst (client_run C ms (HandshakeClient_new pinned time) st)" "cl_haveKeys cl"
  shows "cl_pinnedStaticPub cl = pinned \<and>
    (\<exists>bd. (Msg_HandshakeResponse, bd) \<in> set ms \<and> keys_from C cl bd)"
proof -
  have "client_inv (HandshakeClient_new pinned time) {}"
    by (simp add: client_inv_def HandshakeClient_new_def)
  from client_inv_run [OF this, of ms st] assms client_pin_run [of ms "HandshakeClient_new pinned time" st]
  show ?thesis by (auto simp: client_inv_def HandshakeClient_new_def)
qed

end

text \<open>C1: No keys without the server.  Whatever messages reach a client, in whatever order, it
  holds session keys only if one of them was a handshake response whose ephemeral key carries a
  valid signature under the pinned server key, and the keys, token and epoch it uses are those of
  that response and of its own ephemeral key pair: a man in the middle who cannot sign is refused.\<close>

theorem client_keys_authenticated:
  assumes "crypto_suite C static_pair"
    and "cl = fst (client_run C ms (HandshakeClient_new pinned time) st)" "cl_haveKeys cl"
  shows "\<exists>bd resp secret. (Msg_HandshakeResponse, bd) \<in> set ms \<and>
    HandshakeResponse_Decode bd = Decoded resp \<and>
    Verify C pinned (serverEphemeralPub resp) (signature resp) \<and>
    DeriveSharedSecret C (cl_ephemeral cl) (serverEphemeralPub resp) = Some secret \<and>
    DeriveAeadKeys C secret (hr_epoch resp) = Some (cl_keyC2S cl, cl_keyS2C cl) \<and>
    cl_token cl = hr_connectionToken resp \<and> cl_epoch cl = hr_epoch resp"
  using crypto_suite.run_new_keys [OF assms] unfolding keys_from_def by blast

text \<open>A server static key, a server key pair and its signature, for the instances.\<close>

definition demo_priv :: bytes where "demo_priv = fst MakeFakeStaticKey"
definition demo_pub :: EcPubKey where "demo_pub = snd MakeFakeStaticKey"
definition demo_server_key :: EcdhKeyPair where
  "demo_server_key = fst (Fake_GenerateEcdhKeyPair FakeState_init)"
definition demo_response :: bytes where
  "demo_response = HandshakeResponse_Encode \<lparr>serverEphemeralPub = publicKey demo_server_key,
     signature = the (fst (Fake_Sign demo_priv (publicKey demo_server_key)
       (snd (Fake_GenerateEcdhKeyPair FakeState_init)))),
     hr_connectionToken = 7, hr_epoch = 0\<rparr> []"

lemma demo_pair: "fake_static_pair demo_priv demo_pub"
  by (simp add: fake_static_pair_def demo_priv_def demo_pub_def MakeFakeStaticKey_def Let_def)

lemma run_keeps_keys:
  assumes "cl_haveKeys cl" "cl' = fst (client_run C ms cl st)"
  shows "cl_haveKeys cl' \<and> cl_keyC2S cl' = cl_keyC2S cl \<and> cl_keyS2C cl' = cl_keyS2C cl \<and>
    cl_token cl' = cl_token cl \<and> cl_epoch cl' = cl_epoch cl"
  using assms
proof (induction ms arbitrary: cl st)
  case Nil
  then show ?case by simp
next
  case (Cons m ms)
  obtain ty bd where m: "m = (ty, bd)" by (cases m)
  note step = OnMessage_keeps_keys [OF Cons.prems(1) refl, of C ty bd st]
  from Cons.prems(2) have "cl' = fst (client_run C ms (fst (snd (Client_OnMessage C cl ty bd st)))
      (snd (snd (Client_OnMessage C cl ty bd st))))"
    by (simp add: m case_prod_beta)
  from Cons.IH [OF _ this] step show ?case by simp
qed

lemma run_keeps_ephemeral:
  assumes "cl_cookieHandled cl" "cl' = fst (client_run C ms cl st)"
  shows "cl_cookieHandled cl' \<and> cl_ephemeral cl' = cl_ephemeral cl"
  using assms
proof (induction ms arbitrary: cl st)
  case Nil
  then show ?case by simp
next
  case (Cons m ms)
  obtain ty bd where m: "m = (ty, bd)" by (cases m)
  note step = OnMessage_keeps_ephemeral [OF Cons.prems(1) refl, of C ty bd st]
  from Cons.prems(2) have "cl' = fst (client_run C ms (fst (snd (Client_OnMessage C cl ty bd st)))
      (snd (snd (Client_OnMessage C cl ty bd st))))"
    by (simp add: m case_prod_beta)
  from Cons.IH [OF _ this] step show ?case by simp
qed

text \<open>Duplicated or reordered handshake messages are harmless.  Once a client has keys, no
  further message changes its keys, token or epoch; once it has answered a cookie, no further
  message changes its ephemeral key pair.\<close>

theorem client_keys_stable:
  assumes "cl_haveKeys cl" "cl_cookieHandled cl" "cl' = fst (client_run C ms cl st)"
  shows "cl_keyC2S cl' = cl_keyC2S cl \<and> cl_keyS2C cl' = cl_keyS2C cl \<and>
    cl_token cl' = cl_token cl \<and> cl_epoch cl' = cl_epoch cl \<and> cl_ephemeral cl' = cl_ephemeral cl"
  using run_keeps_keys [OF assms(1,3)] run_keeps_ephemeral [OF assms(2,3)] by simp

section \<open>The honest exchange\<close>

text \<open>Both sides' handlers composed in the order of the connection sequence: hello, cookie,
  cookie response, handshake response, clock sync.\<close>

definition honest_handshake ::
    "'s ICrypto \<Rightarrow> HandshakeClient \<Rightarrow> HandshakeServerConnection \<Rightarrow> bytes \<Rightarrow> bytes \<Rightarrow> 's \<Rightarrow> 's \<Rightarrow>
      bool \<times> HandshakeClient \<times> HandshakeServerConnection \<times> HsOutput" where
  "honest_handshake C cl sv serverSecret addr cst sst =
     (let m1 = Client_Begin;
          m2 = OnClientHello C serverSecret (ho_body m1) addr;
          (m3, cl, cst) = Client_OnMessage C cl (ho_type m2) (ho_body m2) cst;
          cookie_ok = (case CookieResponse_Decode (ho_body m3) of
             Decoded cr \<Rightarrow> Stateless_VerifyCookie C serverSecret (cr_cookie cr) addr | _ \<Rightarrow> False);
          (m4, sv, sst) = OnCookieResponse C sv (ho_body m3) sst;
          (m5, cl, cst) = Client_OnMessage C cl (ho_type m4) (ho_body m4) cst;
          (m6, sv) = OnClockSyncRequest sv (ho_body m5);
          (m7, cl, cst) = Client_OnMessage C cl (ho_type m6) (ho_body m6) cst
      in (cookie_ok, cl, sv, m7))"

context crypto_suite
begin

lemma hello_answer:
  "OnClientHello C serverSecret (ho_body Client_Begin) addr =
     HsOutput_Message Msg_Cookie (MakeCookie C serverSecret addr)"
proof -
  have "ClientHello_Decode (ClientHello_Encode \<lparr>hello_protocolId = PROTOCOL_ID\<rparr> []) =
      Decoded \<lparr>hello_protocolId = PROTOCOL_ID\<rparr>"
    using hello.dec_enc by simp
  then show ?thesis
    unfolding OnClientHello_def Client_Begin_def HsOutput_simps
    by (simp add: IsProtocolCompatible_def Cookie_Encode_def)
qed

lemma cookie_answer:
  assumes "\<not> cl_cookieHandled cl" "length c = COOKIE_BYTES" "GenerateEcdhKeyPair C st = (kp, st')"
  shows "Client_OnMessage C cl Msg_Cookie c st =
    (HsOutput_Message Msg_CookieResponse
       (CookieResponse_Encode \<lparr>cr_cookie = c, clientEphemeralPub = publicKey kp\<rparr> []),
     cl\<lparr>cl_cookieHandled := True, cl_ephemeral := kp\<rparr>, st')"
proof -
  have "Cookie_Decode c = Decoded \<lparr>cookie = c\<rparr>"
    using cookie_body.dec_enc [of "\<lparr>cookie = c\<rparr>"] assms(2) by (simp add: CookieBody_wf_def Cookie_Encode_def)
  then show ?thesis
    using assms by (simp add: Client_OnMessage_def OnCookie_def MsgType_defs CookieResponse_message_def Let_def)
qed

lemma cookie_response_answer:
  assumes "length c = COOKIE_BYTES" "length pub = EC_PUB_KEY_BYTES"
    and "GenerateEcdhKeyPair C st = (kp, st')" "DeriveSharedSecret C kp pub = Some secret"
    and "Sign C (sv_staticPriv sv) (publicKey kp) st' = (Some sig, st'')"
    and "DeriveAeadKeys C secret (sv_epoch sv) = Some (c2s, s2c)"
  shows "OnCookieResponse C sv (CookieResponse_Encode \<lparr>cr_cookie = c, clientEphemeralPub = pub\<rparr> []) st =
    (HsOutput_Message Msg_HandshakeResponse
       (HandshakeResponse_Encode \<lparr>serverEphemeralPub = publicKey kp, signature = sig,
          hr_connectionToken = sv_token sv, hr_epoch = sv_epoch sv\<rparr> []),
     sv\<lparr>sv_ephemeral := kp, sv_keyC2S := c2s, sv_keyS2C := s2c, sv_haveKeys := True\<rparr>, st'')"
proof -
  have "CookieResponse_Decode (CookieResponse_Encode \<lparr>cr_cookie = c, clientEphemeralPub = pub\<rparr> []) =
      Decoded \<lparr>cr_cookie = c, clientEphemeralPub = pub\<rparr>"
    using cookie_response.dec_enc assms(1,2) by (simp add: CookieResponse_wf_def)
  then show ?thesis
    unfolding OnCookieResponse_def using assms(3-) by (simp add: Let_def)
qed

lemma handshake_response_answer:
  assumes "\<not> cl_haveKeys cl" "length pub = EC_PUB_KEY_BYTES" "length sig = EC_SIG_BYTES"
    and "Verify C (cl_pinnedStaticPub cl) pub sig"
    and "DeriveSharedSecret C (cl_ephemeral cl) pub = Some secret"
    and "DeriveAeadKeys C secret epoch = Some (c2s, s2c)"
  shows "Client_OnMessage C cl Msg_HandshakeResponse (HandshakeResponse_Encode
      \<lparr>serverEphemeralPub = pub, signature = sig, hr_connectionToken = tok, hr_epoch = epoch\<rparr> []) st =
    (ClockSyncRequest_message cl,
     cl\<lparr>cl_token := tok, cl_epoch := epoch, cl_keyC2S := c2s, cl_keyS2C := s2c, cl_haveKeys := True\<rparr>, st)"
proof -
  have "HandshakeResponse_Decode (HandshakeResponse_Encode \<lparr>serverEphemeralPub = pub, signature = sig,
        hr_connectionToken = tok, hr_epoch = epoch\<rparr> []) =
      Decoded \<lparr>serverEphemeralPub = pub, signature = sig, hr_connectionToken = tok, hr_epoch = epoch\<rparr>"
    using handshake_response.dec_enc assms(2,3) by (simp add: HandshakeResponse_wf_def)
  then show ?thesis
    unfolding Client_OnMessage_def OnHandshakeResponse_def using assms
    by (simp add: MsgType_defs Let_def ClockSyncRequest_message_def)
qed

lemma clock_sync_answer:
  assumes "clientTimeMicros cs = t"
  shows "OnClockSyncRequest sv (ClockSync_Encode cs []) =
    (HsOutput_Message Msg_ClockSyncResponse (ClockSync_Encode
       \<lparr>clientTimeMicros = t, serverTimeMicros = sv_serverTime sv,
        dilationFactor = sv_dilationFactor sv\<rparr> []), sv\<lparr>sv_complete := True\<rparr>)"
  unfolding OnClockSyncRequest_def using clock_sync.dec_enc [of cs] assms
  by (cases cs) (simp add: ClockSync_image_def)

lemma clock_sync_done:
  "Client_OnMessage C cl Msg_ClockSyncResponse (ClockSync_Encode cs []) st =
    (HsOutput_None,
     cl\<lparr>cl_rttMicros := 1, cl_clockOffsetMicros := serverTimeMicros cs - clientTimeMicros cs,
        cl_dilationFactor := dilation_from_ppm (dilation_to_ppm (dilationFactor cs)),
        cl_complete := True\<rparr>, st)"
  unfolding Client_OnMessage_def OnClockSyncResponse_def using clock_sync.dec_enc [of cs]
  by (simp add: ClockSync_image_def MsgType_defs Let_def)

lemma honest_run:
  assumes pair: "static_pair (sv_staticPriv sv) (cl_pinnedStaticPub cl)"
    and fresh: "\<not> cl_cookieHandled cl" "\<not> cl_haveKeys cl"
    and run: "honest_handshake C cl sv serverSecret addr cst sst = (cookie_ok, cl', sv', out)"
  shows "cookie_ok \<and> \<not> ho_failed out \<and> cl_haveKeys cl' \<and> cl_complete cl' \<and> sv_haveKeys sv' \<and>
    sv_complete sv' \<and> cl_keyC2S cl' = sv_keyC2S sv' \<and> cl_keyS2C cl' = sv_keyS2C sv' \<and>
    cl_token cl' = sv_token sv \<and> cl_epoch cl' = sv_epoch sv \<and>
    cl_dilationFactor cl' = dilation_from_ppm (dilation_to_ppm (sv_dilationFactor sv)) \<and>
    cl_rttMicros cl' = 1"
proof -
  obtain ck cst1 where ck: "GenerateEcdhKeyPair C cst = (ck, cst1)" by fastforce
  obtain sk sst1 where sk: "GenerateEcdhKeyPair C sst = (sk, sst1)" by fastforce
  have size: "length (publicKey ck) = EC_PUB_KEY_BYTES" "length (publicKey sk) = EC_PUB_KEY_BYTES"
    using keypair_size [of cst] keypair_size [of sst] ck sk by simp_all
  obtain secret where sec: "DeriveSharedSecret C ck (publicKey sk) = Some secret"
      "DeriveSharedSecret C sk (publicKey ck) = Some secret"
    using agreement [of ck cst sk sst] ck sk by auto
  obtain sig sst2 where sig: "Sign C (sv_staticPriv sv) (publicKey sk) sst1 = (Some sig, sst2)"
      "length sig = EC_SIG_BYTES" "Verify C (cl_pinnedStaticPub cl) (publicKey sk) sig"
    using sign_verify [OF pair] by blast
  obtain c2s s2c where keys: "DeriveAeadKeys C secret (sv_epoch sv) = Some (c2s, s2c)"
    using keys_derive by blast
  define c where "c = MakeCookie C serverSecret addr"
  have c: "length c = COOKIE_BYTES" "VerifyCookie C serverSecret addr c"
    by (simp_all add: c_def cookie_size cookie_exact)
  have cr: "CookieResponse_Decode (CookieResponse_Encode \<lparr>cr_cookie = c, clientEphemeralPub = publicKey ck\<rparr> []) =
      Decoded \<lparr>cr_cookie = c, clientEphemeralPub = publicKey ck\<rparr>"
    using cookie_response.dec_enc c(1) size(1) by (simp add: CookieResponse_wf_def)
  define cl1 where "cl1 = cl\<lparr>cl_cookieHandled := True, cl_ephemeral := ck\<rparr>"
  have cl1: "\<not> cl_haveKeys cl1" "Verify C (cl_pinnedStaticPub cl1) (publicKey sk) sig"
      "DeriveSharedSecret C (cl_ephemeral cl1) (publicKey sk) = Some secret"
    using fresh sig(3) sec(1) by (simp_all add: cl1_def)
  note steps = hello_answer [of serverSecret addr, folded c_def] cookie_answer [OF fresh(1) c(1) ck, folded cl1_def]
    cookie_response_answer [OF c(1) size(1) sk sec(2) sig(1) keys]
    handshake_response_answer [OF cl1(1) size(2) sig(2) cl1(2,3) keys]
  show ?thesis
    using run
    by (simp add: honest_handshake_def Let_def steps cr c(2) Stateless_VerifyCookie_def
        ClockSyncRequest_message_def clock_sync_answer clock_sync_done) auto
qed

lemma two_messages_give_keys:
  assumes pair: "static_pair priv (cl_pinnedStaticPub cl)"
    and fresh: "\<not> cl_cookieHandled cl" "\<not> cl_haveKeys cl" and c: "length c = COOKIE_BYTES"
    and sk: "GenerateEcdhKeyPair C sst = (sk, sst1)" and sig: "Sign C priv (publicKey sk) sst1 = (Some sig, sst2)"
  shows "cl_haveKeys (fst (client_run C [(Msg_Cookie, c), (Msg_HandshakeResponse, HandshakeResponse_Encode
      \<lparr>serverEphemeralPub = publicKey sk, signature = sig, hr_connectionToken = tok, hr_epoch = ep\<rparr> [])] cl cst))"
proof -
  obtain ck cst1 where ck: "GenerateEcdhKeyPair C cst = (ck, cst1)" by fastforce
  obtain secret where sec: "DeriveSharedSecret C ck (publicKey sk) = Some secret"
    using agreement [of ck cst sk sst] ck sk by auto
  obtain c2s s2c where keys: "DeriveAeadKeys C secret ep = Some (c2s, s2c)" using keys_derive by blast
  have size: "length (publicKey sk) = EC_PUB_KEY_BYTES" using keypair_size [of sst] sk by simp
  have v: "length sig = EC_SIG_BYTES" "Verify C (cl_pinnedStaticPub cl) (publicKey sk) sig"
    using sign_verify [OF pair, of "publicKey sk" sst1] sig by auto
  show ?thesis
    using fresh v sec
    by (simp add: cookie_answer [OF fresh(1) c ck] handshake_response_answer [OF _ size v(1) _ _ keys])
qed

end

text \<open>The honest handshake succeeds and both ends agree.  With any crypto suite that keeps the
  contract, a client that pins the server's key and a fresh server connection, exchanging the
  messages the handlers produce, end with the cookie accepted, both sides complete, the same two
  session keys, the server's token and epoch at the client, and the server's dilation factor up to
  the millionths the wire carries.  The round-trip estimate is the constant 1 whatever the delay:
  nothing overwrites the placeholder clock reading.\<close>

theorem handshake_agreement:
  assumes "crypto_suite C static_pair" "static_pair (sv_staticPriv sv) (cl_pinnedStaticPub cl)"
    and "\<not> cl_cookieHandled cl" "\<not> cl_haveKeys cl"
    and "honest_handshake C cl sv serverSecret addr cst sst = (cookie_ok, cl', sv', out)"
  shows "cookie_ok \<and> \<not> ho_failed out \<and> cl_haveKeys cl' \<and> cl_complete cl' \<and> sv_haveKeys sv' \<and>
    sv_complete sv' \<and> cl_keyC2S cl' = sv_keyC2S sv' \<and> cl_keyS2C cl' = sv_keyS2C sv' \<and>
    cl_token cl' = sv_token sv \<and> cl_epoch cl' = sv_epoch sv \<and>
    cl_dilationFactor cl' = dilation_from_ppm (dilation_to_ppm (sv_dilationFactor sv)) \<and>
    cl_rttMicros cl' = 1"
  by (rule crypto_suite.honest_run [OF assms])

text \<open>The stateless phase.  The server answers a hello with a cookie only if the hello carries
  the current protocol id, the cookie it sends is accepted back from that address and no other
  cookie is, and a hello it cannot read gets no answer.\<close>

theorem stateless_cookie_phase:
  assumes "crypto_suite C static_pair" "out = OnClientHello C serverSecret bd addr"
  shows "(ho_send out \<and> ho_type out = Msg_Cookie \<longleftrightarrow>
      ClientHello_Decode bd = Decoded \<lparr>hello_protocolId = PROTOCOL_ID\<rparr>) \<and>
    (ho_send out \<and> ho_type out = Msg_Cookie \<longrightarrow>
      (\<forall>c. Stateless_VerifyCookie C serverSecret c addr \<longleftrightarrow> c = ho_body out)) \<and>
    (ho_send out \<longleftrightarrow> 4 \<le> length bd)"
proof -
  have dec: "ClientHello_Decode bd =
      (if length bd < 4 then Rejected else Decoded \<lparr>hello_protocolId = le_get 4 bd\<rparr>)"
    by (simp add: ClientHello_Decode_def Get_le)
  show ?thesis
    using crypto_suite.cookie_exact [OF assms(1)] unfolding assms(2)
    by (auto simp: OnClientHello_def dec IsProtocolCompatible_def MsgType_defs Cookie_Encode_def
        Stateless_VerifyCookie_def)
qed

section \<open>Instances on the portable suite\<close>

lemma demo_run_keys:
  "cl_haveKeys (fst (client_run FakeCrypto
     [(Msg_Cookie, replicate 32 0), (Msg_HandshakeResponse, demo_response)]
     (HandshakeClient_new demo_pub 5) FakeState_init))"
proof -
  define g where "g = Fake_GenerateEcdhKeyPair FakeState_init"
  have sk: "GenerateEcdhKeyPair FakeCrypto FakeState_init = (demo_server_key, snd g)"
    by (simp add: FakeCrypto_def demo_server_key_def g_def)
  have sig: "Sign FakeCrypto demo_priv (publicKey demo_server_key) (snd g) =
      (Some (the (fst (Fake_Sign demo_priv (publicKey demo_server_key) (snd g)))), snd g)"
    by (simp add: FakeCrypto_def Fake_Sign_def Let_def)
  show ?thesis
    unfolding demo_response_def g_def [symmetric]
    by (rule fake.two_messages_give_keys [OF _ _ _ _ sk sig])
      (simp_all add: HandshakeClient_new_def demo_pair COOKIE_BYTES_def)
qed

lemma client_keys_authenticated_witness:
  "\<exists>bd resp secret cl.
     cl = fst (client_run FakeCrypto [(Msg_Cookie, replicate 32 0), (Msg_HandshakeResponse, demo_response)]
       (HandshakeClient_new demo_pub 5) FakeState_init) \<and>
     (Msg_HandshakeResponse, bd) \<in> set [(Msg_Cookie, replicate 32 0), (Msg_HandshakeResponse, demo_response)] \<and>
     HandshakeResponse_Decode bd = Decoded resp \<and>
     Verify FakeCrypto demo_pub (serverEphemeralPub resp) (signature resp) \<and>
     DeriveSharedSecret FakeCrypto (cl_ephemeral cl) (serverEphemeralPub resp) = Some secret"
  using client_keys_authenticated [OF fake.crypto_suite_axioms refl demo_run_keys] by blast

lemma client_keys_stable_witness:
  "cl_keyC2S (fst (client_run FakeCrypto [(Msg_Cookie, replicate 32 1), (Msg_HandshakeResponse, demo_response)]
     (HandshakeClient_new demo_pub 5\<lparr>cl_haveKeys := True, cl_cookieHandled := True\<rparr>) FakeState_init)) =
   AeadKey_zero"
  using client_keys_stable [of "HandshakeClient_new demo_pub 5\<lparr>cl_haveKeys := True, cl_cookieHandled := True\<rparr>",
      OF _ _ refl, of FakeCrypto "[(Msg_Cookie, replicate 32 1), (Msg_HandshakeResponse, demo_response)]"
      FakeState_init]
  by (simp add: HandshakeClient_new_def)

lemma handshake_agreement_witness:
  "\<exists>cl' sv' out. honest_handshake FakeCrypto (HandshakeClient_new demo_pub 5)
      (HandshakeServerConnection_new demo_priv 77 1000) [1, 2, 3] [10, 0, 0, 1] FakeState_init FakeState_init =
      (True, cl', sv', out) \<and>
    cl_haveKeys cl' \<and> cl_keyC2S cl' = sv_keyC2S sv' \<and> cl_keyS2C cl' = sv_keyS2C sv' \<and> cl_token cl' = 77"
proof -
  obtain ok cl' sv' out where r: "honest_handshake FakeCrypto (HandshakeClient_new demo_pub 5)
      (HandshakeServerConnection_new demo_priv 77 1000) [1, 2, 3] [10, 0, 0, 1] FakeState_init FakeState_init =
      (ok, cl', sv', out)"
    by (metis prod_cases4)
  show ?thesis
    using handshake_agreement [OF fake.crypto_suite_axioms _ _ _ r] demo_pair r
    by (simp add: HandshakeClient_new_def HandshakeServerConnection_new_def)
qed

lemma stateless_cookie_phase_witness:
  "ho_send (OnClientHello FakeCrypto [1, 2, 3] [1, 0, 0x52, 0x45] [10, 0, 0, 1])"
  using stateless_cookie_phase [OF fake.crypto_suite_axioms refl, of "[1, 2, 3]" "[1, 0, 0x52, 0x45]" "[10, 0, 0, 1]"]
  by simp

end
