(* ===== verification/Secure_Channel.thy ===== *)
theory Secure_Channel
  imports Handshake_FSM Replay_Window
begin

text \<open>
  \<open>NeuronCore/SecureChannel.h\<close>: sealing payloads into datagrams and opening them.  The
  send counter is the packet number and the nonce of each sealed datagram; the receive side runs
  the replay window before it decrypts.  \<open>seal_run\<close> and \<open>open_run\<close> are the two
  ends of a session; the properties use the contracts of the crypto suite and of the replay
  window only.
\<close>

section \<open>The channel\<close>

record SecureChannel =
  sc_sendDir :: Direction
  sc_recvDir :: Direction
  sc_token :: u64
  sc_sendKey :: AeadKey
  sc_recvKey :: AeadKey
  sc_epoch :: u32
  sc_hasKeys :: bool
  sc_sendCounter :: u64
  sc_replay :: ReplayWindow

definition SecureChannel_new :: "Direction \<Rightarrow> u64 \<Rightarrow> SecureChannel" where
  "SecureChannel_new sendDir token =
     \<lparr>sc_sendDir = sendDir,
      sc_recvDir = (if sendDir = ClientToServer then ServerToClient else ClientToServer),
      sc_token = token, sc_sendKey = AeadKey_zero, sc_recvKey = AeadKey_zero, sc_epoch = 0,
      sc_hasKeys = False, sc_sendCounter = 0, sc_replay = ReplayWindow_init\<rparr>"

definition SetKeys :: "AeadKey \<Rightarrow> AeadKey \<Rightarrow> u32 \<Rightarrow> SecureChannel \<Rightarrow> SecureChannel" where
  "SetKeys sendKey recvKey epoch ch =
     ch\<lparr>sc_sendKey := sendKey, sc_recvKey := recvKey, sc_epoch := epoch, sc_hasKeys := True\<rparr>"

definition NeedsRekey :: "SecureChannel \<Rightarrow> bool" where
  "NeedsRekey ch \<longleftrightarrow> sc_sendCounter ch \<ge> REKEY_PACKET_THRESHOLD"

definition Seal :: "'s ICrypto \<Rightarrow> SecureChannel \<Rightarrow> bytes \<Rightarrow> bytes option \<times> SecureChannel" where
  "Seal C ch payload =
     (if \<not> sc_hasKeys ch then (None, ch)
      else
        (let hdr = \<lparr>ph_protocolId = PROTOCOL_ID, ph_connectionToken = sc_token ch,
                    ph_packetNumber = sc_sendCounter ch\<rparr>;
             aad = WritePacketHeader [] hdr
         in case Encrypt C (sc_sendKey ch) (sc_sendDir ch) (sc_sendCounter ch) aad payload of
              None \<Rightarrow> (None, ch)
            | Some ct \<Rightarrow> (Some (aad @ ct), ch\<lparr>sc_sendCounter := sc_sendCounter ch + 1\<rparr>)))"

text \<open>\<open>Open_Ok\<close> carries the payload the code returns through its out parameter.\<close>

datatype OpenResult = Open_Ok bytes | Open_BadHeader | Open_WrongToken | Open_Replay
  | Open_AuthFailure | Open_NoKeys

definition Open :: "'s ICrypto \<Rightarrow> SecureChannel \<Rightarrow> bytes \<Rightarrow> OpenResult \<times> SecureChannel" where
  "Open C ch datagram =
     (if \<not> sc_hasKeys ch then (Open_NoKeys, ch)
      else
        (case ReadPacketHeader datagram of
           Decoded (hdr, off) \<Rightarrow>
             (if ph_connectionToken hdr \<noteq> sc_token ch then (Open_WrongToken, ch)
              else
                (let (fresh, w) = CheckAndUpdate (sc_replay ch) (ph_packetNumber hdr);
                     ch = ch\<lparr>sc_replay := w\<rparr>
                 in if \<not> fresh then (Open_Replay, ch)
                    else
                      (case Decrypt C (sc_recvKey ch) (sc_recvDir ch) (ph_packetNumber hdr)
                              (take HEADER_SIZE datagram) (drop HEADER_SIZE datagram) of
                         None \<Rightarrow> (Open_AuthFailure, ch)
                       | Some payload \<Rightarrow> (Open_Ok payload, ch))))
         | _ \<Rightarrow> (Open_BadHeader, ch)))"

section \<open>Sessions\<close>

text \<open>The payloads a sender manages to seal, each with its datagram, in order; the verdicts of a
  receiver on a sequence of datagrams; the packet numbers it accepts.\<close>

fun seal_run :: "'s ICrypto \<Rightarrow> SecureChannel \<Rightarrow> bytes list \<Rightarrow> (bytes \<times> bytes) list" where
  "seal_run C ch [] = []"
| "seal_run C ch (p # ps) =
     (case Seal C ch p of
        (None, ch) \<Rightarrow> seal_run C ch ps
      | (Some d, ch) \<Rightarrow> (p, d) # seal_run C ch ps)"

fun open_run :: "'s ICrypto \<Rightarrow> SecureChannel \<Rightarrow> bytes list \<Rightarrow> OpenResult list \<times> SecureChannel" where
  "open_run C ch [] = ([], ch)"
| "open_run C ch (d # ds) =
     (let (r, ch) = Open C ch d; (rs, ch) = open_run C ch ds in (r # rs, ch))"

definition datagram_number :: "bytes \<Rightarrow> u64" where
  "datagram_number d = le_get 8 (drop 12 d)"

fun accepted_numbers :: "'s ICrypto \<Rightarrow> SecureChannel \<Rightarrow> bytes list \<Rightarrow> u64 list" where
  "accepted_numbers C ch [] = []"
| "accepted_numbers C ch (d # ds) =
     (case Open C ch d of
        (Open_Ok p, ch) \<Rightarrow> datagram_number d # accepted_numbers C ch ds
      | (_, ch) \<Rightarrow> accepted_numbers C ch ds)"

lemma datagram_number_header [simp]:
  "datagram_number (WritePacketHeader [] h @ ct) = ph_packetNumber h"
proof -
  let ?d = "WritePacketHeader [] h @ ct"
  have "\<lparr>ph_protocolId = le_get 4 ?d, ph_connectionToken = le_get 8 (drop 4 ?d),
      ph_packetNumber = le_get 8 (drop 12 ?d)\<rparr> = h"
    using ReadPacketHeader_written [of h ct] unfolding ReadPacketHeader_cases by (simp del: drop_append)
  then show ?thesis unfolding datagram_number_def by (metis PacketHeader.select_convs(3))
qed

lemma Open_cases:
  assumes "sc_hasKeys ch" "ReadPacketHeader d = Decoded (h, off)" "ph_connectionToken h = sc_token ch"
    "CheckAndUpdate (sc_replay ch) (ph_packetNumber h) = (ok, w)"
  shows "Open C ch d =
    (if \<not> ok then (Open_Replay, ch\<lparr>sc_replay := w\<rparr>)
     else case Decrypt C (sc_recvKey ch) (sc_recvDir ch) (ph_packetNumber h) (take HEADER_SIZE d)
                 (drop HEADER_SIZE d) of
            None \<Rightarrow> (Open_AuthFailure, ch\<lparr>sc_replay := w\<rparr>)
          | Some p \<Rightarrow> (Open_Ok p, ch\<lparr>sc_replay := w\<rparr>))"
  using assms by (simp add: Open_def Let_def)

lemma Open_OkD:
  assumes "Open C ch d = (Open_Ok p, ch')"
  obtains h w where "sc_hasKeys ch" "ReadPacketHeader d = Decoded (h, HEADER_SIZE)"
    "ph_connectionToken h = sc_token ch" "CheckAndUpdate (sc_replay ch) (ph_packetNumber h) = (True, w)"
    "Decrypt C (sc_recvKey ch) (sc_recvDir ch) (ph_packetNumber h) (take HEADER_SIZE d)
       (drop HEADER_SIZE d) = Some p"
    "ch' = ch\<lparr>sc_replay := w\<rparr>" "datagram_number d = ph_packetNumber h"
proof -
  have len: "\<not> length d < HEADER_SIZE" and keys: "sc_hasKeys ch"
    using assms by (auto simp: Open_def ReadPacketHeader_cases split: if_splits)
  define h where "h = \<lparr>ph_protocolId = le_get 4 d, ph_connectionToken = le_get 8 (drop 4 d),
      ph_packetNumber = le_get 8 (drop 12 d)\<rparr>"
  have h: "ReadPacketHeader d = Decoded (h, HEADER_SIZE)" "datagram_number d = ph_packetNumber h"
    using len by (simp_all add: ReadPacketHeader_cases datagram_number_def h_def)
  have tok: "ph_connectionToken h = sc_token ch"
    using assms keys h by (auto simp: Open_def split: if_splits)
  obtain ok w where c: "CheckAndUpdate (sc_replay ch) (ph_packetNumber h) = (ok, w)" by fastforce
  from assms [unfolded Open_cases [OF keys h(1) tok c]]
  have ok: "ok" and dec: "Decrypt C (sc_recvKey ch) (sc_recvDir ch) (ph_packetNumber h) (take HEADER_SIZE d)
      (drop HEADER_SIZE d) = Some p" and ch': "ch' = ch\<lparr>sc_replay := w\<rparr>"
    by (auto split: if_splits option.splits)
  from c ok have "CheckAndUpdate (sc_replay ch) (ph_packetNumber h) = (True, w)" by simp
  from that [OF keys h(1) tok this dec ch' h(2)] show ?thesis .
qed

text \<open>Every other outcome leaves a window that holds at least the numbers seen before.\<close>

lemma Open_window:
  assumes "replay_inv (sc_replay ch) S" "Open C ch d = (r, ch')"
  shows "\<exists>S'. S \<subseteq> S' \<and> replay_inv (sc_replay ch') S' \<and>
    (\<forall>p. r = Open_Ok p \<longrightarrow> unat (datagram_number d) \<notin> S \<and> unat (datagram_number d) \<in> S')"
proof (cases "sc_hasKeys ch \<and> \<not> length d < HEADER_SIZE \<and> le_get 8 (drop 4 d) = sc_token ch")
  case False
  then have "ch' = ch \<and> (\<forall>p. r \<noteq> Open_Ok p)"
    using assms(2) by (auto simp: Open_def ReadPacketHeader_cases split: if_splits)
  with assms(1) show ?thesis by blast
next
  case True
  define n where "n = datagram_number d"
  obtain h where h: "ReadPacketHeader d = Decoded (h, HEADER_SIZE)" "ph_packetNumber h = n"
      "ph_connectionToken h = sc_token ch"
    using True by (simp add: ReadPacketHeader_cases datagram_number_def n_def)
  obtain ok w where c: "CheckAndUpdate (sc_replay ch) n = (ok, w)" by fastforce
  from assms(2) [unfolded Open_cases [OF _ h(1,3) c [folded h(2)], of C]] True
  have ch': "sc_replay ch' = w" and r: "\<And>p. r = Open_Ok p \<Longrightarrow> ok"
    by (auto simp: Open_cases [OF _ h(1,3) c [folded h(2)]] split: if_splits option.splits)
  show ?thesis
  proof (cases ok)
    case True
    then have "replay_inv w (insert (unat n) S)" "unat n \<notin> S"
      using rw.accept_inv [OF assms(1), of n] rw.verdict [OF assms(1), of n] c by (auto simp: fresh_in_def)
    then show ?thesis using ch' unfolding n_def [symmetric] by blast
  next
    case False
    then have "w = sc_replay ch" using rw.reject_same [OF assms(1), of n] c by simp
    with assms(1) ch' r False show ?thesis by auto
  qed
qed

lemma accepted_numbers_fresh:
  assumes "replay_inv (sc_replay ch) S"
  shows "distinct (accepted_numbers C ch ds) \<and> unat ` set (accepted_numbers C ch ds) \<inter> S = {}"
  using assms
proof (induction ds arbitrary: ch S)
  case Nil
  show ?case by simp
next
  case (Cons d ds)
  obtain r ch' where o: "Open C ch d = (r, ch')" by fastforce
  from Open_window [OF Cons.prems o] obtain S' where S': "S \<subseteq> S'" "replay_inv (sc_replay ch') S'"
    "\<And>p. r = Open_Ok p \<Longrightarrow> unat (datagram_number d) \<notin> S \<and> unat (datagram_number d) \<in> S'" by blast
  from Cons.IH [OF S'(2)] S' o show ?case by (cases r) auto
qed

section \<open>Sealed datagrams\<close>

lemma Seal_SomeD:
  assumes "Seal C ch p = (Some d, ch')"
  obtains ct where "sc_hasKeys ch" "ch' = ch\<lparr>sc_sendCounter := sc_sendCounter ch + 1\<rparr>"
    "d = WritePacketHeader [] \<lparr>ph_protocolId = PROTOCOL_ID, ph_connectionToken = sc_token ch,
           ph_packetNumber = sc_sendCounter ch\<rparr> @ ct"
    "Encrypt C (sc_sendKey ch) (sc_sendDir ch) (sc_sendCounter ch)
       (WritePacketHeader [] \<lparr>ph_protocolId = PROTOCOL_ID, ph_connectionToken = sc_token ch,
           ph_packetNumber = sc_sendCounter ch\<rparr>) p = Some ct"
  using assms by (auto simp: Seal_def Let_def split: if_splits option.splits)

lemma Seal_NoneD: "Seal C ch p = (None, ch') \<Longrightarrow> ch' = ch"
  by (auto simp: Seal_def Let_def split: if_splits option.splits)

lemma seal_run_numbers:
  assumes "unat (sc_sendCounter ch) + length ps \<le> 2 ^ 64"
  shows "sorted_wrt (<) (map (unat \<circ> datagram_number \<circ> snd) (seal_run C ch ps)) \<and>
    (\<forall>n \<in> set (map (unat \<circ> datagram_number \<circ> snd) (seal_run C ch ps)). unat (sc_sendCounter ch) \<le> n)"
  using assms
proof (induction ps arbitrary: ch)
  case Nil
  show ?case by simp
next
  case (Cons p ps)
  obtain od ch' where s: "Seal C ch p = (od, ch')" by fastforce
  show ?case
  proof (cases od)
    case None
    then have "ch' = ch" using s Seal_NoneD by blast
    with Cons s None show ?thesis by simp
  next
    case (Some d)
    with s obtain ct where d: "ch' = ch\<lparr>sc_sendCounter := sc_sendCounter ch + 1\<rparr>"
        "datagram_number d = sc_sendCounter ch"
      using Seal_SomeD [of C ch p d ch'] by fastforce
    show ?thesis
    proof (cases "ps = []")
      case True
      with s Some d show ?thesis by simp
    next
      case False
      with Cons.prems have "unat (sc_sendCounter ch) + 1 < 2 ^ 64" by (cases ps) simp_all
      then have c: "unat (sc_sendCounter ch + 1) = unat (sc_sendCounter ch) + 1"
        by (simp add: unat_word_ariths)
      have "unat (sc_sendCounter ch') = unat (sc_sendCounter ch) + 1" using c by (simp add: d(1))
      with Cons.IH [of ch'] Cons.prems
      have "sorted_wrt (<) (map (unat \<circ> datagram_number \<circ> snd) (seal_run C ch' ps))"
        "\<forall>x \<in> set (seal_run C ch' ps). unat (sc_sendCounter ch) < unat (datagram_number (snd x))"
        by (auto simp: Suc_le_eq comp_def)
      with s Some d(2) show ?thesis by (auto simp: comp_def intro: less_imp_le)
    qed
  qed
qed

text \<open>Two ends of one connection.\<close>

definition paired :: "SecureChannel \<Rightarrow> SecureChannel \<Rightarrow> bool" where
  "paired a b \<longleftrightarrow> sc_hasKeys b \<and> sc_token a = sc_token b \<and> sc_sendKey a = sc_recvKey b \<and>
     sc_sendDir a = sc_recvDir b"

lemma paired_update [simp]:
  "paired (a\<lparr>sc_sendCounter := n\<rparr>) b = paired a b" "paired a (b\<lparr>sc_replay := w\<rparr>) = paired a b"
  by (simp_all add: paired_def)

context crypto_suite
begin

lemma open_sealed:
  assumes "paired a b" "Seal C a p = (Some d, a')" "CheckAndUpdate (sc_replay b) (sc_sendCounter a) = (ok, w)"
  shows "Open C b d = (if ok then Open_Ok p else Open_Replay, b\<lparr>sc_replay := w\<rparr>)"
proof -
  obtain ct where d: "d = WritePacketHeader [] \<lparr>ph_protocolId = PROTOCOL_ID, ph_connectionToken = sc_token a,
         ph_packetNumber = sc_sendCounter a\<rparr> @ ct"
      "Encrypt C (sc_sendKey a) (sc_sendDir a) (sc_sendCounter a)
         (WritePacketHeader [] \<lparr>ph_protocolId = PROTOCOL_ID, ph_connectionToken = sc_token a,
           ph_packetNumber = sc_sendCounter a\<rparr>) p = Some ct"
    using Seal_SomeD [OF assms(2)] by blast
  have h: "ReadPacketHeader d = Decoded (\<lparr>ph_protocolId = PROTOCOL_ID, ph_connectionToken = sc_token a,
         ph_packetNumber = sc_sendCounter a\<rparr>, HEADER_SIZE)"
    by (simp add: d(1) ReadPacketHeader_written)
  show ?thesis
    using assms(1,3) decrypt_encrypt [OF d(2)]
    by (subst Open_cases [OF _ h]) (auto simp: paired_def d(1))
qed

lemma session_in_order:
  assumes "paired a b" "replay_inv (sc_replay b) S" "\<forall>q\<in>S. q < unat (sc_sendCounter a)"
    and "unat (sc_sendCounter a) + length ps \<le> 2 ^ 64"
  shows "fst (open_run C b (map snd (seal_run C a ps))) = map (Open_Ok \<circ> fst) (seal_run C a ps)"
  using assms
proof (induction ps arbitrary: a b S)
  case Nil
  show ?case by simp
next
  case (Cons p ps)
  obtain od a' where s: "Seal C a p = (od, a')" by fastforce
  show ?case
  proof (cases od)
    case None
    then have "a' = a" using s Seal_NoneD by blast
    with Cons s None show ?thesis by simp
  next
    case (Some d)
    note a' = Seal_SomeD [OF s [unfolded Some]]
    have fresh: "fresh_in WINDOW_BITS S (unat (sc_sendCounter a))"
      using Cons.prems(3) by (force simp: fresh_in_def)
    obtain ok w where c: "CheckAndUpdate (sc_replay b) (sc_sendCounter a) = (ok, w)" by fastforce
    with fresh have ok: ok and w: "replay_inv w (insert (unat (sc_sendCounter a)) S)"
      using rw.verdict [OF Cons.prems(2), of "sc_sendCounter a"]
        rw.accept_inv [OF Cons.prems(2), of "sc_sendCounter a"] by simp_all
    note op = open_sealed [OF Cons.prems(1) s [unfolded Some] c]
    show ?thesis
    proof (cases "ps = []")
      case True
      with s Some op ok show ?thesis by simp
    next
      case False
      with Cons.prems(4) have "unat (sc_sendCounter a) + 1 < 2 ^ 64" by (cases ps) simp_all
      then have n: "unat (sc_sendCounter a + 1) = unat (sc_sendCounter a) + 1"
        by (simp add: unat_word_ariths)
      have eq: "a' = a\<lparr>sc_sendCounter := sc_sendCounter a + 1\<rparr>" using a' by blast
      have "fst (open_run C (b\<lparr>sc_replay := w\<rparr>) (map snd (seal_run C a' ps))) =
          map (Open_Ok \<circ> fst) (seal_run C a' ps)"
        using Cons.prems(1,3,4) w n by (intro Cons.IH) (auto simp: eq less_Suc_eq)
      with s Some op ok show ?thesis by (simp add: case_prod_beta)
    qed
  qed
qed

end

section \<open>Properties of a session\<close>

text \<open>No nonce is used twice.  The datagrams a channel seals, from its installation on and for
  as long as it seals at most \<open>2 ^ 64\<close> of them, carry strictly increasing packet numbers,
  and the packet number is the nonce of the encryption.\<close>

theorem seal_numbers_increase:
  assumes "unat (sc_sendCounter ch) + length ps \<le> 2 ^ 64"
  shows "sorted_wrt (<) (map (unat \<circ> datagram_number \<circ> snd) (seal_run C ch ps))"
  using seal_run_numbers [OF assms] by blast

lemma seal_numbers_increase_witness:
  "sorted_wrt (<) (map (unat \<circ> datagram_number \<circ> snd)
     (seal_run FakeCrypto (SetKeys (replicate 32 1) (replicate 32 2) 0 (SecureChannel_new ClientToServer 9))
        [[1], [2, 3], []]))"
  by (rule seal_numbers_increase) (simp add: SetKeys_def SecureChannel_new_def)

text \<open>A session delivers.  What one end seals, the other end opens to the same payloads in the
  same order, whatever the payloads are.\<close>

theorem session_delivers:
  assumes "crypto_suite C static_pair" "paired a b" "sc_replay b = ReplayWindow_init"
    and "unat (sc_sendCounter a) + length ps \<le> 2 ^ 64"
  shows "fst (open_run C b (map snd (seal_run C a ps))) = map (Open_Ok \<circ> fst) (seal_run C a ps)"
  using crypto_suite.session_in_order [OF assms(1,2), of "{}"] assms(3,4) replay_inv_init by simp

lemma session_delivers_witness:
  "fst (open_run FakeCrypto (SetKeys (replicate 32 2) (replicate 32 1) 0 (SecureChannel_new ServerToClient 9))
     (map snd (seal_run FakeCrypto (SetKeys (replicate 32 1) (replicate 32 2) 0
        (SecureChannel_new ClientToServer 9)) [[1], [2, 3], []]))) = [Open_Ok [1], Open_Ok [2, 3], Open_Ok []]"
proof -
  let ?a = "SetKeys (replicate 32 1) (replicate 32 2) 0 (SecureChannel_new ClientToServer 9)"
  let ?b = "SetKeys (replicate 32 2) (replicate 32 1) 0 (SecureChannel_new ServerToClient 9)"
  have "map fst (seal_run FakeCrypto ?a [[1], [2, 3], []]) = [[1], [2, 3], []]"
    by (simp add: Seal_def SetKeys_def SecureChannel_new_def FakeCrypto_def Fake_Encrypt_def Let_def)
  then have "map (Open_Ok \<circ> fst) (seal_run FakeCrypto ?a [[1], [2, 3], []]) =
      [Open_Ok [1], Open_Ok [2, 3], Open_Ok []]"
    by (simp flip: map_map)
  moreover have "paired ?a ?b" by (simp add: paired_def SetKeys_def SecureChannel_new_def)
  ultimately show ?thesis
    using session_delivers [OF fake.crypto_suite_axioms, of ?a ?b "[[1], [2, 3], []]"]
    by (simp add: SetKeys_def SecureChannel_new_def)
qed

text \<open>C22: No replayed datagram is accepted.  Over any sequence of incoming datagrams, in any order
  and with any duplicates and forgeries among them, the packet numbers of the accepted ones are
  pairwise different.\<close>

theorem open_never_replays:
  "distinct (accepted_numbers C (SetKeys sk rk ep (SecureChannel_new dir tok)) ds)"
proof -
  have "sc_replay (SetKeys sk rk ep (SecureChannel_new dir tok)) = ReplayWindow_init"
    by (simp add: SetKeys_def SecureChannel_new_def)
  with accepted_numbers_fresh [of "SetKeys sk rk ep (SecureChannel_new dir tok)" "{}"] replay_inv_init
  show ?thesis by simp
qed

text \<open>C21: What is accepted is authentic.  An accepted datagram is, byte for byte, a header that
  names this connection followed by the encryption of the payload under the receive key, with that
  very header as associated data and its packet number as the nonce; nothing else is accepted.\<close>

theorem open_authentic:
  assumes "crypto_suite C static_pair" "Open C ch d = (Open_Ok p, ch')"
  shows "\<exists>h ct. d = WritePacketHeader [] h @ ct \<and> ph_connectionToken h = sc_token ch \<and>
    Encrypt C (sc_recvKey ch) (sc_recvDir ch) (ph_packetNumber h) (WritePacketHeader [] h) p = Some ct"
proof -
  obtain h where h: "ReadPacketHeader d = Decoded (h, HEADER_SIZE)" "ph_connectionToken h = sc_token ch"
    "Decrypt C (sc_recvKey ch) (sc_recvDir ch) (ph_packetNumber h) (take HEADER_SIZE d)
       (drop HEADER_SIZE d) = Some p"
    using Open_OkD [OF assms(2)] by metis
  have t: "take HEADER_SIZE d = WritePacketHeader [] h" using header_bytes [OF h(1)] .
  show ?thesis
    using h(2,3) t crypto_suite.aead [OF assms(1)] append_take_drop_id [of HEADER_SIZE d] by metis
qed

lemma open_authentic_witness:
  "\<exists>ct. WritePacketHeader [] \<lparr>ph_protocolId = PROTOCOL_ID, ph_connectionToken = 9, ph_packetNumber = 4\<rparr> @
     the (Fake_Encrypt (replicate 32 2) ClientToServer 4
       (WritePacketHeader [] \<lparr>ph_protocolId = PROTOCOL_ID, ph_connectionToken = 9, ph_packetNumber = 4\<rparr>) [5]) =
     ct \<and> (\<exists>h c. ct = WritePacketHeader [] h @ c \<and> ph_connectionToken h = 9)"
proof -
  let ?h = "\<lparr>ph_protocolId = PROTOCOL_ID, ph_connectionToken = 9, ph_packetNumber = 4\<rparr>"
  let ?b = "SetKeys (replicate 32 1) (replicate 32 2) 0 (SecureChannel_new ServerToClient 9)"
  let ?d = "WritePacketHeader [] ?h @ the (Fake_Encrypt (replicate 32 2) ClientToServer 4 (WritePacketHeader [] ?h) [5])"
  have "Fake_Decrypt (replicate 32 2) ClientToServer 4 (WritePacketHeader [] ?h)
      (the (Fake_Encrypt (replicate 32 2) ClientToServer 4 (WritePacketHeader [] ?h) [5])) = Some [5]"
    unfolding Decrypt_iff_Encrypt by (simp add: Fake_Encrypt_def)
  then have "Open FakeCrypto ?b ?d = (Open_Ok [5], ?b\<lparr>sc_replay := snd (CheckAndUpdate ReplayWindow_init 4)\<rparr>)"
    by (simp add: Open_def ReadPacketHeader_written SetKeys_def SecureChannel_new_def FakeCrypto_def
        CheckAndUpdate_def ReplayWindow_init_def)
  from open_authentic [OF fake.crypto_suite_axioms this] show ?thesis
    by (auto simp: SetKeys_def SecureChannel_new_def)
qed

text \<open>The replay window moves before the datagram is authenticated.  One forged datagram that
  names the connection's token (which travels in clear) and the largest packet number is refused
  as unauthentic, yet after it every genuine datagram up to the last 1024 packet numbers of the
  session is refused as a replay.\<close>

theorem forged_header_blocks_session:
  assumes "crypto_suite C static_pair" "paired a b" "sc_replay b = ReplayWindow_init"
    and "forged = WritePacketHeader [] \<lparr>ph_protocolId = pid, ph_connectionToken = sc_token b,
           ph_packetNumber = 2 ^ 64 - 1\<rparr> @ junk"
    and "Decrypt C (sc_recvKey b) (sc_recvDir b) (2 ^ 64 - 1) (take HEADER_SIZE forged) junk = None"
    and "unat (sc_sendCounter a) + 1024 < 2 ^ 64" "Seal C a p = (Some d, a')"
  shows "\<exists>b'. Open C b forged = (Open_AuthFailure, b') \<and> fst (Open C b' d) = Open_Replay"
proof -
  obtain w where c: "CheckAndUpdate ReplayWindow_init (2 ^ 64 - 1) = (True, w)"
    by (simp add: CheckAndUpdate_def ReplayWindow_init_def)
  then have w: "replay_inv w {2 ^ 64 - 1}"
    using rw.accept_inv [OF replay_inv_init, of "2 ^ 64 - 1"] by simp
  have o1: "Open C b forged = (Open_AuthFailure, b\<lparr>sc_replay := w\<rparr>)"
    using assms(2-5) c by (simp add: Open_def ReadPacketHeader_written paired_def)
  have "\<not> fresh_in WINDOW_BITS {2 ^ 64 - 1} (unat (sc_sendCounter a))"
    using assms(6) by (simp add: fresh_in_def WINDOW_BITS_def)
  then have "\<not> fst (CheckAndUpdate w (sc_sendCounter a))" using rw.verdict [OF w] by simp
  then obtain w' where "CheckAndUpdate w (sc_sendCounter a) = (False, w')"
    by (metis prod.collapse)
  with crypto_suite.open_sealed [OF assms(1) _ assms(7), of "b\<lparr>sc_replay := w\<rparr>" False w'] assms(2)
  have "fst (Open C (b\<lparr>sc_replay := w\<rparr>) d) = Open_Replay" by simp
  with o1 show ?thesis by blast
qed

lemma forged_header_blocks_session_witness:
  "\<exists>b'. Open FakeCrypto (SetKeys (replicate 32 2) (replicate 32 1) 0 (SecureChannel_new ServerToClient 9))
       (WritePacketHeader [] \<lparr>ph_protocolId = 0, ph_connectionToken = 9, ph_packetNumber = 2 ^ 64 - 1\<rparr> @ []) =
       (Open_AuthFailure, b') \<and>
     fst (Open FakeCrypto b' (the (fst (Seal FakeCrypto
       (SetKeys (replicate 32 1) (replicate 32 2) 0 (SecureChannel_new ClientToServer 9)) [1])))) = Open_Replay"
proof -
  let ?a = "SetKeys (replicate 32 1) (replicate 32 2) 0 (SecureChannel_new ClientToServer 9)"
  let ?b = "SetKeys (replicate 32 2) (replicate 32 1) 0 (SecureChannel_new ServerToClient 9)"
  have s: "Seal FakeCrypto ?a [1] = (Some (the (fst (Seal FakeCrypto ?a [1]))), snd (Seal FakeCrypto ?a [1]))"
    by (simp add: Seal_def SetKeys_def SecureChannel_new_def FakeCrypto_def Fake_Encrypt_def Let_def)
  show ?thesis
    by (rule forged_header_blocks_session [OF fake.crypto_suite_axioms _ _ _ _ _ s, of _ _ 0 "[]"])
      (simp_all add: paired_def SetKeys_def SecureChannel_new_def FakeCrypto_def Fake_Decrypt_def)
qed

end
