(* ===== verification/Connection_Driver.thy ===== *)
theory Connection_Driver
  imports Secure_Channel
begin

text \<open>
  \<open>NeuronCore/Connection.h\<close>: the client and server connection drivers, which join the
  handshake, the secure channel and the message framing.  A call returns the datagrams it queues
  and the application messages it hands over, in order, with the new object and crypto state.
  Dereferencing the handshake client before \<open>Start\<close> is the outcome \<open>None\<close>.
\<close>

section \<open>Datagrams and application messages\<close>

definition Kind_ClearHandshake :: u8 where "Kind_ClearHandshake = 0"
definition Kind_Encrypted :: u8 where "Kind_Encrypted = 1"

lemmas Kind_defs = Kind_ClearHandshake_def Kind_Encrypted_def

definition MakeHandshakeDatagram :: "MsgType \<Rightarrow> bytes \<Rightarrow> bytes" where
  "MakeHandshakeDatagram ty bd = Kind_ClearHandshake # ty # bd"

type_synonym AppMessage = DecodedMessage

section \<open>Client connection\<close>

record ClientConnection =
  cc_pinnedPub :: EcPubKey
  cc_client :: "HandshakeClient option"
  cc_channel :: "SecureChannel option"
  cc_state :: ConnState
  cc_token :: u64
  cc_sessionToken :: u64
  cc_playerNetId :: u32
  cc_loginName :: bytes
  cc_password :: bytes
  cc_realAuth :: bool
  cc_triedRegister :: bool
  cc_authOpcode :: u8
  cc_lastAuthResult :: u8
  cc_lastHandshakeDatagram :: bytes

definition ClientConnection_new :: "EcPubKey \<Rightarrow> ClientConnection" where
  "ClientConnection_new pinned =
     \<lparr>cc_pinnedPub = pinned, cc_client = None, cc_channel = None, cc_state = Idle, cc_token = 0,
      cc_sessionToken = 0, cc_playerNetId = 0, cc_loginName = [], cc_password = [],
      cc_realAuth = False, cc_triedRegister = False, cc_authOpcode = AUTH_OPCODE_LOGIN,
      cc_lastAuthResult = 0xFF, cc_lastHandshakeDatagram = []\<rparr>"

definition SetLoginName :: "bytes \<Rightarrow> ClientConnection \<Rightarrow> ClientConnection" where
  "SetLoginName name cc = cc\<lparr>cc_loginName := name\<rparr>"

definition SetCredentials :: "bytes \<Rightarrow> bytes \<Rightarrow> ClientConnection \<Rightarrow> ClientConnection" where
  "SetCredentials user pass cc =
     cc\<lparr>cc_loginName := user, cc_password := pass, cc_realAuth := True,
        cc_authOpcode := AUTH_OPCODE_LOGIN, cc_triedRegister := False\<rparr>"

definition Client_Start :: "u64 \<Rightarrow> ClientConnection \<Rightarrow> bytes \<times> ClientConnection" where
  "Client_Start time cc =
     (let d = MakeHandshakeDatagram (ho_type Client_Begin) (ho_body Client_Begin)
      in (d, cc\<lparr>cc_client := Some (HandshakeClient_new (cc_pinnedPub cc) time),
               cc_lastHandshakeDatagram := d, cc_state := Handshaking\<rparr>))"

definition IsConnected :: "ClientConnection \<Rightarrow> bool" where
  "IsConnected cc \<longleftrightarrow> cc_state cc = Connected"

definition DilationFactor :: "ClientConnection \<Rightarrow> double" where
  "DilationFactor cc = (case cc_client cc of Some cl \<Rightarrow> cl_dilationFactor cl | None \<Rightarrow> 1)"

definition SealEncrypted ::
    "'s ICrypto \<Rightarrow> bytes \<Rightarrow> ClientConnection \<Rightarrow> bytes option \<times> ClientConnection" where
  "SealEncrypted C payload cc =
     (case cc_channel cc of
        None \<Rightarrow> (None, cc)
      | Some ch \<Rightarrow>
          (case Seal C ch payload of
             (None, ch) \<Rightarrow> (None, cc\<lparr>cc_channel := Some ch\<rparr>)
           | (Some sealed, ch) \<Rightarrow> (Some (Kind_Encrypted # sealed), cc\<lparr>cc_channel := Some ch\<rparr>)))"

definition SendSealed ::
    "'s ICrypto \<Rightarrow> bytes \<Rightarrow> ClientConnection \<Rightarrow> bytes list \<times> ClientConnection" where
  "SendSealed C payload cc =
     (case SealEncrypted C payload cc of (None, cc) \<Rightarrow> ([], cc) | (Some d, cc) \<Rightarrow> ([d], cc))"

definition putStr :: "bytes \<Rightarrow> bytes \<Rightarrow> bytes" where
  "putStr bd s =
     (let n = of_nat (length s) :: u16
      in bd @ [ucast (n AND 0xFF)] @ [ucast (drop_bit 8 n AND 0xFF)] @ s)"

definition auth_body :: "u8 \<Rightarrow> bytes \<Rightarrow> bytes \<Rightarrow> bytes" where
  "auth_body opcode user pass = putStr (putStr [opcode] user) pass"

definition SendAuth ::
    "'s ICrypto \<Rightarrow> u8 \<Rightarrow> ClientConnection \<Rightarrow> bytes list \<times> ClientConnection" where
  "SendAuth C opcode cc =
     SendSealed C (WriteMessage [] Ch_ReliableOrdered Msg_Command
       (auth_body opcode (cc_loginName cc) (cc_password cc))) cc"

definition SendLogin :: "'s ICrypto \<Rightarrow> ClientConnection \<Rightarrow> bytes list \<times> ClientConnection" where
  "SendLogin C cc =
     (if cc_realAuth cc then SendAuth C (cc_authOpcode cc) cc
      else
        (let name = (if cc_loginName cc = [] then [0x62, 0x6f, 0x74] else cc_loginName cc)
         in SendSealed C (WriteMessage [] Ch_ReliableOrdered Msg_LoginRequest
              (LoginRequest_Encode \<lparr>username = name\<rparr> [])) cc))"

text \<open>One application message on the client.  \<open>m.body[i]\<close> is within the body wherever the
  code has tested its size.\<close>

definition Client_HandleAppMessage ::
    "'s ICrypto \<Rightarrow> DecodedMessage \<Rightarrow> ClientConnection \<Rightarrow>
      AppMessage list \<times> bytes list \<times> ClientConnection" where
  "Client_HandleAppMessage C m cc =
     (if msg_type m = Msg_Command \<and> msg_body m \<noteq> [] \<and> msg_body m ! 0 = AUTH_OPCODE_RESULT then
        (if length (msg_body m) < 1 + 1 + 4 + 8 then ([], [], cc)
         else if cc_state cc \<noteq> Authenticating then ([], [], cc)
         else
           (let res = msg_body m ! 1;
                cc = cc\<lparr>cc_lastAuthResult := res\<rparr>
            in if res = AUTH_RESULT_OK then
                 ([], [], cc\<lparr>cc_playerNetId := le_get 4 (drop 2 (msg_body m)),
                            cc_sessionToken := le_get 8 (drop 6 (msg_body m)),
                            cc_state := Connected\<rparr>)
               else if res = AUTH_RESULT_INVALID_CREDENTIALS \<and> \<not> cc_triedRegister cc \<and>
                       cc_authOpcode cc = AUTH_OPCODE_LOGIN then
                 (let cc = cc\<lparr>cc_triedRegister := True, cc_authOpcode := AUTH_OPCODE_REGISTER\<rparr>;
                      (send, cc) = SendAuth C (cc_authOpcode cc) cc
                  in ([], send, cc))
               else if res = AUTH_RESULT_INVALID_CREDENTIALS \<and>
                       cc_authOpcode cc = AUTH_OPCODE_REGISTER then ([], [], cc)
               else ([], [], cc\<lparr>cc_state := Disconnected\<rparr>)))
      else if msg_type m = Msg_LoginResponse then
        (case LoginResponse_Decode (msg_body m) of
           Decoded resp \<Rightarrow>
             (if lr_success resp \<noteq> 0
              then ([], [], cc\<lparr>cc_sessionToken := sessionToken resp,
                             cc_playerNetId := playerNetworkId resp, cc_state := Connected\<rparr>)
              else ([], [], cc\<lparr>cc_state := Disconnected\<rparr>))
         | _ \<Rightarrow> ([], [], cc\<lparr>cc_state := Disconnected\<rparr>))
      else ([m], [], cc))"

fun Client_HandleAppMessages ::
    "'s ICrypto \<Rightarrow> DecodedMessage list \<Rightarrow> ClientConnection \<Rightarrow>
      AppMessage list \<times> bytes list \<times> ClientConnection" where
  "Client_HandleAppMessages C [] cc = ([], [], cc)"
| "Client_HandleAppMessages C (m # ms) cc =
     (let (app, send, cc) = Client_HandleAppMessage C m cc;
          (app', send', cc) = Client_HandleAppMessages C ms cc
      in (app @ app', send @ send', cc))"

text \<open>The part of \<open>OnDatagram\<close> after the handshake client has handled a clear message.\<close>

definition Client_AfterHandshake ::
    "'s ICrypto \<Rightarrow> HandshakeClient \<Rightarrow> ClientConnection \<Rightarrow> bytes list \<times> ClientConnection" where
  "Client_AfterHandshake C cl cc =
     (if cl_complete cl \<and> cl_haveKeys cl \<and> cc_channel cc = None then
        (let cc = cc\<lparr>cc_token := cl_token cl,
                    cc_channel := Some (SetKeys (cl_keyC2S cl) (cl_keyS2C cl) (cl_epoch cl)
                      (SecureChannel_new ClientToServer (cl_token cl))),
                    cc_state := Authenticating\<rparr>
         in SendLogin C cc)
      else ([], cc))"

definition Client_OnClear ::
    "'s ICrypto \<Rightarrow> bytes \<Rightarrow> ClientConnection \<Rightarrow> 's \<Rightarrow>
      (bool \<times> AppMessage list \<times> bytes list \<times> ClientConnection \<times> 's) option" where
  "Client_OnClear C rest cc st =
     (if length rest < 1 then Some (True, [], [], cc, st)
      else
        (case cc_client cc of
           None \<Rightarrow> None
         | Some cl \<Rightarrow>
             (let (out, cl, st) = Client_OnMessage C cl (rest ! 0) (drop 1 rest) st;
                  cc = cc\<lparr>cc_client := Some cl\<rparr>
              in if ho_failed out then Some (False, [], [], cc\<lparr>cc_state := Disconnected\<rparr>, st)
                 else
                   (let d = MakeHandshakeDatagram (ho_type out) (ho_body out);
                        cc = (if ho_send out then cc\<lparr>cc_lastHandshakeDatagram := d\<rparr> else cc);
                        (login, cc) = Client_AfterHandshake C cl cc
                    in Some (True, [], (if ho_send out then [d] else []) @ login, cc, st)))))"

definition Client_OnEncrypted ::
    "'s ICrypto \<Rightarrow> bytes \<Rightarrow> ClientConnection \<Rightarrow> AppMessage list \<times> bytes list \<times> ClientConnection" where
  "Client_OnEncrypted C rest cc =
     (case cc_channel cc of
        None \<Rightarrow> ([], [], cc)
      | Some ch \<Rightarrow>
          (let (r, ch) = Open C ch rest;
               cc = cc\<lparr>cc_channel := Some ch\<rparr>
           in case r of
                Open_Ok payload \<Rightarrow>
                  (case ReadMessages payload of
                     Decoded msgs \<Rightarrow> Client_HandleAppMessages C msgs cc
                   | _ \<Rightarrow> ([], [], cc))
              | _ \<Rightarrow> ([], [], cc)))"

definition Client_OnDatagram ::
    "'s ICrypto \<Rightarrow> bytes \<Rightarrow> ClientConnection \<Rightarrow> 's \<Rightarrow>
      (bool \<times> AppMessage list \<times> bytes list \<times> ClientConnection \<times> 's) option" where
  "Client_OnDatagram C dg cc st =
     (case dg of
        [] \<Rightarrow> Some (True, [], [], cc, st)
      | kind # rest \<Rightarrow>
          (if kind = Kind_ClearHandshake then Client_OnClear C rest cc st
           else if kind = Kind_Encrypted then
             (let (app, send, cc) = Client_OnEncrypted C rest cc in Some (True, app, send, cc, st))
           else Some (True, [], [], cc, st)))"

definition SendTyped ::
    "'s ICrypto \<Rightarrow> MsgType \<Rightarrow> bytes \<Rightarrow> ClientConnection \<Rightarrow> bytes option \<times> ClientConnection" where
  "SendTyped C ty bd cc =
     (if \<not> IsConnected cc \<or> cc_channel cc = None then (None, cc)
      else SealEncrypted C (WriteMessage [] Ch_ReliableOrdered ty bd) cc)"

definition SendFleetCommand ::
    "'s ICrypto \<Rightarrow> bytes \<Rightarrow> ClientConnection \<Rightarrow> bytes option \<times> ClientConnection" where
  "SendFleetCommand C bd cc = SendTyped C Msg_FleetCommand bd cc"

definition BuildDisconnect :: "'s ICrypto \<Rightarrow> ClientConnection \<Rightarrow> bytes option \<times> ClientConnection" where
  "BuildDisconnect C cc =
     (if cc_channel cc = None then (None, cc)
      else SealEncrypted C (WriteMessage [] Ch_ReliableOrdered Msg_Disconnect [reason_byte Normal]) cc)"

definition BuildKeepalive :: "'s ICrypto \<Rightarrow> ClientConnection \<Rightarrow> bytes option \<times> ClientConnection" where
  "BuildKeepalive C cc =
     (if \<not> IsConnected cc \<or> cc_channel cc = None then (None, cc)
      else SealEncrypted C (WriteMessage [] Ch_Unreliable Msg_Keepalive []) cc)"

definition HandshakePending :: "ClientConnection \<Rightarrow> bool" where
  "HandshakePending cc \<longleftrightarrow> cc_state cc = Handshaking \<or> cc_state cc = Authenticating"

definition ResendPending :: "'s ICrypto \<Rightarrow> ClientConnection \<Rightarrow> bytes list \<times> ClientConnection" where
  "ResendPending C cc =
     (if cc_state cc = Handshaking then
        (if cc_lastHandshakeDatagram cc \<noteq> [] then ([cc_lastHandshakeDatagram cc], cc) else ([], cc))
      else if cc_state cc = Authenticating \<and> cc_channel cc \<noteq> None then SendLogin C cc
      else ([], cc))"

section \<open>Server connection\<close>

record ServerConnection =
  sn_server :: HandshakeServerConnection
  sn_channel :: "SecureChannel option"
  sn_state :: ConnState
  sn_token :: u64
  sn_playerNetId :: u32
  sn_loginName :: bytes
  sn_lastHandshakeDatagram :: bytes

definition ServerConnection_new :: "bytes \<Rightarrow> u64 \<Rightarrow> u64 \<Rightarrow> ServerConnection" where
  "ServerConnection_new staticPriv token time =
     \<lparr>sn_server = HandshakeServerConnection_new staticPriv token time, sn_channel = None,
      sn_state = Idle, sn_token = token, sn_playerNetId = 0, sn_loginName = [],
      sn_lastHandshakeDatagram = []\<rparr>"

definition MarkConnected :: "ServerConnection \<Rightarrow> ServerConnection" where
  "MarkConnected sn = (if sn_state sn = Authenticating then sn\<lparr>sn_state := Connected\<rparr> else sn)"

definition SetPlayerNetId :: "u32 \<Rightarrow> ServerConnection \<Rightarrow> ServerConnection" where
  "SetPlayerNetId n sn = sn\<lparr>sn_playerNetId := n\<rparr>"

definition Server_SetDilationFactor :: "double \<Rightarrow> ServerConnection \<Rightarrow> ServerConnection" where
  "Server_SetDilationFactor f sn = sn\<lparr>sn_server := SetDilationFactor (sn_server sn) f\<rparr>"

definition BeginFromCookieResponse ::
    "'s ICrypto \<Rightarrow> bytes \<Rightarrow> ServerConnection \<Rightarrow> 's \<Rightarrow> bool \<times> bytes list \<times> ServerConnection \<times> 's" where
  "BeginFromCookieResponse C bd sn st =
     (let (out, sv, st) = OnCookieResponse C (sn_server sn) bd st;
          sn = sn\<lparr>sn_server := sv\<rparr>
      in if ho_failed out then (False, [], sn\<lparr>sn_state := Disconnected\<rparr>, st)
         else
           (let d = MakeHandshakeDatagram (ho_type out) (ho_body out);
                sn = (if ho_send out then sn\<lparr>sn_lastHandshakeDatagram := d\<rparr> else sn)
            in (True, if ho_send out then [d] else [], sn\<lparr>sn_state := Handshaking\<rparr>, st)))"

definition ResendHandshake :: "ServerConnection \<Rightarrow> bytes list" where
  "ResendHandshake sn =
     (if sn_state sn = Handshaking \<and> sn_lastHandshakeDatagram sn \<noteq> []
      then [sn_lastHandshakeDatagram sn] else [])"

definition SealApp ::
    "'s ICrypto \<Rightarrow> Channel \<Rightarrow> MsgType \<Rightarrow> bytes \<Rightarrow> ServerConnection \<Rightarrow> bytes option \<times> ServerConnection" where
  "SealApp C chan ty bd sn =
     (case sn_channel sn of
        None \<Rightarrow> (None, sn)
      | Some ch \<Rightarrow>
          (case Seal C ch (WriteMessage [] chan ty bd) of
             (None, ch) \<Rightarrow> (None, sn\<lparr>sn_channel := Some ch\<rparr>)
           | (Some sealed, ch) \<Rightarrow> (Some (Kind_Encrypted # sealed), sn\<lparr>sn_channel := Some ch\<rparr>)))"

definition Server_HandleAppMessage ::
    "'s ICrypto \<Rightarrow> DecodedMessage \<Rightarrow> ServerConnection \<Rightarrow>
      AppMessage list \<times> bytes list \<times> ServerConnection" where
  "Server_HandleAppMessage C m sn =
     (if msg_type m = Msg_Disconnect then ([], [], sn\<lparr>sn_state := Disconnected\<rparr>)
      else if msg_type m = Msg_Keepalive then ([], [], sn)
      else if msg_type m = Msg_LoginRequest then
        (let name = (case LoginRequest_Decode (msg_body m) of Decoded req \<Rightarrow> username req | _ \<Rightarrow> []);
             sn = sn\<lparr>sn_loginName := name\<rparr>;
             resp = \<lparr>lr_success = 1, lr_reason = 0,
                     sessionToken = sn_token sn XOR 0x5555AAAA5555AAAA,
                     playerNetworkId = sn_playerNetId sn\<rparr>;
             (dg, sn) = SealApp C Ch_ReliableOrdered Msg_LoginResponse (LoginResponse_Encode resp []) sn
         in ([], case dg of Some d \<Rightarrow> [d] | None \<Rightarrow> [], sn\<lparr>sn_state := Connected\<rparr>))
      else ([m], [], sn))"

fun Server_HandleAppMessages ::
    "'s ICrypto \<Rightarrow> DecodedMessage list \<Rightarrow> ServerConnection \<Rightarrow>
      AppMessage list \<times> bytes list \<times> ServerConnection" where
  "Server_HandleAppMessages C [] sn = ([], [], sn)"
| "Server_HandleAppMessages C (m # ms) sn =
     (let (app, send, sn) = Server_HandleAppMessage C m sn;
          (app', send', sn) = Server_HandleAppMessages C ms sn
      in (app @ app', send @ send', sn))"

definition Server_OnClear ::
    "bytes \<Rightarrow> ServerConnection \<Rightarrow> bool \<times> AppMessage list \<times> bytes list \<times> ServerConnection" where
  "Server_OnClear rest sn =
     (if length rest < 1 then (True, [], [], sn)
      else if rest ! 0 = Msg_ClockSyncRequest then
        (let (out, sv) = OnClockSyncRequest (sn_server sn) (drop 1 rest);
             sn = sn\<lparr>sn_server := sv\<rparr>
         in if ho_failed out then (False, [], [], sn\<lparr>sn_state := Disconnected\<rparr>)
            else
              (let send = (if ho_send out then [MakeHandshakeDatagram (ho_type out) (ho_body out)] else []);
                   sn = (if sv_complete sv \<and> sv_haveKeys sv \<and> sn_channel sn = None
                         then sn\<lparr>sn_channel := Some (SetKeys (sv_keyS2C sv) (sv_keyC2S sv) (sv_epoch sv)
                                   (SecureChannel_new ServerToClient (sn_token sn))),
                                 sn_state := Authenticating\<rparr>
                         else sn)
               in (True, [], send, sn)))
      else (True, [], [], sn))"

definition Server_OnEncrypted ::
    "'s ICrypto \<Rightarrow> bytes \<Rightarrow> ServerConnection \<Rightarrow> AppMessage list \<times> bytes list \<times> ServerConnection" where
  "Server_OnEncrypted C rest sn =
     (case sn_channel sn of
        None \<Rightarrow> ([], [], sn)
      | Some ch \<Rightarrow>
          (let (r, ch) = Open C ch rest;
               sn = sn\<lparr>sn_channel := Some ch\<rparr>
           in case r of
                Open_Ok payload \<Rightarrow>
                  (case ReadMessages payload of
                     Decoded msgs \<Rightarrow> Server_HandleAppMessages C msgs sn
                   | _ \<Rightarrow> ([], [], sn))
              | _ \<Rightarrow> ([], [], sn)))"

definition Server_OnDatagram ::
    "'s ICrypto \<Rightarrow> bytes \<Rightarrow> ServerConnection \<Rightarrow> bool \<times> AppMessage list \<times> bytes list \<times> ServerConnection" where
  "Server_OnDatagram C dg sn =
     (case dg of
        [] \<Rightarrow> (True, [], [], sn)
      | kind # rest \<Rightarrow>
          (if kind = Kind_ClearHandshake then Server_OnClear rest sn
           else if kind = Kind_Encrypted then
             (let (app, send, sn) = Server_OnEncrypted C rest sn in (True, app, send, sn))
           else (True, [], [], sn)))"

section \<open>What the operations keep\<close>

definition same_keys :: "SecureChannel \<Rightarrow> SecureChannel \<Rightarrow> bool" where
  "same_keys a b \<longleftrightarrow> sc_hasKeys b = sc_hasKeys a \<and> sc_sendKey b = sc_sendKey a \<and>
     sc_recvKey b = sc_recvKey a \<and> sc_token b = sc_token a \<and> sc_sendDir b = sc_sendDir a \<and>
     sc_recvDir b = sc_recvDir a"

lemma same_keys_refl [simp]: "same_keys ch ch" by (simp add: same_keys_def)

lemma same_keys_trans: "same_keys a b \<Longrightarrow> same_keys b c \<Longrightarrow> same_keys a c"
  by (simp add: same_keys_def)

lemma Seal_keeps: "same_keys ch (snd (Seal C ch p))"
  by (simp add: Seal_def same_keys_def Let_def split: option.splits)

lemma Open_keeps: "same_keys ch (snd (Open C ch d))"
  by (simp add: Open_def same_keys_def Let_def case_prod_beta split: decoded.splits option.splits)

definition cc_keeps :: "ClientConnection \<Rightarrow> ClientConnection \<Rightarrow> bool" where
  "cc_keeps a b \<longleftrightarrow> cc_client b = cc_client a \<and> rel_option same_keys (cc_channel a) (cc_channel b)"

lemma cc_keeps_refl [simp]: "cc_keeps cc cc"
  by (simp add: cc_keeps_def option.rel_refl)

lemma cc_keeps_trans: "cc_keeps a b \<Longrightarrow> cc_keeps b c \<Longrightarrow> cc_keeps a c"
  unfolding cc_keeps_def by (cases "cc_channel a"; cases "cc_channel b"; cases "cc_channel c")
    (auto intro: same_keys_trans)

lemma cc_keeps_updates [simp]:
  "cc_keeps cc (b\<lparr>cc_state := s\<rparr>) = cc_keeps cc b"
  "cc_keeps cc (b\<lparr>cc_playerNetId := n\<rparr>) = cc_keeps cc b"
  "cc_keeps cc (b\<lparr>cc_sessionToken := t\<rparr>) = cc_keeps cc b"
  "cc_keeps cc (b\<lparr>cc_lastAuthResult := r\<rparr>) = cc_keeps cc b"
  "cc_keeps cc (b\<lparr>cc_triedRegister := tr\<rparr>) = cc_keeps cc b"
  "cc_keeps cc (b\<lparr>cc_authOpcode := op'\<rparr>) = cc_keeps cc b"
  by (simp_all add: cc_keeps_def)

lemma SealEncrypted_keeps:
  "cc_keeps cc (snd (SealEncrypted C p cc)) \<and> cc_state (snd (SealEncrypted C p cc)) = cc_state cc \<and>
   cc_triedRegister (snd (SealEncrypted C p cc)) = cc_triedRegister cc"
proof (cases "cc_channel cc")
  case None
  then show ?thesis by (simp add: SealEncrypted_def)
next
  case (Some ch)
  obtain r ch' where s: "Seal C ch p = (r, ch')" by fastforce
  then have "same_keys ch ch'" using Seal_keeps [of ch C p] by simp
  with Some s show ?thesis by (cases r) (simp_all add: SealEncrypted_def cc_keeps_def)
qed

lemma SendSealed_snd: "snd (SendSealed C p cc) = snd (SealEncrypted C p cc)"
  by (simp add: SendSealed_def split: prod.splits option.splits)

lemma SendAuth_keeps:
  "cc_keeps cc (snd (SendAuth C op' cc)) \<and> cc_state (snd (SendAuth C op' cc)) = cc_state cc \<and>
   cc_triedRegister (snd (SendAuth C op' cc)) = cc_triedRegister cc"
  unfolding SendAuth_def SendSealed_snd by (rule SealEncrypted_keeps)

lemma SendLogin_keeps:
  "cc_keeps cc (snd (SendLogin C cc)) \<and> cc_state (snd (SendLogin C cc)) = cc_state cc \<and>
   cc_triedRegister (snd (SendLogin C cc)) = cc_triedRegister cc"
  unfolding SendLogin_def
  by (simp add: Let_def SendAuth_keeps SendSealed_snd SealEncrypted_keeps)

lemma length_SendSealed: "length (fst (SendSealed C p cc)) \<le> 1"
  by (simp add: SendSealed_def split: prod.splits option.splits)

lemma SendAuth_keeps': "cc_keeps a cc \<Longrightarrow> cc_keeps a (snd (SendAuth C op' cc))"
  using cc_keeps_trans SendAuth_keeps by blast

lemma HandleAppMessage_keeps: "cc_keeps cc (snd (snd (Client_HandleAppMessage C m cc)))"
  unfolding Client_HandleAppMessage_def
  by (simp add: SendAuth_keeps' Let_def case_prod_beta split: decoded.split)

lemma HandleAppMessages_keeps: "cc_keeps cc (snd (snd (Client_HandleAppMessages C ms cc)))"
proof (induction ms arbitrary: cc)
  case Nil
  show ?case by simp
next
  case (Cons m ms)
  show ?case
    using cc_keeps_trans [OF HandleAppMessage_keeps [of cc C m] Cons.IH]
    by (simp add: case_prod_beta)
qed

lemma OnEncrypted_keeps: "cc_keeps cc (snd (snd (Client_OnEncrypted C rest cc)))"
proof (cases "cc_channel cc")
  case None
  then show ?thesis by (simp add: Client_OnEncrypted_def)
next
  case (Some ch)
  obtain r ch' where o: "Open C ch rest = (r, ch')" by fastforce
  then have "same_keys ch ch'" using Open_keeps [of ch C rest] by simp
  with Some have k: "cc_keeps cc (cc\<lparr>cc_channel := Some ch'\<rparr>)" by (simp add: cc_keeps_def)
  then show ?thesis
    using Some o cc_keeps_trans [OF k HandleAppMessages_keeps [of _ C]]
    by (cases r) (simp_all add: Client_OnEncrypted_def Let_def split: decoded.split)
qed

section \<open>Auto-provisioning\<close>

lemma HandleAppMessage_register:
  assumes "Client_HandleAppMessage C m cc = (app, send, cc')"
  shows "length send \<le> of_bool (\<not> cc_triedRegister cc) \<and> (cc_triedRegister cc \<longrightarrow> cc_triedRegister cc') \<and> (send \<noteq> [] \<longrightarrow> cc_triedRegister cc')"
proof -
  let ?cc = "cc\<lparr>cc_lastAuthResult := msg_body m ! 1, cc_triedRegister := True,
      cc_authOpcode := AUTH_OPCODE_REGISTER\<rparr>"
  have "length (fst (SendAuth C AUTH_OPCODE_REGISTER ?cc)) \<le> 1"
    unfolding SendAuth_def by (rule length_SendSealed)
  moreover have "cc_triedRegister (snd (SendAuth C AUTH_OPCODE_REGISTER ?cc))"
    using SendAuth_keeps [of ?cc C AUTH_OPCODE_REGISTER] by simp
  ultimately show ?thesis
    using assms by (auto simp: Client_HandleAppMessage_def Let_def case_prod_beta
        split: if_splits decoded.splits)
qed

lemma HandleAppMessages_register:
  "length (fst (snd (Client_HandleAppMessages C ms cc))) \<le> of_bool (\<not> cc_triedRegister cc)"
proof (induction ms arbitrary: cc)
  case Nil
  show ?case by simp
next
  case (Cons m ms)
  obtain app send cc' where h: "Client_HandleAppMessage C m cc = (app, send, cc')"
    by (metis prod_cases3)
  have m: "length send \<le> of_bool (\<not> cc_triedRegister cc)" "send \<noteq> [] \<longrightarrow> cc_triedRegister cc'"
    "cc_triedRegister cc \<longrightarrow> cc_triedRegister cc'"
    using HandleAppMessage_register [OF h] by simp_all
  have ms: "length (fst (snd (Client_HandleAppMessages C ms cc'))) \<le> of_bool (\<not> cc_triedRegister cc')"
    by (rule Cons.IH)
  have "length send + length (fst (snd (Client_HandleAppMessages C ms cc'))) \<le> of_bool (\<not> cc_triedRegister cc)"
    using m ms by (cases "cc_triedRegister cc"; cases "cc_triedRegister cc'"; cases "send = []") auto
  then show ?case by (simp add: h case_prod_beta)
qed

text \<open>Auto-provisioning happens at most once.  However many authentication results and other
  messages arrive, and in whatever order, the client answers them with at most one datagram (the
  registration that follows the first refused login), and with none once it has registered.\<close>

theorem register_at_most_once:
  "length (fst (snd (Client_HandleAppMessages C ms cc))) \<le> (if cc_triedRegister cc then 0 else 1)"
  using HandleAppMessages_register [of C ms cc] by (cases "cc_triedRegister cc") simp_all

section \<open>An unauthenticated datagram ends a connection\<close>

text \<open>Clear handshake datagrams are obeyed in every state.  Two bytes that anyone can send from a
  forged address, a version reject to the client or an empty clock-sync request to the server,
  disconnect an established, encrypted connection.\<close>

theorem clear_datagram_disconnects:
  "Client_OnDatagram C [0, 4] (cc\<lparr>cc_client := Some cl, cc_state := Connected\<rparr>) st =
     Some (False, [], [], cc\<lparr>cc_client := Some cl, cc_state := Disconnected\<rparr>, st) \<and>
   Server_OnDatagram C [0, 7] (sn\<lparr>sn_state := Connected\<rparr>) =
     (False, [], [], sn\<lparr>sn_state := Disconnected\<rparr>)"
  by (simp add: Client_OnDatagram_def Client_OnClear_def Client_OnMessage_def Kind_defs MsgType_defs
      Server_OnDatagram_def Server_OnClear_def OnClockSyncRequest_def ClockSync_Decode_def)

section \<open>Only an authenticated server connects a client\<close>

text \<open>The clear message a datagram carries, if any.\<close>

definition clear_messages :: "bytes \<Rightarrow> (MsgType \<times> bytes) set" where
  "clear_messages dg =
     (if 2 \<le> length dg \<and> dg ! 0 = Kind_ClearHandshake then {(dg ! 1, drop 2 dg)} else {})"

text \<open>The states of a client connection, with the clear messages it has received: it is configured,
  started, and then receives arbitrary datagrams and makes arbitrary calls.\<close>

inductive client_reach ::
    "'s ICrypto \<Rightarrow> EcPubKey \<Rightarrow> ClientConnection \<Rightarrow> (MsgType \<times> bytes) set \<Rightarrow> bool"
  for C :: "'s ICrypto" and pinned :: EcPubKey where
  start_login: "client_reach C pinned (snd (Client_Start time (SetLoginName name (ClientConnection_new pinned)))) {}"
| start_auth: "client_reach C pinned (snd (Client_Start time (SetCredentials u p (ClientConnection_new pinned)))) {}"
| datagram: "\<lbrakk>client_reach C pinned cc seen; Client_OnDatagram C dg cc st = Some (ok, app, send, cc', st')\<rbrakk> \<Longrightarrow>
    client_reach C pinned cc' (clear_messages dg \<union> seen)"
| resend: "client_reach C pinned cc seen \<Longrightarrow> client_reach C pinned (snd (ResendPending C cc)) seen"
| typed: "client_reach C pinned cc seen \<Longrightarrow> client_reach C pinned (snd (SendTyped C ty bd cc)) seen"
| leave: "client_reach C pinned cc seen \<Longrightarrow> client_reach C pinned (snd (BuildDisconnect C cc)) seen"
| keepalive: "client_reach C pinned cc seen \<Longrightarrow> client_reach C pinned (snd (BuildKeepalive C cc)) seen"

definition channel_of :: "HandshakeClient \<Rightarrow> SecureChannel \<Rightarrow> bool" where
  "channel_of cl ch \<longleftrightarrow> cl_haveKeys cl \<and> sc_hasKeys ch \<and> sc_sendKey ch = cl_keyC2S cl \<and>
     sc_recvKey ch = cl_keyS2C cl \<and> sc_token ch = cl_token cl \<and> sc_sendDir ch = ClientToServer \<and>
     sc_recvDir ch = ServerToClient"

lemma channel_of_same: "channel_of cl ch \<Longrightarrow> same_keys ch ch' \<Longrightarrow> channel_of cl ch'"
  by (simp add: channel_of_def same_keys_def)

lemma channel_of_message:
  "channel_of cl ch \<Longrightarrow> channel_of (fst (snd (Client_OnMessage C cl ty bd st))) ch"
  using OnMessage_keeps_keys [of cl _ C ty bd st, OF _ refl] by (simp add: channel_of_def)

context crypto_suite
begin

definition conn_inv :: "EcPubKey \<Rightarrow> ClientConnection \<Rightarrow> (MsgType \<times> bytes) set \<Rightarrow> bool" where
  "conn_inv pinned cc seen \<longleftrightarrow>
     (\<exists>cl. cc_client cc = Some cl \<and> cl_pinnedStaticPub cl = pinned \<and> client_inv cl seen \<and>
        (\<forall>ch. cc_channel cc = Some ch \<longrightarrow> channel_of cl ch)) \<and>
     (cc_state cc = Connected \<or> cc_state cc = Authenticating \<longrightarrow> cc_channel cc \<noteq> None)"

lemma client_inv_mono: "client_inv cl A \<Longrightarrow> A \<subseteq> B \<Longrightarrow> client_inv cl B"
  unfolding client_inv_def by blast

lemma conn_inv_mono: "conn_inv pinned cc A \<Longrightarrow> A \<subseteq> B \<Longrightarrow> conn_inv pinned cc B"
  unfolding conn_inv_def using client_inv_mono by blast

lemma conn_inv_keeps:
  assumes "conn_inv pinned cc seen" "cc_keeps cc cc'"
    and "cc_channel cc = None \<Longrightarrow> cc_state cc' = cc_state cc"
  shows "conn_inv pinned cc' seen"
  using assms unfolding conn_inv_def cc_keeps_def
  by (cases "cc_channel cc"; cases "cc_channel cc'") (auto intro: channel_of_same)

lemma conn_inv_clear:
  assumes inv: "conn_inv pinned cc seen" and run: "Client_OnClear C rest cc st = Some (ok, app, send, cc', st')"
    and rest: "rest \<noteq> []"
  shows "conn_inv pinned cc' (insert (rest ! 0, drop 1 rest) seen)"
proof -
  obtain cl where cl: "cc_client cc = Some cl" "cl_pinnedStaticPub cl = pinned" "client_inv cl seen"
      "\<And>ch. cc_channel cc = Some ch \<Longrightarrow> channel_of cl ch"
    and st: "cc_state cc = Connected \<or> cc_state cc = Authenticating \<longrightarrow> cc_channel cc \<noteq> None"
    using inv unfolding conn_inv_def by blast
  obtain out cl' st1 where m: "Client_OnMessage C cl (rest ! 0) (drop 1 rest) st = (out, cl', st1)"
    by (metis prod_cases3)
  let ?seen = "insert (rest ! 0, drop 1 rest) seen"
  have cl': "cl_pinnedStaticPub cl' = pinned" "client_inv cl' ?seen"
      "\<And>ch. cc_channel cc = Some ch \<Longrightarrow> channel_of cl' ch"
    using OnMessage_keeps_pin [of C cl "rest ! 0" "drop 1 rest" st] m cl(2)
      client_inv_step [OF cl(3), of cl' "rest ! 0" "drop 1 rest" st]
      channel_of_message [OF cl(4), of _ C "rest ! 0" "drop 1 rest" st]
    by simp_all
  show ?thesis
  proof (cases "ho_failed out")
    case True
    with run rest cl(1) m have "cc' = cc\<lparr>cc_client := Some cl', cc_state := Disconnected\<rparr>"
      by (simp add: Client_OnClear_def Let_def)
    with cl' show ?thesis by (simp add: conn_inv_def)
  next
    case False
    define cc1 where "cc1 = (if ho_send out then cc\<lparr>cc_client := Some cl',
        cc_lastHandshakeDatagram := MakeHandshakeDatagram (ho_type out) (ho_body out)\<rparr>
      else cc\<lparr>cc_client := Some cl'\<rparr>)"
    have cc1: "cc_client cc1 = Some cl'" "cc_channel cc1 = cc_channel cc" "cc_state cc1 = cc_state cc"
      by (simp_all add: cc1_def)
    have cc': "cc' = snd (Client_AfterHandshake C cl' cc1)"
      using run rest cl(1) m False by (auto simp: Client_OnClear_def Let_def case_prod_beta cc1_def)
    show ?thesis
    proof (cases "cl_complete cl' \<and> cl_haveKeys cl' \<and> cc_channel cc1 = None")
      case True
      let ?cc2 = "cc1\<lparr>cc_token := cl_token cl', cc_channel := Some (SetKeys (cl_keyC2S cl') (cl_keyS2C cl')
          (cl_epoch cl') (SecureChannel_new ClientToServer (cl_token cl'))), cc_state := Authenticating\<rparr>"
      have "conn_inv pinned ?cc2 ?seen"
        using cl' cc1 True by (simp add: conn_inv_def channel_of_def SetKeys_def SecureChannel_new_def)
      moreover have "cc' = snd (SendLogin C ?cc2)"
        using cc' True by (simp add: Client_AfterHandshake_def)
      ultimately show ?thesis using SendLogin_keeps [of ?cc2 C] conn_inv_keeps by simp
    next
      case False
      then have "cc' = cc1" using cc' by (auto simp: Client_AfterHandshake_def)
      with cl' cc1 st show ?thesis by (simp add: conn_inv_def)
    qed
  qed
qed

lemma conn_inv_reach: "client_reach C pinned cc seen \<Longrightarrow> conn_inv pinned cc seen"
proof (induction rule: client_reach.induct)
  case (datagram cc seen dg st ok app send cc' st')
  show ?case
  proof (cases dg)
    case Nil
    with datagram show ?thesis by (simp add: Client_OnDatagram_def clear_messages_def)
  next
    case (Cons kind rest)
    consider (clear) "kind = Kind_ClearHandshake" | (enc) "kind = Kind_Encrypted" "kind \<noteq> Kind_ClearHandshake"
      | (other) "kind \<noteq> Kind_ClearHandshake" "kind \<noteq> Kind_Encrypted" by blast
    then show ?thesis
    proof cases
      case clear
      with Cons datagram.hyps have run: "Client_OnClear C rest cc st = Some (ok, app, send, cc', st')"
        by (simp add: Client_OnDatagram_def)
      show ?thesis
      proof (cases "rest = []")
        case True
        with run have "cc' = cc" by (simp add: Client_OnClear_def)
        then show ?thesis using datagram.IH by (auto intro: conn_inv_mono)
      next
        case False
        then have "clear_messages dg = {(rest ! 0, drop 1 rest)}"
          using Cons clear by (cases rest) (simp_all add: clear_messages_def)
        then show ?thesis using conn_inv_clear [OF datagram.IH run False] by simp
      qed
    next
      case enc
      with Cons datagram.hyps have "cc' = snd (snd (Client_OnEncrypted C rest cc))"
        by (auto simp: Client_OnDatagram_def Let_def case_prod_beta)
      then have "conn_inv pinned cc' seen"
        using OnEncrypted_keeps [of cc C rest]
        by (intro conn_inv_keeps [OF datagram.IH]) (simp_all add: Client_OnEncrypted_def)
      then show ?thesis by (rule conn_inv_mono) simp
    next
      case other
      with Cons datagram.hyps have "cc' = cc" by (simp add: Client_OnDatagram_def)
      then show ?thesis using datagram.IH by (auto intro: conn_inv_mono)
    qed
  qed
next
  case (resend cc seen)
  then show ?case
    by (intro conn_inv_keeps [OF resend.IH]) (simp_all add: ResendPending_def SendLogin_keeps)
next
  case (typed cc seen ty bd)
  then show ?case
    by (intro conn_inv_keeps [OF typed.IH]) (simp_all add: SendTyped_def SealEncrypted_keeps)
next
  case (leave cc seen)
  then show ?case
    by (intro conn_inv_keeps [OF leave.IH]) (simp_all add: BuildDisconnect_def SealEncrypted_keeps)
next
  case (keepalive cc seen)
  then show ?case
    by (intro conn_inv_keeps [OF keepalive.IH]) (simp_all add: BuildKeepalive_def SealEncrypted_keeps)
qed (simp_all add: conn_inv_def client_inv_def Client_Start_def HandshakeClient_new_def Let_def
    SetLoginName_def SetCredentials_def ClientConnection_new_def)

lemma reach_authenticated:
  assumes "client_reach C pinned cc seen" "cc_state cc = Connected \<or> cc_state cc = Authenticating"
  shows "\<exists>ch cl bd resp secret. cc_channel cc = Some ch \<and> cc_client cc = Some cl \<and>
    (Msg_HandshakeResponse, bd) \<in> seen \<and>
    HandshakeResponse_Decode bd = Decoded resp \<and>
    Verify C pinned (serverEphemeralPub resp) (signature resp) \<and>
    DeriveSharedSecret C (cl_ephemeral cl) (serverEphemeralPub resp) = Some secret \<and>
    DeriveAeadKeys C secret (hr_epoch resp) = Some (sc_sendKey ch, sc_recvKey ch) \<and>
    sc_token ch = hr_connectionToken resp"
proof -
  obtain cl ch where cl: "cc_client cc = Some cl" "cl_pinnedStaticPub cl = pinned" "client_inv cl seen" "cc_channel cc = Some ch"
    "channel_of cl ch"
    using conn_inv_reach [OF assms(1)] assms(2) unfolding conn_inv_def by auto
  then obtain bd where bd: "(Msg_HandshakeResponse, bd) \<in> seen" "keys_from C cl bd"
    unfolding client_inv_def channel_of_def by blast
  obtain resp secret where r: "HandshakeResponse_Decode bd = Decoded resp"
      "Verify C pinned (serverEphemeralPub resp) (signature resp)"
      "DeriveSharedSecret C (cl_ephemeral cl) (serverEphemeralPub resp) = Some secret"
      "DeriveAeadKeys C secret (hr_epoch resp) = Some (cl_keyC2S cl, cl_keyS2C cl)"
      "cl_token cl = hr_connectionToken resp"
    using bd(2) cl(2) unfolding keys_from_def by blast
  have "sc_sendKey ch = cl_keyC2S cl" "sc_recvKey ch = cl_keyS2C cl" "sc_token ch = cl_token cl"
    using cl(5) by (simp_all add: channel_of_def)
  with cl(1,4) bd(1) r show ?thesis by auto
qed

end

text \<open>Only the pinned server can connect a client.  Whatever datagrams a started client
  receives and whatever it is asked to send, if it ever is authenticating or connected then it
  holds a channel whose two keys come from a handshake response, received in clear, whose
  ephemeral key carries a valid signature of the pinned key.\<close>

theorem client_connects_authenticated:
  assumes "crypto_suite C static_pair" "client_reach C pinned cc seen"
    and "cc_state cc = Connected \<or> cc_state cc = Authenticating"
  shows "\<exists>ch cl bd resp secret. cc_channel cc = Some ch \<and> cc_client cc = Some cl \<and>
    (Msg_HandshakeResponse, bd) \<in> seen \<and>
    HandshakeResponse_Decode bd = Decoded resp \<and>
    Verify C pinned (serverEphemeralPub resp) (signature resp) \<and>
    DeriveSharedSecret C (cl_ephemeral cl) (serverEphemeralPub resp) = Some secret \<and>
    DeriveAeadKeys C secret (hr_epoch resp) = Some (sc_sendKey ch, sc_recvKey ch) \<and>
    sc_token ch = hr_connectionToken resp"
  by (rule crypto_suite.reach_authenticated [OF assms])

section \<open>A connection from start to login\<close>

text \<open>The two drivers composed over a network that delivers every datagram once and in order: the
  stateless hello, the cookie, the key agreement, the clock sync and the name login.\<close>

definition connect_dialogue ::
    "'s ICrypto \<Rightarrow> ClientConnection \<Rightarrow> ServerConnection \<Rightarrow> bytes \<Rightarrow> bytes \<Rightarrow> u64 \<Rightarrow> 's \<Rightarrow> 's \<Rightarrow>
      (ClientConnection \<times> ServerConnection) option" where
  "connect_dialogue C cc sn serverSecret addr time cst sst =
     (let (d1, cc) = Client_Start time cc;
          hello = OnClientHello C serverSecret (drop 2 d1) addr
      in case Client_OnDatagram C (MakeHandshakeDatagram (ho_type hello) (ho_body hello)) cc cst of
           None \<Rightarrow> None
         | Some (_, _, s3, cc, cst) \<Rightarrow>
             (let (_, s4, sn, sst) = BeginFromCookieResponse C (drop 2 (hd s3)) sn sst
              in case Client_OnDatagram C (hd s4) cc cst of
                   None \<Rightarrow> None
                 | Some (_, _, s5, cc, cst) \<Rightarrow>
                     (let (_, _, s6, sn) = Server_OnDatagram C (hd s5) sn
                      in case Client_OnDatagram C (hd s6) cc cst of
                           None \<Rightarrow> None
                         | Some (_, _, s7, cc, cst) \<Rightarrow>
                             (let (_, _, s8, sn) = Server_OnDatagram C (hd s7) sn
                              in case Client_OnDatagram C (hd s8) cc cst of
                                   None \<Rightarrow> None
                                 | Some (_, _, _, cc, _) \<Rightarrow> Some (cc, sn)))))"

lemma Seal_total:
  assumes "\<And>k d n aad p. Encrypt C k d n aad p \<noteq> None" "sc_hasKeys ch"
  shows "\<exists>d ch'. Seal C ch p = (Some d, ch')"
proof -
  obtain ct where "Encrypt C (sc_sendKey ch) (sc_sendDir ch) (sc_sendCounter ch) (WritePacketHeader []
      \<lparr>ph_protocolId = PROTOCOL_ID, ph_connectionToken = sc_token ch, ph_packetNumber = sc_sendCounter ch\<rparr>) p = Some ct"
    using assms(1) by blast
  with assms(2) show ?thesis by (simp add: Seal_def Let_def)
qed

lemma single_message:
  "length bd < 65536 \<Longrightarrow>
   ReadMessages (WriteMessage [] ch ty bd) = Decoded [\<lparr>msg_channel = ch, msg_type = ty, msg_body = bd\<rparr>]"
  using ReadMessages_from_frames [of "[\<lparr>msg_channel = ch, msg_type = ty, msg_body = bd\<rparr>]" "[]" "[]"]
  by (simp add: ReadMessages_def WriteMessage_frame frame_ok_def)

lemma first_number_fresh: "CheckAndUpdate ReplayWindow_init p = (True, snd (CheckAndUpdate ReplayWindow_init p))"
  by (simp add: CheckAndUpdate_def ReplayWindow_init_def)

lemma drop_MakeHandshakeDatagram [simp]: "drop 2 (MakeHandshakeDatagram ty bd) = bd"
  by (simp add: MakeHandshakeDatagram_def)

text \<open>A clear message whose handling neither fails nor completes the handshake.\<close>

lemma client_clear_step:
  assumes "cc_client cc = Some cl" "Client_OnMessage C cl ty bd st = (HsOutput_Message t b, cl', st')"
    and "\<not> cl_complete cl'"
  shows "Client_OnDatagram C (MakeHandshakeDatagram ty bd) cc st =
    Some (True, [], [MakeHandshakeDatagram t b],
      cc\<lparr>cc_client := Some cl', cc_lastHandshakeDatagram := MakeHandshakeDatagram t b\<rparr>, st')"
  using assms
  by (simp add: Client_OnDatagram_def Client_OnClear_def MakeHandshakeDatagram_def
      Client_AfterHandshake_def Let_def)

lemma client_complete_step:
  assumes "cc_client cc = Some cl" "Client_OnMessage C cl ty bd st = (HsOutput_None, cl', st')"
    and "cl_complete cl'" "cl_haveKeys cl'" "cc_channel cc = None"
  shows "Client_OnDatagram C (MakeHandshakeDatagram ty bd) cc st =
    (let (login, cc) = SendLogin C (cc\<lparr>cc_client := Some cl', cc_token := cl_token cl',
        cc_channel := Some (SetKeys (cl_keyC2S cl') (cl_keyS2C cl') (cl_epoch cl')
          (SecureChannel_new ClientToServer (cl_token cl'))), cc_state := Authenticating\<rparr>)
     in Some (True, [], login, cc, st'))"
  using assms
  by (simp add: Client_OnDatagram_def Client_OnClear_def MakeHandshakeDatagram_def Kind_defs
      Client_AfterHandshake_def case_prod_beta Let_def)

lemma server_clock_step:
  assumes "OnClockSyncRequest (sn_server sn) bd = (HsOutput_Message t b, sv)"
    and "sv_complete sv" "sv_haveKeys sv" "sn_channel sn = None"
  shows "Server_OnDatagram C (MakeHandshakeDatagram Msg_ClockSyncRequest bd) sn =
    (True, [], [MakeHandshakeDatagram t b],
     sn\<lparr>sn_server := sv, sn_channel := Some (SetKeys (sv_keyS2C sv) (sv_keyC2S sv) (sv_epoch sv)
        (SecureChannel_new ServerToClient (sn_token sn))), sn_state := Authenticating\<rparr>)"
  using assms by (simp add: Server_OnDatagram_def Server_OnClear_def MakeHandshakeDatagram_def)

lemma server_encrypted_step:
  assumes "sn_channel sn = Some ch" "Open C ch d = (Open_Ok (WriteMessage [] c ty bd), ch')"
    and "length bd < 65536"
  shows "Server_OnDatagram C (Kind_Encrypted # d) sn =
    (let (app, send, sn) = Server_HandleAppMessage C \<lparr>msg_channel = c, msg_type = ty, msg_body = bd\<rparr>
        (sn\<lparr>sn_channel := Some ch'\<rparr>) in (True, app, send, sn))"
  using assms by (simp add: Server_OnDatagram_def Server_OnEncrypted_def single_message Kind_defs case_prod_beta)

lemma client_encrypted_step:
  assumes "cc_channel cc = Some ch" "Open C ch d = (Open_Ok (WriteMessage [] c ty bd), ch')"
    and "length bd < 65536"
  shows "Client_OnDatagram C (Kind_Encrypted # d) cc st =
    (let (app, send, cc) = Client_HandleAppMessage C \<lparr>msg_channel = c, msg_type = ty, msg_body = bd\<rparr>
        (cc\<lparr>cc_channel := Some ch'\<rparr>) in Some (True, app, send, cc, st))"
  using assms by (simp add: Client_OnDatagram_def Client_OnEncrypted_def single_message Kind_defs case_prod_beta)

context crypto_suite
begin

lemma dialogue_run:
  assumes pair: "static_pair priv pinned" and total: "\<And>k d n aad p. Encrypt C k d n aad p \<noteq> None"
    and name: "length name < 65534"
  shows "\<exists>cc sn a b. connect_dialogue C (SetLoginName name (ClientConnection_new pinned))
      (SetPlayerNetId n (ServerConnection_new priv tok stime)) serverSecret addr time cst sst = Some (cc, sn) \<and>
    cc_state cc = Connected \<and> sn_state sn = Connected \<and> cc_token cc = tok \<and> cc_playerNetId cc = n \<and>
    cc_sessionToken cc = tok XOR 0x5555AAAA5555AAAA \<and>
    sn_loginName sn = (if name = [] then [0x62, 0x6f, 0x74] else name) \<and>
    cc_channel cc = Some a \<and> sn_channel sn = Some b \<and> paired a b \<and> paired b a"
proof -
  obtain ck cst1 where ck: "GenerateEcdhKeyPair C cst = (ck, cst1)" by fastforce
  obtain sk sst1 where sk: "GenerateEcdhKeyPair C sst = (sk, sst1)" by fastforce
  have size: "length (publicKey ck) = EC_PUB_KEY_BYTES" "length (publicKey sk) = EC_PUB_KEY_BYTES"
    using keypair_size [of cst] keypair_size [of sst] ck sk by simp_all
  obtain secret where sec: "DeriveSharedSecret C ck (publicKey sk) = Some secret"
      "DeriveSharedSecret C sk (publicKey ck) = Some secret"
    using agreement [of ck cst sk sst] ck sk by auto
  obtain sig sst2 where sig: "Sign C priv (publicKey sk) sst1 = (Some sig, sst2)"
      "length sig = EC_SIG_BYTES" "Verify C pinned (publicKey sk) sig"
    using sign_verify [OF pair] by blast
  obtain c2s s2c where keys: "DeriveAeadKeys C secret 0 = Some (c2s, s2c)" using keys_derive by blast
  define c where "c = MakeCookie C serverSecret addr"
  have c: "length c = COOKIE_BYTES" by (simp add: c_def cookie_size)

  define cl1 where "cl1 = (HandshakeClient_new pinned time)\<lparr>cl_cookieHandled := True, cl_ephemeral := ck\<rparr>"
  define crb where "crb = CookieResponse_Encode \<lparr>cr_cookie = c, clientEphemeralPub = publicKey ck\<rparr> []"
  define cc1 where "cc1 = snd (Client_Start time (SetLoginName name (ClientConnection_new pinned)))"
  define cc2 where "cc2 = cc1\<lparr>cc_client := Some cl1,
    cc_lastHandshakeDatagram := MakeHandshakeDatagram Msg_CookieResponse crb\<rparr>"
  have "Client_OnMessage C (HandshakeClient_new pinned time) Msg_Cookie c cst =
      (HsOutput_Message Msg_CookieResponse crb, cl1, cst1)"
    unfolding crb_def cl1_def using cookie_answer [OF _ c ck] by (simp add: HandshakeClient_new_def)
  then have step3: "Client_OnDatagram C (MakeHandshakeDatagram Msg_Cookie c) cc1 cst =
      Some (True, [], [MakeHandshakeDatagram Msg_CookieResponse crb], cc2, cst1)"
    unfolding cc2_def
    by (intro client_clear_step) (simp_all add: cc1_def cl1_def Client_Start_def Let_def SetLoginName_def
        ClientConnection_new_def HandshakeClient_new_def)

  define sv1 where "sv1 = (HandshakeServerConnection_new priv tok stime)
    \<lparr>sv_ephemeral := sk, sv_keyC2S := c2s, sv_keyS2C := s2c, sv_haveKeys := True\<rparr>"
  define hrb where "hrb = HandshakeResponse_Encode \<lparr>serverEphemeralPub = publicKey sk, signature = sig,
    hr_connectionToken = tok, hr_epoch = 0\<rparr> []"
  define sn0 where "sn0 = SetPlayerNetId n (ServerConnection_new priv tok stime)"
  define sn1 where "sn1 = sn0\<lparr>sn_server := sv1,
    sn_lastHandshakeDatagram := MakeHandshakeDatagram Msg_HandshakeResponse hrb, sn_state := Handshaking\<rparr>"
  have "OnCookieResponse C (HandshakeServerConnection_new priv tok stime) crb sst =
      (HsOutput_Message Msg_HandshakeResponse hrb, sv1, sst2)"
    using cookie_response_answer [OF c size(1) sk sec(2), of "HandshakeServerConnection_new priv tok stime" sig sst2
        c2s s2c] sig(1) keys
    by (simp add: crb_def hrb_def sv1_def HandshakeServerConnection_new_def)
  then have step4: "BeginFromCookieResponse C crb sn0 sst =
      (True, [MakeHandshakeDatagram Msg_HandshakeResponse hrb], sn1, sst2)"
    by (simp add: BeginFromCookieResponse_def sn1_def sn0_def SetPlayerNetId_def ServerConnection_new_def Let_def)

  define cl2 where "cl2 = cl1\<lparr>cl_token := tok, cl_epoch := 0, cl_keyC2S := c2s, cl_keyS2C := s2c, cl_haveKeys := True\<rparr>"
  define csb where "csb = ClockSync_Encode \<lparr>clientTimeMicros = time, serverTimeMicros = 0, dilationFactor = 1\<rparr> []"
  define cc3 where "cc3 = cc2\<lparr>cc_client := Some cl2,
    cc_lastHandshakeDatagram := MakeHandshakeDatagram Msg_ClockSyncRequest csb\<rparr>"
  have "Client_OnMessage C cl1 Msg_HandshakeResponse hrb cst1 =
      (HsOutput_Message Msg_ClockSyncRequest csb, cl2, cst1)"
    using handshake_response_answer [of cl1 "publicKey sk" sig secret 0 c2s s2c tok cst1] size(2) sig sec(1) keys
    by (simp add: hrb_def cl2_def csb_def cl1_def HandshakeClient_new_def ClockSyncRequest_message_def)
  then have step5: "Client_OnDatagram C (MakeHandshakeDatagram Msg_HandshakeResponse hrb) cc2 cst1 =
      Some (True, [], [MakeHandshakeDatagram Msg_ClockSyncRequest csb], cc3, cst1)"
    unfolding cc3_def
    by (intro client_clear_step) (simp_all add: cc2_def cl2_def cl1_def HandshakeClient_new_def)

  define cs where "cs = \<lparr>clientTimeMicros = time, serverTimeMicros = stime, dilationFactor = 1\<rparr>"
  define b0 where "b0 = SetKeys s2c c2s 0 (SecureChannel_new ServerToClient tok)"
  define sn2 where "sn2 = sn1\<lparr>sn_server := sv1\<lparr>sv_complete := True\<rparr>, sn_channel := Some b0, sn_state := Authenticating\<rparr>"
  have "OnClockSyncRequest sv1 csb = (HsOutput_Message Msg_ClockSyncResponse (ClockSync_Encode cs []),
      sv1\<lparr>sv_complete := True\<rparr>)"
    using clock_sync_answer [of "\<lparr>clientTimeMicros = time, serverTimeMicros = 0, dilationFactor = 1\<rparr>" time sv1]
    by (simp add: csb_def cs_def sv1_def HandshakeServerConnection_new_def)
  then have step6: "Server_OnDatagram C (MakeHandshakeDatagram Msg_ClockSyncRequest csb) sn1 =
      (True, [], [MakeHandshakeDatagram Msg_ClockSyncResponse (ClockSync_Encode cs [])], sn2)"
    using server_clock_step [of sn1 csb Msg_ClockSyncResponse "ClockSync_Encode cs []" "sv1\<lparr>sv_complete := True\<rparr>" C]
    by (simp add: sn2_def sn1_def sn0_def sv1_def b0_def SetPlayerNetId_def ServerConnection_new_def
        HandshakeServerConnection_new_def)

  define cl3 where "cl3 = cl2\<lparr>cl_rttMicros := 1, cl_clockOffsetMicros := serverTimeMicros cs - clientTimeMicros cs,
    cl_dilationFactor := dilation_from_ppm (dilation_to_ppm (dilationFactor cs)), cl_complete := True\<rparr>"
  define a0 where "a0 = SetKeys c2s s2c 0 (SecureChannel_new ClientToServer tok)"
  define cc4 where "cc4 = cc3\<lparr>cc_client := Some cl3, cc_token := tok, cc_channel := Some a0, cc_state := Authenticating\<rparr>"
  define nm where "nm = (if name = [] then [0x62, 0x6f, 0x74] else name)"
  define lrb where "lrb = LoginRequest_Encode \<lparr>username = nm\<rparr> []"
  have nm: "length nm < 65534" using name by (simp add: nm_def)
  then have lrb: "length lrb < 65536" "LoginRequest_Decode lrb = Decoded \<lparr>username = nm\<rparr>"
    using login_request.dec_enc [of "\<lparr>username = nm\<rparr>"]
    by (simp_all add: lrb_def LoginRequest_wf_def LoginRequest_Encode_def Put_le)
  have a0: "sc_hasKeys a0" "sc_sendCounter a0 = 0" and b0: "sc_replay b0 = ReplayWindow_init" and ab: "paired a0 b0"
    by (simp_all add: a0_def b0_def SetKeys_def SecureChannel_new_def paired_def)
  obtain d1 a1 where seal1: "Seal C a0 (WriteMessage [] Ch_ReliableOrdered Msg_LoginRequest lrb) = (Some d1, a1)"
    using Seal_total [OF total a0(1)] by blast
  define cc5 where "cc5 = cc4\<lparr>cc_channel := Some a1\<rparr>"
  have cc4: "cc_realAuth cc4 = False" "cc_loginName cc4 = name" "cc_channel cc4 = Some a0"
    by (simp_all add: cc4_def cc3_def cc2_def cc1_def Client_Start_def SetLoginName_def ClientConnection_new_def Let_def)
  have login: "SendLogin C cc4 = ([Kind_Encrypted # d1], cc5)"
    using seal1 cc4 by (cases "name = []")
      (simp_all add: SendLogin_def SendSealed_def SealEncrypted_def cc5_def lrb_def nm_def Let_def)
  have done': "Client_OnMessage C cl2 Msg_ClockSyncResponse (ClockSync_Encode cs []) cst1 = (HsOutput_None, cl3, cst1)"
    unfolding cl3_def by (rule clock_sync_done)
  have step7: "Client_OnDatagram C (MakeHandshakeDatagram Msg_ClockSyncResponse (ClockSync_Encode cs [])) cc3 cst1 =
      Some (True, [], [Kind_Encrypted # d1], cc5, cst1)"
    using client_complete_step [OF _ done', of cc3] login
    by (simp add: cc4_def cc3_def cc2_def cc1_def Client_Start_def SetLoginName_def ClientConnection_new_def
        cl3_def cl2_def a0_def Let_def)

  have op1: "Open C b0 d1 = (Open_Ok (WriteMessage [] Ch_ReliableOrdered Msg_LoginRequest lrb),
      b0\<lparr>sc_replay := snd (CheckAndUpdate ReplayWindow_init (sc_sendCounter a0))\<rparr>)"
    using open_sealed [OF ab seal1, of True] b0 first_number_fresh by simp
  define b1 where "b1 = b0\<lparr>sc_replay := snd (CheckAndUpdate ReplayWindow_init (sc_sendCounter a0))\<rparr>"
  define resp where "resp = \<lparr>lr_success = 1, lr_reason = 0, sessionToken = tok XOR 0x5555AAAA5555AAAA, playerNetworkId = n\<rparr>"
  define rb where "rb = LoginResponse_Encode resp []"
  have rb: "length rb < 65536" "LoginResponse_Decode rb = Decoded resp"
    using login_response.dec_enc [of resp] by (simp_all add: rb_def LoginResponse_Encode_def Put_le)
  have ba: "paired b1 a1"
    using seal1 by (auto simp: b1_def a0_def b0_def SetKeys_def SecureChannel_new_def paired_def elim!: Seal_SomeD)
  have b1: "sc_hasKeys b1" by (simp add: b1_def b0_def SetKeys_def)
  obtain d2 b2 where seal2: "Seal C b1 (WriteMessage [] Ch_ReliableOrdered Msg_LoginResponse rb) = (Some d2, b2)"
    using Seal_total [OF total b1] by blast
  define sn3 where "sn3 = sn2\<lparr>sn_loginName := nm, sn_channel := Some b2, sn_state := Connected\<rparr>"
  have step8: "Server_OnDatagram C (Kind_Encrypted # d1) sn2 = (True, [], [Kind_Encrypted # d2], sn3)"
    using server_encrypted_step [OF _ op1 lrb(1), of sn2] seal2 lrb(2)
    by (simp add: Server_HandleAppMessage_def MsgType_defs SealApp_def sn3_def sn2_def sn1_def sn0_def SetPlayerNetId_def
        ServerConnection_new_def rb_def resp_def Let_def flip: b1_def)

  have a1: "a1 = a0\<lparr>sc_sendCounter := sc_sendCounter a0 + 1\<rparr>" using seal1 by (auto elim!: Seal_SomeD)
  have op2: "Open C a1 d2 = (Open_Ok (WriteMessage [] Ch_ReliableOrdered Msg_LoginResponse rb),
      a1\<lparr>sc_replay := snd (CheckAndUpdate ReplayWindow_init (sc_sendCounter b1))\<rparr>)"
    using open_sealed [OF ba seal2, of True] first_number_fresh
    by (simp add: a1 a0_def SetKeys_def SecureChannel_new_def)
  define a2 where "a2 = a1\<lparr>sc_replay := snd (CheckAndUpdate ReplayWindow_init (sc_sendCounter b1))\<rparr>"
  have step9: "Client_OnDatagram C (Kind_Encrypted # d2) cc5 cst1 =
      Some (True, [], [], cc5\<lparr>cc_channel := Some a2, cc_sessionToken := sessionToken resp,
        cc_playerNetId := playerNetworkId resp, cc_state := Connected\<rparr>, cst1)"
    using client_encrypted_step [OF _ op2 rb(1), of cc5] rb(2)
    by (simp add: Client_HandleAppMessage_def MsgType_defs cc5_def resp_def Let_def flip: a2_def)
  have b2: "b2 = b1\<lparr>sc_sendCounter := sc_sendCounter b1 + 1\<rparr>" using seal2 by (auto elim!: Seal_SomeD)
  have start: "Client_Start time (SetLoginName name (ClientConnection_new pinned)) =
      (MakeHandshakeDatagram (ho_type Client_Begin) (ho_body Client_Begin), cc1)"
    by (simp add: cc1_def Client_Start_def Let_def)
  have "connect_dialogue C (SetLoginName name (ClientConnection_new pinned)) sn0 serverSecret addr time cst sst =
      Some (cc5\<lparr>cc_channel := Some a2, cc_sessionToken := sessionToken resp,
        cc_playerNetId := playerNetworkId resp, cc_state := Connected\<rparr>, sn3)"
    unfolding connect_dialogue_def start
    by (simp add: Let_def hello_answer step3 step4 step5 step6 step7 step8 step9 flip: c_def)
  moreover have "paired a2 b2 \<and> paired b2 a2"
    by (simp add: a2_def a1 b2 b1_def a0_def b0_def SetKeys_def SecureChannel_new_def paired_def)
  ultimately show ?thesis
    by (intro exI [of _ "cc5\<lparr>cc_channel := Some a2, cc_sessionToken := sessionToken resp,
        cc_playerNetId := playerNetworkId resp, cc_state := Connected\<rparr>"] exI [of _ sn3] exI [of _ a2] exI [of _ b2])
      (simp add: sn0_def cc5_def cc4_def sn3_def resp_def nm_def)
qed

end

text \<open>C20: A client connects.  Over a network that delivers, the two drivers take a client with a name
  login from its first datagram to the connected state at both ends: the client holds the server's
  token, its session token and its player id, the server knows the name, and the two channels are
  paired in both directions, so what either end seals the other opens.\<close>

theorem connection_established:
  assumes "crypto_suite C static_pair" "static_pair priv pinned"
    and "\<And>k d n aad p. Encrypt C k d n aad p \<noteq> None" "length name < 65534"
  shows "\<exists>cc sn a b. connect_dialogue C (SetLoginName name (ClientConnection_new pinned))
      (SetPlayerNetId n (ServerConnection_new priv tok stime)) serverSecret addr time cst sst = Some (cc, sn) \<and>
    cc_state cc = Connected \<and> sn_state sn = Connected \<and> cc_token cc = tok \<and> cc_playerNetId cc = n \<and>
    cc_sessionToken cc = tok XOR 0x5555AAAA5555AAAA \<and>
    sn_loginName sn = (if name = [] then [0x62, 0x6f, 0x74] else name) \<and>
    cc_channel cc = Some a \<and> sn_channel sn = Some b \<and> paired a b \<and> paired b a"
  by (rule crypto_suite.dialogue_run [OF assms])

lemma connection_established_witness:
  "\<exists>cc sn. connect_dialogue FakeCrypto (SetLoginName [0x61] (ClientConnection_new demo_pub))
      (SetPlayerNetId 5 (ServerConnection_new demo_priv 77 1000)) [1, 2] [10, 0, 0, 1] 123 FakeState_init FakeState_init =
      Some (cc, sn) \<and> cc_state cc = Connected \<and> sn_state sn = Connected \<and> cc_token cc = 77 \<and> cc_playerNetId cc = 5"
proof -
  have "Encrypt FakeCrypto k d n aad p \<noteq> None" for k d n aad p by (simp add: FakeCrypto_def Fake_Encrypt_def)
  with connection_established [OF fake.crypto_suite_axioms demo_pair, of "[0x61]" 5 77 1000 "[1, 2]" "[10, 0, 0, 1]" 123
      FakeState_init FakeState_init]
  show ?thesis by auto
qed

lemma reach_datagram:
  assumes "\<exists>seen. client_reach C pinned cc seen" "Client_OnDatagram C dg cc st = Some r"
  shows "\<exists>seen. client_reach C pinned (fst (snd (snd (snd r)))) seen"
proof -
  obtain ok app send cc' st' where "r = (ok, app, send, cc', st')" by (cases r)
  with assms client_reach.datagram [of C pinned cc _ dg st ok app send cc' st'] show ?thesis by auto
qed

lemma dialogue_reach:
  assumes "connect_dialogue C (SetLoginName name (ClientConnection_new pinned)) sn serverSecret addr time cst sst =
    Some (cc, sn')"
  shows "\<exists>seen. client_reach C pinned cc seen"
proof -
  have start: "\<exists>seen. client_reach C pinned (snd (Client_Start time (SetLoginName name (ClientConnection_new pinned)))) seen"
    using client_reach.start_login by blast
  show ?thesis
    using assms unfolding connect_dialogue_def Let_def case_prod_beta
    by (simp split: option.splits prod.splits)
      (elim exE conjE, drule reach_datagram [OF start], drule (1) reach_datagram, drule (1) reach_datagram,
       drule (1) reach_datagram, simp)
qed

lemma client_connects_authenticated_witness:
  "\<exists>cc seen ch bd resp. client_reach FakeCrypto demo_pub cc seen \<and> cc_state cc = Connected \<and>
    cc_channel cc = Some ch \<and> (Msg_HandshakeResponse, bd) \<in> seen \<and>
    HandshakeResponse_Decode bd = Decoded resp \<and>
    Verify FakeCrypto demo_pub (serverEphemeralPub resp) (signature resp)"
proof -
  have "Encrypt FakeCrypto k d n aad p \<noteq> None" for k d n aad p by (simp add: FakeCrypto_def Fake_Encrypt_def)
  then obtain cc sn where d: "connect_dialogue FakeCrypto (SetLoginName [0x61] (ClientConnection_new demo_pub))
      (SetPlayerNetId 5 (ServerConnection_new demo_priv 77 1000)) [1, 2] [10, 0, 0, 1] 123 FakeState_init FakeState_init =
      Some (cc, sn)" "cc_state cc = Connected"
    using fake.dialogue_run [OF demo_pair, of "[0x61]" 5 77 1000 "[1, 2]" "[10, 0, 0, 1]" 123
      FakeState_init FakeState_init] by auto
  obtain seen where seen: "client_reach FakeCrypto demo_pub cc seen" using dialogue_reach [OF d(1)] by blast
  from client_connects_authenticated [OF fake.crypto_suite_axioms seen] d(2) seen show ?thesis by blast
qed

end
