(* ===== verification/Connection_Table.thy ===== *)
theory Connection_Table
  imports Connection_Driver
begin

text \<open>
  \<open>NeuronCore/ConnectionTable.h\<close>: the token router.  Slots are recycled through a free
  list and carry a generation that \<open>Close\<close> bumps, so a handle to a recycled slot is
  stale.  The token map \<open>m_byToken\<close> is a partial map, the free list a stack whose back is
  the end of the list, indices and generations are the 32-bit words of the code.
\<close>

section \<open>Routing key\<close>

definition TOKEN_BYTE_OFFSET :: nat where "TOKEN_BYTE_OFFSET = 1 + 4"

definition PeekConnectionToken :: "bytes \<Rightarrow> u64 option" where
  "PeekConnectionToken dg =
     (if dg = [] \<or> dg ! 0 \<noteq> Kind_Encrypted then None
      else if length dg < TOKEN_BYTE_OFFSET + 8 then None
      else Some (fold (\<lambda>i token. token OR push_bit (8 * i) (ucast (dg ! (TOKEN_BYTE_OFFSET + i)))) [0..<8] 0))"

section \<open>The table\<close>

record ConnHandle =
  h_index :: u32
  h_generation :: u32
  h_valid :: bool

record Slot =
  sl_token :: u64
  sl_generation :: u32
  sl_active :: bool

record ConnectionTable =
  m_slots :: "Slot list"
  m_free :: "u32 list"
  m_byToken :: "u64 \<rightharpoonup> u32"

definition ConnHandle_none :: ConnHandle where
  "ConnHandle_none = \<lparr>h_index = 0, h_generation = 0, h_valid = False\<rparr>"

definition ConnectionTable_new :: ConnectionTable where
  "ConnectionTable_new = \<lparr>m_slots = [], m_free = [], m_byToken = (\<lambda>_. None)\<rparr>"

definition HandleFor :: "ConnectionTable \<Rightarrow> u32 \<Rightarrow> ConnHandle" where
  "HandleFor t idx =
     \<lparr>h_index = idx, h_generation = sl_generation (m_slots t ! unat idx), h_valid = True\<rparr>"

definition Table_Open :: "ConnectionTable \<Rightarrow> u64 \<Rightarrow> ConnHandle \<times> ConnectionTable" where
  "Table_Open t token =
     (case m_byToken t token of
        Some idx \<Rightarrow> (HandleFor t idx, t)
      | None \<Rightarrow>
          (let (idx, t) =
             (if m_free t \<noteq> [] then (last (m_free t), t\<lparr>m_free := butlast (m_free t)\<rparr>)
              else (of_nat (length (m_slots t)),
                    t\<lparr>m_slots := m_slots t @ [\<lparr>sl_token = 0, sl_generation = 0, sl_active = False\<rparr>]\<rparr>));
               s = m_slots t ! unat idx;
               t = t\<lparr>m_slots := (m_slots t)[unat idx := s\<lparr>sl_token := token, sl_active := True\<rparr>],
                     m_byToken := (m_byToken t)(token \<mapsto> idx)\<rparr>
           in (HandleFor t idx, t)))"

definition Table_Find :: "ConnectionTable \<Rightarrow> u64 \<Rightarrow> ConnHandle" where
  "Table_Find t token =
     (case m_byToken t token of None \<Rightarrow> ConnHandle_none | Some idx \<Rightarrow> HandleFor t idx)"

definition Validate :: "ConnectionTable \<Rightarrow> ConnHandle \<Rightarrow> bool" where
  "Validate t h =
     (if \<not> h_valid h \<or> unat (h_index h) \<ge> length (m_slots t) then False
      else
        (let s = m_slots t ! unat (h_index h) in sl_active s \<and> sl_generation s = h_generation h))"

definition Table_Close :: "ConnectionTable \<Rightarrow> u64 \<Rightarrow> ConnectionTable" where
  "Table_Close t token =
     (case m_byToken t token of
        None \<Rightarrow> t
      | Some idx \<Rightarrow>
          (let s = m_slots t ! unat idx
           in t\<lparr>m_slots := (m_slots t)[unat idx := s\<lparr>sl_active := False,
                   sl_generation := sl_generation s + 1, sl_token := 0\<rparr>],
                m_byToken := (m_byToken t)(token := None),
                m_free := m_free t @ [idx]\<rparr>))"

definition Lane :: "ConnHandle \<Rightarrow> u32 \<Rightarrow> u32" where
  "Lane h laneCount = (if laneCount = 0 then 0 else h_index h mod laneCount)"

definition Table_Get :: "ConnectionTable \<Rightarrow> ConnHandle \<Rightarrow> Slot option" where
  "Table_Get t h = (if Validate t h then Some (m_slots t ! unat (h_index h)) else None)"

section \<open>Invariant\<close>

text \<open>The map and the active slots agree, and the free list holds each inactive slot once.\<close>

definition table_ok :: "Slot list \<Rightarrow> u32 list \<Rightarrow> (u64 \<rightharpoonup> u32) \<Rightarrow> bool" where
  "table_ok slots free byToken \<longleftrightarrow>
     length slots \<le> 2 ^ 32 \<and>
     (\<forall>tok i. byToken tok = Some i \<longrightarrow>
        unat i < length slots \<and> sl_active (slots ! unat i) \<and> sl_token (slots ! unat i) = tok) \<and>
     (\<forall>n < length slots. sl_active (slots ! n) \<longrightarrow>
        (\<exists>i. unat i = n \<and> byToken (sl_token (slots ! n)) = Some i)) \<and>
     distinct free \<and>
     (\<forall>i. i \<in> set free \<longleftrightarrow> unat i < length slots \<and> \<not> sl_active (slots ! unat i))"

definition table_inv :: "ConnectionTable \<Rightarrow> bool" where
  "table_inv t \<longleftrightarrow> table_ok (m_slots t) (m_free t) (m_byToken t)"

lemma table_okI:
  assumes "length slots \<le> 2 ^ 32"
    and "\<And>tok i. byToken tok = Some i \<Longrightarrow>
      unat i < length slots \<and> sl_active (slots ! unat i) \<and> sl_token (slots ! unat i) = tok"
    and "\<And>j. unat (j :: u32) < length slots \<Longrightarrow> sl_active (slots ! unat j) \<Longrightarrow>
      byToken (sl_token (slots ! unat j)) = Some j"
    and "distinct free"
    and "\<And>i. i \<in> set free \<longleftrightarrow> unat i < length slots \<and> \<not> sl_active (slots ! unat i)"
  shows "table_ok slots free byToken"
proof -
  have "\<exists>i. unat i = n \<and> byToken (sl_token (slots ! n)) = Some i" if "n < length slots" "sl_active (slots ! n)" for n
    using assms(3) [of "of_nat n"] that assms(1) by (intro exI [of _ "of_nat n"]) simp
  with assms show ?thesis unfolding table_ok_def by blast
qed

lemma table_invD:
  assumes "table_inv t"
  shows "length (m_slots t) \<le> 2 ^ 32"
    and "m_byToken t tok = Some i \<Longrightarrow> unat i < length (m_slots t)"
    and "m_byToken t tok = Some i \<Longrightarrow> sl_active (m_slots t ! unat i)"
    and "m_byToken t tok = Some i \<Longrightarrow> sl_token (m_slots t ! unat i) = tok"
    and "distinct (m_free t)"
    and "j \<in> set (m_free t) \<longleftrightarrow> unat j < length (m_slots t) \<and> \<not> sl_active (m_slots t ! unat j)"
    and "unat j < length (m_slots t) \<Longrightarrow> sl_active (m_slots t ! unat j) \<Longrightarrow>
      m_byToken t (sl_token (m_slots t ! unat j)) = Some j"
  using assms unfolding table_inv_def table_ok_def by (blast, blast, blast, blast, blast, blast, metis word_unat_eq_iff)

lemma table_inv_new: "table_inv ConnectionTable_new"
  by (simp add: table_inv_def table_ok_def ConnectionTable_new_def)

text \<open>Room for one more connection.\<close>

definition room :: "ConnectionTable \<Rightarrow> bool" where
  "room t \<longleftrightarrow> m_free t \<noteq> [] \<or> length (m_slots t) < 2 ^ 32"

definition fresh_index :: "ConnectionTable \<Rightarrow> u32" where
  "fresh_index t = (if m_free t \<noteq> [] then last (m_free t) else of_nat (length (m_slots t)))"

definition grown_slots :: "ConnectionTable \<Rightarrow> Slot list" where
  "grown_slots t = (if m_free t \<noteq> [] then m_slots t
     else m_slots t @ [\<lparr>sl_token = 0, sl_generation = 0, sl_active = False\<rparr>])"

lemma Table_Open_new:
  assumes "m_byToken t tok = None"
  shows "Table_Open t tok =
    (let i = fresh_index t; s = grown_slots t ! unat i;
         t' = \<lparr>m_slots = (grown_slots t)[unat i := s\<lparr>sl_token := tok, sl_active := True\<rparr>],
               m_free = butlast (m_free t), m_byToken = (m_byToken t)(tok \<mapsto> i)\<rparr>
     in (HandleFor t' i, t'))"
  using assms by (cases t) (simp add: Table_Open_def fresh_index_def grown_slots_def Let_def)

lemma fresh_index:
  assumes "table_inv t" "room t"
  shows "unat (fresh_index t) < length (grown_slots t)" "\<not> sl_active (grown_slots t ! unat (fresh_index t))"
    "length (grown_slots t) \<le> 2 ^ 32"
proof -
  have len: "length (m_slots t) \<le> 2 ^ 32" using table_invD(1) [OF assms(1)] .
  show "unat (fresh_index t) < length (grown_slots t)" "\<not> sl_active (grown_slots t ! unat (fresh_index t))"
    "length (grown_slots t) \<le> 2 ^ 32"
    using assms(2) len table_invD(6) [OF assms(1), of "last (m_free t)"]
    by (auto simp: fresh_index_def grown_slots_def room_def nth_append)
qed

lemma table_inv_Open:
  assumes inv: "table_inv t" and "room t"
  shows "table_inv (snd (Table_Open t tok))"
proof (cases "m_byToken t tok")
  case (Some i)
  with inv show ?thesis by (simp add: Table_Open_def)
next
  case None
  define i where "i = fresh_index t"
  define g where "g = grown_slots t"
  note fi = fresh_index [OF assms, folded i_def g_def]
  let ?slots = "g[unat i := (g ! unat i)\<lparr>sl_token := tok, sl_active := True\<rparr>]"
  have t': "snd (Table_Open t tok) =
      \<lparr>m_slots = ?slots, m_free = butlast (m_free t), m_byToken = (m_byToken t)(tok \<mapsto> i)\<rparr>"
    using Table_Open_new [OF None] by (simp add: Let_def i_def g_def)
  have old: "unat j < length (m_slots t) \<Longrightarrow> g ! unat j = m_slots t ! unat j \<and> unat j < length g" for j :: u32
    by (simp add: g_def grown_slots_def nth_append)
  have free: "j \<in> set (butlast (m_free t)) \<longleftrightarrow> unat j < length g \<and> j \<noteq> i \<and> \<not> sl_active (g ! unat j)" for j
  proof (cases "m_free t = []")
    case True
    have iu: "unat i = length (m_slots t)"
      using True assms(2) by (simp add: i_def fresh_index_def room_def)
    have "unat j < length g \<longleftrightarrow> unat j < length (m_slots t) \<or> j = i"
      using True iu by (auto simp: g_def grown_slots_def word_unat_eq_iff less_Suc_eq)
    with True iu old [of j] table_invD(6) [OF inv, of j] show ?thesis by auto
  next
    case False
    then have g: "g = m_slots t" and i: "i = last (m_free t)" by (simp_all add: g_def grown_slots_def i_def fresh_index_def)
    obtain fs where fs: "m_free t = fs @ [i]" using False i by (metis append_butlast_last_id)
    with table_invD(5) [OF inv] have "i \<notin> set fs" by simp
    with fs table_invD(6) [OF inv, of j] show ?thesis by (auto simp: g)
  qed
  have tok: "m_byToken t k = Some j \<Longrightarrow> j \<noteq> i" for k j
    using table_invD(2,3) [OF inv, of k j] old [of j] fi(2) by auto
  have slot: "?slots ! unat j = (if j = i then (g ! unat i)\<lparr>sl_token := tok, sl_active := True\<rparr> else g ! unat j)" for j
    using fi(1) by (simp add: nth_list_update word_unat_eq_iff)
  have active: "unat j < length (m_slots t)" if "unat j < length g" "sl_active (g ! unat j)" for j :: u32
    using that by (auto simp: g_def grown_slots_def nth_append less_Suc_eq split: if_splits)
  show ?thesis
    unfolding table_inv_def t' ConnectionTable.select_convs
  proof (rule table_okI)
    show "length ?slots \<le> 2 ^ 32" using fi(3) by simp
  next
    fix k and j :: u32 assume k: "((m_byToken t)(tok \<mapsto> i)) k = Some j"
    show "unat j < length ?slots \<and> sl_active (?slots ! unat j) \<and> sl_token (?slots ! unat j) = k"
    proof (cases "k = tok")
      case True
      with k slot fi(1) show ?thesis by simp
    next
      case False
      with k have k': "m_byToken t k = Some j" by simp
      with slot tok [OF k'] old [of j] table_invD(2-4) [OF inv k'] show ?thesis by simp
    qed
  next
    fix j :: u32 assume "unat j < length ?slots" "sl_active (?slots ! unat j)"
    then show "((m_byToken t)(tok \<mapsto> i)) (sl_token (?slots ! unat j)) = Some j"
      using slot [of j] active [of j] old [of j] table_invD(7) [OF inv, of j] None
      by (cases "j = i") auto
  next
    show "distinct (butlast (m_free t))" using table_invD(5) [OF inv] by (simp add: distinct_butlast)
  next
    fix j :: u32
    show "j \<in> set (butlast (m_free t)) \<longleftrightarrow> unat j < length ?slots \<and> \<not> sl_active (?slots ! unat j)"
      using slot [of j] free [of j] by (cases "j = i") auto
  qed
qed

lemma table_inv_Close:
  assumes inv: "table_inv t"
  shows "table_inv (Table_Close t tok)"
proof (cases "m_byToken t tok")
  case None
  with inv show ?thesis by (simp add: Table_Close_def)
next
  case (Some i)
  note i = table_invD(2-4) [OF inv Some]
  let ?slots = "(m_slots t)[unat i := (m_slots t ! unat i)\<lparr>sl_active := False,
      sl_generation := sl_generation (m_slots t ! unat i) + 1, sl_token := 0\<rparr>]"
  have t': "Table_Close t tok = \<lparr>m_slots = ?slots, m_free = m_free t @ [i], m_byToken = (m_byToken t)(tok := None)\<rparr>"
    using Some by (cases t) (simp add: Table_Close_def Let_def)
  have other: "m_byToken t k = Some j \<Longrightarrow> k \<noteq> tok \<Longrightarrow> j \<noteq> i" for k j
    using table_invD(4) [OF inv, of k j] i(3) by auto
  have slot: "?slots ! unat j = (if j = i then (m_slots t ! unat i)\<lparr>sl_active := False,
      sl_generation := sl_generation (m_slots t ! unat i) + 1, sl_token := 0\<rparr> else m_slots t ! unat j)" for j
    using i(1) by (simp add: nth_list_update word_unat_eq_iff)
  show ?thesis
    unfolding table_inv_def t' ConnectionTable.select_convs
  proof (rule table_okI)
    fix k and j :: u32 assume "((m_byToken t)(tok := None)) k = Some j"
    then have k: "k \<noteq> tok" "m_byToken t k = Some j" by (auto split: if_splits)
    then show "unat j < length ?slots \<and> sl_active (?slots ! unat j) \<and> sl_token (?slots ! unat j) = k"
      using table_invD(2-4) [OF inv k(2)] other [OF k(2,1)] slot [of j] by simp
  next
    fix j :: u32 assume j: "unat j < length ?slots" "sl_active (?slots ! unat j)"
    then have ne: "j \<noteq> i" using slot [of j] by auto
    with j slot [of j] have b: "m_byToken t (sl_token (m_slots t ! unat j)) = Some j"
      using table_invD(7) [OF inv, of j] by simp
    then have "sl_token (m_slots t ! unat j) \<noteq> tok" using Some ne by auto
    with b ne slot [of j] show "((m_byToken t)(tok := None)) (sl_token (?slots ! unat j)) = Some j" by simp
  next
    fix j :: u32
    show "j \<in> set (m_free t @ [i]) \<longleftrightarrow> unat j < length ?slots \<and> \<not> sl_active (?slots ! unat j)"
      using i slot [of j] table_invD(6) [OF inv, of j] by (cases "j = i") auto
  qed (use table_invD(1,5) [OF inv] table_invD(6) [OF inv, of i] i in auto)
qed

section \<open>Runs\<close>

datatype table_op = OpOpen u64 | OpClose u64

fun table_step :: "ConnectionTable \<Rightarrow> table_op \<Rightarrow> ConnectionTable" where
  "table_step t (OpOpen tok) = snd (Table_Open t tok)"
| "table_step t (OpClose tok) = Table_Close t tok"

definition table_run :: "ConnectionTable \<Rightarrow> table_op list \<Rightarrow> ConnectionTable" where
  "table_run = foldl table_step"

lemma table_run_simps [simp]:
  "table_run t [] = t" "table_run t (p # ps) = table_run (table_step t p) ps"
  "table_run t (ps @ qs) = table_run (table_run t ps) qs"
  by (simp_all add: table_run_def)

lemma slots_grow: "length (m_slots (table_step t p)) \<le> Suc (length (m_slots t)) \<and>
    length (m_slots t) \<le> length (m_slots (table_step t p))"
  by (cases p) (auto simp: Table_Open_def Table_Close_def Let_def split: option.splits)

lemma table_inv_step:
  "table_inv t \<Longrightarrow> length (m_slots t) < 2 ^ 32 \<Longrightarrow> table_inv (table_step t p)"
  by (cases p) (simp_all add: table_inv_Open table_inv_Close room_def)

lemma table_inv_run:
  "table_inv t \<Longrightarrow> length (m_slots t) + length ps \<le> 2 ^ 32 \<Longrightarrow>
   table_inv (table_run t ps) \<and> length (m_slots t) \<le> length (m_slots (table_run t ps)) \<and>
   length (m_slots (table_run t ps)) \<le> length (m_slots t) + length ps"
proof (induction ps arbitrary: t)
  case Nil
  then show ?case by simp
next
  case (Cons p ps)
  from Cons.IH [of "table_step t p"] Cons.prems slots_grow [of t p] table_inv_step [of t p]
  show ?case by auto
qed

text \<open>The slot of an open token is untouched by operations that do not close it.\<close>

lemma step_keeps_slot:
  assumes inv: "table_inv t" and i: "m_byToken t tok = Some i" and p: "p \<noteq> OpClose tok"
    and len: "length (m_slots t) < 2 ^ 32"
  shows "m_byToken (table_step t p) tok = Some i \<and> m_slots (table_step t p) ! unat i = m_slots t ! unat i"
proof (cases p)
  case (OpOpen k)
  show ?thesis
  proof (cases "m_byToken t k")
    case (Some j)
    with OpOpen i show ?thesis by (simp add: Table_Open_def)
  next
    case None
    then have k: "k \<noteq> tok" using i by auto
    have "fresh_index t \<noteq> i \<or> unat (fresh_index t) \<ge> length (m_slots t)"
      using table_invD(2,3) [OF inv i] table_invD(6) [OF inv, of "last (m_free t)"] len
      by (auto simp: fresh_index_def split: if_splits)
    then have ne: "unat (fresh_index t) \<noteq> unat i"
      using table_invD(2) [OF inv i] by (auto simp: word_unat_eq_iff)
    have "grown_slots t ! unat i = m_slots t ! unat i"
      using table_invD(2) [OF inv i] by (simp add: grown_slots_def nth_append)
    with OpOpen i k ne show ?thesis by (simp add: Table_Open_new [OF None] Let_def)
  qed
next
  case (OpClose k)
  with p have k: "k \<noteq> tok" by simp
  show ?thesis
  proof (cases "m_byToken t k")
    case None
    with OpClose i show ?thesis by (simp add: Table_Close_def)
  next
    case (Some j)
    then have "unat j \<noteq> unat i"
      using table_invD(4) [OF inv Some] table_invD(4) [OF inv i] k by (auto simp: word_unat_eq_iff)
    with OpClose Some i k show ?thesis by (simp add: Table_Close_def Let_def)
  qed
qed

lemma run_keeps_slot:
  "table_inv t \<Longrightarrow> length (m_slots t) + length ps \<le> 2 ^ 32 \<Longrightarrow> m_byToken t tok = Some i \<Longrightarrow>
   OpClose tok \<notin> set ps \<Longrightarrow>
   m_byToken (table_run t ps) tok = Some i \<and> m_slots (table_run t ps) ! unat i = m_slots t ! unat i"
proof (induction ps arbitrary: t)
  case Nil
  then show ?case by simp
next
  case (Cons p ps)
  from Cons.IH [of "table_step t p"] Cons.prems slots_grow [of t p] table_inv_step [of t p]
    step_keeps_slot [of t tok i p]
  show ?case by auto
qed

text \<open>Each operation advances a slot's generation by at most one.\<close>

lemma step_generation:
  assumes "n < length (m_slots t)"
  shows "sl_generation (m_slots (table_step t p) ! n) = sl_generation (m_slots t ! n) \<or>
    sl_generation (m_slots (table_step t p) ! n) = sl_generation (m_slots t ! n) + 1"
proof (cases p)
  case (OpOpen k)
  show ?thesis
  proof (cases "m_byToken t k")
    case None
    have "grown_slots t ! n = m_slots t ! n" using assms by (simp add: grown_slots_def nth_append)
    with OpOpen assms show ?thesis
      by (cases "n = unat (fresh_index t)"; cases "unat (fresh_index t) < length (grown_slots t)")
        (simp_all add: Table_Open_new [OF None] Let_def list_update_beyond)
  qed (simp add: OpOpen Table_Open_def)
next
  case (OpClose k)
  then show ?thesis
    using assms by (auto simp: Table_Close_def Let_def nth_list_update_if split: option.splits)
qed

lemma run_generation:
  "n < length (m_slots t) \<Longrightarrow>
   \<exists>k \<le> length ps. sl_generation (m_slots (table_run t ps) ! n) = sl_generation (m_slots t ! n) + of_nat k"
proof (induction ps arbitrary: t)
  case Nil
  show ?case by simp
next
  case (Cons p ps)
  have "n < length (m_slots (table_step t p))" using Cons.prems slots_grow [of t p] by simp
  from Cons.IH [OF this]
  obtain k where k: "k \<le> length ps" "sl_generation (m_slots (table_run (table_step t p) ps) ! n) =
      sl_generation (m_slots (table_step t p) ! n) + of_nat k"
    by blast
  from step_generation [OF Cons.prems, of p] show ?case
  proof
    assume "sl_generation (m_slots (table_step t p) ! n) = sl_generation (m_slots t ! n)"
    with k show ?thesis by (intro exI [of _ k]) simp
  next
    assume "sl_generation (m_slots (table_step t p) ! n) = sl_generation (m_slots t ! n) + 1"
    with k show ?thesis by (intro exI [of _ "Suc k"]) (simp add: add.assoc)
  qed
qed

lemma Open_handle:
  assumes "table_inv t" "room t" "Table_Open t tok = (h, t')"
  shows "m_byToken t' tok = Some (h_index h) \<and> h = HandleFor t' (h_index h)"
proof (cases "m_byToken t tok")
  case (Some i)
  with assms(3) show ?thesis by (auto simp: Table_Open_def HandleFor_def)
next
  case None
  with assms(3) show ?thesis by (auto simp: Table_Open_new Let_def HandleFor_def)
qed

lemma Validate_open:
  assumes "table_inv t" "m_byToken t tok = Some (h_index h)" "h_valid h"
  shows "Validate t h \<longleftrightarrow> sl_generation (m_slots t ! unat (h_index h)) = h_generation h"
  using assms(3) table_invD(2,3) [OF assms(1,2)] by (simp add: Validate_def Let_def)

section \<open>Properties\<close>

text \<open>C30: A handle is valid exactly as long as its connection is open.  After a token was opened, over
  any sequence of fewer than \<open>2 ^ 32\<close> further operations on any tokens, the handle
  validates if and only if the token has not been closed since, whatever slots were recycled; and
  while it validates it gives the slot of that token.  (After \<open>2 ^ 32\<close> closes of one slot
  its generation has wrapped.)\<close>

theorem handle_valid_iff_open:
  assumes "table_inv t" "length (m_slots t) + length ps < 2 ^ 32" "length ps < 2 ^ 32"
    and "Table_Open t tok = (h, t')"
  shows "(Validate (table_run t' ps) h \<longleftrightarrow> OpClose tok \<notin> set ps) \<and>
    (\<forall>s. Table_Get (table_run t' ps) h = Some s \<longrightarrow> sl_token s = tok)"
proof -
  have room: "room t" using assms(2) by (simp add: room_def)
  have inv: "table_inv t'" using table_inv_Open [OF assms(1) room, of tok] assms(4) by simp
  have len: "length (m_slots t') + length ps \<le> 2 ^ 32"
    using slots_grow [of t "OpOpen tok"] assms(2,4) by simp
  obtain i where i: "h_index h = i" "m_byToken t' tok = Some i"
      "h_valid h" "h_generation h = sl_generation (m_slots t' ! unat i)"
    using Open_handle [OF assms(1) room assms(4)] by (metis ConnHandle.select_convs(2,3) HandleFor_def)
  show ?thesis
  proof (cases "OpClose tok \<in> set ps")
    case False
    note k = run_keeps_slot [OF inv len i(2) False]
    have r: "table_inv (table_run t' ps)" using table_inv_run [OF inv len] by simp
    have "Validate (table_run t' ps) h" using Validate_open [OF r, of tok h] i k by simp
    moreover have "sl_token (m_slots (table_run t' ps) ! unat i) = tok" using table_invD(4) [OF r] k by blast
    ultimately show ?thesis using False i(1) by (simp add: Table_Get_def)
  next
    case True
    then obtain pre post where ps: "ps = pre @ OpClose tok # post" "OpClose tok \<notin> set pre"
      by (meson split_list_first)
    define t1 where "t1 = table_run t' pre"
    have t1: "m_byToken t1 tok = Some i" "m_slots t1 ! unat i = m_slots t' ! unat i" "table_inv t1"
      using run_keeps_slot [OF inv _ i(2) ps(2)] table_inv_run [OF inv, of pre] len ps(1) by (simp_all add: t1_def)
    define t2 where "t2 = Table_Close t1 tok"
    have g2: "sl_generation (m_slots t2 ! unat i) = h_generation h + 1" "unat i < length (m_slots t2)"
      using t1 i(4) table_invD(2) [OF t1(3,1)] by (simp_all add: t2_def Table_Close_def Let_def)
    obtain k where k: "k \<le> length post"
        "sl_generation (m_slots (table_run t2 post) ! unat i) = h_generation h + 1 + of_nat k"
      using run_generation [OF g2(2), of post] g2(1) by auto
    have "of_nat (Suc k) \<noteq> (0 :: u32)"
    proof
      assume z: "of_nat (Suc k) = (0 :: u32)"
      have "Suc k < 2 ^ 32" using k(1) assms(3) ps(1) by simp
      then have "unat (of_nat (Suc k) :: u32) = Suc k" by (intro unat_of_nat_small) simp
      with z show False by simp
    qed
    then have "h_generation h + 1 + of_nat k \<noteq> h_generation h"
      by (metis add.assoc add_cancel_left_right of_nat_Suc)
    then have "\<not> Validate (table_run t' ps) h"
      using k(2) i(1) by (simp add: ps(1) t1_def t2_def Validate_def Let_def)
    then show ?thesis using True by (simp add: Table_Get_def)
  qed
qed

lemma handle_valid_iff_open_witness:
  "Validate (table_run (snd (Table_Open ConnectionTable_new 7)) [OpOpen 8, OpClose 7, OpOpen 9])
     (fst (Table_Open ConnectionTable_new 7)) = False"
  using handle_valid_iff_open [OF table_inv_new, of "[OpOpen 8, OpClose 7, OpOpen 9]" 7] by (simp add: ConnectionTable_new_def)

text \<open>Routing.  In every state of the table, a lookup finds exactly the open tokens, what it finds
  validates, opening and closing add and remove exactly their token, and the datagram header that
  the router peeks at is the one the channel authenticates.\<close>

theorem routing_exact:
  assumes "table_inv t" "length (m_slots t) < 2 ^ 32"
  shows "(Validate t (Table_Find t tok) \<longleftrightarrow> tok \<in> dom (m_byToken t)) \<and>
    dom (m_byToken (snd (Table_Open t tok))) = insert tok (dom (m_byToken t)) \<and>
    dom (m_byToken (Table_Close t tok)) = dom (m_byToken t) - {tok} \<and>
    PeekConnectionToken (Kind_Encrypted # WritePacketHeader [] hdr @ rest) = Some (ph_connectionToken hdr)"
proof -
  have "Validate t (Table_Find t tok) \<longleftrightarrow> tok \<in> dom (m_byToken t)"
  proof (cases "m_byToken t tok")
    case None
    then show ?thesis by (simp add: Table_Find_def Validate_def ConnHandle_none_def domIff)
  next
    case (Some i)
    then show ?thesis
      using table_invD(2,3) [OF assms(1) Some] by (auto simp: Table_Find_def Validate_def HandleFor_def Let_def)
  qed
  moreover have "dom (m_byToken (snd (Table_Open t tok))) = insert tok (dom (m_byToken t))"
  proof (cases "m_byToken t tok")
    case None
    then show ?thesis by (simp add: Table_Open_new Let_def)
  qed (auto simp: Table_Open_def)
  moreover have "dom (m_byToken (Table_Close t tok)) = dom (m_byToken t) - {tok}"
    by (auto simp: Table_Close_def Let_def split: option.splits if_splits)
  moreover have "PeekConnectionToken (Kind_Encrypted # WritePacketHeader [] hdr @ rest) = Some (ph_connectionToken hdr)"
  proof -
    let ?d = "WritePacketHeader [] hdr @ rest"
    have h: "\<lparr>ph_protocolId = le_get 4 ?d, ph_connectionToken = le_get 8 (drop 4 ?d),
        ph_packetNumber = le_get 8 (drop 12 ?d)\<rparr> = hdr"
      using ReadPacketHeader_written [of hdr rest] unfolding ReadPacketHeader_cases by (simp del: drop_append)
    have "PeekConnectionToken (Kind_Encrypted # ?d) =
        Some (fold (\<lambda>i token. token OR push_bit (8 * i) (ucast (?d ! (4 + i)))) [0..<8] 0)"
      by (simp add: PeekConnectionToken_def TOKEN_BYTE_OFFSET_def HEADER_SIZE_def)
    also have "fold (\<lambda>i token. token OR push_bit (8 * i) (ucast (?d ! (4 + i)))) [0..<8] 0 =
        (le_get 8 (drop 4 ?d) :: u64)"
      unfolding le_get_def by (intro fold_cong) (simp_all add: HEADER_SIZE_def del: drop_append)
    also have "\<dots> = ph_connectionToken hdr" by (metis h PacketHeader.select_convs(2))
    finally show ?thesis .
  qed
  ultimately show ?thesis by blast
qed

lemma routing_exact_witness:
  "Validate (snd (Table_Open ConnectionTable_new 7)) (Table_Find (snd (Table_Open ConnectionTable_new 7)) 8) = False"
  using routing_exact [OF table_inv_Open [OF table_inv_new, of 7], of 8]
  by (simp add: room_def ConnectionTable_new_def Table_Open_def Let_def)

end
