(* ===== verification/Economy_Outbox.thy ===== *)
theory Economy_Outbox
  imports ER_Prelude
begin

text \<open>
  \<open>NeuronCore/Outbox.h\<close> and \<open>NeuronCore/EconomyOutbox.h\<close>: the write-through
  economy outbox, the idempotent state it drains into, and the mapping from simulation events to
  outbox records.  Amounts and balances are the two's complement words of the code's
  \<open>int64_t\<close>; the wallet is a partial map and the dedupe index a set of keys.
\<close>

section \<open>Economy state\<close>

datatype EconomyEventType = WalletDelta | BuildComplete | InventoryDelta | LootClaim

record EconomyEvent =
  ev_seq :: u64
  ev_idemKey :: u64
  ev_accountId :: u32
  ev_amount :: u64
  ev_type :: EconomyEventType

record LedgerEntry =
  le_seq :: u64
  le_idemKey :: u64
  le_accountId :: u32
  le_delta :: u64
  le_balanceAfter :: u64

record EconomyState =
  m_wallet :: "u32 \<rightharpoonup> u64"
  m_ledger :: "LedgerEntry list"
  m_appliedKeys :: "u64 set"
  m_lastAppliedSeq :: u64

definition EconomyState_new :: EconomyState where
  "EconomyState_new =
     \<lparr>m_wallet = (\<lambda>_. None), m_ledger = [], m_appliedKeys = {}, m_lastAppliedSeq = 0\<rparr>"

definition Balance :: "EconomyState \<Rightarrow> u32 \<Rightarrow> u64" where
  "Balance s a = (case m_wallet s a of None \<Rightarrow> 0 | Some b \<Rightarrow> b)"

definition Apply :: "bool \<Rightarrow> EconomyEvent \<Rightarrow> EconomyState \<Rightarrow> bool \<times> EconomyState" where
  "Apply injectFailure e s =
     (if ev_seq e \<le> m_lastAppliedSeq s then (False, s)
      else if ev_idemKey e \<in> m_appliedKeys s then (False, s)
      else if injectFailure then (False, s)
      else
        (let bal = Balance s (ev_accountId e) + ev_amount e;
             s = s\<lparr>m_wallet := (m_wallet s)(ev_accountId e \<mapsto> bal),
                   m_ledger := m_ledger s @ [\<lparr>le_seq = ev_seq e, le_idemKey = ev_idemKey e,
                      le_accountId = ev_accountId e, le_delta = ev_amount e, le_balanceAfter = bal\<rparr>],
                   m_appliedKeys := insert (ev_idemKey e) (m_appliedKeys s)\<rparr>
         in (True, if ev_seq e > m_lastAppliedSeq s then s\<lparr>m_lastAppliedSeq := ev_seq e\<rparr> else s)))"

definition DropWatermarkOnly :: "EconomyState \<Rightarrow> EconomyState" where
  "DropWatermarkOnly s = s\<lparr>m_lastAppliedSeq := 0\<rparr>"

section \<open>Outbox\<close>

record Outbox =
  m_log :: "EconomyEvent list"
  m_nextSeq :: u64
  m_drainWatermark :: u64

definition Outbox_new :: Outbox where
  "Outbox_new = \<lparr>m_log = [], m_nextSeq = 0, m_drainWatermark = 0\<rparr>"

definition Append :: "u64 \<Rightarrow> u32 \<Rightarrow> u64 \<Rightarrow> EconomyEventType \<Rightarrow> Outbox \<Rightarrow> u64 \<times> Outbox" where
  "Append key account amount ty ob =
     (let seq = m_nextSeq ob + 1
      in (seq, ob\<lparr>m_nextSeq := seq, m_log := m_log ob @
            [\<lparr>ev_seq = seq, ev_idemKey = key, ev_accountId = account, ev_amount = amount, ev_type = ty\<rparr>]\<rparr>))"

definition PendingCount :: "Outbox \<Rightarrow> nat" where
  "PendingCount ob = fold (\<lambda>e n. if ev_seq e > m_drainWatermark ob then Suc n else n) (m_log ob) 0"

definition Drain :: "Outbox \<Rightarrow> EconomyState \<Rightarrow> nat \<times> EconomyState" where
  "Drain ob s = fold (\<lambda>e (applied, s).
     if ev_seq e > m_drainWatermark ob
     then (let (ok, s) = Apply False e s in (if ok then Suc applied else applied, s))
     else (applied, s)) (m_log ob) (0, s)"

definition ReplayAll :: "Outbox \<Rightarrow> EconomyState \<Rightarrow> nat \<times> EconomyState" where
  "ReplayAll ob s = fold (\<lambda>e (applied, s).
     (let (ok, s) = Apply False e s in (if ok then Suc applied else applied, s))) (m_log ob) (0, s)"

definition ConfirmDrained :: "u64 \<Rightarrow> Outbox \<Rightarrow> Outbox" where
  "ConfirmDrained uptoSeq ob =
     (if uptoSeq > m_drainWatermark ob then ob\<lparr>m_drainWatermark := uptoSeq\<rparr> else ob)"

section \<open>Events of the simulation\<close>

definition OutboxIdemKey :: "u64 \<Rightarrow> u32 \<Rightarrow> u32 \<Rightarrow> u64" where
  "OutboxIdemKey domain netId tick =
     (let z = (domain * 0x9E3779B97F4A7C15) XOR push_bit 21 (ucast netId) XOR ucast tick;
          z = (z XOR drop_bit 30 z) * 0xBF58476D1CE4E5B9;
          z = (z XOR drop_bit 27 z) * 0x94D049BB133111EB
      in z XOR drop_bit 31 z)"

record OutboxRecord =
  or_idemKey :: u64
  or_kind :: u8
  or_amount :: u64
  or_refId :: u64
  or_reason :: string
  or_refType :: string

definition OutboxRecord_empty :: OutboxRecord where
  "OutboxRecord_empty = \<lparr>or_idemKey = 0, or_kind = 0, or_amount = 0, or_refId = 0, or_reason = '''',
     or_refType = ''''\<rparr>"

definition MapEconEvent :: "u8 \<Rightarrow> u32 \<Rightarrow> u32 \<Rightarrow> u32 \<Rightarrow> u32 \<Rightarrow> OutboxRecord" where
  "MapEconEvent typeCode aNetId bNetId value tick =
     (if typeCode = 0 then
        \<lparr>or_idemKey = OutboxIdemKey 1 aNetId tick, or_kind = 6, or_amount = 0, or_refId = ucast aNetId,
         or_reason = ''loot_drop'', or_refType = ''Loot''\<rparr>
      else if typeCode = 1 then
        \<lparr>or_idemKey = OutboxIdemKey 2 aNetId tick, or_kind = 3, or_amount = scast value,
         or_refId = ucast aNetId, or_reason = ''loot_claimed'', or_refType = ''Loot''\<rparr>
      else if typeCode = 2 then
        \<lparr>or_idemKey = OutboxIdemKey 3 aNetId tick, or_kind = 4, or_amount = scast value,
         or_refId = ucast aNetId, or_reason = ''bounty'', or_refType = ''Kill''\<rparr>
      else if typeCode = 3 then
        \<lparr>or_idemKey = OutboxIdemKey 4 aNetId tick, or_kind = 5, or_amount = - scast value,
         or_refId = ucast aNetId, or_reason = ''cargo_lost'', or_refType = ''Cargo''\<rparr>
      else OutboxRecord_empty)"

section \<open>Uniqueness of the keys\<close>

lemma xorshift_inj:
  fixes a b :: "'a::len word"
  assumes "a XOR drop_bit n a = b XOR drop_bit n b" "0 < n"
  shows "a = b"
proof (rule bit_word_eqI)
  fix k
  assume "k < LENGTH('a)"
  show "bit a k = bit b k"
  proof (induction "LENGTH('a) - k" arbitrary: k rule: less_induct)
    case less
    have step: "bit a k \<noteq> bit a (k + n) \<longleftrightarrow> bit b k \<noteq> bit b (k + n)"
    proof -
      have "bit (a XOR drop_bit n a) k = bit (b XOR drop_bit n b) k" by (simp only: assms(1))
      then show ?thesis by (simp add: bit_xor_iff bit_drop_bit_eq add.commute)
    qed
    show ?case
    proof (cases "k < LENGTH('a)")
      case True
      then have "bit a (k + n) = bit b (k + n)" using assms(2) by (intro less) simp
      with step show ?thesis by blast
    next
      case False
      then show ?thesis using bit_imp_le_length [of a k] bit_imp_le_length [of b k] by auto
    qed
  qed
qed

lemma mult_odd_inj:
  fixes a b c d :: "'a::len word"
  assumes "c * d = 1" "a * c = b * c"
  shows "a = b"
  by (metis assms mult.assoc mult.right_neutral)

definition key_base :: "u64 \<Rightarrow> u32 \<Rightarrow> u32 \<Rightarrow> u64" where
  "key_base domain netId tick = (domain * 0x9E3779B97F4A7C15) XOR push_bit 21 (ucast netId) XOR ucast tick"

lemma OutboxIdemKey_eq_iff:
  "OutboxIdemKey d n t = OutboxIdemKey d' n' t' \<longleftrightarrow> key_base d n t = key_base d' n' t'"
proof
  assume "OutboxIdemKey d n t = OutboxIdemKey d' n' t'"
  then show "key_base d n t = key_base d' n' t'"
    unfolding OutboxIdemKey_def Let_def key_base_def [symmetric]
    by (auto dest!: xorshift_inj mult_odd_inj [of "0x94D049BB133111EB" "0x319642B2D24D8EC3", rotated]
        mult_odd_inj [of "0xBF58476D1CE4E5B9" "0x96DE1B173F119089", rotated])
qed (simp add: OutboxIdemKey_def key_base_def)

lemma u32_high_bits: "drop_bit 53 (push_bit 21 (ucast (n :: u32)) :: u64) = 0" "drop_bit 53 (ucast (t :: u32) :: u64) = 0"
proof -
  have n: "\<not> bit n (32 + k)" and t: "\<not> bit t (53 + k)" for k
    using bit_imp_le_length [of n "32 + k"] bit_imp_le_length [of t "53 + k"] by auto
  show "drop_bit 53 (push_bit 21 (ucast n) :: u64) = 0"
    by (rule bit_word_eqI) (simp add: bit_drop_bit_eq bit_push_bit_iff bit_ucast_iff n)
  show "drop_bit 53 (ucast t :: u64) = 0"
    by (rule bit_word_eqI) (simp add: bit_drop_bit_eq bit_ucast_iff t)
qed

lemma key_base_domain:
  assumes "key_base d n t = key_base d' n' t'" "d \<in> {1, 2, 3, 4}" "d' \<in> {1, 2, 3, 4}"
  shows "d = d'"
proof -
  have "drop_bit 53 (key_base d n t) = drop_bit 53 (d * 0x9E3779B97F4A7C15)" for d :: u64 and n t :: u32
    unfolding key_base_def drop_bit_xor u32_high_bits by (simp only: xor.right_neutral)
  from this [of d n t] this [of d' n' t'] assms(1)
  have "drop_bit 53 (d * 0x9E3779B97F4A7C15) = drop_bit 53 (d' * (0x9E3779B97F4A7C15 :: u64))"
    by argo
  with assms(2,3) show ?thesis by auto
qed

lemma key_base_parts:
  assumes "key_base d n t = key_base d n' t'" "t < 2 ^ 21" "t' < 2 ^ 21"
  shows "n = n' \<and> t = t'"
proof -
  let ?x = "\<lambda>n t. push_bit 21 (ucast (n :: u32)) XOR (ucast (t :: u32) :: u64)"
  have x: "?x n t = (d * 0x9E3779B97F4A7C15) XOR key_base d n t" for n t
    unfolding key_base_def by (simp flip: xor.assoc)
  have "?x n t = ?x n' t'" unfolding x assms(1) ..
  then have eq: "bit (?x n t) k = bit (?x n' t') k" for k by simp
  have low: "\<not> bit t k" if "t < 2 ^ 21" "21 \<le> k" for t :: u32 and k
  proof -
    have "take_bit 21 t = t" using that(1) by (simp add: less_mask_eq take_bit_eq_mask)
    then show ?thesis using that(2) by (metis bit_take_bit_iff leD)
  qed
  have "bit t k = bit t' k" if "k < 32" for k
  proof (cases "k < 21")
    case True
    then show ?thesis using eq [of k] by (simp add: bit_xor_iff bit_push_bit_iff bit_ucast_iff)
  next
    case False
    then show ?thesis using low assms(2,3) by simp
  qed
  moreover have "bit n k = bit n' k" if "k < 32" for k
    using eq [of "k + 21"] that low [OF assms(2), of "k + 21"] low [OF assms(3), of "k + 21"]
    by (simp add: bit_xor_iff bit_push_bit_iff bit_ucast_iff)
  ultimately show ?thesis by (auto intro!: bit_word_eqI)
qed

text \<open>Exactly-once keys.  Two economy events of the four kinds, produced within the first
  \<open>2 ^ 21\<close> ticks (about nineteen hours at thirty ticks a second), have the same
  idempotency key only if they are the same kind of event of the same entity in the same tick.\<close>

theorem idem_key_unique:
  assumes "d \<in> {1, 2, 3, 4}" "d' \<in> {1, 2, 3, 4}" "t < 2 ^ 21" "t' < 2 ^ 21"
  shows "OutboxIdemKey d n t = OutboxIdemKey d' n' t' \<longleftrightarrow> d = d' \<and> n = n' \<and> t = t'"
  using key_base_domain [of d n t d' n' t'] key_base_parts [of d n t n' t'] assms
  by (auto simp: OutboxIdemKey_eq_iff)

lemma idem_key_unique_witness: "OutboxIdemKey 3 7 100 \<noteq> OutboxIdemKey 4 7 100"
  using idem_key_unique [of 3 4 100 100 7 7] by simp

text \<open>Past that the keys collide.  The tick and the entity id overlap in the key from bit 21 on, so
  an event of entity \<open>n\<close> has the key of an event of the entity with the id's lowest bit
  flipped, \<open>2 ^ 21\<close> ticks away; the outbox drops the second of the two as a duplicate.\<close>

theorem idem_key_collision:
  "OutboxIdemKey d n t = OutboxIdemKey d (n XOR 1) (t XOR 2 ^ 21) \<and>
   fst (Apply False \<lparr>ev_seq = 2, ev_idemKey = OutboxIdemKey d (n XOR 1) (t XOR 2 ^ 21), ev_accountId = a,
          ev_amount = v, ev_type = LootClaim\<rparr>
     (snd (Apply False \<lparr>ev_seq = 1, ev_idemKey = OutboxIdemKey d n t, ev_accountId = b, ev_amount = w,
          ev_type = LootClaim\<rparr> EconomyState_new))) = False"
proof -
  have p21: "(2 ^ 21 :: u64) = push_bit 21 1" "(2 ^ 21 :: u32) = push_bit 21 1" by simp_all
  have "push_bit 21 (ucast (n XOR 1)) = push_bit 21 (ucast n) XOR (2 ^ 21 :: u64)"
    unfolding p21
    by (rule bit_word_eqI)
      (auto simp: bit_xor_iff bit_push_bit_iff bit_ucast_iff bit_1_iff
        simp del: push_bit_of_1)
  moreover have "(ucast (t XOR 2 ^ 21) :: u64) = ucast t XOR 2 ^ 21"
    unfolding p21
    by (rule bit_word_eqI)
      (auto simp: bit_xor_iff bit_ucast_iff bit_push_bit_iff bit_1_iff simp del: push_bit_of_1)
  ultimately have "key_base d (n XOR 1) (t XOR 2 ^ 21) = key_base d n t"
    unfolding key_base_def by (simp add: xor.assoc xor.left_commute xor.commute)
  then have eq: "OutboxIdemKey d n t = OutboxIdemKey d (n XOR 1) (t XOR 2 ^ 21)" by (simp add: OutboxIdemKey_eq_iff)
  then show ?thesis by (simp add: Apply_def EconomyState_new_def Let_def)
qed

section \<open>Exactly-once application\<close>

text \<open>The events of a log whose key has not occurred before: what a ledger with a unique key index
  must hold.\<close>

fun first_of_key :: "u64 set \<Rightarrow> EconomyEvent list \<Rightarrow> EconomyEvent list" where
  "first_of_key K [] = []"
| "first_of_key K (e # es) =
     (if ev_idemKey e \<in> K then first_of_key K es else e # first_of_key (insert (ev_idemKey e) K) es)"

definition account_sum :: "u32 \<Rightarrow> EconomyEvent list \<Rightarrow> u64" where
  "account_sum a es = sum_list (map ev_amount (filter (\<lambda>e. ev_accountId e = a) es))"

definition entry_event :: "EconomyEvent \<Rightarrow> u64 \<times> u64 \<times> u32 \<times> u64" where
  "entry_event e = (ev_seq e, ev_idemKey e, ev_accountId e, ev_amount e)"

definition entry_ledger :: "LedgerEntry \<Rightarrow> u64 \<times> u64 \<times> u32 \<times> u64" where
  "entry_ledger l = (le_seq l, le_idemKey l, le_accountId l, le_delta l)"

text \<open>A state that has processed exactly the events \<open>es\<close>.\<close>

definition processed :: "EconomyEvent list \<Rightarrow> EconomyState \<Rightarrow> bool" where
  "processed es s \<longleftrightarrow>
     map entry_ledger (m_ledger s) = map entry_event (first_of_key {} es) \<and>
     m_appliedKeys s = ev_idemKey ` set es \<and>
     (\<forall>a. Balance s a = account_sum a (first_of_key {} es))"

lemma first_of_key_snoc:
  "first_of_key K (es @ [e]) =
     first_of_key K es @ (if ev_idemKey e \<in> K \<union> ev_idemKey ` set es then [] else [e])"
  by (induction es arbitrary: K) auto

lemma Apply_processed:
  assumes "processed es s"
  shows "processed (es @ [e]) (snd (Apply False e s)) \<or>
    ev_seq e \<le> m_lastAppliedSeq s \<and> snd (Apply False e s) = s"
proof (cases "ev_seq e \<le> m_lastAppliedSeq s")
  case True
  then show ?thesis by (simp add: Apply_def)
next
  case False
  have "processed (es @ [e]) (snd (Apply False e s))"
  proof (cases "ev_idemKey e \<in> m_appliedKeys s")
    case True
    with False assms show ?thesis by (auto simp: Apply_def processed_def first_of_key_snoc)
  next
    case new: False
    with False assms show ?thesis
      by (auto simp: Apply_def Let_def processed_def first_of_key_snoc entry_ledger_def entry_event_def
          Balance_def account_sum_def split: option.splits)
  qed
  then show ?thesis by blast
qed

lemma Apply_old: "ev_idemKey e \<in> m_appliedKeys s \<Longrightarrow> Apply False e s = (False, s)"
  by (simp add: Apply_def)

lemma Apply_last: "m_lastAppliedSeq (snd (Apply False e s)) = m_lastAppliedSeq s \<or>
    m_lastAppliedSeq (snd (Apply False e s)) = ev_seq e"
  by (simp add: Apply_def Let_def)

text \<open>The log carries the sequence numbers 1, 2, \<dots> in order.\<close>

definition log_ok :: "Outbox \<Rightarrow> bool" where
  "log_ok ob \<longleftrightarrow> m_nextSeq ob = of_nat (length (m_log ob)) \<and> length (m_log ob) < 2 ^ 64 \<and>
     (\<forall>i < length (m_log ob). unat (ev_seq (m_log ob ! i)) = Suc i)"

text \<open>The outbox and the state after some prefix of the log has been applied.\<close>

definition synced :: "nat \<Rightarrow> Outbox \<Rightarrow> EconomyState \<Rightarrow> bool" where
  "synced n ob s \<longleftrightarrow> log_ok ob \<and> n \<le> length (m_log ob) \<and> processed (take n (m_log ob)) s \<and>
     unat (m_lastAppliedSeq s) \<le> n \<and> unat (m_drainWatermark ob) \<le> n"

lemma synced_new: "synced 0 Outbox_new EconomyState_new"
  by (simp add: synced_def log_ok_def processed_def Outbox_new_def EconomyState_new_def Balance_def account_sum_def)

lemma synced_append:
  assumes "synced n ob s" "Suc (length (m_log ob)) < 2 ^ 64"
  shows "synced n (snd (Append k a v ty ob)) s"
proof -
  have next': "m_nextSeq ob + 1 = of_nat (Suc (length (m_log ob)))"
    using assms(1) by (simp add: synced_def log_ok_def add.commute)
  have "unat (m_nextSeq ob + 1) = Suc (length (m_log ob))"
    unfolding next' using assms(2) by (intro unat_of_nat_small) simp
  with assms next' show ?thesis
    by (auto simp: synced_def log_ok_def Append_def Let_def nth_append less_Suc_eq)
qed

lemma synced_crash: "synced n ob s \<Longrightarrow> synced n ob (DropWatermarkOnly s)"
  by (simp add: synced_def processed_def DropWatermarkOnly_def Balance_def)

lemma synced_confirm: "synced n ob s \<Longrightarrow> synced n (ConfirmDrained (m_lastAppliedSeq s) ob) s"
  by (simp add: synced_def log_ok_def ConfirmDrained_def)

text \<open>One event of a pass over the log, at the position of the event.\<close>

lemma synced_event:
  assumes "synced n ob s" "i < length (m_log ob)" "i \<le> n" "e = m_log ob ! i"
  shows "synced (max n (Suc i)) ob (snd (Apply False e s))"
proof (cases "i < n")
  case True
  then have "e \<in> set (take n (m_log ob))"
    using assms(2,4) by (metis in_set_conv_nth length_take min_less_iff_conj nth_take)
  then have "ev_idemKey e \<in> m_appliedKeys s" using assms(1) by (auto simp: synced_def processed_def)
  moreover have "max n (Suc i) = n" using True by simp
  ultimately show ?thesis using assms(1) by (simp add: Apply_old)
next
  case False
  then have n: "i = n" using assms(3) by simp
  have seq: "unat (ev_seq e) = Suc n" using assms n by (auto simp: synced_def log_ok_def)
  have "\<not> ev_seq e \<le> m_lastAppliedSeq s"
    using assms(1) seq by (simp add: synced_def word_le_nat_alt)
  then have "processed (take n (m_log ob) @ [e]) (snd (Apply False e s))"
    using Apply_processed [of "take n (m_log ob)" s e] assms(1) by (auto simp: synced_def)
  moreover have "take n (m_log ob) @ [e] = take (Suc n) (m_log ob)"
    using assms(2,4) n by (simp add: take_Suc_conv_app_nth)
  moreover have "unat (m_lastAppliedSeq (snd (Apply False e s))) \<le> Suc n"
    using Apply_last [of e s] seq assms(1) by (auto simp: synced_def)
  ultimately show ?thesis using assms(1,2) n by (auto simp: synced_def)
qed

lemma synced_replay_from:
  assumes "synced n ob s" "m_log ob = pre @ es" "length pre \<le> n"
  shows "synced (length (m_log ob)) ob (snd (fold (\<lambda>e (applied, s).
     (let (ok, s) = Apply False e s in (if ok then Suc applied else applied, s))) es (k, s)))"
  using assms
proof (induction es arbitrary: pre n s k)
  case Nil
  then have "n = length (m_log ob)" by (simp add: synced_def)
  with Nil show ?case by simp
next
  case (Cons e es)
  have "synced (max n (Suc (length pre))) ob (snd (Apply False e s))"
    using Cons.prems by (intro synced_event [where i = "length pre"]) simp_all
  from Cons.IH [OF this, of "pre @ [e]"] Cons.prems show ?case by (simp add: case_prod_beta Let_def)
qed

lemma synced_drain_from:
  assumes "synced n ob s" "m_log ob = pre @ es" "length pre \<le> n"
  shows "synced (length (m_log ob)) ob (snd (fold (\<lambda>e (applied, s).
     if ev_seq e > m_drainWatermark ob
     then (let (ok, s) = Apply False e s in (if ok then Suc applied else applied, s))
     else (applied, s)) es (k, s)))"
  using assms
proof (induction es arbitrary: pre n s k)
  case Nil
  then have "n = length (m_log ob)" by (simp add: synced_def)
  with Nil show ?case by simp
next
  case (Cons e es)
  show ?case
  proof (cases "ev_seq e > m_drainWatermark ob")
    case True
    have "synced (max n (Suc (length pre))) ob (snd (Apply False e s))"
      using Cons.prems by (intro synced_event [where i = "length pre"]) simp_all
    from Cons.IH [OF this, of "pre @ [e]"] Cons.prems True show ?thesis by (simp add: case_prod_beta Let_def)
  next
    case False
    have "unat (ev_seq e) = Suc (length pre)"
      using Cons.prems(1,2) by (auto simp: synced_def log_ok_def nth_append split: if_splits dest!: spec [of _ "length pre"])
    then have "Suc (length pre) \<le> n"
      using False Cons.prems(1) by (simp add: synced_def word_less_nat_alt)
    with Cons.IH [OF Cons.prems(1), of "pre @ [e]"] Cons.prems(2) False show ?thesis by simp
  qed
qed

lemma synced_replay: "synced n ob s \<Longrightarrow> synced (length (m_log ob)) ob (snd (ReplayAll ob s))"
  unfolding ReplayAll_def by (rule synced_replay_from [where pre = "[]"]) simp_all

lemma synced_drain: "synced n ob s \<Longrightarrow> synced (length (m_log ob)) ob (snd (Drain ob s))"
  unfolding Drain_def by (rule synced_drain_from [where pre = "[]"]) simp_all

text \<open>The life of an outbox and its state: events are appended, drains run and may or may not be
  confirmed, crashes lose the state's watermark, restarts replay the whole log, and an apply of any
  event may be rolled back by an injected failure.\<close>

datatype econ_op = OpAppend u64 u32 u64 EconomyEventType | OpDrain | OpConfirm | OpCrash | OpReplay
  | OpRolledBack EconomyEvent

fun econ_step :: "econ_op \<Rightarrow> Outbox \<times> EconomyState \<Rightarrow> Outbox \<times> EconomyState" where
  "econ_step (OpAppend k a v ty) (ob, s) = (snd (Append k a v ty ob), s)"
| "econ_step OpDrain (ob, s) = (ob, snd (Drain ob s))"
| "econ_step OpConfirm (ob, s) = (ConfirmDrained (m_lastAppliedSeq s) ob, s)"
| "econ_step OpCrash (ob, s) = (ob, DropWatermarkOnly s)"
| "econ_step OpReplay (ob, s) = (ob, snd (ReplayAll ob s))"
| "econ_step (OpRolledBack e) (ob, s) = (ob, snd (Apply True e s))"

lemma Apply_rolled_back: "snd (Apply True e s) = s"
  by (simp add: Apply_def)

lemma log_length_step: "length (m_log (fst (econ_step p (ob, s)))) \<le> Suc (length (m_log ob))"
  by (cases p) (simp_all add: Append_def ConfirmDrained_def Let_def)

lemma synced_run:
  "synced n ob s \<Longrightarrow> length (m_log ob) + length ps < 2 ^ 64 \<Longrightarrow>
   \<exists>n. synced n (fst (fold econ_step ps (ob, s))) (snd (fold econ_step ps (ob, s)))"
proof (induction ps arbitrary: n ob s)
  case Nil
  then show ?case by auto
next
  case (Cons p ps)
  obtain ob' s' where st: "econ_step p (ob, s) = (ob', s')" by fastforce
  have "\<exists>n. synced n ob' s'"
    using Cons.prems st synced_append [of n ob s] synced_drain [of n ob s] synced_confirm [of n ob s]
      synced_crash [of n ob s] synced_replay [of n ob s]
    by (cases p) (auto simp: Apply_rolled_back intro: exI [of _ n] exI [of _ "length (m_log ob)"])
  then obtain n' where "synced n' ob' s'" by blast
  moreover have "length (m_log ob') + length ps < 2 ^ 64"
    using log_length_step [of p ob s] st Cons.prems(2) by simp
  ultimately show ?case using Cons.IH st by simp
qed

lemma keys_first_of_key: "ev_idemKey ` set (first_of_key K es) = ev_idemKey ` set es - K"
  by (induction es arbitrary: K) auto

lemma distinct_first_of_key: "distinct (map ev_idemKey (first_of_key K es))"
proof (induction es arbitrary: K)
  case (Cons e es)
  have "ev_idemKey e \<notin> ev_idemKey ` set (first_of_key (insert (ev_idemKey e) K) es)"
    unfolding keys_first_of_key by simp
  then show ?case using Cons by simp
qed simp

lemma processed_keys:
  assumes "processed es s"
  shows "map le_idemKey (m_ledger s) = map ev_idemKey (first_of_key {} es)"
proof -
  have "map (fst \<circ> snd) (map entry_ledger (m_ledger s)) = map (fst \<circ> snd) (map entry_event (first_of_key {} es))"
    using assms by (simp only: processed_def)
  then show ?thesis by (simp add: comp_def entry_ledger_def entry_event_def)
qed

text \<open>C2: No loss and no double booking.  Take any history of appends, confirmed and unconfirmed
  drains, crashes that lose the watermark, full replays and rolled-back applies.  At its end the
  ledger holds the events of some prefix of the log, in order, each idempotency key once (an event
  whose key occurred before is a retry and is skipped), and the balances are the sums of those
  events; no key is ever booked twice.  One more drain and the prefix is the whole log: the ledger
  holds the first event of every key that was appended, exactly once and in order, and the balances
  are their sums.  (Events applied to the state behind the outbox's back are not covered.)\<close>

theorem outbox_exactly_once:
  assumes "length ps < 2 ^ 64"
    and "(ob, s) = fold econ_step ps (Outbox_new, EconomyState_new)" and "s' = snd (Drain ob s)"
  shows "(\<exists>n \<le> length (m_log ob).
      map entry_ledger (m_ledger s) = map entry_event (first_of_key {} (take n (m_log ob))) \<and>
      (\<forall>a. Balance s a = account_sum a (first_of_key {} (take n (m_log ob))))) \<and>
    distinct (map le_idemKey (m_ledger s)) \<and>
    map entry_ledger (m_ledger s') = map entry_event (first_of_key {} (m_log ob)) \<and>
    (\<forall>a. Balance s' a = account_sum a (first_of_key {} (m_log ob))) \<and>
    distinct (map le_idemKey (m_ledger s')) \<and> le_idemKey ` set (m_ledger s') = ev_idemKey ` set (m_log ob)"
proof -
  obtain n where s: "synced n ob s"
    using synced_run [OF synced_new, of ps] assms(1,2) by (auto simp: Outbox_new_def dest: sym)
  then have n: "n \<le> length (m_log ob)" and p: "processed (take n (m_log ob)) s" by (simp_all add: synced_def)
  from synced_drain [OF s] have p': "processed (m_log ob) s'" by (simp add: synced_def assms(3))
  have "set (map le_idemKey (m_ledger s')) = set (map ev_idemKey (first_of_key {} (m_log ob)))"
    by (simp only: processed_keys [OF p'])
  then have "le_idemKey ` set (m_ledger s') = ev_idemKey ` set (m_log ob)" by (simp add: keys_first_of_key)
  moreover have "distinct (map le_idemKey (m_ledger s))" "distinct (map le_idemKey (m_ledger s'))"
    unfolding processed_keys [OF p] processed_keys [OF p'] by (rule distinct_first_of_key)+
  ultimately show ?thesis using n p p' unfolding processed_def by blast
qed

lemma outbox_exactly_once_witness:
  "Balance (snd (case fold econ_step [OpAppend 11 1 100 WalletDelta, OpDrain, OpCrash, OpReplay,
      OpAppend 11 1 100 WalletDelta, OpAppend 12 1 5 LootClaim,
      OpRolledBack \<lparr>ev_seq = 3, ev_idemKey = 12, ev_accountId = 1, ev_amount = 5, ev_type = LootClaim\<rparr>]
      (Outbox_new, EconomyState_new) of (ob, s) \<Rightarrow> Drain ob s)) 1 = 105"
proof -
  let ?ps = "[OpAppend 11 1 100 WalletDelta, OpDrain, OpCrash, OpReplay,
      OpAppend 11 1 100 WalletDelta, OpAppend 12 1 5 LootClaim,
      OpRolledBack \<lparr>ev_seq = 3, ev_idemKey = 12, ev_accountId = 1, ev_amount = 5, ev_type = LootClaim\<rparr>]"
  obtain ob s where st: "fold econ_step ?ps (Outbox_new, EconomyState_new) = (ob, s)" by fastforce
  have "m_log ob = [\<lparr>ev_seq = 1, ev_idemKey = 11, ev_accountId = 1, ev_amount = 100, ev_type = WalletDelta\<rparr>,
      \<lparr>ev_seq = 2, ev_idemKey = 11, ev_accountId = 1, ev_amount = 100, ev_type = WalletDelta\<rparr>,
      \<lparr>ev_seq = 3, ev_idemKey = 12, ev_accountId = 1, ev_amount = 5, ev_type = LootClaim\<rparr>]"
    using st by (auto simp: Append_def Outbox_new_def Let_def)
  moreover from outbox_exactly_once [of ?ps ob s "snd (Drain ob s)"] st
  have "Balance (snd (Drain ob s)) 1 = account_sum 1 (first_of_key {} (m_log ob))"
    by (simp del: fold_simps)
  ultimately show ?thesis using st by (simp del: fold_simps add: account_sum_def)
qed

text \<open>A failed apply is lost to the watermark: if an event is rolled back and a later one commits, no
  retry of the first is ever applied, until the watermark itself is lost.\<close>

lemma rolled_back_event_skipped:
  assumes "ev_seq e1 < ev_seq e2" "m_lastAppliedSeq s < ev_seq e1" "ev_idemKey e2 \<notin> m_appliedKeys s"
  shows "Apply False e1 (snd (Apply False e2 (snd (Apply True e1 s)))) =
    (False, snd (Apply False e2 (snd (Apply True e1 s))))"
  using assms by (auto simp: Apply_def Let_def)

end
