(* ===== verification/Reliability_Layer.thy ===== *)
theory Reliability_Layer
  imports Sequence_Math Double_Arith "HOL-Library.AList"
begin

text \<open>
  \<open>NeuronCore/Reliability.h\<close>: sequence assignment, acknowledgements, round-trip estimation and
  retransmission on the sending side, duplicate detection and the acknowledgement bitfield on the
  receiving side.  The sender's hash map is an association list in its (unspecified) iteration
  order; times are doubles.  The last section composes the two ends over a network that loses,
  duplicates and reorders.
\<close>

section \<open>Sender\<close>

record InFlight =
  if_sequence :: u16
  if_payload :: bytes
  if_sentTime :: double
  if_sendCount :: u32

record ReliableSender =
  m_nextSequence :: u16
  m_inFlight :: "(u16 \<times> InFlight) list"
  m_srtt :: double
  m_rttvar :: double

definition ReliableSender_new :: ReliableSender where
  "ReliableSender_new = \<lparr>m_nextSequence = 0, m_inFlight = [], m_srtt = 0, m_rttvar = 0\<rparr>"

definition INITIAL_RTO :: double where "INITIAL_RTO = rnd (2 / 10)"
definition MIN_RTO :: double where "MIN_RTO = rnd (5 / 100)"
definition MAX_RTO :: double where "MAX_RTO = 2"

definition Reliable_Send :: "bytes \<Rightarrow> double \<Rightarrow> ReliableSender \<Rightarrow> u16 \<times> ReliableSender" where
  "Reliable_Send payload now s =
     (let seq = m_nextSequence s;
          f = \<lparr>if_sequence = seq, if_payload = payload, if_sentTime = now, if_sendCount = 1\<rparr>
      in (seq, s\<lparr>m_nextSequence := seq + 1, m_inFlight := AList.update seq f (m_inFlight s)\<rparr>))"

definition UpdateRtt :: "double \<Rightarrow> ReliableSender \<Rightarrow> ReliableSender" where
  "UpdateRtt sample s =
     (if sample < 0 then s
      else if m_srtt s \<le> 0 then s\<lparr>m_srtt := sample, m_rttvar := ddiv sample 2\<rparr>
      else
        (let alpha = 1 / 8; beta = 1 / 4;
             diff = dsub sample (m_srtt s);
             rttvar = dadd (dmul (dsub 1 beta) (m_rttvar s)) (dmul beta (if diff < 0 then - diff else diff));
             srtt = dadd (dmul (dsub 1 alpha) (m_srtt s)) (dmul alpha sample)
         in s\<lparr>m_rttvar := rttvar, m_srtt := srtt\<rparr>))"

definition AckOne :: "u16 \<Rightarrow> double \<Rightarrow> ReliableSender \<Rightarrow> ReliableSender" where
  "AckOne seq now s =
     (case map_of (m_inFlight s) seq of
        None \<Rightarrow> s
      | Some f \<Rightarrow>
          (let s = (if if_sendCount f = 1 then UpdateRtt (dsub now (if_sentTime f)) s else s)
           in s\<lparr>m_inFlight := AList.delete seq (m_inFlight s)\<rparr>))"

definition OnAck :: "u16 \<Rightarrow> u32 \<Rightarrow> double \<Rightarrow> ReliableSender \<Rightarrow> ReliableSender" where
  "OnAck ack ackBits now s =
     fold (\<lambda>i s. if drop_bit i ackBits AND 1 \<noteq> 0 then AckOne (ack - 1 - of_nat i) now s else s)
       [0..<32] (AckOne ack now s)"

definition CurrentRto :: "ReliableSender \<Rightarrow> double" where
  "CurrentRto s =
     (if m_srtt s \<le> 0 then INITIAL_RTO
      else
        (let rto = dadd (m_srtt s) (dmul 4 (m_rttvar s));
             rto = (if rto < MIN_RTO then MIN_RTO else rto);
             rto = (if rto > MAX_RTO then MAX_RTO else rto)
         in rto))"

definition CollectTimedOut :: "double \<Rightarrow> ReliableSender \<Rightarrow> InFlight list \<times> ReliableSender" where
  "CollectTimedOut now s =
     (let rto = CurrentRto s;
          stamp = (\<lambda>f. if dsub now (if_sentTime f) \<ge> rto
                       then f\<lparr>if_sentTime := now, if_sendCount := if_sendCount f + 1\<rparr> else f)
      in (map (stamp \<circ> snd) (filter (\<lambda>(seq, f). dsub now (if_sentTime f) \<ge> rto) (m_inFlight s)),
          s\<lparr>m_inFlight := map (\<lambda>(seq, f). (seq, stamp f)) (m_inFlight s)\<rparr>))"

definition InFlightCount :: "ReliableSender \<Rightarrow> nat" where
  "InFlightCount s = length (m_inFlight s)"

section \<open>Receiver\<close>

record ReliableReceiver =
  rr_seenAny :: bool
  rr_latest :: u16
  rr_received :: "u16 set"

definition ReliableReceiver_new :: ReliableReceiver where
  "ReliableReceiver_new = \<lparr>rr_seenAny = False, rr_latest = 0, rr_received = {}\<rparr>"

definition PruneOld :: "ReliableReceiver \<Rightarrow> ReliableReceiver" where
  "PruneOld r = r\<lparr>rr_received := Set.filter (\<lambda>x. \<not> SeqDiff (rr_latest r) x > 1024) (rr_received r)\<rparr>"

definition OnReceive :: "u16 \<Rightarrow> ReliableReceiver \<Rightarrow> bool \<times> ReliableReceiver" where
  "OnReceive seq r =
     (if \<not> rr_seenAny r then (True, r\<lparr>rr_seenAny := True, rr_latest := seq, rr_received := {seq}\<rparr>)
      else if seq \<in> rr_received r then (False, r)
      else
        (let r = r\<lparr>rr_received := insert seq (rr_received r)\<rparr>;
             r = (if SeqGreater seq (rr_latest r) then r\<lparr>rr_latest := seq\<rparr> else r)
         in (True, PruneOld r)))"

definition AckBits :: "ReliableReceiver \<Rightarrow> u32" where
  "AckBits r =
     fold (\<lambda>i bits. if rr_latest r - 1 - of_nat i \<in> rr_received r then bits OR push_bit i 1 else bits)
       [0..<32] 0"

section \<open>What the two ends compute\<close>

lemma AckOne_inFlight: "m_inFlight (AckOne seq now s) = AList.delete seq (m_inFlight s)"
proof (cases "map_of (m_inFlight s) seq")
  case None
  then have "seq \<notin> fst ` set (m_inFlight s)" by (simp add: map_of_eq_None_iff)
  with None show ?thesis by (simp add: AckOne_def delete_id)
next
  case (Some f)
  then show ?thesis by (simp add: AckOne_def UpdateRtt_def Let_def)
qed

lemma map_of_AckOne: "map_of (m_inFlight (AckOne seq now s)) = (map_of (m_inFlight s))(seq := None)"
  by (simp add: AckOne_inFlight delete_conv')

text \<open>The sequences an acknowledgement names.\<close>

definition acked :: "u16 \<Rightarrow> u32 \<Rightarrow> u16 set" where
  "acked ack ackBits = insert ack ((\<lambda>i. ack - 1 - of_nat i) ` {i. i < 32 \<and> bit ackBits i})"

lemma OnAck_inFlight:
  "map_of (m_inFlight (OnAck ack ackBits now s)) q =
     (if q \<in> acked ack ackBits then None else map_of (m_inFlight s) q)"
proof -
  have "map_of (m_inFlight (fold (\<lambda>i s. if drop_bit i ackBits AND 1 \<noteq> 0
          then AckOne (ack - 1 - of_nat i) now s else s) is s)) q =
      (if \<exists>i \<in> set is. bit ackBits i \<and> q = ack - 1 - of_nat i then None else map_of (m_inFlight s) q)" for "is" s
    by (induction "is" arbitrary: s)
      (auto simp: map_of_AckOne and_one_eq bit_iff_odd_drop_bit even_iff_mod_2_eq_zero)
  from this [of "[0..<32]" "AckOne ack now s"] show ?thesis
    unfolding OnAck_def acked_def by (auto simp: map_of_AckOne)
qed

lemma bit_AckBits: "bit (AckBits r) i \<longleftrightarrow> i < 32 \<and> rr_latest r - 1 - of_nat i \<in> rr_received r"
proof -
  have "bit (fold (\<lambda>i bits. if rr_latest r - 1 - of_nat i \<in> rr_received r then bits OR push_bit i 1 else bits)
      [0..<n] (0 :: u32)) i \<longleftrightarrow> i < n \<and> i < 32 \<and> rr_latest r - 1 - of_nat i \<in> rr_received r" for n
    by (induction n) (auto simp: bit_or_iff bit_exp_iff less_Suc_eq)
  then show ?thesis unfolding AckBits_def by simp
qed

lemma latest_received:
  assumes "rr_seenAny r \<longrightarrow> rr_latest r \<in> rr_received r"
  shows "rr_latest (snd (OnReceive q r)) \<in> rr_received (snd (OnReceive q r))"
  using assms by (auto simp: OnReceive_def PruneOld_def Let_def)

lemma received_grows:
  "rr_received (snd (OnReceive q r)) \<subseteq> insert q (rr_received r)"
  by (auto simp: OnReceive_def PruneOld_def Let_def)

lemma acked_received:
  assumes "rr_latest r \<in> rr_received r"
  shows "acked (rr_latest r) (AckBits r) \<subseteq> rr_received r"
  using assms by (auto simp: acked_def bit_AckBits)

lemma CollectTimedOut_keys:
  "map fst (m_inFlight (snd (CollectTimedOut now s))) = map fst (m_inFlight s)"
  by (simp add: CollectTimedOut_def Let_def case_prod_beta comp_def)


section \<open>Retransmission timeout\<close>

lemma rto_constants: "rnd (2 / 10) \<le> MAX_RTO" "MIN_RTO \<le> rnd (2 / 10)" "MIN_RTO \<le> MAX_RTO" "0 < MIN_RTO"
  using rnd_bounds [of "2 / 10"] rnd_bounds [of "5 / 100"] by (simp_all add: MAX_RTO_def MIN_RTO_def)

lemma CurrentRto_bounds: "MIN_RTO \<le> CurrentRto s" "CurrentRto s \<le> MAX_RTO"
  using rto_constants by (auto simp: CurrentRto_def Let_def INITIAL_RTO_def)

text \<open>Whatever round trips were measured, the retransmission timeout stays between 50 ms and
  2 s, so a message that was sent (or resent) two seconds ago and is not acknowledged is always
  among those \<open>CollectTimedOut\<close> hands back, with its payload and its send count bumped.\<close>

theorem unacked_is_resent:
  assumes "map_of (m_inFlight s) q = Some f" and "2 \<le> dsub now (if_sentTime f)"
  shows "f\<lparr>if_sentTime := now, if_sendCount := if_sendCount f + 1\<rparr> \<in> set (fst (CollectTimedOut now s))"
proof -
  have "CurrentRto s \<le> dsub now (if_sentTime f)"
    using assms(2) CurrentRto_bounds(2) [of s] by (simp add: MAX_RTO_def)
  moreover have "(q, f) \<in> set (m_inFlight s)" using assms(1) by (rule map_of_SomeD)
  ultimately show ?thesis by (force simp: CollectTimedOut_def Let_def)
qed

theorem unacked_is_resent_witness:
  "\<lparr>if_sequence = 0, if_payload = [7], if_sentTime = 3, if_sendCount = 2\<rparr>
     \<in> set (fst (CollectTimedOut 3 (snd (Reliable_Send [7] 0 ReliableSender_new))))"
proof -
  let ?f = "\<lparr>if_sequence = 0, if_payload = [7], if_sentTime = 0, if_sendCount = 1\<rparr>"
  have "map_of (m_inFlight (snd (Reliable_Send [7] 0 ReliableSender_new))) 0 = Some ?f"
    by (simp add: Reliable_Send_def ReliableSender_new_def Let_def)
  moreover have "2 \<le> dsub 3 (if_sentTime ?f)" using rnd_of_int [of 3] by (simp add: dsub_def)
  ultimately show ?thesis
    using unacked_is_resent [of "snd (Reliable_Send [7] 0 ReliableSender_new)" 0 ?f 3] by simp
qed

section \<open>Duplicate detection against unbounded message numbers\<close>

text \<open>Messages are numbered \<open>0, 1, 2, \<dots>\<close> without wrap; the wire carries the number modulo
  65536.  \<open>near seen n\<close>: an arrival no more than 1024 behind and 31743 ahead of the newest one.\<close>

primrec receive_run :: "u16 list \<Rightarrow> ReliableReceiver \<Rightarrow> bool list" where
  "receive_run [] r = []"
| "receive_run (q # qs) r = (case OnReceive q r of (new, r') \<Rightarrow> new # receive_run qs r')"

primrec first_times :: "nat set \<Rightarrow> nat list \<Rightarrow> bool list" where
  "first_times seen [] = []"
| "first_times seen (n # ns) = (n \<notin> seen) # first_times (insert n seen) ns"

primrec near_max :: "nat \<Rightarrow> nat list \<Rightarrow> bool" where
  "near_max m [] \<longleftrightarrow> True"
| "near_max m (n # ns) \<longleftrightarrow> m \<le> n + 1024 \<and> n \<le> m + 31743 \<and> near_max (max m n) ns"

definition tracks :: "u16 \<Rightarrow> nat set \<Rightarrow> nat \<Rightarrow> ReliableReceiver \<Rightarrow> bool" where
  "tracks s seen m r \<longleftrightarrow>
     rr_seenAny r \<and> m \<in> seen \<and> (\<forall>n \<in> seen. n \<le> m) \<and> rr_latest r = s + of_nat m \<and>
     rr_received r = (\<lambda>n. s + of_nat n) ` {n \<in> seen. m \<le> n + 1024}"

lemma offset_inj:
  fixes s :: u16
  assumes "\<bar>int m - int n\<bar> < 32768"
  shows "s + of_nat m = s + of_nat n \<longleftrightarrow> m = n"
proof
  assume "s + of_nat m = s + of_nat n"
  then show "m = n" using window_order [OF assms, of s] by simp
qed simp

lemma OnReceive_fresh:
  assumes "rr_seenAny r" "q \<notin> rr_received r"
  shows "fst (OnReceive q r)" "rr_seenAny (snd (OnReceive q r))"
    "rr_latest (snd (OnReceive q r)) = (if SeqGreater q (rr_latest r) then q else rr_latest r)"
    "rr_received (snd (OnReceive q r)) =
       Set.filter (\<lambda>x. \<not> SeqDiff (if SeqGreater q (rr_latest r) then q else rr_latest r) x > 1024)
         (insert q (rr_received r))"
  using assms by (simp_all add: OnReceive_def PruneOld_def Let_def)

lemma tracks_OnReceive:
  assumes t: "tracks s seen m r" and n: "m \<le> n + 1024" "n \<le> m + 31743"
  shows "fst (OnReceive (s + of_nat n) r) = (n \<notin> seen) \<and>
    tracks s (insert n seen) (max m n) (snd (OnReceive (s + of_nat n) r))"
proof (cases "n \<in> seen")
  case True
  with t n have "s + of_nat n \<in> rr_received r" by (auto simp: tracks_def)
  moreover have "max m n = m" "insert n seen = seen" using t True by (auto simp: tracks_def)
  ultimately show ?thesis using t True by (simp add: OnReceive_def tracks_def)
next
  case False
  have new: "s + of_nat n \<notin> rr_received r"
  proof
    assume "s + of_nat n \<in> rr_received r"
    then obtain j where j: "j \<in> seen" "m \<le> j + 1024" "s + of_nat n = s + of_nat j"
      using t by (auto simp: tracks_def)
    moreover have "j \<le> m" using t j(1) by (simp add: tracks_def)
    ultimately have "n = j" using n offset_inj [of n j s] by auto
    with False j(1) show False by simp
  qed
  have latest: "(if SeqGreater (s + of_nat n) (s + of_nat m) then s + of_nat n else s + of_nat m) = s + of_nat (max m n)"
    using window_order [of n m s] n by auto
  have keep: "\<not> SeqDiff (s + of_nat (max m n)) (s + of_nat j) > 1024 \<longleftrightarrow> max m n \<le> j + 1024"
    if "j \<le> m \<or> j = n" "m \<le> j + 1024" for j
    using window_order [of "max m n" j s] that n by auto
  have "Set.filter (\<lambda>x. \<not> SeqDiff (s + of_nat (max m n)) x > 1024)
      (insert (s + of_nat n) ((\<lambda>n. s + of_nat n) ` {j \<in> seen. m \<le> j + 1024})) =
      (\<lambda>n. s + of_nat n) ` {j \<in> insert n seen. max m n \<le> j + 1024}"
    (is "?L = ?R")
  proof -
    have le: "j \<le> m" if "j \<in> seen" for j using t that by (simp add: tracks_def)
    have "?L = (\<lambda>n. s + of_nat n) ` {j \<in> insert n seen. m \<le> j + 1024 \<and> \<not> SeqDiff (s + of_nat (max m n)) (s + of_nat j) > 1024}"
      using n by auto
    also have "{j \<in> insert n seen. m \<le> j + 1024 \<and> \<not> SeqDiff (s + of_nat (max m n)) (s + of_nat j) > 1024} =
        {j \<in> insert n seen. max m n \<le> j + 1024}"
    proof (rule Collect_cong)
      fix j
      show "j \<in> insert n seen \<and> m \<le> j + 1024 \<and> \<not> SeqDiff (s + of_nat (max m n)) (s + of_nat j) > 1024 \<longleftrightarrow>
          j \<in> insert n seen \<and> max m n \<le> j + 1024"
        using keep [of j] le [of j] by (cases "j \<in> insert n seen"; cases "m \<le> j + 1024") auto
    qed
    finally show ?thesis .
  qed
  moreover have any: "rr_seenAny r" and l: "rr_latest r = s + of_nat m"
    and set: "rr_received r = (\<lambda>n. s + of_nat n) ` {n \<in> seen. m \<le> n + 1024}"
    using t by (simp_all add: tracks_def)
  note fresh = OnReceive_fresh [OF any new, unfolded l latest set]
  ultimately have "rr_received (snd (OnReceive (s + of_nat n) r)) =
      (\<lambda>n. s + of_nat n) ` {j \<in> insert n seen. max m n \<le> j + 1024}"
    using fresh(4) by simp
  then show ?thesis
    using t False fresh(1-3) unfolding tracks_def by (auto simp: max_def)
qed

lemma receive_run_tracks:
  "tracks s seen m r \<Longrightarrow> near_max m ns \<Longrightarrow>
     receive_run (map (\<lambda>n. s + of_nat n) ns) r = first_times seen ns"
proof (induction ns arbitrary: seen m r)
  case (Cons n ns)
  then show ?case using tracks_OnReceive [OF Cons.prems(1), of n] by (auto split: prod.splits)
qed simp

text \<open>Duplicates are recognised exactly.  Number the messages of a channel without bound and
  let them arrive in any order, with repetitions, as long as no arrival is more than 1024 behind or
  31743 ahead of the newest one: the receiver, which sees only 16-bit numbers and keeps a bounded
  set, hands each message up exactly the first time it arrives, through any number of wraps.\<close>

theorem duplicates_dropped_exactly:
  assumes "near_max n ns"
  shows "receive_run (map (\<lambda>k. s + of_nat k) (n # ns)) ReliableReceiver_new = first_times {} (n # ns)"
proof -
  have "tracks s {n} n (snd (OnReceive (s + of_nat n) ReliableReceiver_new))"
    by (auto simp: tracks_def OnReceive_def ReliableReceiver_new_def)
  from receive_run_tracks [OF this assms] show ?thesis
    by (simp add: OnReceive_def ReliableReceiver_new_def)
qed

theorem duplicates_dropped_exactly_witness:
  "receive_run (map (\<lambda>k. 65535 + of_nat k) [0, 1, 3, 1, 2, 0]) ReliableReceiver_new
     = [True, True, True, False, True, False]"
  using duplicates_dropped_exactly [of 0 "[1, 3, 1, 2, 0]" 65535] by (simp del: of_nat_0 of_nat_1)

text \<open>The bound matters: a message that arrives again once the newest is more than 1024 ahead
  has been forgotten and is handed up a second time.\<close>

lemma stale_duplicate_accepted:
  "receive_run [0, 1025, 0] ReliableReceiver_new = [True, True, True]"
proof -
  have "SeqDiff 1025 0 = 1025" "SeqDiff 1025 1025 = 0" "SeqGreater 1025 0"
    using window_order [of 1025 0 0] by simp_all
  then show ?thesis
    by (auto simp: OnReceive_def ReliableReceiver_new_def PruneOld_def Let_def)
qed

section \<open>Two ends over a network that loses, duplicates and reorders\<close>

text \<open>One direction of a channel.  Messages are numbered \<open>0, 1, 2, \<dots>\<close> without wrap in the order
  they were handed to \<open>Send\<close>; the numbers are ghost data, the code sees only the 16-bit sequence
  beside each.  The state holds the two ends, the payloads handed to \<open>Send\<close>, the messages and
  acknowledgements ever put on the network (any of them may arrive any number of times, in any order,
  or never; an acknowledgement carries the number of the message its \<open>ack\<close> field names) and the
  messages the receiver accepted.\<close>

record Link =
  lk_sender :: ReliableSender
  lk_receiver :: ReliableReceiver
  lk_sent :: "bytes list"
  lk_wire :: "(nat \<times> u16 \<times> bytes) set"
  lk_acks :: "(nat \<times> u16 \<times> u32) set"
  lk_accepted :: "(nat \<times> bytes) list"

definition Link_new :: Link where
  "Link_new = \<lparr>lk_sender = ReliableSender_new, lk_receiver = ReliableReceiver_new, lk_sent = [],
     lk_wire = {}, lk_acks = {}, lk_accepted = []\<rparr>"

definition newest_number :: "nat \<Rightarrow> u16 \<Rightarrow> nat" where
  "newest_number n q = n - 1 - unat (of_nat (n - 1) - q)"

abbreviation lk_numbers :: "Link \<Rightarrow> nat set" where
  "lk_numbers l \<equiv> fst ` set (lk_accepted l)"

definition link_send :: "bytes \<Rightarrow> double \<Rightarrow> Link \<Rightarrow> Link" where
  "link_send payload now l =
     (case Reliable_Send payload now (lk_sender l) of (seq, s) \<Rightarrow>
       l\<lparr>lk_sender := s, lk_sent := lk_sent l @ [payload],
         lk_wire := insert (length (lk_sent l), seq, payload) (lk_wire l)\<rparr>)"

definition link_resend :: "double \<Rightarrow> Link \<Rightarrow> Link" where
  "link_resend now l =
     (case CollectTimedOut now (lk_sender l) of (out, s) \<Rightarrow>
       l\<lparr>lk_sender := s,
         lk_wire := (\<lambda>f. (newest_number (length (lk_sent l)) (if_sequence f), if_sequence f, if_payload f)) ` set out
           \<union> lk_wire l\<rparr>)"

definition link_deliver :: "nat \<times> u16 \<times> bytes \<Rightarrow> Link \<Rightarrow> Link" where
  "link_deliver m l =
     (case m of (k, q, p) \<Rightarrow>
        (case OnReceive q (lk_receiver l) of (new, r) \<Rightarrow>
          l\<lparr>lk_receiver := r, lk_accepted := lk_accepted l @ (if new then [(k, p)] else [])\<rparr>))"

definition link_ack :: "Link \<Rightarrow> Link" where
  "link_ack l = l\<lparr>lk_acks := insert (Max (lk_numbers l), rr_latest (lk_receiver l), AckBits (lk_receiver l)) (lk_acks l)\<rparr>"

definition link_acked :: "u16 \<Rightarrow> u32 \<Rightarrow> double \<Rightarrow> Link \<Rightarrow> Link" where
  "link_acked ack ackBits now l = l\<lparr>lk_sender := OnAck ack ackBits now (lk_sender l)\<rparr>"

text \<open>What the 16-bit numbers leave to their users.  A message is sent only when no message in
  flight still holds its sequence (\<open>Send\<close> would overwrite it: the table is keyed by the sequence);
  a message arrives at most 1024 behind and 31743 ahead of the newest accepted; an acknowledgement is
  processed at most 65504 messages after the one it names.\<close>

definition arrives_near :: "nat \<Rightarrow> Link \<Rightarrow> bool" where
  "arrives_near k l \<longleftrightarrow> lk_accepted l \<noteq> [] \<longrightarrow>
     Max (lk_numbers l) \<le> k + 1024 \<and> k \<le> Max (lk_numbers l) + 31743"

inductive link_reach :: "Link \<Rightarrow> bool" where
  start: "link_reach Link_new"
| send: "link_reach l \<Longrightarrow> map_of (m_inFlight (lk_sender l)) (m_nextSequence (lk_sender l)) = None
     \<Longrightarrow> link_reach (link_send payload now l)"
| resend: "link_reach l \<Longrightarrow> link_reach (link_resend now l)"
| deliver: "link_reach l \<Longrightarrow> (k, q, p) \<in> lk_wire l \<Longrightarrow> arrives_near k l \<Longrightarrow> link_reach (link_deliver (k, q, p) l)"
| ack: "link_reach l \<Longrightarrow> rr_seenAny (lk_receiver l) \<Longrightarrow> link_reach (link_ack l)"
| acked: "link_reach l \<Longrightarrow> (k, a, bits) \<in> lk_acks l \<Longrightarrow> length (lk_sent l) \<le> k + 65504
     \<Longrightarrow> link_reach (link_acked a bits now l)"

text \<open>The invariant: what is on the wire and in flight, what the receiver holds, what the
  acknowledgements name, and that every message is with one of the two ends.\<close>

definition sender_ok :: "Link \<Rightarrow> bool" where
  "sender_ok l \<longleftrightarrow>
     m_nextSequence (lk_sender l) = of_nat (length (lk_sent l)) \<and>
     (\<forall>(k, q, p) \<in> lk_wire l. k < length (lk_sent l) \<and> q = of_nat k \<and> p = lk_sent l ! k) \<and>
     (\<forall>(q, f) \<in> set (m_inFlight (lk_sender l)). \<exists>j < length (lk_sent l). length (lk_sent l) \<le> j + 65536 \<and>
        q = of_nat j \<and> if_sequence f = q \<and> if_payload f = lk_sent l ! j)"

definition receiver_ok :: "Link \<Rightarrow> bool" where
  "receiver_ok l \<longleftrightarrow>
     (\<forall>(k, p) \<in> set (lk_accepted l). k < length (lk_sent l) \<and> p = lk_sent l ! k) \<and>
     distinct (map fst (lk_accepted l)) \<and>
     (if lk_accepted l = [] then lk_receiver l = ReliableReceiver_new
      else tracks 0 (lk_numbers l) (Max (lk_numbers l)) (lk_receiver l))"

definition acks_ok :: "Link \<Rightarrow> bool" where
  "acks_ok l \<longleftrightarrow> (\<forall>(k, a, bits) \<in> lk_acks l. k < length (lk_sent l) \<and>
     (\<forall>q \<in> acked a bits. \<exists>j \<in> lk_numbers l. j \<le> k \<and> k \<le> j + 32 \<and> q = of_nat j))"

definition all_held :: "Link \<Rightarrow> bool" where
  "all_held l \<longleftrightarrow> (\<forall>k < length (lk_sent l). k \<in> lk_numbers l \<or>
     length (lk_sent l) \<le> k + 65536 \<and> map_of (m_inFlight (lk_sender l)) (of_nat k) \<noteq> None)"

lemma set_alist_update: "set (AList.update k v al) \<subseteq> insert (k, v) (set al)"
  by (induction al) auto

lemma OnAck_subset: "set (m_inFlight (OnAck ack ackBits now s)) \<subseteq> set (m_inFlight s)"
  "m_nextSequence (OnAck ack ackBits now s) = m_nextSequence s"
proof -
  have 1: "set (m_inFlight (AckOne q now s)) \<subseteq> set (m_inFlight s)" "m_nextSequence (AckOne q now s) = m_nextSequence s" for q s
    by (auto simp: AckOne_inFlight AList.delete_eq)
      (simp add: AckOne_def UpdateRtt_def Let_def split: option.splits)
  have "set (m_inFlight (fold (\<lambda>i s. if drop_bit i ackBits AND 1 \<noteq> 0
          then AckOne (ack - 1 - of_nat i) now s else s) is s)) \<subseteq> set (m_inFlight s) \<and>
      m_nextSequence (fold (\<lambda>i s. if drop_bit i ackBits AND 1 \<noteq> 0
          then AckOne (ack - 1 - of_nat i) now s else s) is s) = m_nextSequence s" for "is" s
  proof (induction "is" arbitrary: s)
    case (Cons i "is")
    show ?case
      using Cons.IH [of "AckOne (ack - 1 - of_nat i) now s"] Cons.IH [of s]
        1 [of "ack - 1 - of_nat i" s] by (simp del: AList.delete_simps) (meson order_trans)
  qed simp
  from this [of "[0..<32]" "AckOne ack now s", folded OnAck_def] 1 [of ack s]
  show "set (m_inFlight (OnAck ack ackBits now s)) \<subseteq> set (m_inFlight s)"
    "m_nextSequence (OnAck ack ackBits now s) = m_nextSequence s"
    by (meson order_trans, simp)
qed

lemma unat_of_nat16: "n < 65536 \<Longrightarrow> unat (of_nat n :: u16) = n"
  by (simp add: unsigned_of_nat take_bit_eq_mod)

lemma of_nat16_wrap: "(of_nat (n + 65536) :: u16) = of_nat n"
proof -
  have "(of_nat (n + 65536) :: u16) = of_nat n + of_nat 65536" by (rule of_nat_add)
  moreover have "(of_nat 65536 :: u16) = 0" by (simp add: word_unat_eq_iff)
  ultimately show ?thesis by (simp only: add_0_right)
qed

lemma of_nat16_eq_iff:
  assumes "\<bar>int m - int n\<bar> < 65536"
  shows "(of_nat m :: u16) = of_nat n \<longleftrightarrow> m = n"
proof -
  have le: "m = n" if "n \<le> m" "m < n + 65536" "(of_nat m :: u16) = of_nat n" for m n :: nat
  proof -
    have "(of_nat (m - n) :: u16) = of_nat m - of_nat n" using that(1) by (rule of_nat_diff)
    then have "unat (of_nat (m - n) :: u16) = 0" using that(3) by simp
    with that(1,2) show ?thesis by (simp only: unat_of_nat16 [of "m - n"])
  qed
  show ?thesis using le [of m n] le [of n m] assms by (cases "n \<le> m") auto
qed

lemma newest_number_of_nat:
  assumes "j < n" "n \<le> j + 65536"
  shows "newest_number n (of_nat j) = j"
proof -
  have d: "(of_nat (n - 1 - j) :: u16) = of_nat (n - 1) - of_nat j" using assms(1) by (intro of_nat_diff) simp
  have "unat (of_nat (n - 1) - of_nat j :: u16) = n - 1 - j"
    unfolding d [symmetric] using assms by (intro unat_of_nat16) simp
  then show ?thesis using assms(1) unfolding newest_number_def by simp
qed

section \<open>The invariant is kept\<close>

lemma map_of_no_key: "map_of al q = None \<Longrightarrow> (q, f) \<in> set al \<Longrightarrow> False"
  by (force simp: map_of_eq_None_iff)

lemma sender_ok_send:
  assumes ok: "sender_ok l" and free: "map_of (m_inFlight (lk_sender l)) (m_nextSequence (lk_sender l)) = None"
  shows "sender_ok (link_send payload now l)"
proof -
  let ?n = "length (lk_sent l)"
  have nxt: "m_nextSequence (lk_sender l) = of_nat ?n" using ok by (simp add: sender_ok_def)
  have old: "\<exists>j < Suc ?n. Suc ?n \<le> j + 65536 \<and> q = of_nat j \<and> if_sequence f = q \<and>
      if_payload f = (lk_sent l @ [payload]) ! j" if "(q, f) \<in> set (m_inFlight (lk_sender l))" for q f
  proof -
    obtain j where j: "j < ?n" "?n \<le> j + 65536" "q = of_nat j" "if_sequence f = q" "if_payload f = lk_sent l ! j"
      using ok \<open>(q, f) \<in> _\<close> by (fastforce simp: sender_ok_def)
    have "?n \<noteq> j + 65536"
    proof
      assume "?n = j + 65536"
      then have "(of_nat ?n :: u16) = of_nat j" by (simp only: of_nat16_wrap)
      then show False using map_of_no_key [OF free] that j(3) nxt by simp
    qed
    with j show ?thesis by (intro exI [of _ j]) (simp add: nth_append)
  qed
  have "set (m_inFlight (lk_sender (link_send payload now l))) \<subseteq>
      insert (of_nat ?n, \<lparr>if_sequence = of_nat ?n, if_payload = payload, if_sentTime = now, if_sendCount = 1\<rparr>)
        (set (m_inFlight (lk_sender l)))"
    using set_alist_update by (fastforce simp: link_send_def Reliable_Send_def Let_def nxt)
  then have "\<forall>(q, f) \<in> set (m_inFlight (lk_sender (link_send payload now l))). \<exists>j < Suc ?n. Suc ?n \<le> j + 65536 \<and>
      q = of_nat j \<and> if_sequence f = q \<and> if_payload f = (lk_sent l @ [payload]) ! j"
    using old by fastforce
  moreover have "\<forall>(k, q, p) \<in> lk_wire (link_send payload now l). k < Suc ?n \<and> q = of_nat k \<and> p = (lk_sent l @ [payload]) ! k"
    using ok by (fastforce simp: link_send_def Reliable_Send_def Let_def sender_ok_def nth_append)
  ultimately show ?thesis
    unfolding sender_ok_def by (simp add: link_send_def Reliable_Send_def Let_def nxt)
qed

lemma sender_ok_resend:
  assumes ok: "sender_ok l"
  shows "sender_ok (link_resend now l)"
proof -
  let ?n = "length (lk_sent l)" and ?s = "lk_sender l"
  have entry: "\<exists>j < ?n. ?n \<le> j + 65536 \<and> q = of_nat j \<and> if_sequence f = q \<and> if_payload f = lk_sent l ! j"
    if "(q, f) \<in> set (m_inFlight ?s)" for q f using ok that by (fastforce simp: sender_ok_def)
  have "\<exists>j < ?n. ?n \<le> j + 65536 \<and> q = of_nat j \<and> if_sequence f = q \<and> if_payload f = lk_sent l ! j"
    if "(q, f) \<in> set (m_inFlight (snd (CollectTimedOut now ?s)))" for q f
    using that entry by (fastforce simp: CollectTimedOut_def Let_def)
  moreover have "\<exists>j < ?n. ?n \<le> j + 65536 \<and> if_sequence f = of_nat j \<and> if_payload f = lk_sent l ! j"
    if "f \<in> set (fst (CollectTimedOut now ?s))" for f
    using that entry by (fastforce simp: CollectTimedOut_def Let_def)
  then have "newest_number ?n (if_sequence f) < ?n \<and> if_sequence f = of_nat (newest_number ?n (if_sequence f)) \<and>
      if_payload f = lk_sent l ! newest_number ?n (if_sequence f)"
    if "f \<in> set (fst (CollectTimedOut now ?s))" for f
    using that newest_number_of_nat by fastforce
  moreover have "m_nextSequence (snd (CollectTimedOut now ?s)) = of_nat ?n"
    using ok by (simp add: CollectTimedOut_def Let_def sender_ok_def)
  ultimately show ?thesis
    using ok unfolding sender_ok_def link_resend_def by (fastforce split: prod.splits)
qed

lemma sender_ok_same:
  assumes "sender_ok l" "lk_sender l' = lk_sender l" "lk_sent l' = lk_sent l" "lk_wire l' = lk_wire l"
  shows "sender_ok l'"
  using assms by (simp add: sender_ok_def)

lemma sender_ok_acked:
  assumes "sender_ok l"
  shows "sender_ok (link_acked a bits now l)"
  using assms OnAck_subset [of a bits now "lk_sender l"]
  unfolding sender_ok_def link_acked_def by auto

lemma receiver_ok_deliver:
  assumes ok: "receiver_ok l" and "sender_ok l" and wire: "(k, q, p) \<in> lk_wire l" and "arrives_near k l"
  shows "receiver_ok (link_deliver (k, q, p) l)"
    and "lk_numbers (link_deliver (k, q, p) l) = insert k (lk_numbers l)"
proof -
  let ?r = "lk_receiver l" and ?acc = "lk_accepted l"
  obtain new r' where o: "OnReceive q ?r = (new, r')" by (cases "OnReceive q ?r")
  have q: "q = 0 + of_nat k" and k: "k < length (lk_sent l)" "p = lk_sent l ! k"
    using assms(2) wire by (fastforce simp: sender_ok_def)+
  have step: "new = (k \<notin> lk_numbers l) \<and>
      tracks 0 (insert k (lk_numbers l)) (Max (insert k (lk_numbers l))) r'"
  proof (cases "?acc = []")
    case True
    then have "?r = ReliableReceiver_new" using ok by (simp add: receiver_ok_def)
    then have "new = True" "r' = \<lparr>rr_seenAny = True, rr_latest = q, rr_received = {q}\<rparr>"
      using o by (simp_all add: OnReceive_def ReliableReceiver_new_def)
    then show ?thesis using True by (auto simp: tracks_def q)
  next
    case False
    then have t: "tracks 0 (lk_numbers l) (Max (lk_numbers l)) ?r" using ok by (simp add: receiver_ok_def)
    have n: "Max (lk_numbers l) \<le> k + 1024" "k \<le> Max (lk_numbers l) + 31743"
      using assms(4) False by (simp_all add: arrives_near_def)
    have "Max (insert k (lk_numbers l)) = max (Max (lk_numbers l)) k"
      using False by (simp add: max.commute)
    then show ?thesis using tracks_OnReceive [OF t n] o unfolding q by simp
  qed
  show nums: "lk_numbers (link_deliver (k, q, p) l) = insert k (lk_numbers l)"
    using step by (auto simp: link_deliver_def o image_iff)
  have "distinct (map fst (lk_accepted (link_deliver (k, q, p) l)))"
    using ok step by (auto simp: link_deliver_def o receiver_ok_def)
  moreover have "\<forall>(j, p') \<in> set (lk_accepted (link_deliver (k, q, p) l)). j < length (lk_sent l) \<and> p' = lk_sent l ! j"
    using ok k by (auto simp: link_deliver_def o receiver_ok_def)
  moreover have "lk_accepted (link_deliver (k, q, p) l) \<noteq> []" using nums by fastforce
  moreover have "lk_sent (link_deliver (k, q, p) l) = lk_sent l" "lk_receiver (link_deliver (k, q, p) l) = r'"
    by (simp_all add: link_deliver_def o)
  ultimately show "receiver_ok (link_deliver (k, q, p) l)"
    unfolding receiver_ok_def nums using step by simp
qed

lemma receiver_ok_same:
  assumes "receiver_ok l" "lk_receiver l' = lk_receiver l" "lk_accepted l' = lk_accepted l"
    "lk_sent l' = lk_sent l @ xs"
  shows "receiver_ok l'"
  using assms by (fastforce simp: receiver_ok_def nth_append)

lemma acks_ok_ack:
  assumes ok: "receiver_ok l" and any: "rr_seenAny (lk_receiver l)" and "acks_ok l"
  shows "acks_ok (link_ack l)"
proof -
  let ?r = "lk_receiver l" and ?m = "Max (lk_numbers l)"
  have "lk_accepted l \<noteq> []" using ok any by (auto simp: receiver_ok_def ReliableReceiver_new_def)
  then have t: "tracks 0 (lk_numbers l) ?m ?r" and m: "?m \<in> lk_numbers l"
    using ok by (simp_all add: receiver_ok_def)
  have "?m < length (lk_sent l)" using ok m by (force simp: receiver_ok_def)
  moreover have "\<exists>j \<in> lk_numbers l. j \<le> ?m \<and> ?m \<le> j + 32 \<and> q = of_nat j"
    if q: "q \<in> acked (rr_latest ?r) (AckBits ?r)" for q
  proof (cases "q = rr_latest ?r")
    case True
    then show ?thesis using t m by (intro bexI [of _ ?m]) (simp_all add: tracks_def)
  next
    case False
    then obtain i where i: "i < 32" "q = rr_latest ?r - 1 - of_nat i" "q \<in> rr_received ?r"
      using q by (auto simp: acked_def bit_AckBits)
    then obtain j where j: "j \<in> lk_numbers l" "?m \<le> j + 1024" "q = of_nat j" using t by (auto simp: tracks_def)
    have le: "j \<le> ?m" using t j(1) by (simp add: tracks_def)
    have "(of_nat ?m :: u16) = of_nat (j + (1 + i))"
    proof -
      have "rr_latest ?r = of_nat ?m" using t by (simp add: tracks_def)
      then have "(of_nat ?m :: u16) = (of_nat ?m - 1 - of_nat i) + (1 + of_nat i)" by simp
      also have "of_nat ?m - 1 - of_nat i = (of_nat j :: u16)" using i(2) j(3) \<open>rr_latest ?r = of_nat ?m\<close> by simp
      finally show ?thesis by simp
    qed
    moreover have "\<bar>int ?m - int (j + (1 + i))\<bar> < 65536" using i(1) j(2) le by linarith
    ultimately have "?m = j + (1 + i)" by (rule of_nat16_eq_iff [THEN iffD1, rotated])
    then have "j \<le> ?m \<and> ?m \<le> j + 32" using i(1) by linarith
    with j(1,3) show ?thesis by blast
  qed
  ultimately show ?thesis using assms(3) by (auto simp: acks_ok_def link_ack_def)
qed

lemma acks_ok_same:
  assumes "acks_ok l" "lk_acks l' = lk_acks l" "lk_numbers l \<subseteq> lk_numbers l'" "lk_sent l' = lk_sent l @ xs"
  shows "acks_ok l'"
  unfolding acks_ok_def
proof (intro ballI, clarify)
  fix k a bits assume "(k, a, bits) \<in> lk_acks l'"
  then have a: "k < length (lk_sent l)" "\<forall>q \<in> acked a bits. \<exists>j \<in> lk_numbers l. j \<le> k \<and> k \<le> j + 32 \<and> q = of_nat j"
    using assms(1,2) by (auto simp: acks_ok_def)
  show "k < length (lk_sent l') \<and> (\<forall>q \<in> acked a bits. \<exists>j \<in> lk_numbers l'. j \<le> k \<and> k \<le> j + 32 \<and> q = of_nat j)"
    proof (intro conjI ballI)
    show "k < length (lk_sent l')" using a(1) assms(4) by simp
    fix q assume "q \<in> acked a bits"
    then obtain j where "j \<in> lk_numbers l" "j \<le> k" "k \<le> j + 32" "q = of_nat j" using a(2) by blast
    with assms(3) show "\<exists>j \<in> lk_numbers l'. j \<le> k \<and> k \<le> j + 32 \<and> q = of_nat j" by blast
  qed
qed

lemma all_held_send:
  assumes held: "all_held l" and ok: "sender_ok l"
    and free: "map_of (m_inFlight (lk_sender l)) (m_nextSequence (lk_sender l)) = None"
  shows "all_held (link_send payload now l)"
proof -
  let ?n = "length (lk_sent l)" and ?l = "link_send payload now l"
  have nxt: "m_nextSequence (lk_sender l) = of_nat ?n" using ok by (simp add: sender_ok_def)
  have fl: "m_inFlight (lk_sender ?l) = AList.update (of_nat ?n)
      \<lparr>if_sequence = of_nat ?n, if_payload = payload, if_sentTime = now, if_sendCount = 1\<rparr> (m_inFlight (lk_sender l))"
    by (simp add: link_send_def Reliable_Send_def Let_def nxt)
  have "k \<in> lk_numbers l \<or> Suc ?n \<le> k + 65536 \<and> map_of (m_inFlight (lk_sender ?l)) (of_nat k) \<noteq> None"
    if "k < Suc ?n" for k
  proof (cases "k = ?n \<or> k \<in> lk_numbers l")
    case True
    then show ?thesis by (auto simp: fl update_conv')
  next
    case False
    then have k: "?n \<le> k + 65536" "map_of (m_inFlight (lk_sender l)) (of_nat k) \<noteq> None"
      using held that False less_antisym unfolding all_held_def by blast+
    have "?n \<noteq> k + 65536"
    proof
      assume "?n = k + 65536"
      then have "(of_nat ?n :: u16) = of_nat k" by (simp only: of_nat16_wrap)
      then show False using free k(2) nxt by simp
    qed
    then show ?thesis using k by (simp add: fl update_conv')
  qed
  moreover have "lk_accepted ?l = lk_accepted l" "lk_sent ?l = lk_sent l @ [payload]"
    by (simp_all add: link_send_def Reliable_Send_def Let_def)
  ultimately show ?thesis by (simp add: all_held_def)
qed

lemma all_held_more:
  assumes "all_held l" "lk_sent l' = lk_sent l" "lk_numbers l \<subseteq> lk_numbers l'"
    "\<And>q. map_of (m_inFlight (lk_sender l')) q = None \<longleftrightarrow> map_of (m_inFlight (lk_sender l)) q = None"
  shows "all_held l'"
  using assms(1,3) unfolding all_held_def assms(2,4) by blast

lemma all_held_acked:
  assumes held: "all_held l" and "acks_ok l" and ack: "(m, a, bits) \<in> lk_acks l" and fresh: "length (lk_sent l) \<le> m + 65504"
  shows "all_held (link_acked a bits now l)"
proof -
  let ?n = "length (lk_sent l)"
  have "m < ?n" and named: "\<exists>j \<in> lk_numbers l. j \<le> m \<and> m \<le> j + 32 \<and> q = of_nat j" if "q \<in> acked a bits" for q
    using assms(2) ack that by (auto simp: acks_ok_def)
  have "of_nat k \<notin> acked a bits" if k: "k < ?n" "?n \<le> k + 65536" "k \<notin> lk_numbers l" for k
  proof
    assume "of_nat k \<in> acked a bits"
    from named [OF this] \<open>of_nat k \<in> acked a bits\<close> obtain j
      where j: "j \<in> lk_numbers l" "j \<le> m" "m \<le> j + 32" "(of_nat k :: u16) = of_nat j" and "m < ?n"
      using assms(2) ack by (auto simp: acks_ok_def)
    then have "k = j" using of_nat16_eq_iff [of k j] k(1,2) fresh by simp
    with j(1) k(3) show False by simp
  qed
  then show ?thesis
    using held unfolding all_held_def link_acked_def by (auto simp: OnAck_inFlight)
qed

definition link_ok :: "Link \<Rightarrow> bool" where
  "link_ok l \<longleftrightarrow> sender_ok l \<and> receiver_ok l \<and> acks_ok l \<and> all_held l"

lemma link_ok_step:
  shows link_ok_new: "link_ok Link_new"
    and link_ok_send: "link_ok l \<Longrightarrow> map_of (m_inFlight (lk_sender l)) (m_nextSequence (lk_sender l)) = None
      \<Longrightarrow> link_ok (link_send payload now l)"
    and link_ok_resend: "link_ok l \<Longrightarrow> link_ok (link_resend now l)"
    and link_ok_deliver: "link_ok l \<Longrightarrow> (k, q, p) \<in> lk_wire l \<Longrightarrow> arrives_near k l \<Longrightarrow> link_ok (link_deliver (k, q, p) l)"
    and link_ok_ack: "link_ok l \<Longrightarrow> rr_seenAny (lk_receiver l) \<Longrightarrow> link_ok (link_ack l)"
    and link_ok_acked: "link_ok l \<Longrightarrow> (k, a, bits) \<in> lk_acks l \<Longrightarrow> length (lk_sent l) \<le> k + 65504
      \<Longrightarrow> link_ok (link_acked a bits now l)"
proof -
  show "link_ok Link_new"
    by (simp add: link_ok_def sender_ok_def receiver_ok_def acks_ok_def all_held_def Link_new_def ReliableSender_new_def)
  show "link_ok (link_send payload now l)"
    if l: "link_ok l" and free: "map_of (m_inFlight (lk_sender l)) (m_nextSequence (lk_sender l)) = None"
  proof -
    have "sender_ok l" "receiver_ok l" "acks_ok l" "all_held l" using l by (simp_all add: link_ok_def)
    moreover have "lk_receiver (link_send payload now l) = lk_receiver l" "lk_acks (link_send payload now l) = lk_acks l"
      "lk_accepted (link_send payload now l) = lk_accepted l" "lk_sent (link_send payload now l) = lk_sent l @ [payload]"
      by (simp_all add: link_send_def Reliable_Send_def Let_def)
    ultimately show ?thesis
      unfolding link_ok_def using free sender_ok_send all_held_send
        receiver_ok_same [of l "link_send payload now l"] acks_ok_same [of l "link_send payload now l"] by simp
  qed
  show "link_ok (link_resend now l)" if l: "link_ok l"
  proof -
    have "sender_ok l" "receiver_ok l" "acks_ok l" "all_held l" using l by (simp_all add: link_ok_def)
    moreover have same: "lk_receiver (link_resend now l) = lk_receiver l" "lk_acks (link_resend now l) = lk_acks l"
      "lk_accepted (link_resend now l) = lk_accepted l" "lk_sent (link_resend now l) = lk_sent l"
      by (simp_all add: link_resend_def split: prod.splits)
    moreover have "map_of (m_inFlight (lk_sender (link_resend now l))) x = None \<longleftrightarrow> map_of (m_inFlight (lk_sender l)) x = None" for x
    proof -
      have "m_inFlight (lk_sender (link_resend now l)) = m_inFlight (snd (CollectTimedOut now (lk_sender l)))"
        by (simp add: link_resend_def split: prod.splits)
      then have "fst ` set (m_inFlight (lk_sender (link_resend now l))) = fst ` set (m_inFlight (lk_sender l))"
        using CollectTimedOut_keys [of now "lk_sender l", THEN arg_cong [of _ _ set]] by simp
      then show ?thesis by (simp add: map_of_eq_None_iff)
    qed
    ultimately show ?thesis
      unfolding link_ok_def using sender_ok_resend all_held_more [of l "link_resend now l"]
        receiver_ok_same [of l "link_resend now l" "[]"] acks_ok_same [of l "link_resend now l" "[]"] by simp
  qed
  show "link_ok (link_deliver (k, q, p) l)"
    if l: "link_ok l" and w: "(k, q, p) \<in> lk_wire l" and near: "arrives_near k l"
  proof -
    let ?l = "link_deliver (k, q, p) l"
    have ok: "sender_ok l" "receiver_ok l" "acks_ok l" "all_held l" using l by (simp_all add: link_ok_def)
    have same: "lk_sender ?l = lk_sender l" "lk_sent ?l = lk_sent l" "lk_wire ?l = lk_wire l" "lk_acks ?l = lk_acks l"
      by (simp_all add: link_deliver_def split: prod.splits)
    have r: "receiver_ok ?l" and grow: "lk_numbers l \<subseteq> lk_numbers ?l"
      using receiver_ok_deliver [OF ok(2,1) w near] by blast+
    show ?thesis
      unfolding link_ok_def using sender_ok_same [OF ok(1) same(1-3)] r
        acks_ok_same [OF ok(3) same(4) grow, of "[]"] all_held_more [OF ok(4) same(2) grow] by (simp add: same)
  qed
  show "link_ok (link_ack l)" if l: "link_ok l" and any: "rr_seenAny (lk_receiver l)"
  proof -
    have ok: "sender_ok l" "receiver_ok l" "acks_ok l" "all_held l" using l by (simp_all add: link_ok_def)
    then show ?thesis
      unfolding link_ok_def using acks_ok_ack [OF ok(2) any ok(3)] sender_ok_same [of l "link_ack l"]
        receiver_ok_same [of l "link_ack l" "[]"] all_held_more [of l "link_ack l"] by (simp add: link_ack_def)
  qed
  show "link_ok (link_acked a bits now l)"
    if l: "link_ok l" and ack: "(k, a, bits) \<in> lk_acks l" "length (lk_sent l) \<le> k + 65504"
  proof -
    have ok: "sender_ok l" "receiver_ok l" "acks_ok l" "all_held l" using l by (simp_all add: link_ok_def)
    then show ?thesis
      unfolding link_ok_def using sender_ok_acked [OF ok(1)] all_held_acked [OF ok(4,3) ack]
        receiver_ok_same [of l "link_acked a bits now l" "[]"] acks_ok_same [of l "link_acked a bits now l" "[]"]
      by (simp add: link_acked_def)
  qed
qed

lemma link_invariant:
  assumes "link_reach l"
  shows "link_ok l"
  using assms
  by (induction rule: link_reach.induct)
    (blast intro: link_ok_new link_ok_send link_ok_resend link_ok_deliver link_ok_ack link_ok_acked)+

text \<open>C4: Nothing is lost silently, and nothing is delivered twice, through any number of wraps of
  the 16-bit sequence.  Over a network that drops, duplicates and reorders both messages and
  acknowledgements, with any pattern of retransmissions, message number \<open>k\<close> of a channel is still in
  flight under its own sequence with its own payload, so it will be resent, or the receiver has
  accepted exactly that payload; and the accepted messages are messages that were sent, each accepted
  once.  Three bounds on the network stand in \<open>link_reach\<close>: no message is sent while its sequence is
  in flight for an older one (65536 messages back), arrivals lie between 1024 behind and 31743 ahead
  of the newest accepted message, and no acknowledgement is processed more than 65504 messages after
  the one it names.\<close>

theorem no_message_lost:
  assumes "link_reach l" and "k < length (lk_sent l)"
  shows "((\<exists>f. map_of (m_inFlight (lk_sender l)) (of_nat k) = Some f \<and> if_sequence f = of_nat k \<and>
           if_payload f = lk_sent l ! k)
      \<or> (k, lk_sent l ! k) \<in> set (lk_accepted l)) \<and>
    set (lk_accepted l) \<subseteq> {(j, lk_sent l ! j) | j. j < length (lk_sent l)} \<and> distinct (map fst (lk_accepted l))"
proof (intro conjI)
  let ?n = "length (lk_sent l)"
  have ok: "sender_ok l" "receiver_ok l" "all_held l" using link_invariant [OF assms(1)] by (simp_all add: link_ok_def)
  show "distinct (map fst (lk_accepted l))" using ok(2) by (simp add: receiver_ok_def)
  show acc: "set (lk_accepted l) \<subseteq> {(j, lk_sent l ! j) | j. j < ?n}" using ok(2) by (force simp: receiver_ok_def)
  show "(\<exists>f. map_of (m_inFlight (lk_sender l)) (of_nat k) = Some f \<and> if_sequence f = of_nat k \<and> if_payload f = lk_sent l ! k)
      \<or> (k, lk_sent l ! k) \<in> set (lk_accepted l)"
  proof (cases "k \<in> lk_numbers l")
    case True
    then have "(k, lk_sent l ! k) \<in> set (lk_accepted l)" using acc by fastforce
    then show ?thesis by simp
  next
    case False
    then obtain f where near: "?n \<le> k + 65536" and f: "map_of (m_inFlight (lk_sender l)) (of_nat k) = Some f"
      using ok(3) assms(2) unfolding all_held_def by blast
    have "(of_nat k, f) \<in> set (m_inFlight (lk_sender l))" using f by (rule map_of_SomeD)
    then obtain j where j: "j < ?n" "?n \<le> j + 65536" "(of_nat k :: u16) = of_nat j" "if_sequence f = of_nat k"
      "if_payload f = lk_sent l ! j"
      using ok(1) by (fastforce simp: sender_ok_def)
    have "\<bar>int k - int j\<bar> < 65536" using assms(2) near j(1,2) by linarith
    then have "k = j" using j(3) by (rule of_nat16_eq_iff [THEN iffD1])
    with f j(4,5) show ?thesis by simp
  qed
qed

text \<open>A run in which the first message is lost, the second arrives twice and is acknowledged.\<close>

definition demo_link :: Link where
  "demo_link =
     (let l = link_send [8] 1 (link_send [7] 0 Link_new);
          l = link_deliver (1, 1, [8]) (link_deliver (1, 1, [8]) l);
          l = link_ack l
      in link_acked 1 0 2 l)"

lemma demo_link_reach: "link_reach demo_link"
proof -
  have 1: "link_reach (link_send [8] 1 (link_send [7] 0 Link_new))"
    by (intro link_reach.intros)
      (simp_all add: Link_new_def link_send_def Reliable_Send_def ReliableSender_new_def Let_def)
  have w: "(1, 1, [8]) \<in> lk_wire (link_send [8] 1 (link_send [7] 0 Link_new))"
    by (simp add: Link_new_def link_send_def Reliable_Send_def ReliableSender_new_def Let_def)
  have wd: "lk_wire (link_deliver m l) = lk_wire l" for m l by (simp add: link_deliver_def split: prod.splits)
  have acc: "lk_accepted (link_deliver (1, 1, [8]) (link_send [8] 1 (link_send [7] 0 Link_new))) = [(1, [8])]"
    by (simp add: link_deliver_def link_send_def Reliable_Send_def Link_new_def ReliableReceiver_new_def OnReceive_def Let_def)
  let ?l = "link_deliver (1, 1, [8]) (link_deliver (1, 1, [8]) (link_send [8] 1 (link_send [7] 0 Link_new)))"
  have near: "arrives_near 1 (link_send [8] 1 (link_send [7] 0 Link_new))"
    by (simp add: arrives_near_def Link_new_def link_send_def Reliable_Send_def Let_def)
  have near': "arrives_near 1 (link_deliver (1, 1, [8]) (link_send [8] 1 (link_send [7] 0 Link_new)))"
    unfolding arrives_near_def acc by simp
  have 2: "link_reach ?l" using 1 w near near' by (intro link_reach.deliver) (simp_all add: wd)
  have r: "lk_receiver ?l = \<lparr>rr_seenAny = True, rr_latest = 1, rr_received = {1}\<rparr>"
    "lk_accepted ?l = [(1, [8])]" "length (lk_sent ?l) = 2"
    by (simp_all add: link_deliver_def link_send_def Reliable_Send_def Link_new_def ReliableReceiver_new_def
        OnReceive_def Let_def)
  have 3: "link_reach (link_ack ?l)" using 2 by (rule link_reach.ack) (unfold r, simp)
  have "AckBits (lk_receiver ?l) = 0" unfolding r by code_simp
  then have "(1, 1, 0) \<in> lk_acks (link_ack ?l)" unfolding link_ack_def by (simp only: r) simp
  moreover have "length (lk_sent (link_ack ?l)) \<le> 1 + 65504" using r(3) by (simp add: link_ack_def)
  ultimately show ?thesis unfolding demo_link_def Let_def by (rule link_reach.acked [OF 3])
qed

theorem no_message_lost_witness:
  "((\<exists>f. map_of (m_inFlight (lk_sender demo_link)) (of_nat 1) = Some f \<and> if_sequence f = of_nat 1 \<and>
           if_payload f = lk_sent demo_link ! 1)
      \<or> (1, lk_sent demo_link ! 1) \<in> set (lk_accepted demo_link)) \<and>
    set (lk_accepted demo_link) \<subseteq> {(j, lk_sent demo_link ! j) | j. j < length (lk_sent demo_link)} \<and>
    distinct (map fst (lk_accepted demo_link))"
  by (rule no_message_lost [OF demo_link_reach])
    (simp add: demo_link_def Let_def link_acked_def link_ack_def link_deliver_def link_send_def
      Reliable_Send_def Link_new_def case_prod_beta)

text \<open>Channels of any length are reached, so the sequence does wrap: here every message is
  delivered and acknowledged before the next one is sent.\<close>

lemma long_run:
  "\<exists>l. link_reach l \<and> length (lk_sent l) = n \<and> m_inFlight (lk_sender l) = [] \<and> lk_numbers l = {..<n}"
proof (induction n)
  case 0
  have "link_reach Link_new" by (rule link_reach.start)
  then show ?case by (intro exI [of _ Link_new]) (simp add: Link_new_def ReliableSender_new_def)
next
  case (Suc n)
  then obtain l where l: "link_reach l" "length (lk_sent l) = n" "m_inFlight (lk_sender l) = []" "lk_numbers l = {..<n}"
    by blast
  have nxt: "m_nextSequence (lk_sender l) = of_nat n"
    using link_invariant [OF l(1)] l(2) by (simp add: link_ok_def sender_ok_def)
  define l1 where "l1 = link_send [] 0 l"
  have l1: "link_reach l1" unfolding l1_def using l(1,3) by (intro link_reach.send) simp_all
  have l1': "(n, of_nat n, []) \<in> lk_wire l1" "lk_accepted l1 = lk_accepted l" "length (lk_sent l1) = Suc n"
    "\<exists>f. m_inFlight (lk_sender l1) = [(of_nat n, f)]"
    by (simp_all add: l1_def link_send_def Reliable_Send_def Let_def nxt l)
  have near: "arrives_near n l1"
  proof (cases n)
    case (Suc m)
    then have "Max {..<n} = m" by (intro Max_eqI) auto
    then show ?thesis by (simp add: arrives_near_def l1'(2) l(4) Suc)
  qed (use l(4) in \<open>simp add: arrives_near_def l1'(2)\<close>)
  define l2 where "l2 = link_deliver (n, of_nat n, []) l1"
  have l2: "link_reach l2" unfolding l2_def using l1 l1'(1) near by (rule link_reach.deliver)
  have ok1: "sender_ok l1" "receiver_ok l1" using link_invariant [OF l1] by (simp_all add: link_ok_def)
  have nums: "lk_numbers l2 = {..<Suc n}"
    using receiver_ok_deliver(2) [OF ok1(2,1) l1'(1) near] l(4) by (auto simp: l2_def l1'(2))
  have "Max {..<Suc n} = n" by (intro Max_eqI) auto
  moreover have "lk_accepted l2 \<noteq> []" using nums by (cases "lk_accepted l2") auto
  moreover have "receiver_ok l2" using link_invariant [OF l2] by (simp add: link_ok_def)
  ultimately have t: "rr_seenAny (lk_receiver l2)" "rr_latest (lk_receiver l2) = of_nat n"
    by (simp_all add: receiver_ok_def nums tracks_def)
  define l3 where "l3 = link_ack l2"
  have l3: "link_reach l3" unfolding l3_def using l2 t(1) by (rule link_reach.ack)
  have same: "lk_sender l3 = lk_sender l1" "length (lk_sent l3) = Suc n" "lk_numbers l3 = {..<Suc n}"
    "(n, of_nat n, AckBits (lk_receiver l2)) \<in> lk_acks l3"
    using nums t(2) \<open>Max {..<Suc n} = n\<close> l1'(3)
    by (simp_all add: l3_def l2_def link_ack_def link_deliver_def split: prod.splits)
  define l4 where "l4 = link_acked (of_nat n) (AckBits (lk_receiver l2)) 0 l3"
  have l4: "link_reach l4"
    unfolding l4_def using l3 same(4) by (rule link_reach.acked) (simp add: same(2))
  obtain f where "set (m_inFlight (lk_sender l4)) \<subseteq> {(of_nat n, f)}"
    using OnAck_subset(1) [of "of_nat n" _ 0 "lk_sender l3"] l1'(4) by (fastforce simp: l4_def link_acked_def same(1))
  moreover have "map_of (m_inFlight (lk_sender l4)) (of_nat n) = None"
    by (simp add: l4_def link_acked_def OnAck_inFlight acked_def)
  ultimately have "m_inFlight (lk_sender l4) = []"
    by (cases "m_inFlight (lk_sender l4)") auto
  moreover have "length (lk_sent l4) = Suc n" "lk_numbers l4 = {..<Suc n}"
    using same(2,3) by (simp_all add: l4_def link_acked_def)
  ultimately show ?case using l4 by blast
qed

end
