(* ===== verification/Float_Arith.thy ===== *)
theory Float_Arith
  imports Double_Arith
begin

text \<open>
  C++ \<open>float\<close> as it is stored and sent: the 32-bit pattern.  \<open>f32_val\<close> is the
  number a finite pattern denotes (the conversion to \<open>double\<close>, which is exact) and
  \<open>f32_of\<close> the conversion from a number, rounded to nearest with ties to even, with gradual
  underflow and overflow to infinity.  NaN patterns are not modelled and a zero result is positive.
  Also the C++ library roundings of a \<open>double\<close>.
\<close>

definition f32_val :: "u32 \<Rightarrow> rat" where
  "f32_val r =
     (let e = uint (take_bit 8 (drop_bit 23 r)); m = uint (take_bit 23 r);
          x = (if e = 0 then of_int m * 2 powi (- 149) else of_int (m + 2 ^ 23) * 2 powi (e - 150))
      in if bit r 31 then - x else x)"

definition f32_of :: "rat \<Rightarrow> u32" where
  "f32_of x =
     (if x = 0 then 0
      else
        (let e = max (binexp x) (- 126);
             m = round_even (\<bar>x\<bar> / 2 powi (e - 23));
             raw = min ((e + 126) * 2 ^ 23 + m) 0x7F800000
         in word_of_int raw OR (if x < 0 then 0x80000000 else 0)))"

text \<open>\<open>std::round\<close>: to nearest, halves away from zero.\<close>

definition dround :: "double \<Rightarrow> double" where
  "dround x = (if x < 0 then - of_int \<lfloor>- x + 1 / 2\<rfloor> else of_int \<lfloor>x + 1 / 2\<rfloor>)"

definition dfloor :: "double \<Rightarrow> double" where
  "dfloor x = of_int \<lfloor>x\<rfloor>"

section \<open>Scaling by a power of two is exact\<close>

lemma binexp_unique:
  assumes "2 powi e \<le> \<bar>x\<bar>" "\<bar>x\<bar> < 2 powi (e + 1)"
  shows "binexp x = e"
proof -
  have "0 < (2 :: rat) powi e" by simp
  then have nz: "x \<noteq> 0" using assms(1) by (auto simp del: zero_less_power_int)
  have lt: "a < b + 1" if "2 powi a \<le> \<bar>x\<bar>" "\<bar>x\<bar> < 2 powi (b + 1)" for a b :: int
  proof (rule ccontr)
    assume "\<not> a < b + 1"
    then have "(2 :: rat) powi (b + 1) \<le> 2 powi a" by (intro power_int_increasing) simp_all
    with that show False by simp
  qed
  from lt [OF assms(1) binexp_bounds(2) [OF nz]] lt [OF binexp_bounds(1) [OF nz] assms(2)]
  show ?thesis by simp
qed

lemma binexp_scale:
  assumes "x \<noteq> 0"
  shows "binexp (x * 2 powi k) = binexp x + k"
proof (rule binexp_unique)
  have p: "(2 :: rat) powi (binexp x + k) = 2 powi binexp x * 2 powi k"
    "(2 :: rat) powi (binexp x + k + 1) = 2 powi (binexp x + 1) * 2 powi k"
    by (simp_all add: power_int_add)
  note b = binexp_bounds [OF assms]
  show "2 powi (binexp x + k) \<le> \<bar>x * 2 powi k\<bar>"
    unfolding p using b(1) by (simp add: abs_mult)
  show "\<bar>x * 2 powi k\<bar> < 2 powi (binexp x + k + 1)"
    unfolding p using b(2) by (simp add: abs_mult)
qed

lemma rnd_scale: "rnd (x * 2 powi k) = rnd x * 2 powi k"
proof (cases "x = 0")
  case False
  have "x * 2 powi k / 2 powi (binexp x + k - 52) = x / 2 powi (binexp x - 52)"
    by (simp add: power_int_add power_int_diff field_simps)
  moreover have "(2 :: rat) powi (binexp x + k - 52) = 2 powi (binexp x - 52) * 2 powi k"
    by (simp add: power_int_add power_int_diff)
  ultimately show ?thesis
    using False by (simp add: rnd_def Let_def binexp_scale [OF False])
qed simp

lemma rnd_rnd_int_scale:
  assumes "\<bar>i\<bar> < 2 ^ 53"
  shows "rnd (of_int i * 2 powi k) = of_int i * 2 powi k"
  using rnd_of_int [OF assms] by (simp add: rnd_scale)

lemma round_even_mono: "x \<le> y \<Longrightarrow> round_even x \<le> round_even y"
proof -
  assume le: "x \<le> y"
  show ?thesis
  proof (cases "\<lfloor>x\<rfloor> = \<lfloor>y\<rfloor>")
    case True
    with le show ?thesis by (auto simp: round_even_def Let_def)
  next
    case False
    with le have "\<lfloor>x\<rfloor> + 1 \<le> \<lfloor>y\<rfloor>" using floor_mono [OF le] by linarith
    then show ?thesis by (auto simp: round_even_def Let_def)
  qed
qed

section \<open>Numbers that are floats\<close>

lemma uint32_of_int: "0 \<le> r \<Longrightarrow> r < 2 ^ 32 \<Longrightarrow> uint (word_of_int r :: u32) = r"
  by (simp add: unsigned_of_int take_bit_int_eq_self)

lemma f32_exact:
  assumes "2 ^ 23 \<le> m" "m < 2 ^ 24" "- 126 \<le> e" "e \<le> 127"
  shows "f32_val (f32_of (of_int m * 2 powi (e - 23))) = of_int m * 2 powi (e - 23)"
proof -
  define x :: rat where "x = of_int m * 2 powi (e - 23)"
  have pos: "0 < (2 :: rat) powi (e - 23)" by simp
  have x0: "0 < x" using assms(1) unfolding x_def by (intro mult_pos_pos) simp_all
  have r: "of_int (2 ^ 23) \<le> (of_int m :: rat)" "(of_int m :: rat) < of_int (2 ^ 24)"
    using assms(1,2) by (simp_all only: of_int_le_iff of_int_less_iff)
  have pw: "(2 :: rat) powi e = 2 ^ 23 * 2 powi (e - 23)" "(2 :: rat) powi (e + 1) = 2 ^ 24 * 2 powi (e - 23)"
    using power_int_add [of "2 :: rat" 23 "e - 23"] power_int_add [of "2 :: rat" 24 "e - 23"]
    by (simp_all add: add.commute)
  have be: "binexp x = e"
  proof (rule binexp_unique)
    have ax: "\<bar>x\<bar> = of_int m * 2 powi (e - 23)" using x0 by (simp add: x_def)
    show "2 powi e \<le> \<bar>x\<bar>" unfolding ax pw using r(1) by (intro mult_right_mono) auto
    show "\<bar>x\<bar> < 2 powi (e + 1)" unfolding ax pw using r(2) by (intro mult_strict_right_mono) auto
  qed
  let ?raw = "(e + 126) * 2 ^ 23 + m"
  have q: "?raw = (m - 2 ^ 23) + (e + 127) * 2 ^ 23" by simp
  have raw: "0 \<le> ?raw" "?raw < 0x7F800000" using assms by simp_all
  have "\<bar>x\<bar> / 2 powi (max (binexp x) (- 126) - 23) = of_int m"
    using assms(3) x0 by (simp add: be max_def) (simp add: x_def)
  then have f: "f32_of x = word_of_int ?raw"
    using x0 raw assms(3) by (simp add: f32_of_def Let_def be max_def min_def)
  have u: "uint (f32_of x) = ?raw"
    unfolding f using raw by (intro uint32_of_int) simp_all
  have e: "uint (take_bit 8 (drop_bit 23 (f32_of x))) = e + 127"
  proof -
    have "uint (take_bit 8 (drop_bit 23 (f32_of x))) = take_bit 8 (drop_bit 23 ?raw)"
      by (simp only: unsigned_take_bit_eq unsigned_drop_bit_eq u [symmetric] drop_bit_take_bit take_bit_take_bit)
        simp
    also have "\<dots> = (?raw div 2 ^ 23) mod 2 ^ 8" by (simp only: take_bit_eq_mod drop_bit_eq_div)
    also have "?raw div 2 ^ 23 = e + 127" unfolding q using assms by (subst div_mult_self1) simp_all
    finally show ?thesis using assms(3,4) by simp
  qed
  have m: "uint (take_bit 23 (f32_of x)) = m - 2 ^ 23"
  proof -
    have "uint (take_bit 23 (f32_of x)) = take_bit 23 ?raw" by (simp only: unsigned_take_bit_eq u)
    also have "\<dots> = ?raw mod 2 ^ 23" by (simp only: take_bit_eq_mod)
    also have "\<dots> = (m - 2 ^ 23) mod 2 ^ 23" unfolding q by (rule mod_mult_self1)
    also have "\<dots> = m - 2 ^ 23" using assms(1,2) by (intro mod_pos_pos_trivial) simp_all
    finally show ?thesis .
  qed
  have s: "\<not> bit (f32_of x) 31"
  proof
    assume "bit (f32_of x) 31"
    then have "bit (uint (f32_of x)) 31" by (simp add: bit_uint_iff)
    then have "odd (?raw div 2 ^ 31)" by (simp only: u bit_iff_odd not_False_eq_True)
    moreover have "?raw div 2 ^ 31 = 0" using raw by (intro div_pos_pos_trivial) simp_all
    ultimately show False by simp
  qed
  show ?thesis
    unfolding x_def [symmetric] using assms(3)
    by (simp add: f32_val_def Let_def e m s) (simp add: x_def)
qed

text \<open>Integers of up to 24 bits, and their quotients by powers of two, survive the conversion
  to \<open>float\<close>.\<close>

lemma f32_scaled:
  assumes "0 \<le> k" "k < 2 ^ 24" "- 126 \<le> p" "p \<le> 100"
  shows "f32_val (f32_of (of_int k * 2 powi p)) = of_int k * 2 powi p"
proof (cases "k = 0")
  case True
  then show ?thesis by (simp add: f32_val_def f32_of_def)
next
  case False
  with assms(1) have k: "0 < k" by simp
  define b where "b = bitlen k"
  have b: "0 < b" "b \<le> 24"
  proof -
    show "0 < b" using k bitlen_nonneg [of k] bitlen_eq_zero_iff [of k] by (simp add: b_def)
    show "b \<le> 24" unfolding b_def
      using assms(1,2) bitlen_le_iff_power [of k 24] by simp
  qed
  have lo: "2 ^ nat (b - 1) \<le> k" "k < 2 ^ nat b" using bitlen_bounds [OF k] by (simp_all add: b_def)
  define m where "m = k * 2 ^ nat (24 - b)"
  have m: "2 ^ 23 \<le> m" "m < 2 ^ 24"
  proof -
    have "(2 :: int) ^ 23 = 2 ^ nat (b - 1) * 2 ^ nat (24 - b)"
      using b by (simp only: power_add [symmetric] nat_add_distrib [symmetric]) simp
    also have "\<dots> \<le> m" unfolding m_def using lo(1) by (intro mult_right_mono) simp_all
    finally show "2 ^ 23 \<le> m" .
    have "(2 :: int) ^ 24 = 2 ^ nat b * 2 ^ nat (24 - b)"
      using b by (simp only: power_add [symmetric] nat_add_distrib [symmetric]) simp
    moreover have "m < 2 ^ nat b * 2 ^ nat (24 - b)" unfolding m_def using lo(2) by (intro mult_strict_right_mono) simp_all
    ultimately show "m < 2 ^ 24" by simp
  qed
  have "of_int m * 2 powi (p + b - 1 - 23) = of_int k * (2 powi (24 - b) * 2 powi (p + b - 24) :: rat)"
    using b by (simp add: m_def power_int_def algebra_simps)
  also have "(2 powi (24 - b) * 2 powi (p + b - 24) :: rat) = 2 powi p"
    by (simp flip: power_int_add)
  finally have eq: "of_int m * 2 powi (p + b - 1 - 23) = of_int k * (2 powi p :: rat)" .
  show ?thesis
    using f32_exact [OF m, of "p + b - 1"] assms(3,4) b unfolding eq by simp
qed

end
