(* ===== verification/Universe_Pos.thy ===== *)
theory Universe_Pos
  imports Float_Arith
begin

text \<open>
  \<open>NeuronCore/UniversePos.h\<close>: absolute positions in metres (three 64-bit signed
  coordinates), the sectors of \<open>2 ^ 14\<close> metres they fall in, and the conversions between the two
  and to render space.  Coordinates are the two's complement words of the code's
  \<open>int64_t\<close>; a float vector is a triple of 32-bit patterns.
\<close>

type_synonym XMFLOAT3 = "u32 \<times> u32 \<times> u32"

record UniversePos =
  up_x :: u64
  up_y :: u64
  up_z :: u64

record SectorId =
  sec_x :: u64
  sec_y :: u64
  sec_z :: u64

definition UniversePos_zero :: UniversePos where "UniversePos_zero = \<lparr>up_x = 0, up_y = 0, up_z = 0\<rparr>"

definition SECTOR_SHIFT :: nat where "SECTOR_SHIFT = 14"
definition SECTOR_SIZE :: u64 where "SECTOR_SIZE = push_bit SECTOR_SHIFT 1"

definition sector_mix :: "u64 \<Rightarrow> u64 \<Rightarrow> u64" where
  "sector_mix a b = a XOR (b + 0x9e3779b97f4a7c15 + push_bit 6 a + drop_bit 2 a)"

definition SectorHash :: "SectorId \<Rightarrow> u64" where
  "SectorHash s = sector_mix (sector_mix (sec_x s) (sec_y s)) (sec_z s)"

definition UniverseToSector :: "UniversePos \<Rightarrow> SectorId" where
  "UniverseToSector p =
     \<lparr>sec_x = signed_drop_bit SECTOR_SHIFT (up_x p), sec_y = signed_drop_bit SECTOR_SHIFT (up_y p),
      sec_z = signed_drop_bit SECTOR_SHIFT (up_z p)\<rparr>"

definition SectorToOrigin :: "SectorId \<Rightarrow> UniversePos" where
  "SectorToOrigin s =
     \<lparr>up_x = push_bit SECTOR_SHIFT (sec_x s), up_y = push_bit SECTOR_SHIFT (sec_y s),
      up_z = push_bit SECTOR_SHIFT (sec_z s)\<rparr>"

definition UniverseToLocalOffset :: "UniversePos \<Rightarrow> XMFLOAT3" where
  "UniverseToLocalOffset p =
     (let m = SECTOR_SIZE - 1; f = (\<lambda>v. f32_of (of_int (sint (v AND m))))
      in (f (up_x p), f (up_y p), f (up_z p)))"

definition RebuildFromSectorLocal :: "SectorId \<Rightarrow> XMFLOAT3 \<Rightarrow> UniversePos" where
  "RebuildFromSectorLocal s local =
     (case local of (lx, ly, lz) \<Rightarrow>
       (let origin = SectorToOrigin s
        in \<lparr>up_x = up_x origin + word_of_int (dtrunc (f32_val lx)),
            up_y = up_y origin + word_of_int (dtrunc (f32_val ly)),
            up_z = up_z origin + word_of_int (dtrunc (f32_val lz))\<rparr>))"

definition AxisDelta :: "u64 \<Rightarrow> u64 \<Rightarrow> u64" where "AxisDelta a b = a - b"

definition RelativeVec3 :: "UniversePos \<Rightarrow> UniversePos \<Rightarrow> XMFLOAT3" where
  "RelativeVec3 from_pos to_pos =
     (f32_of (of_int (sint (AxisDelta (up_x to_pos) (up_x from_pos)))),
      f32_of (of_int (sint (AxisDelta (up_y to_pos) (up_y from_pos)))),
      f32_of (of_int (sint (AxisDelta (up_z to_pos) (up_z from_pos)))))"

record FloatingOriginHelper =
  foh_origin :: UniversePos

definition ToRenderSpace :: "FloatingOriginHelper \<Rightarrow> UniversePos \<Rightarrow> XMFLOAT3" where
  "ToRenderSpace h p = RelativeVec3 (foh_origin h) p"

definition RebaseToSector :: "SectorId \<Rightarrow> FloatingOriginHelper \<Rightarrow> FloatingOriginHelper" where
  "RebaseToSector s h = h\<lparr>foh_origin := SectorToOrigin s\<rparr>"

definition NeedsRebase :: "FloatingOriginHelper \<Rightarrow> UniversePos \<Rightarrow> bool" where
  "NeedsRebase h cameraPos =
     (case RelativeVec3 (foh_origin h) cameraPos of (rx, ry, rz) \<Rightarrow>
       (let limit = of_int (sint SECTOR_SIZE)
        in \<bar>f32_val rx\<bar> \<ge> limit \<or> \<bar>f32_val ry\<bar> \<ge> limit \<or> \<bar>f32_val rz\<bar> \<ge> limit))"

section \<open>Sector arithmetic, one axis at a time\<close>

lemma SECTOR_SIZE_simps: "SECTOR_SIZE = 16384" "SECTOR_SIZE - 1 = mask 14" "sint SECTOR_SIZE = 16384"
  by (simp_all add: SECTOR_SIZE_def SECTOR_SHIFT_def mask_eq_exp_minus_1)

lemma origin_axis:
  fixes x :: u64
  shows "push_bit 14 (signed_drop_bit 14 x) = x AND NOT (mask 14)"
  by (rule bit_word_eqI)
    (auto simp: bit_push_bit_iff bit_signed_drop_bit_iff bit_and_iff bit_not_iff bit_mask_iff)

lemma axis_split:
  fixes x :: u64
  shows "push_bit 14 (signed_drop_bit 14 x) + (x AND mask 14) = x"
proof -
  have "push_bit 14 (signed_drop_bit 14 x) + (x AND mask 14) = (x AND NOT (mask 14)) OR (x AND mask 14)"
    unfolding origin_axis by (rule disjunctive_add) (auto simp: bit_and_iff bit_not_iff)
  also have "\<dots> = x" by (rule bit_word_eqI) (auto simp: bit_or_iff bit_and_iff bit_not_iff)
  finally show ?thesis .
qed

lemma axis_offset:
  fixes x :: u64
  shows "x - push_bit 14 (signed_drop_bit 14 x) = x AND mask 14"
  using axis_split [of x] by (metis add_diff_cancel_left')

lemma uint_low14:
  fixes x :: u64
  shows "uint (x AND mask 14) = uint x mod 16384"
proof -
  have "uint (take_bit 14 x) = take_bit 14 (uint x)" by (rule unsigned_take_bit_eq)
  also have "\<dots> = uint x mod 2 ^ 14" by (rule take_bit_eq_mod)
  finally show ?thesis by (simp only: take_bit_eq_mask) simp
qed

lemma sint_low14:
  fixes x :: u64
  shows "sint (x AND mask 14) = uint x mod 16384"
proof -
  have "sint w = uint w" if "uint w < 2 ^ 63" for w :: u64
    using that by (simp add: sint_uint signed_take_bit_int_eq_self)
  from this [of "x AND mask 14"] show ?thesis by (simp add: uint_low14)
qed

lemma axis_sector_stable:
  fixes x :: u64
  assumes "0 \<le> k" "k < 16384"
  shows "signed_drop_bit 14 (push_bit 14 (signed_drop_bit 14 x) + word_of_int k) = signed_drop_bit 14 x"
proof -
  let ?k = "word_of_int k :: u64"
  have "uint (take_bit 14 ?k) = uint ?k"
    using assms by (simp only: unsigned_take_bit_eq) (simp add: unsigned_of_int take_bit_int_eq_self)
  then have "take_bit 14 ?k = ?k" by (rule word_uint_eqI)
  then have kb: "\<not> bit ?k n" if "14 \<le> n" for n using that by (metis bit_take_bit_iff leD)
  have "push_bit 14 (signed_drop_bit 14 x) + ?k = (x AND NOT (mask 14)) OR ?k"
    unfolding origin_axis using kb by (intro disjunctive_add) (auto simp: bit_and_iff bit_not_iff bit_mask_iff not_le)
  then show ?thesis
    using kb by (intro bit_word_eqI)
      (auto simp: bit_signed_drop_bit_iff bit_or_iff bit_and_iff bit_not_iff bit_mask_iff)
qed


lemma low14_bounds: "0 \<le> sint (x AND mask 14)" "sint (x AND mask 14) < 16384" for x :: u64
  unfolding sint_low14 by simp_all

lemma f32_int_exact:
  assumes "0 \<le> k" "k < 2 ^ 24"
  shows "f32_val (f32_of (of_int k)) = of_int k"
  using f32_scaled [OF assms, of 0] by simp

lemma dtrunc_of_int [simp]: "dtrunc (of_int k) = k"
  by (simp add: dtrunc_def)

lemma low14_int:
  obtains k where "sint (x AND mask 14 :: u64) = k" "0 \<le> k" "k < 16384" "word_of_int k = x AND mask 14"
  using low14_bounds [of x] that by (metis of_int_sint scast_id)

lemma rebuild_axis:
  "push_bit 14 (signed_drop_bit 14 x) + word_of_int (dtrunc (f32_val (f32_of (of_int (sint (x AND mask 14)))))) = x"
  for x :: u64
proof -
  obtain k where k: "sint (x AND mask 14) = k" "0 \<le> k" "k < 16384" "word_of_int k = x AND mask 14"
    by (rule low14_int)
  then have "f32_val (f32_of (of_int k)) = of_int k" by (intro f32_int_exact) simp_all
  then show ?thesis using axis_split [of x] k(4) unfolding k(1) by simp
qed

text \<open>The sector decomposition is exact.  Every position of the universe, however far from the
  origin and on either side of it, is rebuilt exactly from its sector and its float offset in the
  sector; the offset is a whole number of metres in \<open>[0, 16384)\<close>, so no precision is
  lost in the conversion to \<open>float\<close>, and the sector of the rebuilt position is the same.\<close>

theorem sector_decomposition:
  "RebuildFromSectorLocal (UniverseToSector p) (UniverseToLocalOffset p) = p \<and>
   (case UniverseToLocalOffset p of (lx, ly, lz) \<Rightarrow>
      {f32_val lx, f32_val ly, f32_val lz} \<subseteq> {of_int k | k. 0 \<le> k \<and> k < 16384})"
proof
  show "RebuildFromSectorLocal (UniverseToSector p) (UniverseToLocalOffset p) = p"
    unfolding RebuildFromSectorLocal_def UniverseToSector_def UniverseToLocalOffset_def Let_def
      SectorToOrigin_def SECTOR_SHIFT_def SECTOR_SIZE_simps(2)
    by (simp only: prod.case SectorId.simps UniversePos.simps rebuild_axis) simp
  have "f32_val (f32_of (of_int (sint (x AND mask 14)))) \<in> {of_int k | k. 0 \<le> k \<and> k < 16384}" for x :: u64
  proof -
    obtain k where k: "sint (x AND mask 14) = k" "0 \<le> k" "k < 16384" by (rule low14_int)
    then have "f32_val (f32_of (of_int k)) = of_int k" by (intro f32_int_exact) simp_all
    then show ?thesis unfolding k(1) using k by blast
  qed
  then show "case UniverseToLocalOffset p of (lx, ly, lz) \<Rightarrow>
      {f32_val lx, f32_val ly, f32_val lz} \<subseteq> {of_int k | k. 0 \<le> k \<and> k < 16384}"
    by (simp add: UniverseToLocalOffset_def Let_def SECTOR_SIZE_simps(2))
qed

end
