(* ===== verification/Snapshot_Codec.thy ===== *)
theory Snapshot_Codec
  imports Serde_Buffer Universe_Pos
begin

text \<open>
  \<open>NeuronCore/Snapshot.h\<close>: the replication wire format.  Full snapshots, the
  quantised sector-local delta records with their changed-field masks and the packing of records
  into a byte budget.  Signed fields are two's complement words, floats their patterns; an
  \<open>EntityKind\<close> is the byte it is cast from.  The client side is in
  \<open>Snapshot_Client\<close>.
\<close>

section \<open>Full snapshots\<close>

record SnapshotEntity =
  se_netId :: u32
  se_kind :: u8
  se_pos :: UniversePos
  se_localOffset :: XMFLOAT3
  se_hp :: u32
  se_shapeId :: u16
  se_ownerPlayer :: u32

definition SnapshotEntity_new :: SnapshotEntity where
  "SnapshotEntity_new = \<lparr>se_netId = 0, se_kind = 0, se_pos = UniversePos_zero, se_localOffset = (0, 0, 0),
     se_hp = 0, se_shapeId = 0xFFFF, se_ownerPlayer = 0\<rparr>"

record Snapshot =
  sn_tick :: u32
  sn_entities :: "SnapshotEntity list"

definition WriteSnapshotEntity :: "SnapshotEntity \<Rightarrow> WriteBuffer \<Rightarrow> WriteBuffer" where
  "WriteSnapshotEntity e wb =
     (let wb = WriteUint32 (se_netId e) wb;
          wb = WriteUint8 (se_kind e) wb;
          wb = WriteInt64 (up_x (se_pos e)) wb;
          wb = WriteInt64 (up_y (se_pos e)) wb;
          wb = WriteInt64 (up_z (se_pos e)) wb;
          wb = (case se_localOffset e of (x, y, z) \<Rightarrow> WriteFloat z (WriteFloat y (WriteFloat x wb)));
          wb = WriteUint32 (se_hp e) wb;
          wb = WriteUint16 (se_shapeId e) wb
      in WriteUint32 (se_ownerPlayer e) wb)"

definition EncodeSnapshot :: "Snapshot \<Rightarrow> bytes" where
  "EncodeSnapshot snap =
     (let wb = WriteBuffer_new;
          wb = WriteUint32 (sn_tick snap) wb;
          wb = WriteUint16 (of_nat (length (sn_entities snap))) wb;
          wb = fold WriteSnapshotEntity (sn_entities snap) wb
      in WriteBuffer_Data (Finalise wb))"

definition ReadSnapshotEntity :: "SnapshotEntity option rd" where
  "ReadSnapshotEntity = do {
     netId \<leftarrow> ReadUint32;
     kind \<leftarrow> ReadUint8;
     x \<leftarrow> ReadInt64; y \<leftarrow> ReadInt64; z \<leftarrow> ReadInt64;
     lx \<leftarrow> ReadFloat; ly \<leftarrow> ReadFloat; lz \<leftarrow> ReadFloat;
     hp \<leftarrow> ReadUint32;
     shapeId \<leftarrow> ReadUint16;
     ownerPlayer \<leftarrow> ReadUint32;
     good \<leftarrow> read_IsGood;
     State_Monad.return (if good then
       Some \<lparr>se_netId = netId, se_kind = kind, se_pos = \<lparr>up_x = x, up_y = y, up_z = z\<rparr>,
         se_localOffset = (lx, ly, lz), se_hp = hp, se_shapeId = shapeId, se_ownerPlayer = ownerPlayer\<rparr>
       else None) }"

definition ReadSnapshot :: "Snapshot option rd" where
  "ReadSnapshot = do {
     tick \<leftarrow> ReadUint32;
     count \<leftarrow> ReadUint16;
     es \<leftarrow> read_checked (unat count) ReadSnapshotEntity;
     State_Monad.return (map_option (\<lambda>es. \<lparr>sn_tick = tick, sn_entities = es\<rparr>) es) }"

text \<open>\<open>None\<close> is the code's \<open>false\<close>: its callers drop the partly filled output.\<close>

definition DecodeSnapshot :: "bytes \<Rightarrow> Snapshot option" where
  "DecodeSnapshot body =
     (let rb = ReadBuffer_new body in if \<not> IsGood rb then None else fst (run_state ReadSnapshot rb))"

section \<open>Quantisation\<close>

abbreviation DeltaPos :: u8 where "DeltaPos \<equiv> 1"
abbreviation DeltaSector :: u8 where "DeltaSector \<equiv> 2"
abbreviation DeltaHp :: u8 where "DeltaHp \<equiv> 4"
abbreviation DeltaShape :: u8 where "DeltaShape \<equiv> 8"
abbreviation DeltaOwner :: u8 where "DeltaOwner \<equiv> 16"
abbreviation DeltaKind :: u8 where "DeltaKind \<equiv> 32"
abbreviation DeltaTomb :: u8 where "DeltaTomb \<equiv> 128"

abbreviation flag :: "u8 \<Rightarrow> u8 \<Rightarrow> bool" where "flag m f \<equiv> m AND f \<noteq> 0"

definition POS_QUANT_BITS_PER_AXIS :: nat where "POS_QUANT_BITS_PER_AXIS = 20"
definition DELTA_HEADER_BITS :: nat where "DELTA_HEADER_BITS = 32 + 32 + 16"

definition ZigZag32 :: "u32 \<Rightarrow> u32" where
  "ZigZag32 v = push_bit 1 v XOR signed_drop_bit 31 v"

definition UnZigZag32 :: "u32 \<Rightarrow> u32" where
  "UnZigZag32 v = drop_bit 1 v XOR (NOT (v AND 1) + 1)"

definition quant_span :: double where "quant_span = double_of_int (sint SECTOR_SIZE)"
definition quant_steps :: int where "quant_steps = 2 ^ POS_QUANT_BITS_PER_AXIS"

definition QuantizeSectorLocal :: "double \<Rightarrow> u32" where
  "QuantizeSectorLocal localMetres =
     (let maxq = double_of_int (quant_steps - 1);
          clamped = (if localMetres < 0 then 0 else if localMetres \<ge> quant_span then quant_span else localMetres);
          q = dround (dmul (ddiv clamped quant_span) (double_of_int quant_steps));
          q = (if q < 0 then 0 else q);
          q = (if q > maxq then maxq else q)
      in word_of_int (dtrunc q))"

definition DequantizeSectorLocal :: "u32 \<Rightarrow> double" where
  "DequantizeSectorLocal q =
     dmul (ddiv (double_of_int (uint q)) (double_of_int quant_steps)) quant_span"

definition SectorLocalMetres :: "UniversePos \<Rightarrow> XMFLOAT3 \<Rightarrow> SectorId \<times> double \<times> double \<times> double" where
  "SectorLocalMetres pos localOffset =
     (let sector = UniverseToSector pos; origin = SectorToOrigin sector
      in case localOffset of (lx, ly, lz) \<Rightarrow>
        (sector, dadd (double_of_int (sint (up_x pos - up_x origin))) (f32_val lx),
                 dadd (double_of_int (sint (up_y pos - up_y origin))) (f32_val ly),
                 dadd (double_of_int (sint (up_z pos - up_z origin))) (f32_val lz)))"

section \<open>Delta records\<close>

record DeltaRecord =
  dr_netId :: u32
  dr_mask :: u8
  dr_sector :: SectorId
  dr_qpos :: "u32 \<times> u32 \<times> u32"
  dr_hp :: u32
  dr_shapeId :: u16
  dr_ownerPlayer :: u32
  dr_kind :: u8

definition DeltaRecord_new :: DeltaRecord where
  "DeltaRecord_new = \<lparr>dr_netId = 0, dr_mask = 0, dr_sector = \<lparr>sec_x = 0, sec_y = 0, sec_z = 0\<rparr>,
     dr_qpos = (0, 0, 0), dr_hp = 0, dr_shapeId = 0xFFFF, dr_ownerPlayer = 0, dr_kind = 0\<rparr>"

record DeltaSnapshot =
  ds_tick :: u32
  ds_records :: "DeltaRecord list"

definition quantized :: "SnapshotEntity \<Rightarrow> SectorId \<times> u32 \<times> u32 \<times> u32" where
  "quantized e = (case SectorLocalMetres (se_pos e) (se_localOffset e) of (sec, x, y, z) \<Rightarrow>
     (sec, QuantizeSectorLocal x, QuantizeSectorLocal y, QuantizeSectorLocal z))"

definition MakeDeltaRecord :: "SnapshotEntity \<Rightarrow> SnapshotEntity option \<Rightarrow> DeltaRecord" where
  "MakeDeltaRecord cur base =
     (let (sec, q) = quantized cur;
          r = \<lparr>dr_netId = se_netId cur, dr_mask = 0, dr_sector = sec, dr_qpos = q, dr_hp = se_hp cur,
               dr_shapeId = se_shapeId cur, dr_ownerPlayer = se_ownerPlayer cur, dr_kind = se_kind cur\<rparr>
      in case base of
           None \<Rightarrow> r\<lparr>dr_mask := DeltaPos OR DeltaSector OR DeltaHp OR DeltaShape OR DeltaOwner OR DeltaKind\<rparr>
         | Some b \<Rightarrow>
             (let (bsec, bq) = quantized b;
                  m = 0;
                  m = (if sec \<noteq> bsec then m OR DeltaSector else m);
                  m = (if q \<noteq> bq then m OR DeltaPos else m);
                  m = (if flag m DeltaSector then m OR DeltaPos else m);
                  m = (if se_hp cur \<noteq> se_hp b then m OR DeltaHp else m);
                  m = (if se_shapeId cur \<noteq> se_shapeId b then m OR DeltaShape else m);
                  m = (if se_ownerPlayer cur \<noteq> se_ownerPlayer b then m OR DeltaOwner else m);
                  m = (if se_kind cur \<noteq> se_kind b then m OR DeltaKind else m)
              in r\<lparr>dr_mask := m\<rparr>))"

definition DeltaRecordBits :: "DeltaRecord \<Rightarrow> nat" where
  "DeltaRecordBits r =
     (let bits = 32 + 8; m = dr_mask r
      in if flag m DeltaTomb then bits
         else
           (let bits = (if flag m DeltaSector then bits + 3 * 32 else bits);
                bits = (if flag m DeltaPos then bits + 3 * POS_QUANT_BITS_PER_AXIS else bits);
                bits = (if flag m DeltaHp then bits + 32 else bits);
                bits = (if flag m DeltaShape then bits + 16 else bits);
                bits = (if flag m DeltaOwner then bits + 32 else bits)
            in if flag m DeltaKind then bits + 8 else bits))"

definition WriteDeltaRecord :: "DeltaRecord \<Rightarrow> WriteBuffer \<Rightarrow> WriteBuffer" where
  "WriteDeltaRecord r wb =
     (let m = dr_mask r;
          wb = WriteUint32 (dr_netId r) wb;
          wb = WriteUint8 m wb
      in if flag m DeltaTomb then wb
         else
           (let wb = (if flag m DeltaSector
                  then WriteUint32 (ZigZag32 (ucast (sec_z (dr_sector r))))
                         (WriteUint32 (ZigZag32 (ucast (sec_y (dr_sector r))))
                           (WriteUint32 (ZigZag32 (ucast (sec_x (dr_sector r)))) wb))
                  else wb);
                wb = (if flag m DeltaPos
                  then (case dr_qpos r of (qx, qy, qz) \<Rightarrow>
                         WriteBits (ucast qz) POS_QUANT_BITS_PER_AXIS
                           (WriteBits (ucast qy) POS_QUANT_BITS_PER_AXIS
                             (WriteBits (ucast qx) POS_QUANT_BITS_PER_AXIS wb)))
                  else wb);
                wb = (if flag m DeltaHp then WriteUint32 (dr_hp r) wb else wb);
                wb = (if flag m DeltaShape then WriteUint16 (dr_shapeId r) wb else wb);
                wb = (if flag m DeltaOwner then WriteUint32 (dr_ownerPlayer r) wb else wb)
            in if flag m DeltaKind then WriteUint8 (dr_kind r) wb else wb))"


definition ReadSector :: "SectorId rd" where
  "ReadSector = do {
     x \<leftarrow> ReadUint32; y \<leftarrow> ReadUint32; z \<leftarrow> ReadUint32;
     State_Monad.return \<lparr>sec_x = scast (UnZigZag32 x), sec_y = scast (UnZigZag32 y), sec_z = scast (UnZigZag32 z)\<rparr> }"

definition ReadQpos :: "(u32 \<times> u32 \<times> u32) rd" where
  "ReadQpos = do {
     x \<leftarrow> ReadBits POS_QUANT_BITS_PER_AXIS; y \<leftarrow> ReadBits POS_QUANT_BITS_PER_AXIS;
     z \<leftarrow> ReadBits POS_QUANT_BITS_PER_AXIS;
     State_Monad.return (ucast x, ucast y, ucast z) }"

definition ReadDeltaRecord :: "DeltaRecord option rd" where
  "ReadDeltaRecord = do {
     netId \<leftarrow> ReadUint32;
     m \<leftarrow> ReadUint8;
     good \<leftarrow> read_IsGood;
     (let r = DeltaRecord_new\<lparr>dr_netId := netId, dr_mask := m\<rparr>
      in if \<not> good then State_Monad.return None
         else if flag m DeltaTomb then do { g \<leftarrow> read_IsGood; State_Monad.return (if g then Some r else None) }
         else do {
           sector \<leftarrow> (if flag m DeltaSector then ReadSector else State_Monad.return (dr_sector r));
           qpos \<leftarrow> (if flag m DeltaPos then ReadQpos else State_Monad.return (dr_qpos r));
           hp \<leftarrow> (if flag m DeltaHp then ReadUint32 else State_Monad.return (dr_hp r));
           shapeId \<leftarrow> (if flag m DeltaShape then ReadUint16 else State_Monad.return (dr_shapeId r));
           owner \<leftarrow> (if flag m DeltaOwner then ReadUint32 else State_Monad.return (dr_ownerPlayer r));
           kind \<leftarrow> (if flag m DeltaKind then ReadUint8 else State_Monad.return (dr_kind r));
           g \<leftarrow> read_IsGood;
           State_Monad.return (if g then
             Some (r\<lparr>dr_sector := sector, dr_qpos := qpos, dr_hp := hp, dr_shapeId := shapeId,
               dr_ownerPlayer := owner, dr_kind := kind\<rparr>) else None) }) }"

definition delta_buffer :: "DeltaSnapshot \<Rightarrow> WriteBuffer" where
  "delta_buffer snap =
     (let wb = WriteBuffer_new;
          wb = WriteUint32 (ds_tick snap) wb;
          wb = WriteUint16 (of_nat (length (ds_records snap))) wb
      in fold WriteDeltaRecord (ds_records snap) wb)"

definition EncodeDeltaSnapshot :: "DeltaSnapshot \<Rightarrow> bytes" where
  "EncodeDeltaSnapshot snap = WriteBuffer_Data (Finalise (delta_buffer snap))"

definition ReadDeltaSnapshot :: "DeltaSnapshot option rd" where
  "ReadDeltaSnapshot = do {
     tick \<leftarrow> ReadUint32;
     count \<leftarrow> ReadUint16;
     rs \<leftarrow> read_checked (unat count) ReadDeltaRecord;
     State_Monad.return (map_option (\<lambda>rs. \<lparr>ds_tick = tick, ds_records = rs\<rparr>) rs) }"

definition DecodeDeltaSnapshot :: "bytes \<Rightarrow> DeltaSnapshot option" where
  "DecodeDeltaSnapshot body =
     (let rb = ReadBuffer_new body in if \<not> IsGood rb then None else fst (run_state ReadDeltaSnapshot rb))"

section \<open>Packing into a byte budget\<close>

fun budget_loop :: "nat \<Rightarrow> nat \<Rightarrow> DeltaRecord list \<Rightarrow> DeltaRecord list \<times> u32 list" where
  "budget_loop byteBudget bits [] = ([], [])"
| "budget_loop byteBudget bits (r # ordered) =
     (if dr_mask r = 0 then budget_loop byteBudget bits ordered
      else
        (let withRecord = bits + DeltaRecordBits r
         in if (withRecord + 7) div 8 > byteBudget
            then ([], map dr_netId (filter (\<lambda>r. dr_mask r \<noteq> 0) (r # ordered)))
            else (case budget_loop byteBudget withRecord ordered of (kept, overflow) \<Rightarrow> (r # kept, overflow))))"

definition BuildBudgetedSnapshot :: "u32 \<Rightarrow> DeltaRecord list \<Rightarrow> nat \<Rightarrow> DeltaSnapshot \<times> u32 list" where
  "BuildBudgetedSnapshot tick ordered byteBudget =
     (case budget_loop byteBudget DELTA_HEADER_BITS ordered of (kept, overflow) \<Rightarrow>
       (\<lparr>ds_tick = tick, ds_records = kept\<rparr>, overflow))"

section \<open>The codecs meet their contract\<close>

definition entity_bits :: "SnapshotEntity \<Rightarrow> bool list" where
  "entity_bits e = bits_msb 32 (se_netId e) @ bits_msb 8 (se_kind e) @ bits_msb 64 (up_x (se_pos e)) @
     bits_msb 64 (up_y (se_pos e)) @ bits_msb 64 (up_z (se_pos e)) @
     (case se_localOffset e of (x, y, z) \<Rightarrow> bits_msb 32 x @ bits_msb 32 y @ bits_msb 32 z) @
     bits_msb 32 (se_hp e) @ bits_msb 16 (se_shapeId e) @ bits_msb 32 (se_ownerPlayer e) @ []"

lemma run_state_IsGood [simp]: "run_state read_IsGood rb = (IsGood rb, rb)"
  by (simp add: read_IsGood_def)

text \<open>A decoder that ends with the check of the code is honest.\<close>

lemma honest_bind: "(\<And>x. honest (k x)) \<Longrightarrow> honest (State_Monad.bind m k)"
  by (auto simp: honest_def case_prod_beta)

lemma honest_checked: "honest (do { g \<leftarrow> read_IsGood; State_Monad.return (if g then Some v else None) })"
  by (simp add: honest_def)

lemma honest_None: "honest (State_Monad.return None)"
  by (simp add: honest_def)

interpretation entity: checked_codec WriteSnapshotEntity entity_bits "\<lambda>_. True" ReadSnapshotEntity 408
proof
  fix w :: WriteBuffer and e :: SnapshotEntity
  assume "wb_inv w"
  then show "wb_inv (WriteSnapshotEntity e w) \<and> wb_bits (WriteSnapshotEntity e w) = wb_bits w @ entity_bits e"
    by (simp add: WriteSnapshotEntity_def entity_bits_def wb_simps Let_def split: prod.splits)
next
  fix e :: SnapshotEntity
  obtain x y z where off: "se_localOffset e = (x, y, z)" by (cases "se_localOffset e")
  have "reads ReadSnapshotEntity (bits_msb 32 (se_netId e) @ bits_msb 8 (se_kind e) @
      bits_msb 64 (up_x (se_pos e)) @ bits_msb 64 (up_y (se_pos e)) @ bits_msb 64 (up_z (se_pos e)) @
      bits_msb 32 x @ bits_msb 32 y @ bits_msb 32 z @
      bits_msb 32 (se_hp e) @ bits_msb 16 (se_shapeId e) @ bits_msb 32 (se_ownerPlayer e) @ [] @ []) (Some e)"
    unfolding ReadSnapshotEntity_def
    by (rule reads_eq, (rule reads_intros)+) (simp add: off [symmetric])
  then show "reads ReadSnapshotEntity (entity_bits e) (Some e)" by (simp add: entity_bits_def off)
next
  have "wellread ReadSnapshotEntity (32+(8+(64+(64+(64+(32+(32+(32+(32+(16+(32+(0+0))))))))))))"
    unfolding ReadSnapshotEntity_def by (intro wellread_intros)
  then show "wellread ReadSnapshotEntity 408" by (rule wellread_weaken) simp
next
  show "honest ReadSnapshotEntity"
    unfolding ReadSnapshotEntity_def by (intro honest_bind honest_checked)
qed


lemma UnZigZag_ZigZag [simp]: "UnZigZag32 (ZigZag32 v) = v"
proof -
  let ?s = "signed_drop_bit 31 v"
  have sign: "bit ?s n \<longleftrightarrow> n < 32 \<and> bit v 31" for n
    using bit_imp_le_length [of v "31 + n"] by (cases n) (auto simp: bit_signed_drop_bit_iff)
  have zz: "bit (ZigZag32 v) n \<longleftrightarrow> n < 32 \<and> (1 \<le> n \<and> bit v (n - 1)) \<noteq> bit v 31" for n
    using bit_imp_le_length [of "ZigZag32 v" n]
    by (auto simp only: ZigZag32_def bit_xor_iff bit_push_bit_iff sign possible_bit_word) auto
  have low: "ZigZag32 v AND 1 = (if bit v 31 then 1 else 0)"
    by (rule bit_word_eqI) (auto simp: bit_and_iff bit_1_iff zz)
  have neg: "NOT (ZigZag32 v AND 1) + 1 = (if bit v 31 then - 1 else 0)"
    by (simp add: low minus_eq_not_plus_1 [symmetric])
  show ?thesis
    unfolding UnZigZag32_def neg
  proof (rule bit_word_eqI)
    fix n assume "n < LENGTH(32)"
    then show "bit (drop_bit 1 (ZigZag32 v) XOR (if bit v 31 then - 1 else 0)) n \<longleftrightarrow> bit v n"
      by (cases "n = 31") (auto simp: bit_xor_iff bit_drop_bit_eq zz)
  qed
qed

text \<open>What of a record reaches the other side: the fields named by the mask, sector coordinates
  through 32 bits and positions through 20.\<close>

definition wire_record :: "DeltaRecord \<Rightarrow> DeltaRecord" where
  "wire_record r =
     (let m = dr_mask r; r0 = DeltaRecord_new\<lparr>dr_netId := dr_netId r, dr_mask := m\<rparr>
      in if flag m DeltaTomb then r0
         else r0\<lparr>dr_sector := (if flag m DeltaSector then
                    \<lparr>sec_x = scast (ucast (sec_x (dr_sector r)) :: u32), sec_y = scast (ucast (sec_y (dr_sector r)) :: u32),
                     sec_z = scast (ucast (sec_z (dr_sector r)) :: u32)\<rparr>
                    else dr_sector r0),
                 dr_qpos := (if flag m DeltaPos then
                    (case dr_qpos r of (x, y, z) \<Rightarrow> (x AND mask 20, y AND mask 20, z AND mask 20)) else dr_qpos r0),
                 dr_hp := (if flag m DeltaHp then dr_hp r else dr_hp r0),
                 dr_shapeId := (if flag m DeltaShape then dr_shapeId r else dr_shapeId r0),
                 dr_ownerPlayer := (if flag m DeltaOwner then dr_ownerPlayer r else dr_ownerPlayer r0),
                 dr_kind := (if flag m DeltaKind then dr_kind r else dr_kind r0)\<rparr>)"

definition delta_bits :: "DeltaRecord \<Rightarrow> bool list" where
  "delta_bits r =
     (let m = dr_mask r; zz = \<lambda>v. bits_msb 32 (ZigZag32 (ucast v))
      in bits_msb 32 (dr_netId r) @ bits_msb 8 m @
         (if flag m DeltaTomb then []
          else
            (if flag m DeltaSector then zz (sec_x (dr_sector r)) @ zz (sec_y (dr_sector r)) @ zz (sec_z (dr_sector r)) else []) @
            (if flag m DeltaPos then (case dr_qpos r of (x, y, z) \<Rightarrow> bits_msb 20 x @ bits_msb 20 y @ bits_msb 20 z) else []) @
            (if flag m DeltaHp then bits_msb 32 (dr_hp r) else []) @
            (if flag m DeltaShape then bits_msb 16 (dr_shapeId r) else []) @
            (if flag m DeltaOwner then bits_msb 32 (dr_ownerPlayer r) else []) @
            (if flag m DeltaKind then bits_msb 8 (dr_kind r) else [])))"

lemma WriteDeltaRecord_bits:
  assumes "wb_inv w"
  shows "wb_inv (WriteDeltaRecord r w) \<and> wb_bits (WriteDeltaRecord r w) = wb_bits w @ delta_bits r"
proof -
  obtain qx qy qz where q: "dr_qpos r = (qx, qy, qz)" by (cases "dr_qpos r")
  show ?thesis
    using assms
    by (simp add: WriteDeltaRecord_def delta_bits_def Let_def wb_simps q POS_QUANT_BITS_PER_AXIS_def bits_msb_ucast)
qed

lemma length_delta_bits: "length (delta_bits r) = DeltaRecordBits r"
  by (simp add: delta_bits_def DeltaRecordBits_def Let_def POS_QUANT_BITS_PER_AXIS_def split: prod.splits)

lemma reads_ReadSector [reads_intros]:
  "reads ReadSector (bits_msb 32 (ZigZag32 a) @ bits_msb 32 (ZigZag32 b) @ bits_msb 32 (ZigZag32 c) @ [])
     \<lparr>sec_x = scast a, sec_y = scast b, sec_z = scast c\<rparr>"
  unfolding ReadSector_def by (rule reads_eq, (rule reads_intros)+) simp

lemma reads_ReadQpos [reads_intros]:
  "reads ReadQpos (bits_msb 20 x @ bits_msb 20 y @ bits_msb 20 z @ [])
     (x AND mask 20, y AND mask 20, z AND mask 20)"
proof -
  have c: "ucast (ucast x AND mask 20 :: u64) = x AND mask 20" for x :: u32
    by (rule bit_word_eqI) (auto simp: bit_ucast_iff bit_mask_and_iff)
  show ?thesis
    unfolding ReadQpos_def POS_QUANT_BITS_PER_AXIS_def
    by (rule reads_eq, (rule reads_intros reads_ReadBits)+) (simp only: c)
qed

lemma reads_if:
  "(c \<Longrightarrow> reads m bs v) \<Longrightarrow>
     reads (if c then m else State_Monad.return d) (if c then bs else []) (if c then v else d)"
  by (simp add: reads_return)

lemma reads_ReadDeltaRecord: "reads ReadDeltaRecord (delta_bits r) (Some (wire_record r))"
proof -
  obtain qx qy qz where q: "dr_qpos r = (qx, qy, qz)" by (cases "dr_qpos r")
  obtain sx sy sz where sec: "dr_sector r = \<lparr>sec_x = sx, sec_y = sy, sec_z = sz\<rparr>" by (cases "dr_sector r")
  show ?thesis
  proof (cases "flag (dr_mask r) DeltaTomb")
    case True
    have "reads ReadDeltaRecord (bits_msb 32 (dr_netId r) @ bits_msb 8 (dr_mask r) @ [] @ [] @ []) (Some (wire_record r))"
      unfolding ReadDeltaRecord_def Let_def using True
      by (intro reads_bind [OF reads_ReadUint32] reads_bind [OF reads_ReadUint8] reads_bind [OF reads_IsGood])
        (simp add: reads_bind [OF reads_IsGood] wire_record_def reads_return Let_def
          reads_IsGood_then)
    with True show ?thesis by (simp add: delta_bits_def Let_def)
  next
    case False
    let ?m = "dr_mask r" and ?zz = "\<lambda>v. bits_msb 32 (ZigZag32 (ucast v))"
    have "reads ReadDeltaRecord (bits_msb 32 (dr_netId r) @ bits_msb 8 ?m @ [] @
        (if flag ?m DeltaSector then ?zz (sec_x (dr_sector r)) @ ?zz (sec_y (dr_sector r)) @ ?zz (sec_z (dr_sector r)) @ [] else []) @
        (if flag ?m DeltaPos then bits_msb 20 qx @ bits_msb 20 qy @ bits_msb 20 qz @ [] else []) @
        (if flag ?m DeltaHp then bits_msb 32 (dr_hp r) else []) @
        (if flag ?m DeltaShape then bits_msb 16 (dr_shapeId r) else []) @
        (if flag ?m DeltaOwner then bits_msb 32 (dr_ownerPlayer r) else []) @
        (if flag ?m DeltaKind then bits_msb 8 (dr_kind r) else []) @ [] @ []) (Some (wire_record r))"
      unfolding ReadDeltaRecord_def Let_def
      apply (rule reads_eq)
       apply (rule reads_bind, rule reads_ReadUint32, rule reads_bind, rule reads_ReadUint8, rule reads_bind, rule reads_IsGood)
       apply (simp only: False not_True_eq_False if_False)
       apply (rule reads_bind, rule reads_if, rule reads_intros)+
       apply (rule reads_bind, rule reads_IsGood, rule reads_return)
      apply (simp add: wire_record_def Let_def False q)
      done
    then show ?thesis using False by (simp add: delta_bits_def Let_def q cong: if_cong split del: if_split)
  qed
qed


lemma wire_record_idem [simp]: "wire_record (wire_record r) = wire_record r"
proof -
  have c: "ucast (scast v :: u64) = (v :: u32)" for v
    by (rule bit_word_eqI) (auto simp: bit_ucast_iff bit_signed_iff)
  show ?thesis
    by (auto simp: wire_record_def Let_def DeltaRecord_new_def c and.assoc split: prod.splits)
qed

lemma delta_bits_wire [simp]: "delta_bits (wire_record r) = delta_bits r"
proof -
  have c: "ucast (scast v :: u64) = (v :: u32)" for v
    by (rule bit_word_eqI) (auto simp: bit_ucast_iff bit_signed_iff)
  have "bits_msb 20 (v AND 1048575) = bits_msb 20 v" for v :: u32
    using bits_msb_mask [of 20 v] by (simp add: mask_eq_exp_minus_1)
  then show ?thesis
    by (simp add: wire_record_def delta_bits_def Let_def c split: prod.splits)
qed

lemma wellread_opt: "wellread m a \<Longrightarrow> wellread (if c then m else State_Monad.return d) 0"
  by (cases c) (simp_all add: wellread_return wellread_weaken [of m a 0])

lemma wellread_ReadSector: "wellread ReadSector 96"
proof -
  have "wellread ReadSector (32 + (32 + (32 + 0)))" unfolding ReadSector_def by (intro wellread_intros)
  then show ?thesis by simp
qed

lemma wellread_ReadQpos: "wellread ReadQpos 60"
proof -
  have "wellread ReadQpos (20 + (20 + (20 + 0)))"
    unfolding ReadQpos_def POS_QUANT_BITS_PER_AXIS_def by (intro wellread_intros)
  then show ?thesis by simp
qed

lemma wellread_fields:
  "wellread (do {
      sector \<leftarrow> (if a then ReadSector else State_Monad.return d0);
      qpos \<leftarrow> (if b then ReadQpos else State_Monad.return d1);
      hp \<leftarrow> (if c then ReadUint32 else State_Monad.return d2);
      shapeId \<leftarrow> (if d then ReadUint16 else State_Monad.return d3);
      owner \<leftarrow> (if e then ReadUint32 else State_Monad.return d4);
      kind \<leftarrow> (if f then ReadUint8 else State_Monad.return d5);
      g \<leftarrow> read_IsGood;
      State_Monad.return (k sector qpos hp shapeId owner kind g) }) 0"
proof -
  have "wellread (do {
      sector \<leftarrow> (if a then ReadSector else State_Monad.return d0);
      qpos \<leftarrow> (if b then ReadQpos else State_Monad.return d1);
      hp \<leftarrow> (if c then ReadUint32 else State_Monad.return d2);
      shapeId \<leftarrow> (if d then ReadUint16 else State_Monad.return d3);
      owner \<leftarrow> (if e then ReadUint32 else State_Monad.return d4);
      kind \<leftarrow> (if f then ReadUint8 else State_Monad.return d5);
      g \<leftarrow> read_IsGood;
      State_Monad.return (k sector qpos hp shapeId owner kind g) }) (0+(0+(0+(0+(0+(0+(0+0)))))))"
    by (intro wellread_bind wellread_opt [OF wellread_ReadSector] wellread_opt [OF wellread_ReadQpos]
        wellread_opt [OF wellread_Uint(1)] wellread_opt [OF wellread_Uint(2)]
        wellread_opt [OF wellread_Uint(3)] wellread_IsGood wellread_return)
  then show ?thesis by simp
qed

interpretation delta: checked_codec WriteDeltaRecord delta_bits "\<lambda>r. wire_record r = r" ReadDeltaRecord 40
proof
  fix w :: WriteBuffer and r :: DeltaRecord
  assume "wb_inv w"
  then show "wb_inv (WriteDeltaRecord r w) \<and> wb_bits (WriteDeltaRecord r w) = wb_bits w @ delta_bits r"
    by (rule WriteDeltaRecord_bits)
next
  fix r :: DeltaRecord
  assume "wire_record r = r"
  then show "reads ReadDeltaRecord (delta_bits r) (Some r)" using reads_ReadDeltaRecord [of r] by simp
next
  have body: "wellread (if \<not> good then State_Monad.return None
      else if t then do { g \<leftarrow> read_IsGood; State_Monad.return (k' g) } else m) 0" if "wellread m 0" for good t k' and m :: "DeltaRecord option rd"
    using that wellread_map [OF wellread_IsGood, of k'] by (simp add: wellread_return)
  have "wellread ReadDeltaRecord (32 + (8 + (0 + 0)))"
    unfolding ReadDeltaRecord_def Let_def
    by (intro wellread_bind wellread_Uint(3) wellread_Uint(1) wellread_IsGood body wellread_fields)
  then show "wellread ReadDeltaRecord 40" by simp
next
  show "honest ReadDeltaRecord"
    unfolding ReadDeltaRecord_def Let_def
    by (intro honest_bind) (auto intro!: honest_bind honest_checked honest_None)
qed

lemma reads_wire_records:
  "reads (read_checked (length rs) ReadDeltaRecord) (concat (map delta_bits rs)) (Some (map wire_record rs))"
proof -
  have "concat (map delta_bits (map wire_record rs)) = concat (map delta_bits rs)" by (simp add: comp_def)
  with delta.reads_checked [of "map wire_record rs"] show ?thesis by (simp add: list_all_iff)
qed


section \<open>Round trips\<close>

lemma reads_ReadSnapshot:
  assumes "length (sn_entities snap) < 65536"
  shows "reads ReadSnapshot (bits_msb 32 (sn_tick snap) @ bits_msb 16 (of_nat (length (sn_entities snap)) :: u16) @
    concat (map entity_bits (sn_entities snap))) (Some snap)"
proof -
  have n: "unat (of_nat (length (sn_entities snap)) :: u16) = length (sn_entities snap)" using assms by simp
  show ?thesis
    unfolding ReadSnapshot_def
    by (rule reads_bind [OF reads_ReadUint32], rule reads_bind [OF reads_ReadUint16], unfold n,
        rule reads_eq [OF reads_map [OF entity.reads_checked]]) (simp_all add: list_all_iff)
qed

lemma reads_ReadDeltaSnapshot:
  assumes "length (ds_records snap) < 65536"
  shows "reads ReadDeltaSnapshot (bits_msb 32 (ds_tick snap) @ bits_msb 16 (of_nat (length (ds_records snap)) :: u16) @
    concat (map delta_bits (ds_records snap))) (Some (snap\<lparr>ds_records := map wire_record (ds_records snap)\<rparr>))"
proof -
  have n: "unat (of_nat (length (ds_records snap)) :: u16) = length (ds_records snap)" using assms by simp
  show ?thesis
    unfolding ReadDeltaSnapshot_def
    by (rule reads_bind [OF reads_ReadUint32], rule reads_bind [OF reads_ReadUint16], unfold n,
        rule reads_eq [OF reads_map [OF reads_wire_records]]) simp
qed

lemma fold_WriteDeltaRecord:
  "wb_inv w \<Longrightarrow> wb_inv (fold WriteDeltaRecord rs w) \<and>
     wb_bits (fold WriteDeltaRecord rs w) = wb_bits w @ concat (map delta_bits rs)"
  by (induction rs arbitrary: w) (simp_all add: WriteDeltaRecord_bits)

lemma delta_buffer_bits:
  "wb_inv (delta_buffer snap)"
  "wb_bits (delta_buffer snap) = bits_msb 32 SERDE_VERSION @ bits_msb 32 (ds_tick snap) @
     bits_msb 16 (of_nat (length (ds_records snap)) :: u16) @ concat (map delta_bits (ds_records snap))"
  by (simp_all add: delta_buffer_def Let_def fold_WriteDeltaRecord wb_simps)

text \<open>A full snapshot round trips.  Every snapshot of fewer than 65536 entities is decoded to
  exactly what was encoded, field by field and in order.\<close>

theorem DecodeSnapshot_EncodeSnapshot:
  assumes "length (sn_entities snap) < 65536"
  shows "DecodeSnapshot (EncodeSnapshot snap) = Some snap"
proof -
  define wb where "wb = fold WriteSnapshotEntity (sn_entities snap)
    (WriteUint16 (of_nat (length (sn_entities snap))) (WriteUint32 (sn_tick snap) WriteBuffer_new))"
  have "wb_inv wb" "wb_bits wb = bits_msb 32 SERDE_VERSION @ bits_msb 32 (sn_tick snap) @
      bits_msb 16 (of_nat (length (sn_entities snap)) :: u16) @ concat (map entity_bits (sn_entities snap))"
    by (simp_all add: wb_def entity.fold_wr wb_simps list_all_iff)
  from decoded_from_written [OF reads_ReadSnapshot [OF assms] this] show ?thesis
    by (simp add: DecodeSnapshot_def EncodeSnapshot_def Let_def decoded_from_def case_prod_beta flip: wb_def)
qed

definition sample_entity :: SnapshotEntity where
  "sample_entity = \<lparr>se_netId = 7, se_kind = 2, se_pos = \<lparr>up_x = 20000, up_y = -5, up_z = 3\<rparr>,
     se_localOffset = (0x3F000000, 0, 0x3E800000), se_hp = 90, se_shapeId = 4, se_ownerPlayer = 11\<rparr>"

lemma DecodeSnapshot_EncodeSnapshot_witness:
  "DecodeSnapshot (EncodeSnapshot \<lparr>sn_tick = 5, sn_entities = [sample_entity, sample_entity]\<rparr>)
     = Some \<lparr>sn_tick = 5, sn_entities = [sample_entity, sample_entity]\<rparr>"
  by (rule DecodeSnapshot_EncodeSnapshot) simp

text \<open>A delta snapshot round trips.  Fewer than 65536 records come back in order, each with
  exactly the fields its mask names (the sector coordinates through 32 bits, the quantised position
  through 20 bits per axis) and defaults elsewhere; a tombstone carries nothing but its id.\<close>

theorem DecodeDelta_EncodeDelta:
  assumes "length (ds_records snap) < 65536"
  shows "DecodeDeltaSnapshot (EncodeDeltaSnapshot snap)
    = Some (snap\<lparr>ds_records := map wire_record (ds_records snap)\<rparr>)"
  using decoded_from_written [OF reads_ReadDeltaSnapshot [OF assms] delta_buffer_bits]
  by (simp add: DecodeDeltaSnapshot_def EncodeDeltaSnapshot_def Let_def decoded_from_def case_prod_beta)

definition sample_records :: "DeltaRecord list" where
  "sample_records =
     [DeltaRecord_new\<lparr>dr_netId := 3, dr_mask := DeltaPos OR DeltaHp, dr_qpos := (5, 6, 1048575), dr_hp := 20\<rparr>,
      DeltaRecord_new\<lparr>dr_netId := 4, dr_mask := DeltaTomb\<rparr>]"

lemma DecodeDelta_EncodeDelta_witness:
  "DecodeDeltaSnapshot (EncodeDeltaSnapshot \<lparr>ds_tick = 9, ds_records = sample_records\<rparr>)
     = Some \<lparr>ds_tick = 9, ds_records = sample_records\<rparr>"
proof -
  have "map wire_record sample_records = sample_records"
    by (simp add: sample_records_def wire_record_def DeltaRecord_new_def Let_def mask_eq_exp_minus_1)
  with DecodeDelta_EncodeDelta [of "\<lparr>ds_tick = 9, ds_records = sample_records\<rparr>"] show ?thesis
    by (simp add: sample_records_def)
qed

section \<open>The byte budget\<close>

lemma EncodeDelta_size:
  "length (EncodeDeltaSnapshot snap)
     = (DELTA_HEADER_BITS + sum_list (map DeltaRecordBits (ds_records snap)) + 7) div 8"
proof -
  have "length (concat (map delta_bits rs)) = sum_list (map DeltaRecordBits rs)" for rs
    by (induction rs) (simp_all add: length_delta_bits)
  then show ?thesis
    unfolding EncodeDeltaSnapshot_def Finalise_size [OF delta_buffer_bits(1)]
    by (simp add: delta_buffer_bits(2) DELTA_HEADER_BITS_def)
qed

lemma budget_loop_bound:
  assumes "budget_loop B bits ordered = (kept, overflow)" "(bits + 7) div 8 \<le> B"
  shows "(bits + sum_list (map DeltaRecordBits kept) + 7) div 8 \<le> B \<and>
    map dr_netId kept @ overflow = map dr_netId (filter (\<lambda>r. dr_mask r \<noteq> 0) ordered) \<and>
    (\<exists>rest. filter (\<lambda>r. dr_mask r \<noteq> 0) ordered = kept @ rest)"
  using assms
proof (induction B bits ordered arbitrary: kept overflow rule: budget_loop.induct)
  case (1 B bits)
  then show ?case by simp
next
  case (2 B bits r ordered)
  show ?case
  proof (cases "dr_mask r = 0 \<or> (bits + DeltaRecordBits r + 7) div 8 > B")
    case True
    then show ?thesis using 2 by (auto split: if_splits)
  next
    case False
    then obtain k where "kept = r # k" "budget_loop B (bits + DeltaRecordBits r) ordered = (k, overflow)"
      using "2.prems"(1) by (auto simp: Let_def split: prod.splits)
    then show ?thesis using 2(2) [OF _ refl, of k overflow] False by (simp add: add.assoc)
  qed
qed

text \<open>C32: Never larger than the MTU.  Whatever records are queued, the snapshot built for a budget
  of at least the ten header bytes encodes to at most that many bytes; it holds a
  prefix of the records that carry anything, in priority order, and every such record that did not fit is named in the
  overflow, in order, so that none is dropped.\<close>

theorem budget_respected:
  assumes "BuildBudgetedSnapshot tick ordered byteBudget = (snap, overflow)" and "10 \<le> byteBudget"
  shows "length (EncodeDeltaSnapshot snap) \<le> byteBudget \<and>
    map dr_netId (ds_records snap) @ overflow = map dr_netId (filter (\<lambda>r. dr_mask r \<noteq> 0) ordered) \<and>
    (\<exists>rest. filter (\<lambda>r. dr_mask r \<noteq> 0) ordered = ds_records snap @ rest)"
proof -
  obtain kept where k: "budget_loop byteBudget DELTA_HEADER_BITS ordered = (kept, overflow)"
    and snap: "snap = \<lparr>ds_tick = tick, ds_records = kept\<rparr>"
    using assms(1) by (auto simp: BuildBudgetedSnapshot_def split: prod.splits)
  have "(DELTA_HEADER_BITS + 7) div 8 \<le> byteBudget" using assms(2) by (simp add: DELTA_HEADER_BITS_def)
  from budget_loop_bound [OF k this] show ?thesis by (simp add: EncodeDelta_size snap)
qed

theorem budget_respected_witness:
  "length (EncodeDeltaSnapshot \<lparr>ds_tick = 9, ds_records = [hd sample_records]\<rparr>) \<le> 30 \<and> [3, 4] = [3] @ [4 :: u32]"
proof -
  have "BuildBudgetedSnapshot 9 sample_records 30 = (\<lparr>ds_tick = 9, ds_records = [hd sample_records]\<rparr>, [4])"
    by code_simp
  from budget_respected [OF this] show ?thesis by simp
qed

end
