(* ===== verification/Snapshot_Client.thy ===== *)
theory Snapshot_Client
  imports Snapshot_Codec
begin

text \<open>
  The client side of \<open>NeuronCore/Snapshot.h\<close>: \<open>DeltaDecodeState\<close> keeps the last
  known state of every entity and applies masked deltas onto it, last writer wins by tick.  The
  theorems bound the error of the quantised positions, show that a delta against what the client
  holds brings it exactly to the image of the server's entity, and that stale and duplicate
  snapshots change nothing.  The two maps of the class are partial functions.
\<close>

section \<open>The client's decoder\<close>

record DeltaDecodeState =
  m_entities :: "u32 \<rightharpoonup> SnapshotEntity"
  m_lastTick :: "u32 \<rightharpoonup> u32"
  m_latestTick :: u32

definition DeltaDecodeState_new :: DeltaDecodeState where
  "DeltaDecodeState_new = \<lparr>m_entities = (\<lambda>_. None), m_lastTick = (\<lambda>_. None), m_latestTick = 0\<rparr>"

definition position_from :: "SectorId \<Rightarrow> u32 \<times> u32 \<times> u32 \<Rightarrow> UniversePos \<times> XMFLOAT3" where
  "position_from sec q =
     (case q of (qx, qy, qz) \<Rightarrow>
       (let origin = SectorToOrigin sec;
            lx = DequantizeSectorLocal qx; ly = DequantizeSectorLocal qy; lz = DequantizeSectorLocal qz
        in (\<lparr>up_x = up_x origin + word_of_int \<lfloor>lx\<rfloor>, up_y = up_y origin + word_of_int \<lfloor>ly\<rfloor>,
             up_z = up_z origin + word_of_int \<lfloor>lz\<rfloor>\<rparr>,
            (f32_of (dsub lx (dfloor lx)), f32_of (dsub ly (dfloor ly)), f32_of (dsub lz (dfloor lz))))))"

definition apply_fields :: "DeltaRecord \<Rightarrow> SnapshotEntity \<Rightarrow> SnapshotEntity" where
  "apply_fields r e =
     (let m = dr_mask r;
          e = e\<lparr>se_netId := dr_netId r\<rparr>;
          sec = (if flag m DeltaSector then dr_sector r else UniverseToSector (se_pos e));
          e = (if flag m DeltaPos
               then (case position_from sec (dr_qpos r) of (pos, off) \<Rightarrow> e\<lparr>se_pos := pos, se_localOffset := off\<rparr>)
               else e);
          e = (if flag m DeltaHp then e\<lparr>se_hp := dr_hp r\<rparr> else e);
          e = (if flag m DeltaShape then e\<lparr>se_shapeId := dr_shapeId r\<rparr> else e);
          e = (if flag m DeltaOwner then e\<lparr>se_ownerPlayer := dr_ownerPlayer r\<rparr> else e)
      in if flag m DeltaKind then e\<lparr>se_kind := dr_kind r\<rparr> else e)"

definition ApplyRecord :: "u32 \<Rightarrow> DeltaRecord \<Rightarrow> DeltaDecodeState \<Rightarrow> DeltaDecodeState" where
  "ApplyRecord tick r s =
     (if (case m_lastTick s (dr_netId r) of Some t \<Rightarrow> tick \<le> t | None \<Rightarrow> False) then s
      else
        (let s = s\<lparr>m_lastTick := (m_lastTick s)(dr_netId r \<mapsto> tick)\<rparr>
         in if flag (dr_mask r) DeltaTomb then s\<lparr>m_entities := (m_entities s)(dr_netId r := None)\<rparr>
            else
              (let e = (case m_entities s (dr_netId r) of Some e \<Rightarrow> e | None \<Rightarrow> SnapshotEntity_new)
               in s\<lparr>m_entities := (m_entities s)(dr_netId r \<mapsto> apply_fields r e)\<rparr>)))"

definition DeltaApply :: "bytes \<Rightarrow> DeltaDecodeState \<Rightarrow> bool \<times> DeltaDecodeState" where
  "DeltaApply body s =
     (case DecodeDeltaSnapshot body of
        None \<Rightarrow> (False, s)
      | Some snap \<Rightarrow>
          (let s = (if ds_tick snap > m_latestTick s then s\<lparr>m_latestTick := ds_tick snap\<rparr> else s)
           in (True, fold (ApplyRecord (ds_tick snap)) (ds_records snap) s)))"

section \<open>Precision of the quantised position\<close>

lemma quant_consts: "quant_span = 16384" "double_of_int quant_steps = 1048576" "double_of_int (quant_steps - 1) = 1048575"
  using rnd_of_int [of 16384] rnd_of_int [of 1048576] rnd_of_int [of 1048575]
  by (simp_all add: quant_span_def quant_steps_def POS_QUANT_BITS_PER_AXIS_def double_of_int_def SECTOR_SIZE_simps(3))

lemma rat_powi: "(2 :: rat) powi (- 20) = 1 / 1048576" "(2 :: rat) powi (- 14) = 1 / 16384"
  "(2 :: rat) powi (- 6) = 1 / 64" "(2 :: rat) powi 20 = 1048576" "(2 :: rat) powi 14 = 16384"
  by (simp_all add: power_int_minus)

lemma rnd_int_div:
  assumes "\<bar>i\<bar> < 2 ^ 53"
  shows "rnd (of_int i / 1048576) = of_int i / 1048576" "rnd (of_int i / 64) = of_int i / 64"
  using rnd_rnd_int_scale [OF assms, of "- 20"] rnd_rnd_int_scale [OF assms, of "- 6"]
  unfolding rat_powi by (simp_all only: times_divide_eq_right mult_1_right)

lemma Dequantize_exact: "DequantizeSectorLocal q = of_int (uint q) / 64"
proof -
  have q: "\<bar>uint q\<bar> < 2 ^ 53" using uint_lt2p [of q] by simp
  obtain i where i: "uint q = i" by simp
  have 1: "double_of_int i = of_int i" using q unfolding double_of_int_def i by (rule rnd_of_int)
  have "ddiv (of_int i) 1048576 = of_int i / 1048576"
    using rnd_int_div(1) q unfolding ddiv_def i by blast
  moreover have "dmul (of_int i / 1048576) 16384 = rnd (of_int i / 64)" by (simp add: dmul_def)
  moreover have "rnd (of_int i / 64) = of_int i / 64" using rnd_int_div(2) q unfolding i by blast
  ultimately show ?thesis unfolding DequantizeSectorLocal_def quant_consts i 1 by (simp only:)
qed

lemma dround_error:
  assumes "0 \<le> x"
  shows "\<bar>dround x - x\<bar> \<le> 1 / 2"
proof -
  have "dround x = of_int \<lfloor>x + 1 / 2\<rfloor>" using assms by (simp add: dround_def)
  moreover have "of_int \<lfloor>x + 1 / 2\<rfloor> \<le> x + 1 / 2" "x + 1 / 2 < of_int \<lfloor>x + 1 / 2\<rfloor> + 1" by linarith+
  ultimately show ?thesis unfolding abs_le_iff by linarith
qed

text \<open>The quantisation of a rounded offset: less than one step from the exact value, also at the
  upper edge of the sector, where the index is clamped.\<close>

lemma scaled_close:
  assumes "0 \<le> c" "c \<le> 16384"
  shows "0 \<le> dmul (ddiv c 16384) 1048576 \<and> \<bar>dmul (ddiv c 16384) 1048576 - 64 * c\<bar> \<le> 1 / 1000"
proof -
  have "ddiv c 16384 = rnd c * 2 powi (- 14)"
    using rnd_scale [of c "- 14"] unfolding ddiv_def rat_powi by (simp only: times_divide_eq_right mult_1_right)
  moreover have "rnd c * 2 powi (- 14) * 1048576 = rnd c * 2 powi 6" unfolding rat_powi by simp
  ultimately have t: "dmul (ddiv c 16384) 1048576 = rnd (rnd c) * 64"
    unfolding dmul_def by (simp only: rnd_scale) simp
  have "\<bar>rnd c - c\<bar> \<le> c / 2 ^ 53" "0 \<le> rnd c" using rnd_error [of c] rnd_bounds [of c] assms by simp_all
  moreover have "c / 2 ^ 53 \<le> 1 / 1000000" using assms by simp
  ultimately have 1: "\<bar>rnd c - c\<bar> \<le> 1 / 1000000" "0 \<le> rnd c" by simp_all
  have r: "rnd c \<le> 16385" using 1(1) assms(2) unfolding abs_le_iff by linarith
  have "\<bar>rnd (rnd c) - rnd c\<bar> \<le> rnd c / 2 ^ 53" "0 \<le> rnd (rnd c)"
    using rnd_error [of "rnd c"] rnd_bounds [of "rnd c"] 1(2) by simp_all
  moreover have "rnd c / 2 ^ 53 \<le> 1 / 1000000" using r by simp
  ultimately have 2: "\<bar>rnd (rnd c) - rnd c\<bar> \<le> 1 / 1000000" "0 \<le> rnd (rnd c)" by simp_all
  show ?thesis unfolding t using 1(1) 2 unfolding abs_le_iff by linarith
qed

lemma quantize_clamped:
  assumes "0 \<le> c" "c \<le> 16384" "0 \<le> y" "y < 16384" "\<bar>c - y\<bar> \<le> 1 / 1000000"
    and t: "t = dmul (ddiv c 16384) 1048576" and q: "q = min \<lfloor>t + 1 / 2\<rfloor> 1048575"
  shows "0 \<le> q" "q < 2 ^ 20" "\<bar>of_int q - 64 * y\<bar> < 1"
proof -
  have t0: "0 \<le> t" "\<bar>t - 64 * c\<bar> \<le> 1 / 1000" using scaled_close [OF assms(1,2)] t by simp_all
  obtain i where i: "\<lfloor>t + 1 / 2\<rfloor> = i" by simp
  have f: "of_int i \<le> t + 1 / 2" "t + 1 / 2 < of_int i + 1" using i by linarith+
  have "0 \<le> i" using i t0(1) by linarith
  then show "0 \<le> q" "q < 2 ^ 20" using q i by simp_all
  show "\<bar>of_int q - 64 * y\<bar> < 1"
  proof (cases "i > 1048575")
    case True
    then have "of_int 1048576 \<le> (of_int i :: rat)" by (simp only: of_int_le_iff)
    moreover have "q = 1048575" using True q i by simp
    ultimately show ?thesis
      using f t0 assms(3-5) unfolding abs_le_iff abs_less_iff by simp
  next
    case False
    then have "q = i" using q i by simp
    then show ?thesis
      using f t0 assms(3-5) unfolding abs_le_iff abs_less_iff by simp
  qed
qed

lemma quantize_close:
  assumes "0 \<le> y" "y < 16384"
  obtains q where "QuantizeSectorLocal (rnd y) = word_of_int q" "0 \<le> q" "q < 2 ^ 20" "\<bar>of_int q - 64 * y\<bar> < 1"
proof -
  have ry: "\<bar>rnd y - y\<bar> \<le> y / 2 ^ 53" "0 \<le> rnd y" using rnd_error [of y] rnd_bounds [of y] assms by simp_all
  define c where "c = (if rnd y < 0 then 0 else if rnd y \<ge> 16384 then 16384 else rnd y)"
  have c: "0 \<le> c" "c \<le> 16384" using ry(2) by (auto simp: c_def)
  have "y / 2 ^ 53 \<le> 1 / 1000000" using assms by simp
  with ry have cy: "\<bar>c - y\<bar> \<le> 1 / 1000000"
    using assms unfolding c_def abs_le_iff by (simp split: if_splits)
  define t where "t = dmul (ddiv c 16384) 1048576"
  define q where "q = min \<lfloor>t + 1 / 2\<rfloor> 1048575"
  note close = quantize_clamped [OF c assms cy t_def q_def]
  have t0: "0 \<le> t" using scaled_close [OF c] by (simp add: t_def)
  then have "dround t = of_int \<lfloor>t + 1 / 2\<rfloor>" "0 \<le> \<lfloor>t + 1 / 2\<rfloor>" by (auto simp: dround_def)
  then have "QuantizeSectorLocal (rnd y) = word_of_int q"
    unfolding QuantizeSectorLocal_def Let_def quant_consts c_def [symmetric] t_def [symmetric] q_def
    by (auto simp: min_def not_less not_le dtrunc_def [of 1048575])
  with close that show thesis by blast
qed


section \<open>The image of an entity at the client\<close>

text \<open>What a client can know of an entity: everything but the position, which is the dequantised
  one.  \<open>axis_metres\<close> is the exact coordinate a position and its offset stand for.\<close>

definition decoded_view :: "SnapshotEntity \<Rightarrow> SnapshotEntity" where
  "decoded_view e =
     (case quantized e of (sec, q) \<Rightarrow> case position_from sec q of (pos, off) \<Rightarrow>
       e\<lparr>se_pos := pos, se_localOffset := off\<rparr>)"

definition axis_metres :: "u64 \<Rightarrow> u32 \<Rightarrow> rat" where
  "axis_metres p off = of_int (sint p) + f32_val off"

definition axis_quantum :: "u64 \<Rightarrow> u32 \<Rightarrow> u32" where
  "axis_quantum p off = QuantizeSectorLocal (dadd (double_of_int (sint (p AND mask 14))) (f32_val off))"

definition axis_view :: "u64 \<Rightarrow> u32 \<Rightarrow> u64 \<times> u32" where
  "axis_view sec q =
     (let l = DequantizeSectorLocal q in (push_bit 14 sec + word_of_int \<lfloor>l\<rfloor>, f32_of (dsub l (dfloor l))))"

lemma quantized_axes:
  "quantized e = (case se_localOffset e of (lx, ly, lz) \<Rightarrow>
     (UniverseToSector (se_pos e), axis_quantum (up_x (se_pos e)) lx, axis_quantum (up_y (se_pos e)) ly,
      axis_quantum (up_z (se_pos e)) lz))"
  by (simp add: quantized_def SectorLocalMetres_def axis_quantum_def Let_def SectorToOrigin_def
      UniverseToSector_def SECTOR_SHIFT_def axis_offset split: prod.splits)

lemma position_from_axes:
  "position_from sec (qx, qy, qz) =
     (\<lparr>up_x = fst (axis_view (sec_x sec) qx), up_y = fst (axis_view (sec_y sec) qy),
       up_z = fst (axis_view (sec_z sec) qz)\<rparr>,
      (snd (axis_view (sec_x sec) qx), snd (axis_view (sec_y sec) qy), snd (axis_view (sec_z sec) qz)))"
  by (simp add: position_from_def axis_view_def Let_def SectorToOrigin_def SECTOR_SHIFT_def)

lemma floor_div64: "\<lfloor>of_int i / 64 :: rat\<rfloor> = i div 64"
  using floor_divide_of_int_eq [of i 64, where ?'a = rat] by simp

lemma axis_view_exact:
  assumes "0 \<le> q" "q < 2 ^ 20"
  shows "axis_view sec (word_of_int q) = (push_bit 14 sec + word_of_int (q div 64), f32_of (of_int (q mod 64) / 64))"
    and "f32_val (f32_of (of_int (q mod 64) / 64)) = of_int (q mod 64) / 64"
proof -
  have u: "uint (word_of_int q :: u32) = q" using assms by (intro uint32_of_int) simp_all
  have fr: "of_int q / 64 - of_int (q div 64) = (of_int (q mod 64) / 64 :: rat)"
  proof -
    have "(of_int q :: rat) = of_int (q div 64 * 64 + q mod 64)" by simp
    then have "(of_int q :: rat) = of_int (q div 64) * 64 + of_int (q mod 64)"
      by (simp only: of_int_add of_int_mult of_int_numeral)
    then show ?thesis by linarith
  qed
  have "\<bar>q mod 64\<bar> < 2 ^ 53" by (simp add: abs_less_iff)
  then have "dsub (of_int q / 64) (of_int (q div 64)) = of_int (q mod 64) / 64"
    unfolding dsub_def fr by (rule rnd_int_div(2))
  then show "axis_view sec (word_of_int q) = (push_bit 14 sec + word_of_int (q div 64), f32_of (of_int (q mod 64) / 64))"
    unfolding axis_view_def Let_def Dequantize_exact u dfloor_def floor_div64 by (simp only:)
  have "q mod 64 < 64" by simp
  then have "0 \<le> q mod 64" "q mod 64 < 2 ^ 24" by simp_all
  from f32_scaled [OF this, of "- 6"] show "f32_val (f32_of (of_int (q mod 64) / 64)) = of_int (q mod 64) / 64"
    unfolding rat_powi by (simp only: times_divide_eq_right mult_1_right)
qed


lemma scaled_lt: "\<bar>a - 64 * y\<bar> < 1 \<Longrightarrow> \<bar>a / 64 - y\<bar> < (1 / 64 :: rat)"
proof -
  assume "\<bar>a - 64 * y\<bar> < 1"
  then have "a - 64 * y < 1" "64 * y - a < 1" by (simp_all only: abs_less_iff) linarith+
  then show ?thesis unfolding abs_less_iff by simp
qed

text \<open>One axis: the decoded coordinate is in the same sector and less than one quantum away.\<close>

lemma axis_view_close:
  assumes "0 \<le> f32_val off" "f32_val off < 1" and v: "axis_view (signed_drop_bit 14 p) (axis_quantum p off) = (p', off')"
  shows "signed_drop_bit 14 p' = signed_drop_bit 14 p" and "\<bar>axis_metres p' off' - axis_metres p off\<bar> < 1 / 64"
proof -
  obtain k where k: "sint (p AND mask 14) = k" "0 \<le> k" "k < 16384" "word_of_int k = p AND mask 14"
    by (rule low14_int)
  have kd: "double_of_int k = of_int k" using k unfolding double_of_int_def by (intro rnd_of_int) simp
  let ?y = "of_int k + f32_val off"
  have k1: "of_int k \<le> (16383 :: rat)" using k(3) by simp
  have y: "0 \<le> ?y" "?y < 16384" using k(2) k1 assms(1,2) by simp_all
  obtain q where q: "QuantizeSectorLocal (rnd ?y) = word_of_int q" "0 \<le> q" "q < 2 ^ 20"
    and close: "\<bar>of_int q - 64 * ?y\<bar> < 1"
    using quantize_close [OF y] .
  have aq: "axis_quantum p off = word_of_int q"
    unfolding axis_quantum_def k(1) kd dadd_def by (rule q(1))
  let ?o = "push_bit 14 (signed_drop_bit 14 p)"
  have p': "p' = ?o + word_of_int (q div 64)" and off': "off' = f32_of (of_int (q mod 64) / 64)"
    using v axis_view_exact(1) [OF q(2,3), of "signed_drop_bit 14 p"] unfolding aq by simp_all
  have qd: "0 \<le> q div 64" "q div 64 < 16384" using q(2,3) by simp_all
  show "signed_drop_bit 14 p' = signed_drop_bit 14 p"
    unfolding p' by (rule axis_sector_stable [OF qd])
  have base: "sint (?o + word_of_int j) = sint p - k + j" if "0 \<le> j" "j < 16384" for j
  proof -
    have "p = ?o + word_of_int k" using axis_split [of p] k(4) by simp
    then have eq: "?o + word_of_int j = word_of_int (sint p - k + j)" by (simp add: algebra_simps)
    have div: "sint p - k = 16384 * (sint p div 16384)"
    proof -
      have "k = uint p mod 16384" using k(1) sint_low14 [of p] by simp
      also have "\<dots> = sint p mod 16384"
        using take_bit_signed_take_bit [of 14 63 "uint p"] by (simp add: sint_uint take_bit_eq_mod)
      finally show ?thesis by (simp add: minus_mod_eq_mult_div)
    qed
    obtain n where n: "sint p div 16384 = n" by simp
    have r: "- 9223372036854775808 \<le> 16384 * n + k" "16384 * n + k < 9223372036854775808"
      using sint_range_size [of p] div unfolding n by (simp_all add: word_size)
    then have "- 562949953421313 < n" "n < 562949953421312" using k(2,3) by linarith+
    then have "- (2 ^ 63) \<le> sint p - k + j" "sint p - k + j < 2 ^ 63"
      unfolding div n using that by simp_all
    moreover have "sint (word_of_int z :: u64) = z" if "- (2 ^ 63) \<le> z" "z < 2 ^ 63" for z
      using that by (simp add: signed_of_int signed_take_bit_int_eq_self)
    ultimately show ?thesis unfolding eq by blast
  qed
  have "axis_metres p' off' - axis_metres p off = of_int q / 64 - ?y"
  proof -
    have "(of_int q :: rat) = of_int (q div 64 * 64 + q mod 64)" by simp
    then have "(of_int q :: rat) = of_int (q div 64) * 64 + of_int (q mod 64)"
      by (simp only: of_int_add of_int_mult of_int_numeral)
    then show ?thesis
      unfolding axis_metres_def off' axis_view_exact(2) [OF q(2,3)] p' base [OF qd] by simp
  qed
  then show "\<bar>axis_metres p' off' - axis_metres p off\<bar> < 1 / 64"
    using close scaled_lt by simp
qed


section \<open>Deltas against what the client holds\<close>

lemma quantize_range:
  obtains q where "QuantizeSectorLocal x = word_of_int q" "0 \<le> q" "q < 2 ^ 20"
proof -
  have r: "0 \<le> dtrunc z \<and> dtrunc z < 2 ^ 20" if "0 \<le> z" "z \<le> 1048575" for z
  proof -
    have "0 \<le> \<lfloor>z\<rfloor>" "\<lfloor>z\<rfloor> \<le> 1048575" using that by linarith+
    then show ?thesis using that by (simp add: dtrunc_def)
  qed
  define z where "z = (let c = (if x < 0 then 0 else if x \<ge> quant_span then quant_span else x);
      t = dround (dmul (ddiv c quant_span) (double_of_int quant_steps)); t = (if t < 0 then 0 else t)
      in if t > double_of_int (quant_steps - 1) then double_of_int (quant_steps - 1) else t)"
  have "0 \<le> z" "z \<le> 1048575" unfolding z_def Let_def quant_consts by simp_all
  moreover have "QuantizeSectorLocal x = word_of_int (dtrunc z)"
    by (simp add: QuantizeSectorLocal_def z_def Let_def)
  ultimately show thesis using r that by blast
qed

lemma quantize_mask: "QuantizeSectorLocal x AND mask 20 = QuantizeSectorLocal x"
proof -
  obtain q where q: "QuantizeSectorLocal x = word_of_int q" "0 \<le> q" "q < 2 ^ 20" by (rule quantize_range)
  have "uint (take_bit 20 (word_of_int q :: u32)) = uint (word_of_int q :: u32)"
    using q(2,3) by (simp only: unsigned_take_bit_eq) (simp add: uint32_of_int take_bit_int_eq_self)
  then show ?thesis unfolding q(1) take_bit_eq_mask [symmetric] by (rule word_uint_eqI)
qed

lemma quantized_mask:
  assumes "quantized e = (sec, qx, qy, qz)"
  shows "qx AND mask 20 = qx" "qy AND mask 20 = qy" "qz AND mask 20 = qz"
    "UniverseToSector (se_pos e) = sec"
  using assms by (auto simp: quantized_axes axis_quantum_def quantize_mask split: prod.splits)

lemma axis_view_sector:
  "signed_drop_bit 14 (fst (axis_view (signed_drop_bit 14 p) (QuantizeSectorLocal x))) = signed_drop_bit 14 p"
proof -
  obtain q where q: "QuantizeSectorLocal x = word_of_int q" "0 \<le> q" "q < 2 ^ 20" by (rule quantize_range)
  then have "0 \<le> q div 64" "q div 64 < 16384" by simp_all
  from axis_sector_stable [OF this] show ?thesis
    unfolding q(1) axis_view_exact(1) [OF q(2,3)] by simp
qed

lemma view_sector: "UniverseToSector (se_pos (decoded_view e)) = UniverseToSector (se_pos e)"
  by (simp add: decoded_view_def quantized_axes position_from_axes UniverseToSector_def SECTOR_SHIFT_def
      axis_quantum_def axis_view_sector split: prod.splits)

text \<open>The wire carries 32 bits of each sector coordinate.\<close>

definition sector_fits :: "SectorId \<Rightarrow> bool" where
  "sector_fits s \<longleftrightarrow> (\<forall>v \<in> {sec_x s, sec_y s, sec_z s}. scast (ucast v :: u32) = v)"

lemma decoded_view_sel [simp]:
  "se_pos (decoded_view e) = fst (position_from (fst (quantized e)) (snd (quantized e)))"
  "se_localOffset (decoded_view e) = snd (position_from (fst (quantized e)) (snd (quantized e)))"
  "se_netId (decoded_view e) = se_netId e" "se_kind (decoded_view e) = se_kind e"
  "se_hp (decoded_view e) = se_hp e" "se_shapeId (decoded_view e) = se_shapeId e"
  "se_ownerPlayer (decoded_view e) = se_ownerPlayer e"
  by (simp_all add: decoded_view_def split: prod.splits)

lemma apply_fields_sel [simp]:
  "se_netId (apply_fields r e) = dr_netId r"
  "se_pos (apply_fields r e) = (if flag (dr_mask r) DeltaPos then
     fst (position_from (if flag (dr_mask r) DeltaSector then dr_sector r else UniverseToSector (se_pos e)) (dr_qpos r))
     else se_pos e)"
  "se_localOffset (apply_fields r e) = (if flag (dr_mask r) DeltaPos then
     snd (position_from (if flag (dr_mask r) DeltaSector then dr_sector r else UniverseToSector (se_pos e)) (dr_qpos r))
     else se_localOffset e)"
  "se_hp (apply_fields r e) = (if flag (dr_mask r) DeltaHp then dr_hp r else se_hp e)"
  "se_shapeId (apply_fields r e) = (if flag (dr_mask r) DeltaShape then dr_shapeId r else se_shapeId e)"
  "se_ownerPlayer (apply_fields r e) = (if flag (dr_mask r) DeltaOwner then dr_ownerPlayer r else se_ownerPlayer e)"
  "se_kind (apply_fields r e) = (if flag (dr_mask r) DeltaKind then dr_kind r else se_kind e)"
  by (simp_all add: apply_fields_def Let_def split: prod.splits)

text \<open>The fields of a record that survive the wire.\<close>

lemma wire_record_sel:
  assumes "\<not> flag (dr_mask r) DeltaTomb"
  shows "dr_netId (wire_record r) = dr_netId r" "dr_mask (wire_record r) = dr_mask r"
    "flag (dr_mask r) DeltaSector \<Longrightarrow> sector_fits (dr_sector r) \<Longrightarrow> dr_sector (wire_record r) = dr_sector r"
    "flag (dr_mask r) DeltaPos \<Longrightarrow> dr_qpos r = (x, y, z) \<Longrightarrow>
       dr_qpos (wire_record r) = (x AND mask 20, y AND mask 20, z AND mask 20)"
    "flag (dr_mask r) DeltaHp \<Longrightarrow> dr_hp (wire_record r) = dr_hp r"
    "flag (dr_mask r) DeltaShape \<Longrightarrow> dr_shapeId (wire_record r) = dr_shapeId r"
    "flag (dr_mask r) DeltaOwner \<Longrightarrow> dr_ownerPlayer (wire_record r) = dr_ownerPlayer r"
    "flag (dr_mask r) DeltaKind \<Longrightarrow> dr_kind (wire_record r) = dr_kind r"
  using assms by (simp_all add: wire_record_def Let_def sector_fits_def)

lemma mask_flags:
  fixes s p h sh ow k :: bool
  defines "m \<equiv> (let m = 0; m = (if s then m OR DeltaSector else m); m = (if p then m OR DeltaPos else m);
      m = (if flag m DeltaSector then m OR DeltaPos else m); m = (if h then m OR DeltaHp else m);
      m = (if sh then m OR DeltaShape else m); m = (if ow then m OR DeltaOwner else m)
      in if k then m OR DeltaKind else m)"
  shows "\<not> flag m DeltaTomb" "flag m DeltaSector = s" "flag m DeltaPos = (s \<or> p)" "flag m DeltaHp = h"
    "flag m DeltaShape = sh" "flag m DeltaOwner = ow" "flag m DeltaKind = k"
  unfolding m_def Let_def
  by (cases s; cases p; cases h; cases sh; cases ow; cases k; simp)+

lemma MakeDelta_flags:
  fixes cur b :: SnapshotEntity
  defines "r \<equiv> MakeDeltaRecord cur (Some b)"
  shows "\<not> flag (dr_mask r) DeltaTomb" "flag (dr_mask r) DeltaSector = (fst (quantized cur) \<noteq> fst (quantized b))"
    "flag (dr_mask r) DeltaPos = (quantized cur \<noteq> quantized b)" "flag (dr_mask r) DeltaHp = (se_hp cur \<noteq> se_hp b)"
    "flag (dr_mask r) DeltaShape = (se_shapeId cur \<noteq> se_shapeId b)"
    "flag (dr_mask r) DeltaOwner = (se_ownerPlayer cur \<noteq> se_ownerPlayer b)"
    "flag (dr_mask r) DeltaKind = (se_kind cur \<noteq> se_kind b)"
proof -
  obtain sec q where c: "quantized cur = (sec, q)" by (cases "quantized cur")
  obtain bsec bq where bb: "quantized b = (bsec, bq)" by (cases "quantized b")
  note f = mask_flags [of "sec \<noteq> bsec" "q \<noteq> bq" "se_hp cur \<noteq> se_hp b" "se_shapeId cur \<noteq> se_shapeId b"
      "se_ownerPlayer cur \<noteq> se_ownerPlayer b" "se_kind cur \<noteq> se_kind b"]
  have m: "dr_mask r = (let m = 0; m = (if sec \<noteq> bsec then m OR DeltaSector else m);
      m = (if q \<noteq> bq then m OR DeltaPos else m);
      m = (if flag m DeltaSector then m OR DeltaPos else m); m = (if se_hp cur \<noteq> se_hp b then m OR DeltaHp else m);
      m = (if se_shapeId cur \<noteq> se_shapeId b then m OR DeltaShape else m);
      m = (if se_ownerPlayer cur \<noteq> se_ownerPlayer b then m OR DeltaOwner else m)
      in if se_kind cur \<noteq> se_kind b then m OR DeltaKind else m)"
    unfolding r_def MakeDeltaRecord_def Let_def c by (simp only: prod.case option.case bb DeltaRecord.simps)
  show "\<not> flag (dr_mask r) DeltaTomb" "flag (dr_mask r) DeltaSector = (fst (quantized cur) \<noteq> fst (quantized b))"
    "flag (dr_mask r) DeltaPos = (quantized cur \<noteq> quantized b)" "flag (dr_mask r) DeltaHp = (se_hp cur \<noteq> se_hp b)"
    "flag (dr_mask r) DeltaShape = (se_shapeId cur \<noteq> se_shapeId b)"
    "flag (dr_mask r) DeltaOwner = (se_ownerPlayer cur \<noteq> se_ownerPlayer b)"
    "flag (dr_mask r) DeltaKind = (se_kind cur \<noteq> se_kind b)"
    unfolding m f c bb by auto
qed

lemma MakeDelta_fields:
  "dr_netId (MakeDeltaRecord cur base) = se_netId cur" "dr_sector (MakeDeltaRecord cur base) = fst (quantized cur)"
  "dr_qpos (MakeDeltaRecord cur base) = snd (quantized cur)" "dr_hp (MakeDeltaRecord cur base) = se_hp cur"
  "dr_shapeId (MakeDeltaRecord cur base) = se_shapeId cur" "dr_kind (MakeDeltaRecord cur base) = se_kind cur"
  "dr_ownerPlayer (MakeDeltaRecord cur base) = se_ownerPlayer cur"
  by (simp_all add: MakeDeltaRecord_def Let_def split: prod.splits option.splits)

lemma wire_qpos:
  assumes "\<not> flag (dr_mask r) DeltaTomb" "flag (dr_mask r) DeltaPos" "dr_qpos r = snd (quantized e)"
  shows "dr_qpos (wire_record r) = snd (quantized e)"
proof -
  obtain sec qx qy qz where q: "quantized e = (sec, qx, qy, qz)" by (cases "quantized e") auto
  show ?thesis
    using wire_record_sel(4) [OF assms(1,2), of qx qy qz] assms(3) quantized_mask [OF q] by (simp add: q)
qed

lemma quantized_sector: "fst (quantized e) = UniverseToSector (se_pos e)"
  by (simp add: quantized_axes split: prod.splits)

lemma apply_first_sight:
  assumes "sector_fits (UniverseToSector (se_pos cur))"
  shows "apply_fields (wire_record (MakeDeltaRecord cur None)) e = decoded_view cur"
proof -
  let ?r = "MakeDeltaRecord cur None"
  have m: "dr_mask ?r = 63" by (simp add: MakeDeltaRecord_def Let_def split: prod.splits)
  then have t: "\<not> flag (dr_mask ?r) DeltaTomb" and f: "flag (dr_mask ?r) DeltaPos" "flag (dr_mask ?r) DeltaSector"
    "flag (dr_mask ?r) DeltaHp" "flag (dr_mask ?r) DeltaShape" "flag (dr_mask ?r) DeltaOwner" "flag (dr_mask ?r) DeltaKind"
    by simp_all
  have "sector_fits (dr_sector ?r)" using assms by (simp add: MakeDelta_fields quantized_sector)
  note w = wire_record_sel(1,2) [OF t] wire_record_sel(3) [OF t f(2) this] wire_qpos [OF t f(1) MakeDelta_fields(3)]
    wire_record_sel(5) [OF t f(3)] wire_record_sel(6) [OF t f(4)] wire_record_sel(7) [OF t f(5)]
    wire_record_sel(8) [OF t f(6)]
  show ?thesis
    by (rule SnapshotEntity.equality) (simp_all only: apply_fields_sel decoded_view_sel w f if_True MakeDelta_fields
        not_False_eq_True, simp)
qed

lemma apply_delta:
  assumes "sector_fits (UniverseToSector (se_pos cur))" "se_netId cur = se_netId base"
  shows "apply_fields (wire_record (MakeDeltaRecord cur (Some base))) (decoded_view base) = decoded_view cur"
proof -
  let ?r = "MakeDeltaRecord cur (Some base)"
  note t = MakeDelta_flags(1) [of cur base] and f = MakeDelta_flags [of cur base]
  have fits: "sector_fits (dr_sector ?r)" using assms(1) by (simp add: MakeDelta_fields quantized_sector)
  have sec: "(if flag (dr_mask ?r) DeltaSector then dr_sector (wire_record ?r) else fst (quantized base)) = fst (quantized cur)"
    using wire_record_sel(3) [OF t _ fits] f(2) by (auto simp: MakeDelta_fields)
  have vs: "UniverseToSector (se_pos (decoded_view base)) = fst (quantized base)"
    by (simp only: view_sector quantized_sector)
  have pos: "(if flag (dr_mask ?r) DeltaPos then position_from (fst (quantized cur)) (dr_qpos (wire_record ?r))
      else position_from (fst (quantized base)) (snd (quantized base))) = position_from (fst (quantized cur)) (snd (quantized cur))"
    using wire_qpos [OF t _ MakeDelta_fields(3)] f(3) by auto
  show ?thesis
  proof (rule SnapshotEntity.equality)
    show "se_pos (apply_fields (wire_record ?r) (decoded_view base)) = se_pos (decoded_view cur)"
      using pos unfolding apply_fields_sel wire_record_sel(2) [OF t] vs unfolding sec
      by (cases "flag (dr_mask ?r) DeltaPos") simp_all
    show "se_localOffset (apply_fields (wire_record ?r) (decoded_view base)) = se_localOffset (decoded_view cur)"
      using pos unfolding apply_fields_sel wire_record_sel(2) [OF t] vs unfolding sec
      by (cases "flag (dr_mask ?r) DeltaPos") simp_all
    show "se_hp (apply_fields (wire_record ?r) (decoded_view base)) = se_hp (decoded_view cur)"
      using wire_record_sel(5) [OF t] f(4) by (auto simp: wire_record_sel(2) [OF t] MakeDelta_fields)
    show "se_shapeId (apply_fields (wire_record ?r) (decoded_view base)) = se_shapeId (decoded_view cur)"
      using wire_record_sel(6) [OF t] f(5) by (auto simp: wire_record_sel(2) [OF t] MakeDelta_fields)
    show "se_ownerPlayer (apply_fields (wire_record ?r) (decoded_view base)) = se_ownerPlayer (decoded_view cur)"
      using wire_record_sel(7) [OF t] f(6) by (auto simp: wire_record_sel(2) [OF t] MakeDelta_fields)
    show "se_kind (apply_fields (wire_record ?r) (decoded_view base)) = se_kind (decoded_view cur)"
      using wire_record_sel(8) [OF t] f(7) by (auto simp: wire_record_sel(2) [OF t] MakeDelta_fields)
  qed (simp_all add: wire_record_sel(1) [OF t] MakeDelta_fields)
qed


section \<open>Whole snapshots\<close>

lemma ApplyRecord_other: "q \<noteq> dr_netId r \<Longrightarrow> m_entities (ApplyRecord t r s) q = m_entities s q \<and>
    m_lastTick (ApplyRecord t r s) q = m_lastTick s q"
  by (simp add: ApplyRecord_def Let_def)

definition newer :: "DeltaDecodeState \<Rightarrow> u32 \<Rightarrow> u32 \<Rightarrow> bool" where
  "newer s tick q \<longleftrightarrow> (case m_lastTick s q of None \<Rightarrow> True | Some t \<Rightarrow> t < tick)"

text \<open>The client holds the image of the baseline the server diffs against.\<close>

definition holds_base :: "DeltaDecodeState \<Rightarrow> SnapshotEntity \<times> SnapshotEntity option \<Rightarrow> bool" where
  "holds_base s p \<longleftrightarrow> (case p of (cur, base) \<Rightarrow> case base of None \<Rightarrow> True
     | Some b \<Rightarrow> se_netId cur = se_netId b \<and> m_entities s (se_netId cur) = Some (decoded_view b))"

lemma holds_newer_cong:
  "m_entities s' (se_netId (fst p)) = m_entities s (se_netId (fst p)) \<Longrightarrow> holds_base s' p = holds_base s p"
  "m_lastTick s' q = m_lastTick s q \<Longrightarrow> newer s' tick q = newer s tick q"
  by (cases p, simp add: holds_base_def) (simp add: newer_def)

definition delta_of :: "SnapshotEntity \<times> SnapshotEntity option \<Rightarrow> DeltaRecord" where
  "delta_of p = MakeDeltaRecord (fst p) (snd p)"

lemma delta_of_wire: "dr_netId (wire_record (delta_of p)) = se_netId (fst p)"
  "\<not> flag (dr_mask (wire_record (delta_of p))) DeltaTomb"
proof -
  have t: "\<not> flag (dr_mask (delta_of p)) DeltaTomb"
  proof (cases "snd p")
    case None
    then show ?thesis by (simp add: delta_of_def MakeDeltaRecord_def Let_def split: prod.splits)
  next
    case (Some b)
    then show ?thesis using MakeDelta_flags(1) [of "fst p" b] by (simp add: delta_of_def)
  qed
  then show "\<not> flag (dr_mask (wire_record (delta_of p))) DeltaTomb" using wire_record_sel(2) [OF t] by simp
  show "dr_netId (wire_record (delta_of p)) = se_netId (fst p)"
    unfolding wire_record_sel(1) [OF t] by (simp add: delta_of_def MakeDelta_fields)
qed

lemma apply_delta_of:
  assumes "holds_base s p" "newer s tick (se_netId (fst p))" "sector_fits (UniverseToSector (se_pos (fst p)))"
  shows "m_entities (ApplyRecord tick (wire_record (delta_of p)) s) (se_netId (fst p)) = Some (decoded_view (fst p))"
proof -
  have e: "apply_fields (wire_record (delta_of p))
      (case m_entities s (se_netId (fst p)) of Some e \<Rightarrow> e | None \<Rightarrow> SnapshotEntity_new) = decoded_view (fst p)"
  proof (cases "snd p")
    case None
    then show ?thesis using apply_first_sight [OF assms(3)] by (simp add: delta_of_def)
  next
    case (Some b)
    with assms(1) have "se_netId (fst p) = se_netId b" "m_entities s (se_netId (fst p)) = Some (decoded_view b)"
      by (cases p, simp add: holds_base_def)+
    with Some apply_delta [OF assms(3)] show ?thesis by (simp only: delta_of_def option.case)
  qed
  show ?thesis
    using assms(2) e delta_of_wire [of p]
    unfolding ApplyRecord_def newer_def Let_def delta_of_wire(1) by (simp split: option.splits)
qed

lemma fold_delta_of:
  assumes "distinct (map (se_netId \<circ> fst) ps)"
    and "\<forall>p \<in> set ps. holds_base s p \<and> newer s tick (se_netId (fst p)) \<and> sector_fits (UniverseToSector (se_pos (fst p)))"
  defines "s' \<equiv> fold (ApplyRecord tick) (map (wire_record \<circ> delta_of) ps) s"
  shows "(\<forall>p \<in> set ps. m_entities s' (se_netId (fst p)) = Some (decoded_view (fst p))) \<and>
    (\<forall>q. q \<notin> (se_netId \<circ> fst) ` set ps \<longrightarrow> m_entities s' q = m_entities s q)"
  using assms(1,2) unfolding s'_def
proof (induction ps arbitrary: s)
  case Nil
  then show ?case by simp
next
  case (Cons p ps)
  let ?s = "ApplyRecord tick (wire_record (delta_of p)) s"
  have other: "m_entities ?s q = m_entities s q \<and> m_lastTick ?s q = m_lastTick s q" if "q \<noteq> se_netId (fst p)" for q
    using ApplyRecord_other [of q "wire_record (delta_of p)" tick s] that by (simp only: delta_of_wire not_False_eq_True simp_thms)
  have "\<forall>p' \<in> set ps. holds_base ?s p' \<and> newer ?s tick (se_netId (fst p')) \<and> sector_fits (UniverseToSector (se_pos (fst p')))"
  proof
    fix p' assume p': "p' \<in> set ps"
    then have "se_netId (fst p') \<noteq> se_netId (fst p)" using Cons.prems(1) by (auto simp: image_iff)
    note o = other [OF this]
    have "holds_base ?s p' = holds_base s p'"
      "newer ?s tick (se_netId (fst p')) = newer s tick (se_netId (fst p'))"
      by (rule holds_newer_cong(1) [OF conjunct1 [OF o]], rule holds_newer_cong(2) [OF conjunct2 [OF o]])
    with Cons.prems(2) p' show "holds_base ?s p' \<and> newer ?s tick (se_netId (fst p')) \<and>
        sector_fits (UniverseToSector (se_pos (fst p')))" by simp
  qed
  note IH = Cons.IH [OF _ this]
  have "m_entities ?s (se_netId (fst p)) = Some (decoded_view (fst p))"
    using Cons.prems(2) by (intro apply_delta_of) simp_all
  with IH other Cons.prems(1) show ?case by (auto simp: image_iff)
qed

text \<open>C31: Deltas converge.  If the client holds, for every entity of a snapshot that is diffed
  against a baseline, the image of that baseline (nothing is required on first sight), and the
  snapshot is newer than what it applied last, then after encoding, transport and decoding it holds
  exactly the image of the server's entity for each of them, and every other entity is untouched:
  the fields left out of the records are never wrong at the client.\<close>

theorem delta_convergence:
  assumes "length ps < 65536" and "distinct (map (se_netId \<circ> fst) ps)"
    and "\<forall>p \<in> set ps. holds_base s p \<and> newer s tick (se_netId (fst p)) \<and> sector_fits (UniverseToSector (se_pos (fst p)))"
  shows "\<exists>s'. DeltaApply (EncodeDeltaSnapshot \<lparr>ds_tick = tick, ds_records = map delta_of ps\<rparr>) s = (True, s') \<and>
    (\<forall>p \<in> set ps. m_entities s' (se_netId (fst p)) = Some (decoded_view (fst p))) \<and>
    (\<forall>q. q \<notin> (se_netId \<circ> fst) ` set ps \<longrightarrow> m_entities s' q = m_entities s q)"
proof -
  let ?s = "if tick > m_latestTick s then s\<lparr>m_latestTick := tick\<rparr> else s"
  have d: "DecodeDeltaSnapshot (EncodeDeltaSnapshot \<lparr>ds_tick = tick, ds_records = map delta_of ps\<rparr>) =
      Some \<lparr>ds_tick = tick, ds_records = map (wire_record \<circ> delta_of) ps\<rparr>"
    using decoded_from_written [OF reads_ReadDeltaSnapshot delta_buffer_bits,
        of "\<lparr>ds_tick = tick, ds_records = map delta_of ps\<rparr>"] assms(1)
    by (simp add: DecodeDeltaSnapshot_def EncodeDeltaSnapshot_def Let_def decoded_from_def case_prod_beta)
  have "holds_base ?s p = holds_base s p \<and> newer ?s tick q = newer s tick q" for p q
    by (cases "tick > m_latestTick s") (simp_all add: holds_base_def newer_def split: prod.splits)
  with assms(3) have "\<forall>p \<in> set ps. holds_base ?s p \<and> newer ?s tick (se_netId (fst p)) \<and>
      sector_fits (UniverseToSector (se_pos (fst p)))" by blast
  note applied = fold_delta_of [OF assms(2) this]
  have "m_entities ?s = m_entities s" by simp
  with applied show ?thesis
    unfolding DeltaApply_def d option.case Let_def DeltaSnapshot.simps by (simp only: prod.inject simp_thms)
qed


lemma delta_convergence_witness:
  "\<exists>s'. DeltaApply (EncodeDeltaSnapshot \<lparr>ds_tick = 4, ds_records = map delta_of [(sample_entity, None)]\<rparr>)
       DeltaDecodeState_new = (True, s') \<and> m_entities s' 7 = Some (decoded_view sample_entity)"
proof -
  have "sector_fits (UniverseToSector (se_pos sample_entity))" by code_simp
  then show ?thesis
    using delta_convergence [of "[(sample_entity, None)]" DeltaDecodeState_new 4]
    by (auto simp: holds_base_def newer_def DeltaDecodeState_new_def sample_entity_def)
qed

text \<open>One quantum of error.  For an entity with its sub-metre offset in \<open>[0, 1)\<close>, the image
  the client ends up with lies in the same sector and less than 1/64 m from the exact server
  position on every axis, for any coordinates, also next to the sector edge, through all the
  roundings of the code in double and single precision.\<close>

theorem view_precision:
  assumes "se_localOffset e = (lx, ly, lz)" "se_localOffset (decoded_view e) = (vx, vy, vz)"
    and "\<forall>l \<in> {lx, ly, lz}. 0 \<le> f32_val l \<and> f32_val l < 1"
  shows "UniverseToSector (se_pos (decoded_view e)) = UniverseToSector (se_pos e) \<and>
    \<bar>axis_metres (up_x (se_pos (decoded_view e))) vx - axis_metres (up_x (se_pos e)) lx\<bar> < 1 / 64 \<and>
    \<bar>axis_metres (up_y (se_pos (decoded_view e))) vy - axis_metres (up_y (se_pos e)) ly\<bar> < 1 / 64 \<and>
    \<bar>axis_metres (up_z (se_pos (decoded_view e))) vz - axis_metres (up_z (se_pos e)) lz\<bar> < 1 / 64"
proof -
  have q: "quantized e = (UniverseToSector (se_pos e), axis_quantum (up_x (se_pos e)) lx,
      axis_quantum (up_y (se_pos e)) ly, axis_quantum (up_z (se_pos e)) lz)"
    by (simp add: quantized_axes assms(1))
  have v: "axis_view (signed_drop_bit 14 (up_x (se_pos e))) (axis_quantum (up_x (se_pos e)) lx) = (up_x (se_pos (decoded_view e)), vx)"
    "axis_view (signed_drop_bit 14 (up_y (se_pos e))) (axis_quantum (up_y (se_pos e)) ly) = (up_y (se_pos (decoded_view e)), vy)"
    "axis_view (signed_drop_bit 14 (up_z (se_pos e))) (axis_quantum (up_z (se_pos e)) lz) = (up_z (se_pos (decoded_view e)), vz)"
    using assms(2) by (auto simp: q position_from_axes UniverseToSector_def SECTOR_SHIFT_def intro!: prod_eqI)
  have r: "0 \<le> f32_val lx" "f32_val lx < 1" "0 \<le> f32_val ly" "f32_val ly < 1" "0 \<le> f32_val lz" "f32_val lz < 1"
    using assms(3) by simp_all
  show ?thesis
    using view_sector [of e] axis_view_close(2) [OF r(1,2) v(1)] axis_view_close(2) [OF r(3,4) v(2)]
      axis_view_close(2) [OF r(5,6) v(3)] by blast
qed

theorem view_precision_witness:
  "UniverseToSector (se_pos (decoded_view sample_entity)) = UniverseToSector (se_pos sample_entity)"
proof -
  obtain vx vy vz where v: "se_localOffset (decoded_view sample_entity) = (vx, vy, vz)"
    by (cases "se_localOffset (decoded_view sample_entity)")
  have o: "se_localOffset sample_entity = (0x3F000000, 0, 0x3E800000)" by (simp add: sample_entity_def)
  have "f32_val 0x3F000000 = 1 / 2" "f32_val 0 = 0" "f32_val 0x3E800000 = 1 / 4" by code_simp+
  then show ?thesis using view_precision [OF o v] by simp
qed

section \<open>Stale and duplicate snapshots\<close>

lemma ApplyRecord_stale: "\<not> newer s tick (dr_netId r) \<Longrightarrow> ApplyRecord tick r s = s"
  by (auto simp: ApplyRecord_def newer_def not_less split: option.splits)

lemma ApplyRecord_not_newer: "\<not> newer (ApplyRecord tick r s) tick (dr_netId r)"
  by (auto simp: ApplyRecord_def newer_def Let_def not_less split: option.splits)

lemma ApplyRecord_keeps: "\<not> newer s tick q \<Longrightarrow> \<not> newer (ApplyRecord tick r s) tick q"
  by (auto simp: ApplyRecord_def newer_def Let_def not_less split: option.splits if_splits)

lemma fold_keeps: "\<not> newer s tick q \<Longrightarrow> \<not> newer (fold (ApplyRecord tick) rs s) tick q"
  by (induction rs arbitrary: s) (simp_all add: ApplyRecord_keeps)

lemma fold_not_newer: "r \<in> set rs \<Longrightarrow> \<not> newer (fold (ApplyRecord tick) rs s) tick (dr_netId r)"
  by (induction rs arbitrary: s) (auto simp: fold_keeps ApplyRecord_not_newer)

lemma fold_stale:
  assumes "\<forall>r \<in> set rs. \<not> newer s tick (dr_netId r)"
  shows "fold (ApplyRecord tick) rs s = s"
  using assms by (induction rs) (simp_all add: ApplyRecord_stale)

lemma fold_latest: "m_latestTick (fold (ApplyRecord tick) rs s) = m_latestTick s"
  by (induction rs arbitrary: s) (simp_all add: ApplyRecord_def Let_def)

text \<open>Duplicates are harmless.  Applying any datagram body a second time, well-formed or not,
  right after the first returns the same verdict and changes nothing.\<close>

theorem DeltaApply_idempotent:
  "DeltaApply body (snd (DeltaApply body s)) = DeltaApply body s"
proof (cases "DecodeDeltaSnapshot body")
  case None
  then show ?thesis by (simp add: DeltaApply_def)
next
  case (Some snap)
  let ?t = "ds_tick snap"
  let ?s = "if ?t > m_latestTick s then s\<lparr>m_latestTick := ?t\<rparr> else s"
  let ?s' = "fold (ApplyRecord ?t) (ds_records snap) ?s"
  have "m_latestTick ?s' = m_latestTick ?s" by (rule fold_latest)
  then have "\<not> m_latestTick ?s' < ?t" by (simp split: if_splits)
  moreover have "fold (ApplyRecord ?t) (ds_records snap) ?s' = ?s'"
    by (rule fold_stale) (simp add: fold_not_newer)
  ultimately show ?thesis by (simp add: DeltaApply_def Some Let_def)
qed

end
