(* ===== verification/Interest_Grid.thy ===== *)
theory Interest_Grid
  imports Universe_Pos
begin

text \<open>
  \<open>NeuronCore/Interest.h\<close>, first half: the cell publish/subscribe grid.  Hash maps are
  partial functions; an \<open>unordered_set\<close> is a duplicate-free list in its iteration order.
  The theorems show that after any history of calls the per-cell lists are exactly the inverse of
  the residency and subscription maps, sorted, with no empty cell left behind, and what a
  subscription change and a visibility query return.
\<close>

section \<open>Operations\<close>

definition CollectNeighbourhood :: "SectorId \<Rightarrow> int \<Rightarrow> SectorId list \<Rightarrow> SectorId list" where
  "CollectNeighbourhood center radiusCells out =
     (let r = (if radiusCells < 0 then 0 else radiusCells)
      in out @ [\<lparr>sec_x = sec_x center + word_of_int dx, sec_y = sec_y center + word_of_int dy,
                sec_z = sec_z center + word_of_int dz\<rparr>. dx \<leftarrow> [- r..r], dy \<leftarrow> [- r..r], dz \<leftarrow> [- r..r]])"

definition SectorRadiusForRange :: "u32 \<Rightarrow> int" where
  "SectorRadiusForRange metres =
     (if f32_val metres \<le> 0 then 0
      else (let cells = ddiv (f32_val metres) (double_of_int (sint SECTOR_SIZE)) in \<lceil>cells\<rceil>))"

record Cell =
  residents :: "u32 list"
  subscribers :: "u32 list"

record InterestGrid =
  m_cells :: "SectorId \<rightharpoonup> Cell"
  m_entitySector :: "u32 \<rightharpoonup> SectorId"
  m_playerSubs :: "u32 \<rightharpoonup> SectorId list"
  m_playerPin :: "u32 \<rightharpoonup> SectorId list"

definition InterestGrid_new :: InterestGrid where
  "InterestGrid_new = \<lparr>m_cells = (\<lambda>_. None), m_entitySector = (\<lambda>_. None), m_playerSubs = (\<lambda>_. None),
     m_playerPin = (\<lambda>_. None)\<rparr>"

record CrossEvent =
  ce_changed :: bool
  ce_hadPrevious :: bool
  ce_from :: SectorId
  ce_to :: SectorId

record SubDelta =
  sd_entered :: "SectorId list"
  sd_left :: "SectorId list"

definition SortedInsert :: "u32 \<Rightarrow> u32 list \<Rightarrow> u32 list" where
  "SortedInsert x v =
     (let before = takeWhile (\<lambda>y. y < x) v; it = dropWhile (\<lambda>y. y < x) v
      in if it = [] \<or> hd it \<noteq> x then before @ x # it else v)"

definition SortedErase :: "u32 \<Rightarrow> u32 list \<Rightarrow> u32 list" where
  "SortedErase x v =
     (let before = takeWhile (\<lambda>y. y < x) v; it = dropWhile (\<lambda>y. y < x) v
      in if it \<noteq> [] \<and> hd it = x then before @ tl it else v)"

text \<open>\<open>m_cells[s]\<close> creates an empty cell; \<open>PruneCell\<close> erases one.\<close>

definition cell_at :: "InterestGrid \<Rightarrow> SectorId \<Rightarrow> Cell" where
  "cell_at g s = (case m_cells g s of None \<Rightarrow> \<lparr>residents = [], subscribers = []\<rparr> | Some c \<Rightarrow> c)"

definition PruneCell :: "SectorId \<Rightarrow> Cell \<Rightarrow> InterestGrid \<Rightarrow> InterestGrid" where
  "PruneCell s c g =
     (if residents c = [] \<and> subscribers c = [] then g\<lparr>m_cells := (m_cells g)(s := None)\<rparr>
      else g\<lparr>m_cells := (m_cells g)(s \<mapsto> c)\<rparr>)"

definition AddResident :: "SectorId \<Rightarrow> u32 \<Rightarrow> InterestGrid \<Rightarrow> InterestGrid" where
  "AddResident s e g =
     (let c = cell_at g s in g\<lparr>m_cells := (m_cells g)(s \<mapsto> c\<lparr>residents := SortedInsert e (residents c)\<rparr>)\<rparr>)"

definition RemoveResident :: "SectorId \<Rightarrow> u32 \<Rightarrow> InterestGrid \<Rightarrow> InterestGrid" where
  "RemoveResident s e g =
     (case m_cells g s of None \<Rightarrow> g
      | Some c \<Rightarrow> PruneCell s (c\<lparr>residents := SortedErase e (residents c)\<rparr>) g)"

definition AddSubscriber :: "SectorId \<Rightarrow> u32 \<Rightarrow> InterestGrid \<Rightarrow> InterestGrid" where
  "AddSubscriber s p g =
     (let c = cell_at g s in g\<lparr>m_cells := (m_cells g)(s \<mapsto> c\<lparr>subscribers := SortedInsert p (subscribers c)\<rparr>)\<rparr>)"

definition RemoveSubscriber :: "SectorId \<Rightarrow> u32 \<Rightarrow> InterestGrid \<Rightarrow> InterestGrid" where
  "RemoveSubscriber s p g =
     (case m_cells g s of None \<Rightarrow> g
      | Some c \<Rightarrow> PruneCell s (c\<lparr>subscribers := SortedErase p (subscribers c)\<rparr>) g)"

definition UpdateResidency :: "u32 \<Rightarrow> SectorId \<Rightarrow> InterestGrid \<Rightarrow> CrossEvent \<times> InterestGrid" where
  "UpdateResidency netId sector g =
     (let ev = \<lparr>ce_changed = False, ce_hadPrevious = False, ce_from = \<lparr>sec_x = 0, sec_y = 0, sec_z = 0\<rparr>,
                ce_to = sector\<rparr>
      in case m_entitySector g netId of
           None \<Rightarrow>
             (ev\<lparr>ce_changed := True\<rparr>,
              AddResident sector netId (g\<lparr>m_entitySector := (m_entitySector g)(netId \<mapsto> sector)\<rparr>))
         | Some s \<Rightarrow>
             (let ev = ev\<lparr>ce_hadPrevious := True, ce_from := s\<rparr>
              in if s = sector then (ev, g)
                 else
                   (let g = RemoveResident s netId g;
                        g = AddResident sector netId g
                    in (ev\<lparr>ce_changed := True\<rparr>,
                        g\<lparr>m_entitySector := (m_entitySector g)(netId \<mapsto> sector)\<rparr>))))"

definition Grid_Remove :: "u32 \<Rightarrow> InterestGrid \<Rightarrow> InterestGrid" where
  "Grid_Remove netId g =
     (case m_entitySector g netId of None \<Rightarrow> g
      | Some s \<Rightarrow> (RemoveResident s netId g)\<lparr>m_entitySector := (m_entitySector g)(netId := None)\<rparr>)"

definition ResidentCell :: "InterestGrid \<Rightarrow> u32 \<Rightarrow> SectorId option" where
  "ResidentCell g netId = m_entitySector g netId"

definition Residents :: "InterestGrid \<Rightarrow> SectorId \<Rightarrow> u32 list" where
  "Residents g s = (case m_cells g s of None \<Rightarrow> [] | Some c \<Rightarrow> residents c)"

definition Subscribers :: "InterestGrid \<Rightarrow> SectorId \<Rightarrow> u32 list" where
  "Subscribers g s = (case m_cells g s of None \<Rightarrow> [] | Some c \<Rightarrow> subscribers c)"

definition Subscriptions :: "InterestGrid \<Rightarrow> u32 \<Rightarrow> SectorId list" where
  "Subscriptions g player = (case m_playerSubs g player of None \<Rightarrow> [] | Some cs \<Rightarrow> cs)"

definition Subscribe :: "u32 \<Rightarrow> SectorId \<Rightarrow> InterestGrid \<Rightarrow> bool \<times> InterestGrid" where
  "Subscribe player s g =
     (let subs = Subscriptions g player
      in if s \<in> set subs then (False, g\<lparr>m_playerSubs := (m_playerSubs g)(player \<mapsto> subs)\<rparr>)
         else (True, AddSubscriber s player (g\<lparr>m_playerSubs := (m_playerSubs g)(player \<mapsto> subs @ [s])\<rparr>)))"

definition Unsubscribe :: "u32 \<Rightarrow> SectorId \<Rightarrow> InterestGrid \<Rightarrow> bool \<times> InterestGrid" where
  "Unsubscribe player s g =
     (case m_playerSubs g player of None \<Rightarrow> (False, g)
      | Some subs \<Rightarrow>
          (if s \<notin> set subs then (False, g)
           else (True, RemoveSubscriber s player
             (g\<lparr>m_playerSubs := (m_playerSubs g)(player \<mapsto> removeAll s subs)\<rparr>))))"

definition IsSubscribed :: "InterestGrid \<Rightarrow> u32 \<Rightarrow> SectorId \<Rightarrow> bool" where
  "IsSubscribed g player s = (case m_playerSubs g player of None \<Rightarrow> False | Some subs \<Rightarrow> s \<in> set subs)"

definition Pins :: "InterestGrid \<Rightarrow> u32 \<Rightarrow> SectorId list" where
  "Pins g player = (case m_playerPin g player of None \<Rightarrow> [] | Some cs \<Rightarrow> cs)"

definition PreSubscribe :: "u32 \<Rightarrow> SectorId \<Rightarrow> int \<Rightarrow> InterestGrid \<Rightarrow> InterestGrid" where
  "PreSubscribe player center radiusCells g =
     fold (\<lambda>c g.
         let pin = Pins g player;
             g = g\<lparr>m_playerPin := (m_playerPin g)(player \<mapsto> (if c \<in> set pin then pin else pin @ [c]))\<rparr>
         in snd (Subscribe player c g))
       (CollectNeighbourhood center radiusCells []) g"

definition ApplyTarget :: "u32 \<Rightarrow> SectorId list \<Rightarrow> InterestGrid \<Rightarrow> SubDelta \<times> InterestGrid" where
  "ApplyTarget player target g =
     (let cur = Subscriptions g player;
          left = filter (\<lambda>s. s \<notin> set target) cur;
          kept = filter (\<lambda>s. s \<in> set target) cur;
          entered = filter (\<lambda>s. s \<notin> set kept) target;
          g = fold (\<lambda>s. RemoveSubscriber s player) left g;
          g = fold (\<lambda>s. AddSubscriber s player) entered g
      in (\<lparr>sd_entered = entered, sd_left = left\<rparr>,
          g\<lparr>m_playerSubs := (m_playerSubs g)(player \<mapsto> kept @ entered)\<rparr>))"

fun pin_loop :: "SectorId list \<Rightarrow> SectorId list \<Rightarrow> SectorId list \<times> SectorId list" where
  "pin_loop target [] = (target, [])"
| "pin_loop target (c # pins) =
     (if c \<in> set target then pin_loop target pins
      else (case pin_loop (target @ [c]) pins of (target, pins) \<Rightarrow> (target, c # pins)))"

definition SetSubscription :: "u32 \<Rightarrow> SectorId list \<Rightarrow> InterestGrid \<Rightarrow> SubDelta \<times> InterestGrid" where
  "SetSubscription player cells g =
     (let target = remdups cells
      in case m_playerPin g player of
           None \<Rightarrow> ApplyTarget player target g
         | Some pins \<Rightarrow>
             (case pin_loop target pins of (target, pins) \<Rightarrow>
               ApplyTarget player target
                 (g\<lparr>m_playerPin := (m_playerPin g)(player := (if pins = [] then None else Some pins))\<rparr>)))"

definition RemovePlayer :: "u32 \<Rightarrow> InterestGrid \<Rightarrow> InterestGrid" where
  "RemovePlayer player g =
     (let g = (case m_playerSubs g player of None \<Rightarrow> g
               | Some subs \<Rightarrow> (fold (\<lambda>s. RemoveSubscriber s player) subs g)
                   \<lparr>m_playerSubs := (m_playerSubs g)(player := None)\<rparr>)
      in g\<lparr>m_playerPin := (m_playerPin g)(player := None)\<rparr>)"

definition VisibleTo :: "u32 \<Rightarrow> InterestGrid \<Rightarrow> u32 list" where
  "VisibleTo player g =
     (case m_playerSubs g player of None \<Rightarrow> []
      | Some subs \<Rightarrow> remdups_adj (sort (concat (map (Residents g) subs))))"


section \<open>Sorted cell lists\<close>

lemma SortedInsert_simps [simp]:
  "SortedInsert x [] = [x]"
  "SortedInsert x (y # ys) = (if y < x then y # SortedInsert x ys else if y = x then y # ys else x # y # ys)"
  by (simp_all add: SortedInsert_def Let_def)

lemma SortedErase_simps [simp]:
  "SortedErase x [] = []"
  "SortedErase x (y # ys) = (if y < x then y # SortedErase x ys else if y = x then ys else y # ys)"
  by (simp_all add: SortedErase_def Let_def)

lemma set_SortedInsert: "sorted_wrt (<) v \<Longrightarrow> set (SortedInsert x v) = insert x (set v)"
  by (induction v) auto

lemma SortedInsert_sorted: "sorted_wrt (<) v \<Longrightarrow> sorted_wrt (<) (SortedInsert x v)"
  by (induction v) (auto simp: set_SortedInsert)

lemma set_SortedErase: "sorted_wrt (<) v \<Longrightarrow> set (SortedErase x v) = set v - {x}"
  by (induction v) auto

lemma SortedErase_sorted: "sorted_wrt (<) v \<Longrightarrow> sorted_wrt (<) (SortedErase x v)"
  by (induction v) (auto simp: set_SortedErase)

lemma SortedInsert_not_Nil [simp]: "SortedInsert x v \<noteq> []"
  by (cases v) auto

section \<open>Effect of the cell operations\<close>

text \<open>The cells are well formed: sorted lists, and no cell that is empty on both sides.\<close>

definition cells_ok :: "InterestGrid \<Rightarrow> bool" where
  "cells_ok g \<longleftrightarrow> (\<forall>s c. m_cells g s = Some c \<longrightarrow>
     sorted_wrt (<) (residents c) \<and> sorted_wrt (<) (subscribers c) \<and> (residents c \<noteq> [] \<or> subscribers c \<noteq> []))"

named_theorems grid_simps \<open>what a cell operation does to the lists and the other maps\<close>

lemma Residents_sorted: "cells_ok g \<Longrightarrow> sorted_wrt (<) (Residents g s)"
  by (auto simp: cells_ok_def Residents_def split: option.splits)

lemma Subscribers_sorted: "cells_ok g \<Longrightarrow> sorted_wrt (<) (Subscribers g s)"
  by (auto simp: cells_ok_def Subscribers_def split: option.splits)

lemma frame_cells [grid_simps]:
  "m_entitySector (AddResident s e g) = m_entitySector g" "m_playerSubs (AddResident s e g) = m_playerSubs g"
  "m_playerPin (AddResident s e g) = m_playerPin g"
  "m_entitySector (RemoveResident s e g) = m_entitySector g" "m_playerSubs (RemoveResident s e g) = m_playerSubs g"
  "m_playerPin (RemoveResident s e g) = m_playerPin g"
  "m_entitySector (AddSubscriber s p g) = m_entitySector g" "m_playerSubs (AddSubscriber s p g) = m_playerSubs g"
  "m_playerPin (AddSubscriber s p g) = m_playerPin g"
  "m_entitySector (RemoveSubscriber s p g) = m_entitySector g" "m_playerSubs (RemoveSubscriber s p g) = m_playerSubs g"
  "m_playerPin (RemoveSubscriber s p g) = m_playerPin g"
  by (simp_all add: AddResident_def RemoveResident_def AddSubscriber_def RemoveSubscriber_def PruneCell_def
      Let_def split: option.splits)

lemma lists_AddResident [grid_simps]:
  "cells_ok g \<Longrightarrow> set (Residents (AddResident s e g) t) = (if t = s then insert e (set (Residents g t)) else set (Residents g t))"
  "Subscribers (AddResident s e g) t = Subscribers g t"
  by (auto simp: AddResident_def Let_def Residents_def Subscribers_def cell_at_def cells_ok_def
      set_SortedInsert split: option.splits)

lemma PruneCell_lists:
  "Residents (PruneCell s c g) t = (if t = s then residents c else Residents g t)"
  "Subscribers (PruneCell s c g) t = (if t = s then subscribers c else Subscribers g t)"
  by (simp_all add: PruneCell_def Residents_def Subscribers_def)

lemma cells_okD:
  "cells_ok g \<Longrightarrow> m_cells g s = Some c \<Longrightarrow> sorted_wrt (<) (residents c)"
  "cells_ok g \<Longrightarrow> m_cells g s = Some c \<Longrightarrow> sorted_wrt (<) (subscribers c)"
  by (simp_all add: cells_ok_def)

lemma lists_RemoveResident [grid_simps]:
  "cells_ok g \<Longrightarrow> set (Residents (RemoveResident s e g) t) = (if t = s then set (Residents g t) - {e} else set (Residents g t))"
  "Subscribers (RemoveResident s e g) t = Subscribers g t"
proof -
  consider "m_cells g s = None" | c where "m_cells g s = Some c" by (cases "m_cells g s") auto
  note cell = this
  show "set (Residents (RemoveResident s e g) t) = (if t = s then set (Residents g t) - {e} else set (Residents g t))" if "cells_ok g"
    using cell
  proof cases
    case 1
    then show ?thesis by (simp add: RemoveResident_def Residents_def)
  next
    case (2 c)
    with cells_okD [OF that 2] show ?thesis
      unfolding RemoveResident_def 2 option.case PruneCell_lists by (simp add: set_SortedErase Residents_def 2)
  qed
  show "Subscribers (RemoveResident s e g) t = Subscribers g t"
    using cell by cases (simp_all add: RemoveResident_def PruneCell_lists, simp add: Subscribers_def)
qed

lemma lists_AddSubscriber [grid_simps]:
  "cells_ok g \<Longrightarrow> set (Subscribers (AddSubscriber s p g) t) = (if t = s then insert p (set (Subscribers g t)) else set (Subscribers g t))"
  "Residents (AddSubscriber s p g) t = Residents g t"
  by (auto simp: AddSubscriber_def Let_def Residents_def Subscribers_def cell_at_def cells_ok_def
      set_SortedInsert split: option.splits)

lemma lists_RemoveSubscriber [grid_simps]:
  "cells_ok g \<Longrightarrow> set (Subscribers (RemoveSubscriber s p g) t) = (if t = s then set (Subscribers g t) - {p} else set (Subscribers g t))"
  "Residents (RemoveSubscriber s p g) t = Residents g t"
proof -
  consider "m_cells g s = None" | c where "m_cells g s = Some c" by (cases "m_cells g s") auto
  note cell = this
  show "set (Subscribers (RemoveSubscriber s p g) t) = (if t = s then set (Subscribers g t) - {p} else set (Subscribers g t))" if "cells_ok g"
    using cell
  proof cases
    case 1
    then show ?thesis by (simp add: RemoveSubscriber_def Subscribers_def)
  next
    case (2 c)
    with cells_okD [OF that 2] show ?thesis
      unfolding RemoveSubscriber_def 2 option.case PruneCell_lists by (simp add: set_SortedErase Subscribers_def 2)
  qed
  show "Residents (RemoveSubscriber s p g) t = Residents g t"
    using cell by cases (simp_all add: RemoveSubscriber_def PruneCell_lists, simp add: Residents_def)
qed

lemma cells_ok_ops [grid_simps]:
  assumes "cells_ok g"
  shows "cells_ok (AddResident s e g)" "cells_ok (RemoveResident s e g)"
    "cells_ok (AddSubscriber s p g)" "cells_ok (RemoveSubscriber s p g)"
  using assms
  by (auto simp: cells_ok_def AddResident_def RemoveResident_def AddSubscriber_def RemoveSubscriber_def
      PruneCell_def Let_def cell_at_def SortedInsert_sorted SortedErase_sorted split: option.splits if_splits)


lemma fold_RemoveSubscriber:
  fixes g :: InterestGrid and p :: u32 and ss :: "SectorId list"
  assumes "cells_ok g"
  defines "g' \<equiv> fold (\<lambda>s. RemoveSubscriber s p) ss g"
  shows "cells_ok g'" "m_entitySector g' = m_entitySector g" "m_playerSubs g' = m_playerSubs g"
    "m_playerPin g' = m_playerPin g" "Residents g' t = Residents g t"
    "set (Subscribers g' t) = (if t \<in> set ss then set (Subscribers g t) - {p} else set (Subscribers g t))"
proof -
  have "cells_ok g' \<and> m_entitySector g' = m_entitySector g \<and> m_playerSubs g' = m_playerSubs g \<and>
      m_playerPin g' = m_playerPin g \<and> Residents g' t = Residents g t \<and>
      set (Subscribers g' t) = (if t \<in> set ss then set (Subscribers g t) - {p} else set (Subscribers g t))"
    using assms(1) unfolding g'_def by (induction ss arbitrary: g) (simp_all add: grid_simps)
  then show "cells_ok g'" "m_entitySector g' = m_entitySector g" "m_playerSubs g' = m_playerSubs g"
    "m_playerPin g' = m_playerPin g" "Residents g' t = Residents g t"
    "set (Subscribers g' t) = (if t \<in> set ss then set (Subscribers g t) - {p} else set (Subscribers g t))"
    by blast+
qed

lemma fold_AddSubscriber:
  fixes g :: InterestGrid and p :: u32 and ss :: "SectorId list"
  assumes "cells_ok g"
  defines "g' \<equiv> fold (\<lambda>s. AddSubscriber s p) ss g"
  shows "cells_ok g'" "m_entitySector g' = m_entitySector g" "m_playerSubs g' = m_playerSubs g"
    "m_playerPin g' = m_playerPin g" "Residents g' t = Residents g t"
    "set (Subscribers g' t) = (if t \<in> set ss then insert p (set (Subscribers g t)) else set (Subscribers g t))"
proof -
  have "cells_ok g' \<and> m_entitySector g' = m_entitySector g \<and> m_playerSubs g' = m_playerSubs g \<and>
      m_playerPin g' = m_playerPin g \<and> Residents g' t = Residents g t \<and>
      set (Subscribers g' t) = (if t \<in> set ss then insert p (set (Subscribers g t)) else set (Subscribers g t))"
    using assms(1) unfolding g'_def by (induction ss arbitrary: g) (simp_all add: grid_simps)
  then show "cells_ok g'" "m_entitySector g' = m_entitySector g" "m_playerSubs g' = m_playerSubs g"
    "m_playerPin g' = m_playerPin g" "Residents g' t = Residents g t"
    "set (Subscribers g' t) = (if t \<in> set ss then insert p (set (Subscribers g t)) else set (Subscribers g t))"
    by blast+
qed

section \<open>The grid invariant\<close>

definition grid_inv :: "InterestGrid \<Rightarrow> bool" where
  "grid_inv g \<longleftrightarrow> cells_ok g \<and>
     (\<forall>s e. e \<in> set (Residents g s) \<longleftrightarrow> m_entitySector g e = Some s) \<and>
     (\<forall>s p. p \<in> set (Subscribers g s) \<longleftrightarrow> s \<in> set (Subscriptions g p)) \<and>
     (\<forall>p. distinct (Subscriptions g p))"

lemma view_update_simps [grid_simps]:
  "Residents (g\<lparr>m_entitySector := es\<rparr>) = Residents g" "Subscribers (g\<lparr>m_entitySector := es\<rparr>) = Subscribers g"
  "Residents (g\<lparr>m_playerSubs := ps\<rparr>) = Residents g" "Subscribers (g\<lparr>m_playerSubs := ps\<rparr>) = Subscribers g"
  "Residents (g\<lparr>m_playerPin := pp\<rparr>) = Residents g" "Subscribers (g\<lparr>m_playerPin := pp\<rparr>) = Subscribers g"
  "cells_ok (g\<lparr>m_entitySector := es\<rparr>) = cells_ok g" "cells_ok (g\<lparr>m_playerSubs := ps\<rparr>) = cells_ok g"
  "cells_ok (g\<lparr>m_playerPin := pp\<rparr>) = cells_ok g"
  "Subscriptions (g\<lparr>m_entitySector := es\<rparr>) = Subscriptions g" "Subscriptions (g\<lparr>m_playerPin := pp\<rparr>) = Subscriptions g"
  by (auto simp: Residents_def Subscribers_def cells_ok_def Subscriptions_def fun_eq_iff)

lemma Subscriptions_frame [grid_simps]:
  "Subscriptions (AddResident s e g) = Subscriptions g" "Subscriptions (RemoveResident s e g) = Subscriptions g"
  "Subscriptions (AddSubscriber s p g) = Subscriptions g" "Subscriptions (RemoveSubscriber s p g) = Subscriptions g"
  by (simp_all add: Subscriptions_def fun_eq_iff grid_simps)

lemma Subscriptions_update [grid_simps]:
  "Subscriptions (g\<lparr>m_playerSubs := (m_playerSubs g)(p \<mapsto> cs)\<rparr>) q = (if q = p then cs else Subscriptions g q)"
  "Subscriptions (g\<lparr>m_playerSubs := (m_playerSubs g)(p := None)\<rparr>) q = (if q = p then [] else Subscriptions g q)"
  by (simp_all add: Subscriptions_def)

lemma grid_invD:
  assumes "grid_inv g"
  shows "cells_ok g" "e \<in> set (Residents g s) \<longleftrightarrow> m_entitySector g e = Some s"
    "p \<in> set (Subscribers g s) \<longleftrightarrow> s \<in> set (Subscriptions g p)" "distinct (Subscriptions g p)"
  using assms by (simp_all add: grid_inv_def)

lemma grid_inv_new: "grid_inv InterestGrid_new"
  by (simp add: grid_inv_def InterestGrid_new_def cells_ok_def Residents_def Subscribers_def Subscriptions_def)

lemma UpdateResidency_inv:
  assumes "grid_inv g"
  shows "grid_inv (snd (UpdateResidency netId sector g))"
    "m_entitySector (snd (UpdateResidency netId sector g)) = (m_entitySector g)(netId \<mapsto> sector)"
    "Subscriptions (snd (UpdateResidency netId sector g)) = Subscriptions g"
  using grid_invD [OF assms]
  by (auto simp: UpdateResidency_def Let_def grid_inv_def grid_simps fun_upd_idem split: option.splits)

lemma Grid_Remove_inv:
  assumes "grid_inv g"
  shows "grid_inv (Grid_Remove netId g)" "m_entitySector (Grid_Remove netId g) = (m_entitySector g)(netId := None)"
  using grid_invD [OF assms]
  by (auto simp: Grid_Remove_def grid_inv_def grid_simps fun_upd_idem split: option.splits)

lemma Subscribe_inv:
  assumes "grid_inv g"
  shows "grid_inv (snd (Subscribe player s g))"
    "set (Subscriptions (snd (Subscribe player s g)) q) =
      (if q = player then insert s (set (Subscriptions g q)) else set (Subscriptions g q))"
    "m_entitySector (snd (Subscribe player s g)) = m_entitySector g"
  using grid_invD [OF assms]
  by (auto simp: Subscribe_def Let_def grid_inv_def grid_simps)

lemma Unsubscribe_inv:
  assumes "grid_inv g"
  shows "grid_inv (snd (Unsubscribe player s g))"
proof (cases "m_playerSubs g player")
  case None
  with assms show ?thesis by (simp add: Unsubscribe_def)
next
  case (Some subs)
  then have "Subscriptions g player = subs" by (simp add: Subscriptions_def)
  then show ?thesis
    using assms grid_invD [OF assms] Some
    by (auto simp: Unsubscribe_def grid_inv_def grid_simps distinct_removeAll)
qed

lemma ApplyTarget_inv:
  fixes g :: InterestGrid and player :: u32 and target :: "SectorId list"
  assumes g: "grid_inv g" and d: "distinct target"
  defines "r \<equiv> ApplyTarget player target g"
  shows "grid_inv (snd r)" "set (Subscriptions (snd r) q) = (if q = player then set target else set (Subscriptions g q))"
    "set (sd_entered (fst r)) = set target - set (Subscriptions g player)"
    "set (sd_left (fst r)) = set (Subscriptions g player) - set target"
    "m_entitySector (snd r) = m_entitySector g"
proof -
  note gD = grid_invD [OF g]
  let ?cur = "Subscriptions g player"
  let ?left = "filter (\<lambda>s. s \<notin> set target) ?cur" and ?kept = "filter (\<lambda>s. s \<in> set target) ?cur"
  let ?entered = "filter (\<lambda>s. s \<notin> set ?kept) target"
  define g1 where "g1 = fold (\<lambda>s. RemoveSubscriber s player) ?left g"
  define g2 where "g2 = fold (\<lambda>s. AddSubscriber s player) ?entered g1"
  note f1 = fold_RemoveSubscriber [OF gD(1), of player ?left, folded g1_def]
  note f2 = fold_AddSubscriber [OF f1(1), of player ?entered, folded g2_def]
  have r: "r = (\<lparr>sd_entered = ?entered, sd_left = ?left\<rparr>, g2\<lparr>m_playerSubs := (m_playerSubs g2)(player \<mapsto> ?kept @ ?entered)\<rparr>)"
    by (simp add: r_def ApplyTarget_def Let_def g1_def g2_def)
  have subs: "Subscriptions (snd r) q = (if q = player then ?kept @ ?entered else Subscriptions g q)" for q
    using f1(3) f2(3) by (simp add: r Subscriptions_def)
  show "set (Subscriptions (snd r) q) = (if q = player then set target else set (Subscriptions g q))" for q
    by (auto simp: subs)
  show "set (sd_entered (fst r)) = set target - set ?cur" "set (sd_left (fst r)) = set ?cur - set target"
    by (auto simp: r)
  show "m_entitySector (snd r) = m_entitySector g" using f1(2) f2(2) by (simp add: r)
  have res: "Residents (snd r) t = Residents g t" and es: "m_entitySector (snd r) = m_entitySector g" for t
    using f1(2,5) f2(2,5) by (simp_all add: r grid_simps)
  have "p \<in> set (Subscribers (snd r) t) \<longleftrightarrow> t \<in> set (Subscriptions (snd r) p)" for p t
    unfolding subs using f1(6) f2(6) gD(3) by (auto simp: r grid_simps)
  moreover have "distinct (Subscriptions (snd r) p)" for p
    using gD(4) d by (auto simp: subs)
  moreover have "cells_ok (snd r)" using f2(1) by (simp add: r grid_simps)
  ultimately show "grid_inv (snd r)" using gD(2) by (simp add: grid_inv_def res es)
qed

lemma pin_frame: "grid_inv (g\<lparr>m_playerPin := pp\<rparr>) = grid_inv g"
  by (simp add: grid_inv_def grid_simps)

lemma PreSubscribe_inv:
  assumes "grid_inv g"
  shows "grid_inv (PreSubscribe player center r g)"
    "m_entitySector (PreSubscribe player center r g) = m_entitySector g"
    "set (Subscriptions (PreSubscribe player center r g) q) =
      (if q = player then set (CollectNeighbourhood center r []) \<union> set (Subscriptions g q) else set (Subscriptions g q))"
proof -
  let ?step = "\<lambda>c g. let pin = Pins g player;
             g = g\<lparr>m_playerPin := (m_playerPin g)(player \<mapsto> (if c \<in> set pin then pin else pin @ [c]))\<rparr>
         in snd (Subscribe player c g)"
  have "grid_inv (fold ?step cs g) \<and> m_entitySector (fold ?step cs g) = m_entitySector g \<and>
      set (Subscriptions (fold ?step cs g) q) =
        (if q = player then set cs \<union> set (Subscriptions g q) else set (Subscriptions g q))" for cs
    using assms
  proof (induction cs arbitrary: g)
    case Nil
    then show ?case by simp
  next
    case (Cons c cs)
    let ?g = "g\<lparr>m_playerPin := (m_playerPin g)(player \<mapsto> (if c \<in> set (Pins g player) then Pins g player else Pins g player @ [c]))\<rparr>"
    from Cons.prems have g: "grid_inv ?g" by (simp add: pin_frame)
    note sub = Subscribe_inv [OF g, of player c]
    from Cons.IH [OF sub(1)] sub(2) [of q] sub(3) show ?case
      by (auto simp: Let_def grid_simps simp del: fun_upd_apply)
  qed
  from this [of "CollectNeighbourhood center r []"]
  show "grid_inv (PreSubscribe player center r g)"
    "m_entitySector (PreSubscribe player center r g) = m_entitySector g"
    "set (Subscriptions (PreSubscribe player center r g) q) =
      (if q = player then set (CollectNeighbourhood center r []) \<union> set (Subscriptions g q) else set (Subscriptions g q))"
    unfolding PreSubscribe_def by blast+
qed

text \<open>A pin that the new target covers is dropped, every other pin joins the target.\<close>

lemma pin_loop_spec:
  "distinct (target @ pins) \<or> distinct pins \<and> distinct target \<Longrightarrow>
   pin_loop target pins = (target @ filter (\<lambda>c. c \<notin> set target) pins, filter (\<lambda>c. c \<notin> set target) pins)"
proof (induction pins arbitrary: target)
  case (Cons c pins)
  then have d: "distinct pins" "distinct target" "c \<notin> set pins" by auto
  show ?case
  proof (cases "c \<in> set target")
    case True
    with Cons.IH d show ?thesis by simp
  next
    case False
    with d have "pin_loop (target @ [c]) pins =
        ((target @ [c]) @ filter (\<lambda>x. x \<notin> set (target @ [c])) pins, filter (\<lambda>x. x \<notin> set (target @ [c])) pins)"
      by (intro Cons.IH) auto
    moreover have "filter (\<lambda>x. x \<notin> set (target @ [c])) pins = filter (\<lambda>x. x \<notin> set target) pins"
      using d(3) by (intro filter_cong) auto
    ultimately show ?thesis using False by simp
  qed
qed simp

definition pins_ok :: "InterestGrid \<Rightarrow> bool" where
  "pins_ok g \<longleftrightarrow> (\<forall>p. distinct (Pins g p))"

lemma Pins_frame [grid_simps]:
  "Pins (AddResident s e g) = Pins g" "Pins (RemoveResident s e g) = Pins g"
  "Pins (AddSubscriber s p g) = Pins g" "Pins (RemoveSubscriber s p g) = Pins g"
  "Pins (g\<lparr>m_entitySector := es\<rparr>) = Pins g" "Pins (g\<lparr>m_playerSubs := ps\<rparr>) = Pins g"
  by (simp_all add: Pins_def fun_eq_iff grid_simps)

lemma Pins_update [grid_simps]:
  "Pins (g\<lparr>m_playerPin := (m_playerPin g)(p \<mapsto> cs)\<rparr>) q = (if q = p then cs else Pins g q)"
  "Pins (g\<lparr>m_playerPin := (m_playerPin g)(p := None)\<rparr>) q = (if q = p then [] else Pins g q)"
  by (simp_all add: Pins_def)

lemma Pins_ops [grid_simps]:
  "Pins (snd (UpdateResidency netId sector g)) = Pins g" "Pins (Grid_Remove netId g) = Pins g"
  "Pins (snd (Subscribe p s g)) = Pins g" "Pins (snd (Unsubscribe p s g)) = Pins g"
  by (auto simp: UpdateResidency_def Grid_Remove_def Subscribe_def Unsubscribe_def Let_def grid_simps
      split: option.splits)

lemma Pins_fold_RemoveSubscriber [grid_simps]: "Pins (fold (\<lambda>s. RemoveSubscriber s p) ss g) = Pins g"
  by (induction ss arbitrary: g) (simp_all add: grid_simps)

lemma Pins_fold_AddSubscriber [grid_simps]: "Pins (fold (\<lambda>s. AddSubscriber s p) ss g) = Pins g"
  by (induction ss arbitrary: g) (simp_all add: grid_simps)

lemma Pins_ApplyTarget [grid_simps]: "Pins (snd (ApplyTarget p t g)) = Pins g"
  by (simp add: ApplyTarget_def Let_def grid_simps)

lemma Pins_PreSubscribe:
  "pins_ok g \<Longrightarrow> pins_ok (PreSubscribe player center r g) \<and>
     set (Pins (PreSubscribe player center r g) q) =
       (if q = player then set (CollectNeighbourhood center r []) \<union> set (Pins g q) else set (Pins g q))"
proof -
  let ?step = "\<lambda>c g. let pin = Pins g player;
             g = g\<lparr>m_playerPin := (m_playerPin g)(player \<mapsto> (if c \<in> set pin then pin else pin @ [c]))\<rparr>
         in snd (Subscribe player c g)"
  have "pins_ok g \<Longrightarrow> pins_ok (fold ?step cs g) \<and>
     set (Pins (fold ?step cs g) q) = (if q = player then set cs \<union> set (Pins g q) else set (Pins g q))" for cs g
  proof (induction cs arbitrary: g)
    case (Cons c cs)
    have "pins_ok (?step c g)" using Cons.prems by (simp add: pins_ok_def Let_def grid_simps)
    from Cons.IH [OF this] show ?case by (auto simp: Let_def grid_simps simp del: fun_upd_apply)
  qed simp
  then show "pins_ok g \<Longrightarrow> ?thesis" unfolding PreSubscribe_def by blast
qed

text \<open>What is asked for and what the pins still keep.\<close>

definition subscription_goal :: "InterestGrid \<Rightarrow> u32 \<Rightarrow> SectorId list \<Rightarrow> SectorId set" where
  "subscription_goal g p cells = set cells \<union> set (Pins g p)"

lemma SetSubscription_inv:
  assumes g: "grid_inv g" and p: "pins_ok g"
  shows "grid_inv (snd (SetSubscription player cells g))" "pins_ok (snd (SetSubscription player cells g))"
    "m_entitySector (snd (SetSubscription player cells g)) = m_entitySector g"
    "set (Subscriptions (snd (SetSubscription player cells g)) q) =
       (if q = player then subscription_goal g player cells else set (Subscriptions g q))"
    "set (sd_entered (fst (SetSubscription player cells g))) =
       subscription_goal g player cells - set (Subscriptions g player)"
    "set (sd_left (fst (SetSubscription player cells g))) =
       set (Subscriptions g player) - subscription_goal g player cells"
    "set (Pins (snd (SetSubscription player cells g)) player) = set (Pins g player) - set cells"
proof -
  let ?pins = "Pins g player"
  let ?rest = "filter (\<lambda>c. c \<notin> set (remdups cells)) ?pins"
  define g' where "g' = (if m_playerPin g player = None then g
    else g\<lparr>m_playerPin := (m_playerPin g)(player := (if ?rest = [] then None else Some ?rest))\<rparr>)"
  have d: "distinct ?pins" using p by (simp add: pins_ok_def)
  have loop: "pin_loop (remdups cells) ?pins = (remdups cells @ ?rest, ?rest)"
    by (rule pin_loop_spec) (simp add: d)
  have eq: "SetSubscription player cells g = ApplyTarget player (remdups cells @ ?rest) g'"
    using loop by (cases "m_playerPin g player") (simp_all add: SetSubscription_def g'_def Pins_def)
  have g': "grid_inv g'" using g by (simp add: g'_def pin_frame)
  have subs: "Subscriptions g' = Subscriptions g" "m_entitySector g' = m_entitySector g"
    by (simp_all add: g'_def grid_simps)
  have pins: "Pins g' q = (if q = player then ?rest else Pins g q)" for q
    by (cases "m_playerPin g player") (auto simp: g'_def Pins_def)
  have dt: "distinct (remdups cells @ ?rest)" using d by auto
  have goal: "set (remdups cells @ ?rest) = subscription_goal g player cells"
    by (auto simp: subscription_goal_def)
  note inv = ApplyTarget_inv [OF g' dt, of player, folded eq, unfolded subs goal]
  show "grid_inv (snd (SetSubscription player cells g))" by (rule inv(1))
  show "set (Subscriptions (snd (SetSubscription player cells g)) q) =
      (if q = player then subscription_goal g player cells else set (Subscriptions g q))" by (rule inv(2))
  show "set (sd_entered (fst (SetSubscription player cells g))) =
      subscription_goal g player cells - set (Subscriptions g player)" by (rule inv(3))
  show "set (sd_left (fst (SetSubscription player cells g))) =
      set (Subscriptions g player) - subscription_goal g player cells" by (rule inv(4))
  show "m_entitySector (snd (SetSubscription player cells g)) = m_entitySector g" by (rule inv(5))
  have q: "Pins (snd (SetSubscription player cells g)) = Pins g'" unfolding eq by (rule Pins_ApplyTarget)
  show "pins_ok (snd (SetSubscription player cells g))"
    using p by (simp add: pins_ok_def q pins)
  show "set (Pins (snd (SetSubscription player cells g)) player) = set ?pins - set cells"
    by (auto simp: q pins)
qed

lemma RemovePlayer_inv:
  assumes g: "grid_inv g" and p: "pins_ok g"
  shows "grid_inv (RemovePlayer player g)" "pins_ok (RemovePlayer player g)"
proof -
  define g1 where "g1 = fold (\<lambda>s. RemoveSubscriber s player) (Subscriptions g player) g"
  note f = fold_RemoveSubscriber [OF grid_invD(1) [OF g], of player "Subscriptions g player", folded g1_def]
  have pins: "Pins g1 = Pins g" unfolding g1_def by (rule Pins_fold_RemoveSubscriber)
  show "pins_ok (RemovePlayer player g)"
  proof (cases "m_playerSubs g player")
    case None
    with p show ?thesis by (simp add: RemovePlayer_def pins_ok_def Pins_def)
  next
    case (Some subs)
    then have "Subscriptions g player = subs" by (simp add: Subscriptions_def)
    with p f(4) Some show ?thesis by (simp add: RemovePlayer_def pins_ok_def Pins_def g1_def)
  qed
  show "grid_inv (RemovePlayer player g)"
  proof (cases "m_playerSubs g player")
    case None
    with g show ?thesis by (simp add: RemovePlayer_def pin_frame)
  next
    case (Some subs)
    then have cur: "Subscriptions g player = subs" by (simp add: Subscriptions_def)
    define g2 where "g2 = g1\<lparr>m_playerSubs := (m_playerSubs g)(player := None)\<rparr>"
    have "RemovePlayer player g = g2\<lparr>m_playerPin := (m_playerPin g2)(player := None)\<rparr>"
      by (simp add: RemovePlayer_def Some Let_def g2_def g1_def cur)
    moreover have "grid_inv g2"
    proof -
      have subs: "Subscriptions g2 q = (if q = player then [] else Subscriptions g q)" for q
        by (simp add: g2_def Subscriptions_def)
      show ?thesis using f(1) f(2) f(5) f(6) grid_invD [OF g]
        by (auto simp: grid_inv_def subs) (auto simp: g2_def grid_simps cur split: if_splits)
    qed
    ultimately show ?thesis by (simp add: pin_frame)
  qed
qed

section \<open>Histories of the grid\<close>

text \<open>The public mutators, as the server calls them in any order.\<close>

datatype GridOp =
    OpUpdateResidency u32 SectorId
  | OpRemove u32
  | OpSubscribe u32 SectorId
  | OpUnsubscribe u32 SectorId
  | OpPreSubscribe u32 SectorId int
  | OpSetSubscription u32 "SectorId list"
  | OpRemovePlayer u32

fun grid_step :: "GridOp \<Rightarrow> InterestGrid \<Rightarrow> InterestGrid" where
  "grid_step (OpUpdateResidency e s) g = snd (UpdateResidency e s g)"
| "grid_step (OpRemove e) g = Grid_Remove e g"
| "grid_step (OpSubscribe p s) g = snd (Subscribe p s g)"
| "grid_step (OpUnsubscribe p s) g = snd (Unsubscribe p s g)"
| "grid_step (OpPreSubscribe p c r) g = PreSubscribe p c r g"
| "grid_step (OpSetSubscription p cs) g = snd (SetSubscription p cs g)"
| "grid_step (OpRemovePlayer p) g = RemovePlayer p g"

definition grid_run :: "GridOp list \<Rightarrow> InterestGrid" where
  "grid_run ops = fold grid_step ops InterestGrid_new"

text \<open>Where an entity is after a history: its last residency call, unless it was removed since.\<close>

fun last_sector :: "GridOp list \<Rightarrow> u32 \<Rightarrow> SectorId option" where
  "last_sector [] e = None"
| "last_sector (op # ops) e =
     (case last_sector ops e of Some s \<Rightarrow> Some s
      | None \<Rightarrow> if OpRemove e \<in> set ops then None
               else (case op of OpUpdateResidency e' s \<Rightarrow> if e' = e then Some s else None | _ \<Rightarrow> None))"

lemma grid_step_inv:
  assumes "grid_inv g" "pins_ok g"
  shows "grid_inv (grid_step op g)" "pins_ok (grid_step op g)"
    "m_entitySector (grid_step op g) =
       (case op of OpUpdateResidency e s \<Rightarrow> (m_entitySector g)(e \<mapsto> s) | OpRemove e \<Rightarrow> (m_entitySector g)(e := None)
        | _ \<Rightarrow> m_entitySector g)"
proof -
  show "grid_inv (grid_step op g)"
    using assms by (cases op)
      (simp_all add: UpdateResidency_inv Grid_Remove_inv Subscribe_inv Unsubscribe_inv PreSubscribe_inv
        SetSubscription_inv RemovePlayer_inv)
  show "pins_ok (grid_step op g)"
  proof (cases op)
    case (OpPreSubscribe p c r)
    with assms Pins_PreSubscribe show ?thesis by simp
  next
    case (OpSetSubscription p cs)
    with assms show ?thesis by (simp add: SetSubscription_inv)
  next
    case (OpRemovePlayer p)
    with assms show ?thesis by (simp add: RemovePlayer_inv)
  qed (use assms in \<open>simp_all add: pins_ok_def grid_simps\<close>)
  have sub: "m_entitySector (snd (Unsubscribe p s g)) = m_entitySector g" for p s
    by (simp add: Unsubscribe_def grid_simps split: option.split)
  have rem: "m_entitySector (RemovePlayer p g) = m_entitySector g" for p
    using fold_RemoveSubscriber(2) [OF grid_invD(1) [OF assms(1)]]
    by (simp add: RemovePlayer_def Let_def split: option.split)
  show "m_entitySector (grid_step op g) =
       (case op of OpUpdateResidency e s \<Rightarrow> (m_entitySector g)(e \<mapsto> s) | OpRemove e \<Rightarrow> (m_entitySector g)(e := None)
        | _ \<Rightarrow> m_entitySector g)"
    using assms by (cases op)
      (simp_all add: UpdateResidency_inv Grid_Remove_inv Subscribe_inv PreSubscribe_inv SetSubscription_inv sub rem)
qed

lemma fold_grid_step_inv:
  assumes "grid_inv g" "pins_ok g"
  shows "grid_inv (fold grid_step ops g)" "pins_ok (fold grid_step ops g)"
    "m_entitySector (fold grid_step ops g) e =
      (case last_sector ops e of Some s \<Rightarrow> Some s
       | None \<Rightarrow> if OpRemove e \<in> set ops then None else m_entitySector g e)"
proof -
  have "grid_inv (fold grid_step ops g) \<and> pins_ok (fold grid_step ops g) \<and>
    m_entitySector (fold grid_step ops g) e =
      (case last_sector ops e of Some s \<Rightarrow> Some s
       | None \<Rightarrow> if OpRemove e \<in> set ops then None else m_entitySector g e)"
    using assms
  proof (induction ops arbitrary: g)
    case (Cons op ops)
    note step = grid_step_inv [OF Cons.prems, of op]
    from Cons.IH [OF step(1,2)] show ?case
      unfolding step(3) by (cases op) (auto split: option.splits)
  qed simp
  then show "grid_inv (fold grid_step ops g)" "pins_ok (fold grid_step ops g)"
    "m_entitySector (fold grid_step ops g) e =
      (case last_sector ops e of Some s \<Rightarrow> Some s
       | None \<Rightarrow> if OpRemove e \<in> set ops then None else m_entitySector g e)"
    by blast+
qed

lemma grid_run_inv: "grid_inv (grid_run ops)" "pins_ok (grid_run ops)"
  "m_entitySector (grid_run ops) = last_sector ops"
  using fold_grid_step_inv [OF grid_inv_new, of ops]
  by (auto simp: grid_run_def pins_ok_def Pins_def InterestGrid_new_def fun_eq_iff split: option.split)

lemma strict_remdups_adj: "sorted (xs :: 'a :: linorder list) \<Longrightarrow> sorted_wrt (<) (remdups_adj xs)"
  by (induction xs rule: remdups_adj.induct) (auto simp: order.strict_iff_order)

lemma sorted_distinct_remdups_adj_sort: "sorted_wrt (<) (remdups_adj (sort (xs :: 'a :: linorder list)))"
  by (simp add: strict_remdups_adj)

lemma VisibleTo_set:
  "set (VisibleTo p g) = {e. \<exists>s \<in> set (Subscriptions g p). e \<in> set (Residents g s)}"
  "sorted_wrt (<) (VisibleTo p g)"
  by (auto simp: VisibleTo_def Subscriptions_def sorted_distinct_remdups_adj_sort split: option.split)

section \<open>Properties\<close>

text \<open>C33: After any history of calls, what a player sees is strictly increasing (so no entity twice, and
  the same on every run) and is exactly the entities whose last residency call put them into a cell
  the player is subscribed to; the per-cell resident and subscriber lists are exactly the
  inverses of the two maps, and no cell is kept that is empty on both sides.\<close>
theorem VisibleTo_exact:
  "sorted_wrt (<) (VisibleTo p (grid_run ops)) \<and>
   set (VisibleTo p (grid_run ops)) =
     {e. case last_sector ops e of None \<Rightarrow> False | Some s \<Rightarrow> IsSubscribed (grid_run ops) p s} \<and>
   set (Residents (grid_run ops) s) = {e. last_sector ops e = Some s} \<and>
   set (Subscribers (grid_run ops) s) = {q. IsSubscribed (grid_run ops) q s} \<and>
   cells_ok (grid_run ops)"
proof -
  note inv = grid_run_inv [of ops]
  note D = grid_invD [OF inv(1)]
  have sub: "IsSubscribed (grid_run ops) q t \<longleftrightarrow> t \<in> set (Subscriptions (grid_run ops) q)" for q t
    by (simp add: IsSubscribed_def Subscriptions_def split: option.split)
  show ?thesis
    unfolding VisibleTo_set using VisibleTo_set(2) D
    by (auto simp: sub inv(3) split: option.split)
qed

text \<open>A subscription replacement after any history reports exactly the difference: the cells
  entered are those asked for or still pinned by a warp prefetch that the player did not have, the cells
  left are those it had and that are neither; the new subscription is their union, a pinned cell
  that the new neighbourhood covers is unpinned, and nobody else's subscription moves.\<close>
theorem SetSubscription_delta:
  "let g = grid_run ops; (delta, g') = SetSubscription player cells g; goal = set cells \<union> set (Pins g player)
   in set (sd_entered delta) = goal - set (Subscriptions g player) \<and>
      set (sd_left delta) = set (Subscriptions g player) - goal \<and>
      set (Subscriptions g' player) = goal \<and>
      set (Pins g' player) = set (Pins g player) - set cells \<and>
      (q = player \<or> set (Subscriptions g' q) = set (Subscriptions g q))"
  using SetSubscription_inv [OF grid_run_inv(1,2), of player cells ops]
  by (simp add: case_prod_beta Let_def subscription_goal_def)

end
