(* ===== verification/Ordered_Map.thy ===== *)
theory Ordered_Map
  imports ER_Prelude "HOL-Library.AList"
begin

text \<open>
  \<open>std::map\<close> as the program uses it: an association list in strictly increasing key order, so
  that iteration, \<open>begin()\<close> and range scans follow the key order.  \<open>om_put\<close> is
  \<open>m[k] = v\<close>, \<open>om_emplace\<close> is \<open>try_emplace\<close>, and \<open>AList.delete\<close> is
  \<open>erase(k)\<close>.  An \<open>std::unordered_map\<close> whose iteration the code uses is an
  association list in an arbitrary order (\<open>AList.update\<close>, \<open>AList.delete\<close>, \<open>map_of\<close>).
\<close>

type_synonym ('k, 'v) ordered_map = "('k \<times> 'v) list"

fun om_put :: "'k::linorder \<Rightarrow> 'v \<Rightarrow> ('k, 'v) ordered_map \<Rightarrow> ('k, 'v) ordered_map" where
  "om_put k v [] = [(k, v)]"
| "om_put k v ((k', v') # m) =
     (if k < k' then (k, v) # (k', v') # m else if k = k' then (k, v) # m else (k', v') # om_put k v m)"

definition om_emplace :: "'k::linorder \<Rightarrow> 'v \<Rightarrow> ('k, 'v) ordered_map \<Rightarrow> ('k, 'v) ordered_map" where
  "om_emplace k v m = (if k \<in> fst ` set m then m else om_put k v m)"

definition om_sorted :: "('k::linorder, 'v) ordered_map \<Rightarrow> bool" where
  "om_sorted m \<longleftrightarrow> sorted_wrt (<) (map fst m)"

lemma om_sorted_simps [simp]:
  "om_sorted []" "om_sorted ((k, v) # m) \<longleftrightarrow> (\<forall>k' \<in> fst ` set m. k < k') \<and> om_sorted m"
  by (auto simp: om_sorted_def)

lemma keys_om_put [simp]: "fst ` set (om_put k v m) = insert k (fst ` set m)"
proof (induction m)
  case (Cons e m)
  then show ?case by (cases e) (simp add: insert_commute)
qed simp

lemma om_put_sorted: "om_sorted m \<Longrightarrow> om_sorted (om_put k v m)"
proof (induction m)
  case (Cons e m)
  obtain k' v' where e: "e = (k', v')" by (cases e)
  have "(\<forall>x \<in> fst ` set (om_put k v m). k' < x) \<longleftrightarrow> k' < k \<and> (\<forall>x \<in> fst ` set m. k' < x)"
    unfolding keys_om_put by blast
  with Cons show ?case by (auto simp: e)
qed simp

lemma map_of_om_put: "om_sorted m \<Longrightarrow> map_of (om_put k v m) = (map_of m)(k \<mapsto> v)"
  by (induction m) (auto simp: fun_eq_iff)

lemma set_om_put: "om_sorted m \<Longrightarrow> set (om_put k v m) = insert (k, v) {e \<in> set m. fst e \<noteq> k}"
proof (induction m)
  case (Cons e m)
  obtain k' v' where e: "e = (k', v')" by (cases e)
  with Cons.prems have "om_sorted m" "\<forall>x \<in> set m. k' < fst x" by auto
  with Cons.IH show ?case by (auto simp: e)
qed simp

lemma om_emplace_sorted: "om_sorted m \<Longrightarrow> om_sorted (om_emplace k v m)"
  by (simp add: om_emplace_def om_put_sorted)

lemma om_sorted_distinct: "om_sorted m \<Longrightarrow> distinct (map fst m)"
  by (simp add: om_sorted_def strict_sorted_iff)

lemma om_sorted_drop: "om_sorted m \<Longrightarrow> om_sorted (drop n m)"
  by (simp add: om_sorted_def sorted_wrt_drop flip: drop_map)

lemma om_sorted_filter: "om_sorted m \<Longrightarrow> om_sorted (filter P m)"
  by (induction m) auto

lemma om_sorted_delete: "om_sorted m \<Longrightarrow> om_sorted (AList.delete k m)"
  by (simp add: AList.delete_eq om_sorted_filter)

lemma om_sorted_map: "om_sorted m \<Longrightarrow> (\<And>e. fst (f e) = fst e) \<Longrightarrow> om_sorted (map f m)"
  by (simp add: om_sorted_def comp_def)

text \<open>A scan over the entries up to a key is a filter.\<close>

lemma om_scan:
  assumes "om_sorted m"
  shows "takeWhile (\<lambda>e. fst e \<le> k) m = filter (\<lambda>e. fst e \<le> k) m"
    "dropWhile (\<lambda>e. fst e \<le> k) m = filter (\<lambda>e. \<not> fst e \<le> k) m"
proof -
  have "takeWhile (\<lambda>e. fst e \<le> k) m = filter (\<lambda>e. fst e \<le> k) m \<and>
    dropWhile (\<lambda>e. fst e \<le> k) m = filter (\<lambda>e. \<not> fst e \<le> k) m"
    using assms
  proof (induction m)
    case (Cons e m)
    obtain k' v where e: "e = (k', v)" by (cases e)
    show ?case
    proof (cases "k' \<le> k")
      case False
      with Cons.prems have "\<forall>x \<in> set m. \<not> fst x \<le> k" by (auto simp: e)
      with False show ?thesis by (simp add: e filter_empty_conv)
    next
      case True
      with Cons show ?thesis by (simp add: e)
    qed
  qed simp
  then show "takeWhile (\<lambda>e. fst e \<le> k) m = filter (\<lambda>e. fst e \<le> k) m"
    "dropWhile (\<lambda>e. fst e \<le> k) m = filter (\<lambda>e. \<not> fst e \<le> k) m" by blast+
qed

end
