(* ===== verification/Replication.thy ===== *)
theory Replication
  imports Snapshot_Client Ordered_Map "HOL-Library.Multiset"
begin

text \<open>
  Replication bookkeeping of the server: the version stamps and per-client baselines of the second half of
  \<open>NeuronCore/Interest.h\<close>, and the priority scheduler and delta-base cache of
  \<open>NeuronCore/SnapshotScheduler.h\<close>.  The theorems give the version of an entity after any
  history, show what a scheduled prefix is, and relate what the server takes as acknowledged to what
  the client holds, with the scenarios in which the two part.
\<close>

section \<open>Version stamps\<close>

record ReplFields =
  rf_x :: u64
  rf_y :: u64
  rf_z :: u64
  rf_lox :: u32
  rf_loy :: u32
  rf_loz :: u32
  rf_hp :: u32
  rf_ownerPlayer :: u32
  rf_shapeId :: u16
  rf_kind :: u8

text \<open>Comparison of two floats: by value, so that both zeros are equal, and never equal for a NaN.\<close>

definition f32_isnan :: "u32 \<Rightarrow> bool" where
  "f32_isnan r \<longleftrightarrow> r AND 0x7FFFFFFF > 0x7F800000"

definition f32_eq :: "u32 \<Rightarrow> u32 \<Rightarrow> bool" where
  "f32_eq a b \<longleftrightarrow> \<not> f32_isnan a \<and> \<not> f32_isnan b \<and> f32_val a = f32_val b"

definition ReplFields_eq :: "ReplFields \<Rightarrow> ReplFields \<Rightarrow> bool" where
  "ReplFields_eq a b \<longleftrightarrow>
     rf_x a = rf_x b \<and> rf_y a = rf_y b \<and> rf_z a = rf_z b \<and>
     f32_eq (rf_lox a) (rf_lox b) \<and> f32_eq (rf_loy a) (rf_loy b) \<and> f32_eq (rf_loz a) (rf_loz b) \<and>
     rf_hp a = rf_hp b \<and> rf_ownerPlayer a = rf_ownerPlayer b \<and> rf_shapeId a = rf_shapeId b \<and>
     rf_kind a = rf_kind b"

record StampEntry =
  en_version :: u32
  en_last :: ReplFields

type_synonym ReplicationStamps = "u32 \<rightharpoonup> StampEntry"

definition Stamp :: "u32 \<Rightarrow> ReplFields \<Rightarrow> ReplicationStamps \<Rightarrow> u32 \<times> ReplicationStamps" where
  "Stamp netId cur m =
     (case m netId of
        None \<Rightarrow> (1, m(netId \<mapsto> \<lparr>en_version = 1, en_last = cur\<rparr>))
      | Some e \<Rightarrow>
          (let e = (if \<not> ReplFields_eq (en_last e) cur
                    then e\<lparr>en_version := en_version e + 1, en_last := cur\<rparr> else e)
           in (en_version e, m(netId \<mapsto> e))))"

definition Version :: "u32 \<Rightarrow> ReplicationStamps \<Rightarrow> u32" where
  "Version netId m = (case m netId of None \<Rightarrow> 0 | Some e \<Rightarrow> en_version e)"

definition Stamps_Remove :: "u32 \<Rightarrow> ReplicationStamps \<Rightarrow> ReplicationStamps" where
  "Stamps_Remove netId m = m(netId := None)"

section \<open>The per-client baseline\<close>

type_synonym SentList = "(u32 \<times> u32) list"

record ClientBaseline =
  m_acked :: "(u32 \<times> u32) list"
  cb_pending :: "(u32, SentList) ordered_map"
  m_tombstones :: "(u32, u32) ordered_map"

definition ClientBaseline_new :: ClientBaseline where
  "ClientBaseline_new = \<lparr>m_acked = [], cb_pending = [], m_tombstones = []\<rparr>"

definition MAX_PENDING :: nat where "MAX_PENDING = 64"
definition UNSENT :: u32 where "UNSENT = 0xFFFFFFFF"

definition Acked :: "ClientBaseline \<Rightarrow> u32 \<Rightarrow> u32" where
  "Acked b netId = (case map_of (m_acked b) netId of None \<Rightarrow> 0 | Some v \<Rightarrow> v)"

definition Needs :: "ClientBaseline \<Rightarrow> u32 \<Rightarrow> u32 \<Rightarrow> bool" where
  "Needs b netId currentVersion \<longleftrightarrow>
     currentVersion > (case map_of (m_acked b) netId of None \<Rightarrow> 0 | Some v \<Rightarrow> v)"

text \<open>Erasing \<open>begin()\<close> while the map is longer than the bound.\<close>

definition cap_pending :: "('k \<times> 'v) list \<Rightarrow> ('k \<times> 'v) list" where
  "cap_pending m = drop (length m - MAX_PENDING) m"

definition RecordSent :: "u32 \<Rightarrow> SentList \<Rightarrow> ClientBaseline \<Rightarrow> ClientBaseline" where
  "RecordSent tick sent b =
     (if sent = [] then b else b\<lparr>cb_pending := cap_pending (om_put tick sent (cb_pending b))\<rparr>)"

text \<open>\<open>a = m_acked[netId]; if (version > a) a = version\<close>\<close>

definition fold_version :: "u32 \<times> u32 \<Rightarrow> (u32 \<times> u32) list \<Rightarrow> (u32 \<times> u32) list" where
  "fold_version e acked =
     (case e of (netId, version) \<Rightarrow>
       (let a = (case map_of acked netId of None \<Rightarrow> 0 | Some v \<Rightarrow> v)
        in AList.update netId (if version > a then version else a) acked))"

definition Baseline_Ack :: "u32 \<Rightarrow> ClientBaseline \<Rightarrow> ClientBaseline" where
  "Baseline_Ack tick b =
     (let covered = takeWhile (\<lambda>e. fst e \<le> tick) (cb_pending b);
          b = b\<lparr>m_acked := fold (\<lambda>e. fold fold_version (snd e)) covered (m_acked b),
                cb_pending := dropWhile (\<lambda>e. fst e \<le> tick) (cb_pending b)\<rparr>
      in b\<lparr>m_tombstones := filter (\<lambda>e. \<not> (snd e \<noteq> UNSENT \<and> snd e \<le> tick)) (m_tombstones b)\<rparr>)"

definition Baseline_Forget :: "u32 \<Rightarrow> ClientBaseline \<Rightarrow> ClientBaseline" where
  "Baseline_Forget netId b = b\<lparr>m_acked := AList.delete netId (m_acked b)\<rparr>"

definition CollectAcked :: "ClientBaseline \<Rightarrow> u32 list \<Rightarrow> u32 list" where
  "CollectAcked b out = sort (out @ map fst (m_acked b))"

definition Tombstone :: "u32 \<Rightarrow> ClientBaseline \<Rightarrow> ClientBaseline" where
  "Tombstone netId b =
     (let b = b\<lparr>m_acked := AList.delete netId (m_acked b)\<rparr>
      in b\<lparr>m_tombstones := om_emplace netId UNSENT (m_tombstones b)\<rparr>)"

definition Untombstone :: "u32 \<Rightarrow> ClientBaseline \<Rightarrow> ClientBaseline" where
  "Untombstone netId b = b\<lparr>m_tombstones := AList.delete netId (m_tombstones b)\<rparr>"

definition IsTombstoned :: "ClientBaseline \<Rightarrow> u32 \<Rightarrow> bool" where
  "IsTombstoned b netId \<longleftrightarrow> map_of (m_tombstones b) netId \<noteq> None"

definition CollectTombstones :: "ClientBaseline \<Rightarrow> u32 list \<Rightarrow> u32 list" where
  "CollectTombstones b out = out @ map fst (m_tombstones b)"

definition RecordTombstonesSent :: "u32 \<Rightarrow> u32 list \<Rightarrow> ClientBaseline \<Rightarrow> ClientBaseline" where
  "RecordTombstonesSent tick netIds b =
     fold (\<lambda>n b. if map_of (m_tombstones b) n = Some UNSENT
                then b\<lparr>m_tombstones := om_put n tick (m_tombstones b)\<rparr> else b) netIds b"

definition ApproxBytes :: "ClientBaseline \<Rightarrow> nat" where
  "ApproxBytes b =
     length (m_acked b) * (4 * 2) + (\<Sum>e \<leftarrow> cb_pending b. 4 + length (snd e) * (4 * 2)) +
     length (m_tombstones b) * (4 * 2)"

section \<open>The scheduler\<close>

datatype Iff = Own | Enemy | Neutral

record RelevanceWeights =
  rw_own :: u32
  rw_enemy :: u32
  rw_neutral :: u32
  rw_baseBonus :: u32
  rw_targetBonus :: u32
  rw_distanceScale :: u32
  rw_stalenessPerTick :: u32

definition RelevanceWeights_default :: RelevanceWeights where
  "RelevanceWeights_default = \<lparr>rw_own = f32_of 4, rw_enemy = f32_of 3, rw_neutral = f32_of 1,
     rw_baseBonus = f32_of 2, rw_targetBonus = f32_of 3, rw_distanceScale = f32_of 16000,
     rw_stalenessPerTick = f32_of (5 / 100)\<rparr>"

record SchedCandidate =
  sc_netId :: u32
  sc_distance :: double
  sc_iff :: Iff
  sc_isBase :: bool
  sc_isTarget :: bool
  sc_staleness :: u32

definition SnapshotPriority :: "SchedCandidate \<Rightarrow> RelevanceWeights \<Rightarrow> double" where
  "SnapshotPriority c w =
     (let rel = (if sc_iff c = Own then f32_val (rw_own w)
                 else if sc_iff c = Enemy then f32_val (rw_enemy w) else f32_val (rw_neutral w));
          rel = (if sc_isBase c then dadd rel (f32_val (rw_baseBonus w)) else rel);
          rel = (if sc_isTarget c then dadd rel (f32_val (rw_targetBonus w)) else rel);
          distFactor = ddiv 1 (dadd 1 (ddiv (sc_distance c) (f32_val (rw_distanceScale w))));
          stale = dadd 1 (dmul (f32_val (rw_stalenessPerTick w)) (double_of_int (uint (sc_staleness c))))
      in dmul (dmul rel distFactor) stale)"

record ScheduleResult =
  sr_ordered :: "u32 list"
  sr_capped :: nat

text \<open>The comparator of the sort, and the sort: insertion by that comparator.\<close>

definition sched_less :: "RelevanceWeights \<Rightarrow> SchedCandidate \<Rightarrow> SchedCandidate \<Rightarrow> bool" where
  "sched_less w a b =
     (let pa = SnapshotPriority a w; pb = SnapshotPriority b w
      in if pa \<noteq> pb then pa > pb else sc_netId a < sc_netId b)"

fun sched_insert :: "RelevanceWeights \<Rightarrow> SchedCandidate \<Rightarrow> SchedCandidate list \<Rightarrow> SchedCandidate list" where
  "sched_insert w c [] = [c]"
| "sched_insert w c (d # ds) = (if sched_less w d c then d # sched_insert w c ds else c # d # ds)"

definition sched_sort :: "RelevanceWeights \<Rightarrow> SchedCandidate list \<Rightarrow> SchedCandidate list" where
  "sched_sort w cands = foldr (sched_insert w) cands []"

definition ScheduleClient :: "SchedCandidate list \<Rightarrow> RelevanceWeights \<Rightarrow> nat \<Rightarrow> ScheduleResult" where
  "ScheduleClient cands w visibleCap =
     (let cands = sched_sort w cands;
          n = (if visibleCap = 0 \<or> length cands \<le> visibleCap then length cands else visibleCap)
      in \<lparr>sr_ordered = map sc_netId (take n cands),
          sr_capped = (if length cands > n then length cands - n else 0)\<rparr>)"

section \<open>The delta-base cache\<close>

record ClientKnownState =
  m_known :: "u32 \<rightharpoonup> SnapshotEntity"
  ck_pending :: "(u32, SnapshotEntity list) ordered_map"

definition ClientKnownState_new :: ClientKnownState where
  "ClientKnownState_new = \<lparr>m_known = (\<lambda>_. None), ck_pending = []\<rparr>"

definition Base :: "ClientKnownState \<Rightarrow> u32 \<Rightarrow> SnapshotEntity option" where
  "Base k netId = m_known k netId"

definition Known_RecordSent :: "u32 \<Rightarrow> SnapshotEntity list \<Rightarrow> ClientKnownState \<Rightarrow> ClientKnownState" where
  "Known_RecordSent tick sent k =
     (if sent = [] then k else k\<lparr>ck_pending := cap_pending (om_put tick sent (ck_pending k))\<rparr>)"

definition Known_Ack :: "u32 \<Rightarrow> ClientKnownState \<Rightarrow> ClientKnownState" where
  "Known_Ack tick k =
     (let covered = takeWhile (\<lambda>e. fst e \<le> tick) (ck_pending k)
      in k\<lparr>m_known := fold (\<lambda>p. fold (\<lambda>e m. m(se_netId e \<mapsto> e)) (snd p)) covered (m_known k),
           ck_pending := dropWhile (\<lambda>e. fst e \<le> tick) (ck_pending k)\<rparr>)"

definition Known_Forget :: "u32 \<Rightarrow> ClientKnownState \<Rightarrow> ClientKnownState" where
  "Known_Forget netId k = k\<lparr>m_known := (m_known k)(netId := None)\<rparr>"

section \<open>Versions count changes\<close>

lemma ReplFields_eq_per: "ReplFields_eq a b \<Longrightarrow> ReplFields_eq a = ReplFields_eq b"
  by (auto simp: ReplFields_eq_def f32_eq_def fun_eq_iff)

datatype StampOp = OpStamp u32 ReplFields | OpForget u32

fun stamp_step :: "StampOp \<Rightarrow> ReplicationStamps \<Rightarrow> ReplicationStamps" where
  "stamp_step (OpStamp e f) m = snd (Stamp e f m)"
| "stamp_step (OpForget e) m = Stamps_Remove e m"

definition stamp_run :: "StampOp list \<Rightarrow> ReplicationStamps" where
  "stamp_run ops = fold stamp_step ops (\<lambda>_. None)"

text \<open>The field values stamped for one entity since it was last removed, and in how many distinct
  runs of equal values they come.\<close>

fun note_fields :: "u32 \<Rightarrow> StampOp \<Rightarrow> ReplFields list \<Rightarrow> ReplFields list" where
  "note_fields n (OpStamp e f) fs = (if e = n then fs @ [f] else fs)"
| "note_fields n (OpForget e) fs = (if e = n then [] else fs)"

definition stamped_fields :: "u32 \<Rightarrow> StampOp list \<Rightarrow> ReplFields list" where
  "stamped_fields n ops = fold (note_fields n) ops []"

fun change_count :: "ReplFields list \<Rightarrow> nat" where
  "change_count [] = 0"
| "change_count [f] = 1"
| "change_count (f # g # fs) = (if ReplFields_eq f g then 0 else 1) + change_count (g # fs)"

lemma change_count_snoc:
  "change_count (fs @ [g]) = change_count fs + (if fs \<noteq> [] \<and> ReplFields_eq (last fs) g then 0 else 1)"
  by (induction fs rule: change_count.induct) auto

definition stamp_ok :: "StampEntry option \<Rightarrow> ReplFields list \<Rightarrow> bool" where
  "stamp_ok m fs \<longleftrightarrow> (case m of None \<Rightarrow> fs = []
     | Some e \<Rightarrow> fs \<noteq> [] \<and> en_version e = of_nat (change_count fs) \<and>
         ReplFields_eq (en_last e) = ReplFields_eq (last fs))"

lemma stamp_ok_step: "stamp_ok (m n) fs \<Longrightarrow> stamp_ok (stamp_step op m n) (note_fields n op fs)"
proof (cases op)
  case (OpStamp e f)
  assume ok: "stamp_ok (m n) fs"
  show ?thesis
  proof (cases "e = n")
    case False
    with ok show ?thesis by (simp add: OpStamp Stamp_def Let_def split: option.split)
  next
    case True
    then show ?thesis
      using ok ReplFields_eq_per [of "last fs" f]
      by (cases "m n") (auto simp: OpStamp Stamp_def Let_def stamp_ok_def change_count_snoc)
  qed
qed (simp add: Stamps_Remove_def stamp_ok_def)

lemma stamp_ok_run: "stamp_ok (stamp_run ops n) (stamped_fields n ops)"
proof -
  have "stamp_ok (m n) fs \<Longrightarrow> stamp_ok (fold stamp_step ops m n) (fold (note_fields n) ops fs)" for m fs
    by (induction ops arbitrary: m fs) (simp_all add: stamp_ok_step)
  then show ?thesis by (simp add: stamp_run_def stamped_fields_def stamp_ok_def)
qed

text \<open>The replication version of an entity, after any history of stamps and removals of any
  entities, is the number of times its replicated fields changed since it was last removed (its
  first stamp counting as a change), modulo \<open>2 ^ 32\<close>; an idle entity holds its version.  So what a
  client needs is decided by comparing change counts.\<close>
theorem version_counts_changes:
  "Version n (stamp_run ops) = of_nat (change_count (stamped_fields n ops)) \<and>
   fst (Stamp n f (stamp_run ops)) = of_nat (change_count (stamped_fields n ops @ [f]))"
  using stamp_ok_run [of ops n]
  by (auto simp: stamp_ok_def Version_def Stamp_def Let_def change_count_snoc split: option.splits)

section \<open>Scheduling\<close>

lemma sched_less_irrefl: "\<not> sched_less w a a"
  by (simp add: sched_less_def)

lemma sched_less_trans: "sched_less w a b \<Longrightarrow> sched_less w b c \<Longrightarrow> sched_less w a c"
  by (auto simp: sched_less_def Let_def split: if_splits)

lemma sched_less_linear: "sc_netId a \<noteq> sc_netId b \<Longrightarrow> sched_less w a b \<or> sched_less w b a"
  by (auto simp: sched_less_def Let_def)

lemma mset_sched_insert: "mset (sched_insert w c ds) = add_mset c (mset ds)"
  by (induction ds) auto

lemma mset_sched_sort: "mset (sched_sort w cands) = mset cands"
  by (induction cands) (simp_all add: sched_sort_def mset_sched_insert)

lemma set_sched_insert: "set (sched_insert w c ds) = insert c (set ds)"
  using arg_cong [OF mset_sched_insert, of set_mset w c ds] by simp

lemma sched_insert_sorted:
  assumes "sorted_wrt (sched_less w) ds" "sc_netId c \<notin> sc_netId ` set ds"
  shows "sorted_wrt (sched_less w) (sched_insert w c ds)"
  using assms
proof (induction ds)
  case (Cons d ds)
  show ?case
  proof (cases "sched_less w d c")
    case True
    with Cons show ?thesis by (simp add: set_sched_insert)
  next
    case False
    with Cons.prems(2) have cd: "sched_less w c d" using sched_less_linear [of c d w] by auto
    with Cons.prems(1) have "\<forall>x \<in> set ds. sched_less w c x" using sched_less_trans by fastforce
    with Cons.prems(1) False cd show ?thesis by simp
  qed
qed simp

lemma sched_sort_sorted: "distinct (map sc_netId cands) \<Longrightarrow> sorted_wrt (sched_less w) (sched_sort w cands)"
proof (induction cands)
  case (Cons c cands)
  have "set (sched_sort w cands) = set cands" using arg_cong [OF mset_sched_sort, of set_mset w cands] by simp
  with Cons show ?case by (simp add: sched_sort_def sched_insert_sorted)
qed (simp add: sched_sort_def)

lemma sched_sorted_unique:
  assumes "sorted_wrt (sched_less w) xs" "sorted_wrt (sched_less w) ys" "mset xs = mset ys"
  shows "xs = ys"
  using assms
proof (induction xs arbitrary: ys)
  case (Cons x xs)
  then obtain y ys' where ys: "ys = y # ys'" by (cases ys) auto
  have "x = y"
  proof (rule ccontr)
    assume ne: "x \<noteq> y"
    have "set (x # xs) = set (y # ys')" using arg_cong [OF Cons.prems(3), of set_mset] by (simp add: ys)
    with ne have "x \<in> set ys'" "y \<in> set xs" by auto
    with Cons.prems(1,2) have "sched_less w x y" "sched_less w y x" by (simp_all add: ys)
    then show False using sched_less_trans sched_less_irrefl by blast
  qed
  with Cons show ?case by (simp add: ys)
qed simp

text \<open>C35: The schedule of a client is the best prefix and nothing else.  For candidates with
  distinct ids it does not depend on the order in which they were collected nor on the sorting
  algorithm; it lists the candidates in strictly descending priority (ties by id) up to the visible cap,
  every candidate left out ranks below every one kept, and the reported count is how many were left
  out (none when the cap is 0).\<close>
theorem schedule_exact:
  assumes "distinct (map sc_netId cands)" "mset cands' = mset cands"
    and "mset other = mset cands" "sorted_wrt (sched_less w) other"
  shows "ScheduleClient cands' w cap = ScheduleClient cands w cap \<and>
    sr_ordered (ScheduleClient cands w cap) = map sc_netId (if cap = 0 then other else take cap other) \<and>
    length (sr_ordered (ScheduleClient cands w cap)) + sr_capped (ScheduleClient cands w cap) = length cands \<and>
    (cap = 0 \<longrightarrow> sr_capped (ScheduleClient cands w cap) = 0)"
proof -
  have d: "distinct (map sc_netId cands')"
    using assms(1) arg_cong [OF assms(2), of "image_mset sc_netId"] by (metis mset_eq_imp_distinct_iff mset_map)
  have o: "sched_sort w cands = other"
    by (rule sched_sorted_unique [OF sched_sort_sorted [OF assms(1)] assms(4)]) (simp add: mset_sched_sort assms(3))
  have o': "sched_sort w cands' = other"
    by (rule sched_sorted_unique [OF sched_sort_sorted [OF d] assms(4)]) (simp add: mset_sched_sort assms(2,3))
  have "length other = length cands" by (rule mset_eq_length [OF assms(3)])
  then show ?thesis by (auto simp: ScheduleClient_def Let_def o o')
qed

definition sample_candidate :: "u32 \<Rightarrow> Iff \<Rightarrow> SchedCandidate" where
  "sample_candidate n i = \<lparr>sc_netId = n, sc_distance = 0, sc_iff = i, sc_isBase = False, sc_isTarget = False,
     sc_staleness = 0\<rparr>"

theorem schedule_exact_witness:
  "sr_ordered (ScheduleClient [sample_candidate 1 Neutral, sample_candidate 2 Enemy] RelevanceWeights_default 1) = [2]"
proof -
  have "sorted_wrt (sched_less RelevanceWeights_default) [sample_candidate 2 Enemy, sample_candidate 1 Neutral]"
    by code_simp
  from schedule_exact [OF _ refl _ this, of "[sample_candidate 1 Neutral, sample_candidate 2 Enemy]" 1]
  show ?thesis by (simp add: sample_candidate_def)
qed

section \<open>Acknowledged is held\<close>

text \<open>A server baseline against the log of what was sent and the ticks that reached the client, in
  any order and any number of times.  The step \<open>send\<close> holds the condition under which the
  bookkeeping is right: a new snapshot still carries every update that is sent and not acknowledged.\<close>

definition covers :: "SentList \<Rightarrow> SentList \<Rightarrow> bool" where
  "covers new old \<longleftrightarrow> (\<forall>e \<in> set old. \<exists>v \<ge> snd e. (fst e, v) \<in> set new)"

inductive repl_link :: "ClientBaseline \<Rightarrow> (u32 \<times> SentList) list \<Rightarrow> u32 set \<Rightarrow> bool" where
  init: "repl_link ClientBaseline_new [] {}"
| send: "repl_link b sl del \<Longrightarrow> \<forall>t \<in> fst ` set sl. t < tick \<Longrightarrow> \<forall>p \<in> set (cb_pending b). covers sent (snd p) \<Longrightarrow>
    repl_link (RecordSent tick sent b) ((tick, sent) # sl) del"
| deliver: "repl_link b sl del \<Longrightarrow> tick \<in> fst ` set sl \<Longrightarrow> repl_link b sl (insert tick del)"
| ack: "repl_link b sl del \<Longrightarrow> tick \<in> del \<Longrightarrow> repl_link (Baseline_Ack tick b) sl del"
| tomb: "repl_link b sl del \<Longrightarrow> repl_link (Tombstone n b) sl del"
| untomb: "repl_link b sl del \<Longrightarrow> repl_link (Untombstone n b) sl del"
| tombs_sent: "repl_link b sl del \<Longrightarrow> repl_link (RecordTombstonesSent tick ns b) sl del"
| forget: "repl_link b sl del \<Longrightarrow> repl_link (Baseline_Forget n b) sl del"

definition held :: "(u32 \<times> SentList) list \<Rightarrow> u32 set \<Rightarrow> u32 \<Rightarrow> u32 \<Rightarrow> bool" where
  "held sl del n v \<longleftrightarrow> (\<exists>t l v'. (t, l) \<in> set sl \<and> t \<in> del \<and> v \<le> v' \<and> (n, v') \<in> set l)"

lemma held_mono: "held sl del n v \<Longrightarrow> v' \<le> v \<Longrightarrow> set sl \<subseteq> set sl' \<Longrightarrow> del \<subseteq> del' \<Longrightarrow> held sl' del' n v'"
  unfolding held_def by (meson order_trans subsetD)

lemma fold_version_held:
  assumes "\<And>n v. map_of acked n = Some v \<Longrightarrow> v = 0 \<or> held sl del n v"
    and "\<And>e. e \<in> set l \<Longrightarrow> held sl del (fst e) (snd e)"
  shows "map_of (fold fold_version l acked) n = Some v \<Longrightarrow> v = 0 \<or> held sl del n v"
  using assms
proof (induction l arbitrary: acked)
  case (Cons e l)
  obtain m w where e: "e = (m, w)" by (cases e)
  show ?case
  proof (rule Cons.IH)
    show "map_of (fold fold_version l (fold_version e acked)) n = Some v" using Cons.prems(1) by simp
    show "u = 0 \<or> held sl del k u" if "map_of (fold_version e acked) k = Some u" for k u
      using that Cons.prems(2) [of k] Cons.prems(3) [of e]
      by (auto simp: e fold_version_def Let_def update_conv split: if_splits option.splits)
    show "held sl del (fst x) (snd x)" if "x \<in> set l" for x using Cons.prems(3) that by simp
  qed
qed simp

definition link_inv :: "ClientBaseline \<Rightarrow> (u32 \<times> SentList) list \<Rightarrow> u32 set \<Rightarrow> bool" where
  "link_inv b sl del \<longleftrightarrow> om_sorted (cb_pending b) \<and> del \<subseteq> fst ` set sl \<and> length (cb_pending b) \<le> MAX_PENDING \<and>
     (\<forall>p \<in> set (cb_pending b). p \<in> set sl \<and> (\<forall>q \<in> set sl. fst p \<le> fst q \<longrightarrow> covers (snd q) (snd p))) \<and>
     (\<forall>n v. map_of (m_acked b) n = Some v \<longrightarrow> v = 0 \<or> held sl del n v)"

lemma link_invD:
  "link_inv b sl del \<Longrightarrow> p \<in> set (cb_pending b) \<Longrightarrow> q \<in> set sl \<Longrightarrow> fst p \<le> fst q \<Longrightarrow> covers (snd q) (snd p)"
  "link_inv b sl del \<Longrightarrow> map_of (m_acked b) n = Some v \<Longrightarrow> v = 0 \<or> held sl del n v"
  by (simp_all add: link_inv_def)

lemma covers_refl [simp]: "covers l l"
  by (auto simp: covers_def)

lemma set_cap_pending: "set (cap_pending m) \<subseteq> set m"
  by (simp add: cap_pending_def set_drop_subset)

lemma RecordTombstonesSent_frame:
  "m_acked (RecordTombstonesSent tick ns b) = m_acked b" "cb_pending (RecordTombstonesSent tick ns b) = cb_pending b"
proof -
  have "m_acked (RecordTombstonesSent tick ns b) = m_acked b \<and> cb_pending (RecordTombstonesSent tick ns b) = cb_pending b"
    unfolding RecordTombstonesSent_def by (induction ns arbitrary: b) simp_all
  then show "m_acked (RecordTombstonesSent tick ns b) = m_acked b"
    "cb_pending (RecordTombstonesSent tick ns b) = cb_pending b" by simp_all
qed

lemma map_of_delete_Some: "map_of (AList.delete k m) n = Some v \<Longrightarrow> map_of m n = Some v"
  by (simp add: delete_conv' split: if_splits)

lemma link_inv_send:
  assumes inv: "link_inv b sl del" and new: "\<forall>t \<in> fst ` set sl. t < tick"
    and cov: "\<forall>p \<in> set (cb_pending b). covers sent (snd p)"
  shows "link_inv (RecordSent tick sent b) ((tick, sent) # sl) del"
proof -
  let ?b = "RecordSent tick sent b"
  have s: "om_sorted (cb_pending b)" using inv by (simp add: link_inv_def)
  have acked: "m_acked ?b = m_acked b" by (simp add: RecordSent_def)
  have pend: "p = (tick, sent) \<or> p \<in> set (cb_pending b)" if "p \<in> set (cb_pending ?b)" for p
    using that set_cap_pending [of "om_put tick sent (cb_pending b)"]
    by (auto simp: RecordSent_def set_om_put [OF s] split: if_splits)
  have "om_sorted (cb_pending ?b)"
    using s by (simp add: RecordSent_def cap_pending_def om_sorted_drop om_put_sorted)
  moreover have "length (cb_pending ?b) \<le> MAX_PENDING"
    using inv by (auto simp: RecordSent_def cap_pending_def link_inv_def)
  moreover have "p \<in> set ((tick, sent) # sl) \<and> (\<forall>q \<in> set ((tick, sent) # sl). fst p \<le> fst q \<longrightarrow> covers (snd q) (snd p))"
    if "p \<in> set (cb_pending ?b)" for p
    using pend [OF that]
  proof
    assume "p = (tick, sent)"
    with new show ?thesis by (auto simp: leD)
  next
    assume "p \<in> set (cb_pending b)"
    with inv cov show ?thesis by (auto simp: link_inv_def)
  qed
  moreover have "v = 0 \<or> held ((tick, sent) # sl) del n v" if "map_of (m_acked ?b) n = Some v" for n v
    using link_invD(2) [OF inv] that held_mono [OF _ order_refl set_subset_Cons order_refl] unfolding acked by blast
  ultimately show ?thesis using inv unfolding link_inv_def by auto
qed

lemma link_inv_ack:
  assumes inv: "link_inv b sl del" and tick: "tick \<in> del"
  shows "link_inv (Baseline_Ack tick b) sl del"
proof -
  have s: "om_sorted (cb_pending b)" using inv by (simp add: link_inv_def)
  note scan = om_scan [OF s, of tick]
  obtain sent where sent: "(tick, sent) \<in> set sl" using inv tick by (auto simp: link_inv_def)
  have "held sl del (fst e) (snd e)" if p: "p \<in> set (cb_pending b)" "fst p \<le> tick" and e: "e \<in> set (snd p)" for p e
  proof -
    from link_invD(1) [OF inv p(1) sent] p(2) have "covers sent (snd p)" by simp
    with e obtain v' where "snd e \<le> v'" "(fst e, v') \<in> set sent" by (auto simp: covers_def)
    with sent tick show ?thesis unfolding held_def by blast
  qed
  then have *: "\<And>e. e \<in> set (concat (map snd (takeWhile (\<lambda>e. fst e \<le> tick) (cb_pending b)))) \<Longrightarrow> held sl del (fst e) (snd e)"
    by (auto simp: scan)
  have "fold (\<lambda>e. fold fold_version (snd e)) ps acked = fold fold_version (concat (map snd ps)) acked" for ps acked
    by (induction ps arbitrary: acked) simp_all
  then have acked: "m_acked (Baseline_Ack tick b) =
      fold fold_version (concat (map snd (takeWhile (\<lambda>e. fst e \<le> tick) (cb_pending b)))) (m_acked b)"
    by (simp add: Baseline_Ack_def Let_def)
  have pending: "cb_pending (Baseline_Ack tick b) = filter (\<lambda>e. \<not> fst e \<le> tick) (cb_pending b)"
    by (simp add: Baseline_Ack_def Let_def scan)
  have a: "v = 0 \<or> held sl del n v" if "map_of (m_acked (Baseline_Ack tick b)) n = Some v" for n v
    by (rule fold_version_held [OF _ * that [unfolded acked]]) (use inv in \<open>simp add: link_inv_def\<close>)
  have "length (filter (\<lambda>e. \<not> fst e \<le> tick) (cb_pending b)) \<le> MAX_PENDING"
    using inv length_filter_le [of "\<lambda>e. \<not> fst e \<le> tick" "cb_pending b"] unfolding link_inv_def by linarith
  with inv a om_sorted_filter [OF s] show ?thesis unfolding link_inv_def pending by auto
qed

lemma link_inv_frame:
  assumes "link_inv b sl del" "cb_pending b' = cb_pending b"
    and "\<And>n v. map_of (m_acked b') n = Some v \<Longrightarrow> map_of (m_acked b) n = Some v"
  shows "link_inv b' sl del"
  using assms unfolding link_inv_def by auto

lemma repl_link_inv: "repl_link b sl del \<Longrightarrow> link_inv b sl del"
proof (induction rule: repl_link.induct)
  case init
  show ?case by (simp add: link_inv_def ClientBaseline_new_def)
next
  case (deliver b sl del tick)
  have "held sl (insert tick del) n v" if "held sl del n v" for n v
    using that by (auto simp: held_def)
  with deliver.IH deliver.hyps(2) show ?case unfolding link_inv_def
    by (elim conjE, intro conjI) (simp_all, metis)
next
  case (tomb b sl del n)
  from this(2) show ?case by (rule link_inv_frame) (auto simp: Tombstone_def Let_def dest: map_of_delete_Some)
next
  case (untomb b sl del n)
  from this(2) show ?case by (rule link_inv_frame) (simp_all add: Untombstone_def)
next
  case (tombs_sent b sl del tick ns)
  from this(2) show ?case by (rule link_inv_frame) (simp_all add: RecordTombstonesSent_frame)
next
  case (forget b sl del n)
  from this(2) show ?case by (rule link_inv_frame) (auto simp: Baseline_Forget_def dest: map_of_delete_Some)
qed (simp_all add: link_inv_send link_inv_ack)

text \<open>C34: What the server takes as acknowledged, the client has.  As long as every snapshot repeats
  the updates that are sent and not yet acknowledged, then whatever snapshots are lost, duplicated or
  reordered, however old an acknowledgement is, and with entities leaving and coming back in between, an
  acknowledged version of an entity was in a snapshot that reached the client, or a newer one
  was; and the history of unacknowledged snapshots stays within 64 entries.\<close>
theorem acked_is_held:
  assumes "repl_link b sl del"
  shows "(Acked b n = 0 \<or> held sl del n (Acked b n)) \<and> length (cb_pending b) \<le> 64"
  using repl_link_inv [OF assms] link_invD(2) [of b sl del n]
  by (auto simp: Acked_def link_inv_def MAX_PENDING_def split: option.split)

theorem acked_is_held_witness:
  "\<exists>b sl del. Acked b 7 = 2 \<and> held sl del 7 2 \<and> (1, [(7, 1)]) \<in> set sl \<and> 1 \<notin> del"
proof -
  let ?b1 = "RecordSent 1 [(7, 1)] ClientBaseline_new" and ?s1 = "[(1, [(7, 1)])]"
  let ?b2 = "RecordSent 2 [(7, 2)] ?b1" and ?s2 = "(2, [(7, 2)]) # ?s1"
  have "repl_link ?b1 ?s1 {}" using repl_link.send [OF repl_link.init, of 1 "[(7, 1)]"]
    by (simp add: ClientBaseline_new_def)
  then have "repl_link ?b2 ?s2 {}"
    by (rule repl_link.send) (auto simp: RecordSent_def ClientBaseline_new_def cap_pending_def MAX_PENDING_def covers_def)
  then have "repl_link ?b2 ?s2 {2}" by (rule repl_link.deliver) simp
  then have r: "repl_link (Baseline_Ack 2 ?b2) ?s2 {2}" by (rule repl_link.ack) simp
  have "Acked (Baseline_Ack 2 ?b2) 7 = 2" by code_simp
  then show ?thesis using acked_is_held [OF r, of 7] by (intro exI [of _ "Baseline_Ack 2 ?b2"] exI [of _ ?s2] exI [of _ "{2}"]) simp
qed

text \<open>The condition cannot be dropped.  An update that a lost snapshot carried and that the byte
  budget kept out of the next one counts as delivered as soon as that next one is acknowledged:
  the server no longer holds that the client needs it, and nothing resends it.\<close>
theorem spilled_update_is_lost:
  assumes "lost < tick" "sent \<noteq> []"
  shows "let b = RecordSent tick sent (RecordSent lost [(n, v)] ClientBaseline_new)
     in Needs b n v = (0 < v) \<and> \<not> Needs (Baseline_Ack tick b) n v"
proof -
  have "v \<le> a \<Longrightarrow> \<not> Needs b n v" if "Acked b n = a" for b a
    using that by (simp add: Needs_def Acked_def not_less)
  have pend: "cb_pending (RecordSent tick sent (RecordSent lost [(n, v)] ClientBaseline_new)) = [(lost, [(n, v)]), (tick, sent)]"
    using assms by (auto simp: RecordSent_def ClientBaseline_new_def cap_pending_def MAX_PENDING_def)
  have grow: "v \<le> Acked \<lparr>m_acked = fold fold_version l acked, cb_pending = p, m_tombstones = t\<rparr> n"
    if "\<exists>w \<ge> v. map_of acked n = Some w" for l acked p t
    using that
  proof (induction l arbitrary: acked)
    case (Cons e l)
    obtain k w where e: "e = (k, w)" by (cases e)
    show ?case unfolding fold_Cons o_apply
      by (rule Cons.IH) (use Cons.prems in \<open>auto simp: e fold_version_def Let_def update_conv intro: order_trans less_imp_le\<close>)
  qed (auto simp: Acked_def)
  let ?b = "RecordSent tick sent (RecordSent lost [(n, v)] ClientBaseline_new)"
  have "m_acked (Baseline_Ack tick ?b) = fold fold_version sent (fold_version (n, v) [])"
    using assms less_imp_le [OF assms(1)]
    by (simp add: Baseline_Ack_def pend) (simp add: RecordSent_def ClientBaseline_new_def)
  moreover have "fold_version (n, v) [] = [(n, v)]" by (simp add: fold_version_def word_gt_0)
  ultimately have "v \<le> Acked (Baseline_Ack tick ?b) n"
    using grow [of "[(n, v)]" sent] by (simp add: Acked_def)
  moreover have "Needs ?b n v = (0 < v)" by (simp add: Needs_def RecordSent_def ClientBaseline_new_def)
  ultimately show ?thesis by (simp add: Let_def Needs_def Acked_def not_less)
qed

theorem spilled_update_is_lost_witness:
  "\<not> Needs (Baseline_Ack 2 (RecordSent 2 [(8, 1)] (RecordSent 1 [(7, 1)] ClientBaseline_new))) 7 1"
  using spilled_update_is_lost [of 1 2 "[(8, 1)]" 7 1] by (simp add: Let_def)

definition client_hp :: "DeltaDecodeState \<Rightarrow> u32 \<Rightarrow> u32 option" where
  "client_hp s n = map_option se_hp (m_entities s n)"

lemma MakeDelta_first:
  "dr_netId (MakeDeltaRecord e None) = se_netId e" "dr_hp (MakeDeltaRecord e None) = se_hp e"
  "dr_mask (MakeDeltaRecord e None) = 63"
  by (simp_all add: MakeDeltaRecord_def Let_def split: prod.split)

lemma apply_hp:
  assumes "case m_lastTick s (dr_netId r) of Some t \<Rightarrow> t < tick | None \<Rightarrow> True" "\<not> flag (dr_mask r) DeltaTomb"
  shows "client_hp (ApplyRecord tick r s) (dr_netId r) =
      Some (if flag (dr_mask r) DeltaHp then dr_hp r
            else case client_hp s (dr_netId r) of None \<Rightarrow> se_hp SnapshotEntity_new | Some h \<Rightarrow> h)"
    "m_lastTick (ApplyRecord tick r s) (dr_netId r) = Some tick"
  using assms by (auto simp: ApplyRecord_def Let_def client_hp_def not_le split: option.splits)

lemma apply_other:
  assumes "dr_netId r \<noteq> n"
  shows "client_hp (ApplyRecord tick r s) n = client_hp s n"
  using assms by (auto simp: ApplyRecord_def Let_def client_hp_def split: option.splits)

lemma apply_same_hp:
  assumes "se_netId c = n" "se_hp c = se_hp b" "client_hp s n = Some h"
  shows "client_hp (ApplyRecord tick (MakeDeltaRecord c (Some b)) s) n = Some h"
proof (cases "case m_lastTick s n of Some t \<Rightarrow> t < tick | None \<Rightarrow> True")
  case True
  then show ?thesis
    using apply_hp(1) [where s = s and r = "MakeDeltaRecord c (Some b)" and tick = tick] assms
    by (simp add: MakeDelta_fields MakeDelta_flags)
next
  case False
  then have "ApplyRecord tick (MakeDeltaRecord c (Some b)) s = s"
    using assms(1) by (auto simp: ApplyRecord_def MakeDelta_fields not_less split: option.splits)
  then show ?thesis using assms(3) by simp
qed

text \<open>What can follow: a snapshot that carries the states \<open>sent\<close>, each encoded against its base, and
  is delivered or lost, and the acknowledgement of any tick.\<close>

datatype later_op = LaterSnapshot u32 "SnapshotEntity list" bool | LaterAck u32

fun later_step :: "later_op \<Rightarrow> ClientKnownState \<times> DeltaDecodeState \<Rightarrow> ClientKnownState \<times> DeltaDecodeState" where
  "later_step (LaterSnapshot tick sent delivered) (server, client) =
     (Known_RecordSent tick sent server,
      if delivered
      then fold (\<lambda>c. ApplyRecord tick (MakeDeltaRecord c (Base server (se_netId c)))) sent client else client)"
| "later_step (LaterAck tick) (server, client) = (Known_Ack tick server, client)"

fun hp_unchanged :: "u32 \<Rightarrow> u32 \<Rightarrow> later_op \<Rightarrow> bool" where
  "hp_unchanged n h (LaterSnapshot tick sent delivered) \<longleftrightarrow> (\<forall>c \<in> set sent. se_netId c = n \<longrightarrow> se_hp c = h)"
| "hp_unchanged n h (LaterAck tick) \<longleftrightarrow> True"

text \<open>The server believes in \<open>h\<close>, and so does everything it has on the way; the client shows \<open>other\<close>.\<close>

definition parted :: "u32 \<Rightarrow> u32 \<Rightarrow> u32 \<Rightarrow> ClientKnownState \<times> DeltaDecodeState \<Rightarrow> bool" where
  "parted n h other st \<longleftrightarrow> map_option se_hp (Base (fst st) n) = Some h \<and>
     (\<forall>(t, es) \<in> set (ck_pending (fst st)). \<forall>c \<in> set es. se_netId c = n \<longrightarrow> se_hp c = h) \<and>
     client_hp (snd st) n = Some other"

lemma parted_apply:
  assumes "map_option se_hp (Base server n) = Some h" "\<forall>c \<in> set sent. se_netId c = n \<longrightarrow> se_hp c = h"
    "client_hp client n = Some other"
  shows "client_hp (fold (\<lambda>c. ApplyRecord tick (MakeDeltaRecord c (Base server (se_netId c)))) sent client) n = Some other"
  using assms(2,3)
proof (induction sent arbitrary: client)
  case (Cons c sent)
  obtain b where b: "Base server n = Some b" "se_hp b = h" using assms(1) by auto
  have "client_hp (ApplyRecord tick (MakeDeltaRecord c (Base server (se_netId c))) client) n = Some other"
  proof (cases "se_netId c = n")
    case True
    then show ?thesis using Cons.prems b by (simp add: apply_same_hp)
  next
    case False
    then show ?thesis using Cons.prems(2) by (simp add: apply_other MakeDelta_fields)
  qed
  with Cons show ?case by simp
qed simp

lemma hp_fold_known:
  fixes ps :: "(u32 \<times> SnapshotEntity list) list"
  assumes "\<forall>p \<in> set ps. \<forall>c \<in> set (snd p). se_netId c = n \<longrightarrow> se_hp c = h" "map_option se_hp (m n) = Some h"
  shows "map_option se_hp (fold (\<lambda>p. fold (\<lambda>e m. m(se_netId e \<mapsto> e)) (snd p)) ps m n) = Some h"
proof -
  have one: "map_option se_hp (fold (\<lambda>e m. m(se_netId e \<mapsto> e)) es m n) = Some h"
    if "\<forall>c \<in> set es. se_netId c = n \<longrightarrow> se_hp c = h" "map_option se_hp (m n) = Some h"
    for es :: "SnapshotEntity list" and m
    using that by (induction es arbitrary: m) auto
  show ?thesis using assms
  proof (induction ps arbitrary: m)
    case (Cons p ps)
    have "map_option se_hp (fold (\<lambda>e m. m(se_netId e \<mapsto> e)) (snd p) m n) = Some h"
      using Cons.prems by (intro one) auto
    with Cons.prems(1) show ?case unfolding fold_simps by (intro Cons.IH) auto
  qed simp
qed

lemma set_om_put_subset: "set (om_put k v m) \<subseteq> insert (k, v) (set m)"
proof (induction m)
  case (Cons e m)
  then show ?case by (cases e) auto
qed simp

lemma parted_step:
  assumes "parted n h other st" "hp_unchanged n h op"
  shows "parted n h other (later_step op st)"
proof -
  obtain server client where st: "st = (server, client)" by (cases st)
  have p: "map_option se_hp (Base server n) = Some h" "client_hp client n = Some other"
    "\<And>p c. p \<in> set (ck_pending server) \<Longrightarrow> c \<in> set (snd p) \<Longrightarrow> se_netId c = n \<Longrightarrow> se_hp c = h"
    using assms(1) by (auto simp: parted_def st)
  show ?thesis
  proof (cases op)
    case (LaterSnapshot tick sent delivered)
    then have sent: "\<forall>c \<in> set sent. se_netId c = n \<longrightarrow> se_hp c = h" using assms(2) by simp
    have "set (ck_pending (Known_RecordSent tick sent server)) \<subseteq> insert (tick, sent) (set (ck_pending server))"
      using set_cap_pending [of "om_put tick sent (ck_pending server)"] set_om_put_subset [of tick sent "ck_pending server"]
      by (auto simp: Known_RecordSent_def)
    then have "\<forall>(t, es) \<in> set (ck_pending (Known_RecordSent tick sent server)). \<forall>c \<in> set es. se_netId c = n \<longrightarrow> se_hp c = h"
      using sent p(3) by fastforce
    moreover have "Base (Known_RecordSent tick sent server) n = Base server n" by (simp add: Known_RecordSent_def Base_def)
    ultimately show ?thesis using p parted_apply [OF p(1) sent p(2)] by (simp add: parted_def st LaterSnapshot)
  next
    case (LaterAck tick)
    let ?ps = "takeWhile (\<lambda>e. fst e \<le> tick) (ck_pending server)"
    have "\<forall>p \<in> set ?ps. \<forall>c \<in> set (snd p). se_netId c = n \<longrightarrow> se_hp c = h" using p(3) by (blast dest: set_takeWhileD)
    from hp_fold_known [OF this, of "m_known server"] p(1)
    have "map_option se_hp (Base (Known_Ack tick server) n) = Some h" by (simp add: Known_Ack_def Base_def Let_def)
    moreover have "set (ck_pending (Known_Ack tick server)) \<subseteq> set (ck_pending server)"
      by (auto simp: Known_Ack_def Let_def dest: set_dropWhileD)
    ultimately show ?thesis using p by (fastforce simp: parted_def st LaterAck)
  qed
qed

lemma parted_run:
  "parted n h other st \<Longrightarrow> \<forall>op \<in> set ops. hp_unchanged n h op \<Longrightarrow> parted n h other (fold later_step ops st)"
  by (induction ops arbitrary: st) (simp_all add: parted_step)

text \<open>C36: A second way to part: a field that changes and changes back.  The client has the
  entity \<open>e\<close> (snapshot 1, acknowledged) and then \<open>e\<close> with other hit points (snapshot 2, whose
  acknowledgement is still on its way) when the hit points return to the old value and
  another field changes (\<open>e3\<close>).  Snapshot 3 is encoded against snapshot 1, so it leaves the hit points
  out; it is applied and acknowledged, the server takes the client to hold the current entity, and
  the client keeps the hit points of snapshot 2.  From then on, whatever snapshots follow, with whatever
  other changes, delivered or lost, and whatever is acknowledged: as long as the hit points of the entity
  do not change and the server does not forget the entity, the client goes on showing the wrong ones.\<close>
theorem reverted_field_lost:
  assumes "other \<noteq> se_hp e" and e3: "se_netId e3 = se_netId e" "se_hp e3 = se_hp e"
    and "dr_mask (MakeDeltaRecord e3 (Some e)) \<noteq> 0"
    and later: "\<forall>op \<in> set ops. hp_unchanged (se_netId e) (se_hp e) op"
  shows "let n = se_netId e; e2 = e\<lparr>se_hp := other\<rparr>;
       server = Known_Ack 1 (Known_RecordSent 1 [e] ClientKnownState_new);
       client = ApplyRecord 1 (MakeDeltaRecord e None) DeltaDecodeState_new;
       client = ApplyRecord 2 (MakeDeltaRecord e2 (Base server n)) client;
       server = Known_RecordSent 2 [e2] server;
       client = ApplyRecord 3 (MakeDeltaRecord e3 (Base server n)) client;
       server = Known_Ack 3 (Known_RecordSent 3 [e3] server)
   in Base server n = Some e3 \<and>
      (case fold later_step ops (server, client) of (server, client) \<Rightarrow>
         map_option se_hp (Base server n) = Some (se_hp e) \<and> map_option se_hp (m_entities client n) = Some other \<and>
         map_option se_hp (m_entities client n) \<noteq> map_option se_hp (Base server n))"
proof -
  let ?n = "se_netId e" and ?e2 = "e\<lparr>se_hp := other\<rparr>"
  let ?k1 = "Known_Ack 1 (Known_RecordSent 1 [e] ClientKnownState_new)"
  let ?k3 = "Known_Ack 3 (Known_RecordSent 3 [e3] (Known_RecordSent 2 [?e2] ?k1))"
  have k: "Base ?k1 ?n = Some e" "Base (Known_RecordSent 2 [?e2] ?k1) ?n = Some e" "Base ?k3 ?n = Some e3"
    "ck_pending ?k3 = []"
    using e3 by (simp_all add: Known_Ack_def Known_RecordSent_def ClientKnownState_new_def Base_def cap_pending_def
        MAX_PENDING_def Let_def)
  let ?c1 = "ApplyRecord 1 (MakeDeltaRecord e None) DeltaDecodeState_new"
  let ?c2 = "ApplyRecord 2 (MakeDeltaRecord ?e2 (Some e)) ?c1"
  let ?c3 = "ApplyRecord 3 (MakeDeltaRecord e3 (Some e)) ?c2"
  have "client_hp ?c1 ?n = Some (se_hp e)" "m_lastTick ?c1 ?n = Some 1"
    using apply_hp [of 1 DeltaDecodeState_new "MakeDeltaRecord e None"]
    by (simp_all add: MakeDelta_first DeltaDecodeState_new_def)
  then have "client_hp ?c2 ?n = Some other"
    using apply_hp [of 2 ?c1 "MakeDeltaRecord ?e2 (Some e)"] by (simp_all add: MakeDelta_fields MakeDelta_flags)
  then have "client_hp ?c3 ?n = Some other" by (rule apply_same_hp [OF e3])
  then have "parted ?n (se_hp e) other (?k3, ?c3)" by (simp add: parted_def k e3)
  from parted_run [OF this later] have p: "parted ?n (se_hp e) other (fold later_step ops (?k3, ?c3))" .
  obtain server client where st: "fold later_step ops (?k3, ?c3) = (server, client)" by (cases "fold later_step ops (?k3, ?c3)")
  have hp: "map_option se_hp (Base server ?n) = Some (se_hp e)" "map_option se_hp (m_entities client ?n) = Some other"
    using p unfolding st by (simp_all add: parted_def client_hp_def)
  then have "map_option se_hp (m_entities client ?n) \<noteq> map_option se_hp (Base server ?n)"
    using assms(1) by (simp only: option.inject not_False_eq_True)
  with hp show ?thesis unfolding Let_def k st prod.case by blast
qed

definition hp_entity :: SnapshotEntity where
  "hp_entity = SnapshotEntity_new\<lparr>se_netId := 7, se_hp := 100\<rparr>"

theorem reverted_field_lost_witness:
  "\<exists>server client. Base server 7 = Some (hp_entity\<lparr>se_shapeId := 1\<rparr>) \<and>
     (case fold later_step [LaterSnapshot 4 [hp_entity\<lparr>se_shapeId := 2\<rparr>] True, LaterAck 4] (server, client) of
       (server, client) \<Rightarrow> map_option se_hp (m_entities client 7) = Some 90)"
proof -
  let ?ops = "[LaterSnapshot 4 [hp_entity\<lparr>se_shapeId := 2\<rparr>] True, LaterAck 4]"
  have "flag (dr_mask (MakeDeltaRecord (hp_entity\<lparr>se_shapeId := 1\<rparr>) (Some hp_entity))) DeltaShape"
    by (simp add: MakeDelta_flags hp_entity_def SnapshotEntity_new_def)
  then have "dr_mask (MakeDeltaRecord (hp_entity\<lparr>se_shapeId := 1\<rparr>) (Some hp_entity)) \<noteq> 0" by auto
  from reverted_field_lost [of 90 hp_entity "hp_entity\<lparr>se_shapeId := 1\<rparr>" ?ops, OF _ _ _ this]
  show ?thesis
    by (simp del: fold_simps add: Let_def hp_entity_def SnapshotEntity_new_def case_prod_beta) blast
qed

end
