(* ===== verification/Economy_Store.thy ===== *)
theory Economy_Store
  imports Economy_Outbox
begin

text \<open>
  Write-through persistence of the economy: \<open>ERServer/persist/EconomyStore.cpp\<close> over the
  tables of \<open>Config/db/migrations\<close>, and the economy half of
  \<open>ERServer/persist/PersistenceThread.cpp\<close> with the zero-loss queue of
  \<open>PersistQueue.h\<close>.  The SQL statements are functions on the tables, with the constraints the
  migrations declare.  The connection to the SQL Server is outside the repository: a parameter
  \<open>net\<close> says for every call whether it is carried out (\<open>Fine\<close>), fails without
  effect (\<open>Refused\<close>), or takes effect while the reply is lost (\<open>ReplyLost\<close>), so that
  every failure at every point is covered.  The theorems show that nothing enqueued is lost and
  nothing is applied twice, whatever the connection does, and which mutations never get through.
\<close>

section \<open>Mutations\<close>

datatype EconomyEventKind =
  KWalletDelta | KBuildComplete | KInventoryDelta | KLootClaim | KKillmail | KCargoLost | KLootDrop

record EconomyMutation =
  mu_idemKey :: u64
  mu_accountId :: u64
  mu_amount :: u64
  mu_kind :: EconomyEventKind
  mu_reason :: string
  mu_refType :: string
  mu_refId :: u64

fun EventTypeName :: "EconomyEventKind \<Rightarrow> string" where
  "EventTypeName KWalletDelta = ''wallet_delta''"
| "EventTypeName KBuildComplete = ''build_complete''"
| "EventTypeName KInventoryDelta = ''inventory_delta''"
| "EventTypeName KLootClaim = ''loot_claimed''"
| "EventTypeName KKillmail = ''killmail''"
| "EventTypeName KCargoLost = ''cargo_lost''"
| "EventTypeName KLootDrop = ''loot_drop''"

definition escape_char :: "char \<Rightarrow> string" where
  "escape_char c =
     (if c = CHR 0x22 then [CHR 0x5C, CHR 0x22]
      else if c = CHR 0x5C then [CHR 0x5C, CHR 0x5C]
      else if c = CHR 0x0A then [CHR 0x5C, CHR ''n'']
      else if c = CHR 0x0D then [CHR 0x5C, CHR ''r'']
      else if c = CHR 0x09 then [CHR 0x5C, CHR ''t'']
      else if (of_char c :: nat) < 0x20 then [CHR 0x20] else [c])"

definition EscapeJson :: "string \<Rightarrow> string" where
  "EscapeJson s = concat (map escape_char s)"

text \<open>\<open>std::to_string\<close>\<close>

fun show_nat :: "nat \<Rightarrow> string" where
  "show_nat n = (if n < 10 then [char_of (48 + n)] else show_nat (n div 10) @ [char_of (48 + n mod 10)])"

definition show_i64 :: "u64 \<Rightarrow> string" where
  "show_i64 w = (if sint w < 0 then CHR ''-'' # show_nat (nat (- sint w)) else show_nat (nat (sint w)))"

definition quoted :: "string \<Rightarrow> string" where
  "quoted s = CHR 0x22 # s @ [CHR 0x22]"

definition MakePayload :: "EconomyMutation \<Rightarrow> string" where
  "MakePayload m =
     (let p = ''{'';
          p = p @ quoted ''accountId'' @ '':'' @ show_i64 (mu_accountId m);
          p = p @ '','' @ quoted ''amount'' @ '':'' @ show_i64 (mu_amount m);
          p = p @ '','' @ quoted ''reason'' @ '':'' @ quoted (EscapeJson (mu_reason m));
          p = (if mu_refType m \<noteq> ''''
               then (let p = p @ '','' @ quoted ''refType'' @ '':'' @ quoted (EscapeJson (mu_refType m))
                     in p @ '','' @ quoted ''refId'' @ '':'' @ show_i64 (mu_refId m))
               else p)
      in p @ ''}'')"

section \<open>The tables\<close>

record OutboxTableRow =
  ot_id :: int
  ot_idemKey :: u64
  ot_eventType :: string
  ot_payload :: string
  ot_processed :: bool

record LedgerTableRow =
  lt_account :: u64
  lt_delta :: int
  lt_balanceAfter :: int
  lt_reason :: string
  lt_ref :: "(string \<times> u64) option"

record Database =
  db_outbox :: "OutboxTableRow list"
  db_nextId :: int
  db_wallets :: "u64 \<rightharpoonup> int"
  db_ledger :: "LedgerTableRow list"

definition fits_bigint :: "int \<Rightarrow> bool" where
  "fits_bigint i \<longleftrightarrow> - (2 ^ 63) \<le> i \<and> i < 2 ^ 63"

text \<open>\<open>EconomyOutbox\<close> with the unique index \<open>UX_EconomyOutbox_IdemKey\<close>; the identity value is consumed
  also when the statement fails.\<close>

datatype 'a sql = SqlOk 'a | SqlUniqueViolation | SqlError

definition insert_outbox :: "string \<Rightarrow> string \<Rightarrow> u64 \<Rightarrow> Database \<Rightarrow> int sql \<times> Database" where
  "insert_outbox ty payload key db =
     (let i = db_nextId db; db = db\<lparr>db_nextId := i + 1\<rparr>
      in if key \<in> ot_idemKey ` set (db_outbox db) then (SqlUniqueViolation, db)
         else (SqlOk i, db\<lparr>db_outbox := db_outbox db @
           [\<lparr>ot_id = i, ot_idemKey = key, ot_eventType = ty, ot_payload = payload, ot_processed = False\<rparr>]\<rparr>))"

text \<open>\<open>Wallets\<close> with \<open>CK_Wallets_NonNeg\<close>: the number of rows changed.\<close>

definition update_wallet :: "int \<Rightarrow> u64 \<Rightarrow> Database \<Rightarrow> int sql \<times> Database" where
  "update_wallet amount account db =
     (case db_wallets db account of
        None \<Rightarrow> (SqlOk 0, db)
      | Some b \<Rightarrow>
          (if b + amount < 0 \<or> \<not> fits_bigint (b + amount) then (SqlError, db)
           else (SqlOk 1, db\<lparr>db_wallets := (db_wallets db)(account \<mapsto> b + amount)\<rparr>)))"

text \<open>\<open>CurrencyLedger\<close> with the unique index \<open>UX_CurrencyLedger_Ref\<close>, the column widths of
  \<open>Reason\<close> and \<open>RefType\<close>, and \<open>BalanceAfter\<close> not null.\<close>

definition insert_ledger :: "u64 \<Rightarrow> int \<Rightarrow> string \<Rightarrow> (string \<times> u64) option \<Rightarrow> Database \<Rightarrow> int sql \<times> Database" where
  "insert_ledger account amount reason ref db =
     (case db_wallets db account of
        None \<Rightarrow> (SqlError, db)
      | Some b \<Rightarrow>
          (if length reason > 64 \<or> (case ref of None \<Rightarrow> False | Some (t, i) \<Rightarrow> length t > 32) then (SqlError, db)
           else if ref \<noteq> None \<and> ref \<in> lt_ref ` set (db_ledger db) then (SqlUniqueViolation, db)
           else (SqlOk 1, db\<lparr>db_ledger := db_ledger db @
             [\<lparr>lt_account = account, lt_delta = amount, lt_balanceAfter = b, lt_reason = reason, lt_ref = ref\<rparr>]\<rparr>)))"

section \<open>The connection\<close>

datatype Reply = Fine | Refused | ReplyLost

type_synonym Network = "nat \<Rightarrow> Reply"

record Conn =
  cn_db :: Database
  cn_tx :: "Database option"
  cn_calls :: nat

definition next_call :: "Conn \<Rightarrow> Conn" where
  "next_call c = c\<lparr>cn_calls := cn_calls c + 1\<rparr>"

definition Acquire :: "Network \<Rightarrow> Conn \<Rightarrow> bool \<times> Conn" where
  "Acquire net c = (net (cn_calls c) = Fine, next_call (c\<lparr>cn_tx := None\<rparr>))"

definition BeginTransaction :: "Network \<Rightarrow> Conn \<Rightarrow> bool \<times> Conn" where
  "BeginTransaction net c =
     (if cn_tx c \<noteq> None then (True, c)
      else if net (cn_calls c) = Fine then (True, next_call (c\<lparr>cn_tx := Some (cn_db c)\<rparr>))
      else (False, next_call c))"

text \<open>A statement inside the open transaction.\<close>

definition exec_sql :: "Network \<Rightarrow> (Database \<Rightarrow> 'a sql \<times> Database) \<Rightarrow> Conn \<Rightarrow> 'a sql \<times> Conn" where
  "exec_sql net st c =
     (case cn_tx c of
        None \<Rightarrow> (SqlError, next_call c)
      | Some db \<Rightarrow>
          (if net (cn_calls c) = Refused then (SqlError, next_call c)
           else (case st db of (r, db') \<Rightarrow>
             (if net (cn_calls c) = Fine then r else SqlError, next_call (c\<lparr>cn_tx := Some db'\<rparr>)))))"

text \<open>Ending a transaction without committing keeps only the consumed identity values.\<close>

definition Rollback :: "Conn \<Rightarrow> Conn" where
  "Rollback c =
     (case cn_tx c of None \<Rightarrow> next_call c
      | Some db \<Rightarrow> next_call (c\<lparr>cn_db := (cn_db c)\<lparr>db_nextId := db_nextId db\<rparr>, cn_tx := None\<rparr>))"

definition Commit :: "Network \<Rightarrow> Conn \<Rightarrow> bool \<times> Conn" where
  "Commit net c =
     (case cn_tx c of
        None \<Rightarrow> (False, next_call c)
      | Some db \<Rightarrow>
          (if net (cn_calls c) = Refused then (False, next_call (c\<lparr>cn_db := (cn_db c)\<lparr>db_nextId := db_nextId db\<rparr>, cn_tx := None\<rparr>))
           else (net (cn_calls c) = Fine, next_call (c\<lparr>cn_db := db, cn_tx := None\<rparr>))))"

definition SelectOutboxId :: "Network \<Rightarrow> u64 \<Rightarrow> Conn \<Rightarrow> int option \<times> Conn" where
  "SelectOutboxId net key c =
     (if net (cn_calls c) = Fine
      then (map_option ot_id (find (\<lambda>r. ot_idemKey r = key) (db_outbox (cn_db c))), next_call c)
      else (None, next_call c))"

section \<open>Appending one mutation\<close>

definition ledger_ref :: "EconomyMutation \<Rightarrow> (string \<times> u64) option" where
  "ledger_ref m = (if mu_refType m = '''' then None else Some (mu_refType m, mu_refId m))"

definition AppendWriteThrough :: "Network \<Rightarrow> EconomyMutation \<Rightarrow> Conn \<Rightarrow> int option \<times> Conn" where
  "AppendWriteThrough net m c =
     (let (lease, c) = Acquire net c in
      if \<not> lease then (None, c) else
      let (ok, c) = BeginTransaction net c in
      if \<not> ok then (None, c) else
      let payload = MakePayload m; idem = mu_idemKey m;
          (outboxId, c) = exec_sql net (insert_outbox (EventTypeName (mu_kind m)) payload idem) c
      in case outboxId of
           SqlUniqueViolation \<Rightarrow> SelectOutboxId net idem (Rollback c)
         | SqlError \<Rightarrow> (None, Rollback c)
         | SqlOk i \<Rightarrow>
             (let (n, c) = exec_sql net (update_wallet (sint (mu_amount m)) (mu_accountId m)) c in
              if (case n of SqlOk k \<Rightarrow> k = 0 | _ \<Rightarrow> True) then (None, Rollback c)
              else
                let (n, c) = exec_sql net (insert_ledger (mu_accountId m) (sint (mu_amount m))
                      (if mu_reason m = '''' then ''economy'' else mu_reason m) (ledger_ref m)) c in
                if (case n of SqlOk k \<Rightarrow> False | _ \<Rightarrow> True) then (None, Rollback c)
                else
                  let (ok, c) = Commit net c in
                  if \<not> ok then (None, Rollback c) else (Some i, c)))"

section \<open>The persistence thread\<close>

record EconWorker =
  ew_queue :: "EconomyMutation list"
  ew_batch :: "EconomyMutation list"
  ew_conn :: Conn
  ew_enqueued :: nat
  ew_committed :: nat
  ew_failed :: nat

definition EconWorker_new :: "Conn \<Rightarrow> EconWorker" where
  "EconWorker_new c = \<lparr>ew_queue = [], ew_batch = [], ew_conn = c, ew_enqueued = 0, ew_committed = 0, ew_failed = 0\<rparr>"

definition ZeroLoss_Push :: "'a \<Rightarrow> 'a list \<Rightarrow> nat \<times> 'a list" where
  "ZeroLoss_Push item buf = (let buf = buf @ [item] in (length buf, buf))"

definition EnqueueEconomy :: "EconomyMutation \<Rightarrow> EconWorker \<Rightarrow> nat \<times> EconWorker" where
  "EnqueueEconomy m w =
     (case ZeroLoss_Push m (ew_queue w) of (depth, q) \<Rightarrow>
       (depth, w\<lparr>ew_queue := q, ew_enqueued := ew_enqueued w + 1\<rparr>))"

definition DrainInto :: "EconWorker \<Rightarrow> EconWorker" where
  "DrainInto w = w\<lparr>ew_batch := ew_queue w, ew_queue := []\<rparr>"

text \<open>One iteration of the loop over the batch; producers may push between two iterations.\<close>

fun drain_one :: "Network \<Rightarrow> EconomyMutation \<Rightarrow> EconWorker \<Rightarrow> EconWorker" where
  "drain_one net m w =
     (case AppendWriteThrough net m (ew_conn w) of (outboxId, c) \<Rightarrow>
       (let w = w\<lparr>ew_conn := c, ew_batch := tl (ew_batch w)\<rparr>
        in if outboxId \<noteq> None then w\<lparr>ew_committed := ew_committed w + 1\<rparr>
           else w\<lparr>ew_failed := ew_failed w + 1, ew_queue := snd (ZeroLoss_Push m (ew_queue w))\<rparr>))"

definition DrainEconomyOnce :: "Network \<Rightarrow> EconWorker \<Rightarrow> EconWorker" where
  "DrainEconomyOnce net w = (let w = DrainInto w in fold (drain_one net) (ew_batch w) w)"

section \<open>What one append can do\<close>

definition outbox_keys :: "Database \<Rightarrow> u64 list" where
  "outbox_keys db = map ot_idemKey (db_outbox db)"

definition same_tables :: "Database \<Rightarrow> Database \<Rightarrow> bool" where
  "same_tables db db' \<longleftrightarrow> db_outbox db' = db_outbox db \<and> db_wallets db' = db_wallets db \<and> db_ledger db' = db_ledger db"

text \<open>The mutation is applied: one outbox row under a new key, the balance, and one ledger row.\<close>

definition credited :: "EconomyMutation \<Rightarrow> Database \<Rightarrow> Database \<Rightarrow> bool" where
  "credited m db db' \<longleftrightarrow>
     mu_idemKey m \<notin> set (outbox_keys db) \<and> outbox_keys db' = outbox_keys db @ [mu_idemKey m] \<and>
     (ledger_ref m = None \<or> ledger_ref m \<notin> lt_ref ` set (db_ledger db)) \<and>
     (\<exists>b. db_wallets db (mu_accountId m) = Some b \<and> 0 \<le> b + sint (mu_amount m) \<and>
        db_wallets db' = (db_wallets db)(mu_accountId m \<mapsto> b + sint (mu_amount m)) \<and>
        (\<exists>l. db_ledger db' = db_ledger db @ [l] \<and> lt_account l = mu_accountId m \<and>
          lt_delta l = sint (mu_amount m) \<and> lt_balanceAfter l = b + sint (mu_amount m) \<and> lt_ref l = ledger_ref m))"

lemma same_tables_refl [simp]: "same_tables db db"
  by (simp add: same_tables_def)

lemma next_call_sel [simp]: "cn_db (next_call c) = cn_db c" "cn_tx (next_call c) = cn_tx c"
  by (simp_all add: next_call_def)

lemma Rollback_tables [simp]: "same_tables (cn_db c) (cn_db (Rollback c))" "cn_tx (Rollback c) = None"
  by (auto simp: Rollback_def same_tables_def split: option.split)

lemma exec_sql_cases:
  assumes "exec_sql net st c = (r, c')" "cn_tx c = Some db"
  shows "cn_db c' = cn_db c"
    and "r \<noteq> SqlError \<Longrightarrow> r = fst (st db) \<and> cn_tx c' = Some (snd (st db))"
  using assms by (auto simp: exec_sql_def split: if_splits prod.splits)

lemma insert_outbox_ok:
  assumes "insert_outbox ty payload key db = (SqlOk i, db')"
  shows "key \<notin> set (outbox_keys db)" "outbox_keys db' = outbox_keys db @ [key]"
    "db_wallets db' = db_wallets db" "db_ledger db' = db_ledger db"
  using assms by (auto simp: insert_outbox_def outbox_keys_def Let_def split: if_splits)

lemma insert_outbox_dup: "fst (insert_outbox ty payload key db) = SqlUniqueViolation \<longleftrightarrow> key \<in> set (outbox_keys db)"
  by (auto simp: insert_outbox_def outbox_keys_def Let_def)

lemma update_wallet_ok:
  assumes "update_wallet amount account db = (SqlOk k, db')" "k \<noteq> 0"
  shows "\<exists>b. db_wallets db account = Some b \<and> 0 \<le> b + amount \<and> db_wallets db' = (db_wallets db)(account \<mapsto> b + amount)"
    "db_outbox db' = db_outbox db" "db_ledger db' = db_ledger db"
  using assms by (auto simp: update_wallet_def split: option.splits if_splits)

lemma insert_ledger_ok:
  assumes "insert_ledger account amount reason ref db = (SqlOk k, db')"
  shows "\<exists>b l. db_wallets db account = Some b \<and> db_ledger db' = db_ledger db @ [l] \<and> lt_account l = account \<and>
      lt_delta l = amount \<and> lt_balanceAfter l = b \<and> lt_ref l = ref"
    "ref = None \<or> ref \<notin> lt_ref ` set (db_ledger db)" "db_outbox db' = db_outbox db" "db_wallets db' = db_wallets db"
  using assms by (auto simp: insert_ledger_def split: option.splits if_splits)

lemma Commit_cases:
  assumes "cn_tx c = Some db"
  shows "same_tables (cn_db c) (cn_db (snd (Commit net c))) \<and> \<not> fst (Commit net c) \<or>
    cn_db (snd (Commit net c)) = db" "cn_tx (snd (Commit net c)) = None"
  using assms by (auto simp: Commit_def same_tables_def)

lemma SelectOutboxId_db [simp]: "cn_db (snd (SelectOutboxId net key c)) = cn_db c"
  by (simp add: SelectOutboxId_def)

lemma Append_cases:
  assumes "AppendWriteThrough net m c = (r, c')"
  shows "same_tables (cn_db c) (cn_db c') \<and> (r \<noteq> None \<longrightarrow> mu_idemKey m \<in> set (outbox_keys (cn_db c))) \<or>
    credited m (cn_db c) (cn_db c')"
proof -
  obtain a c1 where e1: "Acquire net c = (a, c1)" by (cases "Acquire net c")
  obtain b c2 where e2: "BeginTransaction net c1 = (b, c2)" by (cases "BeginTransaction net c1")
  define st1 where "st1 = insert_outbox (EventTypeName (mu_kind m)) (MakePayload m) (mu_idemKey m)"
  define st2 where "st2 = update_wallet (sint (mu_amount m)) (mu_accountId m)"
  define st3 where "st3 = insert_ledger (mu_accountId m) (sint (mu_amount m))
    (if mu_reason m = '''' then ''economy'' else mu_reason m) (ledger_ref m)"
  obtain r3 c3 where e3: "exec_sql net st1 c2 = (r3, c3)" by (cases "exec_sql net st1 c2")
  obtain r4 c4 where e4: "exec_sql net st2 c3 = (r4, c4)" by (cases "exec_sql net st2 c3")
  obtain r5 c5 where e5: "exec_sql net st3 c4 = (r5, c5)" by (cases "exec_sql net st3 c4")
  obtain k6 c6 where e6: "Commit net c5 = (k6, c6)" by (cases "Commit net c5")
  have db1: "cn_db c1 = cn_db c" "cn_db c2 = cn_db c" "b \<Longrightarrow> cn_tx c2 = Some (cn_db c)"
    using e1 e2 by (auto simp: Acquire_def BeginTransaction_def split: if_splits)
  have run: "(r, c') = (if \<not> a then (None, c1)
      else if \<not> b then (None, c2)
      else (case r3 of SqlUniqueViolation \<Rightarrow> SelectOutboxId net (mu_idemKey m) (Rollback c3)
        | SqlError \<Rightarrow> (None, Rollback c3)
        | SqlOk i \<Rightarrow> (if (case r4 of SqlOk k \<Rightarrow> k = 0 | _ \<Rightarrow> True) then (None, Rollback c4)
            else if (case r5 of SqlOk k \<Rightarrow> False | _ \<Rightarrow> True) then (None, Rollback c5)
            else if \<not> k6 then (None, Rollback c6) else (Some i, c6))))"
    unfolding assms [symmetric] AppendWriteThrough_def Let_def e1 e2 e6 prod.case
      e3 [unfolded st1_def] e4 [unfolded st2_def] e5 [unfolded st3_def] ..
  show ?thesis
  proof (cases "a \<and> b")
    case False
    with run db1(1,2) show ?thesis by (auto split: if_splits)
  next
    case ab: True
    note x3 = exec_sql_cases [OF e3 db1(3) [OF ab [THEN conjunct2]]]
    have db3: "cn_db c3 = cn_db c" using x3(1) db1(2) by simp
    consider (dup) "a" "b" "r3 = SqlUniqueViolation" | (err) "a" "b" "r3 = SqlError" | (ok) i where "a" "b" "r3 = SqlOk i"
      using ab by (cases r3) auto
    then show ?thesis
    proof cases
      case dup
      have "fst (st1 (cn_db c)) = SqlUniqueViolation" using x3(2) dup(3) by simp
      then have "mu_idemKey m \<in> set (outbox_keys (cn_db c))" by (simp add: st1_def insert_outbox_dup)
      moreover have "c' = snd (SelectOutboxId net (mu_idemKey m) (Rollback c3))"
        using run dup by (simp add: prod_eq_iff)
      ultimately show ?thesis using Rollback_tables(1) [of c3] db3 by simp
    next
      case err
      with run Rollback_tables(1) [of c3] db3 show ?thesis by simp
    next
      case (ok i)
      have s1: "st1 (cn_db c) = (SqlOk i, snd (st1 (cn_db c)))" and t3: "cn_tx c3 = Some (snd (st1 (cn_db c)))"
        using x3(2) ok(3) by (simp_all add: prod_eq_iff)
      note i1 = insert_outbox_ok [OF s1 [unfolded st1_def], folded st1_def]
      note x4 = exec_sql_cases [OF e4 t3]
      have db4: "cn_db c4 = cn_db c" using x4(1) db3 by simp
      show ?thesis
      proof (cases "\<exists>k. r4 = SqlOk k \<and> k \<noteq> 0")
        case False
        then have "(case r4 of SqlOk k \<Rightarrow> k = 0 | _ \<Rightarrow> True)" by (cases r4) auto
        with run ok Rollback_tables(1) [of c4] db4 show ?thesis by simp
      next
        case True
        then obtain k where k: "r4 = SqlOk k" "k \<noteq> 0" by blast
        define d1 where "d1 = snd (st1 (cn_db c))"
        have s2: "st2 d1 = (SqlOk k, snd (st2 d1))" and t4: "cn_tx c4 = Some (snd (st2 d1))"
          using x4(2) k by (simp_all add: d1_def prod_eq_iff)
        note i2 = update_wallet_ok [OF s2 [unfolded st2_def] k(2), folded st2_def]
        note x5 = exec_sql_cases [OF e5 t4]
        have db5: "cn_db c5 = cn_db c" using x5(1) db4 by simp
        show ?thesis
        proof (cases "\<exists>k. r5 = SqlOk k")
          case False
          then have "(case r5 of SqlOk k \<Rightarrow> False | _ \<Rightarrow> True)" by (cases r5) auto
          with run ok k Rollback_tables(1) [of c5] db5 show ?thesis by simp
        next
          case True
          then obtain k' where k': "r5 = SqlOk k'" by blast
          define d2 where "d2 = snd (st2 d1)"
          have s3: "st3 d2 = (SqlOk k', snd (st3 d2))" and t5: "cn_tx c5 = Some (snd (st3 d2))"
            using x5(2) k' by (simp_all add: d2_def prod_eq_iff)
          note i3 = insert_ledger_ok [OF s3 [unfolded st3_def], folded st3_def]
          have cred: "credited m (cn_db c) (snd (st3 d2))"
            unfolding credited_def using i1 i2 i3 by (auto simp: d1_def d2_def outbox_keys_def)
          have fin: "c' = c6 \<or> c' = Rollback c6" "r = None \<or> k6"
            using run ok k k' by (auto split: if_splits)
          have "cn_tx c6 = None" using Commit_cases(2) [OF t5, of net] by (simp add: e6)
          then have "cn_db c' = cn_db c6" using fin(1) by (auto simp: Rollback_def)
          with Commit_cases(1) [OF t5, of net] cred db5 fin(2) show ?thesis
            by (auto simp: e6)
        qed
      qed
    qed
  qed
qed

section \<open>Zero loss, exactly once\<close>

text \<open>The simulation thread enqueues at any time, also between two appends of a drain.\<close>

inductive econ_reach :: "Network \<Rightarrow> Conn \<Rightarrow> EconWorker \<Rightarrow> EconomyMutation list \<Rightarrow> bool" for net c0 where
  start: "econ_reach net c0 (EconWorker_new c0) []"
| enqueue: "econ_reach net c0 w h \<Longrightarrow> econ_reach net c0 (snd (EnqueueEconomy m w)) (h @ [m])"
| drain: "econ_reach net c0 w h \<Longrightarrow> ew_batch w = [] \<Longrightarrow> econ_reach net c0 (DrainInto w) h"
| append: "econ_reach net c0 w h \<Longrightarrow> ew_batch w = m # ms \<Longrightarrow> econ_reach net c0 (drain_one net m w) h"

definition account_sum :: "EconomyMutation list \<Rightarrow> u64 \<Rightarrow> int" where
  "account_sum ms a = (\<Sum>m \<leftarrow> ms. if mu_accountId m = a then sint (mu_amount m) else 0)"

text \<open>The database is the initial one with the mutations \<open>ms\<close> applied once each.\<close>

definition applied_once :: "Database \<Rightarrow> EconomyMutation list \<Rightarrow> Database \<Rightarrow> bool" where
  "applied_once db0 ms db \<longleftrightarrow>
     outbox_keys db = outbox_keys db0 @ map mu_idemKey ms \<and> distinct (map mu_idemKey ms) \<and>
     set (map mu_idemKey ms) \<inter> set (outbox_keys db0) = {} \<and>
     (\<forall>a. db_wallets db a = map_option (\<lambda>b. b + account_sum ms a) (db_wallets db0 a)) \<and>
     (\<forall>m \<in> set ms. db_wallets db0 (mu_accountId m) \<noteq> None) \<and> (ms = [] \<longrightarrow> db_outbox db = db_outbox db0) \<and>
     (\<exists>ls. db_ledger db = db_ledger db0 @ ls \<and>
       map (\<lambda>l. (lt_account l, lt_delta l, lt_ref l)) ls = map (\<lambda>m. (mu_accountId m, sint (mu_amount m), ledger_ref m)) ms)"

lemma applied_once_refl: "applied_once db [] db"
  by (simp add: applied_once_def account_sum_def option.map_ident)

lemma applied_once_same: "applied_once db0 ms db \<Longrightarrow> same_tables db db' \<Longrightarrow> applied_once db0 ms db'"
  by (simp add: applied_once_def same_tables_def outbox_keys_def)

lemma applied_once_credited:
  assumes "applied_once db0 ms db" "credited m db db'"
  shows "applied_once db0 (ms @ [m]) db'"
proof -
  from assms(2) obtain b l where b: "db_wallets db (mu_accountId m) = Some b"
    "db_wallets db' = (db_wallets db)(mu_accountId m \<mapsto> b + sint (mu_amount m))"
    and l: "db_ledger db' = db_ledger db @ [l]" "lt_account l = mu_accountId m" "lt_delta l = sint (mu_amount m)"
      "lt_ref l = ledger_ref m"
    and k: "mu_idemKey m \<notin> set (outbox_keys db)" "outbox_keys db' = outbox_keys db @ [mu_idemKey m]"
    by (auto simp: credited_def)
  have sum: "account_sum (ms @ [m]) a = account_sum ms a + (if mu_accountId m = a then sint (mu_amount m) else 0)" for a
    by (simp add: account_sum_def)
  have "db_wallets db' a = map_option (\<lambda>b. b + account_sum (ms @ [m]) a) (db_wallets db0 a)" for a
    using assms(1) b by (auto simp: sum applied_once_def)
  moreover obtain ls where "db_ledger db = db_ledger db0 @ ls"
    "map (\<lambda>l. (lt_account l, lt_delta l, lt_ref l)) ls = map (\<lambda>m. (mu_accountId m, sint (mu_amount m), ledger_ref m)) ms"
    using assms(1) by (auto simp: applied_once_def)
  then have "\<exists>ls. db_ledger db' = db_ledger db0 @ ls \<and>
      map (\<lambda>l. (lt_account l, lt_delta l, lt_ref l)) ls = map (\<lambda>m. (mu_accountId m, sint (mu_amount m), ledger_ref m)) (ms @ [m])"
    using l by (intro exI [of _ "ls @ [l]"]) simp
  moreover have "db_wallets db0 (mu_accountId m) \<noteq> None" using assms(1) b(1) by (auto simp: applied_once_def)
  ultimately show ?thesis using assms(1) k unfolding applied_once_def by auto
qed

definition econ_inv :: "Conn \<Rightarrow> EconWorker \<Rightarrow> EconomyMutation list \<Rightarrow> bool" where
  "econ_inv c0 w h \<longleftrightarrow>
     (\<exists>ms. set ms \<subseteq> set h \<and> applied_once (cn_db c0) ms (cn_db (ew_conn w))) \<and>
     set (ew_queue w) \<union> set (ew_batch w) \<subseteq> set h \<and>
     (\<forall>m \<in> set h. m \<in> set (ew_queue w) \<union> set (ew_batch w) \<or> mu_idemKey m \<in> set (outbox_keys (cn_db (ew_conn w))))"

lemma credited_keys: "credited m db db' \<Longrightarrow> set (outbox_keys db') = insert (mu_idemKey m) (set (outbox_keys db))"
  by (auto simp: credited_def)

lemma same_tables_keys: "same_tables db db' \<Longrightarrow> outbox_keys db' = outbox_keys db"
  by (simp add: same_tables_def outbox_keys_def)

lemma econ_inv_append:
  assumes inv: "econ_inv c0 w h" and b: "ew_batch w = m # ms"
  shows "econ_inv c0 (drain_one net m w) h"
proof -
  obtain r c where e: "AppendWriteThrough net m (ew_conn w) = (r, c)" by (cases "AppendWriteThrough net m (ew_conn w)")
  let ?w = "drain_one net m w"
  have sel: "ew_conn ?w = c" "ew_batch ?w = ms" "ew_queue ?w = (if r = None then ew_queue w @ [m] else ew_queue w)"
    by (simp_all add: e b Let_def ZeroLoss_Push_def)
  obtain done' where d: "set done' \<subseteq> set h" "applied_once (cn_db c0) done' (cn_db (ew_conn w))"
    using inv by (auto simp: econ_inv_def)
  have mh: "m \<in> set h" using inv b by (auto simp: econ_inv_def)
  note cases = Append_cases [OF e]
  have "\<exists>ms. set ms \<subseteq> set h \<and> applied_once (cn_db c0) ms (cn_db c)"
    using cases d mh applied_once_same [OF d(2)] applied_once_credited [OF d(2)]
    by (metis Un_insert_right append.right_neutral empty_subsetI insert_subset list.set(1) list.simps(15) set_append sup.bounded_iff)
  moreover have keys: "set (outbox_keys (cn_db (ew_conn w))) \<subseteq> set (outbox_keys (cn_db c))"
    and new: "r \<noteq> None \<Longrightarrow> mu_idemKey m \<in> set (outbox_keys (cn_db c))"
    using cases by (auto dest: same_tables_keys credited_keys)
  moreover have "x \<in> set (ew_queue ?w) \<union> set (ew_batch ?w) \<or> mu_idemKey x \<in> set (outbox_keys (cn_db c))"
    if "x \<in> set h" for x
  proof -
    from inv that have "x \<in> set (ew_queue w) \<union> set (ew_batch w) \<or> mu_idemKey x \<in> set (outbox_keys (cn_db (ew_conn w)))"
      by (auto simp: econ_inv_def)
    then show ?thesis using keys new b unfolding sel by (cases "x = m") auto
  qed
  moreover have "set (ew_queue ?w) \<union> set (ew_batch ?w) \<subseteq> set h"
    using inv b mh unfolding sel by (auto simp: econ_inv_def)
  ultimately show ?thesis unfolding econ_inv_def sel(1) by blast
qed

lemma econ_reach_inv: "econ_reach net c0 w h \<Longrightarrow> econ_inv c0 w h"
proof (induction rule: econ_reach.induct)
  case start
  show ?case using applied_once_refl by (auto simp: econ_inv_def EconWorker_new_def intro: exI [of _ "[]"])
next
  case (enqueue w h m)
  then show ?case by (auto simp: econ_inv_def EnqueueEconomy_def ZeroLoss_Push_def)
next
  case (drain w h)
  then show ?case by (auto simp: econ_inv_def DrainInto_def)
qed (simp_all add: econ_inv_append del: drain_one.simps)

text \<open>A whole drain of the thread is such a run.\<close>

lemma econ_reach_DrainEconomyOnce:
  assumes "econ_reach net c0 w h" "ew_batch w = []"
  shows "econ_reach net c0 (DrainEconomyOnce net w) h" "ew_batch (DrainEconomyOnce net w) = []"
proof -
  have "econ_reach net c0 w h \<Longrightarrow> econ_reach net c0 (fold (drain_one net) (ew_batch w) w) h \<and>
      ew_batch (fold (drain_one net) (ew_batch w) w) = []" for w
  proof (induction "ew_batch w" arbitrary: w)
    case Nil
    then show ?case by simp
  next
    case (Cons m ms)
    have b: "ew_batch (drain_one net m w) = ms"
      using Cons.hyps(2) [symmetric] by (simp add: Let_def split: prod.split)
    from Cons.hyps(1) [OF b [symmetric] econ_reach.append [OF Cons.prems Cons.hyps(2) [symmetric]]] show ?case
      using Cons.hyps(2) [symmetric] b by (simp del: drain_one.simps)
  qed
  from this [OF econ_reach.drain [OF assms]]
  show "econ_reach net c0 (DrainEconomyOnce net w) h" "ew_batch (DrainEconomyOnce net w) = []"
    by (simp_all add: DrainEconomyOnce_def Let_def)
qed

section \<open>Where the mutations come from\<close>

text \<open>The events the server loop turns into mutations (\<open>ERServer.cpp\<close>): a finished build and a combat event.\<close>

definition build_mutation :: "u32 \<Rightarrow> EconomyMutation" where
  "build_mutation shipNetId =
     \<lparr>mu_idemKey = 0xB011D000 XOR ucast shipNetId, mu_accountId = 0, mu_amount = 0, mu_kind = KBuildComplete,
      mu_reason = ''build_complete'', mu_refType = ''Build'', mu_refId = ucast shipNetId\<rparr>"

definition kind_of_code :: "u8 \<Rightarrow> EconomyEventKind" where
  "kind_of_code k = (if k = 1 then KBuildComplete else if k = 2 then KInventoryDelta else if k = 3 then KLootClaim
     else if k = 4 then KKillmail else if k = 5 then KCargoLost else if k = 6 then KLootDrop else KWalletDelta)"

definition record_mutation :: "u64 \<Rightarrow> OutboxRecord \<Rightarrow> EconomyMutation" where
  "record_mutation account rec =
     \<lparr>mu_idemKey = or_idemKey rec, mu_accountId = account, mu_amount = or_amount rec,
      mu_kind = kind_of_code (or_kind rec), mu_reason = or_reason rec, mu_refType = or_refType rec,
      mu_refId = or_refId rec\<rparr>"

datatype EconSource = BuildDone u32 | CombatEvent u8 u32 u32 u32 u32

fun bridge :: "EconSource \<Rightarrow> EconomyMutation" where
  "bridge (BuildDone ship) = build_mutation ship"
| "bridge (CombatEvent ty a b v tick) = record_mutation 0 (MapEconEvent ty a b v tick)"

section \<open>Properties\<close>

text \<open>C37: Economy writes are lost never and applied once.  Let mutations be enqueued at any time
  while the thread drains, and let every call to the database succeed, fail, or succeed with its reply
  lost, in any pattern.  Then the database is the initial one with some of the enqueued
  mutations applied exactly once each (one outbox row under its own key, one ledger row, and every
  balance changed by exactly the sum of the applied amounts), and every enqueued mutation is either
  still in the queue or the batch, or its key is in the outbox.\<close>
theorem economy_zero_loss:
  assumes "econ_reach net c0 w h"
  shows "(\<exists>ms. set ms \<subseteq> set h \<and> applied_once (cn_db c0) ms (cn_db (ew_conn w))) \<and>
    (\<forall>m \<in> set h. m \<in> set (ew_queue w) \<union> set (ew_batch w) \<or> mu_idemKey m \<in> set (outbox_keys (cn_db (ew_conn w))))"
  using econ_reach_inv [OF assms] by (simp add: econ_inv_def)

definition sample_conn :: Conn where
  "sample_conn = \<lparr>cn_db = \<lparr>db_outbox = [], db_nextId = 1, db_wallets = [7 \<mapsto> 100], db_ledger = []\<rparr>,
     cn_tx = None, cn_calls = 0\<rparr>"

definition sample_mutation :: EconomyMutation where
  "sample_mutation = record_mutation 7 (MapEconEvent 3 42 0 30 9)"

text \<open>The reply to the first commit is lost, so the mutation is queued again and found to be applied.\<close>

definition lossy_net :: Network where
  "lossy_net i = (if i = 5 then ReplyLost else Fine)"

theorem economy_zero_loss_witness:
  "let w = DrainEconomyOnce lossy_net (DrainEconomyOnce lossy_net (snd (EnqueueEconomy sample_mutation (EconWorker_new sample_conn))))
   in ew_failed w = 1 \<and> ew_committed w = 1 \<and> db_wallets (cn_db (ew_conn w)) 7 = Some 70 \<and>
      mu_idemKey sample_mutation \<in> set (outbox_keys (cn_db (ew_conn w)))"
proof -
  let ?start = "snd (EnqueueEconomy sample_mutation (EconWorker_new sample_conn))"
  let ?w = "DrainEconomyOnce lossy_net (DrainEconomyOnce lossy_net ?start)"
  have r0: "econ_reach lossy_net sample_conn ?start [sample_mutation]"
    using econ_reach.enqueue [OF econ_reach.start, of lossy_net sample_conn sample_mutation] by simp
  have "ew_batch ?start = []" by (simp add: EnqueueEconomy_def ZeroLoss_Push_def EconWorker_new_def)
  note r1 = econ_reach_DrainEconomyOnce [OF r0 this]
  note r = econ_reach_DrainEconomyOnce(1) [OF r1]
  have "ew_queue ?w = []" "ew_batch ?w = []" "ew_failed ?w = 1 \<and> ew_committed ?w = 1 \<and> db_wallets (cn_db (ew_conn ?w)) 7 = Some 70"
    by code_simp+
  with economy_zero_loss [OF r] show ?thesis unfolding Let_def by simp
qed

text \<open>C38: As wired, no economy event ever becomes durable.  The server loop gives every mutation the
  account 0, the store does not resolve it, and account numbers start at 1.  So when there is no
  wallet 0, then whatever builds finish and whatever combat happens, for every behaviour of the
  connection and however often the thread drains, the tables stay as they were and every event
  whose key was not there before is still waiting, retried on every pass for ever.\<close>
theorem bridged_events_never_commit:
  assumes "econ_reach net c0 w (map bridge evs)" "db_wallets (cn_db c0) 0 = None"
  shows "same_tables (cn_db c0) (cn_db (ew_conn w)) \<and>
    (\<forall>ev \<in> set evs. mu_idemKey (bridge ev) \<in> set (outbox_keys (cn_db c0)) \<or>
       bridge ev \<in> set (ew_queue w) \<union> set (ew_batch w))"
proof -
  have acc: "mu_accountId (bridge ev) = 0" for ev
    by (cases ev) (simp_all add: build_mutation_def record_mutation_def)
  obtain ms where ms: "set ms \<subseteq> set (map bridge evs)" "applied_once (cn_db c0) ms (cn_db (ew_conn w))"
    using econ_reach_inv [OF assms(1)] by (auto simp: econ_inv_def)
  have "ms = []"
  proof (rule ccontr)
    assume "ms \<noteq> []"
    then obtain m where "m \<in> set ms" by (cases ms) auto
    with ms(1) obtain ev where "m = bridge ev" by auto
    with ms(2) \<open>m \<in> set ms\<close> acc assms(2) show False by (auto simp: applied_once_def)
  qed
  with ms(2) have t: "db_wallets (cn_db (ew_conn w)) = db_wallets (cn_db c0)"
    "db_ledger (cn_db (ew_conn w)) = db_ledger (cn_db c0)" "outbox_keys (cn_db (ew_conn w)) = outbox_keys (cn_db c0)"
    "db_outbox (cn_db (ew_conn w)) = db_outbox (cn_db c0)"
    by (auto simp: applied_once_def account_sum_def option.map_ident fun_eq_iff)
  show ?thesis using t econ_reach_inv [OF assms(1)] by (auto simp: econ_inv_def same_tables_def)
qed

text \<open>A claim of a loot container can never be booked after its drop.  Both events carry the
  reference (Loot, container), and the ledger's unique index admits one of them.  Once the drop is
  in the ledger, for any accounts, any time of the claim and any behaviour of the connection, the
  claim is refused with nothing changed, unless its key is in the outbox already.\<close>
theorem loot_claim_blocked:
  assumes "credited (record_mutation victim (MapEconEvent 0 loot killer v t)) db (cn_db c)"
    and "or_idemKey (MapEconEvent 1 loot claimer v' t') \<notin> set (outbox_keys (cn_db c))"
  shows "fst (AppendWriteThrough net (record_mutation looter (MapEconEvent 1 loot claimer v' t')) c) = None \<and>
    same_tables (cn_db c) (cn_db (snd (AppendWriteThrough net (record_mutation looter (MapEconEvent 1 loot claimer v' t')) c)))"
proof -
  let ?drop = "record_mutation victim (MapEconEvent 0 loot killer v t)"
  let ?claim = "record_mutation looter (MapEconEvent 1 loot claimer v' t')"
  have ref: "ledger_ref ?claim = ledger_ref ?drop" "ledger_ref ?claim \<noteq> None" "mu_idemKey ?claim = or_idemKey (MapEconEvent 1 loot claimer v' t')"
    by (simp_all add: ledger_ref_def record_mutation_def MapEconEvent_def)
  have "ledger_ref ?drop \<in> lt_ref ` set (db_ledger (cn_db c))" using assms(1) by (auto simp: credited_def)
  with ref have "\<not> credited ?claim (cn_db c) db'" for db' by (auto simp: credited_def)
  then show ?thesis
    using Append_cases [of net ?claim c "fst (AppendWriteThrough net ?claim c)" "snd (AppendWriteThrough net ?claim c)"]
      assms(2) ref(3) by (auto simp: prod_eq_iff)
qed

theorem bridged_events_never_commit_witness:
  "let w = DrainEconomyOnce lossy_net (snd (EnqueueEconomy (bridge (CombatEvent 2 5 6 100 3)) (EconWorker_new sample_conn)))
   in same_tables (cn_db sample_conn) (cn_db (ew_conn w)) \<and> ew_failed w = 1"
proof -
  let ?start = "snd (EnqueueEconomy (bridge (CombatEvent 2 5 6 100 3)) (EconWorker_new sample_conn))"
  have r0: "econ_reach lossy_net sample_conn ?start (map bridge [CombatEvent 2 5 6 100 3])"
    using econ_reach.enqueue [OF econ_reach.start, of lossy_net sample_conn "bridge (CombatEvent 2 5 6 100 3)"] by simp
  have "ew_batch ?start = []" by (simp add: EnqueueEconomy_def ZeroLoss_Push_def EconWorker_new_def)
  note r = econ_reach_DrainEconomyOnce(1) [OF r0 this]
  have "ew_failed (DrainEconomyOnce lossy_net ?start) = 1" by code_simp
  with bridged_events_never_commit [OF r] show ?thesis unfolding Let_def by (simp add: sample_conn_def)
qed

theorem loot_claim_blocked_witness:
  "fst (AppendWriteThrough (\<lambda>_. Fine) (record_mutation 7 (MapEconEvent 1 42 5 10 4))
     (snd (AppendWriteThrough (\<lambda>_. Fine) (record_mutation 7 (MapEconEvent 0 42 6 0 2)) sample_conn))) = None"
proof -
  let ?drop = "record_mutation 7 (MapEconEvent 0 42 6 0 2)"
  let ?r = "AppendWriteThrough (\<lambda>_. Fine) ?drop sample_conn"
  have "fst ?r = Some 1" "or_idemKey (MapEconEvent 1 42 5 10 4) \<notin> set (outbox_keys (cn_db (snd ?r)))" by code_simp+
  moreover have "credited ?drop (cn_db sample_conn) (cn_db (snd ?r))"
    using Append_cases [of "\<lambda>_. Fine" ?drop sample_conn "fst ?r" "snd ?r"] \<open>fst ?r = Some 1\<close>
    by (auto simp: sample_conn_def outbox_keys_def)
  ultimately show ?thesis using loot_claim_blocked by blast
qed

lemma find_snoc: "k \<notin> f ` set xs \<Longrightarrow> f x = k \<Longrightarrow> find (\<lambda>r. f r = k) (xs @ [x]) = Some x"
  by (induction xs) auto

lemma append_duplicate:
  assumes "\<forall>i. net i = Fine" "mu_idemKey m \<in> ot_idemKey ` set (db_outbox (cn_db c))"
  shows "\<exists>c'. AppendWriteThrough net m c =
      (map_option ot_id (find (\<lambda>r. ot_idemKey r = mu_idemKey m) (db_outbox (cn_db c))), c') \<and> same_tables (cn_db c) (cn_db c')"
  using assms by (simp add: AppendWriteThrough_def Acquire_def BeginTransaction_def exec_sql_def Let_def insert_outbox_def
      SelectOutboxId_def Rollback_def same_tables_def)

lemma append_new:
  assumes fine: "\<forall>i. net i = Fine" and w: "db_wallets (cn_db c) (mu_accountId m) = Some b" "0 \<le> b + sint (mu_amount m)"
    "fits_bigint (b + sint (mu_amount m))"
    and l: "length (mu_reason m) \<le> 64" "length (mu_refType m) \<le> 32" "ledger_ref m \<notin> lt_ref ` set (db_ledger (cn_db c))"
    and key: "mu_idemKey m \<notin> ot_idemKey ` set (db_outbox (cn_db c))"
  shows "\<exists>c' row. AppendWriteThrough net m c = (Some (ot_id row), c') \<and>
      db_outbox (cn_db c') = db_outbox (cn_db c) @ [row] \<and> ot_idemKey row = mu_idemKey m \<and>
      db_wallets (cn_db c') = (db_wallets (cn_db c))(mu_accountId m \<mapsto> b + sint (mu_amount m))"
proof -
  have ref: "\<not> (case ledger_ref m of None \<Rightarrow> False | Some (t, i) \<Rightarrow> length t > 32)"
    using l(2) by (simp add: ledger_ref_def)
  have led: "insert_ledger (mu_accountId m) (sint (mu_amount m)) reason (ledger_ref m) db = (SqlOk 1, db\<lparr>db_ledger := db_ledger db @
      [\<lparr>lt_account = mu_accountId m, lt_delta = sint (mu_amount m), lt_balanceAfter = b', lt_reason = reason, lt_ref = ledger_ref m\<rparr>]\<rparr>)"
    if "db_wallets db (mu_accountId m) = Some b'" "db_ledger db = db_ledger (cn_db c)" "length reason \<le> 64" for db b' reason
    using that l(3) ref by (simp add: insert_ledger_def)
  have reason: "length (if mu_reason m = '''' then ''economy'' else mu_reason m) \<le> 64" using l(1) by simp
  show ?thesis
    using key w by (simp add: AppendWriteThrough_def Acquire_def BeginTransaction_def exec_sql_def Commit_def fine Let_def
        insert_outbox_def update_wallet_def led [OF _ _ reason] fun_upd_def del: fun_upd_apply)
qed
text \<open>A mutation the tables admit commits.  With a working connection, a mutation with a new key and
  a new reference, an existing wallet and a resulting balance that is not negative is applied and
  answered with its outbox number; appending it again, as a retry does, is answered with the same
  number and changes nothing.\<close>
theorem append_commits:
  assumes "\<forall>i. net i = Fine" "db_wallets (cn_db c) (mu_accountId m) = Some b" "0 \<le> b + sint (mu_amount m)"
    and "fits_bigint (b + sint (mu_amount m))" "length (mu_reason m) \<le> 64" "length (mu_refType m) \<le> 32"
    and "mu_idemKey m \<notin> set (outbox_keys (cn_db c))" "ledger_ref m \<notin> lt_ref ` set (db_ledger (cn_db c))"
  shows "\<exists>i c'. AppendWriteThrough net m c = (Some i, c') \<and> credited m (cn_db c) (cn_db c') \<and>
    db_wallets (cn_db c') (mu_accountId m) = Some (b + sint (mu_amount m)) \<and>
    (\<exists>c''. AppendWriteThrough net m c' = (Some i, c'') \<and> same_tables (cn_db c') (cn_db c''))"
proof -
  note fine = assms(1)
  have key: "mu_idemKey m \<notin> ot_idemKey ` set (db_outbox (cn_db c))" using assms(7) by (simp add: outbox_keys_def)
  obtain c' row where run: "AppendWriteThrough net m c = (Some (ot_id row), c')"
    and row: "db_outbox (cn_db c') = db_outbox (cn_db c) @ [row]" "ot_idemKey row = mu_idemKey m"
    and bal: "db_wallets (cn_db c') = (db_wallets (cn_db c))(mu_accountId m \<mapsto> b + sint (mu_amount m))"
    using append_new [OF fine assms(2-6,8) key] by blast
  have "find (\<lambda>r. ot_idemKey r = mu_idemKey m) (db_outbox (cn_db c')) = Some row"
    using key row find_snoc by metis
  moreover have "mu_idemKey m \<in> ot_idemKey ` set (db_outbox (cn_db c'))" using row by simp
  ultimately have "\<exists>c''. AppendWriteThrough net m c' = (Some (ot_id row), c'') \<and> same_tables (cn_db c') (cn_db c'')"
    using append_duplicate [OF fine, of m c'] by simp
  moreover have "credited m (cn_db c) (cn_db c')" using Append_cases [OF run] assms(7) by simp
  ultimately show ?thesis using run bal by simp
qed

theorem append_commits_witness:
  "\<exists>i c'. AppendWriteThrough (\<lambda>_. Fine) sample_mutation sample_conn = (Some i, c') \<and>
     db_wallets (cn_db c') 7 = Some 70"
proof -
  have a: "mu_amount sample_mutation = - 30" "mu_accountId sample_mutation = 7"
    by (simp_all add: sample_mutation_def record_mutation_def MapEconEvent_def)
  then have "sint (mu_amount sample_mutation) = - 30" by simp
  moreover have "length (mu_reason sample_mutation) \<le> 64" "length (mu_refType sample_mutation) \<le> 32" by code_simp+
  ultimately show ?thesis using append_commits [of "\<lambda>_. Fine" sample_conn sample_mutation 100] a
    by (auto simp: sample_conn_def outbox_keys_def fits_bigint_def)
qed

end
