(* ===== verification/Persistence_Thread.thy ===== *)
theory Persistence_Thread
  imports Economy_Store "HOL-Library.AList"
begin

text \<open>
  The write-behind half of \<open>ERServer/persist/PersistenceThread.cpp\<close>: the bounded queue of
  \<open>PersistQueue.h\<close>, the coalescing flush at the recovery-point cadence, the batch
  transaction of \<open>WriteBehindStore.cpp\<close>, and the snapshot cadence.  Clock readings are
  arguments; the connection is the parameter \<open>net\<close> of \<open>Economy_Store\<close>.  The
  theorems show what the bounded queue keeps, that a flush writes the newest state of every
  entity or nothing, and what a failed flush loses.
\<close>

section \<open>Rows and tables\<close>

datatype WriteBehindEntity = WbBase | WbShip

fun entity_code :: "WriteBehindEntity \<Rightarrow> u64" where
  "entity_code WbBase = 0"
| "entity_code WbShip = 1"

record WriteBehindRow =
  wb_entity :: WriteBehindEntity
  wb_dbId :: u64
  wb_x :: u64
  wb_y :: u64
  wb_z :: u64
  wb_shieldHp :: u32
  wb_armorHp :: u32
  wb_hullHp :: u32
  wb_stateByte :: u8

text \<open>The columns of \<open>Bases\<close> and \<open>Ships\<close> that an update writes, by table and primary key;
  \<open>None\<close> where no row has that key.\<close>

type_synonym StateTable = "WriteBehindEntity \<times> u64 \<rightharpoonup> WriteBehindRow"

text \<open>\<open>UPDATE \<dots> WHERE id = ?\<close>: the number of rows changed.\<close>

definition update_state :: "WriteBehindRow \<Rightarrow> StateTable \<Rightarrow> int \<times> StateTable" where
  "update_state r t =
     (let k = (wb_entity r, wb_dbId r) in if t k = None then (0, t) else (1, t(k \<mapsto> r)))"

section \<open>The bounded queue\<close>

record 'a MpscBoundedQueue =
  bq_buf :: "'a list"
  bq_capacity :: nat
  bq_dropped :: nat

definition BoundedQueue_new :: "nat \<Rightarrow> 'a MpscBoundedQueue" where
  "BoundedQueue_new capacity = \<lparr>bq_buf = [], bq_capacity = (if capacity = 0 then 1 else capacity), bq_dropped = 0\<rparr>"

definition Bounded_Push :: "'a \<Rightarrow> 'a MpscBoundedQueue \<Rightarrow> bool \<times> 'a MpscBoundedQueue" where
  "Bounded_Push item q =
     (let full = length (bq_buf q) \<ge> bq_capacity q;
          q = (if full then q\<lparr>bq_buf := tl (bq_buf q), bq_dropped := bq_dropped q + 1\<rparr> else q)
      in (\<not> full, q\<lparr>bq_buf := bq_buf q @ [item]\<rparr>))"

definition Bounded_DrainInto :: "'a MpscBoundedQueue \<Rightarrow> 'a list \<times> 'a MpscBoundedQueue" where
  "Bounded_DrainInto q = (bq_buf q, q\<lparr>bq_buf := []\<rparr>)"

section \<open>The batch transaction\<close>

text \<open>The loop of the flush inside the open transaction: \<open>None\<close> when a statement fails.\<close>

fun flush_rows :: "Network \<Rightarrow> WriteBehindRow list \<Rightarrow> nat \<Rightarrow> StateTable \<Rightarrow> int \<Rightarrow> (int \<times> StateTable) option \<times> nat" where
  "flush_rows net [] i t written = (Some (written, t), i)"
| "flush_rows net (r # rs) i t written =
     (if net i \<noteq> Fine then (None, i + 1)
      else (case update_state r t of (n, t) \<Rightarrow> flush_rows net rs (i + 1) t (written + n)))"

text \<open>The result, the table and the number of calls made; a commit whose reply is lost has taken effect.\<close>

definition FlushBatch :: "Network \<Rightarrow> WriteBehindRow list \<Rightarrow> nat \<Rightarrow> StateTable \<Rightarrow> int option \<times> StateTable \<times> nat" where
  "FlushBatch net rows i t =
     (if rows = [] then (Some 0, t, i)
      else if net i \<noteq> Fine then (None, t, i + 1)
      else if net (i + 1) \<noteq> Fine then (None, t, i + 2)
      else (case flush_rows net rows (i + 2) t 0 of
              (None, j) \<Rightarrow> (None, t, j + 1)
            | (Some (written, t'), j) \<Rightarrow>
                (case net j of
                   Fine \<Rightarrow> (Some written, t', j + 1)
                 | Refused \<Rightarrow> (None, t, j + 2)
                 | ReplyLost \<Rightarrow> (None, t', j + 2))))"

section \<open>The cadence\<close>

record WbWorker =
  wk_queue :: "WriteBehindRow MpscBoundedQueue"
  wk_lastFlush :: u64
  wk_rpoMs :: u64
  wk_calls :: nat
  wk_table :: StateTable
  wk_batches :: nat
  wk_rows :: int
  wk_dropped :: nat
  wk_watermark :: u64

definition EnqueueWriteBehind :: "WriteBehindRow \<Rightarrow> WbWorker \<Rightarrow> WbWorker" where
  "EnqueueWriteBehind row w =
     (case Bounded_Push row (wk_queue w) of (accepted, q) \<Rightarrow>
       (let w = w\<lparr>wk_queue := q\<rparr> in if \<not> accepted then w\<lparr>wk_dropped := bq_dropped q\<rparr> else w))"

definition coalesce_key :: "WriteBehindRow \<Rightarrow> u64" where
  "coalesce_key r = push_bit 62 (entity_code (wb_entity r)) XOR wb_dbId r"

definition coalesce :: "WriteBehindRow list \<Rightarrow> WriteBehindRow list" where
  "coalesce drained = map snd (fold (\<lambda>r m. AList.update (coalesce_key r) r m) drained [])"

definition FlushWriteBehindIfDue :: "Network \<Rightarrow> u64 \<Rightarrow> WbWorker \<Rightarrow> WbWorker" where
  "FlushWriteBehindIfDue net nowUnix w =
     (let elapsedMs = (nowUnix - wk_lastFlush w) * 1000
      in if elapsedMs < wk_rpoMs w then w
         else
           (case Bounded_DrainInto (wk_queue w) of (drained, q) \<Rightarrow>
             (let w = w\<lparr>wk_queue := q, wk_lastFlush := nowUnix\<rparr>
              in if drained = [] then w\<lparr>wk_watermark := nowUnix\<rparr>
                 else
                   (case FlushBatch net (coalesce drained) (wk_calls w) (wk_table w) of (written, t, i) \<Rightarrow>
                     (let w = w\<lparr>wk_table := t, wk_calls := i, wk_batches := wk_batches w + 1\<rparr>;
                          w = (case written of None \<Rightarrow> w
                               | Some n \<Rightarrow> w\<lparr>wk_rows := wk_rows w + n, wk_watermark := nowUnix\<rparr>)
                      in w\<lparr>wk_dropped := bq_dropped q\<rparr>)))))"

section \<open>The snapshot cadence\<close>

record SnapshotRequest =
  sq_wantSnapshot :: bool
  sq_simTick :: u64
  sq_outboxWatermark :: u64
  sq_blob :: bytes

record SnapWorker =
  sw_lastSnapshot :: u64
  sw_snapshotMs :: u64
  sw_written :: nat
  sw_lastTick :: u64
  sw_saved :: "SnapshotRequest list"

text \<open>The save is one insert into \<open>SimSnapshots\<close>; \<open>saved\<close> tells whether it was acknowledged.\<close>

definition SnapshotIfDue :: "(u64 \<Rightarrow> SnapshotRequest) option \<Rightarrow> bool \<Rightarrow> u64 \<Rightarrow> SnapWorker \<Rightarrow> SnapWorker" where
  "SnapshotIfDue capture saved nowUnix w =
     (case capture of None \<Rightarrow> w
      | Some f \<Rightarrow>
          (let elapsedMs = (nowUnix - sw_lastSnapshot w) * 1000
           in if elapsedMs < sw_snapshotMs w then w
              else
                (let w = w\<lparr>sw_lastSnapshot := nowUnix\<rparr>; req = f nowUnix
                 in if \<not> sq_wantSnapshot req \<or> sq_blob req = [] then w
                    else if saved
                    then w\<lparr>sw_saved := sw_saved w @ [req], sw_written := sw_written w + 1, sw_lastTick := sq_simTick req\<rparr>
                    else w)))"

section \<open>The queue keeps the newest rows\<close>

lemma Bounded_push_run:
  assumes "0 < c"
  shows "fold (\<lambda>x q. snd (Bounded_Push x q)) xs \<lparr>bq_buf = drop (length ys - c) ys, bq_capacity = c, bq_dropped = length ys - c\<rparr> =
    \<lparr>bq_buf = drop (length ys + length xs - c) (ys @ xs), bq_capacity = c, bq_dropped = length ys + length xs - c\<rparr>"
proof (induction xs arbitrary: ys)
  case (Cons x xs)
  have "snd (Bounded_Push x \<lparr>bq_buf = drop (length ys - c) ys, bq_capacity = c, bq_dropped = length ys - c\<rparr>) =
      \<lparr>bq_buf = drop (length (ys @ [x]) - c) (ys @ [x]), bq_capacity = c, bq_dropped = length (ys @ [x]) - c\<rparr>"
  proof (cases "c \<le> length ys")
    case True
    then have "Suc (length ys) - c = Suc (length ys - c)" by simp
    with True assms show ?thesis by (simp add: Bounded_Push_def tl_drop drop_Suc flip: drop_Suc)
  next
    case False
    then show ?thesis by (simp add: Bounded_Push_def)
  qed
  with Cons.IH [of "ys @ [x]"] show ?case by simp
qed simp

text \<open>The bounded queue drops the oldest.  After any pushes to a fresh queue it holds exactly
  the last \<open>capacity\<close> items (at least one) in order, and the drop counter is the number of items
  that are gone.\<close>
theorem bounded_queue_exact:
  fixes xs :: "'a list"
  shows "let q = fold (\<lambda>x q. snd (Bounded_Push x q)) xs (BoundedQueue_new capacity)
   in bq_buf q = drop (length xs - max 1 capacity) xs \<and> bq_dropped q = length xs - max 1 capacity"
proof -
  have "(BoundedQueue_new capacity :: 'a MpscBoundedQueue) = \<lparr>bq_buf = drop (length ([] :: 'a list) - max 1 capacity) [], bq_capacity = max 1 capacity,
      bq_dropped = length ([] :: 'a list) - max 1 capacity\<rparr>"
    by (simp add: BoundedQueue_new_def max_def)
  moreover have "0 < max 1 capacity" by (simp add: less_max_iff_disj)
  ultimately show ?thesis using Bounded_push_run [of "max 1 capacity" xs "[]"] by (simp add: Let_def)
qed

section \<open>A flush leaves the newest state\<close>

definition row_key :: "WriteBehindRow \<Rightarrow> WriteBehindEntity \<times> u64" where
  "row_key r = (wb_entity r, wb_dbId r)"

abbreviation update_all :: "WriteBehindRow list \<Rightarrow> StateTable \<Rightarrow> StateTable" where
  "update_all rs t \<equiv> fold (\<lambda>r t. snd (update_state r t)) rs t"

lemma flush_rows_result:
  "flush_rows net rs i t written = (res, j) \<Longrightarrow> res = None \<or> (\<exists>n. res = Some (n, update_all rs t))"
proof (induction rs arbitrary: i t written)
  case (Cons r rs)
  then show ?case by (auto split: if_splits prod.splits)
qed auto

lemma flush_rows_fine:
  "\<forall>k \<ge> i. net k = Fine \<Longrightarrow>
     \<exists>n. flush_rows net rs i t written = (Some (n, update_all rs t), i + length rs)"
proof (induction rs arbitrary: i t written)
  case (Cons r rs)
  then have "\<forall>k \<ge> i + 1. net k = Fine" "net i = Fine" by simp_all
  with Cons.IH [of "i + 1" "snd (update_state r t)" "written + fst (update_state r t)"] show ?case
    by (simp add: case_prod_beta)
qed simp

text \<open>The batch is all or nothing: what it leaves is the table with every row written or the old one,
  and it reports success only in the first case.\<close>

lemma FlushBatch_atomic:
  assumes "FlushBatch net rows i t = (written, t', j)"
  shows "t' = update_all rows t \<or> written = None \<and> t' = t"
    and "\<forall>k \<ge> i. net k = Fine \<Longrightarrow> written \<noteq> None"
proof -
  obtain res k where fr: "flush_rows net rows (i + 2) t 0 = (res, k)" by (cases "flush_rows net rows (i + 2) t 0")
  note res = flush_rows_result [OF fr]
  show "t' = update_all rows t \<or> written = None \<and> t' = t"
    using assms res fr by (auto simp: FlushBatch_def split: if_splits Reply.splits)
  show "written \<noteq> None" if fine: "\<forall>k \<ge> i. net k = Fine"
  proof (cases "rows = []")
    case False
    have "\<forall>k \<ge> i + 2. net k = Fine" using fine by simp
    from flush_rows_fine [OF this, of rows t 0] fr obtain n where "res = Some (n, update_all rows t)" "k = i + 2 + length rows" by auto
    then show ?thesis using assms fr fine False by (auto simp: FlushBatch_def)
  qed (use assms in \<open>auto simp: FlushBatch_def\<close>)
qed

lemma update_fold_lookup:
  "fold (\<lambda>r t. snd (update_state r t)) rs t k =
     (case t k of None \<Rightarrow> None
      | Some old \<Rightarrow> Some (case find (\<lambda>r. row_key r = k) (rev rs) of None \<Rightarrow> old | Some r \<Rightarrow> r))"
proof (induction rs rule: rev_induct)
  case (snoc r rs)
  then show ?case
    by (auto simp: update_state_def Let_def row_key_def split: option.splits)
qed (simp split: option.split)

lemma small_id: "unat (d :: u64) < 2 ^ 62 \<Longrightarrow> drop_bit 62 d = 0"
  by (simp add: unat_eq_zero [symmetric] drop_bit_eq_div unat_div del: unat_eq_zero)

lemma coalesce_key_inj:
  assumes "unat (wb_dbId r) < 2 ^ 62" "unat d < 2 ^ 62"
  shows "coalesce_key r = push_bit 62 (entity_code e) XOR d \<longleftrightarrow> row_key r = (e, d)"
proof
  assume eq: "coalesce_key r = push_bit 62 (entity_code e) XOR d"
  have "drop_bit 62 (push_bit 62 (entity_code (wb_entity r)) XOR wb_dbId r) = drop_bit 62 (push_bit 62 (entity_code e) XOR d)"
    using eq by (simp add: coalesce_key_def)
  then have "wb_entity r = e"
    using assms by (cases "wb_entity r"; cases e) (simp_all add: drop_bit_xor small_id)
  moreover from this have "wb_dbId r = d" using eq by (simp add: coalesce_key_def bit_eq_iff bit_xor_iff) blast
  ultimately show "row_key r = (e, d)" by (simp add: row_key_def)
qed (simp add: coalesce_key_def row_key_def)

lemma coalesce_map:
  defines "f \<equiv> \<lambda>rs. fold (\<lambda>r m. AList.update (coalesce_key r) r m) rs []"
  shows "map_of (f rs) c = find (\<lambda>r. coalesce_key r = c) (rev rs)" "distinct (map fst (f rs))"
    "e \<in> set (f rs) \<Longrightarrow> fst e = coalesce_key (snd e) \<and> snd e \<in> set rs"
proof -
  show "map_of (f rs) c = find (\<lambda>r. coalesce_key r = c) (rev rs)"
    unfolding f_def by (induction rs rule: rev_induct) (auto simp: update_conv)
  show "distinct (map fst (f rs))"
    unfolding f_def by (induction rs rule: rev_induct) (simp_all add: distinct_update)
  show "e \<in> set (f rs) \<Longrightarrow> fst e = coalesce_key (snd e) \<and> snd e \<in> set rs"
  proof (unfold f_def, induction rs arbitrary: e rule: rev_induct)
    case (snoc r rs)
    let ?m = "fold (\<lambda>r m. AList.update (coalesce_key r) r m) rs []"
    have "distinct (map fst ?m)" by (induction rs rule: rev_induct) (simp_all add: distinct_update)
    then have "distinct (map fst (AList.update (coalesce_key r) r ?m))" by (rule distinct_update)
    moreover have "e \<in> set (AList.update (coalesce_key r) r ?m)" using snoc.prems by simp
    ultimately have "map_of (AList.update (coalesce_key r) r ?m) (fst e) = Some (snd e)" by (cases e) simp
    then show ?case using snoc.IH [of "(fst e, snd e)"]
      by (cases "fst e = coalesce_key r") (auto simp: update_conv dest: map_of_SomeD)
  qed simp
qed

lemma find_append_case: "find P (xs @ ys) = (case find P xs of None \<Rightarrow> find P ys | Some x \<Rightarrow> Some x)"
  by (induction xs) simp_all

lemma find_rev_distinct:
  assumes "distinct (map fst m)" "\<forall>e \<in> set m. fst e = g (snd e)"
  shows "find (\<lambda>r. g r = c) (rev (map snd m)) = map_of m c"
  using assms
proof (induction m)
  case (Cons e m)
  obtain k v where e: "e = (k, v)" by (cases e)
  have "map_of m k = None" using Cons.prems(1) by (simp add: e map_of_eq_None_iff)
  with Cons show ?case by (auto simp: e find_append_case split: option.split)
qed simp

lemma coalesce_find: "find (\<lambda>r. coalesce_key r = c) (rev (coalesce rs)) = find (\<lambda>r. coalesce_key r = c) (rev rs)"
  unfolding coalesce_def using coalesce_map(1) [of rs c] coalesce_map(2) [of rs] coalesce_map(3) [of _ rs]
  by (subst find_rev_distinct) auto

lemma coalesce_rows: "set (coalesce rs) \<subseteq> set rs" "rs \<noteq> [] \<Longrightarrow> coalesce rs \<noteq> []"
proof -
  show "set (coalesce rs) \<subseteq> set rs" unfolding coalesce_def using coalesce_map(3) [of _ rs] by auto
  assume "rs \<noteq> []"
  then obtain ys y where "rs = ys @ [y]" by (cases rs rule: rev_cases) auto
  then have "find (\<lambda>r. coalesce_key r = coalesce_key y) (rev rs) = Some y" by simp
  then show "coalesce rs \<noteq> []" using coalesce_find [of "coalesce_key y" rs] by auto
qed

lemma find_cong_set: "(\<And>x. x \<in> set xs \<Longrightarrow> P x = Q x) \<Longrightarrow> find P xs = find Q xs"
  by (induction xs) auto

lemma coalesce_newest:
  assumes "\<forall>r \<in> set rows. unat (wb_dbId r) < 2 ^ 62"
  shows "find (\<lambda>r. row_key r = k) (rev (coalesce rows)) = find (\<lambda>r. row_key r = k) (rev rows)"
proof -
  obtain e d where k: "k = (e, d)" by (cases k)
  show ?thesis
  proof (cases "unat d < 2 ^ 62")
    case True
    let ?c = "push_bit 62 (entity_code e) XOR d"
    have eq: "find (\<lambda>r. row_key r = (e, d)) (rev rs) = find (\<lambda>r. coalesce_key r = ?c) (rev rs)" if "set rs \<subseteq> set rows" for rs
      using that assms coalesce_key_inj [OF _ True, of _ e] by (intro find_cong_set) auto
    show ?thesis unfolding k eq [OF coalesce_rows(1)] eq [OF order_refl] by (rule coalesce_find)
  next
    case False
    have none: "find (\<lambda>r. row_key r = (e, d)) (rev rs) = None" if "set rs \<subseteq> set rows" for rs
      using that assms False by (auto simp: find_None_iff row_key_def)
    show ?thesis unfolding k none [OF coalesce_rows(1)] none [OF order_refl] ..
  qed
qed

text \<open>The table in which every entity that has a row has the last state queued for it, or its old one
  if none was queued.\<close>

definition newest_states :: "WriteBehindRow list \<Rightarrow> StateTable \<Rightarrow> StateTable" where
  "newest_states rows t k =
     (case t k of None \<Rightarrow> None
      | Some old \<Rightarrow> Some (case find (\<lambda>r. (wb_entity r, wb_dbId r) = k) (rev rows) of None \<Rightarrow> old | Some r \<Rightarrow> r))"

lemma update_all_newest:
  assumes "\<forall>r \<in> set rows. unat (wb_dbId r) < 2 ^ 62"
  shows "update_all (coalesce rows) t = newest_states rows t"
proof
  fix k
  show "update_all (coalesce rows) t k = newest_states rows t k"
    unfolding update_fold_lookup coalesce_newest [OF assms] unfolding newest_states_def row_key_def ..
qed

text \<open>C39: A due flush is all or nothing and takes the newest states.  When the cadence has elapsed (and
  the database ids are below \<open>2 ^ 62\<close>), then, whatever the connection does, the queue is empty
  afterwards, and either the tables hold the last queued state of every entity that has a row (rows
  that do not exist are not created), with the recovery point at the present, or the flush failed: the
  recovery point stays, and the tables are the old ones or, if only the reply to the commit was lost,
  the new ones.  If every call succeeds it is the first.\<close>
theorem flush_leaves_newest:
  assumes "\<not> (now - wk_lastFlush w) * 1000 < wk_rpoMs w"
    and "\<forall>r \<in> set (bq_buf (wk_queue w)). unat (wb_dbId r) < 2 ^ 62"
  shows "let w' = FlushWriteBehindIfDue net now w; newest = newest_states (bq_buf (wk_queue w)) (wk_table w)
     in bq_buf (wk_queue w') = [] \<and>
        (wk_table w' = newest \<and> wk_watermark w' = now \<or>
         (wk_table w' = wk_table w \<or> wk_table w' = newest) \<and> wk_watermark w' = wk_watermark w) \<and>
        ((\<forall>i \<ge> wk_calls w. net i = Fine) \<longrightarrow> wk_table w' = newest \<and> wk_watermark w' = now)"
proof -
  define rows where "rows = bq_buf (wk_queue w)"
  have upd: "update_all (coalesce rows) (wk_table w) = newest_states rows (wk_table w)"
    using assms(2) unfolding rows_def by (rule update_all_newest)
  show ?thesis
  proof (cases "rows = []")
    case True
    then have "newest_states rows (wk_table w) = wk_table w" by (simp add: newest_states_def fun_eq_iff split: option.split)
    then show ?thesis using assms(1) True
      by (simp add: FlushWriteBehindIfDue_def Bounded_DrainInto_def Let_def flip: rows_def)
  next
    case False
    obtain written t' j where fb: "FlushBatch net (coalesce rows) (wk_calls w) (wk_table w) = (written, t', j)"
      by (cases "FlushBatch net (coalesce rows) (wk_calls w) (wk_table w)")
    note at = FlushBatch_atomic [OF fb, unfolded upd]
    define w' where "w' = FlushWriteBehindIfDue net now w"
    have w': "bq_buf (wk_queue w') = []" "wk_table w' = t'"
      "wk_watermark w' = (if written = None then wk_watermark w else now)"
      using assms(1) False fb unfolding w'_def
      by (auto simp: FlushWriteBehindIfDue_def Bounded_DrainInto_def Let_def simp flip: rows_def split: option.splits)
    show ?thesis using at w' unfolding Let_def w'_def [symmetric] rows_def [symmetric] by (cases "written = None") auto
  qed
qed

definition sample_row :: "u64 \<Rightarrow> WriteBehindRow" where
  "sample_row x = \<lparr>wb_entity = WbShip, wb_dbId = 5, wb_x = x, wb_y = 0, wb_z = 0, wb_shieldHp = 1, wb_armorHp = 1,
     wb_hullHp = 1, wb_stateByte = 0\<rparr>"

definition sample_worker :: "WriteBehindRow list \<Rightarrow> WbWorker" where
  "sample_worker rows = \<lparr>wk_queue = \<lparr>bq_buf = rows, bq_capacity = 4096, bq_dropped = 0\<rparr>, wk_lastFlush = 10, wk_rpoMs = 2000,
     wk_calls = 0, wk_table = [(WbShip, 5) \<mapsto> sample_row 0], wk_batches = 0, wk_rows = 0, wk_dropped = 0, wk_watermark = 0\<rparr>"

theorem flush_leaves_newest_witness:
  "wk_table (FlushWriteBehindIfDue (\<lambda>_. Fine) 12 (sample_worker [sample_row 1, sample_row 2])) (WbShip, 5) = Some (sample_row 2)"
  using flush_leaves_newest [where now = 12 and w = "sample_worker [sample_row 1, sample_row 2]" and net = "\<lambda>_. Fine"]
  by (simp add: sample_worker_def sample_row_def Let_def newest_states_def)

text \<open>A flush that fails loses its rows, and the recovery point then lies.  When the database is
  unreachable at one cadence, the rows of that window are gone from the queue and not in the tables;
  at the next cadence, with nothing new queued, the recovery point is moved to the present
  although they were never written.\<close>
theorem failed_flush_loses_rows:
  assumes "net (wk_calls w) = Refused" "bq_buf (wk_queue w) \<noteq> []"
    and "\<not> (t1 - wk_lastFlush w) * 1000 < wk_rpoMs w" "\<not> (t2 - t1) * 1000 < wk_rpoMs w"
  shows "let w1 = FlushWriteBehindIfDue net t1 w; w2 = FlushWriteBehindIfDue net t2 w1
     in bq_buf (wk_queue w1) = [] \<and> wk_watermark w1 = wk_watermark w \<and>
        wk_table w2 = wk_table w \<and> wk_watermark w2 = t2"
proof -
  have "FlushBatch net (coalesce (bq_buf (wk_queue w))) (wk_calls w) (wk_table w) = (None, wk_table w, wk_calls w + 1)"
    using assms(1) coalesce_rows(2) [OF assms(2)] by (simp add: FlushBatch_def)
  with assms(2-4) show ?thesis
    by (simp add: FlushWriteBehindIfDue_def Bounded_DrainInto_def Let_def del: right_diff_distrib' left_diff_distrib')
qed

theorem failed_flush_loses_rows_witness:
  "wk_watermark (FlushWriteBehindIfDue (\<lambda>_. Refused) 14 (FlushWriteBehindIfDue (\<lambda>_. Refused) 12 (sample_worker [sample_row 1]))) = 14"
  using failed_flush_loses_rows [of "\<lambda>_. Refused" "sample_worker [sample_row 1]" 12 14]
  by (simp add: sample_worker_def Let_def)

end
