(* ===== verification/Sim_Clock.thy ===== *)
theory Sim_Clock
  imports Float_Arith
begin

text \<open>
  The simulation clock: the time-dilation controller of \<open>NeuronCore/TimeDilation.h\<close> and the
  fixed-step accumulator of \<open>NeuronCore/FixedStepAccumulator.h\<close>, in double arithmetic with its
  roundings.  The readings of the performance counter are arguments.  The theorems show that the
  factor stays in its range and recovers, that a frame runs at most five steps and ends, and that
  no time is lost or invented.
\<close>

section \<open>Time dilation\<close>

record DilationConfig =
  dc_floor :: double
  dc_onsetLoad :: double
  dc_easeDown :: double
  dc_easeUp :: double

text \<open>A decimal literal is the nearest double.\<close>

definition DilationConfig_default :: DilationConfig where
  "DilationConfig_default = \<lparr>dc_floor = rnd (1 / 10), dc_onsetLoad = 1, dc_easeDown = rnd (1 / 4), dc_easeUp = rnd (1 / 20)\<rparr>"

definition dclamp :: "double \<Rightarrow> double \<Rightarrow> double \<Rightarrow> double" where
  "dclamp v lo hi = (if v < lo then lo else if hi < v then hi else v)"

text \<open>The controller's state is its factor.\<close>

type_synonym DilationController = double

definition DilationController_new :: DilationController where
  "DilationController_new = 1"

definition IsDilated :: "DilationController \<Rightarrow> bool" where
  "IsDilated f \<longleftrightarrow> f < 1"

definition Dilation_Reset :: "DilationController \<Rightarrow> DilationController" where
  "Dilation_Reset f = 1"

definition Dilation_Update :: "double \<Rightarrow> double \<Rightarrow> DilationConfig \<Rightarrow> DilationController \<Rightarrow> DilationController" where
  "Dilation_Update measuredSeconds budgetSeconds cfg f =
     (let budget = (if budgetSeconds > 0 then budgetSeconds else rnd (1 / 10 ^ 9));
          load = ddiv measuredSeconds budget;
          target = 1;
          target = (if load > dc_onsetLoad cfg then dclamp (ddiv (dc_onsetLoad cfg) load) (dc_floor cfg) 1 else target);
          ease = (if target < f then dc_easeDown cfg else dc_easeUp cfg);
          f = dadd f (dmul (dsub target f) ease);
          f = dclamp f (dc_floor cfg) 1
      in if f > dsub 1 (rnd (1 / 10 ^ 6)) then 1 else f)"

section \<open>The accumulator\<close>

definition SIM_TICKS_PER_SECOND :: int where "SIM_TICKS_PER_SECOND = 30"
definition SIM_DELTA_SECONDS :: double where "SIM_DELTA_SECONDS = ddiv 1 (double_of_int SIM_TICKS_PER_SECOND)"
definition MAX_CATCH_UP_TICKS_PER_FRAME :: nat where "MAX_CATCH_UP_TICKS_PER_FRAME = 5"

record FixedStepAccumulator =
  fs_freq :: u64
  fs_last :: u64
  fs_accumulator :: double
  fs_simTickCount :: u64
  fs_stepsThisFrame :: nat
  fs_dilation :: DilationController
  fs_cfg :: DilationConfig

definition FixedStep_Start :: "u64 \<Rightarrow> u64 \<Rightarrow> FixedStepAccumulator \<Rightarrow> FixedStepAccumulator" where
  "FixedStep_Start freq now s =
     s\<lparr>fs_freq := freq, fs_last := now, fs_accumulator := 0, fs_simTickCount := 0, fs_stepsThisFrame := 0,
       fs_dilation := Dilation_Reset (fs_dilation s)\<rparr>"

text \<open>What a frame adds to the accumulator.\<close>

definition frame_intake :: "u64 \<Rightarrow> FixedStepAccumulator \<Rightarrow> double" where
  "frame_intake now s =
     (let elapsed = ddiv (double_of_int (sint (now - fs_last s))) (double_of_int (sint (fs_freq s)));
          maxElapsed = dmul SIM_DELTA_SECONDS (double_of_int (int MAX_CATCH_UP_TICKS_PER_FRAME));
          elapsed = (if elapsed > maxElapsed then maxElapsed else elapsed)
      in dmul elapsed (fs_dilation s))"

definition FixedStep_Tick :: "u64 \<Rightarrow> FixedStepAccumulator \<Rightarrow> FixedStepAccumulator" where
  "FixedStep_Tick now s =
     s\<lparr>fs_accumulator := dadd (fs_accumulator s) (frame_intake now s), fs_last := now, fs_stepsThisFrame := 0\<rparr>"

definition ReportTickCost :: "double \<Rightarrow> FixedStepAccumulator \<Rightarrow> double \<times> FixedStepAccumulator" where
  "ReportTickCost measuredSeconds s =
     (let f = Dilation_Update measuredSeconds SIM_DELTA_SECONDS (fs_cfg s) (fs_dilation s)
      in (f, s\<lparr>fs_dilation := f\<rparr>))"

definition ConsumeStep :: "FixedStepAccumulator \<Rightarrow> bool \<times> FixedStepAccumulator" where
  "ConsumeStep s =
     (if fs_stepsThisFrame s \<ge> MAX_CATCH_UP_TICKS_PER_FRAME then (False, s)
      else if fs_accumulator s < SIM_DELTA_SECONDS then (False, s)
      else (True, s\<lparr>fs_accumulator := dsub (fs_accumulator s) SIM_DELTA_SECONDS,
                   fs_simTickCount := fs_simTickCount s + 1, fs_stepsThisFrame := fs_stepsThisFrame s + 1\<rparr>))"

definition GetAlpha :: "FixedStepAccumulator \<Rightarrow> u32" where
  "GetAlpha s = f32_of (ddiv (fs_accumulator s) SIM_DELTA_SECONDS)"

definition ResetAccumulator :: "u64 \<Rightarrow> FixedStepAccumulator \<Rightarrow> FixedStepAccumulator" where
  "ResetAccumulator now s = s\<lparr>fs_last := now, fs_accumulator := 0, fs_stepsThisFrame := 0\<rparr>"

text \<open>The loop \<open>while (acc.ConsumeStep()) \<dots>\<close> of its users.\<close>

function consume_loop :: "FixedStepAccumulator \<Rightarrow> FixedStepAccumulator" where
  "consume_loop s = (case ConsumeStep s of (ready, s') \<Rightarrow> if ready then consume_loop s' else s')"
  by auto
termination
  by (relation "measure (\<lambda>s. MAX_CATCH_UP_TICKS_PER_FRAME - fs_stepsThisFrame s)") (auto simp: ConsumeStep_def split: if_splits)

declare consume_loop.simps [simp del]

section \<open>The factor\<close>

lemma dclamp_range: "lo \<le> hi \<Longrightarrow> lo \<le> dclamp v lo hi \<and> dclamp v lo hi \<le> hi"
  by (simp add: dclamp_def)

lemma Dilation_Update_range:
  "dc_floor cfg \<le> 1 \<Longrightarrow> dc_floor cfg \<le> Dilation_Update m b cfg f \<and> Dilation_Update m b cfg f \<le> 1"
  using dclamp_range [of "dc_floor cfg" 1] by (auto simp: Dilation_Update_def Let_def)

lemma rnd_err: "\<bar>x\<bar> \<le> 1 \<Longrightarrow> \<bar>rnd x - x\<bar> \<le> 1 / 2 ^ 53"
proof -
  assume "\<bar>x\<bar> \<le> 1"
  then have "\<bar>x\<bar> / 2 ^ 53 \<le> 1 / 2 ^ 53" by (intro divide_right_mono) auto
  with rnd_error [of x] show ?thesis by linarith
qed

lemma rnd_1 [simp]: "rnd 1 = 1"
  using rnd_of_int [of 1] by simp

lemma easeUp_bounds: "1 / 20 - 1 / 2 ^ 50 \<le> rnd (1 / 20)" "rnd (1 / 20) \<le> 1 / 20 + 1 / 2 ^ 50"
  using rnd_err [of "1 / 20"] unfolding abs_le_iff by auto

lemma snap_bounds: "dsub 1 (rnd (1 / 10 ^ 6)) \<le> 1 - 9 / 10 ^ 7" "dsub 1 (rnd (1 / 10 ^ 6)) < 1"
proof -
  have "\<bar>rnd (1 / 10 ^ 6) - 1 / 10 ^ 6\<bar> \<le> 1 / 2 ^ 53" by (rule rnd_err) simp
  then have a: "1 / 10 ^ 6 - 1 / 2 ^ 53 \<le> rnd (1 / 10 ^ 6)" "rnd (1 / 10 ^ 6) \<le> 1 / 10 ^ 6 + 1 / 2 ^ 53"
    unfolding abs_le_iff by linarith+
  then have "\<bar>1 - rnd (1 / 10 ^ 6)\<bar> \<le> 1" by (simp add: abs_le_iff)
  from rnd_err [OF this] have "dsub 1 (rnd (1 / 10 ^ 6)) \<le> 1 - rnd (1 / 10 ^ 6) + 1 / 2 ^ 53"
    unfolding dsub_def abs_le_iff by linarith
  also have "\<dots> \<le> 1 - 9 / 10 ^ 7" using a by simp
  finally show "dsub 1 (rnd (1 / 10 ^ 6)) \<le> 1 - 9 / 10 ^ 7" .
  then show "dsub 1 (rnd (1 / 10 ^ 6)) < 1" by simp
qed

text \<open>One tick within the budget closes at least a twenty-first of the gap to full speed.\<close>

lemma rnd_lower: "0 \<le> x \<Longrightarrow> x * (1 - 1 / 2 ^ 53) \<le> rnd x"
  using rnd_bounds(1) [of x] by (simp add: right_diff_distrib)

lemma recovery_step:
  assumes "ddiv m SIM_DELTA_SECONDS \<le> 1" "0 \<le> f" "f \<le> 1"
  defines "f' \<equiv> Dilation_Update m SIM_DELTA_SECONDS DilationConfig_default f"
  shows "f' = 1 \<or> 5 / 10 ^ 7 \<le> 1 - f \<and> 1 - f' \<le> 20 / 21 * (1 - f)"
proof -
  define k where "k = rnd (1 / 20)"
  define g where "g = dsub 1 f"
  define p where "p = dmul g k"
  have pos: "0 < SIM_DELTA_SECONDS" by (simp add: SIM_DELTA_SECONDS_def) code_simp
  have f': "f' = (let v = dclamp (dadd f p) (rnd (1 / 10)) 1 in if v > dsub 1 (rnd (1 / 10 ^ 6)) then 1 else v)"
    using assms(1,3) pos by (simp add: f'_def Dilation_Update_def DilationConfig_default_def Let_def p_def g_def k_def)
  have g: "(1 - f) * (1 - 1 / 2 ^ 53) \<le> g" "0 \<le> g"
    using rnd_lower [of "1 - f"] rnd_bounds(3) [of "1 - f"] assms(3) by (simp_all add: g_def dsub_def)
  have k: "1 / 20 - 1 / 2 ^ 50 \<le> k" using easeUp_bounds by (simp add: k_def)
  then have "0 \<le> k" by (rule order_trans [rotated]) simp
  then have gk: "0 \<le> g * k" using g(2) by simp
  then have p: "g * k * (1 - 1 / 2 ^ 53) \<le> p" "0 \<le> p"
    using rnd_lower [of "g * k"] rnd_bounds(3) [of "g * k"] by (simp_all add: p_def dmul_def)
  have x: "(f + p) * (1 - 1 / 2 ^ 53) \<le> dadd f p"
    using rnd_lower [of "f + p"] p(2) assms(2) by (simp add: dadd_def)
  have v: "f' = 1 \<or> min (dadd f p) 1 \<le> f'" "dadd f p > 1 - 9 / 10 ^ 7 \<Longrightarrow> f' = 1"
    using snap_bounds by (auto simp: f' Let_def dclamp_def min_def)
  show ?thesis
  proof (cases "1 - f < 5 / 10 ^ 7")
    case True
    have "f * (1 - 1 / 2 ^ 53) \<le> (f + p) * (1 - 1 / 2 ^ 53)" using p(2) by (intro mult_right_mono) auto
    with x have "f - f / 2 ^ 53 \<le> dadd f p" by (simp add: algebra_simps)
    moreover have "f / 2 ^ 53 \<le> 1 / 2 ^ 53" using assms(3) by (intro divide_right_mono) auto
    ultimately have "dadd f p > 1 - 9 / 10 ^ 7" using True by (simp add: field_simps)
    with v(2) show ?thesis by simp
  next
    case False
    define h where "h = 1 - f"
    have h: "5 / 10 ^ 7 \<le> h" "0 \<le> h" "h \<le> 1" using False assms(2) by (auto simp: h_def)
    have "h * (1 - 1 / 2 ^ 53) * (1 / 20 - 1 / 2 ^ 50) \<le> g * k"
      using g k h by (intro mult_mono) (auto simp: h_def)
    then have "h * (1 - 1 / 2 ^ 53) * (1 / 20 - 1 / 2 ^ 50) * (1 - 1 / 2 ^ 53) \<le> g * k * (1 - 1 / 2 ^ 53)"
      by (rule mult_right_mono) simp
    with p(1) have "h * ((1 - 1 / 2 ^ 53) * (1 / 20 - 1 / 2 ^ 50) * (1 - 1 / 2 ^ 53)) \<le> p" by (simp add: mult.assoc)
    moreover have "h * (10 / 201) \<le> h * ((1 - 1 / 2 ^ 53) * (1 / 20 - 1 / 2 ^ 50) * (1 - 1 / 2 ^ 53))"
      using h(2) by (rule mult_left_mono [rotated]) simp
    ultimately have p': "h * (10 / 201) \<le> p" by linarith
    have "(f + h * (10 / 201)) * (1 - 1 / 2 ^ 53) \<le> (f + p) * (1 - 1 / 2 ^ 53)"
      using p' by (intro mult_right_mono) auto
    with x have "(f + h * (10 / 201)) * (1 - 1 / 2 ^ 53) \<le> dadd f p" by linarith
    moreover have "f + h / 21 \<le> (f + h * (10 / 201)) * (1 - 1 / 2 ^ 53)"
      using h by (simp add: h_def field_simps)
    ultimately have "f + h / 21 \<le> dadd f p" by linarith
    moreover have "f + h / 21 \<le> 1" using h by (simp add: h_def field_simps)
    ultimately have "f' = 1 \<or> f + h / 21 \<le> f'" using v(1) by auto
    then show ?thesis using h(1) by (auto simp: h_def field_simps)
  qed
qed

lemma floor_default: "0 \<le> dc_floor DilationConfig_default" "dc_floor DilationConfig_default \<le> 1"
  by code_simp+

lemma recovered_stays: "ddiv m SIM_DELTA_SECONDS \<le> 1 \<Longrightarrow> Dilation_Update m SIM_DELTA_SECONDS DilationConfig_default 1 = 1"
  using recovery_step [of m 1] by simp

lemma recovery_run:
  assumes "\<forall>m \<in> set ms. ddiv m SIM_DELTA_SECONDS \<le> 1" "0 \<le> f" "f \<le> 1"
  defines "f' \<equiv> fold (\<lambda>m f. Dilation_Update m SIM_DELTA_SECONDS DilationConfig_default f) ms f"
  shows "0 \<le> f'" "f' \<le> 1" "f' = 1 \<or> 1 - f' \<le> (20 / 21) ^ length ms"
proof -
  let ?U = "\<lambda>m f. Dilation_Update m SIM_DELTA_SECONDS DilationConfig_default f"
  have "0 \<le> fold ?U ms f \<and> fold ?U ms f \<le> 1 \<and> (fold ?U ms f = 1 \<or> 1 - fold ?U ms f \<le> (20 / 21) ^ length ms)"
    using assms(1)
  proof (induction ms rule: rev_induct)
    case Nil
    then show ?case using assms(2,3) by simp
  next
    case (snoc m ms)
    let ?f = "fold ?U ms f"
    from snoc have IH: "0 \<le> ?f" "?f \<le> 1" "?f = 1 \<or> 1 - ?f \<le> (20 / 21) ^ length ms"
      and m: "ddiv m SIM_DELTA_SECONDS \<le> 1" by auto
    have r: "0 \<le> ?U m ?f" "?U m ?f \<le> 1" using Dilation_Update_range [OF floor_default(2)] floor_default(1) order_trans by blast+
    show ?case
    proof (cases "?f = 1")
      case True
      with recovered_stays [OF m] r show ?thesis by simp
    next
      case False
      with IH have "20 / 21 * (1 - ?f) \<le> 20 / 21 * (20 / 21) ^ length ms" by simp
      with recovery_step [OF m IH(1,2)] r show ?thesis by auto
    qed
  qed
  then show "0 \<le> f'" "f' \<le> 1" "f' = 1 \<or> 1 - f' \<le> (20 / 21) ^ length ms" by (simp_all add: f'_def)
qed

text \<open>The shard returns to full speed.  From any factor, 300 ticks (ten seconds) within the
  budget bring the dilation factor back to exactly 1, through all the roundings of the easing, and it
  stays there for as long as the ticks stay within the budget.\<close>
theorem dilation_recovers:
  assumes "300 \<le> length ms" "\<forall>m \<in> set ms. ddiv m SIM_DELTA_SECONDS \<le> 1" "0 \<le> f" "f \<le> 1"
  shows "fold (\<lambda>m f. Dilation_Update m SIM_DELTA_SECONDS DilationConfig_default f) ms f = 1"
proof -
  let ?U = "\<lambda>m f. Dilation_Update m SIM_DELTA_SECONDS DilationConfig_default f"
  obtain ms' m where ms: "ms = ms' @ [m]" using assms(1) by (cases ms rule: rev_cases) auto

  have r: "0 \<le> fold ?U ms' f" "fold ?U ms' f \<le> 1" "fold ?U ms' f = 1 \<or> 1 - fold ?U ms' f \<le> (20 / 21) ^ length ms'"
    using recovery_run [of ms' f] assms(2-4) by (simp_all add: ms)
  have m: "ddiv m SIM_DELTA_SECONDS \<le> 1" using assms(2) by (simp add: ms)
  have "(20 / 21 :: rat) ^ length ms' \<le> (20 / 21) ^ 299" using assms(1) by (intro power_decreasing) (simp_all add: ms)
  also have "\<dots> < 5 / 10 ^ 7" by (simp add: power_divide)
  finally have small: "fold ?U ms' f = 1 \<or> 1 - fold ?U ms' f < 5 / 10 ^ 7" using r(3) by linarith
  have "?U m (fold ?U ms' f) = 1"
    using recovery_step [OF m r(1,2)] recovered_stays [OF m] small by auto
  then show ?thesis by (simp add: ms)
qed

theorem dilation_recovers_witness:
  "fold (\<lambda>m f. Dilation_Update m SIM_DELTA_SECONDS DilationConfig_default f) (replicate 300 (1 / 60)) (1 / 10) = 1"
proof (rule dilation_recovers)
  have "ddiv (1 / 60) SIM_DELTA_SECONDS \<le> 1" by code_simp
  then show "\<forall>m \<in> set (replicate 300 (1 / 60)). ddiv m SIM_DELTA_SECONDS \<le> 1" by simp
qed simp_all

section \<open>The frame loop\<close>

lemma delta_bounds: "\<bar>SIM_DELTA_SECONDS - 1 / 30\<bar> \<le> 1 / 2 ^ 53" "0 < SIM_DELTA_SECONDS"
proof -
  have "SIM_DELTA_SECONDS = rnd (1 / 30)"
    using rnd_of_int [of 30] by (simp add: SIM_DELTA_SECONDS_def ddiv_def double_of_int_def SIM_TICKS_PER_SECOND_def)
  then show "\<bar>SIM_DELTA_SECONDS - 1 / 30\<bar> \<le> 1 / 2 ^ 53" using rnd_err [of "1 / 30"] by simp
  then show "0 < SIM_DELTA_SECONDS" unfolding abs_le_iff by simp
qed

text \<open>One frame: at most five steps, each of the same length up to the rounding of the subtraction.\<close>

lemma consume_loop_effect:
  assumes "0 \<le> fs_accumulator s" "fs_accumulator s \<le> 1" "fs_stepsThisFrame s \<le> 5"
  shows "\<exists>j. j + fs_stepsThisFrame s \<le> 5 \<and>
    consume_loop s = s\<lparr>fs_accumulator := fs_accumulator (consume_loop s),
      fs_simTickCount := fs_simTickCount s + of_nat j, fs_stepsThisFrame := fs_stepsThisFrame s + j\<rparr> \<and>
    \<bar>fs_accumulator (consume_loop s) - (fs_accumulator s - of_nat j * SIM_DELTA_SECONDS)\<bar> \<le> of_nat j / 2 ^ 53 \<and>
    0 \<le> fs_accumulator (consume_loop s) \<and>
    (fs_accumulator (consume_loop s) < SIM_DELTA_SECONDS \<or> j + fs_stepsThisFrame s = 5)"
  using assms
proof (induction s rule: consume_loop.induct)
  case (1 s)
  let ?D = SIM_DELTA_SECONDS
  show ?case
  proof (cases "fst (ConsumeStep s)")
    case False
    then have "snd (ConsumeStep s) = s" by (simp add: ConsumeStep_def split: if_splits)
    with False have l: "consume_loop s = s" by (simp add: consume_loop.simps [of s] case_prod_beta)
    from False 1(4) have "fs_accumulator s < ?D \<or> fs_stepsThisFrame s = 5"
      by (auto simp: ConsumeStep_def MAX_CATCH_UP_TICKS_PER_FRAME_def split: if_splits)
    with 1(2-4) show ?thesis unfolding l by (intro exI [of _ 0]) simp
  next
    case True
    define t where "t = snd (ConsumeStep s)"
    have guard: "\<not> fs_stepsThisFrame s \<ge> 5" "?D \<le> fs_accumulator s"
      using True by (auto simp: ConsumeStep_def MAX_CATCH_UP_TICKS_PER_FRAME_def split: if_splits)
    have t: "t = s\<lparr>fs_accumulator := dsub (fs_accumulator s) ?D, fs_simTickCount := fs_simTickCount s + 1,
        fs_stepsThisFrame := fs_stepsThisFrame s + 1\<rparr>"
      using True by (auto simp: t_def ConsumeStep_def split: if_splits)
    have l: "consume_loop s = consume_loop t" using True by (simp add: consume_loop.simps [of s] case_prod_beta t_def)
    have e: "\<bar>dsub (fs_accumulator s) ?D - (fs_accumulator s - ?D)\<bar> \<le> 1 / 2 ^ 53"
      unfolding dsub_def using guard(2) 1(3) delta_bounds(2) by (intro rnd_err) (simp add: abs_le_iff)
    have lo: "0 \<le> dsub (fs_accumulator s) ?D"
      using rnd_bounds(3) [of "fs_accumulator s - ?D"] guard(2) by (simp add: dsub_def)
    have "1 / 2 ^ 53 \<le> ?D" using delta_bounds(1) unfolding abs_le_iff by simp
    then have hi: "dsub (fs_accumulator s) ?D \<le> 1" using e 1(3) unfolding abs_le_iff by linarith
    have "\<exists>j. j + fs_stepsThisFrame t \<le> 5 \<and>
      consume_loop t = t\<lparr>fs_accumulator := fs_accumulator (consume_loop t),
        fs_simTickCount := fs_simTickCount t + of_nat j, fs_stepsThisFrame := fs_stepsThisFrame t + j\<rparr> \<and>
      \<bar>fs_accumulator (consume_loop t) - (fs_accumulator t - of_nat j * ?D)\<bar> \<le> of_nat j / 2 ^ 53 \<and>
      0 \<le> fs_accumulator (consume_loop t) \<and>
      (fs_accumulator (consume_loop t) < ?D \<or> j + fs_stepsThisFrame t = 5)"
      by (rule 1(1) [of "fst (ConsumeStep s)" t]) (use True lo hi guard(1) in \<open>simp_all add: t t_def [symmetric] prod_eq_iff\<close>)
    then obtain j where j: "j + fs_stepsThisFrame t \<le> 5"
      "consume_loop t = t\<lparr>fs_accumulator := fs_accumulator (consume_loop t),
        fs_simTickCount := fs_simTickCount t + of_nat j, fs_stepsThisFrame := fs_stepsThisFrame t + j\<rparr>"
      "\<bar>fs_accumulator (consume_loop t) - (fs_accumulator t - of_nat j * ?D)\<bar> \<le> of_nat j / 2 ^ 53"
      "0 \<le> fs_accumulator (consume_loop t)"
      "fs_accumulator (consume_loop t) < ?D \<or> j + fs_stepsThisFrame t = 5"
      by blast
    have "consume_loop s = s\<lparr>fs_accumulator := fs_accumulator (consume_loop s),
        fs_simTickCount := fs_simTickCount s + of_nat (Suc j), fs_stepsThisFrame := fs_stepsThisFrame s + Suc j\<rparr>"
      unfolding l by (subst j(2)) (simp add: t)
    moreover have "\<bar>fs_accumulator (consume_loop s) - (fs_accumulator s - of_nat (Suc j) * ?D)\<bar> \<le> of_nat (Suc j) / 2 ^ 53"
      using j(3) e unfolding l abs_le_iff by (simp add: t field_simps)
    ultimately show ?thesis using j(1,4,5) unfolding l by (intro exI [of _ "Suc j"]) (simp add: t)
  qed
qed

section \<open>Runs of the clock\<close>

datatype ClockOp = Frame u64 | TickCost double

fun clock_step :: "ClockOp \<Rightarrow> FixedStepAccumulator \<Rightarrow> FixedStepAccumulator" where
  "clock_step (Frame now) s = consume_loop (FixedStep_Tick now s)"
| "clock_step (TickCost m) s = snd (ReportTickCost m s)"

text \<open>The dilated time that entered the clock, the number of frames, and counter readings that do not
  go backwards.\<close>

fun total_intake :: "ClockOp list \<Rightarrow> FixedStepAccumulator \<Rightarrow> rat" where
  "total_intake [] s = 0"
| "total_intake (op # ops) s =
     (case op of Frame now \<Rightarrow> frame_intake now s | TickCost m \<Rightarrow> 0) + total_intake ops (clock_step op s)"

fun readings_ok :: "ClockOp list \<Rightarrow> FixedStepAccumulator \<Rightarrow> bool" where
  "readings_ok [] s = True"
| "readings_ok (op # ops) s =
     ((case op of Frame now \<Rightarrow> 0 \<le> sint (now - fs_last s) | TickCost m \<Rightarrow> True) \<and> readings_ok ops (clock_step op s))"

fun frame_count :: "ClockOp list \<Rightarrow> nat" where
  "frame_count [] = 0"
| "frame_count (op # ops) = (case op of Frame now \<Rightarrow> 1 | TickCost m \<Rightarrow> 0) + frame_count ops"

definition clock_ok :: "FixedStepAccumulator \<Rightarrow> bool" where
  "clock_ok s \<longleftrightarrow> 0 \<le> fs_accumulator s \<and> 0 < sint (fs_freq s) \<and> 0 \<le> fs_dilation s \<and> fs_dilation s \<le> 1 \<and>
     0 \<le> dc_floor (fs_cfg s) \<and> dc_floor (fs_cfg s) \<le> 1"

lemma rnd_nonneg: "0 \<le> x \<Longrightarrow> 0 \<le> rnd x"
  by (rule rnd_bounds(3))

lemma rnd_le: "0 \<le> x \<Longrightarrow> rnd x \<le> x * (1 + 1 / 2 ^ 53)"
  using rnd_bounds(2) [of x] by (simp add: distrib_left)

lemma ratio_nonneg: "0 \<le> a \<Longrightarrow> 0 \<le> b \<Longrightarrow> 0 \<le> ddiv (double_of_int a) (double_of_int b)"
  by (simp add: ddiv_def double_of_int_def rnd_nonneg)

lemma frame_intake_bounds:
  assumes "clock_ok s" "0 \<le> sint (now - fs_last s)"
  shows "0 \<le> frame_intake now s" "frame_intake now s \<le> 5 * SIM_DELTA_SECONDS + 1 / 2 ^ 52"
proof -
  define el where "el = ddiv (double_of_int (sint (now - fs_last s))) (double_of_int (sint (fs_freq s)))"
  define M where "M = dmul SIM_DELTA_SECONDS (double_of_int (int MAX_CATCH_UP_TICKS_PER_FRAME))"
  define e where "e = (if el > M then M else el)"
  have five: "double_of_int (int MAX_CATCH_UP_TICKS_PER_FRAME) = 5"
    using rnd_of_int [of 5] by (simp add: double_of_int_def MAX_CATCH_UP_TICKS_PER_FRAME_def)
  have D: "0 \<le> SIM_DELTA_SECONDS" "SIM_DELTA_SECONDS * 5 \<le> 1" using delta_bounds unfolding abs_le_iff by auto
  have M: "0 \<le> M" "M \<le> 5 * SIM_DELTA_SECONDS + 1 / 2 ^ 53"
  proof -
    have "\<bar>rnd (SIM_DELTA_SECONDS * 5) - SIM_DELTA_SECONDS * 5\<bar> \<le> 1 / 2 ^ 53" using D by (intro rnd_err) simp
    then show "M \<le> 5 * SIM_DELTA_SECONDS + 1 / 2 ^ 53" unfolding M_def dmul_def five abs_le_iff by linarith
    show "0 \<le> M" using rnd_nonneg [of "SIM_DELTA_SECONDS * 5"] D by (simp add: M_def dmul_def five)
  qed
  have el: "0 \<le> el" unfolding el_def using assms by (intro ratio_nonneg) (simp_all add: clock_ok_def)
  have e: "0 \<le> e" "e \<le> 5 * SIM_DELTA_SECONDS + 1 / 2 ^ 53" using M el by (auto simp: e_def)
  have i: "frame_intake now s = rnd (e * fs_dilation s)"
    by (simp add: frame_intake_def Let_def el_def M_def e_def dmul_def)
  have "0 \<le> e * fs_dilation s" "e * fs_dilation s \<le> e"
    using e(1) assms(1) mult_left_mono [of "fs_dilation s" 1 e] by (auto simp: clock_ok_def)
  moreover from this have "e * fs_dilation s \<le> 1" using e(2) D(2) delta_bounds unfolding abs_le_iff by simp
  ultimately show "0 \<le> frame_intake now s" "frame_intake now s \<le> 5 * SIM_DELTA_SECONDS + 1 / 2 ^ 52"
    using rnd_nonneg [of "e * fs_dilation s"] rnd_err [of "e * fs_dilation s"] e(2) unfolding i abs_le_iff by simp_all
qed

text \<open>One frame keeps the books to within \<open>2 ^ -50\<close> seconds.\<close>

lemma frame_effect:
  assumes ok: "clock_ok s" and now: "0 \<le> sint (now - fs_last s)" and small: "fs_accumulator s \<le> 1 / 2"
  shows "\<exists>j \<le> 5. clock_ok (clock_step (Frame now) s) \<and>
    fs_simTickCount (clock_step (Frame now) s) = fs_simTickCount s + of_nat j \<and> fs_stepsThisFrame (clock_step (Frame now) s) = j \<and>
    \<bar>fs_accumulator (clock_step (Frame now) s) - (fs_accumulator s + frame_intake now s - of_nat j * SIM_DELTA_SECONDS)\<bar> \<le> 1 / 2 ^ 50 \<and>
    fs_accumulator (clock_step (Frame now) s) \<le> max SIM_DELTA_SECONDS (fs_accumulator s + 1 / 2 ^ 49)"
proof -
  let ?D = SIM_DELTA_SECONDS and ?i = "frame_intake now s"
  define t where "t = FixedStep_Tick now s"
  note i = frame_intake_bounds [OF ok now]
  have a0: "0 \<le> fs_accumulator s" using ok by (simp add: clock_ok_def)
  have D: "?D * 5 \<le> 1 / 5" using delta_bounds unfolding abs_le_iff by simp
  have t: "fs_accumulator t = rnd (fs_accumulator s + ?i)" "fs_stepsThisFrame t = 0" "fs_simTickCount t = fs_simTickCount s"
    "fs_freq t = fs_freq s" "fs_dilation t = fs_dilation s" "fs_cfg t = fs_cfg s"
    by (simp_all add: t_def FixedStep_Tick_def dadd_def)
  have "fs_accumulator s + ?i \<le> 9 / 10" using i(2) D small by simp
  then have e: "\<bar>fs_accumulator t - (fs_accumulator s + ?i)\<bar> \<le> 1 / 2 ^ 53"
    using a0 i(1) unfolding t by (intro rnd_err) (simp add: abs_le_iff)
  have r: "0 \<le> fs_accumulator t" "fs_accumulator t \<le> 1"
    using e \<open>fs_accumulator s + ?i \<le> 9 / 10\<close> rnd_nonneg [of "fs_accumulator s + ?i"] a0 i(1) unfolding abs_le_iff t(1) by simp_all
  obtain j where j: "j \<le> 5"
    "consume_loop t = t\<lparr>fs_accumulator := fs_accumulator (consume_loop t),
      fs_simTickCount := fs_simTickCount t + of_nat j, fs_stepsThisFrame := j\<rparr>"
    "\<bar>fs_accumulator (consume_loop t) - (fs_accumulator t - of_nat j * ?D)\<bar> \<le> of_nat j / 2 ^ 53"
    "0 \<le> fs_accumulator (consume_loop t)" "fs_accumulator (consume_loop t) < ?D \<or> j = 5"
    using consume_loop_effect [OF r] t(2) by auto
  have sel: "fs_freq (consume_loop t) = fs_freq s" "fs_dilation (consume_loop t) = fs_dilation s" "fs_cfg (consume_loop t) = fs_cfg s"
    "fs_simTickCount (consume_loop t) = fs_simTickCount s + of_nat j" "fs_stepsThisFrame (consume_loop t) = j"
    by (subst j(2); simp add: t)+
  have "(of_nat j :: rat) / 2 ^ 53 \<le> 5 / 2 ^ 53" using j(1) by (intro divide_right_mono) simp_all
  then have bal: "\<bar>fs_accumulator (consume_loop t) - (fs_accumulator s + ?i - of_nat j * ?D)\<bar> \<le> 1 / 2 ^ 50"
    using e j(3) unfolding abs_le_iff by (simp add: field_simps)
  have "fs_accumulator (consume_loop t) \<le> max ?D (fs_accumulator s + 1 / 2 ^ 49)"
  proof (cases "fs_accumulator (consume_loop t) < ?D")
    case False
    with j(5) have "j = 5" by simp
    with bal i(2) show ?thesis unfolding abs_le_iff by (simp add: le_max_iff_disj)
  qed simp
  with bal sel j(1,4) ok show ?thesis by (intro exI [of _ j]) (simp add: clock_ok_def t_def)
qed

lemma clock_run:
  assumes "clock_ok s" "readings_ok ops s" "fs_accumulator s \<le> SIM_DELTA_SECONDS + of_nat k / 2 ^ 49" "k + frame_count ops \<le> 2 ^ 40"
  shows "\<exists>n \<le> 5 * frame_count ops. clock_ok (fold clock_step ops s) \<and>
    fs_simTickCount (fold clock_step ops s) = fs_simTickCount s + of_nat n \<and>
    \<bar>fs_accumulator s + total_intake ops s - (of_nat n * SIM_DELTA_SECONDS + fs_accumulator (fold clock_step ops s))\<bar>
      \<le> of_nat (frame_count ops) / 2 ^ 50 \<and>
    fs_accumulator (fold clock_step ops s) \<le> SIM_DELTA_SECONDS + of_nat (k + frame_count ops) / 2 ^ 49"
  using assms
proof (induction ops arbitrary: s k)
  case Nil
  then show ?case by simp
next
  case (Cons op ops)
  let ?D = SIM_DELTA_SECONDS
  show ?case
  proof (cases op)
    case (TickCost m)
    let ?s = "clock_step op s"
    have f: "dc_floor (fs_cfg s) \<le> fs_dilation ?s" "fs_dilation ?s \<le> 1"
      using Dilation_Update_range [of "fs_cfg s" m ?D "fs_dilation s"] Cons.prems(1)
      by (simp_all add: TickCost ReportTickCost_def Let_def clock_ok_def)
    have "clock_ok ?s" using Cons.prems(1) f by (simp add: TickCost ReportTickCost_def Let_def clock_ok_def)
    moreover have "fs_accumulator ?s = fs_accumulator s" "fs_simTickCount ?s = fs_simTickCount s"
      by (simp_all add: TickCost ReportTickCost_def Let_def)
    ultimately show ?thesis using Cons.IH [of ?s k] Cons.prems by (simp add: TickCost del: clock_step.simps)
  next
    case (Frame now)
    let ?s = "clock_step op s"
    have now: "0 \<le> sint (now - fs_last s)" and rest: "readings_ok ops ?s" using Cons.prems(2) by (simp_all add: Frame)
    have k: "(of_nat k :: rat) \<le> 2 ^ 40" using Cons.prems(4) of_nat_mono [of k "2 ^ 40", where 'a = rat] by simp
    have "of_nat k / 2 ^ 49 \<le> (2 :: rat) ^ 40 / 2 ^ 49" using k by (intro divide_right_mono) simp_all
    then have small: "fs_accumulator s \<le> 1 / 2" using Cons.prems(3) delta_bounds(1) unfolding abs_le_iff by simp
    obtain j where j: "j \<le> 5" "clock_ok ?s" "fs_simTickCount ?s = fs_simTickCount s + of_nat j"
      "\<bar>fs_accumulator ?s - (fs_accumulator s + frame_intake now s - of_nat j * ?D)\<bar> \<le> 1 / 2 ^ 50"
      "fs_accumulator ?s \<le> max ?D (fs_accumulator s + 1 / 2 ^ 49)"
      using frame_effect [OF Cons.prems(1) now small] unfolding Frame by blast
    have "fs_accumulator ?s \<le> ?D + of_nat (Suc k) / 2 ^ 49"
      using j(5) Cons.prems(3) by (auto simp: le_max_iff_disj add_divide_distrib)
    moreover have "Suc k + frame_count ops \<le> 2 ^ 40" using Cons.prems(4) by (simp add: Frame)
    ultimately obtain n where n: "n \<le> 5 * frame_count ops" "clock_ok (fold clock_step ops ?s)"
      "fs_simTickCount (fold clock_step ops ?s) = fs_simTickCount ?s + of_nat n"
      "\<bar>fs_accumulator ?s + total_intake ops ?s - (of_nat n * ?D + fs_accumulator (fold clock_step ops ?s))\<bar> \<le> of_nat (frame_count ops) / 2 ^ 50"
      "fs_accumulator (fold clock_step ops ?s) \<le> ?D + of_nat (Suc k + frame_count ops) / 2 ^ 49"
      using Cons.IH [OF j(2) rest] by blast
    have "\<bar>fs_accumulator s + total_intake (op # ops) s - (of_nat (j + n) * ?D + fs_accumulator (fold clock_step (op # ops) s))\<bar>
        \<le> of_nat (frame_count (op # ops)) / 2 ^ 50"
      using j(4) n(4) unfolding abs_le_iff by (simp add: Frame distrib_right add_divide_distrib del: clock_step.simps)
    then show ?thesis using n j(1,3) by (intro exI [of _ "j + n"]) (simp add: Frame del: clock_step.simps)
  qed
qed

text \<open>C40: No time is lost or invented.  From a start, through any number of frames up to \<open>2 ^ 40\<close> with
  any pauses between them and any tick costs reported in between, the dilated time that entered the
  clock is the number of steps run times the step length plus what is left in the accumulator,
  to within \<open>2 ^ -50\<close> seconds per frame; a frame runs at most five steps, what is left stays below
  one step plus that rounding, and the dilation factor stays between 0 and 1.\<close>
theorem clock_conserves_time:
  assumes "clock_ok (FixedStep_Start freq now s)" "readings_ok ops (FixedStep_Start freq now s)" "frame_count ops \<le> 2 ^ 40"
  shows "let s' = fold clock_step ops (FixedStep_Start freq now s)
    in \<exists>n \<le> 5 * frame_count ops. fs_simTickCount s' = of_nat n \<and>
      \<bar>total_intake ops (FixedStep_Start freq now s) - (of_nat n * SIM_DELTA_SECONDS + fs_accumulator s')\<bar> \<le> of_nat (frame_count ops) / 2 ^ 50 \<and>
      0 \<le> fs_accumulator s' \<and> fs_accumulator s' \<le> SIM_DELTA_SECONDS + of_nat (frame_count ops) / 2 ^ 49 \<and>
      0 \<le> fs_dilation s' \<and> fs_dilation s' \<le> 1"
  using clock_run [of "FixedStep_Start freq now s" ops 0] assms delta_bounds(2)
  by (auto simp: Let_def clock_ok_def FixedStep_Start_def)

definition sample_clock :: FixedStepAccumulator where
  "sample_clock = \<lparr>fs_freq = 0, fs_last = 0, fs_accumulator = 0, fs_simTickCount = 0, fs_stepsThisFrame = 0,
     fs_dilation = DilationController_new, fs_cfg = DilationConfig_default\<rparr>"

lemma consume_loop_last: "fs_last (consume_loop s) = fs_last s"
proof (induction s rule: consume_loop.induct)
  case (1 s)
  have l: "fs_last (snd (ConsumeStep s)) = fs_last s" by (simp add: ConsumeStep_def)
  show ?case
  proof (cases "fst (ConsumeStep s)")
    case True
    then have "consume_loop s = consume_loop (snd (ConsumeStep s))" by (simp add: consume_loop.simps [of s] case_prod_beta)
    moreover have "(True, snd (ConsumeStep s)) = ConsumeStep s" using True by (simp add: prod_eq_iff)
    ultimately show ?thesis using 1 [of True "snd (ConsumeStep s)"] l by simp
  next
    case False
    with l show ?thesis by (simp add: consume_loop.simps [of s] case_prod_beta)
  qed
qed

lemma clock_step_last: "fs_last (clock_step (Frame now) s) = now" "fs_last (clock_step (TickCost m) s) = fs_last s"
  by (simp_all add: consume_loop_last FixedStep_Tick_def ReportTickCost_def Let_def)

theorem clock_conserves_time_witness:
  "let ops = [Frame 100050, TickCost (1 / 10), Frame 2000000000] ; s' = fold clock_step ops (FixedStep_Start 1000000 50 sample_clock)
   in fs_accumulator s' \<le> SIM_DELTA_SECONDS + 2 / 2 ^ 49"
proof -
  let ?ops = "[Frame 100050, TickCost (1 / 10), Frame 2000000000]" and ?s = "FixedStep_Start 1000000 50 sample_clock"
  have "clock_ok ?s" by code_simp
  moreover have "readings_ok ?ops ?s"
    by (simp add: clock_step_last FixedStep_Start_def del: clock_step.simps)
  moreover have "frame_count ?ops \<le> 2 ^ 40" by simp
  ultimately have "\<exists>n \<le> 5 * frame_count ?ops. fs_accumulator (fold clock_step ?ops ?s) \<le> SIM_DELTA_SECONDS + of_nat (frame_count ?ops) / 2 ^ 49"
    using clock_conserves_time [of 1000000 50 sample_clock ?ops] unfolding Let_def by blast
  then show ?thesis unfolding Let_def by (simp del: clock_step.simps)
qed

text \<open>The interpolation fraction can be 1.  It is documented to lie in [0, 1), but with a counter of
  24 MHz and three frames of 30, 33.3 and 3.3 ms the accumulator ends one rounding below a step, so that
  no step is taken, and the quotient rounds to the single-precision 1.\<close>
theorem alpha_reaches_one:
  "let s = fold clock_step [Frame 720000, Frame 1520000, Frame 1600000] (FixedStep_Start 24000000 0 sample_clock)
   in \<not> fst (ConsumeStep s) \<and> fs_accumulator s < SIM_DELTA_SECONDS \<and> GetAlpha s = 0x3F800000"
  by code_simp

end
