(* ===== verification/Ecs.thy ===== *)
theory Ecs
  imports ER_Prelude "HOL-Library.Monad_Syntax"
begin

text \<open>
  \<open>NeuronCore/Ecs.h\<close>: the entity-component store of the simulation.  Component types are erased
  in the code (\<open>IComponentStorage\<close>); here one type \<open>'c\<close> carries the values of all of
  them.  A failing \<open>assert\<close> is the outcome \<open>None\<close>.  A component storage is a sparse set
  that is shown to refine a finite map (locale \<open>component_map\<close>), and the world above it keeps
  the masks, the free list and the storages consistent.
\<close>

section \<open>Handles\<close>

type_synonym EntityHandle = u32

definition INDEX_BITS :: nat where "INDEX_BITS = 20"
definition GEN_BITS :: nat where "GEN_BITS = 12"
definition INDEX_MASK :: u32 where "INDEX_MASK = push_bit INDEX_BITS 1 - 1"
definition MAX_INDEX :: u32 where "MAX_INDEX = INDEX_MASK"
definition MAX_GEN :: u32 where "MAX_GEN = push_bit GEN_BITS 1 - 1"

definition Index :: "EntityHandle \<Rightarrow> u32" where "Index h = h AND INDEX_MASK"
definition Generation :: "EntityHandle \<Rightarrow> u32" where "Generation h = drop_bit INDEX_BITS h"
definition IsNull :: "EntityHandle \<Rightarrow> bool" where "IsNull h \<longleftrightarrow> h = 0"

definition Make :: "u32 \<Rightarrow> u32 \<Rightarrow> EntityHandle option" where
  "Make idx gen = (if idx \<le> MAX_INDEX \<and> gen \<le> MAX_GEN then Some (push_bit INDEX_BITS gen OR idx) else None)"

section \<open>A component storage\<close>

definition UINT32_MAX :: u32 where "UINT32_MAX = 0xFFFFFFFF"
definition MAX_COMPONENT_TYPES :: nat where "MAX_COMPONENT_TYPES = 64"

record 'c ComponentStorage =
  sparse :: "u32 list"
  dense :: "'c list"
  denseToEntity :: "u32 list"

definition Storage_new :: "'c ComponentStorage" where
  "Storage_new = \<lparr>sparse = [], dense = [], denseToEntity = []\<rparr>"

definition EnsureSparse :: "u32 \<Rightarrow> 'c ComponentStorage \<Rightarrow> 'c ComponentStorage" where
  "EnsureSparse entityIdx s =
     (if unat entityIdx \<ge> length (sparse s)
      then s\<lparr>sparse := sparse s @ replicate (unat entityIdx + 1 - length (sparse s)) UINT32_MAX\<rparr>
      else s)"

text \<open>\<open>d\<close> is the default-constructed component.\<close>

definition Storage_Insert :: "'c \<Rightarrow> u32 \<Rightarrow> 'c ComponentStorage \<Rightarrow> 'c ComponentStorage option" where
  "Storage_Insert d entityIdx s =
     (let s = EnsureSparse entityIdx s
      in if sparse s ! unat entityIdx \<noteq> UINT32_MAX then None
         else Some (s\<lparr>sparse := (sparse s)[unat entityIdx := of_nat (length (dense s))],
                      dense := dense s @ [d],
                      denseToEntity := denseToEntity s @ [entityIdx]\<rparr>))"

definition Storage_Remove :: "u32 \<Rightarrow> 'c ComponentStorage \<Rightarrow> (u32 \<times> 'c ComponentStorage) option" where
  "Storage_Remove entityIdx s =
     (if \<not> (unat entityIdx < length (sparse s) \<and> sparse s ! unat entityIdx \<noteq> UINT32_MAX) then None
      else
        (let di = sparse s ! unat entityIdx;
             lastDi = of_nat (length (dense s)) - 1;
             (movedEntity, s) =
               (if di \<noteq> lastDi then
                  (let movedEntity = denseToEntity s ! unat lastDi
                   in (movedEntity,
                       s\<lparr>dense := (dense s)[unat di := dense s ! unat lastDi],
                         denseToEntity := (denseToEntity s)[unat di := movedEntity],
                         sparse := (sparse s)[unat movedEntity := di]\<rparr>))
                else (UINT32_MAX, s))
         in Some (movedEntity,
              s\<lparr>dense := butlast (dense s), denseToEntity := butlast (denseToEntity s),
                sparse := (sparse s)[unat entityIdx := UINT32_MAX]\<rparr>)))"

definition Storage_Get :: "u32 \<Rightarrow> 'c ComponentStorage \<Rightarrow> 'c option" where
  "Storage_Get entityIdx s =
     (if unat entityIdx \<ge> length (sparse s) \<or> sparse s ! unat entityIdx = UINT32_MAX then None
      else Some (dense s ! unat (sparse s ! unat entityIdx)))"

text \<open>A write through the reference that \<open>GetRef\<close> returns.\<close>

definition Storage_SetRef :: "u32 \<Rightarrow> 'c \<Rightarrow> 'c ComponentStorage \<Rightarrow> 'c ComponentStorage option" where
  "Storage_SetRef entityIdx v s =
     (if unat entityIdx < length (sparse s) \<and> sparse s ! unat entityIdx \<noteq> UINT32_MAX
      then Some (s\<lparr>dense := (dense s)[unat (sparse s ! unat entityIdx) := v]\<rparr>) else None)"

section \<open>The world\<close>

record EntityRecord =
  er_generation :: u32
  er_componentMask :: u64
  er_alive :: bool

record 'c World =
  m_records :: "EntityRecord list"
  m_freeList :: "u32 list"
  m_storages :: "'c ComponentStorage option list"

definition EntityRecord_new :: EntityRecord where
  "EntityRecord_new = \<lparr>er_generation = 0, er_componentMask = 0, er_alive = False\<rparr>"

definition World_new :: "'c World" where
  "World_new = \<lparr>m_records = [EntityRecord_new], m_freeList = [], m_storages = replicate MAX_COMPONENT_TYPES None\<rparr>"

definition RegisterComponent :: "nat \<Rightarrow> 'c World \<Rightarrow> 'c World option" where
  "RegisterComponent cid w =
     (if cid < MAX_COMPONENT_TYPES \<and> m_storages w ! cid = None
      then Some (w\<lparr>m_storages := (m_storages w)[cid := Some Storage_new]\<rparr>) else None)"

definition CreateEntity :: "'c World \<Rightarrow> (EntityHandle \<times> 'c World) option" where
  "CreateEntity w = do {
     (idx, w) \<leftarrow> (if m_freeList w \<noteq> [] then Some (last (m_freeList w), w\<lparr>m_freeList := butlast (m_freeList w)\<rparr>)
       else let idx = of_nat (length (m_records w))
            in if idx \<le> MAX_INDEX then Some (idx, w\<lparr>m_records := m_records w @ [EntityRecord_new]\<rparr>) else None);
     let rec = (m_records w ! unat idx)\<lparr>er_alive := True, er_componentMask := 0\<rparr>;
     h \<leftarrow> Make idx (er_generation rec);
     Some (h, w\<lparr>m_records := (m_records w)[unat idx := rec]\<rparr>)
   }"

definition IsAlive :: "'c World \<Rightarrow> EntityHandle \<Rightarrow> bool" where
  "IsAlive w e \<longleftrightarrow>
     (let idx = Index e
      in \<not> (idx = 0 \<or> unat idx \<ge> length (m_records w)) \<and>
         er_alive (m_records w ! unat idx) \<and> er_generation (m_records w ! unat idx) = Generation e)"

text \<open>The loop over the component types in \<open>DestroyEntity\<close>.\<close>

primrec remove_components :: "u64 \<Rightarrow> u32 \<Rightarrow> nat list \<Rightarrow> 'c World \<Rightarrow> 'c World option" where
  "remove_components cmask idx [] w = Some w"
| "remove_components cmask idx (cid # cids) w =
     (if drop_bit cid cmask AND 1 \<noteq> 0 then
        (case m_storages w ! cid of
           None \<Rightarrow> remove_components cmask idx cids w
         | Some s \<Rightarrow> (case Storage_Remove idx s of
             None \<Rightarrow> None
           | Some (_, s) \<Rightarrow> remove_components cmask idx cids (w\<lparr>m_storages := (m_storages w)[cid := Some s]\<rparr>)))
      else remove_components cmask idx cids w)"

definition DestroyEntity :: "EntityHandle \<Rightarrow> 'c World \<Rightarrow> 'c World option" where
  "DestroyEntity e w =
     (if \<not> IsAlive w e then Some w
      else
        (let rec = m_records w ! unat (Index e)
         in case remove_components (er_componentMask rec) (Index e) [0..<MAX_COMPONENT_TYPES] w of
              None \<Rightarrow> None
            | Some w \<Rightarrow>
                Some (w\<lparr>m_records := (m_records w)[unat (Index e) := rec\<lparr>er_componentMask := 0, er_alive := False,
                          er_generation := (er_generation rec + 1) AND MAX_GEN\<rparr>],
                        m_freeList := m_freeList w @ [Index e]\<rparr>)))"

text \<open>\<open>AddComponent<T>\<close> returns a reference that its callers initialise: \<open>d\<close> is the
  default value, to be overwritten by \<open>SetComponent\<close>.\<close>

definition AddComponent :: "nat \<Rightarrow> 'c \<Rightarrow> EntityHandle \<Rightarrow> 'c World \<Rightarrow> 'c World option" where
  "AddComponent cid d e w =
     (if \<not> IsAlive w e then None
      else
        (let rec = m_records w ! unat (Index e)
         in if er_componentMask rec AND push_bit cid 1 \<noteq> 0 then None
            else (case m_storages w ! cid of
                    None \<Rightarrow> None
                  | Some s \<Rightarrow> (case Storage_Insert d (Index e) s of
                      None \<Rightarrow> None
                    | Some s \<Rightarrow>
                        Some (w\<lparr>m_storages := (m_storages w)[cid := Some s],
                                m_records := (m_records w)[unat (Index e) :=
                                  rec\<lparr>er_componentMask := er_componentMask rec OR push_bit cid 1\<rparr>]\<rparr>)))))"

definition RemoveComponent :: "nat \<Rightarrow> EntityHandle \<Rightarrow> 'c World \<Rightarrow> 'c World option" where
  "RemoveComponent cid e w =
     (if \<not> IsAlive w e then None
      else
        (let rec = m_records w ! unat (Index e)
         in if er_componentMask rec AND push_bit cid 1 = 0 then None
            else (case m_storages w ! cid of
                    None \<Rightarrow> None
                  | Some s \<Rightarrow> (case Storage_Remove (Index e) s of
                      None \<Rightarrow> None
                    | Some (_, s) \<Rightarrow>
                        Some (w\<lparr>m_storages := (m_storages w)[cid := Some s],
                                m_records := (m_records w)[unat (Index e) :=
                                  rec\<lparr>er_componentMask := er_componentMask rec AND NOT (push_bit cid 1)\<rparr>]\<rparr>)))))"

definition GetComponent :: "'c World \<Rightarrow> nat \<Rightarrow> EntityHandle \<Rightarrow> 'c option" where
  "GetComponent w cid e =
     (if \<not> IsAlive w e then None
      else (case m_storages w ! cid of None \<Rightarrow> None | Some s \<Rightarrow> Storage_Get (Index e) s))"

text \<open>A write through the pointer that \<open>GetComponent\<close> or \<open>AddComponent\<close> returns.\<close>

definition SetComponent :: "nat \<Rightarrow> 'c \<Rightarrow> EntityHandle \<Rightarrow> 'c World \<Rightarrow> 'c World option" where
  "SetComponent cid v e w =
     (if \<not> IsAlive w e then None
      else (case m_storages w ! cid of
              None \<Rightarrow> None
            | Some s \<Rightarrow> (case Storage_SetRef (Index e) v s of
                None \<Rightarrow> None
              | Some s \<Rightarrow> Some (w\<lparr>m_storages := (m_storages w)[cid := Some s]\<rparr>))))"

definition HasComponent :: "'c World \<Rightarrow> nat \<Rightarrow> EntityHandle \<Rightarrow> bool" where
  "HasComponent w cid e \<longleftrightarrow>
     IsAlive w e \<and> drop_bit cid (er_componentMask (m_records w ! unat (Index e))) AND 1 \<noteq> 0"

text \<open>\<open>ForEach<Ts...>(fn)\<close>: \<open>fn\<close> gets the index of each entity that has the listed
  components when the loop reaches it, and may change the world.\<close>

definition required_mask :: "nat list \<Rightarrow> u64" where
  "required_mask cids = fold (\<lambda>cid m. m OR push_bit cid 1) cids 0"

definition visited :: "'c World \<Rightarrow> u64 \<Rightarrow> nat \<Rightarrow> bool" where
  "visited w required idx \<longleftrightarrow>
     er_alive (m_records w ! idx) \<and> er_componentMask (m_records w ! idx) AND required = required"

definition ForEach :: "nat list \<Rightarrow> (u32 \<Rightarrow> 'c World \<Rightarrow> 'c World) \<Rightarrow> 'c World \<Rightarrow> 'c World" where
  "ForEach cids fn w =
     fold (\<lambda>idx w. if visited w (required_mask cids) idx then fn (of_nat idx) w else w) [1..<length (m_records w)] w"

definition EntityCount :: "'c World \<Rightarrow> u32" where
  "EntityCount w = of_nat (length (m_records w)) - 1 - of_nat (length (m_freeList w))"

section \<open>The sparse set refines a finite map\<close>

definition storage_ok :: "'c ComponentStorage \<Rightarrow> bool" where
  "storage_ok s \<longleftrightarrow>
     length (sparse s) \<le> 2 ^ 20 \<and> length (denseToEntity s) = length (dense s) \<and>
     (\<forall>d < length (dense s). unat (denseToEntity s ! d) < length (sparse s) \<and>
        unat (sparse s ! unat (denseToEntity s ! d)) = d) \<and>
     (\<forall>i < length (sparse s). sparse s ! i \<noteq> UINT32_MAX \<longrightarrow>
        unat (sparse s ! i) < length (dense s) \<and> unat (denseToEntity s ! unat (sparse s ! i)) = i)"

locale component_map =
  fixes insert_c :: "'c \<Rightarrow> u32 \<Rightarrow> 's \<Rightarrow> 's option"
    and remove_c :: "u32 \<Rightarrow> 's \<Rightarrow> (u32 \<times> 's) option"
    and set_c :: "u32 \<Rightarrow> 'c \<Rightarrow> 's \<Rightarrow> 's option"
    and get_c :: "u32 \<Rightarrow> 's \<Rightarrow> 'c option"
    and empty_c :: 's
    and inv_c :: "'s \<Rightarrow> bool"
  assumes empty: "inv_c empty_c" "get_c i empty_c = None"
    and insert: "inv_c s \<Longrightarrow> i \<le> MAX_INDEX \<Longrightarrow> get_c i s = None \<Longrightarrow>
      \<exists>s'. insert_c d i s = Some s' \<and> inv_c s' \<and> (\<forall>j. get_c j s' = (if j = i then Some d else get_c j s))"
    and insert_present: "inv_c s \<Longrightarrow> get_c i s \<noteq> None \<Longrightarrow> insert_c d i s = None"
    and remove: "inv_c s \<Longrightarrow> get_c i s \<noteq> None \<Longrightarrow>
      \<exists>m s'. remove_c i s = Some (m, s') \<and> inv_c s' \<and> (\<forall>j. get_c j s' = (if j = i then None else get_c j s))"
    and remove_absent: "inv_c s \<Longrightarrow> get_c i s = None \<Longrightarrow> remove_c i s = None"
    and set: "inv_c s \<Longrightarrow> get_c i s \<noteq> None \<Longrightarrow>
      \<exists>s'. set_c i v s = Some s' \<and> inv_c s' \<and> (\<forall>j. get_c j s' = (if j = i then Some v else get_c j s))"
    and set_absent: "inv_c s \<Longrightarrow> get_c i s = None \<Longrightarrow> set_c i v s = None"
begin

lemma insertE:
  assumes "insert_c d i s = Some s'" "inv_c s" "i \<le> MAX_INDEX"
  obtains "get_c i s = None" "inv_c s'" "\<And>j. get_c j s' = (if j = i then Some d else get_c j s)"
proof (cases "get_c i s")
  case None
  from insert [OF assms(2,3) None, of d] assms(1) None that show ?thesis by auto
next
  case (Some c)
  with insert_present [OF assms(2), of i d] assms(1) show ?thesis by simp
qed

lemma removeE:
  assumes "remove_c i s = Some (m, s')" "inv_c s"
  obtains c where "get_c i s = Some c" "inv_c s'" "\<And>j. get_c j s' = (if j = i then None else get_c j s)"
proof (cases "get_c i s")
  case None
  with remove_absent [OF assms(2) None] assms(1) show ?thesis by simp
next
  case (Some c)
  then have "get_c i s \<noteq> None" by simp
  from remove [OF assms(2) this] assms(1) Some that show ?thesis by auto
qed

lemma setE:
  assumes "set_c i v s = Some s'" "inv_c s"
  obtains c where "get_c i s = Some c" "inv_c s'" "\<And>j. get_c j s' = (if j = i then Some v else get_c j s)"
proof (cases "get_c i s")
  case None
  with set_absent [OF assms(2) None, of v] assms(1) show ?thesis by simp
next
  case (Some c)
  then have "get_c i s \<noteq> None" by simp
  from set [OF assms(2) this, of v] assms(1) Some that show ?thesis by auto
qed

end

lemma MAX_INDEX_eq: "MAX_INDEX = 0xFFFFF" "INDEX_MASK = 0xFFFFF" "MAX_GEN = 0xFFF"
  by (simp_all add: MAX_INDEX_def INDEX_MASK_def INDEX_BITS_def MAX_GEN_def GEN_BITS_def push_bit_eq_mult)

lemma le_MAX_INDEX: "i \<le> MAX_INDEX \<longleftrightarrow> unat i < 2 ^ 20"
  by (auto simp: MAX_INDEX_eq word_le_nat_alt)

lemma storage_okD:
  assumes "storage_ok s"
  shows "length (sparse s) \<le> 2 ^ 20" "length (denseToEntity s) = length (dense s)"
    "\<And>d. d < length (dense s) \<Longrightarrow> unat (denseToEntity s ! d) < length (sparse s)"
    "\<And>d. d < length (dense s) \<Longrightarrow> unat (sparse s ! unat (denseToEntity s ! d)) = d"
    "\<And>i. i < length (sparse s) \<Longrightarrow> sparse s ! i \<noteq> UINT32_MAX \<Longrightarrow> unat (sparse s ! i) < length (dense s)"
    "\<And>i. i < length (sparse s) \<Longrightarrow> sparse s ! i \<noteq> UINT32_MAX \<Longrightarrow> unat (denseToEntity s ! unat (sparse s ! i)) = i"
  using assms unfolding storage_ok_def by blast+

lemma unat_inj: "unat (x :: 'a::len word) = unat y \<longleftrightarrow> x = y"
  by (rule word_unat_eq_iff [symmetric])

lemma dense_le_sparse:
  assumes "storage_ok s"
  shows "length (dense s) \<le> 2 ^ 20"
proof -
  note ok = storage_okD [OF assms]
  have "inj_on (\<lambda>d. unat (denseToEntity s ! d)) {..<length (dense s)}"
  proof (rule inj_onI)
    fix a b assume "a \<in> {..<length (dense s)}" "b \<in> {..<length (dense s)}"
      and "unat (denseToEntity s ! a) = unat (denseToEntity s ! b)"
    then show "a = b" using ok(4) by (metis lessThan_iff)
  qed
  then have "card ((\<lambda>d. unat (denseToEntity s ! d)) ` {..<length (dense s)}) = length (dense s)"
    by (simp add: card_image)
  moreover have "(\<lambda>d. unat (denseToEntity s ! d)) ` {..<length (dense s)} \<subseteq> {..<length (sparse s)}"
    using ok(3) by auto
  ultimately have "length (dense s) \<le> length (sparse s)"
    by (metis card_lessThan card_mono finite_lessThan)
  with ok(1) show ?thesis by simp
qed

lemma not_absent:
  assumes "storage_ok s" "d < length (dense s)"
  shows "sparse s ! unat (denseToEntity s ! d) \<noteq> UINT32_MAX"
proof
  assume "sparse s ! unat (denseToEntity s ! d) = UINT32_MAX"
  then have "d = unat UINT32_MAX" using storage_okD(4) [OF assms] by simp
  then show False using assms(2) dense_le_sparse [OF assms(1)] by (simp add: UINT32_MAX_def)
qed

lemma Storage_Get_EnsureSparse [simp]: "Storage_Get i (EnsureSparse j s) = Storage_Get i s"
proof (cases "unat j \<ge> length (sparse s)")
  case True
  then have "unat i < Suc (unat j) \<Longrightarrow> \<not> unat i < length (sparse s) \<Longrightarrow>
      (sparse s @ replicate (unat j + 1 - length (sparse s)) UINT32_MAX) ! unat i = UINT32_MAX"
    by (simp add: nth_append)
  with True show ?thesis
    by (cases "unat i < Suc (unat j)") (simp_all add: Storage_Get_def EnsureSparse_def nth_append)
next
  case False
  then show ?thesis by (simp add: EnsureSparse_def)
qed

lemma EnsureSparse_ok: "storage_ok s \<Longrightarrow> i \<le> MAX_INDEX \<Longrightarrow> storage_ok (EnsureSparse i s)"
  unfolding storage_ok_def le_MAX_INDEX EnsureSparse_def by (auto simp: nth_append not_le) 

lemma EnsureSparse_length: "unat i < length (sparse (EnsureSparse i s))"
  by (auto simp: EnsureSparse_def)

lemma Storage_Get_None_iff: "Storage_Get i s = None \<longleftrightarrow> \<not> (unat i < length (sparse s) \<and> sparse s ! unat i \<noteq> UINT32_MAX)"
  by (auto simp: Storage_Get_def not_less)

lemma insert_ok:
  assumes ok: "storage_ok s" and i: "unat i < length (sparse s)" and a: "sparse s ! unat i = UINT32_MAX"
  shows "storage_ok (s\<lparr>sparse := (sparse s)[unat i := of_nat (length (dense s))], dense := dense s @ [d], denseToEntity := denseToEntity s @ [i]\<rparr>)"
    (is "storage_ok ?s")
proof -
  note o = storage_okD [OF ok]
  have n: "unat (of_nat (length (dense s)) :: u32) = length (dense s)" using dense_le_sparse [OF ok] by simp
  have ne: "denseToEntity s ! d \<noteq> i" if "d < length (dense s)" for d
    using not_absent [OF ok that] a by auto
  have "unat (sparse ?s ! unat (denseToEntity ?s ! d)) = d" if d: "d < length (dense ?s)" for d
  proof (cases "d = length (dense s)")
    case True
    then show ?thesis using n i o(2) by (simp add: nth_append)
  next
    case False
    with d have l: "d < length (dense s)" by simp
    then have "unat (denseToEntity s ! d) \<noteq> unat i" using ne by (simp add: unat_inj)
    then show ?thesis using l o(2) o(4) [OF l] by (simp add: nth_append nth_list_update_if)
  qed
  moreover have "unat (denseToEntity ?s ! d) < length (sparse ?s)" if d: "d < length (dense ?s)" for d
    using that o(2) o(3) [of d] i by (auto simp: nth_append less_Suc_eq)
  moreover have "unat (sparse ?s ! j) < length (dense ?s) \<and> unat (denseToEntity ?s ! unat (sparse ?s ! j)) = j"
    if "j < length (sparse ?s)" "sparse ?s ! j \<noteq> UINT32_MAX" for j
  proof (cases "j = unat i")
    case True
    then show ?thesis using i n o(2) by (simp add: nth_append)
  next
    case False
    with that have "j < length (sparse s)" "sparse s ! j \<noteq> UINT32_MAX" by (simp_all add: nth_list_update_if)
    from o(5,6) [OF this] show ?thesis using False o(2) by (simp add: nth_append nth_list_update_if)
  qed
  ultimately show ?thesis using o(1,2) unfolding storage_ok_def by simp
qed

definition removed :: "u32 \<Rightarrow> 'c ComponentStorage \<Rightarrow> 'c ComponentStorage" where
  "removed i s = (let di = unat (sparse s ! unat i); n = length (dense s) - 1
     in s\<lparr>dense := butlast ((dense s)[di := dense s ! n]),
          denseToEntity := butlast ((denseToEntity s)[di := denseToEntity s ! n]),
          sparse := ((sparse s)[unat (denseToEntity s ! n) := sparse s ! unat i])[unat i := UINT32_MAX]\<rparr>)"

lemma present_index:
  assumes "storage_ok s" "unat i < length (sparse s)" "sparse s ! unat i \<noteq> UINT32_MAX"
  shows "unat (sparse s ! unat i) < length (dense s)" "denseToEntity s ! unat (sparse s ! unat i) = i"
  using storage_okD(5,6) [OF assms] by (simp_all add: unat_inj)

lemma Storage_Remove_eq:
  assumes ok: "storage_ok s" and i: "unat i < length (sparse s)" "sparse s ! unat i \<noteq> UINT32_MAX"
  shows "\<exists>m. Storage_Remove i s = Some (m, removed i s)"
proof -
  note p = present_index [OF ok i]
  have l: "length (dense s) \<noteq> 0" using p(1) by auto
  then have n: "unat (of_nat (length (dense s)) - 1 :: u32) = length (dense s) - 1"
    using dense_le_sparse [OF ok] by (subst unat_sub_if_size) (simp add: word_size Suc_le_eq)
  have r: "removed i s = s\<lparr>dense := butlast (dense s), denseToEntity := butlast (denseToEntity s), sparse := (sparse s)[unat i := UINT32_MAX]\<rparr>"
    if "sparse s ! unat i = of_nat (length (dense s)) - 1"
    using n p(2) that by (simp add: removed_def Let_def) (metis n list_update_id)
  show ?thesis
    using i n r by (auto simp: Storage_Remove_def Let_def removed_def)
qed

lemma removed_ok:
  assumes ok: "storage_ok s" and i: "unat i < length (sparse s)" "sparse s ! unat i \<noteq> UINT32_MAX"
  shows "storage_ok (removed i s)"
    "\<And>j. Storage_Get j (removed i s) = (if j = i then None else Storage_Get j s)"
proof -
  note o = storage_okD [OF ok] and p = present_index [OF ok i]
  define n where "n = length (dense s) - 1"
  define di where "di = unat (sparse s ! unat i)"
  define L where "L = denseToEntity s ! n"
  have len: "length (dense s) = Suc n" "di < Suc n" "length (denseToEntity s) = Suc n"
    using p(1) o(2) by (auto simp: n_def di_def)
  have L: "unat L < length (sparse s)" "unat (sparse s ! unat L) = n" using o(3,4) len by (simp_all add: L_def)
  have d: "denseToEntity s ! di = i" using p(2) by (simp add: di_def)
  have s': "dense (removed i s) = butlast ((dense s)[di := dense s ! n])"
    "denseToEntity (removed i s) = butlast ((denseToEntity s)[di := L])"
    "sparse (removed i s) = ((sparse s)[unat L := sparse s ! unat i])[unat i := UINT32_MAX]"
    by (simp_all add: removed_def Let_def n_def di_def L_def)
  have iL: "L = i \<longleftrightarrow> di = n" using d L(2) len by (auto simp: L_def di_def)
  have other: "sparse (removed i s) ! j = (if j = unat i then UINT32_MAX else if j = unat L then sparse s ! unat i else sparse s ! j)"
    if "j < length (sparse s)" for j using that i(1) L(1) by (auto simp: s' nth_list_update_if)
  have dn: "dense (removed i s) ! k = (if k = di then dense s ! n else dense s ! k)"
    "denseToEntity (removed i s) ! k = (if k = di then L else denseToEntity s ! k)" if "k < n" for k
    using that len by (simp_all add: s' nth_butlast nth_list_update_if)
  have k: "unat (sparse s ! j) < n \<and> unat (sparse s ! j) \<noteq> di \<and> unat (denseToEntity s ! unat (sparse s ! j)) = j"
    if "j < length (sparse s)" "sparse s ! j \<noteq> UINT32_MAX" "j \<noteq> unat i" "j \<noteq> unat L" for j
  proof -
    have e: "unat (denseToEntity s ! unat (sparse s ! j)) = j" "unat (sparse s ! j) < Suc n" using o(5,6) that(1,2) len by auto
    have "unat (sparse s ! j) \<noteq> di" using e(1) d that(3) by metis
    moreover have "unat (sparse s ! j) \<noteq> n" using e(1) that(4) by (auto simp: L_def)
    ultimately show ?thesis using e by simp
  qed
  have lens: "length (dense (removed i s)) = n" "length (denseToEntity (removed i s)) = n" "length (sparse (removed i s)) = length (sparse s)"
    using len by (simp_all add: s')
  have a: "unat (denseToEntity (removed i s) ! e) < length (sparse s) \<and> unat (sparse (removed i s) ! unat (denseToEntity (removed i s) ! e)) = e"
    if e: "e < n" for e
  proof (cases "e = di")
    case True
    then have "L \<noteq> i" using iL e by simp
    then show ?thesis using True e L(1) by (simp add: dn other unat_inj di_def)
  next
    case False
    have e': "unat (denseToEntity s ! e) < length (sparse s)" "unat (sparse s ! unat (denseToEntity s ! e)) = e"
      using o(3,4) [of e] e len by simp_all
    have "denseToEntity s ! e \<noteq> i" using e'(2) False by (auto simp: di_def)
    moreover have "denseToEntity s ! e \<noteq> L" using e'(2) L(2) e by auto
    ultimately show ?thesis using e e' False by (simp add: dn other unat_inj)
  qed
  have b: "unat (sparse (removed i s) ! j) < n \<and> unat (denseToEntity (removed i s) ! unat (sparse (removed i s) ! j)) = j"
    if j: "j < length (sparse s)" "sparse (removed i s) ! j \<noteq> UINT32_MAX" for j
  proof (cases "j = unat L")
    case True
    with j have "L \<noteq> i" by (auto simp: other)
    then have "di < n" using iL len by simp
    then show ?thesis using True L(1) j \<open>L \<noteq> i\<close> by (simp add: other dn unat_inj flip: di_def)
  next
    case False
    with j have "j \<noteq> unat i" "sparse s ! j \<noteq> UINT32_MAX" by (auto simp: other split: if_splits)
    from k [OF j(1) this(2,1) False] show ?thesis using j(1) False \<open>j \<noteq> unat i\<close> by (simp add: other dn)
  qed
  show "storage_ok (removed i s)"
    using a b o(1) lens unfolding storage_ok_def by simp
  show "Storage_Get j (removed i s) = (if j = i then None else Storage_Get j s)" for j
  proof (cases "unat j < length (sparse s)")
    case True
    show ?thesis
    proof (cases "j = i \<or> j = L")
      case False
      with k [OF True] show ?thesis using True False by (auto simp: Storage_Get_def lens other unat_inj dn)
    next
      case lj: True
      show ?thesis
      proof (cases "j = i")
        case False
        with lj have "j = L" "di < n" using iL len by auto
        moreover have "sparse s ! unat L \<noteq> UINT32_MAX" using not_absent [OF ok, of n] len by (simp add: L_def)
        ultimately show ?thesis using True False i(2) L(2)
          by (simp add: Storage_Get_def lens other unat_inj dn flip: di_def)
      qed (use True in \<open>simp add: Storage_Get_def lens other\<close>)
    qed
  qed (simp add: Storage_Get_def lens)
qed

lemma Storage_Insert_ok:
  assumes ok: "storage_ok s" and i: "i \<le> MAX_INDEX" and a: "Storage_Get i s = None"
  shows "\<exists>s'. Storage_Insert d i s = Some s' \<and> storage_ok s' \<and> (\<forall>j. Storage_Get j s' = (if j = i then Some d else Storage_Get j s))"
proof -
  let ?e = "EnsureSparse i s"
  note ok' = EnsureSparse_ok [OF ok i] and len = EnsureSparse_length [of i s]
  have a': "sparse ?e ! unat i = UINT32_MAX"
    using a len Storage_Get_None_iff [of i ?e] by simp
  let ?s = "?e\<lparr>sparse := (sparse ?e)[unat i := of_nat (length (dense ?e))], dense := dense ?e @ [d], denseToEntity := denseToEntity ?e @ [i]\<rparr>"
  have n: "unat (of_nat (length (dense ?e)) :: u32) = length (dense ?e)" "of_nat (length (dense ?e)) \<noteq> UINT32_MAX"
    using dense_le_sparse [OF ok'] by (auto simp: word_unat_eq_iff UINT32_MAX_def)
  have "Storage_Get j ?s = (if j = i then Some d else Storage_Get j ?e)" for j
  proof (cases "j = i")
    case True
    then show ?thesis using len n by (simp add: Storage_Get_def nth_append)
  next
    case False
    then have "unat j \<noteq> unat i" by (simp add: unat_inj)
    then show ?thesis using False storage_okD(5) [OF ok', of "unat j"]
      by (simp add: Storage_Get_def nth_append nth_list_update_if)
  qed
  moreover have "Storage_Insert d i s = Some ?s" using a' by (simp add: Storage_Insert_def Let_def)
  ultimately show ?thesis using insert_ok [OF ok' len a', of d] by auto
qed

lemma Storage_SetRef_ok:
  assumes ok: "storage_ok s" and a: "Storage_Get i s \<noteq> None"
  shows "\<exists>s'. Storage_SetRef i v s = Some s' \<and> storage_ok s' \<and> (\<forall>j. Storage_Get j s' = (if j = i then Some v else Storage_Get j s))"
proof -
  have i: "unat i < length (sparse s)" "sparse s ! unat i \<noteq> UINT32_MAX" using a Storage_Get_None_iff [of i s] by simp_all
  let ?s = "s\<lparr>dense := (dense s)[unat (sparse s ! unat i) := v]\<rparr>"
  have "storage_ok ?s" using ok unfolding storage_ok_def by simp
  moreover have "Storage_Get j ?s = (if j = i then Some v else Storage_Get j s)" for j
  proof (cases "j = i")
    case True
    then show ?thesis using i present_index(1) [OF ok i] by (simp add: Storage_Get_def)
  next
    case False
    have "sparse s ! unat j \<noteq> sparse s ! unat i" if "unat j < length (sparse s)" "sparse s ! unat j \<noteq> UINT32_MAX"
      using present_index(2) [OF ok that] present_index(2) [OF ok i] False by metis
    then show ?thesis using False by (auto simp: Storage_Get_def nth_list_update_if unat_inj)
  qed
  ultimately show ?thesis using i by (simp add: Storage_SetRef_def)
qed

interpretation cs: component_map Storage_Insert Storage_Remove Storage_SetRef Storage_Get Storage_new storage_ok
proof unfold_locales
  show "storage_ok Storage_new" by (simp add: storage_ok_def Storage_new_def)
  show "Storage_Get i Storage_new = None" for i by (simp add: Storage_Get_def Storage_new_def)
  show "\<exists>s'. Storage_Insert d i s = Some s' \<and> storage_ok s' \<and> (\<forall>j. Storage_Get j s' = (if j = i then Some d else Storage_Get j s))"
    if "storage_ok s" "i \<le> MAX_INDEX" "Storage_Get i s = None" for s :: "'a ComponentStorage" and i d
    using that by (rule Storage_Insert_ok)
  show "Storage_Insert d i s = None" if "Storage_Get i s \<noteq> None" for s :: "'a ComponentStorage" and i d
    using that by (auto simp: Storage_Get_None_iff Storage_Insert_def EnsureSparse_def)
  show "\<exists>m s'. Storage_Remove i s = Some (m, s') \<and> storage_ok s' \<and> (\<forall>j. Storage_Get j s' = (if j = i then None else Storage_Get j s))"
    if "storage_ok s" "Storage_Get i s \<noteq> None" for s :: "'a ComponentStorage" and i
  proof -
    have "unat i < length (sparse s)" "sparse s ! unat i \<noteq> UINT32_MAX" using that(2) Storage_Get_None_iff [of i s] by simp_all
    from Storage_Remove_eq [OF that(1) this] removed_ok [OF that(1) this] show ?thesis by blast
  qed
  show "Storage_Remove i s = None" if "Storage_Get i s = None" for s :: "'a ComponentStorage" and i
    using that by (auto simp: Storage_Get_None_iff Storage_Remove_def)
  show "\<exists>s'. Storage_SetRef i v s = Some s' \<and> storage_ok s' \<and> (\<forall>j. Storage_Get j s' = (if j = i then Some v else Storage_Get j s))"
    if "storage_ok s" "Storage_Get i s \<noteq> None" for s :: "'a ComponentStorage" and i v
    using that by (rule Storage_SetRef_ok)
  show "Storage_SetRef i v s = None" if "Storage_Get i s = None" for s :: "'a ComponentStorage" and i v
    using that by (auto simp: Storage_Get_None_iff Storage_SetRef_def)
qed

section \<open>Handles and masks\<close>

lemma bit_INDEX_MASK: "bit INDEX_MASK n \<longleftrightarrow> n < 20"
proof -
  have m: "INDEX_MASK = mask 20" by (simp add: MAX_INDEX_eq mask_eq_exp_minus_1)
  show ?thesis unfolding m bit_mask_iff by auto
qed

lemma handle_eqI: "Index h = Index h' \<Longrightarrow> Generation h = Generation h' \<Longrightarrow> h = h'"
proof (rule bit_word_eqI)
  fix n assume i: "Index h = Index h'" and g: "Generation h = Generation h'" and "n < LENGTH(32)"
  show "bit h n = bit h' n"
  proof (cases "n < 20")
    case True
    have "bit (Index h) n = bit (Index h') n" by (simp only: i)
    then show ?thesis using True by (simp add: Index_def bit_and_iff bit_INDEX_MASK)
  next
    case False
    have "bit (Generation h) (n - 20) = bit (Generation h') (n - 20)" by (simp only: g)
    then show ?thesis using False by (simp add: Generation_def INDEX_BITS_def bit_drop_bit_eq)
  qed
qed

lemma le_MAX_GEN: "g \<le> MAX_GEN \<longleftrightarrow> unat g < 2 ^ 12"
  by (auto simp: MAX_INDEX_eq word_le_nat_alt)

lemma small_word_bit: "unat (x :: u32) < 2 ^ k \<Longrightarrow> k \<le> n \<Longrightarrow> \<not> bit x n"
  by (metis bit_take_bit_iff linorder_not_le take_bit_nat_eq_self_iff unsigned_take_bit_eq word_eq_iff_unsigned)

lemma Make_ok:
  assumes "Make idx gen = Some h"
  shows "Index h = idx" "Generation h = gen"
proof -
  have b: "unat idx < 2 ^ 20" "unat gen < 2 ^ 12" "h = push_bit 20 gen OR idx"
    using assms by (auto simp: Make_def le_MAX_INDEX le_MAX_GEN INDEX_BITS_def split: if_splits)
  show "Index h = idx"
  proof (rule bit_word_eqI)
    fix n assume "n < LENGTH(32)"
    then show "bit (Index h) n = bit idx n" using small_word_bit [OF b(1), of n]
      by (cases "n < 20") (auto simp: b(3) Index_def bit_and_iff bit_or_iff bit_INDEX_MASK bit_push_bit_iff)
  qed
  show "Generation h = gen"
  proof (rule bit_word_eqI)
    fix n assume "n < LENGTH(32)"
    then show "bit (Generation h) n = bit gen n" using small_word_bit [OF b(1), of "20 + n"] small_word_bit [OF b(2), of n]
      by (cases "n < 12") (auto simp: b(3) Generation_def INDEX_BITS_def bit_drop_bit_eq bit_or_iff bit_push_bit_iff)
  qed
qed

lemma Make_total: "idx \<le> MAX_INDEX \<Longrightarrow> gen \<le> MAX_GEN \<Longrightarrow> \<exists>h. Make idx gen = Some h"
  by (simp add: Make_def)

lemma bit_test:
  "drop_bit cid (m :: u64) AND 1 \<noteq> 0 \<longleftrightarrow> bit m cid"
  by (simp add: bit_iff_odd_drop_bit odd_iff_mod_2_eq_one and_one_eq)

lemma bit_exp_64: "bit (2 ^ cid :: u64) k \<longleftrightarrow> cid < 64 \<and> k = cid"
  by (auto simp: bit_exp_iff)

lemma bit_push_1: "bit (push_bit cid 1 :: u64) k \<longleftrightarrow> cid < 64 \<and> k = cid"
  by (simp add: bit_exp_64)

lemma mask_test: "cid < 64 \<Longrightarrow> m AND (2 ^ cid :: u64) = 0 \<longleftrightarrow> \<not> bit m cid"
  by (subst bit_eq_iff) (auto simp: bit_and_iff bit_exp_64)

lemma required_bits: "bit (required_mask cids) k \<longleftrightarrow> k < 64 \<and> k \<in> set cids"
proof -
  have "bit (fold (\<lambda>cid m. m OR push_bit cid (1 :: u64)) cids m0) k \<longleftrightarrow> bit m0 k \<or> (k < 64 \<and> k \<in> set cids)" for m0
    by (induction cids arbitrary: m0) (auto simp: bit_or_iff bit_exp_64)
  then show ?thesis by (simp add: required_mask_def)
qed

lemma required_test: "m AND required_mask cids = required_mask cids \<longleftrightarrow> (\<forall>cid \<in> set cids. cid < 64 \<longrightarrow> bit m cid)"
  by (subst bit_eq_iff) (auto simp: bit_and_iff required_bits)

section \<open>The world invariant\<close>

definition comp_at :: "'c World \<Rightarrow> nat \<Rightarrow> u32 \<Rightarrow> 'c option" where
  "comp_at w cid i = (case m_storages w ! cid of None \<Rightarrow> None | Some s \<Rightarrow> Storage_Get i s)"

definition stores_ok :: "'c World \<Rightarrow> bool" where
  "stores_ok w \<longleftrightarrow> length (m_storages w) = 64 \<and> (\<forall>cid < 64. \<forall>s. m_storages w ! cid = Some s \<longrightarrow> storage_ok s)"

definition alive_at :: "'c World \<Rightarrow> u32 \<Rightarrow> bool" where
  "alive_at w i \<longleftrightarrow> unat i < length (m_records w) \<and> er_alive (m_records w ! unat i)"

definition mask_at :: "'c World \<Rightarrow> u32 \<Rightarrow> u64" where
  "mask_at w i = er_componentMask (m_records w ! unat i)"

definition gen_at :: "'c World \<Rightarrow> u32 \<Rightarrow> u32" where
  "gen_at w i = er_generation (m_records w ! unat i)"

definition world_ok :: "'c World \<Rightarrow> bool" where
  "world_ok w \<longleftrightarrow>
     m_records w \<noteq> [] \<and> length (m_records w) \<le> 2 ^ 20 \<and> \<not> alive_at w 0 \<and>
     distinct (m_freeList w) \<and>
     (\<forall>i. i \<in> set (m_freeList w) \<longleftrightarrow> i \<noteq> 0 \<and> unat i < length (m_records w) \<and> \<not> alive_at w i) \<and>
     stores_ok w \<and>
     (\<forall>cid < 64. \<forall>i. comp_at w cid i \<noteq> None \<longleftrightarrow> alive_at w i \<and> bit (mask_at w i) cid) \<and>
     (\<forall>i. unat i < length (m_records w) \<longrightarrow> gen_at w i \<le> MAX_GEN)"

lemma world_okD:
  assumes "world_ok w"
  shows "m_records w \<noteq> []" "length (m_records w) \<le> 2 ^ 20" "\<not> alive_at w 0" "distinct (m_freeList w)"
    "\<And>i. i \<in> set (m_freeList w) \<longleftrightarrow> i \<noteq> 0 \<and> unat i < length (m_records w) \<and> \<not> alive_at w i"
    "stores_ok w" "\<And>cid i. cid < 64 \<Longrightarrow> comp_at w cid i \<noteq> None \<longleftrightarrow> alive_at w i \<and> bit (mask_at w i) cid"
    "\<And>i. unat i < length (m_records w) \<Longrightarrow> gen_at w i \<le> MAX_GEN"
  using assms unfolding world_ok_def by blast+

lemma IsAlive_iff: "world_ok w \<Longrightarrow> IsAlive w e \<longleftrightarrow> alive_at w (Index e) \<and> gen_at w (Index e) = Generation e"
  using world_okD(3) [of w] by (auto simp: IsAlive_def Let_def alive_at_def gen_at_def not_le)

lemma HasComponent_iff:
  "world_ok w \<Longrightarrow> HasComponent w cid e \<longleftrightarrow> IsAlive w e \<and> bit (mask_at w (Index e)) cid"
  by (simp add: HasComponent_def bit_test mask_at_def)

lemma GetComponent_eq: "GetComponent w cid e = (if IsAlive w e then comp_at w cid (Index e) else None)"
  by (simp add: GetComponent_def comp_at_def)

lemma HasComponent_Get: "world_ok w \<Longrightarrow> cid < 64 \<Longrightarrow> HasComponent w cid e \<longleftrightarrow> GetComponent w cid e \<noteq> None"
  using world_okD(7) [of w cid "Index e"] by (auto simp: HasComponent_iff GetComponent_eq IsAlive_iff)

lemma world_new_ok: "world_ok World_new"
  by (auto simp: world_ok_def World_new_def EntityRecord_new_def stores_ok_def comp_at_def alive_at_def gen_at_def
      MAX_COMPONENT_TYPES_def unat_inj word_unat_eq_iff)

section \<open>What the operations do\<close>

text \<open>Each operation keeps the invariant, and the components of every other handle.\<close>

lemma comp_storage_upd:
  "m_storages w' = (m_storages w)[cid := Some s] \<Longrightarrow> cid < length (m_storages w) \<Longrightarrow>
    comp_at w' k i = (if k = cid then Storage_Get i s else comp_at w k i)"
  by (simp add: comp_at_def nth_list_update_if)

lemma at_upd:
  assumes "m_records w' = (m_records w)[unat j := r]" "unat j < length (m_records w)"
  shows "alive_at w' i = (if i = j then er_alive r else alive_at w i)"
    "mask_at w' i = (if i = j then er_componentMask r else mask_at w i)"
    "gen_at w' i = (if i = j then er_generation r else gen_at w i)"
  using assms by (auto simp: alive_at_def mask_at_def gen_at_def nth_list_update_if unat_inj)

lemma registered_storage:
  assumes "world_ok w" "cid < 64" "m_storages w ! cid = Some s"
  shows "storage_ok s" "cid < length (m_storages w)" "Storage_Get i s = comp_at w cid i"
  using world_okD(6) [OF assms(1)] assms(2,3) by (auto simp: stores_ok_def comp_at_def)

lemma IsAlive_index:
  assumes "world_ok w" "IsAlive w e"
  shows "unat (Index e) < length (m_records w)" "Index e \<noteq> 0" "Index e \<le> MAX_INDEX"
    "er_alive (m_records w ! unat (Index e))" "er_generation (m_records w ! unat (Index e)) = Generation e"
  using assms(2) world_okD(2) [OF assms(1)]
  by (auto simp: IsAlive_def Let_def le_MAX_INDEX not_le)

lemma Generation_le: "world_ok w \<Longrightarrow> IsAlive w e \<Longrightarrow> Generation e \<le> MAX_GEN"
  using IsAlive_index [of w e] world_okD(8) [of w "Index e"] by (simp add: gen_at_def)

lemma same_slot: "IsAlive w e \<Longrightarrow> IsAlive w e' \<Longrightarrow> Index e' = Index e \<longleftrightarrow> e' = e"
  by (auto simp: IsAlive_def Let_def intro: handle_eqI)

lemma RegisterComponent_frame:
  assumes ok: "world_ok w" and r: "RegisterComponent cid w = Some w'"
  shows "world_ok w'" "IsAlive w' e = IsAlive w e" "GetComponent w' k e = GetComponent w k e"
proof -
  have c: "cid < 64" "m_storages w ! cid = None" "w' = w\<lparr>m_storages := (m_storages w)[cid := Some Storage_new]\<rparr>"
    using r by (auto simp: RegisterComponent_def MAX_COMPONENT_TYPES_def split: if_splits)
  have l: "length (m_storages w) = 64" using world_okD(6) [OF ok] by (simp add: stores_ok_def)
  have s: "m_storages w' = (m_storages w)[cid := Some Storage_new]" by (simp add: c(3))
  have cw: "comp_at w' k i = comp_at w k i" for k i
    using comp_storage_upd [OF s, of k i] c(1,2) l by (auto simp: comp_at_def cs.empty(2) split: if_splits)
  have a: "alive_at w' = alive_at w" "mask_at w' = mask_at w" "gen_at w' = gen_at w"
    by (simp_all add: c(3) alive_at_def mask_at_def gen_at_def fun_eq_iff)
  show "IsAlive w' e = IsAlive w e" by (simp add: c(3) IsAlive_def)
  then show "GetComponent w' k e = GetComponent w k e" by (simp add: GetComponent_eq cw)
  have "stores_ok w'"
    using world_okD(6) [OF ok] l cs.empty(1) by (auto simp: stores_ok_def s nth_list_update_if)
  then show "world_ok w'" using ok unfolding world_ok_def cw a by (simp add: c(3))
qed

lemma AddComponent_frame:
  assumes ok: "world_ok w" and r: "AddComponent cid d e w = Some w'" and cid: "cid < 64"
  shows "world_ok w'" "IsAlive w' e' = IsAlive w e'"
    "k < 64 \<Longrightarrow> GetComponent w' k e' = (if k = cid \<and> e' = e then Some d else GetComponent w k e')"
    "IsAlive w e" "GetComponent w cid e = None"
proof -
  obtain s s' where al: "IsAlive w e" and b: "\<not> bit (mask_at w (Index e)) cid"
    and st: "m_storages w ! cid = Some s" and ins: "Storage_Insert d (Index e) s = Some s'"
    and w': "w' = w\<lparr>m_storages := (m_storages w)[cid := Some s'],
        m_records := (m_records w)[unat (Index e) := (m_records w ! unat (Index e))
          \<lparr>er_componentMask := mask_at w (Index e) OR push_bit cid 1\<rparr>]\<rparr>"
    using r by (auto simp: AddComponent_def Let_def mask_test [OF cid] mask_at_def split: if_splits option.splits)
  note i = IsAlive_index [OF ok al] and rs = registered_storage [OF ok cid st]
  from cs.insertE [OF ins rs(1) i(3)] have s': "storage_ok s'"
    "\<And>j. Storage_Get j s' = (if j = Index e then Some d else Storage_Get j s)" by blast+
  have S: "m_storages w' = (m_storages w)[cid := Some s']" by (simp add: w')
  have R: "m_records w' = (m_records w)[unat (Index e) := (m_records w ! unat (Index e))
          \<lparr>er_componentMask := mask_at w (Index e) OR push_bit cid 1\<rparr>]" by (simp add: w')
  have cw: "comp_at w' k j = (if k = cid \<and> j = Index e then Some d else comp_at w k j)" for k j
    using comp_storage_upd [OF S rs(2), of k j] s'(2) by (simp add: rs(3))
  have at: "alive_at w' j = alive_at w j" "gen_at w' j = gen_at w j"
    "mask_at w' j = (if j = Index e then mask_at w j OR push_bit cid 1 else mask_at w j)" for j
    using at_upd [OF R i(1), of j] i(1,4,5) by (auto simp: alive_at_def gen_at_def)
  show al': "IsAlive w' e' = IsAlive w e'" for e' by (simp add: w' IsAlive_def nth_list_update_if Let_def)
  show "IsAlive w e" by (rule al)
  show "GetComponent w cid e = None" using world_okD(7) [OF ok cid, of "Index e"] b by (auto simp: GetComponent_eq)
  show "GetComponent w' k e' = (if k = cid \<and> e' = e then Some d else GetComponent w k e')" if "k < 64" for k
    using al same_slot [OF al, of e'] by (auto simp: GetComponent_eq al' cw)
  have st: "stores_ok w'"
    using world_okD(6) [OF ok] s'(1) by (auto simp: stores_ok_def S nth_list_update_if)
  have "comp_at w' k j \<noteq> None \<longleftrightarrow> alive_at w' j \<and> bit (mask_at w' j) k" if "k < 64" for k j
  proof (cases "k = cid \<and> j = Index e")
    case True
    then show ?thesis using i(1,4) cid by (simp add: cw at bit_or_iff bit_exp_64) (simp add: alive_at_def)
  next
    case False
    then show ?thesis using world_okD(7) [OF ok that, of j] by (auto simp: cw at bit_or_iff bit_exp_64)
  qed
  then show "world_ok w'" using ok st unfolding world_ok_def at by (simp add: w')
qed

lemma AddComponent_total:
  assumes ok: "world_ok w" and "cid < 64" "m_storages w ! cid \<noteq> None" "IsAlive w e" "GetComponent w cid e = None"
  shows "\<exists>w'. AddComponent cid d e w = Some w'"
proof -
  obtain s where s: "m_storages w ! cid = Some s" using assms(3) by auto
  have "comp_at w cid (Index e) = None" using assms(4,5) by (simp add: GetComponent_eq)
  moreover from this have "\<not> bit (mask_at w (Index e)) cid"
    using world_okD(7) [OF ok assms(2), of "Index e"] IsAlive_index [OF ok assms(4)] by (auto simp: alive_at_def)
  ultimately show ?thesis
    using s assms(4) cs.insert [OF registered_storage(1) [OF ok assms(2) s] IsAlive_index(3) [OF ok assms(4)], of d]
      registered_storage(3) [OF ok assms(2) s, of "Index e"]
    by (auto simp: AddComponent_def Let_def mask_at_def mask_test [OF assms(2)] split: option.splits)
qed

lemma SetComponent_frame:
  assumes ok: "world_ok w" and r: "SetComponent cid v e w = Some w'" and cid: "cid < 64"
  shows "world_ok w'" "IsAlive w' e' = IsAlive w e'"
    "k < 64 \<Longrightarrow> GetComponent w' k e' = (if k = cid \<and> e' = e then Some v else GetComponent w k e')"
    "GetComponent w cid e \<noteq> None" "m_records w' = m_records w"
proof -
  obtain s s' where al: "IsAlive w e" and st: "m_storages w ! cid = Some s"
    and se: "Storage_SetRef (Index e) v s = Some s'" and w': "w' = w\<lparr>m_storages := (m_storages w)[cid := Some s']\<rparr>"
    using r by (auto simp: SetComponent_def split: if_splits option.splits)
  note i = IsAlive_index [OF ok al] and rs = registered_storage [OF ok cid st]
  from cs.setE [OF se rs(1)] obtain c where s': "Storage_Get (Index e) s = Some c" "storage_ok s'"
    "\<And>j. Storage_Get j s' = (if j = Index e then Some v else Storage_Get j s)" by blast
  have S: "m_storages w' = (m_storages w)[cid := Some s']" by (simp add: w')
  have cw: "comp_at w' k j = (if k = cid \<and> j = Index e then Some v else comp_at w k j)" for k j
    using comp_storage_upd [OF S rs(2), of k j] s'(3) by (simp add: rs(3))
  have at: "alive_at w' = alive_at w" "gen_at w' = gen_at w" "mask_at w' = mask_at w"
    by (simp_all add: w' alive_at_def gen_at_def mask_at_def fun_eq_iff)
  show al': "IsAlive w' e' = IsAlive w e'" for e' by (simp add: w' IsAlive_def)
  show "GetComponent w' k e' = (if k = cid \<and> e' = e then Some v else GetComponent w k e')" if "k < 64" for k
    using al same_slot [OF al, of e'] by (auto simp: GetComponent_eq al' cw)
  show "GetComponent w cid e \<noteq> None" using al s'(1) rs(3) [of "Index e"] by (simp add: GetComponent_eq)
  show "m_records w' = m_records w" by (simp add: w')
  have st: "stores_ok w'"
    using world_okD(6) [OF ok] s'(2) by (auto simp: stores_ok_def S nth_list_update_if)
  have "comp_at w' k j \<noteq> None \<longleftrightarrow> comp_at w k j \<noteq> None" for k j using s'(1) rs(3) [of "Index e"] by (auto simp: cw)
  then show "world_ok w'" using ok st unfolding world_ok_def at by (simp add: w')
qed

lemma SetComponent_total:
  assumes ok: "world_ok w" and "GetComponent w cid e \<noteq> None" "cid < 64"
  shows "\<exists>w'. SetComponent cid v e w = Some w'"
proof -
  have al: "IsAlive w e" using assms(2) by (auto simp: GetComponent_eq split: if_splits)
  obtain s where s: "m_storages w ! cid = Some s" "Storage_Get (Index e) s \<noteq> None"
    using assms(2) by (auto simp: GetComponent_def split: if_splits option.splits)
  from cs.set [OF registered_storage(1) [OF ok assms(3) s(1)] s(2), of v] show ?thesis
    using al s(1) by (auto simp: SetComponent_def)
qed

lemma RemoveComponent_frame:
  assumes ok: "world_ok w" and r: "RemoveComponent cid e w = Some w'" and cid: "cid < 64"
  shows "world_ok w'" "IsAlive w' e' = IsAlive w e'"
    "k < 64 \<Longrightarrow> GetComponent w' k e' = (if k = cid \<and> e' = e then None else GetComponent w k e')"
    "GetComponent w cid e \<noteq> None"
proof -
  obtain s s' m where al: "IsAlive w e" and b: "bit (mask_at w (Index e)) cid"
    and st: "m_storages w ! cid = Some s" and rem: "Storage_Remove (Index e) s = Some (m, s')"
    and w': "w' = w\<lparr>m_storages := (m_storages w)[cid := Some s'],
        m_records := (m_records w)[unat (Index e) := (m_records w ! unat (Index e))
          \<lparr>er_componentMask := mask_at w (Index e) AND NOT (push_bit cid 1)\<rparr>]\<rparr>"
    using r by (auto simp: RemoveComponent_def Let_def mask_test [OF cid] mask_at_def split: if_splits option.splits)
  note i = IsAlive_index [OF ok al] and rs = registered_storage [OF ok cid st]
  from cs.removeE [OF rem rs(1)] obtain c where s': "Storage_Get (Index e) s = Some c" "storage_ok s'"
    "\<And>j. Storage_Get j s' = (if j = Index e then None else Storage_Get j s)" by blast
  have S: "m_storages w' = (m_storages w)[cid := Some s']" by (simp add: w')
  have R: "m_records w' = (m_records w)[unat (Index e) := (m_records w ! unat (Index e))
          \<lparr>er_componentMask := mask_at w (Index e) AND NOT (push_bit cid 1)\<rparr>]" by (simp add: w')
  have cw: "comp_at w' k j = (if k = cid \<and> j = Index e then None else comp_at w k j)" for k j
    using comp_storage_upd [OF S rs(2), of k j] s'(3) by (simp add: rs(3))
  have at: "alive_at w' j = alive_at w j" "gen_at w' j = gen_at w j"
    "mask_at w' j = (if j = Index e then mask_at w j AND NOT (push_bit cid 1) else mask_at w j)" for j
    using at_upd [OF R i(1), of j] i(1,4,5) by (auto simp: alive_at_def gen_at_def)
  show al': "IsAlive w' e' = IsAlive w e'" for e' by (simp add: w' IsAlive_def nth_list_update_if Let_def)
  show "k < 64 \<Longrightarrow> GetComponent w' k e' = (if k = cid \<and> e' = e then None else GetComponent w k e')"
    using al same_slot [OF al, of e'] by (auto simp: GetComponent_eq al' cw)
  show "GetComponent w cid e \<noteq> None" using al s'(1) rs(3) [of "Index e"] by (simp add: GetComponent_eq)
  have st: "stores_ok w'"
    using world_okD(6) [OF ok] s'(2) by (auto simp: stores_ok_def S nth_list_update_if)
  have "comp_at w' k j \<noteq> None \<longleftrightarrow> alive_at w' j \<and> bit (mask_at w' j) k" if "k < 64" for k j
    using world_okD(7) [OF ok that, of j] cid that
    by (cases "k = cid \<and> j = Index e") (auto simp: cw at bit_and_iff bit_not_iff bit_exp_64)
  then show "world_ok w'" using ok st unfolding world_ok_def at by (simp add: w')
qed

lemma RemoveComponent_total:
  assumes ok: "world_ok w" and "GetComponent w cid e \<noteq> None" and cid: "cid < 64"
  shows "\<exists>w'. RemoveComponent cid e w = Some w'"
proof -
  have al: "IsAlive w e" using assms(2) by (auto simp: GetComponent_eq split: if_splits)
  obtain s where s: "m_storages w ! cid = Some s" "Storage_Get (Index e) s \<noteq> None"
    using assms(2) by (auto simp: GetComponent_def split: if_splits option.splits)
  have "bit (mask_at w (Index e)) cid"
    using world_okD(7) [OF ok cid, of "Index e"] assms(2) al by (auto simp: GetComponent_eq)
  with cs.remove [OF registered_storage(1) [OF ok cid s(1)] s(2)] show ?thesis
    using al s(1) by (auto simp: RemoveComponent_def Let_def mask_at_def mask_test [OF cid])
qed

lemma create_frame:
  assumes ok: "world_ok w" and f: "i \<noteq> 0" "\<not> alive_at w i"
    and recs: "m_records w' = rs[unat i := r\<lparr>er_alive := True, er_componentMask := 0\<rparr>]"
      "unat i < length rs" "r = rs ! unat i" "m_storages w' = m_storages w"
    and h: "Make i (er_generation r) = Some h"
    and w1: "(m_freeList w \<noteq> [] \<and> i = last (m_freeList w) \<and> m_freeList w' = butlast (m_freeList w) \<and> rs = m_records w)
      \<or> (m_freeList w = [] \<and> unat i = length (m_records w) \<and> m_freeList w' = [] \<and> rs = m_records w @ [EntityRecord_new])"
  shows "world_ok w'" "\<not> IsAlive w h" "IsAlive w' e = (IsAlive w e \<or> e = h)"
    "k < 64 \<Longrightarrow> GetComponent w' k e = GetComponent w k e"
proof -
  note h' = Make_ok [OF h] and D = world_okD [OF ok]
  have g: "er_generation r \<le> MAX_GEN" using h by (auto simp: Make_def split: if_splits)
  have i: "i \<le> MAX_INDEX" using h by (auto simp: Make_def split: if_splits)
  have rec: "rs ! unat j = m_records w ! unat j \<and> unat j < length rs" if "unat j < length (m_records w)" for j
    using w1 that by (auto simp: nth_append)
  have beyond: "unat j < length (m_records w)" if "unat j < length rs" "j \<noteq> i" for j
    using w1 that unat_inj [of j i] by (auto simp: less_Suc_eq)
  have at: "alive_at w' j = (j = i \<or> alive_at w j)" "gen_at w' i = er_generation r" "mask_at w' i = 0"
    "j \<noteq> i \<Longrightarrow> unat j < length (m_records w) \<Longrightarrow> gen_at w' j = gen_at w j"
    "j \<noteq> i \<Longrightarrow> unat j < length (m_records w) \<Longrightarrow> mask_at w' j = mask_at w j" for j
    using recs rec [of j] beyond [of j] by (auto simp: alive_at_def gen_at_def mask_at_def nth_list_update_if unat_inj)
  have len: "length (m_records w') = length rs" by (simp add: recs)
  have dead: "\<not> alive_at w i" by (rule f(2))
  have cw: "comp_at w' = comp_at w" by (simp add: comp_at_def fun_eq_iff recs)
  have "length rs \<le> 2 ^ 20" using w1 D(2) i by (auto simp: le_MAX_INDEX)
  moreover have "rs \<noteq> []" using w1 D(1) by auto
  moreover have "distinct (m_freeList w')" using w1 D(4) by (auto simp: distinct_butlast)
  moreover have fl: "j \<in> set (m_freeList w') \<longleftrightarrow> j \<noteq> 0 \<and> unat j < length rs \<and> \<not> alive_at w' j" for j
  proof (cases "m_freeList w = []")
    case True
    then show ?thesis using w1 D(5) [of j] beyond [of j] by (auto simp: at)
  next
    case False
    then have s: "m_freeList w = butlast (m_freeList w) @ [i]" "i = last (m_freeList w)"
      "m_freeList w' = butlast (m_freeList w)" "rs = m_records w" using w1 by auto
    have "distinct (butlast (m_freeList w) @ [i])" using D(4) s(1) by metis
    moreover have "j \<in> set (m_freeList w) \<longleftrightarrow> j \<in> set (butlast (m_freeList w)) \<or> j = i" using s(1) by (metis set_append Un_iff list.set(1,2) empty_iff insert_iff)
    ultimately show ?thesis using s(3,4) D(5) [of j] by (auto simp: at)
  qed
  moreover have "comp_at w k j \<noteq> None \<longleftrightarrow> alive_at w' j \<and> bit (mask_at w' j) k" if "k < 64" for k j
  proof (cases "j = i")
    case True
    then show ?thesis using D(7) [OF that, of i] dead at(3) by simp
  next
    case False
    then show ?thesis using D(7) [OF that, of j] at(1) [of j] at(5) [of j] by (auto simp: alive_at_def)
  qed
  moreover have "gen_at w' j \<le> MAX_GEN" if "unat j < length rs" for j
    using beyond [OF that] D(8) [of j] at(4) [of j] at(2) g by (cases "j = i") auto
  moreover have "stores_ok w'" using D(6) by (simp add: stores_ok_def recs)
  ultimately show ok': "world_ok w'"
    using f(1) D(3) unfolding world_ok_def len cw at by (auto simp: recs)
  show nh: "\<not> IsAlive w h" using dead by (simp add: IsAlive_iff [OF ok] h')
  show al: "IsAlive w' e = (IsAlive w e \<or> e = h)" for e
  proof (cases "Index e = i")
    case True
    then show ?thesis using dead at(2) h' handle_eqI [of e h] by (auto simp: IsAlive_iff [OF ok] IsAlive_iff [OF ok'] at(1))
  next
    case False
    have "alive_at w (Index e) \<Longrightarrow> unat (Index e) < length (m_records w)" by (simp add: alive_at_def)
    with False show ?thesis using at(4) [of "Index e"] h'
      by (auto simp: IsAlive_iff [OF ok] IsAlive_iff [OF ok'] at(1))
  qed
  show "GetComponent w' k e = GetComponent w k e" if "k < 64"
    using D(7) [OF that, of i] dead nh h'(1) by (auto simp: GetComponent_eq cw al)
qed

lemma CreateEntity_frame:
  assumes ok: "world_ok w" and r: "CreateEntity w = Some (h, w')"
  shows "world_ok w'" "\<not> IsAlive w h" "IsAlive w' e = (IsAlive w e \<or> e = h)"
    "k < 64 \<Longrightarrow> GetComponent w' k e = GetComponent w k e"
proof -
  note D = world_okD [OF ok]
  have "\<exists>i r rs. i \<noteq> 0 \<and> \<not> alive_at w i \<and> m_records w' = rs[unat i := r\<lparr>er_alive := True, er_componentMask := 0\<rparr>] \<and>
     unat i < length rs \<and> r = rs ! unat i \<and> m_storages w' = m_storages w \<and> Make i (er_generation r) = Some h \<and>
     ((m_freeList w \<noteq> [] \<and> i = last (m_freeList w) \<and> m_freeList w' = butlast (m_freeList w) \<and> rs = m_records w)
      \<or> (m_freeList w = [] \<and> unat i = length (m_records w) \<and> m_freeList w' = [] \<and> rs = m_records w @ [EntityRecord_new]))"
  proof (cases "m_freeList w = []")
    case False
    then have "last (m_freeList w) \<in> set (m_freeList w)" by simp
    with D(5) have l: "last (m_freeList w) \<noteq> 0" "unat (last (m_freeList w)) < length (m_records w)" "\<not> alive_at w (last (m_freeList w))" by blast+
    with r False show ?thesis
      by (intro exI [of _ "last (m_freeList w)"] exI [of _ "m_records w ! unat (last (m_freeList w))"] exI [of _ "m_records w"])
        (auto simp: CreateEntity_def Let_def split: bind_splits)
  next
    case True
    let ?i = "of_nat (length (m_records w)) :: u32"
    have i: "unat ?i = length (m_records w)" using D(2) by simp
    then have "?i \<noteq> 0" using D(1) by (metis length_0_conv unsigned_0)
    then show ?thesis using r True i
      by (intro exI [of _ ?i] exI [of _ EntityRecord_new] exI [of _ "m_records w @ [EntityRecord_new]"])
        (auto simp: CreateEntity_def Let_def alive_at_def split: bind_splits if_splits)
  qed
  then obtain i r rs where "i \<noteq> 0" "\<not> alive_at w i"
    "m_records w' = rs[unat i := r\<lparr>er_alive := True, er_componentMask := 0\<rparr>]"
    "unat i < length rs" "r = rs ! unat i" "m_storages w' = m_storages w" "Make i (er_generation r) = Some h"
    "(m_freeList w \<noteq> [] \<and> i = last (m_freeList w) \<and> m_freeList w' = butlast (m_freeList w) \<and> rs = m_records w)
      \<or> (m_freeList w = [] \<and> unat i = length (m_records w) \<and> m_freeList w' = [] \<and> rs = m_records w @ [EntityRecord_new])"
    by blast
  from create_frame [OF ok this] show "world_ok w'" "\<not> IsAlive w h" "IsAlive w' e = (IsAlive w e \<or> e = h)"
    "k < 64 \<Longrightarrow> GetComponent w' k e = GetComponent w k e" by blast+
qed

lemma CreateEntity_total:
  assumes ok: "world_ok w" and "m_freeList w \<noteq> [] \<or> length (m_records w) < 2 ^ 20"
  shows "\<exists>h w'. CreateEntity w = Some (h, w')"
proof (cases "m_freeList w = []")
  case False
  then have "last (m_freeList w) \<in> set (m_freeList w)" by simp
  with world_okD(5) [OF ok] have l: "unat (last (m_freeList w)) < length (m_records w)" by blast
  then have "last (m_freeList w) \<le> MAX_INDEX" using world_okD(2) [OF ok] by (simp add: le_MAX_INDEX)
  moreover have "er_generation (m_records w ! unat (last (m_freeList w))) \<le> MAX_GEN"
    using world_okD(8) [OF ok l] by (simp add: gen_at_def)
  ultimately show ?thesis using False Make_total by (fastforce simp: CreateEntity_def Let_def)
next
  case True
  let ?i = "of_nat (length (m_records w)) :: u32"
  have i: "unat ?i = length (m_records w)" using world_okD(2) [OF ok] by simp
  then have "?i \<le> MAX_INDEX" using True assms(2) by (simp add: le_MAX_INDEX)
  moreover from this obtain h where "Make ?i 0 = Some h" using Make_total [of ?i 0] by auto
  ultimately show ?thesis using True i by (simp add: CreateEntity_def Let_def EntityRecord_new_def)
qed

text \<open>The number of live handles: the slots without the null slot and the free ones.\<close>

lemma card_words_below:
  assumes "n \<le> 2 ^ 20"
  shows "card {i :: u32. unat i < n} = n"
proof -
  have "{i :: u32. unat i < n} = of_nat ` {..<n}"
  proof (intro equalityI subsetI)
    fix i :: u32 assume "i \<in> {i. unat i < n}"
    then show "i \<in> of_nat ` {..<n}" by (intro image_eqI [of _ _ "unat i"]) simp_all
  next
    fix i :: u32 assume "i \<in> of_nat ` {..<n}"
    then obtain k where "k < n" "i = of_nat k" by blast
    then show "i \<in> {i. unat i < n}" using assms by (simp add: unsigned_of_nat take_bit_eq_mod)
  qed
  moreover have "inj_on (of_nat :: nat \<Rightarrow> u32) {..<n}"
  proof (rule inj_onI)
    fix a b assume "a \<in> {..<n}" "b \<in> {..<n}" "(of_nat a :: u32) = of_nat b"
    then have "unat (of_nat a :: u32) = unat (of_nat b :: u32)" "a < 2 ^ 32" "b < 2 ^ 32" using assms by auto
    then show "a = b" by (simp add: unsigned_of_nat take_bit_eq_mod)
  qed
  ultimately show ?thesis by (simp add: card_image)
qed

lemma card_alive:
  assumes ok: "world_ok w"
  shows "Suc (card {e. IsAlive w e} + length (m_freeList w)) = length (m_records w)"
proof -
  note D = world_okD [OF ok]
  let ?A = "{i. alive_at w i}" and ?F = "set (m_freeList w)"
  have "bij_betw Index {e. IsAlive w e} ?A"
  proof (intro bij_betw_imageI inj_onI equalityI subsetI)
    fix e e' assume "e \<in> {e. IsAlive w e}" "e' \<in> {e. IsAlive w e}" "Index e = Index e'"
    then show "e = e'" using same_slot [of w e' e] by simp
  next
    fix i assume "i \<in> Index ` {e. IsAlive w e}"
    then show "i \<in> ?A" by (auto simp: IsAlive_iff [OF ok])
  next
    fix i assume i: "i \<in> ?A"
    then have l: "unat i < length (m_records w)" by (simp add: alive_at_def)
    then have "i \<le> MAX_INDEX" "gen_at w i \<le> MAX_GEN" using D(2,8) by (simp_all add: le_MAX_INDEX)
    then obtain h where "Make i (gen_at w i) = Some h" using Make_total by blast
    then have "Index h = i" "IsAlive w h" using Make_ok [of i "gen_at w i" h] i by (simp_all add: IsAlive_iff [OF ok])
    then show "i \<in> Index ` {e. IsAlive w e}" by blast
  qed
  then have c: "card {e. IsAlive w e} = card ?A" by (rule bij_betw_same_card)
  have fin: "finite ?A" "finite ?F" by simp_all
  have slots: "{i. unat i < length (m_records w)} = insert 0 (?A \<union> ?F)"
  proof (rule set_eqI)
    fix i :: u32
    have "0 < length (m_records w)" using D(1) by blast
    moreover have "alive_at w i \<Longrightarrow> unat i < length (m_records w)" by (simp add: alive_at_def)
    ultimately show "i \<in> {i. unat i < length (m_records w)} \<longleftrightarrow> i \<in> insert 0 (?A \<union> ?F)"
      using D(5) [of i] by (cases "i = 0") auto
  qed
  have disj: "?A \<inter> ?F = {}" "0 \<notin> ?A \<union> ?F" using D(3,5) by auto
  have "length (m_records w) = card (insert 0 (?A \<union> ?F))"
    using card_words_below [OF D(2)] slots by simp
  also have "\<dots> = Suc (card ?A + card ?F)"
    using fin disj by (simp add: card_Un_disjoint)
  also have "card ?F = length (m_freeList w)" using D(4) by (rule distinct_card)
  finally show ?thesis by (simp add: c)
qed

lemma CreateEntity_None_iff:
  assumes ok: "world_ok w"
  shows "CreateEntity w = None \<longleftrightarrow> card {e. IsAlive w e} = 2 ^ 20 - 1"
proof -
  have full: "CreateEntity w = None \<longleftrightarrow> m_freeList w = [] \<and> length (m_records w) = 2 ^ 20"
  proof
    assume "CreateEntity w = None"
    then show "m_freeList w = [] \<and> length (m_records w) = 2 ^ 20"
      using CreateEntity_total [OF ok] world_okD(2) [OF ok] by force
  next
    assume "m_freeList w = [] \<and> length (m_records w) = 2 ^ 20"
    then show "CreateEntity w = None" by (simp add: CreateEntity_def Let_def MAX_INDEX_eq)
  qed
  have "card {e. IsAlive w e} = 2 ^ 20 - 1 \<longleftrightarrow> length (m_freeList w) = 0 \<and> length (m_records w) = 2 ^ 20"
    using card_alive [OF ok] world_okD(2) [OF ok] by linarith
  then show ?thesis using full by simp
qed

lemma remove_components_frame:
  assumes "stores_ok w" "distinct cids" "set cids \<subseteq> {..<64}"
    "\<forall>cid \<in> set cids. bit cmask cid \<longrightarrow> comp_at w cid i \<noteq> None"
  shows "\<exists>w'. remove_components cmask i cids w = Some w' \<and> stores_ok w' \<and> m_records w' = m_records w \<and> m_freeList w' = m_freeList w \<and>
    (\<forall>k j. comp_at w' k j = (if k \<in> set cids \<and> bit cmask k \<and> j = i then None else comp_at w k j))"
  using assms
proof (induction cids arbitrary: w)
  case Nil
  then show ?case by simp
next
  case (Cons cid cids)
  show ?case
  proof (cases "bit cmask cid")
    case False
    with Cons.IH [OF Cons.prems(1)] Cons.prems show ?thesis by (auto simp: bit_test)
  next
    case True
    with Cons.prems(4) have "comp_at w cid i \<noteq> None" by simp
    then obtain s where s: "m_storages w ! cid = Some s" "Storage_Get i s \<noteq> None"
      by (auto simp: comp_at_def split: option.splits)
    have c: "cid < 64" "cid < length (m_storages w)" "storage_ok s"
      using Cons.prems(1,3) s(1) by (auto simp: stores_ok_def)
    from cs.remove [OF c(3) s(2)] obtain m s' where r: "Storage_Remove i s = Some (m, s')" "storage_ok s'"
      "\<And>j. Storage_Get j s' = (if j = i then None else Storage_Get j s)" by blast
    let ?w = "w\<lparr>m_storages := (m_storages w)[cid := Some s']\<rparr>"
    have cw: "comp_at ?w k j = (if k = cid \<and> j = i then None else comp_at w k j)" for k j
      using comp_storage_upd [OF _ c(2), of ?w s' k j] r(3) s(1) by (auto simp: comp_at_def)
    have "stores_ok ?w" using Cons.prems(1) r(2) by (auto simp: stores_ok_def nth_list_update_if)
    moreover have "\<forall>k \<in> set cids. bit cmask k \<longrightarrow> comp_at ?w k i \<noteq> None"
      using Cons.prems(2,4) by (auto simp: cw)
    ultimately obtain w' where "remove_components cmask i cids ?w = Some w'" "stores_ok w'" "m_records w' = m_records w"
      "m_freeList w' = m_freeList w"
      "\<forall>k j. comp_at w' k j = (if k \<in> set cids \<and> bit cmask k \<and> j = i then None else comp_at ?w k j)"
      using Cons.IH [of ?w] Cons.prems(2,3) by auto
    with True s(1) r(1) show ?thesis by (auto simp: bit_test cw)
  qed
qed

lemma next_gen_le: "(g + 1) AND MAX_GEN \<le> MAX_GEN"
  by (simp add: word_and_le1)

lemma DestroyEntity_frame:
  assumes ok: "world_ok w"
  shows "\<exists>w'. DestroyEntity e w = Some w' \<and> world_ok w' \<and> (\<forall>e'. IsAlive w' e' = (IsAlive w e' \<and> e' \<noteq> e)) \<and>
    (\<forall>k e'. k < 64 \<longrightarrow> GetComponent w' k e' = (if e' = e then None else GetComponent w k e')) \<and>
    length (m_records w') = length (m_records w) \<and>
    (IsAlive w e \<longrightarrow> gen_at w' (Index e) = (gen_at w (Index e) + 1) AND MAX_GEN) \<and>
    (\<forall>i. \<not> (IsAlive w e \<and> i = Index e) \<longrightarrow> gen_at w' i = gen_at w i)"
proof (cases "IsAlive w e")
  case False
  then show ?thesis using ok by (auto simp: DestroyEntity_def GetComponent_eq)
next
  case al: True
  note D = world_okD [OF ok] and i = IsAlive_index [OF ok al]
  let ?i = "Index e" and ?m = "er_componentMask (m_records w ! unat (Index e))"
  have "\<forall>cid \<in> set [0..<64]. bit ?m cid \<longrightarrow> comp_at w cid ?i \<noteq> None"
    using D(7) i(1,4) by (auto simp: alive_at_def mask_at_def)
  then obtain w1 where w1: "remove_components ?m ?i [0..<64] w = Some w1" "stores_ok w1" "m_records w1 = m_records w"
    "m_freeList w1 = m_freeList w"
    "\<And>k j. comp_at w1 k j = (if k \<in> set [0..<64] \<and> bit ?m k \<and> j = ?i then None else comp_at w k j)"
    using remove_components_frame [OF D(6), of "[0..<64]" ?m ?i] by fastforce
  define r where "r = (m_records w ! unat ?i)\<lparr>er_componentMask := 0, er_alive := False,
                          er_generation := (er_generation (m_records w ! unat ?i) + 1) AND MAX_GEN\<rparr>"
  define w' where "w' = w1\<lparr>m_records := (m_records w)[unat ?i := r], m_freeList := m_freeList w @ [?i]\<rparr>"
  have e: "DestroyEntity e w = Some w'"
    using al w1(1,3,4) by (simp add: DestroyEntity_def Let_def MAX_COMPONENT_TYPES_def w'_def r_def)
  have R: "m_records w' = (m_records w)[unat ?i := r]" by (simp add: w'_def)
  note at = at_upd [OF R i(1)]
  have cw: "comp_at w' k j = (if j = ?i then None else comp_at w k j)" if "k < 64" for k j
    using w1(5) [of k j] that D(7) [OF that, of ?i] by (auto simp: comp_at_def w'_def mask_at_def)
  have al': "alive_at w' j = (alive_at w j \<and> j \<noteq> ?i)" for j by (simp add: at r_def)
  have "stores_ok w'" using w1(2) by (simp add: stores_ok_def w'_def)
  moreover have "distinct (m_freeList w @ [?i])" using D(4) D(5) [of ?i] i(1,4) by (simp add: alive_at_def)
  moreover have "j \<in> set (m_freeList w @ [?i]) \<longleftrightarrow> j \<noteq> 0 \<and> unat j < length (m_records w) \<and> \<not> alive_at w' j" for j
    using D(5) [of j] i(1,2) by (auto simp: al')
  moreover have "comp_at w' k j \<noteq> None \<longleftrightarrow> alive_at w' j \<and> bit (mask_at w' j) k" if "k < 64" for k j
    using D(7) [OF that, of j] by (auto simp: cw [OF that] al' at)
  moreover have "gen_at w' j \<le> MAX_GEN" if "unat j < length (m_records w)" for j
    using D(8) [OF that] next_gen_le by (auto simp: at r_def)
  ultimately have ok': "world_ok w'"
    using D(1,2,3) unfolding world_ok_def al' by (simp add: w'_def)
  have ia: "IsAlive w' e' = (IsAlive w e' \<and> e' \<noteq> e)" for e'
    using same_slot [OF al, of e'] by (cases "Index e' = ?i") (auto simp: IsAlive_iff [OF ok] IsAlive_iff [OF ok'] al' at)
  moreover have "GetComponent w' k e' = (if e' = e then None else GetComponent w k e')" if "k < 64" for k e'
    using same_slot [OF al, of e'] by (auto simp: GetComponent_eq ia cw [OF that])
  ultimately show ?thesis using e ok' al by (auto simp: R at r_def) (simp_all add: gen_at_def)
qed

section \<open>Runs of the world\<close>

text \<open>One call of the world; the label is the entity that it destroys, if any.  A component id is that of
  a registered type.\<close>

inductive ecs_step :: "'c World \<Rightarrow> EntityHandle option \<Rightarrow> 'c World \<Rightarrow> bool" where
  register: "RegisterComponent cid w = Some w' \<Longrightarrow> ecs_step w None w'"
| create: "CreateEntity w = Some (h, w') \<Longrightarrow> ecs_step w None w'"
| destroy: "IsAlive w e \<Longrightarrow> DestroyEntity e w = Some w' \<Longrightarrow> ecs_step w (Some e) w'"
| add: "cid < 64 \<Longrightarrow> AddComponent cid d e w = Some w' \<Longrightarrow> ecs_step w None w'"
| remove: "cid < 64 \<Longrightarrow> RemoveComponent cid e w = Some w' \<Longrightarrow> ecs_step w None w'"
| set: "cid < 64 \<Longrightarrow> SetComponent cid v e w = Some w' \<Longrightarrow> ecs_step w None w'"

inductive_cases ecs_step_destroyE: "ecs_step w (Some e) w'"
inductive_cases ecs_step_otherE: "ecs_step w None w'"

inductive ecs_run :: "'c World \<Rightarrow> EntityHandle list \<Rightarrow> 'c World \<Rightarrow> bool" for w0 where
  start: "ecs_run w0 [] w0"
| other: "ecs_run w0 es w \<Longrightarrow> ecs_step w None w' \<Longrightarrow> ecs_run w0 es w'"
| destroyed: "ecs_run w0 es w \<Longrightarrow> ecs_step w (Some e) w' \<Longrightarrow> ecs_run w0 (es @ [e]) w'"

lemma ecs_step_ok:
  assumes "ecs_step w l w'" "world_ok w"
  shows "world_ok w'"
  using assms
proof cases
  case (destroy e)
  then show ?thesis using DestroyEntity_frame [OF assms(2), of e] by auto
qed (auto dest: RegisterComponent_frame(1) CreateEntity_frame(1) AddComponent_frame(1) RemoveComponent_frame(1) SetComponent_frame(1))

lemma ecs_run_ok: "ecs_run w0 es w \<Longrightarrow> world_ok w0 \<Longrightarrow> world_ok w"
  by (induction rule: ecs_run.induct) (auto dest: ecs_step_ok)

text \<open>C24: The world stays well-formed.  Whatever calls are made from a fresh world on, the free list holds
  every dead slot once, each storage is a consistent sparse set, and an entity has a component in the
  storage of a type exactly when it is alive and its mask has the bit of that type.\<close>
theorem ecs_well_formed:
  assumes "ecs_run World_new es w"
  shows "world_ok w"
  using ecs_run_ok [OF assms world_new_ok] .

theorem ecs_well_formed_witness:
  "\<exists>w' :: nat World. CreateEntity World_new = Some (0x1, w') \<and> world_ok w'"
proof -
  have "CreateEntity (World_new :: nat World) = Some (0x1, World_new\<lparr>m_records := [EntityRecord_new, EntityRecord_new\<lparr>er_alive := True\<rparr>]\<rparr>)"
    by (simp add: CreateEntity_def World_new_def EntityRecord_new_def Make_def MAX_INDEX_eq INDEX_BITS_def Let_def)
  then show ?thesis using ecs_well_formed [OF ecs_run.other [OF ecs_run.start ecs_step.create]] by blast
qed

section \<open>The world refines a map from handles to component maps\<close>

definition world_abs :: "'c World \<Rightarrow> EntityHandle \<Rightarrow> (nat \<rightharpoonup> 'c) option" where
  "world_abs w e = (if IsAlive w e then Some (\<lambda>k. if k < 64 then GetComponent w k e else None) else None)"

lemma abs_create:
  assumes "world_ok w" "CreateEntity w = Some (h, w')"
  shows "world_abs w h = None \<and> world_abs w' = (world_abs w)(h \<mapsto> Map.empty)"
proof -
  note f = CreateEntity_frame [OF assms]
  have "GetComponent w' k h = None" if "k < 64" for k using f(2) f(4) [OF that] by (simp add: GetComponent_eq [of w])
  then show ?thesis using f(2-4) by (auto simp: world_abs_def fun_eq_iff)
qed

lemma abs_destroy:
  assumes "world_ok w"
  shows "\<exists>w'. DestroyEntity e w = Some w' \<and> world_abs w' = (world_abs w)(e := None)"
  using DestroyEntity_frame [OF assms, of e] by (auto simp: world_abs_def fun_eq_iff)

lemma abs_change:
  assumes "\<And>e'. IsAlive w' e' = IsAlive w e'" "IsAlive w e" "cid < 64"
    "\<And>k e'. k < 64 \<Longrightarrow> GetComponent w' k e' = (if k = cid \<and> e' = e then v else GetComponent w k e')"
  shows "\<exists>m. world_abs w e = Some m \<and> m cid = GetComponent w cid e \<and> world_abs w' = (world_abs w)(e \<mapsto> m(cid := v))"
  by (rule exI [of _ "\<lambda>k. if k < 64 then GetComponent w k e else None"])
    (use assms in \<open>auto simp: world_abs_def fun_eq_iff\<close>)

lemma abs_add:
  assumes "world_ok w" "cid < 64"
  shows "(case AddComponent cid d e w of
      None \<Rightarrow> m_storages w ! cid = None \<or> (case world_abs w e of None \<Rightarrow> True | Some m \<Rightarrow> m cid \<noteq> None)
    | Some w' \<Rightarrow> \<exists>m. world_abs w e = Some m \<and> m cid = None \<and> world_abs w' = (world_abs w)(e \<mapsto> m(cid \<mapsto> d)))"
proof (cases "AddComponent cid d e w")
  case None
  then have "m_storages w ! cid = None \<or> \<not> IsAlive w e \<or> GetComponent w cid e \<noteq> None"
    using AddComponent_total [OF assms, of e d] by (metis option.distinct(1))
  then show ?thesis using assms(2) unfolding None option.case world_abs_def by (cases "IsAlive w e"; cases "m_storages w ! cid") auto
next
  case (Some w')
  note f = AddComponent_frame [OF assms(1) Some assms(2)]
  show ?thesis using abs_change [of w' w e cid "Some d"] f(2-5) assms(2) by (simp add: Some)
qed

text \<open>The abstract lookup: the value of a component of a live handle.\<close>

definition abs_component :: "'c World \<Rightarrow> nat \<Rightarrow> EntityHandle \<Rightarrow> 'c option" where
  "abs_component w cid e = Option.bind (world_abs w e) (\<lambda>m. m cid)"

lemma abs_component: "cid < 64 \<Longrightarrow> abs_component w cid e = GetComponent w cid e"
  by (simp add: abs_component_def world_abs_def GetComponent_def)

lemma dom_abs: "dom (world_abs w) = {e. IsAlive w e}"
  by (auto simp: world_abs_def dom_def)

lemma abs_create_full:
  assumes "world_ok w"
  shows "case CreateEntity w of None \<Rightarrow> card (dom (world_abs w)) = 2 ^ 20 - 1
    | Some (h, w') \<Rightarrow> card (dom (world_abs w)) < 2 ^ 20 - 1 \<and> world_abs w h = None \<and>
        world_abs w' = (world_abs w)(h \<mapsto> Map.empty)"
proof (cases "CreateEntity w")
  case None
  then show ?thesis using CreateEntity_None_iff [OF assms] by (simp add: dom_abs)
next
  case (Some p)
  obtain h w' where p: "p = (h, w')" by (cases p)
  have "card {e. IsAlive w e} \<noteq> 2 ^ 20 - 1" using CreateEntity_None_iff [OF assms] Some by simp
  then have "card (dom (world_abs w)) < 2 ^ 20 - 1"
    using card_alive [OF assms] world_okD(2) [OF assms] unfolding dom_abs by linarith
  then show ?thesis using abs_create [OF assms Some [unfolded p]] by (simp add: Some p)
qed

lemma abs_add_full:
  assumes "world_ok w" "cid < 64"
  shows "case AddComponent cid d e w of
      None \<Rightarrow> m_storages w ! cid = None \<or> world_abs w e = None \<or> abs_component w cid e \<noteq> None
    | Some w' \<Rightarrow> m_storages w ! cid \<noteq> None \<and> abs_component w cid e = None \<and>
        (\<exists>m. world_abs w e = Some m \<and> world_abs w' = (world_abs w)(e \<mapsto> m(cid \<mapsto> d)))"
proof (cases "AddComponent cid d e w")
  case None
  then show ?thesis using abs_add [OF assms, where d = d and e = e] by (auto simp: abs_component_def split: option.splits)
next
  case (Some w')
  then have "m_storages w ! cid \<noteq> None" by (auto simp: AddComponent_def Let_def split: if_splits option.splits)
  then show ?thesis using abs_add [OF assms, where d = d and e = e] Some by (auto simp: abs_component_def)
qed

lemma abs_remove:
  assumes "world_ok w" "cid < 64"
  shows "case RemoveComponent cid e w of
      None \<Rightarrow> abs_component w cid e = None
    | Some w' \<Rightarrow> abs_component w cid e \<noteq> None \<and>
        (\<exists>m. world_abs w e = Some m \<and> world_abs w' = (world_abs w)(e \<mapsto> m(cid := None)))"
proof (cases "RemoveComponent cid e w")
  case None
  then have "GetComponent w cid e = None"
    using RemoveComponent_total [OF assms(1) _ assms(2), of e] by (cases "GetComponent w cid e") simp_all
  then show ?thesis by (simp add: None abs_component [OF assms(2)])
next
  case (Some w')
  note f = RemoveComponent_frame [OF assms(1) Some assms(2)]
  have "IsAlive w e" using f(4) by (auto simp: GetComponent_eq split: if_splits)
  from abs_change [of w' w e cid None, OF f(2) this assms(2) f(3)] f(4) show ?thesis
    by (auto simp: Some abs_component [OF assms(2)])
qed

lemma abs_set:
  assumes "world_ok w" "cid < 64"
  shows "case SetComponent cid v e w of
      None \<Rightarrow> abs_component w cid e = None
    | Some w' \<Rightarrow> abs_component w cid e \<noteq> None \<and>
        (\<exists>m. world_abs w e = Some m \<and> world_abs w' = (world_abs w)(e \<mapsto> m(cid \<mapsto> v)))"
proof (cases "SetComponent cid v e w")
  case None
  then have "GetComponent w cid e = None"
    using SetComponent_total [OF assms(1) _ assms(2), where e = e and v = v] by (cases "GetComponent w cid e") simp_all
  then show ?thesis by (simp add: None abs_component [OF assms(2)])
next
  case (Some w')
  note f = SetComponent_frame [OF assms(1) Some assms(2)]
  have "IsAlive w e" using f(4) by (auto simp: GetComponent_eq split: if_splits)
  from abs_change [of w' w e cid "Some v", OF f(2) this assms(2) f(3)] f(4) show ?thesis
    by (auto simp: Some abs_component [OF assms(2)])
qed

text \<open>C6: The world is a map from live handles to maps from component types to values.  In any world
  reached from a fresh one, every call that succeeds changes exactly its entry of the map, and every
  call succeeds exactly when the map allows it.  Reading gives the entry of the map.  Creating an
  entity gives a handle that was dead, with no component, and fails an assertion exactly when all
  \<open>2 ^ 20 - 1\<close> slots are taken.  Destroying one removes it with its components and never fails.
  Adding a component fails exactly when the type is not registered, the entity is dead or already has
  it; removing and writing one fail exactly when the entity is dead or does not have it.\<close>
theorem ecs_refines_map:
  fixes d :: 'c
  assumes "ecs_run World_new es w" "cid < 64"
  shows "(IsAlive w e \<longleftrightarrow> world_abs w e \<noteq> None) \<and> GetComponent w cid e = abs_component w cid e
    \<and> (case CreateEntity w of None \<Rightarrow> card (dom (world_abs w)) = 2 ^ 20 - 1
       | Some (h, w') \<Rightarrow> card (dom (world_abs w)) < 2 ^ 20 - 1 \<and> world_abs w h = None \<and>
           world_abs w' = (world_abs w)(h \<mapsto> Map.empty))
    \<and> (\<exists>w'. DestroyEntity e w = Some w' \<and> world_abs w' = (world_abs w)(e := None))
    \<and> (case AddComponent cid d e w of
         None \<Rightarrow> m_storages w ! cid = None \<or> world_abs w e = None \<or> abs_component w cid e \<noteq> None
       | Some w' \<Rightarrow> m_storages w ! cid \<noteq> None \<and> abs_component w cid e = None \<and>
           (\<exists>m. world_abs w e = Some m \<and> world_abs w' = (world_abs w)(e \<mapsto> m(cid \<mapsto> d))))
    \<and> (case RemoveComponent cid e w of
         None \<Rightarrow> abs_component w cid e = None
       | Some w' \<Rightarrow> abs_component w cid e \<noteq> None \<and>
           (\<exists>m. world_abs w e = Some m \<and> world_abs w' = (world_abs w)(e \<mapsto> m(cid := None))))
    \<and> (case SetComponent cid d e w of
         None \<Rightarrow> abs_component w cid e = None
       | Some w' \<Rightarrow> abs_component w cid e \<noteq> None \<and>
           (\<exists>m. world_abs w e = Some m \<and> world_abs w' = (world_abs w)(e \<mapsto> m(cid \<mapsto> d))))"
proof -
  have ok: "world_ok w" by (rule ecs_run_ok [OF assms(1) world_new_ok])
  show ?thesis
    by (intro conjI abs_create_full abs_destroy abs_add_full abs_remove abs_set abs_component [symmetric] ok assms(2))
      (simp add: world_abs_def)
qed

definition sample_world :: "nat World" where
  "sample_world = World_new\<lparr>m_records := [EntityRecord_new, EntityRecord_new\<lparr>er_alive := True\<rparr>],
     m_storages := (replicate 64 None)[3 := Some Storage_new]\<rparr>"

lemma sample_world_run: "ecs_run World_new [] sample_world"
proof -
  have "RegisterComponent 3 (World_new :: nat World) = Some (World_new\<lparr>m_storages := (replicate 64 None)[3 := Some Storage_new]\<rparr>)"
    by (simp add: RegisterComponent_def World_new_def MAX_COMPONENT_TYPES_def)
  moreover have "CreateEntity (World_new\<lparr>m_storages := (replicate 64 None)[3 := Some Storage_new]\<rparr>) = Some (0x1, sample_world)"
    by (simp add: CreateEntity_def World_new_def EntityRecord_new_def Make_def MAX_INDEX_eq INDEX_BITS_def Let_def sample_world_def)
  ultimately show ?thesis
    using ecs_run.start ecs_run.other ecs_step.register ecs_step.create by metis
qed

theorem ecs_refines_map_witness:
  "\<exists>w'. AddComponent 3 42 0x1 sample_world = Some w' \<and> world_abs w' 0x1 = Some [3 \<mapsto> 42]"
proof -
  have a: "world_abs sample_world 0x1 = Some Map.empty" "m_storages sample_world ! 3 \<noteq> None"
    by (auto simp: world_abs_def sample_world_def IsAlive_def GetComponent_def Index_def Generation_def MAX_INDEX_eq INDEX_BITS_def
        Let_def EntityRecord_new_def World_new_def fun_eq_iff nth_list_update_if Storage_Get_def Storage_new_def)
  then show ?thesis
    using ecs_refines_map [OF sample_world_run, where cid = 3 and e = "0x1" and d = 42]
    by (cases "AddComponent 3 42 0x1 sample_world") (auto simp: abs_component_def)
qed

section \<open>Stale handles\<close>

lemma next_gen: "g \<le> MAX_GEN \<Longrightarrow> unat ((g + 1) AND MAX_GEN) = (unat g + 1) mod 4096"
proof -
  assume "g \<le> MAX_GEN"
  then have g: "unat g < 4096" by (simp add: le_MAX_GEN)
  have m: "MAX_GEN = mask 12" by (simp add: MAX_INDEX_eq mask_eq_exp_minus_1)
  have "unat ((g + 1) AND MAX_GEN) = take_bit 12 (unat (g + 1))"
    unfolding m by (simp only: take_bit_eq_mask [symmetric] unsigned_take_bit_eq)
  also have "unat (g + 1) = unat g + 1" using g by (simp add: unat_word_ariths)
  finally show ?thesis by (simp add: take_bit_eq_mod)
qed

definition bumps :: "EntityHandle option \<Rightarrow> u32 \<Rightarrow> nat" where
  "bumps l i = (case l of Some e \<Rightarrow> if Index e = i then 1 else 0 | None \<Rightarrow> 0)"

lemma gen_keep:
  "RegisterComponent cid w = Some w' \<Longrightarrow> length (m_records w') = length (m_records w) \<and> gen_at w' i = gen_at w i"
  "AddComponent cid d e w = Some w' \<Longrightarrow> length (m_records w') = length (m_records w) \<and> gen_at w' i = gen_at w i"
  "RemoveComponent cid e w = Some w' \<Longrightarrow> length (m_records w') = length (m_records w) \<and> gen_at w' i = gen_at w i"
  "SetComponent cid d e w = Some w' \<Longrightarrow> length (m_records w') = length (m_records w) \<and> gen_at w' i = gen_at w i"
  by (auto simp: RegisterComponent_def AddComponent_def RemoveComponent_def SetComponent_def gen_at_def Let_def nth_list_update_if
      split: if_splits option.splits)

lemma gen_create:
  assumes "CreateEntity w = Some (h, w')" "unat i < length (m_records w)"
  shows "unat i < length (m_records w') \<and> gen_at w' i = gen_at w i"
  using assms by (auto simp: CreateEntity_def Let_def gen_at_def nth_list_update_if nth_append split: bind_splits if_splits)

lemma gen_step:
  assumes ok: "world_ok w" and st: "ecs_step w l w'" and i: "unat i < length (m_records w)"
  shows "unat i < length (m_records w') \<and> unat (gen_at w' i) = (unat (gen_at w i) + bumps l i) mod 4096"
  using st
proof cases
  case (destroy e)
  then show ?thesis using DestroyEntity_frame [OF ok, of e] i next_gen [OF world_okD(8) [OF ok i]] world_okD(8) [OF ok i]
    by (auto simp: bumps_def le_MAX_GEN)
qed (use world_okD(8) [OF ok i] i in \<open>auto simp: bumps_def le_MAX_GEN gen_keep [where i = i] dest: gen_create [where i = i]\<close>)

lemma gen_run:
  assumes "ecs_run w0 es w" "world_ok w0" "unat i < length (m_records w0)"
  shows "unat i < length (m_records w) \<and>
    unat (gen_at w i) = (unat (gen_at w0 i) + length (filter (\<lambda>e. Index e = i) es)) mod 4096"
  using assms
proof (induction rule: ecs_run.induct)
  case start
  then show ?case using world_okD(8) [of w0 i] by (simp add: le_MAX_GEN)
next
  case (other es w w')
  then show ?case using gen_step [OF ecs_run_ok [OF other(1,4)] other(2), of i] by (simp add: bumps_def)
next
  case (destroyed es w e w')
  then show ?case using gen_step [OF ecs_run_ok [OF destroyed(1,4)] destroyed(2), of i]
    by (simp add: bumps_def mod_add_left_eq)
qed

text \<open>C8: A stale handle stays dead.  After an entity is destroyed its handle is refused whatever happens
  to its slot, until the slot has been recycled a multiple of 4096 times: a handle that is alive in two
  worlds of a run had its slot destroyed \<open>4096 * k\<close> times in between.\<close>
theorem stale_handle_dead:
  assumes "ecs_run World_new es0 w" "IsAlive w e" "ecs_run w es w'" "IsAlive w' e"
  shows "4096 dvd length (filter (\<lambda>d. Index d = Index e) es)"
proof -
  have ok: "world_ok w" "world_ok w'" using ecs_run_ok [OF assms(1) world_new_ok] ecs_run_ok [OF assms(3)] by blast+
  let ?n = "length (filter (\<lambda>d. Index d = Index e) es)"
  have g: "gen_at w (Index e) = gen_at w' (Index e)" using assms(2,4) IsAlive_iff ok by metis
  have "unat (gen_at w' (Index e)) = (unat (gen_at w (Index e)) + ?n) mod 4096"
    using gen_run [OF assms(3) ok(1) IsAlive_index(1) [OF ok(1) assms(2)]] by simp
  then have "(unat (gen_at w (Index e)) + ?n) mod 4096 = unat (gen_at w (Index e))" by (simp add: g)
  then show ?thesis
    by (metis add_diff_cancel_left' diff_is_0_eq' dvd_0_right dvd_minus_mod linorder_linear mod_less_eq_dividend nat_add_left_cancel_le trans_le_add1)
qed

theorem stale_handle_dead_witness:
  "\<exists>w'. DestroyEntity 0x1 sample_world = Some w' \<and> \<not> IsAlive w' 0x1"
proof -
  have a: "IsAlive sample_world 0x1"
    by (simp add: sample_world_def IsAlive_def Index_def Generation_def MAX_INDEX_eq INDEX_BITS_def Let_def EntityRecord_new_def)
  have "world_ok sample_world" using ecs_run_ok [OF sample_world_run world_new_ok] .
  then obtain w' where w': "DestroyEntity 0x1 sample_world = Some w'" using DestroyEntity_frame [of sample_world "0x1"] by auto
  have "ecs_run sample_world ([] @ [0x1]) w'"
    by (rule ecs_run.destroyed [OF ecs_run.start ecs_step.destroy [OF a w']])
  from stale_handle_dead [OF sample_world_run a this] w' show ?thesis by auto
qed

section \<open>Iteration\<close>

lemma visited_iff:
  assumes "world_ok w" "idx \<in> {1..<length (m_records w)}" "set cids \<subseteq> {..<64}"
  shows "visited w (required_mask cids) idx \<longleftrightarrow>
    (\<exists>e. Index e = of_nat idx \<and> IsAlive w e \<and> (\<forall>cid \<in> set cids. HasComponent w cid e))"
proof -
  have u: "unat (of_nat idx :: u32) = idx" using assms(2) world_okD(2) [OF assms(1)] by auto
  have v: "visited w (required_mask cids) idx \<longleftrightarrow> alive_at w (of_nat idx) \<and> (\<forall>cid \<in> set cids. bit (mask_at w (of_nat idx)) cid)"
    using assms(2,3) by (auto simp: visited_def required_test alive_at_def mask_at_def u)
  have gen: "gen_at w (of_nat idx) \<le> MAX_GEN" using world_okD(8) [OF assms(1), of "of_nat idx"] assms(2) u by simp
  have "of_nat idx \<le> MAX_INDEX" using assms(2) world_okD(2) [OF assms(1)] u by (simp add: le_MAX_INDEX)
  then obtain h where h: "Make (of_nat idx) (gen_at w (of_nat idx)) = Some h" using Make_total gen by blast
  show ?thesis
  proof
    assume "visited w (required_mask cids) idx"
    then show "\<exists>e. Index e = of_nat idx \<and> IsAlive w e \<and> (\<forall>cid \<in> set cids. HasComponent w cid e)"
      using v Make_ok [OF h] by (intro exI [of _ h]) (auto simp: IsAlive_iff [OF assms(1)] HasComponent_iff [OF assms(1)])
  next
    assume "\<exists>e. Index e = of_nat idx \<and> IsAlive w e \<and> (\<forall>cid \<in> set cids. HasComponent w cid e)"
    then show "visited w (required_mask cids) idx"
      using v by (auto simp: IsAlive_iff [OF assms(1)] HasComponent_iff [OF assms(1)])
  qed
qed

text \<open>Iteration is deterministic and complete.  A loop whose body changes no entity record (it may write
  any component) runs its body once for each live entity that has all the listed components, in ascending
  order of the slots, and for nothing else.\<close>
theorem ForEach_exact:
  assumes "ecs_run World_new es w" "set cids \<subseteq> {..<64}" "\<forall>i w. m_records (fn i w) = m_records w"
  shows "ForEach cids fn w =
    fold (\<lambda>idx. fn (of_nat idx))
      (filter (\<lambda>idx. \<exists>e. Index e = of_nat idx \<and> IsAlive w e \<and> (\<forall>cid \<in> set cids. HasComponent w cid e))
        [1..<length (m_records w)]) w"
proof -
  have ok: "world_ok w" using ecs_run_ok [OF assms(1) world_new_ok] .
  have "fold (\<lambda>idx w. if visited w (required_mask cids) idx then fn (of_nat idx) w else w) xs w1 =
      fold (\<lambda>idx. fn (of_nat idx)) (filter (\<lambda>idx. visited w (required_mask cids) idx) xs) w1"
    if "m_records w1 = m_records w" for xs w1
    using that
  proof (induction xs arbitrary: w1)
    case (Cons x xs)
    have "visited w1 m x = visited w m x" for m using Cons.prems by (simp add: visited_def)
    then show ?case using Cons.IH Cons.prems assms(3) by simp
  qed simp
  moreover have "filter (\<lambda>idx. visited w (required_mask cids) idx) [1..<length (m_records w)] =
      filter (\<lambda>idx. \<exists>e. Index e = of_nat idx \<and> IsAlive w e \<and> (\<forall>cid \<in> set cids. HasComponent w cid e)) [1..<length (m_records w)]"
    using visited_iff [OF ok _ assms(2)] by (intro filter_cong) auto
  ultimately show ?thesis by (simp add: ForEach_def)
qed

theorem ForEach_exact_witness:
  "ForEach [3] (\<lambda>i w. w) sample_world = sample_world"
proof -
  have "fold (\<lambda>idx w. w) xs w = w" for xs :: "nat list" and w :: "nat World" by (induction xs) auto
  then show ?thesis using ForEach_exact [OF sample_world_run, of "[3]" "\<lambda>i w. w"] by simp
qed

end
