(* ===== verification/Serde_Bytes.thy ===== *)
theory Serde_Bytes
  imports Serde_Buffer
begin

text \<open>
  Byte strings inside a serialization buffer (\<open>WriteBytes\<close>, \<open>ReadBytes\<close>).  Both ends realign
  to a byte first; when all fields before the string are whole bytes this changes nothing, so the string
  reads back.  The notion \<open>reads_aligned\<close> is \<open>reads\<close> from a byte boundary.
\<close>

lemma aligned_free:
  assumes "wb_inv w" "8 dvd length (wb_bits w)"
  shows "m_bitsFree (m_writer w) = 0"
proof -
  let ?f = "m_bitsFree (m_writer w)" and ?n = "length (m_buf (m_writer w))"
  have inv: "writer_inv (m_writer w)" "?f < 8" using assms(1) by (simp_all add: wb_inv_def)
  have "8 dvd ?n * 8 - ?f" using assms(2) held_length [OF inv(1)] by (simp add: wb_bits_def BitWriter_BitLength_def)
  moreover have "?f \<le> ?n * 8" using inv by (cases "m_buf (m_writer w)") (auto simp: writer_inv_def)
  ultimately have "8 dvd ?f" by (metis dvd_diffD1 dvd_triv_right)
  then show ?thesis using inv(2) by (auto dest: dvd_imp_le)
qed

lemma fold_WriteUint8:
  "wb_inv w \<Longrightarrow> wb_inv (fold WriteUint8 p w) \<and> wb_bits (fold WriteUint8 p w) = wb_bits w @ bits_of_bytes p"
  by (induction p arbitrary: w) (simp_all add: wb_simps)

lemma WriteBytes_bits:
  assumes "wb_inv w" "8 dvd length (wb_bits w)"
  shows "wb_inv (WriteBytes p w)" "wb_bits (WriteBytes p w) = wb_bits w @ bits_of_bytes p"
proof -
  have "w\<lparr>m_writer := BitWriter_Flush (m_writer w)\<rparr> = w"
    using aligned_free [OF assms] by (simp add: BitWriter_Flush_def)
  then show "wb_inv (WriteBytes p w)" "wb_bits (WriteBytes p w) = wb_bits w @ bits_of_bytes p"
    using fold_WriteUint8 [OF assms(1)] by (simp_all add: WriteBytes_def)
qed

text \<open>A reader stops inside the byte it last fetched: it never holds a whole unread byte.\<close>

definition narrow :: "ReadBuffer \<Rightarrow> bool" where
  "narrow rb \<longleftrightarrow> m_bitAvail (m_reader rb) < 8"

definition keeps_narrow :: "'a rd \<Rightarrow> bool" where
  "keeps_narrow m \<longleftrightarrow> (\<forall>rb. narrow rb \<longrightarrow> narrow (snd (run_state m rb)))"

lemma Read_loop_narrow: "m_bitAvail r < 8 \<Longrightarrow> m_bitAvail (snd (Read_loop res n r)) < 8"
proof (induction res n r rule: Read_loop.induct)
  case (1 result bitsLeft r)
  show ?case
  proof (cases "bitsLeft > 0 \<and> \<not> (m_bitAvail r = 0 \<and> m_bytePos r \<ge> length (m_data r))")
    case False
    then show ?thesis using "1.prems" by (subst Read_loop.simps) auto
  next
    case True
    define r1 where "r1 = (if m_bitAvail r = 0
       then r\<lparr>m_current := m_data r ! m_bytePos r, m_bytePos := m_bytePos r + 1, m_bitAvail := 8\<rparr> else r)"
    let ?chunk = "min bitsLeft (m_bitAvail r1)"
    have "m_bitAvail (r1\<lparr>m_bitAvail := m_bitAvail r1 - ?chunk\<rparr>) < 8"
      using "1.prems" True by (auto simp: r1_def)
    from "1.IH" [OF _ _ r1_def refl refl this] True
    show ?thesis by (subst Read_loop.simps) (auto simp: r1_def [symmetric] Let_def)
  qed
qed

named_theorems narrow_intros \<open>readers that stop inside a byte\<close>

lemma narrow_ReadBits [narrow_intros]: "keeps_narrow (ReadBits n)"
  by (simp add: keeps_narrow_def narrow_def ReadBits_def ReadBits_raw_def BitReader_Read_def Read_loop_narrow case_prod_beta)

lemma narrow_return [narrow_intros]: "keeps_narrow (State_Monad.return v)"
  by (simp add: keeps_narrow_def)

lemma narrow_bind [narrow_intros]:
  "keeps_narrow m \<Longrightarrow> (\<And>x. keeps_narrow (k x)) \<Longrightarrow> keeps_narrow (State_Monad.bind m k)"
  by (simp add: keeps_narrow_def case_prod_beta)

lemma narrow_Uint [narrow_intros]:
  "keeps_narrow ReadUint8" "keeps_narrow ReadUint16" "keeps_narrow ReadUint32" "keeps_narrow ReadUint64"
  "keeps_narrow ReadInt64" "keeps_narrow ReadFloat"
  by (simp_all add: ReadUint8_def ReadUint16_def ReadUint32_def ReadUint64_def ReadInt64_def ReadFloat_def narrow_intros)

lemma narrow_many [narrow_intros]: "keeps_narrow m \<Longrightarrow> keeps_narrow (read_many n m)"
  by (induction n) (simp_all add: narrow_intros)

lemma narrow_IsGood [narrow_intros]: "keeps_narrow read_IsGood"
  by (simp add: keeps_narrow_def read_IsGood_def)

section \<open>Reading from a byte boundary\<close>

definition reads_aligned :: "'a rd \<Rightarrow> bool list \<Rightarrow> 'a \<Rightarrow> bool" where
  "reads_aligned m bs v \<longleftrightarrow>
     (\<forall>rb rest. rb_inv rb \<and> IsGood rb \<and> narrow rb \<and> rb_rest rb = bs @ rest \<and> 8 dvd length (bs @ rest) \<longrightarrow>
       (case run_state m rb of (x, rb') \<Rightarrow> x = v \<and> rb_inv rb' \<and> IsGood rb' \<and> narrow rb' \<and> rb_rest rb' = rest))"

lemma reads_alignedD:
  assumes "reads_aligned m bs v" "rb_inv rb" "IsGood rb" "narrow rb" "rb_rest rb = bs @ rest" "8 dvd length (bs @ rest)"
    "run_state m rb = (x, rb')"
  shows "x = v" "rb_inv rb'" "IsGood rb'" "narrow rb'" "rb_rest rb' = rest"
  using assms(1) [unfolded reads_aligned_def, rule_format, of rb rest] assms(2-7) by simp_all

lemma reads_aligned:
  assumes "reads m bs v" "keeps_narrow m"
  shows "reads_aligned m bs v"
  unfolding reads_aligned_def
proof (intro allI impI)
  fix rb rest
  assume rb: "rb_inv rb \<and> IsGood rb \<and> narrow rb \<and> rb_rest rb = bs @ rest \<and> 8 dvd length (bs @ rest)"
  obtain x rb' where r: "run_state m rb = (x, rb')" by (cases "run_state m rb")
  have "narrow rb'" using assms(2) rb r unfolding keeps_narrow_def by (metis snd_conv)
  with readsD [OF assms(1) _ _ _ r, of rest] rb r
  show "case run_state m rb of (x, rb') \<Rightarrow> x = v \<and> rb_inv rb' \<and> IsGood rb' \<and> narrow rb' \<and> rb_rest rb' = rest" by simp
qed

lemma reads_aligned_eq: "reads_aligned m bs v \<Longrightarrow> v = v' \<Longrightarrow> reads_aligned m bs v'"
  by simp

lemma reads_aligned_bind:
  assumes m: "reads_aligned m bs v" and d: "8 dvd length bs" and k: "reads_aligned (k v) cs w"
  shows "reads_aligned (State_Monad.bind m k) (bs @ cs) w"
  unfolding reads_aligned_def
proof (intro allI impI)
  fix rb rest
  assume rb: "rb_inv rb \<and> IsGood rb \<and> narrow rb \<and> rb_rest rb = (bs @ cs) @ rest \<and> 8 dvd length ((bs @ cs) @ rest)"
  obtain x rb1 where r1: "run_state m rb = (x, rb1)" by (cases "run_state m rb")
  obtain y rb2 where r2: "run_state (k v) rb1 = (y, rb2)" by (cases "run_state (k v) rb1")
  have 1: "x = v" "rb_inv rb1" "IsGood rb1" "narrow rb1" "rb_rest rb1 = cs @ rest"
    using reads_alignedD [OF m _ _ _ _ _ r1, of "cs @ rest"] rb by simp_all
  have "8 dvd length (cs @ rest)" using rb d by (simp add: dvd_add_right_iff)
  note 2 = reads_alignedD [OF k 1(2-5) this r2]
  then show "case run_state (State_Monad.bind m k) rb of
      (x, rb') \<Rightarrow> x = w \<and> rb_inv rb' \<and> IsGood rb' \<and> narrow rb' \<and> rb_rest rb' = rest"
    using r1 r2 1 by simp
qed

lemmas reads_aligned_field = reads_aligned_bind [OF reads_aligned]

lemma align_noop:
  assumes "narrow rb" "8 dvd length (rb_rest rb)"
  shows "rb\<lparr>m_reader := AlignToByte (m_reader rb)\<rparr> = rb"
proof -
  have "8 dvd m_bitAvail (m_reader rb)"
    using assms(2) by (simp add: rb_rest_def remaining_bits_def dvd_add_left_iff)
  then have "m_bitAvail (m_reader rb) = 0" using assms(1) by (auto simp: narrow_def dest: dvd_imp_le)
  then show ?thesis by (simp add: AlignToByte_def)
qed

lemma traverse_ReadUint8:
  "reads_aligned (State_Monad.traverse_list (\<lambda>_. ReadUint8) is) (bits_of_bytes bs) bs" if "length is = length bs"
  using that
proof (induction "is" bs rule: list_induct2)
  case Nil
  show ?case by (simp add: reads_aligned reads_return narrow_return)
next
  case (Cons i "is" b bs)
  have "reads_aligned (do { xs \<leftarrow> State_Monad.traverse_list (\<lambda>_. ReadUint8) is; State_Monad.return (b # xs) })
      (bits_of_bytes bs @ []) (b # bs)"
    by (rule reads_aligned_bind [OF Cons.IH]) (simp_all add: reads_aligned reads_return narrow_return)
  then show ?case
    using reads_aligned_field [OF reads_ReadUint8, of b] by (simp add: narrow_Uint)
qed

lemma reads_ReadBytes: "reads_aligned (ReadBytes (length bs)) (bits_of_bytes bs) bs"
  unfolding reads_aligned_def
proof (intro allI impI)
  fix rb rest
  assume rb: "rb_inv rb \<and> IsGood rb \<and> narrow rb \<and> rb_rest rb = bits_of_bytes bs @ rest \<and> 8 dvd length (bits_of_bytes bs @ rest)"
  then have "rb\<lparr>m_reader := AlignToByte (m_reader rb)\<rparr> = rb" by (intro align_noop) simp_all
  then have "run_state (ReadBytes (length bs)) rb = run_state (State_Monad.traverse_list (\<lambda>_. ReadUint8) [0..<length bs]) rb"
    by (simp add: ReadBytes_def)
  moreover obtain x rb' where r: "run_state (State_Monad.traverse_list (\<lambda>_. ReadUint8) [0..<length bs]) rb = (x, rb')"
    by (cases "run_state (State_Monad.traverse_list (\<lambda>_. ReadUint8) [0..<length bs]) rb")
  moreover note reads_alignedD [OF traverse_ReadUint8 _ _ _ _ _ r, of bs rest]
  ultimately show "case run_state (ReadBytes (length bs)) rb of
      (x, rb') \<Rightarrow> x = bs \<and> rb_inv rb' \<and> IsGood rb' \<and> narrow rb' \<and> rb_rest rb' = rest"
    using rb by simp
qed

lemma decoded_from_aligned:
  assumes "reads_aligned m bs v" "wb_inv wb" "wb_bits wb = bits_msb 32 SERDE_VERSION @ bs" "8 dvd length bs"
  shows "decoded_from m (WriteBuffer_Data (Finalise wb)) = (v, True)"
    and "IsGood (ReadBuffer_new (WriteBuffer_Data (Finalise wb)))"
proof -
  let ?d = "WriteBuffer_Data (Finalise wb)"
  have "8 dvd length (wb_bits wb)" using assms(3,4) by simp
  then have free: "m_bitsFree (m_writer wb) = 0" by (rule aligned_free [OF assms(2)])
  have "bits_of_bytes ?d = bits_msb 32 SERDE_VERSION @ bs"
    using padding_zero [of "m_writer wb"] assms(2,3) free
    by (simp add: WriteBuffer_Data_def Finalise_def BitWriter_Flush_def wb_inv_def wb_bits_def)
  note new = ReadBuffer_new_good [OF this]
  then show "IsGood (ReadBuffer_new ?d)" by simp
  have n: "narrow (ReadBuffer_new ?d)"
  proof -
    have "narrow (snd (run_state ReadUint32 \<lparr>m_reader = BitReader_new ?d, m_versionMismatch = False\<rparr>))"
      using narrow_Uint(3) by (simp add: keeps_narrow_def narrow_def BitReader_new_def)
    then show ?thesis by (simp add: ReadBuffer_new_def narrow_def case_prod_beta)
  qed
  obtain x rb' where r: "run_state m (ReadBuffer_new ?d) = (x, rb')" by (cases "run_state m (ReadBuffer_new ?d)")
  from reads_alignedD [OF assms(1) _ _ n _ _ r, of "[]"] new assms(4) r
  show "decoded_from m ?d = (v, True)" by (simp add: decoded_from_def)
qed

end
