(* ===== verification/Command_Codec.thy ===== *)
theory Command_Codec
  imports Serde_Bytes Universe_Pos
begin

text \<open>
  \<open>NeuronCore/Command.h\<close>: the encoding of a fleet command.  The intent is the byte the decoder
  casts without a check, the range a bit pattern.
\<close>

type_synonym IntentType = u8
definition IntentStop :: IntentType where "IntentStop = 0"
definition IntentMove :: IntentType where "IntentMove = 1"
definition IntentAttack :: IntentType where "IntentAttack = 2"
definition IntentGuard :: IntentType where "IntentGuard = 3"
definition IntentOrbit :: IntentType where "IntentOrbit = 4"
definition IntentKeepRange :: IntentType where "IntentKeepRange = 5"
definition IntentHarvest :: IntentType where "IntentHarvest = 6"
definition IntentWarp :: IntentType where "IntentWarp = 7"
definition IntentJump :: IntentType where "IntentJump = 8"
definition IntentRetreat :: IntentType where "IntentRetreat = 9"
definition IntentBuild :: IntentType where "IntentBuild = 10"
definition IntentClaimLoot :: IntentType where "IntentClaimLoot = 11"

record FleetCommand =
  clientTick :: u32
  intent :: IntentType
  queue :: bool
  cmd_units :: "u32 list"
  targetNetId :: u32
  targetPoint :: UniversePos
  cmd_range :: float32
  beacon :: bytes

definition FLEET_COMMAND_VERSION :: u8 where "FLEET_COMMAND_VERSION = 1"

definition command_buffer :: "FleetCommand \<Rightarrow> WriteBuffer" where
  "command_buffer c =
     (let wb = WriteBuffer_new;
          wb = WriteUint8 FLEET_COMMAND_VERSION wb;
          wb = WriteUint32 (clientTick c) wb;
          wb = WriteUint8 (intent c) wb;
          wb = WriteUint8 (if queue c then 1 else 0) wb;
          wb = WriteUint16 (of_nat (length (cmd_units c))) wb;
          wb = fold WriteUint32 (cmd_units c) wb;
          wb = WriteUint32 (targetNetId c) wb;
          wb = WriteInt64 (up_x (targetPoint c)) wb;
          wb = WriteInt64 (up_y (targetPoint c)) wb;
          wb = WriteInt64 (up_z (targetPoint c)) wb;
          wb = WriteFloat (cmd_range c) wb;
          wb = WriteUint16 (of_nat (length (beacon c))) wb
      in if beacon c \<noteq> [] then WriteBytes (beacon c) wb else wb)"

definition EncodeFleetCommand :: "FleetCommand \<Rightarrow> bytes" where
  "EncodeFleetCommand c = WriteBuffer_Data (Finalise (command_buffer c))"

definition ReadFleetCommand :: "FleetCommand option rd" where
  "ReadFleetCommand = do {
     version \<leftarrow> ReadUint8;
     if version \<noteq> FLEET_COMMAND_VERSION then State_Monad.return None
     else do {
       tick \<leftarrow> ReadUint32;
       intent \<leftarrow> ReadUint8;
       q \<leftarrow> ReadUint8;
       n \<leftarrow> ReadUint16;
       units \<leftarrow> read_many (unat n) ReadUint32;
       target \<leftarrow> ReadUint32;
       x \<leftarrow> ReadInt64; y \<leftarrow> ReadInt64; z \<leftarrow> ReadInt64;
       rng \<leftarrow> ReadFloat;
       blen \<leftarrow> ReadUint16;
       name \<leftarrow> (if blen \<noteq> 0 then ReadBytes (unat blen) else State_Monad.return []);
       good \<leftarrow> read_IsGood;
       State_Monad.return (if good then Some \<lparr>clientTick = tick, intent = intent, queue = (q \<noteq> 0), cmd_units = units,
         targetNetId = target, targetPoint = \<lparr>up_x = x, up_y = y, up_z = z\<rparr>, cmd_range = rng, beacon = name\<rparr> else None)
     }
   }"

definition DecodeFleetCommand :: "bytes \<Rightarrow> FleetCommand option" where
  "DecodeFleetCommand body =
     (let rb = ReadBuffer_new body
      in if \<not> IsGood rb then None else fst (run_state ReadFleetCommand rb))"

section \<open>Round trip\<close>

definition command_bits :: "FleetCommand \<Rightarrow> bool list" where
  "command_bits c =
     bits_msb 8 FLEET_COMMAND_VERSION @ bits_msb 32 (clientTick c) @ bits_msb 8 (intent c) @
     bits_msb 8 (if queue c then 1 else 0 :: u8) @ bits_msb 16 (of_nat (length (cmd_units c)) :: u16) @
     concat (map (bits_msb 32) (cmd_units c)) @ bits_msb 32 (targetNetId c) @
     bits_msb 64 (up_x (targetPoint c)) @ bits_msb 64 (up_y (targetPoint c)) @ bits_msb 64 (up_z (targetPoint c)) @
     bits_msb 32 (cmd_range c) @ bits_msb 16 (of_nat (length (beacon c)) :: u16) @ bits_of_bytes (beacon c) @ [] @ []"

interpretation unit_list: codec WriteUint32 "bits_msb 32" "\<lambda>_. True" ReadUint32 32
  by unfold_locales (simp_all add: wb_simps reads_intros wellread_intros)

lemma dvd_concat: "(\<And>x. x \<in> set xs \<Longrightarrow> 8 dvd length (f x)) \<Longrightarrow> 8 dvd length (concat (map f xs))"
  by (induction xs) simp_all

lemma command_bits_dvd: "8 dvd length (command_bits c)"
  by (simp add: command_bits_def dvd_concat)

lemma command_buffer_bits:
  "wb_inv (command_buffer c) \<and> wb_bits (command_buffer c) = bits_msb 32 SERDE_VERSION @ command_bits c"
proof -
  have dvd: "8 dvd length (concat (map (bits_msb 32) (cmd_units c)))" by (simp add: dvd_concat)
  have fw: "wb_inv w \<Longrightarrow> wb_inv (fold WriteUint32 us w)" "wb_inv w \<Longrightarrow> wb_bits (fold WriteUint32 us w) = wb_bits w @ concat (map (bits_msb 32) us)"
    for w us using unit_list.fold_wr [of w us] by (simp_all add: list_all_iff)
  show ?thesis
    by (simp add: command_buffer_def Let_def command_bits_def wb_simps fw WriteBytes_bits dvd)
qed

lemma reads_command:
  assumes "length (cmd_units c) < 65536" "length (beacon c) < 65536"
  shows "reads_aligned ReadFleetCommand (command_bits c) (Some c)"
proof -
  have n: "unat (of_nat (length (cmd_units c)) :: u16) = length (cmd_units c)"
    "unat (of_nat (length (beacon c)) :: u16) = length (beacon c)"
    using assms by (simp_all add: unat_of_nat)
  have us: "reads_aligned (read_many (unat (of_nat (length (cmd_units c)) :: u16)) ReadUint32) (concat (map (bits_msb 32) (cmd_units c))) (cmd_units c)"
    unfolding n by (intro reads_aligned unit_list.reads_many narrow_intros) (simp add: list_all_iff)
  have nm: "reads_aligned (if (of_nat (length (beacon c)) :: u16) \<noteq> 0 then ReadBytes (unat (of_nat (length (beacon c)) :: u16))
      else State_Monad.return []) (bits_of_bytes (beacon c)) (beacon c)"
  proof (cases "beacon c = []")
    case True
    then have "(of_nat (length (beacon c)) :: u16) = 0" by simp
    then show ?thesis using reads_aligned [OF reads_return narrow_return, of "[] :: bytes"] by (simp add: True)
  next
    case False
    then have "unat (of_nat (length (beacon c)) :: u16) \<noteq> 0" unfolding n by simp
    then have "(of_nat (length (beacon c)) :: u16) \<noteq> 0" by (metis unsigned_0)
    then show ?thesis unfolding n(2) by (simp only: if_True not_False_eq_True) (rule reads_ReadBytes)
  qed
  have bl: "8 dvd length (bits_of_bytes (beacon c))" "8 dvd length (concat (map (bits_msb 32) (cmd_units c)))"
    by (simp_all add: dvd_concat)
  have "reads_aligned ReadFleetCommand (command_bits c)
     (Some \<lparr>clientTick = clientTick c, intent = intent c, queue = ((if queue c then 1 else 0 :: u8) \<noteq> 0), cmd_units = cmd_units c,
        targetNetId = targetNetId c, targetPoint = \<lparr>up_x = up_x (targetPoint c), up_y = up_y (targetPoint c), up_z = up_z (targetPoint c)\<rparr>,
        cmd_range = cmd_range c, beacon = beacon c\<rparr>)"
    unfolding ReadFleetCommand_def command_bits_def
    apply (rule reads_aligned_field [OF reads_ReadUint8 narrow_Uint(1)], simp, simp only: refl not_True_eq_False if_False)
    apply (rule reads_aligned_field [OF reads_ReadUint32 narrow_Uint(3)], simp)
    apply (rule reads_aligned_field [OF reads_ReadUint8 narrow_Uint(1)], simp)
    apply (rule reads_aligned_field [OF reads_ReadUint8 narrow_Uint(1)], simp)
    apply (rule reads_aligned_field [OF reads_ReadUint16 narrow_Uint(2)], simp)
    apply (rule reads_aligned_bind [OF us bl(2)])
    apply (rule reads_aligned_field [OF reads_ReadUint32 narrow_Uint(3)], simp)
    apply (rule reads_aligned_field [OF reads_ReadInt64 narrow_Uint(5)], simp)+
    apply (rule reads_aligned_field [OF reads_ReadFloat narrow_Uint(6)], simp)
    apply (rule reads_aligned_field [OF reads_ReadUint16 narrow_Uint(2)], simp)
    apply (rule reads_aligned_bind [OF nm bl(1)])
    apply (rule reads_aligned_field [OF reads_IsGood narrow_IsGood], simp)
    apply (simp only: if_True)
    apply (rule reads_aligned [OF reads_return narrow_return])
    done
  then show ?thesis by (rule reads_aligned_eq) simp
qed

text \<open>C28: A fleet command survives the wire.  Every command of fewer than 65536 units and with a beacon
  name of fewer than 65536 bytes decodes to itself.\<close>
theorem fleet_command_roundtrip:
  assumes "length (cmd_units c) < 65536" "length (beacon c) < 65536"
  shows "DecodeFleetCommand (EncodeFleetCommand c) = Some c"
proof -
  note b = command_buffer_bits [of c]
  note d = decoded_from_aligned [OF reads_command [OF assms] _ _ command_bits_dvd, of "command_buffer c"]
  have "fst (run_state ReadFleetCommand (ReadBuffer_new (EncodeFleetCommand c))) = Some c"
    using d(1) b by (auto simp: decoded_from_def EncodeFleetCommand_def case_prod_beta)
  then show ?thesis using d(2) b by (simp add: DecodeFleetCommand_def EncodeFleetCommand_def Let_def)
qed

theorem fleet_command_roundtrip_witness:
  "DecodeFleetCommand (EncodeFleetCommand \<lparr>clientTick = 9, intent = IntentJump, queue = True, cmd_units = [3, 4], targetNetId = 0,
     targetPoint = UniversePos_zero, cmd_range = 0, beacon = [71, 65]\<rparr>) \<noteq> None"
  by (subst fleet_command_roundtrip) simp_all

end
