(* ===== verification/Single_Arith.thy ===== *)
theory Single_Arith
  imports Float_Arith
begin

text \<open>
  C++ \<open>float\<close> arithmetic on values, for the simulation rules: a finite float is the rational
  number it denotes, and an operation is the exact result rounded to 24 significant bits, to nearest
  with ties to even, with gradual underflow.  Overflow, NaN and the sign of zero are not modelled: the
  rules compute with hit points, seconds, metres and fractions.  Also the square root of a double,
  correctly rounded as IEEE 754 requires.
\<close>

type_synonym single = rat

definition rnd32 :: "rat \<Rightarrow> single" where
  "rnd32 x = (if x = 0 then 0
     else let u = 2 powi (max (binexp x) (- 126) - 23) in of_int (round_even (x / u)) * u)"

definition fadd :: "single \<Rightarrow> single \<Rightarrow> single" where "fadd a b = rnd32 (a + b)"
definition fsub :: "single \<Rightarrow> single \<Rightarrow> single" where "fsub a b = rnd32 (a - b)"
definition fmul :: "single \<Rightarrow> single \<Rightarrow> single" where "fmul a b = rnd32 (a * b)"
definition fdiv :: "single \<Rightarrow> single \<Rightarrow> single" where "fdiv a b = rnd32 (a / b)"

text \<open>\<open>static_cast<float>\<close> of an integer and \<open>std::lround\<close>, \<open>std::llround\<close>.\<close>

definition single_of_int :: "int \<Rightarrow> single" where "single_of_int i = rnd32 (of_int i)"

definition lround :: "rat \<Rightarrow> int" where
  "lround x = (if x < 0 then - \<lfloor>- x + 1 / 2\<rfloor> else \<lfloor>x + 1 / 2\<rfloor>)"

text \<open>\<open>std::sqrt\<close>: the root scaled to 53 bits is rounded to the nearer integer; no tie can occur.\<close>

definition isqrt_step :: "int \<Rightarrow> nat \<Rightarrow> int \<Rightarrow> int" where
  "isqrt_step n k r = (if (r + 2 ^ k) * (r + 2 ^ k) \<le> n then r + 2 ^ k else r)"

definition isqrt :: "int \<Rightarrow> int" where
  "isqrt n = fold (isqrt_step n) (rev [0..<nat (bitlen n)]) 0"

definition dsqrt :: "double \<Rightarrow> double" where
  "dsqrt x = (if x \<le> 0 then 0
     else let e = binexp x div 2; u = 2 powi (e - 52); q = x / (u * u);
              m = isqrt \<lfloor>q\<rfloor>
          in of_int (if q > of_int (m * m + m) + 1 / 4 then m + 1 else m) * u)"

section \<open>The integer square root\<close>

lemma isqrt_fold:
  assumes "0 \<le> r" "r * r \<le> n" "n < (r + 2 ^ k) * (r + 2 ^ k)"
  shows "let r' = fold (isqrt_step n) (rev [0..<k]) r in 0 \<le> r' \<and> r' * r' \<le> n \<and> n < (r' + 1) * (r' + 1)"
  using assms
proof (induction k arbitrary: r)
  case 0
  then show ?case by simp
next
  case (Suc k)
  have "0 \<le> isqrt_step n k r \<and> isqrt_step n k r * isqrt_step n k r \<le> n \<and>
      n < (isqrt_step n k r + 2 ^ k) * (isqrt_step n k r + 2 ^ k)"
    using Suc.prems by (simp add: isqrt_step_def algebra_simps)
  with Suc.IH [of "isqrt_step n k r"] show ?case by (simp add: Let_def)
qed

lemma isqrt_ok:
  assumes "0 \<le> n"
  shows "0 \<le> isqrt n" "isqrt n * isqrt n \<le> n" "n < (isqrt n + 1) * (isqrt n + 1)"
proof -
  have "n < 2 ^ nat (bitlen n)" using assms bitlen_bounds [of n] by (cases "n = 0") auto
  also have "(2 :: int) ^ nat (bitlen n) * 1 \<le> 2 ^ nat (bitlen n) * 2 ^ nat (bitlen n)" by (intro mult_left_mono) simp_all
  finally show "0 \<le> isqrt n" "isqrt n * isqrt n \<le> n" "n < (isqrt n + 1) * (isqrt n + 1)"
    using isqrt_fold [of 0 n "nat (bitlen n)"] assms by (simp_all add: isqrt_def Let_def)
qed

section \<open>Rounding\<close>

lemma rnd32_0 [simp]: "rnd32 0 = 0"
  by (simp add: rnd32_def)

lemma round_even_nonneg: "0 \<le> x \<Longrightarrow> 0 \<le> round_even x"
  using round_even_mono [of 0 x] round_even_of_int [of 0] by simp

lemma round_even_minus: "round_even (- x) = - round_even x"
proof (cases "x = of_int \<lfloor>x\<rfloor>")
  case True
  then obtain i where "x = of_int i" by blast
  then show ?thesis using round_even_of_int [of "- i"] by simp
next
  case False
  then have f: "\<lfloor>- x\<rfloor> = - \<lfloor>x\<rfloor> - 1" using of_int_floor_le [of x] by (intro floor_unique) linarith+
  have "even (- \<lfloor>x\<rfloor> - 1) \<longleftrightarrow> odd \<lfloor>x\<rfloor>" by simp
  then show ?thesis unfolding round_even_def Let_def f by auto
qed

lemma binexp_minus: "binexp (- x) = binexp x"
proof (cases "x = 0")
  case False
  then show ?thesis using binexp_bounds [OF False] by (intro binexp_unique) simp_all
qed simp

lemma rnd32_minus: "rnd32 (- x) = - rnd32 x"
  by (simp add: rnd32_def Let_def binexp_minus round_even_minus minus_divide_left [symmetric] del: minus_divide_left)

lemma rnd32_nonneg: "0 \<le> x \<Longrightarrow> 0 \<le> rnd32 x"
  using round_even_nonneg by (auto simp: rnd32_def Let_def intro!: mult_nonneg_nonneg)

lemma rnd32_nonpos: "x \<le> 0 \<Longrightarrow> rnd32 x \<le> 0"
  using rnd32_nonneg [of "- x"] by (simp add: rnd32_minus)

text \<open>The exponent is monotone, so rounding is.\<close>

lemma binexp_mono: "0 < x \<Longrightarrow> x \<le> y \<Longrightarrow> binexp x \<le> binexp y"
proof (rule ccontr)
  assume xy: "0 < x" "x \<le> y" and "\<not> binexp x \<le> binexp y"
  then have "(2 :: rat) powi (binexp y + 1) \<le> 2 powi binexp x" by (intro power_int_increasing) simp_all
  with binexp_bounds(2) [of y] binexp_bounds(1) [of x] xy show False by simp
qed

lemma rnd32_mono_pos:
  assumes "0 < x" "x \<le> y"
  shows "rnd32 x \<le> rnd32 y"
proof -
  let ?a = "max (binexp x) (- 126)" and ?b = "max (binexp y) (- 126)"
  have ux: "0 < (2 :: rat) powi (?a - 23)" and uy: "0 < (2 :: rat) powi (?b - 23)" by simp_all
  have rx: "rnd32 x = of_int (round_even (x / 2 powi (?a - 23))) * 2 powi (?a - 23)"
    and ry: "rnd32 y = of_int (round_even (y / 2 powi (?b - 23))) * 2 powi (?b - 23)"
    using assms by (simp_all add: rnd32_def Let_def)
  show ?thesis
  proof (cases "?a = ?b")
    case True
    have "x / 2 powi (?b - 23) \<le> y / 2 powi (?b - 23)" using assms(2) uy by (simp add: divide_right_mono)
    from round_even_mono [OF this] show ?thesis unfolding rx ry True using uy by (intro mult_right_mono) simp_all
  next
    case False
    with binexp_mono [OF assms] have lt: "?a < ?b" "?b = binexp y" "binexp x \<le> ?a" by auto
    have p: "(2 :: rat) powi (?a + 1) = 2 ^ 24 * 2 powi (?a - 23)" for a :: int
      using power_int_add [of "2 :: rat" 24 "?a - 23"] by (simp add: add.commute)
    have q: "(2 :: rat) powi ?b = 2 ^ 23 * 2 powi (?b - 23)"
      using power_int_add [of "2 :: rat" 23 "?b - 23"] by (simp add: add.commute)
    have "x < 2 powi (binexp x + 1)" using binexp_bounds(2) [of x] assms(1) by simp
    also have "\<dots> \<le> 2 powi (?a + 1)" using lt(3) by (intro power_int_increasing) simp_all
    finally have "x / 2 powi (?a - 23) \<le> of_int (2 ^ 24)" unfolding p using ux by (simp add: divide_le_eq)
    from round_even_mono [OF this] have "round_even (x / 2 powi (?a - 23)) \<le> 2 ^ 24" by (simp only: round_even_of_int)
    then have "(of_int (round_even (x / 2 powi (?a - 23))) :: rat) \<le> of_int (2 ^ 24)" by (simp only: of_int_le_iff)
    then have 1: "rnd32 x \<le> 2 powi (?a + 1)" unfolding rx p using ux by (intro mult_right_mono) simp_all
    have "?a + 1 \<le> ?b" using lt(1) by linarith
    then have 2: "(2 :: rat) powi (?a + 1) \<le> 2 powi ?b" by (intro power_int_increasing) simp_all
    have "2 powi ?b \<le> y" using binexp_bounds(1) [of y] assms lt(2) by simp
    then have "of_int (2 ^ 23) \<le> y / 2 powi (?b - 23)" unfolding q using uy by (simp add: le_divide_eq)
    from round_even_mono [OF this] have "2 ^ 23 \<le> round_even (y / 2 powi (?b - 23))" by (simp only: round_even_of_int)
    then have "(of_int (2 ^ 23) :: rat) \<le> of_int (round_even (y / 2 powi (?b - 23)))" by (simp only: of_int_le_iff)
    then have 3: "2 powi ?b \<le> rnd32 y" unfolding ry q using uy by (intro mult_right_mono) simp_all
    from 1 2 3 show ?thesis by linarith
  qed
qed

lemma rnd32_mono: "x \<le> y \<Longrightarrow> rnd32 x \<le> rnd32 y"
proof -
  assume le: "x \<le> y"
  consider "0 < x" | "x \<le> 0" "0 \<le> y" | "y < 0" by linarith
  then show ?thesis
  proof cases
    case 1
    then show ?thesis using le by (rule rnd32_mono_pos)
  next
    case 2
    then show ?thesis using rnd32_nonneg [of y] rnd32_nonpos [of x] by linarith
  next
    case 3
    then show ?thesis using rnd32_mono_pos [of "- y" "- x"] le by (simp add: rnd32_minus)
  qed
qed

text \<open>Integers of up to 24 bits are floats, and so are the floats themselves.\<close>

lemma rnd32_scaled:
  assumes "\<bar>m\<bar> \<le> 2 ^ 24" "- 149 \<le> k"
  shows "rnd32 (of_int m * 2 powi k) = of_int m * 2 powi k"
proof (cases "m = 0")
  case False
  let ?x = "of_int m * 2 powi k :: rat"
  have nz: "?x \<noteq> 0" using False by simp
  let ?e = "max (binexp ?x) (- 126) - 23"
  have "of_int \<bar>m\<bar> \<le> (of_int (2 ^ 24) :: rat)" using assms(1) by (simp only: of_int_le_iff)
  then have "\<bar>?x\<bar> \<le> 2 ^ 24 * 2 powi k" by (simp add: abs_mult)
  also have "\<dots> = 2 powi (24 + k)" by (simp add: power_int_add)
  finally have up: "\<bar>?x\<bar> \<le> 2 powi (24 + k)" .
  have "binexp ?x \<le> 24 + k"
  proof (rule ccontr)
    assume "\<not> ?thesis"
    then have "(2 :: rat) powi (24 + k) < 2 powi binexp ?x" by (intro power_int_strict_increasing) simp_all
    with binexp_bounds(1) [OF nz] up show False by linarith
  qed
  then consider "?e \<le> k" | "binexp ?x = 24 + k" "?e = k + 1" using assms(2) by fastforce
  then obtain i :: int where i: "?x / 2 powi ?e = of_int i"
  proof cases
    case 1
    have "?x / 2 powi ?e = of_int m * 2 powi (k - ?e)" by (simp add: power_int_diff)
    also have "\<dots> = of_int (m * 2 ^ nat (k - ?e))" using 1 by (simp add: power_int_def)
    finally show ?thesis using that by blast
  next
    case 2
    have "2 powi (24 + k) \<le> \<bar>?x\<bar>" using binexp_bounds(1) [OF nz] 2(1) by simp
    with up have "\<bar>?x\<bar> = 2 powi (24 + k)" by simp
    then have "of_int \<bar>m\<bar> * (2 :: rat) powi k = 2 ^ 24 * 2 powi k" by (simp add: abs_mult power_int_add)
    then have "of_int \<bar>m\<bar> = (of_int (2 ^ 24) :: rat)" by simp
    then have "\<bar>m\<bar> = 2 ^ 24" by (simp only: of_int_eq_iff)
    then have "even m" by (metis dvd_abs_iff even_numeral even_power zero_less_numeral)
    then obtain h where h: "m = 2 * h" by blast
    have p: "(2 :: rat) powi ?e = 2 * 2 powi k" unfolding 2(2) using power_int_add [of "2 :: rat" k 1] by simp
    have "?x = of_int h * (2 * 2 powi k)" using h by simp
    then have "?x / 2 powi ?e = of_int h" unfolding p by simp
    then show ?thesis by (rule that)
  qed
  then have "rnd32 ?x = of_int i * 2 powi ?e" using nz by (simp add: rnd32_def Let_def)
  also have "\<dots> = ?x" using i by (simp add: field_simps)
  finally show ?thesis .
qed simp

lemma rnd32_of_int: "\<bar>i\<bar> \<le> 2 ^ 24 \<Longrightarrow> rnd32 (of_int i) = of_int i"
  using rnd32_scaled [of i 0] by simp

lemma single_of_int: "\<bar>i\<bar> \<le> 2 ^ 24 \<Longrightarrow> single_of_int i = of_int i"
  by (simp add: single_of_int_def rnd32_of_int)

lemma rnd32_1 [simp]: "rnd32 1 = 1"
  using rnd32_of_int [of 1] by simp

lemma rnd32_le_int: "x \<le> of_int i \<Longrightarrow> \<bar>i\<bar> \<le> 2 ^ 24 \<Longrightarrow> rnd32 x \<le> of_int i"
  using rnd32_mono [of x "of_int i"] by (simp add: rnd32_of_int)

lemma rnd32_ge_int: "of_int i \<le> x \<Longrightarrow> \<bar>i\<bar> \<le> 2 ^ 24 \<Longrightarrow> of_int i \<le> rnd32 x"
  using rnd32_mono [of "of_int i" x] by (simp add: rnd32_of_int)

lemma lround_of_int [simp]: "lround (of_int i) = i"
  by (auto simp: lround_def floor_eq_iff) 

lemma lround_nonneg: "0 \<le> x \<Longrightarrow> 0 \<le> lround x"
  by (simp add: lround_def)

end
