(* ===== verification/Sim_Types.thy ===== *)
theory Sim_Types
  imports Single_Arith Universe_Pos Ecs
begin

text \<open>
  The component types of the simulation: \<open>NeuronCore/Components.h\<close>,
  \<open>NeuronCore/CombatTypes.h\<close> and the fitted module of \<open>NeuronCore/CombatData.h\<close>.
  Floats are values (\<open>Single_Arith\<close>), hit points integers, and the enums that the code obtains
  by casting an unchecked byte (\<open>NavPhase\<close>, \<open>AiState\<close>, \<open>BaseState\<close>,
  \<open>EntityKind\<close>, \<open>IntentType\<close>) are bytes with the enumerators as constants.
  \<open>CompType\<close> stands for the template argument of \<open>GetComponent<T>\<close>.
\<close>

section \<open>Combat primitives\<close>

datatype DamageType = Kinetic | Thermal | EM
datatype DefenseLayer = LShield | LArmor | LHull
datatype SlotType = SlotHigh | SlotMid | SlotLow
datatype ModuleKind = MkWeapon | MkShieldBooster | MkRemoteRep | MkJammer | MkWeb | MkWarpDisruptor
  | MkSensorDamp | MkArmorPlate | MkDamageAmp | MkTrackingEnhancer | MkAfterburner
datatype HullSize = HsLight | HsMedium | HsHeavy | HsIndustrial | HsCapital

text \<open>\<open>resist[layer][type]\<close>\<close>

type_synonym ResistProfile = "DefenseLayer \<Rightarrow> DamageType \<Rightarrow> single"

definition ResistProfile_new :: ResistProfile where "ResistProfile_new = (\<lambda>_ _. 0)"
definition Resist_Set :: "DefenseLayer \<Rightarrow> DamageType \<Rightarrow> single \<Rightarrow> ResistProfile \<Rightarrow> ResistProfile" where
  "Resist_Set l t v r = r(l := (r l)(t := v))"

record ModuleDef =
  md_code :: string
  md_kind :: ModuleKind
  md_slot :: SlotType
  md_tier :: u8
  md_pgCost :: single
  md_cpuCost :: single
  md_damageType :: DamageType
  md_baseDamage :: single
  md_rateOfFire :: single
  md_optimal :: single
  md_falloff :: single
  md_tracking :: single
  md_projectileSpeed :: single
  md_effectLayer :: DefenseLayer
  md_strength :: single
  md_duration :: single
  md_range :: single

section \<open>Components\<close>

type_synonym EntityKind = u8
definition Kind_Unknown :: EntityKind where "Kind_Unknown = 0"
definition Kind_Base :: EntityKind where "Kind_Base = 1"
definition Kind_Ship :: EntityKind where "Kind_Ship = 2"
definition Kind_NpcUnit :: EntityKind where "Kind_NpcUnit = 3"
definition Kind_ResourceNode :: EntityKind where "Kind_ResourceNode = 4"
definition Kind_Projectile :: EntityKind where "Kind_Projectile = 5"
definition Kind_LootContainer :: EntityKind where "Kind_LootContainer = 6"
definition Kind_Structure :: EntityKind where "Kind_Structure = 11"

type_synonym vec3 = "single \<times> single \<times> single"

record Transform =
  tf_pos :: UniversePos
  tf_localOffset :: vec3

type_synonym Velocity = vec3

record ShapeId =
  sh_value :: u16
  sh_kind :: EntityKind

record Health =
  h_hp :: int
  h_maxHp :: int

record Fuel =
  fu_current :: single
  fu_max :: single

type_synonym NavPhase = u8
definition NavIdle :: NavPhase where "NavIdle = 0"
definition NavAlign :: NavPhase where "NavAlign = 1"
definition NavWarp :: NavPhase where "NavWarp = 2"
definition NavSpool :: NavPhase where "NavSpool = 3"
definition NavCooldown :: NavPhase where "NavCooldown = 4"

record NavState =
  nv_phase :: NavPhase
  nv_interdicted :: bool
  nv_jumpTarget :: u16
  nv_target :: UniversePos
  nv_timer :: single
  nv_warpSpeed :: single

definition NavState_new :: NavState where
  "NavState_new = \<lparr>nv_phase = NavIdle, nv_interdicted = False, nv_jumpTarget = 0xFFFF, nv_target = UniversePos_zero,
     nv_timer = 0, nv_warpSpeed = 0\<rparr>"

record ResourceNodeTag =
  rn_type :: u8
  rn_remaining :: single

definition RESOURCE_SLOTS :: nat where "RESOURCE_SLOTS = 3"

text \<open>\<open>Cargo\<close> and \<open>Storage\<close>: the amounts by resource type, and the capacity.\<close>

record Hold =
  ho_amount :: "single list"
  ho_capacity :: single

definition Hold_new :: Hold where "Hold_new = \<lparr>ho_amount = replicate RESOURCE_SLOTS 0, ho_capacity = 0\<rparr>"

record BuildQueue =
  bq_active :: bool
  bq_paid :: bool
  bq_recipe :: u8
  bq_progress :: single

definition BuildQueue_new :: BuildQueue where
  "BuildQueue_new = \<lparr>bq_active = False, bq_paid = False, bq_recipe = 0, bq_progress = 0\<rparr>"

datatype HarvestPhase = HvIdle | HvToNode | HvHarvesting | HvToBase | HvDepositing

record HarvestOrder =
  hv_phase :: HarvestPhase
  hv_nodeNetId :: u32
  hv_baseNetId :: u32

datatype OrderType = OtIdle | OtMove | OtAttack | OtGuard | OtOrbit | OtKeepRange | OtRetreat

record FleetOrderEntry =
  fe_type :: OrderType
  fe_targetNetId :: u32
  fe_targetPoint :: UniversePos
  fe_range :: single

definition FleetOrderEntry_new :: FleetOrderEntry where
  "FleetOrderEntry_new = \<lparr>fe_type = OtIdle, fe_targetNetId = 0, fe_targetPoint = UniversePos_zero, fe_range = 0\<rparr>"

record FleetOrder =
  fo_current :: FleetOrderEntry
  fo_queue :: "FleetOrderEntry list"

definition FleetOrder_new :: FleetOrder where "FleetOrder_new = \<lparr>fo_current = FleetOrderEntry_new, fo_queue = []\<rparr>"

record Weapon =
  wp_range :: single
  wp_dps :: single
  wp_pending :: single

type_synonym AiState = u8
definition AiPatrol :: AiState where "AiPatrol = 0"
definition AiAggro :: AiState where "AiAggro = 1"
definition AiFlee :: AiState where "AiFlee = 2"
definition AiDefend :: AiState where "AiDefend = 3"

record NpcAi =
  ai_state :: AiState
  ai_home :: UniversePos
  ai_aggroRange :: single
  ai_fleeHpFrac :: single
  ai_targetNetId :: u32
  ai_siteId :: u16

record LayerHp =
  hp_cur :: int
  hp_max :: int

record DefenseLayers =
  dl_shield :: LayerHp
  dl_armor :: LayerHp
  dl_hull :: LayerHp
  dl_shieldRegenPerSec :: single
  dl_regenPending :: single

definition TotalCur :: "DefenseLayers \<Rightarrow> int" where
  "TotalCur d = hp_cur (dl_shield d) + hp_cur (dl_armor d) + hp_cur (dl_hull d)"
definition TotalMax :: "DefenseLayers \<Rightarrow> int" where
  "TotalMax d = hp_max (dl_shield d) + hp_max (dl_armor d) + hp_max (dl_hull d)"
definition HullFrac :: "DefenseLayers \<Rightarrow> single" where
  "HullFrac d = (if hp_max (dl_hull d) > 0
     then fdiv (single_of_int (hp_cur (dl_hull d))) (single_of_int (hp_max (dl_hull d))) else 0)"

record ModuleInstance =
  mi_def :: ModuleDef
  mi_cooldown :: single
  mi_pending :: single

record HullInfo =
  hi_signature :: single
  hi_maxSpeed :: single
  hi_size :: HullSize

record Fitting =
  ft_modules :: "ModuleInstance list"
  ft_pgUsed :: single
  ft_pgMax :: single
  ft_cpuUsed :: single
  ft_cpuMax :: single
  ft_slots :: "u8 list"

record EwarStatus =
  ew_jammedFor :: single
  ew_tackledFor :: single
  ew_webFactor :: single
  ew_webFor :: single
  ew_sensorDampFactor :: single
  ew_sensorDampFor :: single

definition EwarStatus_new :: EwarStatus where
  "EwarStatus_new = \<lparr>ew_jammedFor = 0, ew_tackledFor = 0, ew_webFactor = 1, ew_webFor = 0,
     ew_sensorDampFactor = 1, ew_sensorDampFor = 0\<rparr>"

record Projectile =
  pj_sourceNetId :: u32
  pj_targetNetId :: u32
  pj_damageType :: DamageType
  pj_baseDamage :: single
  pj_vel :: vec3
  pj_origin :: UniversePos
  pj_ttl :: single
  pj_optimal :: single
  pj_falloff :: single
  pj_tracking :: single

record LootContainer =
  lc_items :: "single list"
  lc_expiresAt :: single

type_synonym BaseState = u8
definition BsActive :: BaseState where "BsActive = 0"
definition BsRetreating :: BaseState where "BsRetreating = 1"
definition BsDisabled :: BaseState where "BsDisabled = 2"

record BaseCombat =
  bc_state :: BaseState
  bc_retreatUntil :: single
  bc_cargoLost :: bool

definition BaseCombat_new :: BaseCombat where
  "BaseCombat_new = \<lparr>bc_state = BsActive, bc_retreatUntil = 0, bc_cargoLost = False\<rparr>"

end
