(* ===== verification/Navigation.thy ===== *)
theory Navigation
  imports Sim_Types
begin

text \<open>
  \<open>NeuronCore/Navigation.h\<close>, \<open>NeuronCore/Movement.h\<close> and the movement and AI rules of
  \<open>NeuronCore/Fleet.h\<close>, on single components; the systems that run them over the world are in
  \<open>Server_Universe\<close>.  The tuning records are those of \<open>NeuronCore/UniverseData.h\<close>.
  Casts to \<open>int64_t\<close> are exact on the distances of the game, and the sums of coordinates wrap.
\<close>

section \<open>Tuning\<close>

record NavTuning =
  nt_warpSpeedShip :: single
  nt_warpSpeedBase :: single
  nt_warpAlignSeconds :: single
  nt_jumpFuelShip :: single
  nt_jumpFuelBase :: single
  nt_jumpSpoolShip :: single
  nt_jumpSpoolBase :: single
  nt_jumpCooldownSeconds :: single
  nt_beaconUseRange :: single
  nt_shipFuelMax :: single
  nt_baseFuelMax :: single

definition NavTuning_default :: NavTuning where
  "NavTuning_default = \<lparr>nt_warpSpeedShip = 6000, nt_warpSpeedBase = 2000, nt_warpAlignSeconds = 3,
     nt_jumpFuelShip = 20, nt_jumpFuelBase = 60, nt_jumpSpoolShip = 5, nt_jumpSpoolBase = 12,
     nt_jumpCooldownSeconds = 10, nt_beaconUseRange = 2000, nt_shipFuelMax = 100, nt_baseFuelMax = 300\<rparr>"

section \<open>Distance and sublight steps\<close>

text \<open>\<open>static_cast<double>(b.x - a.x)\<close>\<close>

definition axis_diff :: "u64 \<Rightarrow> u64 \<Rightarrow> double" where
  "axis_diff a b = double_of_int (sint (b - a))"

definition UniverseDistance :: "UniversePos \<Rightarrow> UniversePos \<Rightarrow> double" where
  "UniverseDistance a b =
     (let dx = axis_diff (up_x a) (up_x b); dy = axis_diff (up_y a) (up_y b); dz = axis_diff (up_z a) (up_z b)
      in dsqrt (dadd (dadd (dmul dx dx) (dmul dy dy)) (dmul dz dz)))"

definition WarpArrivalSeconds :: "double \<Rightarrow> single \<Rightarrow> single \<Rightarrow> single" where
  "WarpArrivalSeconds distance warpSpeed alignSeconds =
     (if warpSpeed \<le> 0 then alignSeconds else fadd alignSeconds (rnd32 (ddiv distance warpSpeed)))"

text \<open>\<open>x += llround((target - x) * fr)\<close>\<close>

definition axis_step :: "double \<Rightarrow> u64 \<Rightarrow> u64 \<Rightarrow> u64" where
  "axis_step fr target x = x + word_of_int (lround (dmul (axis_diff x target) fr))"

definition pos_step :: "double \<Rightarrow> UniversePos \<Rightarrow> UniversePos \<Rightarrow> UniversePos" where
  "pos_step fr target p =
     \<lparr>up_x = axis_step fr (up_x target) (up_x p), up_y = axis_step fr (up_y target) (up_y p),
      up_z = axis_step fr (up_z target) (up_z p)\<rparr>"

definition StepTowardPos :: "UniversePos \<Rightarrow> double \<Rightarrow> UniversePos \<Rightarrow> bool \<times> UniversePos" where
  "StepTowardPos target maxStep p =
     (let dist = UniverseDistance p target
      in if dist \<le> 0 then (True, p)
         else
           (let step = (if maxStep \<ge> dist then dist else maxStep)
            in (step \<ge> dist, pos_step (ddiv step dist) target p)))"

definition StepToward :: "UniversePos \<Rightarrow> double \<Rightarrow> Transform \<Rightarrow> Transform" where
  "StepToward target maxStep tr =
     (let (arrived, p) = StepTowardPos target maxStep (tf_pos tr)
      in if arrived then tr\<lparr>tf_pos := p, tf_localOffset := (0, 0, 0)\<rparr> else tr\<lparr>tf_pos := p\<rparr>)"

section \<open>Warp and jump\<close>

datatype JumpReject = JumpAccepted | JumpNotAtBeacon | JumpNotLinked | JumpNoFuel | JumpBusy

definition CheckJumpReady :: "NavState \<Rightarrow> Fuel \<Rightarrow> single \<Rightarrow> JumpReject" where
  "CheckJumpReady nav fuel cost =
     (if nv_phase nav \<noteq> NavIdle then JumpBusy
      else if fu_current fuel < cost then JumpNoFuel else JumpAccepted)"

definition BeginWarp :: "UniversePos \<Rightarrow> single \<Rightarrow> single \<Rightarrow> NavState \<Rightarrow> NavState" where
  "BeginWarp dest warpSpeed alignSeconds nav =
     nav\<lparr>nv_phase := NavAlign, nv_target := dest, nv_warpSpeed := warpSpeed, nv_timer := alignSeconds,
        nv_interdicted := False, nv_jumpTarget := 0xFFFF\<rparr>"

definition BeginJump :: "UniversePos \<Rightarrow> u16 \<Rightarrow> single \<Rightarrow> NavState \<Rightarrow> NavState" where
  "BeginJump dest destBeaconIndex spoolSeconds nav =
     nav\<lparr>nv_phase := NavSpool, nv_target := dest, nv_jumpTarget := destBeaconIndex, nv_timer := spoolSeconds,
        nv_interdicted := False\<rparr>"

datatype NavEvent = NavNone | NavArrived | NavJumped | NavDroppedOut

definition StepNav :: "NavTuning \<Rightarrow> single \<Rightarrow> NavState \<Rightarrow> Transform \<Rightarrow> NavEvent \<times> NavState \<times> Transform" where
  "StepNav tuning dt nav tr =
     (if nv_phase nav = NavAlign then
        (let nav = nav\<lparr>nv_timer := fsub (nv_timer nav) dt\<rparr>
         in (NavNone, if nv_timer nav \<le> 0 then nav\<lparr>nv_phase := NavWarp, nv_timer := 0\<rparr> else nav, tr))
      else if nv_phase nav = NavWarp then
        (if nv_interdicted nav then (NavDroppedOut, nav\<lparr>nv_interdicted := False, nv_phase := NavIdle\<rparr>, tr)
         else
           (let dist = UniverseDistance (tf_pos tr) (nv_target nav);
                step = dmul (nv_warpSpeed nav) dt
            in if dist \<le> 0 \<or> step \<ge> dist then
                 (NavArrived, nav\<lparr>nv_phase := NavIdle\<rparr>, tr\<lparr>tf_pos := nv_target nav, tf_localOffset := (0, 0, 0)\<rparr>)
               else (NavNone, nav, tr\<lparr>tf_pos := pos_step (ddiv step dist) (nv_target nav) (tf_pos tr)\<rparr>)))
      else if nv_phase nav = NavSpool then
        (if nv_interdicted nav then (NavDroppedOut, nav\<lparr>nv_interdicted := False, nv_phase := NavIdle\<rparr>, tr)
         else
           (let nav = nav\<lparr>nv_timer := fsub (nv_timer nav) dt\<rparr>
            in if nv_timer nav \<le> 0 then
                 (NavJumped, nav\<lparr>nv_phase := NavCooldown, nv_timer := nt_jumpCooldownSeconds tuning\<rparr>,
                  tr\<lparr>tf_pos := nv_target nav, tf_localOffset := (0, 0, 0)\<rparr>)
               else (NavNone, nav, tr)))
      else if nv_phase nav = NavCooldown then
        (let nav = nav\<lparr>nv_timer := fsub (nv_timer nav) dt\<rparr>
         in (NavNone, if nv_timer nav \<le> 0 then nav\<lparr>nv_phase := NavIdle, nv_timer := 0\<rparr> else nav, tr))
      else (NavNone, nav, tr))"

section \<open>Free movement\<close>

text \<open>The lambda \<open>fold\<close>: the whole metres of the offset go into the position.\<close>

definition fold_axis :: "u64 \<Rightarrow> single \<Rightarrow> u64 \<times> single" where
  "fold_axis posAxis localAxis =
     (let whole = of_int \<lfloor>localAxis\<rfloor> in (posAxis + word_of_int (dtrunc whole), fsub localAxis whole))"

definition IntegrateMovement :: "single \<Rightarrow> Velocity \<Rightarrow> Transform \<Rightarrow> Transform" where
  "IntegrateMovement dtSeconds v t =
     (case (v, tf_localOffset t) of ((vx, vy, vz), (lx, ly, lz)) \<Rightarrow>
       (let (px, lx) = fold_axis (up_x (tf_pos t)) (fadd lx (fmul vx dtSeconds));
            (py, ly) = fold_axis (up_y (tf_pos t)) (fadd ly (fmul vy dtSeconds));
            (pz, lz) = fold_axis (up_z (tf_pos t)) (fadd lz (fmul vz dtSeconds))
        in t\<lparr>tf_pos := \<lparr>up_x = px, up_y = py, up_z = pz\<rparr>, tf_localOffset := (lx, ly, lz)\<rparr>))"

section \<open>Orders and AI\<close>

definition StepStandoff :: "UniversePos \<Rightarrow> double \<Rightarrow> double \<Rightarrow> Transform \<Rightarrow> bool \<times> Transform" where
  "StepStandoff target maxStep rng tr =
     (let dist = UniverseDistance (tf_pos tr) target
      in if dist \<le> rng then (True, tr)
         else
           (let tr = StepToward target (min maxStep (dsub dist rng)) tr
            in (UniverseDistance (tf_pos tr) target \<le> rng, tr)))"

definition Health_ApplyDamage :: "int \<Rightarrow> Health \<Rightarrow> bool \<times> Health" where
  "Health_ApplyDamage dmg hp =
     (if h_hp hp \<le> 0 then (False, hp)
      else
        (let hp = hp\<lparr>h_hp := h_hp hp - dmg\<rparr>
         in if h_hp hp \<le> 0 then (True, hp\<lparr>h_hp := 0\<rparr>) else (False, hp)))"

definition WeaponDamage :: "single \<Rightarrow> Weapon \<Rightarrow> int \<times> Weapon" where
  "WeaponDamage dt w =
     (let w = w\<lparr>wp_pending := fadd (wp_pending w) (fmul (wp_dps w) dt)\<rparr>
      in if wp_pending w < 1 then (0, w)
         else
           (let d = dtrunc (wp_pending w)
            in (d, w\<lparr>wp_pending := fsub (wp_pending w) (single_of_int d)\<rparr>)))"

definition InWeaponRange :: "Weapon \<Rightarrow> UniversePos \<Rightarrow> UniversePos \<Rightarrow> bool" where
  "InWeaponRange w self target \<longleftrightarrow> UniverseDistance self target \<le> wp_range w"

definition NextAiState :: "NpcAi \<Rightarrow> bool \<Rightarrow> bool \<Rightarrow> single \<Rightarrow> AiState" where
  "NextAiState ai hasTarget targetInAggro hpFrac =
     (if hpFrac \<le> ai_fleeHpFrac ai then AiFlee
      else if hasTarget \<and> targetInAggro then AiAggro else AiDefend)"

end
