(* ===== verification/Combat_Rules.thy ===== *)
theory Combat_Rules
  imports Navigation
begin

text \<open>
  \<open>NeuronCore/Combat.h\<close>: damage through the three defense layers, regeneration and repair, the
  electronic-warfare timers, weapon ranges and the sub-stepped projectile, in float arithmetic with its
  roundings.  Hit points are \<open>int32_t\<close>: where the code adds to them or converts a float, the sum
  wraps (\<open>i32\<close>) and a float out of range becomes \<open>-2 ^ 31\<close> (\<open>trunc32\<close>), as the compiled code
  does on x86-64 (to C++ both are undefined).  The property on hit points states the bounds under which
  neither happens.
\<close>

section \<open>32-bit arithmetic\<close>

definition i32 :: "int \<Rightarrow> int" where
  "i32 n = sint (word_of_int n :: 32 word)"

definition trunc32 :: "single \<Rightarrow> int" where
  "trunc32 x = (if - (2 ^ 31) \<le> dtrunc x \<and> dtrunc x < 2 ^ 31 then dtrunc x else - (2 ^ 31))"

lemma i32_id: "- (2 ^ 31) \<le> n \<Longrightarrow> n < 2 ^ 31 \<Longrightarrow> i32 n = n"
  by (simp add: i32_def signed_of_int signed_take_bit_int_eq_self)

lemma trunc32_id: "0 \<le> x \<Longrightarrow> x < 2 ^ 31 \<Longrightarrow> trunc32 x = \<lfloor>x\<rfloor>"
  by (simp add: trunc32_def dtrunc_def floor_less_iff)

section \<open>Damage\<close>

datatype DamageOutcome = Absorbed | ShieldDown | ArmorDown | Killed

definition FalloffFactor :: "double \<Rightarrow> single \<Rightarrow> single \<Rightarrow> single" where
  "FalloffFactor dst optimal falloff =
     (if dst \<le> optimal then 1
      else if falloff \<le> 0 then 0
      else
        (let f = fsub 1 (rnd32 (ddiv (dsub dst optimal) falloff))
         in if f \<le> 0 then 0 else if f \<ge> 1 then 1 else f))"

definition TRACKING_SPEED_SCALE :: single where "TRACKING_SPEED_SCALE = rnd32 (2 / 100)"

definition TrackingFactor :: "single \<Rightarrow> single \<Rightarrow> single \<Rightarrow> single" where
  "TrackingFactor tracking targetSignature targetSpeed =
     (let track = fmul tracking targetSignature;
          denom = fadd track (fmul targetSpeed TRACKING_SPEED_SCALE)
      in if denom \<le> 0 then 1
         else (let f = fdiv track denom in if f < 0 then 0 else if f > 1 then 1 else f))"

text \<open>One layer of the loop: what is left of the raw damage, the layer and whether it broke.\<close>

definition damage_layer :: "single \<Rightarrow> single \<Rightarrow> LayerHp \<Rightarrow> single \<times> LayerHp \<times> bool" where
  "damage_layer resist raw layer =
     (if hp_cur layer \<le> 0 then (raw, layer, False)
      else
        (let mult = fsub 1 resist; effective = fmul raw mult
         in if effective < single_of_int (hp_cur layer) then
              (let cur = hp_cur layer - lround effective in (0, layer\<lparr>hp_cur := if cur < 0 then 0 else cur\<rparr>, False))
            else
              (let rawToBreak = (if mult > 0 then fdiv (single_of_int (hp_cur layer)) mult else raw)
               in (if rawToBreak < raw then fsub raw rawToBreak else 0, layer\<lparr>hp_cur := 0\<rparr>, True))))"

text \<open>The loop over the layers runs while there is damage left.\<close>

definition damage_step :: "single \<Rightarrow> DamageOutcome \<Rightarrow> single \<times> DamageOutcome \<Rightarrow> LayerHp \<Rightarrow> (single \<times> DamageOutcome) \<times> LayerHp" where
  "damage_step resist broke s layer =
     (if fst s > 0 then
        (case damage_layer resist (fst s) layer of (raw, layer, b) \<Rightarrow> ((raw, if b then broke else snd s), layer))
      else (s, layer))"

definition ApplyTypedDamage :: "ResistProfile \<Rightarrow> DamageType \<Rightarrow> single \<Rightarrow> DefenseLayers \<Rightarrow> DamageOutcome \<times> DefenseLayers" where
  "ApplyTypedDamage resist type effectiveBase d =
     (if effectiveBase \<le> 0 then (Absorbed, d)
      else
        (let (s, shield) = damage_step (resist LShield type) ShieldDown (effectiveBase, Absorbed) (dl_shield d);
             (s, armor) = damage_step (resist LArmor type) ArmorDown s (dl_armor d);
             (s, hu) = damage_step (resist LHull type) Killed s (dl_hull d)
         in (snd s, d\<lparr>dl_shield := shield, dl_armor := armor, dl_hull := hu\<rparr>)))"

definition ApplyDamage :: "ResistProfile \<Rightarrow> DamageType \<Rightarrow> single \<Rightarrow> single \<Rightarrow> single \<Rightarrow> DefenseLayers \<Rightarrow> DamageOutcome \<times> DefenseLayers" where
  "ApplyDamage resist type baseDamage trackingFactor falloffFactor d =
     ApplyTypedDamage resist type (fmul (fmul baseDamage trackingFactor) falloffFactor) d"

section \<open>Regeneration and repair\<close>

definition RegenDefenses :: "single \<Rightarrow> DefenseLayers \<Rightarrow> DefenseLayers" where
  "RegenDefenses dt d =
     (if hp_cur (dl_hull d) \<le> 0 then d
      else if hp_cur (dl_shield d) \<ge> hp_max (dl_shield d) \<or> dl_shieldRegenPerSec d \<le> 0 then d
      else
        (let pending = fadd (dl_regenPending d) (fmul (dl_shieldRegenPerSec d) dt)
         in if pending \<ge> 1 then
              (let add = trunc32 pending
               in d\<lparr>dl_regenPending := fsub pending (single_of_int add),
                    dl_shield := (dl_shield d)\<lparr>hp_cur := min (hp_max (dl_shield d)) (i32 (hp_cur (dl_shield d) + add))\<rparr>\<rparr>)
            else d\<lparr>dl_regenPending := pending\<rparr>))"

definition get_layer :: "DefenseLayer \<Rightarrow> DefenseLayers \<Rightarrow> LayerHp" where
  "get_layer layer d = (if layer = LShield then dl_shield d else if layer = LArmor then dl_armor d else dl_hull d)"

definition set_layer :: "DefenseLayer \<Rightarrow> LayerHp \<Rightarrow> DefenseLayers \<Rightarrow> DefenseLayers" where
  "set_layer layer l d =
     (if layer = LShield then d\<lparr>dl_shield := l\<rparr> else if layer = LArmor then d\<lparr>dl_armor := l\<rparr> else d\<lparr>dl_hull := l\<rparr>)"

definition RemoteRep :: "DefenseLayer \<Rightarrow> int \<Rightarrow> DefenseLayers \<Rightarrow> int \<times> DefenseLayers" where
  "RemoteRep layer amount d =
     (let l = get_layer layer d
      in if amount \<le> 0 \<or> hp_cur l \<ge> hp_max l \<or> hp_cur l \<le> 0 then (0, d)
         else
           (let cur = min (hp_max l) (i32 (hp_cur l + amount))
            in (i32 (cur - hp_cur l), set_layer layer (l\<lparr>hp_cur := cur\<rparr>) d)))"

section \<open>Electronic warfare\<close>

definition ApplyJam :: "single \<Rightarrow> EwarStatus \<Rightarrow> EwarStatus" where
  "ApplyJam duration s = s\<lparr>ew_jammedFor := max (ew_jammedFor s) duration\<rparr>"

definition ApplyTackle :: "single \<Rightarrow> EwarStatus \<Rightarrow> EwarStatus" where
  "ApplyTackle duration s = s\<lparr>ew_tackledFor := max (ew_tackledFor s) duration\<rparr>"

definition ApplyWeb :: "single \<Rightarrow> single \<Rightarrow> EwarStatus \<Rightarrow> EwarStatus" where
  "ApplyWeb factor duration s =
     s\<lparr>ew_webFactor := min (ew_webFactor s) factor, ew_webFor := max (ew_webFor s) duration\<rparr>"

definition ApplySensorDamp :: "single \<Rightarrow> single \<Rightarrow> EwarStatus \<Rightarrow> EwarStatus" where
  "ApplySensorDamp factor duration s =
     s\<lparr>ew_sensorDampFactor := min (ew_sensorDampFactor s) factor, ew_sensorDampFor := max (ew_sensorDampFor s) duration\<rparr>"

definition TickEwar :: "single \<Rightarrow> EwarStatus \<Rightarrow> EwarStatus" where
  "TickEwar dt s =
     (let webFor = max 0 (fsub (ew_webFor s) dt); dampFor = max 0 (fsub (ew_sensorDampFor s) dt)
      in s\<lparr>ew_jammedFor := max 0 (fsub (ew_jammedFor s) dt), ew_tackledFor := max 0 (fsub (ew_tackledFor s) dt),
           ew_webFor := webFor, ew_webFactor := (if webFor \<le> 0 then 1 else ew_webFactor s),
           ew_sensorDampFor := dampFor, ew_sensorDampFactor := (if dampFor \<le> 0 then 1 else ew_sensorDampFactor s)\<rparr>)"

definition IsJammed :: "EwarStatus \<Rightarrow> bool" where "IsJammed s \<longleftrightarrow> ew_jammedFor s > 0"
definition IsTackled :: "EwarStatus \<Rightarrow> bool" where "IsTackled s \<longleftrightarrow> ew_tackledFor s > 0"

section \<open>Weapons and projectiles\<close>

definition InEngagementRange :: "ModuleDef \<Rightarrow> double \<Rightarrow> single \<Rightarrow> bool" where
  "InEngagementRange weapon dst sensorDampFactor \<longleftrightarrow>
     dst \<le> fmul (fadd (md_optimal weapon) (md_falloff weapon)) sensorDampFactor"

definition ResolveShotDamage :: "single \<Rightarrow> double \<Rightarrow> single \<Rightarrow> single \<Rightarrow> single \<Rightarrow> single \<Rightarrow> single \<Rightarrow> single" where
  "ResolveShotDamage baseDamage dst optimal falloff tracking targetSignature targetSpeed =
     fmul (fmul baseDamage (TrackingFactor tracking targetSignature targetSpeed)) (FalloffFactor dst optimal falloff)"

text \<open>\<open>p.x += llround(vel.x * subDt)\<close>: the product of a float and a float in double.\<close>

definition ballistic_axis :: "single \<Rightarrow> single \<Rightarrow> u64 \<Rightarrow> u64" where
  "ballistic_axis v dt x = x + word_of_int (lround (dmul v dt))"

definition ballistic_step :: "vec3 \<Rightarrow> single \<Rightarrow> UniversePos \<Rightarrow> UniversePos" where
  "ballistic_step vel dt p =
     (case vel of (vx, vy, vz) \<Rightarrow>
       \<lparr>up_x = ballistic_axis vx dt (up_x p), up_y = ballistic_axis vy dt (up_y p), up_z = ballistic_axis vz dt (up_z p)\<rparr>)"

text \<open>The iterations \<open>i, \<dots>\<close> of the sub-step loop.\<close>

primrec substep_loop ::
    "nat list \<Rightarrow> nat \<Rightarrow> single \<Rightarrow> double \<Rightarrow> UniversePos \<Rightarrow> UniversePos \<Rightarrow> vec3 \<Rightarrow> UniversePos \<Rightarrow> single \<Rightarrow> bool \<times> UniversePos \<times> single" where
  "substep_loop [] n subDt hitRadius targetStart targetEnd vel p ttl = (False, p, ttl)"
| "substep_loop (i # is) n subDt hitRadius targetStart targetEnd vel p ttl =
     (let p = ballistic_step vel subDt p;
          ttl = fsub ttl subDt;
          a = ddiv (double_of_int (int i + 1)) (double_of_int (int n));
          tgt = pos_step a targetEnd targetStart
      in if UniverseDistance p tgt \<le> hitRadius then (True, p, ttl)
         else if ttl \<le> 0 then (False, p, ttl)
         else substep_loop is n subDt hitRadius targetStart targetEnd vel p ttl)"

definition StepProjectile ::
    "UniversePos \<Rightarrow> vec3 \<Rightarrow> UniversePos \<Rightarrow> UniversePos \<Rightarrow> single \<Rightarrow> single \<Rightarrow> double \<Rightarrow> int \<Rightarrow> bool \<times> UniversePos \<times> single" where
  "StepProjectile projPos vel targetStart targetEnd ttl dt hitRadius subSteps =
     (let n = nat (if subSteps < 1 then 1 else subSteps);
          subDt = fdiv dt (single_of_int (int n))
      in substep_loop [0..<n] n subDt hitRadius targetStart targetEnd vel projPos ttl)"

section \<open>What damage does\<close>

definition layer_ok :: "LayerHp \<Rightarrow> bool" where
  "layer_ok l \<longleftrightarrow> 0 \<le> hp_cur l \<and> hp_cur l \<le> hp_max l \<and> hp_max l \<le> 2 ^ 24"

definition layers_ok :: "DefenseLayers \<Rightarrow> bool" where
  "layers_ok d \<longleftrightarrow> layer_ok (dl_shield d) \<and> layer_ok (dl_armor d) \<and> layer_ok (dl_hull d)"

lemma fsub_1_nonneg: "r \<le> 1 \<Longrightarrow> 0 \<le> fsub 1 r"
  by (simp add: fsub_def rnd32_nonneg)

lemma fmul_nonneg: "0 \<le> a \<Longrightarrow> 0 \<le> b \<Longrightarrow> 0 \<le> fmul a b"
  by (simp add: fmul_def rnd32_nonneg)

lemma damage_layer_ok:
  assumes "layer_ok l" "0 < raw" "resist \<le> 1" "damage_layer resist raw l = (raw', l', b)"
  shows "layer_ok l'" "hp_cur l' \<le> hp_cur l" "hp_max l' = hp_max l" "0 < raw' \<Longrightarrow> hp_cur l' = 0" "b \<Longrightarrow> hp_cur l' = 0"
proof -
  define e where "e = fmul raw (fsub 1 resist)"
  have e: "0 \<le> lround e" using assms(2,3) by (simp add: e_def lround_nonneg fmul_nonneg fsub_1_nonneg)
  note l = assms(1) [unfolded layer_ok_def]
  have "layer_ok l' \<and> hp_cur l' \<le> hp_cur l \<and> hp_max l' = hp_max l \<and> (0 < raw' \<or> b \<longrightarrow> hp_cur l' = 0)"
  proof (cases "hp_cur l \<le> 0")
    case True
    then show ?thesis using assms(4) l by (simp add: damage_layer_def layer_ok_def)
  next
    case pos: False
    show ?thesis
    proof (cases "e < single_of_int (hp_cur l)")
      case True
      then have "damage_layer resist raw l = (0, l\<lparr>hp_cur := if hp_cur l - lround e < 0 then 0 else hp_cur l - lround e\<rparr>, False)"
        using pos by (simp add: damage_layer_def Let_def e_def del: if_cancel)
      with assms(4) have "0 = raw' \<and> l\<lparr>hp_cur := if hp_cur l - lround e < 0 then 0 else hp_cur l - lround e\<rparr> = l' \<and> False = b"
        by (simp only: prod.inject)
      then have "raw' = 0" "\<not> b" "l' = l\<lparr>hp_cur := if hp_cur l - lround e < 0 then 0 else hp_cur l - lround e\<rparr>" by blast+
      then show ?thesis using e l by (simp add: layer_ok_def)
    next
      case False
      then have "l' = l\<lparr>hp_cur := 0\<rparr>" using assms(4) pos by (simp add: damage_layer_def Let_def e_def)
      then show ?thesis using l by (simp add: layer_ok_def)
    qed
  qed
  then show "layer_ok l'" "hp_cur l' \<le> hp_cur l" "hp_max l' = hp_max l" "0 < raw' \<Longrightarrow> hp_cur l' = 0" "b \<Longrightarrow> hp_cur l' = 0"
    by blast+
qed

lemma damage_step_ok:
  assumes "layer_ok l" "resist \<le> 1" "damage_step resist broke s l = (s', l')"
  shows "layer_ok l'" "hp_cur l' \<le> hp_cur l" "hp_max l' = hp_max l"
    "0 < fst s' \<Longrightarrow> 0 < fst s \<and> hp_cur l' = 0" "\<not> 0 < fst s \<Longrightarrow> l' = l"
proof -
  have "layer_ok l' \<and> hp_cur l' \<le> hp_cur l \<and> hp_max l' = hp_max l \<and> (0 < fst s' \<longrightarrow> 0 < fst s \<and> hp_cur l' = 0) \<and>
    (\<not> 0 < fst s \<longrightarrow> l' = l)"
  proof (cases "0 < fst s")
    case True
    obtain raw l1 b where d: "damage_layer resist (fst s) l = (raw, l1, b)" by (metis prod_cases3)
    then have "s' = (raw, if b then broke else snd s)" "l' = l1" using assms(3) True by (simp_all add: damage_step_def)
    then show ?thesis using damage_layer_ok [OF assms(1) True assms(2) d] True by simp
  next
    case False
    then show ?thesis using assms(1,3) by (simp add: damage_step_def)
  qed
  then show "layer_ok l'" "hp_cur l' \<le> hp_cur l" "hp_max l' = hp_max l"
    "0 < fst s' \<Longrightarrow> 0 < fst s \<and> hp_cur l' = 0" "\<not> 0 < fst s \<Longrightarrow> l' = l" by blast+
qed

lemma ApplyTypedDamage_ok:
  assumes "layers_ok d" "\<forall>l. resist l type \<le> 1" "ApplyTypedDamage resist type e d = (r, d')"
  shows "layers_ok d'" "hp_cur (dl_shield d') \<le> hp_cur (dl_shield d)" "hp_cur (dl_armor d') \<le> hp_cur (dl_armor d)"
    "hp_cur (dl_hull d') \<le> hp_cur (dl_hull d)"
    "dl_armor d' \<noteq> dl_armor d \<Longrightarrow> hp_cur (dl_shield d') = 0"
    "dl_hull d' \<noteq> dl_hull d \<Longrightarrow> hp_cur (dl_shield d') = 0 \<and> hp_cur (dl_armor d') = 0"
    "TotalMax d' = TotalMax d"
proof -
  have ok: "layer_ok (dl_shield d)" "layer_ok (dl_armor d)" "layer_ok (dl_hull d)" using assms(1) by (simp_all add: layers_ok_def)
  note rs = assms(2) [rule_format, of LShield] assms(2) [rule_format, of LArmor] assms(2) [rule_format, of LHull]
  have "layers_ok d' \<and> hp_cur (dl_shield d') \<le> hp_cur (dl_shield d) \<and> hp_cur (dl_armor d') \<le> hp_cur (dl_armor d) \<and>
    hp_cur (dl_hull d') \<le> hp_cur (dl_hull d) \<and>
    (dl_armor d' \<noteq> dl_armor d \<longrightarrow> hp_cur (dl_shield d') = 0) \<and>
    (dl_hull d' \<noteq> dl_hull d \<longrightarrow> hp_cur (dl_shield d') = 0 \<and> hp_cur (dl_armor d') = 0) \<and> TotalMax d' = TotalMax d"
  proof (cases "e \<le> 0")
    case True
    then show ?thesis using assms(1,3) by (simp add: ApplyTypedDamage_def)
  next
    case False
    obtain s1 sh where 1: "damage_step (resist LShield type) ShieldDown (e, Absorbed) (dl_shield d) = (s1, sh)" by fastforce
    obtain s2 ar where 2: "damage_step (resist LArmor type) ArmorDown s1 (dl_armor d) = (s2, ar)" by fastforce
    obtain s3 hu where 3: "damage_step (resist LHull type) Killed s2 (dl_hull d) = (s3, hu)" by fastforce
    have "d' = d\<lparr>dl_shield := sh, dl_armor := ar, dl_hull := hu\<rparr>"
      using assms(3) False by (simp add: ApplyTypedDamage_def 1 2 3)
    then show ?thesis
      using damage_step_ok [OF ok(1) rs(1) 1] damage_step_ok [OF ok(2) rs(2) 2] damage_step_ok [OF ok(3) rs(3) 3]
      by (auto simp: layers_ok_def TotalMax_def)
  qed
  then show "layers_ok d'" "hp_cur (dl_shield d') \<le> hp_cur (dl_shield d)" "hp_cur (dl_armor d') \<le> hp_cur (dl_armor d)"
    "hp_cur (dl_hull d') \<le> hp_cur (dl_hull d)"
    "dl_armor d' \<noteq> dl_armor d \<Longrightarrow> hp_cur (dl_shield d') = 0"
    "dl_hull d' \<noteq> dl_hull d \<Longrightarrow> hp_cur (dl_shield d') = 0 \<and> hp_cur (dl_armor d') = 0"
    "TotalMax d' = TotalMax d" by blast+
qed

text \<open>Everything that changes the layers of a unit.\<close>

datatype CombatOp = Hit ResistProfile DamageType single | Regen single | Rep DefenseLayer int

fun combat_op :: "CombatOp \<Rightarrow> DefenseLayers \<Rightarrow> DefenseLayers" where
  "combat_op (Hit r t e) d = snd (ApplyTypedDamage r t e d)"
| "combat_op (Regen dt) d = RegenDefenses dt d"
| "combat_op (Rep l n) d = snd (RemoteRep l n d)"

text \<open>What the callers have to respect: resists of at most 1, repairs and regeneration steps of at most
  \<open>2 ^ 30\<close> points.\<close>

fun op_ok :: "DefenseLayers \<Rightarrow> CombatOp \<Rightarrow> bool" where
  "op_ok d (Hit r t e) \<longleftrightarrow> (\<forall>l. r l t \<le> 1)"
| "op_ok d (Regen dt) \<longleftrightarrow> fadd (dl_regenPending d) (fmul (dl_shieldRegenPerSec d) dt) \<le> 2 ^ 30"
| "op_ok d (Rep l n) \<longleftrightarrow> n \<le> 2 ^ 30"

primrec ops_ok :: "CombatOp list \<Rightarrow> DefenseLayers \<Rightarrow> bool" where
  "ops_ok [] d \<longleftrightarrow> True"
| "ops_ok (op # ops) d \<longleftrightarrow> op_ok d op \<and> ops_ok ops (combat_op op d)"

lemma trunc32_step:
  assumes "1 \<le> x" "x \<le> 2 ^ 30"
  shows "0 < trunc32 x" "trunc32 x \<le> 2 ^ 30"
proof -
  have "trunc32 x = \<lfloor>x\<rfloor>" using assms by (intro trunc32_id) simp_all
  then show "0 < trunc32 x" "trunc32 x \<le> 2 ^ 30" using assms by (simp_all add: floor_le_iff)
qed

lemma i32_gain:
  assumes "layer_ok l" "0 \<le> n" "n \<le> 2 ^ 30"
  shows "i32 (hp_cur l + n) = hp_cur l + n" "0 \<le> m \<Longrightarrow> m \<le> hp_cur l + n \<Longrightarrow> i32 (m - hp_cur l) = m - hp_cur l"
  using assms by (auto simp: layer_ok_def intro!: i32_id)

lemma combat_op_ok:
  assumes "layers_ok d" "op_ok d op"
  shows "layers_ok (combat_op op d)"
    "hp_cur (dl_hull d) \<le> 0 \<Longrightarrow> hp_cur (dl_hull (combat_op op d)) \<le> 0"
    "(\<forall>n. op \<noteq> Rep LArmor n) \<Longrightarrow> hp_cur (dl_armor (combat_op op d)) \<le> hp_cur (dl_armor d)"
    "(\<forall>n. op \<noteq> Rep LHull n) \<Longrightarrow> hp_cur (dl_hull (combat_op op d)) \<le> hp_cur (dl_hull d)"
    "TotalMax (combat_op op d) = TotalMax d"
proof -
  have "layers_ok (combat_op op d) \<and> (hp_cur (dl_hull d) \<le> 0 \<longrightarrow> hp_cur (dl_hull (combat_op op d)) \<le> 0) \<and>
    ((\<forall>n. op \<noteq> Rep LArmor n) \<longrightarrow> hp_cur (dl_armor (combat_op op d)) \<le> hp_cur (dl_armor d)) \<and>
    ((\<forall>n. op \<noteq> Rep LHull n) \<longrightarrow> hp_cur (dl_hull (combat_op op d)) \<le> hp_cur (dl_hull d)) \<and>
    TotalMax (combat_op op d) = TotalMax d"
  proof (cases op)
    case (Hit r t e)
    obtain o' d' where "ApplyTypedDamage r t e d = (o', d')" by fastforce
    with ApplyTypedDamage_ok [OF assms(1) _ this] assms(2) show ?thesis by (auto simp: Hit)
  next
    case (Regen dt)
    let ?p = "fadd (dl_regenPending d) (fmul (dl_shieldRegenPerSec d) dt)"
    have sh: "layer_ok (dl_shield d)" using assms(1) by (simp add: layers_ok_def)
    have add: "0 < trunc32 ?p" "i32 (hp_cur (dl_shield d) + trunc32 ?p) = hp_cur (dl_shield d) + trunc32 ?p" if "1 \<le> ?p"
      using trunc32_step [OF that] i32_gain(1) [OF sh, of "trunc32 ?p"] assms(2) by (simp_all add: Regen)
    show ?thesis
    proof (cases "1 \<le> ?p")
      case True
      then show ?thesis using assms(1) add
        by (auto simp: Regen RegenDefenses_def Let_def layers_ok_def layer_ok_def TotalMax_def)
    next
      case False
      then show ?thesis using assms(1)
        by (auto simp: Regen RegenDefenses_def Let_def layers_ok_def TotalMax_def)
    qed
  next
    case (Rep l n)
    have "layer_ok (get_layer l d)" using assms(1) by (cases l) (simp_all add: layers_ok_def get_layer_def)
    then have "i32 (hp_cur (get_layer l d) + n) = hp_cur (get_layer l d) + n" if "0 < n"
      using i32_gain(1) [of "get_layer l d" n] assms(2) that by (simp add: Rep)
    then show ?thesis using assms(1)
      by (cases l) (auto simp: Rep RemoteRep_def Let_def layers_ok_def layer_ok_def get_layer_def set_layer_def TotalMax_def)
  qed
  then show "layers_ok (combat_op op d)"
    "hp_cur (dl_hull d) \<le> 0 \<Longrightarrow> hp_cur (dl_hull (combat_op op d)) \<le> 0"
    "(\<forall>n. op \<noteq> Rep LArmor n) \<Longrightarrow> hp_cur (dl_armor (combat_op op d)) \<le> hp_cur (dl_armor d)"
    "(\<forall>n. op \<noteq> Rep LHull n) \<Longrightarrow> hp_cur (dl_hull (combat_op op d)) \<le> hp_cur (dl_hull d)"
    "TotalMax (combat_op op d) = TotalMax d" by blast+
qed

text \<open>C25: Hit points stay in range.  Take layers between zero and maxima of at most \<open>2 ^ 24\<close>, and
  any sequence of hits with resists of at most 1, shield regeneration steps and remote repairs of at
  most \<open>2 ^ 30\<close> points each (beyond that the \<open>int32_t\<close> sums may wrap).  Then each layer stays
  between zero and its maximum and the maxima stay; a dead hull stays dead, and without a repair of the
  hull it never gains a point.\<close>
theorem layers_stay_ok:
  assumes "layers_ok d" "ops_ok ops d"
  shows "layers_ok (fold combat_op ops d) \<and> TotalMax (fold combat_op ops d) = TotalMax d \<and>
    (if hp_cur (dl_hull d) = 0 then hp_cur (dl_hull (fold combat_op ops d)) = 0
     else list_all (\<lambda>op. case op of Rep LHull n \<Rightarrow> False | _ \<Rightarrow> True) ops \<longrightarrow>
       hp_cur (dl_hull (fold combat_op ops d)) \<le> hp_cur (dl_hull d))"
  using assms
proof (induction ops arbitrary: d)
  case Nil
  then show ?case by simp
next
  case (Cons op ops)
  note s = combat_op_ok [OF Cons.prems(1), of op]
  have ok: "layers_ok (combat_op op d)" "ops_ok ops (combat_op op d)" "op_ok d op" using s(1) Cons.prems(2) by simp_all
  note ih = Cons.IH [OF ok(1,2)]
  have h: "0 \<le> hp_cur (dl_hull (combat_op op d))" "0 \<le> hp_cur (dl_hull d)"
    using ok(1) Cons.prems(1) by (simp_all add: layers_ok_def layer_ok_def)
  have rep: "(case op of Rep LHull n \<Rightarrow> False | _ \<Rightarrow> True) \<Longrightarrow> hp_cur (dl_hull (combat_op op d)) \<le> hp_cur (dl_hull d)"
    using s(4) [OF ok(3)] by (auto split: CombatOp.splits DefenseLayer.splits)
  have zero: "hp_cur (dl_hull (combat_op op d)) = 0 \<Longrightarrow> hp_cur (dl_hull (fold combat_op ops (combat_op op d))) = 0" using ih by simp
  show ?case using ih h rep zero s(2) [OF ok(3)] s(5) [OF ok(3)] by (auto split: if_splits)
qed

definition sample_layers :: DefenseLayers where
  "sample_layers = \<lparr>dl_shield = \<lparr>hp_cur = 20, hp_max = 50\<rparr>, dl_armor = \<lparr>hp_cur = 30, hp_max = 30\<rparr>,
     dl_hull = \<lparr>hp_cur = 40, hp_max = 40\<rparr>, dl_shieldRegenPerSec = 2, dl_regenPending = 0\<rparr>"

lemma ApplyTypedDamage_regen:
  "dl_regenPending (snd (ApplyTypedDamage r t e d)) = dl_regenPending d"
  "dl_shieldRegenPerSec (snd (ApplyTypedDamage r t e d)) = dl_shieldRegenPerSec d"
  by (simp_all add: ApplyTypedDamage_def Let_def case_prod_beta)

theorem layers_stay_ok_witness:
  "layers_ok (fold combat_op [Hit ResistProfile_new EM 60, Regen 1, Rep LArmor 5] sample_layers)"
proof -
  have "layers_ok sample_layers" by (simp add: sample_layers_def layers_ok_def layer_ok_def)
  moreover have "fadd 0 (fmul 2 1) = 2" using rnd32_of_int [of 2] by (simp add: fadd_def fmul_def)
  then have "ops_ok [Hit ResistProfile_new EM 60, Regen 1, Rep LArmor 5] sample_layers"
    by (simp add: ApplyTypedDamage_regen ResistProfile_new_def) (simp add: sample_layers_def)
  ultimately show ?thesis by (rule layers_stay_ok [THEN conjunct1])
qed

section \<open>The waterfall\<close>

lemma fsub_int: "\<bar>a - b\<bar> \<le> 2 ^ 24 \<Longrightarrow> fsub (of_int a) (of_int b) = of_int (a - b)"
  using rnd32_of_int [of "a - b"] by (simp add: fsub_def)

lemma damage_layer_exact:
  assumes "layer_ok l" "0 < b" "b \<le> 2 ^ 24"
  shows "damage_layer 0 (of_int b) l =
    (of_int (max 0 (b - hp_cur l)), l\<lparr>hp_cur := max 0 (hp_cur l - b)\<rparr>, 0 < hp_cur l \<and> hp_cur l \<le> b)"
proof -
  have 1: "fmul (of_int b) (fsub 1 0) = of_int b" using assms by (simp add: fmul_def fsub_def rnd32_of_int)
  have 2: "single_of_int (hp_cur l) = of_int (hp_cur l)" using assms(1) by (intro single_of_int) (simp add: layer_ok_def)
  have 3: "fdiv (of_int (hp_cur l)) (fsub 1 0) = of_int (hp_cur l)"
    using assms(1) by (simp add: fdiv_def fsub_def rnd32_of_int layer_ok_def)
  have 4: "0 < fsub 1 0" by (simp add: fsub_def)
  consider "hp_cur l = 0" | "0 < hp_cur l" "b < hp_cur l" | "0 < hp_cur l" "hp_cur l \<le> b"
    using assms(1) by (fastforce simp: layer_ok_def)
  then show ?thesis
  proof cases
    case 1
    then have "l\<lparr>hp_cur := 0\<rparr> = l" by simp
    then show ?thesis using 1 assms(2) by (simp add: damage_layer_def)
  next
    case 2
    then show ?thesis by (simp add: damage_layer_def Let_def 1 \<open>single_of_int (hp_cur l) = _\<close>)
  next
    case 3
    have "(if (of_int (hp_cur l) :: rat) < of_int b then fsub (of_int b) (of_int (hp_cur l)) else 0) = of_int (b - hp_cur l)"
      using 3 assms by (cases "hp_cur l < b") (simp_all add: fsub_int)
    then show ?thesis using 3
      by (simp add: damage_layer_def Let_def 1 2 4 \<open>fdiv (of_int (hp_cur l)) (fsub 1 0) = _\<close>)
  qed
qed

lemma damage_step_exact:
  assumes "layer_ok l" "0 \<le> b" "b \<le> 2 ^ 24"
  shows "damage_step 0 broke (of_int b, o') l =
    ((of_int (max 0 (b - hp_cur l)), if 0 < hp_cur l \<and> hp_cur l \<le> b then broke else o'), l\<lparr>hp_cur := max 0 (hp_cur l - b)\<rparr>)"
proof (cases "0 < b")
  case True
  then show ?thesis using damage_layer_exact [OF assms(1) True assms(3)] by (simp add: damage_step_def)
next
  case False
  then have "b = 0" using assms(2) by simp
  moreover have "l\<lparr>hp_cur := max 0 (hp_cur l)\<rparr> = l" "max 0 (- hp_cur l) = 0" using assms(1) by (simp_all add: layer_ok_def)
  moreover have "\<not> (0 < hp_cur l \<and> hp_cur l \<le> 0)" by linarith
  ultimately show ?thesis using assms(1) unfolding damage_step_def layer_ok_def by (simp only: fst_conv if_False of_int_0 less_irrefl diff_0) simp
qed

text \<open>Damage waterfall.  With no resists and an integral blow of \<open>b\<close> points (at most 2^24), the
  layers are used up from the outside in: each keeps what the blow and the layers before it leave, and the
  outcome is the innermost layer that broke.\<close>
theorem damage_waterfall:
  assumes "layers_ok d" "0 \<le> b" "b \<le> 2 ^ 24"
  shows "ApplyTypedDamage ResistProfile_new type (of_int b) d =
    (let S = hp_cur (dl_shield d); A = hp_cur (dl_armor d); H = hp_cur (dl_hull d)
     in (if 0 < H \<and> S + A + H \<le> b then Killed else if 0 < A \<and> S + A \<le> b then ArmorDown
         else if 0 < S \<and> S \<le> b then ShieldDown else Absorbed,
         d\<lparr>dl_shield := (dl_shield d)\<lparr>hp_cur := max 0 (S - b)\<rparr>,
           dl_armor := (dl_armor d)\<lparr>hp_cur := max 0 (A - max 0 (b - S))\<rparr>,
           dl_hull := (dl_hull d)\<lparr>hp_cur := max 0 (H - max 0 (b - S - A))\<rparr>\<rparr>))"
proof -
  define S A H where "S = hp_cur (dl_shield d)" "A = hp_cur (dl_armor d)" "H = hp_cur (dl_hull d)"
  note SAH = this
  have ok: "layer_ok (dl_shield d)" "layer_ok (dl_armor d)" "layer_ok (dl_hull d)" using assms(1) by (simp_all add: layers_ok_def)
  have nn: "0 \<le> S" "0 \<le> A" "0 \<le> H" using ok by (simp_all add: layer_ok_def SAH)
  show ?thesis
  proof (cases "b = 0")
    case True
    have "l\<lparr>hp_cur := max 0 (hp_cur l)\<rparr> = l" if "layer_ok l" for l using that by (simp add: layer_ok_def)
    note k = this [OF ok(1)] this [OF ok(2)] this [OF ok(3)]
    have "\<not> (0 < S \<and> S \<le> 0)" "\<not> (0 < A \<and> S + A \<le> 0)" "\<not> (0 < H \<and> S + A + H \<le> 0)"
      "max 0 (A - max 0 (0 - S)) = max 0 A" "max 0 (H - max 0 (0 - S - A)) = max 0 H" using nn by linarith+
    then show ?thesis using True k unfolding SAH [symmetric] by (simp add: ApplyTypedDamage_def Let_def SAH)
  next
    case False
    let ?b1 = "max 0 (b - S)" and ?b2 = "max 0 (max 0 (b - S) - A)"
    have m: "?b2 = max 0 (b - S - A)" using nn by linarith
    have z: "ResistProfile_new l t = 0" for l t by (simp add: ResistProfile_new_def)
    have lt: "?b1 \<le> 2 ^ 24" "?b2 \<le> 2 ^ 24" "0 \<le> ?b1" "0 \<le> ?b2" using assms(3) nn zero_le_power [of "2 :: int" 24] by linarith+
    note s1 = damage_step_exact [OF ok(1) assms(2,3), of ShieldDown Absorbed, folded SAH]
    note s2 = damage_step_exact [OF ok(2) lt(3,1), of ArmorDown, folded SAH]
    note s3 = damage_step_exact [OF ok(3) lt(4,2), of Killed, folded SAH]
    have e: "\<not> (of_int b :: rat) \<le> 0" using False assms(2) by simp
    have "ApplyTypedDamage ResistProfile_new type (of_int b) d =
      (if 0 < H \<and> H \<le> ?b2 then Killed else if 0 < A \<and> A \<le> ?b1 then ArmorDown else if 0 < S \<and> S \<le> b then ShieldDown else Absorbed,
       d\<lparr>dl_shield := (dl_shield d)\<lparr>hp_cur := max 0 (S - b)\<rparr>, dl_armor := (dl_armor d)\<lparr>hp_cur := max 0 (A - ?b1)\<rparr>,
         dl_hull := (dl_hull d)\<lparr>hp_cur := max 0 (H - ?b2)\<rparr>\<rparr>)"
      by (simp only: ApplyTypedDamage_def e if_False z s1 s2 s3 split Let_def snd_conv)
    moreover have "0 < H \<and> H \<le> ?b2 \<longleftrightarrow> 0 < H \<and> S + A + H \<le> b" "0 < A \<and> A \<le> ?b1 \<longleftrightarrow> 0 < A \<and> S + A \<le> b"
      using nn by linarith+
    ultimately show ?thesis unfolding SAH [symmetric] by (simp only: m Let_def)
  qed
qed

theorem damage_waterfall_witness:
  "ApplyTypedDamage ResistProfile_new Kinetic (of_int 60) sample_layers =
    (ArmorDown, sample_layers\<lparr>dl_shield := \<lparr>hp_cur = 0, hp_max = 50\<rparr>, dl_armor := \<lparr>hp_cur = 0, hp_max = 30\<rparr>,
       dl_hull := \<lparr>hp_cur = 30, hp_max = 40\<rparr>\<rparr>)"
  using damage_waterfall [of sample_layers 60 Kinetic] by (simp add: sample_layers_def layers_ok_def layer_ok_def)

section \<open>A blow that is rounded up\<close>

lemma hull_dead_ops:
  assumes "hp_cur (dl_shield d) = 0" "hp_cur (dl_armor d) = 0" "hp_cur (dl_hull d) = 0"
  shows "combat_op op d = d" "ApplyTypedDamage r t e d = (Absorbed, d)"
proof -
  have dead: "damage_layer re raw l = (raw, l, False)" if "hp_cur l = 0" for re raw l using that by (simp add: damage_layer_def)
  have step: "damage_step re br s l = (s, l)" if "hp_cur l = 0" for re br s l
    using dead [OF that] by (simp add: damage_step_def)
  show hit: "ApplyTypedDamage r t e d = (Absorbed, d)" for r t e using assms by (simp add: ApplyTypedDamage_def step)
  show "combat_op op d = d" using assms hit
    by (cases op) (simp_all add: RegenDefenses_def RemoteRep_def get_layer_def)
qed

text \<open>C29: A hull destroyed without being killed.  When only the hull is left, a blow that falls short of
  it by at most half a point is rounded up to all of it and still reported as absorbed, so no kill is
  recorded; from then on no hit, regeneration or repair changes the unit and every hit is absorbed:
  it can never be destroyed.\<close>
theorem rounded_blow_leaves_immortal:
  assumes "layers_ok d" "hp_cur (dl_shield d) = 0" "hp_cur (dl_armor d) = 0" "resist LHull type = 0"
    "rnd32 e = e" "of_int (hp_cur (dl_hull d)) - 1 / 2 \<le> e" "e < of_int (hp_cur (dl_hull d))" "0 < e"
  shows "\<exists>d'. ApplyTypedDamage resist type e d = (Absorbed, d') \<and> hp_cur (dl_hull d') = 0 \<and>
    (\<forall>ops r t e'. fold combat_op ops d' = d' \<and> ApplyTypedDamage r t e' d' = (Absorbed, d'))"
proof -
  define c where "c = hp_cur (dl_hull d)"
  have c: "0 < c" "c \<le> 2 ^ 24"
    using assms(1) less_trans [OF assms(8,7)] by (simp_all add: c_def layers_ok_def layer_ok_def)
  have m: "fmul e (fsub 1 0) = e" using assms(5) by (simp add: fmul_def fsub_def)
  have f: "single_of_int c = of_int c" using c by (intro single_of_int) simp
  have l: "lround e = c" using assms(6-8) unfolding lround_def by (simp add: c_def floor_eq_iff)
  have dead: "damage_step re br s l = (s, l)" if "hp_cur l = 0" for re br s l
    using that by (simp add: damage_step_def damage_layer_def)
  have hu: "damage_step 0 Killed (e, Absorbed) (dl_hull d) = ((0, Absorbed), (dl_hull d)\<lparr>hp_cur := 0\<rparr>)"
    using c assms(7,8) by (simp add: damage_step_def damage_layer_def Let_def m f l c_def [symmetric])
  define d' where "d' = d\<lparr>dl_hull := (dl_hull d)\<lparr>hp_cur := 0\<rparr>\<rparr>"
  have 1: "ApplyTypedDamage resist type e d = (Absorbed, d')"
    using assms(2-4,8) by (simp add: ApplyTypedDamage_def dead hu d'_def)
  have z: "hp_cur (dl_shield d') = 0" "hp_cur (dl_armor d') = 0" "hp_cur (dl_hull d') = 0"
    using assms(2,3) by (simp_all add: d'_def)
  have "fold combat_op ops d' = d'" for ops by (induction ops) (simp_all add: hull_dead_ops [OF z])
  with 1 z hull_dead_ops(2) [OF z] show ?thesis by blast
qed

theorem rounded_blow_leaves_immortal_witness:
  "\<exists>d'. ApplyTypedDamage ResistProfile_new EM (159 / 4)
     (sample_layers\<lparr>dl_shield := \<lparr>hp_cur = 0, hp_max = 50\<rparr>, dl_armor := \<lparr>hp_cur = 0, hp_max = 30\<rparr>\<rparr>) = (Absorbed, d') \<and>
    hp_cur (dl_hull d') = 0 \<and> (\<forall>ops r t e'. fold combat_op ops d' = d' \<and> ApplyTypedDamage r t e' d' = (Absorbed, d'))"
proof -
  have q: "of_int 159 * 2 powi (- 2) = (159 / 4 :: rat)" by (simp add: power_int_minus)
  have r: "rnd32 (159 / 4) = 159 / 4" using rnd32_scaled [of 159 "- 2"] unfolding q by simp
  show ?thesis
    by (rule rounded_blow_leaves_immortal)
      (simp_all only: r, simp_all add: sample_layers_def layers_ok_def layer_ok_def ResistProfile_new_def)
qed

end
