(* ===== verification/Economy_Rules.thy ===== *)
theory Economy_Rules
  imports Navigation
begin

text \<open>
  \<open>NeuronCore/Economy.h\<close> and the \<open>EconomyTuning\<close> it reads (\<open>NeuronCore/UniverseData.h\<close>):
  harvesting, depositing, building, fuel and sensors on single components, in float arithmetic.  The
  systems that run these rules over the world are in the \<open>Server\<close> theories.
\<close>

record EconomyTuning =
  et_fleetCap :: u16
  et_cargoCapacity :: single
  et_storageCapacity :: single
  et_harvestRate :: single
  et_sensorRangeShip :: single
  et_sensorRangeBase :: single
  et_buildOreCost :: single
  et_buildIceCost :: single
  et_buildSeconds :: single
  et_buildShipType :: u8
  et_harvesterSpeed :: single
  et_harvestRange :: single

definition EconomyTuning_default :: EconomyTuning where
  "EconomyTuning_default = \<lparr>et_fleetCap = 8, et_cargoCapacity = 1000, et_storageCapacity = 50000, et_harvestRate = 50,
     et_sensorRangeShip = 5000, et_sensorRangeBase = 12000, et_buildOreCost = 500, et_buildIceCost = 200,
     et_buildSeconds = 20, et_buildShipType = 1, et_harvesterSpeed = 800, et_harvestRange = 600\<rparr>"

datatype ResourceType = Ore | Ice | Gas

definition ResourceType_index :: "ResourceType \<Rightarrow> nat" where
  "ResourceType_index r = (case r of Ore \<Rightarrow> 0 | Ice \<Rightarrow> 1 | Gas \<Rightarrow> 2)"

section \<open>Cargo and storage\<close>

definition SumSlots :: "single list \<Rightarrow> single" where
  "SumSlots a = fold (\<lambda>i t. fadd t (a ! i)) [0..<RESOURCE_SLOTS] 0"

text \<open>\<open>CargoFree\<close> and \<open>StorageFree\<close> are the same function of two structurally equal types.\<close>

definition HoldFree :: "Hold \<Rightarrow> single" where
  "HoldFree c = (let f = fsub (ho_capacity c) (SumSlots (ho_amount c)) in if f > 0 then f else 0)"

definition add_slot :: "nat \<Rightarrow> single \<Rightarrow> Hold \<Rightarrow> Hold" where
  "add_slot i v c = c\<lparr>ho_amount := (ho_amount c)[i := fadd (ho_amount c ! i) v]\<rparr>"

definition sub_slot :: "nat \<Rightarrow> single \<Rightarrow> Hold \<Rightarrow> Hold" where
  "sub_slot i v c = c\<lparr>ho_amount := (ho_amount c)[i := fsub (ho_amount c ! i) v]\<rparr>"

definition HarvestStep :: "single \<Rightarrow> single \<Rightarrow> ResourceNodeTag \<Rightarrow> Hold \<Rightarrow> single \<times> ResourceNodeTag \<times> Hold" where
  "HarvestStep rate dt node cargo =
     (let slot = (if unat (rn_type node) < RESOURCE_SLOTS then unat (rn_type node) else 0);
          want = min (min (fmul rate dt) (rn_remaining node)) (HoldFree cargo)
      in if want \<le> 0 then (0, node, cargo)
         else (want, node\<lparr>rn_remaining := fsub (rn_remaining node) want\<rparr>, add_slot slot want cargo))"

fun deposit_loop :: "nat list \<Rightarrow> single \<Rightarrow> Hold \<Rightarrow> Hold \<Rightarrow> single \<times> Hold \<times> Hold" where
  "deposit_loop [] moved cargo storage = (moved, cargo, storage)"
| "deposit_loop (i # is) moved cargo storage =
     (let room = HoldFree storage
      in if room \<le> 0 then (moved, cargo, storage)
         else
           (let take = min (ho_amount cargo ! i) room
            in deposit_loop is (fadd moved take) (sub_slot i take cargo) (add_slot i take storage)))"

definition DepositAll :: "Hold \<Rightarrow> Hold \<Rightarrow> single \<times> Hold \<times> Hold" where
  "DepositAll cargo storage = deposit_loop [0..<RESOURCE_SLOTS] 0 cargo storage"

section \<open>Building\<close>

definition CanAfford :: "Hold \<Rightarrow> EconomyTuning \<Rightarrow> bool" where
  "CanAfford s e \<longleftrightarrow> ho_amount s ! ResourceType_index Ore \<ge> et_buildOreCost e \<and>
     ho_amount s ! ResourceType_index Ice \<ge> et_buildIceCost e"

datatype BuildResult = BuildIdle | BuildInProgress | BuildCompleted | BuildInsufficient

definition build_tick :: "EconomyTuning \<Rightarrow> single \<Rightarrow> BuildQueue \<Rightarrow> BuildResult \<times> BuildQueue" where
  "build_tick e dt q =
     (let q = q\<lparr>bq_progress := fadd (bq_progress q) dt\<rparr>
      in if bq_progress q \<ge> et_buildSeconds e
         then (BuildCompleted, q\<lparr>bq_active := False, bq_paid := False, bq_progress := 0\<rparr>)
         else (BuildInProgress, q))"

definition BuildStep :: "EconomyTuning \<Rightarrow> single \<Rightarrow> BuildQueue \<Rightarrow> Hold \<Rightarrow> BuildResult \<times> BuildQueue \<times> Hold" where
  "BuildStep e dt q s =
     (if \<not> bq_active q then (BuildIdle, q, s)
      else if \<not> bq_paid q then
        (if \<not> CanAfford s e then (BuildInsufficient, q\<lparr>bq_active := False\<rparr>, s)
         else
           (let s = sub_slot (ResourceType_index Ice) (et_buildIceCost e)
                      (sub_slot (ResourceType_index Ore) (et_buildOreCost e) s);
                (r, q) = build_tick e dt (q\<lparr>bq_paid := True\<rparr>)
            in (r, q, s)))
      else (let (r, q) = build_tick e dt q in (r, q, s)))"

section \<open>Fuel and sensors\<close>

definition ConsumeFuel :: "single \<Rightarrow> Fuel \<Rightarrow> bool \<times> Fuel" where
  "ConsumeFuel amount fuel =
     (if amount < 0 \<or> fu_current fuel < amount then (False, fuel)
      else (True, fuel\<lparr>fu_current := fsub (fu_current fuel) amount\<rparr>))"

definition SensorDetect :: "UniversePos \<Rightarrow> UniversePos \<Rightarrow> single \<Rightarrow> bool" where
  "SensorDetect observer target rng \<longleftrightarrow> UniverseDistance observer target \<le> rng"

end
