(* ===== verification/Combat_Catalog.thy ===== *)
theory Combat_Catalog
  imports Economy_Rules
begin

text \<open>
  \<open>NeuronCore/CombatData.h\<close>: hulls, modules and fits, the rule that a fit stays inside its hull's
  slots and budgets, the check of a whole catalog and the catalog the game ships.  The messages of the
  checks are constructors; the binary codec is not modelled.
\<close>

section \<open>The catalog\<close>

record HullClass =
  hc_code :: string
  hc_size :: HullSize
  hc_tier :: u8
  hc_slotsHigh :: u8
  hc_slotsMid :: u8
  hc_slotsLow :: u8
  hc_pgMax :: single
  hc_cpuMax :: single
  hc_mass :: single
  hc_signature :: single
  hc_maxSpeed :: single
  hc_shieldHp :: int
  hc_armorHp :: int
  hc_hullHp :: int
  hc_shieldRegenPerSec :: single
  hc_resists :: ResistProfile

record FitTemplate =
  ftp_name :: string
  ftp_hull :: string
  ftp_modules :: "string list"

record CombatCatalog =
  cc_hulls :: "HullClass list"
  cc_modules :: "ModuleDef list"
  cc_fits :: "FitTemplate list"

definition FindHull :: "CombatCatalog \<Rightarrow> string \<Rightarrow> HullClass option" where
  "FindHull cat c = find (\<lambda>h. hc_code h = c) (cc_hulls cat)"

definition FindModule :: "CombatCatalog \<Rightarrow> string \<Rightarrow> ModuleDef option" where
  "FindModule cat c = find (\<lambda>m. md_code m = c) (cc_modules cat)"

definition FindFit :: "CombatCatalog \<Rightarrow> string \<Rightarrow> FitTemplate option" where
  "FindFit cat n = find (\<lambda>f. ftp_name f = n) (cc_fits cat)"

section \<open>The fitting rule\<close>

datatype FitError = FitUnknownModule string | FitSlotCapacity nat | FitOverPg | FitOverCpu

record FitUse =
  fu_pgUsed :: single
  fu_cpuUsed :: single
  fu_used :: "u8 list"

definition SlotType_index :: "SlotType \<Rightarrow> nat" where
  "SlotType_index s = (case s of SlotHigh \<Rightarrow> 0 | SlotMid \<Rightarrow> 1 | SlotLow \<Rightarrow> 2)"

definition hull_slots :: "HullClass \<Rightarrow> u8 list" where
  "hull_slots h = [hc_slotsHigh h, hc_slotsMid h, hc_slotsLow h]"

fun fit_loop :: "HullClass \<Rightarrow> CombatCatalog \<Rightarrow> string list \<Rightarrow> FitUse \<Rightarrow> FitError + FitUse" where
  "fit_loop h cat [] r = Inr r"
| "fit_loop h cat (code # codes) r =
     (case FindModule cat code of
        None \<Rightarrow> Inl (FitUnknownModule code)
      | Some m \<Rightarrow>
          (let s = SlotType_index (md_slot m);
               n = fu_used r ! s + 1;
               r = r\<lparr>fu_used := (fu_used r)[s := n]\<rparr>
           in if n > hull_slots h ! s then Inl (FitSlotCapacity s)
              else fit_loop h cat codes
                (r\<lparr>fu_pgUsed := fadd (fu_pgUsed r) (md_pgCost m), fu_cpuUsed := fadd (fu_cpuUsed r) (md_cpuCost m)\<rparr>)))"

definition ValidateFit :: "HullClass \<Rightarrow> string list \<Rightarrow> CombatCatalog \<Rightarrow> FitError + FitUse" where
  "ValidateFit h codes cat =
     (case fit_loop h cat codes \<lparr>fu_pgUsed = 0, fu_cpuUsed = 0, fu_used = [0, 0, 0]\<rparr> of
        Inl e \<Rightarrow> Inl e
      | Inr r \<Rightarrow>
          (if fu_pgUsed r > hc_pgMax h then Inl FitOverPg
           else if fu_cpuUsed r > hc_cpuMax h then Inl FitOverCpu
           else Inr r))"

section \<open>The check of a catalog\<close>

datatype CatalogError = EmptyHullCode | DuplicateHull string | NegativeBudget string | NegativeSignature string
  | NegativeSpeed string | NegativeHp string | NoHp string | NegativeRegen string | ResistRange string
  | EmptyModuleCode | DuplicateModule string | NegativeCost string | WeaponSlot string | WeaponDamage string
  | WeaponRate string | WeaponRange string | WeaponProjectile string | RepRange string
  | EmptyFitName | DuplicateFit string | FitUnknownHull string string | FitInvalid string FitError

text \<open>An empty code is not put into the set of codes.\<close>

definition code_errors :: "CatalogError \<Rightarrow> (string \<Rightarrow> CatalogError) \<Rightarrow> string \<Rightarrow> string set \<Rightarrow> CatalogError list \<times> string set" where
  "code_errors em dup c seen =
     (if c = [] then ([em], seen) else if c \<in> seen then ([dup c], seen) else ([], insert c seen))"

definition hull_errors :: "HullClass \<Rightarrow> CatalogError list" where
  "hull_errors h =
     (let c = hc_code h
      in (if hc_pgMax h < 0 \<or> hc_cpuMax h < 0 then [NegativeBudget c] else []) @
         (if hc_signature h < 0 then [NegativeSignature c] else []) @
         (if hc_maxSpeed h < 0 then [NegativeSpeed c] else []) @
         (if hc_shieldHp h < 0 \<or> hc_armorHp h < 0 \<or> hc_hullHp h < 0 then [NegativeHp c] else []) @
         (if hc_shieldHp h + hc_armorHp h + hc_hullHp h \<le> 0 then [NoHp c] else []) @
         (if hc_shieldRegenPerSec h < 0 then [NegativeRegen c] else []) @
         concat (map (\<lambda>l. concat (map (\<lambda>t. if hc_resists h l t \<le> -1 \<or> hc_resists h l t \<ge> 1 then [ResistRange c] else [])
           [Kinetic, Thermal, EM])) [LShield, LArmor, LHull]))"

definition module_errors :: "ModuleDef \<Rightarrow> CatalogError list" where
  "module_errors m =
     (let c = md_code m
      in (if md_pgCost m < 0 \<or> md_cpuCost m < 0 then [NegativeCost c] else []) @
         (if md_kind m = MkWeapon then
            (if md_slot m \<noteq> SlotHigh then [WeaponSlot c] else []) @
            (if md_baseDamage m \<le> 0 then [WeaponDamage c] else []) @
            (if md_rateOfFire m \<le> 0 then [WeaponRate c] else []) @
            (if md_optimal m < 0 \<or> md_falloff m < 0 then [WeaponRange c] else []) @
            (if md_projectileSpeed m < 0 then [WeaponProjectile c] else [])
          else []) @
         (if md_kind m = MkRemoteRep \<and> md_range m \<le> 0 then [RepRange c] else []))"

definition fit_errors :: "CombatCatalog \<Rightarrow> FitTemplate \<Rightarrow> CatalogError list" where
  "fit_errors cat f =
     (case FindHull cat (ftp_hull f) of
        None \<Rightarrow> [FitUnknownHull (ftp_name f) (ftp_hull f)]
      | Some h \<Rightarrow> (case ValidateFit h (ftp_modules f) cat of Inl e \<Rightarrow> [FitInvalid (ftp_name f) e] | Inr _ \<Rightarrow> []))"

fun hull_loop :: "HullClass list \<Rightarrow> string set \<Rightarrow> CatalogError list" where
  "hull_loop [] seen = []"
| "hull_loop (h # hs) seen =
     (let (es, seen) = code_errors EmptyHullCode DuplicateHull (hc_code h) seen in es @ hull_errors h @ hull_loop hs seen)"

fun module_loop :: "ModuleDef list \<Rightarrow> string set \<Rightarrow> CatalogError list" where
  "module_loop [] seen = []"
| "module_loop (m # ms) seen =
     (let (es, seen) = code_errors EmptyModuleCode DuplicateModule (md_code m) seen in es @ module_errors m @ module_loop ms seen)"

fun fit_check_loop :: "CombatCatalog \<Rightarrow> FitTemplate list \<Rightarrow> string set \<Rightarrow> CatalogError list" where
  "fit_check_loop cat [] seen = []"
| "fit_check_loop cat (f # fs) seen =
     (if ftp_name f = [] then EmptyFitName # fit_check_loop cat fs seen
      else
        (let (es, seen) = code_errors EmptyFitName DuplicateFit (ftp_name f) seen
         in es @ fit_errors cat f @ fit_check_loop cat fs seen))"

definition ValidateCombatCatalog :: "CombatCatalog \<Rightarrow> bool \<times> CatalogError list" where
  "ValidateCombatCatalog c =
     (let es = hull_loop (cc_hulls c) {} @ module_loop (cc_modules c) {} @ fit_check_loop c (cc_fits c) {}
      in (es = [], es))"

section \<open>The shipped catalog\<close>

definition default_resists :: ResistProfile where
  "default_resists = fold (\<lambda>(l, t, v). Resist_Set l t v)
     [(LShield, Kinetic, rnd32 (40 / 100)), (LShield, Thermal, rnd32 (25 / 100)), (LShield, EM, 0),
      (LArmor, Kinetic, rnd32 (25 / 100)), (LArmor, Thermal, 0), (LArmor, EM, rnd32 (40 / 100))] ResistProfile_new"

definition default_hull ::
    "string \<Rightarrow> HullSize \<Rightarrow> u8 \<Rightarrow> u8 \<Rightarrow> u8 \<Rightarrow> u8 \<Rightarrow> single \<Rightarrow> single \<Rightarrow> single \<Rightarrow> single \<Rightarrow> int \<Rightarrow> int \<Rightarrow> int \<Rightarrow> single \<Rightarrow> HullClass" where
  "default_hull code sz tier h m l pg cpu sig speed sh ar hu regen =
     \<lparr>hc_code = code, hc_size = sz, hc_tier = tier, hc_slotsHigh = h, hc_slotsMid = m, hc_slotsLow = l,
      hc_pgMax = pg, hc_cpuMax = cpu, hc_mass = 0, hc_signature = sig, hc_maxSpeed = speed, hc_shieldHp = sh,
      hc_armorHp = ar, hc_hullHp = hu, hc_shieldRegenPerSec = regen, hc_resists = default_resists\<rparr>"

definition ModuleDef_new :: ModuleDef where
  "ModuleDef_new = \<lparr>md_code = [], md_kind = MkWeapon, md_slot = SlotHigh, md_tier = 1, md_pgCost = 0, md_cpuCost = 0,
     md_damageType = Kinetic, md_baseDamage = 0, md_rateOfFire = 0, md_optimal = 0, md_falloff = 0, md_tracking = 0,
     md_projectileSpeed = 0, md_effectLayer = LShield, md_strength = 0, md_duration = 0, md_range = 0\<rparr>"

definition default_weapon ::
    "string \<Rightarrow> DamageType \<Rightarrow> single \<Rightarrow> single \<Rightarrow> single \<Rightarrow> single \<Rightarrow> single \<Rightarrow> single \<Rightarrow> single \<Rightarrow> single \<Rightarrow> ModuleDef" where
  "default_weapon code dt pg cpu dmg rof optimal falloff tracking projSpeed =
     ModuleDef_new\<lparr>md_code := code, md_pgCost := pg, md_cpuCost := cpu, md_damageType := dt, md_baseDamage := dmg,
       md_rateOfFire := rof, md_optimal := optimal, md_falloff := falloff, md_tracking := tracking,
       md_projectileSpeed := projSpeed\<rparr>"

definition default_mod ::
    "string \<Rightarrow> ModuleKind \<Rightarrow> SlotType \<Rightarrow> single \<Rightarrow> single \<Rightarrow> DefenseLayer \<Rightarrow> single \<Rightarrow> single \<Rightarrow> single \<Rightarrow> ModuleDef" where
  "default_mod code kind slot pg cpu layer strength duration rng =
     ModuleDef_new\<lparr>md_code := code, md_kind := kind, md_slot := slot, md_pgCost := pg, md_cpuCost := cpu,
       md_effectLayer := layer, md_strength := strength, md_duration := duration, md_range := rng\<rparr>"

definition DefaultCombatCatalog :: CombatCatalog where
  "DefaultCombatCatalog =
     \<lparr>cc_hulls = [
        default_hull ''hull.light'' HsLight 1 2 2 1 50 60 40 3200 180 140 120 6,
        default_hull ''hull.medium'' HsMedium 1 3 3 3 120 150 120 2000 420 380 340 9,
        default_hull ''hull.heavy'' HsHeavy 2 4 3 4 250 220 300 1200 760 900 820 12,
        default_hull ''hull.industrial'' HsIndustrial 1 1 2 2 90 120 280 1100 300 360 520 5,
        default_hull ''hull.capital'' HsCapital 1 4 4 4 1000 1000 2000 400 6000 7000 9000 30],
      cc_modules = [
        default_weapon ''module.railgun.t1'' Kinetic 15 10 44 1 1800 900 (rnd32 (6 / 10)) 6000,
        default_weapon ''module.laser.t1'' Thermal 15 12 40 (rnd32 (12 / 10)) 1400 700 (rnd32 (9 / 10)) 0,
        default_weapon ''module.pulser.t1'' EM 15 10 46 1 1500 800 (rnd32 (7 / 10)) 5000,
        default_mod ''module.shieldbooster.t1'' MkShieldBooster SlotMid 10 20 LShield 15 0 0,
        default_mod ''module.remoteshield.t1'' MkRemoteRep SlotHigh 18 22 LShield 25 0 3000,
        default_mod ''module.remotearmor.t1'' MkRemoteRep SlotHigh 22 20 LArmor 22 0 2500,
        default_mod ''module.jammer.t1'' MkJammer SlotMid 8 30 LShield 0 5 2500,
        default_mod ''module.web.t1'' MkWeb SlotMid 6 25 LShield (rnd32 (5 / 10)) 4 1500,
        default_mod ''module.warpdisruptor.t1'' MkWarpDisruptor SlotMid 5 20 LShield 0 6 2000,
        default_mod ''module.sensordamp.t1'' MkSensorDamp SlotMid 7 28 LShield (rnd32 (5 / 10)) 5 2500,
        default_mod ''module.armorplate.t1'' MkArmorPlate SlotLow 12 5 LArmor 200 0 0,
        default_mod ''module.damageamp.t1'' MkDamageAmp SlotLow 8 15 LShield (rnd32 (2 / 10)) 0 0,
        default_mod ''module.trackingenh.t1'' MkTrackingEnhancer SlotLow 5 12 LShield (rnd32 (3 / 10)) 0 0,
        default_mod ''module.afterburner.t1'' MkAfterburner SlotMid 10 10 LShield (rnd32 (14 / 10)) 0 0],
      cc_fits = [
        \<lparr>ftp_name = ''scout-tackle'', ftp_hull = ''hull.light'', ftp_modules = [''module.railgun.t1'', ''module.warpdisruptor.t1'', ''module.afterburner.t1'', ''module.trackingenh.t1'']\<rparr>,
        \<lparr>ftp_name = ''fighter-em'', ftp_hull = ''hull.medium'', ftp_modules = [''module.pulser.t1'', ''module.pulser.t1'', ''module.pulser.t1'', ''module.shieldbooster.t1'',
          ''module.web.t1'', ''module.afterburner.t1'', ''module.damageamp.t1'', ''module.trackingenh.t1'',
          ''module.armorplate.t1'']\<rparr>,
        \<lparr>ftp_name = ''fighter-kin'', ftp_hull = ''hull.medium'', ftp_modules = [''module.railgun.t1'', ''module.railgun.t1'', ''module.railgun.t1'', ''module.shieldbooster.t1'',
          ''module.web.t1'', ''module.afterburner.t1'', ''module.damageamp.t1'', ''module.trackingenh.t1'',
          ''module.armorplate.t1'']\<rparr>,
        \<lparr>ftp_name = ''heavy-anchor'', ftp_hull = ''hull.heavy'', ftp_modules = [''module.railgun.t1'', ''module.railgun.t1'', ''module.railgun.t1'', ''module.railgun.t1'',
          ''module.shieldbooster.t1'', ''module.web.t1'', ''module.afterburner.t1'', ''module.armorplate.t1'',
          ''module.armorplate.t1'', ''module.damageamp.t1'', ''module.trackingenh.t1'']\<rparr>,
        \<lparr>ftp_name = ''logi-shield'', ftp_hull = ''hull.medium'', ftp_modules = [''module.remoteshield.t1'', ''module.remoteshield.t1'', ''module.remoteshield.t1'', ''module.shieldbooster.t1'',
          ''module.afterburner.t1'', ''module.web.t1'', ''module.armorplate.t1'', ''module.armorplate.t1'']\<rparr>,
        \<lparr>ftp_name = ''ewar-jam'', ftp_hull = ''hull.medium'', ftp_modules = [''module.pulser.t1'', ''module.jammer.t1'', ''module.jammer.t1'', ''module.afterburner.t1'',
          ''module.damageamp.t1'', ''module.trackingenh.t1'', ''module.armorplate.t1'']\<rparr>,
        \<lparr>ftp_name = ''base-firesupport'', ftp_hull = ''hull.capital'', ftp_modules = [''module.railgun.t1'', ''module.railgun.t1'', ''module.remoteshield.t1'', ''module.remoteshield.t1'',
          ''module.shieldbooster.t1'', ''module.shieldbooster.t1'', ''module.sensordamp.t1'', ''module.afterburner.t1'',
          ''module.armorplate.t1'', ''module.armorplate.t1'', ''module.armorplate.t1'', ''module.armorplate.t1'']\<rparr>]\<rparr>"

section \<open>What the check guarantees\<close>

definition modules_of :: "CombatCatalog \<Rightarrow> string list \<Rightarrow> ModuleDef list" where
  "modules_of cat codes = List.map_filter (FindModule cat) codes"

definition slot_count :: "nat \<Rightarrow> ModuleDef list \<Rightarrow> nat" where
  "slot_count s ms = length (filter (\<lambda>m. SlotType_index (md_slot m) = s) ms)"

definition fit_ok :: "CombatCatalog \<Rightarrow> FitTemplate \<Rightarrow> bool" where
  "fit_ok cat f \<longleftrightarrow>
     (case FindHull cat (ftp_hull f) of
        None \<Rightarrow> False
      | Some h \<Rightarrow> list_all (\<lambda>c. FindModule cat c \<noteq> None) (ftp_modules f) \<and>
          (let ms = modules_of cat (ftp_modules f)
           in list_all (\<lambda>s. slot_count s ms \<le> unat (hull_slots h ! s)) [0, 1, 2] \<and>
              foldl (\<lambda>t m. fadd t (md_pgCost m)) 0 ms \<le> hc_pgMax h \<and>
              foldl (\<lambda>t m. fadd t (md_cpuCost m)) 0 ms \<le> hc_cpuMax h))"

lemma SlotType_index_less: "SlotType_index s < 3"
  by (cases s) (simp_all add: SlotType_index_def)

lemma fit_loop_ok:
  assumes "fit_loop h cat codes r = Inr r'" "length (fu_used r) = 3"
    "\<forall>s < 3. hull_slots h ! s \<noteq> 255 \<and> unat (fu_used r ! s) = n s \<and> n s \<le> unat (hull_slots h ! s)"
  shows "list_all (\<lambda>c. FindModule cat c \<noteq> None) codes \<and>
    (\<forall>s < 3. n s + slot_count s (modules_of cat codes) \<le> unat (hull_slots h ! s)) \<and>
    fu_pgUsed r' = foldl (\<lambda>t m. fadd t (md_pgCost m)) (fu_pgUsed r) (modules_of cat codes) \<and>
    fu_cpuUsed r' = foldl (\<lambda>t m. fadd t (md_cpuCost m)) (fu_cpuUsed r) (modules_of cat codes)"
  using assms
proof (induction codes arbitrary: r n)
  case Nil
  then show ?case by (simp add: modules_of_def slot_count_def)
next
  case (Cons code codes)
  then obtain m where m: "FindModule cat code = Some m" by (cases "FindModule cat code") simp_all
  define s where "s = SlotType_index (md_slot m)"
  have s: "s < 3" by (simp add: s_def SlotType_index_less)
  define k where "k = fu_used r ! s + 1"
  let ?r = "r\<lparr>fu_used := (fu_used r)[s := k], fu_pgUsed := fadd (fu_pgUsed r) (md_pgCost m), fu_cpuUsed := fadd (fu_cpuUsed r) (md_cpuCost m)\<rparr>"
  have "\<not> k > hull_slots h ! s" and step: "fit_loop h cat codes ?r = Inr r'"
    using Cons.prems(1) m by (simp_all add: Let_def s_def [symmetric] k_def [symmetric] split: if_splits)
  then have le: "unat k \<le> unat (hull_slots h ! s)" by (simp add: word_le_nat_alt not_less)
  have lt: "unat (fu_used r ! s) < 255"
  proof -
    have "hull_slots h ! s \<noteq> 255" "unat (fu_used r ! s) \<le> unat (hull_slots h ! s)" using Cons.prems(3) s by auto
    moreover have "unat (hull_slots h ! s) \<noteq> 255" using calculation(1) by (simp add: word_unat_eq_iff)
    moreover have "unat (hull_slots h ! s) < 2 ^ LENGTH(8)" by (rule unsigned_less)
    ultimately show ?thesis by simp
  qed
  then have k: "unat k = unat (fu_used r ! s) + 1" unfolding k_def by (simp add: unat_word_ariths)
  have "\<forall>i < 3. hull_slots h ! i \<noteq> 255 \<and> unat (fu_used ?r ! i) = (n(s := n s + 1)) i \<and> (n(s := n s + 1)) i \<le> unat (hull_slots h ! i)"
    using Cons.prems(2,3) s k le by (auto simp: nth_list_update)
  from Cons.IH [OF step _ this] Cons.prems(2)
  have ih: "list_all (\<lambda>c. FindModule cat c \<noteq> None) codes" "\<forall>i < 3. (n(s := n s + 1)) i + slot_count i (modules_of cat codes) \<le> unat (hull_slots h ! i)"
    "fu_pgUsed r' = foldl (\<lambda>t m. fadd t (md_pgCost m)) (fadd (fu_pgUsed r) (md_pgCost m)) (modules_of cat codes)"
    "fu_cpuUsed r' = foldl (\<lambda>t m. fadd t (md_cpuCost m)) (fadd (fu_cpuUsed r) (md_cpuCost m)) (modules_of cat codes)"
    by simp_all
  have ms: "modules_of cat (code # codes) = m # modules_of cat codes" by (simp add: modules_of_def m)
  have "n i + slot_count i (modules_of cat (code # codes)) \<le> unat (hull_slots h ! i)" if "i < 3" for i
    using ih(2) [rule_format, OF that] by (cases "i = s") (auto simp: ms slot_count_def s_def split: if_splits)
  then show ?case using ih m by (simp add: ms)
qed

text \<open>A checked catalog has only legal fits.  When the check reports no error, every fit names a hull
  and modules of the catalog, uses no more slots of a kind than its hull has, and stays inside its power and
  CPU budgets (for hulls of fewer than 255 slots of a kind: the counter is a byte).\<close>
theorem checked_catalog_fits:
  assumes "fst (ValidateCombatCatalog cat)"
    "list_all (\<lambda>h. list_all (\<lambda>s. s \<noteq> 255) (hull_slots h)) (cc_hulls cat)"
  shows "list_all (fit_ok cat) (cc_fits cat)"
proof -
  have loop: "fit_check_loop cat fs seen = [] \<Longrightarrow> list_all (\<lambda>f. fit_errors cat f = []) fs" for fs seen
    by (induction fs arbitrary: seen) (auto simp: Let_def split: if_splits prod.splits)
  have "list_all (\<lambda>f. fit_errors cat f = []) (cc_fits cat)"
    using assms(1) by (intro loop [of _ "{}"]) (simp add: ValidateCombatCatalog_def Let_def)
  moreover have "fit_ok cat f" if e: "fit_errors cat f = []" for f
  proof -
    obtain h r where h: "FindHull cat (ftp_hull f) = Some h" and v: "ValidateFit h (ftp_modules f) cat = Inr r"
      using e by (auto simp: fit_errors_def split: option.splits sum.splits)
    have "h \<in> set (cc_hulls cat)" using h by (auto simp: FindHull_def find_Some_iff)
    with assms(2) have "list_all (\<lambda>s. s \<noteq> 255) (hull_slots h)" by (auto simp: list_all_iff)
    then have n255: "hull_slots h ! i \<noteq> 255" if "i < 3" for i
      using that by (auto simp: hull_slots_def less_Suc_eq numeral_3_eq_3)
    have l: "fit_loop h cat (ftp_modules f) \<lparr>fu_pgUsed = 0, fu_cpuUsed = 0, fu_used = [0, 0, 0]\<rparr> = Inr r"
      and b: "fu_pgUsed r \<le> hc_pgMax h" "fu_cpuUsed r \<le> hc_cpuMax h"
      using v by (auto simp: ValidateFit_def split: sum.splits if_splits)
    have "\<forall>i < 3. hull_slots h ! i \<noteq> 255 \<and> unat ([0, 0, 0 :: u8] ! i) = (\<lambda>_. 0) i \<and> (\<lambda>_. 0) i \<le> unat (hull_slots h ! i)"
      using n255 by (auto simp: less_Suc_eq numeral_3_eq_3)
    with fit_loop_ok [OF l, of "\<lambda>_. 0"] b show ?thesis by (simp add: fit_ok_def h Let_def)
  qed
  ultimately show ?thesis by (simp add: list_all_iff)
qed

lemma default_catalog_checked: "fst (ValidateCombatCatalog DefaultCombatCatalog)"
  by code_simp

theorem checked_catalog_fits_witness: "list_all (fit_ok DefaultCombatCatalog) (cc_fits DefaultCombatCatalog)"
  by (rule checked_catalog_fits [OF default_catalog_checked]) code_simp

end
