(* ===== verification/Shape_Catalog.thy ===== *)
theory Shape_Catalog
  imports Sim_Types
begin

text \<open>
  \<open>NeuronCore/ShapeCatalog.h\<close>: the table of mesh assets and its lookups.  The asset paths are
  written with forward slashes.  An enumerator of \<open>EntityKind\<close> that only the catalog uses is
  defined here.
\<close>

datatype ShapeCategory = CatAsteroid | CatCrate | CatDecoration | CatHull | CatJumpgate | CatSpaceObject
  | CatSpecialObject | CatStation

definition ShapeCategory_value :: "ShapeCategory \<Rightarrow> u8" where
  "ShapeCategory_value c = (case c of CatAsteroid \<Rightarrow> 0 | CatCrate \<Rightarrow> 1 | CatDecoration \<Rightarrow> 2 | CatHull \<Rightarrow> 3
     | CatJumpgate \<Rightarrow> 4 | CatSpaceObject \<Rightarrow> 5 | CatSpecialObject \<Rightarrow> 6 | CatStation \<Rightarrow> 7)"

type_synonym ShapeDef = "u16 \<times> ShapeCategory \<times> string \<times> string"

definition sd_id :: "ShapeDef \<Rightarrow> u16" where "sd_id d = fst d"
definition sd_category :: "ShapeDef \<Rightarrow> ShapeCategory" where "sd_category d = fst (snd d)"
definition sd_name :: "ShapeDef \<Rightarrow> string" where "sd_name d = fst (snd (snd d))"

definition SHAPES :: "ShapeDef list" where
  "SHAPES = [
   (0, CatAsteroid, ''Asteroid01Rock'', ''Shapes/Asteroids/Asteroid01Rock.cmo''),
   (1, CatAsteroid, ''Asteroid02Rock'', ''Shapes/Asteroids/Asteroid02Rock.cmo''),
   (2, CatAsteroid, ''Asteroid03Rock'', ''Shapes/Asteroids/Asteroid03Rock.cmo''),
   (3, CatAsteroid, ''Asteroid04Ice'', ''Shapes/Asteroids/Asteroid04Ice.cmo''),
   (4, CatAsteroid, ''Asteroid05Ice'', ''Shapes/Asteroids/Asteroid05Ice.cmo''),
   (5, CatAsteroid, ''Asteroid06Lava'', ''Shapes/Asteroids/Asteroid06Lava.cmo''),
   (6, CatCrate, ''Crate01'', ''Shapes/Crates/Crate01.cmo''),
   (7, CatCrate, ''Crate02'', ''Shapes/Crates/Crate02.cmo''),
   (8, CatCrate, ''CrateAlien01'', ''Shapes/Crates/CrateAlien01.cmo''),
   (9, CatDecoration, ''BrokenAsteroid01'', ''Shapes/Decorations/BrokenAsteroid01.cmo''),
   (10, CatDecoration, ''Satellite01'', ''Shapes/Decorations/Satellite01.cmo''),
   (11, CatDecoration, ''Satellite01Rust'', ''Shapes/Decorations/Satellite01Rust.cmo''),
   (12, CatDecoration, ''StationWreck01'', ''Shapes/Decorations/StationWreck01.cmo''),
   (13, CatHull, ''HullAvalancheMk2'', ''Shapes/Hulls/HeavyFrigates/HullAvalancheMk2.cmo''),
   (14, CatHull, ''HullBansheeMk2'', ''Shapes/Hulls/HeavyFrigates/HullBansheeMk2.cmo''),
   (15, CatHull, ''HullBoomerang'', ''Shapes/Hulls/HeavyFrigates/HullBoomerang.cmo''),
   (16, CatHull, ''HullFang'', ''Shapes/Hulls/HeavyFrigates/HullFang.cmo''),
   (17, CatHull, ''HullFreighter'', ''Shapes/Hulls/HeavyFrigates/HullFreighter.cmo''),
   (18, CatHull, ''HullScarabMk2'', ''Shapes/Hulls/HeavyFrigates/HullScarabMk2.cmo''),
   (19, CatHull, ''HullStingray'', ''Shapes/Hulls/HeavyFrigates/HullStingray.cmo''),
   (20, CatHull, ''HullStryker'', ''Shapes/Hulls/HeavyFrigates/HullStryker.cmo''),
   (21, CatHull, ''HullAurora'', ''Shapes/Hulls/HeavyCruisers/HullAurora.cmo''),
   (22, CatHull, ''HullDeathBringer'', ''Shapes/Hulls/HeavyCruisers/HullDeathBringer.cmo''),
   (23, CatHull, ''HullHammer'', ''Shapes/Hulls/HeavyCruisers/HullHammer.cmo''),
   (24, CatHull, ''HullWasp'', ''Shapes/Hulls/HeavyCruisers/HullWasp.cmo''),
   (25, CatHull, ''HullYamato'', ''Shapes/Hulls/HeavyCruisers/HullYamato.cmo''),
   (26, CatHull, ''HullAvalanche'', ''Shapes/Hulls/LightFrigates/HullAvalanche.cmo''),
   (27, CatHull, ''HullBanshee'', ''Shapes/Hulls/LightFrigates/HullBanshee.cmo''),
   (28, CatHull, ''HullEndeavor'', ''Shapes/Hulls/LightFrigates/HullEndeavor.cmo''),
   (29, CatHull, ''HullHeretic'', ''Shapes/Hulls/LightFrigates/HullHeretic.cmo''),
   (30, CatHull, ''HullScarab'', ''Shapes/Hulls/LightFrigates/HullScarab.cmo''),
   (31, CatHull, ''HullShuttle'', ''Shapes/Hulls/LightFrigates/HullShuttle.cmo''),
   (32, CatHull, ''HullAsteria'', ''Shapes/Hulls/LightCruisers/HullAsteria.cmo''),
   (33, CatHull, ''HullCrab'', ''Shapes/Hulls/LightCruisers/HullCrab.cmo''),
   (34, CatHull, ''HullCrabOrder'', ''Shapes/Hulls/LightCruisers/HullCrabOrder.cmo''),
   (35, CatHull, ''HullOrca'', ''Shapes/Hulls/LightCruisers/HullOrca.cmo''),
   (36, CatHull, ''HullOrcaFreedom'', ''Shapes/Hulls/LightCruisers/HullOrcaFreedom.cmo''),
   (37, CatHull, ''HullStingrayMk2'', ''Shapes/Hulls/LightCruisers/HullStingrayMk2.cmo''),
   (38, CatHull, ''HullStingrayMk2Fanatics'', ''Shapes/Hulls/LightCruisers/HullStingrayMk2Fanatics.cmo''),
   (39, CatHull, ''HullFreighterNpc'', ''Shapes/Hulls/Other/HullFreighterNpc.cmo''),
   (40, CatHull, ''HullHive'', ''Shapes/Hulls/Other/HullHive.cmo''),
   (41, CatHull, ''HullMegalisk'', ''Shapes/Hulls/Other/HullMegalisk.cmo''),
   (42, CatHull, ''HullPestBrown'', ''Shapes/Hulls/Other/HullPestBrown.cmo''),
   (43, CatHull, ''HullPestRed'', ''Shapes/Hulls/Other/HullPestRed.cmo''),
   (44, CatHull, ''HullPiratePlatform'', ''Shapes/Hulls/Other/HullPiratePlatform.cmo''),
   (45, CatHull, ''HullTurretPlatform'', ''Shapes/Hulls/Other/HullTurretPlatform.cmo''),
   (46, CatHull, ''HullTurretPlatformMk2'', ''Shapes/Hulls/Other/HullTurretPlatformMk2.cmo''),
   (47, CatHull, ''HullTurretPlatformMk3'', ''Shapes/Hulls/Other/HullTurretPlatformMk3.cmo''),
   (48, CatHull, ''HullTurretXengatarn'', ''Shapes/Hulls/Other/HullTurretXengatarn.cmo''),
   (49, CatHull, ''HullViolator'', ''Shapes/Hulls/Other/HullViolator.cmo''),
   (50, CatJumpgate, ''Jumpgate01'', ''Shapes/Jumpgates/Jumpgate01.cmo''),
   (51, CatSpaceObject, ''DebrisGenericBarrel01'', ''Shapes/SpaceObjects/DebrisGenericBarrel01.cmo''),
   (52, CatSpaceObject, ''DebrisGenericBarrel02'', ''Shapes/SpaceObjects/DebrisGenericBarrel02.cmo''),
   (53, CatSpaceObject, ''DebrisGenericBarrel03'', ''Shapes/SpaceObjects/DebrisGenericBarrel03.cmo''),
   (54, CatSpaceObject, ''DebrisGenericBeam01'', ''Shapes/SpaceObjects/DebrisGenericBeam01.cmo''),
   (55, CatSpaceObject, ''DebrisGenericPipe01'', ''Shapes/SpaceObjects/DebrisGenericPipe01.cmo''),
   (56, CatSpaceObject, ''DebrisGenericSolarpanel01'', ''Shapes/SpaceObjects/DebrisGenericSolarpanel01.cmo''),
   (57, CatSpaceObject, ''DebrisGenericTransitor01'', ''Shapes/SpaceObjects/DebrisGenericTransitor01.cmo''),
   (58, CatSpaceObject, ''DebrisGenericWreck01'', ''Shapes/SpaceObjects/DebrisGenericWreck01.cmo''),
   (59, CatSpaceObject, ''Mine01'', ''Shapes/SpaceObjects/Mine01.cmo''),
   (60, CatSpecialObject, ''ErgrekTerminal'', ''Shapes/SpecialObjects/ErgrekTerminal.cmo''),
   (61, CatSpecialObject, ''PlatformRefuel'', ''Shapes/SpecialObjects/PlatformRefuel.cmo''),
   (62, CatSpecialObject, ''PlatformRepair'', ''Shapes/SpecialObjects/PlatformRepair.cmo''),
   (63, CatSpecialObject, ''ScurvyRemains'', ''Shapes/SpecialObjects/ScurvyRemains.cmo''),
   (64, CatSpecialObject, ''XengatarnDevice01'', ''Shapes/SpecialObjects/XengatarnDevice01.cmo''),
   (65, CatStation, ''Business01'', ''Shapes/Stations/Business01.cmo''),
   (66, CatStation, ''Military01'', ''Shapes/Stations/Military01.cmo''),
   (67, CatStation, ''Mining01'', ''Shapes/Stations/Mining01.cmo''),
   (68, CatStation, ''Outpost01'', ''Shapes/Stations/Outpost01.cmo''),
   (69, CatStation, ''Science01'', ''Shapes/Stations/Science01.cmo'')]"

definition SHAPE_COUNT :: u16 where "SHAPE_COUNT = 70"
definition INVALID_SHAPE_ID :: u16 where "INVALID_SHAPE_ID = 0xFFFF"

definition Kind_Station :: EntityKind where "Kind_Station = 7"
definition Kind_Asteroid :: EntityKind where "Kind_Asteroid = 8"
definition Kind_Debris :: EntityKind where "Kind_Debris = 9"
definition Kind_Decoration :: EntityKind where "Kind_Decoration = 10"

definition KindForCategory :: "ShapeCategory \<Rightarrow> EntityKind" where
  "KindForCategory c = (case c of CatAsteroid \<Rightarrow> Kind_Asteroid | CatCrate \<Rightarrow> Kind_LootContainer
     | CatDecoration \<Rightarrow> Kind_Decoration | CatHull \<Rightarrow> Kind_Ship | CatJumpgate \<Rightarrow> Kind_Structure
     | CatSpaceObject \<Rightarrow> Kind_Debris | CatSpecialObject \<Rightarrow> Kind_Structure | CatStation \<Rightarrow> Kind_Station)"

definition ShapeById :: "u16 \<Rightarrow> ShapeDef option" where
  "ShapeById i = (if i < SHAPE_COUNT then Some (SHAPES ! unat i) else None)"

definition ShapeIdByName :: "string \<Rightarrow> u16" where
  "ShapeIdByName nm = (case find (\<lambda>s. sd_name s = nm) SHAPES of Some s \<Rightarrow> sd_id s | None \<Rightarrow> INVALID_SHAPE_ID)"

definition FirstShapeOfCategory :: "ShapeCategory \<Rightarrow> u16" where
  "FirstShapeOfCategory c = (case find (\<lambda>s. sd_category s = c) SHAPES of Some s \<Rightarrow> sd_id s | None \<Rightarrow> INVALID_SHAPE_ID)"

lemma find_by_key: "x \<in> set xs \<Longrightarrow> distinct (map f xs) \<Longrightarrow> find (\<lambda>y. f y = f x) xs = Some x"
  by (induction xs) (auto simp: image_iff)

lemma shape_ids: "map sd_id SHAPES = map of_nat [0..<70]"
  by code_simp

lemma shape_names: "distinct (map sd_name SHAPES)"
  by code_simp

text \<open>The shape catalog is consistent.  It has \<open>SHAPE_COUNT\<close> entries, looking a shape up by its
  id returns the entry with this id, looking the name of an entry up returns its id, and every category
  has a shape.\<close>
theorem shape_catalog_consistent:
  "length SHAPES = unat SHAPE_COUNT \<and>
   list_all (\<lambda>s. ShapeById (sd_id s) = Some s \<and> ShapeIdByName (sd_name s) = sd_id s) SHAPES \<and>
   list_all (\<lambda>c. FirstShapeOfCategory c < SHAPE_COUNT)
     [CatAsteroid, CatCrate, CatDecoration, CatHull, CatJumpgate, CatSpaceObject, CatSpecialObject, CatStation]"
proof -
  have len: "length SHAPES = 70" using arg_cong [OF shape_ids, of length] by simp
  have 1: "ShapeById (sd_id s) = Some s \<and> ShapeIdByName (sd_name s) = sd_id s" if s: "s \<in> set SHAPES" for s
  proof -
    obtain i where i: "i < 70" "s = SHAPES ! i" using s len by (auto simp: in_set_conv_nth)
    have "sd_id s = map sd_id SHAPES ! i" using i len by simp
    also have "\<dots> = of_nat i" using i by (simp add: shape_ids)
    finally have id: "sd_id s = of_nat i" .
    have "ShapeById (sd_id s) = Some s"
    proof -
      have u: "unat (sd_id s) = i" unfolding id using i(1) by (simp add: unat_of_nat)
      have "sd_id s < SHAPE_COUNT" using u i(1) by (simp add: SHAPE_COUNT_def word_less_nat_alt)
      then show ?thesis unfolding ShapeById_def u using i(2) by simp
    qed
    moreover have "find (\<lambda>t. sd_name t = sd_name s) SHAPES = Some s"
      using s shape_names by (rule find_by_key)
    ultimately show ?thesis by (simp add: ShapeIdByName_def)
  qed
  have 2: "list_all (\<lambda>c. FirstShapeOfCategory c < SHAPE_COUNT)
     [CatAsteroid, CatCrate, CatDecoration, CatHull, CatJumpgate, CatSpaceObject, CatSpecialObject, CatStation]"
    by code_simp
  show ?thesis using len 1 2 by (simp add: list_all_iff SHAPE_COUNT_def)
qed

end
