(* ===== verification/Universe_Data.thy ===== *)
theory Universe_Data
  imports Economy_Rules "HOL-Library.While_Combinator"
begin

text \<open>
  \<open>NeuronCore/UniverseData.h\<close>: regions, jump beacons and resource fields, and the check of a cooked
  data set.  The messages of the check are constructors; the binary codec is not modelled.  The search
  over the public beacons is the \<open>while\<close> loop of the code, with the outcome \<open>None\<close> for not
  returning; it is shown to return the beacons that are reachable.
\<close>

section \<open>The data set\<close>

datatype SecurityTier = SecHigh | SecLow | SecNull
datatype BeaconKind = BkPublic | BkClaimable

record SectorBounds =
  bo_x0 :: u64
  bo_x1 :: u64
  bo_y0 :: u64
  bo_y1 :: u64
  bo_z0 :: u64
  bo_z1 :: u64

definition WellFormed :: "SectorBounds \<Rightarrow> bool" where
  "WellFormed b \<longleftrightarrow> bo_x0 b \<le>s bo_x1 b \<and> bo_y0 b \<le>s bo_y1 b \<and> bo_z0 b \<le>s bo_z1 b"

definition Contains :: "SectorBounds \<Rightarrow> SectorId \<Rightarrow> bool" where
  "Contains b s \<longleftrightarrow> bo_x0 b \<le>s sec_x s \<and> sec_x s \<le>s bo_x1 b \<and> bo_y0 b \<le>s sec_y s \<and> sec_y s \<le>s bo_y1 b \<and>
     bo_z0 b \<le>s sec_z s \<and> sec_z s \<le>s bo_z1 b"

record RegionDef =
  rg_name :: string
  rg_security :: SecurityTier
  rg_bounds :: SectorBounds
  rg_yieldMult :: single

record BeaconDef =
  bcn_name :: string
  bcn_region :: string
  bcn_pos :: UniversePos
  bcn_links :: "string list"
  bcn_kind :: BeaconKind

type_synonym ResourceWeight = "ResourceType \<times> single"

record ResourceFieldDef =
  fd_name :: string
  fd_region :: string
  fd_center :: UniversePos
  fd_radius :: single
  fd_nodes :: "ResourceWeight list"
  fd_countMin :: u16
  fd_countMax :: u16
  fd_yieldMin :: int
  fd_yieldMax :: int
  fd_respawnSeconds :: u32

record UniverseDataset =
  ud_regions :: "RegionDef list"
  ud_beacons :: "BeaconDef list"
  ud_fields :: "ResourceFieldDef list"
  ud_nav :: NavTuning
  ud_economy :: EconomyTuning

definition UniverseDataset_new :: UniverseDataset where
  "UniverseDataset_new = \<lparr>ud_regions = [], ud_beacons = [], ud_fields = [], ud_nav = NavTuning_default,
     ud_economy = EconomyTuning_default\<rparr>"

definition FindRegion :: "UniverseDataset \<Rightarrow> string \<Rightarrow> RegionDef option" where
  "FindRegion d n = find (\<lambda>r. rg_name r = n) (ud_regions d)"

definition FindBeacon :: "UniverseDataset \<Rightarrow> string \<Rightarrow> BeaconDef option" where
  "FindBeacon d n = find (\<lambda>b. bcn_name b = n) (ud_beacons d)"

definition RegionForSector :: "UniverseDataset \<Rightarrow> SectorId \<Rightarrow> RegionDef option" where
  "RegionForSector d s = find (\<lambda>r. Contains (rg_bounds r) s) (ud_regions d)"

section \<open>The check of a data set\<close>

datatype UniverseError = RegionEmptyName | RegionDuplicate string | RegionBounds string | RegionYield string
  | BeaconEmptyName | BeaconDuplicate string | BeaconRegion string string | BeaconClaimableHigh string
  | BeaconSelfLink string | BeaconUnknownLink string string | BeaconOneWay string string | BeaconIsland string
  | FieldEmptyName | FieldDuplicate string | FieldRegion string string | FieldRadius string | FieldNoNodes string
  | FieldWeight string | FieldWeightSum string | FieldCount string | FieldYield string
  | NavSpeed | NavRange | NavFuel | NavTimings
  | EcoCap | EcoCapacity | EcoRate | EcoBuildSeconds | EcoCosts | EcoSensors | EcoHarvester

text \<open>The checks of names that a set keeps apart: an empty name is reported and not kept.\<close>

fun name_errors :: "UniverseError \<Rightarrow> (string \<Rightarrow> UniverseError) \<Rightarrow> string list \<Rightarrow> string set \<Rightarrow> UniverseError list list" where
  "name_errors em dup [] seen = []"
| "name_errors em dup (n # ns) seen =
     (if n = [] then [em] # name_errors em dup ns seen
      else if n \<in> seen then [dup n] # name_errors em dup ns seen
      else [] # name_errors em dup ns (insert n seen))"

definition region_errors :: "RegionDef \<Rightarrow> UniverseError list" where
  "region_errors r =
     (if \<not> WellFormed (rg_bounds r) then [RegionBounds (rg_name r)] else []) @
     (if rg_yieldMult r < 0 then [RegionYield (rg_name r)] else [])"

definition regionNames :: "UniverseDataset \<Rightarrow> string set" where
  "regionNames d = set (filter (\<lambda>n. n \<noteq> []) (map rg_name (ud_regions d)))"

text \<open>\<open>beaconByName\<close>: \<open>emplace\<close> keeps the first beacon of a name.\<close>

definition beaconByName :: "UniverseDataset \<Rightarrow> string \<Rightarrow> BeaconDef option" where
  "beaconByName d l = (if l = [] then None else FindBeacon d l)"

definition link_errors :: "UniverseDataset \<Rightarrow> BeaconDef \<Rightarrow> string \<Rightarrow> UniverseError list" where
  "link_errors d b l =
     (if l = bcn_name b then [BeaconSelfLink (bcn_name b)]
      else (case beaconByName d l of
              None \<Rightarrow> [BeaconUnknownLink (bcn_name b) l]
            | Some t \<Rightarrow> if bcn_name b \<notin> set (bcn_links t) then [BeaconOneWay (bcn_name b) l] else []))"

definition beacon_errors :: "UniverseDataset \<Rightarrow> BeaconDef \<Rightarrow> UniverseError list" where
  "beacon_errors d b =
     (if bcn_name b = [] then []
      else
        (let region = (if bcn_region b \<in> regionNames d then FindRegion d (bcn_region b) else None)
         in (if region = None then [BeaconRegion (bcn_name b) (bcn_region b)] else []) @
            (case region of
               None \<Rightarrow> []
             | Some r \<Rightarrow> if bcn_kind b = BkClaimable \<and> rg_security r = SecHigh then [BeaconClaimableHigh (bcn_name b)] else []) @
            concat (map (link_errors d b) (bcn_links b))))"

text \<open>The connectivity of the public beacons: a stack of beacons to visit (its top first).\<close>

definition visit_link :: "UniverseDataset \<Rightarrow> string \<Rightarrow> string set \<times> BeaconDef list \<Rightarrow> string set \<times> BeaconDef list" where
  "visit_link d l s =
     (case beaconByName d l of
        None \<Rightarrow> s
      | Some b \<Rightarrow> if bcn_kind b \<noteq> BkPublic \<or> l \<in> fst s then s else (insert l (fst s), b # snd s))"

definition search_public :: "UniverseDataset \<Rightarrow> BeaconDef \<Rightarrow> (string set \<times> BeaconDef list) option" where
  "search_public d front =
     while_option (\<lambda>s. snd s \<noteq> [])
       (\<lambda>s. fold (visit_link d) (bcn_links (hd (snd s))) (fst s, tl (snd s)))
       ({bcn_name front}, [front])"

definition public_beacons :: "UniverseDataset \<Rightarrow> BeaconDef list" where
  "public_beacons d = filter (\<lambda>b. bcn_name b \<noteq> [] \<and> bcn_kind b = BkPublic) (ud_beacons d)"

text \<open>\<open>None\<close>: the search does not return.\<close>

definition island_errors :: "UniverseDataset \<Rightarrow> UniverseError list option" where
  "island_errors d =
     (if length (public_beacons d) > 1 then
        map_option (\<lambda>s. map (\<lambda>b. BeaconIsland (bcn_name b)) (filter (\<lambda>b. bcn_name b \<notin> fst s) (public_beacons d)))
          (search_public d (hd (public_beacons d)))
      else Some [])"

definition field_errors :: "UniverseDataset \<Rightarrow> ResourceFieldDef \<Rightarrow> UniverseError list" where
  "field_errors d f =
     (let n = fd_name f; sum = fold (\<lambda>w t. fadd t (snd w)) (fd_nodes f) 0
      in (if fd_region f \<notin> regionNames d then [FieldRegion n (fd_region f)] else []) @
         (if fd_radius f \<le> 0 then [FieldRadius n] else []) @
         (if fd_nodes f = [] then [FieldNoNodes n] else []) @
         concat (map (\<lambda>w. if snd w \<le> 0 then [FieldWeight n] else []) (fd_nodes f)) @
         (if fd_nodes f \<noteq> [] \<and> (sum < rnd32 (999 / 1000) \<or> sum > rnd32 (1001 / 1000)) then [FieldWeightSum n] else []) @
         (if fd_countMin f > fd_countMax f then [FieldCount n] else []) @
         (if fd_yieldMin f > fd_yieldMax f then [FieldYield n] else []))"

definition nav_errors :: "NavTuning \<Rightarrow> UniverseError list" where
  "nav_errors n =
     (if nt_warpSpeedShip n \<le> 0 \<or> nt_warpSpeedBase n \<le> 0 then [NavSpeed] else []) @
     (if nt_beaconUseRange n \<le> 0 then [NavRange] else []) @
     (if nt_shipFuelMax n \<le> 0 \<or> nt_baseFuelMax n \<le> 0 then [NavFuel] else []) @
     (if nt_warpAlignSeconds n < 0 \<or> nt_jumpSpoolShip n < 0 \<or> nt_jumpSpoolBase n < 0 \<or>
         nt_jumpCooldownSeconds n < 0 \<or> nt_jumpFuelShip n < 0 \<or> nt_jumpFuelBase n < 0 then [NavTimings] else [])"

definition economy_errors :: "EconomyTuning \<Rightarrow> UniverseError list" where
  "economy_errors e =
     (if et_fleetCap e = 0 \<or> et_fleetCap e > 64 then [EcoCap] else []) @
     (if et_cargoCapacity e \<le> 0 \<or> et_storageCapacity e \<le> 0 then [EcoCapacity] else []) @
     (if et_harvestRate e \<le> 0 then [EcoRate] else []) @
     (if et_buildSeconds e \<le> 0 then [EcoBuildSeconds] else []) @
     (if et_buildOreCost e < 0 \<or> et_buildIceCost e < 0 then [EcoCosts] else []) @
     (if et_sensorRangeShip e < 0 \<or> et_sensorRangeBase e < 0 then [EcoSensors] else []) @
     (if et_harvesterSpeed e \<le> 0 \<or> et_harvestRange e \<le> 0 then [EcoHarvester] else [])"

definition ValidateUniverseDataset :: "UniverseDataset \<Rightarrow> (bool \<times> UniverseError list) option" where
  "ValidateUniverseDataset d =
     map_option (\<lambda>islands.
       (let es = concat (map2 (@) (name_errors RegionEmptyName RegionDuplicate (map rg_name (ud_regions d)) {})
                   (map region_errors (ud_regions d))) @
                 concat (name_errors BeaconEmptyName BeaconDuplicate (map bcn_name (ud_beacons d)) {}) @
                 concat (map (beacon_errors d) (ud_beacons d)) @
                 islands @
                 concat (map2 (@) (name_errors FieldEmptyName FieldDuplicate (map fd_name (ud_fields d)) {})
                   (map (field_errors d) (ud_fields d))) @
                 nav_errors (ud_nav d) @ economy_errors (ud_economy d)
        in (es = [], es)))
       (island_errors d)"

section \<open>The search returns\<close>

lemma fold_visit:
  assumes "fold (visit_link d) ls (r, st) = (r', st')"
  shows "\<exists>new. st' = new @ st \<and> r' = r \<union> bcn_name ` set new \<and> card r' = card r + length new \<or> infinite r"
  using assms
proof (induction ls arbitrary: r st)
  case Nil
  then show ?case by auto
next
  case (Cons l ls)
  show ?case
  proof (cases "visit_link d l (r, st) = (r, st)")
    case True
    then show ?thesis using Cons by simp
  next
    case False
    then obtain b where b: "beaconByName d l = Some b" "bcn_kind b = BkPublic" "l \<notin> r"
      by (auto simp: visit_link_def split: option.splits if_splits)
    have n: "bcn_name b = l" using b(1) by (auto simp: beaconByName_def FindBeacon_def find_Some_iff split: if_splits)
    have v: "visit_link d l (r, st) = (insert l r, b # st)" using b by (simp add: visit_link_def)
    show ?thesis
    proof (cases "finite r")
      case False
      then show ?thesis by blast
    next
      case True
      from Cons.IH [of "insert l r" "b # st"] Cons.prems v True obtain new where
        new: "st' = new @ b # st" "r' = insert l r \<union> bcn_name ` set new" "card r' = card (insert l r) + length new" by auto
      then have "st' = (new @ [b]) @ st \<and> r' = r \<union> bcn_name ` set (new @ [b]) \<and> card r' = card r + length (new @ [b])"
        using n b(3) True by auto
      then show ?thesis by blast
    qed
  qed
qed

lemma fold_visit_names:
  "fst (fold (visit_link d) ls s) \<subseteq> fst s \<union> bcn_name ` set (ud_beacons d)"
proof (induction ls arbitrary: s)
  case (Cons l ls)
  have "fst (visit_link d l s) \<subseteq> fst s \<union> bcn_name ` set (ud_beacons d)"
    by (auto simp: visit_link_def beaconByName_def FindBeacon_def find_Some_iff split: option.splits if_splits)
  then show ?case using Cons [of "visit_link d l s"] by auto
qed simp

definition search_inv :: "UniverseDataset \<Rightarrow> BeaconDef \<Rightarrow> string set \<times> BeaconDef list \<Rightarrow> bool" where
  "search_inv d front s \<longleftrightarrow> fst s \<subseteq> insert (bcn_name front) (bcn_name ` set (ud_beacons d))"

definition search_step :: "UniverseDataset \<Rightarrow> string set \<times> BeaconDef list \<Rightarrow> string set \<times> BeaconDef list" where
  "search_step d s = fold (visit_link d) (bcn_links (hd (snd s))) (fst s, tl (snd s))"

lemma search_public_eq: "search_public d front = while_option (\<lambda>s. snd s \<noteq> []) (search_step d) ({bcn_name front}, [front])"
  by (simp add: search_public_def search_step_def [abs_def])

lemma search_returns: "\<exists>s. search_public d front = Some s"
  unfolding search_public_eq
proof (rule measure_while_option_Some [where P = "search_inv d front"
      and f = "\<lambda>s. 2 * (card (insert (bcn_name front) (bcn_name ` set (ud_beacons d))) - card (fst s)) + length (snd s)"])
  let ?N = "insert (bcn_name front) (bcn_name ` set (ud_beacons d))"
  show "search_inv d front ({bcn_name front}, [front])" by (simp add: search_inv_def)
  fix s assume s: "search_inv d front s" "snd s \<noteq> []"
  obtain r st where rst: "s = (r, st)" by (cases s)
  obtain r' st' where n: "search_step d s = (r', st')" by (cases "search_step d s")
  note n' = n [unfolded rst]
  have fin: "finite r" using s(1) rst finite_subset [of r ?N] by (simp add: search_inv_def)
  have inv: "search_inv d front (search_step d s)"
    using fold_visit_names [of d "bcn_links (hd (snd s))" "(fst s, tl (snd s))"] s(1)
    by (auto simp: search_inv_def search_step_def)
  have "fold (visit_link d) (bcn_links (hd st)) (r, tl st) = (r', st')" using n by (simp add: search_step_def rst)
  from fold_visit [OF this] fin obtain new where new: "st' = new @ tl st" "card r' = card r + length new" by blast
  have "card r' \<le> card ?N" using inv n by (intro card_mono) (simp_all add: search_inv_def)
  moreover have "length st = Suc (length (tl st))" using s(2) rst by (cases st) simp_all
  ultimately have "2 * (card ?N - card r') + length st' < 2 * (card ?N - card r) + length st"
    using new by simp
  then show "search_inv d front (search_step d s) \<and>
      2 * (card ?N - card (fst (search_step d s))) + length (snd (search_step d s)) <
      2 * (card ?N - card (fst s)) + length (snd s)" using inv by (simp only: n' rst fst_conv snd_conv)
qed

text \<open>C26: The check of a data set returns.  Whatever beacons and links the data set has (cycles, self links,
  repeated and empty names included), the search over the public beacons ends, and with it the check.\<close>
theorem universe_check_returns: "\<exists>ok es. ValidateUniverseDataset d = Some (ok, es)"
  using search_returns by (simp add: ValidateUniverseDataset_def island_errors_def Let_def)

section \<open>What the check guarantees\<close>

definition public_step :: "UniverseDataset \<Rightarrow> BeaconDef \<Rightarrow> BeaconDef \<Rightarrow> bool" where
  "public_step d b b' \<longleftrightarrow> (\<exists>l \<in> set (bcn_links b). beaconByName d l = Some b' \<and> bcn_kind b' = BkPublic)"

lemma visit_reach:
  assumes "\<And>l. l \<in> set ls \<Longrightarrow> \<exists>b. reach b \<and> l \<in> set (bcn_links b)" "\<And>b b'. reach b \<Longrightarrow> public_step d b b' \<Longrightarrow> reach b'"
    "fst s \<subseteq> bcn_name ` Collect reach" "\<forall>b \<in> set (snd s). reach b"
  shows "fst (fold (visit_link d) ls s) \<subseteq> bcn_name ` Collect reach \<and> (\<forall>b \<in> set (snd (fold (visit_link d) ls s)). reach b)"
  using assms(1,3,4)
proof (induction ls arbitrary: s)
  case (Cons l ls)
  obtain b0 where b0: "reach b0" "l \<in> set (bcn_links b0)" using Cons.prems(1) [of l] by auto
  have "fst (visit_link d l s) \<subseteq> bcn_name ` Collect reach \<and> (\<forall>b \<in> set (snd (visit_link d l s)). reach b)"
  proof (cases "visit_link d l s = s")
    case True
    then show ?thesis using Cons.prems by simp
  next
    case False
    then obtain b where b: "beaconByName d l = Some b" "bcn_kind b = BkPublic" "visit_link d l s = (insert l (fst s), b # snd s)"
      by (auto simp: visit_link_def split: option.splits if_splits)
    then have "reach b" using assms(2) [OF b0(1), of b] b0(2) by (auto simp: public_step_def)
    moreover have "bcn_name b = l" using b(1) by (auto simp: beaconByName_def FindBeacon_def find_Some_iff split: if_splits)
    ultimately show ?thesis using b(3) Cons.prems by auto
  qed
  note step = this [THEN conjunct1] this [THEN conjunct2]
  show ?case
    unfolding fold_Cons comp_apply
  proof (rule Cons.IH)
    fix k assume "k \<in> set ls"
    then show "\<exists>b. reach b \<and> k \<in> set (bcn_links b)" by (intro Cons.prems(1)) simp
  qed (rule step)+
qed simp

lemma search_sound:
  assumes "search_public d front = Some s"
  shows "fst s \<subseteq> bcn_name ` {b. (public_step d)\<^sup>*\<^sup>* front b}"
proof -
  let ?R = "\<lambda>b. (public_step d)\<^sup>*\<^sup>* front b"
  let ?P = "\<lambda>s. fst s \<subseteq> bcn_name ` {b. ?R b} \<and> (\<forall>b \<in> set (snd s). ?R b)"
  have "?P s"
  proof (rule while_option_rule [where P = ?P, OF _ assms [unfolded search_public_eq]])
    show "?P ({bcn_name front}, [front])" by auto
    fix s assume s: "?P s" "snd s \<noteq> []"
    then have hd: "?R (hd (snd s))" by (cases "snd s") auto
    show "?P (search_step d s)"
      unfolding search_step_def
    proof (rule visit_reach)
      fix l assume "l \<in> set (bcn_links (hd (snd s)))"
      with hd show "\<exists>b. ?R b \<and> l \<in> set (bcn_links b)" by blast
    next
      fix b b' assume "?R b" "public_step d b b'"
      then show "?R b'" by (rule rtranclp.rtrancl_into_rtrancl)
    next
      show "fst (fst s, tl (snd s)) \<subseteq> bcn_name ` {b. ?R b}" using s(1) by simp
    next
      show "\<forall>b \<in> set (snd (fst s, tl (snd s))). ?R b" using s by (cases "snd s") simp_all
    qed
  qed
  then show ?thesis by simp
qed

definition no_error :: "UniverseDataset \<Rightarrow> bool" where
  "no_error d \<longleftrightarrow> (\<exists>es. ValidateUniverseDataset d = Some (True, es))"

lemma name_errors_nil:
  assumes "\<forall>e \<in> set (name_errors em dup ns seen). e = []"
  shows "[] \<notin> set ns \<and> distinct ns \<and> set ns \<inter> seen = {}"
  using assms
proof (induction ns arbitrary: seen)
  case (Cons n ns)
  show ?case
  proof (cases "n = [] \<or> n \<in> seen")
    case True
    then show ?thesis using Cons.prems by (auto split: if_splits)
  next
    case False
    then show ?thesis using Cons.prems Cons.IH [of "insert n seen"] by auto
  qed
qed simp

lemma no_errorD:
  assumes "no_error d"
  shows "[] \<notin> bcn_name ` set (ud_beacons d)" "distinct (map bcn_name (ud_beacons d))"
    "\<And>b. b \<in> set (ud_beacons d) \<Longrightarrow> beacon_errors d b = []"
    "length (public_beacons d) > 1 \<Longrightarrow> \<exists>s. search_public d (hd (public_beacons d)) = Some s \<and>
      (\<forall>b \<in> set (public_beacons d). bcn_name b \<in> fst s)"
proof -
  obtain isl es where i: "island_errors d = Some isl" and v: "ValidateUniverseDataset d = Some (True, es)"
    using assms by (auto simp: no_error_def ValidateUniverseDataset_def)
  have parts: "concat (name_errors BeaconEmptyName BeaconDuplicate (map bcn_name (ud_beacons d)) {}) = []"
    "concat (map (beacon_errors d) (ud_beacons d)) = []" "isl = []"
    using v i by (auto simp: ValidateUniverseDataset_def Let_def simp del: concat_eq_Nil_conv)
  from name_errors_nil [of BeaconEmptyName BeaconDuplicate "map bcn_name (ud_beacons d)" "{}"] parts(1)
  show "[] \<notin> bcn_name ` set (ud_beacons d)" "distinct (map bcn_name (ud_beacons d))" by auto
  show "\<And>b. b \<in> set (ud_beacons d) \<Longrightarrow> beacon_errors d b = []" using parts(2) by auto
  show "length (public_beacons d) > 1 \<Longrightarrow> \<exists>s. search_public d (hd (public_beacons d)) = Some s \<and>
      (\<forall>b \<in> set (public_beacons d). bcn_name b \<in> fst s)"
    using i parts(3) by (auto simp: island_errors_def filter_empty_conv)
qed

lemma beacon_lookup:
  assumes "distinct (map bcn_name (ud_beacons d))" "b \<in> set (ud_beacons d)" "bcn_name b \<noteq> []"
  shows "beaconByName d (bcn_name b) = Some b"
proof -
  have "find (\<lambda>c. bcn_name c = bcn_name b) bs = Some b" if "distinct (map bcn_name bs)" "b \<in> set bs" for bs
    using that by (induction bs) (auto simp: image_iff)
  then show ?thesis using assms by (simp add: beaconByName_def FindBeacon_def)
qed

lemma beaconByName_mem: "beaconByName d l = Some b \<Longrightarrow> b \<in> set (ud_beacons d) \<and> bcn_name b = l \<and> l \<noteq> []"
  by (auto simp: beaconByName_def FindBeacon_def find_Some_iff split: if_splits)

lemma public_step_sym:
  assumes "no_error d" "b \<in> set (ud_beacons d)" "bcn_kind b = BkPublic" "public_step d b b'"
  shows "public_step d b' b"
proof -
  note ne = no_errorD [OF assms(1)]
  obtain l where l: "l \<in> set (bcn_links b)" "beaconByName d l = Some b'" using assms(4) by (auto simp: public_step_def)
  have nn: "bcn_name b \<noteq> []" using ne(1) assms(2) by (metis image_eqI)
  have "link_errors d b l = []" using ne(3) [OF assms(2)] l(1) nn by (auto simp: beacon_errors_def Let_def)
  then have "bcn_name b \<in> set (bcn_links b')" using l(2) by (auto simp: link_errors_def split: if_splits)
  then show ?thesis using beacon_lookup [OF ne(2) assms(2) nn] assms(3) by (auto simp: public_step_def)
qed

lemma public_reach_sym:
  assumes "no_error d" "(public_step d)\<^sup>*\<^sup>* a b" "a \<in> set (ud_beacons d)" "bcn_kind a = BkPublic"
  shows "(public_step d)\<^sup>*\<^sup>* b a \<and> b \<in> set (ud_beacons d) \<and> bcn_kind b = BkPublic"
  using assms(2)
proof (induction rule: rtranclp_induct)
  case base
  then show ?case using assms(3,4) by simp
next
  case (step b c)
  then have "public_step d c b" using public_step_sym [OF assms(1)] by blast
  moreover have "c \<in> set (ud_beacons d) \<and> bcn_kind c = BkPublic"
    using step(2) beaconByName_mem by (auto simp: public_step_def)
  ultimately show ?case using step.IH by (blast intro: converse_rtranclp_into_rtranclp)
qed

text \<open>C27: A checked data set has one public network.  When the check reports no error, every two public
  beacons are joined by public beacons along their links, so no beacon is an island a fleet cannot jump
  out of.\<close>
theorem checked_universe_connected:
  assumes "no_error d" "b \<in> set (public_beacons d)" "b' \<in> set (public_beacons d)"
  shows "(public_step d)\<^sup>*\<^sup>* b b'"
proof (cases "length (public_beacons d) > 1")
  case False
  then obtain x where "public_beacons d = [x]" using assms(2) by (cases "public_beacons d") auto
  then show ?thesis using assms by simp
next
  case True
  note ne = no_errorD [OF assms(1)]
  let ?f = "hd (public_beacons d)"
  have "?f \<in> set (public_beacons d)" using assms(2) by (intro hd_in_set) auto
  then have f: "?f \<in> set (ud_beacons d)" "bcn_kind ?f = BkPublic" by (simp_all add: public_beacons_def)
  obtain s where s: "search_public d ?f = Some s" "\<forall>b \<in> set (public_beacons d). bcn_name b \<in> fst s" using ne(4) [OF True] by blast
  have reach: "(public_step d)\<^sup>*\<^sup>* ?f c" if c: "c \<in> set (public_beacons d)" for c
  proof -
    obtain c' where c': "(public_step d)\<^sup>*\<^sup>* ?f c'" "bcn_name c' = bcn_name c"
      using search_sound [OF s(1)] s(2) c by fastforce
    then have "c' \<in> set (ud_beacons d)" using public_reach_sym [OF assms(1) c'(1) f] by simp
    moreover have "c \<in> set (ud_beacons d)" using c by (simp add: public_beacons_def)
    ultimately have "c' = c" using ne(2) c'(2) by (auto simp: distinct_map dest: inj_onD)
    with c' show ?thesis by simp
  qed
  have "(public_step d)\<^sup>*\<^sup>* b ?f" using public_reach_sym [OF assms(1) reach [OF assms(2)] f] by simp
  with reach [OF assms(3)] show ?thesis by simp
qed

definition demo_region :: RegionDef where
  "demo_region = \<lparr>rg_name = ''DEMO'', rg_security = SecHigh, rg_bounds = \<lparr>bo_x0 = 0, bo_x1 = 0, bo_y0 = 0, bo_y1 = 0, bo_z0 = 0, bo_z1 = 0\<rparr>,
     rg_yieldMult = 1\<rparr>"

definition demo_beacon :: "string \<Rightarrow> u64 \<Rightarrow> string \<Rightarrow> BeaconDef" where
  "demo_beacon n x l = \<lparr>bcn_name = n, bcn_region = ''DEMO'', bcn_pos = \<lparr>up_x = x, up_y = 0, up_z = 260\<rparr>, bcn_links = [l], bcn_kind = BkPublic\<rparr>"

definition demo_dataset :: UniverseDataset where
  "demo_dataset = UniverseDataset_new\<lparr>ud_regions := [demo_region],
     ud_beacons := [demo_beacon ''DEMO_GATE_W'' 15284 ''DEMO_GATE_E'', demo_beacon ''DEMO_GATE_E'' 17084 ''DEMO_GATE_W'']\<rparr>"

lemma demo_checked: "no_error demo_dataset"
proof -
  have "island_errors demo_dataset = Some []" by code_simp
  then show ?thesis
    by (simp add: no_error_def ValidateUniverseDataset_def)
      (simp add: demo_dataset_def UniverseDataset_new_def demo_region_def demo_beacon_def region_errors_def WellFormed_def
        beacon_errors_def Let_def regionNames_def FindRegion_def link_errors_def beaconByName_def FindBeacon_def
        nav_errors_def economy_errors_def NavTuning_default_def EconomyTuning_default_def)
qed

theorem checked_universe_connected_witness:
  "(public_step demo_dataset)\<^sup>*\<^sup>* (demo_beacon ''DEMO_GATE_E'' 17084 ''DEMO_GATE_W'') (demo_beacon ''DEMO_GATE_W'' 15284 ''DEMO_GATE_E'')"
  by (rule checked_universe_connected [OF demo_checked])
    (simp_all add: public_beacons_def demo_dataset_def demo_beacon_def)

end
