(* ===== verification/Sim_World.thy ===== *)
theory Sim_World
  imports Combat_Rules Combat_Catalog Shape_Catalog Universe_Data Command_Codec Replication Interest_Grid
begin

text \<open>
  The authoritative state of the simulation: the fields of \<open>ServerUniverse\<close>
  (\<open>NeuronCore/ServerUniverse.h\<close>) over the entity-component store of \<open>Ecs\<close>.  A stored
  component is a value of the union \<open>Component\<close>; a \<open>CompType\<close> stands for the template argument
  of \<open>GetComponent<T>\<close>: its slot (\<open>SimComponents.cpp\<close>) and how its values lie in the union.

  A write through a pointer or reference that the code obtained from the store is \<open>put\<close>, which
  cannot fail; adding a component and creating an entity can (\<open>None\<close> is a failed assertion).
  \<open>for_each\<close> is the store's \<open>ForEach\<close> for a loop body that also changes other state; the body
  gets the handle of the entity.  Hash maps that are only looked up are functions.
\<close>

section \<open>Components\<close>

datatype Component =
    C_Transform Transform | C_Velocity Velocity | C_BaseTag unit | C_ShipTag u8 | C_NetId u32
  | C_Health Health | C_ShapeId ShapeId | C_Fuel Fuel | C_NavState NavState | C_BeaconTag u16
  | C_OwnerId u32 | C_ResourceNodeTag ResourceNodeTag | C_Cargo Hold | C_Storage Hold | C_BuildQueue BuildQueue
  | C_FleetMember u8 | C_Sensor single | C_HarvestOrder HarvestOrder | C_FleetOrder FleetOrder | C_Weapon Weapon
  | C_NpcAi NpcAi | C_DefenseLayers DefenseLayers | C_ResistProfile ResistProfile | C_Fitting Fitting
  | C_EwarStatus EwarStatus | C_Projectile Projectile | C_LootContainer LootContainer | C_BaseCombat BaseCombat
  | C_HullInfo HullInfo

record 'x CompType =
  ct_slot :: nat
  ct_wrap :: "'x \<Rightarrow> Component"
  ct_unwrap :: "Component \<Rightarrow> 'x option"

definition T_Transform where "T_Transform = \<lparr>ct_slot = 0, ct_wrap = C_Transform, ct_unwrap = (\<lambda>c. case c of C_Transform x \<Rightarrow> Some x | _ \<Rightarrow> None)\<rparr>"
definition T_Velocity where "T_Velocity = \<lparr>ct_slot = 1, ct_wrap = C_Velocity, ct_unwrap = (\<lambda>c. case c of C_Velocity x \<Rightarrow> Some x | _ \<Rightarrow> None)\<rparr>"
definition T_BaseTag where "T_BaseTag = \<lparr>ct_slot = 2, ct_wrap = C_BaseTag, ct_unwrap = (\<lambda>c. case c of C_BaseTag x \<Rightarrow> Some x | _ \<Rightarrow> None)\<rparr>"
definition T_ShipTag where "T_ShipTag = \<lparr>ct_slot = 3, ct_wrap = C_ShipTag, ct_unwrap = (\<lambda>c. case c of C_ShipTag x \<Rightarrow> Some x | _ \<Rightarrow> None)\<rparr>"
definition T_NetId where "T_NetId = \<lparr>ct_slot = 4, ct_wrap = C_NetId, ct_unwrap = (\<lambda>c. case c of C_NetId x \<Rightarrow> Some x | _ \<Rightarrow> None)\<rparr>"
definition T_Health where "T_Health = \<lparr>ct_slot = 5, ct_wrap = C_Health, ct_unwrap = (\<lambda>c. case c of C_Health x \<Rightarrow> Some x | _ \<Rightarrow> None)\<rparr>"
definition T_ShapeId where "T_ShapeId = \<lparr>ct_slot = 6, ct_wrap = C_ShapeId, ct_unwrap = (\<lambda>c. case c of C_ShapeId x \<Rightarrow> Some x | _ \<Rightarrow> None)\<rparr>"
definition T_Fuel where "T_Fuel = \<lparr>ct_slot = 7, ct_wrap = C_Fuel, ct_unwrap = (\<lambda>c. case c of C_Fuel x \<Rightarrow> Some x | _ \<Rightarrow> None)\<rparr>"
definition T_NavState where "T_NavState = \<lparr>ct_slot = 8, ct_wrap = C_NavState, ct_unwrap = (\<lambda>c. case c of C_NavState x \<Rightarrow> Some x | _ \<Rightarrow> None)\<rparr>"
definition T_BeaconTag where "T_BeaconTag = \<lparr>ct_slot = 9, ct_wrap = C_BeaconTag, ct_unwrap = (\<lambda>c. case c of C_BeaconTag x \<Rightarrow> Some x | _ \<Rightarrow> None)\<rparr>"
definition T_OwnerId where "T_OwnerId = \<lparr>ct_slot = 10, ct_wrap = C_OwnerId, ct_unwrap = (\<lambda>c. case c of C_OwnerId x \<Rightarrow> Some x | _ \<Rightarrow> None)\<rparr>"
definition T_ResourceNodeTag where "T_ResourceNodeTag = \<lparr>ct_slot = 11, ct_wrap = C_ResourceNodeTag, ct_unwrap = (\<lambda>c. case c of C_ResourceNodeTag x \<Rightarrow> Some x | _ \<Rightarrow> None)\<rparr>"
definition T_Cargo where "T_Cargo = \<lparr>ct_slot = 12, ct_wrap = C_Cargo, ct_unwrap = (\<lambda>c. case c of C_Cargo x \<Rightarrow> Some x | _ \<Rightarrow> None)\<rparr>"
definition T_Storage where "T_Storage = \<lparr>ct_slot = 13, ct_wrap = C_Storage, ct_unwrap = (\<lambda>c. case c of C_Storage x \<Rightarrow> Some x | _ \<Rightarrow> None)\<rparr>"
definition T_BuildQueue where "T_BuildQueue = \<lparr>ct_slot = 14, ct_wrap = C_BuildQueue, ct_unwrap = (\<lambda>c. case c of C_BuildQueue x \<Rightarrow> Some x | _ \<Rightarrow> None)\<rparr>"
definition T_FleetMember where "T_FleetMember = \<lparr>ct_slot = 15, ct_wrap = C_FleetMember, ct_unwrap = (\<lambda>c. case c of C_FleetMember x \<Rightarrow> Some x | _ \<Rightarrow> None)\<rparr>"
definition T_Sensor where "T_Sensor = \<lparr>ct_slot = 16, ct_wrap = C_Sensor, ct_unwrap = (\<lambda>c. case c of C_Sensor x \<Rightarrow> Some x | _ \<Rightarrow> None)\<rparr>"
definition T_HarvestOrder where "T_HarvestOrder = \<lparr>ct_slot = 17, ct_wrap = C_HarvestOrder, ct_unwrap = (\<lambda>c. case c of C_HarvestOrder x \<Rightarrow> Some x | _ \<Rightarrow> None)\<rparr>"
definition T_FleetOrder where "T_FleetOrder = \<lparr>ct_slot = 18, ct_wrap = C_FleetOrder, ct_unwrap = (\<lambda>c. case c of C_FleetOrder x \<Rightarrow> Some x | _ \<Rightarrow> None)\<rparr>"
definition T_Weapon where "T_Weapon = \<lparr>ct_slot = 19, ct_wrap = C_Weapon, ct_unwrap = (\<lambda>c. case c of C_Weapon x \<Rightarrow> Some x | _ \<Rightarrow> None)\<rparr>"
definition T_NpcAi where "T_NpcAi = \<lparr>ct_slot = 20, ct_wrap = C_NpcAi, ct_unwrap = (\<lambda>c. case c of C_NpcAi x \<Rightarrow> Some x | _ \<Rightarrow> None)\<rparr>"
definition T_DefenseLayers where "T_DefenseLayers = \<lparr>ct_slot = 21, ct_wrap = C_DefenseLayers, ct_unwrap = (\<lambda>c. case c of C_DefenseLayers x \<Rightarrow> Some x | _ \<Rightarrow> None)\<rparr>"
definition T_ResistProfile where "T_ResistProfile = \<lparr>ct_slot = 22, ct_wrap = C_ResistProfile, ct_unwrap = (\<lambda>c. case c of C_ResistProfile x \<Rightarrow> Some x | _ \<Rightarrow> None)\<rparr>"
definition T_Fitting where "T_Fitting = \<lparr>ct_slot = 23, ct_wrap = C_Fitting, ct_unwrap = (\<lambda>c. case c of C_Fitting x \<Rightarrow> Some x | _ \<Rightarrow> None)\<rparr>"
definition T_EwarStatus where "T_EwarStatus = \<lparr>ct_slot = 24, ct_wrap = C_EwarStatus, ct_unwrap = (\<lambda>c. case c of C_EwarStatus x \<Rightarrow> Some x | _ \<Rightarrow> None)\<rparr>"
definition T_Projectile where "T_Projectile = \<lparr>ct_slot = 25, ct_wrap = C_Projectile, ct_unwrap = (\<lambda>c. case c of C_Projectile x \<Rightarrow> Some x | _ \<Rightarrow> None)\<rparr>"
definition T_LootContainer where "T_LootContainer = \<lparr>ct_slot = 26, ct_wrap = C_LootContainer, ct_unwrap = (\<lambda>c. case c of C_LootContainer x \<Rightarrow> Some x | _ \<Rightarrow> None)\<rparr>"
definition T_BaseCombat where "T_BaseCombat = \<lparr>ct_slot = 27, ct_wrap = C_BaseCombat, ct_unwrap = (\<lambda>c. case c of C_BaseCombat x \<Rightarrow> Some x | _ \<Rightarrow> None)\<rparr>"
definition T_HullInfo where "T_HullInfo = \<lparr>ct_slot = 28, ct_wrap = C_HullInfo, ct_unwrap = (\<lambda>c. case c of C_HullInfo x \<Rightarrow> Some x | _ \<Rightarrow> None)\<rparr>"

lemmas comp_types = T_Transform_def T_Velocity_def T_BaseTag_def T_ShipTag_def T_NetId_def T_Health_def T_ShapeId_def
  T_Fuel_def T_NavState_def T_BeaconTag_def T_OwnerId_def T_ResourceNodeTag_def T_Cargo_def T_Storage_def
  T_BuildQueue_def T_FleetMember_def T_Sensor_def T_HarvestOrder_def T_FleetOrder_def T_Weapon_def T_NpcAi_def
  T_DefenseLayers_def T_ResistProfile_def T_Fitting_def T_EwarStatus_def T_Projectile_def T_LootContainer_def
  T_BaseCombat_def T_HullInfo_def

text \<open>The slots the constructor of \<open>ServerUniverse\<close> registers.\<close>

definition REGISTERED :: "nat list" where "REGISTERED = [0..<29]"

section \<open>Access to the store\<close>

type_synonym world = "Component World"

definition get :: "'x CompType \<Rightarrow> world \<Rightarrow> EntityHandle \<Rightarrow> 'x option" where
  "get T w e = Option.bind (GetComponent w (ct_slot T) e) (ct_unwrap T)"

definition has :: "'x CompType \<Rightarrow> world \<Rightarrow> EntityHandle \<Rightarrow> bool" where
  "has T w e = HasComponent w (ct_slot T) e"

definition put :: "'x CompType \<Rightarrow> 'x \<Rightarrow> EntityHandle \<Rightarrow> world \<Rightarrow> world" where
  "put T v e w = (case SetComponent (ct_slot T) (ct_wrap T v) e w of Some w' \<Rightarrow> w' | None \<Rightarrow> w)"

definition add :: "'x CompType \<Rightarrow> 'x \<Rightarrow> EntityHandle \<Rightarrow> world \<Rightarrow> world option" where
  "add T v e w = AddComponent (ct_slot T) (ct_wrap T v) e w"

text \<open>A component with its initial value, and the sequence of additions that builds an entity.\<close>

definition init :: "'x CompType \<Rightarrow> 'x \<Rightarrow> nat \<times> Component" where
  "init T v = (ct_slot T, ct_wrap T v)"

primrec add_all :: "(nat \<times> Component) list \<Rightarrow> EntityHandle \<Rightarrow> world \<Rightarrow> world option" where
  "add_all [] e w = Some w"
| "add_all (c # cs) e w = Option.bind (AddComponent (fst c) (snd c) e w) (add_all cs e)"

definition handle_at :: "world \<Rightarrow> nat \<Rightarrow> EntityHandle" where
  "handle_at w idx = push_bit INDEX_BITS (er_generation (m_records w ! idx)) OR of_nat idx"

definition for_each :: "('s \<Rightarrow> world) \<Rightarrow> nat list \<Rightarrow> (EntityHandle \<Rightarrow> 's \<Rightarrow> 's) \<Rightarrow> 's \<Rightarrow> 's" where
  "for_each wd cids fn s =
     fold (\<lambda>idx s. if visited (wd s) (required_mask cids) idx then fn (handle_at (wd s) idx) s else s)
       [1..<length (m_records (wd s))] s"

section \<open>The state of the server\<close>

datatype EconEventType = EvLootDrop | EvLootClaim | EvKillmail | EvCargoLost

record EconEvent =
  ev_type :: EconEventType
  ev_aNetId :: u32
  ev_bNetId :: u32
  ev_value :: int
  ev_tick :: u32

record Killmail =
  km_victim :: u32
  km_killer :: u32
  km_victimKind :: u8
  km_value :: int
  km_tick :: u32

record ServerUniverse =
  su_world :: world
  su_netIdToEntity :: "u32 \<rightharpoonup> EntityHandle"
  su_universe :: UniverseDataset
  su_nav :: NavTuning
  su_economy :: EconomyTuning
  su_buildCompleted :: "u32 list"
  su_beaconEntity :: "u16 \<rightharpoonup> u32"
  su_beaconName :: "string \<rightharpoonup> u16"
  su_lastTravelSector :: SectorId
  su_interest :: InterestGrid
  su_repl :: ReplicationStamps
  su_baselines :: "u32 \<rightharpoonup> ClientBaseline"
  su_known :: "u32 \<rightharpoonup> ClientKnownState"
  su_lastSent :: "u32 \<Rightarrow> u32 \<rightharpoonup> u32"
  su_weights :: RelevanceWeights
  su_visibleCap :: nat
  su_siteAlive :: "u16 \<rightharpoonup> int"
  su_clearedSites :: "u16 list"
  su_nextSiteId :: u16
  su_revealed :: "u32 \<Rightarrow> u32 set"
  su_scanDwell :: "u64 \<Rightarrow> single"
  su_combat :: CombatCatalog
  su_simTime :: double
  su_projectileSubSteps :: int
  su_baseRetreatHullFrac :: single
  su_baseRetreatSeconds :: single
  su_lootFraction :: single
  su_lootExpireSeconds :: single
  su_combatEnabled :: bool
  su_econEvents :: "EconEvent list"
  su_killmails :: "Killmail list"
  su_lowHullAlerts :: "u32 list"
  su_nextNetId :: u32
  su_tick :: u32

type_synonym server = ServerUniverse

definition registered_world :: world where
  "registered_world = World_new\<lparr>m_storages := map (\<lambda>cid. if cid \<in> set REGISTERED then Some Storage_new else None)
     [0..<MAX_COMPONENT_TYPES]\<rparr>"

text \<open>The server after the registrations, before demo content.\<close>

definition ServerUniverse_new :: server where
  "ServerUniverse_new = \<lparr>su_world = registered_world, su_netIdToEntity = Map.empty, su_universe = UniverseDataset_new,
     su_nav = NavTuning_default, su_economy = EconomyTuning_default, su_buildCompleted = [], su_beaconEntity = Map.empty,
     su_beaconName = Map.empty, su_lastTravelSector = \<lparr>sec_x = 0, sec_y = 0, sec_z = 0\<rparr>, su_interest = InterestGrid_new,
     su_repl = Map.empty, su_baselines = Map.empty, su_known = Map.empty, su_lastSent = (\<lambda>_. Map.empty),
     su_weights = RelevanceWeights_default, su_visibleCap = 256, su_siteAlive = Map.empty, su_clearedSites = [],
     su_nextSiteId = 1, su_revealed = (\<lambda>_. {}), su_scanDwell = (\<lambda>_. 0), su_combat = DefaultCombatCatalog, su_simTime = 0,
     su_projectileSubSteps = 4, su_baseRetreatHullFrac = rnd32 (15 / 100), su_baseRetreatSeconds = 30,
     su_lootFraction = 1 / 2, su_lootExpireSeconds = 300, su_combatEnabled = True, su_econEvents = [], su_killmails = [],
     su_lowHullAlerts = [], su_nextNetId = 1, su_tick = 0\<rparr>"

definition on_world :: "(world \<Rightarrow> world) \<Rightarrow> server \<Rightarrow> server" where
  "on_world f su = su\<lparr>su_world := f (su_world su)\<rparr>"

definition EntityOf :: "server \<Rightarrow> u32 \<Rightarrow> EntityHandle" where
  "EntityOf su netId = (case su_netIdToEntity su netId of None \<Rightarrow> 0 | Some e \<Rightarrow> e)"

text \<open>\<open>m_world.GetComponent<T>(EntityOf(netId))\<close>, the accessors \<open>NavOf\<close>, \<open>CargoOf\<close>, \<dots>\<close>

definition comp_of :: "'x CompType \<Rightarrow> server \<Rightarrow> u32 \<Rightarrow> 'x option" where
  "comp_of T su netId = get T (su_world su) (EntityOf su netId)"

definition set_comp :: "'x CompType \<Rightarrow> 'x \<Rightarrow> u32 \<Rightarrow> server \<Rightarrow> server" where
  "set_comp T v netId su = on_world (put T v (EntityOf su netId)) su"

definition IsBase :: "server \<Rightarrow> u32 \<Rightarrow> bool" where
  "IsBase su netId = has T_BaseTag (su_world su) (EntityOf su netId)"

definition OwnerOf :: "server \<Rightarrow> u32 \<Rightarrow> u32" where
  "OwnerOf su netId = (case comp_of T_OwnerId su netId of Some o' \<Rightarrow> o' | None \<Rightarrow> 0)"

definition Hostile :: "u32 \<Rightarrow> u32 \<Rightarrow> bool" where
  "Hostile oa ob \<longleftrightarrow> (if oa = 0 \<and> ob = 0 then False else if oa = 0 \<or> ob = 0 then True else oa \<noteq> ob)"

definition Ally :: "u32 \<Rightarrow> u32 \<Rightarrow> bool" where
  "Ally oa ob \<longleftrightarrow> (if oa = 0 \<and> ob = 0 then True else oa \<noteq> 0 \<and> oa = ob)"

section \<open>What access does\<close>

definition slot_of :: "Component \<Rightarrow> nat" where
  "slot_of c = (case c of C_Transform _ \<Rightarrow> 0 | C_Velocity _ \<Rightarrow> 1 | C_BaseTag _ \<Rightarrow> 2 | C_ShipTag _ \<Rightarrow> 3 | C_NetId _ \<Rightarrow> 4
     | C_Health _ \<Rightarrow> 5 | C_ShapeId _ \<Rightarrow> 6 | C_Fuel _ \<Rightarrow> 7 | C_NavState _ \<Rightarrow> 8 | C_BeaconTag _ \<Rightarrow> 9 | C_OwnerId _ \<Rightarrow> 10
     | C_ResourceNodeTag _ \<Rightarrow> 11 | C_Cargo _ \<Rightarrow> 12 | C_Storage _ \<Rightarrow> 13 | C_BuildQueue _ \<Rightarrow> 14 | C_FleetMember _ \<Rightarrow> 15
     | C_Sensor _ \<Rightarrow> 16 | C_HarvestOrder _ \<Rightarrow> 17 | C_FleetOrder _ \<Rightarrow> 18 | C_Weapon _ \<Rightarrow> 19 | C_NpcAi _ \<Rightarrow> 20
     | C_DefenseLayers _ \<Rightarrow> 21 | C_ResistProfile _ \<Rightarrow> 22 | C_Fitting _ \<Rightarrow> 23 | C_EwarStatus _ \<Rightarrow> 24 | C_Projectile _ \<Rightarrow> 25
     | C_LootContainer _ \<Rightarrow> 26 | C_BaseCombat _ \<Rightarrow> 27 | C_HullInfo _ \<Rightarrow> 28)"

definition ct_ok :: "'x CompType \<Rightarrow> bool" where
  "ct_ok T \<longleftrightarrow> ct_slot T < 29 \<and> (\<forall>x. ct_unwrap T (ct_wrap T x) = Some x \<and> slot_of (ct_wrap T x) = ct_slot T) \<and>
     (\<forall>c. slot_of c = ct_slot T \<longrightarrow> ct_unwrap T c \<noteq> None)"

named_theorems ct_simps \<open>the component types are well-formed, and their slots\<close>

lemma ct_slots [ct_simps]:
  "ct_slot T_Transform = 0" "ct_slot T_Velocity = 1" "ct_slot T_BaseTag = 2" "ct_slot T_ShipTag = 3" "ct_slot T_NetId = 4"
  "ct_slot T_Health = 5" "ct_slot T_ShapeId = 6" "ct_slot T_Fuel = 7" "ct_slot T_NavState = 8" "ct_slot T_BeaconTag = 9"
  "ct_slot T_OwnerId = 10" "ct_slot T_ResourceNodeTag = 11" "ct_slot T_Cargo = 12" "ct_slot T_Storage = 13"
  "ct_slot T_BuildQueue = 14" "ct_slot T_FleetMember = 15" "ct_slot T_Sensor = 16" "ct_slot T_HarvestOrder = 17"
  "ct_slot T_FleetOrder = 18" "ct_slot T_Weapon = 19" "ct_slot T_NpcAi = 20" "ct_slot T_DefenseLayers = 21"
  "ct_slot T_ResistProfile = 22" "ct_slot T_Fitting = 23" "ct_slot T_EwarStatus = 24" "ct_slot T_Projectile = 25"
  "ct_slot T_LootContainer = 26" "ct_slot T_BaseCombat = 27" "ct_slot T_HullInfo = 28"
  by (simp_all add: comp_types)

lemma ct_ok_Transform [ct_simps]: "ct_ok T_Transform" by (auto simp: ct_ok_def T_Transform_def slot_of_def split: Component.splits)
lemma ct_ok_Velocity [ct_simps]: "ct_ok T_Velocity" by (auto simp: ct_ok_def T_Velocity_def slot_of_def split: Component.splits)
lemma ct_ok_BaseTag [ct_simps]: "ct_ok T_BaseTag" by (auto simp: ct_ok_def T_BaseTag_def slot_of_def split: Component.splits)
lemma ct_ok_ShipTag [ct_simps]: "ct_ok T_ShipTag" by (auto simp: ct_ok_def T_ShipTag_def slot_of_def split: Component.splits)
lemma ct_ok_NetId [ct_simps]: "ct_ok T_NetId" by (auto simp: ct_ok_def T_NetId_def slot_of_def split: Component.splits)
lemma ct_ok_Health [ct_simps]: "ct_ok T_Health" by (auto simp: ct_ok_def T_Health_def slot_of_def split: Component.splits)
lemma ct_ok_ShapeId [ct_simps]: "ct_ok T_ShapeId" by (auto simp: ct_ok_def T_ShapeId_def slot_of_def split: Component.splits)
lemma ct_ok_Fuel [ct_simps]: "ct_ok T_Fuel" by (auto simp: ct_ok_def T_Fuel_def slot_of_def split: Component.splits)
lemma ct_ok_NavState [ct_simps]: "ct_ok T_NavState" by (auto simp: ct_ok_def T_NavState_def slot_of_def split: Component.splits)
lemma ct_ok_OwnerId [ct_simps]: "ct_ok T_OwnerId" by (auto simp: ct_ok_def T_OwnerId_def slot_of_def split: Component.splits)
lemma ct_ok_ResourceNodeTag [ct_simps]: "ct_ok T_ResourceNodeTag" by (auto simp: ct_ok_def T_ResourceNodeTag_def slot_of_def split: Component.splits)
lemma ct_ok_Cargo [ct_simps]: "ct_ok T_Cargo" by (auto simp: ct_ok_def T_Cargo_def slot_of_def split: Component.splits)
lemma ct_ok_Storage [ct_simps]: "ct_ok T_Storage" by (auto simp: ct_ok_def T_Storage_def slot_of_def split: Component.splits)
lemma ct_ok_BuildQueue [ct_simps]: "ct_ok T_BuildQueue" by (auto simp: ct_ok_def T_BuildQueue_def slot_of_def split: Component.splits)
lemma ct_ok_Sensor [ct_simps]: "ct_ok T_Sensor" by (auto simp: ct_ok_def T_Sensor_def slot_of_def split: Component.splits)
lemma ct_ok_HarvestOrder [ct_simps]: "ct_ok T_HarvestOrder" by (auto simp: ct_ok_def T_HarvestOrder_def slot_of_def split: Component.splits)
lemma ct_ok_FleetOrder [ct_simps]: "ct_ok T_FleetOrder" by (auto simp: ct_ok_def T_FleetOrder_def slot_of_def split: Component.splits)
lemma ct_ok_Weapon [ct_simps]: "ct_ok T_Weapon" by (auto simp: ct_ok_def T_Weapon_def slot_of_def split: Component.splits)
lemma ct_ok_NpcAi [ct_simps]: "ct_ok T_NpcAi" by (auto simp: ct_ok_def T_NpcAi_def slot_of_def split: Component.splits)
lemma ct_ok_DefenseLayers [ct_simps]: "ct_ok T_DefenseLayers" by (auto simp: ct_ok_def T_DefenseLayers_def slot_of_def split: Component.splits)
lemma ct_ok_ResistProfile [ct_simps]: "ct_ok T_ResistProfile" by (auto simp: ct_ok_def T_ResistProfile_def slot_of_def split: Component.splits)
lemma ct_ok_Fitting [ct_simps]: "ct_ok T_Fitting" by (auto simp: ct_ok_def T_Fitting_def slot_of_def split: Component.splits)
lemma ct_ok_EwarStatus [ct_simps]: "ct_ok T_EwarStatus" by (auto simp: ct_ok_def T_EwarStatus_def slot_of_def split: Component.splits)
lemma ct_ok_Projectile [ct_simps]: "ct_ok T_Projectile" by (auto simp: ct_ok_def T_Projectile_def slot_of_def split: Component.splits)
lemma ct_ok_LootContainer [ct_simps]: "ct_ok T_LootContainer" by (auto simp: ct_ok_def T_LootContainer_def slot_of_def split: Component.splits)
lemma ct_ok_BaseCombat [ct_simps]: "ct_ok T_BaseCombat" by (auto simp: ct_ok_def T_BaseCombat_def slot_of_def split: Component.splits)
lemma ct_ok_HullInfo [ct_simps]: "ct_ok T_HullInfo" by (auto simp: ct_ok_def T_HullInfo_def slot_of_def split: Component.splits)

text \<open>The store is well-formed and every component lies in the storage of its type.\<close>

definition sim_ok :: "world \<Rightarrow> bool" where
  "sim_ok w \<longleftrightarrow> world_ok w \<and> (\<forall>k e c. k < 64 \<longrightarrow> GetComponent w k e = Some c \<longrightarrow> slot_of c = k)"

lemma sim_okD: "sim_ok w \<Longrightarrow> world_ok w"
  by (simp add: sim_ok_def)

lemma ct_okD:
  assumes "ct_ok T"
  shows "ct_slot T < 29" "ct_slot T < 64" "ct_unwrap T (ct_wrap T x) = Some x" "slot_of (ct_wrap T x) = ct_slot T"
    "slot_of c = ct_slot T \<Longrightarrow> ct_unwrap T c \<noteq> None"
  using assms by (simp_all add: ct_ok_def)

lemma get_Some_Get:
  assumes "sim_ok w" "ct_ok T"
  shows "get T w e = None \<longleftrightarrow> GetComponent w (ct_slot T) e = None"
proof (cases "GetComponent w (ct_slot T) e")
  case (Some c)
  then have "slot_of c = ct_slot T" using assms(1) ct_okD(2) [OF assms(2)] by (simp add: sim_ok_def)
  with ct_okD(5) [OF assms(2)] Some show ?thesis by (auto simp: get_def)
qed (simp add: get_def)

lemma has_get: "sim_ok w \<Longrightarrow> ct_ok T \<Longrightarrow> has T w e \<longleftrightarrow> get T w e \<noteq> None"
  by (simp add: has_def get_Some_Get HasComponent_Get sim_okD ct_okD(2))

lemma get_alive: "get T w e \<noteq> None \<Longrightarrow> IsAlive w e"
  by (auto simp: get_def GetComponent_eq split: if_splits)

lemma put_frame:
  assumes "sim_ok w" "ct_ok T"
  shows "sim_ok (put T v e w)" "m_records (put T v e w) = m_records w"
    "k < 64 \<Longrightarrow> GetComponent (put T v e w) k e' =
      (if k = ct_slot T \<and> e' = e \<and> GetComponent w k e \<noteq> None then Some (ct_wrap T v) else GetComponent w k e')"
proof -
  note T = ct_okD [OF assms(2)]
  have "sim_ok (put T v e w) \<and> m_records (put T v e w) = m_records w \<and> (\<forall>k e'. k < 64 \<longrightarrow> GetComponent (put T v e w) k e' =
      (if k = ct_slot T \<and> e' = e \<and> GetComponent w k e \<noteq> None then Some (ct_wrap T v) else GetComponent w k e'))"
  proof (cases "SetComponent (ct_slot T) (ct_wrap T v) e w")
    case None
    then have n: "GetComponent w (ct_slot T) e = None"
      using SetComponent_total [OF sim_okD [OF assms(1)] _ T(2), of e "ct_wrap T v"] by (metis option.distinct(1))
    have "put T v e w = w" using None by (simp add: put_def)
    then show ?thesis using assms(1) n by auto
  next
    case (Some w')
    note F = SetComponent_frame [OF sim_okD [OF assms(1)] Some T(2)]
    have "put T v e w = w'" using Some by (simp add: put_def)
    then show ?thesis using assms(1) F T(4) by (auto simp: sim_ok_def)
  qed
  then show "sim_ok (put T v e w)" "m_records (put T v e w) = m_records w"
    "k < 64 \<Longrightarrow> GetComponent (put T v e w) k e' =
      (if k = ct_slot T \<and> e' = e \<and> GetComponent w k e \<noteq> None then Some (ct_wrap T v) else GetComponent w k e')" by blast+
qed

lemma IsAlive_records: "m_records w' = m_records w \<Longrightarrow> IsAlive w' e = IsAlive w e"
  by (simp add: IsAlive_def)

lemma has_records: "m_records w' = m_records w \<Longrightarrow> has T w' e = has T w e"
  by (simp add: has_def HasComponent_def IsAlive_def)

lemma get_put:
  assumes "sim_ok w" "ct_ok T"
  shows "get T (put T v e w) e' = (if e' = e \<and> get T w e \<noteq> None then Some v else get T w e')"
  using put_frame(3) [OF assms, of "ct_slot T" v e e'] get_Some_Get [OF assms, of e] ct_okD [OF assms(2)]
  by (auto simp: get_def)

lemma get_put_other:
  assumes "sim_ok w" "ct_ok T" "ct_ok T'" "ct_slot T' \<noteq> ct_slot T"
  shows "get T' (put T v e w) e' = get T' w e'"
  using put_frame(3) [OF assms(1,2), of "ct_slot T'" v e e'] ct_okD(2) [OF assms(3)] assms(4)
  by (simp add: get_def)

lemma add_frame:
  assumes "sim_ok w" "AddComponent k0 c e w = Some w'" "k0 < 64" "slot_of c = k0"
  shows "sim_ok w'" "IsAlive w' e' = IsAlive w e'"
    "k < 64 \<Longrightarrow> GetComponent w' k e' = (if k = k0 \<and> e' = e then Some c else GetComponent w k e')"
    "IsAlive w e" "GetComponent w k0 e = None"
  using AddComponent_frame [OF sim_okD [OF assms(1)] assms(2,3)] assms(1,4)
  by (auto simp: sim_ok_def split: if_splits)

lemma add_all_frame:
  assumes "sim_ok w" "add_all cs e w = Some w'" "\<forall>c \<in> set cs. fst c < 64 \<and> slot_of (snd c) = fst c" "IsAlive w e"
  shows "sim_ok w' \<and> (\<forall>e'. IsAlive w' e' = IsAlive w e') \<and> distinct (map fst cs) \<and> (\<forall>k e'. k < 64 \<longrightarrow> GetComponent w' k e' =
    (case map_of cs k of Some c \<Rightarrow> if e' = e then Some c else GetComponent w k e' | None \<Rightarrow> GetComponent w k e'))"
  using assms
proof (induction cs arbitrary: w)
  case Nil
  then show ?case by simp
next
  case (Cons c cs)
  obtain w1 where w1: "AddComponent (fst c) (snd c) e w = Some w1" "add_all cs e w1 = Some w'"
    using Cons.prems(2) by (auto simp: bind_eq_Some_conv)
  note F = add_frame [OF Cons.prems(1) w1(1)]
  have c: "fst c < 64" "slot_of (snd c) = fst c" using Cons.prems(3) by auto
  have ih: "sim_ok w' \<and> (\<forall>e'. IsAlive w' e' = IsAlive w1 e') \<and> distinct (map fst cs) \<and> (\<forall>k e'. k < 64 \<longrightarrow> GetComponent w' k e' =
    (case map_of cs k of Some c \<Rightarrow> if e' = e then Some c else GetComponent w1 k e' | None \<Rightarrow> GetComponent w1 k e'))"
    using Cons.IH [OF F(1) [OF c] w1(2)] Cons.prems(3,4) F(2) [OF c] by simp
  have "fst c \<notin> set (map fst cs)"
  proof
    assume "fst c \<in> set (map fst cs)"
    then obtain ds d fs where s: "cs = ds @ d # fs" "fst d = fst c" by (metis (no_types, lifting) image_iff list.set_map split_list)
    have "add_all (ds @ d # fs) e u = Some u' \<Longrightarrow> sim_ok u \<Longrightarrow> \<forall>x \<in> set ds. fst x < 64 \<and> slot_of (snd x) = fst x \<Longrightarrow>
        GetComponent u (fst c) e \<noteq> None \<Longrightarrow> False" for u u'
    proof (induction ds arbitrary: u)
      case Nil
      then obtain u1 where "AddComponent (fst d) (snd d) e u = Some u1" by (auto simp: bind_eq_Some_conv)
      then show ?case using AddComponent_frame(5) [OF sim_okD [OF Nil(2)]] Nil(4) s(2) c(1) by simp
    next
      case (Cons x ds)
      then obtain u1 where u1: "AddComponent (fst x) (snd x) e u = Some u1" "add_all (ds @ d # fs) e u1 = Some u'"
        by (auto simp: bind_eq_Some_conv)
      have x: "fst x < 64" "slot_of (snd x) = fst x" using Cons.prems(3) by auto
      have "GetComponent u1 (fst c) e \<noteq> None"
        using Cons.prems(4) add_frame(3) [OF Cons.prems(2) u1(1) x c(1), of e] by (cases "fst c = fst x") auto
      then show ?case
        using Cons.IH [OF u1(2) add_frame(1) [OF Cons.prems(2) u1(1) x]] Cons.prems(3) by simp
    qed
    from this [of w1 w'] w1(2) s(1) F(1,3) [OF c] Cons.prems(3) c(1) show False by simp
  qed
  note fresh = this
  then have mo: "map_of cs (fst c) = None" by (simp add: map_of_eq_None_iff)
  have "GetComponent w' k e' = (case map_of (c # cs) k of Some c \<Rightarrow> if e' = e then Some c else GetComponent w k e' | None \<Rightarrow> GetComponent w k e')"
    if k: "k < 64" for k e'
  proof (cases "k = fst c")
    case True
    then have "GetComponent w' k e' = GetComponent w1 k e'" using ih k mo by simp
    then show ?thesis using F(3) [OF c k] True by (cases c) simp
  next
    case False
    then have "map_of (c # cs) k = map_of cs k" by (cases c) simp
    then show ?thesis using ih k F(3) [OF c k] False by (simp split: option.splits)
  qed
  then show ?case using ih F(2) [OF c] fresh by simp
qed

section \<open>Loops over the store\<close>

lemma for_each_inv:
  assumes "P s" "\<And>e s. P s \<Longrightarrow> P (fn e s)"
  shows "P (for_each wd cids fn s)"
proof -
  have "P (fold (\<lambda>idx s. if visited (wd s) m idx then fn (handle_at (wd s) idx) s else s) xs s)" if "P s" for xs s m
    using that by (induction xs arbitrary: s) (simp_all add: assms(2))
  with assms(1) show ?thesis by (simp add: for_each_def)
qed

text \<open>What a server step without creation or destruction of entities keeps.\<close>

definition keeps :: "world \<Rightarrow> world \<Rightarrow> bool" where
  "keeps w w' \<longleftrightarrow> m_records w' = m_records w \<and> (sim_ok w \<longrightarrow> sim_ok w')"

named_theorems keeps_intros \<open>operations that only write components\<close>

lemma keeps_refl [keeps_intros]: "keeps w w"
  by (simp add: keeps_def)

lemma keeps_trans: "keeps w w' \<Longrightarrow> keeps w' w'' \<Longrightarrow> keeps w w''"
  by (simp add: keeps_def)

lemma put_records: "m_records (put T v e w) = m_records w"
  by (auto simp: put_def SetComponent_def split: option.splits if_splits)

lemma keeps_put [keeps_intros]: "ct_ok T \<Longrightarrow> keeps w (put T v e w)"
  by (simp add: keeps_def put_records put_frame)

end
