(* ===== verification/Server_Spawn.thy ===== *)
theory Server_Spawn
  imports Sim_World
begin

text \<open>
  Putting entities into the world (\<open>NeuronCore/ServerUniverse.h\<close>): bases, props, resource nodes,
  ships and guardians, the installation of a fit, and the loading of a data set.  An outcome
  \<open>None\<close> is a failed assertion of the store.  The rings of guardians and nodes use
  \<open>std::cos\<close> and \<open>std::sin\<close>, whose accuracy the language leaves open: they are the parameters
  \<open>cosd\<close> and \<open>sind\<close>.
\<close>

section \<open>Shapes\<close>

definition shape_or_zero :: "string \<Rightarrow> u16" where
  "shape_or_zero nm = (let i = ShapeIdByName nm in if i \<noteq> INVALID_SHAPE_ID then i else 0)"

definition BaseShapeId :: u16 where "BaseShapeId = shape_or_zero ''Outpost01''"
definition BeaconShapeId :: u16 where "BeaconShapeId = shape_or_zero ''Jumpgate01''"
definition ShipShapeId :: u16 where "ShipShapeId = shape_or_zero ''HullShuttle''"
definition LootShapeId :: u16 where "LootShapeId = shape_or_zero ''Crate01''"
definition ProjShapeId :: u16 where "ProjShapeId = 0"

definition MAX_BASE_SPEED :: single where "MAX_BASE_SPEED = 50"
definition FLEET_MOVE_SPEED :: single where "FLEET_MOVE_SPEED = 2000"
definition NPC_AGGRO_RANGE :: single where "NPC_AGGRO_RANGE = 6000"
definition NPC_FLEE_HP_FRAC :: single where "NPC_FLEE_HP_FRAC = rnd32 (15 / 100)"
definition DEFAULT_SHIP_FIT :: string where "DEFAULT_SHIP_FIT = ''fighter-kin''"
definition NPC_FIT :: string where "NPC_FIT = ''fighter-kin''"

text \<open>\<open>std::sqrt\<close> of a float: the double root rounded once more, which is the correctly rounded root.\<close>

definition fsqrt :: "single \<Rightarrow> single" where "fsqrt x = rnd32 (dsqrt x)"

definition ClampSpeed :: "vec3 \<Rightarrow> single \<Rightarrow> vec3" where
  "ClampSpeed vel maxSpeed =
     (case vel of (x, y, z) \<Rightarrow>
       (let sq = fadd (fadd (fmul x x) (fmul y y)) (fmul z z); maxSq = fmul maxSpeed maxSpeed
        in if sq \<le> maxSq \<or> sq \<le> 0 then vel
           else (let sc = fdiv maxSpeed (fsqrt sq) in (fmul x sc, fmul y sc, fmul z sc))))"

definition at_pos :: "UniversePos \<Rightarrow> Transform" where
  "at_pos p = \<lparr>tf_pos = p, tf_localOffset = (0, 0, 0)\<rparr>"

section \<open>Installing a fit\<close>

definition AddOrSet :: "'x CompType \<Rightarrow> 'x \<Rightarrow> EntityHandle \<Rightarrow> world \<Rightarrow> world option" where
  "AddOrSet T v e w = (case get T w e of None \<Rightarrow> add T v e w | Some _ \<Rightarrow> Some (put T v e w))"

definition DeriveWeaponSummary :: "Fitting \<Rightarrow> Weapon" where
  "DeriveWeaponSummary fit =
     (let ws = filter (\<lambda>mi. md_kind (mi_def mi) = MkWeapon) (ft_modules fit)
      in \<lparr>wp_range = foldl (\<lambda>r mi. max r (fadd (md_optimal (mi_def mi)) (md_falloff (mi_def mi)))) 0 ws,
          wp_dps = foldl (\<lambda>t mi. fadd t (fmul (md_baseDamage (mi_def mi)) (md_rateOfFire (mi_def mi)))) 0 ws,
          wp_pending = 0\<rparr>)"

definition sum_strength :: "ModuleKind \<Rightarrow> ModuleDef list \<Rightarrow> single" where
  "sum_strength k mods = foldl (\<lambda>t m. if md_kind m = k then fadd t (md_strength m) else t) 0 mods"

definition plate_armor :: "ModuleDef list \<Rightarrow> int" where
  "plate_armor mods = foldl (\<lambda>t m. if md_kind m = MkArmorPlate then t + dtrunc (md_strength m) else t) 0 mods"

definition fit_defenses :: "HullClass \<Rightarrow> ModuleDef list \<Rightarrow> DefenseLayers" where
  "fit_defenses h mods =
     (let ar = hc_armorHp h + plate_armor mods
      in \<lparr>dl_shield = \<lparr>hp_cur = hc_shieldHp h, hp_max = hc_shieldHp h\<rparr>, dl_armor = \<lparr>hp_cur = ar, hp_max = ar\<rparr>,
          dl_hull = \<lparr>hp_cur = hc_hullHp h, hp_max = hc_hullHp h\<rparr>,
          dl_shieldRegenPerSec = fadd (hc_shieldRegenPerSec h) (sum_strength MkShieldBooster mods), dl_regenPending = 0\<rparr>)"

definition fit_instance :: "single \<Rightarrow> single \<Rightarrow> ModuleDef \<Rightarrow> ModuleInstance" where
  "fit_instance dmgAmp trackAmp m =
     \<lparr>mi_def = (if md_kind m = MkWeapon
        then m\<lparr>md_baseDamage := fmul (md_baseDamage m) (fadd 1 dmgAmp), md_tracking := fadd (md_tracking m) trackAmp\<rparr> else m),
      mi_cooldown = 0, mi_pending = 0\<rparr>"

definition fit_fitting :: "HullClass \<Rightarrow> ModuleDef list \<Rightarrow> Fitting" where
  "fit_fitting h mods =
     \<lparr>ft_modules = map (fit_instance (sum_strength MkDamageAmp mods) (sum_strength MkTrackingEnhancer mods)) mods,
      ft_pgUsed = foldl (\<lambda>t m. fadd t (md_pgCost m)) 0 mods, ft_pgMax = hc_pgMax h,
      ft_cpuUsed = foldl (\<lambda>t m. fadd t (md_cpuCost m)) 0 mods, ft_cpuMax = hc_cpuMax h, ft_slots = hull_slots h\<rparr>"

definition InstallFitDirect :: "EntityHandle \<Rightarrow> HullClass \<Rightarrow> ModuleDef list \<Rightarrow> world \<Rightarrow> world option" where
  "InstallFitDirect e h mods w =
     (let d = fit_defenses h mods; fit = fit_fitting h mods
      in do {
        w \<leftarrow> AddOrSet T_DefenseLayers d e w;
        w \<leftarrow> AddOrSet T_ResistProfile (hc_resists h) e w;
        w \<leftarrow> AddOrSet T_HullInfo \<lparr>hi_signature = hc_signature h, hi_maxSpeed = hc_maxSpeed h, hi_size = hc_size h\<rparr> e w;
        w \<leftarrow> (if \<not> has T_EwarStatus w e then add T_EwarStatus EwarStatus_new e w else Some w);
        w \<leftarrow> AddOrSet T_Weapon (DeriveWeaponSummary fit) e w;
        w \<leftarrow> AddOrSet T_Fitting fit e w;
        AddOrSet T_Health \<lparr>h_hp = TotalCur d, h_maxHp = TotalMax d\<rparr> e w
      })"

definition InstallFit :: "CombatCatalog \<Rightarrow> EntityHandle \<Rightarrow> string \<Rightarrow> world \<Rightarrow> (bool \<times> world) option" where
  "InstallFit cat e fitName w =
     (case FindFit cat fitName of
        None \<Rightarrow> Some (False, w)
      | Some ft \<Rightarrow> (case FindHull cat (ftp_hull ft) of
          None \<Rightarrow> Some (False, w)
        | Some h \<Rightarrow> map_option (Pair True) (InstallFitDirect e h (List.map_filter (FindModule cat) (ftp_modules ft)) w)))"

section \<open>Spawning\<close>

text \<open>\<open>netId = m_nextNetId++; e = CreateEntity(); AddComponent\<dots>; m_netIdToEntity[netId] = e\<close>, with
  the components that follow from the id.\<close>

definition spawn :: "(u32 \<Rightarrow> (nat \<times> Component) list) \<Rightarrow> (EntityHandle \<Rightarrow> world \<Rightarrow> world option) \<Rightarrow> server \<Rightarrow> (u32 \<times> server) option" where
  "spawn comps finish su =
     (let netId = su_nextNetId su
      in do {
        (e, w) \<leftarrow> CreateEntity (su_world su);
        w \<leftarrow> add_all (comps netId) e w;
        w \<leftarrow> finish e w;
        Some (netId, su\<lparr>su_nextNetId := netId + 1, su_world := w, su_netIdToEntity := (su_netIdToEntity su)(netId \<mapsto> e)\<rparr>)
      })"

definition base_comps :: "server \<Rightarrow> UniversePos \<Rightarrow> vec3 \<Rightarrow> u32 \<Rightarrow> (nat \<times> Component) list" where
  "base_comps su start vel netId =
     [init T_Transform (at_pos start), init T_Velocity (ClampSpeed vel MAX_BASE_SPEED), init T_NetId netId,
      init T_BaseTag (), init T_ShapeId \<lparr>sh_value = BaseShapeId, sh_kind = Kind_Base\<rparr>,
      init T_Fuel \<lparr>fu_current = nt_baseFuelMax (su_nav su), fu_max = nt_baseFuelMax (su_nav su)\<rparr>,
      init T_NavState NavState_new, init T_OwnerId netId,
      init T_Storage (Hold_new\<lparr>ho_capacity := et_storageCapacity (su_economy su)\<rparr>), init T_BuildQueue BuildQueue_new,
      init T_Sensor (et_sensorRangeBase (su_economy su)), init T_FleetOrder FleetOrder_new, init T_BaseCombat BaseCombat_new]"

definition SpawnBase :: "UniversePos \<Rightarrow> vec3 \<Rightarrow> server \<Rightarrow> (u32 \<times> server) option" where
  "SpawnBase start vel su =
     spawn (base_comps su start vel) (\<lambda>e w. map_option snd (InstallFit (su_combat su) e ''base-firesupport'' w)) su"

definition SpawnProp :: "u16 \<Rightarrow> UniversePos \<Rightarrow> server \<Rightarrow> (u32 \<times> server) option" where
  "SpawnProp shapeId pos su =
     (let kind = (case ShapeById shapeId of Some d \<Rightarrow> KindForCategory (sd_category d) | None \<Rightarrow> Kind_Unknown)
      in spawn (\<lambda>netId. [init T_Transform (at_pos pos), init T_NetId netId,
           init T_ShapeId \<lparr>sh_value = shapeId, sh_kind = kind\<rparr>]) (\<lambda>e. Some) su)"

definition SpawnResourceNode :: "ResourceType \<Rightarrow> single \<Rightarrow> UniversePos \<Rightarrow> server \<Rightarrow> (u32 \<times> server) option" where
  "SpawnResourceNode type yield pos su =
     (let nm = (if type = Ice then ''Asteroid04Ice'' else if type = Gas then ''Asteroid06Lava'' else ''Asteroid01Rock'')
      in spawn (\<lambda>netId. [init T_Transform (at_pos pos), init T_NetId netId,
           init T_ShapeId \<lparr>sh_value = shape_or_zero nm, sh_kind = Kind_ResourceNode\<rparr>,
           init T_ResourceNodeTag \<lparr>rn_type = of_nat (ResourceType_index type), rn_remaining = yield\<rparr>]) (\<lambda>e. Some) su)"

definition OwnedShipCount :: "server \<Rightarrow> u32 \<Rightarrow> u16" where
  "OwnedShipCount su player =
     for_each (\<lambda>_. su_world su) [ct_slot T_OwnerId, ct_slot T_ShipTag]
       (\<lambda>e n. if get T_OwnerId (su_world su) e = Some player then n + 1 else n) 0"

definition ship_comps :: "server \<Rightarrow> u32 \<Rightarrow> u16 \<Rightarrow> UniversePos \<Rightarrow> u32 \<Rightarrow> (nat \<times> Component) list" where
  "ship_comps su player shapeId pos netId =
     [init T_Transform (at_pos pos), init T_Velocity (0, 0, 0), init T_NetId netId,
      init T_ShipTag (case ShapeById shapeId of Some d \<Rightarrow> ShapeCategory_value (sd_category d) | None \<Rightarrow> 0),
      init T_ShapeId \<lparr>sh_value = shapeId, sh_kind = Kind_Ship\<rparr>, init T_OwnerId player,
      init T_Cargo (Hold_new\<lparr>ho_capacity := et_cargoCapacity (su_economy su)\<rparr>),
      init T_Fuel \<lparr>fu_current = nt_shipFuelMax (su_nav su), fu_max = nt_shipFuelMax (su_nav su)\<rparr>,
      init T_NavState NavState_new, init T_Sensor (et_sensorRangeShip (su_economy su)), init T_FleetMember 0,
      init T_FleetOrder FleetOrder_new]"

text \<open>A fit that is not known is replaced by the default fit.\<close>

definition install_or :: "CombatCatalog \<Rightarrow> string \<Rightarrow> string \<Rightarrow> EntityHandle \<Rightarrow> world \<Rightarrow> world option" where
  "install_or cat fitName dflt e w = do {
     (ok, w) \<leftarrow> InstallFit cat e fitName w;
     if ok then Some w else map_option snd (InstallFit cat e dflt w)
   }"

definition SpawnFleetShipFit :: "u32 \<Rightarrow> u16 \<Rightarrow> UniversePos \<Rightarrow> string \<Rightarrow> server \<Rightarrow> (u32 \<times> server) option" where
  "SpawnFleetShipFit player shapeId pos fitName su =
     (if OwnedShipCount su player \<ge> et_fleetCap (su_economy su) then Some (0, su)
      else spawn (ship_comps su player shapeId pos) (install_or (su_combat su) fitName DEFAULT_SHIP_FIT) su)"

definition SpawnFleetShip :: "u32 \<Rightarrow> u16 \<Rightarrow> UniversePos \<Rightarrow> server \<Rightarrow> (u32 \<times> server) option" where
  "SpawnFleetShip player shapeId pos su = SpawnFleetShipFit player shapeId pos DEFAULT_SHIP_FIT su"

definition guardian_comps :: "UniversePos \<Rightarrow> u32 \<Rightarrow> (nat \<times> Component) list" where
  "guardian_comps pos netId =
     [init T_Transform (at_pos pos), init T_Velocity (0, 0, 0), init T_NetId netId, init T_ShipTag 0,
      init T_ShapeId \<lparr>sh_value = ShipShapeId, sh_kind = Kind_NpcUnit\<rparr>, init T_OwnerId 0, init T_FleetOrder FleetOrder_new]"

definition guardian_ai :: "AiState \<Rightarrow> UniversePos \<Rightarrow> u16 \<Rightarrow> NpcAi" where
  "guardian_ai st pos siteId = \<lparr>ai_state = st, ai_home = pos, ai_aggroRange = NPC_AGGRO_RANGE,
     ai_fleeHpFrac = NPC_FLEE_HP_FRAC, ai_targetNetId = 0, ai_siteId = siteId\<rparr>"

definition SpawnNpcGuardian :: "UniversePos \<Rightarrow> u16 \<Rightarrow> string \<Rightarrow> server \<Rightarrow> (u32 \<times> server) option" where
  "SpawnNpcGuardian pos siteId fitName su =
     spawn (guardian_comps pos)
       (\<lambda>e w. do { w \<leftarrow> install_or (su_combat su) fitName NPC_FIT e w; add T_NpcAi (guardian_ai AiDefend pos siteId) e w }) su"

text \<open>The angle of the \<open>i\<close>-th of \<open>n\<close> places on a ring, and the place.\<close>

definition pi_double :: double where "pi_double = rnd (314159265358979323846 / 10 ^ 20)"

definition ring_angle :: "nat \<Rightarrow> nat \<Rightarrow> double" where
  "ring_angle i n = ddiv (dmul (dmul 2 pi_double) (double_of_int (int i))) (double_of_int (int n))"

definition ring_pos :: "(double \<Rightarrow> double) \<Rightarrow> (double \<Rightarrow> double) \<Rightarrow> (double \<Rightarrow> double) \<Rightarrow> nat \<Rightarrow> nat \<Rightarrow> UniversePos \<Rightarrow> UniversePos" where
  "ring_pos cosd sind scale i n c =
     (let a = ring_angle i n
      in c\<lparr>up_x := up_x c + word_of_int (lround (scale (cosd a))), up_z := up_z c + word_of_int (lround (scale (sind a)))\<rparr>)"

primrec spawn_guardians :: "(nat \<Rightarrow> UniversePos) \<Rightarrow> u16 \<Rightarrow> string \<Rightarrow> nat list \<Rightarrow> server \<Rightarrow> server option" where
  "spawn_guardians place siteId fitName [] su = Some su"
| "spawn_guardians place siteId fitName (i # is) su = do {
     (_, su) \<leftarrow> SpawnNpcGuardian (place i) siteId fitName su;
     let alive = (case su_siteAlive su siteId of Some n \<Rightarrow> n | None \<Rightarrow> 0);
     spawn_guardians place siteId fitName is (su\<lparr>su_siteAlive := (su_siteAlive su)(siteId \<mapsto> alive + 1)\<rparr>)
   }"

definition SpawnNpcSite ::
    "(double \<Rightarrow> double) \<Rightarrow> (double \<Rightarrow> double) \<Rightarrow> UniversePos \<Rightarrow> int \<Rightarrow> single \<Rightarrow> string \<Rightarrow> server \<Rightarrow> (u16 \<times> server) option" where
  "SpawnNpcSite cosd sind center cnt radius fitName su =
     (let siteId = su_nextSiteId su;
          n = nat (max 1 (min 32 cnt));
          su = su\<lparr>su_nextSiteId := siteId + 1, su_siteAlive := (su_siteAlive su)(siteId \<mapsto> 0)\<rparr>
      in map_option (Pair siteId)
           (spawn_guardians (\<lambda>i. ring_pos cosd sind (\<lambda>c. dmul c radius) i n center) siteId fitName [0..<n] su))"

definition NpcSiteAlive :: "server \<Rightarrow> u16 \<Rightarrow> int" where
  "NpcSiteAlive su siteId = (case su_siteAlive su siteId of Some n \<Rightarrow> n | None \<Rightarrow> 0)"

definition IsNpcSiteCleared :: "server \<Rightarrow> u16 \<Rightarrow> bool" where
  "IsNpcSiteCleared su siteId \<longleftrightarrow> NpcSiteAlive su siteId = 0"

section \<open>Loading a data set\<close>

definition SpawnBeacon :: "nat \<Rightarrow> server \<Rightarrow> server option" where
  "SpawnBeacon bi su =
     (let b = ud_beacons (su_universe su) ! bi; i = of_nat bi
      in do {
        (netId, su) \<leftarrow> spawn (\<lambda>netId. [init T_Transform (at_pos (bcn_pos b)), init T_NetId netId,
          init T_ShapeId \<lparr>sh_value = BeaconShapeId, sh_kind = Kind_Structure\<rparr>, init T_BeaconTag i]) (\<lambda>e. Some) su;
        Some (su\<lparr>su_beaconEntity := (su_beaconEntity su)(i \<mapsto> netId), su_beaconName := (su_beaconName su)(bcn_name b \<mapsto> i)\<rparr>)
      })"

primrec pick_type :: "double \<Rightarrow> double \<Rightarrow> ResourceWeight list \<Rightarrow> ResourceType \<Rightarrow> ResourceType" where
  "pick_type fr cum [] dflt = dflt"
| "pick_type fr cum (w # ws) dflt = (let cum = dadd cum (snd w) in if fr \<le> cum then fst w else pick_type fr cum ws dflt)"

definition PickFieldType :: "ResourceFieldDef \<Rightarrow> nat \<Rightarrow> nat \<Rightarrow> ResourceType" where
  "PickFieldType f i cnt =
     (if fd_nodes f = [] then Ore
      else pick_type (ddiv (dadd (double_of_int (int i)) (1 / 2)) (double_of_int (int cnt))) 0 (fd_nodes f) (fst (last (fd_nodes f))))"

fun all_in_order :: "('a \<Rightarrow> server \<Rightarrow> server option) \<Rightarrow> 'a list \<Rightarrow> server \<Rightarrow> server option" where
  "all_in_order f [] su = Some su"
| "all_in_order f (x # xs) su = Option.bind (f x su) (all_in_order f xs)"

definition SpawnFieldNodes :: "(double \<Rightarrow> double) \<Rightarrow> (double \<Rightarrow> double) \<Rightarrow> server \<Rightarrow> server option" where
  "SpawnFieldNodes cosd sind su =
     all_in_order (\<lambda>f su.
       (let cnt = nat (max 1 (min 8 (uint (fd_countMin f))));
            yield = fmul (1 / 2) (fadd (single_of_int (fd_yieldMin f)) (single_of_int (fd_yieldMax f)))
        in all_in_order (\<lambda>i su. map_option snd (SpawnResourceNode (PickFieldType f i cnt) yield
             (ring_pos cosd sind (\<lambda>c. dmul (dmul c (fd_radius f)) (1 / 2)) i cnt (fd_center f)) su)) [0..<cnt] su))
       (ud_fields (su_universe su)) su"

definition LoadUniverse :: "(double \<Rightarrow> double) \<Rightarrow> (double \<Rightarrow> double) \<Rightarrow> UniverseDataset \<Rightarrow> server \<Rightarrow> server option" where
  "LoadUniverse cosd sind d su =
     (let su = su\<lparr>su_universe := d, su_nav := ud_nav d, su_economy := ud_economy d\<rparr>;
          n = length (ud_beacons d) mod 2 ^ 16
      in Option.bind (all_in_order SpawnBeacon [0..<n] su) (SpawnFieldNodes cosd sind))"

definition LoadCombat :: "CombatCatalog \<Rightarrow> server \<Rightarrow> server" where "LoadCombat c su = su\<lparr>su_combat := c\<rparr>"
definition SetProjectileSubSteps :: "int \<Rightarrow> server \<Rightarrow> server" where
  "SetProjectileSubSteps n su = su\<lparr>su_projectileSubSteps := (if n < 1 then 1 else n)\<rparr>"
definition SetBaseRetreatHullFrac :: "single \<Rightarrow> server \<Rightarrow> server" where "SetBaseRetreatHullFrac f su = su\<lparr>su_baseRetreatHullFrac := f\<rparr>"
definition SetBaseRetreatSeconds :: "single \<Rightarrow> server \<Rightarrow> server" where "SetBaseRetreatSeconds s su = su\<lparr>su_baseRetreatSeconds := s\<rparr>"
definition SetCombatEnabled :: "bool \<Rightarrow> server \<Rightarrow> server" where "SetCombatEnabled b su = su\<lparr>su_combatEnabled := b\<rparr>"

end
