(* ===== verification/Server_Orders.thy ===== *)
theory Server_Orders
  imports Server_Spawn
begin

text \<open>
  What a player can order (\<open>NeuronCore/ServerUniverse.h\<close>): travel, harvest, build, loot and fleet
  orders, and \<open>ApplyFleetCommand\<close>, which routes a decoded command to the units it names.

  Two calls of the store cannot fail where they stand and are total here: removing an entity
  (\<open>DestroyEntity_frame\<close>), and adding an absent component to a live entity
  (\<open>AddComponent_total\<close>).
\<close>

definition destroy :: "EntityHandle \<Rightarrow> world \<Rightarrow> world" where
  "destroy e w = (case DestroyEntity e w of Some w' \<Rightarrow> w' | None \<Rightarrow> w)"

definition add_absent :: "'x CompType \<Rightarrow> 'x \<Rightarrow> EntityHandle \<Rightarrow> world \<Rightarrow> world" where
  "add_absent T v e w = (case add T v e w of Some w' \<Rightarrow> w' | None \<Rightarrow> w)"

section \<open>Travel\<close>

definition StopMotion :: "u32 \<Rightarrow> server \<Rightarrow> server" where
  "StopMotion netId su = (case comp_of T_Velocity su netId of None \<Rightarrow> su | Some _ \<Rightarrow> set_comp T_Velocity (0, 0, 0) netId su)"

definition OnTravelStart :: "UniversePos \<Rightarrow> server \<Rightarrow> server" where
  "OnTravelStart dest su = su\<lparr>su_lastTravelSector := UniverseToSector dest\<rparr>"

definition PrefetchTravelInterest :: "u32 \<Rightarrow> UniversePos \<Rightarrow> server \<Rightarrow> server" where
  "PrefetchTravelInterest netId dest su =
     (case comp_of T_OwnerId su netId of
        None \<Rightarrow> su
      | Some p \<Rightarrow>
          if p = 0 then su
          else
            (let radius = (case comp_of T_Sensor su netId of Some r \<Rightarrow> SectorRadiusForRange (f32_of r) | None \<Rightarrow> 1)
             in su\<lparr>su_interest := PreSubscribe p (UniverseToSector dest) radius (su_interest su)\<rparr>))"

definition BeginWarpTo :: "u32 \<Rightarrow> UniversePos \<Rightarrow> server \<Rightarrow> bool \<times> server" where
  "BeginWarpTo netId dest su =
     (case comp_of T_NavState su netId of
        None \<Rightarrow> (False, su)
      | Some nav \<Rightarrow>
          if nv_phase nav \<noteq> NavIdle then (False, su)
          else
            (let su = StopMotion netId su;
                 speed = (if IsBase su netId then nt_warpSpeedBase (su_nav su) else nt_warpSpeedShip (su_nav su));
                 su = set_comp T_NavState (BeginWarp dest speed (nt_warpAlignSeconds (su_nav su)) nav) netId su
             in (True, PrefetchTravelInterest netId dest (OnTravelStart dest su))))"

text \<open>The nearest beacon, the first of equals, if it is within range.\<close>

definition nearest_beacon :: "UniversePos \<Rightarrow> BeaconDef list \<Rightarrow> (nat \<times> double) option" where
  "nearest_beacon pos bs =
     fold (\<lambda>i best.
       (let d = UniverseDistance pos (bcn_pos (bs ! i))
        in case best of None \<Rightarrow> Some (i, d) | Some (j, bd) \<Rightarrow> if d < bd then Some (i, d) else Some (j, bd))) [0..<length bs] None"

definition NearestBeaconWithin :: "server \<Rightarrow> UniversePos \<Rightarrow> single \<Rightarrow> nat option" where
  "NearestBeaconWithin su pos rng =
     (case nearest_beacon pos (ud_beacons (su_universe su)) of
        Some (i, d) \<Rightarrow> if d \<le> rng then Some i else None
      | None \<Rightarrow> None)"

definition BeginJumpTo :: "u32 \<Rightarrow> string \<Rightarrow> server \<Rightarrow> JumpReject \<times> server" where
  "BeginJumpTo netId destBeacon su =
     (case (comp_of T_NavState su netId, comp_of T_Fuel su netId, comp_of T_Transform su netId) of
        (Some nav, Some fuel, Some tr) \<Rightarrow>
          (case su_beaconName su destBeacon of
             None \<Rightarrow> (JumpNotLinked, su)
           | Some destIdx \<Rightarrow>
               (case NearestBeaconWithin su (tf_pos tr) (nt_beaconUseRange (su_nav su)) of
                  None \<Rightarrow> (JumpNotAtBeacon, su)
                | Some srcIdx \<Rightarrow>
                    (let beacons = ud_beacons (su_universe su); dest = beacons ! unat destIdx
                     in if bcn_name dest \<notin> set (bcn_links (beacons ! srcIdx)) then (JumpNotLinked, su)
                        else
                          (let base = IsBase su netId;
                               cost = (if base then nt_jumpFuelBase (su_nav su) else nt_jumpFuelShip (su_nav su));
                               spool = (if base then nt_jumpSpoolBase (su_nav su) else nt_jumpSpoolShip (su_nav su));
                               ready = CheckJumpReady nav fuel cost
                           in if ready \<noteq> JumpAccepted then (ready, su)
                              else
                                (let su = set_comp T_Fuel (fuel\<lparr>fu_current := fsub (fu_current fuel) cost\<rparr>) netId su;
                                     su = StopMotion netId su;
                                     su = set_comp T_NavState (BeginJump (bcn_pos dest) destIdx spool nav) netId su
                                 in (JumpAccepted, PrefetchTravelInterest netId (bcn_pos dest) (OnTravelStart (bcn_pos dest) su)))))))
      | _ \<Rightarrow> (JumpNotAtBeacon, su))"

definition Interdict :: "u32 \<Rightarrow> server \<Rightarrow> server" where
  "Interdict netId su =
     (case comp_of T_NavState su netId of None \<Rightarrow> su | Some nav \<Rightarrow> set_comp T_NavState (nav\<lparr>nv_interdicted := True\<rparr>) netId su)"

definition BeaconNetId :: "server \<Rightarrow> string \<Rightarrow> u32 option" where
  "BeaconNetId su nm = (case su_beaconName su nm of None \<Rightarrow> Some 0 | Some i \<Rightarrow> su_beaconEntity su i)"

section \<open>Economy orders\<close>

definition EnqueueBuild :: "u32 \<Rightarrow> server \<Rightarrow> bool \<times> server" where
  "EnqueueBuild baseNetId su =
     (case comp_of T_BuildQueue su baseNetId of
        None \<Rightarrow> (False, su)
      | Some q \<Rightarrow>
          if bq_active q then (False, su)
          else (True, set_comp T_BuildQueue \<lparr>bq_active = True, bq_paid = False,
                  bq_recipe = et_buildShipType (su_economy su), bq_progress = 0\<rparr> baseNetId su))"

definition OrderHarvest :: "u32 \<Rightarrow> u32 \<Rightarrow> server \<Rightarrow> bool \<times> server" where
  "OrderHarvest shipNetId nodeNetId su =
     (let shipE = EntityOf su shipNetId
      in case get T_OwnerId (su_world su) shipE of
           None \<Rightarrow> (False, su)
         | Some baseNetId \<Rightarrow>
             if \<not> has T_Cargo (su_world su) shipE then (False, su)
             else if \<not> has T_ResourceNodeTag (su_world su) (EntityOf su nodeNetId) then (False, su)
             else if \<not> has T_Storage (su_world su) (EntityOf su baseNetId) then (False, su)
             else
               (let ord = \<lparr>hv_phase = HvToNode, hv_nodeNetId = nodeNetId, hv_baseNetId = baseNetId\<rparr>
                in (True, on_world (case get T_HarvestOrder (su_world su) shipE of
                      None \<Rightarrow> add_absent T_HarvestOrder ord shipE
                    | Some _ \<Rightarrow> put T_HarvestOrder ord shipE) su)))"

section \<open>Removing a unit, and loot\<close>

definition DestroyUnit :: "u32 \<Rightarrow> server \<Rightarrow> server" where
  "DestroyUnit netId su =
     (let e = EntityOf su netId;
          su = (case get T_NpcAi (su_world su) e of
                  None \<Rightarrow> su
                | Some ai \<Rightarrow>
                    (case su_siteAlive su (ai_siteId ai) of
                       None \<Rightarrow> su
                     | Some n \<Rightarrow>
                         if n - 1 \<le> 0 then
                           su\<lparr>su_siteAlive := (su_siteAlive su)(ai_siteId ai \<mapsto> 0), su_clearedSites := su_clearedSites su @ [ai_siteId ai]\<rparr>
                         else su\<lparr>su_siteAlive := (su_siteAlive su)(ai_siteId ai \<mapsto> n - 1)\<rparr>));
          w = (if IsAlive (su_world su) e then destroy e (su_world su) else su_world su)
      in su\<lparr>su_world := w, su_netIdToEntity := (su_netIdToEntity su)(netId := None),
            su_interest := Grid_Remove netId (su_interest su), su_repl := Stamps_Remove netId (su_repl su)\<rparr>)"

definition DespawnBase :: "u32 \<Rightarrow> server \<Rightarrow> bool \<times> server" where
  "DespawnBase netId su =
     (case su_netIdToEntity su netId of
        None \<Rightarrow> (False, su)
      | Some e \<Rightarrow> (True, su\<lparr>su_world := destroy e (su_world su), su_netIdToEntity := (su_netIdToEntity su)(netId := None),
            su_interest := Grid_Remove netId (su_interest su), su_repl := Stamps_Remove netId (su_repl su)\<rparr>))"

definition claim_step :: "nat \<Rightarrow> Hold \<times> single list \<times> int \<Rightarrow> Hold \<times> single list \<times> int" where
  "claim_step i s =
     (case s of (cg, items, value) \<Rightarrow>
       (let space = fsub (ho_capacity cg) (SumSlots (ho_amount cg));
            take = min (items ! i) (max 0 space)
        in (add_slot i take cg, items[i := fsub (items ! i) take], value + dtrunc take)))"

definition ClaimLoot :: "u32 \<Rightarrow> u32 \<Rightarrow> server \<Rightarrow> bool \<times> server" where
  "ClaimLoot claimerNetId containerNetId su =
     (case (comp_of T_LootContainer su containerNetId, comp_of T_Cargo su claimerNetId) of
        (Some lc, Some cg) \<Rightarrow>
          (case fold claim_step [0..<RESOURCE_SLOTS] (cg, lc_items lc, 0) of
             (cg, items, value) \<Rightarrow>
               (let su = set_comp T_Cargo cg claimerNetId su;
                    su = set_comp T_LootContainer (lc\<lparr>lc_items := items\<rparr>) containerNetId su;
                    su = DestroyUnit containerNetId su
                in (True, su\<lparr>su_econEvents := su_econEvents su @ [\<lparr>ev_type = EvLootClaim, ev_aNetId = containerNetId,
                      ev_bNetId = claimerNetId, ev_value = value, ev_tick = su_tick su\<rparr>]\<rparr>)))
      | _ \<Rightarrow> (False, su))"

section \<open>Fleet orders\<close>

definition idle_harvest :: "u32 \<Rightarrow> server \<Rightarrow> server" where
  "idle_harvest unitNet su =
     (case comp_of T_HarvestOrder su unitNet of
        None \<Rightarrow> su
      | Some ho \<Rightarrow> set_comp T_HarvestOrder (ho\<lparr>hv_phase := HvIdle\<rparr>) unitNet su)"

definition PushOrder :: "u32 \<Rightarrow> FleetOrderEntry \<Rightarrow> bool \<Rightarrow> server \<Rightarrow> bool \<times> server" where
  "PushOrder unitNet entry q su =
     (case comp_of T_FleetOrder su unitNet of
        None \<Rightarrow> (False, su)
      | Some fo \<Rightarrow>
          if q \<and> fe_type (fo_current fo) \<noteq> OtIdle
          then (True, set_comp T_FleetOrder (fo\<lparr>fo_queue := fo_queue fo @ [entry]\<rparr>) unitNet su)
          else (True, idle_harvest unitNet (set_comp T_FleetOrder \<lparr>fo_current = entry, fo_queue = []\<rparr> unitNet su)))"

definition ClearOrders :: "u32 \<Rightarrow> server \<Rightarrow> server" where
  "ClearOrders unitNet su =
     (let su = (case comp_of T_FleetOrder su unitNet of None \<Rightarrow> su | Some _ \<Rightarrow> set_comp T_FleetOrder FleetOrder_new unitNet su)
      in StopMotion unitNet (idle_harvest unitNet su))"

definition GetBasePos :: "server \<Rightarrow> u32 \<Rightarrow> UniversePos option" where
  "GetBasePos su netId = map_option tf_pos (comp_of T_Transform su netId)"

definition string_of_bytes :: "bytes \<Rightarrow> string" where
  "string_of_bytes bs = map (\<lambda>b. char_of (unat b)) bs"

definition order_at :: "OrderType \<Rightarrow> u32 \<Rightarrow> UniversePos \<Rightarrow> single \<Rightarrow> FleetOrderEntry" where
  "order_at t target pt rng = \<lparr>fe_type = t, fe_targetNetId = target, fe_targetPoint = pt, fe_range = rng\<rparr>"

definition ApplyIntentToUnit :: "u32 \<Rightarrow> FleetCommand \<Rightarrow> server \<Rightarrow> bool \<times> server" where
  "ApplyIntentToUnit unitNet cmd su =
     (if intent cmd = IntentStop then (True, ClearOrders unitNet su)
      else if intent cmd = IntentHarvest then OrderHarvest unitNet (targetNetId cmd) su
      else if intent cmd = IntentWarp then BeginWarpTo unitNet (targetPoint cmd) su
      else if intent cmd = IntentJump then
        (case BeginJumpTo unitNet (string_of_bytes (beacon cmd)) su of (r, su) \<Rightarrow> (r = JumpAccepted, su))
      else if intent cmd = IntentBuild then EnqueueBuild unitNet su
      else if intent cmd = IntentClaimLoot then ClaimLoot unitNet (targetNetId cmd) su
      else if intent cmd = IntentMove then
        PushOrder unitNet (order_at OtMove 0 (targetPoint cmd) 0) (queue cmd) su
      else if intent cmd = IntentRetreat then
        (case comp_of T_OwnerId su unitNet of
           None \<Rightarrow> (False, su)
         | Some o' \<Rightarrow> (case GetBasePos su o' of
             None \<Rightarrow> (False, su)
           | Some home \<Rightarrow> PushOrder unitNet (order_at OtRetreat 0 home 0) (queue cmd) su))
      else if intent cmd \<in> {IntentAttack, IntentGuard, IntentOrbit, IntentKeepRange} then
        (if has T_BaseTag (su_world su) (EntityOf su unitNet) then (False, su)
         else if \<not> IsAlive (su_world su) (EntityOf su (targetNetId cmd)) then (False, su)
         else
           (let ot = (if intent cmd = IntentAttack then OtAttack else if intent cmd = IntentGuard then OtGuard
                      else if intent cmd = IntentOrbit then OtOrbit else OtKeepRange)
            in PushOrder unitNet (order_at ot (targetNetId cmd) UniversePos_zero (f32_val (cmd_range cmd))) (queue cmd) su))
      else (False, su))"

primrec command_units :: "u32 \<Rightarrow> FleetCommand \<Rightarrow> u32 list \<Rightarrow> u32 \<Rightarrow> server \<Rightarrow> u32 \<times> server" where
  "command_units player cmd [] affected su = (affected, su)"
| "command_units player cmd (unitNet # us) affected su =
     (case comp_of T_OwnerId su unitNet of
        None \<Rightarrow> command_units player cmd us affected su
      | Some o' \<Rightarrow>
          if o' \<noteq> player then command_units player cmd us affected su
          else
            (case ApplyIntentToUnit unitNet cmd su of
               (ok, su) \<Rightarrow> command_units player cmd us (if ok then affected + 1 else affected) su))"

definition ApplyFleetCommand :: "u32 \<Rightarrow> FleetCommand \<Rightarrow> server \<Rightarrow> u32 \<times> server" where
  "ApplyFleetCommand player cmd su = command_units player cmd (cmd_units cmd) 0 su"

end
