(* ===== verification/World_Frame.thy ===== *)
theory World_Frame
  imports Server_Orders
begin

text \<open>
  What the operations of the server leave alone.  \<open>touches S w w'\<close> says that the step from
  \<open>w\<close> to \<open>w'\<close> keeps the store well-formed and changes neither the life nor a component of any
  handle outside \<open>S\<close>; the lemmas of \<open>frames\<close> compose it along the operations.
\<close>

definition same_entity :: "world \<Rightarrow> world \<Rightarrow> EntityHandle \<Rightarrow> bool" where
  "same_entity w w' e \<longleftrightarrow> IsAlive w' e = IsAlive w e \<and> (\<forall>k < 64. GetComponent w' k e = GetComponent w k e)"

definition touches :: "EntityHandle set \<Rightarrow> world \<Rightarrow> world \<Rightarrow> bool" where
  "touches S w w' \<longleftrightarrow> (sim_ok w \<longrightarrow> sim_ok w' \<and> (\<forall>e. e \<notin> S \<longrightarrow> same_entity w w' e))"

named_theorems frames \<open>which entities an operation touches\<close>

lemma touches_refl [frames]: "touches S w w"
  by (simp add: touches_def same_entity_def)

lemma touches_trans: "touches S w w' \<Longrightarrow> touches S w' w'' \<Longrightarrow> touches S w w''"
  by (simp add: touches_def same_entity_def)

lemma touches_mono: "touches S w w' \<Longrightarrow> S \<subseteq> S' \<Longrightarrow> touches S' w w'"
  by (auto simp: touches_def)

lemma touchesD: "touches S w w' \<Longrightarrow> sim_ok w \<Longrightarrow> sim_ok w'"
  by (simp add: touches_def)

lemma touches_get: "touches S w w' \<Longrightarrow> sim_ok w \<Longrightarrow> e \<notin> S \<Longrightarrow> ct_ok T \<Longrightarrow> get T w' e = get T w e"
  by (simp add: touches_def same_entity_def get_def ct_okD(2))

lemma touches_alive: "touches S w w' \<Longrightarrow> sim_ok w \<Longrightarrow> e \<notin> S \<Longrightarrow> IsAlive w' e = IsAlive w e"
  by (simp add: touches_def same_entity_def)

lemma IsAlive_put [simp]: "IsAlive (put T v e w) e' = IsAlive w e'"
  by (rule IsAlive_records) (rule put_records)

lemma touches_put [frames]: "ct_ok T \<Longrightarrow> e \<in> S \<Longrightarrow> touches S w (put T v e w)"
  by (auto simp: touches_def same_entity_def put_frame(1,3))

lemma touches_add:
  assumes "add T v e w = Some w'" "ct_ok T" "e \<in> S"
  shows "touches S w w'"
proof -
  { assume s: "sim_ok w"
    note F = add_frame [OF s assms(1) [unfolded add_def] ct_okD(2,4) [OF assms(2)]]
    from F(1,2,3) assms(3) have "sim_ok w' \<and> (\<forall>e'. e' \<notin> S \<longrightarrow> same_entity w w' e')" by (auto simp: same_entity_def) }
  then show ?thesis by (simp add: touches_def)
qed

lemma touches_add_absent [frames]: "ct_ok T \<Longrightarrow> e \<in> S \<Longrightarrow> touches S w (add_absent T v e w)"
  by (auto simp: add_absent_def touches_refl touches_add split: option.split)

lemma destroy_frame:
  assumes "sim_ok w"
  shows "sim_ok (destroy e w)" "IsAlive (destroy e w) e' = (IsAlive w e' \<and> e' \<noteq> e)"
    "k < 64 \<Longrightarrow> GetComponent (destroy e w) k e' = (if e' = e then None else GetComponent w k e')"
proof -
  obtain w' where "DestroyEntity e w = Some w'" "world_ok w'" "\<And>e'. IsAlive w' e' = (IsAlive w e' \<and> e' \<noteq> e)"
    "\<And>k e'. k < 64 \<Longrightarrow> GetComponent w' k e' = (if e' = e then None else GetComponent w k e')"
    using DestroyEntity_frame [OF sim_okD [OF assms], of e] by blast
  then show "sim_ok (destroy e w)" "IsAlive (destroy e w) e' = (IsAlive w e' \<and> e' \<noteq> e)"
    "k < 64 \<Longrightarrow> GetComponent (destroy e w) k e' = (if e' = e then None else GetComponent w k e')"
    using assms by (simp_all add: destroy_def sim_ok_def)
qed

lemma touches_destroy [frames]: "e \<in> S \<Longrightarrow> touches S w (destroy e w)"
  by (auto simp: touches_def same_entity_def destroy_frame)

lemma create_frame_sim:
  assumes "sim_ok w" "CreateEntity w = Some (h, w')"
  shows "sim_ok w'" "touches {h} w w'" "\<not> IsAlive w h" "IsAlive w' h" "k < 64 \<Longrightarrow> GetComponent w' k h = None"
proof -
  note F = CreateEntity_frame [OF sim_okD [OF assms(1)] assms(2)]
  show s: "sim_ok w'" using F(1,4) assms(1) by (simp add: sim_ok_def)
  show "touches {h} w w'" using s F(3,4) by (simp add: touches_def same_entity_def)
  show "\<not> IsAlive w h" "IsAlive w' h" using F(2,3) by simp_all
  show "k < 64 \<Longrightarrow> GetComponent w' k h = None" using F(2,4) by (simp add: GetComponent_eq)
qed

lemma touches_fresh:
  assumes "touches {h} w w'" "\<not> IsAlive w h" "sim_ok w" "IsAlive w e"
  shows "same_entity w w' e"
  using assms by (metis singletonD touches_def)

lemma registered_ok: "sim_ok registered_world"
proof -
  have n: "comp_at registered_world k i = None" if "k < 64" for k i
    using that by (simp add: comp_at_def registered_world_def World_new_def MAX_COMPONENT_TYPES_def Storage_Get_def Storage_new_def)
  then have "world_ok registered_world"
    using world_new_ok [where 'a = Component]
    by (auto simp: world_ok_def stores_ok_def alive_at_def gen_at_def registered_world_def MAX_COMPONENT_TYPES_def World_new_def
        storage_ok_def Storage_new_def EntityRecord_new_def)
  then show ?thesis using n by (auto simp: sim_ok_def GetComponent_eq split: if_splits)
qed

end
