(* ===== verification/Fleet_Commands.thy ===== *)
theory Fleet_Commands
  imports World_Frame
begin

text \<open>
  A fleet command commands only the units of its player (\<open>ServerUniverse::ApplyFleetCommand\<close>).
  Each order is framed: it touches the commanded unit, and \<open>ClaimLoot\<close> also the container.
\<close>

section \<open>Frames of the orders\<close>

definition touch :: "EntityHandle set \<Rightarrow> server \<Rightarrow> server \<Rightarrow> bool" where
  "touch S su su' \<longleftrightarrow> touches S (su_world su) (su_world su') \<and> su_netIdToEntity su' = su_netIdToEntity su"

named_theorems order_frames \<open>orders touch the commanded unit\<close>

lemma touch_refl [order_frames]: "touch S su su"
  by (simp add: touch_def touches_refl)

lemma touch_trans: "touch S su su' \<Longrightarrow> touch S su' su'' \<Longrightarrow> touch S su su''"
  by (simp add: touch_def) (metis touches_trans)

lemma touch_entity: "touch S su su' \<Longrightarrow> EntityOf su' n = EntityOf su n"
  by (simp add: touch_def EntityOf_def)

lemma touch_set_comp [order_frames]: "ct_ok T \<Longrightarrow> EntityOf su n \<in> S \<Longrightarrow> touch S su (set_comp T v n su)"
  by (simp add: touch_def set_comp_def on_world_def touches_put)

lemma touch_stop [order_frames]: "EntityOf su n \<in> S \<Longrightarrow> touch S su (StopMotion n su)"
  by (simp add: StopMotion_def order_frames ct_simps split: option.split)

lemma touch_idle [order_frames]: "EntityOf su n \<in> S \<Longrightarrow> touch S su (idle_harvest n su)"
  by (simp add: idle_harvest_def order_frames ct_simps split: option.split)

lemma touch_travel [order_frames]: "touch S su (OnTravelStart d su)"
  by (simp add: OnTravelStart_def touch_def touches_refl)

lemma touch_prefetch [order_frames]: "touch S su (PrefetchTravelInterest n d su)"
  by (simp add: PrefetchTravelInterest_def touch_def touches_refl Let_def split: option.split)

lemma touch_clear: "EntityOf su n \<in> S \<Longrightarrow> touch S su (ClearOrders n su)"
proof -
  assume n: "EntityOf su n \<in> S"
  define s1 where "s1 = (case comp_of T_FleetOrder su n of None \<Rightarrow> su | Some _ \<Rightarrow> set_comp T_FleetOrder FleetOrder_new n su)"
  have a: "touch S su s1" using n by (simp add: s1_def order_frames ct_simps split: option.split)
  have b: "touch S s1 (idle_harvest n s1)" using n touch_entity [OF a] by (simp add: order_frames)
  have c: "touch S (idle_harvest n s1) (StopMotion n (idle_harvest n s1))"
    using n touch_entity [OF a] touch_entity [OF b] by (simp add: order_frames)
  show ?thesis using touch_trans [OF a touch_trans [OF b c]] by (simp add: ClearOrders_def s1_def)
qed

lemma touch_push: "EntityOf su n \<in> S \<Longrightarrow> touch S su (snd (PushOrder n en q su))"
proof -
  assume n: "EntityOf su n \<in> S"
  have a: "touch S su (set_comp T_FleetOrder v n su)" for v using n by (simp add: order_frames ct_simps)
  have b: "touch S su (idle_harvest n (set_comp T_FleetOrder v n su))" for v
    using touch_trans [OF a touch_idle] touch_entity [OF a] n by simp
  show ?thesis using a b by (simp add: PushOrder_def touch_refl split: option.split)
qed

lemma touch_build: "EntityOf su n \<in> S \<Longrightarrow> touch S su (snd (EnqueueBuild n su))"
  by (simp add: EnqueueBuild_def order_frames ct_simps split: option.split)

lemma touch_warp: "EntityOf su n \<in> S \<Longrightarrow> touch S su (snd (BeginWarpTo n d su))"
proof -
  assume n: "EntityOf su n \<in> S"
  have a: "touch S su (StopMotion n su)" using n by (rule touch_stop)
  have b: "touch S (StopMotion n su) (set_comp T_NavState v n (StopMotion n su))" for v
    using n touch_entity [OF a] by (simp add: order_frames ct_simps)
  have c: "touch S su (PrefetchTravelInterest n d (OnTravelStart d (set_comp T_NavState v n (StopMotion n su))))" for v
    using touch_trans [OF a touch_trans [OF b touch_trans [OF touch_travel touch_prefetch]]] .
  show ?thesis using c by (simp add: BeginWarpTo_def Let_def touch_refl split: option.split)
qed

lemma touch_jump: "EntityOf su n \<in> S \<Longrightarrow> touch S su (snd (BeginJumpTo n b su))"
proof -
  assume n: "EntityOf su n \<in> S"
  have a: "touch S su (set_comp T_Fuel v n su)" for v using n by (simp add: order_frames ct_simps)
  have b: "touch S su (StopMotion n (set_comp T_Fuel v n su))" for v
    using touch_trans [OF a touch_stop] touch_entity [OF a] n by simp
  have c: "touch S su (set_comp T_NavState u n (StopMotion n (set_comp T_Fuel v n su)))" for u v
    by (rule touch_trans [OF b touch_set_comp]) (simp_all add: ct_simps touch_entity [OF b] n)
  have d: "touch S su (PrefetchTravelInterest n p (OnTravelStart p (set_comp T_NavState u n (StopMotion n (set_comp T_Fuel v n su)))))" for p u v
    using touch_trans [OF c touch_trans [OF touch_travel touch_prefetch]] .
  show ?thesis using d by (simp add: BeginJumpTo_def Let_def touch_refl split: option.split if_split)
qed

lemma touch_harvest: "EntityOf su n \<in> S \<Longrightarrow> touch S su (snd (OrderHarvest n d su))"
  by (simp add: OrderHarvest_def Let_def touch_refl touch_def on_world_def touches_put touches_add_absent touches_refl ct_simps split: option.split)

text \<open>Claiming loot touches the claimer and removes the container.\<close>

lemma DestroyUnit_world: "su_world (DestroyUnit n su) =
    (if IsAlive (su_world su) (EntityOf su n) then destroy (EntityOf su n) (su_world su) else su_world su)"
  by (simp add: DestroyUnit_def Let_def EntityOf_def split: option.split)

lemma touches_DestroyUnit: "EntityOf su n \<in> S \<Longrightarrow> touches S (su_world su) (su_world (DestroyUnit n su))"
  by (simp add: DestroyUnit_world touches_destroy touches_refl)

lemma touches_claim:
  "touches ({EntityOf su n} \<union> {e. get T_LootContainer (su_world su) e \<noteq> None}) (su_world su) (su_world (snd (ClaimLoot n c su)))"
    (is "touches ?S _ _")
proof (cases "comp_of T_LootContainer su c = None \<or> comp_of T_Cargo su n = None")
  case True
  then show ?thesis by (auto simp: ClaimLoot_def touches_refl split: option.split)
next
  case False
  then obtain lc cg where l: "comp_of T_LootContainer su c = Some lc" and cg: "comp_of T_Cargo su n = Some cg" by auto
  have c: "EntityOf su c \<in> ?S" using l by (simp add: comp_of_def)
  have a: "touch ?S su (set_comp T_Cargo u n su)" for u by (simp add: order_frames ct_simps)
  have b: "touch ?S su (set_comp T_LootContainer v c (set_comp T_Cargo u n su))" for u v
    by (rule touch_trans [OF a touch_set_comp]) (use c in \<open>simp_all add: ct_simps touch_entity [OF a]\<close>)
  have d: "touches ?S (su_world su) (su_world (DestroyUnit c (set_comp T_LootContainer v c (set_comp T_Cargo u n su))))" for u v
    using touches_trans [OF _ touches_DestroyUnit] b [unfolded touch_def] touch_entity [OF b] c by metis
  then show ?thesis using l cg by (simp add: ClaimLoot_def Let_def split: prod.split)
qed

lemma touches_intent:
  "touches ({EntityOf su n} \<union> {e. get T_LootContainer (su_world su) e \<noteq> None}) (su_world su) (su_world (snd (ApplyIntentToUnit n cmd su)))"
    (is "touches ?S _ _")
proof -
  have n: "EntityOf su n \<in> ?S" by simp
  note F = touch_clear [OF n] touch_harvest [OF n] touch_warp [OF n] touch_jump [OF n] touch_build [OF n] touch_push [OF n]
  have j: "touches ?S (su_world su) (su_world (snd (case BeginJumpTo n b su of (r, su) \<Rightarrow> (r = JumpAccepted, su))))" for b
    using F(4) [of b] by (cases "BeginJumpTo n b su") (simp add: touch_def)
  show ?thesis
    unfolding ApplyIntentToUnit_def using F [unfolded touch_def] j touches_claim [of su n]
    by (simp add: touches_refl Let_def split: option.split del: Un_insert_left)
qed

section \<open>Only one's own units\<close>

lemma command_units_frame:
  assumes "sim_ok (su_world su)" "get T_OwnerId (su_world su) e \<noteq> Some player" "get T_LootContainer (su_world su) e = None"
  shows "sim_ok (su_world (snd (command_units player cmd us n su))) \<and>
    same_entity (su_world su) (su_world (snd (command_units player cmd us n su))) e"
  using assms
proof (induction us arbitrary: n su)
  case Nil
  then show ?case by (simp add: same_entity_def)
next
  case (Cons u us)
  show ?case
  proof (cases "comp_of T_OwnerId su u = Some player")
    case False
    then show ?thesis using Cons by (simp split: option.split)
  next
    case True
    obtain ok su1 where i: "ApplyIntentToUnit u cmd su = (ok, su1)" by fastforce
    let ?S = "{EntityOf su u} \<union> {e. get T_LootContainer (su_world su) e \<noteq> None}"
    have t: "touches ?S (su_world su) (su_world su1)" using touches_intent [of su u cmd] i by simp
    have e: "e \<notin> ?S" using True Cons.prems(2,3) by (auto simp: comp_of_def)
    have s: "same_entity (su_world su) (su_world su1) e" using t Cons.prems(1) e by (auto simp: touches_def)
    have o': "get T_OwnerId (su_world su1) e \<noteq> Some player" "get T_LootContainer (su_world su1) e = None"
      using touches_get [OF t Cons.prems(1) e, of T_OwnerId] touches_get [OF t Cons.prems(1) e, of T_LootContainer] Cons.prems(2,3)
      by (simp_all add: ct_simps)
    note ih = Cons.IH [OF touchesD [OF t Cons.prems(1)] o']
    show ?thesis using ih [of "if ok then n + 1 else n"] s True i by (simp add: same_entity_def)
  qed
qed

lemma command_units_foreign:
  "\<forall>u \<in> set us. comp_of T_OwnerId su u \<noteq> Some player \<Longrightarrow> command_units player cmd us n su = (n, su)"
  by (induction us) (auto split: option.split)

text \<open>Two harvesters of the players 7 and 8.\<close>

definition harvester :: "u32 \<Rightarrow> (nat \<times> Component) list" where
  "harvester player = [init T_OwnerId player, init T_HarvestOrder \<lparr>hv_phase = HvToNode, hv_nodeNetId = 0, hv_baseNetId = 0\<rparr>]"

definition two_units :: "world option" where
  "two_units = do {
     (a, w) \<leftarrow> CreateEntity registered_world;
     w \<leftarrow> add_all (harvester 7) a w;
     (b, w) \<leftarrow> CreateEntity w;
     add_all (harvester 8) b w
   }"

lemma two_units_eval:
  "map_option (\<lambda>w. map (\<lambda>e. (get T_OwnerId w e, map_option hv_phase (get T_HarvestOrder w e), get T_LootContainer w e)) [1, 2]) two_units =
    Some [(Some 7, Some HvToNode, None), (Some 8, Some HvToNode, None)]"
  by code_simp

text \<open>C7: A fleet command of a player leaves every entity alone that neither belongs to the player nor is a
  loot container: it stays as alive as it was and none of its components changes.  A command
  that names no unit of the player changes nothing and affects no unit.\<close>

theorem fleet_command_own_units_only:
  assumes "sim_ok (su_world su)" "get T_OwnerId (su_world su) e \<noteq> Some player" "get T_LootContainer (su_world su) e = None" "k < 64"
  shows "GetComponent (su_world (snd (ApplyFleetCommand player cmd su))) k e = GetComponent (su_world su) k e \<and>
    IsAlive (su_world (snd (ApplyFleetCommand player cmd su))) e = IsAlive (su_world su) e \<and>
    ((\<forall>u \<in> set (cmd_units cmd). comp_of T_OwnerId su u \<noteq> Some player) \<longrightarrow> ApplyFleetCommand player cmd su = (0, su))"
  using command_units_frame [OF assms(1-3)] assms(4) command_units_foreign [of "cmd_units cmd" su player cmd 0]
  by (simp_all add: ApplyFleetCommand_def same_entity_def)

definition sample_server :: server where
  "sample_server = ServerUniverse_new\<lparr>su_world := the two_units, su_netIdToEntity := [1 \<mapsto> 1, 2 \<mapsto> 2]\<rparr>"

definition stop_both :: FleetCommand where
  "stop_both = \<lparr>clientTick = 0, intent = IntentStop, queue = False, cmd_units = [1, 2], targetNetId = 0,
     targetPoint = UniversePos_zero, cmd_range = 0, beacon = []\<rparr>"

lemma sample_server_ok: "sim_ok (su_world sample_server)"
proof -
  obtain w where w: "two_units = Some w" using two_units_eval by (cases two_units) auto
  then obtain a w1 w2 b w3 where c: "CreateEntity registered_world = Some (a, w1)" "add_all (harvester 7) a w1 = Some w2"
    "CreateEntity w2 = Some (b, w3)" "add_all (harvester 8) b w3 = Some w"
    by (auto simp: two_units_def bind_eq_Some_conv)
  have h: "\<forall>c \<in> set (harvester p). fst c < 64 \<and> slot_of (snd c) = fst c" for p
    by (simp add: harvester_def init_def ct_slots slot_of_def comp_types)
  note c1 = create_frame_sim [OF registered_ok c(1)]
  have s2: "sim_ok w2" using add_all_frame [OF c1(1) c(2) h c1(4)] by simp
  note c3 = create_frame_sim [OF s2 c(3)]
  have "sim_ok w" using add_all_frame [OF c3(1) c(4) h c3(4)] by simp
  then show ?thesis by (simp add: sample_server_def w [THEN arg_cong, of the, simplified option.sel])
qed

theorem fleet_command_own_units_only_witness:
  "get T_HarvestOrder (su_world (snd (ApplyFleetCommand 7 stop_both sample_server))) 2 = get T_HarvestOrder (su_world sample_server) 2 \<and>
   map_option hv_phase (get T_HarvestOrder (su_world sample_server) 2) = Some HvToNode"
proof -
  obtain w where w: "two_units = Some w" using two_units_eval by (cases two_units) auto
  then have e: "su_world sample_server = w" by (simp add: sample_server_def w [THEN arg_cong, of the, simplified option.sel])
  have g: "get T_OwnerId w 2 = Some 8" "map_option hv_phase (get T_HarvestOrder w 2) = Some HvToNode" "get T_LootContainer w 2 = None"
    using two_units_eval unfolding w by simp_all
  have n: "get T_OwnerId (su_world sample_server) 2 \<noteq> Some 7" "get T_LootContainer (su_world sample_server) 2 = None" using g e by simp_all
  show ?thesis using fleet_command_own_units_only [OF sample_server_ok n, where k = 17 and cmd = stop_both] g e
    by (simp add: get_def ct_simps)
qed

end
