(* ===== verification/Server_Systems.thy ===== *)
theory Server_Systems
  imports World_Frame
begin

text \<open>
  The systems of one step of the simulation (\<open>NeuronCore/ServerUniverse.h\<close>) in the order in which
  \<open>Step\<close> runs them.  A system is a \<open>for_each\<close> over the store; the body reads the components of the
  visited entity at its handle, the components of other entities through their network id, as the
  code does.  A system that creates entities has the outcome \<open>None\<close> for a failed assertion.
  Reading through the pointer \<open>t\<close> in \<open>SpawnLoot\<close> after the store may have moved the component is
  undefined behaviour in the code; here it reads the victim's position.
\<close>

text \<open>The components of a visited entity exist (\<open>ForEach_exact\<close>); otherwise nothing is done.\<close>

definition or_skip :: "'s \<Rightarrow> 's option \<Rightarrow> 's" where
  "or_skip s m = (case m of None \<Rightarrow> s | Some s' \<Rightarrow> s')"

section \<open>Targets\<close>

definition AttackTargetOf :: "server \<Rightarrow> u32 \<Rightarrow> u32" where
  "AttackTargetOf su netId =
     (case comp_of T_FleetOrder su netId of
        None \<Rightarrow> 0
      | Some fo \<Rightarrow> if fe_type (fo_current fo) = OtAttack then fe_targetNetId (fo_current fo) else 0)"

definition NearestHostileInRange :: "server \<Rightarrow> u32 \<Rightarrow> UniversePos \<Rightarrow> u32 \<Rightarrow> double \<Rightarrow> u32" where
  "NearestHostileInRange su selfNetId pos selfOwner rng =
     (let w = su_world su
      in fst (for_each (\<lambda>_. w) [ct_slot T_DefenseLayers, ct_slot T_Transform, ct_slot T_OwnerId, ct_slot T_NetId]
        (\<lambda>e s. or_skip s (do {
           dl \<leftarrow> get T_DefenseLayers w e; t \<leftarrow> get T_Transform w e; ow \<leftarrow> get T_OwnerId w e; netId \<leftarrow> get T_NetId w e;
           let dd = UniverseDistance pos (tf_pos t);
           Some (if netId = selfNetId \<or> hp_cur (dl_hull dl) \<le> 0 then s
                 else if \<not> Hostile selfOwner ow then s
                 else if dd > rng then s
                 else if fst s = 0 \<or> dd < snd s \<or> dd = snd s \<and> netId < fst s then (netId, dd) else s)
         })) (0, 0)))"

definition FindRepTarget :: "server \<Rightarrow> u32 \<Rightarrow> u32 \<Rightarrow> UniversePos \<Rightarrow> double \<Rightarrow> DefenseLayer \<Rightarrow> u32" where
  "FindRepTarget su selfNetId selfOwner pos rng layer =
     (let w = su_world su
      in fst (for_each (\<lambda>_. w) [ct_slot T_DefenseLayers, ct_slot T_Transform, ct_slot T_OwnerId, ct_slot T_NetId]
        (\<lambda>e s. or_skip s (do {
           dl \<leftarrow> get T_DefenseLayers w e; t \<leftarrow> get T_Transform w e; ow \<leftarrow> get T_OwnerId w e; netId \<leftarrow> get T_NetId w e;
           let l = get_layer layer dl;
           let fr = fdiv (single_of_int (hp_cur l)) (single_of_int (hp_max l));
           Some (if netId = selfNetId then s
                 else if \<not> Ally selfOwner ow then s
                 else if hp_cur (dl_hull dl) \<le> 0 then s
                 else if hp_max l \<le> 0 \<or> hp_cur l \<ge> hp_max l then s
                 else if UniverseDistance pos (tf_pos t) > rng then s
                 else if fst s = 0 \<or> fr < snd s \<or> fr = snd s \<and> netId < fst s then (netId, fr) else s)
         })) (0, 2)))"

definition TargetCombatPriority :: "server \<Rightarrow> u32 \<Rightarrow> int" where
  "TargetCombatPriority su netId =
     (case comp_of T_Fitting su netId of
        None \<Rightarrow> 0
      | Some f \<Rightarrow>
          (let kinds = map (\<lambda>mi. md_kind (mi_def mi)) (ft_modules f)
           in if MkRemoteRep \<in> set kinds then 2
              else if list_ex (\<lambda>k. k \<in> {MkJammer, MkWeb, MkWarpDisruptor, MkSensorDamp}) kinds then 1 else 0))"

section \<open>NPC decisions\<close>

record AiTarget =
  at_netId :: u32
  at_pos' :: UniversePos
  at_prio :: int

definition ai_targets :: "server \<Rightarrow> AiTarget list" where
  "ai_targets su =
     (let w = su_world su
      in for_each (\<lambda>_. w) [ct_slot T_OwnerId, ct_slot T_Transform, ct_slot T_NetId, ct_slot T_DefenseLayers]
        (\<lambda>e s. or_skip s (do {
           ow \<leftarrow> get T_OwnerId w e; t \<leftarrow> get T_Transform w e; netId \<leftarrow> get T_NetId w e; d \<leftarrow> get T_DefenseLayers w e;
           Some (if ow \<noteq> 0 \<and> hp_cur (dl_hull d) > 0
                 then s @ [\<lparr>at_netId = netId, at_pos' = tf_pos t, at_prio = TargetCombatPriority su netId\<rparr>] else s)
         })) [])"

text \<open>The nearest target, and the primary: highest priority within the aggression range, then nearest.\<close>

definition ai_nearest :: "UniversePos \<Rightarrow> AiTarget list \<Rightarrow> u32 \<times> double" where
  "ai_nearest pos ts =
     fold (\<lambda>t s. (let dd = UniverseDistance pos (at_pos' t) in if fst s = 0 \<or> dd < snd s then (at_netId t, dd) else s)) ts (0, 0)"

definition ai_primary :: "UniversePos \<Rightarrow> single \<Rightarrow> AiTarget list \<Rightarrow> u32 \<times> int \<times> double" where
  "ai_primary pos aggroRange ts =
     fold (\<lambda>t s. (case s of (best, prio, dist') \<Rightarrow>
         (let dd = UniverseDistance pos (at_pos' t)
          in if dd \<le> aggroRange \<and> (at_prio t > prio \<or> at_prio t = prio \<and> (best = 0 \<or> dd < dist'))
             then (at_netId t, at_prio t, dd) else s))) ts (0, -1, 0)"

definition ai_body :: "AiTarget list \<Rightarrow> EntityHandle \<Rightarrow> server \<Rightarrow> server" where
  "ai_body ts e su = or_skip su (do {
     ai \<leftarrow> get T_NpcAi (su_world su) e; tr \<leftarrow> get T_Transform (su_world su) e;
     d \<leftarrow> get T_DefenseLayers (su_world su) e; fo \<leftarrow> get T_FleetOrder (su_world su) e;
     let nearestId = fst (ai_nearest (tf_pos tr) ts);
     let primaryId = fst (ai_primary (tf_pos tr) (ai_aggroRange ai) ts);
     let st = NextAiState ai (nearestId \<noteq> 0) (primaryId \<noteq> 0) (HullFrac d);
     let ai = ai\<lparr>ai_state := st, ai_targetNetId := (if primaryId \<noteq> 0 then primaryId else 0)\<rparr>;
     let fo = (if st = AiAggro then fo\<lparr>fo_current := order_at OtAttack primaryId UniversePos_zero 0\<rparr>
               else fo\<lparr>fo_current := order_at OtMove 0 (ai_home ai) 0\<rparr>);
     Some (on_world (\<lambda>w. put T_FleetOrder fo e (put T_NpcAi ai e w)) su)
   })"

definition AiSystem :: "server \<Rightarrow> server" where
  "AiSystem su = for_each su_world [ct_slot T_NpcAi, ct_slot T_Transform, ct_slot T_DefenseLayers, ct_slot T_FleetOrder]
     (ai_body (ai_targets su)) su"

section \<open>Electronic warfare and repair\<close>

text \<open>Accumulated repair: whole points are applied to the ally.\<close>

definition rep_module :: "single \<Rightarrow> u32 \<Rightarrow> ModuleInstance \<Rightarrow> server \<Rightarrow> ModuleInstance \<times> server" where
  "rep_module dt ally mi su =
     (let m = mi_def mi;
          mi = mi\<lparr>mi_pending := fadd (mi_pending mi) (fmul (md_strength m) dt)\<rparr>
      in if mi_pending mi \<ge> 1 then
           (let amt = trunc32 (mi_pending mi);
                mi = mi\<lparr>mi_pending := fsub (mi_pending mi) (single_of_int amt)\<rparr>
            in (mi, case comp_of T_DefenseLayers su ally of
                      None \<Rightarrow> su
                    | Some ad \<Rightarrow> set_comp T_DefenseLayers (snd (RemoteRep (md_effectLayer m) amt ad)) ally su))
         else (mi, su))"

definition ewar_effect :: "ModuleDef \<Rightarrow> u32 \<Rightarrow> EwarStatus \<Rightarrow> server \<Rightarrow> server" where
  "ewar_effect m tgt te su =
     (if md_kind m = MkJammer then set_comp T_EwarStatus (ApplyJam (md_duration m) te) tgt su
      else if md_kind m = MkWeb then set_comp T_EwarStatus (ApplyWeb (md_strength m) (md_duration m) te) tgt su
      else if md_kind m = MkWarpDisruptor then
        (let su = set_comp T_EwarStatus (ApplyTackle (md_duration m) te) tgt su in Interdict tgt su)
      else if md_kind m = MkSensorDamp then set_comp T_EwarStatus (ApplySensorDamp (md_strength m) (md_duration m) te) tgt su
      else su)"

definition ewar_module :: "single \<Rightarrow> u32 \<Rightarrow> u32 \<Rightarrow> u32 \<Rightarrow> UniversePos \<Rightarrow> ModuleInstance \<Rightarrow> server \<Rightarrow> ModuleInstance \<times> server" where
  "ewar_module dt attackTarget owner selfId pos mi su =
     (let m = mi_def mi
      in if md_kind m = MkRemoteRep then
           (let ally = FindRepTarget su selfId owner pos (md_range m) (md_effectLayer m)
            in if ally = 0 then (mi, su) else rep_module dt ally mi su)
         else if md_kind m \<in> {MkJammer, MkWeb, MkWarpDisruptor, MkSensorDamp} then
           (let tgt = (if attackTarget \<noteq> 0 \<and> Hostile owner (OwnerOf su attackTarget) then attackTarget
                       else if IsBase su selfId then NearestHostileInRange su selfId pos owner (md_range m) else 0)
            in if tgt = 0 then (mi, su)
               else (case (comp_of T_Transform su tgt, comp_of T_EwarStatus su tgt) of
                       (Some tt, Some te) \<Rightarrow>
                         if UniverseDistance pos (tf_pos tt) > md_range m then (mi, su)
                         else (mi, ewar_effect m tgt te su)
                     | _ \<Rightarrow> (mi, su)))
         else (mi, su))"

primrec ewar_modules :: "single \<Rightarrow> u32 \<Rightarrow> u32 \<Rightarrow> u32 \<Rightarrow> UniversePos \<Rightarrow> ModuleInstance list \<Rightarrow> server \<Rightarrow> ModuleInstance list \<times> server" where
  "ewar_modules dt attackTarget owner selfId pos [] su = ([], su)"
| "ewar_modules dt attackTarget owner selfId pos (mi # mis) su =
     (case ewar_module dt attackTarget owner selfId pos mi su of
        (mi, su) \<Rightarrow> (case ewar_modules dt attackTarget owner selfId pos mis su of (mis, su) \<Rightarrow> (mi # mis, su)))"

definition ewar_body :: "single \<Rightarrow> EntityHandle \<Rightarrow> server \<Rightarrow> server" where
  "ewar_body dt e su = or_skip su (do {
     fit \<leftarrow> get T_Fitting (su_world su) e; tr \<leftarrow> get T_Transform (su_world su) e;
     ow \<leftarrow> get T_OwnerId (su_world su) e; netId \<leftarrow> get T_NetId (su_world su) e;
     Some (if (case comp_of T_EwarStatus su netId of Some es \<Rightarrow> IsJammed es | None \<Rightarrow> False) then su
           else (case ewar_modules dt (AttackTargetOf su netId) ow netId (tf_pos tr) (ft_modules fit) su of
                   (mis, su) \<Rightarrow> on_world (put T_Fitting (fit\<lparr>ft_modules := mis\<rparr>) e) su))
   })"

definition EwarLogiSystem :: "single \<Rightarrow> server \<Rightarrow> server" where
  "EwarLogiSystem dt su = for_each su_world [ct_slot T_Fitting, ct_slot T_Transform, ct_slot T_OwnerId, ct_slot T_NetId] (ewar_body dt) su"

section \<open>Fleet orders\<close>

definition AdvanceOrder :: "FleetOrder \<Rightarrow> FleetOrder" where
  "AdvanceOrder fo =
     (case fo_queue fo of
        [] \<Rightarrow> fo\<lparr>fo_current := FleetOrderEntry_new\<rparr>
      | x # xs \<Rightarrow> \<lparr>fo_current = x, fo_queue = xs\<rparr>)"

definition AttackStandoff :: "server \<Rightarrow> EntityHandle \<Rightarrow> single" where
  "AttackStandoff su attacker =
     (case get T_Weapon (su_world su) attacker of Some w \<Rightarrow> fmul (wp_range w) (rnd32 (9 / 10)) | None \<Rightarrow> 0)"

definition unit_speed :: "server \<Rightarrow> u32 \<Rightarrow> single" where
  "unit_speed su netId =
     fmul (case comp_of T_HullInfo su netId of Some hi \<Rightarrow> if hi_maxSpeed hi > 0 then hi_maxSpeed hi else FLEET_MOVE_SPEED | None \<Rightarrow> FLEET_MOVE_SPEED)
          (case comp_of T_EwarStatus su netId of Some es \<Rightarrow> ew_webFactor es | None \<Rightarrow> 1)"

definition order_body :: "single \<Rightarrow> EntityHandle \<Rightarrow> server \<Rightarrow> server" where
  "order_body dt e su = or_skip su (do {
     fo \<leftarrow> get T_FleetOrder (su_world su) e; tr \<leftarrow> get T_Transform (su_world su) e; netId \<leftarrow> get T_NetId (su_world su) e;
     let od = fo_current fo;
     let maxStep = dmul (unit_speed su netId) dt;
     Some (if fe_type od = OtIdle then su
           else if fe_type od \<in> {OtMove, OtRetreat} then
             (case StepStandoff (fe_targetPoint od) maxStep 0 tr of
                (arrived, tr) \<Rightarrow> on_world (\<lambda>w. let w = put T_Transform tr e w in if arrived then put T_FleetOrder (AdvanceOrder fo) e w else w) su)
           else
             (case comp_of T_Transform su (fe_targetNetId od) of
                None \<Rightarrow> on_world (put T_FleetOrder (AdvanceOrder fo) e) su
              | Some tgt \<Rightarrow>
                  if \<not> IsAlive (su_world su) (EntityOf su (fe_targetNetId od)) then on_world (put T_FleetOrder (AdvanceOrder fo) e) su
                  else
                    (let standoff = (if fe_type od = OtAttack then AttackStandoff su (EntityOf su netId) else fe_range od)
                     in on_world (put T_Transform (snd (StepStandoff (tf_pos tgt) maxStep standoff tr)) e) su)))
   })"

definition FleetOrderSystem :: "single \<Rightarrow> server \<Rightarrow> server" where
  "FleetOrderSystem dt su = for_each su_world [ct_slot T_FleetOrder, ct_slot T_Transform, ct_slot T_NetId] (order_body dt) su"

section \<open>Weapons\<close>

record PendingProjectile =
  pp_src :: u32
  pp_tgt :: u32
  pp_origin :: UniversePos
  pp_vel :: vec3
  pp_def :: ModuleDef

record KillCand =
  kc_victim :: u32
  kc_killer :: u32

definition cool_down :: "single \<Rightarrow> ModuleInstance \<Rightarrow> ModuleInstance" where
  "cool_down dt mi = (if md_kind (mi_def mi) = MkWeapon then mi\<lparr>mi_cooldown := max 0 (fsub (mi_cooldown mi) dt)\<rparr> else mi)"

definition TickWeaponCooldowns :: "EntityHandle \<Rightarrow> single \<Rightarrow> server \<Rightarrow> server" where
  "TickWeaponCooldowns e dt su =
     (case get T_Fitting (su_world su) e of
        None \<Rightarrow> su
      | Some f \<Rightarrow> on_world (put T_Fitting (f\<lparr>ft_modules := map (cool_down dt) (ft_modules f)\<rparr>) e) su)"

text \<open>What a shot at the target needs to know.\<close>

record ShotContext =
  sx_self :: u32
  sx_selfPos :: UniversePos
  sx_target :: u32
  sx_targetPos :: UniversePos
  sx_resist :: ResistProfile
  sx_jammed :: bool
  sx_damp :: single
  sx_sig :: single
  sx_speed :: single

definition aim :: "UniversePos \<Rightarrow> UniversePos \<Rightarrow> single \<Rightarrow> vec3" where
  "aim selfPos targetPos speed =
     (let dx = axis_diff (up_x selfPos) (up_x targetPos); dy = axis_diff (up_y selfPos) (up_y targetPos);
          dz = axis_diff (up_z selfPos) (up_z targetPos);
          len = dsqrt (dadd (dadd (dmul dx dx) (dmul dy dy)) (dmul dz dz))
      in if len > 0 then (let s = ddiv speed len in (rnd32 (dmul dx s), rnd32 (dmul dy s), rnd32 (dmul dz s))) else (0, 0, 0))"

type_synonym shots = "DefenseLayers \<times> PendingProjectile list \<times> KillCand list"

definition fire_module :: "ShotContext \<Rightarrow> single \<Rightarrow> ModuleInstance \<Rightarrow> shots \<Rightarrow> ModuleInstance \<times> shots" where
  "fire_module c dt mi s =
     (case s of (td, projs, kills) \<Rightarrow>
       (let m = mi_def mi; dst = UniverseDistance (sx_selfPos c) (sx_targetPos c)
        in if md_kind m \<noteq> MkWeapon then (mi, s)
           else
             (let mi = cool_down dt mi
              in if sx_jammed c \<or> mi_cooldown mi > 0 then (mi, s)
                 else if \<not> InEngagementRange m dst (sx_damp c) then (mi, s)
                 else
                   (let mi = mi\<lparr>mi_cooldown := (if md_rateOfFire m > 0 then fdiv 1 (md_rateOfFire m) else 1)\<rparr>
                    in if md_projectileSpeed m \<le> 0 then
                         (let eff = ResolveShotDamage (md_baseDamage m) dst (md_optimal m) (md_falloff m) (md_tracking m) (sx_sig c) (sx_speed c)
                          in case ApplyTypedDamage (sx_resist c) (md_damageType m) eff td of
                               (out, td) \<Rightarrow> (mi, td, projs, if out = Killed then kills @ [\<lparr>kc_victim = sx_target c, kc_killer = sx_self c\<rparr>] else kills))
                       else
                         (mi, td, projs @ [\<lparr>pp_src = sx_self c, pp_tgt = sx_target c, pp_origin = sx_selfPos c,
                            pp_vel = aim (sx_selfPos c) (sx_targetPos c) (md_projectileSpeed m), pp_def = m\<rparr>], kills)))))"

primrec fire_modules :: "ShotContext \<Rightarrow> single \<Rightarrow> ModuleInstance list \<Rightarrow> shots \<Rightarrow> ModuleInstance list \<times> shots" where
  "fire_modules c dt [] s = ([], s)"
| "fire_modules c dt (mi # mis) s =
     (case fire_module c dt mi s of (mi, s) \<Rightarrow> (case fire_modules c dt mis s of (mis, s) \<Rightarrow> (mi # mis, s)))"

type_synonym combat = "server \<times> PendingProjectile list \<times> KillCand list"

definition target_speed :: "world \<Rightarrow> EntityHandle \<Rightarrow> single" where
  "target_speed w te =
     fmul (case get T_HullInfo w te of Some hi \<Rightarrow> hi_maxSpeed hi | None \<Rightarrow> 0)
          (case get T_EwarStatus w te of Some es \<Rightarrow> ew_webFactor es | None \<Rightarrow> 1)"

definition target_signature :: "world \<Rightarrow> EntityHandle \<Rightarrow> single" where
  "target_signature w te = (case get T_HullInfo w te of Some hi \<Rightarrow> hi_signature hi | None \<Rightarrow> 100)"

definition FireWeapons :: "EntityHandle \<Rightarrow> u32 \<Rightarrow> UniversePos \<Rightarrow> u32 \<Rightarrow> single \<Rightarrow> combat \<Rightarrow> combat" where
  "FireWeapons self selfNetId selfPos tgtId dt s =
     (case s of (su, projs, kills) \<Rightarrow>
       (let w = su_world su; te = EntityOf su tgtId
        in case get T_Fitting w self of
             None \<Rightarrow> s
           | Some fit \<Rightarrow>
               (case (get T_Transform w te, get T_DefenseLayers w te, get T_ResistProfile w te) of
                  (Some tt, Some td, Some trp) \<Rightarrow>
                    if \<not> IsAlive w te then (TickWeaponCooldowns self dt su, projs, kills)
                    else
                      (let c = \<lparr>sx_self = selfNetId, sx_selfPos = selfPos, sx_target = tgtId, sx_targetPos = tf_pos tt, sx_resist = trp,
                             sx_jammed = (case get T_EwarStatus w self of Some es \<Rightarrow> IsJammed es | None \<Rightarrow> False),
                             sx_damp = (case get T_EwarStatus w self of Some es \<Rightarrow> ew_sensorDampFactor es | None \<Rightarrow> 1),
                             sx_sig = target_signature w te, sx_speed = target_speed w te\<rparr>
                       in case fire_modules c dt (ft_modules fit) (td, projs, kills) of
                            (mis, td, projs, kills) \<Rightarrow>
                              (on_world (\<lambda>w. put T_Fitting (fit\<lparr>ft_modules := mis\<rparr>) self (put T_DefenseLayers td te w)) su, projs, kills))
                | _ \<Rightarrow> (TickWeaponCooldowns self dt su, projs, kills))))"

text \<open>\<open>reach / speed * 1.5f + 0.1f\<close>\<close>

definition projectile_of :: "PendingProjectile \<Rightarrow> Projectile" where
  "projectile_of p =
     (let m = pp_def p; reach = fadd (md_optimal m) (md_falloff m)
      in \<lparr>pj_sourceNetId = pp_src p, pj_targetNetId = pp_tgt p, pj_damageType = md_damageType m, pj_baseDamage = md_baseDamage m,
          pj_vel = pp_vel p, pj_origin = pp_origin p,
          pj_ttl = (if md_projectileSpeed m > 0
             then fadd (fmul (fdiv reach (md_projectileSpeed m)) (3 / 2)) (rnd32 (1 / 10)) else rnd32 (1 / 10)),
          pj_optimal = md_optimal m, pj_falloff = md_falloff m, pj_tracking = md_tracking m\<rparr>)"

definition SpawnProjectileEntity :: "PendingProjectile \<Rightarrow> server \<Rightarrow> server option" where
  "SpawnProjectileEntity p su =
     map_option snd (spawn (\<lambda>netId. [init T_Transform (at_pos (pp_origin p)), init T_NetId netId,
       init T_ShapeId \<lparr>sh_value = ProjShapeId, sh_kind = Kind_Projectile\<rparr>, init T_Projectile (projectile_of p)]) (\<lambda>e. Some) su)"

section \<open>Kills\<close>

definition SpawnLoot :: "u32 \<Rightarrow> server \<Rightarrow> server option" where
  "SpawnLoot victimNetId su =
     (case comp_of T_Transform su victimNetId of
        None \<Rightarrow> Some su
      | Some t \<Rightarrow>
          (let items = (case comp_of T_Cargo su victimNetId of
                          None \<Rightarrow> replicate RESOURCE_SLOTS 0
                        | Some c \<Rightarrow> map (\<lambda>i. fmul (ho_amount c ! i) (su_lootFraction su)) [0..<RESOURCE_SLOTS]);
               value = foldl fadd 0 (case comp_of T_Cargo su victimNetId of None \<Rightarrow> [] | Some _ \<Rightarrow> items);
               lc = \<lparr>lc_items = items, lc_expiresAt = fadd (rnd32 (su_simTime su)) (su_lootExpireSeconds su)\<rparr>
           in do {
             (lootId, su) \<leftarrow> spawn (\<lambda>netId. [init T_Transform (at_pos (tf_pos t)), init T_NetId netId,
               init T_ShapeId \<lparr>sh_value = LootShapeId, sh_kind = Kind_LootContainer\<rparr>, init T_LootContainer lc]) (\<lambda>e. Some) su;
             Some (su\<lparr>su_econEvents := su_econEvents su @ [\<lparr>ev_type = EvLootDrop, ev_aNetId = lootId, ev_bNetId = victimNetId,
               ev_value = dtrunc value, ev_tick = su_tick su\<rparr>]\<rparr>)
           }))"

definition OnUnitKilled :: "u32 \<Rightarrow> u32 \<Rightarrow> server \<Rightarrow> server option" where
  "OnUnitKilled victim killer su =
     (let e = EntityOf su victim
      in if has T_BaseTag (su_world su) e then Some su
         else
           (let kind = (case get T_ShapeId (su_world su) e of Some s \<Rightarrow> sh_kind s | None \<Rightarrow> 0);
                value = (case get T_DefenseLayers (su_world su) e of Some d \<Rightarrow> TotalMax d | None \<Rightarrow> 0);
                su = su\<lparr>su_killmails := su_killmails su @ [\<lparr>km_victim = victim, km_killer = killer, km_victimKind = kind,
                           km_value = value, km_tick = su_tick su\<rparr>],
                        su_econEvents := su_econEvents su @ [\<lparr>ev_type = EvKillmail, ev_aNetId = victim, ev_bNetId = killer,
                           ev_value = value, ev_tick = su_tick su\<rparr>]\<rparr>
            in map_option (DestroyUnit victim) (if has T_ShipTag (su_world su) e then SpawnLoot victim su else Some su)))"

definition process_kill :: "KillCand \<Rightarrow> server \<Rightarrow> server option" where
  "process_kill k su =
     (let e = EntityOf su (kc_victim k)
      in if \<not> IsAlive (su_world su) e then Some su
         else (case get T_DefenseLayers (su_world su) e of
                 None \<Rightarrow> Some su
               | Some d \<Rightarrow> if hp_cur (dl_hull d) > 0 then Some su else OnUnitKilled (kc_victim k) (kc_killer k) su))"

definition ProcessKills :: "KillCand list \<Rightarrow> server \<Rightarrow> server option" where
  "ProcessKills kills su = all_in_order process_kill kills su"

section \<open>Firing and projectiles\<close>

definition unit_fire_body :: "single \<Rightarrow> EntityHandle \<Rightarrow> combat \<Rightarrow> combat" where
  "unit_fire_body dt e s =
     (case s of (su, projs, kills) \<Rightarrow> or_skip s (do {
        fo \<leftarrow> get T_FleetOrder (su_world su) e; tr \<leftarrow> get T_Transform (su_world su) e; netId \<leftarrow> get T_NetId (su_world su) e;
        let self = EntityOf su netId;
        Some (if has T_BaseTag (su_world su) self then s
              else if fe_type (fo_current fo) \<noteq> OtAttack \<or> fe_targetNetId (fo_current fo) = 0
                then (TickWeaponCooldowns self dt su, projs, kills)
              else FireWeapons self netId (tf_pos tr) (fe_targetNetId (fo_current fo)) dt s)
      }))"

definition base_fire_body :: "single \<Rightarrow> EntityHandle \<Rightarrow> combat \<Rightarrow> combat" where
  "base_fire_body dt e s =
     (case s of (su, projs, kills) \<Rightarrow> or_skip s (do {
        bc \<leftarrow> get T_BaseCombat (su_world su) e; tr \<leftarrow> get T_Transform (su_world su) e; netId \<leftarrow> get T_NetId (su_world su) e;
        w \<leftarrow> get T_Weapon (su_world su) e;
        let self = EntityOf su netId;
        Some (if bc_state bc \<noteq> BsActive then (TickWeaponCooldowns self dt su, projs, kills)
              else
                (let owner = (case get T_OwnerId (su_world su) self of Some o' \<Rightarrow> o' | None \<Rightarrow> 0);
                     tgt = NearestHostileInRange su netId (tf_pos tr) owner (wp_range w)
                 in if tgt \<noteq> 0 then FireWeapons self netId (tf_pos tr) tgt dt s
                    else (TickWeaponCooldowns self dt su, projs, kills)))
      }))"

definition fire_all :: "single \<Rightarrow> server \<Rightarrow> combat" where
  "fire_all dt su =
     (let s = for_each (\<lambda>s. su_world (fst s)) [ct_slot T_FleetOrder, ct_slot T_Fitting, ct_slot T_Transform, ct_slot T_NetId]
                (unit_fire_body dt) (su, [], [])
      in for_each (\<lambda>s. su_world (fst s)) [ct_slot T_BaseTag, ct_slot T_BaseCombat, ct_slot T_Transform, ct_slot T_NetId, ct_slot T_Weapon]
           (base_fire_body dt) s)"

definition CombatSystem :: "single \<Rightarrow> server \<Rightarrow> server option" where
  "CombatSystem dt su =
     (case fire_all dt su of
        (su, projs, kills) \<Rightarrow> Option.bind (all_in_order SpawnProjectileEntity projs su) (ProcessKills kills))"

type_synonym flights = "server \<times> u32 list \<times> KillCand list"

text \<open>The target is gone: the projectile flies on until its time is up.\<close>

definition projectile_lost :: "single \<Rightarrow> EntityHandle \<Rightarrow> Projectile \<Rightarrow> Transform \<Rightarrow> u32 \<Rightarrow> flights \<Rightarrow> flights" where
  "projectile_lost dt e pr tr netId s =
     (case s of (su, expired, kills) \<Rightarrow>
       (let tr = tr\<lparr>tf_pos := ballistic_step (pj_vel pr) dt (tf_pos tr)\<rparr>;
            pr = pr\<lparr>pj_ttl := fsub (pj_ttl pr) dt\<rparr>
        in (on_world (\<lambda>w. put T_Projectile pr e (put T_Transform tr e w)) su,
            if pj_ttl pr \<le> 0 then expired @ [netId] else expired, kills)))"

definition projectile_body :: "single \<Rightarrow> EntityHandle \<Rightarrow> flights \<Rightarrow> flights" where
  "projectile_body dt e s =
     (case s of (su, expired, kills) \<Rightarrow> or_skip s (do {
        pr \<leftarrow> get T_Projectile (su_world su) e; tr \<leftarrow> get T_Transform (su_world su) e; netId \<leftarrow> get T_NetId (su_world su) e;
        let w = su_world su;
        let te = EntityOf su (pj_targetNetId pr);
        Some (case (get T_Transform w te, get T_DefenseLayers w te, get T_ResistProfile w te) of
            (Some tt, Some td, Some trp) \<Rightarrow>
              if IsAlive w te then
                (let hitRadius = max (target_signature w te) 80
                 in case StepProjectile (tf_pos tr) (pj_vel pr) (tf_pos tt) (tf_pos tt) (pj_ttl pr) dt hitRadius (su_projectileSubSteps su) of
                      (hit, p, ttl) \<Rightarrow>
                        (let fly = (\<lambda>w. put T_Projectile (pr\<lparr>pj_ttl := ttl\<rparr>) e (put T_Transform (tr\<lparr>tf_pos := p\<rparr>) e w))
                         in if hit then
                              (let eff = ResolveShotDamage (pj_baseDamage pr) (UniverseDistance (pj_origin pr) p) (pj_optimal pr)
                                           (pj_falloff pr) (pj_tracking pr) (target_signature w te) (target_speed w te)
                               in case ApplyTypedDamage trp (pj_damageType pr) eff td of
                                    (out, td) \<Rightarrow>
                                      (on_world (\<lambda>w. put T_DefenseLayers td te (fly w)) su, expired @ [netId],
                                       if out = Killed then kills @ [\<lparr>kc_victim = pj_targetNetId pr, kc_killer = pj_sourceNetId pr\<rparr>] else kills))
                            else (on_world fly su, if ttl \<le> 0 then expired @ [netId] else expired, kills)))
              else projectile_lost dt e pr tr netId s
          | _ \<Rightarrow> projectile_lost dt e pr tr netId s)
      }))"

definition ProjectileSystem :: "single \<Rightarrow> server \<Rightarrow> server option" where
  "ProjectileSystem dt su =
     (case for_each (\<lambda>s. su_world (fst s)) [ct_slot T_Projectile, ct_slot T_Transform, ct_slot T_NetId] (projectile_body dt) (su, [], []) of
        (su, expired, kills) \<Rightarrow> ProcessKills kills (fold DestroyUnit expired su))"

section \<open>Regeneration and the retreat of bases\<close>

definition regen_body :: "single \<Rightarrow> EntityHandle \<Rightarrow> server \<Rightarrow> server" where
  "regen_body dt e su = or_skip su (do {
     d \<leftarrow> get T_DefenseLayers (su_world su) e; Some (on_world (put T_DefenseLayers (RegenDefenses dt d) e) su) })"

definition ewar_tick_body :: "single \<Rightarrow> EntityHandle \<Rightarrow> server \<Rightarrow> server" where
  "ewar_tick_body dt e su = or_skip su (do {
     s \<leftarrow> get T_EwarStatus (su_world su) e; Some (on_world (put T_EwarStatus (TickEwar dt s) e) su) })"

definition RegenSystem :: "single \<Rightarrow> server \<Rightarrow> server" where
  "RegenSystem dt su =
     for_each su_world [ct_slot T_EwarStatus] (ewar_tick_body dt) (for_each su_world [ct_slot T_DefenseLayers] (regen_body dt) su)"

text \<open>\<open>hull.max / 4\<close> rounds towards zero.\<close>

definition quarter :: "int \<Rightarrow> int" where
  "quarter m = (if m < 0 then - (- m div 4) else m div 4)"

definition lose_cargo :: "u32 \<Rightarrow> BaseCombat \<Rightarrow> Hold \<Rightarrow> server \<Rightarrow> BaseCombat \<times> Hold \<times> server" where
  "lose_cargo netId bc st su =
     (if bc_cargoLost bc then (bc, st, su)
      else
        (let lost = sum_list (map (\<lambda>i. dtrunc (ho_amount st ! i)) [0..<RESOURCE_SLOTS])
         in (bc\<lparr>bc_cargoLost := True\<rparr>, st\<lparr>ho_amount := replicate RESOURCE_SLOTS 0\<rparr>,
             su\<lparr>su_econEvents := su_econEvents su @ [\<lparr>ev_type = EvCargoLost, ev_aNetId = netId, ev_bNetId = 0, ev_value = lost,
               ev_tick = su_tick su\<rparr>]\<rparr>)))"

definition retreat_body :: "EntityHandle \<Rightarrow> server \<Rightarrow> server" where
  "retreat_body e su = or_skip su (do {
     bc \<leftarrow> get T_BaseCombat (su_world su) e; d \<leftarrow> get T_DefenseLayers (su_world su) e; st \<leftarrow> get T_Storage (su_world su) e;
     netId \<leftarrow> get T_NetId (su_world su) e;
     Some (if bc_state bc = BsActive \<and> HullFrac d \<le> su_baseRetreatHullFrac su then
             (let bc = bc\<lparr>bc_state := BsRetreating, bc_retreatUntil := fadd (rnd32 (su_simTime su)) (su_baseRetreatSeconds su)\<rparr>;
                  d = d\<lparr>dl_hull := (dl_hull d)\<lparr>hp_cur := max (hp_cur (dl_hull d)) (quarter (hp_max (dl_hull d)))\<rparr>\<rparr>
              in case lose_cargo netId bc st su of
                   (bc, st, su) \<Rightarrow>
                     (on_world (\<lambda>w. put T_Storage st e (put T_DefenseLayers d e (put T_BaseCombat bc e w))) su)
                       \<lparr>su_lowHullAlerts := su_lowHullAlerts su @ [netId]\<rparr>)
           else if bc_state bc = BsRetreating \<and> rnd32 (su_simTime su) \<ge> bc_retreatUntil bc then
             on_world (put T_BaseCombat (bc\<lparr>bc_state := BsDisabled\<rparr>) e) su
           else su)
   })"

definition BaseRetreatSystem :: "server \<Rightarrow> server" where
  "BaseRetreatSystem su = for_each su_world
     [ct_slot T_BaseTag, ct_slot T_BaseCombat, ct_slot T_DefenseLayers, ct_slot T_Storage, ct_slot T_NetId] retreat_body su"

section \<open>Movement and economy\<close>

definition move_body :: "single \<Rightarrow> EntityHandle \<Rightarrow> server \<Rightarrow> server" where
  "move_body dt e su = or_skip su (do {
     t \<leftarrow> get T_Transform (su_world su) e; v \<leftarrow> get T_Velocity (su_world su) e;
     Some (on_world (put T_Transform (IntegrateMovement dt v t) e) su) })"

definition MovementSystem :: "single \<Rightarrow> server \<Rightarrow> server" where
  "MovementSystem dt su = for_each su_world [ct_slot T_Transform, ct_slot T_Velocity] (move_body dt) su"

definition nav_body :: "single \<Rightarrow> EntityHandle \<Rightarrow> server \<Rightarrow> server" where
  "nav_body dt e su = or_skip su (do {
     nav \<leftarrow> get T_NavState (su_world su) e; tr \<leftarrow> get T_Transform (su_world su) e;
     Some (case StepNav (su_nav su) dt nav tr of (_, nav, tr) \<Rightarrow> on_world (\<lambda>w. put T_Transform tr e (put T_NavState nav e w)) su) })"

definition NavigationSystem :: "single \<Rightarrow> server \<Rightarrow> server" where
  "NavigationSystem dt su = for_each su_world [ct_slot T_NavState, ct_slot T_Transform] (nav_body dt) su"

definition node_left :: "ResourceNodeTag option \<Rightarrow> bool" where
  "node_left node \<longleftrightarrow> (case node of None \<Rightarrow> False | Some n \<Rightarrow> rn_remaining n > 0)"

definition harvest_body :: "single \<Rightarrow> EntityHandle \<Rightarrow> server \<Rightarrow> server" where
  "harvest_body dt e su = or_skip su (do {
     ord \<leftarrow> get T_HarvestOrder (su_world su) e; tr \<leftarrow> get T_Transform (su_world su) e; cargo \<leftarrow> get T_Cargo (su_world su) e;
     let maxStep = dmul (et_harvesterSpeed (su_economy su)) dt;
     let rng = et_harvestRange (su_economy su);
     let nodeTr = comp_of T_Transform su (hv_nodeNetId ord);
     let node = comp_of T_ResourceNodeTag su (hv_nodeNetId ord);
     let baseTr = comp_of T_Transform su (hv_baseNetId ord);
     let storage = comp_of T_Storage su (hv_baseNetId ord);
     let go = (\<lambda>ph su. on_world (put T_HarvestOrder (ord\<lparr>hv_phase := ph\<rparr>) e) su);
     Some (case hv_phase ord of
         HvIdle \<Rightarrow> su
       | HvToNode \<Rightarrow>
           (case nodeTr of
              None \<Rightarrow> go (if SumSlots (ho_amount cargo) > 0 then HvToBase else HvIdle) su
            | Some ntr \<Rightarrow>
                if \<not> node_left node then go (if SumSlots (ho_amount cargo) > 0 then HvToBase else HvIdle) su
                else if UniverseDistance (tf_pos tr) (tf_pos ntr) \<le> rng then go HvHarvesting su
                else on_world (put T_Transform (StepToward (tf_pos ntr) maxStep tr) e) su)
       | HvHarvesting \<Rightarrow>
           (case node of
              None \<Rightarrow> go HvToBase su
            | Some n \<Rightarrow>
                if rn_remaining n \<le> 0 then go HvToBase su
                else (case HarvestStep (et_harvestRate (su_economy su)) dt n cargo of
                        (_, n, cargo) \<Rightarrow>
                          (let su = on_world (put T_Cargo cargo e) (set_comp T_ResourceNodeTag n (hv_nodeNetId ord) su)
                           in if HoldFree cargo \<le> 0 then go HvToBase su else su)))
       | HvToBase \<Rightarrow>
           (case (baseTr, storage) of
              (Some btr, Some _) \<Rightarrow>
                if UniverseDistance (tf_pos tr) (tf_pos btr) \<le> rng then go HvDepositing su
                else on_world (put T_Transform (StepToward (tf_pos btr) maxStep tr) e) su
            | _ \<Rightarrow> go HvIdle su)
       | HvDepositing \<Rightarrow>
           (let su = (case storage of
                        None \<Rightarrow> su
                      | Some st \<Rightarrow> (case DepositAll cargo st of
                          (_, cargo, st) \<Rightarrow> set_comp T_Storage st (hv_baseNetId ord) (on_world (put T_Cargo cargo e) su)))
            in go (if node_left node then HvToNode else HvIdle) su))
   })"

definition HarvestSystem :: "single \<Rightarrow> server \<Rightarrow> server" where
  "HarvestSystem dt su = for_each su_world [ct_slot T_HarvestOrder, ct_slot T_Transform, ct_slot T_Cargo] (harvest_body dt) su"

definition build_body :: "single \<Rightarrow> EntityHandle \<Rightarrow> server \<times> (u32 \<times> UniversePos) list \<Rightarrow> server \<times> (u32 \<times> UniversePos) list" where
  "build_body dt e s =
     (case s of (su, done') \<Rightarrow> or_skip s (do {
        q \<leftarrow> get T_BuildQueue (su_world su) e; st \<leftarrow> get T_Storage (su_world su) e; ow \<leftarrow> get T_OwnerId (su_world su) e;
        t \<leftarrow> get T_Transform (su_world su) e;
        Some (case BuildStep (su_economy su) dt q st of
            (r, q, st) \<Rightarrow> (on_world (\<lambda>w. put T_Storage st e (put T_BuildQueue q e w)) su,
                           if r = BuildCompleted then done' @ [(ow, tf_pos t)] else done'))
      }))"

definition finish_build :: "u32 \<times> UniversePos \<Rightarrow> server \<Rightarrow> server option" where
  "finish_build d su = do {
     (ship, su) \<leftarrow> SpawnFleetShip (fst d) ShipShapeId (snd d) su;
     Some (if ship \<noteq> 0 then su\<lparr>su_buildCompleted := su_buildCompleted su @ [ship]\<rparr> else su)
   }"

definition BuildSystem :: "single \<Rightarrow> server \<Rightarrow> server option" where
  "BuildSystem dt su =
     (case for_each (\<lambda>s. su_world (fst s)) [ct_slot T_BuildQueue, ct_slot T_Storage, ct_slot T_OwnerId, ct_slot T_Transform]
             (build_body dt) (su, []) of
        (su, done') \<Rightarrow> all_in_order finish_build done' su)"

section \<open>The end of a step\<close>

definition mirror_body :: "EntityHandle \<Rightarrow> server \<Rightarrow> server" where
  "mirror_body e su = or_skip su (do {
     d \<leftarrow> get T_DefenseLayers (su_world su) e;
     Some (on_world (put T_Health \<lparr>h_hp = TotalCur d, h_maxHp = TotalMax d\<rparr> e) su) })"

definition SyncHealthMirror :: "server \<Rightarrow> server" where
  "SyncHealthMirror su = for_each su_world [ct_slot T_DefenseLayers, ct_slot T_Health] mirror_body su"

definition entity_hp :: "server \<Rightarrow> u32 \<Rightarrow> u32" where
  "entity_hp su netId = (case comp_of T_Health su netId of Some h \<Rightarrow> word_of_int (h_hp h) | None \<Rightarrow> 1000)"

definition repl_fields :: "server \<Rightarrow> u32 \<Rightarrow> Transform \<Rightarrow> ShapeId \<Rightarrow> ReplFields" where
  "repl_fields su netId t s =
     (case tf_localOffset t of (lx, ly, lz) \<Rightarrow>
       \<lparr>rf_x = up_x (tf_pos t), rf_y = up_y (tf_pos t), rf_z = up_z (tf_pos t), rf_lox = f32_of lx, rf_loy = f32_of ly, rf_loz = f32_of lz,
        rf_hp = entity_hp su netId, rf_ownerPlayer = OwnerOf su netId, rf_shapeId = sh_value s, rf_kind = sh_kind s\<rparr>)"

definition stamp_body :: "EntityHandle \<Rightarrow> server \<Rightarrow> server" where
  "stamp_body e su = or_skip su (do {
     netId \<leftarrow> get T_NetId (su_world su) e; t \<leftarrow> get T_Transform (su_world su) e; s \<leftarrow> get T_ShapeId (su_world su) e;
     Some (su\<lparr>su_repl := snd (Stamp netId (repl_fields su netId t s) (su_repl su))\<rparr>) })"

definition StampReplication :: "server \<Rightarrow> server" where
  "StampReplication su = for_each su_world [ct_slot T_NetId, ct_slot T_Transform, ct_slot T_ShapeId] stamp_body su"

text \<open>The cells a player can sense, in the order of its sensor sources.\<close>

definition residency_body :: "EntityHandle \<Rightarrow> server \<Rightarrow> server" where
  "residency_body e su = or_skip su (do {
     netId \<leftarrow> get T_NetId (su_world su) e; t \<leftarrow> get T_Transform (su_world su) e;
     Some (su\<lparr>su_interest := snd (UpdateResidency netId (UniverseToSector (tf_pos t)) (su_interest su))\<rparr>) })"

definition sensed_body :: "world \<Rightarrow> EntityHandle \<Rightarrow> (u32 \<rightharpoonup> SectorId list) \<Rightarrow> (u32 \<rightharpoonup> SectorId list)" where
  "sensed_body w e m = or_skip m (do {
     ow \<leftarrow> get T_OwnerId w e; r \<leftarrow> get T_Sensor w e; t \<leftarrow> get T_Transform w e;
     Some (if ow = 0 then m
           else m(ow \<mapsto> CollectNeighbourhood (UniverseToSector (tf_pos t)) (SectorRadiusForRange (f32_of r))
                    (case m ow of Some cs \<Rightarrow> cs | None \<Rightarrow> []))) })"

definition perPlayer :: "world \<Rightarrow> u32 \<rightharpoonup> SectorId list" where
  "perPlayer w = for_each (\<lambda>_. w) [ct_slot T_OwnerId, ct_slot T_Sensor, ct_slot T_Transform] (sensed_body w) Map.empty"

text \<open>The players come in the order of a hash map: \<open>players\<close> is that order, a parameter of the step.\<close>

definition UpdateInterest :: "u32 list \<Rightarrow> server \<Rightarrow> server" where
  "UpdateInterest players su =
     (let su = for_each su_world [ct_slot T_NetId, ct_slot T_Transform] residency_body su;
          cells = perPlayer (su_world su)
      in su\<lparr>su_interest := fold (\<lambda>p g. case cells p of None \<Rightarrow> g | Some cs \<Rightarrow> snd (SetSubscription p cs g)) players (su_interest su)\<rparr>)"

definition combat_systems :: "single \<Rightarrow> server \<Rightarrow> server option" where
  "combat_systems dt su =
     (if su_combatEnabled su then do {
        su \<leftarrow> CombatSystem dt (FleetOrderSystem dt (EwarLogiSystem dt su));
        su \<leftarrow> ProjectileSystem dt su;
        Some (BaseRetreatSystem (RegenSystem dt su))
      }
      else Some (FleetOrderSystem dt su))"

definition Step :: "u32 list \<Rightarrow> single \<Rightarrow> server \<Rightarrow> server option" where
  "Step players dt su = do {
     su \<leftarrow> combat_systems dt (AiSystem su);
     su \<leftarrow> BuildSystem dt (HarvestSystem dt (NavigationSystem dt (MovementSystem dt su)));
     let su = SyncHealthMirror su;
     let su = su\<lparr>su_simTime := dadd (su_simTime su) dt, su_tick := su_tick su + 1\<rparr>;
     Some (UpdateInterest players (StampReplication su))
   }"

section \<open>Lists and drains\<close>

definition LootContainerIds :: "server \<Rightarrow> u32 list" where
  "LootContainerIds su =
     (let w = su_world su
      in for_each (\<lambda>_. w) [ct_slot T_LootContainer, ct_slot T_NetId] (\<lambda>e s. or_skip s (do { i \<leftarrow> get T_NetId w e; Some (s @ [i]) })) [])"

definition ProjectileCount :: "server \<Rightarrow> nat" where
  "ProjectileCount su = for_each (\<lambda>_. su_world su) [ct_slot T_Projectile] (\<lambda>e n. n + 1) 0"

definition NpcSiteMembers :: "server \<Rightarrow> u16 \<Rightarrow> u32 list" where
  "NpcSiteMembers su siteId =
     (let w = su_world su
      in for_each (\<lambda>_. w) [ct_slot T_NpcAi, ct_slot T_NetId]
        (\<lambda>e s. or_skip s (do { ai \<leftarrow> get T_NpcAi w e; i \<leftarrow> get T_NetId w e; Some (if ai_siteId ai = siteId then s @ [i] else s) })) [])"

definition DrainBuildCompleted :: "server \<Rightarrow> u32 list \<times> server" where
  "DrainBuildCompleted su = (su_buildCompleted su, su\<lparr>su_buildCompleted := []\<rparr>)"
definition DrainEconEvents :: "server \<Rightarrow> EconEvent list \<times> server" where
  "DrainEconEvents su = (su_econEvents su, su\<lparr>su_econEvents := []\<rparr>)"
definition DrainKillmails :: "server \<Rightarrow> Killmail list \<times> server" where
  "DrainKillmails su = (su_killmails su, su\<lparr>su_killmails := []\<rparr>)"
definition DrainLowHullAlerts :: "server \<Rightarrow> u32 list \<times> server" where
  "DrainLowHullAlerts su = (su_lowHullAlerts su, su\<lparr>su_lowHullAlerts := []\<rparr>)"
definition DrainClearedSites :: "server \<Rightarrow> u16 list \<times> server" where
  "DrainClearedSites su = (su_clearedSites su, su\<lparr>su_clearedSites := []\<rparr>)"

end
