(* ===== verification/Base_Safety.thy ===== *)
theory Base_Safety
  imports Server_Systems
begin

text \<open>
  Bases are never destroyed: a whole \<open>Step\<close> keeps every base, its network id and its owner,
  whatever the fighting.  Operations that only write components are \<open>steady\<close>, creations and the
  destruction of other units are \<open>safe\<close>; the systems are composed from the two.
\<close>

section \<open>Steady operations\<close>

definition steady :: "server \<Rightarrow> server \<Rightarrow> bool" where
  "steady su su' \<longleftrightarrow> m_records (su_world su') = m_records (su_world su) \<and> su_netIdToEntity su' = su_netIdToEntity su \<and>
     (sim_ok (su_world su) \<longrightarrow> sim_ok (su_world su') \<and>
        (\<forall>e. get T_NetId (su_world su') e = get T_NetId (su_world su) e \<and> get T_OwnerId (su_world su') e = get T_OwnerId (su_world su) e))"

named_theorems steady_intros \<open>operations that only write components\<close>

lemma steady_refl [steady_intros]: "steady su su"
  by (simp add: steady_def)

lemma steady_trans: "steady su su' \<Longrightarrow> steady su' su'' \<Longrightarrow> steady su su''"
  by (simp add: steady_def)

lemma steady_same: "su_world su' = su_world su \<Longrightarrow> su_netIdToEntity su' = su_netIdToEntity su \<Longrightarrow> steady su su'"
  by (simp add: steady_def)

definition free_slot :: "'x CompType \<Rightarrow> bool" where
  "free_slot T \<longleftrightarrow> ct_ok T \<and> ct_slot T \<notin> {4, 10}"

lemma free_slots [simp]:
  "free_slot T_Transform" "free_slot T_Velocity" "free_slot T_Health" "free_slot T_NavState" "free_slot T_ResourceNodeTag"
  "free_slot T_Cargo" "free_slot T_Storage" "free_slot T_BuildQueue" "free_slot T_HarvestOrder" "free_slot T_FleetOrder"
  "free_slot T_NpcAi" "free_slot T_DefenseLayers" "free_slot T_Fitting" "free_slot T_EwarStatus" "free_slot T_Projectile"
  "free_slot T_BaseCombat" "free_slot T_Fuel"
  by (simp_all add: free_slot_def ct_simps)

lemma get_put_free:
  assumes "sim_ok w" "free_slot T"
  shows "sim_ok (put T v e w)" "get T_NetId (put T v e w) e' = get T_NetId w e'" "get T_OwnerId (put T v e w) e' = get T_OwnerId w e'"
  using assms put_frame(1) [OF assms(1), of T] get_put_other [OF assms(1), of T T_NetId] get_put_other [OF assms(1), of T T_OwnerId]
  by (simp_all add: free_slot_def ct_simps)

definition writes :: "(world \<Rightarrow> world) \<Rightarrow> bool" where
  "writes f \<longleftrightarrow> (\<forall>w. m_records (f w) = m_records w \<and> (sim_ok w \<longrightarrow> sim_ok (f w) \<and>
     (\<forall>e. get T_NetId (f w) e = get T_NetId w e \<and> get T_OwnerId (f w) e = get T_OwnerId w e)))"

lemma writes_put [intro]: "free_slot T \<Longrightarrow> writes (put T v e)"
  by (simp add: writes_def put_records get_put_free)

lemma writes_comp [intro]: "free_slot T \<Longrightarrow> writes f \<Longrightarrow> writes (\<lambda>w. put T v e (f w))"
  by (simp add: writes_def put_records get_put_free)

lemma steady_writes: "writes f \<Longrightarrow> steady su (on_world f su)"
  by (simp add: steady_def writes_def on_world_def)

lemma steady_put [steady_intros]: "free_slot T \<Longrightarrow> steady su (on_world (put T v e) su)"
  by (rule steady_writes) auto

lemma steady_put2 [steady_intros]: "free_slot T \<Longrightarrow> free_slot T' \<Longrightarrow> steady su (on_world (\<lambda>w. put T v e (put T' v' e' w)) su)"
  by (rule steady_writes) auto

lemma steady_put3 [steady_intros]:
  "free_slot T \<Longrightarrow> free_slot T' \<Longrightarrow> free_slot T'' \<Longrightarrow> steady su (on_world (\<lambda>w. put T v e (put T' v' e' (put T'' v'' e'' w))) su)"
  by (rule steady_writes) (intro writes_comp writes_put)

lemma steady_set [steady_intros]: "free_slot T \<Longrightarrow> steady su (set_comp T v n su)"
  by (simp add: set_comp_def steady_put)

lemma steady_bind: "(\<And>x. m = Some x \<Longrightarrow> steady su (or_skip su (f x))) \<Longrightarrow> steady su (or_skip su (Option.bind m f))"
  by (cases m) (simp_all add: or_skip_def steady_refl)

lemma steady_some: "steady su s' \<Longrightarrow> steady su (or_skip su (Some s'))"
  by (simp add: or_skip_def)

lemma steady_for_each:
  assumes "\<And>e s. steady s (fn e s)"
  shows "steady su (for_each su_world cids fn su)"
  by (rule for_each_inv [where P = "steady su"]) (auto intro: steady_refl steady_trans assms)

lemma steady_if: "(b \<Longrightarrow> steady su x) \<Longrightarrow> (\<not> b \<Longrightarrow> steady su y) \<Longrightarrow> steady su (if b then x else y)"
  by simp

section \<open>The systems that only write\<close>

lemma steady_AiSystem: "steady su (AiSystem su)"
  unfolding AiSystem_def
  by (rule steady_for_each) (unfold ai_body_def Let_def, intro steady_bind steady_some steady_put2 free_slots)

lemma steady_rep: "steady su (snd (rep_module dt ally mi su))"
  by (simp add: rep_module_def Let_def steady_intros split: option.split)

lemma steady_interdict: "steady su (Interdict n su)"
  by (simp add: Interdict_def steady_intros split: option.split)

lemma steady_effect: "steady su (ewar_effect m tgt te su)"
  by (auto simp: ewar_effect_def Let_def intro: steady_intros steady_trans [OF steady_set steady_interdict])

lemma steady_module: "steady su (snd (ewar_module dt att ow sid pos mi su))"
  by (simp add: ewar_module_def Let_def steady_intros steady_rep steady_effect split: option.split)

lemma steady_modules: "steady su (snd (ewar_modules dt att ow sid pos mis su))"
proof (induction mis arbitrary: su)
  case (Cons mi mis)
  obtain mi' s1 where a: "ewar_module dt att ow sid pos mi su = (mi', s1)" by fastforce
  obtain mis' s2 where b: "ewar_modules dt att ow sid pos mis s1 = (mis', s2)" by fastforce
  have "steady su s1" "steady s1 s2" using steady_module [of su dt att ow sid pos mi] Cons.IH [of s1] a b by simp_all
  then show ?case using a b by (simp add: steady_trans)
qed (simp add: steady_refl)

lemma steady_then: "steady su (snd r) \<Longrightarrow> (\<And>a s. steady s (f a s)) \<Longrightarrow> steady su (case r of (a, s) \<Rightarrow> f a s)"
  by (cases r) (auto intro: steady_trans)

lemma steady_ewar_body: "steady su (ewar_body dt e su)"
  unfolding ewar_body_def
  by (intro steady_bind steady_some steady_if steady_refl steady_then steady_modules steady_put free_slots)

lemma steady_EwarLogiSystem: "steady su (EwarLogiSystem dt su)"
  unfolding EwarLogiSystem_def by (rule steady_for_each) (rule steady_ewar_body)

lemma steady_option: "(m = None \<Longrightarrow> steady su x) \<Longrightarrow> (\<And>a. m = Some a \<Longrightarrow> steady su (f a)) \<Longrightarrow> steady su (case m of None \<Rightarrow> x | Some a \<Rightarrow> f a)"
  by (cases m) auto

lemma steady_FleetOrderSystem: "steady su (FleetOrderSystem dt su)"
proof -
  have w: "writes (\<lambda>w. let w = put T_Transform tr e w in if b then put T_FleetOrder fo e w else w)" for tr e b fo
    by (cases b) (simp_all add: Let_def writes_put writes_comp)
  have h: "steady su (case r of (b, tr) \<Rightarrow> on_world (\<lambda>w. let w = put T_Transform tr e w in if b then put T_FleetOrder fo e w else w) su)" for r e fo su
    by (cases r) (simp only: prod.case, rule steady_writes, rule w)
  show ?thesis
    unfolding FleetOrderSystem_def order_body_def Let_def [of "fo_current _"] Let_def [of "dmul _ _"] Let_def [of "if _ then AttackStandoff _ _ else _"]
    by (rule steady_for_each) (intro steady_bind steady_some steady_if steady_refl steady_option h steady_put free_slots)
qed

lemma steady_tick_weapons: "steady su (TickWeaponCooldowns e dt su)"
  unfolding TickWeaponCooldowns_def by (intro steady_option steady_refl steady_put free_slots)

lemma steady_fire: "steady (fst s) (fst (FireWeapons self n p t dt s))"
proof -
  obtain su projs kills where s: "s = (su, projs, kills)" by (cases s)
  have f: "steady su (fst (case r of (mis, td, x) \<Rightarrow>
      (on_world (\<lambda>w. put T_Fitting (fit\<lparr>ft_modules := mis\<rparr>) self (put T_DefenseLayers td te w)) su, x)))" for r te fit
    by (cases r) (auto intro: steady_put2)
  show ?thesis
    unfolding s FireWeapons_def
    by (auto simp: Let_def steady_refl steady_tick_weapons f split: option.split)
qed

lemma steady_fire_eq: "FireWeapons self n p t dt (su, pr, k) = (su', r) \<Longrightarrow> steady su su'"
  using steady_fire [of "(su, pr, k)" self n p t dt] by simp

lemma fire_all_steady: "steady su (fst (fire_all dt su))"
proof -
  have u: "steady (fst s) (fst (unit_fire_body dt e s))" for e s
    by (cases s) (auto simp: unit_fire_body_def or_skip_def Let_def steady_refl steady_tick_weapons bind_eq_Some_conv
        split: option.split intro: steady_fire_eq)
  have b: "steady (fst s) (fst (base_fire_body dt e s))" for e s
    by (cases s) (auto simp: base_fire_body_def or_skip_def Let_def steady_refl steady_tick_weapons bind_eq_Some_conv
        split: option.split intro: steady_fire_eq)
  have "steady su (fst (for_each (\<lambda>s. su_world (fst s)) cids (unit_fire_body dt) (su, [], [])))" for cids
    by (rule for_each_inv [where P = "\<lambda>s. steady su (fst s)"]) (auto intro: steady_refl steady_trans u)
  then show ?thesis
    unfolding fire_all_def Let_def
    by (rule for_each_inv [where P = "\<lambda>s. steady su (fst s)"]) (auto intro: steady_trans b)
qed

lemma steady_RegenSystem: "steady su (RegenSystem dt su)"
  unfolding RegenSystem_def regen_body_def ewar_tick_body_def
  by (intro steady_trans [OF steady_for_each steady_for_each] steady_bind steady_some steady_put free_slots)

lemma steady_BaseRetreatSystem: "steady su (BaseRetreatSystem su)"
proof -
  have l: "steady s (case lose_cargo n bc st s of (bc, st, s) \<Rightarrow> (on_world (f bc st) s)\<lparr>su_lowHullAlerts := al s\<rparr>)"
    if "\<And>bc st. writes (f bc st)" for n bc st s f al
    using that by (auto simp: lose_cargo_def Let_def steady_def writes_def on_world_def)
  have w: "writes (\<lambda>w. put T_Storage st e (put T_DefenseLayers d e (put T_BaseCombat bc e w)))" for st d bc e
    by (intro writes_comp writes_put) simp_all
  show ?thesis
    unfolding BaseRetreatSystem_def retreat_body_def Let_def
    by (rule steady_for_each) (intro steady_bind steady_some steady_if steady_refl l w steady_put free_slots)
qed

lemma steady_MovementSystem: "steady su (MovementSystem dt su)"
  unfolding MovementSystem_def move_body_def
  by (rule steady_for_each) (intro steady_bind steady_some steady_put free_slots)

lemma steady_NavigationSystem: "steady su (NavigationSystem dt su)"
  unfolding NavigationSystem_def nav_body_def
  by (rule steady_for_each, intro steady_bind steady_some) (auto split: prod.split intro: steady_put2)

lemma steady_HarvestSystem: "steady su (HarvestSystem dt su)"
proof -
  have "steady su (harvest_body dt e su)" for e su
  proof (cases "get T_HarvestOrder (su_world su) e = None \<or> get T_Transform (su_world su) e = None \<or> get T_Cargo (su_world su) e = None")
    case True
    then show ?thesis by (auto simp: harvest_body_def or_skip_def steady_refl Let_def split: option.split bind_splits)
  next
    case False
    then obtain ord tr cargo where g: "get T_HarvestOrder (su_world su) e = Some ord" "get T_Transform (su_world su) e = Some tr"
      "get T_Cargo (su_world su) e = Some cargo" by auto
    have go: "steady s (on_world (put T_HarvestOrder (ord\<lparr>hv_phase := ph\<rparr>) e) s)" for s ph by (intro steady_put free_slots)
    have st: "steady s (on_world (put T_Transform x e) s)" for s x by (intro steady_put free_slots)
    have hv: "steady su (on_world (put T_Cargo c e) (set_comp T_ResourceNodeTag n (hv_nodeNetId ord) su))" for c n
      by (intro steady_trans [OF steady_set steady_put] free_slots)
    have dp: "steady su (set_comp T_Storage x (hv_baseNetId ord) (on_world (put T_Cargo c e) su))" for c x
      by (intro steady_trans [OF steady_put steady_set] free_slots)
    show ?thesis
      using steady_trans [OF hv go] steady_trans [OF dp go]
      by (cases "hv_phase ord")
        (auto simp: harvest_body_def or_skip_def g Let_def go st hv steady_refl split: option.split prod.split)
  qed
  then show ?thesis unfolding HarvestSystem_def by (rule steady_for_each)
qed

lemma steady_SyncHealthMirror: "steady su (SyncHealthMirror su)"
  unfolding SyncHealthMirror_def mirror_body_def
  by (rule steady_for_each) (intro steady_bind steady_some steady_put free_slots)

lemma steady_StampReplication: "steady su (StampReplication su)"
  unfolding StampReplication_def stamp_body_def
  by (rule steady_for_each) (intro steady_bind steady_some steady_same, simp_all)

lemma steady_UpdateInterest: "steady su (UpdateInterest players su)"
proof -
  have r: "steady su (for_each su_world cids residency_body su)" for cids
    unfolding residency_body_def by (rule steady_for_each) (intro steady_bind steady_some steady_same, simp_all)
  show ?thesis
    unfolding UpdateInterest_def Let_def by (rule steady_trans [OF r steady_same]) simp_all
qed

lemma builds_steady: "steady su (fst (for_each (\<lambda>s. su_world (fst s)) cids (build_body dt) (su, [])))"
proof -
  have "steady (fst s) (fst (build_body dt e s))" for e s
  proof -
    obtain su d where s: "s = (su, d)" by (cases s)
    have b: "steady su a" if "(case r of (r, q, st) \<Rightarrow> (on_world (\<lambda>w. put T_Storage st e (put T_BuildQueue q e w)) su,
        if r = BuildCompleted then x else d)) = (a, y)" for r x y a
      using that by (cases r) (auto intro: steady_put2)
    show ?thesis by (auto simp: s build_body_def or_skip_def steady_refl bind_eq_Some_conv split: option.split dest: b)
  qed
  then show ?thesis
    by (intro for_each_inv [where P = "\<lambda>s. steady su (fst s)"]) (auto intro: steady_refl steady_trans)
qed

text \<open>The ids of expired projectiles are ids of projectiles.\<close>

definition is_projectile_id :: "server \<Rightarrow> u32 \<Rightarrow> bool" where
  "is_projectile_id su n \<longleftrightarrow> (\<exists>p. has T_Projectile (su_world su) p \<and> get T_NetId (su_world su) p = Some n)"

lemma steady_projectile_id: "steady su su' \<Longrightarrow> sim_ok (su_world su) \<Longrightarrow> is_projectile_id su' n = is_projectile_id su n"
  using has_records [of "su_world su'" "su_world su" T_Projectile] by (simp add: steady_def is_projectile_id_def)

lemma projectile_body_steady:
  assumes "projectile_body dt e (su, ex, ks) = (su', ex', ks')"
  shows "steady su su'" "sim_ok (su_world su) \<Longrightarrow> set ex' \<subseteq> set ex \<union> Collect (is_projectile_id su)"
proof -
  have "steady su su' \<and> (sim_ok (su_world su) \<longrightarrow> set ex' \<subseteq> set ex \<union> Collect (is_projectile_id su))"
  proof (cases "get T_Projectile (su_world su) e = None \<or> get T_Transform (su_world su) e = None \<or> get T_NetId (su_world su) e = None")
    case True
    then show ?thesis using assms by (auto simp: projectile_body_def or_skip_def steady_refl Let_def split: option.splits bind_splits)
  next
    case False
    then obtain pr tr n where g: "get T_Projectile (su_world su) e = Some pr" "get T_Transform (su_world su) e = Some tr"
      "get T_NetId (su_world su) e = Some n" by auto
    have id: "is_projectile_id su n" if "sim_ok (su_world su)"
      using that g has_get [of "su_world su" T_Projectile e] by (auto simp: is_projectile_id_def ct_simps)
    have lost: "steady su (fst (projectile_lost dt e pr tr n (su, ex, ks))) \<and>
        set (fst (snd (projectile_lost dt e pr tr n (su, ex, ks)))) \<subseteq> set ex \<union> {n}"
      by (auto simp: projectile_lost_def Let_def intro: steady_put2)
    have w: "steady su (on_world (\<lambda>w. put T_Projectile a e (put T_Transform b e w)) su)"
      "steady su (on_world (\<lambda>w. put T_DefenseLayers c te (put T_Projectile a e (put T_Transform b e w))) su)" for a b c te
      by (intro steady_put2 steady_put3 free_slots)+
    have "steady su su' \<and> set ex' \<subseteq> set ex \<union> {n}"
      using assms lost w
      by (auto simp: projectile_body_def or_skip_def g Let_def split: option.splits prod.splits if_splits)
    with id show ?thesis by auto
  qed
  then show "steady su su'" "sim_ok (su_world su) \<Longrightarrow> set ex' \<subseteq> set ex \<union> Collect (is_projectile_id su)" by blast+
qed

section \<open>What keeps the bases\<close>

text \<open>The invariant: no id of a projectile leads to a base.\<close>

definition base_inv :: "server \<Rightarrow> bool" where
  "base_inv su \<longleftrightarrow> sim_ok (su_world su) \<and> (\<forall>n. is_projectile_id su n \<longrightarrow> \<not> IsBase su n)"

definition base_kept :: "server \<Rightarrow> server \<Rightarrow> bool" where
  "base_kept su su' \<longleftrightarrow> (base_inv su \<longrightarrow> base_inv su' \<and> (\<forall>n. IsBase su' n \<longrightarrow> IsBase su n) \<and>
     (\<forall>e. has T_BaseTag (su_world su) e \<longrightarrow> has T_BaseTag (su_world su') e \<and>
        get T_NetId (su_world su') e = get T_NetId (su_world su) e \<and> get T_OwnerId (su_world su') e = get T_OwnerId (su_world su) e))"

lemma base_kept_refl: "base_kept su su"
  by (simp add: base_kept_def)

lemma base_kept_trans: "base_kept su su' \<Longrightarrow> base_kept su' su'' \<Longrightarrow> base_kept su su''"
  by (auto simp: base_kept_def)

lemma steady_kept: "steady su su' \<Longrightarrow> base_kept su su'"
proof -
  assume s: "steady su su'"
  have h: "has T_BaseTag (su_world su') e = has T_BaseTag (su_world su) e" for e
    using s has_records [of "su_world su'" "su_world su" T_BaseTag e] by (simp add: steady_def)
  have "IsBase su' n = IsBase su n" for n using s h by (simp add: IsBase_def EntityOf_def steady_def)
  then show ?thesis
    using s h steady_projectile_id [OF s] by (auto simp: base_kept_def base_inv_def steady_def)
qed

lemma kept_all: "(\<And>x s s'. f x s = Some s' \<Longrightarrow> base_kept s s') \<Longrightarrow> all_in_order f xs su = Some su' \<Longrightarrow> base_kept su su'"
proof (induction xs arbitrary: su)
  case (Cons x xs)
  then obtain s where s: "f x su = Some s" "all_in_order f xs s = Some su'" by (auto simp: bind_eq_Some_conv)
  show ?case using Cons.prems(1) [OF s(1)] Cons.IH [OF Cons.prems(1) s(2)] by (rule base_kept_trans)
qed (simp add: base_kept_refl)

section \<open>Creation\<close>

text \<open>Completing a new entity touches only that entity, and only the slots of its fit.\<close>

definition identity_slots :: "nat set" where "identity_slots = - {5, 19, 21, 22, 23, 24, 28}"

definition completes :: "EntityHandle \<Rightarrow> world \<Rightarrow> world \<Rightarrow> bool" where
  "completes e w w' \<longleftrightarrow> (sim_ok w \<longrightarrow> sim_ok w' \<and> (\<forall>e'. IsAlive w' e' = IsAlive w e') \<and>
     (\<forall>e' k. k < 64 \<longrightarrow> e' \<noteq> e \<or> k \<in> identity_slots \<longrightarrow> GetComponent w' k e' = GetComponent w k e'))"

lemma completes_refl: "completes e w w"
  by (simp add: completes_def)

lemma completes_trans: "completes e w w' \<Longrightarrow> completes e w' w'' \<Longrightarrow> completes e w w''"
  by (simp add: completes_def)

lemma completes_add: "add T v e w = Some w' \<Longrightarrow> ct_ok T \<Longrightarrow> ct_slot T \<notin> identity_slots \<Longrightarrow> completes e w w'"
proof -
  assume a: "add T v e w = Some w'" "ct_ok T" "ct_slot T \<notin> identity_slots"
  { assume s: "sim_ok w"
    note F = add_frame [OF s a(1) [unfolded add_def] ct_okD(2,4) [OF a(2)]]
    from F(1,2,3) a(3) have "sim_ok w' \<and> (\<forall>e'. IsAlive w' e' = IsAlive w e') \<and>
      (\<forall>e' k. k < 64 \<longrightarrow> e' \<noteq> e \<or> k \<in> identity_slots \<longrightarrow> GetComponent w' k e' = GetComponent w k e')" by auto }
  then show ?thesis by (simp add: completes_def)
qed

lemma completes_put: "ct_ok T \<Longrightarrow> ct_slot T \<notin> identity_slots \<Longrightarrow> completes e w (put T v e w)"
  by (auto simp: completes_def put_frame(1,3))

lemma completes_AddOrSet: "AddOrSet T v e w = Some w' \<Longrightarrow> ct_ok T \<Longrightarrow> ct_slot T \<notin> identity_slots \<Longrightarrow> completes e w w'"
  by (auto simp: AddOrSet_def completes_put completes_add split: option.splits)

lemma completes_direct: "InstallFitDirect e h mods w = Some w' \<Longrightarrow> completes e w w'"
proof -
  assume "InstallFitDirect e h mods w = Some w'"
  then obtain w1 w2 w3 w4 w5 w6 a b c d f g where s: "AddOrSet T_DefenseLayers a e w = Some w1" "AddOrSet T_ResistProfile b e w1 = Some w2"
    "AddOrSet T_HullInfo c e w2 = Some w3"
    "(if \<not> has T_EwarStatus w3 e then add T_EwarStatus EwarStatus_new e w3 else Some w3) = Some w4"
    "AddOrSet T_Weapon d e w4 = Some w5" "AddOrSet T_Fitting f e w5 = Some w6" "AddOrSet T_Health g e w6 = Some w'"
    unfolding InstallFitDirect_def Let_def by (auto simp only: bind_eq_Some_conv)
  have "completes e w3 w4" using s(4) by (auto simp: completes_refl identity_slots_def ct_simps intro: completes_add split: if_splits)
  moreover have "completes e w w1" "completes e w1 w2" "completes e w2 w3" "completes e w4 w5" "completes e w5 w6" "completes e w6 w'"
    using s by (auto intro!: completes_AddOrSet simp: identity_slots_def ct_simps)
  ultimately show ?thesis by (blast intro: completes_trans)
qed

lemma completes_fit: "InstallFit cat e nm w = Some (ok, w') \<Longrightarrow> completes e w w'"
  by (auto simp: InstallFit_def completes_refl dest: completes_direct split: option.splits)

lemma completes_install_or: "install_or cat nm dflt e w = Some w' \<Longrightarrow> completes e w w'"
  by (auto simp: install_or_def bind_eq_Some_conv dest!: completes_fit split: if_splits intro: completes_trans)

text \<open>A spawned entity that is no base leaves all bases as they were.\<close>

lemma spawn_kept:
  assumes sp: "spawn comps fin su = Some (netId, su')"
    and cs: "\<And>n. (\<forall>c \<in> set (comps n). fst c < 64 \<and> slot_of (snd c) = fst c) \<and> map_of (comps n) 2 = None \<and> map_of (comps n) 4 = Some (C_NetId n)"
    and fin: "\<And>e w w'. fin e w = Some w' \<Longrightarrow> completes e w w'"
  shows "base_kept su su'"
proof -
  { assume ok: "base_inv su"
    then have s: "sim_ok (su_world su)" by (simp add: base_inv_def)
    from sp obtain e w1 w2 w3 where c: "CreateEntity (su_world su) = Some (e, w1)" "add_all (comps netId) e w1 = Some w2" "fin e w2 = Some w3"
      and su': "su' = su\<lparr>su_nextNetId := netId + 1, su_world := w3, su_netIdToEntity := (su_netIdToEntity su)(netId \<mapsto> e)\<rparr>"
      by (auto simp: spawn_def Let_def bind_eq_Some_conv)
    note C = create_frame_sim [OF s c(1)]
    note A = add_all_frame [OF C(1) c(2) cs [THEN conjunct1] C(4)]
    note F = fin [OF c(3), unfolded completes_def, rule_format]
    have s3: "sim_ok w3" using A F by blast
    have other: "GetComponent w3 k q = GetComponent (su_world su) k q" if "k < 64" "q \<noteq> e" for k q
      using that A F C(2) s by (auto simp: touches_def same_entity_def split: option.splits)
    have self: "GetComponent w3 2 e = None" "GetComponent w3 4 e = Some (C_NetId netId)"
      using A F cs [of netId] C(5) [of 2] by (auto simp: identity_slots_def)
    have g: "get T w3 q = get T (su_world su) q" if "ct_ok T" "q \<noteq> e" for q and T :: "'x CompType"
      using other [OF ct_okD(2) [OF that(1)] that(2)] by (simp add: get_def)
    have hh: "has T w3 q = has T (su_world su) q" if "ct_ok T" "q \<noteq> e" for q and T :: "'x CompType"
      using g [OF that] has_get [OF s3 that(1)] has_get [OF s that(1)] by simp
    have nb: "\<not> has T_BaseTag w3 e" using self(1) has_get [OF s3, of T_BaseTag e] by (simp add: get_def ct_simps)
    have ni: "get T_NetId w3 e = Some netId" using self(2) by (simp add: get_def ct_simps, simp add: T_NetId_def)
    have ib: "IsBase su n" if "IsBase su' n" for n
      using that nb hh [of T_BaseTag] by (cases "EntityOf su n = e") (auto simp: IsBase_def EntityOf_def su' ct_simps split: if_splits option.splits)
    have ie: "\<not> IsBase su' netId" using nb by (simp add: IsBase_def EntityOf_def su')
    have pi: "is_projectile_id su n \<or> n = netId" if "is_projectile_id su' n" for n
    proof -
      from that obtain p where p: "has T_Projectile w3 p" "get T_NetId w3 p = Some n" by (auto simp: is_projectile_id_def su')
      show ?thesis
      proof (cases "p = e")
        case True
        then show ?thesis using p ni by simp
      next
        case False
        then show ?thesis using p hh [OF _ False, of T_Projectile] g [OF _ False, of T_NetId] by (auto simp: is_projectile_id_def ct_simps)
      qed
    qed
    have "base_inv su'" using ok pi ib ie s3 by (auto simp: base_inv_def su')
    moreover have "has T_BaseTag (su_world su') q \<and> get T_NetId (su_world su') q = get T_NetId (su_world su) q \<and>
        get T_OwnerId (su_world su') q = get T_OwnerId (su_world su) q" if "has T_BaseTag (su_world su) q" for q
    proof -
      have "q \<noteq> e" using that C(3) by (auto simp: has_def HasComponent_def)
      then show ?thesis using that hh [of T_BaseTag q] g [of T_NetId q] g [of T_OwnerId q] by (simp add: su' ct_simps)
    qed
    ultimately have "base_inv su' \<and> (\<forall>n. IsBase su' n \<longrightarrow> IsBase su n) \<and>
     (\<forall>e. has T_BaseTag (su_world su) e \<longrightarrow> has T_BaseTag (su_world su') e \<and>
        get T_NetId (su_world su') e = get T_NetId (su_world su) e \<and> get T_OwnerId (su_world su') e = get T_OwnerId (su_world su) e)"
      using ib by blast }
  then show ?thesis by (simp add: base_kept_def)
qed

section \<open>Destruction\<close>

lemma DestroyUnit_view:
  assumes "sim_ok (su_world su)"
  shows "sim_ok (su_world (DestroyUnit n su))" "su_netIdToEntity (DestroyUnit n su) = (su_netIdToEntity su)(n := None)"
    "k < 64 \<Longrightarrow> GetComponent (su_world (DestroyUnit n su)) k q = (if q = EntityOf su n then None else GetComponent (su_world su) k q)"
proof -
  have f: "su_world (DestroyUnit n su) = (if IsAlive (su_world su) (EntityOf su n) then destroy (EntityOf su n) (su_world su) else su_world su)"
    "su_netIdToEntity (DestroyUnit n su) = (su_netIdToEntity su)(n := None)"
    by (auto simp: DestroyUnit_def Let_def split: option.splits)
  then show "su_netIdToEntity (DestroyUnit n su) = (su_netIdToEntity su)(n := None)" by simp
  show "sim_ok (su_world (DestroyUnit n su))" using f(1) assms destroy_frame(1) by simp
  show "k < 64 \<Longrightarrow> GetComponent (su_world (DestroyUnit n su)) k q = (if q = EntityOf su n then None else GetComponent (su_world su) k q)"
    using destroy_frame(3) [OF assms, of k "EntityOf su n" q] by (auto simp: f(1) GetComponent_eq)
qed

lemma DestroyUnit_kept:
  assumes nb: "\<not> IsBase su n"
  shows "base_kept su (DestroyUnit n su)"
proof -
  { assume ok: "base_inv su"
    then have s: "sim_ok (su_world su)" by (simp add: base_inv_def)
    let ?su = "DestroyUnit n su" and ?e = "EntityOf su n"
    note V = DestroyUnit_view [OF s, where n = n]
    have g: "get T (su_world ?su) q = (if q = ?e then None else get T (su_world su) q)" if "ct_ok T" for q and T :: "'x CompType"
      using V(3) [OF ct_okD(2) [OF that]] by (simp add: get_def)
    have hh: "has T (su_world ?su) q = (q \<noteq> ?e \<and> has T (su_world su) q)" if "ct_ok T" for q and T :: "'x CompType"
      using g [OF that] has_get [OF V(1) that] has_get [OF s that] by simp
    have z: "\<not> has T_BaseTag (su_world su) 0" by (simp add: has_def HasComponent_def IsAlive_def Index_def Let_def)
    have ib: "IsBase su m" if "IsBase ?su m" for m
      using that z hh [of T_BaseTag] by (auto simp: IsBase_def EntityOf_def V(2) ct_simps split: if_splits)
    have pi: "is_projectile_id su m" if "is_projectile_id ?su m" for m
      using that hh [of T_Projectile] g [of T_NetId] by (auto simp: is_projectile_id_def ct_simps split: if_splits)
    have "base_inv ?su" using ok V(1) ib pi by (auto simp: base_inv_def)
    moreover have "has T_BaseTag (su_world ?su) q \<and> get T_NetId (su_world ?su) q = get T_NetId (su_world su) q \<and>
        get T_OwnerId (su_world ?su) q = get T_OwnerId (su_world su) q" if b: "has T_BaseTag (su_world su) q" for q
    proof -
      have "q \<noteq> ?e" using b nb by (auto simp: IsBase_def)
      then show ?thesis using b hh [of T_BaseTag q] g [of T_NetId q] g [of T_OwnerId q] by (simp add: ct_simps)
    qed
    ultimately have "base_inv ?su \<and> (\<forall>n. IsBase ?su n \<longrightarrow> IsBase su n) \<and>
     (\<forall>e. has T_BaseTag (su_world su) e \<longrightarrow> has T_BaseTag (su_world ?su) e \<and>
        get T_NetId (su_world ?su) e = get T_NetId (su_world su) e \<and> get T_OwnerId (su_world ?su) e = get T_OwnerId (su_world su) e)"
      using ib by blast }
  then show ?thesis by (simp add: base_kept_def)
qed

lemma base_keptD: "base_kept su su' \<Longrightarrow> base_inv su \<Longrightarrow> IsBase su' n \<Longrightarrow> IsBase su n"
  by (simp add: base_kept_def)

lemma base_kept_inv: "base_kept su su' \<Longrightarrow> base_inv su \<Longrightarrow> base_inv su'"
  by (simp add: base_kept_def)

lemma base_kept_when: "(base_inv su \<Longrightarrow> base_kept su su') \<Longrightarrow> base_kept su su'"
  by (auto simp: base_kept_def)

lemma DestroyUnits_kept: "\<forall>n \<in> set xs. \<not> IsBase su n \<Longrightarrow> base_kept su (fold DestroyUnit xs su)"
proof (induction xs arbitrary: su)
  case (Cons n xs)
  show ?case
  proof (rule base_kept_when)
    assume ok: "base_inv su"
    have k: "base_kept su (DestroyUnit n su)" using Cons.prems by (intro DestroyUnit_kept) simp
    then have "\<forall>m \<in> set xs. \<not> IsBase (DestroyUnit n su) m" using Cons.prems base_keptD [OF k ok] by auto
    then show "base_kept su (fold DestroyUnit (n # xs) su)" using k Cons.IH base_kept_trans by simp
  qed
qed (simp add: base_kept_refl)

lemma SpawnLoot_kept: "SpawnLoot v su = Some su' \<Longrightarrow> base_kept su su'"
  by (auto simp: SpawnLoot_def Let_def base_kept_refl bind_eq_Some_conv split: option.splits
      intro!: base_kept_trans [OF spawn_kept steady_kept [OF steady_same]] completes_refl)
   (auto simp: init_def comp_types slot_of_def)

lemma OnUnitKilled_kept: "OnUnitKilled v k su = Some su' \<Longrightarrow> base_kept su su'"
proof -
  assume a: "OnUnitKilled v k su = Some su'"
  show ?thesis
  proof (rule base_kept_when)
    assume ok: "base_inv su"
    show "base_kept su su'"
    proof (cases "IsBase su v")
      case True
      then show ?thesis using a by (simp add: OnUnitKilled_def Let_def IsBase_def base_kept_refl)
    next
      case False
      have "\<exists>s1 b. map_option (DestroyUnit v) (if b then SpawnLoot v s1 else Some s1) = Some su' \<and> steady su s1"
        using a unfolding OnUnitKilled_def Let_def if_not_P [OF False [unfolded IsBase_def]]
        by - (rule exI, rule exI, erule conjI, rule steady_same, simp_all)
      then obtain s1 b su2 where s: "su' = DestroyUnit v su2" "(if b then SpawnLoot v s1 else Some s1) = Some su2" "steady su s1" by auto
      have "base_kept s1 su2" using s(2) by (cases b) (auto simp: base_kept_refl SpawnLoot_kept)
      with steady_kept [OF s(3)] have "base_kept su su2" by (rule base_kept_trans)
      moreover from this have "\<not> IsBase su2 v" using False base_keptD [OF _ ok] by blast
      ultimately show ?thesis unfolding s(1) by (blast intro: base_kept_trans DestroyUnit_kept)
    qed
  qed
qed

lemma ProcessKills_kept: "ProcessKills ks su = Some su' \<Longrightarrow> base_kept su su'"
  unfolding ProcessKills_def
  by (rule kept_all [rotated]) (auto simp: process_kill_def Let_def base_kept_refl OnUnitKilled_kept split: if_splits option.splits)

lemma projectiles_kept: "all_in_order SpawnProjectileEntity ps su = Some su' \<Longrightarrow> base_kept su su'"
  by (rule kept_all [rotated], assumption)
   (auto simp: SpawnProjectileEntity_def init_def comp_types slot_of_def intro!: spawn_kept completes_refl)

lemma CombatSystem_kept: "CombatSystem dt su = Some su' \<Longrightarrow> base_kept su su'"
proof -
  assume a: "CombatSystem dt su = Some su'"
  obtain s1 ps ks where f: "fire_all dt su = (s1, ps, ks)" by (metis prod_cases3)
  with a obtain s2 where p: "all_in_order SpawnProjectileEntity ps s1 = Some s2" "ProcessKills ks s2 = Some su'"
    by (auto simp: CombatSystem_def bind_eq_Some_conv)
  have "base_kept su s1" using fire_all_steady [of su dt] f by (simp add: steady_kept)
  from base_kept_trans [OF base_kept_trans [OF this projectiles_kept [OF p(1)]] ProcessKills_kept [OF p(2)]] show ?thesis .
qed

lemma ProjectileSystem_kept: "ProjectileSystem dt su = Some su' \<Longrightarrow> base_kept su su'"
proof (rule base_kept_when)
  assume a: "ProjectileSystem dt su = Some su'" and ok: "base_inv su"
  then have s: "sim_ok (su_world su)" by (simp add: base_inv_def)
  obtain su1 ex ks where f: "for_each (\<lambda>s. su_world (fst s)) [ct_slot T_Projectile, ct_slot T_Transform, ct_slot T_NetId]
      (projectile_body dt) (su, [], []) = (su1, ex, ks)" by (metis prod_cases3)
  let ?P = "\<lambda>s. case s of (x, ex, ks) \<Rightarrow> steady su x \<and> set ex \<subseteq> Collect (is_projectile_id su)"
  have "?P (projectile_body dt e s')" if p: "?P s'" for e s'
  proof -
    obtain x ex ks where s': "s' = (x, ex, ks)" by (metis prod_cases3)
    obtain x' ex' ks' where b: "projectile_body dt e (x, ex, ks) = (x', ex', ks')" by (metis prod_cases3)
    from p s' have "steady su x" "set ex \<subseteq> Collect (is_projectile_id su)" by simp_all
    moreover from this have "sim_ok (su_world x)" "\<And>n. is_projectile_id x n = is_projectile_id su n"
      using s steady_projectile_id by (auto simp: steady_def)
    ultimately show ?thesis using projectile_body_steady [OF b] by (auto simp: s' b intro: steady_trans)
  qed
  then have "?P (su1, ex, ks)" unfolding f [symmetric] by (intro for_each_inv [where P = ?P]) (simp_all add: steady_refl)
  then have k: "base_kept su su1" and ex: "set ex \<subseteq> Collect (is_projectile_id su)" by (simp_all add: steady_kept)
  have "\<forall>n \<in> set ex. \<not> IsBase su1 n" using ex ok base_keptD [OF k ok] by (auto simp: base_inv_def)
  from DestroyUnits_kept [OF this] have "base_kept su (fold DestroyUnit ex su1)" using k by (blast intro: base_kept_trans)
  moreover have "base_kept (fold DestroyUnit ex su1) su'" using a by (simp add: ProjectileSystem_def f ProcessKills_kept)
  ultimately show "base_kept su su'" by (rule base_kept_trans)
qed

lemma combat_systems_kept: "combat_systems dt su = Some su' \<Longrightarrow> base_kept su su'"
proof (cases "su_combatEnabled su")
  case False
  assume "combat_systems dt su = Some su'"
  with False show ?thesis by (auto simp: combat_systems_def intro: steady_kept steady_FleetOrderSystem)
next
  case True
  assume "combat_systems dt su = Some su'"
  with True obtain s1 s2 where c: "CombatSystem dt (FleetOrderSystem dt (EwarLogiSystem dt su)) = Some s1" "ProjectileSystem dt s1 = Some s2"
    "su' = BaseRetreatSystem (RegenSystem dt s2)" by (auto simp: combat_systems_def bind_eq_Some_conv)
  have "base_kept su (FleetOrderSystem dt (EwarLogiSystem dt su))"
    by (rule steady_kept [OF steady_trans [OF steady_EwarLogiSystem steady_FleetOrderSystem]])
  moreover have "base_kept s2 su'" unfolding c(3) by (rule steady_kept [OF steady_trans [OF steady_RegenSystem steady_BaseRetreatSystem]])
  ultimately show ?thesis using CombatSystem_kept [OF c(1)] ProjectileSystem_kept [OF c(2)] by (blast intro: base_kept_trans)
qed

lemma finish_build_kept: "finish_build d su = Some su' \<Longrightarrow> base_kept su su'"
proof -
  assume "finish_build d su = Some su'"
  then obtain n su1 where s: "SpawnFleetShip (fst d) ShipShapeId (snd d) su = Some (n, su1)"
    "su' = (if n \<noteq> 0 then su1\<lparr>su_buildCompleted := su_buildCompleted su1 @ [n]\<rparr> else su1)"
    by (auto simp: finish_build_def bind_eq_Some_conv)
  have "base_kept su su1"
    using s(1) unfolding SpawnFleetShip_def SpawnFleetShipFit_def
    by (auto simp: base_kept_refl ship_comps_def init_def comp_types slot_of_def split: if_splits intro!: spawn_kept completes_install_or)
  moreover have "base_kept su1 su'" unfolding s(2) by (rule steady_kept [OF steady_same]) simp_all
  ultimately show ?thesis by (rule base_kept_trans)
qed

lemma BuildSystem_kept: "BuildSystem dt su = Some su' \<Longrightarrow> base_kept su su'"
proof -
  assume a: "BuildSystem dt su = Some su'"
  let ?cids = "[ct_slot T_BuildQueue, ct_slot T_Storage, ct_slot T_OwnerId, ct_slot T_Transform]"
  obtain s1 ds where f: "for_each (\<lambda>s. su_world (fst s)) ?cids (build_body dt) (su, []) = (s1, ds)" by fastforce
  with a have "all_in_order finish_build ds s1 = Some su'" by (simp add: BuildSystem_def)
  then have "base_kept s1 su'" by (rule kept_all [rotated]) (rule finish_build_kept)
  moreover have "base_kept su s1" using builds_steady [of su ?cids dt] f by (simp add: steady_kept)
  ultimately show ?thesis by (rule base_kept_trans [rotated])
qed

lemma Step_kept:
  assumes "Step players dt su = Some su'"
  shows "base_kept su su'"
proof -
  from assms obtain s1 s2 where c: "combat_systems dt (AiSystem su) = Some s1"
    "BuildSystem dt (HarvestSystem dt (NavigationSystem dt (MovementSystem dt s1))) = Some s2"
    "su' = UpdateInterest players (StampReplication ((SyncHealthMirror s2)\<lparr>su_simTime := dadd (su_simTime (SyncHealthMirror s2)) dt,
        su_tick := su_tick (SyncHealthMirror s2) + 1\<rparr>))"
    by (auto simp: Step_def bind_eq_Some_conv Let_def)
  have "base_kept s1 (HarvestSystem dt (NavigationSystem dt (MovementSystem dt s1)))"
    by (rule steady_kept [OF steady_trans [OF steady_trans [OF steady_MovementSystem steady_NavigationSystem] steady_HarvestSystem]])
  moreover have "base_kept s2 su'"
    unfolding c(3) by (rule steady_kept [OF steady_trans [OF steady_trans [OF steady_trans [OF steady_SyncHealthMirror steady_same]
      steady_StampReplication] steady_UpdateInterest]]) simp_all
  ultimately show ?thesis
    using steady_kept [OF steady_AiSystem] combat_systems_kept [OF c(1)] BuildSystem_kept [OF c(2)] by (blast intro: base_kept_trans)
qed

section \<open>The theorem\<close>

text \<open>C5: A step of the server destroys no base.  If no projectile carries the network id of a base before the
  step, then after it every base is alive with its network id and its owner, and still no
  projectile carries the id of a base, so this holds for any number of steps.\<close>

theorem bases_survive:
  assumes "Step players dt su = Some su'" "base_inv su" "has T_BaseTag (su_world su) e"
  shows "has T_BaseTag (su_world su') e \<and> get T_NetId (su_world su') e = get T_NetId (su_world su) e \<and>
    get T_OwnerId (su_world su') e = get T_OwnerId (su_world su) e \<and> base_inv su'"
  using Step_kept [OF assms(1)] assms(2,3) by (simp_all add: base_kept_def)

text \<open>A server with one base, and the end of a step on it.\<close>

definition one_base :: "world option" where
  "one_base = do {
     (e, w) \<leftarrow> CreateEntity registered_world;
     add_all [init T_BaseTag (), init T_NetId 1, init T_OwnerId 1] e w
   }"

definition base_server :: server where
  "base_server = ServerUniverse_new\<lparr>su_world := the one_base, su_netIdToEntity := [1 \<mapsto> 1], su_nextNetId := 2\<rparr>"

lemma one_base_eval:
  "map_option (\<lambda>w. (length (m_records w), has T_BaseTag w 1, get T_OwnerId w 1, has T_Projectile w 1)) one_base = Some (2, True, Some 1, False)"
  by code_simp

lemma base_server_step: "Step [] 1 base_server \<noteq> None"
  by code_simp

lemma base_server_inv: "base_inv base_server"
proof -
  obtain w where w: "one_base = Some w" using one_base_eval by (cases one_base) auto
  then obtain e w1 where c: "CreateEntity registered_world = Some (e, w1)" "add_all [init T_BaseTag (), init T_NetId 1, init T_OwnerId 1] e w1 = Some w"
    by (auto simp: one_base_def bind_eq_Some_conv)
  have h: "\<forall>c \<in> set [init T_BaseTag (), init T_NetId 1, init T_OwnerId 1]. fst c < 64 \<and> slot_of (snd c) = fst c"
    by (simp add: init_def ct_slots slot_of_def comp_types)
  note C = create_frame_sim [OF registered_ok c(1)]
  note A = add_all_frame [OF C(1) c(2) h C(4)]
  have r: "GetComponent registered_world 25 p = None" for p
    by (simp add: GetComponent_eq comp_at_def registered_world_def World_new_def MAX_COMPONENT_TYPES_def Storage_Get_def Storage_new_def)
  have "GetComponent w 25 p = None" for p
    using A r C(2,5) registered_ok by (cases "p = e") (auto simp: init_def comp_types touches_def same_entity_def)
  then have "\<not> has T_Projectile w p" for p using A has_get [of w T_Projectile p] by (simp add: get_def ct_simps)
  then show ?thesis using A
    by (simp add: base_inv_def is_projectile_id_def base_server_def w [THEN arg_cong, of the, simplified option.sel])
qed

theorem bases_survive_witness:
  "\<exists>su'. Step [] 1 base_server = Some su' \<and> has T_BaseTag (su_world su') 1 \<and> get T_OwnerId (su_world su') 1 = Some 1"
proof -
  obtain su' where s: "Step [] 1 base_server = Some su'" using base_server_step by auto
  obtain w where w: "one_base = Some w" using one_base_eval by (cases one_base) auto
  then have e: "su_world base_server = w" by (simp add: base_server_def w [THEN arg_cong, of the, simplified option.sel])
  have g: "has T_BaseTag w 1" "get T_OwnerId w 1 = Some 1" using one_base_eval unfolding w by simp_all
  show ?thesis using s bases_survive [OF s base_server_inv, of 1] g e by simp
qed

end
