(* ===== verification/Server_Snapshots.thy ===== *)
theory Server_Snapshots
  imports Server_Systems
begin

text \<open>
  What the server shows to its clients (\<open>NeuronCore/ServerUniverse.h\<close>): fog of war and scanning, the
  full snapshots, the budgeted delta snapshot of one client with its baselines and tombstones, and
  the fingerprint of the state.  A client is known by its player id, which is the network id of its
  base.  \<open>m_baselines[c]\<close> and \<open>m_known[c]\<close> create a missing entry: \<open>baseline_of\<close> and \<open>known_of\<close>
  read it with that default, \<open>set_baseline\<close> and \<open>set_known\<close> write it back.
\<close>

section \<open>Loops that only read\<close>

definition entities :: "world \<Rightarrow> nat list \<Rightarrow> EntityHandle list" where
  "entities w cids = map (handle_at w) (filter (visited w (required_mask cids)) [1..<length (m_records w)])"

lemma for_each_entities: "for_each (\<lambda>_. w) cids fn s = fold fn (entities w cids) s"
proof -
  have "fold (\<lambda>idx s. if P idx then fn (h idx) s else s) xs s = fold fn (map h (filter P xs)) s" for P h xs s
    by (induction xs arbitrary: s) auto
  then show ?thesis by (simp add: for_each_def entities_def)
qed

lemma handle_at_alive:
  assumes "world_ok w" "IsAlive w e"
  shows "handle_at w (unat (Index e)) = e"
proof -
  note i = IsAlive_index [OF assms]
  have g: "gen_at w (Index e) = Generation e" using assms IsAlive_iff by blast
  have "gen_at w (Index e) \<le> MAX_GEN" using Generation_le [OF assms] g by simp
  then obtain h where h: "Make (Index e) (gen_at w (Index e)) = Some h" using Make_total i(3) by blast
  have "h = e" by (rule handle_eqI) (simp_all add: Make_ok [OF h] g)
  moreover have "h = push_bit INDEX_BITS (gen_at w (Index e)) OR Index e"
    using h unfolding Make_def by (metis option.distinct(1) option.inject)
  ultimately show ?thesis unfolding handle_at_def gen_at_def by (simp only: of_nat_unat_word)
qed

lemma set_entities:
  assumes "world_ok w" "set cids \<subseteq> {..<64}"
  shows "set (entities w cids) = {e. IsAlive w e \<and> (\<forall>cid \<in> set cids. HasComponent w cid e)}"
proof (intro set_eqI iffI)
  fix e assume "e \<in> set (entities w cids)"
  then obtain idx where i: "idx \<in> {1..<length (m_records w)}" "visited w (required_mask cids) idx" "e = handle_at w idx"
    by (auto simp: entities_def)
  from i(2) visited_iff [OF assms(1) i(1) assms(2)] obtain h where h: "Index h = of_nat idx" "IsAlive w h" "\<forall>cid \<in> set cids. HasComponent w cid h" by blast
  have "unat (Index h) = idx" using h(1) i(1) world_okD(2) [OF assms(1)] by (auto simp: unat_of_nat)
  then have "e = h" using handle_at_alive [OF assms(1) h(2)] i(3) by simp
  then show "e \<in> {e. IsAlive w e \<and> (\<forall>cid \<in> set cids. HasComponent w cid e)}" using h by simp
next
  fix e assume "e \<in> {e. IsAlive w e \<and> (\<forall>cid \<in> set cids. HasComponent w cid e)}"
  then have e: "IsAlive w e" "\<forall>cid \<in> set cids. HasComponent w cid e" by simp_all
  let ?i = "unat (Index e)"
  note i = IsAlive_index [OF assms(1) e(1)]
  have r: "?i \<in> {1..<length (m_records w)}" using i(1,2) by (simp add: Suc_le_eq unat_gt_0)
  moreover have "visited w (required_mask cids) ?i" using visited_iff [OF assms(1) r assms(2)] e by auto
  moreover have "handle_at w ?i = e" using handle_at_alive [OF assms(1) e(1)] .
  ultimately show "e \<in> set (entities w cids)" unfolding entities_def by (auto intro!: image_eqI [of _ _ ?i])
qed

section \<open>Fog of war\<close>

definition player_eyes :: "server \<Rightarrow> u32 \<Rightarrow> (UniversePos \<times> single) list" where
  "player_eyes su player =
     (let w = su_world su
      in for_each (\<lambda>_. w) [ct_slot T_OwnerId, ct_slot T_Sensor, ct_slot T_Transform]
        (\<lambda>e eyes. or_skip eyes (do {
           ow \<leftarrow> get T_OwnerId w e; r \<leftarrow> get T_Sensor w e; t \<leftarrow> get T_Transform w e;
           Some (if ow = player then eyes @ [(tf_pos t, r)] else eyes) })) [])"

definition detects :: "server \<Rightarrow> u32 \<Rightarrow> (UniversePos \<times> single) list \<Rightarrow> u32 \<Rightarrow> UniversePos \<Rightarrow> EntityKind \<Rightarrow> bool" where
  "detects su player eyes netId pos kind \<longleftrightarrow>
     comp_of T_OwnerId su netId = Some player \<or> kind = Kind_Structure \<or> netId \<in> su_revealed su player \<or>
     list_ex (\<lambda>e. SensorDetect (fst e) pos (snd e)) eyes"

definition DetectedSet :: "server \<Rightarrow> u32 \<Rightarrow> u32 set" where
  "DetectedSet su player =
     (let w = su_world su; eyes = player_eyes su player
      in for_each (\<lambda>_. w) [ct_slot T_NetId, ct_slot T_Transform, ct_slot T_ShapeId]
        (\<lambda>e seen. or_skip seen (do {
           netId \<leftarrow> get T_NetId w e; t \<leftarrow> get T_Transform w e; s \<leftarrow> get T_ShapeId w e;
           Some (if detects su player eyes netId (tf_pos t) (sh_kind s) then insert netId seen else seen) })) {})"

definition SCAN_SECONDS :: single where "SCAN_SECONDS = 3"

definition scan_key :: "u32 \<Rightarrow> u32 \<Rightarrow> u64" where
  "scan_key player n = push_bit 32 (ucast player) OR ucast n"

definition OrderScan :: "u32 \<Rightarrow> u32 \<Rightarrow> single \<Rightarrow> single \<Rightarrow> server \<Rightarrow> bool \<times> server" where
  "OrderScan player target' dt scanSeconds su =
     (if \<not> IsAlive (su_world su) (EntityOf su target') then (False, su)
      else if target' \<in> su_revealed su player then (True, su)
      else
        (let key = scan_key player target'; dwell = fadd (su_scanDwell su key) dt;
             su = su\<lparr>su_scanDwell := (su_scanDwell su)(key := dwell)\<rparr>
         in if dwell \<ge> scanSeconds
            then (True, su\<lparr>su_revealed := (su_revealed su)(player := insert target' (su_revealed su player))\<rparr>)
            else (False, su)))"

definition IsRevealedTo :: "server \<Rightarrow> u32 \<Rightarrow> u32 \<Rightarrow> bool" where
  "IsRevealedTo su player target' \<longleftrightarrow> target' \<in> su_revealed su player"

section \<open>Full snapshots\<close>

definition MakeSnapshotEntity :: "server \<Rightarrow> u32 \<Rightarrow> Transform \<Rightarrow> ShapeId \<Rightarrow> SnapshotEntity" where
  "MakeSnapshotEntity su netId t s =
     \<lparr>se_netId = netId, se_kind = sh_kind s, se_pos = tf_pos t,
      se_localOffset = (case tf_localOffset t of (x, y, z) \<Rightarrow> (f32_of x, f32_of y, f32_of z)),
      se_hp = entity_hp su netId, se_shapeId = sh_value s, se_ownerPlayer = OwnerOf su netId\<rparr>"

definition snapshot_entities :: "server \<Rightarrow> (u32 \<Rightarrow> bool) \<Rightarrow> SnapshotEntity list" where
  "snapshot_entities su want =
     (let w = su_world su
      in for_each (\<lambda>_. w) [ct_slot T_NetId, ct_slot T_Transform, ct_slot T_ShapeId]
        (\<lambda>e es. or_skip es (do {
           netId \<leftarrow> get T_NetId w e; t \<leftarrow> get T_Transform w e; s \<leftarrow> get T_ShapeId w e;
           Some (if want netId then es @ [MakeSnapshotEntity su netId t s] else es) })) [])"

definition BuildSnapshotFor :: "server \<Rightarrow> u32 \<Rightarrow> Snapshot" where
  "BuildSnapshotFor su player =
     (let seen = DetectedSet su player in \<lparr>sn_tick = su_tick su, sn_entities = snapshot_entities su (\<lambda>n. n \<in> seen)\<rparr>)"

definition BuildSnapshot :: "server \<Rightarrow> Snapshot" where
  "BuildSnapshot su = \<lparr>sn_tick = su_tick su, sn_entities = snapshot_entities su (\<lambda>_. True)\<rparr>"

definition SnapshotEntityOf :: "server \<Rightarrow> u32 \<Rightarrow> SnapshotEntity option" where
  "SnapshotEntityOf su netId = do {
     id' \<leftarrow> comp_of T_NetId su netId; t \<leftarrow> comp_of T_Transform su netId; s \<leftarrow> comp_of T_ShapeId su netId;
     Some (MakeSnapshotEntity su id' t s) }"

section \<open>Baselines of a client\<close>

definition baseline_of :: "server \<Rightarrow> u32 \<Rightarrow> ClientBaseline" where
  "baseline_of su clientId = (case su_baselines su clientId of Some b \<Rightarrow> b | None \<Rightarrow> ClientBaseline_new)"

definition known_of :: "server \<Rightarrow> u32 \<Rightarrow> ClientKnownState" where
  "known_of su clientId = (case su_known su clientId of Some k \<Rightarrow> k | None \<Rightarrow> ClientKnownState_new)"

definition set_baseline :: "u32 \<Rightarrow> ClientBaseline \<Rightarrow> server \<Rightarrow> server" where
  "set_baseline clientId b su = su\<lparr>su_baselines := (su_baselines su)(clientId \<mapsto> b)\<rparr>"

definition set_known :: "u32 \<Rightarrow> ClientKnownState \<Rightarrow> server \<Rightarrow> server" where
  "set_known clientId k su = su\<lparr>su_known := (su_known su)(clientId \<mapsto> k)\<rparr>"

definition ReplVersion :: "server \<Rightarrow> u32 \<Rightarrow> u32" where
  "ReplVersion su netId = Version netId (su_repl su)"

definition ChangedFor :: "u32 \<Rightarrow> server \<Rightarrow> u32 list \<times> server" where
  "ChangedFor clientId su =
     (let b = baseline_of su clientId
      in (filter (\<lambda>n. Needs b n (ReplVersion su n)) (VisibleTo clientId (su_interest su)), set_baseline clientId b su))"

definition Server_RecordSent :: "u32 \<Rightarrow> u32 \<Rightarrow> u32 list \<Rightarrow> server \<Rightarrow> server" where
  "Server_RecordSent clientId tick netIds su =
     set_baseline clientId (RecordSent tick (map (\<lambda>n. (n, ReplVersion su n)) netIds) (baseline_of su clientId)) su"

definition AckBaseline :: "u32 \<Rightarrow> u32 \<Rightarrow> server \<Rightarrow> server" where
  "AckBaseline clientId tick su = set_baseline clientId (Baseline_Ack tick (baseline_of su clientId)) su"

text \<open>The walk along the two sorted lists: the acknowledged ids that are not visible.\<close>

fun left_interest :: "u32 list \<Rightarrow> u32 list \<Rightarrow> u32 list" where
  "left_interest [] visible = []"
| "left_interest (n # ns) visible =
     (let vs = dropWhile (\<lambda>v. v < n) visible
      in if vs = [] \<or> hd vs \<noteq> n then n # left_interest ns vs else left_interest ns vs)"

definition entomb :: "u32 \<Rightarrow> u32 \<Rightarrow> server \<Rightarrow> server" where
  "entomb clientId n su =
     set_known clientId (Known_Forget n (known_of su clientId)) (set_baseline clientId (Tombstone n (baseline_of su clientId)) su)"

definition TombstonesFor :: "u32 \<Rightarrow> server \<Rightarrow> u32 list \<times> server" where
  "TombstonesFor clientId su =
     (let visible = VisibleTo clientId (su_interest su);
          su = set_baseline clientId (baseline_of su clientId) su;
          su = fold (entomb clientId) (left_interest (CollectAcked (baseline_of su clientId) []) visible) su;
          b = fold Untombstone visible (baseline_of su clientId)
      in (CollectTombstones b [], set_baseline clientId b su))"

definition Server_RecordTombstonesSent :: "u32 \<Rightarrow> u32 \<Rightarrow> u32 list \<Rightarrow> server \<Rightarrow> server" where
  "Server_RecordTombstonesSent clientId tick netIds su =
     set_baseline clientId (RecordTombstonesSent tick netIds (baseline_of su clientId)) su"

definition BaselineBytes :: "u32 \<Rightarrow> server \<Rightarrow> nat \<times> server" where
  "BaselineBytes clientId su = (let b = baseline_of su clientId in (ApproxBytes b, set_baseline clientId b su))"

section \<open>The snapshot of one client\<close>

definition SetVisibleCap :: "nat \<Rightarrow> server \<Rightarrow> server" where "SetVisibleCap n su = su\<lparr>su_visibleCap := n\<rparr>"

definition ClassifyIff :: "u32 \<Rightarrow> SnapshotEntity \<Rightarrow> Iff" where
  "ClassifyIff clientId e =
     (if se_ownerPlayer e = clientId then Own
      else if se_ownerPlayer e \<noteq> 0 \<or> se_kind e = Kind_NpcUnit then Enemy else Neutral)"

definition ClientTargets :: "server \<Rightarrow> u32 \<Rightarrow> u32 set" where
  "ClientTargets su clientId =
     (let w = su_world su
      in for_each (\<lambda>_. w) [ct_slot T_OwnerId, ct_slot T_FleetOrder]
        (\<lambda>e ts. or_skip ts (do {
           ow \<leftarrow> get T_OwnerId w e; fo \<leftarrow> get T_FleetOrder w e;
           Some (if ow = clientId \<and> fe_targetNetId (fo_current fo) \<noteq> 0 then insert (fe_targetNetId (fo_current fo)) ts else ts) })) {})"

definition candidate :: "server \<Rightarrow> u32 \<Rightarrow> UniversePos option \<Rightarrow> u32 set \<Rightarrow> u32 \<Rightarrow> SchedCandidate option" where
  "candidate su clientId focus targets netId =
     map_option (\<lambda>cur. \<lparr>sc_netId = netId,
        sc_distance = (case focus of Some p \<Rightarrow> UniverseDistance p (se_pos cur) | None \<Rightarrow> 0),
        sc_iff = ClassifyIff clientId cur, sc_isBase = (se_kind cur = Kind_Base \<or> se_kind cur = Kind_Structure),
        sc_isTarget = (netId \<in> targets),
        sc_staleness = (case su_lastSent su clientId netId of None \<Rightarrow> 0 | Some t \<Rightarrow> su_tick su - t)\<rparr>)
       (SnapshotEntityOf su netId)"

definition live_records :: "server \<Rightarrow> ClientKnownState \<Rightarrow> u32 list \<Rightarrow> DeltaRecord list" where
  "live_records su known ids =
     filter (\<lambda>r. dr_mask r \<noteq> 0)
       (List.map_filter (\<lambda>n. map_option (\<lambda>cur. MakeDeltaRecord cur (Base known n)) (SnapshotEntityOf su n)) ids)"

definition tomb_record :: "u32 \<Rightarrow> DeltaRecord" where
  "tomb_record netId = DeltaRecord_new\<lparr>dr_netId := netId, dr_mask := DeltaTomb\<rparr>"

definition BuildClientSnapshot :: "u32 \<Rightarrow> nat \<Rightarrow> server \<Rightarrow> (DeltaSnapshot \<times> nat) \<times> server" where
  "BuildClientSnapshot clientId byteBudget su =
     (case ChangedFor clientId su of
        (lacked, su) \<Rightarrow>
          (let cands = List.map_filter (candidate su clientId (GetBasePos su clientId) (ClientTargets su clientId)) lacked;
               sched = ScheduleClient cands (su_weights su) (su_visibleCap su);
               known = known_of su clientId;
               live = live_records su known (sr_ordered sched)
           in case TombstonesFor clientId (set_known clientId known su) of
                (tombs, su) \<Rightarrow>
                  ((fst (BuildBudgetedSnapshot (su_tick su) (live @ map tomb_record tombs) byteBudget), sr_capped sched), su)))"

definition sent_states :: "server \<Rightarrow> DeltaRecord list \<Rightarrow> SnapshotEntity list" where
  "sent_states su rs = List.map_filter (\<lambda>r. SnapshotEntityOf su (dr_netId r)) rs"

definition RecordClientSnapshotSent :: "u32 \<Rightarrow> DeltaSnapshot \<Rightarrow> server \<Rightarrow> server" where
  "RecordClientSnapshotSent clientId snap su =
     (let live = filter (\<lambda>r. \<not> flag (dr_mask r) DeltaTomb) (ds_records snap);
          tombs = filter (\<lambda>r. flag (dr_mask r) DeltaTomb) (ds_records snap);
          su = su\<lparr>su_lastSent := (su_lastSent su)(clientId :=
                 fold (\<lambda>r m. m(dr_netId r \<mapsto> ds_tick snap)) live (su_lastSent su clientId))\<rparr>;
          states = sent_states su live;
          su = Server_RecordSent clientId (ds_tick snap) (map dr_netId live) su;
          su = set_known clientId (Known_RecordSent (ds_tick snap) states (known_of su clientId)) su
      in Server_RecordTombstonesSent clientId (ds_tick snap) (map dr_netId tombs) su)"

definition AckClient :: "u32 \<Rightarrow> u32 \<Rightarrow> server \<Rightarrow> server" where
  "AckClient clientId tick su =
     (let su = AckBaseline clientId tick su in set_known clientId (Known_Ack tick (known_of su clientId)) su)"

section \<open>The fingerprint\<close>

record HashRow =
  hr_netId :: u32
  hr_x :: u64
  hr_y :: u64
  hr_z :: u64
  hr_hp :: u32
  hr_kind :: u8
  hr_phase :: u8
  hr_fuelBits :: u32

definition hash_row :: "server \<Rightarrow> u32 \<Rightarrow> Transform \<Rightarrow> ShapeId \<Rightarrow> HashRow" where
  "hash_row su netId t s =
     \<lparr>hr_netId = netId, hr_x = up_x (tf_pos t), hr_y = up_y (tf_pos t), hr_z = up_z (tf_pos t),
      hr_hp = (case comp_of T_Health su netId of Some h \<Rightarrow> word_of_int (h_hp h) | None \<Rightarrow> 0), hr_kind = sh_kind s,
      hr_phase = (case comp_of T_NavState su netId of Some n \<Rightarrow> nv_phase n | None \<Rightarrow> 0),
      hr_fuelBits = (case comp_of T_Fuel su netId of Some fl \<Rightarrow> f32_of (fu_current fl) | None \<Rightarrow> 0)\<rparr>"

definition hash_rows :: "server \<Rightarrow> HashRow list" where
  "hash_rows su =
     (let w = su_world su
      in for_each (\<lambda>_. w) [ct_slot T_NetId, ct_slot T_Transform, ct_slot T_ShapeId]
        (\<lambda>e rows. or_skip rows (do {
           netId \<leftarrow> get T_NetId w e; t \<leftarrow> get T_Transform w e; s \<leftarrow> get T_ShapeId w e;
           Some (rows @ [hash_row su netId t s]) })) [])"

text \<open>\<open>mix(p, n)\<close> on the \<open>n\<close> bytes of an integer, lowest first.\<close>

definition mix_bytes :: "nat \<Rightarrow> u64 \<Rightarrow> u64 \<Rightarrow> u64" where
  "mix_bytes n v h = fold (\<lambda>i h. (h XOR ucast (ucast (drop_bit (8 * i) v) :: u8)) * 1099511628211) [0..<n] h"

definition mix_row :: "HashRow \<Rightarrow> u64 \<Rightarrow> u64" where
  "mix_row r h =
     (let h = mix_bytes 4 (ucast (hr_netId r)) h; h = mix_bytes 8 (hr_x r) h;
          h = mix_bytes 8 (hr_y r) h; h = mix_bytes 8 (hr_z r) h; h = mix_bytes 4 (ucast (hr_hp r)) h;
          h = mix_bytes 1 (ucast (hr_kind r)) h; h = mix_bytes 1 (ucast (hr_phase r)) h
      in mix_bytes 4 (ucast (hr_fuelBits r)) h)"

definition SimHash :: "server \<Rightarrow> u64" where
  "SimHash su =
     fold mix_row (sort_key hr_netId (hash_rows su)) (mix_bytes 4 (ucast (su_tick su)) 1469598103934665603)"

section \<open>What the loops collect\<close>

lemma gets_entity:
  assumes "sim_ok w" "list_all (\<lambda>cid. cid < 64 \<and> GetComponent w cid e \<noteq> None) cids" "cids \<noteq> []"
  shows "e \<in> set (entities w cids)"
proof -
  have h: "\<forall>cid \<in> set cids. HasComponent w cid e" using assms(1,2) by (auto simp: list_all_iff HasComponent_Get sim_okD)
  moreover have "IsAlive w e" using assms(2,3) by (cases cids) (auto simp: GetComponent_eq split: if_splits)
  ultimately show ?thesis using assms(2) by (subst set_entities [OF sim_okD [OF assms(1)]]) (auto simp: list_all_iff)
qed

lemma three_entity:
  assumes "sim_ok w" "ct_ok A" "ct_ok B" "ct_ok C" "get A w e = Some a" "get B w e = Some b" "get C w e = Some c"
  shows "e \<in> set (entities w [ct_slot A, ct_slot B, ct_slot C])"
proof (rule gets_entity [OF assms(1)])
  show "list_all (\<lambda>cid. cid < 64 \<and> GetComponent w cid e \<noteq> None) [ct_slot A, ct_slot B, ct_slot C]"
    using assms get_Some_Get [OF assms(1,2), of e] get_Some_Get [OF assms(1,3), of e] get_Some_Get [OF assms(1,4), of e]
    by (simp add: ct_okD(2))
qed simp

lemma collect_list:
  "fold (\<lambda>e xs. or_skip xs (do { a \<leftarrow> ga e; b \<leftarrow> gb e; c \<leftarrow> gc e; Some (if P a b c then xs @ [f a b c] else xs) })) es xs =
    xs @ List.map_filter (\<lambda>e. do { a \<leftarrow> ga e; b \<leftarrow> gb e; c \<leftarrow> gc e; if P a b c then Some (f a b c) else None }) es"
  by (induction es arbitrary: xs) (auto simp: or_skip_def List.map_filter_def split: option.split bind_splits)

lemma collect_set:
  "fold (\<lambda>e s. or_skip s (do { a \<leftarrow> ga e; b \<leftarrow> gb e; c \<leftarrow> gc e; Some (if P a b c then insert a s else s) })) es S =
    S \<union> {a. \<exists>e \<in> set es. \<exists>b c. ga e = Some a \<and> gb e = Some b \<and> gc e = Some c \<and> P a b c}"
proof (induction es arbitrary: S)
  case (Cons e es)
  let ?S = "or_skip S (do { a \<leftarrow> ga e; b \<leftarrow> gb e; c \<leftarrow> gc e; Some (if P a b c then insert a S else S) })"
  have "?S = S \<union> {a. \<exists>b c. ga e = Some a \<and> gb e = Some b \<and> gc e = Some c \<and> P a b c}"
    by (cases "ga e"; cases "gb e"; cases "gc e") (auto simp: or_skip_def)
  with Cons.IH [of ?S] show ?case by auto
qed simp

lemma set_map_filter: "set (List.map_filter g es) = {y. \<exists>e \<in> set es. g e = Some y}"
  by (force simp: List.map_filter_def)

lemma player_eyes_set:
  assumes "sim_ok (su_world su)"
  shows "set (player_eyes su player) = {(tf_pos t, r) | e t r. get T_OwnerId (su_world su) e = Some player \<and>
    get T_Sensor (su_world su) e = Some r \<and> get T_Transform (su_world su) e = Some t}"
proof -
  let ?w = "su_world su"
  have "set (player_eyes su player) = {y. \<exists>e \<in> set (entities ?w [ct_slot T_OwnerId, ct_slot T_Sensor, ct_slot T_Transform]).
      \<exists>r t. get T_OwnerId ?w e = Some player \<and> get T_Sensor ?w e = Some r \<and> get T_Transform ?w e = Some t \<and> y = (tf_pos t, r)}"
    unfolding player_eyes_def Let_def for_each_entities
    by (subst collect_list [where P = "\<lambda>a b c. a = player" and f = "\<lambda>a b c. (tf_pos c, b)"])
       (auto simp: set_map_filter bind_eq_Some_conv)
  then show ?thesis using three_entity [OF assms, of T_OwnerId T_Sensor T_Transform] by (auto simp: ct_simps)
qed

lemma DetectedSet_exact:
  assumes "sim_ok (su_world su)"
  shows "DetectedSet su player = {n. \<exists>e t s. get T_NetId (su_world su) e = Some n \<and> get T_Transform (su_world su) e = Some t \<and>
    get T_ShapeId (su_world su) e = Some s \<and> detects su player (player_eyes su player) n (tf_pos t) (sh_kind s)}"
  unfolding DetectedSet_def Let_def for_each_entities collect_set
  using three_entity [OF assms, of T_NetId T_Transform T_ShapeId] by (auto simp: ct_simps)

lemma snapshot_entities_set:
  assumes "sim_ok (su_world su)"
  shows "set (snapshot_entities su want) = {MakeSnapshotEntity su n t s | e n t s. get T_NetId (su_world su) e = Some n \<and>
    get T_Transform (su_world su) e = Some t \<and> get T_ShapeId (su_world su) e = Some s \<and> want n}"
proof -
  let ?w = "su_world su"
  have "set (snapshot_entities su want) = {y. \<exists>e \<in> set (entities ?w [ct_slot T_NetId, ct_slot T_Transform, ct_slot T_ShapeId]).
      \<exists>n t s. get T_NetId ?w e = Some n \<and> get T_Transform ?w e = Some t \<and> get T_ShapeId ?w e = Some s \<and> want n \<and>
        y = MakeSnapshotEntity su n t s}"
    unfolding snapshot_entities_def Let_def for_each_entities
    by (subst collect_list [where P = "\<lambda>a b c. want a"]) (auto simp: set_map_filter bind_eq_Some_conv)
  then show ?thesis using three_entity [OF assms, of T_NetId T_Transform T_ShapeId] by (simp add: ct_simps) blast
qed

lemma snapshot_ids:
  assumes "sim_ok (su_world su)"
  shows "se_netId ` set (snapshot_entities su want) = {n. want n \<and> (\<exists>e t s. get T_NetId (su_world su) e = Some n \<and>
    get T_Transform (su_world su) e = Some t \<and> get T_ShapeId (su_world su) e = Some s)}"
proof (intro set_eqI iffI)
  fix n assume "n \<in> se_netId ` set (snapshot_entities su want)"
  then show "n \<in> {n. want n \<and> (\<exists>e t s. get T_NetId (su_world su) e = Some n \<and>
      get T_Transform (su_world su) e = Some t \<and> get T_ShapeId (su_world su) e = Some s)}"
    by (auto simp: snapshot_entities_set [OF assms] MakeSnapshotEntity_def)
next
  fix n assume "n \<in> {n. want n \<and> (\<exists>e t s. get T_NetId (su_world su) e = Some n \<and>
      get T_Transform (su_world su) e = Some t \<and> get T_ShapeId (su_world su) e = Some s)}"
  then obtain t s where "MakeSnapshotEntity su n t s \<in> set (snapshot_entities su want)"
    unfolding snapshot_entities_set [OF assms] by blast
  then show "n \<in> se_netId ` set (snapshot_entities su want)" by (rule rev_image_eqI) (simp add: MakeSnapshotEntity_def)
qed

text \<open>C10: Fog of war.  The snapshot for a player holds exactly the entities the player may know of: those it owns,
  the beacons, those it has revealed by a scan, and those within the range of one of its sensors.\<close>

theorem fog_of_war_exact:
  assumes "sim_ok (su_world su)"
  shows "n \<in> se_netId ` set (sn_entities (BuildSnapshotFor su player)) \<longleftrightarrow>
    (\<exists>e t s. get T_NetId (su_world su) e = Some n \<and> get T_Transform (su_world su) e = Some t \<and> get T_ShapeId (su_world su) e = Some s \<and>
      (comp_of T_OwnerId su n = Some player \<or> sh_kind s = Kind_Structure \<or> n \<in> su_revealed su player \<or>
       (\<exists>e' t' r. get T_OwnerId (su_world su) e' = Some player \<and> get T_Sensor (su_world su) e' = Some r \<and>
          get T_Transform (su_world su) e' = Some t' \<and> UniverseDistance (tf_pos t') (tf_pos t) \<le> r)))"
proof -
  have s: "se_netId ` set (sn_entities (BuildSnapshotFor su player)) = DetectedSet su player"
    unfolding BuildSnapshotFor_def Let_def Snapshot.select_convs snapshot_ids [OF assms] DetectedSet_exact [OF assms] by blast
  have eyes: "list_ex (\<lambda>e. SensorDetect (fst e) pos (snd e)) (player_eyes su player) \<longleftrightarrow>
      (\<exists>e' t' r. get T_OwnerId (su_world su) e' = Some player \<and> get T_Sensor (su_world su) e' = Some r \<and>
        get T_Transform (su_world su) e' = Some t' \<and> UniverseDistance (tf_pos t') pos \<le> r)" for pos
    unfolding list_ex_iff player_eyes_set [OF assms] SensorDetect_def by force
  show ?thesis unfolding s DetectedSet_exact [OF assms] detects_def eyes by simp
qed

text \<open>A scene: player 7 has an eye of 1000 m at the origin, a rock lies there too.\<close>

primrec build :: "(nat \<times> Component) list list \<Rightarrow> world \<Rightarrow> world option" where
  "build [] w = Some w"
| "build (cs # css) w = do { (e, w) \<leftarrow> CreateEntity w; w \<leftarrow> add_all cs e w; build css w }"

lemma build_ok:
  "build css w = Some w' \<Longrightarrow> sim_ok w \<Longrightarrow> \<forall>cs \<in> set css. \<forall>c \<in> set cs. fst c < 64 \<and> slot_of (snd c) = fst c \<Longrightarrow> sim_ok w'"
proof (induction css arbitrary: w)
  case (Cons cs css)
  then obtain e w1 w2 where c: "CreateEntity w = Some (e, w1)" "add_all cs e w1 = Some w2" "build css w2 = Some w'"
    by (auto simp: bind_eq_Some_conv)
  note C = create_frame_sim [OF Cons.prems(2) c(1)]
  have "sim_ok w2" using add_all_frame [OF C(1) c(2) _ C(4)] Cons.prems(3) by simp
  then show ?case using Cons.IH [OF c(3)] Cons.prems(3) by simp
qed simp

definition rock_at :: "u64 \<Rightarrow> u32 \<Rightarrow> (nat \<times> Component) list" where
  "rock_at x netId = [init T_Transform (at_pos (UniversePos_zero\<lparr>up_x := x\<rparr>)), init T_NetId netId,
     init T_ShapeId \<lparr>sh_value = 0, sh_kind = Kind_ResourceNode\<rparr>]"

definition scene_parts :: "(nat \<times> Component) list list" where
  "scene_parts = [rock_at 0 1 @ [init T_OwnerId 7, init T_Sensor 1000], rock_at 0 2]"

definition scene :: server where
  "scene = ServerUniverse_new\<lparr>su_world := the (build scene_parts registered_world), su_netIdToEntity := [1 \<mapsto> 1, 2 \<mapsto> 2]\<rparr>"

lemma scene_eval:
  "map_option (\<lambda>w. (get T_NetId w 2, map_option tf_pos (get T_Transform w 2), map_option sh_kind (get T_ShapeId w 2),
      get T_OwnerId w 1, get T_Sensor w 1, map_option tf_pos (get T_Transform w 1))) (build scene_parts registered_world) =
    Some (Some 2, Some UniversePos_zero, Some Kind_ResourceNode, Some 7, Some 1000, Some UniversePos_zero)"
  by code_simp

lemma scene_distance: "UniverseDistance UniversePos_zero UniversePos_zero \<le> 1000"
  by (simp add: UniverseDistance_def axis_diff_def dmul_def dadd_def double_of_int_def dsqrt_def)

theorem fog_of_war_exact_witness: "2 \<in> se_netId ` set (sn_entities (BuildSnapshotFor scene 7))"
proof -
  obtain w where w: "build scene_parts registered_world = Some w" using scene_eval by (cases "build scene_parts registered_world") auto
  then have e: "su_world scene = w" by (simp add: scene_def)
  have ok: "sim_ok (su_world scene)"
    unfolding e by (rule build_ok [OF w registered_ok]) (simp add: scene_parts_def rock_at_def init_def ct_slots slot_of_def comp_types)
  from scene_eval [unfolded w] obtain t s t' where g: "get T_NetId w 2 = Some 2" "get T_Transform w 2 = Some t" "tf_pos t = UniversePos_zero"
    "get T_ShapeId w 2 = Some s" "get T_OwnerId w 1 = Some 7" "get T_Sensor w 1 = Some 1000" "get T_Transform w 1 = Some t'"
    "tf_pos t' = UniversePos_zero" by auto
  have "UniverseDistance (tf_pos t') (tf_pos t) \<le> 1000" using scene_distance g(3,8) by simp
  then show ?thesis using fog_of_war_exact [OF ok, of 2 7] g(1,2,4-7) unfolding e by blast
qed

section \<open>Tombstones\<close>

lemma set_dropWhile_less: "sorted vs \<Longrightarrow> set (dropWhile (\<lambda>v. v < n) vs) = {v \<in> set vs. n \<le> v}" for n :: u32
  by (induction vs) auto

lemma left_interest_set: "sorted ns \<Longrightarrow> sorted vs \<Longrightarrow> set (left_interest ns vs) = set ns - set vs"
proof (induction ns vs rule: left_interest.induct)
  case (2 n ns vs)
  let ?vs = "dropWhile (\<lambda>v. v < n) vs"
  have d: "set ?vs = {v \<in> set vs. n \<le> v}" "sorted ?vs" using 2(4) by (simp_all add: set_dropWhile_less sorted_dropWhile)
  have ih: "set (left_interest ns ?vs) = set ns - set vs" using 2(1,2) 2(3) d by (cases "?vs = [] \<or> hd ?vs \<noteq> n") auto
  have "n \<in> set vs \<longleftrightarrow> ?vs \<noteq> [] \<and> hd ?vs = n"
  proof
    assume "n \<in> set vs"
    then have "n \<in> set ?vs" using d(1) by simp
    moreover have "\<forall>x \<in> set ?vs. n \<le> x" unfolding d(1) by simp
    ultimately show "?vs \<noteq> [] \<and> hd ?vs = n" using d(2) by (cases ?vs) (auto intro: antisym)
  next
    assume "?vs \<noteq> [] \<and> hd ?vs = n"
    then have "n \<in> set ?vs" using hd_in_set by metis
    then show "n \<in> set vs" using d(1) by simp
  qed
  then show ?case using ih by (auto simp: Let_def)
qed simp

lemma baseline_simps [simp]:
  "baseline_of (set_baseline c b su) c = b" "su_interest (set_baseline c b su) = su_interest su"
  "baseline_of (set_known c k su) c = baseline_of su c" "su_interest (set_known c k su) = su_interest su"
  "su_tick (set_baseline c b su) = su_tick su" "su_tick (set_known c k su) = su_tick su"
  by (simp_all add: baseline_of_def set_baseline_def set_known_def)

lemma entomb_all: "baseline_of (fold (entomb c) ns su) c = fold Tombstone ns (baseline_of su c) \<and> su_tick (fold (entomb c) ns su) = su_tick su"
  by (induction ns arbitrary: su) (simp_all add: entomb_def)

lemma Tombstones_keys: "fst ` set (m_tombstones (fold Tombstone ns b)) = set ns \<union> fst ` set (m_tombstones b)"
proof (induction ns arbitrary: b)
  case (Cons n ns)
  have "fst ` set (m_tombstones (Tombstone n b)) = insert n (fst ` set (m_tombstones b))"
    by (simp add: Tombstone_def om_emplace_def Let_def insert_absorb)
  with Cons [of "Tombstone n b"] show ?case by auto
qed simp

lemma Untombstones_keys: "fst ` set (m_tombstones (fold Untombstone ns b)) = fst ` set (m_tombstones b) - set ns"
proof (induction ns arbitrary: b)
  case (Cons n ns)
  have "fst ` set (m_tombstones (Untombstone n b)) = fst ` set (m_tombstones b) - {n}"     by (simp add: Untombstone_def delete_keys flip: set_map)
  with Cons [of "Untombstone n b"] show ?case by auto
qed simp

lemma sorted_VisibleTo: "sorted (VisibleTo c g)"
  by (auto simp: VisibleTo_def sorted_remdups_adj split: option.split)

lemma tombstone_ids:
  "set (fst (TombstonesFor clientId su)) =
    (fst ` set (m_acked (baseline_of su clientId)) \<union> fst ` set (m_tombstones (baseline_of su clientId))) -
    set (VisibleTo clientId (su_interest su))"
proof -
  have "set (left_interest (CollectAcked (baseline_of su clientId) []) (VisibleTo clientId (su_interest su))) =
      fst ` set (m_acked (baseline_of su clientId)) - set (VisibleTo clientId (su_interest su))"
    by (subst left_interest_set) (simp_all add: CollectAcked_def sorted_VisibleTo)
  then show ?thesis
    by (auto simp: TombstonesFor_def Let_def CollectTombstones_def entomb_all Tombstones_keys Untombstones_keys
        simp flip: image_set)
qed

text \<open>The pending removals of a client are exactly the entities it has acknowledged, or that were
  already to be removed, and that are not in its interest now.\<close>

theorem tombstones_exact:
  "set (fst (TombstonesFor clientId su)) =
    (fst ` set (m_acked (baseline_of su clientId)) \<union> fst ` set (m_tombstones (baseline_of su clientId))) -
    set (VisibleTo clientId (su_interest su))"
  by (rule tombstone_ids)

section \<open>Nothing outside the interest\<close>

lemma budget_subset: "set (fst (budget_loop n bits rs)) \<subseteq> set rs"
  by (induction n bits rs rule: budget_loop.induct) (auto simp: Let_def split: prod.splits)

lemma scheduled_subset: "set (sr_ordered (ScheduleClient cands w cap)) \<subseteq> sc_netId ` set cands"
proof -
  have "set (sched_sort w cands) = set cands" by (metis mset_sched_sort set_mset_mset)
  then show ?thesis using set_take_subset by (fastforce simp: ScheduleClient_def Let_def)
qed

lemma snapshot_entity_world: "su_world su' = su_world su \<Longrightarrow> su_netIdToEntity su' = su_netIdToEntity su \<Longrightarrow> SnapshotEntityOf su' n = SnapshotEntityOf su n"
  by (simp add: SnapshotEntityOf_def comp_of_def EntityOf_def MakeSnapshotEntity_def entity_hp_def OwnerOf_def)

text \<open>C11: A client learns nothing outside its interest.  Each record of the snapshot built for it is the
  delta of the current state of an entity in its interest that it has not acknowledged, against
  the state it is known to have, or the removal of an entity it had and that has left its interest.\<close>

theorem client_snapshot_in_interest:
  "set (ds_records (fst (fst (BuildClientSnapshot clientId byteBudget su)))) \<subseteq>
    {MakeDeltaRecord cur (Base (known_of su clientId) n) | n cur.
       n \<in> set (VisibleTo clientId (su_interest su)) \<and> Needs (baseline_of su clientId) n (ReplVersion su n) \<and>
       SnapshotEntityOf su n = Some cur} \<union>
    tomb_record ` ((fst ` set (m_acked (baseline_of su clientId)) \<union> fst ` set (m_tombstones (baseline_of su clientId))) -
      set (VisibleTo clientId (su_interest su)))"
proof -
  let ?v = "VisibleTo clientId (su_interest su)" and ?k = "known_of su clientId"
  define su1 where "su1 = set_baseline clientId (baseline_of su clientId) su"
  have w: "SnapshotEntityOf su1 n = SnapshotEntityOf su n" for n by (rule snapshot_entity_world) (simp_all add: su1_def set_baseline_def)
  have k: "known_of su1 clientId = ?k" by (simp add: su1_def known_of_def set_baseline_def)
  let ?lacked = "filter (\<lambda>n. Needs (baseline_of su clientId) n (ReplVersion su n)) ?v"
  define cands where "cands = List.map_filter (candidate su1 clientId (GetBasePos su1 clientId) (ClientTargets su1 clientId)) ?lacked"
  define live where "live = live_records su1 ?k (sr_ordered (ScheduleClient cands (su_weights su1) (su_visibleCap su1)))"
  define tombs where "tombs = fst (TombstonesFor clientId (set_known clientId ?k su1))"
  have b: "ds_records (fst (fst (BuildClientSnapshot clientId byteBudget su))) =
      fst (budget_loop byteBudget DELTA_HEADER_BITS (live @ map tomb_record tombs))"
    by (simp add: BuildClientSnapshot_def ChangedFor_def BuildBudgetedSnapshot_def Let_def case_prod_beta live_def cands_def tombs_def
        k flip: su1_def)
  have "sc_netId ` set cands \<subseteq> set ?lacked" by (auto simp: cands_def set_map_filter candidate_def)
  then have "set (sr_ordered (ScheduleClient cands (su_weights su1) (su_visibleCap su1))) \<subseteq> set ?lacked"
    using scheduled_subset by (rule order_trans [rotated])
  then have "set live \<subseteq> {MakeDeltaRecord cur (Base ?k n) | n cur.
       n \<in> set ?v \<and> Needs (baseline_of su clientId) n (ReplVersion su n) \<and> SnapshotEntityOf su n = Some cur}"
    by (auto simp: live_def live_records_def set_map_filter w)
  moreover have "set tombs = (fst ` set (m_acked (baseline_of su clientId)) \<union> fst ` set (m_tombstones (baseline_of su clientId))) - set ?v"
    unfolding tombs_def tombstone_ids by (simp add: su1_def)
  ultimately show ?thesis unfolding b using budget_subset [of byteBudget DELTA_HEADER_BITS "live @ map tomb_record tombs"] by auto
qed

section \<open>The fingerprint does not see the layout\<close>

lemma hash_rows_set:
  assumes "sim_ok (su_world su)"
  shows "set (hash_rows su) = {hash_row su n t s | e n t s. get T_NetId (su_world su) e = Some n \<and>
    get T_Transform (su_world su) e = Some t \<and> get T_ShapeId (su_world su) e = Some s}"
proof -
  let ?w = "su_world su"
  have c: "fold (\<lambda>e rows. or_skip rows (do { n \<leftarrow> get T_NetId ?w e; t \<leftarrow> get T_Transform ?w e; s \<leftarrow> get T_ShapeId ?w e;
      Some (rows @ [hash_row su n t s]) })) es [] =
    List.map_filter (\<lambda>e. do { n \<leftarrow> get T_NetId ?w e; t \<leftarrow> get T_Transform ?w e; s \<leftarrow> get T_ShapeId ?w e; Some (hash_row su n t s) }) es" for es
    using collect_list [where P = "\<lambda>_ _ _. True" and f = "hash_row su" and xs = "[]"] by simp
  show ?thesis
    unfolding hash_rows_def Let_def for_each_entities c set_map_filter
    using three_entity [OF assms, of T_NetId T_Transform T_ShapeId] by (simp add: ct_simps bind_eq_Some_conv) blast
qed

text \<open>Two servers whose entities show the same fields, in whatever slots of the store they lie, have the same
  fingerprint, if no network id occurs twice.\<close>

lemma sim_hash_layout:
  assumes "sim_ok (su_world su)" "sim_ok (su_world su')" "su_tick su = su_tick su'"
    "distinct (map hr_netId (hash_rows su))" "distinct (map hr_netId (hash_rows su'))"
    "{hash_row su n t s | e n t s. get T_NetId (su_world su) e = Some n \<and> get T_Transform (su_world su) e = Some t \<and> get T_ShapeId (su_world su) e = Some s} =
     {hash_row su' n t s | e n t s. get T_NetId (su_world su') e = Some n \<and> get T_Transform (su_world su') e = Some t \<and> get T_ShapeId (su_world su') e = Some s}"
  shows "SimHash su = SimHash su'"
proof -
  have s: "set (hash_rows su) = set (hash_rows su')" using hash_rows_set [OF assms(1)] hash_rows_set [OF assms(2)] assms(6) by simp
  have inj: "inj_on hr_netId (set (hash_rows su))" using assms(4) by (simp add: distinct_map)
  have "sort_key hr_netId (hash_rows su) = sort_key hr_netId (hash_rows su')"
    by (rule map_sorted_distinct_set_unique [where f = hr_netId])
       (use inj s assms(4,5) in \<open>simp_all add: distinct_map\<close>)
  then show ?thesis by (simp add: SimHash_def assms(3))
qed

end
