(* ===== verification/Server_Persist.thy ===== *)
theory Server_Persist
  imports Server_Snapshots Base_Safety Warm_Restart
begin

text \<open>
  Capture and restore of the simulation over a restart (\<open>CaptureState\<close> and \<open>RestoreState\<close> of
  \<open>NeuronCore/ServerUniverse.h\<close>).  The old entities are those of the table
  \<open>m_netIdToEntity\<close>, destroyed in its (unspecified) order of iteration, which is the parameter
  \<open>order\<close> of \<open>RestoreState\<close>; it decides only which slots the new entities get.  Floats of the saved state are read by their value (\<open>f32_val\<close>).  The theorems show what the
  restored bases can no longer do.
\<close>

section \<open>Capture\<close>

definition float3_of :: "single list \<Rightarrow> float3" where
  "float3_of a = (f32_of (a ! 0), f32_of (a ! 1), f32_of (a ! 2))"

definition capture_base :: "server \<Rightarrow> u32 \<Rightarrow> Transform \<Rightarrow> PersistBase" where
  "capture_base su netId t =
     (let h = comp_of T_Health su netId
      in \<lparr>b_netId = netId, b_ownerAccount = ucast (OwnerOf su netId),
          b_x = up_x (tf_pos t), b_y = up_y (tf_pos t), b_z = up_z (tf_pos t),
          b_shieldHp = (case h of Some h \<Rightarrow> word_of_int (h_maxHp h) | None \<Rightarrow> 0),
          b_armorHp = (case h of Some h \<Rightarrow> word_of_int (h_maxHp h) | None \<Rightarrow> 0),
          b_hullHp = (case h of Some h \<Rightarrow> word_of_int (h_hp h) | None \<Rightarrow> 0),
          b_storage = (case comp_of T_Storage su netId of Some st \<Rightarrow> float3_of (ho_amount st) | None \<Rightarrow> (0, 0, 0)),
          b_fuel = (case comp_of T_Fuel su netId of Some fl \<Rightarrow> f32_of (fu_current fl) | None \<Rightarrow> 0),
          b_navPhase = (case comp_of T_NavState su netId of Some n \<Rightarrow> nv_phase n | None \<Rightarrow> 0),
          b_baseState = (case comp_of T_BaseCombat su netId of Some bc \<Rightarrow> bc_state bc | None \<Rightarrow> 0)\<rparr>)"

definition capture_ship :: "server \<Rightarrow> u8 \<Rightarrow> u32 \<Rightarrow> Transform \<Rightarrow> PersistShip" where
  "capture_ship su shipType netId t =
     \<lparr>s_netId = netId, s_ownerAccount = ucast (OwnerOf su netId),
      s_x = up_x (tf_pos t), s_y = up_y (tf_pos t), s_z = up_z (tf_pos t),
      s_hp = (case comp_of T_Health su netId of Some h \<Rightarrow> word_of_int (h_hp h) | None \<Rightarrow> 0),
      s_cargo = (case comp_of T_Cargo su netId of Some c \<Rightarrow> float3_of (ho_amount c) | None \<Rightarrow> (0, 0, 0)),
      s_shipType = shipType\<rparr>"

definition capture_npc :: "server \<Rightarrow> NpcAi \<Rightarrow> u32 \<Rightarrow> Transform \<Rightarrow> PersistNpc" where
  "capture_npc su ai netId t =
     \<lparr>n_netId = netId, n_x = up_x (tf_pos t), n_y = up_y (tf_pos t), n_z = up_z (tf_pos t),
      n_hp = (case comp_of T_Health su netId of Some h \<Rightarrow> word_of_int (h_hp h) | None \<Rightarrow> 0),
      n_siteId = ai_siteId ai, n_aiState = ai_state ai\<rparr>"

definition CaptureState :: "server \<Rightarrow> PersistState" where
  "CaptureState su =
     (let w = su_world su
      in \<lparr>tick = ucast (su_tick su), outboxSeq = 0,
          bases = for_each (\<lambda>_. w) [ct_slot T_BaseTag, ct_slot T_NetId, ct_slot T_Transform]
            (\<lambda>e s. or_skip s (do {
               _ \<leftarrow> get T_BaseTag w e; netId \<leftarrow> get T_NetId w e; t \<leftarrow> get T_Transform w e;
               Some (if True then s @ [capture_base su netId t] else s) })) [],
          ships = for_each (\<lambda>_. w) [ct_slot T_ShipTag, ct_slot T_NetId, ct_slot T_Transform]
            (\<lambda>e s. or_skip s (do {
               ty \<leftarrow> get T_ShipTag w e; netId \<leftarrow> get T_NetId w e; t \<leftarrow> get T_Transform w e;
               Some (if comp_of T_NpcAi su netId = None then s @ [capture_ship su ty netId t] else s) })) [],
          builds = for_each (\<lambda>_. w) [ct_slot T_BuildQueue, ct_slot T_OwnerId]
            (\<lambda>e s. or_skip s (do {
               q \<leftarrow> get T_BuildQueue w e; ow \<leftarrow> get T_OwnerId w e;
               Some (if bq_active q then s @ [\<lparr>bd_ownerAccount = ucast ow, bd_itemDefId = ucast (bq_recipe q),
                       bd_progress = f32_of (bq_progress q)\<rparr>] else s) })) [],
          npcs = for_each (\<lambda>_. w) [ct_slot T_NpcAi, ct_slot T_NetId, ct_slot T_Transform]
            (\<lambda>e s. or_skip s (do {
               ai \<leftarrow> get T_NpcAi w e; netId \<leftarrow> get T_NetId w e; t \<leftarrow> get T_Transform w e;
               Some (if True then s @ [capture_npc su ai netId t] else s) })) []\<rparr>)"

section \<open>Restore\<close>

text \<open>\<open>e = CreateEntity(); AddComponent\<dots>; m_netIdToEntity[netId] = e\<close> at a given network id.\<close>

definition respawn :: "(nat \<times> Component) list \<Rightarrow> (EntityHandle \<Rightarrow> world \<Rightarrow> world option) \<Rightarrow> u32 \<Rightarrow> server \<Rightarrow> server option" where
  "respawn comps finish netId su = do {
     (e, w) \<leftarrow> CreateEntity (su_world su);
     w \<leftarrow> add_all comps e w;
     w \<leftarrow> finish e w;
     Some (su\<lparr>su_world := w, su_netIdToEntity := (su_netIdToEntity su)(netId \<mapsto> e)\<rparr>)
   }"

definition pos_of :: "u64 \<Rightarrow> u64 \<Rightarrow> u64 \<Rightarrow> UniversePos" where
  "pos_of x y z = \<lparr>up_x = x, up_y = y, up_z = z\<rparr>"

definition float3_list :: "float3 \<Rightarrow> single list" where
  "float3_list v = (case v of (a, b, c) \<Rightarrow> [f32_val a, f32_val b, f32_val c])"

text \<open>Fit, then the saved hit points over the defaults of the fit.\<close>

definition refit :: "CombatCatalog \<Rightarrow> string \<Rightarrow> (Health \<Rightarrow> Health) \<Rightarrow> EntityHandle \<Rightarrow> world \<Rightarrow> world option" where
  "refit cat fitName hf e w = do {
     (_, w) \<leftarrow> InstallFit cat e fitName w;
     Some (case get T_Health w e of Some h \<Rightarrow> put T_Health (hf h) e w | None \<Rightarrow> w)
   }"

definition restored_queue :: "PersistBuild list \<Rightarrow> PersistBase \<Rightarrow> BuildQueue" where
  "restored_queue bds b =
     (case find (\<lambda>bd. bd_ownerAccount bd = b_ownerAccount b) bds of
        None \<Rightarrow> BuildQueue_new
      | Some bd \<Rightarrow> \<lparr>bq_active = True, bq_paid = True, bq_recipe = ucast (bd_itemDefId bd), bq_progress = f32_val (bd_progress bd)\<rparr>)"

definition restored_base :: "server \<Rightarrow> PersistBuild list \<Rightarrow> PersistBase \<Rightarrow> (nat \<times> Component) list" where
  "restored_base su bds b =
     [init T_Transform (at_pos (pos_of (b_x b) (b_y b) (b_z b))), init T_Velocity (0, 0, 0), init T_NetId (b_netId b),
      init T_BaseTag (), init T_ShapeId \<lparr>sh_value = BaseShapeId, sh_kind = Kind_Base\<rparr>,
      init T_Fuel \<lparr>fu_current = f32_val (b_fuel b), fu_max = nt_baseFuelMax (su_nav su)\<rparr>,
      init T_NavState (NavState_new\<lparr>nv_phase := b_navPhase b\<rparr>), init T_OwnerId (ucast (b_ownerAccount b)),
      init T_Storage \<lparr>ho_amount = float3_list (b_storage b), ho_capacity = et_storageCapacity (su_economy su)\<rparr>,
      init T_BuildQueue (restored_queue bds b), init T_Sensor (et_sensorRangeBase (su_economy su)),
      init T_BaseCombat (BaseCombat_new\<lparr>bc_state := b_baseState b\<rparr>)]"

definition RestoreBase :: "PersistBuild list \<Rightarrow> PersistBase \<Rightarrow> server \<Rightarrow> server option" where
  "RestoreBase bds b su =
     respawn (restored_base su bds b)
       (refit (su_combat su) ''base-firesupport'' (\<lambda>h. \<lparr>h_hp = sint (b_hullHp b), h_maxHp = sint (b_shieldHp b)\<rparr>)) (b_netId b) su"

definition restored_ship :: "server \<Rightarrow> PersistShip \<Rightarrow> (nat \<times> Component) list" where
  "restored_ship su sh =
     [init T_Transform (at_pos (pos_of (s_x sh) (s_y sh) (s_z sh))), init T_Velocity (0, 0, 0), init T_NetId (s_netId sh),
      init T_ShipTag (s_shipType sh), init T_ShapeId \<lparr>sh_value = ShipShapeId, sh_kind = Kind_Ship\<rparr>,
      init T_OwnerId (ucast (s_ownerAccount sh)),
      init T_Cargo \<lparr>ho_amount = float3_list (s_cargo sh), ho_capacity = et_cargoCapacity (su_economy su)\<rparr>,
      init T_Fuel \<lparr>fu_current = nt_shipFuelMax (su_nav su), fu_max = nt_shipFuelMax (su_nav su)\<rparr>,
      init T_NavState NavState_new, init T_Sensor (et_sensorRangeShip (su_economy su)), init T_FleetMember 0,
      init T_FleetOrder FleetOrder_new]"

definition RestoreShip :: "PersistShip \<Rightarrow> server \<Rightarrow> server option" where
  "RestoreShip sh su =
     respawn (restored_ship su sh) (refit (su_combat su) DEFAULT_SHIP_FIT (\<lambda>h. h\<lparr>h_hp := sint (s_hp sh)\<rparr>)) (s_netId sh) su"

definition restored_npc :: "PersistNpc \<Rightarrow> (nat \<times> Component) list" where
  "restored_npc n = guardian_comps (pos_of (n_x n) (n_y n) (n_z n)) (n_netId n)"

definition RestoreNpc :: "PersistNpc \<Rightarrow> server \<Rightarrow> server option" where
  "RestoreNpc n su =
     map_option (\<lambda>su. su\<lparr>su_siteAlive := (su_siteAlive su)(n_siteId n \<mapsto>
         (case su_siteAlive su (n_siteId n) of Some k \<Rightarrow> k + 1 | None \<Rightarrow> 1))\<rparr>)
       (respawn (restored_npc n)
          (\<lambda>e w. Option.bind (refit (su_combat su) NPC_FIT (\<lambda>h. h\<lparr>h_hp := sint (n_hp n)\<rparr>) e w)
             (add T_NpcAi (guardian_ai (n_aiState n) (pos_of (n_x n) (n_y n) (n_z n)) (n_siteId n)) e))
          (n_netId n) su)"

definition wiped :: "EntityHandle list \<Rightarrow> PersistState \<Rightarrow> server \<Rightarrow> server" where
  "wiped old s su = su\<lparr>su_world := fold (\<lambda>e w. if IsAlive w e then destroy e w else w) old (su_world su),
     su_netIdToEntity := Map.empty, su_interest := InterestGrid_new, su_repl := Map.empty, su_baselines := Map.empty,
     su_known := Map.empty, su_lastSent := (\<lambda>_. Map.empty), su_buildCompleted := [], su_econEvents := [], su_killmails := [],
     su_lowHullAlerts := [], su_simTime := 0, su_tick := ucast (tick s)\<rparr>"

text \<open>The handles of \<open>m_netIdToEntity\<close> when its keys are visited in this order.\<close>

definition tracked :: "u32 list \<Rightarrow> server \<Rightarrow> EntityHandle list" where
  "tracked order su = List.map_filter (su_netIdToEntity su) order"

lemma set_tracked: "dom (su_netIdToEntity su) \<subseteq> set order \<Longrightarrow> set (tracked order su) = ran (su_netIdToEntity su)"
  by (force simp: tracked_def map_filter_def ran_def dom_def image_def)

definition max_netId :: "PersistState \<Rightarrow> u32" where
  "max_netId s = fold max (map b_netId (bases s) @ map s_netId (ships s) @ map n_netId (npcs s)) 0"

definition RestoreState :: "u32 list \<Rightarrow> PersistState \<Rightarrow> server \<Rightarrow> server option" where
  "RestoreState order s su = do {
     su \<leftarrow> all_in_order (RestoreBase (builds s)) (bases s) (wiped (tracked order su) s su);
     su \<leftarrow> all_in_order RestoreShip (ships s) su;
     su \<leftarrow> all_in_order RestoreNpc (npcs s) (su\<lparr>su_siteAlive := Map.empty, su_clearedSites := []\<rparr>);
     Some (su\<lparr>su_nextNetId := max_netId s + 1\<rparr>)
   }"

section \<open>What a respawn does\<close>

lemma completes_touches: "completes e w w' \<Longrightarrow> touches {e} w w'"
  by (auto simp: completes_def touches_def same_entity_def)

lemma respawn_view:
  assumes sp: "respawn comps fin n su = Some su'" and s: "sim_ok (su_world su)"
    and cs: "\<forall>c \<in> set comps. fst c < 64 \<and> slot_of (snd c) = fst c"
    and fin: "\<And>e w w'. fin e w = Some w' \<Longrightarrow> touches {e} w w'"
  obtains e w where "\<not> IsAlive (su_world su) e" "sim_ok w" "IsAlive w e" "\<And>k. k < 64 \<Longrightarrow> GetComponent w k e = map_of comps k"
    "fin e w = Some (su_world su')" "sim_ok (su_world su')" "\<And>q. q \<noteq> e \<Longrightarrow> same_entity (su_world su) (su_world su') q"
    "su' = su\<lparr>su_world := su_world su', su_netIdToEntity := (su_netIdToEntity su)(n \<mapsto> e)\<rparr>"
proof -
  from sp obtain e w1 w2 w3 where c: "CreateEntity (su_world su) = Some (e, w1)" "add_all comps e w1 = Some w2" "fin e w2 = Some w3"
    and su': "su' = su\<lparr>su_world := w3, su_netIdToEntity := (su_netIdToEntity su)(n \<mapsto> e)\<rparr>"
    by (auto simp: respawn_def bind_eq_Some_conv)
  note C = create_frame_sim [OF s c(1)]
  note A = add_all_frame [OF C(1) c(2) cs C(4)]
  have t: "touches {e} w2 w3" by (rule fin [OF c(3)])
  show ?thesis
  proof (rule that [of e w2])
    show "\<not> IsAlive (su_world su) e" by (rule C(3))
    show ok2: "sim_ok w2" using A by blast
    show "IsAlive w2 e" using A C(4) by blast
    show "GetComponent w2 k e = map_of comps k" if "k < 64" for k using A C(5) [OF that] that by (auto split: option.split)
    show "fin e w2 = Some (su_world su')" using c(3) su' by simp
    show "sim_ok (su_world su')" using touchesD [OF t ok2] su' by simp
    show "same_entity (su_world su) (su_world su') q" if "q \<noteq> e" for q
    proof -
      have "same_entity (su_world su) w1 q" using C(2) s that by (simp add: touches_def)
      moreover have "same_entity w1 w2 q" using A that by (auto simp: same_entity_def split: option.split)
      moreover have "same_entity w2 w3 q" using t ok2 that by (simp add: touches_def)
      ultimately show ?thesis by (simp add: same_entity_def su')
    qed
    show "su' = su\<lparr>su_world := su_world su', su_netIdToEntity := (su_netIdToEntity su)(n \<mapsto> e)\<rparr>" using su' by simp
  qed
qed

lemma same_entity_get: "same_entity w w' e \<Longrightarrow> ct_ok T \<Longrightarrow> get T w' e = get T w e"
  by (simp add: same_entity_def get_def ct_okD(2))

lemma refit_completes: "refit cat nm hf e w = Some w' \<Longrightarrow> completes e w w'"
proof -
  assume "refit cat nm hf e w = Some w'"
  then obtain b w1 where i: "InstallFit cat e nm w = Some (b, w1)" "w' = (case get T_Health w1 e of Some h \<Rightarrow> put T_Health (hf h) e w1 | None \<Rightarrow> w1)"
    by (auto simp: refit_def bind_eq_Some_conv)
  have "completes e w1 w'" unfolding i(2)
    by (auto simp: identity_slots_def ct_simps split: option.split intro: completes_refl completes_put)
  with completes_fit [OF i(1)] show ?thesis by (rule completes_trans)
qed

lemma all_in_order_inv:
  "(\<And>x s s'. x \<in> set xs \<Longrightarrow> f x s = Some s' \<Longrightarrow> P s \<Longrightarrow> P s') \<Longrightarrow> all_in_order f xs su = Some su' \<Longrightarrow> P su \<Longrightarrow> P su'"
proof (induction xs arbitrary: su)
  case (Cons x xs)
  then obtain s where s: "f x su = Some s" "all_in_order f xs s = Some su'" by (auto simp: bind_eq_Some_conv)
  have "P s" using Cons.prems(1,3) s(1) by auto
  show ?case by (rule Cons.IH [OF _ s(2) \<open>P s\<close>]) (rule Cons.prems(1), auto)
qed simp

named_theorems restored \<open>the component lists of restored entities\<close>

lemma restored_ok [restored]:
  "\<forall>c \<in> set (restored_base su bds b). fst c < 64 \<and> slot_of (snd c) = fst c"
  "\<forall>c \<in> set (restored_ship su sh). fst c < 64 \<and> slot_of (snd c) = fst c"
  "\<forall>c \<in> set (restored_npc n). fst c < 64 \<and> slot_of (snd c) = fst c"
  by (simp_all add: restored_base_def restored_ship_def restored_npc_def guardian_comps_def init_def comp_types slot_of_def)

lemma npc_finish:
  assumes "Option.bind (refit cat nm hf e w) (add T_NpcAi ai e) = Some w'"
  shows "touches {e} w w'"
proof -
  from assms obtain w1 where w: "refit cat nm hf e w = Some w1" "add T_NpcAi ai e w1 = Some w'" by (auto simp: bind_eq_Some_conv)
  show ?thesis
    using completes_touches [OF refit_completes [OF w(1)]] touches_add [OF w(2), of "{e}"] by (simp add: ct_simps touches_trans)
qed

lemma wiped_ok:
  assumes "sim_ok (su_world su)"
  shows "sim_ok (su_world (wiped old s su))" "IsAlive (su_world (wiped old s su)) e = (IsAlive (su_world su) e \<and> e \<notin> set old)"
    "\<not> IsBase (wiped old s su) n"
proof -
  have f: "sim_ok (fold (\<lambda>e w. if IsAlive w e then destroy e w else w) old w) \<and>
      IsAlive (fold (\<lambda>e w. if IsAlive w e then destroy e w else w) old w) e = (IsAlive w e \<and> e \<notin> set old)" if "sim_ok w" for w
    using that by (induction old arbitrary: w) (auto simp: destroy_frame)
  show "sim_ok (su_world (wiped old s su))" "IsAlive (su_world (wiped old s su)) e = (IsAlive (su_world su) e \<and> e \<notin> set old)"
    using f [OF assms] by (simp_all add: wiped_def)
  show "\<not> IsBase (wiped old s su) n"
    by (simp add: IsBase_def EntityOf_def wiped_def has_def HasComponent_def IsAlive_def Index_def Let_def)
qed

section \<open>A restored base cannot be moved\<close>

text \<open>The base at a network id, if any, takes no fleet order.\<close>

definition bases_fixed :: "server \<Rightarrow> bool" where
  "bases_fixed su \<longleftrightarrow> sim_ok (su_world su) \<and> (\<forall>n. IsBase su n \<longrightarrow> comp_of T_FleetOrder su n = None)"

lemma respawn_fixed:
  assumes "respawn comps fin n su = Some su'" "bases_fixed su" "\<forall>c \<in> set comps. fst c < 64 \<and> slot_of (snd c) = fst c"
    "\<And>e w w'. fin e w = Some w' \<Longrightarrow> touches {e} w w' \<and> (\<forall>k \<in> {2, 18}. sim_ok w \<longrightarrow> GetComponent w' k e = GetComponent w k e)"
    "map_of comps 2 = None \<or> map_of comps 18 = None"
  shows "bases_fixed su'"
proof -
  have s: "sim_ok (su_world su)" using assms(2) by (simp add: bases_fixed_def)
  obtain e w where V: "sim_ok w" "\<And>k. k < 64 \<Longrightarrow> GetComponent w k e = map_of comps k"
    "fin e w = Some (su_world su')" "sim_ok (su_world su')" "\<And>q. q \<noteq> e \<Longrightarrow> same_entity (su_world su) (su_world su') q"
    "su' = su\<lparr>su_world := su_world su', su_netIdToEntity := (su_netIdToEntity su)(n \<mapsto> e)\<rparr>"
    by (rule respawn_view [OF assms(1) s assms(3)]) (use assms(4) in blast)+
  have new: "get T_BaseTag (su_world su') e = None \<or> get T_FleetOrder (su_world su') e = None"
    using assms(4) [OF V(3)] V(1,2) assms(5) by (auto simp: get_def ct_simps)
  have "comp_of T_FleetOrder su' m = None" if "IsBase su' m" for m
  proof (cases "EntityOf su' m = e")
    case True
    then show ?thesis using new that has_get [OF V(4), of T_BaseTag] by (simp add: IsBase_def comp_of_def ct_simps)
  next
    case False
    have m: "EntityOf su' m = EntityOf su m"
      using False by (subst V(6), subst (asm) V(6)) (auto simp: EntityOf_def split: if_splits)
    have g: "get T (su_world su') (EntityOf su m) = get T (su_world su) (EntityOf su m)" if "ct_ok T" for T :: "'x CompType"
      using same_entity_get [OF V(5) that] False m by simp
    have "IsBase su m" using that has_get [OF V(4), of T_BaseTag] has_get [OF s, of T_BaseTag] g [of T_BaseTag]
      by (simp add: IsBase_def m ct_simps)
    then show ?thesis using assms(2) g [of T_FleetOrder] by (simp add: comp_of_def m bases_fixed_def ct_simps)
  qed
  then show ?thesis using V(4) by (simp add: bases_fixed_def)
qed

lemma completes_fixed: "completes e w w' \<Longrightarrow> touches {e} w w' \<and> (\<forall>k \<in> {2, 18}. sim_ok w \<longrightarrow> GetComponent w' k e = GetComponent w k e)"
  using completes_touches [of e w w'] by (auto simp: completes_def identity_slots_def)

lemma npc_fixed:
  assumes "Option.bind (refit cat nm hf e w) (add T_NpcAi ai e) = Some w'"
  shows "touches {e} w w' \<and> (\<forall>k \<in> {2, 18}. sim_ok w \<longrightarrow> GetComponent w' k e = GetComponent w k e)"
proof -
  from assms obtain w1 where w: "refit cat nm hf e w = Some w1" "add T_NpcAi ai e w1 = Some w'" by (auto simp: bind_eq_Some_conv)
  have c: "completes e w w1" by (rule refit_completes [OF w(1)])
  have "GetComponent w' k e = GetComponent w k e" if "k \<in> {2, 18}" "sim_ok w" for k
  proof -
    have "sim_ok w1" "GetComponent w1 k e = GetComponent w k e" using c that by (auto simp: completes_def identity_slots_def)
    then show ?thesis using add_frame(3) [OF _ w(2) [unfolded add_def], of k e] that(1) by (auto simp: ct_okD ct_simps)
  qed
  then show ?thesis using npc_finish [OF assms] by blast
qed

lemma bases_fixed_update [simp]:
  "bases_fixed (su\<lparr>su_siteAlive := a\<rparr>) = bases_fixed su" "bases_fixed (su\<lparr>su_clearedSites := c\<rparr>) = bases_fixed su"
  "bases_fixed (su\<lparr>su_nextNetId := i\<rparr>) = bases_fixed su"
  by (simp_all add: bases_fixed_def IsBase_def comp_of_def EntityOf_def)

lemma RestoreBase_fixed: "RestoreBase bds b su = Some su' \<Longrightarrow> bases_fixed su \<Longrightarrow> bases_fixed su'"
  unfolding RestoreBase_def
  by (erule respawn_fixed, assumption, rule restored, rule completes_fixed, erule refit_completes)
     (simp add: restored_base_def init_def ct_slots)

lemma RestoreShip_fixed: "RestoreShip sh su = Some su' \<Longrightarrow> bases_fixed su \<Longrightarrow> bases_fixed su'"
  unfolding RestoreShip_def
  by (erule respawn_fixed, assumption, rule restored, rule completes_fixed, erule refit_completes)
     (simp add: restored_ship_def init_def ct_slots)

lemma npc_result: "map_option (\<lambda>su. su\<lparr>su_siteAlive := g su\<rparr>) m = Some su' \<Longrightarrow> \<exists>s1 sa. m = Some s1 \<and> su' = s1\<lparr>su_siteAlive := sa\<rparr>"
  by (cases m) auto

lemma RestoreNpc_fixed: "RestoreNpc n su = Some su' \<Longrightarrow> bases_fixed su \<Longrightarrow> bases_fixed su'"
proof -
  assume a: "RestoreNpc n su = Some su'" "bases_fixed su"
  then obtain s1 sa where r: "respawn (restored_npc n) (\<lambda>e w. Option.bind (refit (su_combat su) NPC_FIT (\<lambda>h. h\<lparr>h_hp := sint (n_hp n)\<rparr>) e w)
      (add T_NpcAi (guardian_ai (n_aiState n) (pos_of (n_x n) (n_y n) (n_z n)) (n_siteId n)) e)) (n_netId n) su = Some s1"
    "su' = s1\<lparr>su_siteAlive := sa\<rparr>" using npc_result [OF a(1) [unfolded RestoreNpc_def]] by blast
  have "bases_fixed s1"
    by (rule respawn_fixed [OF r(1) a(2) restored(3)], erule npc_fixed)
       (simp add: restored_npc_def guardian_comps_def init_def ct_slots)
  then show ?thesis by (simp add: r(2))
qed

lemma RestoreState_fixed:
  assumes "RestoreState order s su = Some su'" "sim_ok (su_world su)"
  shows "bases_fixed su'"
proof -
  from assms(1) obtain s1 s2 s3 where r: "all_in_order (RestoreBase (builds s)) (bases s) (wiped (tracked order su) s su) = Some s1"
    "all_in_order RestoreShip (ships s) s1 = Some s2"
    "all_in_order RestoreNpc (npcs s) (s2\<lparr>su_siteAlive := Map.empty, su_clearedSites := []\<rparr>) = Some s3"
    "su' = s3\<lparr>su_nextNetId := max_netId s + 1\<rparr>"
    by (auto simp: RestoreState_def bind_eq_Some_conv)
  have "bases_fixed (wiped (tracked order su) s su)" using wiped_ok [OF assms(2)] by (simp add: bases_fixed_def)
  then have "bases_fixed s1" by (rule all_in_order_inv [where P = bases_fixed, OF _ r(1), rotated]) (rule RestoreBase_fixed)
  then have "bases_fixed s2" by (rule all_in_order_inv [where P = bases_fixed, OF _ r(2), rotated]) (rule RestoreShip_fixed)
  then have "bases_fixed (s2\<lparr>su_siteAlive := Map.empty, su_clearedSites := []\<rparr>)" by simp
  then have "bases_fixed s3" by (rule all_in_order_inv [where P = bases_fixed, OF _ r(3), rotated]) (rule RestoreNpc_fixed)
  then show ?thesis using r(4) by simp
qed

text \<open>C12: After a restart no base moves.  Whatever state is restored, every base rejects all orders to move, to
  retreat, to attack, to guard, to orbit or to keep a range, and nothing changes: the restored bases have no
  order component, which every spawned base has.\<close>

theorem restored_bases_immobile:
  assumes "RestoreState order s su = Some su'" "sim_ok (su_world su)" "IsBase su' n"
    "intent cmd \<in> {IntentMove, IntentRetreat, IntentAttack, IntentGuard, IntentOrbit, IntentKeepRange}"
  shows "ApplyIntentToUnit n cmd su' = (False, su')"
proof -
  have f: "comp_of T_FleetOrder su' n = None" using RestoreState_fixed [OF assms(1,2)] assms(3) by (simp add: bases_fixed_def)
  have "PushOrder n en q su' = (False, su')" for en q using f by (simp add: PushOrder_def)
  moreover have "has T_BaseTag (su_world su') (EntityOf su' n)" using assms(3) by (simp add: IsBase_def)
  ultimately show ?thesis using assms(4)
    by (auto simp: ApplyIntentToUnit_def IntentStop_def IntentHarvest_def IntentWarp_def IntentJump_def IntentBuild_def IntentClaimLoot_def
        IntentMove_def IntentRetreat_def IntentAttack_def IntentGuard_def IntentOrbit_def IntentKeepRange_def split: option.split)
qed

definition saved_base :: PersistBase where
  "saved_base = \<lparr>b_netId = 5, b_ownerAccount = 5, b_x = 100, b_y = 0, b_z = 0, b_shieldHp = 900, b_armorHp = 900, b_hullHp = 850,
     b_storage = (0, 0, 0), b_fuel = 0, b_navPhase = 0, b_baseState = 0\<rparr>"

definition saved_state :: PersistState where
  "saved_state = \<lparr>tick = 7, outboxSeq = 0, bases = [saved_base], ships = [], builds = [], npcs = []\<rparr>"

lemma saved_restores: "map_option (\<lambda>su. IsBase su 5) (RestoreState [] saved_state ServerUniverse_new) = Some True"
  by code_simp

definition move_order :: FleetCommand where
  "move_order = \<lparr>clientTick = 0, intent = IntentMove, queue = False, cmd_units = [5], targetNetId = 0,
     targetPoint = UniversePos_zero, cmd_range = 0, beacon = []\<rparr>"

theorem restored_bases_immobile_witness:
  "\<exists>su'. RestoreState [] saved_state ServerUniverse_new = Some su' \<and> IsBase su' 5 \<and> ApplyIntentToUnit 5 move_order su' = (False, su')"
proof -
  obtain su' where r: "RestoreState [] saved_state ServerUniverse_new = Some su'" "IsBase su' 5" using saved_restores by auto
  have "sim_ok (su_world ServerUniverse_new)" by (simp add: ServerUniverse_new_def registered_ok)
  from restored_bases_immobile [OF r(1) this r(2), of move_order] r show ?thesis by (auto simp: move_order_def)
qed

end
