(* ===== verification/Restart_Roundtrip.thy ===== *)
theory Restart_Roundtrip
  imports Server_Persist
begin

text \<open>
  A restart loses no base, ship or guardian: what \<open>CaptureState\<close> reads from the restored server is
  what was saved.  The rows of an entity (\<open>base_row\<close>, \<open>ship_row\<close>, \<open>npc_row\<close>) are what capture reads
  of it when its network id leads back to it (\<open>ids_ok\<close>); \<open>captured\<close> collects the rows of all
  entities, and every restored entity adds its own.
\<close>

section \<open>Rows\<close>

definition base_row :: "world \<Rightarrow> EntityHandle \<Rightarrow> PersistBase option" where
  "base_row w e = do {
     _ \<leftarrow> get T_BaseTag w e; n \<leftarrow> get T_NetId w e; t \<leftarrow> get T_Transform w e;
     let h = get T_Health w e;
     Some \<lparr>b_netId = n, b_ownerAccount = ucast (case get T_OwnerId w e of Some o' \<Rightarrow> o' | None \<Rightarrow> 0),
           b_x = up_x (tf_pos t), b_y = up_y (tf_pos t), b_z = up_z (tf_pos t),
           b_shieldHp = (case h of Some h \<Rightarrow> word_of_int (h_maxHp h) | None \<Rightarrow> 0),
           b_armorHp = (case h of Some h \<Rightarrow> word_of_int (h_maxHp h) | None \<Rightarrow> 0),
           b_hullHp = (case h of Some h \<Rightarrow> word_of_int (h_hp h) | None \<Rightarrow> 0),
           b_storage = (case get T_Storage w e of Some st \<Rightarrow> float3_of (ho_amount st) | None \<Rightarrow> (0, 0, 0)),
           b_fuel = (case get T_Fuel w e of Some fl \<Rightarrow> f32_of (fu_current fl) | None \<Rightarrow> 0),
           b_navPhase = (case get T_NavState w e of Some n \<Rightarrow> nv_phase n | None \<Rightarrow> 0),
           b_baseState = (case get T_BaseCombat w e of Some bc \<Rightarrow> bc_state bc | None \<Rightarrow> 0)\<rparr> }"

definition ship_row :: "world \<Rightarrow> EntityHandle \<Rightarrow> PersistShip option" where
  "ship_row w e = do {
     ty \<leftarrow> get T_ShipTag w e; n \<leftarrow> get T_NetId w e; t \<leftarrow> get T_Transform w e;
     if get T_NpcAi w e = None then
       Some \<lparr>s_netId = n, s_ownerAccount = ucast (case get T_OwnerId w e of Some o' \<Rightarrow> o' | None \<Rightarrow> 0),
             s_x = up_x (tf_pos t), s_y = up_y (tf_pos t), s_z = up_z (tf_pos t),
             s_hp = (case get T_Health w e of Some h \<Rightarrow> word_of_int (h_hp h) | None \<Rightarrow> 0),
             s_cargo = (case get T_Cargo w e of Some c \<Rightarrow> float3_of (ho_amount c) | None \<Rightarrow> (0, 0, 0)),
             s_shipType = ty\<rparr>
     else None }"

definition npc_row :: "world \<Rightarrow> EntityHandle \<Rightarrow> PersistNpc option" where
  "npc_row w e = do {
     ai \<leftarrow> get T_NpcAi w e; n \<leftarrow> get T_NetId w e; t \<leftarrow> get T_Transform w e;
     Some \<lparr>n_netId = n, n_x = up_x (tf_pos t), n_y = up_y (tf_pos t), n_z = up_z (tf_pos t),
           n_hp = (case get T_Health w e of Some h \<Rightarrow> word_of_int (h_hp h) | None \<Rightarrow> 0),
           n_siteId = ai_siteId ai, n_aiState = ai_state ai\<rparr> }"

definition rows :: "(world \<Rightarrow> EntityHandle \<Rightarrow> 'r option) \<Rightarrow> world \<Rightarrow> 'r set" where
  "rows row w = {r. \<exists>e. row w e = Some r}"

definition ids_ok :: "server \<Rightarrow> bool" where
  "ids_ok su \<longleftrightarrow> (\<forall>e n. get T_NetId (su_world su) e = Some n \<longrightarrow> su_netIdToEntity su n = Some e)"

lemma ids_comp: "ids_ok su \<Longrightarrow> get T_NetId (su_world su) e = Some n \<Longrightarrow> comp_of T su n = get T (su_world su) e"
  by (simp add: ids_ok_def comp_of_def EntityOf_def)

lemma rows_collect:
  assumes "sim_ok w" "ct_ok A" "ct_ok B" "ct_ok C"
    "\<And>e. row w e = (do { a \<leftarrow> get A w e; b \<leftarrow> get B w e; c \<leftarrow> get C w e; if P a b c then Some (f a b c) else None })"
  shows "set (for_each (\<lambda>_. w) [ct_slot A, ct_slot B, ct_slot C] (\<lambda>e s. or_skip s (do { a \<leftarrow> get A w e; b \<leftarrow> get B w e; c \<leftarrow> get C w e;
      Some (if P a b c then s @ [f a b c] else s) })) []) = rows row w"
proof -
  have "e \<in> set (entities w [ct_slot A, ct_slot B, ct_slot C])" if "row w e = Some r" for e r
    using that three_entity [OF assms(1-4)] unfolding assms(5) by (auto simp: bind_eq_Some_conv)
  then show ?thesis unfolding for_each_entities collect_list set_map_filter rows_def assms(5) [symmetric] append_Nil by blast
qed

lemma capture_rows:
  assumes "sim_ok (su_world su)" "ids_ok su"
  shows "set (bases (CaptureState su)) = rows base_row (su_world su)" "set (ships (CaptureState su)) = rows ship_row (su_world su)"
    "set (npcs (CaptureState su)) = rows npc_row (su_world su)"
proof -
  let ?w = "su_world su"
  note I = ids_comp [OF assms(2)]
  show "set (bases (CaptureState su)) = rows base_row ?w"
    unfolding CaptureState_def Let_def PersistState.select_convs
  proof (rule rows_collect [OF assms(1)])
    show "base_row ?w e = (do { a \<leftarrow> get T_BaseTag ?w e; b \<leftarrow> get T_NetId ?w e; c \<leftarrow> get T_Transform ?w e;
        if True then Some (capture_base su b c) else None })" for e
      by (cases "get T_NetId ?w e") (simp_all add: base_row_def capture_base_def OwnerOf_def I Let_def)
  qed (simp_all add: ct_simps)
  show "set (ships (CaptureState su)) = rows ship_row ?w"
    unfolding CaptureState_def Let_def PersistState.select_convs
  proof (rule rows_collect [OF assms(1)])
    show "ship_row ?w e = (do { a \<leftarrow> get T_ShipTag ?w e; b \<leftarrow> get T_NetId ?w e; c \<leftarrow> get T_Transform ?w e;
        if comp_of T_NpcAi su b = None then Some (capture_ship su a b c) else None })" for e
      by (cases "get T_NetId ?w e") (simp_all add: ship_row_def capture_ship_def OwnerOf_def I cong: if_cong)
  qed (simp_all add: ct_simps)
  show "set (npcs (CaptureState su)) = rows npc_row ?w"
    unfolding CaptureState_def Let_def PersistState.select_convs
  proof (rule rows_collect [OF assms(1)])
    show "npc_row ?w e = (do { a \<leftarrow> get T_NpcAi ?w e; b \<leftarrow> get T_NetId ?w e; c \<leftarrow> get T_Transform ?w e;
        if True then Some (capture_npc su a b c) else None })" for e
      by (cases "get T_NetId ?w e") (simp_all add: npc_row_def capture_npc_def I)
  qed (simp_all add: ct_simps)
qed

lemma row_same:
  assumes "same_entity w w' e"
  shows "base_row w' e = base_row w e" "ship_row w' e = ship_row w e" "npc_row w' e = npc_row w e"
  by (simp_all add: base_row_def ship_row_def npc_row_def ct_simps same_entity_get [OF assms] cong: if_cong)

lemma row_dead:
  assumes "\<not> IsAlive w e"
  shows "base_row w e = None" "ship_row w e = None" "npc_row w e = None"
proof -
  have d: "get T w e = None" for T :: "'x CompType" using get_alive [of T w e] assms by blast
  show "base_row w e = None" "ship_row w e = None" "npc_row w e = None" by (simp_all add: base_row_def ship_row_def npc_row_def d)
qed

lemma rows_new:
  assumes "\<And>q. q \<noteq> e \<Longrightarrow> row w' q = row w q" "row w e = None"
  shows "rows row w' = set_option (row w' e) \<union> rows row w"
  using assms by (auto simp: rows_def) (metis option.distinct(1))+

section \<open>Restoring one entity\<close>

definition captured :: "CombatCatalog \<Rightarrow> u32 \<Rightarrow> PersistBase set \<Rightarrow> PersistShip set \<Rightarrow> PersistNpc set \<Rightarrow> u32 set \<Rightarrow> server \<Rightarrow> bool" where
  "captured cat tk B S N ids su \<longleftrightarrow> sim_ok (su_world su) \<and> ids_ok su \<and> su_combat su = cat \<and> su_tick su = tk \<and> dom (su_netIdToEntity su) = ids \<and>
     rows base_row (su_world su) = B \<and> rows ship_row (su_world su) = S \<and> rows npc_row (su_world su) = N"

lemma captured_respawn:
  assumes "respawn comps fin n su = Some su'" "captured cat tk B S N ids su" "n \<notin> ids"
    "\<forall>c \<in> set comps. fst c < 64 \<and> slot_of (snd c) = fst c" "\<And>e w w'. fin e w = Some w' \<Longrightarrow> touches {e} w w'"
    "\<And>e w w'. fin e w = Some w' \<Longrightarrow> sim_ok w \<Longrightarrow> sim_ok w' \<Longrightarrow> IsAlive w e \<Longrightarrow> (\<And>k. k < 64 \<Longrightarrow> GetComponent w k e = map_of comps k) \<Longrightarrow>
       get T_NetId w' e = Some n \<and> base_row w' e = b \<and> ship_row w' e = sh \<and> npc_row w' e = np"
  shows "captured cat tk (set_option b \<union> B) (set_option sh \<union> S) (set_option np \<union> N) (insert n ids) su'"
proof -
  have s: "sim_ok (su_world su)" and i: "ids_ok su" using assms(2) by (simp_all add: captured_def)
  obtain e w where V: "\<not> IsAlive (su_world su) e" "sim_ok w" "IsAlive w e" "\<And>k. k < 64 \<Longrightarrow> GetComponent w k e = map_of comps k"
    "fin e w = Some (su_world su')" "sim_ok (su_world su')" "\<And>q. q \<noteq> e \<Longrightarrow> same_entity (su_world su) (su_world su') q"
    "su' = su\<lparr>su_world := su_world su', su_netIdToEntity := (su_netIdToEntity su)(n \<mapsto> e)\<rparr>"
    by (rule respawn_view [OF assms(1) s assms(4)]) (erule assms(5), rule that, assumption+)
  note new = assms(6) [OF V(5,2,6,3,4)]
  have m: "su_netIdToEntity su' = (su_netIdToEntity su)(n \<mapsto> e)" "su_combat su' = su_combat su" "su_tick su' = su_tick su" by (subst V(8), simp)+
  have "su_netIdToEntity su' k = Some q" if "get T_NetId (su_world su') q = Some k" for q k
  proof (cases "q = e")
    case True
    then show ?thesis using that new m by simp
  next
    case False
    then have "su_netIdToEntity su k = Some q" using that same_entity_get [OF V(7) [OF False], of T_NetId] i by (simp add: ids_ok_def ct_simps)
    moreover from this have "k \<noteq> n" using assms(2,3) by (auto simp: captured_def)
    ultimately show ?thesis using m by simp
  qed
  then have "ids_ok su'" by (simp add: ids_ok_def)
  moreover have "rows base_row (su_world su') = set_option b \<union> B" "rows ship_row (su_world su') = set_option sh \<union> S"
    "rows npc_row (su_world su') = set_option np \<union> N"
    using rows_new [where row = base_row and e = e and w = "su_world su" and w' = "su_world su'"]
      rows_new [where row = ship_row and e = e and w = "su_world su" and w' = "su_world su'"]
      rows_new [where row = npc_row and e = e and w = "su_world su" and w' = "su_world su'"]
      row_same [OF V(7)] row_dead [OF V(1)] new assms(2) by (simp_all add: captured_def)
  ultimately show ?thesis using V(6) m assms(2) by (simp add: captured_def)
qed

text \<open>What a fit leaves: the saved hit points in the health, and every component outside the fit.\<close>

lemma AddOrSet_get: "AddOrSet T v e w = Some w' \<Longrightarrow> ct_ok T \<Longrightarrow> sim_ok w \<Longrightarrow> get T w' e = Some v"
  using get_put [of w T v e e] add_frame(3) [of w "ct_slot T" "ct_wrap T v" e w' "ct_slot T" e]
  by (auto simp: AddOrSet_def add_def get_def ct_okD split: option.splits)

lemma direct_health:
  assumes "InstallFitDirect e h mods w = Some w'" "sim_ok w"
  shows "\<exists>h0. get T_Health w' e = Some h0"
proof -
  from assms(1) obtain w6 a b c d f g w1 w2 w3 w4 w5 where s: "AddOrSet T_DefenseLayers a e w = Some w1" "AddOrSet T_ResistProfile b e w1 = Some w2"
    "AddOrSet T_HullInfo c e w2 = Some w3"
    "(if \<not> has T_EwarStatus w3 e then add T_EwarStatus EwarStatus_new e w3 else Some w3) = Some w4"
    "AddOrSet T_Weapon d e w4 = Some w5" "AddOrSet T_Fitting f e w5 = Some w6" "AddOrSet T_Health g e w6 = Some w'"
    unfolding InstallFitDirect_def Let_def by (auto simp only: bind_eq_Some_conv)
  have k: "AddOrSet T v e u = Some u' \<Longrightarrow> ct_ok T \<Longrightarrow> sim_ok u \<Longrightarrow> sim_ok u'" for T :: "'x CompType" and v u u'
    by (auto simp: AddOrSet_def put_frame add_def split: option.splits dest: add_frame(1) simp: ct_okD)
  have "sim_ok w3" by (rule k [OF s(3) _ k [OF s(2) _ k [OF s(1) _ assms(2)]]]) (simp_all add: ct_simps)
  then have "sim_ok w4" using s(4) add_frame(1) [of w3 "ct_slot T_EwarStatus" "ct_wrap T_EwarStatus EwarStatus_new" e w4]
    by (simp add: add_def ct_okD ct_ok_EwarStatus split: if_splits)
  then have "sim_ok w6" by (intro k [OF s(6) _ k [OF s(5)]]) (simp_all add: ct_simps)
  then show ?thesis using AddOrSet_get [OF s(7)] by (simp add: ct_simps)
qed

lemma refit_health:
  assumes "refit cat nm hf e w = Some w'" "sim_ok w" "FindFit cat nm = Some ft" "FindHull cat (ftp_hull ft) = Some h"
  shows "\<exists>h0. get T_Health w' e = Some (hf h0)"
proof -
  from assms obtain w1 where i: "InstallFitDirect e h (List.map_filter (FindModule cat) (ftp_modules ft)) w = Some w1"
    "w' = (case get T_Health w1 e of Some h \<Rightarrow> put T_Health (hf h) e w1 | None \<Rightarrow> w1)"
    by (auto simp: refit_def InstallFit_def bind_eq_Some_conv)
  obtain h0 where h: "get T_Health w1 e = Some h0" using direct_health [OF i(1) assms(2)] by blast
  have "sim_ok w1" using completes_direct [OF i(1)] assms(2) by (simp add: completes_def)
  then show ?thesis using h i(2) get_put [of w1 T_Health] by (auto simp: ct_simps)
qed

lemma refit_others:
  assumes "refit cat nm hf e w = Some w'" "sim_ok w" "\<And>k. k < 64 \<Longrightarrow> GetComponent w k e = map_of comps k" "ct_ok T"
    "ct_slot T \<in> identity_slots"
  shows "get T w' e = Option.bind (map_of comps (ct_slot T)) (ct_unwrap T)"
  using refit_completes [OF assms(1)] assms by (simp add: completes_def get_def ct_okD(2))

definition canonical :: "float32 \<Rightarrow> bool" where
  "canonical f \<longleftrightarrow> f32_of (f32_val f) = f"

definition canonical3 :: "float3 \<Rightarrow> bool" where
  "canonical3 v \<longleftrightarrow> (case v of (a, b, c) \<Rightarrow> canonical a \<and> canonical b \<and> canonical c)"

definition fit_known :: "CombatCatalog \<Rightarrow> string \<Rightarrow> bool" where
  "fit_known cat nm \<longleftrightarrow> (case FindFit cat nm of None \<Rightarrow> False | Some ft \<Rightarrow> FindHull cat (ftp_hull ft) \<noteq> None)"

lemma float3_back: "canonical3 v \<Longrightarrow> float3_of (float3_list v) = v"
  by (auto simp: canonical3_def canonical_def float3_of_def float3_list_def split: prod.split)

lemma RestoreBase_captured:
  assumes "RestoreBase bds b su = Some su'" "captured cat tk B S N ids su" "b_netId b \<notin> ids" "fit_known cat ''base-firesupport''"
    "b_ownerAccount b < 2 ^ 32" "b_armorHp b = b_shieldHp b" "canonical3 (b_storage b)" "canonical (b_fuel b)"
  shows "captured cat tk (insert b B) S N (insert (b_netId b) ids) su'"
proof -
  have c: "su_combat su = cat" using assms(2) by (simp add: captured_def)
  let ?f = "refit cat ''base-firesupport'' (\<lambda>h. \<lparr>h_hp = sint (b_hullHp b), h_maxHp = sint (b_shieldHp b)\<rparr>)"
  have "get T_NetId w' e = Some (b_netId b) \<and> base_row w' e = Some b \<and> ship_row w' e = None \<and> npc_row w' e = None"
    if f: "?f e w = Some w'" "sim_ok w" "sim_ok w'" and g: "\<And>k. k < 64 \<Longrightarrow> GetComponent w k e = map_of (restored_base su bds b) k" for e w w'
  proof -
    obtain h0 where h: "get T_Health w' e = Some \<lparr>h_hp = sint (b_hullHp b), h_maxHp = sint (b_shieldHp b)\<rparr>"
      using refit_health [OF f(1,2)] assms(4) by (auto simp: fit_known_def split: option.splits)
    note G = refit_others [OF f(1,2) g]
    have o': "ucast (ucast (b_ownerAccount b) :: u32) = b_ownerAccount b"
      using assms(5) by (intro word_unat_eq_iff [THEN iffD2])
        (simp add: unsigned_ucast_eq unsigned_take_bit_eq take_bit_nat_eq_self word_less_nat_alt)
    have v: "get T_NetId w' e = Some (b_netId b)" "get T_BaseTag w' e = Some ()" "get T_ShipTag w' e = None" "get T_NpcAi w' e = None"
      "get T_Transform w' e = Some (at_pos (pos_of (b_x b) (b_y b) (b_z b)))" "get T_OwnerId w' e = Some (ucast (b_ownerAccount b))"
      "get T_Fuel w' e = Some \<lparr>fu_current = f32_val (b_fuel b), fu_max = nt_baseFuelMax (su_nav su)\<rparr>"
      "get T_NavState w' e = Some (NavState_new\<lparr>nv_phase := b_navPhase b\<rparr>)"
      "get T_Storage w' e = Some \<lparr>ho_amount = float3_list (b_storage b), ho_capacity = et_storageCapacity (su_economy su)\<rparr>"
      "get T_BaseCombat w' e = Some (BaseCombat_new\<lparr>bc_state := b_baseState b\<rparr>)"
      by (simp_all add: G ct_simps identity_slots_def, simp_all add: restored_base_def init_def comp_types)
    have "base_row w' e = Some b"
      using assms(6) float3_back [OF assms(7)] assms(8)
      by (simp add: base_row_def v h at_pos_def pos_of_def canonical_def o')
    then show ?thesis by (simp add: v ship_row_def npc_row_def)
  qed
  then have "captured cat tk (set_option (Some b) \<union> B) (set_option None \<union> S) (set_option None \<union> N) (insert (b_netId b) ids) su'"
    by (intro captured_respawn [OF assms(1) [unfolded RestoreBase_def c] assms(2,3) restored(1)] completes_touches)
       (auto intro: refit_completes)
  then show ?thesis by simp
qed

lemma owner_back: "x < 2 ^ 32 \<Longrightarrow> ucast (ucast x :: u32) = x" for x :: u64
  by (intro word_unat_eq_iff [THEN iffD2])
    (simp add: unsigned_ucast_eq unsigned_take_bit_eq take_bit_nat_eq_self word_less_nat_alt)

lemma RestoreShip_captured:
  assumes "RestoreShip sh su = Some su'" "captured cat tk B S N ids su" "s_netId sh \<notin> ids" "fit_known cat DEFAULT_SHIP_FIT"
    "s_ownerAccount sh < 2 ^ 32" "canonical3 (s_cargo sh)"
  shows "captured cat tk B (insert sh S) N (insert (s_netId sh) ids) su'"
proof -
  have c: "su_combat su = cat" using assms(2) by (simp add: captured_def)
  let ?f = "refit cat DEFAULT_SHIP_FIT (\<lambda>h. h\<lparr>h_hp := sint (s_hp sh)\<rparr>)"
  have "get T_NetId w' e = Some (s_netId sh) \<and> base_row w' e = None \<and> ship_row w' e = Some sh \<and> npc_row w' e = None"
    if f: "?f e w = Some w'" "sim_ok w" "sim_ok w'" and g: "\<And>k. k < 64 \<Longrightarrow> GetComponent w k e = map_of (restored_ship su sh) k" for e w w'
  proof -
    obtain h0 where h: "get T_Health w' e = Some (h0\<lparr>h_hp := sint (s_hp sh)\<rparr>)"
      using refit_health [OF f(1,2)] assms(4) by (auto simp: fit_known_def split: option.splits)
    note G = refit_others [OF f(1,2) g]
    have v: "get T_NetId w' e = Some (s_netId sh)" "get T_BaseTag w' e = None" "get T_ShipTag w' e = Some (s_shipType sh)"
      "get T_NpcAi w' e = None" "get T_Transform w' e = Some (at_pos (pos_of (s_x sh) (s_y sh) (s_z sh)))"
      "get T_OwnerId w' e = Some (ucast (s_ownerAccount sh))"
      "get T_Cargo w' e = Some \<lparr>ho_amount = float3_list (s_cargo sh), ho_capacity = et_cargoCapacity (su_economy su)\<rparr>"
      by (simp_all add: G ct_simps identity_slots_def, simp_all add: restored_ship_def init_def comp_types)
    have "ship_row w' e = Some sh"
      using float3_back [OF assms(6)] by (simp add: ship_row_def v h at_pos_def pos_of_def owner_back [OF assms(5)])
    then show ?thesis by (simp add: v base_row_def npc_row_def)
  qed
  then have "captured cat tk (set_option None \<union> B) (set_option (Some sh) \<union> S) (set_option None \<union> N) (insert (s_netId sh) ids) su'"
    by (intro captured_respawn [OF assms(1) [unfolded RestoreShip_def c] assms(2,3) restored(2)] completes_touches)
       (auto intro: refit_completes)
  then show ?thesis by simp
qed

lemma captured_update [simp]:
  "captured cat tk B S N ids (su\<lparr>su_siteAlive := a\<rparr>) = captured cat tk B S N ids su"
  "captured cat tk B S N ids (su\<lparr>su_clearedSites := c\<rparr>) = captured cat tk B S N ids su"
  "captured cat tk B S N ids (su\<lparr>su_nextNetId := i\<rparr>) = captured cat tk B S N ids su"
  by (simp_all add: captured_def ids_ok_def)

lemma RestoreNpc_captured:
  assumes "RestoreNpc n su = Some su'" "captured cat tk B S N ids su" "n_netId n \<notin> ids" "fit_known cat NPC_FIT"
  shows "captured cat tk B S (insert n N) (insert (n_netId n) ids) su'"
proof -
  have c: "su_combat su = cat" using assms(2) by (simp add: captured_def)
  let ?ai = "guardian_ai (n_aiState n) (pos_of (n_x n) (n_y n) (n_z n)) (n_siteId n)"
  let ?r = "refit cat NPC_FIT (\<lambda>h. h\<lparr>h_hp := sint (n_hp n)\<rparr>)"
  let ?f = "\<lambda>e w. Option.bind (?r e w) (add T_NpcAi ?ai e)"
  obtain s1 sa where r: "respawn (restored_npc n) ?f (n_netId n) su = Some s1" "su' = s1\<lparr>su_siteAlive := sa\<rparr>"
    using npc_result [OF assms(1) [unfolded RestoreNpc_def c]] by blast
  have "get T_NetId w' e = Some (n_netId n) \<and> base_row w' e = None \<and> ship_row w' e = None \<and> npc_row w' e = Some n"
    if f: "?f e w = Some w'" "sim_ok w" "sim_ok w'" and g: "\<And>k. k < 64 \<Longrightarrow> GetComponent w k e = map_of (restored_npc n) k" for e w w'
  proof -
    obtain w1 where w: "?r e w = Some w1" "add T_NpcAi ?ai e w1 = Some w'" using f(1) by (auto simp: bind_eq_Some_conv)
    have s1: "sim_ok w1" using refit_completes [OF w(1)] f(2) by (simp add: completes_def)
    obtain h0 where h: "get T_Health w1 e = Some (h0\<lparr>h_hp := sint (n_hp n)\<rparr>)"
      using refit_health [OF w(1) f(2)] assms(4) by (auto simp: fit_known_def split: option.splits)
    have a: "get T w' e = (if ct_slot T = 20 then ct_unwrap T (C_NpcAi ?ai) else get T w1 e)" if "ct_ok T" for T :: "'x CompType"
    proof -
      have "GetComponent w' (ct_slot T) e = (if ct_slot T = ct_slot T_NpcAi then Some (ct_wrap T_NpcAi ?ai) else GetComponent w1 (ct_slot T) e)"
        using add_frame(3) [OF s1 w(2) [unfolded add_def] _ _ ct_okD(2) [OF that], of e]
        by (simp add: ct_okD [OF ct_ok_NpcAi])
      then show ?thesis by (simp add: get_def) (simp add: T_NpcAi_def)
    qed
    note G = refit_others [OF w(1) f(2) g]
    have v: "get T_NetId w1 e = Some (n_netId n)" "get T_BaseTag w1 e = None"
      "get T_Transform w1 e = Some (at_pos (pos_of (n_x n) (n_y n) (n_z n)))"
      by (simp_all add: G ct_simps identity_slots_def, simp_all add: restored_npc_def guardian_comps_def init_def comp_types)
    have v': "get T_NetId w' e = Some (n_netId n)" "get T_BaseTag w' e = None" "get T_NpcAi w' e = Some ?ai"
      "get T_Transform w' e = Some (at_pos (pos_of (n_x n) (n_y n) (n_z n)))" "get T_Health w' e = Some (h0\<lparr>h_hp := sint (n_hp n)\<rparr>)"
      using v h by (simp_all add: a ct_simps, simp add: T_NpcAi_def)
    show ?thesis by (simp add: base_row_def ship_row_def npc_row_def v' guardian_ai_def at_pos_def pos_of_def cong: if_cong)
  qed
  then have "captured cat tk (set_option None \<union> B) (set_option None \<union> S) (set_option (Some n) \<union> N) (insert (n_netId n) ids) s1"
    by (intro captured_respawn [OF r(1) assms(2,3) restored(3)] npc_finish) auto
  then show ?thesis by (simp add: r(2))
qed

section \<open>Restoring a state\<close>

definition base_ok :: "PersistBase \<Rightarrow> bool" where
  "base_ok b \<longleftrightarrow> b_ownerAccount b < 2 ^ 32 \<and> b_armorHp b = b_shieldHp b \<and> canonical3 (b_storage b) \<and> canonical (b_fuel b)"

definition ship_ok :: "PersistShip \<Rightarrow> bool" where
  "ship_ok sh \<longleftrightarrow> s_ownerAccount sh < 2 ^ 32 \<and> canonical3 (s_cargo sh)"

text \<open>What a captured state satisfies: each network id once, 32-bit owners and tick, one value for the two
  maxima, floats in their usual form.\<close>

definition saved_ok :: "PersistState \<Rightarrow> bool" where
  "saved_ok s \<longleftrightarrow> tick s < 2 ^ 32 \<and> distinct (map b_netId (bases s) @ map s_netId (ships s) @ map n_netId (npcs s)) \<and>
     list_all base_ok (bases s) \<and> list_all ship_ok (ships s)"

lemma bases_loop:
  "all_in_order (RestoreBase bds) bs su = Some su' \<Longrightarrow> captured cat tk B S N ids su \<Longrightarrow> fit_known cat ''base-firesupport'' \<Longrightarrow>
    distinct (map b_netId bs) \<Longrightarrow> b_netId ` set bs \<inter> ids = {} \<Longrightarrow> list_all base_ok bs \<Longrightarrow>
    captured cat tk (set bs \<union> B) S N (b_netId ` set bs \<union> ids) su'"
proof (induction bs arbitrary: su B ids)
  case (Cons b bs)
  then obtain s1 where s: "RestoreBase bds b su = Some s1" "all_in_order (RestoreBase bds) bs s1 = Some su'" by (auto simp: bind_eq_Some_conv)
  have "captured cat tk (insert b B) S N (insert (b_netId b) ids) s1"
    using Cons.prems by (intro RestoreBase_captured [OF s(1)]) (auto simp: base_ok_def)
  from Cons.IH [OF s(2) this] Cons.prems show ?case by auto
qed simp

lemma ships_loop:
  "all_in_order RestoreShip bs su = Some su' \<Longrightarrow> captured cat tk B S N ids su \<Longrightarrow> fit_known cat DEFAULT_SHIP_FIT \<Longrightarrow>
    distinct (map s_netId bs) \<Longrightarrow> s_netId ` set bs \<inter> ids = {} \<Longrightarrow> list_all ship_ok bs \<Longrightarrow>
    captured cat tk B (set bs \<union> S) N (s_netId ` set bs \<union> ids) su'"
proof (induction bs arbitrary: su S ids)
  case (Cons b bs)
  then obtain s1 where s: "RestoreShip b su = Some s1" "all_in_order RestoreShip bs s1 = Some su'" by (auto simp: bind_eq_Some_conv)
  have "captured cat tk B (insert b S) N (insert (s_netId b) ids) s1"
    using Cons.prems by (intro RestoreShip_captured [OF s(1)]) (auto simp: ship_ok_def)
  from Cons.IH [OF s(2) this] Cons.prems show ?case by auto
qed simp

lemma npcs_loop:
  "all_in_order RestoreNpc bs su = Some su' \<Longrightarrow> captured cat tk B S N ids su \<Longrightarrow> fit_known cat NPC_FIT \<Longrightarrow>
    distinct (map n_netId bs) \<Longrightarrow> n_netId ` set bs \<inter> ids = {} \<Longrightarrow>
    captured cat tk B S (set bs \<union> N) (n_netId ` set bs \<union> ids) su'"
proof (induction bs arbitrary: su N ids)
  case (Cons b bs)
  then obtain s1 where s: "RestoreNpc b su = Some s1" "all_in_order RestoreNpc bs s1 = Some su'" by (auto simp: bind_eq_Some_conv)
  have "captured cat tk B S (insert b N) (insert (n_netId b) ids) s1"
    using Cons.prems by (intro RestoreNpc_captured [OF s(1)]) auto
  from Cons.IH [OF s(2) this] Cons.prems show ?case by auto
qed simp

lemma wiped_captured:
  assumes "sim_ok (su_world su)" "\<forall>e. IsAlive (su_world su) e \<longrightarrow> e \<in> set old"
  shows "captured (su_combat su) (ucast (tick s)) {} {} {} {} (wiped old s su)"
proof -
  have d: "\<not> IsAlive (su_world (wiped old s su)) e" for e using wiped_ok(2) [OF assms(1)] assms(2) by blast
  have g: "get T (su_world (wiped old s su)) e = None" for T :: "'x CompType" and e using get_alive d by blast
  show ?thesis using wiped_ok(1) [OF assms(1)] row_dead [OF d]
    by (simp add: captured_def ids_ok_def g rows_def) (simp add: wiped_def)
qed

text \<open>C9: A restart loses nothing it has saved.  When every old entity is in the table of network ids (the
  restore visits all of it) and the fits of the game are in the catalog, capturing the restored server gives back the saved tick and exactly the saved bases,
  ships and guardians.\<close>

theorem restart_roundtrip:
  assumes "RestoreState order s su = Some su'" "saved_ok s" "sim_ok (su_world su)" "dom (su_netIdToEntity su) \<subseteq> set order"
    "\<forall>e. IsAlive (su_world su) e \<longrightarrow> e \<in> ran (su_netIdToEntity su)"
    "fit_known (su_combat su) ''base-firesupport''" "fit_known (su_combat su) DEFAULT_SHIP_FIT"
  shows "tick (CaptureState su') = tick s \<and> set (bases (CaptureState su')) = set (bases s) \<and>
    set (ships (CaptureState su')) = set (ships s) \<and> set (npcs (CaptureState su')) = set (npcs s)"
proof -
  let ?tk = "ucast (tick s) :: u32" and ?cat = "su_combat su"
  from assms(1) obtain s1 s2 s3 where r: "all_in_order (RestoreBase (builds s)) (bases s) (wiped (tracked order su) s su) = Some s1"
    "all_in_order RestoreShip (ships s) s1 = Some s2"
    "all_in_order RestoreNpc (npcs s) (s2\<lparr>su_siteAlive := Map.empty, su_clearedSites := []\<rparr>) = Some s3"
    "su' = s3\<lparr>su_nextNetId := max_netId s + 1\<rparr>"
    by (auto simp: RestoreState_def bind_eq_Some_conv)
  note ok = assms(2) [unfolded saved_ok_def]
  have old: "\<forall>e. IsAlive (su_world su) e \<longrightarrow> e \<in> set (tracked order su)" using assms(5) by (simp add: set_tracked [OF assms(4)])
  have b: "captured ?cat ?tk (set (bases s)) {} {} (b_netId ` set (bases s)) s1"
    using bases_loop [OF r(1) wiped_captured [OF assms(3) old] assms(6)] ok by simp
  have "s_netId ` set (ships s) \<inter> b_netId ` set (bases s) = {}" using ok by auto
  then have "captured ?cat ?tk (set (bases s)) (set (ships s) \<union> {}) {} (s_netId ` set (ships s) \<union> b_netId ` set (bases s)) s2"
    by (intro ships_loop [OF r(2) b assms(7)]) (use ok in simp_all)
  then have "captured ?cat ?tk (set (bases s)) (set (ships s)) {} (s_netId ` set (ships s) \<union> b_netId ` set (bases s))
      (s2\<lparr>su_siteAlive := Map.empty, su_clearedSites := []\<rparr>)" by simp
  from npcs_loop [OF r(3) this] assms(7) ok
  have "captured ?cat ?tk (set (bases s)) (set (ships s)) (set (npcs s))
      (n_netId ` set (npcs s) \<union> (s_netId ` set (ships s) \<union> b_netId ` set (bases s))) s3"
    by (simp add: NPC_FIT_def DEFAULT_SHIP_FIT_def) blast
  then have c: "captured ?cat ?tk (set (bases s)) (set (ships s)) (set (npcs s))
      (n_netId ` set (npcs s) \<union> (s_netId ` set (ships s) \<union> b_netId ` set (bases s))) su'" by (simp add: r(4))
  then have "tick (CaptureState su') = tick s" using ok by (simp add: CaptureState_def Let_def captured_def owner_back)
  then show ?thesis using c capture_rows [of su'] by (simp add: captured_def)
qed

theorem restart_roundtrip_witness:
  "\<exists>su'. RestoreState [] saved_state ServerUniverse_new = Some su' \<and> set (bases (CaptureState su')) = {saved_base}"
proof -
  obtain su' where r: "RestoreState [] saved_state ServerUniverse_new = Some su'" using saved_restores by auto
  have w: "su_world ServerUniverse_new = registered_world" by (simp add: ServerUniverse_new_def)
  have "canonical 0" by code_simp
  then have "saved_ok saved_state" by (simp add: saved_ok_def saved_state_def saved_base_def base_ok_def canonical3_def)
  moreover have "\<forall>e. IsAlive registered_world e \<longrightarrow> e \<in> ran (su_netIdToEntity ServerUniverse_new)"
    by (auto simp: IsAlive_def registered_world_def World_new_def Let_def unat_gt_0 Suc_le_eq)
  moreover have "fit_known (su_combat ServerUniverse_new) ''base-firesupport'' \<and> fit_known (su_combat ServerUniverse_new) DEFAULT_SHIP_FIT"
    by code_simp
  moreover have "dom (su_netIdToEntity ServerUniverse_new) \<subseteq> set []" by (simp add: ServerUniverse_new_def)
  ultimately show ?thesis using restart_roundtrip [OF r, folded w] r by (auto simp: w registered_ok saved_state_def)
qed

end
