(* ===== verification/Snapshot_Jobs.thy ===== *)
theory Snapshot_Jobs
  imports Server_Snapshots
begin

text \<open>
  The job pool that encodes the snapshots of all clients (\<open>NeuronCore/SnapshotJobs.h\<close>): the clients
  are dealt to the workers in turn, each worker encodes its share, and the results are gathered in
  the order of the clients.  Encoding one client reads the frozen state and touches only the
  baselines of that client (\<open>settled\<close>), so the partition does not matter.
\<close>

section \<open>Definitions\<close>

record EncodeResult =
  en_clientId :: u32
  en_snap :: DeltaSnapshot

definition PartitionClients :: "u32 list \<Rightarrow> nat \<Rightarrow> u32 list list" where
  "PartitionClients clients workerCount =
     (let w = (if workerCount = 0 then 1 else workerCount)
      in fold (\<lambda>i parts. parts[i mod w := parts ! (i mod w) @ [clients ! i]]) [0..<length clients] (replicate w []))"

definition encode_client :: "nat \<Rightarrow> u32 \<Rightarrow> (EncodeResult list \<times> nat) \<times> server \<Rightarrow> (EncodeResult list \<times> nat) \<times> server" where
  "encode_client byteBudget c s =
     (case s of ((out, capSum), su) \<Rightarrow>
       (case BuildClientSnapshot c byteBudget su of ((snap, capped), su) \<Rightarrow>
         ((out @ [\<lparr>en_clientId = c, en_snap = snap\<rparr>], capSum + capped), su)))"

definition EncodeClientsSerial :: "u32 list \<Rightarrow> nat \<Rightarrow> server \<Rightarrow> (EncodeResult list \<times> nat) \<times> server" where
  "EncodeClientsSerial clients byteBudget su = fold (encode_client byteBudget) clients (([], 0), su)"

text \<open>The loop over the workers: \<open>perWorker\<close> and the number of capped entities.\<close>

definition encode_parts :: "u32 list list \<Rightarrow> nat \<Rightarrow> server \<Rightarrow> (EncodeResult list list \<times> nat) \<times> server" where
  "encode_parts parts byteBudget su =
     fold (\<lambda>part s. case s of ((perWorker, capSum), su) \<Rightarrow>
         (case EncodeClientsSerial part byteBudget su of ((es, capped), su) \<Rightarrow> ((perWorker @ [es], capSum + capped), su)))
       parts (([], 0), su)"

text \<open>The gather loop with one cursor for each worker.\<close>

definition gather :: "'a list list \<Rightarrow> nat \<Rightarrow> 'a list" where
  "gather perWorker n =
     fst (fold (\<lambda>i (out, cursor). let w = i mod length perWorker
                 in (out @ [perWorker ! w ! (cursor ! w)], cursor[w := cursor ! w + 1]))
            [0..<n] ([], replicate (length perWorker) 0))"

definition EncodeClientsPooledCounting :: "u32 list \<Rightarrow> nat \<Rightarrow> nat \<Rightarrow> server \<Rightarrow> (EncodeResult list \<times> nat) \<times> server" where
  "EncodeClientsPooledCounting clients byteBudget workerCount su =
     (case encode_parts (PartitionClients clients workerCount) byteBudget su of
        ((perWorker, totalCapped), su) \<Rightarrow> ((gather perWorker (length clients), totalCapped), su))"

definition EncodeClientsPooled :: "u32 list \<Rightarrow> nat \<Rightarrow> nat \<Rightarrow> server \<Rightarrow> EncodeResult list \<times> server" where
  "EncodeClientsPooled clients byteBudget workerCount su =
     (case encode_parts (PartitionClients clients workerCount) byteBudget su of
        ((perWorker, _), su) \<Rightarrow> (gather perWorker (length clients), su))"

section \<open>One client\<close>

text \<open>What building the snapshot of a client makes of its two entries.\<close>

definition settled_baseline :: "server \<Rightarrow> u32 \<Rightarrow> ClientBaseline" where
  "settled_baseline su c =
     (let visible = VisibleTo c (su_interest su)
      in fold Untombstone visible (fold Tombstone (left_interest (CollectAcked (baseline_of su c) []) visible) (baseline_of su c)))"

definition settled_known :: "server \<Rightarrow> u32 \<Rightarrow> ClientKnownState" where
  "settled_known su c = fold Known_Forget (left_interest (CollectAcked (baseline_of su c) []) (VisibleTo c (su_interest su))) (known_of su c)"

definition settled :: "u32 set \<Rightarrow> server \<Rightarrow> server" where
  "settled S su = su\<lparr>su_baselines := (\<lambda>c. if c \<in> S then Some (settled_baseline su c) else su_baselines su c),
     su_known := (\<lambda>c. if c \<in> S then Some (settled_known su c) else su_known su c)\<rparr>"

lemma settled_empty [simp]: "settled {} su = su"
  by (simp add: settled_def)

lemma fold_entomb:
  "fold (entomb c) ns (set_known c k (set_baseline c b su)) = set_known c (fold Known_Forget ns k) (set_baseline c (fold Tombstone ns b) su)"
proof (induction ns arbitrary: b k)
  case (Cons n ns)
  have "entomb c n (set_known c k (set_baseline c b su)) = set_known c (Known_Forget n k) (set_baseline c (Tombstone n b) su)"
    by (simp add: entomb_def known_of_def) (simp add: set_known_def set_baseline_def)
  then show ?case using Cons by simp
qed simp

lemma build_eq:
  "BuildClientSnapshot c n su =
     (let lacked = filter (\<lambda>i. Needs (baseline_of su c) i (ReplVersion su i)) (VisibleTo c (su_interest su));
          cands = List.map_filter (candidate su c (GetBasePos su c) (ClientTargets su c)) lacked;
          sched = ScheduleClient cands (su_weights su) (su_visibleCap su);
          live = live_records su (known_of su c) (sr_ordered sched);
          tombs = CollectTombstones (settled_baseline su c) []
      in ((fst (BuildBudgetedSnapshot (su_tick su) (live @ map tomb_record tombs) n), sr_capped sched),
          set_known c (settled_known su c) (set_baseline c (settled_baseline su c) su)))"
proof -
  define su1 where "su1 = set_baseline c (baseline_of su c) su"
  have same: "SnapshotEntityOf su1 = SnapshotEntityOf su" "GetBasePos su1 = GetBasePos su" "ClientTargets su1 = ClientTargets su"
      "su_weights su1 = su_weights su" "su_visibleCap su1 = su_visibleCap su" "known_of su1 = known_of su" "su_tick su1 = su_tick su"
      "su_interest su1 = su_interest su" "su_lastSent su1 = su_lastSent su"
    by (auto simp: fun_eq_iff su1_def set_baseline_def SnapshotEntityOf_def comp_of_def EntityOf_def MakeSnapshotEntity_def entity_hp_def
        OwnerOf_def GetBasePos_def ClientTargets_def known_of_def)
  have d: "candidate su1 = candidate su" "live_records su1 = live_records su"
    by (intro ext, simp add: candidate_def live_records_def same cong: option.case_cong)+
  have b: "baseline_of su1 c = baseline_of su c" by (simp add: su1_def)
  have t: "TombstonesFor c (set_known c (known_of su c) su1) =
      (CollectTombstones (settled_baseline su c) [], set_known c (settled_known su c) (set_baseline c (settled_baseline su c) su))"
  proof -
    let ?s = "set_known c (known_of su c) su1"
    have e: "set_baseline c (baseline_of ?s c) ?s = set_known c (known_of su c) (set_baseline c (baseline_of su c) su)"
      by (simp add: b) (simp add: su1_def set_baseline_def set_known_def)
    have o': "set_baseline c x (set_known c k (set_baseline c y su)) = set_known c k (set_baseline c x su)" for x y k
      by (simp add: set_baseline_def set_known_def)
    show ?thesis unfolding TombstonesFor_def Let_def e fold_entomb
      by (simp add: b same settled_baseline_def settled_known_def Let_def o')
  qed
  show ?thesis unfolding BuildClientSnapshot_def ChangedFor_def Let_def su1_def [symmetric]
    by (simp add: same d t)
qed

text \<open>After the first build another one gives the same: the ids that left are gone and the visible ones
  are not touched.\<close>

lemma Tombstones_acked: "m_acked (fold Tombstone ns b) = filter (\<lambda>e. fst e \<notin> set ns) (m_acked b)"
proof (induction ns arbitrary: b)
  case (Cons n ns)
  have "m_acked (Tombstone n b) = filter (\<lambda>e. fst e \<noteq> n) (m_acked b)"
    by (simp add: Tombstone_def Let_def AList.delete_eq split_def eq_commute)
  then show ?case using Cons by simp
qed simp

lemma Untombstones_fields:
  "m_acked (fold Untombstone ns b) = m_acked b" "cb_pending (fold Untombstone ns b) = cb_pending b"
  "m_tombstones (fold Untombstone ns b) = filter (\<lambda>e. fst e \<notin> set ns) (m_tombstones b)"
proof (induction ns arbitrary: b)
  case (Cons n ns)
  case 1 show ?case using Cons(1) by (simp add: Untombstone_def)
  case 2 show ?case using Cons(2) by (simp add: Untombstone_def)
  case 3 show ?case using Cons(3) by (simp add: Untombstone_def AList.delete_eq filter_filter) (rule filter_cong, auto)
qed simp_all

lemma Forgets_known: "m_known (fold Known_Forget ns k) n = (if n \<in> set ns then None else m_known k n)"
  by (induction ns arbitrary: k) (auto simp: Known_Forget_def)

lemma settled_acked:
  "m_acked (settled_baseline su c) = filter (\<lambda>e. fst e \<in> set (VisibleTo c (su_interest su))) (m_acked (baseline_of su c))"
proof -
  have "set (left_interest (CollectAcked (baseline_of su c) []) (VisibleTo c (su_interest su))) =
      fst ` set (m_acked (baseline_of su c)) - set (VisibleTo c (su_interest su))"
    by (subst left_interest_set) (simp_all add: CollectAcked_def sorted_VisibleTo)
  then show ?thesis
    by (simp add: settled_baseline_def Let_def Untombstones_fields Tombstones_acked) (rule filter_cong, auto)
qed

lemma settled_twice:
  assumes "baseline_of su' c = settled_baseline su c" "known_of su' c = settled_known su c" "su_interest su' = su_interest su"
  shows "settled_baseline su' c = settled_baseline su c" "settled_known su' c = settled_known su c"
proof -
  let ?v = "VisibleTo c (su_interest su)"
  have "left_interest (CollectAcked (settled_baseline su c) []) ?v = []"
    using left_interest_set [of "CollectAcked (settled_baseline su c) []" ?v]
    by (auto simp: CollectAcked_def sorted_VisibleTo settled_acked simp flip: set_empty)
  then show "settled_known su' c = settled_known su c" "settled_baseline su' c = settled_baseline su c"
    using assms by (simp_all add: settled_known_def settled_baseline_def Let_def)
      (simp add: settled_baseline_def Let_def Untombstones_fields)
qed

section \<open>All clients\<close>

lemma settled_sel:
  "baseline_of (settled S su) c = (if c \<in> S then settled_baseline su c else baseline_of su c)"
  "known_of (settled S su) c = (if c \<in> S then settled_known su c else known_of su c)"
  "su_interest (settled S su) = su_interest su" "su_weights (settled S su) = su_weights su" "su_tick (settled S su) = su_tick su"
  "su_visibleCap (settled S su) = su_visibleCap su" "ReplVersion (settled S su) = ReplVersion su"
  "candidate (settled S su) = candidate su" "live_records (settled S su) = live_records su"
  "GetBasePos (settled S su) = GetBasePos su" "ClientTargets (settled S su) = ClientTargets su"
proof -
  have e: "SnapshotEntityOf (settled S su) = SnapshotEntityOf su" by (intro ext snapshot_entity_world) (simp_all add: settled_def)
  have "su_lastSent (settled S su) = su_lastSent su" "su_tick (settled S su) = su_tick su" by (simp_all add: settled_def)
  then show "candidate (settled S su) = candidate su" "live_records (settled S su) = live_records su"
    by (intro ext, simp add: candidate_def live_records_def e cong: option.case_cong)+
qed (auto simp: settled_def baseline_of_def known_of_def ReplVersion_def fun_eq_iff GetBasePos_def ClientTargets_def comp_of_def EntityOf_def)

lemma settled_fix: "settled_baseline (settled S su) c = settled_baseline su c \<and> settled_known (settled S su) c = settled_known su c"
proof (cases "c \<in> S")
  case True
  then show ?thesis using settled_twice [where su' = "settled S su" and su = su and c = c] by (simp add: settled_sel)
next
  case False
  then show ?thesis by (simp add: settled_baseline_def settled_known_def settled_sel)
qed

lemma build_lacked:
  "filter (\<lambda>i. Needs (settled_baseline su c) i (ReplVersion su i)) (VisibleTo c (su_interest su)) =
   filter (\<lambda>i. Needs (baseline_of su c) i (ReplVersion su i)) (VisibleTo c (su_interest su))"
proof (rule filter_cong [OF refl])
  fix i assume "i \<in> set (VisibleTo c (su_interest su))"
  then have "map_of (filter (\<lambda>e. fst e \<in> set (VisibleTo c (su_interest su))) m) i = map_of m i" for m :: "(u32 \<times> u32) list"
    by (induction m) auto
  then show "Needs (settled_baseline su c) i (ReplVersion su i) = Needs (baseline_of su c) i (ReplVersion su i)"
    by (simp add: Needs_def settled_acked)
qed

lemma live_settled:
  assumes "set ids \<subseteq> set (VisibleTo c (su_interest su))"
  shows "live_records su (settled_known su c) ids = live_records su (known_of su c) ids"
proof -
  have "set (left_interest (CollectAcked (baseline_of su c) []) (VisibleTo c (su_interest su))) \<inter> set ids = {}"
    using assms by (subst left_interest_set) (auto simp: CollectAcked_def sorted_VisibleTo)
  then have "Base (settled_known su c) i = Base (known_of su c) i" if "i \<in> set ids" for i
    using that by (auto simp: Base_def settled_known_def Forgets_known)
  then have "List.map_filter (\<lambda>n. map_option (\<lambda>cur. MakeDeltaRecord cur (Base (settled_known su c) n)) (SnapshotEntityOf su n)) ids =
      List.map_filter (\<lambda>n. map_option (\<lambda>cur. MakeDeltaRecord cur (Base (known_of su c) n)) (SnapshotEntityOf su n)) ids"
    by (induction ids) (auto simp: map_filter_simps split: option.split)
  then show ?thesis by (simp add: live_records_def)
qed

lemma build_settled:
  "BuildClientSnapshot c n (settled S su) = (fst (BuildClientSnapshot c n su), settled (insert c S) su)"
proof -
  let ?lacked = "filter (\<lambda>i. Needs (baseline_of su c) i (ReplVersion su i)) (VisibleTo c (su_interest su))"
  define cands where "cands = List.map_filter (candidate su c (GetBasePos su c) (ClientTargets su c)) ?lacked"
  define ids where "ids = sr_ordered (ScheduleClient cands (su_weights su) (su_visibleCap su))"
  have "sc_netId ` set cands \<subseteq> set ?lacked" by (auto simp: cands_def set_map_filter candidate_def)
  then have "set ids \<subseteq> set (VisibleTo c (su_interest su))" unfolding ids_def using scheduled_subset by fastforce
  then have k: "live_records su (known_of (settled S su) c) ids = live_records su (known_of su c) ids"
    using live_settled by (simp add: settled_sel)
  have b: "filter (\<lambda>i. Needs (baseline_of (settled S su) c) i (ReplVersion su i)) (VisibleTo c (su_interest su)) = ?lacked"
    using build_lacked [of su c] by (simp add: settled_sel)
  have s: "set_known c (settled_known su c) (set_baseline c (settled_baseline su c) (settled S su)) = settled (insert c S) su"
    by (auto simp: set_known_def set_baseline_def settled_def fun_eq_iff)
  show ?thesis unfolding build_eq settled_sel(3-) settled_fix [THEN conjunct1] settled_fix [THEN conjunct2] Let_def fst_conv b
      cands_def [symmetric] ids_def [symmetric] k s by (rule refl)
qed

definition encoded :: "server \<Rightarrow> nat \<Rightarrow> u32 \<Rightarrow> EncodeResult" where
  "encoded su n c = \<lparr>en_clientId = c, en_snap = fst (fst (BuildClientSnapshot c n su))\<rparr>"

definition capped_of :: "server \<Rightarrow> nat \<Rightarrow> u32 \<Rightarrow> nat" where
  "capped_of su n c = snd (fst (BuildClientSnapshot c n su))"

lemma serial_settled:
  "EncodeClientsSerial cs n (settled S su) = ((map (encoded su n) cs, sum_list (map (capped_of su n) cs)), settled (S \<union> set cs) su)"
proof -
  have "fold (encode_client n) cs ((out, k), settled S su) =
      ((out @ map (encoded su n) cs, k + sum_list (map (capped_of su n) cs)), settled (S \<union> set cs) su)" for out k
  proof (induction cs arbitrary: out k S)
    case (Cons c cs)
    have "encode_client n c ((out, k), settled S su) = ((out @ [encoded su n c], k + capped_of su n c), settled (insert c S) su)"
      by (simp add: encode_client_def build_settled encoded_def capped_of_def case_prod_beta)
    then show ?case using Cons by (simp add: ac_simps)
  qed simp
  then show ?thesis by (simp add: EncodeClientsSerial_def)
qed

lemma parts_settled:
  "encode_parts ps n su = ((map (map (encoded su n)) ps, sum_list (map (capped_of su n) (concat ps))), settled (set (concat ps)) su)"
proof -
  let ?f = "\<lambda>part s. case s of ((perWorker, capSum), su) \<Rightarrow>
         (case EncodeClientsSerial part n su of ((es, capped), su) \<Rightarrow> ((perWorker @ [es], capSum + capped), su))"
  have "fold ?f ps ((out, k), settled S su) =
      ((out @ map (map (encoded su n)) ps, k + sum_list (map (capped_of su n) (concat ps))), settled (S \<union> set (concat ps)) su)" for out k S
    by (induction ps arbitrary: out k S) (simp_all add: serial_settled ac_simps Un_assoc)
  from this [of "[]" 0 "{}"] show ?thesis by (simp add: encode_parts_def)
qed

section \<open>Dealing and gathering\<close>

lemma parts_dealt:
  assumes "0 < w" "m \<le> length cs"
  shows "fold (\<lambda>i parts. parts[i mod w := parts ! (i mod w) @ [cs ! i]]) [0..<m] (replicate w []) =
    map (\<lambda>j. map ((!) cs) (filter (\<lambda>k. k mod w = j) [0..<m])) [0..<w]"
  using assms(2)
proof (induction m)
  case 0
  show ?case by (simp add: map_replicate_const)
next
  case (Suc m)
  then show ?case using assms(1) by (auto intro!: nth_equalityI simp: nth_list_update)
qed

lemma filter_upt_nth: "i < n \<Longrightarrow> P i \<Longrightarrow> filter P [0..<n] ! length (filter P [0..<i]) = i"
proof -
  assume "i < n" "P i"
  then have "[0..<n] = [0..<i] @ i # [Suc i..<n]" using upt_add_eq_append [of 0 i "n - i"] by (simp add: upt_conv_Cons)
  then show ?thesis using \<open>P i\<close> by (simp add: nth_append)
qed

lemma gather_dealt:
  assumes "0 < w"
  shows "gather (map (\<lambda>j. map f (filter (\<lambda>k. k mod w = j) [0..<n])) [0..<w]) n = map f [0..<n]"
proof -
  let ?ps = "map (\<lambda>j. map f (filter (\<lambda>k. k mod w = j) [0..<n])) [0..<w]"
  have "fold (\<lambda>i (out, cursor). let v = i mod length ?ps
           in (out @ [?ps ! v ! (cursor ! v)], cursor[v := cursor ! v + 1])) [0..<i] ([], replicate (length ?ps) 0) =
        (map f [0..<i], map (\<lambda>j. length (filter (\<lambda>k. k mod w = j) [0..<i])) [0..<w])" if "i \<le> n" for i
    using that
  proof (induction i)
    case 0
    show ?case by (simp add: map_replicate_const)
  next
    case (Suc i)
    have len: "length (filter (\<lambda>k. k mod w = i mod w) [0..<i]) < length (filter (\<lambda>k. k mod w = i mod w) [0..<n])"
    proof -
      have "[0..<n] = [0..<i] @ i # [Suc i..<n]" using Suc.prems upt_add_eq_append [of 0 i "n - i"] by (simp add: upt_conv_Cons)
      then show ?thesis by simp
    qed
    then show ?case using Suc assms filter_upt_nth [of i n "\<lambda>k. k mod w = i mod w"]
      by (auto simp: Let_def intro!: nth_equalityI simp: nth_list_update)
  qed
  from this [of n] show ?thesis by (simp add: gather_def)
qed

lemma mset_deal: "j < length ps \<Longrightarrow> mset (concat (ps[j := ps ! j @ [x]])) = add_mset x (mset (concat ps))"
  by (subst (3) id_take_nth_drop, assumption) (simp add: upd_conv_take_nth_drop)

lemma mset_dealt:
  assumes "0 < w" "m \<le> length cs"
  shows "mset (concat (fold (\<lambda>i parts. parts[i mod w := parts ! (i mod w) @ [cs ! i]]) [0..<m] (replicate w []))) = mset (take m cs)"
  using assms(2)
proof (induction m)
  case (Suc m)
  let ?ps = "fold (\<lambda>i parts. parts[i mod w := parts ! (i mod w) @ [cs ! i]]) [0..<m] (replicate w [])"
  have "length ?ps = w" using parts_dealt [of w m cs] assms(1) Suc.prems by simp
  then have "mset (concat (?ps[m mod w := ?ps ! (m mod w) @ [cs ! m]])) = add_mset (cs ! m) (mset (concat ?ps))"
    using assms(1) by (intro mset_deal) simp
  then show ?case using Suc by (simp add: take_Suc_conv_app_nth)
qed simp

lemma partition_all: "mset (concat (PartitionClients cs w)) = mset cs"
  using mset_dealt [of "if w = 0 then 1 else w" "length cs" cs] by (simp add: PartitionClients_def Let_def)

text \<open>C16: The job pool is deterministic.  Whatever the number of workers, the pool returns for the clients the
  same snapshots in the same order as the serial encoder, counts the same capped entities, and leaves
  the same state.\<close>

theorem snapshot_pool_deterministic:
  "EncodeClientsPooledCounting clients byteBudget workerCount su = EncodeClientsSerial clients byteBudget su"
proof -
  let ?w = "if workerCount = 0 then 1 else workerCount" and ?f = "encoded su byteBudget"
  have "map (map ?f) (PartitionClients clients workerCount) =
      map (\<lambda>j. map (\<lambda>i. ?f (clients ! i)) (filter (\<lambda>k. k mod ?w = j) [0..<length clients])) [0..<?w]"
    by (simp add: PartitionClients_def Let_def parts_dealt)
  moreover have "map (\<lambda>i. ?f (clients ! i)) [0..<length clients] = map ?f clients" by (rule nth_equalityI) simp_all
  ultimately have g: "gather (map (map ?f) (PartitionClients clients workerCount)) (length clients) = map ?f clients"
    using gather_dealt [of ?w "\<lambda>i. ?f (clients ! i)" "length clients"] by simp
  have s: "set (concat (PartitionClients clients workerCount)) = set clients" using partition_all by (metis set_mset_mset)
  have k: "sum_list (map (capped_of su byteBudget) (concat (PartitionClients clients workerCount))) = sum_list (map (capped_of su byteBudget) clients)"
    using partition_all by (metis mset_map sum_mset_sum_list)
  show ?thesis using serial_settled [of clients byteBudget "{}" su]
    by (simp add: EncodeClientsPooledCounting_def parts_settled g k s [unfolded set_concat])
qed

end
