(* ===== verification/Account_Store.thy ===== *)
theory Account_Store
  imports Economy_Store "HOL-Library.Monad_Syntax"
begin

text \<open>
  Accounts and sessions: \<open>ERServer/persist/AccountStore.cpp\<close> over the tables \<open>Accounts\<close>, \<open>Sessions\<close>,
  \<open>Wallets\<close> and \<open>Bases\<close> of \<open>Config/db/migrations\<close>.  The SQL statements are functions on the
  tables with the declared constraints; the replies of the connection are decided by a parameter, as in
  \<open>Economy_Store\<close>, here with statements outside a transaction too.  Parameters (\<open>AuthEnv\<close>): the key
  derivation and the random bytes of Windows CNG, the collation of the user name column, and the clock
  of the database.  A query returns its row as the bytes fetched from each column, and \<open>cellI64\<close> reads
  them as the code does: a cell of fewer than eight bytes is 0.  Times are Unix seconds, and adding a lifetime to one does not overflow.
\<close>

section \<open>Connection\<close>

record 'd SqlConn =
  sq_db :: 'd
  sq_tx :: "'d option"
  sq_calls :: nat

definition sq_next :: "'d SqlConn \<Rightarrow> 'd SqlConn" where
  "sq_next c = c\<lparr>sq_calls := sq_calls c + 1\<rparr>"

definition Pool_Acquire :: "Network \<Rightarrow> 'd SqlConn \<Rightarrow> bool \<times> 'd SqlConn" where
  "Pool_Acquire net c = (net (sq_calls c) = Fine, sq_next c)"

definition Sql_BeginTransaction :: "Network \<Rightarrow> 'd SqlConn \<Rightarrow> bool \<times> 'd SqlConn" where
  "Sql_BeginTransaction net c =
     (if sq_tx c \<noteq> None then (True, c)
      else if net (sq_calls c) = Fine then (True, sq_next (c\<lparr>sq_tx := Some (sq_db c)\<rparr>)) else (False, sq_next c))"

text \<open>A statement works on the open transaction, or on the tables when there is none.\<close>

definition Sql_Exec :: "Network \<Rightarrow> ('d \<Rightarrow> 'a sql \<times> 'd) \<Rightarrow> 'd SqlConn \<Rightarrow> 'a sql \<times> 'd SqlConn" where
  "Sql_Exec net st c =
     (if net (sq_calls c) = Refused then (SqlError, sq_next c)
      else
        (case st (case sq_tx c of Some d \<Rightarrow> d | None \<Rightarrow> sq_db c) of
           (r, d) \<Rightarrow> (if net (sq_calls c) = Fine then r else SqlError,
             sq_next (case sq_tx c of Some _ \<Rightarrow> c\<lparr>sq_tx := Some d\<rparr> | None \<Rightarrow> c\<lparr>sq_db := d\<rparr>))))"

text \<open>Ending a transaction without committing: \<open>keep\<close> says what remains of it (the identity values it used).\<close>

definition Sql_Rollback :: "('d \<Rightarrow> 'd \<Rightarrow> 'd) \<Rightarrow> 'd SqlConn \<Rightarrow> 'd SqlConn" where
  "Sql_Rollback keep c =
     sq_next (case sq_tx c of None \<Rightarrow> c | Some d \<Rightarrow> c\<lparr>sq_db := keep d (sq_db c), sq_tx := None\<rparr>)"

definition Sql_Commit :: "('d \<Rightarrow> 'd \<Rightarrow> 'd) \<Rightarrow> Network \<Rightarrow> 'd SqlConn \<Rightarrow> bool \<times> 'd SqlConn" where
  "Sql_Commit keep net c =
     (case sq_tx c of
        None \<Rightarrow> (False, sq_next c)
      | Some d \<Rightarrow>
          (if net (sq_calls c) = Refused then (False, Sql_Rollback keep c)
           else (net (sq_calls c) = Fine, sq_next (c\<lparr>sq_db := d, sq_tx := None\<rparr>))))"

definition sql_ok :: "'a sql \<Rightarrow> bool" where
  "sql_ok r \<longleftrightarrow> (case r of SqlOk _ \<Rightarrow> True | _ \<Rightarrow> False)"

lemma sql_ok_simps [simp]: "sql_ok (SqlOk x)" "\<not> sql_ok SqlError" "\<not> sql_ok SqlUniqueViolation"
  by (simp_all add: sql_ok_def)

section \<open>Rows of a result\<close>

text \<open>\<open>ExecQuery\<close> reads every column as raw bytes: a \<open>BIGINT\<close> gives eight, an \<open>INT\<close> four, a
  \<open>TINYINT\<close> one, a \<open>NULL\<close> none (\<open>None\<close>).  The store reads a number from a cell only if it has at
  least eight bytes, and takes 0 otherwise: of the numbers below only the \<open>BIGINT\<close> ones are seen.\<close>

type_synonym SqlRow = "bytes option list"

definition cellI64 :: "SqlRow \<Rightarrow> nat \<Rightarrow> int" where
  "cellI64 row i =
     (if i \<ge> length row then 0
      else (case row ! i of None \<Rightarrow> 0 | Some b \<Rightarrow> if length b < 8 then 0 else sint (le_get 8 b :: u64)))"

definition cellBytes :: "SqlRow \<Rightarrow> nat \<Rightarrow> bytes" where
  "cellBytes row i = (if i \<ge> length row then [] else (case row ! i of None \<Rightarrow> [] | Some b \<Rightarrow> b))"

section \<open>Tables\<close>

record AccountRow =
  ac_id :: u64
  ac_username :: bytes
  ac_hash :: bytes
  ac_salt :: bytes
  ac_iterations :: u32
  ac_status :: nat
  ac_failures :: int
  ac_lockedUntil :: "int option"
  ac_tutorialDone :: bool

record SessionRow =
  ss_account :: u64
  ss_token :: bytes
  ss_expiresAt :: int
  ss_revoked :: bool

record AccountDb =
  ad_accounts :: "AccountRow list"
  ad_nextId :: int
  ad_sessions :: "SessionRow list"
  ad_wallets :: "u64 \<rightharpoonup> int"
  ad_bases :: "(u64 \<times> u64) list"

text \<open>\<open>INSERT INTO Accounts\<close> with \<open>UQ_Accounts_Username\<close> and the identity of \<open>AccountId\<close>.\<close>

definition insert_account :: "(bytes \<Rightarrow> bytes) \<Rightarrow> bytes \<Rightarrow> bytes \<Rightarrow> bytes \<Rightarrow> u32 \<Rightarrow> AccountDb \<Rightarrow> u64 sql \<times> AccountDb" where
  "insert_account coll username hash salt iterations db =
     (let i = ad_nextId db
      in if i \<ge> 2 ^ 63 \<or> iterations \<ge> 2 ^ 31 then (SqlError, db)
         else if coll username \<in> coll ` ac_username ` set (ad_accounts db) then (SqlUniqueViolation, db\<lparr>ad_nextId := i + 1\<rparr>)
         else (SqlOk (word_of_int i), db\<lparr>ad_nextId := i + 1, ad_accounts := ad_accounts db @
           [\<lparr>ac_id = word_of_int i, ac_username = username, ac_hash = hash, ac_salt = salt, ac_iterations = iterations, ac_status = 0,
             ac_failures = 0, ac_lockedUntil = None, ac_tutorialDone = False\<rparr>]\<rparr>))"

definition insert_wallet :: "u64 \<Rightarrow> AccountDb \<Rightarrow> nat sql \<times> AccountDb" where
  "insert_wallet account db =
     (if account \<notin> ac_id ` set (ad_accounts db) then (SqlError, db)
      else if ad_wallets db account \<noteq> None then (SqlUniqueViolation, db)
      else (SqlOk 1, db\<lparr>ad_wallets := (ad_wallets db)(account \<mapsto> 0)\<rparr>))"

text \<open>The columns a login selects, at the widths of the migrations: \<open>AccountId BIGINT\<close>, the hash and
  the salt, \<open>Status TINYINT\<close>, \<open>LoginFailures INT\<close>, the lock time as \<open>DATEDIFF_BIG\<close> (0 for \<open>NULL\<close>),
  \<open>CAST(TutorialDone AS INT)\<close> and \<open>Pbkdf2Iterations INT\<close>.\<close>

definition account_cells :: "AccountRow \<Rightarrow> SqlRow" where
  "account_cells r =
     [Some (le_put 8 (ac_id r)), Some (ac_hash r), Some (ac_salt r), Some (le_put 1 (of_nat (ac_status r) :: u8)),
      Some (le_put 4 (word_of_int (ac_failures r) :: u32)),
      Some (le_put 8 (word_of_int (case ac_lockedUntil r of None \<Rightarrow> 0 | Some t \<Rightarrow> t) :: u64)),
      Some (le_put 4 (of_bool (ac_tutorialDone r) :: u32)), Some (le_put 4 (ac_iterations r))]"

definition select_account :: "(bytes \<Rightarrow> bytes) \<Rightarrow> bytes \<Rightarrow> AccountDb \<Rightarrow> SqlRow option sql \<times> AccountDb" where
  "select_account coll username db =
     (SqlOk (map_option account_cells (find (\<lambda>r. coll (ac_username r) = coll username) (ad_accounts db))), db)"

definition update_account :: "(AccountRow \<Rightarrow> AccountRow) \<Rightarrow> u64 \<Rightarrow> AccountDb \<Rightarrow> nat sql \<times> AccountDb" where
  "update_account f account db =
     (SqlOk (length (filter (\<lambda>r. ac_id r = account) (ad_accounts db))),
      db\<lparr>ad_accounts := map (\<lambda>r. if ac_id r = account then f r else r) (ad_accounts db)\<rparr>)"

text \<open>The two updates of a login; the columns of an \<open>UPDATE\<close> are read before it.\<close>

definition count_failure :: "int \<Rightarrow> int \<Rightarrow> AccountRow \<Rightarrow> AccountRow" where
  "count_failure maxFailures lockUntil r =
     r\<lparr>ac_failures := ac_failures r + 1,
       ac_lockedUntil := (if ac_failures r + 1 \<ge> maxFailures then Some lockUntil else ac_lockedUntil r)\<rparr>"

definition reset_failures :: "AccountRow \<Rightarrow> AccountRow" where
  "reset_failures r = r\<lparr>ac_failures := 0, ac_lockedUntil := None\<rparr>"

definition revoke_where :: "(SessionRow \<Rightarrow> bool) \<Rightarrow> AccountDb \<Rightarrow> nat sql \<times> AccountDb" where
  "revoke_where P db =
     (SqlOk (length (filter (\<lambda>s. P s \<and> \<not> ss_revoked s) (ad_sessions db))),
      db\<lparr>ad_sessions := map (\<lambda>s. if P s \<and> \<not> ss_revoked s then s\<lparr>ss_revoked := True\<rparr> else s) (ad_sessions db)\<rparr>)"

definition insert_session :: "u64 \<Rightarrow> bytes \<Rightarrow> int \<Rightarrow> AccountDb \<Rightarrow> nat sql \<times> AccountDb" where
  "insert_session account token expiresAt db =
     (if account \<notin> ac_id ` set (ad_accounts db) then (SqlError, db)
      else if token \<in> ss_token ` set (ad_sessions db) then (SqlUniqueViolation, db)
      else (SqlOk 1, db\<lparr>ad_sessions := ad_sessions db @
        [\<lparr>ss_account = account, ss_token = token, ss_expiresAt = expiresAt, ss_revoked = False\<rparr>]\<rparr>))"

text \<open>The table \<open>Bases\<close> holds pairs of a base and its account.\<close>

definition base_of :: "u64 \<Rightarrow> AccountDb \<Rightarrow> u64 option" where
  "base_of account db = map_option fst (find (\<lambda>b. snd b = account) (ad_bases db))"

text \<open>The columns of a token check: \<open>AccountId BIGINT\<close>, the expiry as \<open>DATEDIFF_BIG\<close>,
  \<open>ISNULL(BaseId, 0) BIGINT\<close> and \<open>CAST(TutorialDone AS INT)\<close>.\<close>

definition select_session :: "bytes \<Rightarrow> int \<Rightarrow> AccountDb \<Rightarrow> SqlRow option sql \<times> AccountDb" where
  "select_session token dbNow db =
     (SqlOk (do { s \<leftarrow> find (\<lambda>s. ss_token s = token \<and> \<not> ss_revoked s \<and> ss_expiresAt s > dbNow) (ad_sessions db);
                  a \<leftarrow> find (\<lambda>a. ac_id a = ss_account s) (ad_accounts db);
                  Some [Some (le_put 8 (ss_account s)), Some (le_put 8 (word_of_int (ss_expiresAt s) :: u64)),
                        Some (le_put 8 (case base_of (ss_account s) db of None \<Rightarrow> 0 | Some i \<Rightarrow> i)),
                        Some (le_put 4 (of_bool (ac_tutorialDone a) :: u32))] }), db)"

definition keep_ids :: "AccountDb \<Rightarrow> AccountDb \<Rightarrow> AccountDb" where
  "keep_ids d db = db\<lparr>ad_nextId := ad_nextId d\<rparr>"

section \<open>The store\<close>

datatype AuthResult =
  Auth_Ok | UsernameTaken | InvalidCredentials | AccountLocked | RateLimited | AccountBanned | DbUnavailable | BadInput

definition SESSION_TOKEN_BYTES :: nat where "SESSION_TOKEN_BYTES = 32"
definition PW_HASH_BYTES :: nat where "PW_HASH_BYTES = 64"
definition PW_SALT_BYTES :: nat where "PW_SALT_BYTES = 32"
definition IP_WINDOW_SECONDS :: int where "IP_WINDOW_SECONDS = 60"
definition IP_WINDOW_MAX_ATTEMPTS :: u32 where "IP_WINDOW_MAX_ATTEMPTS = 20"

record SessionInfo =
  si_accountId :: u64
  si_token :: bytes
  si_expiresAt :: int
  si_baseId :: u64
  si_tutorialDone :: bool

definition SessionInfo_new :: SessionInfo where
  "SessionInfo_new = \<lparr>si_accountId = 0, si_token = replicate SESSION_TOKEN_BYTES 0, si_expiresAt = 0, si_baseId = 0, si_tutorialDone = False\<rparr>"

record PersistConfig =
  pc_pepper :: bytes
  pc_pbkdf2Iterations :: u32
  pc_maxLoginFailures :: u32
  pc_lockoutSeconds :: u64
  pc_sessionTtlSeconds :: u64

record AuthEnv =
  ev_net :: Network
  ev_coll :: "bytes \<Rightarrow> bytes"
  ev_pbkdf2 :: "bytes \<Rightarrow> bytes \<Rightarrow> u32 \<Rightarrow> nat \<Rightarrow> bytes"
  ev_random :: "nat \<Rightarrow> nat \<Rightarrow> bytes"
  ev_dbNow :: int

record AuthCounters =
  au_loginAttempts :: u64
  au_loginSuccess :: u64
  au_loginFailures :: u64
  au_lockouts :: u64
  au_rateLimited :: u64
  au_registrations :: u64

record IpWindow =
  iw_windowStart :: int
  iw_count :: u32

record AccountStore =
  as_cfg :: PersistConfig
  as_conn :: "AccountDb SqlConn"
  as_counters :: AuthCounters
  as_ipWindows :: "bytes \<rightharpoonup> IpWindow"
  as_randoms :: nat

definition MAX_USERNAME_CHARS :: nat where "MAX_USERNAME_CHARS = 64"
definition MIN_USERNAME_CHARS :: nat where "MIN_USERNAME_CHARS = 3"
definition MIN_PASSWORD_CHARS :: nat where "MIN_PASSWORD_CHARS = 8"
definition MAX_PASSWORD_CHARS :: nat where "MAX_PASSWORD_CHARS = 256"

definition ValidUsername :: "bytes \<Rightarrow> bool" where
  "ValidUsername u \<longleftrightarrow>
     \<not> (length u < MIN_USERNAME_CHARS \<or> length u > MAX_USERNAME_CHARS) \<and>
     list_all (\<lambda>c. (c \<ge> 0x61 \<and> c \<le> 0x7A) \<or> (c \<ge> 0x41 \<and> c \<le> 0x5A) \<or> (c \<ge> 0x30 \<and> c \<le> 0x39) \<or> c = 0x5F \<or> c = 0x2D \<or> c = 0x2E) u"

definition ValidPassword :: "bytes \<Rightarrow> bool" where
  "ValidPassword p \<longleftrightarrow> length p \<ge> MIN_PASSWORD_CHARS \<and> length p \<le> MAX_PASSWORD_CHARS"

definition HashPassword :: "AuthEnv \<Rightarrow> PersistConfig \<Rightarrow> bytes \<Rightarrow> bytes \<Rightarrow> u32 \<Rightarrow> bytes" where
  "HashPassword ev cfg password salt iterations =
     (let dk = ev_pbkdf2 ev (password @ pc_pepper cfg) salt iterations PW_HASH_BYTES
      in if length dk = PW_HASH_BYTES then dk else replicate PW_HASH_BYTES 0)"

definition ConstTimeEqual :: "bytes \<Rightarrow> bytes \<Rightarrow> bool" where
  "ConstTimeEqual a b \<longleftrightarrow>
     length a = length b \<and> fold (\<lambda>(x, y) diff. diff OR (ucast (x XOR y) :: u32)) (zip a b) 0 = 0"

definition RandomBytes :: "AuthEnv \<Rightarrow> nat \<Rightarrow> AccountStore \<Rightarrow> bytes \<times> AccountStore" where
  "RandomBytes ev n st = (ev_random ev (as_randoms st) n, st\<lparr>as_randoms := as_randoms st + 1\<rparr>)"

definition CheckIpRateLimit :: "bytes \<Rightarrow> int \<Rightarrow> AccountStore \<Rightarrow> bool \<times> AccountStore" where
  "CheckIpRateLimit ip now st =
     (let w = (case as_ipWindows st ip of Some w \<Rightarrow> w | None \<Rightarrow> \<lparr>iw_windowStart = 0, iw_count = 0\<rparr>);
          w = (if now - iw_windowStart w \<ge> IP_WINDOW_SECONDS then \<lparr>iw_windowStart = now, iw_count = 0\<rparr> else w);
          w = w\<lparr>iw_count := iw_count w + 1\<rparr>
      in (iw_count w \<le> IP_WINDOW_MAX_ATTEMPTS, st\<lparr>as_ipWindows := (as_ipWindows st)(ip \<mapsto> w)\<rparr>))"

definition on_counters :: "(AuthCounters \<Rightarrow> AuthCounters) \<Rightarrow> AccountStore \<Rightarrow> AccountStore" where
  "on_counters f st = st\<lparr>as_counters := f (as_counters st)\<rparr>"

text \<open>A call on the connection of the store.\<close>

definition on_conn :: "(AccountDb SqlConn \<Rightarrow> 'a \<times> AccountDb SqlConn) \<Rightarrow> AccountStore \<Rightarrow> 'a \<times> AccountStore" where
  "on_conn f st = (case f (as_conn st) of (r, c) \<Rightarrow> (r, st\<lparr>as_conn := c\<rparr>))"

definition give_up :: "AuthResult \<Rightarrow> AccountStore \<Rightarrow> (AuthResult \<times> SessionInfo) \<times> AccountStore" where
  "give_up r st = ((r, SessionInfo_new), st\<lparr>as_conn := Sql_Rollback keep_ids (as_conn st)\<rparr>)"

definition Register :: "AuthEnv \<Rightarrow> bytes \<Rightarrow> bytes \<Rightarrow> AccountStore \<Rightarrow> (AuthResult \<times> SessionInfo) \<times> AccountStore" where
  "Register ev username password st =
     (if \<not> ValidUsername username \<or> \<not> ValidPassword password then ((BadInput, SessionInfo_new), st) else
      let (lease, st) = on_conn (Pool_Acquire (ev_net ev)) st in
      if \<not> lease then ((DbUnavailable, SessionInfo_new), st) else
      let (salt, st) = RandomBytes ev PW_SALT_BYTES st;
          hash = HashPassword ev (as_cfg st) password salt (pc_pbkdf2Iterations (as_cfg st));
          (begun, st) = on_conn (Sql_BeginTransaction (ev_net ev)) st in
      if \<not> begun then ((DbUnavailable, SessionInfo_new), st) else
      let (accountId, st) = on_conn (Sql_Exec (ev_net ev)
            (insert_account (ev_coll ev) username hash salt (pc_pbkdf2Iterations (as_cfg st)))) st in
      case accountId of
        SqlUniqueViolation \<Rightarrow> give_up UsernameTaken st
      | SqlError \<Rightarrow> give_up DbUnavailable st
      | SqlOk i \<Rightarrow>
          (let (n, st) = on_conn (Sql_Exec (ev_net ev) (insert_wallet i)) st in
           if \<not> sql_ok n then give_up DbUnavailable st else
           let (done, st) = on_conn (Sql_Commit keep_ids (ev_net ev)) st in
           if \<not> done then give_up DbUnavailable st
           else ((Auth_Ok, SessionInfo_new\<lparr>si_accountId := i\<rparr>),
                 on_counters (\<lambda>c. c\<lparr>au_registrations := au_registrations c + 1\<rparr>) st)))"

text \<open>The part of \<open>Login\<close> after the password has been checked.\<close>

definition issue_session :: "AuthEnv \<Rightarrow> u64 \<Rightarrow> bool \<Rightarrow> int \<Rightarrow> AccountStore \<Rightarrow> (AuthResult \<times> SessionInfo) \<times> AccountStore" where
  "issue_session ev accountId tutorialDone now st =
     (let (_, st) = on_conn (Sql_Exec (ev_net ev) (update_account reset_failures accountId)) st;
          (begun, st) = on_conn (Sql_BeginTransaction (ev_net ev)) st in
      if \<not> begun then ((DbUnavailable, SessionInfo_new), st) else
      let (n, st) = on_conn (Sql_Exec (ev_net ev) (revoke_where (\<lambda>s. ss_account s = accountId))) st in
      if \<not> sql_ok n then give_up DbUnavailable st else
      let (token, st) = RandomBytes ev SESSION_TOKEN_BYTES st;
          expiresAt = now + uint (pc_sessionTtlSeconds (as_cfg st));
          (n, st) = on_conn (Sql_Exec (ev_net ev) (insert_session accountId token expiresAt)) st in
      if \<not> sql_ok n then give_up DbUnavailable st else
      let (done, st) = on_conn (Sql_Commit keep_ids (ev_net ev)) st in
      if \<not> done then give_up DbUnavailable st else
      let (b, st) = on_conn (Sql_Exec (ev_net ev) (\<lambda>db. (SqlOk (base_of accountId db), db))) st;
          baseId = (case b of SqlOk (Some i) \<Rightarrow> i | _ \<Rightarrow> 0)
      in ((Auth_Ok, \<lparr>si_accountId = accountId, si_token = token, si_expiresAt = expiresAt, si_baseId = baseId,
                    si_tutorialDone = tutorialDone\<rparr>),
          on_counters (\<lambda>c. c\<lparr>au_loginSuccess := au_loginSuccess c + 1\<rparr>) st))"

definition count_login_failure :: "AccountStore \<Rightarrow> AccountStore" where
  "count_login_failure = on_counters (\<lambda>c. c\<lparr>au_loginFailures := au_loginFailures c + 1\<rparr>)"

definition stored_iterations :: "PersistConfig \<Rightarrow> SqlRow \<Rightarrow> u32" where
  "stored_iterations cfg row =
     (let storedIters = cellI64 row 7 in if storedIters > 0 then word_of_int storedIters else pc_pbkdf2Iterations cfg)"

definition password_matches :: "AuthEnv \<Rightarrow> PersistConfig \<Rightarrow> bytes \<Rightarrow> SqlRow \<Rightarrow> bool" where
  "password_matches ev cfg password row \<longleftrightarrow>
     (let storedHash = cellBytes row 1; storedSalt = cellBytes row 2;
          candidate = HashPassword ev cfg password storedSalt (stored_iterations cfg row)
      in length storedHash = PW_HASH_BYTES \<and> ConstTimeEqual candidate storedHash)"

definition locked :: "SqlRow \<Rightarrow> int \<Rightarrow> bool" where
  "locked row now \<longleftrightarrow> (let lockedUntil = cellI64 row 5 in lockedUntil \<noteq> 0 \<and> lockedUntil > now)"

text \<open>The part of \<open>Login\<close> that works on the row of the account.\<close>

definition login_row :: "AuthEnv \<Rightarrow> bytes \<Rightarrow> SqlRow \<Rightarrow> int \<Rightarrow> AccountStore \<Rightarrow> (AuthResult \<times> SessionInfo) \<times> AccountStore" where
  "login_row ev password row now st =
     (let accountId = word_of_int (cellI64 row 0); status = cellI64 row 3; tutorialDone = cellI64 row 6 \<noteq> 0 in
      if status \<noteq> 0 then ((AccountBanned, SessionInfo_new), st)
      else if locked row now
      then ((AccountLocked, SessionInfo_new), on_counters (\<lambda>c. c\<lparr>au_lockouts := au_lockouts c + 1\<rparr>) st)
      else if \<not> password_matches ev (as_cfg st) password row
      then
        (let (_, st) = on_conn (Sql_Exec (ev_net ev) (update_account (count_failure (uint (pc_maxLoginFailures (as_cfg st)))
               (now + uint (pc_lockoutSeconds (as_cfg st)))) accountId)) st
         in ((InvalidCredentials, SessionInfo_new), count_login_failure st))
      else issue_session ev accountId tutorialDone now st)"

definition Login :: "AuthEnv \<Rightarrow> bytes \<Rightarrow> bytes \<Rightarrow> bytes \<Rightarrow> int \<Rightarrow> AccountStore \<Rightarrow> (AuthResult \<times> SessionInfo) \<times> AccountStore" where
  "Login ev username password clientIp now st =
     (let st = on_counters (\<lambda>c. c\<lparr>au_loginAttempts := au_loginAttempts c + 1\<rparr>) st in
      if \<not> ValidUsername username \<or> \<not> ValidPassword password then ((BadInput, SessionInfo_new), count_login_failure st) else
      let (ok, st) = CheckIpRateLimit clientIp now st in
      if \<not> ok then ((RateLimited, SessionInfo_new), on_counters (\<lambda>c. c\<lparr>au_rateLimited := au_rateLimited c + 1\<rparr>) st) else
      let (lease, st) = on_conn (Pool_Acquire (ev_net ev)) st in
      if \<not> lease then ((DbUnavailable, SessionInfo_new), st) else
      let (res, st) = on_conn (Sql_Exec (ev_net ev) (select_account (ev_coll ev) username)) st in
      case res of
        SqlOk None \<Rightarrow> ((InvalidCredentials, SessionInfo_new), count_login_failure st)
      | SqlOk (Some row) \<Rightarrow> login_row ev password row now st
      | _ \<Rightarrow> ((DbUnavailable, SessionInfo_new), st))"

definition ValidateToken :: "AuthEnv \<Rightarrow> bytes \<Rightarrow> AccountStore \<Rightarrow> SessionInfo option \<times> AccountStore" where
  "ValidateToken ev token st =
     (let (lease, st) = on_conn (Pool_Acquire (ev_net ev)) st in
      if \<not> lease then (None, st) else
      let (res, st) = on_conn (Sql_Exec (ev_net ev) (select_session token (ev_dbNow ev))) st
      in (case res of
            SqlOk (Some row) \<Rightarrow>
              (let info = \<lparr>si_accountId = word_of_int (cellI64 row 0), si_token = token, si_expiresAt = cellI64 row 1,
                           si_baseId = word_of_int (cellI64 row 2), si_tutorialDone = cellI64 row 3 \<noteq> 0\<rparr>
               in if si_accountId info = 0 then None else Some info)
          | _ \<Rightarrow> None, st))"

definition RevokeToken :: "AuthEnv \<Rightarrow> bytes \<Rightarrow> AccountStore \<Rightarrow> bool \<times> AccountStore" where
  "RevokeToken ev token st =
     (let (lease, st) = on_conn (Pool_Acquire (ev_net ev)) st in
      if \<not> lease then (False, st) else
      let (n, st) = on_conn (Sql_Exec (ev_net ev) (revoke_where (\<lambda>s. ss_token s = token))) st in (sql_ok n, st))"

definition SetAccountBase :: "u64 \<Rightarrow> u64 \<Rightarrow> AccountStore \<Rightarrow> bool \<times> AccountStore" where
  "SetAccountBase accountId baseId st = (True, st)"

definition AuthCounters_new :: AuthCounters where
  "AuthCounters_new = \<lparr>au_loginAttempts = 0, au_loginSuccess = 0, au_loginFailures = 0, au_lockouts = 0, au_rateLimited = 0, au_registrations = 0\<rparr>"

definition AccountStore_new :: "PersistConfig \<Rightarrow> AccountDb SqlConn \<Rightarrow> AccountStore" where
  "AccountStore_new cfg c = \<lparr>as_cfg = cfg, as_conn = c, as_counters = AuthCounters_new, as_ipWindows = Map.empty, as_randoms = 0\<rparr>"

section \<open>What the cells give\<close>

lemma cellI64_put: "i < length row \<Longrightarrow> row ! i = Some (le_put 8 (v :: u64)) \<Longrightarrow> cellI64 row i = sint v"
  by (simp add: cellI64_def)

lemma cellI64_narrow: "i < length row \<Longrightarrow> row ! i = Some b \<Longrightarrow> length b < 8 \<Longrightarrow> cellI64 row i = 0"
  by (simp add: cellI64_def)

text \<open>The time until which a row is locked, 0 if it is not: an \<open>int64_t\<close>.\<close>

definition locked_until :: "AccountRow \<Rightarrow> int" where
  "locked_until r = sint (word_of_int (case ac_lockedUntil r of None \<Rightarrow> 0 | Some t \<Rightarrow> t) :: u64)"

lemma account_cells_read:
  "word_of_int (cellI64 (account_cells r) 0) = ac_id r" "cellBytes (account_cells r) 1 = ac_hash r"
  "cellBytes (account_cells r) 2 = ac_salt r" "cellI64 (account_cells r) 3 = 0"
  "cellI64 (account_cells r) 5 = locked_until r" "cellI64 (account_cells r) 6 = 0" "cellI64 (account_cells r) 7 = 0"
  by (simp_all add: cellI64_def cellBytes_def account_cells_def locked_until_def)

lemma login_row_cells:
  "stored_iterations cfg (account_cells r) = pc_pbkdf2Iterations cfg"
  "locked (account_cells r) now \<longleftrightarrow> locked_until r \<noteq> 0 \<and> locked_until r > now"
  unfolding stored_iterations_def locked_def Let_def account_cells_read by simp_all

section \<open>The comparison is equality\<close>

lemma ConstTimeEqual_eq: "ConstTimeEqual a b \<longleftrightarrow> a = b"
proof -
  have u: "ucast (ucast z :: u32) = z" for z :: u8 by (rule ucast_ucast_up) simp
  have "fold (\<lambda>(x, y) diff. diff OR (ucast (x XOR y) :: u32)) ps d = 0 \<longleftrightarrow> d = 0 \<and> (\<forall>(x, y) \<in> set ps. x = y)" for ps :: "(u8 \<times> u8) list" and d
  proof (induction ps arbitrary: d)
    case (Cons q ps)
    obtain x y where q: "q = (x, y)" by (cases q)
    have "(d OR ucast (x XOR y) = 0) = (d = 0 \<and> x = y)"
    proof -
      have "(ucast (x XOR y) :: u32) = 0 \<longleftrightarrow> x XOR y = 0"
        using u by (metis unsigned_0)
      moreover have "x XOR y = 0 \<longleftrightarrow> x = y" by (auto simp: bit_eq_iff bit_xor_iff)
      ultimately show ?thesis by (simp add: or_eq_0_iff)
    qed
    then show ?case using Cons q by auto
  qed simp
  then have "ConstTimeEqual a b \<longleftrightarrow> length a = length b \<and> (\<forall>(x, y) \<in> set (zip a b). x = y)" by (simp add: ConstTimeEqual_def)
  also have "\<dots> \<longleftrightarrow> a = b" unfolding list_all2_iff [symmetric] list.rel_eq ..
  finally show ?thesis .
qed

section \<open>What a statement can do\<close>

lemma sq_next_sel [simp]: "sq_db (sq_next c) = sq_db c" "sq_tx (sq_next c) = sq_tx c" "sq_calls (sq_next c) = sq_calls c + 1"
  by (simp_all add: sq_next_def)

lemma store_sel [simp]:
  "as_conn (on_counters f st) = as_conn st" "as_cfg (on_counters f st) = as_cfg st"
  "as_ipWindows (on_counters f st) = as_ipWindows st" "as_randoms (on_counters f st) = as_randoms st"
  by (simp_all add: on_counters_def)

lemma on_conn_sel [simp]:
  "fst (on_conn f st) = fst (f (as_conn st))" "as_conn (snd (on_conn f st)) = snd (f (as_conn st))"
  "as_cfg (snd (on_conn f st)) = as_cfg st" "as_ipWindows (snd (on_conn f st)) = as_ipWindows st"
  "as_randoms (snd (on_conn f st)) = as_randoms st"
  by (simp_all add: on_conn_def split: prod.split)

lemma random_sel [simp]: "as_conn (snd (RandomBytes ev n st)) = as_conn st" "as_cfg (snd (RandomBytes ev n st)) = as_cfg st"
  "fst (RandomBytes ev n st) = ev_random ev (as_randoms st) n"
  by (simp_all add: RandomBytes_def)

lemma limit_sel [simp]: "as_conn (snd (CheckIpRateLimit ip now st)) = as_conn st" "as_cfg (snd (CheckIpRateLimit ip now st)) = as_cfg st"
  by (simp_all add: CheckIpRateLimit_def Let_def)

lemma acquire_sel [simp]: "sq_db (snd (Pool_Acquire net c)) = sq_db c" "sq_tx (snd (Pool_Acquire net c)) = sq_tx c"
  by (simp_all add: Pool_Acquire_def)

lemma begin_sel: "sq_db (snd (Sql_BeginTransaction net c)) = sq_db c"
  "fst (Sql_BeginTransaction net c) \<Longrightarrow> sq_tx c = None \<Longrightarrow> sq_tx (snd (Sql_BeginTransaction net c)) = Some (sq_db c)"
  "\<not> fst (Sql_BeginTransaction net c) \<Longrightarrow> sq_tx (snd (Sql_BeginTransaction net c)) = sq_tx c"
  by (simp_all add: Sql_BeginTransaction_def split: if_splits)

text \<open>Outside a transaction and inside one.\<close>

lemma exec_auto:
  assumes "sq_tx c = None"
  shows "sq_tx (snd (Sql_Exec net f c)) = None"
    "sq_db (snd (Sql_Exec net f c)) = sq_db c \<or> sq_db (snd (Sql_Exec net f c)) = snd (f (sq_db c))"
    "sql_ok (fst (Sql_Exec net f c)) \<Longrightarrow> fst (Sql_Exec net f c) = fst (f (sq_db c)) \<and> sq_db (snd (Sql_Exec net f c)) = snd (f (sq_db c))"
  using assms by (auto simp: Sql_Exec_def sql_ok_def split: prod.splits if_splits sql.splits)

lemma exec_tx:
  assumes "sq_tx c = Some d"
  shows "sq_db (snd (Sql_Exec net f c)) = sq_db c" "sq_tx (snd (Sql_Exec net f c)) \<noteq> None"
    "sql_ok (fst (Sql_Exec net f c)) \<Longrightarrow> fst (Sql_Exec net f c) = fst (f d) \<and> sq_tx (snd (Sql_Exec net f c)) = Some (snd (f d))"
  using assms by (auto simp: Sql_Exec_def sql_ok_def split: prod.splits if_splits sql.splits)

definition same_but_ids :: "AccountDb \<Rightarrow> AccountDb \<Rightarrow> bool" where
  "same_but_ids d db \<longleftrightarrow> (\<exists>i. db = d\<lparr>ad_nextId := i\<rparr>)"

lemma same_but_ids_sel: "same_but_ids d db \<Longrightarrow> ad_sessions db = ad_sessions d \<and> ad_accounts db = ad_accounts d \<and> ad_bases db = ad_bases d"
  by (auto simp: same_but_ids_def)

lemma rollback_sel: "sq_tx (Sql_Rollback keep_ids c) = None" "same_but_ids (sq_db c) (sq_db (Sql_Rollback keep_ids c))"
proof -
  have "same_but_ids d (d\<lparr>ad_nextId := i\<rparr>)" for d i unfolding same_but_ids_def by (rule exI, rule refl)
  moreover have "same_but_ids d d" for d unfolding same_but_ids_def by (rule exI [of _ "ad_nextId d"]) simp
  ultimately show "sq_tx (Sql_Rollback keep_ids c) = None" "same_but_ids (sq_db c) (sq_db (Sql_Rollback keep_ids c))"
    by (auto simp: Sql_Rollback_def keep_ids_def split: option.split)
qed

lemma commit_sel:
  assumes "sq_tx c = Some d"
  shows "sq_tx (snd (Sql_Commit keep_ids net c)) = None"
    "same_but_ids (sq_db c) (sq_db (snd (Sql_Commit keep_ids net c))) \<or> sq_db (snd (Sql_Commit keep_ids net c)) = d"
    "fst (Sql_Commit keep_ids net c) \<Longrightarrow> sq_db (snd (Sql_Commit keep_ids net c)) = d"
  using assms rollback_sel [of c] by (auto simp: Sql_Commit_def split: if_splits)

section \<open>One live session\<close>

definition live_sessions :: "AccountDb \<Rightarrow> u64 \<Rightarrow> SessionRow list" where
  "live_sessions db a = filter (\<lambda>s. ss_account s = a \<and> \<not> ss_revoked s) (ad_sessions db)"

definition one_live :: "AccountDb \<Rightarrow> bool" where
  "one_live db \<longleftrightarrow> (\<forall>a. length (live_sessions db a) \<le> 1)"

lemma live_same: "ad_sessions db' = ad_sessions db \<Longrightarrow> live_sessions db' = live_sessions db"
  by (simp add: live_sessions_def fun_eq_iff)

lemma live_revoke: "live_sessions (snd (revoke_where P db)) a = filter (\<lambda>s. \<not> P s) (live_sessions db a)"
proof -
  have "filter (\<lambda>s. ss_account s = a \<and> \<not> ss_revoked s) (map (\<lambda>s. if P s \<and> \<not> ss_revoked s then s\<lparr>ss_revoked := True\<rparr> else s) ss) =
      filter (\<lambda>s. \<not> P s) (filter (\<lambda>s. ss_account s = a \<and> \<not> ss_revoked s) ss)" for ss
    by (induction ss) auto
  then show ?thesis by (simp add: live_sessions_def revoke_where_def)
qed

lemma live_insert: "sql_ok (fst (insert_session a' tok ex db)) \<Longrightarrow>
    live_sessions (snd (insert_session a' tok ex db)) a = live_sessions db a @ (if a = a' then [\<lparr>ss_account = a', ss_token = tok, ss_expiresAt = ex, ss_revoked = False\<rparr>] else [])"
  by (auto simp: insert_session_def live_sessions_def sql_ok_def split: if_splits)

definition store_ok :: "AccountStore \<Rightarrow> bool" where
  "store_ok st \<longleftrightarrow> sq_tx (as_conn st) = None \<and> one_live (sq_db (as_conn st))"

definition same_sessions :: "AccountDb \<Rightarrow> AccountDb \<Rightarrow> bool" where
  "same_sessions d db \<longleftrightarrow> ad_sessions db = ad_sessions d \<and> ad_bases db = ad_bases d"

lemma same_sessions_refl [simp]: "same_sessions d d" by (simp add: same_sessions_def)

lemma same_sessions_trans: "same_sessions d e \<Longrightarrow> same_sessions e f \<Longrightarrow> same_sessions d f" by (simp add: same_sessions_def)

lemma same_but_ids_sessions: "same_but_ids d e \<Longrightarrow> same_sessions d e" using same_but_ids_sel by (simp add: same_sessions_def)

lemma same_sessions_stmt [simp]:
  "same_sessions d (snd (insert_account coll u h s i d))" "same_sessions d (snd (insert_wallet a d))"
  "same_sessions d (snd (select_account coll u d))" "same_sessions d (snd (update_account g a d))"
  by (simp_all add: same_sessions_def insert_account_def insert_wallet_def select_account_def update_account_def Let_def)

lemma same_sessions_live: "same_sessions d e \<Longrightarrow> live_sessions e a = live_sessions d a"
  by (simp add: same_sessions_def live_sessions_def)

lemma same_sessions_one: "same_sessions d e \<Longrightarrow> one_live d \<Longrightarrow> one_live e"
  using same_sessions_live by (simp add: one_live_def)

text \<open>The store is idle and its sessions and bases are those of before.\<close>

definition quiet :: "AccountStore \<Rightarrow> AccountStore \<Rightarrow> bool" where
  "quiet st st' \<longleftrightarrow> sq_tx (as_conn st') = None \<and> same_sessions (sq_db (as_conn st)) (sq_db (as_conn st'))"

lemma quiet_ok: "quiet st st' \<Longrightarrow> store_ok st \<Longrightarrow> store_ok st'"
  unfolding quiet_def store_ok_def using same_sessions_one by blast

lemma on_connD:
  "on_conn f st = (r, st') \<Longrightarrow> r = fst (f (as_conn st)) \<and> as_conn st' = snd (f (as_conn st)) \<and> as_cfg st' = as_cfg st \<and> as_randoms st' = as_randoms st"
  by (auto simp: on_conn_def split: prod.splits)

lemma give_up_sel [simp]: "fst (give_up r st) = (r, SessionInfo_new)" "as_conn (snd (give_up r st)) = Sql_Rollback keep_ids (as_conn st)"
  by (simp_all add: give_up_def)

lemma quiet_give_up: "sq_db (as_conn st') = sq_db (as_conn st) \<Longrightarrow> quiet st (snd (give_up r st'))"
  using rollback_sel [of "as_conn st'"] same_but_ids_sessions by (simp add: quiet_def)

definition session_row :: "SessionInfo \<Rightarrow> SessionRow" where
  "session_row i = \<lparr>ss_account = si_accountId i, ss_token = si_token i, ss_expiresAt = si_expiresAt i, ss_revoked = False\<rparr>"

definition issued :: "AccountDb \<Rightarrow> SessionInfo \<Rightarrow> AccountDb \<Rightarrow> bool" where
  "issued d i d' \<longleftrightarrow> (\<forall>a. live_sessions d' a = (if a = si_accountId i then [session_row i] else live_sessions d a)) \<and>
     si_accountId i \<in> ac_id ` set (ad_accounts d') \<and> ad_bases d' = ad_bases d \<and> si_baseId i \<in> insert 0 (fst ` set (ad_bases d))"

lemma issued_one: "issued d i d' \<Longrightarrow> one_live d \<Longrightarrow> one_live d'"
  by (simp add: issued_def one_live_def)

lemma find_in: "find P xs = Some x \<Longrightarrow> x \<in> set xs \<and> P x"
  by (induction xs) (auto split: if_splits)

lemma base_of_in: "base_of a db = Some i \<Longrightarrow> i \<in> fst ` set (ad_bases db)"
proof -
  assume "base_of a db = Some i"
  then obtain b where "find (\<lambda>b. snd b = a) (ad_bases db) = Some b" "i = fst b" by (auto simp: base_of_def)
  then show ?thesis using find_in by fastforce
qed

lemma rotate_session:
  assumes "same_sessions d d1" "sql_ok (fst (insert_session a tok ex (snd (revoke_where (\<lambda>s. ss_account s = a) d1))))"
  shows "live_sessions (snd (insert_session a tok ex (snd (revoke_where (\<lambda>s. ss_account s = a) d1)))) b =
    (if b = a then [\<lparr>ss_account = a, ss_token = tok, ss_expiresAt = ex, ss_revoked = False\<rparr>] else live_sessions d b)"
proof -
  have "filter (\<lambda>s. ss_account s \<noteq> a) (live_sessions d b) = (if b = a then [] else live_sessions d b)"
    by (auto simp: live_sessions_def filter_empty_conv intro!: filter_cong)
  then show ?thesis unfolding live_insert [OF assms(2)] live_revoke same_sessions_live [OF assms(1)] by simp
qed

lemma issue_session_effect:
  assumes "issue_session ev acc tut now st = ((r, i), st')" "sq_tx (as_conn st) = None"
  shows "sq_tx (as_conn st') = None \<and>
    (r = Auth_Ok \<and> issued (sq_db (as_conn st)) i (sq_db (as_conn st')) \<and> si_accountId i = acc \<and>
       si_expiresAt i = now + uint (pc_sessionTtlSeconds (as_cfg st)) \<or>
     r \<noteq> Auth_Ok \<and> i = SessionInfo_new \<and> (same_sessions (sq_db (as_conn st)) (sq_db (as_conn st')) \<or>
       (\<exists>j. issued (sq_db (as_conn st)) j (sq_db (as_conn st')))))"
proof -
  let ?net = "ev_net ev" and ?d = "sq_db (as_conn st)"
  obtain u s1 where e1: "on_conn (Sql_Exec ?net (update_account reset_failures (acc))) st = (u, s1)" by fastforce
  obtain b s2 where e2: "on_conn (Sql_BeginTransaction ?net) s1 = (b, s2)" by fastforce
  obtain n3 s3 where e3: "on_conn (Sql_Exec ?net (revoke_where (\<lambda>s. ss_account s = acc))) s2 = (n3, s3)" by fastforce
  obtain tok s4 where e4: "RandomBytes ev SESSION_TOKEN_BYTES s3 = (tok, s4)" by fastforce
  define ex where "ex = now + uint (pc_sessionTtlSeconds (as_cfg s4))"
  obtain n5 s5 where e5: "on_conn (Sql_Exec ?net (insert_session (acc) tok ex)) s4 = (n5, s5)" by fastforce
  obtain dn s6 where e6: "on_conn (Sql_Commit keep_ids ?net) s5 = (dn, s6)" by fastforce
  obtain b7 s7 where e7: "on_conn (Sql_Exec ?net (\<lambda>db. (SqlOk (base_of (acc) db), db))) s6 = (b7, s7)" by fastforce
  note run = assms(1) [unfolded issue_session_def Let_def e1 prod.case e2 e3 e4 ex_def [symmetric] e5 e6 e7]
  note D1 = on_connD [OF e1] and D2 = on_connD [OF e2] and D3 = on_connD [OF e3] and D5 = on_connD [OF e5]
    and D6 = on_connD [OF e6] and D7 = on_connD [OF e7]
  have D4: "as_conn s4 = as_conn s3" "as_cfg s4 = as_cfg s3" using e4 random_sel [of ev SESSION_TOKEN_BYTES s3] by auto
  have c1: "sq_tx (as_conn s1) = None" "same_sessions ?d (sq_db (as_conn s1))"
    using exec_auto(1,2) [OF assms(2), where net = ?net and f = "update_account reset_failures (acc)"] D1 same_sessions_stmt(4) [where d = ?d]
    by (metis same_sessions_refl)+
  show ?thesis
  proof (cases b)
    case False
    then have "r = DbUnavailable" "i = SessionInfo_new" "st' = s2" using run by auto
    then show ?thesis using False D2 c1 begin_sel [of ?net "as_conn s1"] by auto
  next
    case True
    have t2: "sq_tx (as_conn s2) = Some (sq_db (as_conn s1))" "sq_db (as_conn s2) = sq_db (as_conn s1)"
      using D2 True c1(1) begin_sel [of ?net "as_conn s1"] by auto
    note X3 = exec_tx [OF t2(1), where net = ?net and f = "revoke_where (\<lambda>s. ss_account s = acc)"]
    have d3: "sq_db (as_conn s3) = sq_db (as_conn s1)" using D3 X3 t2 by simp
    show ?thesis
    proof (cases "sql_ok n3")
      case False
      then have e: "r = DbUnavailable" "i = SessionInfo_new" "st' = snd (give_up DbUnavailable s3)" using run True by (auto simp: give_up_def)
      then have "quiet s1 st'" using quiet_give_up d3 by simp
      then show ?thesis using c1 e same_sessions_trans by (auto simp: quiet_def)
    next
      case ok3: True
      define dr where "dr = snd (revoke_where (\<lambda>s. ss_account s = acc) (sq_db (as_conn s1)))"
      have t4: "sq_tx (as_conn s4) = Some dr" using X3(3) D3 D4 ok3 by (simp add: dr_def)
      note X5 = exec_tx [OF t4, where net = ?net and f = "insert_session (acc) tok ex"]
      have d5: "sq_db (as_conn s5) = sq_db (as_conn s1)" using D5 X5 D4 d3 by simp
      show ?thesis
      proof (cases "sql_ok n5")
        case False
        then have e: "r = DbUnavailable" "i = SessionInfo_new" "st' = snd (give_up DbUnavailable s5)" using run True ok3 by (auto simp: give_up_def)
        then have "quiet s1 st'" using quiet_give_up d5 by simp
        then show ?thesis using c1 e same_sessions_trans by (auto simp: quiet_def)
      next
        case ok5: True
        define di where "di = snd (insert_session (acc) tok ex dr)"
        have t5: "sq_tx (as_conn s5) = Some di" "sql_ok (fst (insert_session (acc) tok ex dr))"
          using X5(3) D5 ok5 by (simp_all add: di_def)
        let ?base = "case b7 of SqlOk (Some i) \<Rightarrow> i | _ \<Rightarrow> 0"
        let ?i = "\<lparr>si_accountId = acc, si_token = tok, si_expiresAt = ex, si_baseId = ?base, si_tutorialDone = tut\<rparr>"
        have bases: "ad_bases di = ad_bases ?d" "ad_accounts di = ad_accounts dr"
          using c1(2) by (auto simp: di_def dr_def insert_session_def revoke_where_def same_sessions_def)
        have iss: "issued ?d \<lparr>si_accountId = acc, si_token = tok, si_expiresAt = ex, si_baseId = 0, si_tutorialDone = x\<rparr> di" for x
          using rotate_session [OF c1(2) t5(2) [unfolded dr_def]] bases t5(2)
          by (auto simp: issued_def session_row_def di_def [unfolded dr_def] bases(2) insert_session_def sql_ok_def split: if_splits)
        note C6 = commit_sel [OF t5(1), of ?net]
        show ?thesis
        proof (cases dn)
          case False
          then have e: "r = DbUnavailable" "i = SessionInfo_new" "st' = snd (give_up DbUnavailable s6)" using run \<open>b\<close> ok3 ok5 by (auto simp: give_up_def)
          have "same_sessions (sq_db (as_conn s6)) (sq_db (as_conn st'))" "sq_tx (as_conn st') = None"
            using e(3) rollback_sel [of "as_conn s6"] same_but_ids_sessions by simp_all
          moreover have "same_sessions ?d (sq_db (as_conn s6)) \<or> sq_db (as_conn s6) = di"
            using C6(2) D6 d5 c1(2) same_but_ids_sessions same_sessions_trans by metis
          ultimately show ?thesis
          proof (elim disjE)
            assume "same_sessions ?d (sq_db (as_conn s6))" "same_sessions (sq_db (as_conn s6)) (sq_db (as_conn st'))" "sq_tx (as_conn st') = None"
            then show ?thesis using e same_sessions_trans by blast
          next
            assume d: "sq_db (as_conn s6) = di" and a: "same_sessions (sq_db (as_conn s6)) (sq_db (as_conn st'))" "sq_tx (as_conn st') = None"
            have "ad_accounts (sq_db (as_conn st')) = ad_accounts di"
              using e(3) rollback_sel(2) [of "as_conn s6"] same_but_ids_sel d by simp
            then have "issued ?d \<lparr>si_accountId = acc, si_token = tok, si_expiresAt = ex, si_baseId = 0, si_tutorialDone = True\<rparr> (sq_db (as_conn st'))"
              using iss [of True] same_sessions_live [OF a(1)] a(1) by (simp add: issued_def d same_sessions_def)
            then show ?thesis using e a(2) by blast
          qed
        next
          case True
          have d6: "sq_db (as_conn s6) = di" "sq_tx (as_conn s6) = None" using C6 D6 True by simp_all
          note X7 = exec_auto [OF d6(2), where net = ?net and f = "\<lambda>db. (SqlOk (base_of (acc) db), db)"]
          have d7: "sq_db (as_conn s7) = di" "sq_tx (as_conn s7) = None" using X7(1,2) D7 d6 by auto
          have "?base \<in> insert 0 (fst ` set (ad_bases ?d))"
          proof (cases "sql_ok b7")
            case True
            then have "b7 = SqlOk (base_of (acc) di)" using X7(3) D7 d6 by simp
            then show ?thesis using base_of_in [of "acc" di] bases(1) by (auto split: option.split)
          next
            case False
            then show ?thesis by (simp add: sql_ok_def split: sql.splits)
          qed
          then have "issued ?d ?i di" using iss [of True] by (simp add: issued_def session_row_def)
          moreover have "r = Auth_Ok" "i = ?i" "as_conn st' = as_conn s7" using run True \<open>b\<close> ok3 ok5 by auto
          ultimately show ?thesis using d7 D1 D2 D3 D4 by (simp add: ex_def)
        qed
      qed
    qed
  qed
qed

section \<open>Logging in and registering\<close>

lemma quiet_exec:
  assumes "on_conn (Sql_Exec net f) st = (r, st')" "sq_tx (as_conn st) = None" "\<And>d. same_sessions d (snd (f d))"
  shows "quiet st st'"
  using on_connD [OF assms(1)] exec_auto(1,2) [OF assms(2), of net f] assms(3) by (metis quiet_def same_sessions_refl)

lemma login_row_effect:
  assumes "login_row ev password (account_cells row) now st = ((r, i), st')" "sq_tx (as_conn st) = None"
  shows "sq_tx (as_conn st') = None \<and>
    (r = Auth_Ok \<and> \<not> locked (account_cells row) now \<and> password_matches ev (as_cfg st) password (account_cells row) \<and>
       issued (sq_db (as_conn st)) i (sq_db (as_conn st')) \<and> si_accountId i = ac_id row \<and>
       si_expiresAt i = now + uint (pc_sessionTtlSeconds (as_cfg st)) \<or>
     r \<noteq> Auth_Ok \<and> i = SessionInfo_new \<and> (same_sessions (sq_db (as_conn st)) (sq_db (as_conn st')) \<or>
       (\<exists>j. issued (sq_db (as_conn st)) j (sq_db (as_conn st')))))"
proof -
  let ?row = "account_cells row"
  note run = assms(1) [unfolded login_row_def Let_def account_cells_read]
  consider "locked ?row now" | "\<not> locked ?row now" "\<not> password_matches ev (as_cfg st) password ?row"
    | "\<not> locked ?row now" "password_matches ev (as_cfg st) password ?row" by blast
  then show ?thesis
  proof cases
    case 2
    obtain u s1 where e: "on_conn (Sql_Exec (ev_net ev) (update_account (count_failure (uint (pc_maxLoginFailures (as_cfg st)))
        (now + uint (pc_lockoutSeconds (as_cfg st)))) (ac_id row))) st = (u, s1)" by fastforce
    have "quiet st s1" by (rule quiet_exec [OF e assms(2)]) simp
    then show ?thesis using run 2 by (auto simp: e count_login_failure_def quiet_def)
  next
    case 3
    then have "issue_session ev (ac_id row) False now st = ((r, i), st')" using run by simp
    then show ?thesis using issue_session_effect [OF _ assms(2)] 3 by blast
  qed (use run assms(2) in auto)
qed

lemma Login_effect:
  assumes "Login ev username password ip now st = ((r, i), st')" "sq_tx (as_conn st) = None"
  shows "sq_tx (as_conn st') = None \<and>
    (r = Auth_Ok \<and> (\<exists>row \<in> set (ad_accounts (sq_db (as_conn st))). ev_coll ev (ac_username row) = ev_coll ev username \<and>
         \<not> locked (account_cells row) now \<and> password_matches ev (as_cfg st) password (account_cells row) \<and> si_accountId i = ac_id row) \<and>
       issued (sq_db (as_conn st)) i (sq_db (as_conn st')) \<and> si_expiresAt i = now + uint (pc_sessionTtlSeconds (as_cfg st)) \<or>
     r \<noteq> Auth_Ok \<and> i = SessionInfo_new \<and> (same_sessions (sq_db (as_conn st)) (sq_db (as_conn st')) \<or>
       (\<exists>j. issued (sq_db (as_conn st)) j (sq_db (as_conn st')))))"
proof -
  define s0 where "s0 = on_counters (\<lambda>c. c\<lparr>au_loginAttempts := au_loginAttempts c + 1\<rparr>) st"
  obtain ok s1 where e1: "CheckIpRateLimit ip now s0 = (ok, s1)" by fastforce
  obtain le s2 where e2: "on_conn (Pool_Acquire (ev_net ev)) s1 = (le, s2)" by fastforce
  obtain q s3 where e3: "on_conn (Sql_Exec (ev_net ev) (select_account (ev_coll ev) username)) s2 = (q, s3)" by fastforce
  note run = assms(1) [unfolded Login_def Let_def s0_def [symmetric] e1 prod.case e2 e3]
  have c: "as_conn s1 = as_conn st" "as_cfg s1 = as_cfg st" using limit_sel [of ip now s0, unfolded e1 snd_conv] by (simp_all add: s0_def)
  have d2: "sq_tx (as_conn s2) = None" "sq_db (as_conn s2) = sq_db (as_conn st)" "as_cfg s2 = as_cfg st"
    using on_connD [OF e2] c assms(2) by simp_all
  note X = exec_auto [OF d2(1), where net = "ev_net ev" and f = "select_account (ev_coll ev) username"]
  have d3: "sq_tx (as_conn s3) = None" "sq_db (as_conn s3) = sq_db (as_conn st)" "as_cfg s3 = as_cfg st"
    using on_connD [OF e3] X d2 by (auto simp: select_account_def)
  show ?thesis
  proof (cases "ValidUsername username \<and> ValidPassword password \<and> ok \<and> le")
    case False
    then have "r \<noteq> Auth_Ok \<and> i = SessionInfo_new \<and> as_conn st' \<in> {as_conn st, as_conn s2}"
      using run c by (cases "ValidUsername username \<and> ValidPassword password"; cases ok; cases le) (auto simp: count_login_failure_def s0_def)
    then show ?thesis using d2 assms(2) by auto
  next
    case go: True
    show ?thesis
    proof (cases "\<exists>cells. q = SqlOk (Some cells)")
      case False
      then have "r \<noteq> Auth_Ok \<and> i = SessionInfo_new \<and> as_conn st' = as_conn s3"
        using run go by (auto simp: count_login_failure_def split: sql.splits option.splits)
      then show ?thesis using d3 by auto
    next
      case True
      then obtain cells where q: "q = SqlOk (Some cells)" by blast
      then have "map_option account_cells (find (\<lambda>r. ev_coll ev (ac_username r) = ev_coll ev username) (ad_accounts (sq_db (as_conn st)))) = Some cells"
        using X(3) on_connD [OF e3] d2 by (simp add: sql_ok_def select_account_def)
      then obtain row where "find (\<lambda>r. ev_coll ev (ac_username r) = ev_coll ev username) (ad_accounts (sq_db (as_conn st))) = Some row"
        and cells: "cells = account_cells row" by auto
      then have row: "row \<in> set (ad_accounts (sq_db (as_conn st)))" "ev_coll ev (ac_username row) = ev_coll ev username"
        using find_in by fastforce+
      have "login_row ev password (account_cells row) now s3 = ((r, i), st')" using run go q cells by simp
      from login_row_effect [OF this d3(1)] show ?thesis using row d3 by auto
    qed
  qed
qed

lemma Register_effect:
  assumes "Register ev username password st = ((r, i), st')" "sq_tx (as_conn st) = None"
  shows "quiet st st'"
proof -
  let ?net = "ev_net ev"
  obtain le s1 where e1: "on_conn (Pool_Acquire ?net) st = (le, s1)" by fastforce
  obtain salt s2 where e2: "RandomBytes ev PW_SALT_BYTES s1 = (salt, s2)" by fastforce
  obtain b s3 where e3: "on_conn (Sql_BeginTransaction ?net) s2 = (b, s3)" by fastforce
  define ins where "ins = insert_account (ev_coll ev) username (HashPassword ev (as_cfg s2) password salt (pc_pbkdf2Iterations (as_cfg s2)))
    salt (pc_pbkdf2Iterations (as_cfg s3))"
  obtain a s4 where e4: "on_conn (Sql_Exec ?net ins) s3 = (a, s4)" by fastforce
  note run = assms(1) [unfolded Register_def Let_def e1 prod.case e2 e3 ins_def [symmetric] e4]
  have c1: "sq_tx (as_conn s2) = None" "sq_db (as_conn s2) = sq_db (as_conn st)"
    using on_connD [OF e1] random_sel [of ev PW_SALT_BYTES s1, unfolded e2 snd_conv] assms(2) by simp_all
  have q: "quiet st s2" "quiet st st" using c1 assms(2) by (simp_all add: quiet_def)
  have q1: "quiet st s1" using on_connD [OF e1] assms(2) by (simp add: quiet_def)
  show ?thesis
  proof (cases "ValidUsername username \<and> ValidPassword password \<and> le \<and> b")
    case False
    have "quiet st s3" if "\<not> b" using on_connD [OF e3] that c1 begin_sel [of ?net "as_conn s2"] by (simp add: quiet_def)
    then show ?thesis using False run q q1 by (cases "ValidUsername username \<and> ValidPassword password"; cases le) auto
  next
    case go: True
    have d3: "sq_tx (as_conn s3) = Some (sq_db (as_conn st))" "sq_db (as_conn s3) = sq_db (as_conn st)"
      using on_connD [OF e3] go c1 begin_sel [of ?net "as_conn s2"] by simp_all
    note X4 = exec_tx [OF d3(1), where net = ?net and f = ins]
    have d4: "sq_db (as_conn s4) = sq_db (as_conn st)" "sq_tx (as_conn s4) \<noteq> None" using on_connD [OF e4] X4 d3 by simp_all
    show ?thesis
    proof (cases a)
      case (SqlOk k)
      obtain n s5 where e5: "on_conn (Sql_Exec ?net (insert_wallet k)) s4 = (n, s5)" by fastforce
      obtain dn s6 where e6: "on_conn (Sql_Commit keep_ids ?net) s5 = (dn, s6)" by fastforce
      have t4: "sq_tx (as_conn s4) = Some (snd (ins (sq_db (as_conn st))))" using X4(3) on_connD [OF e4] SqlOk by (metis sql_ok_simps(1))
      note X5 = exec_tx [OF t4, where net = ?net and f = "insert_wallet k"]
      have d5: "sq_db (as_conn s5) = sq_db (as_conn st)" using on_connD [OF e5] X5 d4 by simp
      show ?thesis
      proof (cases "sql_ok n")
        case True
        define d where "d = snd (insert_wallet k (snd (ins (sq_db (as_conn st)))))"
        have t5: "sq_tx (as_conn s5) = Some d" using X5(3) on_connD [OF e5] True by (simp add: d_def)
        have "same_sessions (sq_db (as_conn st)) d" unfolding d_def ins_def by (rule same_sessions_trans [OF same_sessions_stmt(1,2)])
        then have s6: "same_sessions (sq_db (as_conn st)) (sq_db (as_conn s6))" "sq_tx (as_conn s6) = None"
          using commit_sel [OF t5, of ?net] on_connD [OF e6] d5 same_but_ids_sessions by (auto dest: same_but_ids_sessions)
        have "as_conn st' \<in> {as_conn s6, Sql_Rollback keep_ids (as_conn s6)}"
          using run go SqlOk True by (cases dn) (auto simp: e5 e6 give_up_def)
        then show ?thesis using s6 rollback_sel [of "as_conn s6"] same_but_ids_sessions same_sessions_trans by (auto simp: quiet_def)
      next
        case False
        then have "st' = snd (give_up DbUnavailable s5)" using run go SqlOk by (simp add: e5 give_up_def)
        then show ?thesis using quiet_give_up [OF d5] by simp
      qed
    next
      case SqlUniqueViolation
      then have "st' = snd (give_up UsernameTaken s4)" using run go by (simp add: give_up_def)
      then show ?thesis using quiet_give_up [OF d4(1)] by simp
    next
      case SqlError
      then have "st' = snd (give_up DbUnavailable s4)" using run go by (simp add: give_up_def)
      then show ?thesis using quiet_give_up [OF d4(1)] by simp
    qed
  qed
qed

section \<open>Any use of the store\<close>

datatype StoreCall = CallRegister bytes bytes | CallLogin bytes bytes bytes int | CallValidate bytes | CallRevoke bytes | CallSetBase u64 u64

fun store_step :: "AuthEnv \<times> StoreCall \<Rightarrow> AccountStore \<Rightarrow> AccountStore" where
  "store_step (ev, CallRegister u p) st = snd (Register ev u p st)"
| "store_step (ev, CallLogin u p ip now) st = snd (Login ev u p ip now st)"
| "store_step (ev, CallValidate t) st = snd (ValidateToken ev t st)"
| "store_step (ev, CallRevoke t) st = snd (RevokeToken ev t st)"
| "store_step (ev, CallSetBase a b) st = snd (SetAccountBase a b st)"

definition empty_tables :: AccountDb where
  "empty_tables = \<lparr>ad_accounts = [], ad_nextId = 1, ad_sessions = [], ad_wallets = Map.empty, ad_bases = []\<rparr>"

definition fresh_store :: "PersistConfig \<Rightarrow> AccountStore" where
  "fresh_store cfg = AccountStore_new cfg \<lparr>sq_db = empty_tables, sq_tx = None, sq_calls = 0\<rparr>"

lemma revoke_one: "one_live db \<Longrightarrow> one_live (snd (revoke_where P db))"
  unfolding one_live_def live_revoke using length_filter_le order_trans by blast

lemma store_ok_exec:
  assumes "on_conn (Sql_Exec net f) st = (r, st')" "store_ok st"
    "\<And>d. one_live d \<Longrightarrow> one_live (snd (f d)) \<and> ad_bases (snd (f d)) = ad_bases d"
  shows "store_ok st' \<and> ad_bases (sq_db (as_conn st')) = ad_bases (sq_db (as_conn st))"
  using assms(2) exec_auto(1,2) [of "as_conn st" net f] on_connD [OF assms(1)] assms(3) by (auto simp: store_ok_def)

lemma store_ok_acquire:
  "on_conn (Pool_Acquire net) st = (r, st') \<Longrightarrow> store_ok st' = store_ok st \<and> ad_bases (sq_db (as_conn st')) = ad_bases (sq_db (as_conn st))"
  using on_connD by (fastforce simp: store_ok_def)

lemma store_step_ok:
  assumes "store_ok st"
  shows "store_ok (store_step (ev, c) st) \<and> ad_bases (sq_db (as_conn (store_step (ev, c) st))) = ad_bases (sq_db (as_conn st))"
proof (cases c)
  case (CallRegister u p)
  obtain r i st' where e: "Register ev u p st = ((r, i), st')" by (metis surj_pair)
  then have "quiet st st'" using Register_effect assms by (simp add: store_ok_def)
  then show ?thesis using quiet_ok assms CallRegister e by (auto simp: quiet_def same_sessions_def)
next
  case (CallLogin u p ip now)
  obtain r i st' where e: "Login ev u p ip now st = ((r, i), st')" by (metis surj_pair)
  have t: "sq_tx (as_conn st) = None" "one_live (sq_db (as_conn st))" using assms by (simp_all add: store_ok_def)
  have "sq_tx (as_conn st') = None \<and> (same_sessions (sq_db (as_conn st)) (sq_db (as_conn st')) \<or> (\<exists>j. issued (sq_db (as_conn st)) j (sq_db (as_conn st'))))"
    using Login_effect [OF e t(1)] by blast
  then show ?thesis using CallLogin e t issued_one same_sessions_one by (auto simp: store_ok_def issued_def same_sessions_def)
next
  case (CallValidate t)
  let ?f = "select_session t (ev_dbNow ev)"
  obtain le s1 where e1: "on_conn (Pool_Acquire (ev_net ev)) st = (le, s1)" by fastforce
  obtain r s2 where e2: "on_conn (Sql_Exec (ev_net ev) ?f) s1 = (r, s2)" by fastforce
  have "snd (?f d) = d" for d by (simp add: select_session_def)
  then have "store_ok s2 \<and> ad_bases (sq_db (as_conn s2)) = ad_bases (sq_db (as_conn s1))"
    using store_ok_acquire [OF e1] assms by (intro store_ok_exec [OF e2]) simp_all
  then show ?thesis using store_ok_acquire [OF e1] assms CallValidate by (cases le) (simp_all add: ValidateToken_def Let_def e1 e2)
next
  case (CallRevoke t)
  let ?f = "revoke_where (\<lambda>s. ss_token s = t)"
  obtain le s1 where e1: "on_conn (Pool_Acquire (ev_net ev)) st = (le, s1)" by fastforce
  obtain r s2 where e2: "on_conn (Sql_Exec (ev_net ev) ?f) s1 = (r, s2)" by fastforce
  have "ad_bases (snd (?f d)) = ad_bases d" for d by (simp add: revoke_where_def)
  then have "store_ok s2 \<and> ad_bases (sq_db (as_conn s2)) = ad_bases (sq_db (as_conn s1))"
    using store_ok_acquire [OF e1] assms by (intro store_ok_exec [OF e2]) (simp_all add: revoke_one)
  then show ?thesis using store_ok_acquire [OF e1] assms CallRevoke by (cases le) (simp_all add: RevokeToken_def Let_def e1 e2)
qed (use assms in \<open>simp add: SetAccountBase_def\<close>)

lemma store_run_ok:
  "store_ok st \<Longrightarrow> store_ok (fold store_step cs st) \<and> ad_bases (sq_db (as_conn (fold store_step cs st))) = ad_bases (sq_db (as_conn st))"
proof (induction cs arbitrary: st)
  case (Cons c cs)
  obtain ev c' where "c = (ev, c')" by (cases c)
  then show ?case using store_step_ok [OF Cons.prems, of ev c'] Cons.IH [of "store_step c st"] by simp
qed simp

lemma fresh_ok: "store_ok (fresh_store cfg)"
  by (simp add: fresh_store_def AccountStore_new_def store_ok_def empty_tables_def one_live_def live_sessions_def)

text \<open>C14: One active session for each account.  Whatever calls are made to the store, and whatever the
  connection to the database does at any point, the tables never hold two unrevoked sessions of one account.\<close>

theorem one_live_session:
  "length (filter (\<lambda>s. ss_account s = a \<and> \<not> ss_revoked s)
     (ad_sessions (sq_db (as_conn (fold store_step calls (fresh_store cfg)))))) \<le> 1"
  using store_run_ok [OF fresh_ok, of calls cfg] by (simp add: store_ok_def one_live_def live_sessions_def)

text \<open>C15: A login succeeds only for an account with that user name that is not locked at that time, and
  whose stored hash is the hash of the password, with the stored salt and the configured number of
  iterations (the status and the stored number of iterations play no part: see
  \<open>banned_account_logs_in\<close> and \<open>raised_cost_locks_out\<close>).  The session it returns is then the only live
  one of that account, and the sessions of all other accounts are as before.\<close>

theorem login_sound:
  assumes "Login ev username password ip now st = ((Auth_Ok, info), st')" "sq_tx (as_conn st) = None"
  shows "(\<exists>row \<in> set (ad_accounts (sq_db (as_conn st))). ac_id row = si_accountId info \<and>
      ev_coll ev (ac_username row) = ev_coll ev username \<and> \<not> (locked_until row \<noteq> 0 \<and> now < locked_until row) \<and>
      ac_hash row = HashPassword ev (as_cfg st) password (ac_salt row) (pc_pbkdf2Iterations (as_cfg st))) \<and>
    (\<forall>a. live_sessions (sq_db (as_conn st')) a =
      (if a = si_accountId info then [session_row info] else live_sessions (sq_db (as_conn st)) a))"
proof -
  from Login_effect [OF assms] obtain row where r: "row \<in> set (ad_accounts (sq_db (as_conn st)))" "ev_coll ev (ac_username row) = ev_coll ev username"
    "\<not> locked (account_cells row) now" "password_matches ev (as_cfg st) password (account_cells row)" "si_accountId info = ac_id row"
    and i: "issued (sq_db (as_conn st)) info (sq_db (as_conn st'))" by blast
  have "ac_hash row = HashPassword ev (as_cfg st) password (ac_salt row) (pc_pbkdf2Iterations (as_cfg st))"
    using r(4) unfolding password_matches_def Let_def account_cells_read login_row_cells ConstTimeEqual_eq by simp
  then show ?thesis using r(1,2,3,5) i unfolding login_row_cells issued_def
    by (intro conjI bexI [of _ row]) simp_all
qed

text \<open>A concrete environment: a key derivation that copies, and random bytes from a counter.\<close>

definition plain_env :: AuthEnv where
  "plain_env = \<lparr>ev_net = (\<lambda>_. Fine), ev_coll = (\<lambda>u. u), ev_pbkdf2 = (\<lambda>p s i n. take n (p @ s @ replicate n 0)),
     ev_random = (\<lambda>k n. replicate n (of_nat (k + 1))), ev_dbNow = 0\<rparr>"

definition plain_cfg :: PersistConfig where
  "plain_cfg = \<lparr>pc_pepper = [7], pc_pbkdf2Iterations = 210000, pc_maxLoginFailures = 5, pc_lockoutSeconds = 900, pc_sessionTtlSeconds = 86400\<rparr>"

definition bob :: bytes where "bob = [98, 111, 98]"
definition secret :: bytes where "secret = [1, 2, 3, 4, 5, 6, 7, 8]"

definition registered :: AccountStore where
  "registered = snd (Register plain_env bob secret (fresh_store plain_cfg))"

lemma demo_login:
  "fst (fst (Login plain_env bob secret [] 100 registered)) = Auth_Ok"
  "si_accountId (snd (fst (Login plain_env bob secret [] 100 registered))) = 1"
proof -
  have "case Login plain_env bob secret [] 100 registered of ((r, i), _) \<Rightarrow> r = Auth_Ok \<and> si_accountId i = 1" by code_simp
  then show "fst (fst (Login plain_env bob secret [] 100 registered)) = Auth_Ok"
    "si_accountId (snd (fst (Login plain_env bob secret [] 100 registered))) = 1" by (auto split: prod.splits)
qed

theorem login_sound_witness:
  "fst (fst (Login plain_env bob secret [] 100 registered)) = Auth_Ok \<and>
   length (live_sessions (sq_db (as_conn (snd (Login plain_env bob secret [] 100 registered)))) 1) = 1"
proof -
  note demo_login
  moreover have "sq_tx (as_conn registered) = None"
    using store_run_ok [OF fresh_ok, of "[(plain_env, CallRegister bob secret)]" plain_cfg] by (simp add: registered_def store_ok_def)
  ultimately show ?thesis
    using login_sound [of plain_env bob secret "[]" 100 registered "snd (fst (Login plain_env bob secret [] 100 registered))"
        "snd (Login plain_env bob secret [] 100 registered)"] by (auto simp: prod_eq_iff)
qed

text \<open>The first account of a store, with a connection that works.\<close>

definition first_row :: "AuthEnv \<Rightarrow> PersistConfig \<Rightarrow> bytes \<Rightarrow> bytes \<Rightarrow> AccountRow" where
  "first_row ev cfg username password =
     (let salt = ev_random ev 0 PW_SALT_BYTES
      in \<lparr>ac_id = 1, ac_username = username, ac_hash = HashPassword ev cfg password salt (pc_pbkdf2Iterations cfg), ac_salt = salt,
          ac_iterations = pc_pbkdf2Iterations cfg, ac_status = 0, ac_failures = 0, ac_lockedUntil = None, ac_tutorialDone = False\<rparr>)"

definition one_account :: "AccountRow \<Rightarrow> AccountDb" where
  "one_account row = empty_tables\<lparr>ad_accounts := [row], ad_nextId := 2, ad_wallets := [1 \<mapsto> 0]\<rparr>"

lemma length_HashPassword: "length (HashPassword ev cfg p salt n) = PW_HASH_BYTES"
  by (simp add: HashPassword_def Let_def)

lemma Register_first:
  assumes "ev_net ev = (\<lambda>_. Fine)" "ValidUsername username" "ValidPassword password" "pc_pbkdf2Iterations cfg < 2 ^ 31"
  shows "as_conn (snd (Register ev username password (fresh_store cfg))) =
      \<lparr>sq_db = one_account (first_row ev cfg username password), sq_tx = None, sq_calls = 5\<rparr>"
    "as_cfg (snd (Register ev username password (fresh_store cfg))) = cfg"
    "as_ipWindows (snd (Register ev username password (fresh_store cfg))) = Map.empty"
proof -
  have "\<not> 2147483648 \<le> pc_pbkdf2Iterations cfg" using assms(4) by (simp add: not_le)
  then show "as_conn (snd (Register ev username password (fresh_store cfg))) =
      \<lparr>sq_db = one_account (first_row ev cfg username password), sq_tx = None, sq_calls = 5\<rparr>"
    "as_cfg (snd (Register ev username password (fresh_store cfg))) = cfg"
    "as_ipWindows (snd (Register ev username password (fresh_store cfg))) = Map.empty"
    using assms(1-3)
    by (simp_all add: Register_def Let_def on_conn_def Pool_Acquire_def RandomBytes_def Sql_BeginTransaction_def Sql_Exec_def insert_account_def
        insert_wallet_def fresh_store_def AccountStore_new_def empty_tables_def sq_next_def Sql_Commit_def on_counters_def one_account_def first_row_def)
qed

lemma Login_first:
  assumes "ev_net ev = (\<lambda>_. Fine)" "ValidUsername username" "ValidPassword guess"
    "sq_db (as_conn st) = one_account row" "sq_tx (as_conn st) = None" "as_ipWindows st = Map.empty"
    and row: "ac_id row = 1" "ac_username row = username" "ac_lockedUntil row = None"
  shows "fst (fst (Login ev username guess ip now st)) =
    (if ac_hash row = HashPassword ev (as_cfg st) guess (ac_salt row) (pc_pbkdf2Iterations (as_cfg st)) then Auth_Ok else InvalidCredentials)"
proof -
  have m: "password_matches ev cfg guess (account_cells row) \<longleftrightarrow>
      ac_hash row = HashPassword ev cfg guess (ac_salt row) (pc_pbkdf2Iterations cfg)" for cfg
    unfolding password_matches_def Let_def account_cells_read login_row_cells ConstTimeEqual_eq
    using length_HashPassword by metis
  have r: "\<not> locked (account_cells row) now" unfolding login_row_cells by (simp add: locked_until_def row)
  have d: "select_account (ev_coll ev) username (one_account row) = (SqlOk (Some (account_cells row)), one_account row)"
    "ad_sessions (one_account row) = []" "ad_accounts (one_account row) = [row]"
    by (simp_all add: select_account_def one_account_def row empty_tables_def)
  have i: "fst (fst (issue_session ev 1 False now s)) = Auth_Ok" if "sq_db (as_conn s) = one_account row" "sq_tx (as_conn s) = None" for s
    using assms(1) row(1) d that
    by (simp add: issue_session_def Let_def on_conn_def Sql_Exec_def Sql_BeginTransaction_def Sql_Commit_def update_account_def sq_next_def
        revoke_where_def insert_session_def RandomBytes_def reset_failures_def)
  show ?thesis using assms(1-6) m r d
    by (simp add: Login_def Let_def on_conn_def Pool_Acquire_def sq_next_def Sql_Exec_def CheckIpRateLimit_def on_counters_def
        IP_WINDOW_MAX_ATTEMPTS_def login_row_def account_cells_read i row split: prod.split)
qed

text \<open>C19: When the key derivation fails, any password will do.  \<open>HashPassword\<close> then returns a hash of zeros
  instead of an error, so that an account registered in that state is open to every valid password.\<close>

theorem kdf_failure_fails_open:
  assumes "ev_pbkdf2 ev = (\<lambda>_ _ _ _. [])" "ev_net ev = (\<lambda>_. Fine)"
    "ValidUsername username" "ValidPassword password" "ValidPassword guess" "pc_pbkdf2Iterations cfg < 2 ^ 31"
  shows "fst (fst (Login ev username guess ip now (snd (Register ev username password (fresh_store cfg))))) = Auth_Ok"
proof -
  have h: "HashPassword ev c p s i = replicate PW_HASH_BYTES 0" for c p s i
    by (simp add: HashPassword_def assms(1) PW_HASH_BYTES_def)
  note reg = Register_first [OF assms(2-4,6)]
  have "fst (fst (Login ev username guess ip now (snd (Register ev username password (fresh_store cfg))))) =
      (if ac_hash (first_row ev cfg username password) = replicate PW_HASH_BYTES 0 then Auth_Ok else InvalidCredentials)"
    using reg by (subst Login_first [OF assms(2,3,5), where row = "first_row ev cfg username password"]) (simp_all add: h first_row_def Let_def)
  then show ?thesis by (simp add: h first_row_def Let_def)
qed

theorem kdf_failure_fails_open_witness:
  "fst (fst (Login (plain_env\<lparr>ev_pbkdf2 := \<lambda>_ _ _ _. []\<rparr>) bob [9, 9, 9, 9, 9, 9, 9, 9] [] 100
     (snd (Register (plain_env\<lparr>ev_pbkdf2 := \<lambda>_ _ _ _. []\<rparr>) bob secret (fresh_store plain_cfg))))) = Auth_Ok"
proof -
  have "ValidUsername bob" "ValidPassword secret" "ValidPassword [9, 9, 9, 9, 9, 9, 9, 9]" by code_simp+
  then show ?thesis by (intro kdf_failure_fails_open) (simp_all add: plain_env_def plain_cfg_def)
qed

text \<open>The columns that are never seen.  \<open>Status\<close> is one byte wide and \<open>Pbkdf2Iterations\<close> four, and a cell
  of less than eight bytes is read as 0.  So an administrator's \<open>UPDATE Accounts SET Status = s\<close> has no
  effect: a banned account logs in.\<close>

definition set_status :: "nat \<Rightarrow> AccountStore \<Rightarrow> AccountStore" where
  "set_status s st = st\<lparr>as_conn := (as_conn st)\<lparr>sq_db := (sq_db (as_conn st))\<lparr>ad_accounts :=
     map (\<lambda>r. r\<lparr>ac_status := s\<rparr>) (ad_accounts (sq_db (as_conn st)))\<rparr>\<rparr>\<rparr>"

theorem banned_account_logs_in:
  assumes "ev_net ev = (\<lambda>_. Fine)" "ValidUsername username" "ValidPassword password" "pc_pbkdf2Iterations cfg < 2 ^ 31"
  shows "fst (fst (Login ev username password ip now (set_status s (snd (Register ev username password (fresh_store cfg)))))) = Auth_Ok"
proof -
  note reg = Register_first [OF assms]
  let ?row = "(first_row ev cfg username password)\<lparr>ac_status := s\<rparr>"
  have "sq_db (as_conn (set_status s (snd (Register ev username password (fresh_store cfg))))) = one_account ?row"
    by (simp add: set_status_def reg one_account_def)
  then show ?thesis
    by (subst Login_first [OF assms(1-3), where row = ?row]) (simp_all add: set_status_def reg first_row_def Let_def)
qed

text \<open>And raising the configured cost locks every existing account out, since its password is then hashed
  with the new cost and compared with the hash of the old one.\<close>

theorem raised_cost_locks_out:
  assumes "ev_net ev = (\<lambda>_. Fine)" "ValidUsername username" "ValidPassword password" "pc_pbkdf2Iterations cfg < 2 ^ 31"
    and "HashPassword ev cfg password (ev_random ev 0 PW_SALT_BYTES) n \<noteq>
      HashPassword ev cfg password (ev_random ev 0 PW_SALT_BYTES) (pc_pbkdf2Iterations cfg)"
  shows "fst (fst (Login ev username password ip now
      ((snd (Register ev username password (fresh_store cfg)))\<lparr>as_cfg := cfg\<lparr>pc_pbkdf2Iterations := n\<rparr>\<rparr>))) = InvalidCredentials"
proof -
  note reg = Register_first [OF assms(1-4)]
  have h: "HashPassword ev (cfg\<lparr>pc_pbkdf2Iterations := n\<rparr>) p s k = HashPassword ev cfg p s k" for p s k
    by (simp add: HashPassword_def)
  show ?thesis
    using assms(5) [symmetric]
    by (subst Login_first [OF assms(1-3), where row = "first_row ev cfg username password"]) (simp_all add: reg h first_row_def Let_def)
qed

end
