(* ===== verification/Server_Host.thy ===== *)
theory Server_Host
  imports Connection_Table Account_Store Snapshot_Jobs Server_Spawn Fleet_Commands
begin

text \<open>
  The server host (\<open>NeuronCore/ServerHost.h\<close>): it accepts clients in a stateless cookie phase, routes
  datagrams to connections by token, registers and logs in players through the account store, binds
  each to its base in the simulation, and sends the snapshots.  The list of connections stands for the
  unordered map of the code in its order of iteration.  The addresses of peers and the user input are
  byte strings.  An assertion of the entity store that fails (no free entity slot) is the result None.
  The counters for telemetry are left out.
\<close>

section \<open>State\<close>

record Endpoint =
  ep_ip :: bytes
  ep_port :: u16

definition AddrBytes :: "Endpoint \<Rightarrow> bytes" where
  "AddrBytes e = ep_ip e @ [ucast (ep_port e AND 0xFF), ucast (drop_bit 8 (ep_port e) AND 0xFF)]"

definition Key :: "Endpoint \<Rightarrow> bytes" where
  "Key e = ep_ip e @ [0x3A] @ map (\<lambda>c. of_nat (of_char c)) (show_nat (unat (ep_port e)))"

type_synonym OutDatagram = "Endpoint \<times> bytes"

record ConnEntry =
  ce_conn :: ServerConnection
  ce_endpoint :: Endpoint
  ce_handle :: ConnHandle
  ce_lastSeenMs :: u64
  ce_playerNetId :: u32
  ce_authed :: bool
  ce_accountId :: u64
  ce_sessionToken :: bytes

record 's ServerHost =
  ho_crypto :: 's
  ho_staticPriv :: bytes
  ho_serverSecret :: bytes
  ho_universe :: server
  ho_serverTime :: u64
  ho_table :: ConnectionTable
  ho_conns :: "(u64 \<times> ConnEntry) list"
  ho_addrToToken :: "bytes \<rightharpoonup> u64"
  ho_nowMs :: u64
  ho_tokenCounter :: u64
  ho_dilation :: double
  ho_accounts :: "AccountStore option"
  ho_persist :: "EconWorker option"
  ho_devAuthStub :: bool
  ho_nowUnix :: int

definition ServerHost_new :: "'s \<Rightarrow> bytes \<Rightarrow> bytes \<Rightarrow> server \<Rightarrow> u64 \<Rightarrow> 's ServerHost" where
  "ServerHost_new cst staticPriv serverSecret universe time =
     \<lparr>ho_crypto = cst, ho_staticPriv = staticPriv, ho_serverSecret = serverSecret, ho_universe = universe,
      ho_serverTime = time, ho_table = ConnectionTable_new, ho_conns = [], ho_addrToToken = Map.empty, ho_nowMs = 0,
      ho_tokenCounter = 0, ho_dilation = 1, ho_accounts = None, ho_persist = None, ho_devAuthStub = False, ho_nowUnix = 0\<rparr>"

definition SetPersistDeps :: "AccountStore option \<Rightarrow> EconWorker option \<Rightarrow> bool \<Rightarrow> 's ServerHost \<Rightarrow> 's ServerHost" where
  "SetPersistDeps accounts persist devAuthStub h =
     h\<lparr>ho_accounts := accounts, ho_persist := persist, ho_devAuthStub := devAuthStub\<rparr>"

definition SetUnixTime :: "int \<Rightarrow> 's ServerHost \<Rightarrow> 's ServerHost" where
  "SetUnixTime now h = h\<lparr>ho_nowUnix := now\<rparr>"

definition SetClockMs :: "u64 \<Rightarrow> 's ServerHost \<Rightarrow> 's ServerHost" where
  "SetClockMs now h = h\<lparr>ho_nowMs := now\<rparr>"

definition SNAPSHOT_BYTE_BUDGET :: nat where "SNAPSHOT_BYTE_BUDGET = 1200 - HEADER_SIZE - AEAD_TAG_BYTES"
definition STARTING_CREDITS :: u64 where "STARTING_CREDITS = 1000"

definition on_universe :: "(server \<Rightarrow> server) \<Rightarrow> 's ServerHost \<Rightarrow> 's ServerHost" where
  "on_universe f h = h\<lparr>ho_universe := f (ho_universe h)\<rparr>"

definition NextToken :: "'s ServerHost \<Rightarrow> u64 \<times> 's ServerHost" where
  "NextToken h =
     (let n = ho_tokenCounter h + 1;
          x = n * 0x9E3779B97F4A7C15 + 0xABCDEF;
          x = (x XOR drop_bit 30 x) * 0xBF58476D1CE4E5B9
      in (x XOR drop_bit 31 x, h\<lparr>ho_tokenCounter := n\<rparr>))"

section \<open>The connections\<close>

definition EntryForToken :: "'s ServerHost \<Rightarrow> u64 \<Rightarrow> ConnEntry option" where
  "EntryForToken h token = map_of (ho_conns h) token"

definition EntryForClient :: "'s ServerHost \<Rightarrow> u32 \<Rightarrow> (u64 \<times> ConnEntry) option" where
  "EntryForClient h netId = find (\<lambda>c. ce_playerNetId (snd c) = netId) (ho_conns h)"

text \<open>A write through the pointer to an entry.\<close>

definition put_entry :: "u64 \<Rightarrow> ConnEntry \<Rightarrow> 's ServerHost \<Rightarrow> 's ServerHost" where
  "put_entry token e h = h\<lparr>ho_conns := map (\<lambda>c. if fst c = token then (token, e) else c) (ho_conns h)\<rparr>"

definition is_connected :: "ServerConnection \<Rightarrow> bool" where
  "is_connected sn \<longleftrightarrow> sn_state sn = Connected"

definition ConnectedClientIds :: "'s ServerHost \<Rightarrow> u32 list" where
  "ConnectedClientIds h =
     sort (map (\<lambda>c. ce_playerNetId (snd c)) (filter (\<lambda>c. is_connected (ce_conn (snd c)) \<and> ce_playerNetId (snd c) \<noteq> 0) (ho_conns h)))"

definition ConnectionCount :: "'s ServerHost \<Rightarrow> nat" where
  "ConnectionCount h = length (ho_conns h)"

definition ConnectedCount :: "'s ServerHost \<Rightarrow> nat" where
  "ConnectedCount h = length (filter (\<lambda>c. is_connected (ce_conn (snd c))) (ho_conns h))"

definition Host_SetDilationFactor :: "double \<Rightarrow> 's ServerHost \<Rightarrow> 's ServerHost" where
  "Host_SetDilationFactor factor h =
     h\<lparr>ho_dilation := factor,
       ho_conns := map (\<lambda>(t, e). (t, e\<lparr>ce_conn := Server_SetDilationFactor factor (ce_conn e)\<rparr>)) (ho_conns h)\<rparr>"

text \<open>Erasing a connection with its address and its slot.\<close>

definition drop_connection :: "u64 \<Rightarrow> ConnEntry \<Rightarrow> 's ServerHost \<Rightarrow> 's ServerHost" where
  "drop_connection token e h =
     h\<lparr>ho_addrToToken := (ho_addrToToken h)(Key (ce_endpoint e) := None), ho_table := Table_Close (ho_table h) token,
       ho_conns := filter (\<lambda>c. fst c \<noteq> token) (ho_conns h)\<rparr>"

definition RemoveConnection :: "u64 \<Rightarrow> 's ServerHost \<Rightarrow> 's ServerHost" where
  "RemoveConnection token h =
     (case EntryForToken h token of
        None \<Rightarrow> h
      | Some e \<Rightarrow> drop_connection token e (on_universe (\<lambda>su. snd (DespawnBase (ce_playerNetId e) su)) h))"

definition stale :: "u64 \<Rightarrow> 's ServerHost \<Rightarrow> ConnEntry \<Rightarrow> bool" where
  "stale timeoutMs h e \<longleftrightarrow>
     sn_state (ce_conn e) \<noteq> Disconnected \<and> timeoutMs \<noteq> 0 \<and> ho_nowMs h \<ge> ce_lastSeenMs e \<and> ho_nowMs h - ce_lastSeenMs e > timeoutMs"

record ClosedConn =
  cl_endpoint :: bytes
  cl_netId :: u32
  cl_timedOut :: bool

definition PruneStale :: "u64 \<Rightarrow> 's ServerHost \<Rightarrow> ClosedConn list \<times> 's ServerHost" where
  "PruneStale timeoutMs h =
     (let gone = filter (\<lambda>c. sn_state (ce_conn (snd c)) = Disconnected \<or> stale timeoutMs h (snd c)) (ho_conns h)
      in (map (\<lambda>c. \<lparr>cl_endpoint = Key (ce_endpoint (snd c)), cl_netId = ce_playerNetId (snd c),
                    cl_timedOut = stale timeoutMs h (snd c)\<rparr>) gone,
          fold RemoveConnection (map fst gone) h))"

definition KickExistingSessionForAccount :: "u64 \<Rightarrow> u64 \<Rightarrow> 's ServerHost \<Rightarrow> 's ServerHost" where
  "KickExistingSessionForAccount accountId keepToken h =
     (let kick = map fst (filter (\<lambda>c. fst c \<noteq> keepToken \<and> ce_authed (snd c) \<and> ce_accountId (snd c) = accountId) (ho_conns h))
      in fold (\<lambda>token h. case EntryForToken h token of None \<Rightarrow> h | Some e \<Rightarrow> drop_connection token e h) kick h)"

section \<open>Players\<close>

definition SpawnPlayerWorld :: "u64 \<Rightarrow> 's ServerHost \<Rightarrow> (u32 \<times> 's ServerHost) option" where
  "SpawnPlayerWorld slot h =
     (let startX = SECTOR_SIZE - 200; startY = slot * 2000 in do {
        (netId, su) \<leftarrow> SpawnBase \<lparr>up_x = startX, up_y = startY, up_z = 0\<rparr> (0, 0, 0) (ho_universe h);
        (_, su) \<leftarrow> SpawnFleetShip netId ShipShapeId \<lparr>up_x = startX + 220, up_y = startY, up_z = 0\<rparr> su;
        let su = (case comp_of T_Storage su netId of
                    Some st \<Rightarrow> set_comp T_Storage (st\<lparr>ho_amount := (ho_amount st)[ResourceType_index Ore := 600]\<rparr>) netId su
                  | None \<Rightarrow> su);
        Some (netId, h\<lparr>ho_universe := su\<rparr>)
      })"

definition starting_credit :: "u64 \<Rightarrow> EconomyMutation" where
  "starting_credit accountId =
     \<lparr>mu_idemKey = 0x5EED0000 XOR accountId, mu_accountId = accountId, mu_amount = STARTING_CREDITS, mu_kind = KWalletDelta,
      mu_reason = ''starting_credits'', mu_refType = ''Account'', mu_refId = accountId\<rparr>"

definition BindAccountBase :: "SessionInfo \<Rightarrow> 's ServerHost \<Rightarrow> (u32 \<times> 's ServerHost) option" where
  "BindAccountBase session h =
     (let baseId = ucast (si_baseId session) :: u32;
          firstLogin = \<not> (si_baseId session \<noteq> 0 \<and> GetBasePos (ho_universe h) baseId \<noteq> None) in do {
        (netId, h) \<leftarrow> (if \<not> firstLogin then Some (baseId, h) else SpawnPlayerWorld (of_nat (length (ho_conns h))) h);
        let h = h\<lparr>ho_accounts := map_option (\<lambda>st. snd (SetAccountBase (si_accountId session) (ucast netId) st)) (ho_accounts h)\<rparr>;
        let h = (if firstLogin
                 then h\<lparr>ho_persist := map_option (\<lambda>w. snd (EnqueueEconomy (starting_credit (si_accountId session)) w)) (ho_persist h)\<rparr>
                 else h);
        Some (netId, h)
      })"

section \<open>Registering and logging in\<close>

fun auth_byte :: "AuthResult \<Rightarrow> u8" where
  "auth_byte Auth_Ok = 0"
| "auth_byte UsernameTaken = 1"
| "auth_byte InvalidCredentials = 2"
| "auth_byte AccountLocked = 3"
| "auth_byte RateLimited = 4"
| "auth_byte AccountBanned = 5"
| "auth_byte DbUnavailable = 6"
| "auth_byte BadInput = 7"

definition IsAuthOpcode :: "u8 \<Rightarrow> bool" where
  "IsAuthOpcode b \<longleftrightarrow> b = AUTH_OPCODE_REGISTER \<or> b = AUTH_OPCODE_LOGIN"

definition readStr :: "bytes \<Rightarrow> nat \<Rightarrow> (bytes \<times> nat) option" where
  "readStr body off =
     (if off + 2 > length body then None
      else
        (let n = unat (ucast (body ! off) OR push_bit 8 (ucast (body ! (off + 1))) :: u16); off = off + 2
         in if off + n > length body then None else Some (take n (drop off body), off + n)))"

definition DecodeAuthRequest :: "bytes \<Rightarrow> (bytes \<times> bytes) option" where
  "DecodeAuthRequest body = do { (user, off) \<leftarrow> readStr body 1; (pass, _) \<leftarrow> readStr body off; Some (user, pass) }"

definition SendAuthResult :: "'s ICrypto \<Rightarrow> u64 \<Rightarrow> Endpoint \<Rightarrow> AuthResult \<Rightarrow> 's ServerHost \<Rightarrow> OutDatagram list \<times> 's ServerHost" where
  "SendAuthResult C token from' res h =
     (case EntryForToken h token of
        None \<Rightarrow> ([], h)
      | Some e \<Rightarrow>
          (let tokenLo = le_get 8 (ce_sessionToken e) :: u64;
               b = [AUTH_OPCODE_RESULT, auth_byte res] @ le_put 4 (ce_playerNetId e) @ le_put 8 tokenLo
           in case SealApp C Ch_ReliableOrdered Msg_Command b (ce_conn e) of
                (dg, conn) \<Rightarrow> (case dg of Some d \<Rightarrow> [(from', d)] | None \<Rightarrow> [], put_entry token (e\<lparr>ce_conn := conn\<rparr>) h)))"

definition create_baseline :: "u32 \<Rightarrow> server \<Rightarrow> server" where
  "create_baseline netId su = set_baseline netId (baseline_of su netId) su"

text \<open>Register, then log in; or log in.\<close>

definition authenticate :: "AuthEnv \<Rightarrow> u8 \<Rightarrow> bytes \<Rightarrow> bytes \<Rightarrow> bytes \<Rightarrow> int \<Rightarrow> AccountStore \<Rightarrow> (AuthResult \<times> SessionInfo) \<times> AccountStore" where
  "authenticate ev opcode user pass ip now st =
     (if opcode = AUTH_OPCODE_REGISTER
      then (case Register ev user pass st of
              ((res, session), st) \<Rightarrow> if res = Auth_Ok then Login ev user pass ip now st else ((res, session), st))
      else Login ev user pass ip now st)"

text \<open>The end of a successful login.  The driver of an entry has the token of the entry (the invariant below), so
  the session kept is the one of the entry.\<close>

definition bind_session :: "u64 \<Rightarrow> SessionInfo \<Rightarrow> 's ServerHost \<Rightarrow> 's ServerHost option" where
  "bind_session token session h = do {
     (netId, h) \<leftarrow> BindAccountBase session (KickExistingSessionForAccount (si_accountId session) token h);
     e \<leftarrow> EntryForToken h token;
     let h = put_entry token (e\<lparr>ce_conn := MarkConnected (SetPlayerNetId netId (ce_conn e)), ce_playerNetId := netId, ce_authed := True,
                ce_accountId := si_accountId session, ce_sessionToken := si_token session\<rparr>) h;
     Some (on_universe (create_baseline netId) h)
   }"

definition OnAuthMessage ::
    "'s ICrypto \<Rightarrow> AuthEnv \<Rightarrow> u64 \<Rightarrow> Endpoint \<Rightarrow> bytes \<Rightarrow> 's ServerHost \<Rightarrow> (OutDatagram list \<times> 's ServerHost) option" where
  "OnAuthMessage C ev token from' body h =
     (case DecodeAuthRequest body of
        None \<Rightarrow> Some (SendAuthResult C token from' BadInput h)
      | Some (user, pass) \<Rightarrow>
          (case ho_accounts h of
             None \<Rightarrow> Some (SendAuthResult C token from' DbUnavailable h)
           | Some st \<Rightarrow>
               (case EntryForToken h token of
                  None \<Rightarrow> None
                | Some e \<Rightarrow>
                    (case authenticate ev (body ! 0) user pass (ep_ip (ce_endpoint e)) (ho_nowUnix h) st of
                       ((res, session), st) \<Rightarrow>
                         (let h = h\<lparr>ho_accounts := Some st\<rparr>
                          in if res \<noteq> Auth_Ok then Some (SendAuthResult C token from' res h)
                             else map_option (SendAuthResult C token from' Auth_Ok) (bind_session token session h))))))"

definition ValidateSession :: "AuthEnv \<Rightarrow> ConnEntry \<Rightarrow> 's ServerHost \<Rightarrow> bool \<times> 's ServerHost" where
  "ValidateSession ev e h =
     (if \<not> ce_authed e then (False, h)
      else
        (case ho_accounts h of
           None \<Rightarrow> (True, h)
         | Some st \<Rightarrow>
             (case ValidateToken ev (ce_sessionToken e) st of
                (info, st) \<Rightarrow> (case info of None \<Rightarrow> False | Some i \<Rightarrow> si_accountId i = ce_accountId e, h\<lparr>ho_accounts := Some st\<rparr>))))"

section \<open>Datagrams\<close>

definition HandleClientMessage ::
    "'s ICrypto \<Rightarrow> AuthEnv \<Rightarrow> u64 \<Rightarrow> Endpoint \<Rightarrow> AppMessage \<Rightarrow> 's ServerHost \<Rightarrow> (OutDatagram list \<times> 's ServerHost) option" where
  "HandleClientMessage C ev token from' m h =
     (if msg_type m = Msg_Command
      then if msg_body m \<noteq> [] \<and> IsAuthOpcode (msg_body m ! 0) then OnAuthMessage C ev token from' (msg_body m) h else Some ([], h)
      else if msg_type m = Msg_FleetCommand
      then
        (case EntryForToken h token of
           None \<Rightarrow> None
         | Some e \<Rightarrow>
             (if \<not> ce_authed e then Some ([], h)
              else
                (case DecodeFleetCommand (msg_body m) of
                   None \<Rightarrow> Some ([], h)
                 | Some cmd \<Rightarrow> Some ([], on_universe (\<lambda>su. snd (ApplyFleetCommand (ce_playerNetId e) cmd su)) h))))
      else Some ([], h))"

fun HandleClientMessages ::
    "'s ICrypto \<Rightarrow> AuthEnv \<Rightarrow> u64 \<Rightarrow> Endpoint \<Rightarrow> AppMessage list \<Rightarrow> 's ServerHost \<Rightarrow> (OutDatagram list \<times> 's ServerHost) option" where
  "HandleClientMessages C ev token from' [] h = Some ([], h)"
| "HandleClientMessages C ev token from' (m # ms) h = do {
     (out, h) \<leftarrow> HandleClientMessage C ev token from' m h;
     (out', h) \<leftarrow> HandleClientMessages C ev token from' ms h;
     Some (out @ out', h)
   }"

definition DispatchToConnection ::
    "'s ICrypto \<Rightarrow> AuthEnv \<Rightarrow> u64 \<Rightarrow> ConnEntry \<Rightarrow> Endpoint \<Rightarrow> bytes \<Rightarrow> 's ServerHost \<Rightarrow> (OutDatagram list \<times> 's ServerHost) option" where
  "DispatchToConnection C ev token e from' dg h =
     (if \<not> is_connected (ce_conn e) \<and> 2 \<le> length dg \<and> dg ! 0 = Kind_ClearHandshake \<and> dg ! 1 = Msg_CookieResponse
      then Some (map (Pair from') (ResendHandshake (ce_conn e)), h)
      else
        (case Server_OnDatagram C dg (ce_conn e) of
           (_, app, send, conn) \<Rightarrow> do {
             (out, h) \<leftarrow> HandleClientMessages C ev token from' app (put_entry token (e\<lparr>ce_conn := conn\<rparr>) h);
             Some (map (Pair from') send @ out, h)
           }))"

text \<open>A datagram for a known connection, which is removed when it has disconnected.\<close>

definition serve ::
    "'s ICrypto \<Rightarrow> AuthEnv \<Rightarrow> u64 \<Rightarrow> ConnEntry \<Rightarrow> Endpoint \<Rightarrow> bytes \<Rightarrow> 's ServerHost \<Rightarrow> (OutDatagram list \<times> 's ServerHost) option" where
  "serve C ev token e from' dg h =
     (let e = e\<lparr>ce_lastSeenMs := ho_nowMs h\<rparr> in do {
        (out, h) \<leftarrow> DispatchToConnection C ev token e from' dg (put_entry token e h);
        Some (out, if map_option (\<lambda>e. sn_state (ce_conn e)) (EntryForToken h token) = Some Disconnected then RemoveConnection token h else h)
      })"

text \<open>A valid cookie: the connection is made (with the base of the player under the development stub), begins the
  key exchange, and enters the tables.\<close>

definition open_connection ::
    "'s ICrypto \<Rightarrow> Endpoint \<Rightarrow> bytes \<Rightarrow> u64 \<Rightarrow> u32 \<Rightarrow> ServerConnection \<Rightarrow> 's ServerHost \<Rightarrow> OutDatagram list \<times> 's ServerHost" where
  "open_connection C from' body token netId conn h =
     (let (_, send, conn, cst) = BeginFromCookieResponse C body conn (ho_crypto h);
          (handle, table) = Table_Open (ho_table h) token;
          entry = \<lparr>ce_conn = conn, ce_endpoint = from', ce_handle = handle, ce_lastSeenMs = ho_nowMs h, ce_playerNetId = netId,
                   ce_authed = ho_devAuthStub h, ce_accountId = 0, ce_sessionToken = replicate SESSION_TOKEN_BYTES 0\<rparr>;
          h = h\<lparr>ho_crypto := cst, ho_table := table,
                ho_conns := (if EntryForToken h token = None then ho_conns h @ [(token, entry)] else ho_conns h),
                ho_addrToToken := (ho_addrToToken h)(Key from' \<mapsto> token)\<rparr>
      in (map (Pair from') send, if netId \<noteq> 0 then on_universe (create_baseline netId) h else h))"

definition accept_peer :: "'s ICrypto \<Rightarrow> Endpoint \<Rightarrow> bytes \<Rightarrow> 's ServerHost \<Rightarrow> (OutDatagram list \<times> 's ServerHost) option" where
  "accept_peer C from' body h =
     (let (token, h) = NextToken h;
          conn = Server_SetDilationFactor (ho_dilation h) (ServerConnection_new (ho_staticPriv h) token (ho_serverTime h))
      in if ho_devAuthStub h
         then map_option (\<lambda>(netId, h). open_connection C from' body token netId (SetPlayerNetId netId conn) h)
                (SpawnPlayerWorld (of_nat (length (ho_conns h))) h)
         else Some (open_connection C from' body token 0 conn h))"

definition OnDatagram ::
    "'s ICrypto \<Rightarrow> AuthEnv \<Rightarrow> Endpoint \<Rightarrow> bytes \<Rightarrow> 's ServerHost \<Rightarrow> (OutDatagram list \<times> 's ServerHost) option" where
  "OnDatagram C ev from' dg h =
     (if dg = [] then Some ([], h)
      else if dg ! 0 = Kind_Encrypted
      then
        (case Option.bind (PeekConnectionToken dg) (\<lambda>t. map_option (Pair t) (EntryForToken h t)) of
           None \<Rightarrow> Some ([], h)
         | Some (token, e) \<Rightarrow> serve C ev token e from' dg h)
      else if dg ! 0 \<noteq> Kind_ClearHandshake \<or> length dg < 2 then Some ([], h)
      else
        (case Option.bind (ho_addrToToken h (Key from')) (\<lambda>t. map_option (Pair t) (EntryForToken h t)) of
           Some (token, e) \<Rightarrow> serve C ev token e from' dg h
         | None \<Rightarrow>
             (let ty = dg ! 1; body = drop 2 dg; addr = AddrBytes from' in
              if ty = Msg_ClientHello
              then (let out = OnClientHello C (ho_serverSecret h) body addr
                    in Some (if ho_send out then [(from', MakeHandshakeDatagram (ho_type out) (ho_body out))] else [], h))
              else if ty = Msg_CookieResponse
              then (case CookieResponse_Decode body of
                      Decoded cr \<Rightarrow>
                        (if \<not> Stateless_VerifyCookie C (ho_serverSecret h) (cr_cookie cr) addr then Some ([], h)
                         else accept_peer C from' body h)
                    | _ \<Rightarrow> Some ([], h))
              else Some ([], h))))"

section \<open>Snapshots\<close>

definition send_snapshot :: "'s ICrypto \<Rightarrow> EncodeResult \<Rightarrow> OutDatagram list \<times> 's ServerHost \<Rightarrow> OutDatagram list \<times> 's ServerHost" where
  "send_snapshot C er s =
     (case s of (out, h) \<Rightarrow>
       (case EntryForClient h (en_clientId er) of
          None \<Rightarrow> (out, h)
        | Some (token, e) \<Rightarrow>
            (if \<not> is_connected (ce_conn e) then (out, h)
             else
               (case SealApp C Ch_Unreliable Msg_Snapshot (EncodeDeltaSnapshot (en_snap er)) (ce_conn e) of
                  (dg, conn) \<Rightarrow>
                    (case dg of Some d \<Rightarrow> out @ [(ce_endpoint e, d)] | None \<Rightarrow> out,
                     on_universe (RecordClientSnapshotSent (en_clientId er) (en_snap er)) (put_entry token (e\<lparr>ce_conn := conn\<rparr>) h))))))"

definition BroadcastSnapshots :: "'s ICrypto \<Rightarrow> nat \<Rightarrow> 's ServerHost \<Rightarrow> OutDatagram list \<times> 's ServerHost" where
  "BroadcastSnapshots C workerCount h =
     (let clients = ConnectedClientIds h in
      if clients = [] then ([], h)
      else
        (case EncodeClientsPooledCounting clients SNAPSHOT_BYTE_BUDGET workerCount (ho_universe h) of
           ((results, _), su) \<Rightarrow> fold (send_snapshot C) results ([], h\<lparr>ho_universe := su\<rparr>)))"

section \<open>Tokens are never repeated\<close>

definition token_of :: "u64 \<Rightarrow> u64" where
  "token_of n =
     (let x = n * 0x9E3779B97F4A7C15 + 0xABCDEF; x = (x XOR drop_bit 30 x) * 0xBF58476D1CE4E5B9 in x XOR drop_bit 31 x)"

lemma NextToken_eq: "NextToken h = (token_of (ho_tokenCounter h + 1), h\<lparr>ho_tokenCounter := ho_tokenCounter h + 1\<rparr>)"
  by (simp add: NextToken_def token_of_def Let_def)

lemma mult_inj:
  fixes x y :: u64
  assumes "x * c = y * c" "c * d = 1"
  shows "x = y"
proof -
  have "x * (c * d) = y * (c * d)" using assms(1) by (simp flip: mult.assoc)
  then show ?thesis using assms(2) by simp
qed

lemma token_of_inj: "token_of m = token_of n \<Longrightarrow> m = n"
proof -
  assume "token_of m = token_of n"
  then have "(m * 0x9E3779B97F4A7C15 + 0xABCDEF XOR drop_bit 30 (m * 0x9E3779B97F4A7C15 + 0xABCDEF)) * 0xBF58476D1CE4E5B9 =
      (n * 0x9E3779B97F4A7C15 + 0xABCDEF XOR drop_bit 30 (n * 0x9E3779B97F4A7C15 + 0xABCDEF)) * 0xBF58476D1CE4E5B9"
    unfolding token_of_def Let_def by (rule xorshift_inj) simp
  then have "m * 0x9E3779B97F4A7C15 + 0xABCDEF XOR drop_bit 30 (m * 0x9E3779B97F4A7C15 + 0xABCDEF) =
      n * 0x9E3779B97F4A7C15 + 0xABCDEF XOR drop_bit 30 (n * 0x9E3779B97F4A7C15 + 0xABCDEF)"
    by (rule mult_inj [where d = "0x96DE1B173F119089"]) simp
  then have "m * 0x9E3779B97F4A7C15 + 0xABCDEF = n * 0x9E3779B97F4A7C15 + 0xABCDEF" by (rule xorshift_inj) simp
  then have "m * 0x9E3779B97F4A7C15 = n * 0x9E3779B97F4A7C15" by simp
  then show "m = n" by (rule mult_inj [where d = "0xF1DE83E19937733D"]) simp
qed

section \<open>The routing tables agree\<close>

type_synonym view = "u64 \<times> ConnHandle \<times> Endpoint \<times> u64"

definition view :: "u64 \<times> ConnEntry \<Rightarrow> view" where
  "view c = (fst c, ce_handle (snd c), ce_endpoint (snd c), sn_token (ce_conn (snd c)))"

definition routes_ok :: "u64 \<Rightarrow> ConnectionTable \<Rightarrow> (bytes \<rightharpoonup> u64) \<Rightarrow> view list \<Rightarrow> bool" where
  "routes_ok counter t addr vs \<longleftrightarrow>
     table_inv t \<and> length (m_slots t) \<le> unat counter \<and> distinct (map fst vs) \<and> dom (m_byToken t) = fst ` set vs \<and>
     (\<forall>(tok, hn, ep, st) \<in> set vs. hn = Table_Find t tok \<and> st = tok \<and> (\<exists>n. 0 < n \<and> n \<le> counter \<and> tok = token_of n)) \<and>
     (\<forall>k tok. addr k = Some tok \<longleftrightarrow> (\<exists>hn ep st. (tok, hn, ep, st) \<in> set vs \<and> Key ep = k))"

definition routing_ok :: "'s ServerHost \<Rightarrow> bool" where
  "routing_ok h \<longleftrightarrow> routes_ok (ho_tokenCounter h) (ho_table h) (ho_addrToToken h) (map view (ho_conns h))"

lemma routes_okD:
  assumes "routes_ok counter t addr vs"
  shows "table_inv t" "length (m_slots t) \<le> unat counter" "distinct (map fst vs)" "dom (m_byToken t) = fst ` set vs"
    "(tok, hn, ep, st) \<in> set vs \<Longrightarrow> hn = Table_Find t tok \<and> st = tok \<and> (\<exists>n. 0 < n \<and> n \<le> counter \<and> tok = token_of n)"
    "addr k = Some tok \<longleftrightarrow> (\<exists>hn ep st. (tok, hn, ep, st) \<in> set vs \<and> Key ep = k)"
  using assms unfolding routes_ok_def by blast+

lemma routes_okI:
  assumes "table_inv t" "length (m_slots t) \<le> unat counter" "distinct (map fst vs)" "dom (m_byToken t) = fst ` set vs"
    "\<And>tok hn ep st. (tok, hn, ep, st) \<in> set vs \<Longrightarrow> hn = Table_Find t tok \<and> st = tok \<and> (\<exists>n. 0 < n \<and> n \<le> counter \<and> tok = token_of n)"
    "\<And>k tok. addr k = Some tok \<longleftrightarrow> (\<exists>hn ep st. (tok, hn, ep, st) \<in> set vs \<and> Key ep = k)"
  shows "routes_ok counter t addr vs"
  using assms unfolding routes_ok_def by blast

lemma find_step:
  assumes "table_inv t" "length (m_slots t) < 2 ^ 32" "tok \<in> dom (m_byToken t)" "p \<noteq> OpClose tok"
  shows "Table_Find (table_step t p) tok = Table_Find t tok"
proof -
  obtain i where i: "m_byToken t tok = Some i" using assms(3) by blast
  show ?thesis using step_keeps_slot [OF assms(1) i assms(4,2)] i by (simp add: Table_Find_def HandleFor_def)
qed

lemma dom_close: "table_inv t \<Longrightarrow> dom (m_byToken (Table_Close t tok)) = dom (m_byToken t) - {tok}"
  by (auto simp: Table_Close_def Let_def split: option.splits)

lemma dom_open: "dom (m_byToken (snd (Table_Open t tok))) = insert tok (dom (m_byToken t))"
  by (auto simp: Table_Open_def Let_def split: option.splits prod.splits)

lemma routes_drop:
  assumes "routes_ok counter t addr vs" "(tok, hn, ep, st) \<in> set vs" "counter < 2 ^ 32"
  shows "routes_ok counter (Table_Close t tok) (addr(Key ep := None)) (filter (\<lambda>v. fst v \<noteq> tok) vs)"
proof -
  note R = routes_okD [OF assms(1)]
  have len: "length (m_slots t) < 2 ^ 32" using R(2) assms(3) by (simp add: word_less_nat_alt)
  have f: "Table_Find (Table_Close t tok) k = Table_Find t k" if "k \<in> dom (m_byToken t)" "k \<noteq> tok" for k
    using find_step [OF R(1) len that(1), of "OpClose tok"] that(2) by simp
  have u: "v = (tok, hn, ep, st)" if "v \<in> set vs" "fst v = tok" for v
    using that assms(2) R(3) by (simp add: distinct_map inj_on_def)
  have a1: "length (m_slots (Table_Close t tok)) = length (m_slots t)" by (auto simp: Table_Close_def Let_def split: option.split)
  have a2: "(addr(Key ep := None)) k = Some tk \<longleftrightarrow> (\<exists>hn ep st. (tk, hn, ep, st) \<in> set (filter (\<lambda>v. fst v \<noteq> tok) vs) \<and> Key ep = k)" for k tk
  proof -
    have a: "addr (Key ep) = Some tok" using R(6) assms(2) by blast
    show ?thesis
    proof (cases "k = Key ep")
      case True
      have "tk = tok" if "(tk, hn', ep', st') \<in> set vs" "Key ep' = Key ep" for hn' ep' st'
      proof -
        have "addr (Key ep) = Some tk" using R(6) [of "Key ep" tk] that by blast
        then show ?thesis using a by simp
      qed
      then show ?thesis using True by auto
    next
      case False
      have "tk \<noteq> tok" if "(tk, hn', ep', st') \<in> set vs" "Key ep' = k" for hn' ep' st'
        using u [OF that(1)] that(2) False by auto
      then show ?thesis unfolding fun_upd_other [OF False] R(6) set_filter mem_Collect_eq fst_conv by blast
    qed
  qed
  have a3: "hn' = Table_Find (Table_Close t tok) tk \<and> st' = tk \<and> (\<exists>n. 0 < n \<and> n \<le> counter \<and> tk = token_of n)"
    if "(tk, hn', ep', st') \<in> set (filter (\<lambda>v. fst v \<noteq> tok) vs)" for tk hn' ep' st'
  proof -
    have v: "(tk, hn', ep', st') \<in> set vs" "tk \<noteq> tok" using that by simp_all
    moreover from v(1) have "tk \<in> dom (m_byToken t)" unfolding R(4) by force
    ultimately show ?thesis using f R(5) [OF v(1)] by simp
  qed
  show ?thesis
  proof (rule routes_okI [OF table_inv_Close [OF R(1)] _ _ _ a3 a2])
    show "length (m_slots (Table_Close t tok)) \<le> unat counter" using a1 R(2) by simp
    show "distinct (map fst (filter (\<lambda>v. fst v \<noteq> tok) vs))" using R(3) by (simp add: distinct_map_filter)
    show "dom (m_byToken (Table_Close t tok)) = fst ` set (filter (\<lambda>v. fst v \<noteq> tok) vs)"
      unfolding dom_close [OF R(1)] R(4) by auto
  qed
qed

lemma routes_add:
  assumes "routes_ok counter t addr vs" "counter + 1 < 2 ^ 32" "counter < 2 ^ 32" "addr (Key ep) = None" "Table_Open t (token_of (counter + 1)) = (hn, t')"
  shows "token_of (counter + 1) \<notin> fst ` set vs"
    "routes_ok (counter + 1) t' (addr(Key ep \<mapsto> token_of (counter + 1))) (vs @ [(token_of (counter + 1), hn, ep, token_of (counter + 1))])"
proof -
  let ?tok = "token_of (counter + 1)"
  note R = routes_okD [OF assms(1)]
  have up: "unat (counter + 1) = unat counter + 1" using assms(3) by (simp add: word_less_nat_alt unat_word_ariths)
  have le: "n \<le> counter \<Longrightarrow> n \<le> counter + 1" "n \<le> counter \<Longrightarrow> n \<noteq> counter + 1" for n
    using up by (auto simp: word_le_nat_alt)
  show new: "?tok \<notin> fst ` set vs"
  proof
    assume "?tok \<in> fst ` set vs"
    then obtain n where "n \<le> counter" "?tok = token_of n" using R(5) by fastforce
    then show False using token_of_inj le(2) by metis
  qed
  have len: "length (m_slots t) < 2 ^ 32" using R(2) assms(3) by (simp add: word_less_nat_alt)
  have t': "t' = table_step t (OpOpen ?tok)" using assms(5) by simp
  have inv: "table_inv t'" unfolding t' by (rule table_inv_step [OF R(1) len])
  have f: "Table_Find t' k = Table_Find t k" if "k \<in> dom (m_byToken t)" for k
    unfolding t' by (rule find_step [OF R(1) len that]) simp
  have hn: "hn = Table_Find t' ?tok"
    using Open_handle [OF R(1) _ assms(5)] len by (auto simp: room_def Table_Find_def)
  have a1: "length (m_slots t') \<le> unat (counter + 1)" using slots_grow [of t "OpOpen ?tok"] R(2) t' up by simp
  have a2: "(addr(Key ep \<mapsto> ?tok)) k = Some tk \<longleftrightarrow>
      (\<exists>hn' ep' st'. (tk, hn', ep', st') \<in> set (vs @ [(?tok, hn, ep, ?tok)]) \<and> Key ep' = k)" for k tk
    using R(6) assms(4) by auto (metis option.distinct(1))+
  have "0 < counter + 1" using up by (simp add: word_less_nat_alt)
  have a3: "hn' = Table_Find t' tk \<and> st' = tk \<and> (\<exists>n. 0 < n \<and> n \<le> counter + 1 \<and> tk = token_of n)"
    if "(tk, hn', ep', st') \<in> set (vs @ [(?tok, hn, ep, ?tok)])" for tk hn' ep' st'
  proof (cases "(tk, hn', ep', st') \<in> set vs")
    case True
    then have "tk \<in> dom (m_byToken t)" unfolding R(4) by force
    then show ?thesis using f R(5) [OF True] le(1) by auto
  next
    case False
    then show ?thesis using that hn \<open>0 < counter + 1\<close> by auto
  qed
  show "routes_ok (counter + 1) t' (addr(Key ep \<mapsto> ?tok)) (vs @ [(?tok, hn, ep, ?tok)])"
  proof (rule routes_okI [OF inv a1 _ _ a3 a2])
    show "distinct (map fst (vs @ [(?tok, hn, ep, ?tok)]))" using R(3) new by simp
    show "dom (m_byToken t') = fst ` set (vs @ [(?tok, hn, ep, ?tok)])" using R(4) dom_open [of t ?tok] assms(5) by simp
  qed
qed

section \<open>What the operations keep\<close>

text \<open>No account is logged in on two connections.\<close>

definition accounts_ok :: "'s ServerHost \<Rightarrow> bool" where
  "accounts_ok h \<longleftrightarrow> (\<forall>a. length (filter (\<lambda>c. ce_authed (snd c) \<and> ce_accountId (snd c) = a) (ho_conns h)) \<le> 1)"

definition host_ok :: "'s ServerHost \<Rightarrow> bool" where
  "host_ok h \<longleftrightarrow> routing_ok h \<and> (\<not> ho_devAuthStub h \<longrightarrow> accounts_ok h)"

definition login_view :: "u64 \<times> ConnEntry \<Rightarrow> bool \<times> u64" where
  "login_view c = (ce_authed (snd c), ce_accountId (snd c))"

definition frame :: "'s ServerHost \<Rightarrow> u64 \<times> ConnectionTable \<times> (bytes \<rightharpoonup> u64) \<times> bool \<times> view list \<times> (bool \<times> u64) list" where
  "frame h = (ho_tokenCounter h, ho_table h, ho_addrToToken h, ho_devAuthStub h, map view (ho_conns h), map login_view (ho_conns h))"

lemma accounts_frame:
  "accounts_ok h \<longleftrightarrow> (\<forall>a. length (filter (\<lambda>v. fst v \<and> snd v = a) (map login_view (ho_conns h))) \<le> 1)"
  by (simp add: accounts_ok_def filter_map login_view_def comp_def)

lemma frame_ok: "frame h' = frame h \<Longrightarrow> host_ok h' = host_ok h"
  by (simp add: host_ok_def routing_ok_def accounts_frame frame_def)

text \<open>An operation keeps the invariant, the counter and the mode.\<close>

definition host_keeps :: "'s ServerHost \<Rightarrow> 's ServerHost \<Rightarrow> bool" where
  "host_keeps h h' \<longleftrightarrow> ho_tokenCounter h' = ho_tokenCounter h \<and> ho_devAuthStub h' = ho_devAuthStub h \<and>
     (ho_tokenCounter h < 2 ^ 32 \<longrightarrow> host_ok h \<longrightarrow> host_ok h')"

lemma host_keeps_refl [simp]: "host_keeps h h" by (simp add: host_keeps_def)

lemma host_keeps_trans: "host_keeps h h' \<Longrightarrow> host_keeps h' h'' \<Longrightarrow> host_keeps h h''" by (simp add: host_keeps_def)

lemma frame_keeps: "frame h' = frame h \<Longrightarrow> host_keeps h h'"
  using frame_ok by (auto simp: host_keeps_def frame_def)

lemma frame_universe [simp]: "frame (on_universe f h) = frame h" "EntryForToken (on_universe f h) t = EntryForToken h t"
  by (simp_all add: frame_def on_universe_def EntryForToken_def)

lemma entry_put: "EntryForToken h t = Some e \<Longrightarrow> EntryForToken (put_entry t e' h) t = Some e'"
proof -
  have "map_of cs t = Some e \<Longrightarrow> map_of (map (\<lambda>c. if fst c = t then (t, e') else c) cs) t = Some e'" for cs
    by (induction cs) (auto split: if_splits)
  then show "EntryForToken h t = Some e \<Longrightarrow> EntryForToken (put_entry t e' h) t = Some e'" by (simp add: EntryForToken_def put_entry_def)
qed

lemma frame_put:
  assumes "EntryForToken h t = Some e" "distinct (map fst (ho_conns h))" "view (t, e') = view (t, e)" "login_view (t, e') = login_view (t, e)"
  shows "frame (put_entry t e' h) = frame h"
proof -
  have "c = (t, e)" if "c \<in> set (ho_conns h)" "fst c = t" for c
    using that assms(1,2) by (metis EntryForToken_def map_of_is_SomeI option.inject prod.collapse)
  then have "map view (ho_conns (put_entry t e' h)) = map view (ho_conns h)" "map login_view (ho_conns (put_entry t e' h)) = map login_view (ho_conns h)"
    using assms(3,4) by (auto simp: put_entry_def)
  then show ?thesis by (simp add: frame_def put_entry_def)
qed

lemma host_distinct: "host_ok h \<Longrightarrow> distinct (map fst (ho_conns h))"
  using routes_okD(3) by (fastforce simp: host_ok_def routing_ok_def view_def comp_def)

lemma put_fields [simp]:
  "ho_tokenCounter (put_entry t e h) = ho_tokenCounter h" "ho_devAuthStub (put_entry t e h) = ho_devAuthStub h"
  "ho_accounts (put_entry t e h) = ho_accounts h" "ho_universe (put_entry t e h) = ho_universe h" "ho_nowMs (put_entry t e h) = ho_nowMs h"
  by (simp_all add: put_entry_def)

lemma host_keeps_put:
  assumes "EntryForToken h t = Some e" "view (t, e') = view (t, e)" "login_view (t, e') = login_view (t, e)"
  shows "host_keeps h (put_entry t e' h)"
  unfolding host_keeps_def using frame_put [OF assms(1) host_distinct assms(2,3)] frame_ok by auto

text \<open>The driver keeps the token of its connection.\<close>

lemma seal_token: "sn_token (snd (SealApp C ch ty b sn)) = sn_token sn"
  by (auto simp: SealApp_def split: option.splits prod.splits)

lemma SealApp_token: "SealApp C ch ty b sn = (r, sn') \<Longrightarrow> sn_token sn' = sn_token sn"
  using seal_token [of C ch ty b sn] by simp

lemma message_token: "sn_token (snd (snd (Server_HandleAppMessage C m sn))) = sn_token sn"
  by (simp add: Server_HandleAppMessage_def Let_def case_prod_beta seal_token)

lemma messages_token: "sn_token (snd (snd (Server_HandleAppMessages C ms sn))) = sn_token sn"
  by (induction ms arbitrary: sn) (simp_all add: Let_def case_prod_beta message_token)

lemma Server_OnDatagram_token: "sn_token (snd (snd (snd (Server_OnDatagram C dg sn)))) = sn_token sn"
  by (simp add: Server_OnDatagram_def Server_OnClear_def Server_OnEncrypted_def Let_def case_prod_beta messages_token
      split: list.split option.split decoded.split OpenResult.split)

lemma Begin_token: "sn_token (fst (snd (snd (BeginFromCookieResponse C bd sn st)))) = sn_token sn"
  by (simp add: BeginFromCookieResponse_def Let_def case_prod_beta)

lemma driver_token [simp]:
  "sn_token (MarkConnected sn) = sn_token sn" "sn_token (SetPlayerNetId n sn) = sn_token sn"
  "sn_token (Server_SetDilationFactor f sn) = sn_token sn" "sn_token (ServerConnection_new p t c) = t"
  by (simp_all add: MarkConnected_def SetPlayerNetId_def Server_SetDilationFactor_def ServerConnection_new_def)

section \<open>Every operation keeps the invariant\<close>

lemma entry_member: "EntryForToken h t = Some e \<Longrightarrow> (t, e) \<in> set (ho_conns h)"
  by (simp add: EntryForToken_def map_of_SomeD)

lemma drop_fields [simp]:
  "ho_tokenCounter (drop_connection t e h) = ho_tokenCounter h" "ho_devAuthStub (drop_connection t e h) = ho_devAuthStub h"
  "ho_conns (drop_connection t e h) = filter (\<lambda>c. fst c \<noteq> t) (ho_conns h)"
  by (simp_all add: drop_connection_def)

lemma host_keeps_drop:
  assumes "EntryForToken h t = Some e"
  shows "host_keeps h (drop_connection t e h)"
proof -
  have "host_ok (drop_connection t e h)" if c: "ho_tokenCounter h < 2 ^ 32" and ok: "host_ok h"
  proof -
    have m: "(t, ce_handle e, ce_endpoint e, sn_token (ce_conn e)) \<in> set (map view (ho_conns h))"
      using entry_member [OF assms] by (force simp: view_def)
    have f: "filter (\<lambda>v. fst v \<noteq> t) (map view cs) = map view (filter (\<lambda>c. fst c \<noteq> t) cs)" for cs
      by (induction cs) (auto simp: view_def)
    have r: "routing_ok (drop_connection t e h)"
      using routes_drop [OF _ m c] ok by (simp add: host_ok_def routing_ok_def drop_connection_def f)
    have "length (filter (\<lambda>c. P c) (filter Q cs)) \<le> length (filter (\<lambda>c. P c) cs)" for P Q and cs :: "(u64 \<times> ConnEntry) list"
      by (induction cs) auto
    then show ?thesis using r ok unfolding host_ok_def accounts_ok_def drop_fields by (meson le_trans)
  qed
  then show ?thesis by (simp add: host_keeps_def)
qed

lemma host_keeps_universe: "host_keeps h h' \<Longrightarrow> host_keeps h (on_universe f h')"
  by (rule host_keeps_trans [OF _ frame_keeps]) simp_all

lemma host_keeps_remove: "host_keeps h (RemoveConnection t h)"
proof (cases "EntryForToken h t")
  case (Some e)
  let ?h = "on_universe (\<lambda>su. snd (DespawnBase (ce_playerNetId e) su)) h"
  have "host_keeps ?h (drop_connection t e ?h)" by (rule host_keeps_drop) (simp add: Some)
  then show ?thesis unfolding RemoveConnection_def Some option.case by (rule host_keeps_trans [OF host_keeps_universe [OF host_keeps_refl]])
qed (simp add: RemoveConnection_def)

lemma host_keeps_fold: "(\<And>x h. host_keeps h (f x h)) \<Longrightarrow> host_keeps h (fold f xs h)"
  by (induction xs arbitrary: h) (auto intro: host_keeps_trans)

lemma host_keeps_prune: "host_keeps h (snd (PruneStale timeout h))"
  by (simp add: PruneStale_def Let_def host_keeps_fold [OF host_keeps_remove])

lemma host_keeps_kick: "host_keeps h (KickExistingSessionForAccount a t h)"
  unfolding KickExistingSessionForAccount_def Let_def by (rule host_keeps_fold) (auto split: option.split intro: host_keeps_drop)

lemma host_keeps_same:
  assumes "ho_tokenCounter h' = ho_tokenCounter h" "ho_table h' = ho_table h" "ho_addrToToken h' = ho_addrToToken h"
    "ho_devAuthStub h' = ho_devAuthStub h" "ho_conns h' = ho_conns h"
  shows "host_keeps h h'"
  by (rule frame_keeps) (simp add: frame_def assms)

lemma host_keeps_spawn: "SpawnPlayerWorld slot h = Some (n, h') \<Longrightarrow> host_keeps h h' \<and> ho_conns h' = ho_conns h"
  by (auto simp: SpawnPlayerWorld_def Let_def bind_eq_Some_conv intro!: host_keeps_same)

lemma host_keeps_bind_base: "BindAccountBase s h = Some (n, h') \<Longrightarrow> host_keeps h h' \<and> ho_conns h' = ho_conns h"
  by (auto simp: BindAccountBase_def Let_def bind_eq_Some_conv split: if_splits dest!: host_keeps_spawn intro!: host_keeps_same elim!: host_keeps_trans)

lemma host_keeps_dilation: "host_keeps h (Host_SetDilationFactor f h)"
  by (rule frame_keeps) (auto simp: frame_def Host_SetDilationFactor_def view_def login_view_def)

lemma host_keeps_auth_result: "host_keeps h (snd (SendAuthResult C t ep r h))"
proof (cases "EntryForToken h t")
  case (Some e)
  obtain dg conn where s: "SealApp C Ch_ReliableOrdered Msg_Command
      ([AUTH_OPCODE_RESULT, auth_byte r] @ le_put 4 (ce_playerNetId e) @ le_put 8 (le_get 8 (ce_sessionToken e) :: u64)) (ce_conn e) = (dg, conn)"
    by fastforce
  have "host_keeps h (put_entry t (e\<lparr>ce_conn := conn\<rparr>) h)"
    by (rule host_keeps_put [OF Some]) (simp_all add: view_def login_view_def SealApp_token [OF s])
  then show ?thesis using Some s by (simp add: SendAuthResult_def)
qed (simp add: SendAuthResult_def)

lemma kick_gone:
  fixes h :: "'s ServerHost"
  assumes "c \<in> set (ho_conns (KickExistingSessionForAccount a t h))" "fst c \<noteq> t"
  shows "\<not> (ce_authed (snd c) \<and> ce_accountId (snd c) = a)"
proof -
  let ?f = "\<lambda>token (h :: 's ServerHost). case EntryForToken h token of None \<Rightarrow> h | Some e \<Rightarrow> drop_connection token e h"
  have one: "set (ho_conns (?f k h)) = {c \<in> set (ho_conns h). fst c \<noteq> k}" for k and h :: "'s ServerHost"
    by (auto simp: EntryForToken_def map_of_eq_None_iff rev_image_eqI split: option.splits)
  have "set (ho_conns (fold ?f ks h)) = {c \<in> set (ho_conns h). fst c \<notin> set ks}" for ks
    by (induction ks arbitrary: h) (auto simp: one)
  then show ?thesis using assms by (auto simp: KickExistingSessionForAccount_def Let_def image_iff)
qed

lemma login_accounts:
  assumes "distinct (map fst cs)" "\<forall>c \<in> set cs. fst c \<noteq> t \<longrightarrow> \<not> (ce_authed (snd c) \<and> ce_accountId (snd c) = ce_accountId e)"
    "\<forall>a. length (filter (\<lambda>c. ce_authed (snd c) \<and> ce_accountId (snd c) = a) cs) \<le> 1"
  shows "\<forall>a. length (filter (\<lambda>c. ce_authed (snd c) \<and> ce_accountId (snd c) = a) (map (\<lambda>c. if fst c = t then (t, e) else c) cs)) \<le> 1"
proof
  fix a
  let ?P = "\<lambda>c. ce_authed (snd c) \<and> ce_accountId (snd c) = a"
  let ?m = "\<lambda>c. if fst c = t then (t, e) else c"
  show "length (filter ?P (map ?m cs)) \<le> 1"
  proof (cases "a = ce_accountId e")
    case True
    have "length (filter ?P (map ?m cs)) \<le> length (filter (\<lambda>c. fst c = t) cs)" using assms(2) True by (induction cs) auto
    moreover have "length (filter (\<lambda>c. fst c = t) cs) \<le> 1"
      using assms(1) by (induction cs) (auto simp: image_iff filter_empty_conv)
    ultimately show ?thesis by linarith
  next
    case False
    have "length (filter ?P (map ?m cs)) \<le> length (filter ?P cs)" using False by (induction cs) auto
    then show ?thesis using assms(3) le_trans by blast
  qed
qed

lemma host_keeps_bind:
  assumes "bind_session t s h = Some h'"
  shows "host_keeps h h'"
proof -
  let ?k = "KickExistingSessionForAccount (si_accountId s) t h"
  obtain n h1 e where b: "BindAccountBase s ?k = Some (n, h1)" and e: "EntryForToken h1 t = Some e"
    and h': "h' = on_universe (create_baseline n) (put_entry t (e\<lparr>ce_conn := MarkConnected (SetPlayerNetId n (ce_conn e)), ce_playerNetId := n,
      ce_authed := True, ce_accountId := si_accountId s, ce_sessionToken := si_token s\<rparr>) h1)"
    using assms by (auto simp: bind_session_def Let_def bind_eq_Some_conv)
  let ?e = "e\<lparr>ce_conn := MarkConnected (SetPlayerNetId n (ce_conn e)), ce_playerNetId := n, ce_authed := True,
      ce_accountId := si_accountId s, ce_sessionToken := si_token s\<rparr>"
  note bb = host_keeps_bind_base [OF b]
  have "host_ok (put_entry t ?e h1)" if ok: "host_ok h1"
  proof -
    note d = host_distinct [OF ok]
    have "c = (t, e)" if "c \<in> set (ho_conns h1)" "fst c = t" for c
      using that e d by (metis EntryForToken_def map_of_is_SomeI option.inject prod.collapse)
    then have "map view (ho_conns (put_entry t ?e h1)) = map view (ho_conns h1)" by (auto simp: put_entry_def view_def)
    then have r: "routing_ok (put_entry t ?e h1)" using ok by (simp add: host_ok_def routing_ok_def) (simp add: put_entry_def)
    have "accounts_ok (put_entry t ?e h1)" if a: "accounts_ok h1"
    proof -
      have "\<forall>c \<in> set (ho_conns h1). fst c \<noteq> t \<longrightarrow> \<not> (ce_authed (snd c) \<and> ce_accountId (snd c) = ce_accountId ?e)"
        using kick_gone [of _ "si_accountId s" t h] bb by simp
      from login_accounts [OF d this a [unfolded accounts_ok_def]]
      show ?thesis by (simp add: accounts_ok_def put_entry_def)
    qed
    then show ?thesis using r ok by (simp add: host_ok_def)
  qed
  then have "host_keeps h1 (put_entry t ?e h1)" by (simp add: host_keeps_def)
  then show ?thesis unfolding h' by (rule host_keeps_universe [OF host_keeps_trans [OF host_keeps_trans [OF host_keeps_kick conjunct1 [OF bb]]]])
qed

lemma host_keeps_accounts [simp]: "host_keeps h (h\<lparr>ho_accounts := x\<rparr>)"
  by (rule host_keeps_same) simp_all

lemma host_keeps_auth_result_at: "host_keeps h h1 \<Longrightarrow> SendAuthResult C t ep r h1 = (out, h') \<Longrightarrow> host_keeps h h'"
  using host_keeps_trans [OF _ host_keeps_auth_result [where h = h1]] by (metis snd_conv)

lemma host_keeps_OnAuthMessage: "OnAuthMessage C ev t ep body h = Some (out, h') \<Longrightarrow> host_keeps h h'"
  by (auto simp: OnAuthMessage_def Let_def split: option.splits prod.splits if_splits
      intro: host_keeps_auth_result_at [OF host_keeps_refl] host_keeps_auth_result_at [OF host_keeps_accounts]
        host_keeps_auth_result_at [OF host_keeps_trans [OF host_keeps_accounts host_keeps_bind]])

lemma host_keeps_message: "HandleClientMessage C ev t ep m h = Some (out, h') \<Longrightarrow> host_keeps h h'"
  by (auto simp: HandleClientMessage_def split: option.splits if_splits intro: host_keeps_OnAuthMessage host_keeps_universe)

lemma host_keeps_messages: "HandleClientMessages C ev t ep ms h = Some (out, h') \<Longrightarrow> host_keeps h h'"
  by (induction ms arbitrary: h out) (auto simp: bind_eq_Some_conv intro: host_keeps_trans [OF host_keeps_message])

lemma host_keeps_dispatch:
  assumes "EntryForToken h t = Some e0" "view (t, e) = view (t, e0)" "login_view (t, e) = login_view (t, e0)"
    "DispatchToConnection C ev t e ep dg h = Some (out, h')"
  shows "host_keeps h h'"
proof -
  obtain ok app send conn where o: "Server_OnDatagram C dg (ce_conn e) = (ok, app, send, conn)" by (metis prod_cases4)
  have "sn_token conn = sn_token (ce_conn e)" using Server_OnDatagram_token [of C dg "ce_conn e"] o by simp
  then have p: "host_keeps h (put_entry t (e\<lparr>ce_conn := conn\<rparr>) h)"
    using assms(2,3) by (intro host_keeps_put [OF assms(1)]) (simp_all add: view_def login_view_def)
  show ?thesis
    using assms(4) p by (auto simp: DispatchToConnection_def o bind_eq_Some_conv split: if_splits intro: host_keeps_trans [OF _ host_keeps_messages])
qed

lemma host_keeps_serve:
  assumes "EntryForToken h t = Some e" "serve C ev t e ep dg h = Some (out, h')"
  shows "host_keeps h h'"
proof -
  let ?e = "e\<lparr>ce_lastSeenMs := ho_nowMs h\<rparr>"
  have p: "host_keeps h (put_entry t ?e h)" by (rule host_keeps_put [OF assms(1)]) (simp_all add: view_def login_view_def)
  obtain o1 h1 where d: "DispatchToConnection C ev t ?e ep dg (put_entry t ?e h) = Some (o1, h1)"
    and h': "h' = h1 \<or> h' = RemoveConnection t h1"
    using assms(2) by (auto simp: serve_def Let_def bind_eq_Some_conv split: if_splits)
  have k: "host_keeps h h1" by (rule host_keeps_trans [OF p host_keeps_dispatch [OF entry_put [OF assms(1)] refl refl d]])
  show ?thesis using h' k host_keeps_trans [OF k host_keeps_remove] by blast
qed

lemma find_member: "find P xs = Some x \<Longrightarrow> x \<in> set xs \<and> P x"
  by (induction xs) (auto split: if_splits)

lemma host_keeps_send: "host_keeps h (snd (send_snapshot C er (out, h)))"
proof (cases "EntryForClient h (en_clientId er)")
  case (Some a)
  obtain t e where a: "a = (t, e)" by fastforce
  obtain dg conn where s: "SealApp C Ch_Unreliable Msg_Snapshot (EncodeDeltaSnapshot (en_snap er)) (ce_conn e) = (dg, conn)" by fastforce
  have "host_keeps h (put_entry t (e\<lparr>ce_conn := conn\<rparr>) h)"
  proof (cases "host_ok h")
    case True
    have "EntryForToken h t = Some e"
      using find_member Some a host_distinct [OF True] by (fastforce simp: EntryForClient_def EntryForToken_def)
    then show ?thesis by (rule host_keeps_put) (simp_all add: view_def login_view_def SealApp_token [OF s])
  qed (simp add: host_keeps_def)
  then show ?thesis using Some a s by (simp add: send_snapshot_def host_keeps_universe)
qed (simp add: send_snapshot_def)

lemma host_keeps_sends: "host_keeps h (snd (fold (send_snapshot C) rs (out, h)))"
proof (induction rs arbitrary: out h)
  case (Cons r rs)
  obtain o1 h1 where s: "send_snapshot C r (out, h) = (o1, h1)" by fastforce
  have "host_keeps h h1" using host_keeps_send [of h C r out] s by simp
  then show ?case using Cons s by (auto intro: host_keeps_trans)
qed simp

lemma host_keeps_broadcast: "host_keeps h (snd (BroadcastSnapshots C w h))"
proof -
  have u: "host_keeps h (h\<lparr>ho_universe := su\<rparr>)" for su by (rule host_keeps_same) simp_all
  show ?thesis by (auto simp: BroadcastSnapshots_def Let_def intro: host_keeps_trans [OF u host_keeps_sends] split: prod.split)
qed

section \<open>A new connection enters the tables\<close>

lemma dom_conns: "EntryForToken h t = None \<longleftrightarrow> t \<notin> fst ` set (ho_conns h)"
  by (simp add: EntryForToken_def map_of_eq_None_iff)

text \<open>The tables are left alone, or a token has been drawn and one connection added.\<close>

definition grows :: "'s ServerHost \<Rightarrow> 's ServerHost \<Rightarrow> bool" where
  "grows h h' \<longleftrightarrow> ho_tokenCounter h' = ho_tokenCounter h + 1 \<and> ho_devAuthStub h' = ho_devAuthStub h \<and>
     (ho_tokenCounter h + 1 < 2 ^ 32 \<longrightarrow> ho_tokenCounter h < 2 ^ 32 \<longrightarrow> host_ok h \<longrightarrow> host_ok h')"

lemma spawn_universe: "SpawnPlayerWorld slot h = Some (n, h') \<Longrightarrow> \<exists>su. h' = h\<lparr>ho_universe := su\<rparr>"
  by (auto simp: SpawnPlayerWorld_def Let_def bind_eq_Some_conv)

lemma open_entry:
  fixes h :: "'s ServerHost"
  assumes "routes_ok c (ho_table h) (ho_addrToToken h) (map view (ho_conns h))" "ho_tokenCounter h = c + 1" "c < 2 ^ 32" "c + 1 < 2 ^ 32"
    "ho_addrToToken h (Key ep) = None" "sn_token conn = token_of (c + 1)" "open_connection C ep bd (token_of (c + 1)) n conn h = (out, h')"
  shows "routing_ok h' \<and> ho_tokenCounter h' = c + 1 \<and> ho_devAuthStub h' = ho_devAuthStub h \<and>
    (\<exists>e. ho_conns h' = ho_conns h @ [(token_of (c + 1), e)] \<and> ce_authed e = ho_devAuthStub h)"
proof -
  obtain r send conn' cst where b: "BeginFromCookieResponse C bd conn (ho_crypto h) = (r, send, conn', cst)" by (metis prod_cases4)
  obtain hn t where t: "Table_Open (ho_table h) (token_of (c + 1)) = (hn, t)" by fastforce
  note ad = routes_add [OF assms(1,4,3,5) t]
  have tk: "sn_token conn' = token_of (c + 1)" using Begin_token [of C bd conn "ho_crypto h"] assms(6) b by simp
  define e where "e = \<lparr>ce_conn = conn', ce_endpoint = ep, ce_handle = hn, ce_lastSeenMs = ho_nowMs h, ce_playerNetId = n,
                   ce_authed = ho_devAuthStub h, ce_accountId = 0, ce_sessionToken = replicate SESSION_TOKEN_BYTES 0\<rparr>"
  define h1 where "h1 = h\<lparr>ho_crypto := cst, ho_table := t, ho_conns := ho_conns h @ [(token_of (c + 1), e)],
      ho_addrToToken := (ho_addrToToken h)(Key ep \<mapsto> token_of (c + 1))\<rparr>"
  have new: "EntryForToken h (token_of (c + 1)) = None"
    using ad(1) by (simp add: dom_conns view_def image_image)
  have h': "h' = h1 \<or> h' = on_universe (create_baseline n) h1"
    using assms(7) new by (auto simp: open_connection_def b t Let_def EntryForToken_def e_def h1_def split: if_splits)
  have "routing_ok h1" using ad(2) assms(2) by (simp add: routing_ok_def h1_def view_def e_def tk)
  then have "routing_ok h'" using h' by (auto simp: routing_ok_def on_universe_def)
  then show ?thesis using h' assms(2) by (auto simp: h1_def on_universe_def e_def)
qed

lemma grows_accept:
  assumes "host_ok h \<Longrightarrow> ho_addrToToken h (Key ep) = None" "accept_peer C ep bd h = Some (out, h')"
  shows "grows h h'"
proof -
  let ?h = "h\<lparr>ho_tokenCounter := ho_tokenCounter h + 1\<rparr>" and ?t = "token_of (ho_tokenCounter h + 1)"
  let ?conn = "Server_SetDilationFactor (ho_dilation h) (ServerConnection_new (ho_staticPriv h) ?t (ho_serverTime h))"
  obtain n conn su where o: "open_connection C ep bd ?t n conn (?h\<lparr>ho_universe := su\<rparr>) = (out, h')" and tk: "sn_token conn = ?t"
  proof (cases "ho_devAuthStub h")
    case True
    then obtain n h1 where s: "SpawnPlayerWorld (of_nat (length (ho_conns h))) ?h = Some (n, h1)"
      and o: "open_connection C ep bd ?t n (SetPlayerNetId n ?conn) h1 = (out, h')"
      using assms(2) by (auto simp: accept_peer_def NextToken_eq)
    then show ?thesis using spawn_universe [OF s] that [of n "SetPlayerNetId n ?conn"] by auto
  next
    case False
    then have "open_connection C ep bd ?t 0 ?conn (?h\<lparr>ho_universe := ho_universe h\<rparr>) = (out, h')"
      using assms(2) by (simp add: accept_peer_def NextToken_eq)
    then show ?thesis by (rule that) simp
  qed
  have "host_ok h'" if c: "ho_tokenCounter h + 1 < 2 ^ 32" "ho_tokenCounter h < 2 ^ 32" and ok: "host_ok h"
  proof -
    have "routes_ok (ho_tokenCounter h) (ho_table h) (ho_addrToToken h) (map view (ho_conns h))"
      using ok by (simp add: host_ok_def routing_ok_def)
    then have "routing_ok h' \<and> ho_devAuthStub h' = ho_devAuthStub h \<and>
        (\<exists>e. ho_conns h' = ho_conns h @ [(?t, e)] \<and> ce_authed e = ho_devAuthStub h)"
      using open_entry [OF _ _ c(2,1) _ tk o] assms(1) [OF ok] by simp
    then show ?thesis using ok by (auto simp: host_ok_def accounts_ok_def)
  qed
  moreover have "ho_tokenCounter h' = ho_tokenCounter h + 1 \<and> ho_devAuthStub h' = ho_devAuthStub h"
    using o by (auto simp: open_connection_def Let_def on_universe_def split: prod.splits if_splits)
  ultimately show ?thesis by (simp add: grows_def)
qed

lemma serve_entry:
  assumes "Option.bind t (\<lambda>t. map_option (Pair t) (EntryForToken h t)) = Some (tok, e)" "serve C ev tok e ep dg h = Some (out, h')"
  shows "host_keeps h h'"
  using assms by (auto simp: bind_eq_Some_conv intro: host_keeps_serve)

lemma known_address:
  assumes "host_ok h" "Option.bind (ho_addrToToken h k) (\<lambda>t. map_option (Pair t) (EntryForToken h t)) = None"
  shows "ho_addrToToken h k = None"
proof (rule ccontr)
  assume "ho_addrToToken h k \<noteq> None"
  then obtain t where t: "ho_addrToToken h k = Some t" by blast
  have r: "routes_ok (ho_tokenCounter h) (ho_table h) (ho_addrToToken h) (map view (ho_conns h))"
    using assms(1) by (simp add: host_ok_def routing_ok_def)
  have "EntryForToken h t = None" using assms(2) t by simp
  then show False using routes_okD(6) [OF r, of k t] t by (force simp: dom_conns view_def)
qed

lemma grows_unknown:
  assumes "Option.bind (ho_addrToToken h (Key ep)) (\<lambda>t. map_option (Pair t) (EntryForToken h t)) = None"
    "accept_peer C ep bd h = Some (out, h')"
  shows "grows h h'"
  by (rule grows_accept [OF known_address [OF _ assms(1)] assms(2)])

lemma datagram_step: "OnDatagram C ev ep dg h = Some (out, h') \<Longrightarrow> host_keeps h h' \<or> grows h h'"
  by (auto simp: OnDatagram_def Let_def split: if_splits option.splits decoded.splits
      intro: serve_entry dest: grows_unknown)

section \<open>Runs of the host\<close>

text \<open>What the server process does with its host: it hands it datagrams, sends the snapshots, prunes, sets the
  clocks and the dilation, and steps the simulation (any change of the universe).\<close>

datatype HostEvent =
    HostDatagram AuthEnv Endpoint bytes
  | HostBroadcast nat
  | HostPrune u64
  | HostClock u64
  | HostUnixTime int
  | HostDilation double
  | HostUniverse "server \<Rightarrow> server"

fun host_step :: "'s ICrypto \<Rightarrow> HostEvent \<Rightarrow> 's ServerHost \<Rightarrow> 's ServerHost option" where
  "host_step C (HostDatagram ev ep dg) h = map_option snd (OnDatagram C ev ep dg h)"
| "host_step C (HostBroadcast workers) h = Some (snd (BroadcastSnapshots C workers h))"
| "host_step C (HostPrune timeout) h = Some (snd (PruneStale timeout h))"
| "host_step C (HostClock now) h = Some (SetClockMs now h)"
| "host_step C (HostUnixTime now) h = Some (SetUnixTime now h)"
| "host_step C (HostDilation f) h = Some (Host_SetDilationFactor f h)"
| "host_step C (HostUniverse f) h = Some (on_universe f h)"

fun host_run :: "'s ICrypto \<Rightarrow> HostEvent list \<Rightarrow> 's ServerHost \<Rightarrow> 's ServerHost option" where
  "host_run C [] h = Some h"
| "host_run C (e # es) h = do { h \<leftarrow> host_step C e h; host_run C es h }"

lemma step_keeps: "host_step C e h = Some h' \<Longrightarrow> host_keeps h h' \<or> grows h h'"
proof (cases e)
  case (HostDatagram ev ep dg)
  then show "host_step C e h = Some h' \<Longrightarrow> ?thesis" using datagram_step by fastforce
qed (auto intro: host_keeps_broadcast host_keeps_prune host_keeps_dilation host_keeps_universe host_keeps_same simp: SetClockMs_def SetUnixTime_def)

lemma run_ok:
  "host_run C es h = Some h' \<Longrightarrow> unat (ho_tokenCounter h) + length es < 2 ^ 32 \<Longrightarrow> host_ok h \<Longrightarrow>
   host_ok h' \<and> ho_devAuthStub h' = ho_devAuthStub h"
proof (induction es arbitrary: h)
  case (Cons e es)
  obtain h1 where s: "host_step C e h = Some h1" and r: "host_run C es h1 = Some h'"
    using Cons.prems(1) by (auto simp: bind_eq_Some_conv)
  have c: "ho_tokenCounter h < 2 ^ 32" "ho_tokenCounter h + 1 < 2 ^ 32" "unat (ho_tokenCounter h + 1) = unat (ho_tokenCounter h) + 1"
    using Cons.prems(2) by (auto simp: word_less_nat_alt unat_word_ariths)
  have "host_ok h1 \<and> ho_devAuthStub h1 = ho_devAuthStub h \<and> unat (ho_tokenCounter h1) \<le> unat (ho_tokenCounter h) + 1"
    using step_keeps [OF s] c Cons.prems(3) by (auto simp: host_keeps_def grows_def)
  then show ?case using Cons.IH [OF r] Cons.prems(2) by auto
qed simp

definition fresh_host :: "'s \<Rightarrow> bytes \<Rightarrow> bytes \<Rightarrow> server \<Rightarrow> u64 \<Rightarrow> AccountStore option \<Rightarrow> EconWorker option \<Rightarrow> bool \<Rightarrow> 's ServerHost" where
  "fresh_host cst priv key su time accounts persist dev = SetPersistDeps accounts persist dev (ServerHost_new cst priv key su time)"

lemma fresh_host_ok: "host_ok (fresh_host cst priv key su time accounts persist dev)"
  by (simp add: host_ok_def routing_ok_def routes_ok_def fresh_host_def SetPersistDeps_def ServerHost_new_def accounts_ok_def table_inv_new,
      simp add: ConnectionTable_new_def)

text \<open>C13: Whatever datagrams arrive, in whatever order, with whatever logins, timeouts and snapshots between them, the
  three tables that route datagrams agree, over the first 2^32 - 1 events of a server: the connections are exactly
  the open tokens of the table, each with its current handle and with a driver of the same token, and a peer
  address leads to a token exactly if that connection has the address.  Unless the server runs with the
  development stub, no account is logged in on two connections.\<close>

theorem host_routing_consistent:
  "case host_run C (take (2 ^ 32 - 1) es) (fresh_host cst priv key su time accounts persist dev) of
     None \<Rightarrow> True
   | Some h \<Rightarrow>
       (\<forall>t. map_option (\<lambda>e. (ce_handle e, sn_token (ce_conn e))) (EntryForToken h t) =
          (if m_byToken (ho_table h) t = None then None else Some (Table_Find (ho_table h) t, t))) \<and>
       (\<forall>k t. (ho_addrToToken h k = Some t) = (\<exists>e. EntryForToken h t = Some e \<and> Key (ce_endpoint e) = k)) \<and>
       (\<forall>a. length (filter (\<lambda>c. ce_authed (snd c) \<and> ce_accountId (snd c) = a) (ho_conns h)) \<le> (if dev then ConnectionCount h else 1))"
proof (cases "host_run C (take (2 ^ 32 - 1) es) (fresh_host cst priv key su time accounts persist dev)")
  case (Some h)
  have "ho_tokenCounter (fresh_host cst priv key su time accounts persist dev) = 0"
    "ho_devAuthStub (fresh_host cst priv key su time accounts persist dev) = dev"
    by (simp_all add: fresh_host_def SetPersistDeps_def ServerHost_new_def)
  then have ok: "host_ok h" "ho_devAuthStub h = dev" using run_ok [OF Some _ fresh_host_ok] by auto
  then have r: "routes_ok (ho_tokenCounter h) (ho_table h) (ho_addrToToken h) (map view (ho_conns h))"
    by (simp add: host_ok_def routing_ok_def)
  note R = routes_okD [OF r]
  have entry: "EntryForToken h t = Some e \<longleftrightarrow> (t, e) \<in> set (ho_conns h)" for t e
    by (simp add: EntryForToken_def host_distinct [OF ok(1)])
  have member: "(tok, hn, ep, st) \<in> set (map view (ho_conns h)) \<longleftrightarrow>
      (\<exists>e. EntryForToken h tok = Some e \<and> hn = ce_handle e \<and> ep = ce_endpoint e \<and> st = sn_token (ce_conn e))" for tok hn ep st
    unfolding entry by (force simp: view_def)
  have "map_option (\<lambda>e. (ce_handle e, sn_token (ce_conn e))) (EntryForToken h t) =
          (if m_byToken (ho_table h) t = None then None else Some (Table_Find (ho_table h) t, t))" for t
  proof (cases "EntryForToken h t")
    case None
    then show ?thesis using R(4) dom_conns [of h t] by (auto simp: view_def image_image domIff)
  next
    case (Some e)
    then have "t \<in> dom (m_byToken (ho_table h))" unfolding R(4) using entry by (force simp: view_def)
    then show ?thesis using R(5) [of t "ce_handle e" "ce_endpoint e" "sn_token (ce_conn e)"] Some unfolding member by auto
  qed
  moreover have "(ho_addrToToken h k = Some t) = (\<exists>e. EntryForToken h t = Some e \<and> Key (ce_endpoint e) = k)" for k t
    unfolding R(6) member by auto
  moreover have "length (filter (\<lambda>c. ce_authed (snd c) \<and> ce_accountId (snd c) = a) (ho_conns h)) \<le> (if dev then ConnectionCount h else 1)" for a
    using ok by (simp add: host_ok_def accounts_ok_def ConnectionCount_def)
  ultimately show ?thesis unfolding Some option.case by blast
qed simp

section \<open>A forged clear datagram\<close>

text \<open>C17: The clear path stays open to a peer address after the session is encrypted: two bytes from the address
  of a player, which anybody can forge, end the connection and destroy the base of the player.\<close>

theorem forged_clear_datagram_destroys_base:
  assumes "ho_addrToToken h (Key ep) = Some t" "EntryForToken h t = Some e"
  shows "\<exists>h'. OnDatagram C ev ep [Kind_ClearHandshake, Msg_ClockSyncRequest] h = Some ([], h') \<and> EntryForToken h' t = None \<and>
    ho_universe h' = snd (DespawnBase (ce_playerNetId e) (ho_universe h))"
proof -
  let ?dg = "[Kind_ClearHandshake, Msg_ClockSyncRequest] :: bytes"
  let ?e = "e\<lparr>ce_lastSeenMs := ho_nowMs h\<rparr>"
  have o: "Server_OnDatagram C ?dg sn = (False, [], [], sn\<lparr>sn_state := Disconnected\<rparr>)" for sn
    by (simp add: Server_OnDatagram_def Server_OnClear_def OnClockSyncRequest_def ClockSync_Decode_def Kind_defs MsgType_defs)
  have ne: "Msg_ClockSyncRequest \<noteq> Msg_CookieResponse" by (simp add: MsgType_defs)
  let ?e' = "?e\<lparr>ce_conn := (ce_conn e)\<lparr>sn_state := Disconnected\<rparr>\<rparr>"
  define h1 where "h1 = put_entry t ?e' (put_entry t ?e h)"
  have d: "DispatchToConnection C ev t ?e ep ?dg (put_entry t ?e h) = Some ([], h1)"
    using ne by (simp add: DispatchToConnection_def o h1_def)
  have e1: "EntryForToken h1 t = Some ?e'" unfolding h1_def by (rule entry_put [OF entry_put [OF assms(2)]])
  have r: "serve C ev t e ep ?dg h = Some ([], RemoveConnection t h1)"
    by (simp add: serve_def Let_def d e1)
  have "OnDatagram C ev ep ?dg h = Some ([], RemoveConnection t h1)"
    by (simp add: OnDatagram_def Kind_defs) (simp add: assms r [unfolded Kind_defs])
  moreover have "EntryForToken (RemoveConnection t h1) t = None"
    unfolding dom_conns by (auto simp: RemoveConnection_def e1)
  moreover have "ho_universe h1 = ho_universe h" by (simp add: h1_def)
  then have "ho_universe (RemoveConnection t h1) = snd (DespawnBase (ce_playerNetId e) (ho_universe h))"
    by (simp add: RemoveConnection_def e1 drop_connection_def on_universe_def)
  ultimately show ?thesis by blast
qed

definition demo_peer :: Endpoint where "demo_peer = \<lparr>ep_ip = [49], ep_port = 7\<rparr>"

definition demo_entry :: ConnEntry where
  "demo_entry = \<lparr>ce_conn = (ServerConnection_new [] 5 0)\<lparr>sn_state := Connected\<rparr>, ce_endpoint = demo_peer, ce_handle = ConnHandle_none,
     ce_lastSeenMs = 0, ce_playerNetId = 9, ce_authed = True, ce_accountId = 1, ce_sessionToken = []\<rparr>"

definition demo_host :: "unit ServerHost" where
  "demo_host = (fresh_host () [] [] ServerUniverse_new 0 None None False)\<lparr>ho_conns := [(5, demo_entry)], ho_addrToToken := [Key demo_peer \<mapsto> 5]\<rparr>"

theorem forged_clear_datagram_destroys_base_witness:
  "\<forall>C. \<exists>h'. OnDatagram C plain_env demo_peer [0, 7] demo_host = Some ([], h') \<and> EntryForToken h' 5 = None \<and>
    ho_universe h' = snd (DespawnBase 9 ServerUniverse_new)"
proof
  fix C :: "unit ICrypto"
  have "ho_addrToToken demo_host (Key demo_peer) = Some 5" "EntryForToken demo_host 5 = Some demo_entry"
    "ho_universe demo_host = ServerUniverse_new" "ce_playerNetId demo_entry = 9"
    by (simp_all add: demo_host_def EntryForToken_def demo_entry_def fresh_host_def SetPersistDeps_def ServerHost_new_def)
  then show "\<exists>h'. OnDatagram C plain_env demo_peer [0, 7] demo_host = Some ([], h') \<and> EntryForToken h' 5 = None \<and>
    ho_universe h' = snd (DespawnBase 9 ServerUniverse_new)"
    using forged_clear_datagram_destroys_base [of demo_host demo_peer 5 demo_entry C plain_env] by (simp add: Kind_defs MsgType_defs)
qed

section \<open>The base of a returning player\<close>

text \<open>C18: A returning player never gets its base back.  No statement of the account store writes a row of the
  table of bases, so whatever calls were made to the store since its tables were empty, the session of a login
  has the base 0 and the player is given a new base as at its first login.\<close>

theorem every_login_spawns_base:
  assumes "Login ev user pass ip now (fold store_step calls (fresh_store cfg)) = ((Auth_Ok, session), st')"
  shows "map_option (\<lambda>(n, h'). (n, ho_universe h')) (BindAccountBase session h) =
    map_option (\<lambda>(n, h'). (n, ho_universe h')) (SpawnPlayerWorld (of_nat (ConnectionCount h)) h)"
proof -
  let ?st = "fold store_step calls (fresh_store cfg)"
  have b: "ad_bases (sq_db (as_conn ?st)) = []" "store_ok ?st"
    using store_run_ok [OF fresh_ok, of calls cfg] by (simp_all add: fresh_store_def AccountStore_new_def empty_tables_def)
  have "si_baseId session = 0"
    using Login_effect [OF assms] b by (auto simp: store_ok_def issued_def)
  then show ?thesis
    by (cases "SpawnPlayerWorld (of_nat (length (ho_conns h))) h") (auto simp: BindAccountBase_def Let_def ConnectionCount_def)
qed

theorem every_login_spawns_base_witness:
  "map_option (\<lambda>(n, h'). (n, ho_universe h')) (BindAccountBase (snd (fst (Login plain_env bob secret [] 100 registered))) demo_host) =
   map_option (\<lambda>(n, h'). (n, ho_universe h')) (SpawnPlayerWorld 1 demo_host)"
proof -
  have "Login plain_env bob secret [] 100 (fold store_step [(plain_env, CallRegister bob secret)] (fresh_store plain_cfg)) =
      ((Auth_Ok, snd (fst (Login plain_env bob secret [] 100 registered))), snd (Login plain_env bob secret [] 100 registered))"
    using demo_login(1) by (simp add: registered_def prod_eq_iff)
  from every_login_spawns_base [OF this, of demo_host] show ?thesis by (simp add: demo_host_def ConnectionCount_def)
qed

end
