(* ===== verification/Spec2Isabelle.thy ===== *)
theory Spec2Isabelle
  imports Sequence_Math Replay_Window Warm_Restart Fake_Crypto Handshake_FSM Secure_Channel Connection_Driver Connection_Table Economy_Outbox Reliability_Layer Snapshot_Client Interest_Grid Replication Persistence_Thread Sim_Clock Ecs Serde_Bytes Command_Codec Combat_Rules Economy_Rules Navigation Combat_Catalog Shape_Catalog Universe_Data Sim_World Server_Spawn Server_Orders World_Frame Fleet_Commands Server_Systems Base_Safety Server_Snapshots Server_Persist Restart_Roundtrip Snapshot_Jobs Account_Store Server_Host
begin

text \<open>
  The server of EarthRise: its protocol, its authoritative simulation, its replication and its
  persistence, translated from the C++ sources under \<open>NeuronCore\<close> and \<open>ERServer\<close>.  Definitions
  keep the names of the code; where a name is taken, a prefix names the class
  (\<open>Server_OnDatagram\<close>, \<open>Table_Open\<close>, \<open>Host_SetDilationFactor\<close>).

  How the program works.  A client reaches the server by UDP.  A datagram is a clear handshake
  message or a sealed payload of framed messages.  \<open>ServerHost\<close> answers unknown peers without
  state until they return a valid cookie; then it opens a slot in the connection table and a
  connection driver, which runs the key exchange, the clock sync and the secure channel.  Over the
  channel the player registers or logs in at the account store, and its fleet commands change the
  simulation (\<open>ServerUniverse\<close>), which steps at 30 Hz under a clock that may dilate.  After a
  step each connected client is sent a delta snapshot of what its interest grid subscribes to,
  ordered by priority within a byte budget.  Events of the economy go through a write-through
  outbox to the database, positions through a write-behind queue, and the whole state is captured
  in a blob from which a restarted server is restored.

  Theories and sources (\<open>NeuronCore\<close> unless another directory is named).

  Shared: \<open>ER_Prelude\<close> (machine types, decoder outcomes, lemmas on lists and words),
  \<open>Double_Arith\<close>, \<open>Single_Arith\<close>, \<open>Float_Arith\<close> (floating point: exact rational results
  rounded to nearest even), \<open>Ordered_Map\<close> (\<open>std::map\<close>).

  Wire: \<open>Sequence_Math\<close> (\<open>SequenceMath.h\<close>), \<open>Bit_Stream\<close> (\<open>BitStream.h\<close>), \<open>Serde_Buffer\<close> and
  \<open>Serde_Bytes\<close> (\<open>Serde.h\<close>), \<open>Packet_Codec\<close> (\<open>Protocol.h\<close>, \<open>PacketCodec.h\<close>),
  \<open>Handshake_Messages\<close> (\<open>HandshakeMessages.h\<close>), \<open>Command_Codec\<close> (\<open>Command.h\<close>), \<open>Snapshot_Codec\<close>
  and \<open>Snapshot_Client\<close> (\<open>Snapshot.h\<close>).  Bits and bytes are specified by the locales
  \<open>bit_sink\<close> and \<open>bit_source\<close>, which the bit stream and the serialization buffers
  interpret; the locales \<open>writer_codec\<close>, \<open>codec\<close> and \<open>checked_codec\<close> and \<open>message_body\<close>
  turn a proof for one record into the round trip of lists of them.  The lemmas show round
  trips, that no decoder reads out of range and that truncated input is an error.

  Connection: \<open>Crypto_Interface\<close> (\<open>ICrypto.h\<close>, a parameter with the laws of the locale
  \<open>crypto_suite\<close>), \<open>Fake_Crypto\<close> (\<open>FakeCrypto.h\<close>, its interpretation), \<open>Handshake_FSM\<close>
  (\<open>Handshake.h\<close>), \<open>Replay_Window\<close> (\<open>ReplayWindow.h\<close>, with the locale \<open>replay_filter\<close>),
  \<open>Secure_Channel\<close> (\<open>SecureChannel.h\<close>), \<open>Connection_Driver\<close> (\<open>Connection.h\<close>),
  \<open>Connection_Table\<close> (\<open>ConnectionTable.h\<close>), \<open>Reliability_Layer\<close> (\<open>Reliability.h\<close>).  The lemmas
  show whose keys a client accepts, that a sealed payload is accepted once and only if the
  peer sealed it, that an honest session connects, that handles do not outlive their slots and
  that no message is lost or delivered twice, against every behaviour of the network, and through any
  number of wraps of the 16-bit message numbers.

  Simulation: \<open>Ecs\<close> (\<open>Ecs.h\<close>; a sparse set refines a map, locale \<open>component_map\<close>, and the world a
  map from live handles to components), \<open>Sim_Types\<close> (\<open>Components.h\<close> and the tuning structs),
  \<open>Universe_Pos\<close>, \<open>Universe_Data\<close>, \<open>Combat_Catalog\<close> (\<open>CombatData.h\<close>), \<open>Shape_Catalog\<close>,
  \<open>Combat_Rules\<close> (\<open>Combat.h\<close>), \<open>Economy_Rules\<close> (\<open>Economy.h\<close>), \<open>Navigation\<close> (\<open>Navigation.h\<close>,
  \<open>Movement.h\<close>, \<open>Fleet.h\<close>), and \<open>ServerUniverse.h\<close> in seven theories: \<open>Sim_World\<close> (state),
  \<open>World_Frame\<close> (what operations leave alone), \<open>Server_Spawn\<close>, \<open>Server_Orders\<close>,
  \<open>Server_Systems\<close> (the systems and \<open>Step\<close>), \<open>Server_Snapshots\<close>, \<open>Server_Persist\<close>.
  \<open>Base_Safety\<close>, \<open>Fleet_Commands\<close> and \<open>Restart_Roundtrip\<close> hold the proofs that span them: a step
  destroys no base, a command reaches only the units of its player, a restart loses nothing
  it saved.  \<open>Sim_Clock\<close> is \<open>TimeDilation.h\<close> and \<open>FixedStepAccumulator.h\<close>.

  Replication: \<open>Interest_Grid\<close> and \<open>Replication\<close> (\<open>Interest.h\<close>, \<open>SnapshotScheduler.h\<close>),
  \<open>Snapshot_Jobs\<close> (\<open>SnapshotJobs.h\<close>): what a player sees is what its cells hold, an acknowledged
  version has reached the client, any number of workers encodes what the serial encoder does.

  Persistence: \<open>Economy_Outbox\<close> (\<open>Outbox.h\<close>, \<open>EconomyOutbox.h\<close>), \<open>Economy_Store\<close>
  and \<open>Persistence_Thread\<close> (\<open>ERServer/persist\<close>: \<open>EconomyStore.cpp\<close>, \<open>WriteBehindStore.cpp\<close>,
  \<open>PersistQueue.h\<close>, \<open>PersistenceThread.cpp\<close>), \<open>Account_Store\<close> (\<open>AccountStore.cpp\<close>),
  \<open>Warm_Restart\<close> (\<open>WarmRestart.h\<close>).  A database is a record of tables and a statement a function
  on them with the declared constraints; every call may be refused, or take effect while its
  reply is lost.  The lemmas show exactly-once effects and one live session for an account.

  Composition: \<open>Server_Host\<close> (\<open>ServerHost.h\<close>) joins the connection table, the drivers, the account
  store, the fleet commands and the snapshot jobs.  Over any run of datagrams, broadcasts,
  timeouts and steps its routing tables agree and no account is logged in twice.

  How state and failure are modelled.  A class is a record and a method a function from the old
  state to the results and the new state.  Integers are words of their width; hit points are \<open>int\<close>
  with the wrap of \<open>int32_t\<close> written out where a sum can leave it (\<open>i32\<close>, \<open>trunc32\<close>).  A row fetched
  from the account tables is the bytes of its cells.  A failed
  assertion of the code is \<open>None\<close>; an error is a value of its result type.  A hash map whose
  order of iteration shows is a list in that order or has the order as a parameter; one that is
  only looked up is a partial function.  Nothing is bounded by fuel: the loops
  of the code are structural or have a termination measure (the bits left, the bytes left, the
  catch-up steps left); the search of the beacon graph is a \<open>while_option\<close> that is proved to
  return for every data set.  Bounds appear where the code has
  them: runs of fewer than \<open>2 ^ 32\<close> events for the 32-bit slots of the table, the first \<open>2 ^ 21\<close>
  ticks for the packed keys of the outbox, and for the reliability layer a network that is at most
  1024 messages behind, 31743 ahead and, for an acknowledgement, 65504 late.

  Not modelled, and why: the Windows CNG primitives, sockets, ODBC and the loading of files
  (calls of the operating system; their behaviour is a parameter), the SQL of the snapshot store
  (two statements around the modelled blob), the JSON reader and the cooked file codecs, the
  demo content of \<open>ServerUniverse\<close>, the counters for telemetry, logging and allocators, the loopback
  network and the reconnect timer, the client library beyond its connection driver and
  snapshot decoder, and the audio, the renderer, the game client and the tools, whose code
  is mostly calls of DirectX and XAudio2.  Threads are modelled by their order of
  effects: the persistence thread by its loop body, the snapshot workers one after another, the
  server loop as the sequence of calls it makes.
\<close>

end
